(* ===== verification/Vod_Prelude.thy ===== *)
theory Vod_Prelude
  imports Main "HOL-Library.Word" "HOL-Library.Code_Target_Nat" "HOL-Library.Code_Target_Int"
begin

text \<open>
  What every component shares: the error values of \<^verbatim>\<open>src/src/error.rs\<close>, results with panics,
  Rust's checked, saturating and wrapping integer operations, indexing and slicing that panic out
  of range, the standard library's searches on sorted slices, decimal text, and the list lemmas the
  component proofs use.

  Integers.  A \<open>u32\<close>, \<open>u64\<close> or \<open>usize\<close> value is a \<open>nat\<close> below its bound and an \<open>i32\<close>, \<open>i64\<close> or
  \<open>i128\<close> value is an \<open>int\<close>; \<open>usize\<close> has 64 bits.  Where the source calls \<open>checked_add\<close> and its
  kin the model does too; where it uses a plain operator the model wraps, as a release build does
  (the repository's release profile leaves overflow checks off).  Sums of lengths of vectors that
  are in memory, and products in \<open>u128\<close> of a \<open>u64\<close> and a \<open>u32\<close>, cannot reach their type's bound
  and are written plainly.
\<close>

declare Let_def [simp]

section \<open>Errors and results\<close>

datatype error =
    InvalidRange nat nat nat
  | InvalidMedia string
  | Io string
  | Configuration string
  | Toml string
  | Logging string
  | Unsupported string
  | NotFound string
  | Upstream string
  | LocationRejected string
  | UpstreamUnavailable string

text \<open>
  A Rust function returns a value, returns an error, or panics (a failed \<open>assert!\<close>, \<open>expect\<close>, or
  index out of range).  The last two are the left side of a result.
\<close>

datatype fault = Fail error | Panic

type_synonym 'a res = "fault + 'a"

abbreviation ok :: "'a \<Rightarrow> 'a res" where
  "ok x \<equiv> Inr x"

abbreviation fail :: "error \<Rightarrow> 'a res" where
  "fail e \<equiv> Inl (Fail e)"

abbreviation panic :: "'a res" where
  "panic \<equiv> Inl Panic"

text \<open>The \<open>?\<close> operator: go on with the value, or return the fault.\<close>

definition and_then :: "'e + 'a \<Rightarrow> ('a \<Rightarrow> 'e + 'b) \<Rightarrow> 'e + 'b" where
  "and_then r f = (case r of Inl e \<Rightarrow> Inl e | Inr x \<Rightarrow> f x)"

definition ok_or :: "'a option \<Rightarrow> error \<Rightarrow> 'a res" where
  "ok_or x e = (case x of None \<Rightarrow> fail e | Some v \<Rightarrow> ok v)"

definition expect :: "'a option \<Rightarrow> 'a res" where
  "expect x = (case x of None \<Rightarrow> panic | Some v \<Rightarrow> ok v)"

definition require :: "bool \<Rightarrow> error \<Rightarrow> unit res" where
  "require b e = (if b then ok () else fail e)"

definition assert_that :: "bool \<Rightarrow> unit res" where
  "assert_that b = (if b then ok () else panic)"

text \<open>\<open>Iterator::collect\<close> into a \<open>Result\<close>, and \<open>try_fold\<close>: both stop at the first fault.\<close>

fun collect_res :: "('e + 'a) list \<Rightarrow> 'e + 'a list" where
  "collect_res [] = Inr []"
| "collect_res (r # rs) = and_then r (\<lambda>x. and_then (collect_res rs) (\<lambda>xs. Inr (x # xs)))"

fun try_fold :: "('s \<Rightarrow> 'a \<Rightarrow> 'e + 's) \<Rightarrow> 's \<Rightarrow> 'a list \<Rightarrow> 'e + 's" where
  "try_fold f s [] = Inr s"
| "try_fold f s (x # xs) = and_then (f s x) (\<lambda>s'. try_fold f s' xs)"

named_theorems total "calls that return a value on well-formed arguments"
named_theorems inv_intros "operations that keep a component's invariant"
named_theorems safe_intros "operations that do not panic"

lemma and_then_simps [simp]:
  "and_then (Inl e) f = Inl e"
  "and_then (Inr x) f = f x"
  by (simp_all add: and_then_def)

lemma and_then_eq_Inr: "and_then r f = Inr y \<longleftrightarrow> (\<exists>x. r = Inr x \<and> f x = Inr y)"
  by (cases r) simp_all

lemma and_then_eq_Inl: "and_then r f = Inl e \<longleftrightarrow> r = Inl e \<or> (\<exists>x. r = Inr x \<and> f x = Inl e)"
  by (cases r) simp_all

lemma and_then_assoc: "and_then (and_then r f) g = and_then r (\<lambda>x. and_then (f x) g)"
  by (cases r) simp_all

lemma and_then_cong [fundef_cong]:
  "r = r' \<Longrightarrow> (\<And>x. r' = Inr x \<Longrightarrow> f x = f' x) \<Longrightarrow> and_then r f = and_then r' f'"
  by (cases r') simp_all

lemma ok_or_simps [simp]:
  "ok_or None e = fail e"
  "ok_or (Some v) e = ok v"
  by (simp_all add: ok_or_def)

lemma ok_or_eq_Inr [simp]: "ok_or x e = Inr y \<longleftrightarrow> x = Some y"
  by (cases x) simp_all

lemma expect_simps [simp]:
  "expect None = panic"
  "expect (Some v) = ok v"
  by (simp_all add: expect_def)

lemma expect_eq_Inr [simp]: "expect x = Inr y \<longleftrightarrow> x = Some y"
  by (cases x) simp_all

lemma require_simps [simp]:
  "require True e = ok ()"
  "require False e = fail e"
  by (simp_all add: require_def)

lemma require_eq_Inr [simp]: "require b e = Inr u \<longleftrightarrow> b"
  by (cases b) simp_all

lemma assert_that_simps [simp]:
  "assert_that True = ok ()"
  "assert_that False = panic"
  by (simp_all add: assert_that_def)

lemma assert_that_eq_Inr [simp]: "assert_that b = Inr u \<longleftrightarrow> b"
  by (cases b) simp_all

lemma collect_res_eq_Inr:
  "collect_res rs = Inr xs \<longleftrightarrow> rs = map Inr xs"
  by (induction rs arbitrary: xs) (auto simp: and_then_eq_Inr Cons_eq_map_conv)

lemma collect_res_map_Inr [simp]: "collect_res (map (\<lambda>x. Inr (f x)) xs) = Inr (map f xs)"
  by (induction xs) simp_all

lemma try_fold_append:
  "try_fold f s (xs @ ys) = and_then (try_fold f s xs) (\<lambda>s'. try_fold f s' ys)"
  by (induction xs arbitrary: s) (simp_all add: and_then_assoc)

text \<open>A computation that returns, with a value or with an error.\<close>

definition safe :: "'a res \<Rightarrow> bool" where
  "safe r \<longleftrightarrow> r \<noteq> panic"

lemma safe_simps [simp]: "safe (ok x)" "safe (fail e)" "safe (ok_or y e)" "safe (require b e)"
  by (auto simp: safe_def ok_or_def require_def split: option.split)

lemma safe_and_then [safe_intros]:
  "safe r \<Longrightarrow> (\<And>x. r = Inr x \<Longrightarrow> safe (f x)) \<Longrightarrow> safe (and_then r f)"
  by (cases r) (auto simp: safe_def)

lemma safe_collect [safe_intros]: "(\<And>r. r \<in> set rs \<Longrightarrow> safe r) \<Longrightarrow> safe (collect_res rs)"
  by (induction rs) (auto intro!: safe_and_then)

lemma safe_try_fold:
  assumes "\<And>s x. x \<in> set xs \<Longrightarrow> P s \<Longrightarrow> safe (f s x)"
    and "\<And>s x s'. x \<in> set xs \<Longrightarrow> P s \<Longrightarrow> f s x = Inr s' \<Longrightarrow> P s'" and "P s"
  shows "safe (try_fold f s xs)"
  using assms
proof (induction xs arbitrary: s)
  case (Cons x xs)
  have "safe (try_fold f s' xs)" if "f s x = Inr s'" for s'
  proof (rule Cons.IH)
    show "P s'" using Cons.prems that by (meson list.set_intros(1))
    show "safe (f u y)" if "y \<in> set xs" "P u" for u y
      using Cons.prems(1) that by simp
    show "P u'" if "y \<in> set xs" "P u" "f u y = Inr u'" for u y u'
      using Cons.prems(2) [of y u u'] that by simp
  qed
  then show ?case using Cons.prems by (auto intro!: safe_and_then)
qed simp

text \<open>
  Two computations that fail alike and otherwise return related values; loops over the same list
  whose steps are so related are so related.
\<close>

abbreviation sim :: "('a \<Rightarrow> 'b \<Rightarrow> bool) \<Rightarrow> 'a res \<Rightarrow> 'b res \<Rightarrow> bool" where
  "sim R \<equiv> rel_sum (=) R"

lemma sim_and_then:
  "sim R r r' \<Longrightarrow> (\<And>x y. R x y \<Longrightarrow> sim S (f x) (g y)) \<Longrightarrow> sim S (and_then r f) (and_then r' g)"
  by (cases r; cases r') auto

lemma sim_cases [consumes 1, case_names fault both]:
  assumes "sim R r r'"
  obtains e where "r = Inl e" "r' = Inl e" | x y where "r = Inr x" "r' = Inr y" "R x y"
  using assms by (cases r; cases r') auto

lemma sim_try_fold:
  assumes "\<And>s t x. x \<in> set xs \<Longrightarrow> R s t \<Longrightarrow> sim R (f s x) (g t x)" and "R s t"
  shows "sim R (try_fold f s xs) (try_fold g t xs)"
  using assms
proof (induction xs arbitrary: s t)
  case (Cons x xs)
  have "sim R (f s x) (g t x)" using Cons.prems by simp
  then show ?case
    using Cons.IH Cons.prems(1) by (auto intro!: sim_and_then)
qed simp

lemma try_fold_inv:
  assumes "\<And>s x s'. x \<in> set xs \<Longrightarrow> P s \<Longrightarrow> f s x = Inr s' \<Longrightarrow> P s'" and "P s"
    and "try_fold f s xs = Inr s'"
  shows "P s'"
  using assms
proof (induction xs arbitrary: s)
  case (Cons x xs)
  then show ?case by (auto simp: and_then_eq_Inr)
qed simp

section \<open>Machine integers\<close>

abbreviation u8_limit :: nat where "u8_limit \<equiv> 256"
abbreviation u16_limit :: nat where "u16_limit \<equiv> 65536"
abbreviation u32_limit :: nat where "u32_limit \<equiv> 4294967296"
abbreviation u64_limit :: nat where "u64_limit \<equiv> 18446744073709551616"

definition wadd64 :: "nat \<Rightarrow> nat \<Rightarrow> nat" where
  "wadd64 a b = (a + b) mod u64_limit"

definition wsub64 :: "nat \<Rightarrow> nat \<Rightarrow> nat" where
  "wsub64 a b = (u64_limit + a - b) mod u64_limit"

definition wmul64 :: "nat \<Rightarrow> nat \<Rightarrow> nat" where
  "wmul64 a b = (a * b) mod u64_limit"

definition checked_add :: "nat \<Rightarrow> nat \<Rightarrow> nat option" where
  "checked_add a b = (if a + b < u64_limit then Some (a + b) else None)"

definition checked_sub :: "nat \<Rightarrow> nat \<Rightarrow> nat option" where
  "checked_sub a b = (if b \<le> a then Some (a - b) else None)"

definition checked_mul :: "nat \<Rightarrow> nat \<Rightarrow> nat option" where
  "checked_mul a b = (if a * b < u64_limit then Some (a * b) else None)"

definition checked_div :: "nat \<Rightarrow> nat \<Rightarrow> nat option" where
  "checked_div a b = (if b = 0 then None else Some (a div b))"

definition saturating_add :: "nat \<Rightarrow> nat \<Rightarrow> nat" where
  "saturating_add a b = min (a + b) (u64_limit - 1)"

definition saturating_mul :: "nat \<Rightarrow> nat \<Rightarrow> nat" where
  "saturating_mul a b = min (a * b) (u64_limit - 1)"

text \<open>\<open>u64::try_from\<close> on an \<open>i128\<close>, and \<open>checked_add_signed\<close>.\<close>

definition u64_of_int :: "int \<Rightarrow> nat option" where
  "u64_of_int x = (if 0 \<le> x \<and> x < int u64_limit then Some (nat x) else None)"

definition u64_of_nat :: "nat \<Rightarrow> nat option" where
  "u64_of_nat x = (if x < u64_limit then Some x else None)"

definition u32_of_nat :: "nat \<Rightarrow> nat option" where
  "u32_of_nat x = (if x < u32_limit then Some x else None)"

definition i32_of_nat :: "nat \<Rightarrow> int option" where
  "i32_of_nat x = (if x < 2147483648 then Some (int x) else None)"

definition checked_add_signed :: "nat \<Rightarrow> int \<Rightarrow> nat option" where
  "checked_add_signed a d = u64_of_int (int a + d)"

text \<open>A \<open>u32\<close> reinterpreted as an \<open>i32\<close>, and back.\<close>

definition cast_signed32 :: "nat \<Rightarrow> int" where
  "cast_signed32 x = (if x < 2147483648 then int x else int x - 4294967296)"

definition cast_unsigned32 :: "int \<Rightarrow> nat" where
  "cast_unsigned32 x = nat (x mod 4294967296)"

text \<open>Wrapping into the range of an \<open>i128\<close>.\<close>

definition wrap_i128 :: "int \<Rightarrow> int" where
  "wrap_i128 x = (x + 2 ^ 127) mod 2 ^ 128 - 2 ^ 127"

lemma wrap_i128_code [code]:
  "wrap_i128 x = (x + 170141183460469231731687303715884105728) mod 340282366920938463463374607431768211456
     - 170141183460469231731687303715884105728"
  by (simp add: wrap_i128_def)

lemma wrap_i128_id: "- (2 ^ 127) \<le> x \<Longrightarrow> x < 2 ^ 127 \<Longrightarrow> wrap_i128 x = x"
  by (simp add: wrap_i128_def)

lemma wadd64_id [simp]: "a + b < u64_limit \<Longrightarrow> wadd64 a b = a + b"
  by (simp add: wadd64_def)

lemma wsub64_id [simp]:
  assumes "b \<le> a" and "a < u64_limit"
  shows "wsub64 a b = a - b"
proof -
  have "u64_limit + a - b = (a - b) + u64_limit" using assms(1) by linarith
  moreover have "a - b < u64_limit" using assms(2) by linarith
  ultimately show ?thesis by (simp only: wsub64_def mod_add_self2 mod_less)
qed

lemma wmul64_id [simp]: "a * b < u64_limit \<Longrightarrow> wmul64 a b = a * b"
  by (simp add: wmul64_def)

lemma checked_add_eq_Some [simp]:
  "checked_add a b = Some c \<longleftrightarrow> a + b < u64_limit \<and> c = a + b"
  by (auto simp: checked_add_def)

lemma checked_add_eq_None [simp]: "checked_add a b = None \<longleftrightarrow> u64_limit \<le> a + b"
  by (auto simp: checked_add_def)

lemma checked_sub_eq_Some [simp]: "checked_sub a b = Some c \<longleftrightarrow> b \<le> a \<and> c = a - b"
  by (auto simp: checked_sub_def)

lemma checked_sub_eq_None [simp]: "checked_sub a b = None \<longleftrightarrow> a < b"
  by (auto simp: checked_sub_def)

lemma checked_mul_eq_Some [simp]:
  "checked_mul a b = Some c \<longleftrightarrow> a * b < u64_limit \<and> c = a * b"
  by (auto simp: checked_mul_def)

lemma checked_mul_eq_None [simp]: "checked_mul a b = None \<longleftrightarrow> u64_limit \<le> a * b"
  by (auto simp: checked_mul_def)

lemma checked_div_eq_Some [simp]: "checked_div a b = Some c \<longleftrightarrow> b \<noteq> 0 \<and> c = a div b"
  by (auto simp: checked_div_def)

lemma u64_of_int_eq_Some [simp]:
  "u64_of_int x = Some n \<longleftrightarrow> 0 \<le> x \<and> x < int u64_limit \<and> n = nat x"
  by (auto simp: u64_of_int_def)

lemma u64_of_int_eq_None [simp]: "u64_of_int x = None \<longleftrightarrow> x < 0 \<or> int u64_limit \<le> x"
  by (auto simp: u64_of_int_def)

lemma u64_of_nat_eq_Some [simp]: "u64_of_nat x = Some n \<longleftrightarrow> x < u64_limit \<and> n = x"
  by (auto simp: u64_of_nat_def)

lemma u32_of_nat_eq_Some [simp]: "u32_of_nat x = Some n \<longleftrightarrow> x < u32_limit \<and> n = x"
  by (auto simp: u32_of_nat_def)

lemma cast_unsigned_signed [simp]:
  "x < u32_limit \<Longrightarrow> cast_unsigned32 (cast_signed32 x) = x"
  by (auto simp: cast_unsigned32_def cast_signed32_def nat_eq_iff)

lemma cast_signed_unsigned [simp]:
  assumes "- 2147483648 \<le> x" and "x < 2147483648"
  shows "cast_signed32 (cast_unsigned32 x) = x"
proof (cases "0 \<le> x")
  case True
  with assms show ?thesis by (simp add: cast_unsigned32_def cast_signed32_def)
next
  case False
  have "x mod 4294967296 = (x + 4294967296) mod 4294967296"
    by (rule mod_add_self2 [symmetric])
  also have "\<dots> = x + 4294967296"
    using False assms by (intro mod_pos_pos_trivial) linarith+
  finally show ?thesis
    using False assms by (simp add: cast_unsigned32_def cast_signed32_def)
qed

lemma cast_unsigned32_bound [simp]: "cast_unsigned32 x < u32_limit"
  by (simp add: cast_unsigned32_def nat_less_iff)

section \<open>Slices\<close>

definition index_at :: "'a list \<Rightarrow> nat \<Rightarrow> 'a res" where
  "index_at xs i = (if i < length xs then ok (xs ! i) else panic)"

definition get_at :: "'a list \<Rightarrow> nat \<Rightarrow> 'a option" where
  "get_at xs i = (if i < length xs then Some (xs ! i) else None)"

definition subslice :: "'a list \<Rightarrow> nat \<Rightarrow> nat \<Rightarrow> 'a list" where
  "subslice xs a b = take (b - a) (drop a xs)"

definition slice :: "'a list \<Rightarrow> nat \<Rightarrow> nat \<Rightarrow> 'a list res" where
  "slice xs a b = (if a \<le> b \<and> b \<le> length xs then ok (subslice xs a b) else panic)"

definition get_slice :: "'a list \<Rightarrow> nat \<Rightarrow> nat \<Rightarrow> 'a list option" where
  "get_slice xs a b = (if a \<le> b \<and> b \<le> length xs then Some (subslice xs a b) else None)"

definition last_opt :: "'a list \<Rightarrow> 'a option" where
  "last_opt xs = (if xs = [] then None else Some (last xs))"

text \<open>
  \<open>slice::partition_point\<close>: how many leading elements satisfy the predicate.  The standard library
  searches by bisection and documents this result for a slice the predicate partitions.
\<close>

definition partition_point :: "('a \<Rightarrow> bool) \<Rightarrow> 'a list \<Rightarrow> nat" where
  "partition_point p xs = length (takeWhile p xs)"

lemma index_at_ok [simp]: "i < length xs \<Longrightarrow> index_at xs i = ok (xs ! i)"
  by (simp add: index_at_def)

lemma index_at_panic [simp]: "length xs \<le> i \<Longrightarrow> index_at xs i = panic"
  by (simp add: index_at_def)

lemma index_at_eq_Inr: "index_at xs i = Inr x \<longleftrightarrow> i < length xs \<and> x = xs ! i"
  by (auto simp: index_at_def)

lemma get_at_eq_Some: "get_at xs i = Some x \<longleftrightarrow> i < length xs \<and> x = xs ! i"
  by (auto simp: get_at_def)

lemma slice_ok [simp]: "a \<le> b \<Longrightarrow> b \<le> length xs \<Longrightarrow> slice xs a b = ok (subslice xs a b)"
  by (simp add: slice_def)

lemma length_subslice [simp]: "b \<le> length xs \<Longrightarrow> length (subslice xs a b) = b - a"
  by (simp add: subslice_def)

lemma nth_subslice [simp]: "i < b - a \<Longrightarrow> b \<le> length xs \<Longrightarrow> subslice xs a b ! i = xs ! (a + i)"
  by (simp add: subslice_def)

lemma subslice_same [simp]: "subslice xs a a = []"
  by (simp add: subslice_def)

lemma subslice_all [simp]: "subslice xs 0 (length xs) = xs"
  by (simp add: subslice_def)

lemma subslice_Suc:
  "a < b \<Longrightarrow> b \<le> length xs \<Longrightarrow> subslice xs a b = xs ! a # subslice xs (Suc a) b"
  by (simp add: subslice_def Cons_nth_drop_Suc [symmetric] take_Cons')

lemma subslice_append:
  "a \<le> b \<Longrightarrow> b \<le> c \<Longrightarrow> c \<le> length xs \<Longrightarrow> subslice xs a b @ subslice xs b c = subslice xs a c"
proof -
  assume *: "a \<le> b" "b \<le> c" "c \<le> length xs"
  have "take (c - a) (drop a xs) =
      take (b - a) (drop a xs) @ take (c - b) (drop (b - a) (drop a xs))"
    using * take_add [of "b - a" "c - b" "drop a xs"] by simp
  then show ?thesis using * by (simp add: subslice_def)
qed

lemma subslice_snoc:
  "a \<le> b \<Longrightarrow> b < length xs \<Longrightarrow> subslice xs a (Suc b) = subslice xs a b @ [xs ! b]"
  using subslice_append [of a b "Suc b" xs] subslice_Suc [of b "Suc b" xs] by simp

lemma subslice_map: "subslice (map f xs) a b = map f (subslice xs a b)"
  by (simp add: subslice_def take_map drop_map)

lemma subslice_subslice:
  "d \<le> b - a \<Longrightarrow> b \<le> length xs \<Longrightarrow> subslice (subslice xs a b) c d = subslice xs (a + c) (a + d)"
  by (simp add: subslice_def drop_take take_drop [symmetric] min_def add.commute)

lemma set_subslice: "set (subslice xs a b) \<subseteq> set xs"
  by (auto simp: subslice_def dest: in_set_takeD in_set_dropD)

lemma partition_point_le [simp]: "partition_point p xs \<le> length xs"
  by (simp add: partition_point_def length_takeWhile_le)

lemma partition_point_Nil [simp]: "partition_point p [] = 0"
  by (simp add: partition_point_def)

lemma partition_point_before: "i < partition_point p xs \<Longrightarrow> p (xs ! i)"
  unfolding partition_point_def
  by (metis nth_mem set_takeWhileD takeWhile_nth)

lemma partition_point_at: "partition_point p xs < length xs \<Longrightarrow> \<not> p (xs ! partition_point p xs)"
  unfolding partition_point_def by (rule nth_length_takeWhile)

text \<open>A cut that separates the two sides is the partition point.\<close>

lemma partition_point_eqI:
  assumes "n \<le> length xs" "\<And>i. i < n \<Longrightarrow> p (xs ! i)" "n < length xs \<Longrightarrow> \<not> p (xs ! n)"
  shows "partition_point p xs = n"
  using assms
  by (metis partition_point_at partition_point_before partition_point_le linorder_neqE_nat
      order.strict_trans1 order_le_less)

end
