(* ===== verification/Byte_Strings.thy ===== *)
theory Byte_Strings
  imports Vod_Prelude
begin

text \<open>
  Bytes: big-endian integers (\<open>from_be_bytes\<close>, \<open>to_be_bytes\<close>), a slice cut into chunks of one size
  (\<open>as_chunks\<close>), and ASCII literals, with the round trips between them.
\<close>

type_synonym byte = "8 word"
type_synonym bytes = "byte list"

definition ascii :: "string \<Rightarrow> bytes" where
  "ascii s = map of_char s"

fun be_value :: "bytes \<Rightarrow> nat" where
  "be_value [] = 0"
| "be_value (b # bs) = unat b * 256 ^ length bs + be_value bs"

text \<open>The low \<open>n\<close> bytes of a number, the highest first.\<close>

fun be_bytes :: "nat \<Rightarrow> nat \<Rightarrow> bytes" where
  "be_bytes 0 x = []"
| "be_bytes (Suc n) x = of_nat (x div 256 ^ n) # be_bytes n x"

function chunks_of :: "nat \<Rightarrow> 'a list \<Rightarrow> 'a list list" where
  "chunks_of n xs =
     (if n = 0 \<or> length xs < n then [] else take n xs # chunks_of n (drop n xs))"
  by pat_completeness auto
termination by (relation "measure (\<lambda>(n, xs). length xs)") auto

declare chunks_of.simps [simp del]

lemma byte_less [simp]: "unat (b :: byte) < 256"
  using unsigned_less [where 'a = nat and 'b = 8, of b] by simp

lemma length_be_bytes [simp]: "length (be_bytes n x) = n"
  by (induction n) simp_all

lemma be_value_bound: "be_value bs < 256 ^ length bs"
proof (induction bs)
  case (Cons b bs)
  have "Suc (unat b) \<le> 256" using byte_less [of b] by linarith
  then have "Suc (unat b) * 256 ^ length bs \<le> 256 * 256 ^ length bs" by (rule mult_le_mono1)
  then have "unat b * 256 ^ length bs + 256 ^ length bs \<le> 256 * 256 ^ length bs" by simp
  then show ?case using Cons unfolding be_value.simps length_Cons power_Suc by linarith
qed simp

lemma be_value_less: "256 ^ length bs \<le> n \<Longrightarrow> be_value bs < n"
  using be_value_bound [of bs] by linarith

lemma be_value_append: "be_value (xs @ ys) = be_value xs * 256 ^ length ys + be_value ys"
  by (induction xs) (simp_all add: algebra_simps power_add)

lemma be_bytes_value_mod: "be_value (be_bytes n x) = x mod 256 ^ n"
proof (induction n)
  case (Suc n)
  have "x mod 256 ^ Suc n = (x div 256 ^ n mod 256) * 256 ^ n + x mod 256 ^ n"
    using mod_mult2_eq [of x "256 ^ n" 256] by (simp add: mult.commute)
  then show ?case using Suc by (simp add: unat_of_nat)
qed simp

lemma be_value_be_bytes [simp]: "x < 256 ^ n \<Longrightarrow> be_value (be_bytes n x) = x"
  by (simp add: be_bytes_value_mod)

lemma be_bytes_mod: "be_bytes n (x mod 256 ^ n) = be_bytes n x"
proof -
  have "be_bytes m (x mod 256 ^ n) = be_bytes m x" if "m \<le> n" for m
    using that
  proof (induction m)
    case (Suc m)
    obtain d where d: "n = Suc m + d" using Suc.prems le_Suc_ex by blast
    have "x mod 256 ^ n = x mod (256 ^ m * 256 ^ Suc d)" by (simp add: d power_add ac_simps)
    then have "x mod 256 ^ n div 256 ^ m = x div 256 ^ m mod 256 ^ Suc d"
      by (simp add: mod_mult2_eq)
    moreover have "(x div 256 ^ m mod 256 ^ Suc d) mod 256 = x div 256 ^ m mod 256"
      by (rule mod_mod_cancel) simp
    ultimately have "(of_nat (x mod 256 ^ n div 256 ^ m) :: byte) = of_nat (x div 256 ^ m)"
      by (simp add: word_of_nat_eq_iff take_bit_eq_mod del: power_Suc)
    then show ?case using Suc by simp
  qed simp
  then show ?thesis by simp
qed

lemma be_bytes_be_value [simp]: "be_bytes (length bs) (be_value bs) = bs"
proof (induction bs)
  case (Cons b bs)
  have "(unat b * 256 ^ length bs + be_value bs) div 256 ^ length bs = unat b"
    using be_value_bound [of bs] by simp
  moreover have "be_bytes (length bs) (unat b * 256 ^ length bs + be_value bs) =
      be_bytes (length bs) ((unat b * 256 ^ length bs + be_value bs) mod 256 ^ length bs)"
    by (simp only: be_bytes_mod)
  moreover have "(unat b * 256 ^ length bs + be_value bs) mod 256 ^ length bs = be_value bs"
    using be_value_bound [of bs] by simp
  ultimately show ?case using Cons by simp
qed simp

lemma chunks_of_Nil [simp]: "chunks_of n [] = []"
  by (subst chunks_of.simps) auto

lemma chunks_of_append:
  "0 < n \<Longrightarrow> length xs = n \<Longrightarrow> chunks_of n (xs @ ys) = xs # chunks_of n ys"
  by (subst chunks_of.simps) auto

lemma length_chunks_of: "0 < n \<Longrightarrow> length (chunks_of n xs) = length xs div n"
  for xs :: "'a list"
proof (induction n xs rule: chunks_of.induct)
  case (1 n xs)
  then show ?case
    by (subst chunks_of.simps) (auto simp: le_div_geq not_less)
qed

lemma chunks_of_lengths: "c \<in> set (chunks_of n xs) \<Longrightarrow> length c = n"
proof (induction n xs rule: chunks_of.induct)
  case (1 n xs)
  then show ?case by (subst (asm) (2) chunks_of.simps) (auto split: if_splits)
qed

lemma chunks_of_concat:
  "0 < n \<Longrightarrow> \<forall>x \<in> set xs. length (f x) = n \<Longrightarrow> chunks_of n (concat (map f xs)) = map f xs"
  by (induction xs) (simp_all add: chunks_of_append)

lemma chunks_of_take: "n * k \<le> length xs \<Longrightarrow> length xs < n * k + n \<Longrightarrow>
    concat (chunks_of n xs) = take (n * k) xs"
proof (induction k arbitrary: xs)
  case 0
  then show ?case by (subst chunks_of.simps) simp
next
  case (Suc k)
  have "concat (chunks_of n (drop n xs)) = take (n * k) (drop n xs)"
    using Suc.prems by (intro Suc.IH) auto
  then show ?case
    using Suc.prems by (subst chunks_of.simps) (auto simp: take_add)
qed

end
