(* ===== verification/Mp4_Boxes.thy ===== *)
theory Mp4_Boxes
  imports Byte_Strings
begin

text \<open>
  The bounded box walker and the checked reader of \<^verbatim>\<open>src/src/mp4/boxes.rs\<close>.  A slice of a payload is
  modelled by its bytes.  The walker is shown to tile its input exactly, and every read to stay
  inside the payload.
\<close>

section \<open>Boxes\<close>

record raw_box =
  bx_name :: bytes
  bx_payload :: bytes
  bx_size :: nat

definition invalid_media :: "string \<Rightarrow> error" where
  "invalid_media message = InvalidMedia message"

definition fourcc :: "bytes \<Rightarrow> string" where
  "fourcc code = map (\<lambda>b. if 0x21 \<le> b \<and> b \<le> 0x7E \<or> b = 0x20 then char_of (unat b) else CHR ''?'') code"

text \<open>\<open>offset + 8\<close> and \<open>offset + 16\<close> are positions near a slice in memory and cannot wrap.\<close>

definition box_extent :: "bytes \<Rightarrow> nat \<Rightarrow> nat \<Rightarrow> (nat \<times> nat) res" where
  "box_extent data offset size32 =
     (if size32 = 1 then
        and_then (ok_or (get_slice data (offset + 8) (offset + 16))
                   (invalid_media ''extended MP4 box header is truncated'')) (\<lambda>extended.
          ok (be_value extended, 16))
      else if size32 = 0 then ok (length data - offset, 8)
      else ok (size32, 8))"

definition box_payload :: "bytes \<Rightarrow> nat \<Rightarrow> raw_box res" where
  "box_payload data offset =
     and_then (ok_or (get_slice data offset (offset + 8))
                (invalid_media ''MP4 box header is truncated'')) (\<lambda>header.
     let size32 = be_value (take 4 header); name = drop 4 header in
     and_then (box_extent data offset size32) (\<lambda>(size, header_size).
     if size < header_size \<or>
        (case checked_add offset size of None \<Rightarrow> True | Some e \<Rightarrow> length data < e)
     then fail (invalid_media ''MP4 child box size is invalid'')
     else
       and_then (slice data (offset + header_size) (offset + size)) (\<lambda>payload.
         ok \<lparr>bx_name = name, bx_payload = payload, bx_size = size\<rparr>)))"

lemma get_slice_eq_Some:
  "get_slice xs a b = Some ys \<longleftrightarrow> a \<le> b \<and> b \<le> length xs \<and> ys = subslice xs a b"
  by (auto simp: get_slice_def)

lemma drop_subslice: "drop k (subslice xs a b) = subslice xs (a + k) b"
  by (simp add: subslice_def drop_take add.commute)

lemma box_payload_ok:
  assumes "box_payload data offset = Inr b"
  obtains header where "8 \<le> header" "header \<le> bx_size b" "offset + bx_size b \<le> length data"
    "bx_name b = subslice data (offset + 4) (offset + 8)"
    "bx_payload b = subslice data (offset + header) (offset + bx_size b)"
proof -
  obtain size h where ext: "box_extent data offset (be_value (take 4 (subslice data offset (offset + 8)))) = Inr (size, h)"
    and "\<not> size < h" "offset + size \<le> length data"
    and b: "bx_name b = drop 4 (subslice data offset (offset + 8))" "bx_size b = size"
      "bx_payload b = subslice data (offset + h) (offset + size)"
    using assms
    by (auto simp: box_payload_def and_then_eq_Inr get_slice_eq_Some slice_def
        split: if_splits option.splits)
  moreover have "8 \<le> h"
    using ext by (auto simp: box_extent_def and_then_eq_Inr split: if_splits)
  ultimately show thesis using that [of h] by (auto simp: drop_subslice)
qed

lemma box_payload_size:
  assumes "box_payload data offset = Inr b"
  shows "8 \<le> bx_size b" "offset + bx_size b \<le> length data" "length (bx_payload b) + 8 \<le> bx_size b"
    "length (bx_name b) = 4"
proof -
  obtain h where h: "8 \<le> h" "h \<le> bx_size b" "offset + bx_size b \<le> length data"
    "bx_name b = subslice data (offset + 4) (offset + 8)"
    "bx_payload b = subslice data (offset + h) (offset + bx_size b)"
    using box_payload_ok [OF assms] .
  then show "8 \<le> bx_size b" "offset + bx_size b \<le> length data" "length (bx_payload b) + 8 \<le> bx_size b"
    "length (bx_name b) = 4"
    by simp_all
qed

lemma box_payload_no_panic: "box_payload data offset \<noteq> panic"
proof
  assume "box_payload data offset = panic"
  then show False
    by (auto simp: box_payload_def box_extent_def and_then_eq_Inl and_then_eq_Inr ok_or_def
        get_slice_def slice_def split: if_splits option.splits)
qed

function child_boxes :: "bytes \<Rightarrow> raw_box list res" where
  "child_boxes data =
     (if data = [] then ok []
      else
        and_then (box_payload data 0) (\<lambda>child.
        and_then (child_boxes (drop (bx_size child) data)) (\<lambda>rest. ok (child # rest))))"
  by pat_completeness auto
termination
proof (relation "measure length")
  show "data \<noteq> [] \<Longrightarrow> box_payload data 0 = Inr child \<Longrightarrow>
      (drop (bx_size child) data, data) \<in> measure length" for data child
    using box_payload_size(1) by fastforce
qed simp

declare child_boxes.simps [simp del]

lemma child_boxes_Nil [simp]: "child_boxes [] = ok []"
  by (subst child_boxes.simps) simp

lemma child_boxes_step:
  "data \<noteq> [] \<Longrightarrow> child_boxes data =
     and_then (box_payload data 0) (\<lambda>child.
     and_then (child_boxes (drop (bx_size child) data)) (\<lambda>rest. ok (child # rest)))"
  by (subst child_boxes.simps) simp

definition optional_child :: "bytes \<Rightarrow> bytes \<Rightarrow> raw_box option res" where
  "optional_child data name =
     and_then (child_boxes data) (\<lambda>cs. ok (find (\<lambda>c. bx_name c = name) cs))"

definition required_child :: "bytes \<Rightarrow> bytes \<Rightarrow> raw_box res" where
  "required_child data name =
     and_then (optional_child data name) (\<lambda>c.
       ok_or c (InvalidMedia (''required MP4 box `'' @ fourcc name @ ''` is missing'')))"

section \<open>The reader\<close>

record reader =
  rd_data :: bytes
  rd_position :: nat

definition reader_new :: "bytes \<Rightarrow> reader" where
  "reader_new data = \<lparr>rd_data = data, rd_position = 0\<rparr>"

definition rd_remaining :: "reader \<Rightarrow> nat" where
  "rd_remaining r = length (rd_data r) - rd_position r"

definition rd_rest :: "reader \<Rightarrow> bytes" where
  "rd_rest r = drop (rd_position r) (rd_data r)"

definition rd_take :: "reader \<Rightarrow> nat \<Rightarrow> (bytes \<times> reader) res" where
  "rd_take r count =
     (case checked_add (rd_position r) count of
        None \<Rightarrow> fail (invalid_media ''MP4 box is truncated'')
      | Some e \<Rightarrow>
          if e \<le> length (rd_data r)
          then and_then (slice (rd_data r) (rd_position r) e) (\<lambda>bs. ok (bs, r\<lparr>rd_position := e\<rparr>))
          else fail (invalid_media ''MP4 box is truncated''))"

definition rd_skip :: "reader \<Rightarrow> nat \<Rightarrow> reader res" where
  "rd_skip r count = and_then (rd_take r count) (\<lambda>(_, r'). ok r')"

definition rd_u8 :: "reader \<Rightarrow> (byte \<times> reader) res" where
  "rd_u8 r = and_then (rd_take r 1) (\<lambda>(bs, r'). and_then (index_at bs 0) (\<lambda>b. ok (b, r')))"

definition rd_u16 :: "reader \<Rightarrow> (nat \<times> reader) res" where
  "rd_u16 r = and_then (rd_take r 2) (\<lambda>(bs, r'). ok (be_value bs, r'))"

definition rd_u32 :: "reader \<Rightarrow> (nat \<times> reader) res" where
  "rd_u32 r = and_then (rd_take r 4) (\<lambda>(bs, r'). ok (be_value bs, r'))"

definition rd_i32 :: "reader \<Rightarrow> (int \<times> reader) res" where
  "rd_i32 r = and_then (rd_take r 4) (\<lambda>(bs, r'). ok (cast_signed32 (be_value bs), r'))"

definition rd_u64 :: "reader \<Rightarrow> (nat \<times> reader) res" where
  "rd_u64 r = and_then (rd_take r 8) (\<lambda>(bs, r'). ok (be_value bs, r'))"

definition rd_full_box :: "reader \<Rightarrow> (byte \<times> reader) res" where
  "rd_full_box r =
     and_then (rd_u8 r) (\<lambda>(version, r1). and_then (rd_skip r1 3) (\<lambda>r2. ok (version, r2)))"

definition rd_full_box_flags :: "reader \<Rightarrow> (byte \<times> nat \<times> reader) res" where
  "rd_full_box_flags r =
     and_then (rd_u8 r) (\<lambda>(version, r1).
     and_then (rd_take r1 3) (\<lambda>(flags, r2). ok (version, be_value (0 # flags), r2)))"

definition rd_entry_count :: "reader \<Rightarrow> nat \<Rightarrow> (nat \<times> reader) res" where
  "rd_entry_count r entry_size =
     and_then (rd_u32 r) (\<lambda>(count, r').
       if (case checked_mul count entry_size of None \<Rightarrow> True | Some b \<Rightarrow> rd_remaining r' < b)
       then fail (invalid_media ''MP4 table entry count exceeds its box'')
       else ok (count, r'))"

definition rd_entries :: "reader \<Rightarrow> nat \<Rightarrow> (bytes \<times> reader) res" where
  "rd_entries r entry_size =
     and_then (rd_entry_count r entry_size) (\<lambda>(count, r'). rd_take r' (count * entry_size))"

definition be_u32s :: "bytes \<Rightarrow> nat list" where
  "be_u32s bs = map be_value (chunks_of 4 bs)"

text \<open>
  A reader holds what is left of its payload: reading is taking from the front of \<open>rd_rest\<close>.
  Payloads are in memory, so their lengths stay below 64 bits.
\<close>

definition rd_wf :: "reader \<Rightarrow> bool" where
  "rd_wf r \<longleftrightarrow> rd_position r \<le> length (rd_data r) \<and> length (rd_data r) < u64_limit"

lemma rd_wf_new [simp, inv_intros]: "length data < u64_limit \<Longrightarrow> rd_wf (reader_new data)"
  by (simp add: rd_wf_def reader_new_def)

lemma rd_rest_new [simp]: "rd_rest (reader_new data) = data"
  by (simp add: rd_rest_def reader_new_def)

lemma reader_new_fields [simp]: "rd_data (reader_new data) = data" "rd_position (reader_new data) = 0"
  by (simp_all add: reader_new_def)

lemma rd_remaining_rest: "rd_remaining r = length (rd_rest r)"
  by (simp add: rd_remaining_def rd_rest_def)

lemma rd_take_eq_Inr:
  "rd_wf r \<Longrightarrow> rd_take r n = Inr (bs, r') \<longleftrightarrow>
     n \<le> length (rd_rest r) \<and> bs = take n (rd_rest r) \<and> r' = r\<lparr>rd_position := rd_position r + n\<rparr>"
  by (auto simp: rd_take_def rd_wf_def rd_rest_def subslice_def split: option.splits)

lemma rd_take_step:
  assumes "rd_wf r" "rd_take r n = Inr (bs, r')"
  shows "rd_wf r'" "rd_rest r = bs @ rd_rest r'" "length bs = n" "rd_data r' = rd_data r"
    "rd_position r' = rd_position r + n"
proof -
  have n: "n \<le> length (rd_rest r)" "bs = take n (rd_rest r)" "r' = r\<lparr>rd_position := rd_position r + n\<rparr>"
    using assms rd_take_eq_Inr [OF assms(1)] by auto
  have rest: "rd_rest r' = drop n (rd_rest r)"
    using n(3) by (simp add: rd_rest_def add.commute)
  show "rd_rest r = bs @ rd_rest r'" using n(2) rest by simp
  show "rd_wf r'" "length bs = n" "rd_data r' = rd_data r" "rd_position r' = rd_position r + n"
    using n assms(1) by (auto simp: rd_wf_def rd_rest_def)
qed

lemma rd_take_fault:
  "rd_wf r \<Longrightarrow> rd_take r n = Inl e \<longleftrightarrow>
     length (rd_rest r) < n \<and> e = Fail (invalid_media ''MP4 box is truncated'')"
  by (auto simp: rd_take_def rd_wf_def rd_rest_def split: option.splits)

lemma rd_skip_eq_Inr:
  "rd_skip r n = Inr r' \<longleftrightarrow> (\<exists>bs. rd_take r n = Inr (bs, r'))"
  by (auto simp: rd_skip_def and_then_eq_Inr)

lemma rd_u32_eq_Inr: "rd_u32 r = Inr (x, r') \<longleftrightarrow> (\<exists>bs. rd_take r 4 = Inr (bs, r') \<and> x = be_value bs)"
  by (auto simp: rd_u32_def and_then_eq_Inr)

lemma rd_u64_eq_Inr: "rd_u64 r = Inr (x, r') \<longleftrightarrow> (\<exists>bs. rd_take r 8 = Inr (bs, r') \<and> x = be_value bs)"
  by (auto simp: rd_u64_def and_then_eq_Inr)

lemma rd_i32_eq_Inr:
  "rd_i32 r = Inr (x, r') \<longleftrightarrow> (\<exists>bs. rd_take r 4 = Inr (bs, r') \<and> x = cast_signed32 (be_value bs))"
  by (auto simp: rd_i32_def and_then_eq_Inr)

lemma rd_u16_eq_Inr: "rd_u16 r = Inr (x, r') \<longleftrightarrow> (\<exists>bs. rd_take r 2 = Inr (bs, r') \<and> x = be_value bs)"
  by (auto simp: rd_u16_def and_then_eq_Inr)

lemma rd_u8_eq_Inr:
  assumes "rd_wf r"
  shows "rd_u8 r = Inr (x, r') \<longleftrightarrow> rd_take r 1 = Inr ([x], r')"
  using rd_take_step(3) [OF assms]
  by (fastforce simp: rd_u8_def and_then_eq_Inr index_at_eq_Inr length_Suc_conv)

lemmas rd_eq_Inr = rd_skip_eq_Inr rd_u8_eq_Inr rd_u16_eq_Inr rd_u32_eq_Inr rd_i32_eq_Inr rd_u64_eq_Inr

lemma rd_u32_bound: "rd_wf r \<Longrightarrow> rd_u32 r = Inr (x, r') \<Longrightarrow> x < u32_limit"
  using rd_take_step(3) [of r 4] by (auto simp: rd_u32_eq_Inr intro!: be_value_less)

lemma rd_u64_bound: "rd_wf r \<Longrightarrow> rd_u64 r = Inr (x, r') \<Longrightarrow> x < u64_limit"
  using rd_take_step(3) [of r 8] by (auto simp: rd_u64_eq_Inr intro!: be_value_less)

text \<open>Reading the front of what is left, when it is there.\<close>

lemma rd_take_front:
  assumes "rd_wf r" "rd_rest r = bs @ rest" "length bs = n"
  shows "rd_take r n = Inr (bs, r\<lparr>rd_position := rd_position r + n\<rparr>)"
    "rd_wf (r\<lparr>rd_position := rd_position r + n\<rparr>)" "rd_rest (r\<lparr>rd_position := rd_position r + n\<rparr>) = rest"
proof -
  show take: "rd_take r n = Inr (bs, r\<lparr>rd_position := rd_position r + n\<rparr>)"
    using assms by (simp add: rd_take_eq_Inr)
  show "rd_wf (r\<lparr>rd_position := rd_position r + n\<rparr>)"
    "rd_rest (r\<lparr>rd_position := rd_position r + n\<rparr>) = rest"
    using rd_take_step(1,2) [OF assms(1) take] assms(2) by auto
qed

lemma length_rest_less: "rd_wf r \<Longrightarrow> length (rd_rest r) < u64_limit"
  by (auto simp: rd_wf_def rd_rest_def)

lemma rd_entries_eq_Inr:
  assumes "rd_wf r"
  shows "rd_entries r n = Inr (bs, r') \<longleftrightarrow>
    (\<exists>count. rd_u32 r = Inr (count, r\<lparr>rd_position := rd_position r + 4\<rparr>)
       \<and> rd_take (r\<lparr>rd_position := rd_position r + 4\<rparr>) (count * n) = Inr (bs, r'))" (is "_ \<longleftrightarrow> ?rhs")
proof
  assume "rd_entries r n = Inr (bs, r')"
  then show ?rhs
    using rd_take_eq_Inr [OF assms]
    by (auto simp: rd_entries_def rd_entry_count_def and_then_eq_Inr rd_u32_eq_Inr split: if_splits)
next
  assume ?rhs
  then obtain count bs0 where
    t: "rd_take r 4 = Inr (bs0, r\<lparr>rd_position := rd_position r + 4\<rparr>)" "count = be_value bs0"
    and e: "rd_take (r\<lparr>rd_position := rd_position r + 4\<rparr>) (count * n) = Inr (bs, r')"
    by (auto simp: rd_u32_eq_Inr)
  note wf = rd_take_step(1) [OF assms t(1)]
  have "count * n \<le> rd_remaining (r\<lparr>rd_position := rd_position r + 4\<rparr>)"
    using e rd_take_eq_Inr [OF wf] by (simp add: rd_remaining_rest)
  moreover from this have "count * n < u64_limit"
    using length_rest_less [OF wf] by (simp add: rd_remaining_rest)
  ultimately show "rd_entries r n = Inr (bs, r')"
    using t e by (simp add: rd_entries_def rd_entry_count_def rd_u32_def checked_mul_def)
qed

lemma rd_entries_step:
  assumes "rd_wf r" "rd_entries r n = Inr (bs, r')"
  shows "rd_wf r'" "\<exists>k < u32_limit. length bs = k * n \<and> k * n + 4 \<le> length (rd_rest r)"
proof -
  obtain k where k: "rd_u32 r = Inr (k, r\<lparr>rd_position := rd_position r + 4\<rparr>)"
    "rd_take (r\<lparr>rd_position := rd_position r + 4\<rparr>) (k * n) = Inr (bs, r')"
    using assms by (auto simp: rd_entries_eq_Inr)
  then obtain b where b: "rd_take r 4 = Inr (b, r\<lparr>rd_position := rd_position r + 4\<rparr>)"
    by (auto simp: rd_u32_eq_Inr)
  note s = rd_take_step [OF assms(1) b]
  note s' = rd_take_step [OF s(1) k(2)]
  show "rd_wf r'" by (rule s')
  show "\<exists>k < u32_limit. length bs = k * n \<and> k * n + 4 \<le> length (rd_rest r)"
    using s(2,3) s'(2,3) rd_u32_bound [OF assms(1) k(1)] by (intro exI [of _ k]) simp
qed

lemma rd_full_box_eq_Inr:
  assumes "rd_wf r"
  shows "rd_full_box r = Inr (v, r') \<longleftrightarrow>
    4 \<le> length (rd_rest r) \<and> v = hd (rd_rest r) \<and> r' = r\<lparr>rd_position := rd_position r + 4\<rparr>"
proof (cases "rd_rest r")
  case Nil
  then show ?thesis
    using rd_take_eq_Inr [OF assms, of 1] by (auto simp: rd_full_box_def and_then_eq_Inr rd_u8_eq_Inr [OF assms])
next
  case (Cons b rest)
  let ?r1 = "r\<lparr>rd_position := Suc (rd_position r)\<rparr>"
  have front: "rd_take r 1 = Inr ([b], ?r1)" "rd_wf ?r1" "rd_rest ?r1 = rest"
    using rd_take_front [OF assms, of "[b]" rest 1] Cons by simp_all
  then have "rd_full_box r = and_then (rd_skip ?r1 3) (\<lambda>r2. ok (b, r2))"
    by (simp add: rd_full_box_def rd_u8_def)
  then show ?thesis
    using Cons front(3) by (auto simp: and_then_eq_Inr rd_skip_eq_Inr rd_take_eq_Inr [OF front(2)])
qed

end
