(* ===== verification/Sample_Index.thy ===== *)
theory Sample_Index
  imports Vod_Prelude
begin

text \<open>
  The compact sample index of \<^verbatim>\<open>src/src/media/samples.rs\<close>: shared tables in which only sizes are
  kept per sample, a window over them with a decode-time shift, the searching reads (\<open>get\<close> and its
  kin), the cursor iterator, and the construction of tables from samples given one by one.

  The contract is that of a list of samples: \<open>index_samples\<close> is the abstraction, and every
  operation is shown to return what the corresponding list operation does, without a panic, on
  every index that satisfies the invariant \<open>index_wf\<close>.
\<close>

section \<open>Data\<close>

record sample =
  sm_offset :: nat
  sm_size :: nat
  sm_decode_time :: nat
  sm_duration :: nat
  sm_composition_offset :: int
  sm_is_sync :: bool

record tables =
  tb_sizes :: "nat list"
  tb_chunk_first :: "nat list"
  tb_chunk_offset :: "nat list"
  tb_time_first :: "nat list"
  tb_time_start :: "nat list"
  tb_time_duration :: "nat list"
  tb_composition_first :: "nat list"
  tb_composition_offset :: "int list"
  tb_sync :: "nat list option"

definition tables_default :: tables where
  "tables_default = \<lparr>tb_sizes = [], tb_chunk_first = [], tb_chunk_offset = [], tb_time_first = [],
     tb_time_start = [], tb_time_duration = [], tb_composition_first = [],
     tb_composition_offset = [], tb_sync = None\<rparr>"

record sample_index =
  si_tables :: tables
  si_start :: nat
  si_end :: nat
  si_shift :: int

section \<open>Reading the tables\<close>

definition run_of :: "nat list \<Rightarrow> nat \<Rightarrow> nat" where
  "run_of first index = partition_point (\<lambda>f. f \<le> index) first - 1"

definition tables_len :: "tables \<Rightarrow> nat" where
  "tables_len t = length (tb_sizes t)"

definition tables_decode_time :: "tables \<Rightarrow> nat \<Rightarrow> nat res" where
  "tables_decode_time t index =
     (let run = run_of (tb_time_first t) index in
      and_then (index_at (tb_time_start t) run) (\<lambda>start.
      and_then (index_at (tb_time_first t) run) (\<lambda>first.
      and_then (index_at (tb_time_duration t) run) (\<lambda>duration.
        ok (wadd64 start (wmul64 (wsub64 index first) duration))))))"

definition tables_duration :: "tables \<Rightarrow> nat \<Rightarrow> nat res" where
  "tables_duration t index = index_at (tb_time_duration t) (run_of (tb_time_first t) index)"

definition tables_offset :: "tables \<Rightarrow> nat \<Rightarrow> nat res" where
  "tables_offset t index =
     (let chunk = run_of (tb_chunk_first t) index in
      and_then (index_at (tb_chunk_first t) chunk) (\<lambda>first.
      and_then (index_at (tb_chunk_offset t) chunk) (\<lambda>offset.
      and_then (slice (tb_sizes t) first index) (\<lambda>earlier.
        ok (wadd64 offset (sum_list earlier mod u64_limit))))))"

definition tables_composition_offset :: "tables \<Rightarrow> nat \<Rightarrow> int res" where
  "tables_composition_offset t index =
     (if tb_composition_first t = [] then ok 0
      else index_at (tb_composition_offset t) (run_of (tb_composition_first t) index))"

text \<open>\<open>binary_search(..).is_ok()\<close> on an ascending slice is membership.\<close>

definition tables_is_sync :: "tables \<Rightarrow> nat \<Rightarrow> bool" where
  "tables_is_sync t index =
     (case tb_sync t of
        None \<Rightarrow> True
      | Some sync \<Rightarrow> index < u32_limit \<and> index \<in> set sync)"

text \<open>
  The first sample whose decode time is at or after \<open>time\<close>, or the number of samples.  The
  \<open>i128\<close> quotient truncates, which on the non-negative operands here is \<open>div\<close>; a quotient that
  does not fit a \<open>usize\<close> becomes \<open>usize::MAX\<close>.
\<close>

definition tables_partition_by_decode_time :: "tables \<Rightarrow> int \<Rightarrow> nat res" where
  "tables_partition_by_decode_time t time =
     (let runs = length (tb_time_first t);
          next = partition_point (\<lambda>start. int start < time) (tb_time_start t);
          next_first = (case get_at (tb_time_first t) next of
                          None \<Rightarrow> tables_len t | Some first \<Rightarrow> first)
      in case checked_sub next 1 of
           None \<Rightarrow> ok 0
         | Some run \<Rightarrow>
             let run_end = (if next < runs then next_first else tables_len t) in
             and_then (index_at (tb_time_duration t) run) (\<lambda>duration.
             if duration = 0 then ok next_first
             else
               and_then (index_at (tb_time_start t) run) (\<lambda>start.
               and_then (index_at (tb_time_first t) run) (\<lambda>first.
               let elapsed = time - int start;
                   steps = (case u64_of_int ((elapsed + int duration - 1) div int duration) of
                              None \<Rightarrow> u64_limit - 1 | Some s \<Rightarrow> s);
                   candidate = saturating_add first steps
               in ok (if candidate < run_end then candidate else next_first)))))"

definition tables_bytes :: "tables \<Rightarrow> nat" where
  "tables_bytes t = length (tb_sizes t) * 4 + length (tb_chunk_first t) * 12
     + length (tb_time_first t) * 16 + length (tb_composition_first t) * 8
     + (case tb_sync t of None \<Rightarrow> 0 | Some sync \<Rightarrow> length sync * 4)"

section \<open>A window over the tables\<close>

definition index_new :: "tables \<Rightarrow> sample_index" where
  "index_new t = \<lparr>si_tables = t, si_start = 0, si_end = tables_len t, si_shift = 0\<rparr>"

definition index_len :: "sample_index \<Rightarrow> nat" where
  "index_len s = si_end s - si_start s"

definition window_start :: "sample_index \<Rightarrow> nat" where
  "window_start s = si_start s"

definition index_is_empty :: "sample_index \<Rightarrow> bool" where
  "index_is_empty s = (si_start s = si_end s)"

definition absolute :: "sample_index \<Rightarrow> nat \<Rightarrow> nat res" where
  "absolute s index = and_then (assert_that (index < index_len s)) (\<lambda>_. ok (si_start s + index))"

definition moved :: "sample_index \<Rightarrow> nat \<Rightarrow> nat res" where
  "moved s time = expect (u64_of_int (int time + si_shift s))"

definition index_get :: "sample_index \<Rightarrow> nat \<Rightarrow> sample res" where
  "index_get s index =
     and_then (absolute s index) (\<lambda>i.
     let t = si_tables s in
     and_then (tables_offset t i) (\<lambda>offset.
     and_then (index_at (tb_sizes t) i) (\<lambda>size.
     and_then (and_then (tables_decode_time t i) (moved s)) (\<lambda>decode_time.
     and_then (tables_duration t i) (\<lambda>duration.
     and_then (tables_composition_offset t i) (\<lambda>composition_offset.
       ok \<lparr>sm_offset = offset, sm_size = size, sm_decode_time = decode_time,
           sm_duration = duration, sm_composition_offset = composition_offset,
           sm_is_sync = tables_is_sync t i\<rparr>))))))"

definition index_first :: "sample_index \<Rightarrow> sample option res" where
  "index_first s = (if index_is_empty s then ok None else and_then (index_get s 0) (\<lambda>x. ok (Some x)))"

definition index_last :: "sample_index \<Rightarrow> sample option res" where
  "index_last s =
     (case checked_sub (index_len s) 1 of
        None \<Rightarrow> ok None
      | Some i \<Rightarrow> and_then (index_get s i) (\<lambda>x. ok (Some x)))"

definition index_size :: "sample_index \<Rightarrow> nat \<Rightarrow> nat res" where
  "index_size s index = and_then (absolute s index) (index_at (tb_sizes (si_tables s)))"

definition index_decode_time :: "sample_index \<Rightarrow> nat \<Rightarrow> nat res" where
  "index_decode_time s index =
     and_then (absolute s index) (\<lambda>i. and_then (tables_decode_time (si_tables s) i) (moved s))"

definition index_partition_by_decode_time :: "sample_index \<Rightarrow> nat \<Rightarrow> nat res" where
  "index_partition_by_decode_time s time =
     and_then (tables_partition_by_decode_time (si_tables s) (int time - si_shift s)) (\<lambda>i.
     and_then (assert_that (si_start s \<le> si_end s)) (\<lambda>_.
       ok (max (si_start s) (min (si_end s) i) - si_start s)))"

definition sync_bounds :: "sample_index \<Rightarrow> nat list \<Rightarrow> nat \<times> nat" where
  "sync_bounds s sync =
     (partition_point (\<lambda>i. i < si_start s) sync, partition_point (\<lambda>i. i < si_end s) sync)"

definition sync_indices :: "sample_index \<Rightarrow> nat list res" where
  "sync_indices s =
     (case tb_sync (si_tables s) of
        None \<Rightarrow> ok [0..<index_len s]
      | Some sync \<Rightarrow>
          (case sync_bounds s sync of (low, high) \<Rightarrow>
             and_then (slice sync low high) (\<lambda>xs. ok (map (\<lambda>i. wsub64 i (si_start s)) xs))))"

definition every_sample_is_sync :: "sample_index \<Rightarrow> bool" where
  "every_sample_is_sync s = (tb_sync (si_tables s) = None)"

definition nth_sync :: "sample_index \<Rightarrow> nat \<Rightarrow> nat option res" where
  "nth_sync s n =
     (case tb_sync (si_tables s) of
        None \<Rightarrow> ok (if n < index_len s then Some n else None)
      | Some sync \<Rightarrow>
          (case sync_bounds s sync of (low, high) \<Rightarrow>
             (case checked_add low n of
                None \<Rightarrow> ok None
              | Some position \<Rightarrow>
                  if position < high
                  then and_then (index_at sync position) (\<lambda>i. ok (Some (wsub64 i (si_start s))))
                  else ok None)))"

definition payload_bytes :: "sample_index \<Rightarrow> nat \<Rightarrow> nat \<Rightarrow> nat res" where
  "payload_bytes s a b =
     and_then (assert_that (a \<le> b \<and> b \<le> index_len s)) (\<lambda>_.
     and_then (slice (tb_sizes (si_tables s)) (si_start s + a) (si_start s + b)) (\<lambda>xs.
       ok (sum_list xs mod u64_limit)))"

definition index_window :: "sample_index \<Rightarrow> nat \<Rightarrow> nat \<Rightarrow> sample_index res" where
  "index_window s a b =
     and_then (assert_that (a \<le> b \<and> b \<le> index_len s)) (\<lambda>_.
       ok (s\<lparr>si_start := si_start s + a, si_end := si_start s + b\<rparr>))"

definition index_shifted :: "sample_index \<Rightarrow> int \<Rightarrow> string \<Rightarrow> sample_index res" where
  "index_shifted s delta message =
     (let moved = s\<lparr>si_shift := si_shift s + delta\<rparr> in
      and_then (index_first s) (\<lambda>first.
      and_then (index_last s) (\<lambda>last.
      case (first, last) of
        (Some f, Some l) \<Rightarrow>
          (let first_time = int (sm_decode_time f) + delta;
               end_time = int (sm_decode_time l) + int (sm_duration l) + delta
           in if first_time < 0 \<or> u64_of_int end_time = None
              then fail (InvalidMedia message) else ok moved)
      | _ \<Rightarrow> ok moved)))"

definition table_bytes :: "sample_index \<Rightarrow> nat" where
  "table_bytes s = tables_bytes (si_tables s)"

section \<open>The cursor iterator\<close>

record iter =
  it_index :: sample_index
  it_position :: nat
  it_end :: nat
  it_chunk :: nat
  it_offset :: nat
  it_time_run :: nat
  it_composition_run :: nat
  it_sync :: nat

definition index_range :: "sample_index \<Rightarrow> nat \<Rightarrow> nat \<Rightarrow> iter res" where
  "index_range s a b =
     and_then (assert_that (a \<le> b \<and> b \<le> index_len s)) (\<lambda>_.
     let position = si_start s + a; t = si_tables s; in_range = position < tables_len t in
     and_then (if in_range then tables_offset t position else ok 0) (\<lambda>offset.
       ok \<lparr>it_index = s, it_position = position, it_end = si_start s + b,
           it_chunk = (if in_range then run_of (tb_chunk_first t) position else 0),
           it_offset = offset,
           it_time_run = (if in_range then run_of (tb_time_first t) position else 0),
           it_composition_run =
             (if in_range \<and> tb_composition_first t \<noteq> []
              then run_of (tb_composition_first t) position else 0),
           it_sync = (case tb_sync t of None \<Rightarrow> 0
                      | Some sync \<Rightarrow> partition_point (\<lambda>i. i < position) sync)\<rparr>))"

text \<open>
  The three \<open>while at(..)\<close> loops: move a cursor to the run that holds \<open>position\<close>.  The chunk loop
  also reloads the byte offset at each chunk it enters.
\<close>

function advance_run :: "nat list \<Rightarrow> nat \<Rightarrow> nat \<Rightarrow> nat" where
  "advance_run first position run =
     (if run + 1 < length first \<and> first ! (run + 1) \<le> position
      then advance_run first position (run + 1) else run)"
  by pat_completeness auto
termination
  by (relation "measure (\<lambda>(first, position, run). length first - run)") auto

function advance_chunk ::
    "nat list \<Rightarrow> nat list \<Rightarrow> nat \<Rightarrow> nat \<Rightarrow> nat \<Rightarrow> (nat \<times> nat) res" where
  "advance_chunk first offsets position chunk offset =
     (if chunk + 1 < length first \<and> first ! (chunk + 1) \<le> position
      then and_then (index_at offsets (chunk + 1)) (\<lambda>offset'.
             advance_chunk first offsets position (chunk + 1) offset')
      else ok (chunk, offset))"
  by pat_completeness auto
termination
  by (relation "measure (\<lambda>(first, offsets, position, chunk, offset). length first - chunk)") auto

declare advance_run.simps [simp del] advance_chunk.simps [simp del]

definition iter_next :: "iter \<Rightarrow> (sample option \<times> iter) res" where
  "iter_next it =
     (if it_end it \<le> it_position it then ok (None, it)
      else
        let position = it_position it; t = si_tables (it_index it) in
        and_then (advance_chunk (tb_chunk_first t) (tb_chunk_offset t) position
                    (it_chunk it) (it_offset it)) (\<lambda>(chunk, offset).
        let run = advance_run (tb_time_first t) position (it_time_run it);
            composition_run = advance_run (tb_composition_first t) position (it_composition_run it)
        in
        and_then (index_at (tb_sizes t) position) (\<lambda>size.
        and_then (index_at (tb_time_start t) run) (\<lambda>start.
        and_then (index_at (tb_time_first t) run) (\<lambda>first.
        and_then (index_at (tb_time_duration t) run) (\<lambda>duration.
        let decode_time = wadd64 start (wmul64 (wsub64 position first) duration);
            hit = (case tb_sync t of None \<Rightarrow> True
                   | Some sync \<Rightarrow> get_at sync (it_sync it) = Some position);
            sync' = (if tb_sync t \<noteq> None \<and> hit then it_sync it + 1 else it_sync it)
        in
        and_then (moved (it_index it) decode_time) (\<lambda>decode_time'.
          ok (Some \<lparr>sm_offset = offset, sm_size = size, sm_decode_time = decode_time',
                    sm_duration = duration,
                    sm_composition_offset =
                      (case get_at (tb_composition_offset t) composition_run of
                         None \<Rightarrow> 0 | Some c \<Rightarrow> c),
                    sm_is_sync = hit\<rparr>,
              it\<lparr>it_position := position + 1, it_chunk := chunk, it_offset := wadd64 offset size,
                 it_time_run := run, it_composition_run := composition_run,
                 it_sync := sync'\<rparr>))))))))"

text \<open>
  Running an iterator until it returns \<open>None\<close>.  It yields one sample per position from its own to
  its end, so a fuel of one more than that many steps is never used up (\<open>iter_collect_range\<close>).
\<close>

fun iter_collect :: "nat \<Rightarrow> iter \<Rightarrow> sample list res" where
  "iter_collect 0 it = panic"
| "iter_collect (Suc fuel) it =
     and_then (iter_next it) (\<lambda>(x, it').
       case x of None \<Rightarrow> ok []
       | Some s \<Rightarrow> and_then (iter_collect fuel it') (\<lambda>rest. ok (s # rest)))"

definition to_vec :: "sample_index \<Rightarrow> nat \<Rightarrow> nat \<Rightarrow> sample list res" where
  "to_vec s a b =
     and_then (index_range s a b) (\<lambda>it. iter_collect (Suc (it_end it - it_position it)) it)"

definition iter_all :: "sample_index \<Rightarrow> sample list res" where
  "iter_all s = to_vec s 0 (index_len s)"

text \<open>Two indexes are equal when they list the same samples.\<close>

definition index_eq :: "sample_index \<Rightarrow> sample_index \<Rightarrow> bool res" where
  "index_eq s s' =
     (if index_len s \<noteq> index_len s' then ok False
      else and_then (iter_all s) (\<lambda>xs. and_then (iter_all s') (\<lambda>ys. ok (xs = ys))))"

section \<open>Tables from samples given one by one\<close>

text \<open>
  One turn of the loop of \<open>from_samples\<close>; the state is the tables so far, the sync samples so far
  and the previous sample.  The sums are plain \<open>u64\<close> additions.
\<close>

definition from_samples_step ::
    "tables \<times> nat list \<times> sample option \<Rightarrow> nat \<times> sample \<Rightarrow> (tables \<times> nat list \<times> sample option) res"
where
  "from_samples_step = (\<lambda>(t, sync, previous) (index, s).
     and_then (expect (u32_of_nat index)) (\<lambda>number.
     let same_chunk = (case previous of None \<Rightarrow> False
           | Some p \<Rightarrow> wadd64 (sm_offset p) (sm_size p) = sm_offset s);
         t1 = (if same_chunk then t
               else t\<lparr>tb_chunk_first := tb_chunk_first t @ [number],
                      tb_chunk_offset := tb_chunk_offset t @ [sm_offset s]\<rparr>);
         same_run = (case previous of None \<Rightarrow> False
           | Some p \<Rightarrow> sm_duration p = sm_duration s
                \<and> wadd64 (sm_decode_time p) (sm_duration p) = sm_decode_time s);
         t2 = (if same_run then t1
               else t1\<lparr>tb_time_first := tb_time_first t1 @ [number],
                       tb_time_start := tb_time_start t1 @ [sm_decode_time s],
                       tb_time_duration := tb_time_duration t1 @ [sm_duration s]\<rparr>);
         t3 = (if last_opt (tb_composition_offset t2) = Some (sm_composition_offset s) then t2
               else t2\<lparr>tb_composition_first := tb_composition_first t2 @ [number],
                       tb_composition_offset :=
                         tb_composition_offset t2 @ [sm_composition_offset s]\<rparr>);
         sync' = (if sm_is_sync s then sync @ [number] else sync)
     in ok (t3\<lparr>tb_sizes := tb_sizes t3 @ [sm_size s]\<rparr>, sync', Some s)))"

definition from_samples :: "sample list \<Rightarrow> sample_index res" where
  "from_samples samples =
     and_then (try_fold from_samples_step (tables_default, [], None)
                (zip [0..<length samples] samples)) (\<lambda>(t, sync, _).
     let t' = (if tb_composition_offset t = [0]
               then t\<lparr>tb_composition_first := [], tb_composition_offset := []\<rparr> else t)
     in ok (index_new
          (t'\<lparr>tb_sync := (if length sync \<noteq> length samples then Some sync else None)\<rparr>)))"

text \<open>
  What the planner and the clips rely on when they read a track's samples: a source of samples is
  some value that stands for a list in order of decode time, with a length, a read, a search by
  decode time and windows.  Nothing of how the samples are stored is visible, so the facts proved
  here about cutting, searching and re-joining windows hold for any representation.  The compact
  index is shown to be such a source in \<open>Sample_Index_Laws\<close>.
\<close>

lemma sorted_partition_point:
  assumes "sorted (map f xs)" "i < length xs"
  shows "i < partition_point (\<lambda>x. f x < (t :: nat)) xs \<longleftrightarrow> f (xs ! i) < t"
proof
  show "f (xs ! i) < t" if "i < partition_point (\<lambda>x. f x < t) xs"
    using partition_point_before [OF that] .
  show "i < partition_point (\<lambda>x. f x < t) xs" if "f (xs ! i) < t"
  proof (rule ccontr)
    let ?p = "partition_point (\<lambda>x. f x < t) xs"
    assume "\<not> i < ?p"
    then have le: "?p \<le> i" by simp
    then have "\<not> f (xs ! ?p) < t" using partition_point_at assms(2) by (metis order_le_less_trans)
    moreover have "f (xs ! ?p) \<le> f (xs ! i)"
      using sorted_nth_mono [OF assms(1), of ?p i] le assms(2) by simp
    ultimately show False using that by simp
  qed
qed

locale sample_source =
  fixes valid :: "'i \<Rightarrow> bool"
    and samples :: "'i \<Rightarrow> sample list"
    and len :: "'i \<Rightarrow> nat"
    and get :: "'i \<Rightarrow> nat \<Rightarrow> sample res"
    and search :: "'i \<Rightarrow> nat \<Rightarrow> nat res"
    and window :: "'i \<Rightarrow> nat \<Rightarrow> nat \<Rightarrow> 'i res"
  assumes len_law: "valid s \<Longrightarrow> len s = length (samples s)"
    and get_law: "valid s \<Longrightarrow> i < len s \<Longrightarrow> get s i = ok (samples s ! i)"
    and sorted_law: "valid s \<Longrightarrow> sorted (map sm_decode_time (samples s))"
    and search_law: "valid s \<Longrightarrow>
      search s time = ok (partition_point (\<lambda>x. sm_decode_time x < time) (samples s))"
    and window_law: "valid s \<Longrightarrow> a \<le> b \<Longrightarrow> b \<le> len s \<Longrightarrow>
      \<exists>w. window s a b = ok w \<and> valid w \<and> samples w = subslice (samples s) a b"
    and window_bounds: "window s a b = ok w \<Longrightarrow> a \<le> b \<and> b \<le> len s"
begin

lemma windowD:
  assumes "valid s" "window s a b = ok w"
  shows "a \<le> b" "b \<le> len s" "valid w" "samples w = subslice (samples s) a b" "len w = b - a"
proof -
  show ab: "a \<le> b" "b \<le> len s" using window_bounds [OF assms(2)] by auto
  show "valid w" "samples w = subslice (samples s) a b"
    using window_law [OF assms(1) ab] assms(2) by auto
  then show "len w = b - a" using len_law [of w] len_law [OF assms(1)] ab by simp
qed

lemma get_in_window:
  assumes "valid s" "window s a b = ok w" "i < b - a"
  shows "get w i = get s (a + i)"
  using windowD [OF assms(1,2)] assms(1,3) len_law [OF assms(1)] by (simp add: get_law)

lemma search_splits:
  assumes "valid s" "search s time = ok p"
  shows "p \<le> len s" "i < len s \<Longrightarrow> i < p \<longleftrightarrow> sm_decode_time (samples s ! i) < time"
  using assms search_law sorted_partition_point [OF sorted_law [OF assms(1)]] len_law [OF assms(1)]
    partition_point_le by auto

lemma search_mono:
  assumes "valid s" "search s t = ok p" "search s t' = ok q" "t \<le> t'"
  shows "p \<le> q"
proof (rule ccontr)
  assume "\<not> p \<le> q"
  then have "q < p" by simp
  then have "q < len s" "sm_decode_time (samples s ! q) < t"
    using search_splits [OF assms(1,2)] by (metis order_less_le_trans)+
  then show False using search_splits(2) [OF assms(1,3), of q] assms(4) by simp
qed

lemma search_total: "valid s \<Longrightarrow> \<exists>p. search s time = ok p \<and> p \<le> len s"
  using search_law len_law by (simp add: partition_point_le)

text \<open>What lies between two searches is what plays between the two times.\<close>

lemma search_between:
  assumes "valid s" "search s t = ok p" "search s t' = ok q" "i < len s"
  shows "p \<le> i \<and> i < q \<longleftrightarrow> t \<le> sm_decode_time (samples s ! i) \<and> sm_decode_time (samples s ! i) < t'"
  using search_splits(2) [OF assms(1,2) assms(4)] search_splits(2) [OF assms(1,3) assms(4)] by auto

lemma window_of_window:
  assumes "valid s" "window s a b = ok w" "window w c d = ok v"
  shows "samples v = subslice (samples s) (a + c) (a + d)"
proof -
  note w = windowD [OF assms(1,2)]
  note v = windowD [OF w(3) assms(3)]
  have "subslice (subslice (samples s) a b) c d = subslice (samples s) (a + c) (a + d)"
    using v(1,2) w(5) by (simp add: subslice_def min_def take_drop add.commute)
  then show ?thesis using v w by simp
qed

lemma adjacent_windows:
  assumes "valid s" "window s a b = ok w" "window s b c = ok v"
  shows "samples w @ samples v = subslice (samples s) a c"
proof -
  note w = windowD [OF assms(1,2)]
  note v = windowD [OF assms(1,3)]
  show ?thesis using w v subslice_append [of a b c "samples s"] len_law [OF assms(1)] by simp
qed

end

text \<open>A source that also knows where decoding may start.\<close>

definition sync_positions :: "sample list \<Rightarrow> nat list" where
  "sync_positions xs = filter (\<lambda>i. sm_is_sync (xs ! i)) [0..<length xs]"

locale sync_source = sample_source valid samples len get search window
  for valid :: "'i \<Rightarrow> bool" and samples :: "'i \<Rightarrow> sample list" and len :: "'i \<Rightarrow> nat"
    and get :: "'i \<Rightarrow> nat \<Rightarrow> sample res" and search :: "'i \<Rightarrow> nat \<Rightarrow> nat res"
    and window :: "'i \<Rightarrow> nat \<Rightarrow> nat \<Rightarrow> 'i res" +
  fixes syncs :: "'i \<Rightarrow> nat list res"
    and all_sync :: "'i \<Rightarrow> bool"
  assumes syncs_law: "valid s \<Longrightarrow> syncs s = ok (sync_positions (samples s))"
    and all_sync_law: "valid s \<Longrightarrow> all_sync s \<Longrightarrow> \<forall>x \<in> set (samples s). sm_is_sync x"
begin

lemma syncs_all: "valid s \<Longrightarrow> all_sync s \<Longrightarrow> syncs s = ok [0..<len s]"
  using syncs_law all_sync_law len_law by (simp add: sync_positions_def filter_True)

lemma in_syncs:
  "valid s \<Longrightarrow> syncs s = ok xs \<Longrightarrow> i \<in> set xs \<longleftrightarrow> i < len s \<and> sm_is_sync (samples s ! i)"
  using syncs_law [of s] len_law [of s] by (auto simp: sync_positions_def)

lemma syncs_ascending: "valid s \<Longrightarrow> syncs s = ok xs \<Longrightarrow> sorted_wrt (<) xs"
  using syncs_law [of s] by (auto simp: sync_positions_def sorted_wrt_filter)

end

end
