(* ===== verification/Sample_Index_Spec.thy ===== *)
theory Sample_Index_Spec
  imports Sample_Index
begin

text \<open>
  What a sample index means: \<open>index_samples\<close>, the list of samples it stands for, the invariant
  under which it means anything, and the proofs that every read of \<open>Sample_Index\<close> returns what the
  list holds.
\<close>

section \<open>Runs\<close>

text \<open>A table of first samples: ascending, starting at 0, inside the track.\<close>

definition run_table :: "nat list \<Rightarrow> nat \<Rightarrow> bool" where
  "run_table first n \<longleftrightarrow> sorted_wrt (<) first \<and> (\<forall>f \<in> set first. f < n)
     \<and> (0 < n \<longrightarrow> first \<noteq> [] \<and> hd first = 0)"

lemma run_table_nth_less:
  "run_table first n \<Longrightarrow> i < j \<Longrightarrow> j < length first \<Longrightarrow> first ! i < first ! j"
  by (auto simp: run_table_def sorted_wrt_iff_nth_less)

lemma run_table_nth_le:
  "run_table first n \<Longrightarrow> i \<le> j \<Longrightarrow> j < length first \<Longrightarrow> first ! i \<le> first ! j"
  using run_table_nth_less by (metis le_less order_refl)

lemma run_table_nth_0: "run_table first n \<Longrightarrow> 0 < n \<Longrightarrow> first ! 0 = 0"
  by (auto simp: run_table_def hd_conv_nth)

lemma run_table_nonempty: "run_table first n \<Longrightarrow> 0 < n \<Longrightarrow> first \<noteq> []"
  by (auto simp: run_table_def)

lemma run_table_bound: "run_table first n \<Longrightarrow> r < length first \<Longrightarrow> first ! r < n"
  by (auto simp: run_table_def)

lemma run_table_Nil [simp]: "run_table [] n \<longleftrightarrow> n = 0"
  by (auto simp: run_table_def)

text \<open>The run that holds an index is the last one that starts at or before it.\<close>

lemma run_of_eqI:
  assumes "run_table first n" "r < length first" "first ! r \<le> i"
    and "r + 1 < length first \<Longrightarrow> i < first ! (r + 1)"
  shows "run_of first i = r"
proof -
  have "partition_point (\<lambda>f. f \<le> i) first = r + 1"
  proof (rule partition_point_eqI)
    show "r + 1 \<le> length first" using assms(2) by simp
    show "first ! k \<le> i" if "k < r + 1" for k
      using run_table_nth_le [OF assms(1), of k r] that assms(2,3) by simp
    show "\<not> first ! (r + 1) \<le> i" if "r + 1 < length first"
      using assms(4) [OF that] by simp
  qed
  then show ?thesis by (simp add: run_of_def)
qed

lemma run_of_props:
  assumes "run_table first n" "i < n"
  shows "run_of first i < length first" "first ! run_of first i \<le> i"
    "run_of first i + 1 < length first \<Longrightarrow> i < first ! (run_of first i + 1)"
proof -
  let ?p = "partition_point (\<lambda>f. f \<le> i) first"
  have ne: "first \<noteq> []" and z: "first ! 0 = 0"
    using assms run_table_nonempty run_table_nth_0 by auto
  have pos: "0 < ?p"
    using partition_point_at [of "\<lambda>f. f \<le> i" first] ne z by (cases ?p) auto
  have le: "?p \<le> length first" by (rule partition_point_le)
  show "run_of first i < length first" using pos le unfolding run_of_def by linarith
  show "first ! run_of first i \<le> i"
    using partition_point_before [of "?p - 1" "\<lambda>f. f \<le> i" first] pos by (simp add: run_of_def)
  show "i < first ! (run_of first i + 1)" if "run_of first i + 1 < length first"
    using partition_point_at [of "\<lambda>f. f \<le> i" first] that pos by (simp add: run_of_def)
qed

lemma run_of_mono_step:
  assumes "run_table first n" "i < n" "r \<le> run_of first i" "r + 1 < length first" "first ! (r + 1) \<le> i"
  shows "r + 1 \<le> run_of first i"
proof (rule ccontr)
  assume "\<not> r + 1 \<le> run_of first i"
  with assms(3) have "run_of first i = r" by simp
  with run_of_props(3) [OF assms(1,2)] assms(4,5) show False by simp
qed

text \<open>The cursor loops end on the run that holds the position.\<close>

lemma advance_run_eq:
  assumes "run_table first n" "i < n" "r \<le> run_of first i"
  shows "advance_run first i r = run_of first i"
  using assms
proof (induction first i r rule: advance_run.induct)
  case (1 first i r)
  show ?case
  proof (cases "r + 1 < length first \<and> first ! (r + 1) \<le> i")
    case True
    then have "advance_run first i r = advance_run first i (r + 1)"
      by (subst advance_run.simps) simp
    also have "\<dots> = run_of first i"
      using 1 True run_of_mono_step by blast
    finally show ?thesis .
  next
    case False
    then have "advance_run first i r = r" by (subst advance_run.simps) auto
    moreover have "run_of first i = r"
    proof (rule run_of_eqI [OF "1.prems"(1)])
      have le: "r \<le> run_of first i" and lt: "run_of first i < length first"
        and at: "first ! run_of first i \<le> i"
        using "1.prems" run_of_props by auto
      show "r < length first" using le lt by simp
      show "first ! r \<le> i" using run_table_nth_le [OF "1.prems"(1) le lt] at by simp
      show "i < first ! (r + 1)" if "r + 1 < length first" using False that by simp
    qed
    ultimately show ?thesis by simp
  qed
qed

lemma advance_chunk_eq:
  assumes "run_table first n" "i < n" "c \<le> run_of first i" "length offsets = length first"
  shows "advance_chunk first offsets i c off =
     ok (run_of first i, if c = run_of first i then off else offsets ! run_of first i)"
  using assms
proof (induction first offsets i c off rule: advance_chunk.induct)
  case (1 first offsets i c off)
  have adv: "advance_run first i c = run_of first i"
    using "1.prems" by (intro advance_run_eq)
  show ?case
  proof (cases "c + 1 < length first \<and> first ! (c + 1) \<le> i")
    case True
    then have lt: "c + 1 \<le> run_of first i"
      using "1.prems" run_of_mono_step by blast
    have "advance_chunk first offsets i c off =
        advance_chunk first offsets i (c + 1) (offsets ! (c + 1))"
      using True "1.prems"(4) by (subst advance_chunk.simps) simp
    also have "\<dots> = ok (run_of first i, if c + 1 = run_of first i then offsets ! (c + 1)
                         else offsets ! run_of first i)"
      using True lt "1.prems" by (intro "1.IH") (auto simp: index_at_eq_Inr)
    finally show ?thesis using lt by (auto split: if_splits)
  next
    case False
    then have "run_of first i = c"
      using adv by (subst (asm) advance_run.simps) (simp only: if_False)
    moreover have "advance_chunk first offsets i c off = ok (c, off)"
      using False by (subst advance_chunk.simps) auto
    ultimately show ?thesis by simp
  qed
qed

section \<open>The samples an index stands for\<close>

definition spec_decode_time :: "tables \<Rightarrow> nat \<Rightarrow> nat" where
  "spec_decode_time t i =
     (let r = run_of (tb_time_first t) i
      in tb_time_start t ! r + (i - tb_time_first t ! r) * tb_time_duration t ! r)"

definition spec_duration :: "tables \<Rightarrow> nat \<Rightarrow> nat" where
  "spec_duration t i = tb_time_duration t ! run_of (tb_time_first t) i"

definition spec_offset :: "tables \<Rightarrow> nat \<Rightarrow> nat" where
  "spec_offset t i =
     (let c = run_of (tb_chunk_first t) i
      in tb_chunk_offset t ! c + sum_list (subslice (tb_sizes t) (tb_chunk_first t ! c) i))"

definition spec_composition :: "tables \<Rightarrow> nat \<Rightarrow> int" where
  "spec_composition t i =
     (if tb_composition_first t = [] then 0
      else tb_composition_offset t ! run_of (tb_composition_first t) i)"

definition spec_sync :: "tables \<Rightarrow> nat \<Rightarrow> bool" where
  "spec_sync t i = (case tb_sync t of None \<Rightarrow> True | Some sync \<Rightarrow> i \<in> set sync)"

definition spec_sample :: "tables \<Rightarrow> int \<Rightarrow> nat \<Rightarrow> sample" where
  "spec_sample t shift i =
     \<lparr>sm_offset = spec_offset t i, sm_size = tb_sizes t ! i,
      sm_decode_time = nat (int (spec_decode_time t i) + shift),
      sm_duration = spec_duration t i, sm_composition_offset = spec_composition t i,
      sm_is_sync = spec_sync t i\<rparr>"

definition index_samples :: "sample_index \<Rightarrow> sample list" where
  "index_samples s = map (spec_sample (si_tables s) (si_shift s)) [si_start s..<si_end s]"

definition tables_wf :: "tables \<Rightarrow> bool" where
  "tables_wf t \<longleftrightarrow>
     run_table (tb_chunk_first t) (tables_len t)
     \<and> length (tb_chunk_offset t) = length (tb_chunk_first t)
     \<and> run_table (tb_time_first t) (tables_len t)
     \<and> length (tb_time_start t) = length (tb_time_first t)
     \<and> length (tb_time_duration t) = length (tb_time_first t)
     \<and> (tb_composition_first t = [] \<or> run_table (tb_composition_first t) (tables_len t))
     \<and> length (tb_composition_offset t) = length (tb_composition_first t)
     \<and> (case tb_sync t of None \<Rightarrow> True
        | Some sync \<Rightarrow> sorted_wrt (<) sync \<and> (\<forall>i \<in> set sync. i < tables_len t))
     \<and> tables_len t \<le> u32_limit
     \<and> (\<forall>i < tables_len t. spec_offset t i + tb_sizes t ! i < u64_limit)
     \<and> (\<forall>i < tables_len t. spec_decode_time t i < u64_limit)"

text \<open>Decode times never go back.\<close>

definition tables_ascending :: "tables \<Rightarrow> bool" where
  "tables_ascending t \<longleftrightarrow> (\<forall>j < tables_len t. \<forall>i \<le> j. spec_decode_time t i \<le> spec_decode_time t j)"

definition index_wf :: "sample_index \<Rightarrow> bool" where
  "index_wf s \<longleftrightarrow> tables_wf (si_tables s) \<and> si_start s \<le> si_end s
     \<and> si_end s \<le> tables_len (si_tables s)
     \<and> (\<forall>i. si_start s \<le> i \<and> i < si_end s \<longrightarrow>
          0 \<le> int (spec_decode_time (si_tables s) i) + si_shift s
          \<and> int (spec_decode_time (si_tables s) i) + si_shift s < int u64_limit)"

definition index_ascending :: "sample_index \<Rightarrow> bool" where
  "index_ascending s \<longleftrightarrow> tables_ascending (si_tables s)"

lemma length_index_samples [simp]: "length (index_samples s) = index_len s"
  by (simp add: index_samples_def index_len_def)

lemma nth_index_samples [simp]:
  "i < index_len s \<Longrightarrow> index_samples s ! i = spec_sample (si_tables s) (si_shift s) (si_start s + i)"
  by (simp add: index_samples_def index_len_def)

section \<open>Reads of well-formed tables\<close>

lemma tables_wf_runs:
  assumes "tables_wf t"
  shows "run_table (tb_chunk_first t) (tables_len t)" "length (tb_chunk_offset t) = length (tb_chunk_first t)"
    "run_table (tb_time_first t) (tables_len t)" "length (tb_time_start t) = length (tb_time_first t)"
    "length (tb_time_duration t) = length (tb_time_first t)"
    "tb_composition_first t \<noteq> [] \<Longrightarrow> run_table (tb_composition_first t) (tables_len t)"
    "length (tb_composition_offset t) = length (tb_composition_first t)"
    "tables_len t \<le> u32_limit"
    "i < tables_len t \<Longrightarrow> spec_offset t i + tb_sizes t ! i < u64_limit"
    "i < tables_len t \<Longrightarrow> spec_decode_time t i < u64_limit"
    "tb_sync t = Some sync \<Longrightarrow> sorted_wrt (<) sync"
    "tb_sync t = Some sync \<Longrightarrow> k \<in> set sync \<Longrightarrow> k < tables_len t"
  using assms by (auto simp: tables_wf_def)

lemma decode_time_arith:
  assumes "tables_wf t" "i < tables_len t"
  defines "r \<equiv> run_of (tb_time_first t) i"
  shows "wadd64 (tb_time_start t ! r) (wmul64 (wsub64 i (tb_time_first t ! r)) (tb_time_duration t ! r))
      = spec_decode_time t i"
proof -
  have le: "tb_time_first t ! r \<le> i" using assms tables_wf_runs(3) run_of_props(2) by blast
  have lim: "spec_decode_time t i < u64_limit" using assms tables_wf_runs(10) by blast
  have "i < u64_limit" using assms(2) tables_wf_runs(8) [OF assms(1)] by linarith
  then have "wsub64 i (tb_time_first t ! r) = i - tb_time_first t ! r" using le by simp
  then show ?thesis using lim by (simp add: spec_decode_time_def Let_def r_def)
qed

lemma tables_decode_time_ok [total]:
  assumes "tables_wf t" "i < tables_len t"
  shows "tables_decode_time t i = ok (spec_decode_time t i)"
proof -
  have "run_of (tb_time_first t) i < length (tb_time_first t)"
    using assms tables_wf_runs(3) run_of_props(1) by blast
  then show ?thesis
    using tables_wf_runs(4,5) [OF assms(1)] decode_time_arith [OF assms]
    by (simp add: tables_decode_time_def)
qed

lemma tables_duration_ok [total]:
  assumes "tables_wf t" "i < tables_len t"
  shows "tables_duration t i = ok (spec_duration t i)"
  using run_of_props(1) [OF tables_wf_runs(3) [OF assms(1)] assms(2)] tables_wf_runs(5) [OF assms(1)]
  by (simp add: tables_duration_def spec_duration_def)

lemma tables_offset_ok [total]:
  assumes "tables_wf t" "i < tables_len t"
  shows "tables_offset t i = ok (spec_offset t i)"
proof -
  let ?c = "run_of (tb_chunk_first t) i"
  note c = run_of_props(1,2) [OF tables_wf_runs(1) [OF assms(1)] assms(2)]
  have lim: "spec_offset t i < u64_limit" using tables_wf_runs(9) [OF assms] by linarith
  have "i \<le> length (tb_sizes t)" using assms(2) by (simp add: tables_len_def)
  then show ?thesis
    using c lim tables_wf_runs(2) [OF assms(1)]
    by (simp add: tables_offset_def spec_offset_def Let_def)
qed

lemma tables_composition_offset_ok [total]:
  assumes "tables_wf t" "i < tables_len t"
  shows "tables_composition_offset t i = ok (spec_composition t i)"
  using run_of_props(1) [OF tables_wf_runs(6) [OF assms(1)] assms(2)] tables_wf_runs(7) [OF assms(1)]
  by (simp add: tables_composition_offset_def spec_composition_def)

lemma tables_is_sync_eq [simp]:
  assumes "tables_wf t" "i < tables_len t"
  shows "tables_is_sync t i = spec_sync t i"
  using assms tables_wf_runs(8) [OF assms(1)]
  by (auto simp: tables_is_sync_def spec_sync_def split: option.splits)

lemma index_wfD:
  assumes "index_wf s"
  shows "tables_wf (si_tables s)" "si_start s \<le> si_end s" "si_end s \<le> tables_len (si_tables s)"
    "i < index_len s \<Longrightarrow> si_start s + i < tables_len (si_tables s)"
  using assms by (auto simp: index_wf_def index_len_def)

lemma absolute_ok [total]: "i < index_len s \<Longrightarrow> absolute s i = ok (si_start s + i)"
  by (simp add: absolute_def)

lemma moved_ok:
  assumes "index_wf s" "si_start s \<le> i" "i < si_end s"
  shows "moved s (spec_decode_time (si_tables s) i) =
     ok (nat (int (spec_decode_time (si_tables s) i) + si_shift s))"
  using assms by (auto simp: moved_def index_wf_def u64_of_int_def)

theorem index_get_ok [total]:
  assumes "index_wf s" "i < index_len s"
  shows "index_get s i = ok (index_samples s ! i)"
  using assms index_wfD [OF assms(1)] moved_ok [OF assms(1), of "si_start s + i"]
  by (simp add: index_get_def absolute_ok total spec_sample_def tables_len_def index_len_def)

lemma index_decode_time_ok [total]:
  assumes "index_wf s" "i < index_len s"
  shows "index_decode_time s i = ok (sm_decode_time (index_samples s ! i))"
  using assms index_wfD [OF assms(1)] moved_ok [OF assms(1), of "si_start s + i"]
  by (simp add: index_decode_time_def absolute_ok total spec_sample_def index_len_def)

lemma index_size_ok [total]:
  assumes "index_wf s" "i < index_len s"
  shows "index_size s i = ok (sm_size (index_samples s ! i))"
  using assms index_wfD [OF assms(1)]
  by (simp add: index_size_def absolute_ok spec_sample_def tables_len_def)

lemma index_is_empty_iff: "index_wf s \<Longrightarrow> index_is_empty s \<longleftrightarrow> index_samples s = []"
  by (auto simp: index_wf_def index_is_empty_def index_samples_def)

lemma index_first_ok [total]:
  assumes "index_wf s"
  shows "index_first s = ok (if index_samples s = [] then None else Some (hd (index_samples s)))"
proof (cases "index_samples s = []")
  case False
  then have "0 < index_len s" by (metis length_greater_0_conv length_index_samples)
  then show ?thesis using False assms
    by (simp add: index_first_def index_is_empty_iff total hd_conv_nth)
qed (use assms in \<open>simp add: index_first_def index_is_empty_iff\<close>)

lemma index_last_ok [total]:
  assumes "index_wf s"
  shows "index_last s = ok (last_opt (index_samples s))"
proof (cases "index_samples s = []")
  case True
  then have "index_len s = 0" by (metis length_0_conv length_index_samples)
  then show ?thesis using True by (simp add: index_last_def last_opt_def checked_sub_def)
next
  case False
  then have "0 < index_len s" by (metis length_greater_0_conv length_index_samples)
  then show ?thesis using False assms
    by (simp add: index_last_def total last_opt_def last_conv_nth checked_sub_def)
qed

section \<open>The iterator lists the samples\<close>

lemma partition_point_mono:
  assumes "\<And>x. p x \<Longrightarrow> q x"
  shows "partition_point p xs \<le> partition_point q xs"
  unfolding partition_point_def
  using assms by (induction xs) auto

lemma run_of_mono: "i \<le> j \<Longrightarrow> run_of first i \<le> run_of first j"
  unfolding run_of_def by (intro diff_le_mono partition_point_mono) simp

lemma run_of_Suc_first:
  assumes "run_table first n" "Suc i < n" "run_of first (Suc i) \<noteq> run_of first i"
  shows "first ! run_of first (Suc i) = Suc i"
proof (rule ccontr)
  assume "first ! run_of first (Suc i) \<noteq> Suc i"
  then have le: "first ! run_of first (Suc i) \<le> i" using run_of_props(2) [OF assms(1,2)] by simp
  have "run_of first i = run_of first (Suc i)"
  proof (rule run_of_eqI [OF assms(1) _ le])
    show "run_of first (Suc i) < length first" using run_of_props(1) [OF assms(1,2)] .
    show "i < first ! (run_of first (Suc i) + 1)" if "run_of first (Suc i) + 1 < length first"
      using run_of_props(3) [OF assms(1,2) that] by simp
  qed
  then show False using assms(3) by simp
qed

lemma spec_offset_Suc:
  assumes "tables_wf t" "Suc i < tables_len t"
    "run_of (tb_chunk_first t) (Suc i) = run_of (tb_chunk_first t) i"
  shows "spec_offset t (Suc i) = spec_offset t i + tb_sizes t ! i"
proof -
  have "i < tables_len t" using assms(2) by simp
  note run_of_props(2) [OF tables_wf_runs(1) [OF assms(1)] this]
  then show ?thesis using assms(2,3)
    by (simp add: spec_offset_def subslice_snoc tables_len_def)
qed

lemma spec_offset_first:
  "tb_chunk_first t ! run_of (tb_chunk_first t) i = i \<Longrightarrow>
   spec_offset t i = tb_chunk_offset t ! run_of (tb_chunk_first t) i"
  by (simp add: spec_offset_def)

text \<open>A cursor into an ascending list of marks.\<close>

lemma marks_partition_Cons:
  fixes xs :: "nat list"
  shows "partition_point p (x # xs) = (if p x then Suc (partition_point p xs) else 0)"
  by (simp add: partition_point_def)

lemma marks_hit:
  fixes sync :: "nat list"
  assumes "sorted_wrt (<) sync"
  shows "get_at sync (partition_point (\<lambda>k. k < i) sync) = Some i \<longleftrightarrow> i \<in> set sync"
  using assms
proof (induction sync)
  case Nil
  show ?case by (simp add: get_at_def)
next
  case (Cons x xs)
  then have IH: "get_at xs (partition_point (\<lambda>k. k < i) xs) = Some i \<longleftrightarrow> i \<in> set xs" by simp
  show ?case
  proof (cases "x < i")
    case True
    then show ?thesis using IH by (simp add: marks_partition_Cons get_at_eq_Some)
  next
    case False
    then show ?thesis using Cons.prems by (auto simp: marks_partition_Cons get_at_eq_Some)
  qed
qed

lemma marks_next:
  fixes sync :: "nat list"
  assumes "sorted_wrt (<) sync"
  shows "partition_point (\<lambda>k. k < Suc i) sync =
     (if i \<in> set sync then Suc (partition_point (\<lambda>k. k < i) sync)
      else partition_point (\<lambda>k. k < i) sync)"
  using assms
proof (induction sync)
  case Nil
  show ?case by simp
next
  case (Cons x xs)
  have z: "partition_point (\<lambda>k. k < i) xs = 0" if "i \<le> x"
    using Cons.prems that by (cases xs) (auto simp: marks_partition_Cons)
  have z': "partition_point (\<lambda>k. k < Suc i) xs = 0" if "i \<le> x"
    using Cons.prems that by (cases xs) (auto simp: marks_partition_Cons)
  show ?case using Cons z z' by (auto simp: marks_partition_Cons less_Suc_eq)
qed

definition iter_inv :: "sample_index \<Rightarrow> iter \<Rightarrow> bool" where
  "iter_inv s it \<longleftrightarrow> it_index it = s \<and> it_end it \<le> si_end s \<and> si_start s \<le> it_position it \<and>
     (it_position it < it_end it \<longrightarrow>
       (let t = si_tables s; i = it_position it in
          it_chunk it \<le> run_of (tb_chunk_first t) i
          \<and> (if it_chunk it = run_of (tb_chunk_first t) i then it_offset it = spec_offset t i
             else tb_chunk_first t ! run_of (tb_chunk_first t) i = i)
          \<and> it_time_run it \<le> run_of (tb_time_first t) i
          \<and> (if tb_composition_first t = [] then it_composition_run it = 0
             else it_composition_run it \<le> run_of (tb_composition_first t) i)
          \<and> (\<forall>sync. tb_sync t = Some sync \<longrightarrow> it_sync it = partition_point (\<lambda>k. k < i) sync)))"

lemma iter_next_done: "it_end it \<le> it_position it \<Longrightarrow> iter_next it = ok (None, it)"
  by (simp add: iter_next_def)

lemma iter_next_step:
  assumes wf: "index_wf s" and inv: "iter_inv s it" and lt: "it_position it < it_end it"
  shows "\<exists>it'. iter_next it = ok (Some (spec_sample (si_tables s) (si_shift s) (it_position it)), it')
     \<and> iter_inv s it' \<and> it_position it' = Suc (it_position it) \<and> it_end it' = it_end it"
proof -
  define t i where "t = si_tables s" and "i = it_position it"
  note twf = index_wfD(1) [OF wf, folded t_def]
  have s: "it_index it = s" and e: "it_end it \<le> si_end s" and st: "si_start s \<le> i"
    using inv by (auto simp: iter_inv_def i_def)
  have i: "i < tables_len t" "i < si_end s"
    using lt e index_wfD(3) [OF wf] by (simp_all add: t_def i_def)
  note runs = tables_wf_runs [OF twf]
  let ?c = "run_of (tb_chunk_first t) i" and ?r = "run_of (tb_time_first t) i"
  let ?m = "advance_run (tb_composition_first t) i (it_composition_run it)"
  have cur: "it_chunk it \<le> ?c" "it_time_run it \<le> ?r"
    "if it_chunk it = ?c then it_offset it = spec_offset t i else tb_chunk_first t ! ?c = i"
    using inv lt by (auto simp: iter_inv_def t_def i_def)
  have chunk: "advance_chunk (tb_chunk_first t) (tb_chunk_offset t) i (it_chunk it) (it_offset it)
      = ok (?c, spec_offset t i)"
    using advance_chunk_eq [OF runs(1) i(1) cur(1) runs(2)] cur(3) spec_offset_first [of t i]
    by (auto split: if_splits)
  have time: "advance_run (tb_time_first t) i (it_time_run it) = ?r"
    by (rule advance_run_eq [OF runs(3) i(1) cur(2)])
  have comp: "(case get_at (tb_composition_offset t) ?m of None \<Rightarrow> 0 | Some c \<Rightarrow> c) = spec_composition t i
      \<and> (if tb_composition_first t = [] then ?m = 0 else ?m = run_of (tb_composition_first t) i)"
  proof (cases "tb_composition_first t = []")
    case True
    moreover have "?m = 0"
      using True inv lt by (subst advance_run.simps) (auto simp: iter_inv_def t_def i_def)
    ultimately show ?thesis using runs(7) by (simp add: spec_composition_def get_at_def)
  next
    case False
    then have "?m = run_of (tb_composition_first t) i"
      using advance_run_eq [OF runs(6) i(1)] inv lt by (simp add: iter_inv_def t_def i_def)
    then show ?thesis
      using False run_of_props(1) [OF runs(6) i(1)] runs(7)
      by (simp add: spec_composition_def get_at_def)
  qed
  let ?hit = "case tb_sync t of None \<Rightarrow> True | Some sync \<Rightarrow> get_at sync (it_sync it) = Some i"
  have sync: "tb_sync t = Some sy \<Longrightarrow> it_sync it = partition_point (\<lambda>k. k < i) sy" for sy
    using inv lt by (auto simp: iter_inv_def t_def i_def)
  have hit: "?hit = spec_sync t i"
    using sync marks_hit runs(11) by (auto simp: spec_sync_def split: option.splits)
  have r: "?r < length (tb_time_first t)" using run_of_props(1) [OF runs(3) i(1)] .
  have size: "index_at (tb_sizes t) i = ok (tb_sizes t ! i)" using i by (simp add: tables_len_def)
  have off: "wadd64 (spec_offset t i) (tb_sizes t ! i) = spec_offset t i + tb_sizes t ! i"
    using runs(9) [OF i(1)] by simp
  note mv = moved_ok [OF wf st i(2), folded t_def]
  let ?it = "it\<lparr>it_position := i + 1, it_chunk := ?c, it_offset := spec_offset t i + tb_sizes t ! i,
     it_time_run := ?r, it_composition_run := ?m,
     it_sync := if tb_sync t \<noteq> None \<and> ?hit then it_sync it + 1 else it_sync it\<rparr>"
  have "iter_next it = ok (Some (spec_sample t (si_shift s) i), ?it)"
    using lt chunk time comp hit r size off mv s runs(4,5) decode_time_arith [OF twf i(1)]
    by (simp add: iter_next_def spec_sample_def spec_duration_def
        flip: i_def t_def)
  moreover have "iter_inv s ?it"
  proof -
    have n: "Suc i < tables_len t" if "Suc i < it_end it"
      using that e index_wfD(3) [OF wf] by (simp add: t_def)
    have mono: "run_of f i \<le> run_of f (Suc i)" for f by (rule run_of_mono) simp
    have c': "if ?c = run_of (tb_chunk_first t) (Suc i)
        then spec_offset t i + tb_sizes t ! i = spec_offset t (Suc i)
        else tb_chunk_first t ! run_of (tb_chunk_first t) (Suc i) = Suc i" if "Suc i < it_end it"
      using spec_offset_Suc [OF twf n [OF that]] run_of_Suc_first [OF runs(1) n [OF that]] by auto
    have s': "(if tb_sync t \<noteq> None \<and> ?hit then it_sync it + 1 else it_sync it)
        = partition_point (\<lambda>k. k < Suc i) sy" if "tb_sync t = Some sy" for sy
      using that marks_next [OF runs(11) [OF that]] marks_hit [OF runs(11) [OF that]] sync [OF that]
      by (simp add: that)
    show ?thesis
      using s e st comp mono c' s' by (auto simp: iter_inv_def simp flip: t_def split: if_splits)
  qed
  ultimately show ?thesis by (auto simp: t_def i_def)
qed

lemma iter_collect_inv:
  assumes "index_wf s" "iter_inv s it" "it_end it - it_position it < fuel"
  shows "iter_collect fuel it =
     ok (map (spec_sample (si_tables s) (si_shift s)) [it_position it..<it_end it])"
  using assms(2,3)
proof (induction fuel arbitrary: it)
  case (Suc fuel)
  show ?case
  proof (cases "it_position it < it_end it")
    case True
    from iter_next_step [OF assms(1) Suc.prems(1) True] obtain it' where
      step: "iter_next it = ok (Some (spec_sample (si_tables s) (si_shift s) (it_position it)), it')"
      and inv: "iter_inv s it'" and pos: "it_position it' = Suc (it_position it)" "it_end it' = it_end it"
      by blast
    have "iter_collect fuel it' =
       ok (map (spec_sample (si_tables s) (si_shift s)) [it_position it'..<it_end it'])"
      using Suc.prems(2) True pos by (intro Suc.IH [OF inv]) simp
    then show ?thesis using step pos True by (simp add: upt_conv_Cons)
  qed (simp add: iter_next_done)
qed simp

lemma index_range_inv:
  assumes "index_wf s" "a \<le> b" "b \<le> index_len s"
  shows "\<exists>it. index_range s a b = ok it \<and> iter_inv s it
     \<and> it_position it = si_start s + a \<and> it_end it = si_start s + b"
proof (cases "si_start s + a < tables_len (si_tables s)")
  case True
  then show ?thesis
    using assms index_wfD [OF assms(1)]
    by (auto simp: index_range_def total iter_inv_def index_len_def)
next
  case False
  then have "si_start s + b \<le> si_start s + a"
    using assms index_wfD [OF assms(1)] by (simp add: index_len_def)
  then show ?thesis using False assms index_wfD [OF assms(1)]
    by (auto simp: index_range_def iter_inv_def index_len_def)
qed

lemma to_vec_ok [total]:
  assumes "index_wf s" "a \<le> b" "b \<le> index_len s"
  shows "to_vec s a b = ok (subslice (index_samples s) a b)"
proof -
  obtain it where it: "index_range s a b = ok it" "iter_inv s it"
     "it_position it = si_start s + a" "it_end it = si_start s + b"
    using index_range_inv [OF assms] by blast
  have "map (spec_sample (si_tables s) (si_shift s)) [si_start s + a..<si_start s + b]
      = subslice (index_samples s) a b"
    using assms by (intro nth_equalityI) (simp_all add: index_len_def add.assoc)
  then show ?thesis
    using it iter_collect_inv [OF assms(1) it(2)] by (simp add: to_vec_def del: iter_collect.simps)
qed

lemma iter_all_ok [total]: "index_wf s \<Longrightarrow> iter_all s = ok (index_samples s)"
  by (metis iter_all_def to_vec_ok subslice_all length_index_samples le0 order_refl)

lemma index_eq_ok:
  "index_wf s \<Longrightarrow> index_wf s' \<Longrightarrow> index_eq s s' = ok (index_samples s = index_samples s')"
  by (auto simp: index_eq_def total dest: arg_cong [of _ _ length])

section \<open>Windows and shifts\<close>

lemma index_window_ok [total]:
  "a \<le> b \<Longrightarrow> b \<le> index_len s \<Longrightarrow>
   index_window s a b = ok (s\<lparr>si_start := si_start s + a, si_end := si_start s + b\<rparr>)"
  by (simp add: index_window_def)

lemma index_window_eq_Inr:
  "index_window s a b = Inr w \<longleftrightarrow>
     a \<le> b \<and> b \<le> index_len s \<and> w = s\<lparr>si_start := si_start s + a, si_end := si_start s + b\<rparr>"
  by (auto simp: index_window_def and_then_eq_Inr)

lemma index_window_wf [inv_intros]:
  assumes "index_wf s" "index_window s a b = Inr w"
  shows "index_wf w"
  using assms by (auto simp: index_window_eq_Inr index_wf_def index_len_def)

lemma index_window_samples:
  assumes "index_window s a b = Inr w"
  shows "index_samples w = subslice (index_samples s) a b"
  using assms by (auto simp: index_window_eq_Inr index_len_def add.assoc intro!: nth_equalityI)

lemma index_window_ascending [inv_intros]:
  "index_ascending s \<Longrightarrow> index_window s a b = Inr w \<Longrightarrow> index_ascending w"
  by (auto simp: index_window_eq_Inr index_ascending_def)

definition shift_sample :: "int \<Rightarrow> sample \<Rightarrow> sample" where
  "shift_sample delta x = x\<lparr>sm_decode_time := nat (int (sm_decode_time x) + delta)\<rparr>"

lemma index_samples_decode_time:
  assumes "index_wf s" "i < index_len s"
  shows "int (sm_decode_time (index_samples s ! i)) =
     int (spec_decode_time (si_tables s) (si_start s + i)) + si_shift s"
  using assms by (simp add: spec_sample_def index_wf_def index_len_def)

lemma index_samples_sorted:
  assumes "index_wf s" "index_ascending s" "i \<le> j" "j < index_len s"
  shows "sm_decode_time (index_samples s ! i) \<le> sm_decode_time (index_samples s ! j)"
proof -
  have "spec_decode_time (si_tables s) (si_start s + i) \<le> spec_decode_time (si_tables s) (si_start s + j)"
    using assms index_wfD(4) [OF assms(1), of j] by (simp add: index_ascending_def tables_ascending_def)
  then show ?thesis
    using index_samples_decode_time [OF assms(1), of i] index_samples_decode_time [OF assms(1), of j]
      assms(3,4) by linarith
qed

lemma index_shifted_eq_Inr:
  assumes "index_wf s"
  shows "index_shifted s delta m = Inr s' \<longleftrightarrow>
     s' = s\<lparr>si_shift := si_shift s + delta\<rparr> \<and>
     (index_samples s \<noteq> [] \<longrightarrow>
        0 \<le> int (sm_decode_time (hd (index_samples s))) + delta \<and>
        0 \<le> int (sm_decode_time (last (index_samples s)) + sm_duration (last (index_samples s))) + delta \<and>
        int (sm_decode_time (last (index_samples s)) + sm_duration (last (index_samples s))) + delta
          < int u64_limit)"
  using assms by (auto simp: index_shifted_def total last_opt_def)

lemma index_shifted_wf [inv_intros]:
  assumes wf: "index_wf s" and asc: "index_ascending s" and sh: "index_shifted s delta m = Inr s'"
  shows "index_wf s'"
proof -
  have s': "s' = s\<lparr>si_shift := si_shift s + delta\<rparr>"
    using sh index_shifted_eq_Inr [OF wf] by blast
  have "0 \<le> int (spec_decode_time (si_tables s) i) + (si_shift s + delta)
      \<and> int (spec_decode_time (si_tables s) i) + (si_shift s + delta) < int u64_limit"
    if i: "si_start s \<le> i" "i < si_end s" for i
  proof -
    let ?j = "i - si_start s" and ?n = "index_len s - 1"
    have j: "?j < index_len s" using i by (simp add: index_len_def)
    then have ne: "index_samples s \<noteq> []" by (metis length_greater_0_conv length_index_samples less_nat_zero_code not_gr_zero)
    have b: "0 \<le> int (sm_decode_time (index_samples s ! 0)) + delta"
      "int (sm_decode_time (index_samples s ! ?n)) + delta < int u64_limit"
      using sh index_shifted_eq_Inr [OF wf] ne by (auto simp: hd_conv_nth last_conv_nth)
    have "sm_decode_time (index_samples s ! 0) \<le> sm_decode_time (index_samples s ! ?j)"
      "sm_decode_time (index_samples s ! ?j) \<le> sm_decode_time (index_samples s ! ?n)"
      using j by (intro index_samples_sorted [OF wf asc]; simp)+
    moreover have "int (sm_decode_time (index_samples s ! ?j)) =
        int (spec_decode_time (si_tables s) i) + si_shift s"
      using index_samples_decode_time [OF wf j] i by simp
    ultimately show ?thesis using b by linarith
  qed
  then show ?thesis using wf s' by (simp add: index_wf_def)
qed

lemma index_shifted_samples:
  assumes "index_wf s" "index_shifted s delta m = Inr s'"
  shows "index_samples s' = map (shift_sample delta) (index_samples s)"
proof -
  have s': "s' = s\<lparr>si_shift := si_shift s + delta\<rparr>"
    using assms index_shifted_eq_Inr by blast
  then have "index_len s' = index_len s" by (simp add: index_len_def)
  moreover have "spec_sample (si_tables s) (si_shift s + delta) (si_start s + i) =
      shift_sample delta (index_samples s ! i)" if "i < index_len s" for i
    using index_samples_decode_time [OF assms(1) that] that
    by (simp add: spec_sample_def shift_sample_def)
  ultimately show ?thesis using s' by (auto intro!: nth_equalityI)
qed

lemma index_shifted_ascending [inv_intros]:
  "index_wf s \<Longrightarrow> index_ascending s \<Longrightarrow> index_shifted s delta m = Inr s' \<Longrightarrow> index_ascending s'"
  by (auto simp: index_shifted_eq_Inr index_ascending_def)

text \<open>The only failure of a shift is the one its caller names.\<close>

lemma index_shifted_fault:
  "index_wf s \<Longrightarrow> index_shifted s delta m = Inl e \<Longrightarrow> e = Fail (InvalidMedia m)"
  by (auto simp: index_shifted_def total last_opt_def split: if_splits)

section \<open>Payload sizes\<close>

lemma payload_bytes_ok [total]:
  assumes "index_wf s" "a \<le> b" "b \<le> index_len s"
  shows "payload_bytes s a b = ok (sum_list (map sm_size (subslice (index_samples s) a b)) mod u64_limit)"
proof -
  have "subslice (tb_sizes (si_tables s)) (si_start s + a) (si_start s + b)
      = map sm_size (subslice (index_samples s) a b)"
    using assms index_wfD [OF assms(1)]
    by (intro nth_equalityI) (simp_all add: index_len_def tables_len_def spec_sample_def add.assoc)
  then show ?thesis using assms index_wfD [OF assms(1)]
    by (simp add: payload_bytes_def index_len_def tables_len_def)
qed

text \<open>
  The sum cannot wrap: there are at most \<open>2 ^ 32\<close> samples, each smaller than \<open>2 ^ 32\<close> bytes.
\<close>

lemma sum_list_bound:
  fixes xs :: "nat list"
  shows "\<forall>x \<in> set xs. x \<le> m \<Longrightarrow> sum_list xs \<le> length xs * m"
  by (induction xs) auto

lemma payload_bytes_exact:
  assumes wf: "index_wf s" and ab: "a \<le> b" "b \<le> index_len s"
    and sizes: "\<forall>z \<in> set (tb_sizes (si_tables s)). z < u32_limit"
  shows "payload_bytes s a b = ok (sum_list (map sm_size (subslice (index_samples s) a b)))"
proof -
  let ?xs = "map sm_size (subslice (index_samples s) a b)"
  have "\<forall>z \<in> set ?xs. z \<le> 4294967295"
  proof
    fix z assume "z \<in> set ?xs"
    then obtain x where x: "x \<in> set (index_samples s)" "z = sm_size x"
      using set_subslice by fastforce
    then obtain i where "i < index_len s" "x = index_samples s ! i"
      by (auto simp: in_set_conv_nth)
    then have "z = tb_sizes (si_tables s) ! (si_start s + i)" "si_start s + i < length (tb_sizes (si_tables s))"
      using x index_wfD [OF wf] by (auto simp: spec_sample_def index_len_def tables_len_def)
    then have "z < u32_limit" using sizes by simp
    then show "z \<le> 4294967295" by simp
  qed
  then have "sum_list ?xs \<le> length ?xs * 4294967295" by (rule sum_list_bound)
  moreover
  have "length ?xs \<le> 4294967296"
    using ab index_wfD [OF wf] tables_wf_runs(8) [OF index_wfD(1) [OF wf]]
    by (simp add: index_len_def)
  then have "length ?xs * 4294967295 \<le> 4294967296 * 4294967295" by (rule mult_le_mono1)
  ultimately have "sum_list ?xs < u64_limit" by simp
  then show ?thesis using payload_bytes_ok [OF wf ab] by simp
qed

section \<open>Searching by decode time\<close>

lemma decode_time_within_run:
  assumes "tables_wf t" "i < tables_len t" "r < length (tb_time_first t)" "tb_time_first t ! r \<le> i"
    "r + 1 < length (tb_time_first t) \<Longrightarrow> i < tb_time_first t ! (r + 1)"
  shows "spec_decode_time t i = tb_time_start t ! r + (i - tb_time_first t ! r) * tb_time_duration t ! r"
  using run_of_eqI [OF tables_wf_runs(3) [OF assms(1)] assms(3-5)] by (simp add: spec_decode_time_def)

lemma decode_time_at_run_start:
  assumes "tables_wf t" "r < length (tb_time_first t)"
  shows "spec_decode_time t (tb_time_first t ! r) = tb_time_start t ! r"
proof -
  note rt = tables_wf_runs(3) [OF assms(1)]
  have "tb_time_first t ! r < tb_time_first t ! (r + 1)" if "r + 1 < length (tb_time_first t)"
    using run_table_nth_less [OF rt _ that] by simp
  then show ?thesis
    using decode_time_within_run [OF assms(1) run_table_bound [OF rt assms(2)] assms(2)] by simp
qed

lemma tables_partition_split:
  assumes wf: "tables_wf t" and asc: "tables_ascending t" and n: "n \<le> tables_len t"
    and low: "0 < n \<Longrightarrow> int (spec_decode_time t (n - 1)) < time"
    and high: "n < tables_len t \<Longrightarrow> time \<le> int (spec_decode_time t n)"
  shows "partition_point (\<lambda>i. int (spec_decode_time t i) < time) [0..<tables_len t] = n"
proof (rule partition_point_eqI)
  show "n \<le> length [0..<tables_len t]" using n by simp
  show "int (spec_decode_time t ([0..<tables_len t] ! i)) < time" if "i < n" for i
  proof -
    have "spec_decode_time t i \<le> spec_decode_time t (n - 1)"
      using asc that n by (simp add: tables_ascending_def)
    then show ?thesis using low that n by simp
  qed
  show "\<not> int (spec_decode_time t ([0..<tables_len t] ! n)) < time" if "n < length [0..<tables_len t]"
    using high that by simp
qed

text \<open>Rounding up a positive distance to whole steps.\<close>

lemma ceil_steps:
  fixes e d :: int
  assumes "0 < d" "0 < e"
  defines "q \<equiv> (e + d - 1) div d"
  shows "1 \<le> q" "(q - 1) * d < e" "e \<le> q * d"
proof -
  have qm: "q * d + (e + d - 1) mod d = e + d - 1" unfolding q_def by (rule div_mult_mod_eq)
  have m: "0 \<le> (e + d - 1) mod d" "(e + d - 1) mod d < d" using assms(1) by simp_all
  show "(q - 1) * d < e" using qm m by (simp add: algebra_simps)
  show "e \<le> q * d" using qm m by linarith
  then have "0 < q * d" using assms(2) by linarith
  then show "1 \<le> q" using assms(1) by (simp add: zero_less_mult_iff)
qed

lemma candidate_within:
  assumes "first < u32_limit" "ub \<le> u32_limit" "0 \<le> q"
  defines "c \<equiv> saturating_add first (case u64_of_int q of None \<Rightarrow> u64_limit - 1 | Some s \<Rightarrow> s)"
  shows "c < ub \<longleftrightarrow> int first + q < int ub" and "c < ub \<Longrightarrow> c = first + nat q"
proof -
  have *: "c = min (first + nat q) (u64_limit - 1)" if "q < int u64_limit"
    using that assms(3) by (simp add: c_def saturating_add_def u64_of_int_def)
  have **: "c = u64_limit - 1" if "int u64_limit \<le> q"
    using that by (simp add: c_def saturating_add_def u64_of_int_def)
  show "c < ub \<longleftrightarrow> int first + q < int ub"
    using * ** assms(1,2,3) by (cases "q < int u64_limit") (auto simp: min_def)
  show "c < ub \<Longrightarrow> c = first + nat q"
    using * ** assms(2) by (cases "q < int u64_limit") (auto simp: min_def split: if_splits)
qed

theorem tables_partition_by_decode_time_ok [total]:
  assumes wf: "tables_wf t" and asc: "tables_ascending t"
  shows "tables_partition_by_decode_time t time =
     ok (partition_point (\<lambda>i. int (spec_decode_time t i) < time) [0..<tables_len t])"
proof -
  note runs = tables_wf_runs [OF wf]
  let ?S = "tb_time_start t" and ?F = "tb_time_first t" and ?D = "tb_time_duration t"
  let ?next = "partition_point (\<lambda>start. int start < time) ?S"
  define ub where "ub = (case get_at ?F ?next of None \<Rightarrow> tables_len t | Some f \<Rightarrow> f)"
  have next_le: "?next \<le> length ?F" using partition_point_le [of _ ?S] runs(4) by simp
  have ub_eq: "ub = (if ?next < length ?F then ?F ! ?next else tables_len t)"
    by (simp add: ub_def get_at_def)
  have ub_le: "ub \<le> tables_len t"
    using run_table_bound [OF runs(3)] by (auto simp: ub_eq dest: less_imp_le)
  have above: "time \<le> int (spec_decode_time t ub)" if "ub < tables_len t"
  proof -
    from that have nx: "?next < length ?F" by (auto simp: ub_eq split: if_splits)
    then have "\<not> int (?S ! ?next) < time"
      using partition_point_at [of "\<lambda>start. int start < time" ?S] runs(4) by simp
    then show ?thesis using decode_time_at_run_start [OF wf nx] nx by (simp add: ub_eq)
  qed
  show ?thesis
  proof (cases ?next)
    case 0
    have "partition_point (\<lambda>i. int (spec_decode_time t i) < time) [0..<tables_len t] = 0"
    proof (rule tables_partition_split [OF wf asc])
      show "time \<le> int (spec_decode_time t 0)" if "0 < tables_len t"
        using above run_table_nth_0 [OF runs(3) that] run_table_nonempty [OF runs(3) that] that 0
        by (simp add: ub_eq)
    qed simp_all
    then show ?thesis using 0 by (simp add: tables_partition_by_decode_time_def checked_sub_def)
  next
    case (Suc run)
    have run: "run < length ?F" using Suc next_le by simp
    have below: "int (?S ! run) < time"
      using partition_point_before [of run "\<lambda>start. int start < time" ?S] Suc by simp
    have fu: "?F ! run < ub"
      using run_table_nth_less [OF runs(3), of run "Suc run"] run_table_bound [OF runs(3) run]
      by (auto simp: ub_eq Suc)
    have dt: "spec_decode_time t i = ?S ! run + (i - ?F ! run) * ?D ! run"
      if "?F ! run \<le> i" "i < ub" for i
      using that ub_le ub_eq Suc by (intro decode_time_within_run [OF wf _ run]) auto
    have ub1: "(case get_at ?F (Suc run) of None \<Rightarrow> tables_len t | Some f \<Rightarrow> f) = ub"
      and ub2: "\<not> Suc run < length ?F \<Longrightarrow> tables_len t = ub"
      by (simp_all add: ub_def ub_eq Suc get_at_def)
    have res: "tables_partition_by_decode_time t time =
      (if ?D ! run = 0 then ok ub
       else let c = saturating_add (?F ! run)
              (case u64_of_int ((time - int (?S ! run) + int (?D ! run) - 1) div int (?D ! run)) of
                 None \<Rightarrow> u64_limit - 1 | Some s \<Rightarrow> s)
            in ok (if c < ub then c else ub))"
      using Suc run runs(4,5) ub1 ub2
      by (simp add: tables_partition_by_decode_time_def checked_sub_def)
    show ?thesis
    proof (cases "?D ! run = 0")
      case True
      have "partition_point (\<lambda>i. int (spec_decode_time t i) < time) [0..<tables_len t] = ub"
      proof (rule tables_partition_split [OF wf asc ub_le _ above])
        show "int (spec_decode_time t (ub - 1)) < time" if "0 < ub"
          using dt [of "ub - 1"] fu True below by simp
      qed
      then show ?thesis using res True by simp
    next
      case False
      define q where "q = (time - int (?S ! run) + int (?D ! run) - 1) div int (?D ! run)"
      note q = ceil_steps [of "int (?D ! run)" "time - int (?S ! run)", folded q_def]
      have q1: "1 \<le> q" and q2: "(q - 1) * int (?D ! run) < time - int (?S ! run)"
        and q3: "time - int (?S ! run) \<le> q * int (?D ! run)"
        using q False below by auto
      define c where "c = saturating_add (?F ! run)
        (case u64_of_int q of None \<Rightarrow> u64_limit - 1 | Some s \<Rightarrow> s)"
      have c: "c < ub \<longleftrightarrow> int (?F ! run) + q < int ub" "c < ub \<Longrightarrow> c = ?F ! run + nat q"
        using candidate_within [of "?F ! run" ub q, folded c_def] run_table_bound [OF runs(3) run]
          runs(8) ub_le q1 by auto
      have dt_int: "int (spec_decode_time t i) = int (?S ! run) + (int i - int (?F ! run)) * int (?D ! run)"
        if "?F ! run \<le> i" "i < ub" for i
        using dt [OF that] that(1) by (simp add: of_nat_diff)
      have "partition_point (\<lambda>i. int (spec_decode_time t i) < time) [0..<tables_len t]
          = (if c < ub then c else ub)"
      proof (cases "c < ub")
        case True
        then have ceq: "c = ?F ! run + nat q" using c by blast
        have "partition_point (\<lambda>i. int (spec_decode_time t i) < time) [0..<tables_len t] = c"
        proof (rule tables_partition_split [OF wf asc])
          show "c \<le> tables_len t" using True ub_le by simp
          have "int (c - 1) - int (?F ! run) = q - 1" using ceq q1 by linarith
          then show "int (spec_decode_time t (c - 1)) < time"
            using dt_int [of "c - 1"] ceq q1 True q2 by (simp add: nat_le_iff)
          have "int c - int (?F ! run) = q" using ceq q1 by linarith
          then show "time \<le> int (spec_decode_time t c)"
            using dt_int [of c] ceq True q3 by simp
        qed
        then show ?thesis using True by simp
      next
        case False
        have le: "int (ub - 1) - int (?F ! run) \<le> q - 1" using False c(1) fu by linarith
        have "partition_point (\<lambda>i. int (spec_decode_time t i) < time) [0..<tables_len t] = ub"
        proof (rule tables_partition_split [OF wf asc ub_le _ above])
          have "(int (ub - 1) - int (?F ! run)) * int (?D ! run) \<le> (q - 1) * int (?D ! run)"
            using le by (intro mult_right_mono) simp_all
          then show "int (spec_decode_time t (ub - 1)) < time"
            using dt_int [of "ub - 1"] fu q2 by simp
        qed
        then show ?thesis using False by simp
      qed
      then show ?thesis using res False by (simp add: c_def q_def)
    qed
  qed
qed

theorem index_partition_by_decode_time_ok [total]:
  assumes wf: "index_wf s" and asc: "index_ascending s"
  shows "index_partition_by_decode_time s time =
     ok (partition_point (\<lambda>x. sm_decode_time x < time) (index_samples s))"
proof -
  let ?t = "si_tables s" and ?time = "int time - si_shift s"
  let ?P = "\<lambda>i. int (spec_decode_time ?t i) < ?time"
  let ?p = "partition_point ?P [0..<tables_len ?t]"
  have "partition_point (\<lambda>x. sm_decode_time x < time) (index_samples s)
      = max (si_start s) (min (si_end s) ?p) - si_start s" (is "_ = ?n")
  proof (rule partition_point_eqI)
    have "si_start s \<le> si_end s" using wf by (simp add: index_wf_def)
    then show len: "?n \<le> length (index_samples s)" by (simp add: index_len_def)
    show "sm_decode_time (index_samples s ! i) < time" if "i < ?n" for i
    proof -
      have i: "i < index_len s" using that len by simp
      have "si_start s + i < ?p" using that by (simp add: min_def max_def split: if_splits)
      moreover have "si_start s + i < tables_len ?t" using index_wfD(4) [OF wf i] .
      ultimately have "?P (si_start s + i)"
        using partition_point_before [of "si_start s + i" ?P "[0..<tables_len ?t]"] by simp
      then show ?thesis using index_samples_decode_time [OF wf i] by linarith
    qed
    show "\<not> sm_decode_time (index_samples s ! ?n) < time" if "?n < length (index_samples s)"
    proof -
      have i: "?n < index_len s" using that by simp
      then have le: "?p \<le> si_start s + ?n" by (simp add: index_len_def min_def max_def split: if_splits)
      have lt: "si_start s + ?n < tables_len ?t" using index_wfD(4) [OF wf i] .
      have "\<not> ?P ?p"
        using partition_point_at [of ?P "[0..<tables_len ?t]"] le lt by simp
      moreover have "spec_decode_time ?t ?p \<le> spec_decode_time ?t (si_start s + ?n)"
        using asc le lt by (simp add: index_ascending_def tables_ascending_def)
      ultimately show ?thesis using index_samples_decode_time [OF wf i] by linarith
    qed
  qed
  then show ?thesis
    using wf asc by (simp add: index_partition_by_decode_time_def total index_wf_def index_ascending_def)
qed

section \<open>Sync samples\<close>

lemma sync_slice:
  fixes sync :: "nat list"
  assumes "sorted_wrt (<) sync" "a \<le> b"
  shows "subslice sync (partition_point (\<lambda>i. i < a) sync) (partition_point (\<lambda>i. i < b) sync)
      = filter (\<lambda>i. i \<in> set sync) [a..<b]"
    and "partition_point (\<lambda>i. i < a) sync \<le> partition_point (\<lambda>i. i < b) sync"
proof -
  show le: "partition_point (\<lambda>i. i < a) sync \<le> partition_point (\<lambda>i. i < b) sync"
    using assms(2) by (intro partition_point_mono) simp
  show "subslice sync (partition_point (\<lambda>i. i < a) sync) (partition_point (\<lambda>i. i < b) sync)
      = filter (\<lambda>i. i \<in> set sync) [a..<b]"
    using assms(2)
  proof (induction b rule: dec_induct)
    case (step b)
    let ?p = "partition_point (\<lambda>i. i < b) sync"
    have ap: "partition_point (\<lambda>i. i < a) sync \<le> ?p"
      using step(1) by (intro partition_point_mono) simp
    show ?case
    proof (cases "b \<in> set sync")
      case True
      then have "get_at sync ?p = Some b" using marks_hit [OF assms(1)] by blast
      then have "?p < length sync" "sync ! ?p = b" by (auto simp: get_at_eq_Some)
      then show ?thesis using True step ap marks_next [OF assms(1), of b]
        by (simp add: subslice_snoc)
    next
      case False
      then show ?thesis using step marks_next [OF assms(1), of b] by simp
    qed
  qed simp
qed

lemma sync_positions_index:
  assumes "index_wf s"
  shows "map (\<lambda>i. i + si_start s) (sync_positions (index_samples s))
     = filter (spec_sync (si_tables s)) [si_start s..<si_end s]"
proof -
  have *: "[si_start s..<si_end s] = map (\<lambda>i. i + si_start s) [0..<index_len s]"
    using index_wfD(2) [OF assms] by (simp add: index_len_def map_add_upt)
  have "filter (spec_sync (si_tables s)) [si_start s..<si_end s] =
      map (\<lambda>i. i + si_start s) (filter (\<lambda>i. spec_sync (si_tables s) (i + si_start s)) [0..<index_len s])"
    unfolding * by (simp add: filter_map o_def)
  also have "filter (\<lambda>i. spec_sync (si_tables s) (i + si_start s)) [0..<index_len s] =
      sync_positions (index_samples s)"
    unfolding sync_positions_def by (auto simp: spec_sample_def add.commute intro!: filter_cong)
  finally show ?thesis by simp
qed

theorem sync_indices_ok [total]:
  assumes wf: "index_wf s"
  shows "sync_indices s = ok (sync_positions (index_samples s))"
proof (cases "tb_sync (si_tables s)")
  case None
  then show ?thesis
    by (simp add: sync_indices_def sync_positions_def spec_sample_def spec_sync_def)
next
  case (Some sync)
  note twf = index_wfD(1) [OF wf]
  note sl = sync_slice [OF tables_wf_runs(11) [OF twf Some] index_wfD(2) [OF wf]]
  have sub: "filter (\<lambda>i. i \<in> set sync) [si_start s..<si_end s]
      = map (\<lambda>i. i + si_start s) (sync_positions (index_samples s))"
    using sync_positions_index [OF wf] Some by (simp add: spec_sync_def [abs_def])
  have "sync_indices s = ok (map (\<lambda>i. wsub64 i (si_start s))
      (filter (\<lambda>i. i \<in> set sync) [si_start s..<si_end s]))"
    using Some sl partition_point_le by (simp add: sync_indices_def sync_bounds_def)
  also have "map (\<lambda>i. wsub64 i (si_start s)) (filter (\<lambda>i. i \<in> set sync) [si_start s..<si_end s])
      = map (\<lambda>i. i) (sync_positions (index_samples s))"
    unfolding sub map_map
  proof (rule map_cong [OF refl])
    fix i assume "i \<in> set (sync_positions (index_samples s))"
    then have "si_start s + i < tables_len (si_tables s)"
      using index_wfD(4) [OF wf] by (simp add: sync_positions_def)
    then have "i + si_start s < u64_limit" using tables_wf_runs(8) [OF twf] by linarith
    then show "((\<lambda>i. wsub64 i (si_start s)) \<circ> (\<lambda>i. i + si_start s)) i = i" by simp
  qed
  finally show ?thesis by simp
qed

theorem nth_sync_ok [total]:
  assumes wf: "index_wf s" and n: "n < u32_limit"
  shows "nth_sync s n = ok (get_at (sync_positions (index_samples s)) n)"
proof (cases "tb_sync (si_tables s)")
  case None
  then have "sync_positions (index_samples s) = [0..<index_len s]"
    by (simp add: sync_positions_def spec_sample_def spec_sync_def)
  then show ?thesis using None by (simp add: nth_sync_def get_at_def)
next
  case (Some sync)
  note twf = index_wfD(1) [OF wf]
  note sl = sync_slice [OF tables_wf_runs(11) [OF twf Some] index_wfD(2) [OF wf]]
  let ?l = "partition_point (\<lambda>i. i < si_start s) sync" and ?h = "partition_point (\<lambda>i. i < si_end s) sync"
  have hl: "?h \<le> length sync" by (rule partition_point_le)
  have si: "sync_indices s = ok (map (\<lambda>i. wsub64 i (si_start s)) (subslice sync ?l ?h))"
    using Some sl partition_point_le by (simp add: sync_indices_def sync_bounds_def)
  then have pos: "sync_positions (index_samples s) = map (\<lambda>i. wsub64 i (si_start s)) (subslice sync ?l ?h)"
    using sync_indices_ok [OF wf] by simp
  have "length sync \<le> tables_len (si_tables s)"
  proof -
    have "distinct sync" using tables_wf_runs(11) [OF twf Some] by (simp add: strict_sorted_iff)
    then have "length sync = card (set sync)" by (simp add: distinct_card)
    also have "\<dots> \<le> card {0..<tables_len (si_tables s)}"
      using tables_wf_runs(12) [OF twf Some] by (intro card_mono) auto
    finally show ?thesis by simp
  qed
  then have "?l + n < u64_limit"
    using n tables_wf_runs(8) [OF twf] partition_point_le [of "\<lambda>i. i < si_start s" sync] by linarith
  moreover have "?l + n < ?h \<Longrightarrow> ?l + n < length sync" using hl by linarith
  ultimately show ?thesis using Some sl(2)
    by (auto simp: nth_sync_def sync_bounds_def pos get_at_def checked_add_def)
qed

end
