(* ===== verification/Sample_Index_Build.thy ===== *)
theory Sample_Index_Build
  imports Sample_Index_Spec
begin

text \<open>
  \<open>from_samples\<close> (\<^verbatim>\<open>src/src/media/samples.rs\<close>) builds tables that stand for exactly the samples it
  was given: the loop invariant \<open>build_inv\<close> says what the tables hold after each sample.
\<close>

section \<open>Building from samples\<close>

lemma run_table_snoc: "run_table first n \<Longrightarrow> run_table (first @ [n]) (Suc n)"
  by (auto simp: run_table_def sorted_wrt_append hd_append)

lemma run_table_Suc: "run_table first n \<Longrightarrow> 0 < n \<Longrightarrow> run_table first (Suc n)"
  by (auto simp: run_table_def)

lemma partition_point_all: "\<forall>x \<in> set xs. p x \<Longrightarrow> partition_point p xs = length xs"
  by (simp add: partition_point_def takeWhile_eq_all_conv [THEN iffD2])

lemma run_of_snoc_old: "run_table first n \<Longrightarrow> i < n \<Longrightarrow> run_of (first @ [n]) i = run_of first i"
  unfolding run_of_def partition_point_def
  by (cases "\<forall>f \<in> set first. f \<le> i")
     (auto simp: takeWhile_append1 takeWhile_append2 takeWhile_eq_all_conv [THEN iffD2])

lemma run_of_snoc_new: "run_table first n \<Longrightarrow> run_of (first @ [n]) n = length first"
  unfolding run_of_def by (subst partition_point_all) (auto simp: run_table_def)

lemma run_of_snoc_ge: "run_table first n \<Longrightarrow> n \<le> i \<Longrightarrow> run_of (first @ [n]) i = length first"
  unfolding run_of_def by (subst partition_point_all) (auto simp: run_table_def)

lemma run_table_grow: "run_table first n \<Longrightarrow> n < n' \<Longrightarrow> run_table (first @ [n]) n'"
  using run_table_snoc [of first n] by (auto simp: run_table_def)

lemma run_of_last:
  "run_table first n \<Longrightarrow> n \<le> Suc i \<Longrightarrow> run_of first i = length first - 1"
  unfolding run_of_def by (subst partition_point_all) (auto simp: run_table_def)

lemma subslice_append_left: "b \<le> length xs \<Longrightarrow> subslice (xs @ ys) a b = subslice xs a b"
  by (simp add: subslice_def)

text \<open>What the tables must satisfy for the builder to describe every sample exactly.\<close>

definition sample_fits :: "sample \<Rightarrow> bool" where
  "sample_fits x \<longleftrightarrow> sm_offset x + sm_size x < u64_limit \<and> sm_decode_time x + sm_duration x < u64_limit"

definition built :: "sample list \<Rightarrow> tables \<Rightarrow> bool" where
  "built ys t \<longleftrightarrow>
     tb_sizes t = map sm_size ys
     \<and> run_table (tb_chunk_first t) (length ys)
     \<and> length (tb_chunk_offset t) = length (tb_chunk_first t)
     \<and> run_table (tb_time_first t) (length ys)
     \<and> length (tb_time_start t) = length (tb_time_first t)
     \<and> length (tb_time_duration t) = length (tb_time_first t)
     \<and> run_table (tb_composition_first t) (length ys)
     \<and> length (tb_composition_offset t) = length (tb_composition_first t)
     \<and> (\<forall>i < length ys. spec_offset t i = sm_offset (ys ! i)
          \<and> spec_decode_time t i = sm_decode_time (ys ! i)
          \<and> spec_duration t i = sm_duration (ys ! i)
          \<and> tb_composition_offset t ! run_of (tb_composition_first t) i = sm_composition_offset (ys ! i))"

definition build_inv :: "sample list \<Rightarrow> tables \<times> nat list \<times> sample option \<Rightarrow> bool" where
  "build_inv ys = (\<lambda>(t, sync, previous).
     built ys t \<and> sync = sync_positions ys \<and> previous = last_opt ys)"

lemma spec_offset_snoc:
  assumes "run_table (tb_chunk_first t) (length (tb_sizes t))" "i < length (tb_sizes t)"
  shows "spec_offset (t\<lparr>tb_sizes := tb_sizes t @ [z]\<rparr>) i = spec_offset t i"
  using assms run_of_props(2) [OF assms] by (simp add: spec_offset_def subslice_append_left)

text \<open>One sample more, table by table: either it opens a run or it continues the last one.\<close>

definition chunk_step :: "bool \<Rightarrow> nat \<Rightarrow> sample \<Rightarrow> tables \<Rightarrow> tables" where
  "chunk_step same n s t = (if same then t
     else t\<lparr>tb_chunk_first := tb_chunk_first t @ [n], tb_chunk_offset := tb_chunk_offset t @ [sm_offset s]\<rparr>)"

definition time_step :: "bool \<Rightarrow> nat \<Rightarrow> sample \<Rightarrow> tables \<Rightarrow> tables" where
  "time_step same n s t = (if same then t
     else t\<lparr>tb_time_first := tb_time_first t @ [n], tb_time_start := tb_time_start t @ [sm_decode_time s],
            tb_time_duration := tb_time_duration t @ [sm_duration s]\<rparr>)"

definition composition_step :: "bool \<Rightarrow> nat \<Rightarrow> sample \<Rightarrow> tables \<Rightarrow> tables" where
  "composition_step same n s t = (if same then t
     else t\<lparr>tb_composition_first := tb_composition_first t @ [n],
            tb_composition_offset := tb_composition_offset t @ [sm_composition_offset s]\<rparr>)"

lemma from_samples_step_eq:
  assumes "n < u32_limit"
  shows "from_samples_step (t, sync, previous) (n, s) =
     (let t3 = composition_step
            (last_opt (tb_composition_offset t) = Some (sm_composition_offset s)) n s
          (time_step (case previous of None \<Rightarrow> False
             | Some p \<Rightarrow> sm_duration p = sm_duration s
                 \<and> wadd64 (sm_decode_time p) (sm_duration p) = sm_decode_time s) n s
          (chunk_step (case previous of None \<Rightarrow> False
             | Some p \<Rightarrow> wadd64 (sm_offset p) (sm_size p) = sm_offset s) n s t))
      in ok (t3\<lparr>tb_sizes := tb_sizes t3 @ [sm_size s]\<rparr>,
             if sm_is_sync s then sync @ [n] else sync, Some s))"
proof -
  have *: "tb_composition_offset (if b then x else x\<lparr>tb_time_first := u, tb_time_start := v, tb_time_duration := w\<rparr>)
      = tb_composition_offset x"
    "tb_composition_offset (if b then x else x\<lparr>tb_chunk_first := u, tb_chunk_offset := v'\<rparr>)
      = tb_composition_offset x" for b and x :: tables and u v w v' by simp_all
  show ?thesis
    using assms
    by (simp only: from_samples_step_def u32_of_nat_def chunk_step_def time_step_def composition_step_def
        Let_def prod.case expect_simps and_then_simps if_True * cong: if_cong)
qed

lemma sync_positions_snoc:
  "sync_positions (ys @ [s]) = (if sm_is_sync s then sync_positions ys @ [length ys] else sync_positions ys)"
  by (auto simp: sync_positions_def nth_append intro!: filter_cong)

lemma offset_step:
  fixes t :: tables and s :: sample and ys :: "sample list"
  assumes b: "built ys t" and fits: "\<forall>x \<in> set ys. sample_fits x"
  defines "same \<equiv> (case last_opt ys of None \<Rightarrow> False | Some p \<Rightarrow> wadd64 (sm_offset p) (sm_size p) = sm_offset s)"
  defines "t' \<equiv> (chunk_step same (length ys) s t)\<lparr>tb_sizes := tb_sizes t @ [sm_size s]\<rparr>"
  shows "run_table (tb_chunk_first t') (Suc (length ys))"
    "length (tb_chunk_offset t') = length (tb_chunk_first t')"
    "i \<le> length ys \<Longrightarrow> spec_offset t' i = sm_offset ((ys @ [s]) ! i)"
proof -
  have rt: "run_table (tb_chunk_first t) (length ys)" and len: "length (tb_chunk_offset t) = length (tb_chunk_first t)"
    and sz: "tb_sizes t = map sm_size ys"
    and old: "\<And>i. i < length ys \<Longrightarrow> spec_offset t i = sm_offset (ys ! i)"
    using b by (auto simp: built_def)
  have ne: "ys \<noteq> []" if same using that by (auto simp: same_def last_opt_def)
  show "run_table (tb_chunk_first t') (Suc (length ys))"
    using rt ne run_table_snoc run_table_Suc by (simp add: t'_def chunk_step_def)
  show "length (tb_chunk_offset t') = length (tb_chunk_first t')"
    using len by (simp add: t'_def chunk_step_def)
  show "spec_offset t' i = sm_offset ((ys @ [s]) ! i)" if "i \<le> length ys"
  proof (cases "i < length ys")
    case True
    let ?c = "run_of (tb_chunk_first t) i"
    have c: "?c < length (tb_chunk_first t)" "tb_chunk_first t ! ?c \<le> i"
      using run_of_props [OF rt True] by auto
    have "spec_offset t' i = spec_offset t i"
      using c len True sz run_of_snoc_old [OF rt True]
      by (simp add: spec_offset_def t'_def chunk_step_def nth_append subslice_append_left)
    then show ?thesis using old True by (simp add: nth_append)
  next
    case False
    then have i: "i = length ys" using that by simp
    show ?thesis
    proof (cases same)
      case True
      then have n: "0 < length ys" using ne by auto
      define j where "j = length ys - 1"
      have ji: "i = Suc j" "j < length ys" using n i by (auto simp: j_def)
      have lst: "ys \<noteq> []" "last ys = ys ! j" using n by (auto simp: j_def last_conv_nth)
      have lj: "run_of (tb_chunk_first t) (Suc j) = run_of (tb_chunk_first t) j"
        using run_of_last [OF rt, of j] run_of_last [OF rt, of "Suc j"] ji i by simp
      have cj: "tb_chunk_first t ! run_of (tb_chunk_first t) j \<le> j" using run_of_props(2) [OF rt ji(2)] .
      have "spec_offset t' i = spec_offset t j + sm_size (ys ! j)"
        using True cj lj ji sz
        by (simp add: spec_offset_def t'_def chunk_step_def subslice_append_left subslice_snoc)
      moreover have "sm_offset (ys ! j) + sm_size (ys ! j) < u64_limit"
        using fits ji(2) by (auto simp: sample_fits_def)
      moreover have "wadd64 (sm_offset (ys ! j)) (sm_size (ys ! j)) = sm_offset s"
        using True [unfolded same_def last_opt_def] lst by simp
      moreover have "(ys @ [s]) ! i = s" using i by simp
      ultimately show ?thesis using old [OF ji(2)] by simp
    next
      case False
      then show ?thesis using run_of_snoc_new [OF rt] len i
        by (simp add: spec_offset_def t'_def chunk_step_def nth_append)
    qed
  qed
qed

lemma time_step_ok:
  fixes t :: tables and s :: sample and ys :: "sample list"
  assumes b: "built ys t" and fits: "\<forall>x \<in> set ys. sample_fits x"
  defines "same \<equiv> (case last_opt ys of None \<Rightarrow> False
     | Some p \<Rightarrow> sm_duration p = sm_duration s \<and> wadd64 (sm_decode_time p) (sm_duration p) = sm_decode_time s)"
  defines "t' \<equiv> time_step same (length ys) s t"
  shows "run_table (tb_time_first t') (Suc (length ys))"
    "length (tb_time_start t') = length (tb_time_first t')"
    "length (tb_time_duration t') = length (tb_time_first t')"
    "i \<le> length ys \<Longrightarrow> spec_decode_time t' i = sm_decode_time ((ys @ [s]) ! i)"
    "i \<le> length ys \<Longrightarrow> spec_duration t' i = sm_duration ((ys @ [s]) ! i)"
proof -
  have rt: "run_table (tb_time_first t) (length ys)"
    and len: "length (tb_time_start t) = length (tb_time_first t)"
      "length (tb_time_duration t) = length (tb_time_first t)"
    and old: "\<And>i. i < length ys \<Longrightarrow> spec_decode_time t i = sm_decode_time (ys ! i)"
      "\<And>i. i < length ys \<Longrightarrow> spec_duration t i = sm_duration (ys ! i)"
    using b by (auto simp: built_def)
  have ne: "ys \<noteq> []" if same using that by (auto simp: same_def last_opt_def)
  show "run_table (tb_time_first t') (Suc (length ys))"
    using rt ne run_table_snoc run_table_Suc by (simp add: t'_def time_step_def)
  show "length (tb_time_start t') = length (tb_time_first t')"
    "length (tb_time_duration t') = length (tb_time_first t')"
    using len by (simp_all add: t'_def time_step_def)
  have "spec_decode_time t' i = sm_decode_time ((ys @ [s]) ! i) \<and> spec_duration t' i = sm_duration ((ys @ [s]) ! i)"
    if "i \<le> length ys" for i
  proof (cases "i < length ys")
    case True
    have "spec_decode_time t' i = spec_decode_time t i" "spec_duration t' i = spec_duration t i"
      using run_of_props(1) [OF rt True] len run_of_snoc_old [OF rt True]
      by (simp_all add: spec_decode_time_def spec_duration_def t'_def time_step_def nth_append)
    then show ?thesis using old True by (simp add: nth_append)
  next
    case False
    then have i: "i = length ys" using that by simp
    show ?thesis
    proof (cases same)
      case True
      then have n: "0 < length ys" using ne by auto
      define j where "j = length ys - 1"
      have ji: "i = Suc j" "j < length ys" using n i by (auto simp: j_def)
      have lst: "ys \<noteq> []" "last ys = ys ! j" using n by (auto simp: j_def last_conv_nth)
      have lj: "run_of (tb_time_first t) (Suc j) = run_of (tb_time_first t) j"
        using run_of_last [OF rt, of j] run_of_last [OF rt, of "Suc j"] ji i by simp
      have cj: "tb_time_first t ! run_of (tb_time_first t) j \<le> j" using run_of_props(2) [OF rt ji(2)] .
      have "spec_decode_time t' i = spec_decode_time t j + spec_duration t j"
        "spec_duration t' i = spec_duration t j"
        using True cj lj ji
        by (simp_all add: spec_decode_time_def spec_duration_def t'_def time_step_def Suc_diff_le)
      moreover have "sm_decode_time (ys ! j) + sm_duration (ys ! j) < u64_limit"
        using fits ji(2) by (auto simp: sample_fits_def)
      moreover have "wadd64 (sm_decode_time (ys ! j)) (sm_duration (ys ! j)) = sm_decode_time s"
        "sm_duration (ys ! j) = sm_duration s"
        using True [unfolded same_def last_opt_def] lst by (auto simp del: wadd64_id)
      moreover have "(ys @ [s]) ! i = s" using i by simp
      ultimately show ?thesis using old [OF ji(2)] by simp
    next
      case False
      then show ?thesis using run_of_snoc_new [OF rt] len i
        by (simp add: spec_decode_time_def spec_duration_def t'_def time_step_def nth_append)
    qed
  qed
  then show "i \<le> length ys \<Longrightarrow> spec_decode_time t' i = sm_decode_time ((ys @ [s]) ! i)"
    "i \<le> length ys \<Longrightarrow> spec_duration t' i = sm_duration ((ys @ [s]) ! i)" by simp_all
qed

lemma composition_step_ok:
  fixes t :: tables and s :: sample and ys :: "sample list"
  assumes b: "built ys t"
  defines "same \<equiv> last_opt (tb_composition_offset t) = Some (sm_composition_offset s)"
  defines "t' \<equiv> composition_step same (length ys) s t"
  shows "run_table (tb_composition_first t') (Suc (length ys))"
    "length (tb_composition_offset t') = length (tb_composition_first t')"
    "i \<le> length ys \<Longrightarrow> tb_composition_offset t' ! run_of (tb_composition_first t') i
       = sm_composition_offset ((ys @ [s]) ! i)"
proof -
  have rt: "run_table (tb_composition_first t) (length ys)"
    and len: "length (tb_composition_offset t) = length (tb_composition_first t)"
    and old: "\<And>i. i < length ys \<Longrightarrow>
      tb_composition_offset t ! run_of (tb_composition_first t) i = sm_composition_offset (ys ! i)"
    using b by (auto simp: built_def)
  have n: "0 < length ys" if same
    using that rt len by (auto simp: same_def last_opt_def run_table_def split: if_splits)
  show "run_table (tb_composition_first t') (Suc (length ys))"
    using rt n run_table_snoc run_table_Suc by (simp add: t'_def composition_step_def)
  show "length (tb_composition_offset t') = length (tb_composition_first t')"
    using len by (simp add: t'_def composition_step_def)
  show "tb_composition_offset t' ! run_of (tb_composition_first t') i
       = sm_composition_offset ((ys @ [s]) ! i)" if "i \<le> length ys"
  proof (cases "i < length ys")
    case True
    then show ?thesis using run_of_props(1) [OF rt True] len old run_of_snoc_old [OF rt True]
      by (simp add: t'_def composition_step_def nth_append)
  next
    case False
    then have i: "i = length ys" using that by simp
    show ?thesis
    proof (cases same)
      case True
      have "run_of (tb_composition_first t) i = length (tb_composition_offset t) - 1"
        using run_of_last [OF rt, of i] i len by simp
      then show ?thesis using True i
        by (simp add: t'_def composition_step_def same_def last_opt_def last_conv_nth split: if_splits)
    next
      case False
      then show ?thesis using run_of_snoc_new [OF rt] len i
        by (simp add: t'_def composition_step_def nth_append)
    qed
  qed
qed

lemma build_step:
  assumes inv: "build_inv ys st" and fits: "\<forall>x \<in> set ys. sample_fits x" and n: "length ys < u32_limit"
  shows "\<exists>st'. from_samples_step st (length ys, s) = ok st' \<and> build_inv (ys @ [s]) st'"
proof -
  obtain t where st: "st = (t, sync_positions ys, last_opt ys)" and b: "built ys t"
    using inv by (cases st) (auto simp: build_inv_def)
  let ?c = "case last_opt ys of None \<Rightarrow> False | Some p \<Rightarrow> wadd64 (sm_offset p) (sm_size p) = sm_offset s"
  let ?r = "case last_opt ys of None \<Rightarrow> False
     | Some p \<Rightarrow> sm_duration p = sm_duration s \<and> wadd64 (sm_decode_time p) (sm_duration p) = sm_decode_time s"
  let ?m = "last_opt (tb_composition_offset t) = Some (sm_composition_offset s)"
  let ?t3 = "composition_step ?m (length ys) s (time_step ?r (length ys) s (chunk_step ?c (length ys) s t))"
  let ?t' = "?t3\<lparr>tb_sizes := tb_sizes ?t3 @ [sm_size s]\<rparr>"
  have sizes: "tb_sizes ?t' = map sm_size (ys @ [s])"
    using b by (simp add: composition_step_def time_step_def chunk_step_def built_def)
  have off: "tb_chunk_first ?t' = tb_chunk_first ((chunk_step ?c (length ys) s t)\<lparr>tb_sizes := tb_sizes t @ [sm_size s]\<rparr>)"
    "tb_chunk_offset ?t' = tb_chunk_offset ((chunk_step ?c (length ys) s t)\<lparr>tb_sizes := tb_sizes t @ [sm_size s]\<rparr>)"
    "spec_offset ?t' i = spec_offset ((chunk_step ?c (length ys) s t)\<lparr>tb_sizes := tb_sizes t @ [sm_size s]\<rparr>) i" for i
    by (simp_all add: spec_offset_def composition_step_def time_step_def chunk_step_def)
  have time: "tb_time_first ?t' = tb_time_first (time_step ?r (length ys) s t)"
    "tb_time_start ?t' = tb_time_start (time_step ?r (length ys) s t)"
    "tb_time_duration ?t' = tb_time_duration (time_step ?r (length ys) s t)"
    "spec_decode_time ?t' i = spec_decode_time (time_step ?r (length ys) s t) i"
    "spec_duration ?t' i = spec_duration (time_step ?r (length ys) s t) i" for i
    by (simp_all add: spec_decode_time_def spec_duration_def composition_step_def time_step_def chunk_step_def)
  have comp: "tb_composition_first ?t' = tb_composition_first (composition_step ?m (length ys) s t)"
    "tb_composition_offset ?t' = tb_composition_offset (composition_step ?m (length ys) s t)"
    by (simp_all add: composition_step_def time_step_def chunk_step_def)
  have "built (ys @ [s]) ?t'"
    unfolding built_def sizes off time comp
    using offset_step [OF b fits, where s = s] time_step_ok [OF b fits, where s = s]
      composition_step_ok [OF b, where s = s]
    by (simp add: less_Suc_eq_le)
  moreover have "from_samples_step st (length ys, s) =
      ok (?t', sync_positions (ys @ [s]), last_opt (ys @ [s]))"
    unfolding st from_samples_step_eq [OF n] by (simp add: sync_positions_snoc last_opt_def)
  ultimately show ?thesis by (auto simp: build_inv_def)
qed

lemma build_fold:
  assumes "build_inv ys st" "\<forall>x \<in> set (ys @ zs). sample_fits x" "length ys + length zs \<le> u32_limit"
  shows "\<exists>st'. try_fold from_samples_step st (zip [length ys..<length ys + length zs] zs) = ok st'
     \<and> build_inv (ys @ zs) st'"
  using assms
proof (induction zs arbitrary: ys st)
  case Nil
  then show ?case by simp
next
  case (Cons z zs)
  obtain st1 where st1: "from_samples_step st (length ys, z) = ok st1" "build_inv (ys @ [z]) st1"
    using build_step [OF Cons.prems(1), of z] Cons.prems(2,3) by auto
  have "\<exists>st'. try_fold from_samples_step st1
        (zip [length (ys @ [z])..<length (ys @ [z]) + length zs] zs) = ok st'
     \<and> build_inv ((ys @ [z]) @ zs) st'"
    using Cons.prems by (intro Cons.IH [OF st1(2)]) auto
  moreover have "[length ys..<length ys + length (z # zs)] =
      length ys # [length (ys @ [z])..<length (ys @ [z]) + length zs]"
    by (simp add: upt_conv_Cons del: upt_Suc)
  ultimately show ?case using st1(1) by simp
qed

theorem from_samples_ok:
  assumes fits: "\<forall>x \<in> set xs. sample_fits x" and len: "length xs \<le> u32_limit"
  shows "\<exists>s. from_samples xs = ok s \<and> index_wf s \<and> index_samples s = xs
     \<and> (sorted (map sm_decode_time xs) \<longrightarrow> index_ascending s)"
proof -
  have "build_inv [] (tables_default, [], None)"
    by (simp add: build_inv_def built_def tables_default_def sync_positions_def last_opt_def)
  then obtain st where fold: "try_fold from_samples_step (tables_default, [], None)
      (zip [0..<length xs] xs) = ok st" and "build_inv xs st"
    using build_fold [of "[]" "(tables_default, [], None)" xs] fits len by auto
  then obtain t where st: "st = (t, sync_positions xs, last_opt xs)" and b: "built xs t"
    by (cases st) (auto simp: build_inv_def)
  define sync where "sync =
    (if length (sync_positions xs) \<noteq> length xs then Some (sync_positions xs) else None)"
  define t' where "t' = (if tb_composition_offset t = [0]
      then t\<lparr>tb_composition_first := [], tb_composition_offset := []\<rparr> else t)\<lparr>tb_sync := sync\<rparr>"
  have res: "from_samples xs = ok (index_new t')"
    using fold st by (simp add: from_samples_def t'_def sync_def)
  have tl: "tables_len t' = length xs"
    using b by (simp add: t'_def tables_len_def built_def)
  have same: "spec_offset t' i = spec_offset t i" "spec_decode_time t' i = spec_decode_time t i"
    "spec_duration t' i = spec_duration t i" for i
    by (simp_all add: t'_def spec_offset_def spec_decode_time_def spec_duration_def)
  have spec: "spec_offset t' i = sm_offset (xs ! i)" "spec_decode_time t' i = sm_decode_time (xs ! i)"
    "spec_duration t' i = sm_duration (xs ! i)" "tb_sizes t' ! i = sm_size (xs ! i)"
    if "i < length xs" for i
    using b that unfolding same by (simp_all add: built_def t'_def)
  have comp: "spec_composition t' i = sm_composition_offset (xs ! i)" if i: "i < length xs" for i
  proof -
    have rt: "run_table (tb_composition_first t) (length xs)"
      and ln: "length (tb_composition_offset t) = length (tb_composition_first t)"
      and v: "tb_composition_offset t ! run_of (tb_composition_first t) i = sm_composition_offset (xs ! i)"
      using b i by (auto simp: built_def)
    have r: "run_of (tb_composition_first t) i < length (tb_composition_offset t)"
      using run_of_props(1) [OF rt i] ln by simp
    then have ne: "tb_composition_first t \<noteq> []" using ln by auto
    show ?thesis
    proof (cases "tb_composition_offset t = [0]")
      case True
      then have "run_of (tb_composition_first t) i = 0" using r by simp
      then show ?thesis using v True by (simp add: spec_composition_def t'_def)
    next
      case False
      then show ?thesis using v ne by (simp add: spec_composition_def t'_def)
    qed
  qed
  have sy: "spec_sync t' i = sm_is_sync (xs ! i)" if i: "i < length xs" for i
  proof (cases "length (sync_positions xs) = length xs")
    case True
    then have "\<forall>j \<in> set [0..<length xs]. sm_is_sync (xs ! j)"
      using filter_True length_filter_less [of _ "[0..<length xs]"]
      by (metis length_upt minus_nat.diff_0 nat_less_le sync_positions_def)
    then show ?thesis using i True by (simp add: spec_sync_def t'_def sync_def)
  next
    case False
    then show ?thesis using i by (simp add: spec_sync_def t'_def sync_def sync_positions_def)
  qed
  have "tables_wf t'"
  proof -
    have "sorted_wrt (<) (sync_positions xs)"
      by (simp add: sync_positions_def sorted_wrt_filter)
    then have s1: "case tb_sync t' of None \<Rightarrow> True
        | Some sync \<Rightarrow> sorted_wrt (<) sync \<and> (\<forall>i \<in> set sync. i < tables_len t')"
      by (auto simp: t'_def sync_def tl [unfolded t'_def sync_def] sync_positions_def)
         (auto simp: tables_len_def b [unfolded built_def])
    have s2: "\<forall>i < tables_len t'. spec_offset t' i + tb_sizes t' ! i < u64_limit"
      "\<forall>i < tables_len t'. spec_decode_time t' i < u64_limit"
      using spec fits tl by (auto simp: sample_fits_def dest!: nth_mem)
    show ?thesis
      unfolding tables_wf_def using s1 s2 len tl b by (auto simp: t'_def built_def)
  qed
  then have "index_wf (index_new t')"
    by (auto simp: index_wf_def index_new_def tables_wf_runs(10))
  moreover have "index_samples (index_new t') = xs"
    using spec comp sy tl
    by (intro nth_equalityI) (simp_all add: index_len_def index_new_def spec_sample_def)
  moreover have "index_ascending (index_new t')" if "sorted (map sm_decode_time xs)"
    using that spec tl
    by (auto simp: index_ascending_def tables_ascending_def index_new_def sorted_iff_nth_mono)
  ultimately show ?thesis using res by blast
qed

end
