(* ===== verification/Sample_Index_Laws.thy ===== *)
theory Sample_Index_Laws
  imports Sample_Index_Build
begin

text \<open>
  The compact index is a source of samples in decode order (\<open>Sample_Index\<close>), and the properties
  of its operations: reads agree with the cursor iterator and with the list the index stands for,
  the search by decode time is exact, windows and shifts act on the list, and building from a list
  of samples loses nothing.
\<close>

definition index_valid :: "sample_index \<Rightarrow> bool" where
  "index_valid s \<longleftrightarrow> index_wf s \<and> index_ascending s"

lemma index_valid_sorted:
  assumes "index_valid s"
  shows "sorted (map sm_decode_time (index_samples s))"
  using assms index_samples_sorted by (auto simp: index_valid_def sorted_iff_nth_mono)

interpretation si: sync_source index_valid index_samples index_len index_get
  index_partition_by_decode_time index_window sync_indices every_sample_is_sync
proof
  show "index_len s = length (index_samples s)" for s by simp
  show "index_valid s \<Longrightarrow> i < index_len s \<Longrightarrow> index_get s i = ok (index_samples s ! i)" for s i
    by (simp add: index_valid_def index_get_ok)
  show "index_valid s \<Longrightarrow> sorted (map sm_decode_time (index_samples s))" for s
    by (rule index_valid_sorted)
  show "index_valid s \<Longrightarrow> index_partition_by_decode_time s time =
      ok (partition_point (\<lambda>x. sm_decode_time x < time) (index_samples s))" for s time
    by (simp add: index_valid_def index_partition_by_decode_time_ok)
  show "\<exists>w. index_window s a b = ok w \<and> index_valid w \<and> index_samples w = subslice (index_samples s) a b"
    if "index_valid s" "a \<le> b" "b \<le> index_len s" for s a b
  proof -
    have w: "index_window s a b = Inr (s\<lparr>si_start := si_start s + a, si_end := si_start s + b\<rparr>)"
      (is "_ = Inr ?w") using that by (simp add: index_window_eq_Inr)
    then have "index_wf ?w" "index_ascending ?w"
      using that(1) by (auto simp: index_valid_def intro: inv_intros)
    then show ?thesis using w index_window_samples [OF w] by (simp add: index_valid_def)
  qed
  show "index_window s a b = ok w \<Longrightarrow> a \<le> b \<and> b \<le> index_len s" for s a b w
    by (simp add: index_window_eq_Inr)
  show "index_valid s \<Longrightarrow> sync_indices s = ok (sync_positions (index_samples s))" for s
    by (simp add: index_valid_def sync_indices_ok)
  show "index_valid s \<Longrightarrow> every_sample_is_sync s \<Longrightarrow> \<forall>x \<in> set (index_samples s). sm_is_sync x" for s
    by (auto simp: every_sample_is_sync_def index_samples_def spec_sample_def spec_sync_def)
qed

section \<open>An index to try the properties on\<close>

text \<open>
  Five samples in two chunks and two timing runs, samples 0 and 3 sync; the window leaves out the
  first one and moves the rest back by 5 ticks.
\<close>

definition example_tables :: tables where
  "example_tables = \<lparr>tb_sizes = [10, 20, 30, 40, 50], tb_chunk_first = [0, 2],
     tb_chunk_offset = [100, 500], tb_time_first = [0, 3], tb_time_start = [0, 30],
     tb_time_duration = [10, 7], tb_composition_first = [0, 1], tb_composition_offset = [0, -3],
     tb_sync = Some [0, 3]\<rparr>"

definition example_index :: sample_index where
  "example_index = \<lparr>si_tables = example_tables, si_start = 1, si_end = 5, si_shift = -5\<rparr>"

lemma less_five: "i < (5 :: nat) \<Longrightarrow> i \<in> {0, 1, 2, 3, 4}"
  by auto

lemma example_fields:
  "tb_sizes example_tables = [10, 20, 30, 40, 50]"
  "tb_chunk_first example_tables = [0, 2]" "tb_chunk_offset example_tables = [100, 500]"
  "tb_time_first example_tables = [0, 3]" "tb_time_start example_tables = [0, 30]"
  "tb_time_duration example_tables = [10, 7]"
  "tb_composition_first example_tables = [0, 1]" "tb_composition_offset example_tables = [0, -3]"
  "tb_sync example_tables = Some [0, 3]"
  by (simp_all add: example_tables_def)

lemma example_len: "tables_len example_tables = 5"
  by (simp add: tables_len_def example_tables_def)

lemma example_offset: "i < 5 \<Longrightarrow> spec_offset example_tables i = [100, 110, 500, 530, 570] ! i"
  by (drule less_five) (elim insertE; simp add: spec_offset_def run_of_def partition_point_def
        subslice_def example_tables_def numeral_eq_Suc)

lemma example_time: "i < 5 \<Longrightarrow> spec_decode_time example_tables i = [0, 10, 20, 30, 37] ! i"
  by (drule less_five) (elim insertE; simp add: spec_decode_time_def run_of_def partition_point_def
        example_tables_def)

lemma example_tables_wf: "tables_wf example_tables"
proof -
  have "spec_offset example_tables i + tb_sizes example_tables ! i < u64_limit
      \<and> spec_decode_time example_tables i < u64_limit" if "i < 5" for i
    using example_offset [OF that] example_time [OF that] less_five [OF that]
    by (elim insertE) (simp_all add: example_tables_def)
  moreover have "run_table [0, 2] 5" "run_table [0, 3] 5" "run_table [0, 1] 5"
    by (simp_all add: run_table_def)
  ultimately show ?thesis
    unfolding tables_wf_def by (simp add: example_len example_fields)
qed

lemma example_index_valid: "index_valid example_index"
proof -
  have "tables_ascending example_tables"
    unfolding tables_ascending_def example_len
  proof (intro allI impI)
    fix i j :: nat assume "j < 5" "i \<le> j"
    then show "spec_decode_time example_tables i \<le> spec_decode_time example_tables j"
      using less_five [of i] less_five [of j] by (auto simp: example_time)
  qed
  moreover have "5 \<le> spec_decode_time example_tables i \<and> spec_decode_time example_tables i < 50"
    if "1 \<le> i" "i < 5" for i
    using less_five [OF that(2)] that by (auto simp: example_time)
  ultimately show ?thesis
    using example_tables_wf example_len
    by (fastforce simp: index_valid_def index_wf_def index_ascending_def example_index_def)
qed

lemma example_index_wf: "index_wf example_index"
  using example_index_valid by (simp add: index_valid_def)

lemma example_index_samples:
  "map sm_decode_time (index_samples example_index) = [5, 15, 25, 32]"
  "map sm_offset (index_samples example_index) = [110, 500, 530, 570]"
  "map sm_is_sync (index_samples example_index) = [False, False, True, False]"
  by code_simp+

section \<open>Properties\<close>

text \<open>
  C30 The cursor iterator that \<open>range\<close> starts anywhere and \<open>iter\<close> walks yields, without a panic,
  exactly the samples that \<open>get\<close> finds by searching at each index of the range.
\<close>

theorem iterator_agrees_with_get:
  assumes "index_wf s" "a \<le> b" "b \<le> index_len s"
  shows "to_vec s a b = collect_res (map (index_get s) [a..<b])"
proof -
  have "map (index_get s) [a..<b] = map (\<lambda>i. ok (index_samples s ! i)) [a..<b]"
    using assms by (auto simp: index_get_ok)
  then have "collect_res (map (index_get s) [a..<b]) = ok (map (\<lambda>i. index_samples s ! i) [a..<b])"
    by (simp only: collect_res_map_Inr)
  moreover have "subslice (index_samples s) a b = map (\<lambda>i. index_samples s ! i) [a..<b]"
    using assms by (intro nth_equalityI) simp_all
  ultimately show ?thesis using to_vec_ok [OF assms] by simp
qed

theorem iterator_agrees_with_get_witness:
  "to_vec example_index 1 4 = collect_res (map (index_get example_index) [1..<4])"
proof -
  have "4 \<le> index_len example_index" by code_simp
  then show ?thesis using iterator_agrees_with_get [OF example_index_wf, of 1 4] by simp
qed

text \<open>
  C26 \<open>partition_by_decode_time\<close>, computed from runs and one division, is the number of samples of
  the window that decode before the time: every sample before it does, none from it on.
\<close>

theorem search_by_decode_time:
  assumes "index_valid s"
  shows "\<exists>p. index_partition_by_decode_time s time = ok p \<and> p \<le> index_len s
    \<and> (\<forall>i < index_len s. i < p \<longleftrightarrow> sm_decode_time (index_samples s ! i) < time)"
proof -
  obtain p where p: "index_partition_by_decode_time s time = ok p" "p \<le> index_len s"
    using si.search_total [OF assms] by blast
  then show ?thesis using si.search_splits(2) [OF assms p(1)] by blast
qed

theorem search_by_decode_time_witness:
  "\<exists>p. index_partition_by_decode_time example_index 25 = ok p \<and> p \<le> index_len example_index
    \<and> (\<forall>i < index_len example_index.
         i < p \<longleftrightarrow> sm_decode_time (index_samples example_index ! i) < 25)"
  by (rule search_by_decode_time [OF example_index_valid])

text \<open>
  C18 \<open>from_samples\<close> is inverse to reading: for samples whose ends fit 64 bits it builds, without a
  panic, a well-formed index that lists exactly those samples.
\<close>

theorem from_samples_roundtrip:
  assumes "\<forall>x \<in> set xs. sample_fits x" "length xs \<le> u32_limit"
  shows "\<exists>s. from_samples xs = ok s \<and> index_wf s \<and> iter_all s = ok xs"
  using from_samples_ok [OF assms] iter_all_ok by auto

theorem from_samples_roundtrip_witness:
  "\<exists>s. from_samples [\<lparr>sm_offset = 7, sm_size = 3, sm_decode_time = 0, sm_duration = 4,
          sm_composition_offset = 1, sm_is_sync = True\<rparr>,
        \<lparr>sm_offset = 10, sm_size = 5, sm_decode_time = 4, sm_duration = 4,
          sm_composition_offset = 1, sm_is_sync = False\<rparr>] = ok s \<and> index_wf s
    \<and> iter_all s = ok [\<lparr>sm_offset = 7, sm_size = 3, sm_decode_time = 0, sm_duration = 4,
          sm_composition_offset = 1, sm_is_sync = True\<rparr>,
        \<lparr>sm_offset = 10, sm_size = 5, sm_decode_time = 4, sm_duration = 4,
          sm_composition_offset = 1, sm_is_sync = False\<rparr>]"
  by (rule from_samples_roundtrip) (simp_all add: sample_fits_def)

text \<open>
  C15 \<open>window\<close> and \<open>shifted\<close> keep the index well formed and ordered, and act on the list of samples
  as a sub-list and as a shift of every decode time.
\<close>

theorem window_then_shift:
  assumes "index_valid s" "index_window s a b = ok w" "index_shifted w delta m = ok v"
  shows "index_valid v \<and> index_samples v = map (shift_sample delta) (subslice (index_samples s) a b)"
proof -
  have w: "index_valid w" "index_samples w = subslice (index_samples s) a b"
    using si.windowD [OF assms(1,2)] by auto
  then have wf: "index_wf w" "index_ascending w" by (auto simp: index_valid_def)
  have "index_valid v"
    using index_shifted_wf [OF wf assms(3)] index_shifted_ascending [OF wf assms(3)]
    by (simp add: index_valid_def)
  then show ?thesis using index_shifted_samples [OF wf(1) assms(3)] w(2) by simp
qed

theorem window_then_shift_witness:
  "\<exists>w v. index_window example_index 1 3 = ok w \<and> index_shifted w (-15) ''early'' = ok v
     \<and> index_valid v
     \<and> index_samples v = map (shift_sample (-15)) (subslice (index_samples example_index) 1 3)"
proof -
  let ?w = "example_index\<lparr>si_start := 2, si_end := 4\<rparr>"
  let ?v = "?w\<lparr>si_shift := -20\<rparr>"
  have w: "index_window example_index 1 3 = ok ?w" by code_simp
  have samples: "index_samples ?w =
    [\<lparr>sm_offset = 500, sm_size = 30, sm_decode_time = 15, sm_duration = 10,
       sm_composition_offset = -3, sm_is_sync = False\<rparr>,
     \<lparr>sm_offset = 530, sm_size = 40, sm_decode_time = 25, sm_duration = 7,
       sm_composition_offset = -3, sm_is_sync = True\<rparr>]" by code_simp
  have wf: "index_wf ?w" using si.windowD(3) [OF example_index_valid w] by (simp add: index_valid_def)
  have "index_first ?w = ok (Some \<lparr>sm_offset = 500, sm_size = 30, sm_decode_time = 15,
      sm_duration = 10, sm_composition_offset = -3, sm_is_sync = False\<rparr>)"
    "index_last ?w = ok (Some \<lparr>sm_offset = 530, sm_size = 40, sm_decode_time = 25,
      sm_duration = 7, sm_composition_offset = -3, sm_is_sync = True\<rparr>)"
    using index_first_ok [OF wf] index_last_ok [OF wf] samples by (simp_all add: last_opt_def)
  then have "index_shifted ?w (-15) ''early'' = ok ?v"
    by (simp add: index_shifted_def u64_of_int_def example_index_def)
  then show ?thesis using w window_then_shift [OF example_index_valid w] by blast
qed

text \<open>
  C13 A shift that would put the first sample before zero, or the end past 64 bits, is the only way
  \<open>shifted\<close> fails, and it fails with the caller's message.
\<close>

theorem shift_fails_only_out_of_range:
  assumes "index_wf s"
  shows "index_shifted s delta m =
    (if index_samples s \<noteq> [] \<and>
        (int (sm_decode_time (hd (index_samples s))) + delta < 0
         \<or> int (sm_decode_time (last (index_samples s)) + sm_duration (last (index_samples s))) + delta
             \<notin> {0..<int u64_limit})
     then fail (InvalidMedia m) else ok (s\<lparr>si_shift := si_shift s + delta\<rparr>))"
proof (cases "index_shifted s delta m")
  case (Inl e)
  moreover have "\<nexists>s'. index_shifted s delta m = Inr s'" using Inl by simp
  ultimately show ?thesis
    using index_shifted_fault [OF assms Inl]
      index_shifted_eq_Inr [OF assms, of delta m "s\<lparr>si_shift := si_shift s + delta\<rparr>"] by auto
next
  case (Inr s')
  then show ?thesis using index_shifted_eq_Inr [OF assms, of delta m s'] by auto
qed

theorem shift_fails_only_out_of_range_witness:
  "index_shifted example_index (-6) ''early'' =
    (if index_samples example_index \<noteq> [] \<and>
        (int (sm_decode_time (hd (index_samples example_index))) + (-6) < 0
         \<or> int (sm_decode_time (last (index_samples example_index))
              + sm_duration (last (index_samples example_index))) + (-6) \<notin> {0..<int u64_limit})
     then fail (InvalidMedia ''early'')
     else ok (example_index\<lparr>si_shift := si_shift example_index + (-6)\<rparr>))"
  by (rule shift_fails_only_out_of_range [OF example_index_wf])

text \<open>
  C13 \<open>nth_sync\<close>, which reads one entry of the shared sync table, agrees with listing all sync
  samples of the window, and the listing is exact and ascending.
\<close>

theorem sync_lookup:
  assumes "index_wf s" "n < u32_limit"
  shows "\<exists>xs. sync_indices s = ok xs \<and> nth_sync s n = ok (get_at xs n) \<and> sorted_wrt (<) xs
    \<and> (\<forall>i. i \<in> set xs \<longleftrightarrow> i < index_len s \<and> sm_is_sync (index_samples s ! i))"
  using sync_indices_ok [OF assms(1)] nth_sync_ok [OF assms]
  by (auto simp: sync_positions_def sorted_wrt_filter)

theorem sync_lookup_witness:
  "\<exists>xs. sync_indices example_index = ok xs \<and> nth_sync example_index 0 = ok (get_at xs 0)
    \<and> sorted_wrt (<) xs
    \<and> (\<forall>i. i \<in> set xs \<longleftrightarrow> i < index_len example_index \<and> sm_is_sync (index_samples example_index ! i))"
  by (rule sync_lookup [OF example_index_wf]) simp

text \<open>
  Two indexes compare equal exactly when they list the same samples, however their tables are
  laid out.
\<close>

theorem equality_is_of_samples:
  assumes "index_wf s" "index_wf s'"
  shows "index_eq s s' = ok (\<forall>i. (i < index_len s \<longleftrightarrow> i < index_len s')
     \<and> (i < index_len s \<longrightarrow> index_get s i = index_get s' i))" (is "_ = ok ?same")
proof -
  have "index_samples s = index_samples s' \<longleftrightarrow> ?same"
  proof
    show "?same" if "index_samples s = index_samples s'"
      using that assms length_index_samples [of s] length_index_samples [of s']
      by (auto simp: index_get_ok simp del: nth_index_samples length_index_samples)
    show "index_samples s = index_samples s'" if same: ?same
    proof (rule nth_equalityI)
      have "index_len s = index_len s'"
        using same by (metis linorder_neqE_nat order_less_irrefl)
      then show "length (index_samples s) = length (index_samples s')" by simp
      show "index_samples s ! i = index_samples s' ! i" if "i < length (index_samples s)" for i
        using same that index_get_ok [OF assms(1), of i] index_get_ok [OF assms(2), of i] by simp
    qed
  qed
  then show ?thesis using index_eq_ok [OF assms] by simp
qed

theorem equality_is_of_samples_witness:
  "index_eq example_index example_index = ok (\<forall>i.
     (i < index_len example_index \<longleftrightarrow> i < index_len example_index)
     \<and> (i < index_len example_index \<longrightarrow> index_get example_index i = index_get example_index i))"
  by (rule equality_is_of_samples [OF example_index_wf example_index_wf])

end
