(* ===== verification/Config_Limits.thy ===== *)
theory Config_Limits
  imports Vod_Prelude
begin

text \<open>
  The resource limits of \<^verbatim>\<open>src/src/config/limits.rs\<close>.  The number of processors the default asks
  the system for is a parameter.
\<close>

record limits =
  max_assets :: nat
  max_source_bytes :: nat
  max_metadata_bytes :: nat
  max_fragments :: nat
  metadata_concurrency :: nat
  tolerate_truncated_tail :: bool
  max_tracks :: nat
  max_samples_per_track :: nat
  max_samples_per_segment :: nat
  max_segment_bytes :: nat
  max_segment_jobs :: nat
  segment_queue_timeout_ms :: nat
  stream_chunk_bytes :: nat
  max_request_header_bytes :: nat
  request_timeout_ms :: nat
  max_startup_parses :: nat
  max_concurrent_requests :: nat
  response_idle_timeout_ms :: nat
  max_index_bytes :: nat
  max_connections :: nat
  header_read_timeout_ms :: nat
  max_subtitles :: nat
  max_subtitle_bytes :: nat
  max_subtitles_total_bytes :: nat
  max_renditions :: nat
  max_clips :: nat
  max_sequence_files :: nat

definition limits_validate :: "limits \<Rightarrow> unit res" where
  "limits_validate l =
     (if max_assets l = 0
        \<or> max_source_bytes l = 0
        \<or> max_metadata_bytes l = 0
        \<or> max_fragments l = 0
        \<or> metadata_concurrency l = 0
        \<or> max_tracks l = 0
        \<or> max_samples_per_track l = 0
        \<or> max_samples_per_segment l = 0
        \<or> max_segment_bytes l = 0
        \<or> max_segment_jobs l = 0
        \<or> segment_queue_timeout_ms l = 0
        \<or> stream_chunk_bytes l = 0
        \<or> max_request_header_bytes l = 0
        \<or> request_timeout_ms l = 0
        \<or> max_startup_parses l = 0
        \<or> max_concurrent_requests l = 0
        \<or> response_idle_timeout_ms l = 0
        \<or> max_index_bytes l = 0
        \<or> max_connections l = 0
        \<or> header_read_timeout_ms l = 0
        \<or> max_subtitles l = 0
        \<or> max_subtitle_bytes l = 0
        \<or> max_subtitles_total_bytes l = 0
        \<or> max_renditions l = 0
        \<or> max_clips l = 0
        \<or> max_sequence_files l = 0
      then fail (Configuration ''all resource limits must be greater than zero'') else ok ())"

text \<open>\<open>parallelism.get().saturating_mul(2).min(32)\<close>, or 2 when the system does not say.\<close>

definition default_segment_jobs :: "nat option \<Rightarrow> nat" where
  "default_segment_jobs parallelism =
     (case parallelism of None \<Rightarrow> 2 | Some n \<Rightarrow> min (min (n * 2) (u64_limit - 1)) 32)"

definition limits_default :: "nat option \<Rightarrow> limits" where
  "limits_default parallelism = \<lparr>
     max_assets = 1000,
     max_source_bytes = 1024 * 1024 * 1024 * 1024,
     max_metadata_bytes = 64 * 1024 * 1024,
     max_fragments = 20000,
     metadata_concurrency = 16,
     tolerate_truncated_tail = False,
     max_tracks = 8,
     max_samples_per_track = 2000000,
     max_samples_per_segment = 100000,
     max_segment_bytes = 64 * 1024 * 1024,
     max_segment_jobs = default_segment_jobs parallelism,
     segment_queue_timeout_ms = 2000,
     stream_chunk_bytes = 256 * 1024,
     max_request_header_bytes = 16 * 1024,
     request_timeout_ms = 30000,
     max_startup_parses = 4,
     max_concurrent_requests = 10000,
     response_idle_timeout_ms = 30000,
     max_index_bytes = 4 * 1024 * 1024 * 1024,
     max_connections = 10000,
     header_read_timeout_ms = 10000,
     max_subtitles = 16,
     max_subtitle_bytes = 2 * 1024 * 1024,
     max_subtitles_total_bytes = 8 * 1024 * 1024,
     max_renditions = 8,
     max_clips = 64,
     max_sequence_files = 256\<rparr>"

lemma limits_validate_eq_Inr:
  "limits_validate l = Inr u \<longleftrightarrow> 0 < max_assets l
     \<and> 0 < max_source_bytes l
     \<and> 0 < max_metadata_bytes l
     \<and> 0 < max_fragments l
     \<and> 0 < metadata_concurrency l
     \<and> 0 < max_tracks l
     \<and> 0 < max_samples_per_track l
     \<and> 0 < max_samples_per_segment l
     \<and> 0 < max_segment_bytes l
     \<and> 0 < max_segment_jobs l
     \<and> 0 < segment_queue_timeout_ms l
     \<and> 0 < stream_chunk_bytes l
     \<and> 0 < max_request_header_bytes l
     \<and> 0 < request_timeout_ms l
     \<and> 0 < max_startup_parses l
     \<and> 0 < max_concurrent_requests l
     \<and> 0 < response_idle_timeout_ms l
     \<and> 0 < max_index_bytes l
     \<and> 0 < max_connections l
     \<and> 0 < header_read_timeout_ms l
     \<and> 0 < max_subtitles l
     \<and> 0 < max_subtitle_bytes l
     \<and> 0 < max_subtitles_total_bytes l
     \<and> 0 < max_renditions l
     \<and> 0 < max_clips l
     \<and> 0 < max_sequence_files l"
  by (auto simp: limits_validate_def)

lemma limits_default_valid: "(\<forall>n. parallelism = Some n \<longrightarrow> 0 < n) \<Longrightarrow> limits_validate (limits_default parallelism) = ok ()"
  by (auto simp: limits_validate_def limits_default_def default_segment_jobs_def split: option.splits)

end
