(* ===== verification/Sample_Tables.thy ===== *)
theory Sample_Tables
  imports Mp4_Boxes Sample_Index_Laws Config_Limits
begin

text \<open>
  Sample tables (\<^verbatim>\<open>src/src/mp4/tables.rs\<close>): the parsers of the boxes of an \<^verbatim>\<open>stbl\<close>, the compact index
  built from them, and the one-record-per-sample expansion the source keeps as its reference.  The
  two are proved to agree, errors included, in \<open>Sample_Tables_Laws\<close>.
\<close>

section \<open>The parsed tables\<close>

datatype sample_sizes =
    ConstantSize nat nat
  | SizeTable "nat list"

definition sizes_count :: "sample_sizes \<Rightarrow> nat" where
  "sizes_count s = (case s of ConstantSize _ count \<Rightarrow> count | SizeTable sizes \<Rightarrow> length sizes)"

record sample_tables =
  st_time_to_sample :: "(nat \<times> nat) list"
  st_composition :: "(nat \<times> int) list option"
  st_sync :: "nat list option"
  st_sample_to_chunk :: "(nat \<times> nat) list"
  st_sizes :: sample_sizes
  st_chunk_offsets :: "nat list"

section \<open>Parsing\<close>

definition be_pair :: "bytes \<Rightarrow> nat \<times> nat" where
  "be_pair entry = (be_value (take 4 entry), be_value (take 4 (drop 4 entry)))"

definition pairs :: "bytes \<Rightarrow> (nat \<times> nat) list" where
  "pairs bs = map be_pair (chunks_of 8 bs)"

definition parse_runs :: "bytes \<Rightarrow> (nat \<times> nat) list res" where
  "parse_runs payload =
     and_then (rd_full_box (reader_new payload)) (\<lambda>(_, r).
     and_then (rd_entries r 8) (\<lambda>(bs, _). ok (pairs bs)))"

definition ctts_entry :: "byte \<Rightarrow> nat \<times> nat \<Rightarrow> (nat \<times> int) res" where
  "ctts_entry version = (\<lambda>(run, offset).
     and_then (if version = 0
               then ok_or (i32_of_nat offset) (invalid_media ''ctts version 0 offset is out of range'')
               else ok (cast_signed32 offset)) (\<lambda>offset'. ok (run, offset')))"

definition parse_ctts :: "bytes \<Rightarrow> (nat \<times> int) list res" where
  "parse_ctts payload =
     and_then (rd_full_box (reader_new payload)) (\<lambda>(version, r).
     and_then (rd_entries r 8) (\<lambda>(bs, _).
       collect_res (map (ctts_entry version) (pairs bs))))"

definition parse_stss :: "bytes \<Rightarrow> nat list res" where
  "parse_stss payload =
     and_then (rd_full_box (reader_new payload)) (\<lambda>(_, r).
     and_then (rd_entries r 4) (\<lambda>(bs, _). ok (be_u32s bs)))"

definition parse_stsc :: "bytes \<Rightarrow> (nat \<times> nat) list res" where
  "parse_stsc payload =
     and_then (rd_full_box (reader_new payload)) (\<lambda>(_, r).
     and_then (rd_entries r 12) (\<lambda>(bs, _). ok (map be_pair (chunks_of 12 bs))))"

definition parse_stsz :: "bytes \<Rightarrow> sample_sizes res" where
  "parse_stsz payload =
     and_then (rd_full_box (reader_new payload)) (\<lambda>(_, r1).
     and_then (rd_u32 r1) (\<lambda>(sz, r2).
     and_then (rd_u32 r2) (\<lambda>(count, r3).
       if sz \<noteq> 0 then ok (ConstantSize sz count)
       else if (case checked_mul count 4 of None \<Rightarrow> True | Some b \<Rightarrow> rd_remaining r3 < b)
       then fail (invalid_media ''stsz entry count exceeds its box'')
       else and_then (rd_take r3 (count * 4)) (\<lambda>(bs, _). ok (SizeTable (be_u32s bs))))))"

text \<open>The loops of \<open>parse_stz2\<close>: two sizes per byte, the first in the high half; or one per field.\<close>

fun read_nibbles :: "nat \<Rightarrow> reader \<Rightarrow> nat list res" where
  "read_nibbles 0 r = ok []"
| "read_nibbles (Suc 0) r = and_then (rd_u8 r) (\<lambda>(b, _). ok [unat (drop_bit 4 b)])"
| "read_nibbles (Suc (Suc n)) r =
     and_then (rd_u8 r) (\<lambda>(b, r').
     and_then (read_nibbles n r') (\<lambda>rest. ok (unat (drop_bit 4 b) # unat (take_bit 4 b) # rest)))"

fun read_octets :: "nat \<Rightarrow> reader \<Rightarrow> nat list res" where
  "read_octets 0 r = ok []"
| "read_octets (Suc n) r =
     and_then (rd_u8 r) (\<lambda>(b, r'). and_then (read_octets n r') (\<lambda>rest. ok (unat b # rest)))"

fun read_shorts :: "nat \<Rightarrow> reader \<Rightarrow> nat list res" where
  "read_shorts 0 r = ok []"
| "read_shorts (Suc n) r =
     and_then (rd_u16 r) (\<lambda>(x, r'). and_then (read_shorts n r') (\<lambda>rest. ok (x # rest)))"

definition parse_stz2 :: "bytes \<Rightarrow> sample_sizes res" where
  "parse_stz2 payload =
     and_then (rd_full_box (reader_new payload)) (\<lambda>(_, r1).
     and_then (rd_skip r1 3) (\<lambda>r2.
     and_then (rd_u8 r2) (\<lambda>(field_bits, r3).
     and_then (rd_u32 r3) (\<lambda>(count, r4).
     and_then (ok_or (checked_mul count (unat field_bits))
                (invalid_media ''stz2 sample count overflows'')) (\<lambda>needed_bits.
     if field_bits \<notin> {4, 8, 16}
     then fail (invalid_media ''stz2 field size must be 4, 8, or 16 bits'')
     else if rd_remaining r4 < (needed_bits + 7) div 8
     then fail (invalid_media ''stz2 entry count exceeds its box'')
     else
       and_then
         (if field_bits = 4 then read_nibbles count r4
          else if field_bits = 8 then read_octets count r4
          else read_shorts count r4) (\<lambda>sizes. ok (SizeTable sizes)))))))"

definition parse_chunk_offsets :: "bytes \<Rightarrow> bool \<Rightarrow> nat list res" where
  "parse_chunk_offsets payload wide =
     and_then (rd_full_box (reader_new payload)) (\<lambda>(_, r).
       if wide
       then and_then (rd_entries r 8) (\<lambda>(bs, _). ok (map be_value (chunks_of 8 bs)))
       else and_then (rd_entries r 4) (\<lambda>(bs, _). ok (be_u32s bs)))"

text \<open>The parts of \<open>parse_sample_tables\<close>: either kind of chunk offsets, of sizes, and optional boxes.\<close>

definition parse_offsets_of :: "bytes \<Rightarrow> nat list res" where
  "parse_offsets_of stbl =
     and_then (optional_child stbl (ascii ''stco'')) (\<lambda>stco.
     case stco of
       Some b \<Rightarrow> parse_chunk_offsets (bx_payload b) False
     | None \<Rightarrow>
         and_then (optional_child stbl (ascii ''co64'')) (\<lambda>co64.
         case co64 of
           Some b \<Rightarrow> parse_chunk_offsets (bx_payload b) True
         | None \<Rightarrow> fail (invalid_media ''missing stco/co64 chunk offsets'')))"

definition parse_sizes_of :: "bytes \<Rightarrow> sample_sizes res" where
  "parse_sizes_of stbl =
     and_then (optional_child stbl (ascii ''stsz'')) (\<lambda>stsz.
     case stsz of
       Some b \<Rightarrow> parse_stsz (bx_payload b)
     | None \<Rightarrow>
         and_then (optional_child stbl (ascii ''stz2'')) (\<lambda>stz2.
         case stz2 of
           Some b \<Rightarrow> parse_stz2 (bx_payload b)
         | None \<Rightarrow> fail (invalid_media ''missing stsz/stz2 sample sizes'')))"

definition parse_optional :: "bytes \<Rightarrow> string \<Rightarrow> (bytes \<Rightarrow> 'a res) \<Rightarrow> 'a option res" where
  "parse_optional stbl name parser =
     and_then (optional_child stbl (ascii name)) (\<lambda>c.
     case c of None \<Rightarrow> ok None | Some b \<Rightarrow> and_then (parser (bx_payload b)) (\<lambda>x. ok (Some x)))"

definition parse_required :: "bytes \<Rightarrow> string \<Rightarrow> (bytes \<Rightarrow> 'a res) \<Rightarrow> 'a res" where
  "parse_required stbl name parser =
     and_then (required_child stbl (ascii name)) (\<lambda>b. parser (bx_payload b))"

definition parse_sample_tables :: "bytes \<Rightarrow> sample_tables res" where
  "parse_sample_tables stbl =
     and_then (parse_offsets_of stbl) (\<lambda>chunk_offsets.
     and_then (parse_sizes_of stbl) (\<lambda>sizes.
     and_then (parse_required stbl ''stts'' parse_runs) (\<lambda>time_to_sample.
     and_then (parse_optional stbl ''ctts'' parse_ctts) (\<lambda>composition.
     and_then (parse_optional stbl ''stss'' parse_stss) (\<lambda>sync.
     and_then (parse_required stbl ''stsc'' parse_stsc) (\<lambda>sample_to_chunk.
       ok \<lparr>st_time_to_sample = time_to_sample, st_composition = composition, st_sync = sync,
           st_sample_to_chunk = sample_to_chunk, st_sizes = sizes,
           st_chunk_offsets = chunk_offsets\<rparr>))))))"

section \<open>The compact index\<close>

text \<open>The chunk table under construction; \<open>ck_offset\<close> is \<open>None\<close> while every chunk used is the next.\<close>

record chunk_state =
  ck_first :: "nat list"
  ck_offset :: "nat list option"
  ck_beyond :: "string option"
  ck_mapped :: nat

text \<open>\<open>try_fold(offset, checked_add)\<close> over the sizes of a chunk's samples.\<close>

fun chunk_end :: "nat \<Rightarrow> nat list \<Rightarrow> nat option" where
  "chunk_end e [] = Some e"
| "chunk_end e (z # zs) = (case checked_add e z of None \<Rightarrow> None | Some e' \<Rightarrow> chunk_end e' zs)"

definition chunk_step ::
    "nat list \<Rightarrow> nat list \<Rightarrow> nat \<Rightarrow> nat \<Rightarrow> chunk_state \<Rightarrow> nat \<Rightarrow> chunk_state res" where
  "chunk_step offsets sizes source_len per_chunk st chunk_number =
     (let sample_count = length sizes; chunk_index = chunk_number - 1; mapped = ck_mapped st in
      and_then (ok_or (get_at offsets chunk_index)
                 (invalid_media ''stsc references a missing chunk'')) (\<lambda>offset.
      let tk = min per_chunk (wsub64 sample_count mapped) in
      and_then (slice sizes mapped (mapped + tk)) (\<lambda>zs.
      and_then (ok_or (chunk_end offset zs) (invalid_media ''sample offset overflow'')) (\<lambda>e.
      and_then
        (if 0 < tk then
           and_then
             (case ck_offset st of
                None \<Rightarrow>
                  if chunk_index = length (ck_first st) then ok None
                  else and_then (slice offsets 0 (length (ck_first st))) (\<lambda>copied.
                         ok (Some (copied @ [offset])))
              | Some copied \<Rightarrow> ok (Some (copied @ [offset]))) (\<lambda>chunk_offset.
           and_then (expect (u32_of_nat mapped)) (\<lambda>number.
             ok (st\<lparr>ck_first := ck_first st @ [number], ck_offset := chunk_offset,
                    ck_beyond := (if source_len < e \<and> ck_beyond st = None
                                  then Some ''sample byte range exceeds source length''
                                  else ck_beyond st)\<rparr>)))
         else ok st) (\<lambda>st'.
      if tk < per_chunk then fail (invalid_media ''stsc maps more samples than stsz'')
      else ok (st'\<lparr>ck_mapped := mapped + tk\<rparr>))))))"

text \<open>The chunk number at which an entry of \<open>stsc\<close> ends: the next entry's first, or past the last.\<close>

definition next_first_chunk :: "(nat \<times> nat) list \<Rightarrow> nat list \<Rightarrow> nat \<Rightarrow> nat" where
  "next_first_chunk stsc offsets entry_index =
     (case get_at stsc (entry_index + 1) of
        None \<Rightarrow> length offsets + 1 | Some nxt \<Rightarrow> fst nxt)"

definition chunks_entry ::
    "(nat \<times> nat) list \<Rightarrow> nat list \<Rightarrow> nat list \<Rightarrow> nat \<Rightarrow> chunk_state \<Rightarrow> nat \<times> nat \<times> nat
     \<Rightarrow> chunk_state res" where
  "chunks_entry stsc offsets sizes source_len st = (\<lambda>(entry_index, first_chunk, samples_per_chunk).
     if first_chunk = 0 \<or> samples_per_chunk = 0 then fail (invalid_media ''invalid stsc entry'')
     else try_fold (chunk_step offsets sizes source_len samples_per_chunk) st
            [first_chunk..<next_first_chunk stsc offsets entry_index])"

definition chunks ::
    "(nat \<times> nat) list \<Rightarrow> nat list \<Rightarrow> nat list \<Rightarrow> nat \<Rightarrow> (nat list \<times> nat list \<times> string option) res" where
  "chunks stsc offsets sizes source_len =
     (if stsc = [] then fail (invalid_media ''missing stsc entries'')
      else
        and_then (try_fold (chunks_entry stsc offsets sizes source_len)
                    \<lparr>ck_first = [], ck_offset = None, ck_beyond = None, ck_mapped = 0\<rparr>
                    (zip [0..<length stsc] stsc)) (\<lambda>st.
        if ck_mapped st \<noteq> length sizes
        then fail (invalid_media ''stsc maps fewer samples than stsz'')
        else ok (ck_first st,
                 case ck_offset st of
                   None \<Rightarrow> take (length (ck_first st)) offsets | Some copied \<Rightarrow> copied,
                 ck_beyond st)))"

record timing_state =
  tm_first :: "nat list"
  tm_start :: "nat list"
  tm_duration :: "nat list"
  tm_decode_time :: nat
  tm_at :: nat

definition timing_step :: "nat \<Rightarrow> timing_state \<Rightarrow> nat \<times> nat \<Rightarrow> timing_state res" where
  "timing_step sample_count st = (\<lambda>(run, delta).
     if \<not> saturating_add (tm_at st) run \<le> sample_count
     then fail (invalid_media ''stts entry count does not match sample count'')
     else if run = 0 then ok st
     else
       and_then (expect (u32_of_nat (tm_at st))) (\<lambda>number.
       and_then
         (ok_or (case checked_mul run delta of None \<Rightarrow> None
                 | Some span \<Rightarrow> checked_add (tm_decode_time st) span)
           (invalid_media ''decode timestamp overflow'')) (\<lambda>decode_time.
         ok \<lparr>tm_first = tm_first st @ [number], tm_start = tm_start st @ [tm_decode_time st],
             tm_duration = tm_duration st @ [delta], tm_decode_time = decode_time,
             tm_at = tm_at st + run\<rparr>)))"

definition timing_runs :: "(nat \<times> nat) list \<Rightarrow> nat \<Rightarrow> timing_state res" where
  "timing_runs runs sample_count =
     and_then (try_fold (timing_step sample_count)
                \<lparr>tm_first = [], tm_start = [], tm_duration = [], tm_decode_time = 0, tm_at = 0\<rparr> runs)
       (\<lambda>st. if tm_at st \<noteq> sample_count
             then fail (invalid_media ''stts entry count does not match sample count'') else ok st)"

definition composition_run_step ::
    "nat \<Rightarrow> nat list \<times> int list \<times> nat \<Rightarrow> nat \<times> int \<Rightarrow> (nat list \<times> int list \<times> nat) res" where
  "composition_run_step sample_count = (\<lambda>(first, offsets, at) (run, offset).
     if \<not> saturating_add at run \<le> sample_count
     then fail (invalid_media ''ctts entry count does not match sample count'')
     else if run = 0 then ok (first, offsets, at)
     else
       and_then (expect (u32_of_nat at)) (\<lambda>number.
         ok (first @ [number], offsets @ [offset], at + run)))"

definition composition_runs :: "(nat \<times> int) list \<Rightarrow> nat \<Rightarrow> (nat list \<times> int list) res" where
  "composition_runs runs sample_count =
     and_then (try_fold (composition_run_step sample_count) ([], [], 0) runs) (\<lambda>(first, offsets, at).
       if at \<noteq> sample_count
       then fail (invalid_media ''ctts entry count does not match sample count'')
       else ok (first, offsets))"

definition sync_table :: "nat list \<Rightarrow> nat \<Rightarrow> nat list" where
  "sync_table numbers sample_count =
     remdups_adj (sort (filter (\<lambda>i. i < sample_count) (List.map_filter (\<lambda>n. checked_sub n 1) numbers)))"

definition sample_index_of :: "sample_tables \<Rightarrow> nat \<Rightarrow> limits \<Rightarrow> sample_index res" where
  "sample_index_of ts source_len l =
     (let sample_count = sizes_count (st_sizes ts) in
      if max_samples_per_track l < sample_count
      then fail (invalid_media ''sample count exceeds configured limit'')
      else
        let sizes = (case st_sizes ts of
              SizeTable zs \<Rightarrow> zs | ConstantSize z _ \<Rightarrow> replicate sample_count z) in
        and_then (chunks (st_sample_to_chunk ts) (st_chunk_offsets ts) sizes source_len)
          (\<lambda>(chunk_first, chunk_offset, beyond_source).
        and_then (timing_runs (st_time_to_sample ts) sample_count) (\<lambda>timing.
        and_then (case st_composition ts of
            Some runs \<Rightarrow> composition_runs runs sample_count | None \<Rightarrow> ok ([], []))
          (\<lambda>(composition_first, composition_offset).
        case beyond_source of
          Some message \<Rightarrow> fail (invalid_media message)
        | None \<Rightarrow>
            ok (index_new \<lparr>tb_sizes = sizes, tb_chunk_first = chunk_first,
                 tb_chunk_offset = chunk_offset, tb_time_first = tm_first timing,
                 tb_time_start = tm_start timing, tb_time_duration = tm_duration timing,
                 tb_composition_first = composition_first,
                 tb_composition_offset = composition_offset,
                 tb_sync = map_option (\<lambda>numbers. sync_table numbers sample_count) (st_sync ts)\<rparr>)))))"

section \<open>The expansion into one record per sample\<close>

definition size_of :: "sample_sizes \<Rightarrow> nat \<Rightarrow> nat res" where
  "size_of s i = (case s of ConstantSize z _ \<Rightarrow> ok z | SizeTable zs \<Rightarrow> index_at zs i)"

definition position_step ::
    "sample_sizes \<Rightarrow> nat \<Rightarrow> sample list \<times> nat \<Rightarrow> nat \<Rightarrow> (sample list \<times> nat) res" where
  "position_step sizes sample_count = (\<lambda>(samples, offset) _.
     if length samples = sample_count
     then fail (invalid_media ''stsc maps more samples than stsz'')
     else
       and_then (size_of sizes (length samples)) (\<lambda>z.
       and_then (ok_or (checked_add offset z) (invalid_media ''sample offset overflow'')) (\<lambda>offset'.
         ok (samples @ [\<lparr>sm_offset = offset, sm_size = z, sm_decode_time = 0, sm_duration = 0,
                         sm_composition_offset = 0, sm_is_sync = True\<rparr>], offset'))))"

definition positions_chunk ::
    "nat list \<Rightarrow> sample_sizes \<Rightarrow> nat \<Rightarrow> nat \<Rightarrow> sample list \<Rightarrow> nat \<Rightarrow> sample list res" where
  "positions_chunk offsets sizes sample_count per_chunk samples chunk_number =
     and_then (ok_or (get_at offsets (chunk_number - 1))
                (invalid_media ''stsc references a missing chunk'')) (\<lambda>offset.
     and_then (try_fold (position_step sizes sample_count) (samples, offset) [0..<per_chunk])
       (\<lambda>(samples', _). ok samples'))"

definition positions_entry ::
    "(nat \<times> nat) list \<Rightarrow> nat list \<Rightarrow> sample_sizes \<Rightarrow> nat \<Rightarrow> sample list \<Rightarrow> nat \<times> nat \<times> nat
     \<Rightarrow> sample list res" where
  "positions_entry stsc offsets sizes sample_count samples =
     (\<lambda>(entry_index, first_chunk, samples_per_chunk).
       if first_chunk = 0 \<or> samples_per_chunk = 0 then fail (invalid_media ''invalid stsc entry'')
       else try_fold (positions_chunk offsets sizes sample_count samples_per_chunk) samples
              [first_chunk..<next_first_chunk stsc offsets entry_index])"

definition sample_positions :: "sample_tables \<Rightarrow> nat \<Rightarrow> sample list res" where
  "sample_positions ts sample_count =
     (if st_sample_to_chunk ts = [] then fail (invalid_media ''missing stsc entries'')
      else
        and_then (try_fold (positions_entry (st_sample_to_chunk ts) (st_chunk_offsets ts)
                              (st_sizes ts) sample_count) []
                    (zip [0..<length (st_sample_to_chunk ts)] (st_sample_to_chunk ts))) (\<lambda>samples.
        if length samples \<noteq> sample_count
        then fail (invalid_media ''stsc maps fewer samples than stsz'') else ok samples))"

definition time_sample :: "nat \<Rightarrow> sample list \<times> nat \<Rightarrow> nat \<Rightarrow> (sample list \<times> nat) res" where
  "time_sample delta = (\<lambda>(samples, decode_time) i.
     and_then (ok_or (checked_add decode_time delta) (invalid_media ''decode timestamp overflow''))
       (\<lambda>decode_time'.
         ok (samples[i := (samples ! i)\<lparr>sm_decode_time := decode_time, sm_duration := delta\<rparr>],
             decode_time')))"

definition apply_times_run ::
    "sample list \<times> nat \<times> nat \<Rightarrow> nat \<times> nat \<Rightarrow> (sample list \<times> nat \<times> nat) res" where
  "apply_times_run = (\<lambda>(samples, decode_time, at) (run, delta).
     if \<not> saturating_add at run \<le> length samples
     then fail (invalid_media ''stts entry count does not match sample count'')
     else and_then (try_fold (time_sample delta) (samples, decode_time) [at..<at + run])
            (\<lambda>(samples', decode_time'). ok (samples', decode_time', at + run)))"

definition apply_times :: "sample list \<Rightarrow> (nat \<times> nat) list \<Rightarrow> sample list res" where
  "apply_times samples runs =
     and_then (try_fold apply_times_run (samples, 0, 0) runs) (\<lambda>(samples', _, at).
       if at \<noteq> length samples'
       then fail (invalid_media ''stts entry count does not match sample count'') else ok samples')"

definition apply_composition_run ::
    "sample list \<times> nat \<Rightarrow> nat \<times> int \<Rightarrow> (sample list \<times> nat) res" where
  "apply_composition_run = (\<lambda>(samples, at) (run, offset).
     if \<not> saturating_add at run \<le> length samples
     then fail (invalid_media ''ctts entry count does not match sample count'')
     else ok (fold (\<lambda>i xs. xs[i := (xs ! i)\<lparr>sm_composition_offset := offset\<rparr>]) [at..<at + run] samples,
              at + run))"

definition apply_composition :: "sample list \<Rightarrow> (nat \<times> int) list \<Rightarrow> sample list res" where
  "apply_composition samples runs =
     and_then (try_fold apply_composition_run (samples, 0) runs) (\<lambda>(samples', at).
       if at \<noteq> length samples'
       then fail (invalid_media ''ctts entry count does not match sample count'') else ok samples')"

text \<open>Every sample is cleared, then the listed ones that exist are marked.\<close>

definition mark_one :: "nat \<Rightarrow> sample list \<Rightarrow> sample list" where
  "mark_one number xs =
     (case checked_sub number 1 of
        None \<Rightarrow> xs
      | Some i \<Rightarrow> if i < length xs then xs[i := (xs ! i)\<lparr>sm_is_sync := True\<rparr>] else xs)"

definition mark_sync :: "nat list \<Rightarrow> sample list \<Rightarrow> sample list" where
  "mark_sync entries samples = fold mark_one entries (map (\<lambda>s. s\<lparr>sm_is_sync := False\<rparr>) samples)"

definition check_range :: "nat \<Rightarrow> unit \<Rightarrow> sample \<Rightarrow> unit res" where
  "check_range source_len _ s =
     and_then (ok_or (checked_add (sm_offset s) (sm_size s))
                (invalid_media ''sample byte range overflow'')) (\<lambda>e.
       if source_len < e then fail (invalid_media ''sample byte range exceeds source length'')
       else ok ())"

definition expand_samples :: "sample_tables \<Rightarrow> nat \<Rightarrow> limits \<Rightarrow> sample list res" where
  "expand_samples ts source_len l =
     (let sample_count = sizes_count (st_sizes ts) in
      if max_samples_per_track l < sample_count
      then fail (invalid_media ''sample count exceeds configured limit'')
      else
        and_then (sample_positions ts sample_count) (\<lambda>samples1.
        and_then (apply_times samples1 (st_time_to_sample ts)) (\<lambda>samples2.
        and_then (case st_composition ts of
            Some runs \<Rightarrow> apply_composition samples2 runs | None \<Rightarrow> ok samples2) (\<lambda>samples3.
        let samples4 = (case st_sync ts of
              Some entries \<Rightarrow> mark_sync entries samples3 | None \<Rightarrow> samples3) in
        and_then (try_fold (check_range source_len) () samples4) (\<lambda>_. ok samples4)))))"

end
