(* ===== verification/Sample_Tables_Laws.thy ===== *)
theory Sample_Tables_Laws
  imports Sample_Tables
begin

text \<open>
  The compact index built from sample tables is the expansion into one record per sample: the same
  errors in the same order, and otherwise the same samples.  Each pass of the expansion is matched
  with the loop of \<open>sample_index\<close> that replaced it.
\<close>

section \<open>Byte positions\<close>

definition sizes_list :: "sample_sizes \<Rightarrow> nat list" where
  "sizes_list s = (case s of SizeTable zs \<Rightarrow> zs | ConstantSize z n \<Rightarrow> replicate n z)"

lemma length_sizes_list [simp]: "length (sizes_list s) = sizes_count s"
  by (simp add: sizes_list_def sizes_count_def split: sample_sizes.split)

lemma size_of_ok: "i < sizes_count s \<Longrightarrow> size_of s i = ok (sizes_list s ! i)"
  by (simp add: size_of_def sizes_list_def sizes_count_def split: sample_sizes.splits)

definition raw_sample :: "nat \<Rightarrow> nat \<Rightarrow> sample" where
  "raw_sample off z = \<lparr>sm_offset = off, sm_size = z, sm_decode_time = 0, sm_duration = 0,
     sm_composition_offset = 0, sm_is_sync = True\<rparr>"

fun laid_out :: "nat \<Rightarrow> nat list \<Rightarrow> sample list" where
  "laid_out off [] = []"
| "laid_out off (z # zs) = raw_sample off z # laid_out (off + z) zs"

lemma length_laid_out [simp]: "length (laid_out off zs) = length zs"
  by (induction zs arbitrary: off) simp_all

lemma nth_laid_out: "j < length zs \<Longrightarrow> laid_out off zs ! j = raw_sample (off + sum_list (take j zs)) (zs ! j)"
  by (induction zs arbitrary: off j) (auto simp: nth_Cons' take_Cons' add.assoc)

lemma chunk_end_eq:
  "e < u64_limit \<Longrightarrow>
     chunk_end e zs = (if e + sum_list zs < u64_limit then Some (e + sum_list zs) else None)"
proof (induction zs arbitrary: e)
  case (Cons z zs)
  then show ?case
    by (cases "e + z < u64_limit") (simp_all add: checked_add_def add.assoc)
qed simp

lemma position_fold:
  assumes "length samples \<le> sizes_count s"
  shows "try_fold (position_step s (sizes_count s)) (samples, off) xs =
     (let tk = min (length xs) (sizes_count s - length samples);
          seg = subslice (sizes_list s) (length samples) (length samples + tk)
      in case chunk_end off seg of
           None \<Rightarrow> fail (invalid_media ''sample offset overflow'')
         | Some e \<Rightarrow> if tk < length xs then fail (invalid_media ''stsc maps more samples than stsz'')
                     else ok (samples @ laid_out off seg, e))"
  using assms
proof (induction xs arbitrary: samples off)
  case Nil
  then show ?case by simp
next
  case (Cons x xs)
  show ?case
  proof (cases "length samples = sizes_count s")
    case True
    then show ?thesis by (simp add: position_step_def)
  next
    case False
    then have lt: "length samples < sizes_count s" using Cons.prems by simp
    let ?z = "sizes_list s ! length samples"
    define tk where "tk = min (length xs) (sizes_count s - Suc (length samples))"
    define seg where "seg = subslice (sizes_list s) (Suc (length samples)) (Suc (length samples) + tk)"
    have tk: "min (length (x # xs)) (sizes_count s - length samples) = Suc tk"
      using lt by (simp add: tk_def)
    have seg: "subslice (sizes_list s) (length samples) (length samples + Suc tk) = ?z # seg"
      using lt subslice_Suc [of "length samples" "length samples + Suc tk" "sizes_list s"]
      by (simp add: tk_def seg_def)
    have IH: "try_fold (position_step s (sizes_count s)) (samples @ [raw_sample off ?z], off + ?z) xs =
        (case chunk_end (off + ?z) seg of
           None \<Rightarrow> fail (invalid_media ''sample offset overflow'')
         | Some e \<Rightarrow> if tk < length xs then fail (invalid_media ''stsc maps more samples than stsz'')
                     else ok ((samples @ [raw_sample off ?z]) @ laid_out (off + ?z) seg, e))"
      using Cons.IH [of "samples @ [raw_sample off ?z]" "off + ?z"] lt
      unfolding seg_def tk_def by (simp add: min_less_iff_disj split: option.split)
    have step: "position_step s (sizes_count s) (samples, off) x =
        and_then (ok_or (checked_add off ?z) (invalid_media ''sample offset overflow''))
          (\<lambda>off'. ok (samples @ [raw_sample off ?z], off'))"
      using lt False by (simp add: position_step_def size_of_ok raw_sample_def)
    show ?thesis
      unfolding Let_def tk seg try_fold.simps step
      using IH by (cases "off + ?z < u64_limit") (simp_all add: checked_add_def split: option.splits)
  qed
qed

text \<open>What the loop of \<open>chunks\<close> knows about the samples mapped so far.\<close>

definition used_offsets :: "nat list \<Rightarrow> chunk_state \<Rightarrow> nat list" where
  "used_offsets offsets st =
     (case ck_offset st of None \<Rightarrow> take (length (ck_first st)) offsets | Some copied \<Rightarrow> copied)"

definition chunk_rel ::
    "nat list \<Rightarrow> nat list \<Rightarrow> nat \<Rightarrow> chunk_state \<Rightarrow> sample list \<Rightarrow> bool" where
  "chunk_rel offsets zs source_len st samples \<longleftrightarrow>
     ck_mapped st = length samples \<and> length samples \<le> length zs
     \<and> run_table (ck_first st) (length samples)
     \<and> (ck_offset st = None \<longrightarrow> length (ck_first st) \<le> length offsets)
     \<and> length (used_offsets offsets st) = length (ck_first st)
     \<and> (\<forall>i < length samples.
          samples ! i = raw_sample
            (used_offsets offsets st ! run_of (ck_first st) i
               + sum_list (subslice zs (ck_first st ! run_of (ck_first st) i) i)) (zs ! i)
          \<and> sm_offset (samples ! i) + zs ! i < u64_limit)
     \<and> ck_beyond st =
         (if \<exists>i < length samples. source_len < sm_offset (samples ! i) + zs ! i
          then Some ''sample byte range exceeds source length'' else None)"

lemma sum_take_le: "sum_list (take j zs) \<le> sum_list (zs :: nat list)"
  by (metis append_take_drop_id le_add1 sum_list_append)

lemma last_end_is_greatest:
  fixes seg :: "nat list"
  assumes "seg \<noteq> []"
  shows "(\<exists>j < length seg. L < off + sum_list (take j seg) + seg ! j) \<longleftrightarrow> L < off + sum_list seg"
proof
  have step: "sum_list (take j seg) + seg ! j = sum_list (take (Suc j) seg)" if "j < length seg" for j
    using that by (simp add: take_Suc_conv_app_nth)
  show "L < off + sum_list seg" if "\<exists>j < length seg. L < off + sum_list (take j seg) + seg ! j"
    using that step sum_take_le [of _ seg] by (metis add.assoc add_le_cancel_left order_less_le_trans)
  let ?j = "length seg - 1"
  have "?j < length seg" using assms by simp
  moreover have "sum_list (take ?j seg) + seg ! ?j = sum_list seg"
    using step [OF calculation] assms by simp
  ultimately show "\<exists>j < length seg. L < off + sum_list (take j seg) + seg ! j" if "L < off + sum_list seg"
    using that by (metis add.assoc)
qed

lemma chunk_rel_extend:
  assumes R: "chunk_rel offsets zs L st samples"
    and tk: "0 < tk" "length samples + tk \<le> length zs"
    and seg: "seg = subslice zs (length samples) (length samples + tk)" "off + sum_list seg < u64_limit"
    and st': "ck_first st' = ck_first st @ [length samples]" "ck_mapped st' = length samples + tk"
      "used_offsets offsets st' = used_offsets offsets st @ [off]"
      "ck_offset st' = None \<longrightarrow> length (ck_first st') \<le> length offsets"
      "ck_beyond st' = (if L < off + sum_list seg \<and> ck_beyond st = None
         then Some ''sample byte range exceeds source length'' else ck_beyond st)"
  shows "chunk_rel offsets zs L st' (samples @ laid_out off seg)"
proof -
  let ?n = "length samples" and ?new = "samples @ laid_out off seg"
  have rt: "run_table (ck_first st) ?n"
    and used: "length (used_offsets offsets st) = length (ck_first st)"
    and old: "\<And>i. i < ?n \<Longrightarrow> samples ! i = raw_sample
            (used_offsets offsets st ! run_of (ck_first st) i
               + sum_list (subslice zs (ck_first st ! run_of (ck_first st) i) i)) (zs ! i)
          \<and> sm_offset (samples ! i) + zs ! i < u64_limit"
    and beyond: "ck_beyond st = (if \<exists>i < ?n. L < sm_offset (samples ! i) + zs ! i
          then Some ''sample byte range exceeds source length'' else None)"
    using R by (auto simp: chunk_rel_def)
  have len: "length seg = tk" using tk seg by simp
  have nw: "?new ! (?n + j) = raw_sample (off + sum_list (take j seg)) (seg ! j)" "zs ! (?n + j) = seg ! j"
    if "j < tk" for j using that len tk seg by (simp_all add: nth_append nth_laid_out)
  have bound: "off + sum_list (take j seg) + seg ! j < u64_limit" if "j < tk" for j
  proof -
    have "sum_list (take j seg) + seg ! j = sum_list (take (Suc j) seg)"
      using that len by (simp add: take_Suc_conv_app_nth)
    then show ?thesis using seg(2) sum_take_le [of "Suc j" seg] by linarith
  qed
  have each: "?new ! i = raw_sample
            (used_offsets offsets st' ! run_of (ck_first st') i
               + sum_list (subslice zs (ck_first st' ! run_of (ck_first st') i) i)) (zs ! i)
          \<and> sm_offset (?new ! i) + zs ! i < u64_limit" if i: "i < length ?new" for i
  proof (cases "i < ?n")
    case True
    have "run_of (ck_first st') i = run_of (ck_first st) i" "run_of (ck_first st) i < length (ck_first st)"
      using st'(1) run_of_snoc_old [OF rt True] run_of_props(1) [OF rt True] by simp_all
    then show ?thesis using old [OF True, THEN conjunct1] old [OF True, THEN conjunct2] True st' used
      by (simp add: nth_append raw_sample_def)
  next
    case False
    then obtain j where j: "i = ?n + j" "j < tk" using i len by (metis add_less_cancel_left le_Suc_ex
        length_append length_laid_out not_less)
    have "run_of (ck_first st') i = length (ck_first st)"
      using st'(1) run_of_snoc_ge [OF rt] False by simp
    moreover have "subslice zs ?n (?n + j) = take j seg"
      using j tk seg by (simp add: subslice_def min_def)
    ultimately show ?thesis using nw [OF j(2)] bound [OF j(2)] j st' used
      by (simp add: nth_append raw_sample_def)
  qed
  have "(\<exists>i < length ?new. L < sm_offset (?new ! i) + zs ! i) \<longleftrightarrow>
      (\<exists>i < ?n. L < sm_offset (samples ! i) + zs ! i)
      \<or> (\<exists>j < tk. L < off + sum_list (take j seg) + seg ! j)" (is "?l \<longleftrightarrow> ?a \<or> ?b")
  proof
    assume ?l
    then obtain i where i: "i < length ?new" "L < sm_offset (?new ! i) + zs ! i" by blast
    show "?a \<or> ?b"
    proof (cases "i < ?n")
      case True
      then show ?thesis using i(2) by (auto simp: nth_append)
    next
      case False
      then obtain j where "i = ?n + j" "j < tk" using i(1) len
        by (metis add_less_cancel_left le_Suc_ex length_append length_laid_out not_less)
      then show ?thesis using i(2) nw by (auto simp: raw_sample_def)
    qed
  next
    assume "?a \<or> ?b"
    then show ?l
    proof
      assume ?a
      then obtain i where "i < ?n" "L < sm_offset (samples ! i) + zs ! i" by blast
      then show ?l by (intro exI [of _ i]) (simp add: nth_append)
    next
      assume ?b
      then obtain j where "j < tk" "L < off + sum_list (take j seg) + seg ! j" by blast
      then show ?l using nw len by (intro exI [of _ "?n + j"]) (simp add: raw_sample_def)
    qed
  qed
  moreover have "(\<exists>j < tk. L < off + sum_list (take j seg) + seg ! j) \<longleftrightarrow> L < off + sum_list seg"
    using last_end_is_greatest [of seg L off] len tk(1) by fastforce
  ultimately have far: "ck_beyond st' = (if \<exists>i < length ?new. L < sm_offset (?new ! i) + zs ! i
      then Some ''sample byte range exceeds source length'' else None)"
    using beyond st'(5) by auto
  have "run_table (ck_first st') (length ?new)"
    using run_table_grow [OF rt, of "?n + tk"] tk(1) st'(1) len by simp
  moreover have "ck_mapped st' = length ?new" "length ?new \<le> length zs"
    "length (used_offsets offsets st') = length (ck_first st')"
    using st'(1-3) tk(2) len used by simp_all
  ultimately show ?thesis
    unfolding chunk_rel_def using each far st'(4) by blast
qed

lemma chunk_offset_step:
  assumes R: "chunk_rel offsets zs L st samples" and off: "get_at offsets k = Some off"
  shows "\<exists>co. (case ck_offset st of
                None \<Rightarrow>
                  if k = length (ck_first st) then ok None
                  else and_then (slice offsets 0 (length (ck_first st))) (\<lambda>copied.
                         ok (Some (copied @ [off])))
              | Some copied \<Rightarrow> ok (Some (copied @ [off]))) = ok co
     \<and> (case co of None \<Rightarrow> take (Suc (length (ck_first st))) offsets | Some c \<Rightarrow> c)
         = used_offsets offsets st @ [off]
     \<and> (co = None \<longrightarrow> Suc (length (ck_first st)) \<le> length offsets)"
proof (cases "ck_offset st")
  case None
  then have le: "length (ck_first st) \<le> length offsets" using R by (simp add: chunk_rel_def)
  show ?thesis
  proof (cases "k = length (ck_first st)")
    case True
    then have "take (Suc (length (ck_first st))) offsets = take (length (ck_first st)) offsets @ [off]"
      using off by (auto simp: get_at_eq_Some take_Suc_conv_app_nth)
    then show ?thesis using None True off by (auto simp: used_offsets_def get_at_eq_Some)
  next
    case False
    then show ?thesis using None le by (simp add: used_offsets_def subslice_def)
  qed
next
  case (Some copied)
  then show ?thesis by (simp add: used_offsets_def)
qed

lemma chunk_step_sim:
  assumes R: "chunk_rel offsets (sizes_list s) L st samples"
    and offs: "\<forall>off \<in> set offsets. off < u64_limit"
    and len: "sizes_count s \<le> u32_limit" and per: "0 < per"
  shows "sim (chunk_rel offsets (sizes_list s) L) (chunk_step offsets (sizes_list s) L per st k)
     (positions_chunk offsets s (sizes_count s) per samples k)"
proof (cases "get_at offsets (k - 1)")
  case None
  then show ?thesis by (simp add: chunk_step_def positions_chunk_def)
next
  case (Some off)
  let ?zs = "sizes_list s" and ?n = "length samples"
  have off: "off < u64_limit" using Some offs by (auto simp: get_at_eq_Some)
  have m: "ck_mapped st = ?n" "?n \<le> sizes_count s" using R by (auto simp: chunk_rel_def)
  define tk where "tk = min per (sizes_count s - ?n)"
  define seg where "seg = subslice ?zs ?n (?n + tk)"
  have "sizes_count s < u64_limit" using len by linarith
  then have sub: "min per (wsub64 (sizes_count s) ?n) = tk" using m by (simp add: tk_def)
  have tkle: "?n + tk \<le> sizes_count s" using m(2) by (simp add: tk_def)
  then have sl: "slice ?zs ?n (?n + tk) = ok seg" by (simp add: seg_def)
  have pos: "positions_chunk offsets s (sizes_count s) per samples k =
     (case chunk_end off seg of
           None \<Rightarrow> fail (invalid_media ''sample offset overflow'')
         | Some e \<Rightarrow> if tk < per then fail (invalid_media ''stsc maps more samples than stsz'')
                     else ok (samples @ laid_out off seg))"
    using Some position_fold [OF m(2), of off "[0..<per]"]
    by (simp add: positions_chunk_def tk_def [symmetric] seg_def [symmetric] split: option.split)
  show ?thesis
  proof (cases "off + sum_list seg < u64_limit")
    case False
    then show ?thesis using Some sub sl m(1) pos chunk_end_eq [OF off, of seg]
      by (simp add: chunk_step_def)
  next
    case True
    then have ce: "chunk_end off seg = Some (off + sum_list seg)" using chunk_end_eq [OF off] by simp
    show ?thesis
    proof (cases "0 < tk")
      case False
      then have "tk < per" using per by simp
      then show ?thesis
        unfolding chunk_step_def Let_def m(1) length_sizes_list sub Some ok_or_simps and_then_simps
          sl ce if_not_P [OF False] pos by simp
    next
      case pos_tk: True
      then have n32: "?n < u32_limit" using tkle len by linarith
      obtain co where co: "(case ck_offset st of
                None \<Rightarrow>
                  if k - 1 = length (ck_first st) then ok None
                  else and_then (slice offsets 0 (length (ck_first st))) (\<lambda>copied.
                         ok (Some (copied @ [off])))
              | Some copied \<Rightarrow> ok (Some (copied @ [off]))) = ok co"
        and co': "(case co of None \<Rightarrow> take (Suc (length (ck_first st))) offsets | Some c \<Rightarrow> c)
            = used_offsets offsets st @ [off]"
          "co = None \<longrightarrow> Suc (length (ck_first st)) \<le> length offsets"
        using chunk_offset_step [OF R Some] by blast
      define st' where "st' = st\<lparr>ck_first := ck_first st @ [?n], ck_offset := co,
                    ck_beyond := (if L < off + sum_list seg \<and> ck_beyond st = None
                                  then Some ''sample byte range exceeds source length''
                                  else ck_beyond st), ck_mapped := ?n + tk\<rparr>"
      have step: "chunk_step offsets ?zs L per st k =
          (if tk < per then fail (invalid_media ''stsc maps more samples than stsz'') else ok st')"
        unfolding chunk_step_def Let_def m(1) length_sizes_list sub Some ok_or_simps and_then_simps
          sl ce if_P [OF pos_tk] co
        using n32 by (simp add: u32_of_nat_def st'_def)
      have "used_offsets offsets st' = used_offsets offsets st @ [off]"
      proof -
        have "ck_first st' = ck_first st @ [?n]" "ck_offset st' = co" by (simp_all add: st'_def)
        then show ?thesis using co'(1) unfolding used_offsets_def [of offsets st']
          by (cases co) simp_all
      qed
      then have "chunk_rel offsets ?zs L st' (samples @ laid_out off seg)"
        using tkle co'(2) True
        by (intro chunk_rel_extend [OF R pos_tk _ seg_def]) (simp_all add: st'_def)
      then show ?thesis using step pos ce by simp
    qed
  qed
qed

lemma positions_sim:
  assumes offs: "\<forall>off \<in> set (st_chunk_offsets ts). off < u64_limit"
    and len: "sizes_count (st_sizes ts) \<le> u32_limit"
  shows "sim (\<lambda>(first, offsets, beyond) samples. \<exists>st.
       chunk_rel (st_chunk_offsets ts) (sizes_list (st_sizes ts)) L st samples
       \<and> first = ck_first st \<and> offsets = used_offsets (st_chunk_offsets ts) st
       \<and> beyond = ck_beyond st \<and> length samples = sizes_count (st_sizes ts))
     (chunks (st_sample_to_chunk ts) (st_chunk_offsets ts) (sizes_list (st_sizes ts)) L)
     (sample_positions ts (sizes_count (st_sizes ts)))"
proof (cases "st_sample_to_chunk ts = []")
  case True
  then show ?thesis by (simp add: chunks_def sample_positions_def)
next
  case False
  let ?R = "chunk_rel (st_chunk_offsets ts) (sizes_list (st_sizes ts)) L"
  let ?st0 = "\<lparr>ck_first = [], ck_offset = None, ck_beyond = None, ck_mapped = 0\<rparr>"
  have init: "?R ?st0 []" by (simp add: chunk_rel_def used_offsets_def)
  have entry: "sim ?R
      (chunks_entry (st_sample_to_chunk ts) (st_chunk_offsets ts) (sizes_list (st_sizes ts)) L st e)
      (positions_entry (st_sample_to_chunk ts) (st_chunk_offsets ts) (st_sizes ts)
         (sizes_count (st_sizes ts)) samples e)" if "?R st samples" for st samples e
    using that
    by (cases e)
       (auto simp: chunks_entry_def positions_entry_def
         intro!: sim_try_fold [where R = ?R] chunk_step_sim [OF _ offs len])
  show ?thesis
    unfolding chunks_def sample_positions_def if_not_P [OF False]
  proof (rule sim_and_then [OF sim_try_fold [where R = ?R, OF entry init]])
    fix st samples assume R: "?R st samples"
    then have "ck_mapped st = length samples" by (simp add: chunk_rel_def)
    then show "sim (\<lambda>(first, offsets, beyond) samples. \<exists>st. ?R st samples
         \<and> first = ck_first st \<and> offsets = used_offsets (st_chunk_offsets ts) st
         \<and> beyond = ck_beyond st \<and> length samples = sizes_count (st_sizes ts))
       (if ck_mapped st \<noteq> length (sizes_list (st_sizes ts))
        then fail (invalid_media ''stsc maps fewer samples than stsz'')
        else ok (ck_first st, case ck_offset st of
            None \<Rightarrow> take (length (ck_first st)) (st_chunk_offsets ts) | Some copied \<Rightarrow> copied, ck_beyond st))
       (if length samples \<noteq> sizes_count (st_sizes ts)
        then fail (invalid_media ''stsc maps fewer samples than stsz'') else ok samples)"
      using R by (auto simp: used_offsets_def intro!: exI [of _ st])
  qed
qed

section \<open>Decode times\<close>

definition run_time :: "nat list \<Rightarrow> nat list \<Rightarrow> nat list \<Rightarrow> nat \<Rightarrow> nat" where
  "run_time first start duration i =
     start ! run_of first i + (i - first ! run_of first i) * duration ! run_of first i"

definition timed :: "nat \<Rightarrow> nat \<Rightarrow> nat \<Rightarrow> nat \<Rightarrow> sample list \<Rightarrow> sample list" where
  "timed at run dt delta samples =
     map (\<lambda>i. if at \<le> i \<and> i < at + run
              then (samples ! i)\<lparr>sm_decode_time := dt + (i - at) * delta, sm_duration := delta\<rparr>
              else samples ! i) [0..<length samples]"

lemma length_timed [simp]: "length (timed at run dt delta samples) = length samples"
  by (simp add: timed_def)

lemma time_fold:
  assumes "at + run \<le> length samples" "dt < u64_limit"
  shows "try_fold (time_sample delta) (samples, dt) [at..<at + run] =
     (if dt + run * delta < u64_limit then ok (timed at run dt delta samples, dt + run * delta)
      else fail (invalid_media ''decode timestamp overflow''))"
  using assms
proof (induction run)
  case 0
  have "timed at 0 dt delta samples = samples" by (intro nth_equalityI) (auto simp: timed_def)
  then show ?case using 0 by simp
next
  case (Suc run)
  have split: "[at..<at + Suc run] = [at..<at + run] @ [at + run]" by simp
  show ?case
  proof (cases "dt + run * delta < u64_limit")
    case True
    have "(timed at run dt delta samples)[at + run :=
        (timed at run dt delta samples ! (at + run))
          \<lparr>sm_decode_time := dt + run * delta, sm_duration := delta\<rparr>] = timed at (Suc run) dt delta samples"
      using Suc.prems by (intro nth_equalityI) (auto simp: timed_def nth_list_update less_Suc_eq)
    then show ?thesis
      unfolding split try_fold_append
      using Suc True by (simp add: time_sample_def checked_add_def add.commute add.left_commute)
  next
    case False
    then show ?thesis unfolding split try_fold_append using Suc by simp
  qed
qed

definition timing_rel ::
    "sample list \<Rightarrow> timing_state \<Rightarrow> sample list \<times> nat \<times> nat \<Rightarrow> bool" where
  "timing_rel base st = (\<lambda>(samples, dt, at).
     tm_at st = at \<and> tm_decode_time st = dt \<and> dt < u64_limit \<and> at \<le> length base
     \<and> length samples = length base
     \<and> run_table (tm_first st) at \<and> length (tm_start st) = length (tm_first st)
     \<and> length (tm_duration st) = length (tm_first st)
     \<and> (\<forall>i < length base. samples ! i =
          (if i < at then (base ! i)
             \<lparr>sm_decode_time := run_time (tm_first st) (tm_start st) (tm_duration st) i,
              sm_duration := tm_duration st ! run_of (tm_first st) i\<rparr> else base ! i))
     \<and> (\<forall>i < at. run_time (tm_first st) (tm_start st) (tm_duration st) i
            + tm_duration st ! run_of (tm_first st) i \<le> dt)
     \<and> (\<forall>i < at. \<forall>j \<le> i. run_time (tm_first st) (tm_start st) (tm_duration st) j
            \<le> run_time (tm_first st) (tm_start st) (tm_duration st) i))"

lemma run_time_old:
  assumes "run_table first n" "length start = length first" "length duration = length first" "i < n"
  shows "run_time (first @ [n]) (start @ [x]) (duration @ [y]) i = run_time first start duration i"
    "(duration @ [y]) ! run_of (first @ [n]) i = duration ! run_of first i"
  using assms run_of_snoc_old [OF assms(1,4)] run_of_props(1) [OF assms(1,4)]
  by (simp_all add: run_time_def nth_append)

lemma run_time_new:
  assumes "run_table first n" "length start = length first" "length duration = length first" "n \<le> i"
  shows "run_time (first @ [n]) (start @ [x]) (duration @ [y]) i = x + (i - n) * y"
    "(duration @ [y]) ! run_of (first @ [n]) i = y"
  using assms run_of_snoc_ge [OF assms(1,4)] by (simp_all add: run_time_def nth_append)

lemma timing_rel_extend:
  assumes R: "timing_rel base st (samples, dt, at)"
    and run: "0 < run" "at + run \<le> length base" "dt + run * delta < u64_limit"
  shows "timing_rel base
     \<lparr>tm_first = tm_first st @ [at], tm_start = tm_start st @ [dt], tm_duration = tm_duration st @ [delta],
      tm_decode_time = dt + run * delta, tm_at = at + run\<rparr>
     (timed at run dt delta samples, dt + run * delta, at + run)"
proof -
  let ?F = "tm_first st" and ?S = "tm_start st" and ?D = "tm_duration st"
  have rt: "run_table ?F at" and len: "length ?S = length ?F" "length ?D = length ?F"
    "length samples = length base" "at \<le> length base"
    and old: "\<And>i. i < length base \<Longrightarrow> samples ! i =
          (if i < at then (base ! i)\<lparr>sm_decode_time := run_time ?F ?S ?D i,
              sm_duration := ?D ! run_of ?F i\<rparr> else base ! i)"
    and ends: "\<And>i. i < at \<Longrightarrow> run_time ?F ?S ?D i + ?D ! run_of ?F i \<le> dt"
    and mono: "\<And>i j. i < at \<Longrightarrow> j \<le> i \<Longrightarrow> run_time ?F ?S ?D j \<le> run_time ?F ?S ?D i"
    using R by (auto simp: timing_rel_def)
  let ?T = "run_time (?F @ [at]) (?S @ [dt]) (?D @ [delta])"
  let ?d = "\<lambda>i. (?D @ [delta]) ! run_of (?F @ [at]) i"
  have o: "?T i = run_time ?F ?S ?D i" "?d i = ?D ! run_of ?F i" if "i < at" for i
    using run_time_old [OF rt len(1,2) that] by auto
  have n: "?T i = dt + (i - at) * delta" "?d i = delta" if "at \<le> i" for i
    using run_time_new [OF rt len(1,2) that] by auto
  have steps: "(i - at) * delta + delta \<le> run * delta" if "at \<le> i" "i < at + run" for i
  proof -
    have "Suc (i - at) \<le> run" using that by linarith
    then show ?thesis using mult_le_mono1 [of "Suc (i - at)" run delta] by simp
  qed
  have e: "?T i + ?d i \<le> dt + run * delta" if "i < at + run" for i
    using that o [of i] n [of i] ends [of i] steps [of i] by (cases "i < at") auto
  have m: "?T j \<le> ?T i" if "i < at + run" "j \<le> i" for i j
  proof (cases "i < at")
    case True
    then show ?thesis using mono [OF True that(2)] o that by simp
  next
    case False
    show ?thesis
    proof (cases "j < at")
      case True
      then show ?thesis using o [OF True] ends [OF True] n [of i] False by simp
    next
      case jat: False
      have "(j - at) * delta \<le> (i - at) * delta" using that by (intro mult_le_mono1) simp
      then show ?thesis using n [of i] n [of j] False jat by simp
    qed
  qed
  have v: "timed at run dt delta samples ! i = (if i < at + run
      then (base ! i)\<lparr>sm_decode_time := ?T i, sm_duration := ?d i\<rparr> else base ! i)" if "i < length base" for i
    using that old [OF that] o [of i] n [of i] len by (auto simp: timed_def)
  have "run_table (?F @ [at]) (at + run)" using run_table_grow [OF rt] run(1) by simp
  then show ?thesis
    unfolding timing_rel_def using e m v run len by auto
qed

lemma timing_step_sim:
  assumes R: "timing_rel base st t" and len: "length base \<le> u32_limit"
  shows "sim (timing_rel base) (timing_step (length base) st x) (apply_times_run t x)"
proof -
  obtain samples dt at where t: "t = (samples, dt, at)" by (cases t)
  obtain run delta where x: "x = (run, delta)" by (cases x)
  have st: "tm_at st = at" "tm_decode_time st = dt" "dt < u64_limit" "at \<le> length base"
    "length samples = length base"
    using R by (auto simp: timing_rel_def t)
  show ?thesis
  proof (cases "saturating_add at run \<le> length base")
    case False
    then show ?thesis using st by (simp add: timing_step_def apply_times_run_def t x)
  next
    case True
    then have fit: "at + run \<le> length base" using len by (simp add: saturating_add_def min_def split: if_splits)
    show ?thesis
    proof (cases "run = 0")
      case True
      then show ?thesis using R fit st \<open>saturating_add at run \<le> length base\<close>
        by (simp add: timing_step_def apply_times_run_def t x)
    next
      case False
      have at: "at < u32_limit" using fit False len by linarith
      have fold: "apply_times_run t x = (if dt + run * delta < u64_limit
          then ok (timed at run dt delta samples, dt + run * delta, at + run)
          else fail (invalid_media ''decode timestamp overflow''))"
        using True fit st time_fold [of at run samples dt delta] by (simp add: apply_times_run_def t x)
      show ?thesis
      proof (cases "dt + run * delta < u64_limit")
        case ok: True
        then show ?thesis
          using True False at st fold timing_rel_extend [OF R [unfolded t] _ fit ok]
          by (simp add: timing_step_def x u32_of_nat_def checked_mul_def checked_add_def)
      next
        case bad: False
        then show ?thesis using True False at st fold
          by (simp add: timing_step_def x u32_of_nat_def checked_mul_def checked_add_def)
      qed
    qed
  qed
qed

lemma times_sim:
  assumes "length base \<le> u32_limit"
  shows "sim (\<lambda>st samples. \<exists>dt. timing_rel base st (samples, dt, length base))
     (timing_runs runs (length base)) (apply_times base runs)"
  unfolding timing_runs_def apply_times_def
proof (rule sim_and_then [OF sim_try_fold [where R = "timing_rel base"]])
  show "sim (timing_rel base) (timing_step (length base) st x) (apply_times_run t x)"
    if "timing_rel base st t" for st t x
    using timing_step_sim [OF that assms] .
  show "timing_rel base \<lparr>tm_first = [], tm_start = [], tm_duration = [], tm_decode_time = 0, tm_at = 0\<rparr> (base, 0, 0)"
    by (simp add: timing_rel_def)
  show "sim (\<lambda>st samples. \<exists>dt. timing_rel base st (samples, dt, length base))
       (if tm_at st \<noteq> length base then fail (invalid_media ''stts entry count does not match sample count'') else ok st)
       (case t of (samples', _, at) \<Rightarrow>
          if at \<noteq> length samples' then fail (invalid_media ''stts entry count does not match sample count'')
          else ok samples')" if "timing_rel base st t" for st t
    using that by (cases t) (auto simp: timing_rel_def)
qed

section \<open>Composition offsets\<close>

definition composed :: "nat \<Rightarrow> nat \<Rightarrow> int \<Rightarrow> sample list \<Rightarrow> sample list" where
  "composed at run offset samples =
     map (\<lambda>i. if at \<le> i \<and> i < at + run then (samples ! i)\<lparr>sm_composition_offset := offset\<rparr>
              else samples ! i) [0..<length samples]"

lemma composition_fold:
  assumes "at + run \<le> length samples"
  shows "fold (\<lambda>i xs. xs[i := (xs ! i)\<lparr>sm_composition_offset := offset\<rparr>]) [at..<at + run] samples
     = composed at run offset samples"
  using assms
proof (induction run)
  case 0
  show ?case by (intro nth_equalityI) (auto simp: composed_def)
next
  case (Suc run)
  then show ?case
    by (intro nth_equalityI) (auto simp: composed_def nth_list_update less_Suc_eq)
qed

definition composition_rel ::
    "sample list \<Rightarrow> nat list \<times> int list \<times> nat \<Rightarrow> sample list \<times> nat \<Rightarrow> bool" where
  "composition_rel base = (\<lambda>(first, offsets, at) (samples, at').
     at' = at \<and> at \<le> length base \<and> length samples = length base \<and> run_table first at
     \<and> length offsets = length first
     \<and> (\<forall>i < length base. samples ! i =
          (if i < at then (base ! i)\<lparr>sm_composition_offset := offsets ! run_of first i\<rparr> else base ! i)))"

lemma composition_rel_extend:
  assumes R: "composition_rel base (first, offsets, at) (samples, at)"
    and run: "0 < run" "at + run \<le> length base"
  shows "composition_rel base (first @ [at], offsets @ [offset], at + run)
     (composed at run offset samples, at + run)"
proof -
  have rt: "run_table first at" and len: "length offsets = length first" "length samples = length base"
    and old: "\<And>i. i < length base \<Longrightarrow> samples ! i =
          (if i < at then (base ! i)\<lparr>sm_composition_offset := offsets ! run_of first i\<rparr> else base ! i)"
    using R by (auto simp: composition_rel_def)
  have "composed at run offset samples ! i = (if i < at + run
      then (base ! i)\<lparr>sm_composition_offset := (offsets @ [offset]) ! run_of (first @ [at]) i\<rparr>
      else base ! i)" if i: "i < length base" for i
  proof (cases "i < at")
    case True
    then show ?thesis
      using i old [OF i] len run_of_snoc_old [OF rt True] run_of_props(1) [OF rt True]
      by (simp add: composed_def nth_append)
  next
    case False
    then show ?thesis using i old [OF i] len run_of_snoc_ge [OF rt, of i]
      by (simp add: composed_def nth_append)
  qed
  then show ?thesis
    using run len run_table_grow [OF rt, of "at + run"] by (simp add: composition_rel_def composed_def)
qed

lemma composition_step_sim:
  assumes R: "composition_rel base st t" and len: "length base \<le> u32_limit"
  shows "sim (composition_rel base) (composition_run_step (length base) st x) (apply_composition_run t x)"
proof -
  obtain samples at where t: "t = (samples, at)" by (cases t)
  obtain first offsets where st: "st = (first, offsets, at)"
    using R by (cases st) (simp add: composition_rel_def t)
  obtain run offset where x: "x = (run, offset)" by (cases x)
  have l: "length samples = length base" using R by (simp add: composition_rel_def st t)
  show ?thesis
  proof (cases "saturating_add at run \<le> length base")
    case False
    then show ?thesis using l by (simp add: composition_run_step_def apply_composition_run_def st t x)
  next
    case True
    then have fit: "at + run \<le> length base"
      using len by (simp add: saturating_add_def min_def split: if_splits)
    show ?thesis
    proof (cases "run = 0")
      case zero: True
      then show ?thesis
        using R True l by (simp add: composition_run_step_def apply_composition_run_def st t x)
    next
      case False
      have "at < u32_limit" using fit False len by linarith
      then show ?thesis
        using True False l fit composition_fold [of at run samples offset]
          composition_rel_extend [OF R [unfolded st t] _ fit, of offset]
        by (simp add: composition_run_step_def apply_composition_run_def st t x u32_of_nat_def)
    qed
  qed
qed

lemma compositions_sim:
  assumes "length base \<le> u32_limit"
  shows "sim (\<lambda>(first, offsets) samples. composition_rel base (first, offsets, length base) (samples, length base))
     (composition_runs runs (length base)) (apply_composition base runs)"
  unfolding composition_runs_def apply_composition_def
proof (rule sim_and_then [OF sim_try_fold [where R = "composition_rel base"]])
  show "sim (composition_rel base) (composition_run_step (length base) st x) (apply_composition_run t x)"
    if "composition_rel base st t" for st t x
    using composition_step_sim [OF that assms] .
  show "composition_rel base ([], [], 0) (base, 0)" by (simp add: composition_rel_def)
  show "sim (\<lambda>(first, offsets) samples. composition_rel base (first, offsets, length base) (samples, length base))
       (case st of (first, offsets, at) \<Rightarrow>
          if at \<noteq> length base then fail (invalid_media ''ctts entry count does not match sample count'')
          else ok (first, offsets))
       (case t of (samples', at) \<Rightarrow>
          if at \<noteq> length samples' then fail (invalid_media ''ctts entry count does not match sample count'')
          else ok samples')" if "composition_rel base st t" for st t
    using that by (cases st; cases t) (auto simp: composition_rel_def)
qed

section \<open>Sync samples\<close>

lemma set_sync_table: "i \<in> set (sync_table numbers n) \<longleftrightarrow> i < n \<and> Suc i \<in> set numbers"
proof -
  have "i \<in> set (List.map_filter (\<lambda>k. checked_sub k 1) numbers) \<longleftrightarrow> Suc i \<in> set numbers"
    by (induction numbers) (auto simp: map_filter_simps checked_sub_def split: option.splits)
  then show ?thesis by (auto simp: sync_table_def)
qed

lemma strict_remdups_adj: "sorted xs \<Longrightarrow> sorted_wrt (<) (remdups_adj (xs :: nat list))"
proof (induction xs rule: remdups_adj.induct)
  case (3 x y xs)
  then show ?case by (cases "x = y") (auto simp: remdups_adj_set)
qed simp_all

lemma sorted_sync_table: "sorted_wrt (<) (sync_table numbers n)"
  by (simp add: sync_table_def strict_remdups_adj)

lemma fold_mark_one:
  "length (fold mark_one entries xs) = length xs \<and>
   (\<forall>i < length xs. fold mark_one entries xs ! i =
      (if Suc i \<in> set entries then (xs ! i)\<lparr>sm_is_sync := True\<rparr> else xs ! i))"
proof (induction entries arbitrary: xs)
  case (Cons n entries)
  have "length (mark_one n xs) = length xs"
    "\<And>i. i < length xs \<Longrightarrow> mark_one n xs ! i = (if n = Suc i then (xs ! i)\<lparr>sm_is_sync := True\<rparr> else xs ! i)"
    by (auto simp: mark_one_def checked_sub_def nth_list_update)
  then show ?case using Cons [of "mark_one n xs"] by auto
qed simp

lemma nth_mark_sync:
  "length (mark_sync entries samples) = length samples"
  "i < length samples \<Longrightarrow>
     mark_sync entries samples ! i = (samples ! i)\<lparr>sm_is_sync := Suc i \<in> set entries\<rparr>"
  using fold_mark_one [of entries "map (\<lambda>s. s\<lparr>sm_is_sync := False\<rparr>) samples"]
  by (auto simp: mark_sync_def)

section \<open>Putting the passes together\<close>

text \<open>Every field of parsed tables has its width, and the counts are those of 32-bit fields.\<close>

definition stbl_wf :: "sample_tables \<Rightarrow> bool" where
  "stbl_wf ts \<longleftrightarrow>
     (\<forall>(run, delta) \<in> set (st_time_to_sample ts). run < u32_limit \<and> delta < u32_limit)
     \<and> (case st_composition ts of None \<Rightarrow> True
        | Some runs \<Rightarrow> \<forall>(run, offset) \<in> set runs. run < u32_limit
             \<and> - 2147483648 \<le> offset \<and> offset < 2147483648)
     \<and> (case st_sync ts of None \<Rightarrow> True | Some numbers \<Rightarrow> \<forall>k \<in> set numbers. k < u32_limit)
     \<and> (\<forall>(chunk, per) \<in> set (st_sample_to_chunk ts). chunk < u32_limit \<and> per < u32_limit)
     \<and> sizes_count (st_sizes ts) < u32_limit
     \<and> (\<forall>z \<in> set (sizes_list (st_sizes ts)). z < u32_limit)
     \<and> (\<forall>off \<in> set (st_chunk_offsets ts). off < u64_limit)"

lemma check_range_fold:
  assumes "\<forall>x \<in> set xs. sm_offset x + sm_size x < u64_limit"
  shows "try_fold (check_range L) () xs =
     (if \<exists>x \<in> set xs. L < sm_offset x + sm_size x
      then fail (invalid_media ''sample byte range exceeds source length'') else ok ())"
  using assms by (induction xs) (auto simp: check_range_def checked_add_def)

definition expanded :: "sample_tables \<Rightarrow> sample list \<Rightarrow> sample list" where
  "expanded ts s3 = (case st_sync ts of Some entries \<Rightarrow> mark_sync entries s3 | None \<Rightarrow> s3)"

definition built_tables ::
    "sample_tables \<Rightarrow> chunk_state \<Rightarrow> timing_state \<Rightarrow> nat list \<Rightarrow> int list \<Rightarrow> tables" where
  "built_tables ts st tm cf co = \<lparr>tb_sizes = sizes_list (st_sizes ts), tb_chunk_first = ck_first st,
     tb_chunk_offset = used_offsets (st_chunk_offsets ts) st, tb_time_first = tm_first tm,
     tb_time_start = tm_start tm, tb_time_duration = tm_duration tm,
     tb_composition_first = cf, tb_composition_offset = co,
     tb_sync = map_option (\<lambda>numbers. sync_table numbers (sizes_count (st_sizes ts))) (st_sync ts)\<rparr>"

text \<open>Where the passes have got to when both versions have gone through every table.\<close>

definition expansion ::
    "sample_tables \<Rightarrow> nat \<Rightarrow> chunk_state \<Rightarrow> timing_state \<Rightarrow> nat list \<Rightarrow> int list
     \<Rightarrow> sample list \<Rightarrow> sample list \<Rightarrow> sample list \<Rightarrow> bool" where
  "expansion ts L st tm cf co s1 s2 s3 \<longleftrightarrow> stbl_wf ts
     \<and> chunk_rel (st_chunk_offsets ts) (sizes_list (st_sizes ts)) L st s1
     \<and> length s1 = sizes_count (st_sizes ts)
     \<and> (\<exists>dt. timing_rel s1 tm (s2, dt, length s1))
     \<and> (cf = [] \<and> co = [] \<and> s3 = s2 \<or> composition_rel s2 (cf, co, length s2) (s3, length s2))"

lemma expansionD:
  assumes "expansion ts L st tm cf co s1 s2 s3"
  shows "stbl_wf ts" "chunk_rel (st_chunk_offsets ts) (sizes_list (st_sizes ts)) L st s1"
    "length s1 = sizes_count (st_sizes ts)"
    "\<exists>dt. timing_rel s1 tm (s2, dt, length s1)"
    "cf = [] \<and> co = [] \<and> s3 = s2 \<or> composition_rel s2 (cf, co, length s2) (s3, length s2)"
  using assms by (auto simp: expansion_def)

lemma expansion_lengths:
  assumes E: "expansion ts L st tm cf co s1 s2 s3"
  shows "length s2 = length s1" "length s3 = length s1" "length (expanded ts s3) = length s1"
  using expansionD(4,5) [OF E] nth_mark_sync(1)
  by (auto simp: timing_rel_def composition_rel_def expanded_def split: option.splits)

lemma expansion_s1:
  assumes E: "expansion ts L st tm cf co s1 s2 s3" and i: "i < length s1"
  defines "t \<equiv> built_tables ts st tm cf co"
  shows "s1 ! i = raw_sample (spec_offset t i) (tb_sizes t ! i)"
    "spec_offset t i + tb_sizes t ! i < u64_limit"
proof -
  show raw: "s1 ! i = raw_sample (spec_offset t i) (tb_sizes t ! i)"
    using expansionD(2) [OF E] i by (simp add: chunk_rel_def spec_offset_def t_def built_tables_def)
  have "sm_offset (s1 ! i) + sizes_list (st_sizes ts) ! i < u64_limit"
    using expansionD(2) [OF E] i unfolding chunk_rel_def by blast
  then show "spec_offset t i + tb_sizes t ! i < u64_limit"
    using raw by (simp add: raw_sample_def t_def built_tables_def)
qed

lemma expansion_s2:
  assumes E: "expansion ts L st tm cf co s1 s2 s3" and i: "i < length s1"
  defines "t \<equiv> built_tables ts st tm cf co"
  shows "s2 ! i = (s1 ! i)\<lparr>sm_decode_time := spec_decode_time t i, sm_duration := spec_duration t i\<rparr>"
  using expansionD(4) [OF E] i
  by (auto simp: timing_rel_def spec_decode_time_def spec_duration_def t_def built_tables_def run_time_def)

lemma expansion_s3:
  assumes E: "expansion ts L st tm cf co s1 s2 s3" and i: "i < length s1"
  defines "t \<equiv> built_tables ts st tm cf co"
  shows "s3 ! i = (s2 ! i)\<lparr>sm_composition_offset := spec_composition t i\<rparr>"
  using expansionD(5) [OF E]
proof
  assume none: "cf = [] \<and> co = [] \<and> s3 = s2"
  have "sm_composition_offset (s2 ! i) = 0"
    using expansion_s1(1) [OF E i] expansion_s2 [OF E i] by (simp add: raw_sample_def)
  moreover have "spec_composition t i = 0" using none by (simp add: spec_composition_def t_def built_tables_def)
  ultimately show ?thesis using none by simp
next
  assume rel: "composition_rel s2 (cf, co, length s2) (s3, length s2)"
  then have "cf \<noteq> []" using i expansion_lengths [OF E] by (auto simp: composition_rel_def run_table_def)
  then show ?thesis using rel i expansion_lengths [OF E]
    by (simp add: composition_rel_def spec_composition_def t_def built_tables_def)
qed

lemma expansion_nth:
  assumes E: "expansion ts L st tm cf co s1 s2 s3" and i: "i < length s1"
  shows "expanded ts s3 ! i = spec_sample (built_tables ts st tm cf co) 0 i"
proof -
  let ?t = "built_tables ts st tm cf co"
  have "expanded ts s3 ! i = (s3 ! i)\<lparr>sm_is_sync := spec_sync ?t i\<rparr>"
  proof (cases "st_sync ts")
    case None
    have "sm_is_sync (s3 ! i)"
      using expansion_s1(1) [OF E i] expansion_s2 [OF E i] expansion_s3 [OF E i] by (simp add: raw_sample_def)
    then show ?thesis using None by (simp add: expanded_def spec_sync_def built_tables_def)
  next
    case (Some entries)
    then show ?thesis using i expansion_lengths [OF E] expansionD(3) [OF E]
      by (simp add: expanded_def spec_sync_def built_tables_def nth_mark_sync set_sync_table)
  qed
  then show ?thesis
    using expansion_s1(1) [OF E i] expansion_s2 [OF E i] expansion_s3 [OF E i]
    by (simp add: spec_sample_def raw_sample_def)
qed

lemma expansion_wf:
  assumes E: "expansion ts L st tm cf co s1 s2 s3"
  shows "tables_wf (built_tables ts st tm cf co)" "tables_ascending (built_tables ts st tm cf co)"
    "tables_len (built_tables ts st tm cf co) = length s1"
proof -
  let ?t = "built_tables ts st tm cf co"
  obtain dt where timing: "timing_rel s1 tm (s2, dt, length s1)" using expansionD(4) [OF E] by blast
  show len: "tables_len ?t = length s1"
    using expansionD(3) [OF E] by (simp add: tables_len_def built_tables_def)
  have time: "spec_decode_time ?t i = run_time (tm_first tm) (tm_start tm) (tm_duration tm) i" for i
    by (simp add: spec_decode_time_def built_tables_def run_time_def)
  show "tables_ascending ?t"
    using timing unfolding tables_ascending_def len time by (simp add: timing_rel_def)
  have "cf = [] \<or> run_table cf (length s1)" and c: "length co = length cf"
    using expansionD(5) [OF E] expansion_lengths [OF E] by (auto simp: composition_rel_def)
  moreover have "spec_decode_time ?t i < u64_limit" if "i < length s1" for i
  proof -
    have "run_time (tm_first tm) (tm_start tm) (tm_duration tm) i
        + tm_duration tm ! run_of (tm_first tm) i \<le> dt" "dt < u64_limit"
      using timing that by (simp_all add: timing_rel_def)
    then show ?thesis unfolding time by linarith
  qed
  moreover have "\<forall>i < length s1. spec_offset ?t i + tb_sizes ?t ! i < u64_limit"
    using expansion_s1(2) [OF E] by blast
  moreover have "length s1 \<le> u32_limit"
    using expansionD(1,3) [OF E] by (simp add: stbl_wf_def)
  moreover have "run_table (tb_chunk_first ?t) (length s1)"
    "length (tb_chunk_offset ?t) = length (tb_chunk_first ?t)"
    using expansionD(2) [OF E] by (simp_all add: chunk_rel_def built_tables_def)
  moreover have "run_table (tb_time_first ?t) (length s1)"
    "length (tb_time_start ?t) = length (tb_time_first ?t)"
    "length (tb_time_duration ?t) = length (tb_time_first ?t)"
    using timing by (simp_all add: timing_rel_def built_tables_def)
  moreover have "case tb_sync ?t of None \<Rightarrow> True
      | Some sync \<Rightarrow> sorted_wrt (<) sync \<and> (\<forall>i \<in> set sync. i < length s1)"
    using expansionD(3) [OF E]
    by (cases "st_sync ts") (auto simp: built_tables_def sorted_sync_table set_sync_table)
  moreover have "tb_composition_first ?t = cf" "tb_composition_offset ?t = co"
    by (simp_all add: built_tables_def)
  ultimately show "tables_wf ?t" unfolding tables_wf_def len by simp
qed

lemma expansion_index:
  assumes E: "expansion ts L st tm cf co s1 s2 s3"
  shows "index_valid (index_new (built_tables ts st tm cf co))"
    "index_samples (index_new (built_tables ts st tm cf co)) = expanded ts s3"
proof -
  note wf = expansion_wf [OF E]
  show "index_valid (index_new (built_tables ts st tm cf co))"
    using wf(1,2) tables_wf_runs(10) [OF wf(1)]
    by (auto simp: index_valid_def index_wf_def index_ascending_def index_new_def)
  show "index_samples (index_new (built_tables ts st tm cf co)) = expanded ts s3"
    using wf(3) expansion_lengths [OF E] expansion_nth [OF E]
    by (intro nth_equalityI) (simp_all add: index_len_def index_new_def)
qed

lemma expansion_ends:
  assumes E: "expansion ts L st tm cf co s1 s2 s3" and i: "i < length s1"
  shows "sm_offset (expanded ts s3 ! i) + sm_size (expanded ts s3 ! i)
      = sm_offset (s1 ! i) + sizes_list (st_sizes ts) ! i"
    "sm_offset (expanded ts s3 ! i) + sm_size (expanded ts s3 ! i) < u64_limit"
  using expansion_nth [OF E i] expansion_s1 [OF E i] by (simp_all add: spec_sample_def raw_sample_def built_tables_def)

lemma expansion_beyond:
  assumes E: "expansion ts L st tm cf co s1 s2 s3"
  shows "try_fold (check_range L) () (expanded ts s3) =
     (case ck_beyond st of Some message \<Rightarrow> fail (invalid_media message) | None \<Rightarrow> ok ())"
    and "ck_beyond st = None \<Longrightarrow> \<forall>x \<in> set (expanded ts s3). sm_offset x + sm_size x \<le> L"
proof -
  have len: "length (expanded ts s3) = length s1" using expansion_lengths [OF E] by simp
  have bounded: "\<forall>x \<in> set (expanded ts s3). sm_offset x + sm_size x < u64_limit"
    using expansion_ends(2) [OF E] len by (auto simp: in_set_conv_nth)
  have "(\<exists>x \<in> set (expanded ts s3). L < sm_offset x + sm_size x) \<longleftrightarrow>
      (\<exists>i < length s1. L < sm_offset (expanded ts s3 ! i) + sm_size (expanded ts s3 ! i))"
    using len by (metis in_set_conv_nth)
  also have "\<dots> \<longleftrightarrow> (\<exists>i < length s1. L < sm_offset (s1 ! i) + sizes_list (st_sizes ts) ! i)"
    using expansion_ends(1) [OF E] by auto
  finally have far: "(\<exists>x \<in> set (expanded ts s3). L < sm_offset x + sm_size x) \<longleftrightarrow> ck_beyond st \<noteq> None"
    "ck_beyond st \<in> {None, Some ''sample byte range exceeds source length''}"
    using expansionD(2) [OF E] by (auto simp: chunk_rel_def)
  then show "try_fold (check_range L) () (expanded ts s3) =
     (case ck_beyond st of Some message \<Rightarrow> fail (invalid_media message) | None \<Rightarrow> ok ())"
    using check_range_fold [OF bounded, of L] by auto
  show "ck_beyond st = None \<Longrightarrow> \<forall>x \<in> set (expanded ts s3). sm_offset x + sm_size x \<le> L"
    using far(1) by (meson not_less)
qed

lemma sizes_list_cases:
  "(case s of ConstantSize z _ \<Rightarrow> replicate (sizes_count s) z | SizeTable zs \<Rightarrow> zs) = sizes_list s"
  by (simp add: sizes_list_def sizes_count_def split: sample_sizes.split)

lemma sample_index_sim_checked:
  assumes C: "chunk_rel (st_chunk_offsets ts) (sizes_list (st_sizes ts)) L st s1"
    "length s1 = sizes_count (st_sizes ts)" and wf: "stbl_wf ts"
    and T: "timing_rel s1 tm (s2, dt, length s1)"
    and M: "cf = [] \<and> co = [] \<and> s3 = s2 \<or> composition_rel s2 (cf, co, length s2) (s3, length s2)"
  shows "sim (\<lambda>s xs. index_valid s \<and> index_samples s = xs
       \<and> (\<forall>x \<in> set xs. sm_offset x + sm_size x \<le> L \<and> sm_offset x + sm_size x < u64_limit))
     (case ck_beyond st of Some message \<Rightarrow> fail (invalid_media message)
      | None \<Rightarrow> ok (index_new (built_tables ts st tm cf co)))
     (and_then (try_fold (check_range L) () (expanded ts s3)) (\<lambda>_. ok (expanded ts s3)))"
proof -
  have E: "expansion ts L st tm cf co s1 s2 s3" using assms by (auto simp: expansion_def)
  have "\<forall>x \<in> set (expanded ts s3). sm_offset x + sm_size x < u64_limit"
    using expansion_ends(2) [OF E] expansion_lengths(3) [OF E] by (auto simp: in_set_conv_nth)
  then show ?thesis
    using expansion_beyond [OF E] expansion_index [OF E] by (cases "ck_beyond st") auto
qed

theorem sample_index_sim:
  assumes wf: "stbl_wf ts"
  shows "sim (\<lambda>s xs. index_valid s \<and> index_samples s = xs
       \<and> (\<forall>x \<in> set xs. sm_offset x + sm_size x \<le> L \<and> sm_offset x + sm_size x < u64_limit))
     (sample_index_of ts L l) (expand_samples ts L l)"
proof (cases "max_samples_per_track l < sizes_count (st_sizes ts)")
  case True
  then show ?thesis by (simp add: sample_index_of_def expand_samples_def)
next
  case False
  let ?n = "sizes_count (st_sizes ts)"
  have len: "?n \<le> u32_limit" and offs: "\<forall>off \<in> set (st_chunk_offsets ts). off < u64_limit"
    using wf by (auto simp: stbl_wf_def)
  note [simp] = sample_index_of_def expand_samples_def sizes_list_cases
  show ?thesis
    using positions_sim [OF offs len, of L]
  proof (cases rule: sim_cases)
    case fault
    then show ?thesis using False by simp
  next
    case (both c s1)
    then obtain st where C: "chunk_rel (st_chunk_offsets ts) (sizes_list (st_sizes ts)) L st s1"
      "length s1 = ?n" and c: "c = (ck_first st, used_offsets (st_chunk_offsets ts) st, ck_beyond st)"
      by (cases c) auto
    note v1 = both(1,2)
    have "length s1 \<le> u32_limit" using C(2) len by simp
    from times_sim [OF this, of "st_time_to_sample ts"] show ?thesis
    proof (cases rule: sim_cases)
      case fault
      then show ?thesis using False v1 c C(2) by simp
    next
      case (both tm s2)
      then obtain dt where T: "timing_rel s1 tm (s2, dt, length s1)" by blast
      then have l2: "length s2 = ?n" using C(2) by (simp add: timing_rel_def)
      note v2 = both(1,2)
      show ?thesis
      proof (cases "st_composition ts")
        case None
        then show ?thesis
          using False v1 v2 c C(2)
            sample_index_sim_checked [OF C wf T, of "[]" "[]" s2, unfolded built_tables_def expanded_def]
          by simp
      next
        case (Some runs)
        have "length s2 \<le> u32_limit" using l2 len by simp
        from compositions_sim [OF this, of runs] show ?thesis
        proof (cases rule: sim_cases)
          case fault
          then show ?thesis using False v1 v2 c C(2) l2 Some by simp
        next
          case (both m s3)
          obtain cf co where "m = (cf, co)" by (cases m)
          then show ?thesis
            using both False v1 v2 c C(2) l2 Some
              sample_index_sim_checked [OF C wf T, of cf co s3, unfolded built_tables_def expanded_def]
            by simp
        qed
      qed
    qed
  qed
qed

end
