(* ===== verification/Box_Writer.thy ===== *)
theory Box_Writer
  imports Mp4_Boxes "HOL-Library.Sublist"
begin

text \<open>
  The box writer of \<^verbatim>\<open>src/src/fmp4/fragment.rs\<close> (\<^verbatim>\<open>write_box\<close> and its header), and how it meets the
  walker: what is written is walked back, and whatever the walker accepts it tiles completely.
\<close>

section \<open>Writing\<close>

definition write_box_header :: "bytes \<Rightarrow> nat \<Rightarrow> bytes \<Rightarrow> bytes res" where
  "write_box_header output sz name =
     and_then (ok_or (u32_of_nat sz) (InvalidMedia ''large-size boxes are not supported'')) (\<lambda>size'.
       ok (output @ be_bytes 4 size' @ name))"

definition write_box :: "bytes \<Rightarrow> bytes \<Rightarrow> bytes \<Rightarrow> bytes res" where
  "write_box output name payload =
     and_then (ok_or (checked_add (length payload) 8) (InvalidMedia ''box size overflow'')) (\<lambda>size.
     and_then (write_box_header output size name) (\<lambda>out. ok (out @ payload)))"

definition write_full_box_fields :: "byte \<Rightarrow> nat \<Rightarrow> bytes" where
  "write_full_box_fields version flags = version # drop 1 (be_bytes 4 flags)"

text \<open>A box as bytes, when it is small enough for a 32-bit size.\<close>

definition box_bytes :: "bytes \<Rightarrow> bytes \<Rightarrow> bytes" where
  "box_bytes name payload = be_bytes 4 (length payload + 8) @ name @ payload"

lemma length_box_bytes [simp]: "length (box_bytes name payload) = 4 + length name + length payload"
  by (simp add: box_bytes_def)

lemma write_box_eq_Inr:
  "write_box output name payload = Inr r \<longleftrightarrow>
     length payload + 8 < u32_limit \<and> r = output @ box_bytes name payload"
  by (auto simp: write_box_def write_box_header_def box_bytes_def and_then_eq_Inr)

lemma write_box_ok [total]:
  "length payload + 8 < u32_limit \<Longrightarrow> write_box output name payload = ok (output @ box_bytes name payload)"
  by (simp add: write_box_eq_Inr)

lemma write_box_header_eq_Inr:
  "write_box_header output sz name = Inr r \<longleftrightarrow> sz < u32_limit \<and> r = output @ be_bytes 4 sz @ name"
  by (auto simp: write_box_header_def and_then_eq_Inr)

section \<open>Walking what was written\<close>

definition written :: "bytes \<times> bytes \<Rightarrow> raw_box" where
  "written = (\<lambda>(name, payload). \<lparr>bx_name = name, bx_payload = payload, bx_size = length payload + 8\<rparr>)"

definition boxable :: "bytes \<times> bytes \<Rightarrow> bool" where
  "boxable = (\<lambda>(name, payload). length name = 4 \<and> length payload + 8 < u32_limit)"

lemma boxable_iff [simp]: "boxable (name, payload) \<longleftrightarrow> length name = 4 \<and> length payload + 8 < u32_limit"
  by (simp add: boxable_def)

lemma box_payload_written:
  assumes "boxable (name, payload)" "length data < u64_limit" "data = box_bytes name payload @ rest"
  shows "box_payload data 0 = ok (written (name, payload))"
proof -
  have nm: "length name = 4" "length payload + 8 < 256 ^ 4" using assms(1) by simp_all
  let ?header = "be_bytes 4 (length payload + 8) @ name"
  have "get_slice data 0 8 = Some ?header"
    using nm assms(3) by (simp add: get_slice_def subslice_def box_bytes_def)
  moreover have "be_value (take 4 ?header) = length payload + 8" using nm(2) by simp
  moreover have "slice data 8 (length payload + 8) = ok payload"
    using nm assms(3) by (simp add: slice_def subslice_def box_bytes_def)
  moreover have "length payload + 8 \<le> length data" using assms(3) nm by simp
  ultimately show ?thesis
    using assms(2) by (simp add: box_payload_def box_extent_def written_def checked_add_def)
qed

lemma child_boxes_append:
  assumes "boxable (name, payload)" "length (box_bytes name payload @ rest) < u64_limit"
  shows "child_boxes (box_bytes name payload @ rest) =
     and_then (child_boxes rest) (\<lambda>cs. ok (written (name, payload) # cs))"
proof -
  let ?data = "box_bytes name payload @ rest"
  have "length name = 4" using assms(1) by simp
  then have ne: "?data \<noteq> []" and d: "drop (bx_size (written (name, payload))) ?data = rest"
    by (auto simp: written_def box_bytes_def)
  show ?thesis
    using child_boxes_step [OF ne] box_payload_written [OF assms(1,2) refl] d by simp
qed

lemma child_boxes_written:
  assumes "\<forall>b \<in> set bs. boxable b" "length (concat (map (\<lambda>(n, p). box_bytes n p) bs)) < u64_limit"
  shows "child_boxes (concat (map (\<lambda>(n, p). box_bytes n p) bs)) = ok (map written bs)"
  using assms
proof (induction bs)
  case (Cons b bs)
  obtain n p where b: "b = (n, p)" by (cases b)
  then show ?case using Cons child_boxes_append [of n p] by simp
qed simp

section \<open>The walker tiles its input\<close>

definition box_span :: "raw_box \<Rightarrow> bytes \<Rightarrow> bool" where
  "box_span b span \<longleftrightarrow> length span = bx_size b \<and> 8 \<le> bx_size b
     \<and> take 4 (drop 4 span) = bx_name b \<and> suffix (bx_payload b) span"

lemma box_payload_span:
  assumes "box_payload data 0 = Inr b"
  shows "box_span b (take (bx_size b) data)" "bx_size b \<le> length data"
proof -
  obtain h where h: "8 \<le> h" "h \<le> bx_size b" "0 + bx_size b \<le> length data"
    "bx_name b = subslice data (0 + 4) (0 + 8)" "bx_payload b = subslice data (0 + h) (0 + bx_size b)"
    using box_payload_ok [OF assms] .
  have "bx_payload b = drop h (take (bx_size b) data)"
    using h by (simp add: subslice_def drop_take)
  then have "suffix (bx_payload b) (take (bx_size b) data)" by (simp add: suffix_drop)
  moreover have "take 4 (drop 4 (take (bx_size b) data)) = bx_name b"
    using h(1,2,4) by (simp add: subslice_def drop_take min_def)
  ultimately show "box_span b (take (bx_size b) data)" "bx_size b \<le> length data"
    using h by (auto simp: box_span_def)
qed

lemma child_boxes_tile:
  "child_boxes data = Inr cs \<Longrightarrow> \<exists>spans. data = concat spans \<and> list_all2 box_span cs spans"
proof (induction data arbitrary: cs rule: child_boxes.induct)
  case (1 data)
  show ?case
  proof (cases "data = []")
    case True
    then show ?thesis using "1.prems" by (intro exI [of _ "[]"]) simp
  next
    case False
    then obtain b rest where b: "box_payload data 0 = Inr b"
      and rest: "child_boxes (drop (bx_size b) data) = Inr rest" "cs = b # rest"
      using "1.prems" by (auto simp: child_boxes_step and_then_eq_Inr)
    then obtain spans where s: "drop (bx_size b) data = concat spans" "list_all2 box_span rest spans"
      using "1.IH" [OF False b] by blast
    have "data = concat (take (bx_size b) data # spans)" using s(1) by (simp flip: s(1))
    then show ?thesis using s(2) rest(2) box_payload_span(1) [OF b]
      by (intro exI [of _ "take (bx_size b) data # spans"]) simp
  qed
qed

lemma child_boxes_no_panic: "child_boxes data \<noteq> panic"
proof (induction data rule: child_boxes.induct)
  case (1 data)
  show ?case
  proof (cases "data = []")
    case False
    then show ?thesis
      using "1.IH" [OF False] box_payload_no_panic [of data 0]
      by (auto simp: child_boxes_step and_then_eq_Inl)
  qed simp
qed

section \<open>Properties\<close>

text \<open>
  C25 Boxes written one after another with \<open>write_box\<close> are walked back in order, each with its name
  and its payload.
\<close>

theorem boxes_roundtrip:
  assumes "\<forall>b \<in> set bs. length (fst b) = 4"
    and "try_fold (\<lambda>out (name, payload). write_box out name payload) [] bs = ok out"
    and "length out < u64_limit"
  shows "\<exists>cs. child_boxes out = ok cs \<and> map (\<lambda>c. (bx_name c, bx_payload c)) cs = bs"
proof -
  have "try_fold (\<lambda>out (name, payload). write_box out name payload) acc bs = Inr out \<Longrightarrow>
      out = acc @ concat (map (\<lambda>(n, p). box_bytes n p) bs) \<and> (\<forall>b \<in> set bs. length (snd b) + 8 < u32_limit)"
    for acc
  proof (induction bs arbitrary: acc)
    case (Cons b bs)
    obtain n p where b: "b = (n, p)" by (cases b)
    then have p: "length p + 8 < u32_limit"
      and "try_fold (\<lambda>out (name, payload). write_box out name payload) (acc @ box_bytes n p) bs = Inr out"
      using Cons.prems by (auto simp: and_then_eq_Inr write_box_eq_Inr)
    from Cons.IH [OF this(2)] p b show ?case by simp
  qed simp
  from this [of "[]"] assms have out: "out = concat (map (\<lambda>(n, p). box_bytes n p) bs)"
    and "\<forall>b \<in> set bs. boxable b" by (auto simp: boxable_def)
  then have "child_boxes out = ok (map written bs)"
    using child_boxes_written assms(3) by blast
  moreover have "map (\<lambda>c. (bx_name c, bx_payload c)) (map written bs) = bs"
    by (simp add: written_def case_prod_beta o_def)
  ultimately show ?thesis by blast
qed

theorem boxes_roundtrip_witness:
  "\<exists>out cs. try_fold (\<lambda>out (name, payload). write_box out name payload) []
       [(ascii ''mfhd'', [1, 2, 3]), (ascii ''free'', [])] = ok out
    \<and> child_boxes out = ok cs
    \<and> map (\<lambda>c. (bx_name c, bx_payload c)) cs = [(ascii ''mfhd'', [1, 2, 3]), (ascii ''free'', [])]"
proof -
  let ?bs = "[(ascii ''mfhd'', [1, 2, 3]), (ascii ''free'', [])] :: (bytes \<times> bytes) list"
  let ?out = "box_bytes (ascii ''mfhd'') [1, 2, 3] @ box_bytes (ascii ''free'') []"
  have "try_fold (\<lambda>out (name, payload). write_box out name payload) [] ?bs = ok ?out"
    by (simp add: write_box_ok)
  moreover have "length ?out < u64_limit" by (simp add: ascii_def)
  ultimately show ?thesis
    using boxes_roundtrip [of ?bs ?out] by (auto simp: ascii_def)
qed

text \<open>
  Whatever bytes it is given, the walker ends without a panic, and the boxes of a successful
  walk tile the input: their sizes are at least a header, their spans follow each other with nothing
  between or after, and each payload is the end of its span.
\<close>

theorem walker_tiles:
  "case child_boxes data of
     Inr cs \<Rightarrow> \<exists>spans. data = concat spans \<and> list_all2 box_span cs spans
   | Inl f \<Rightarrow> f \<noteq> Panic"
  using child_boxes_tile child_boxes_no_panic by (auto split: sum.split)

end
