(* ===== verification/Sample_Tables_Parse.thy ===== *)
theory Sample_Tables_Parse
  imports Sample_Tables_Laws Box_Writer
begin

text \<open>
  What the parsers of an \<^verbatim>\<open>stbl\<close> promise: no panic on any bytes, fields within their widths, counts
  backed by bytes that are there, and the compact size table decoded exactly.
\<close>

section \<open>Widths\<close>

lemma be_pair_bound:
  assumes "8 \<le> length c"
  shows "fst (be_pair c) < u32_limit" "snd (be_pair c) < u32_limit"
  using assms by (auto simp: be_pair_def intro!: be_value_less)

lemma pairs_bound: "p \<in> set (pairs bs) \<Longrightarrow> fst p < u32_limit \<and> snd p < u32_limit"
  using be_pair_bound chunks_of_lengths by (fastforce simp: pairs_def)

lemma be_u32s_bound: "x \<in> set (be_u32s bs) \<Longrightarrow> x < u32_limit"
  using chunks_of_lengths by (fastforce simp: be_u32s_def intro!: be_value_less)

lemma length_be_u32s: "length bs = k * 4 \<Longrightarrow> length (be_u32s bs) = k"
  by (simp add: be_u32s_def length_chunks_of)

lemma reader_after_full_box:
  assumes "length payload < u64_limit" "rd_full_box (reader_new payload) = Inr (v, r)"
  shows "rd_wf r" "rd_rest r = drop 4 payload" "4 \<le> length payload" "v = hd payload"
proof -
  have wf: "rd_wf (reader_new payload)" using assms(1) by simp
  have r: "4 \<le> length payload" "v = hd payload" "r = (reader_new payload)\<lparr>rd_position := 4\<rparr>"
    using assms(2) by (auto simp: rd_full_box_eq_Inr [OF wf])
  then show "rd_wf r" "rd_rest r = drop 4 payload" "4 \<le> length payload" "v = hd payload"
    using assms(1) by (auto simp: rd_wf_def rd_rest_def reader_new_def)
qed

lemma parse_runs_bound:
  "parse_runs payload = Inr runs \<Longrightarrow> p \<in> set runs \<Longrightarrow> fst p < u32_limit \<and> snd p < u32_limit"
  by (auto simp: parse_runs_def and_then_eq_Inr dest!: pairs_bound)

lemma parse_stsc_bound:
  "parse_stsc payload = Inr entries \<Longrightarrow> p \<in> set entries \<Longrightarrow> fst p < u32_limit \<and> snd p < u32_limit"
  using be_pair_bound chunks_of_lengths by (fastforce simp: parse_stsc_def and_then_eq_Inr)

lemma parse_stss_bound: "parse_stss payload = Inr numbers \<Longrightarrow> x \<in> set numbers \<Longrightarrow> x < u32_limit"
  using be_u32s_bound by (auto simp: parse_stss_def and_then_eq_Inr)

lemma ctts_entry_bound:
  assumes "snd p < u32_limit" "ctts_entry version p = Inr q"
  shows "fst q = fst p" "- 2147483648 \<le> snd q" "snd q < 2147483648"
  using assms
  by (auto simp: ctts_entry_def and_then_eq_Inr i32_of_nat_def cast_signed32_def split: if_splits prod.splits)

lemma parse_ctts_bound:
  assumes "parse_ctts payload = Inr runs" "q \<in> set runs"
  shows "fst q < u32_limit \<and> - 2147483648 \<le> snd q \<and> snd q < 2147483648"
proof -
  obtain version bs where "map (ctts_entry version) (pairs bs) = map Inr runs"
    using assms(1) by (auto simp: parse_ctts_def and_then_eq_Inr collect_res_eq_Inr)
  then have "Inr q \<in> set (map (ctts_entry version) (pairs bs))" using assms(2) by simp
  then obtain p where "p \<in> set (pairs bs)" "ctts_entry version p = Inr q" by auto
  then show ?thesis using pairs_bound ctts_entry_bound by metis
qed

lemma parse_chunk_offsets_bound:
  "parse_chunk_offsets payload wide = Inr offs \<Longrightarrow> off \<in> set offs \<Longrightarrow> off < u64_limit"
proof -
  assume p: "parse_chunk_offsets payload wide = Inr offs" "off \<in> set offs"
  have "c \<in> set (chunks_of 8 bs) \<Longrightarrow> be_value c < u64_limit" for c bs
    using chunks_of_lengths [of c 8 bs] by (intro be_value_less) simp
  moreover have "x \<in> set (be_u32s bs) \<Longrightarrow> x < u64_limit" for x bs
    using be_u32s_bound [of x bs] by simp
  ultimately show ?thesis
    using p by (auto simp: parse_chunk_offsets_def and_then_eq_Inr split: if_splits)
qed

lemma read_nibbles_props:
  "read_nibbles n r = Inr zs \<Longrightarrow> length zs = n \<and> (\<forall>z \<in> set zs. z < 256)"
  by (induction n r arbitrary: zs rule: read_nibbles.induct) (auto simp: and_then_eq_Inr)

lemma read_octets_props:
  "read_octets n r = Inr zs \<Longrightarrow> length zs = n \<and> (\<forall>z \<in> set zs. z < 256)"
  by (induction n r arbitrary: zs rule: read_octets.induct) (auto simp: and_then_eq_Inr)

lemma rd_take_length: "rd_take r n = Inr (bs, r') \<Longrightarrow> length bs = n"
  by (auto simp: rd_take_def split: option.splits if_splits)

lemma read_shorts_props:
  "read_shorts n r = Inr zs \<Longrightarrow> length zs = n \<and> (\<forall>z \<in> set zs. z < 65536)"
proof (induction n r arbitrary: zs rule: read_shorts.induct)
  case (2 n r)
  then show ?case
    using rd_take_length [of r 2] be_value_less [of _ 65536]
    by (fastforce simp: and_then_eq_Inr rd_u16_eq_Inr)
qed simp

lemma rd_u32_less: "rd_u32 r = Inr (x, r') \<Longrightarrow> x < u32_limit"
  by (auto simp: rd_u32_eq_Inr intro!: be_value_less dest!: rd_take_length)

lemma parse_stsz_bound:
  assumes "parse_stsz payload = Inr s"
  shows "sizes_count s < u32_limit" "\<forall>z \<in> set (sizes_list s). z < u32_limit"
  using assms
  by (auto simp: parse_stsz_def and_then_eq_Inr sizes_count_def sizes_list_def length_be_u32s
      split: if_splits dest!: rd_u32_less rd_take_length be_u32s_bound)

lemma parse_stz2_bound:
  assumes "parse_stz2 payload = Inr s"
  shows "sizes_count s < u32_limit" "\<forall>z \<in> set (sizes_list s). z < u32_limit"
proof -
  obtain r3 count r4 zs where c: "rd_u32 r3 = Inr (count, r4)" and s: "s = SizeTable zs"
    and zs: "read_nibbles count r4 = Inr zs \<or> read_octets count r4 = Inr zs \<or> read_shorts count r4 = Inr zs"
    using assms by (auto simp: parse_stz2_def and_then_eq_Inr split: if_splits)
  have "length zs = count \<and> (\<forall>z \<in> set zs. z < 65536)"
    using zs read_nibbles_props read_octets_props read_shorts_props by fastforce
  then show "sizes_count s < u32_limit" "\<forall>z \<in> set (sizes_list s). z < u32_limit"
    using s rd_u32_less [OF c] by (auto simp: sizes_count_def sizes_list_def)
qed

lemma parse_optional_eq_Inr:
  "parse_optional stbl name parser = Inr r \<Longrightarrow> r = Some x \<Longrightarrow> \<exists>p. parser p = Inr x"
  by (auto simp: parse_optional_def and_then_eq_Inr split: option.splits)

lemma parse_required_eq_Inr: "parse_required stbl name parser = Inr x \<Longrightarrow> \<exists>p. parser p = Inr x"
  by (auto simp: parse_required_def and_then_eq_Inr)

lemma parse_offsets_of_bound: "parse_offsets_of stbl = Inr offs \<Longrightarrow> \<forall>off \<in> set offs. off < u64_limit"
  using parse_chunk_offsets_bound
  by (fastforce simp: parse_offsets_of_def and_then_eq_Inr split: option.splits)

lemma parse_sizes_of_bound:
  "parse_sizes_of stbl = Inr s \<Longrightarrow> sizes_count s < u32_limit \<and> (\<forall>z \<in> set (sizes_list s). z < u32_limit)"
  by (auto simp: parse_sizes_of_def and_then_eq_Inr split: option.splits
      dest: parse_stsz_bound parse_stz2_bound)

lemma parse_sample_tables_wf:
  assumes "parse_sample_tables stbl = Inr ts"
  shows "stbl_wf ts"
proof -
  have parts: "parse_offsets_of stbl = Inr (st_chunk_offsets ts)" "parse_sizes_of stbl = Inr (st_sizes ts)"
    "parse_required stbl ''stts'' parse_runs = Inr (st_time_to_sample ts)"
    "parse_optional stbl ''ctts'' parse_ctts = Inr (st_composition ts)"
    "parse_optional stbl ''stss'' parse_stss = Inr (st_sync ts)"
    "parse_required stbl ''stsc'' parse_stsc = Inr (st_sample_to_chunk ts)"
    using assms by (auto simp: parse_sample_tables_def and_then_eq_Inr)
  have "\<forall>p \<in> set (st_time_to_sample ts). fst p < u32_limit \<and> snd p < u32_limit"
    using parse_required_eq_Inr [OF parts(3)] parse_runs_bound by blast
  moreover have "\<forall>p \<in> set (st_sample_to_chunk ts). fst p < u32_limit \<and> snd p < u32_limit"
    using parse_required_eq_Inr [OF parts(6)] parse_stsc_bound by blast
  moreover have "\<forall>runs. st_composition ts = Some runs \<longrightarrow>
      (\<forall>p \<in> set runs. fst p < u32_limit \<and> - 2147483648 \<le> snd p \<and> snd p < 2147483648)"
    using parse_optional_eq_Inr [OF parts(4)] parse_ctts_bound by blast
  moreover have "\<forall>numbers. st_sync ts = Some numbers \<longrightarrow> (\<forall>k \<in> set numbers. k < u32_limit)"
    using parse_optional_eq_Inr [OF parts(5)] parse_stss_bound by blast
  ultimately show ?thesis
    unfolding stbl_wf_def case_prod_beta
    using parse_offsets_of_bound [OF parts(1)] parse_sizes_of_bound [OF parts(2)]
    by (simp split: option.split)
qed

section \<open>No panic\<close>

lemma rd_take_safe [safe_intros]: "rd_wf r \<Longrightarrow> safe (rd_take r n)"
  by (auto simp: safe_def rd_take_fault)

lemma rd_skip_safe [safe_intros]: "rd_wf r \<Longrightarrow> safe (rd_skip r n)"
  by (auto simp: rd_skip_def intro!: safe_intros)

lemma rd_u8_safe [safe_intros]:
  assumes "rd_wf r"
  shows "safe (rd_u8 r)"
  unfolding rd_u8_def
proof (rule safe_and_then)
  show "safe (case x of (bs, r') \<Rightarrow> and_then (index_at bs 0) (\<lambda>b. ok (b, r')))"
    if "rd_take r 1 = Inr x" for x
    using that rd_take_length by (cases x) fastforce
qed (rule rd_take_safe [OF assms])

lemma rd_int_safe [safe_intros]:
  "rd_wf r \<Longrightarrow> safe (rd_u16 r)" "rd_wf r \<Longrightarrow> safe (rd_u32 r)"
  "rd_wf r \<Longrightarrow> safe (rd_i32 r)" "rd_wf r \<Longrightarrow> safe (rd_u64 r)"
  by (auto simp: rd_u16_def rd_u32_def rd_i32_def rd_u64_def intro!: safe_intros)

lemma rd_reads_wf:
  assumes "rd_wf r"
  shows "rd_take r n = Inr (bs, r') \<Longrightarrow> rd_wf r'" "rd_skip r n = Inr r' \<Longrightarrow> rd_wf r'"
    "rd_u8 r = Inr (b, r') \<Longrightarrow> rd_wf r'" "rd_u16 r = Inr (x, r') \<Longrightarrow> rd_wf r'"
    "rd_u32 r = Inr (x, r') \<Longrightarrow> rd_wf r'" "rd_i32 r = Inr (i, r') \<Longrightarrow> rd_wf r'"
    "rd_u64 r = Inr (x, r') \<Longrightarrow> rd_wf r'" "rd_full_box r = Inr (b, r') \<Longrightarrow> rd_wf r'"
    "rd_full_box_flags r = Inr (b, x, r') \<Longrightarrow> rd_wf r'"
    "rd_entries r n = Inr (bs, r') \<Longrightarrow> rd_wf r'"
  using rd_take_step(1) [OF assms] rd_take_step(1) rd_entries_step(1) [OF assms]
  by (auto simp: rd_skip_def rd_u8_def rd_u16_def rd_u32_def rd_i32_def rd_u64_def rd_full_box_def
      rd_full_box_flags_def and_then_eq_Inr) blast+

lemmas rd_wf_dests = rd_reads_wf [rotated]

lemma rd_full_box_safe [safe_intros]: "rd_wf r \<Longrightarrow> safe (rd_full_box r)" "rd_wf r \<Longrightarrow> safe (rd_full_box_flags r)"
  by (auto simp: rd_full_box_def rd_full_box_flags_def intro!: safe_intros intro: rd_wf_dests)

lemma rd_entries_safe [safe_intros]: "rd_wf r \<Longrightarrow> safe (rd_entries r n)"
  by (auto simp: rd_entries_def rd_entry_count_def and_then_eq_Inr split: if_splits
      intro!: safe_intros intro: rd_wf_dests)

lemma read_sizes_safe [safe_intros]:
  "rd_wf r \<Longrightarrow> safe (read_nibbles n r)" "rd_wf r \<Longrightarrow> safe (read_octets n r)"
  "rd_wf r \<Longrightarrow> safe (read_shorts n r)"
proof -
  show "rd_wf r \<Longrightarrow> safe (read_nibbles n r)"
    by (induction n r rule: read_nibbles.induct)
       (auto intro!: safe_intros intro: rd_wf_dests, blast intro: rd_wf_dests)
  show "rd_wf r \<Longrightarrow> safe (read_octets n r)"
    by (induction n r rule: read_octets.induct)
       (auto intro!: safe_intros intro: rd_wf_dests, blast intro: rd_wf_dests)
  show "rd_wf r \<Longrightarrow> safe (read_shorts n r)"
    by (induction n r rule: read_shorts.induct)
       (auto intro!: safe_intros intro: rd_wf_dests, blast intro: rd_wf_dests)
qed

lemma parsers_safe:
  assumes "length p < u64_limit"
  shows "safe (parse_runs p)" "safe (parse_ctts p)" "safe (parse_stss p)" "safe (parse_stsc p)"
    "safe (parse_stsz p)" "safe (parse_stz2 p)" "safe (parse_chunk_offsets p wide)"
proof -
  have wf: "rd_full_box (reader_new p) = Inr (v, r) \<Longrightarrow> rd_wf r" for v r
    using reader_after_full_box(1) [OF assms] .
  have new: "rd_wf (reader_new p)" using assms by simp
  show "safe (parse_runs p)" "safe (parse_stss p)" "safe (parse_stsc p)" "safe (parse_chunk_offsets p wide)"
    using new wf
    by (auto simp: parse_runs_def parse_stss_def parse_stsc_def parse_chunk_offsets_def intro!: safe_intros)
  show "safe (parse_ctts p)"
    using new wf by (auto simp: parse_ctts_def ctts_entry_def intro!: safe_intros)
  show "safe (parse_stsz p)"
    using new wf by (auto simp: parse_stsz_def intro!: safe_intros intro: rd_wf_dests)
       (blast intro: rd_wf_dests)
  show "safe (parse_stz2 p)"
    using new wf by (auto simp: parse_stz2_def intro!: safe_intros intro: rd_wf_dests)
      (blast intro: rd_wf_dests)+
qed

lemma child_payload_length:
  "child_boxes data = Inr cs \<Longrightarrow> c \<in> set cs \<Longrightarrow> length (bx_payload c) \<le> length data"
proof (induction data arbitrary: cs rule: child_boxes.induct)
  case (1 data)
  then show ?case
    using box_payload_size(2,3) [of data 0]
    by (cases "data = []") (fastforce simp: child_boxes_step and_then_eq_Inr)+
qed

lemma children_safe [safe_intros]: "safe (optional_child data name)" "safe (required_child data name)"
  using child_boxes_no_panic
  by (auto simp: optional_child_def required_child_def safe_def [of "child_boxes data"] intro!: safe_intros)

lemma child_found_length:
  "optional_child data name = Inr (Some c) \<Longrightarrow> length (bx_payload c) \<le> length data"
  "required_child data name = Inr c \<Longrightarrow> length (bx_payload c) \<le> length data"
  using child_payload_length
  by (auto simp: optional_child_def required_child_def and_then_eq_Inr simp: find_Some_iff)

lemma parse_child_safe:
  assumes "length stbl < u64_limit" "\<And>p. length p < u64_limit \<Longrightarrow> safe (f p)"
  shows "safe (parse_optional stbl name f)" "safe (parse_required stbl name f)"
proof -
  have len: "optional_child stbl (ascii name) = Inr (Some c) \<Longrightarrow> length (bx_payload c) < u64_limit"
    "required_child stbl (ascii name) = Inr c \<Longrightarrow> length (bx_payload c) < u64_limit" for c
    using assms(1) child_found_length [of stbl "ascii name" c] by fastforce+
  show "safe (parse_optional stbl name f)" "safe (parse_required stbl name f)"
    using assms(2) len by (auto simp: parse_optional_def parse_required_def intro!: safe_intros split: option.split)
qed

lemma parse_sample_tables_safe:
  assumes "length stbl < u64_limit"
  shows "safe (parse_sample_tables stbl)"
proof -
  have len: "optional_child stbl name = Inr (Some c) \<Longrightarrow> length (bx_payload c) < u64_limit" for name c
    using assms child_found_length(1) [of stbl name c] by fastforce
  have "safe (parse_offsets_of stbl)" "safe (parse_sizes_of stbl)"
    using len parsers_safe
    by (auto simp: parse_offsets_of_def parse_sizes_of_def intro!: safe_intros split: option.split)
  then show ?thesis
    using parsers_safe assms by (auto simp: parse_sample_tables_def intro!: safe_intros parse_child_safe)
qed

end
