(* ===== verification/Sample_Tables_Properties.thy ===== *)
theory Sample_Tables_Properties
  imports Sample_Tables_Parse
begin

text \<open>
  The properties of sample tables: parsing is total and gives well-formed tables, the compact index
  built from them is the reference expansion, and every sample it lists lies inside the source.
\<close>

section \<open>The expansion never panics\<close>

lemma positions_chunk_inv:
  assumes "length samples \<le> sizes_count s"
  shows "safe (positions_chunk offsets s (sizes_count s) per samples k)"
    "positions_chunk offsets s (sizes_count s) per samples k = Inr samples' \<Longrightarrow>
       length samples' \<le> sizes_count s"
proof -
  have len: "length samples + length (subslice (sizes_list s) (length samples) b) \<le> sizes_count s" for b
    using assms by (simp add: subslice_def)
  show "safe (positions_chunk offsets s (sizes_count s) per samples k)"
    "positions_chunk offsets s (sizes_count s) per samples k = Inr samples' \<Longrightarrow>
       length samples' \<le> sizes_count s"
    using position_fold [OF assms, of _ "[0..<per]"] len
    by (auto simp: positions_chunk_def safe_def and_then_eq_Inl and_then_eq_Inr ok_or_def
        split: option.splits if_splits)
qed

lemma positions_entry_inv:
  assumes "length samples \<le> sizes_count s"
  shows "safe (positions_entry stsc offsets s (sizes_count s) samples e)"
    "positions_entry stsc offsets s (sizes_count s) samples e = Inr samples' \<Longrightarrow>
       length samples' \<le> sizes_count s"
proof -
  obtain i first per where e: "e = (i, first, per)" by (cases e)
  show "safe (positions_entry stsc offsets s (sizes_count s) samples e)"
    using assms positions_chunk_inv
    by (auto simp: positions_entry_def e intro!: safe_try_fold [where P = "\<lambda>xs. length xs \<le> sizes_count s"])
  assume "positions_entry stsc offsets s (sizes_count s) samples e = Inr samples'"
  then have "try_fold (positions_chunk offsets s (sizes_count s) per) samples
      [first..<next_first_chunk stsc offsets i] = Inr samples'"
    by (simp add: positions_entry_def e split: if_splits)
  from _ assms this show "length samples' \<le> sizes_count s"
    by (rule try_fold_inv [where P = "\<lambda>xs. length xs \<le> sizes_count s"]) (rule positions_chunk_inv(2))
qed

lemma expand_samples_safe: "safe (expand_samples ts L l)"
proof -
  have "safe (sample_positions ts (sizes_count (st_sizes ts)))"
    using positions_entry_inv
    by (auto simp: sample_positions_def
        intro!: safe_intros safe_try_fold [where P = "\<lambda>xs. length xs \<le> sizes_count (st_sizes ts)"])
  moreover have "safe (apply_times_run t x)" for t x
    by (auto simp: apply_times_run_def time_sample_def split: prod.split
        intro!: safe_intros safe_try_fold [where P = "\<lambda>_. True"])
  then have "safe (apply_times xs runs)" for xs runs
    by (auto simp: apply_times_def intro!: safe_intros safe_try_fold [where P = "\<lambda>_. True"])
  moreover have "safe (apply_composition xs runs)" for xs runs
    by (auto simp: apply_composition_def apply_composition_run_def split: prod.split
        intro!: safe_intros safe_try_fold [where P = "\<lambda>_. True"])
  moreover have "safe (try_fold (check_range L) () xs)" for xs
    by (auto simp: check_range_def intro!: safe_intros safe_try_fold [where P = "\<lambda>_. True"])
  ultimately show ?thesis
    by (auto simp: expand_samples_def intro!: safe_intros split: option.split)
qed

section \<open>Compact sizes\<close>

definition nibbles :: "bytes \<Rightarrow> nat list" where
  "nibbles bs = concat (map (\<lambda>b. [unat (drop_bit 4 b), unat (take_bit 4 b)]) bs)"

lemma read_nibbles_eq:
  assumes "rd_wf r" "n \<le> 2 * length (rd_rest r)"
  shows "read_nibbles n r = ok (take n (nibbles (rd_rest r)))"
  using assms
proof (induction n r rule: read_nibbles.induct)
  case (2 r)
  obtain b rest where rest: "rd_rest r = b # rest" using 2 by (cases "rd_rest r") auto
  note front = rd_take_front [OF "2.prems"(1), of "[b]" rest 1]
  show ?case using front rest by (simp add: rd_u8_def nibbles_def)
next
  case (3 n r)
  obtain b rest where rest: "rd_rest r = b # rest" using 3 by (cases "rd_rest r") auto
  let ?r = "r\<lparr>rd_position := rd_position r + 1\<rparr>"
  have u8: "rd_u8 r = Inr (b, ?r)" and r': "rd_wf ?r" "rd_rest ?r = rest"
    using rd_take_front [OF "3.prems"(1), of "[b]" rest 1] rest by (simp_all add: rd_u8_def)
  have "read_nibbles n ?r = ok (take n (nibbles rest))"
    using "3.IH" [OF u8 refl r'(1)] r'(2) "3.prems"(2) rest by simp
  then show ?case using u8 rest by (simp add: nibbles_def)
qed simp

lemma div_ceil_half: "(n * 4 + 7) div 8 \<le> m \<Longrightarrow> n \<le> 2 * (m :: nat)"
  by linarith

section \<open>An example\<close>

definition example_stbl_boxes :: "(bytes \<times> bytes) list" where
  "example_stbl_boxes =
     [(ascii ''stts'', [0,0,0,0, 0,0,0,2, 0,0,0,2, 0,0,0,10, 0,0,0,1, 0,0,0,7]),
      (ascii ''stss'', [0,0,0,0, 0,0,0,2, 0,0,0,3, 0,0,0,1]),
      (ascii ''stsc'', [0,0,0,0, 0,0,0,2, 0,0,0,1, 0,0,0,2, 0,0,0,1, 0,0,0,2, 0,0,0,1, 0,0,0,1]),
      (ascii ''stz2'', [0,0,0,0, 0,0,0,4, 0,0,0,3, 0x9A, 0xB0]),
      (ascii ''stco'', [0,0,0,0, 0,0,0,2, 0,0,0,100, 0,0,1,0])]"

definition example_stbl :: bytes where
  "example_stbl = concat (map (\<lambda>(n, p). box_bytes n p) example_stbl_boxes)"

definition example_parsed :: sample_tables where
  "example_parsed = \<lparr>st_time_to_sample = [(2, 10), (1, 7)], st_composition = None,
     st_sync = Some [3, 1], st_sample_to_chunk = [(1, 2), (2, 1)], st_sizes = SizeTable [9, 10, 11],
     st_chunk_offsets = [100, 256]\<rparr>"

lemma example_stbl_parses: "parse_sample_tables example_stbl = ok example_parsed"
  by code_simp

lemma example_parsed_wf: "stbl_wf example_parsed"
  by (rule parse_sample_tables_wf [OF example_stbl_parses])

section \<open>Properties\<close>

text \<open>
  C1 The compact index agrees with the expansion into one record per sample on every well-formed
  set of tables: it fails exactly when the expansion does and with the same error, and otherwise it
  is well formed and iterates over exactly the expanded samples.
\<close>

theorem index_is_expansion:
  assumes "stbl_wf ts"
  shows "case expand_samples ts source_len l of
     Inl f \<Rightarrow> sample_index_of ts source_len l = Inl f \<and> f \<noteq> Panic
   | Inr xs \<Rightarrow> \<exists>s. sample_index_of ts source_len l = ok s \<and> index_wf s \<and> iter_all s = ok xs"
  using sample_index_sim [OF assms, of source_len l]
proof (cases rule: sim_cases)
  case (fault e)
  then show ?thesis using expand_samples_safe [of ts source_len l] by (auto simp: safe_def)
next
  case (both s xs)
  then show ?thesis using iter_all_ok [of s] by (auto simp: index_valid_def)
qed

theorem index_is_expansion_witness:
  "case expand_samples example_parsed 300 (limits_default None) of
     Inl f \<Rightarrow> sample_index_of example_parsed 300 (limits_default None) = Inl f \<and> f \<noteq> Panic
   | Inr xs \<Rightarrow> \<exists>s. sample_index_of example_parsed 300 (limits_default None) = ok s
       \<and> index_wf s \<and> iter_all s = ok xs"
  by (rule index_is_expansion [OF example_parsed_wf])

text \<open>
  C2 Parsing an \<^verbatim>\<open>stbl\<close> never panics, whatever its bytes, and the tables it returns have every
  field within its width, no more sizes than 32 bits can count, and well-formed runs.
\<close>

theorem stbl_parsing_total:
  assumes "length stbl < u64_limit"
  shows "case parse_sample_tables stbl of Inr ts \<Rightarrow> stbl_wf ts | Inl f \<Rightarrow> f \<noteq> Panic"
  using parse_sample_tables_safe [OF assms] parse_sample_tables_wf
  by (auto simp: safe_def split: sum.split)

theorem stbl_parsing_total_witness:
  "parse_sample_tables example_stbl = ok example_parsed
   \<and> (case parse_sample_tables example_stbl of Inr ts \<Rightarrow> stbl_wf ts | Inl f \<Rightarrow> f \<noteq> Panic)"
proof -
  have "length example_stbl < u64_limit" by code_simp
  then show ?thesis using stbl_parsing_total example_stbl_parses by blast
qed

text \<open>
  Every sample of an index built from parsed tables lies inside the source, the index has as
  many samples as the size table and no more than the limit, and decode times never go back.
\<close>

theorem indexed_samples_bounded:
  assumes "parse_sample_tables stbl = ok ts" "sample_index_of ts source_len l = ok s"
  shows "index_len s = sizes_count (st_sizes ts) \<and> index_len s \<le> max_samples_per_track l
    \<and> (\<forall>i < index_len s. \<exists>x. index_get s i = ok x \<and> sm_offset x + sm_size x \<le> source_len)
    \<and> (\<forall>j < index_len s. \<forall>i \<le> j.
         sm_decode_time (index_samples s ! i) \<le> sm_decode_time (index_samples s ! j))"
proof -
  note wf = parse_sample_tables_wf [OF assms(1)]
  have valid: "index_valid s" and "\<forall>x \<in> set (index_samples s). sm_offset x + sm_size x \<le> source_len"
    using sample_index_sim [OF wf, of source_len l] assms(2) by (cases rule: sim_cases; auto)+
  then have "\<forall>i < index_len s. \<exists>x. index_get s i = ok x \<and> sm_offset x + sm_size x \<le> source_len"
    using si.get_law [OF valid] by (auto simp: all_set_conv_all_nth simp del: nth_index_samples)
  moreover have "index_len s = sizes_count (st_sizes ts) \<and> index_len s \<le> max_samples_per_track l"
    using assms(2)
    by (auto simp: sample_index_of_def sizes_list_cases and_then_eq_Inr index_len_def index_new_def
        tables_len_def split: if_splits option.splits)
  ultimately show ?thesis
    using index_samples_sorted [of s] valid by (simp add: index_valid_def del: nth_index_samples)
qed

theorem indexed_samples_bounded_witness:
  "\<exists>s. sample_index_of example_parsed 300 (limits_default None) = ok s
    \<and> index_len s = sizes_count (st_sizes example_parsed)
    \<and> index_len s \<le> max_samples_per_track (limits_default None)
    \<and> (\<forall>i < index_len s. \<exists>x. index_get s i = ok x \<and> sm_offset x + sm_size x \<le> 300)
    \<and> (\<forall>j < index_len s. \<forall>i \<le> j.
         sm_decode_time (index_samples s ! i) \<le> sm_decode_time (index_samples s ! j))"
proof -
  have "sample_index_of example_parsed 300 (limits_default None) = ok (index_new
     \<lparr>tb_sizes = [9, 10, 11], tb_chunk_first = [0, 2], tb_chunk_offset = [100, 256],
      tb_time_first = [0, 2], tb_time_start = [0, 20], tb_time_duration = [10, 7],
      tb_composition_first = [], tb_composition_offset = [], tb_sync = Some [0, 2]\<rparr>)"
    by code_simp
  then show ?thesis using indexed_samples_bounded [OF example_stbl_parses] by blast
qed

text \<open>
  The compact size box with 4-bit fields gives the sizes two to a byte, the first in the high
  half, and exactly as many as it counts.
\<close>

theorem stz2_nibbles:
  assumes "length sizes = (count + 1) div 2" "count < u32_limit" "length v = 4" "length reserved = 3"
  shows "parse_stz2 (v @ reserved @ [4] @ be_bytes 4 count @ sizes)
     = ok (SizeTable (take count (nibbles sizes)))"
proof -
  let ?p = "v @ reserved @ [4] @ be_bytes 4 count @ sizes"
  have len: "length ?p < u64_limit" using assms by simp
  let ?r = "\<lambda>n. (reader_new ?p)\<lparr>rd_position := n\<rparr>"
  have wf: "rd_wf (?r n)" if "n \<le> 12" for n
    using that len assms by (auto simp: rd_wf_def reader_new_def)
  have rest: "rd_rest (?r 4) = reserved @ [4] @ be_bytes 4 count @ sizes"
    "rd_rest (?r 7) = [4] @ be_bytes 4 count @ sizes" "rd_rest (?r 8) = be_bytes 4 count @ sizes"
    "rd_rest (?r 12) = sizes"
    using assms by (simp_all add: rd_rest_def reader_new_def)
  have pos: "rd_position (?r n) = n" "(?r n)\<lparr>rd_position := m\<rparr> = ?r m" for n m by simp_all
  have "rd_full_box (reader_new ?p) = Inr (hd ?p, ?r 4)"
    unfolding rd_full_box_eq_Inr [OF rd_wf_new [OF len]] by simp
  moreover have "rd_skip (?r 4) 3 = Inr (?r 7)"
    using rd_take_front(1) [OF wf rest(1), where n = 3] assms unfolding pos by (simp add: rd_skip_def)
  moreover have "rd_u8 (?r 7) = Inr (4, ?r 8)"
    using rd_take_front(1) [OF wf rest(2), where n = 1] unfolding pos by (simp add: rd_u8_def)
  moreover have "rd_u32 (?r 8) = Inr (count, ?r 12)"
    using rd_take_front(1) [OF wf rest(3), where n = 4] assms(2) unfolding pos by (simp add: rd_u32_def)
  moreover have "read_nibbles count (?r 12) = ok (take count (nibbles sizes))"
    using read_nibbles_eq [of "?r 12" count] wf rest(4) assms(1) by simp
  ultimately show ?thesis
    using assms rest(4) by (simp add: parse_stz2_def rd_remaining_rest checked_mul_def)
qed

theorem stz2_nibbles_witness:
  "parse_stz2 ([0, 0, 0, 0] @ [0, 0, 0] @ [4] @ be_bytes 4 3 @ [0x9A, 0xB0])
     = ok (SizeTable (take 3 (nibbles [0x9A, 0xB0])))
   \<and> take 3 (nibbles [0x9A, 0xB0]) = [9, 10, 11]"
proof -
  have "take 3 (nibbles [0x9A, 0xB0]) = [9, 10, 11]" by code_simp
  then show ?thesis using stz2_nibbles [of "[0x9A, 0xB0]" 3 "[0, 0, 0, 0]" "[0, 0, 0]"] by simp
qed

end
