(* ===== verification/Text_Numbers.thy ===== *)
theory Text_Numbers
  imports Vod_Prelude
begin

text \<open>
  Unsigned numbers as text: \<open>Display\<close> and \<open>str::parse\<close> of Rust's unsigned types, and two-digit
  lower-case hexadecimal.  A \<open>str\<close> is the list of its bytes.
\<close>

definition digit_char :: "nat \<Rightarrow> char" where
  "digit_char d = char_of (48 + d)"

definition is_digit :: "char \<Rightarrow> bool" where
  "is_digit c \<longleftrightarrow> 48 \<le> (of_char c :: nat) \<and> (of_char c :: nat) \<le> 57"

definition digit_value :: "char \<Rightarrow> nat" where
  "digit_value c = of_char c - 48"

fun decimal :: "nat \<Rightarrow> string" where
  "decimal n = (if n < 10 then [digit_char n] else decimal (n div 10) @ [digit_char (n mod 10)])"

declare decimal.simps [simp del]

definition digits_value :: "string \<Rightarrow> nat" where
  "digits_value ds = foldl (\<lambda>v c. v * 10 + digit_value c) 0 ds"

text \<open>
  \<open>str::parse\<close> for an unsigned type with values below \<open>limit\<close>: an optional plus sign, then at
  least one digit; too large a value is an error.
\<close>

definition parse_unsigned :: "nat \<Rightarrow> string \<Rightarrow> nat option" where
  "parse_unsigned limit text =
     (let ds = (case text of c # rest \<Rightarrow> if c = CHR ''+'' then rest else text | [] \<Rightarrow> text)
      in if ds = [] \<or> \<not> list_all is_digit ds \<or> limit \<le> digits_value ds then None
         else Some (digits_value ds))"

definition hex_char :: "nat \<Rightarrow> char" where
  "hex_char d = (if d < 10 then char_of (48 + d) else char_of (87 + d))"

definition hex2 :: "nat \<Rightarrow> string" where
  "hex2 b = [hex_char (b div 16), hex_char (b mod 16)]"

lemma of_digit_char: "d < 10 \<Longrightarrow> of_char (digit_char d) = (48 + d :: nat)"
  by (simp add: digit_char_def)

lemma digit_char_props [simp]:
  "d < 10 \<Longrightarrow> is_digit (digit_char d)" "d < 10 \<Longrightarrow> digit_value (digit_char d) = d"
  by (simp_all add: is_digit_def digit_value_def of_digit_char)

lemma digit_char_value [simp]: "is_digit c \<Longrightarrow> digit_char (digit_value c) = c"
  by (simp add: is_digit_def digit_value_def digit_char_def)

lemma digit_value_less [simp]: "is_digit c \<Longrightarrow> digit_value c < 10"
  unfolding is_digit_def digit_value_def by linarith

lemma decimal_digits: "list_all is_digit (decimal n)"
  by (induction n rule: decimal.induct) (subst decimal.simps, simp)

lemma decimal_nonempty [simp]: "decimal n \<noteq> []"
  by (subst decimal.simps) simp

lemma digits_value_snoc: "digits_value (ds @ [c]) = digits_value ds * 10 + digit_value c"
  by (simp add: digits_value_def)

lemma digits_value_decimal [simp]: "digits_value (decimal n) = n"
proof (induction n rule: decimal.induct)
  case (1 n)
  show ?case
  proof (cases "n < 10")
    case True
    then show ?thesis by (subst decimal.simps) (simp add: digits_value_def)
  next
    case False
    then show ?thesis using 1 by (subst decimal.simps) (simp add: digits_value_snoc)
  qed
qed

lemma plus_not_digit: "\<not> is_digit (CHR ''+'')"
  by (simp add: is_digit_def)

lemma parse_unsigned_decimal [simp]: "parse_unsigned limit (decimal n) = (if n < limit then Some n else None)"
proof -
  have "hd (decimal n) \<noteq> CHR ''+''"
    using decimal_digits [of n] plus_not_digit by (cases "decimal n") auto
  then have "(case decimal n of c # rest \<Rightarrow> if c = CHR ''+'' then rest else decimal n | [] \<Rightarrow> decimal n) = decimal n"
    by (cases "decimal n") auto
  then show ?thesis using decimal_digits [of n] by (simp add: parse_unsigned_def)
qed

lemma parse_unsigned_less: "parse_unsigned limit text = Some n \<Longrightarrow> n < limit"
  by (auto simp: parse_unsigned_def split: if_splits)

lemma decimal_inject [simp]: "decimal m = decimal n \<longleftrightarrow> m = n"
  by (metis digits_value_decimal)

end
