(* ===== verification/Media_Index.thy ===== *)
theory Media_Index
  imports Sample_Index_Laws Text_Numbers Byte_Strings
begin

text \<open>
  The data model of an indexed file: \<^verbatim>\<open>src/src/media/index.rs\<close> (tracks, their keys in URLs, codecs),
  \<^verbatim>\<open>src/src/media/protection.rs\<close> (what a source says of its own encryption) and the byte ranges and
  identities of \<^verbatim>\<open>src/src/source/mod.rs\<close>.
\<close>

section \<open>Sources\<close>

record byte_range =
  br_offset :: nat
  br_length :: nat

definition byte_range_new :: "nat \<Rightarrow> nat \<Rightarrow> byte_range" where
  "byte_range_new off n = \<lparr>br_offset = off, br_length = n\<rparr>"

definition byte_range_end :: "byte_range \<Rightarrow> nat option" where
  "byte_range_end r = checked_add (br_offset r) (br_length r)"

datatype origin =
    Local_Origin (canonical_path: string) (device: nat) (inode: nat) (modified_seconds: int)
      (modified_nanoseconds: int)
  | Remote_Origin (url: string) (validator: string)

record source_identity =
  id_origin :: origin
  id_length :: nat
  id_moov_hash :: "bytes option"
  id_metadata_hash :: "bytes option"

datatype discovery = Sequential | Sidx

record dropped_tail =
  dt_bytes :: nat
  dt_fragments :: nat

section \<open>Source encryption\<close>

datatype source_scheme = Cenc | Cens | Cbc1 | Cbcs

definition scheme_from_fourcc :: "bytes \<Rightarrow> source_scheme option" where
  "scheme_from_fourcc code =
     (if code = ascii ''cenc'' then Some Cenc
      else if code = ascii ''cens'' then Some Cens
      else if code = ascii ''cbc1'' then Some Cbc1
      else if code = ascii ''cbcs'' then Some Cbcs
      else None)"

record subsample =
  sb_clear :: nat
  sb_protected :: nat

record aux_table =
  ax_iv_size :: nat
  ax_ivs :: bytes
  ax_sub_first :: "nat list"
  ax_subsamples :: "subsample list"

definition aux_new :: "nat \<Rightarrow> bytes \<Rightarrow> nat list \<Rightarrow> subsample list \<Rightarrow> aux_table" where
  "aux_new iv_size ivs sub_first subs =
     \<lparr>ax_iv_size = iv_size, ax_ivs = ivs, ax_sub_first = sub_first, ax_subsamples = subs\<rparr>"

definition aux_iv :: "aux_table \<Rightarrow> nat \<Rightarrow> bytes option" where
  "aux_iv t index =
     (if ax_iv_size t = 0 then None
      else case checked_mul index (ax_iv_size t) of
        None \<Rightarrow> None
      | Some start \<Rightarrow>
          (case checked_add start (ax_iv_size t) of
             None \<Rightarrow> None
           | Some e \<Rightarrow> get_slice (ax_ivs t) start e))"

definition aux_subsamples :: "aux_table \<Rightarrow> nat \<Rightarrow> subsample list" where
  "aux_subsamples t index =
     (case (get_at (ax_sub_first t) index, get_at (ax_sub_first t) (saturating_add index 1)) of
        (Some first, Some e) \<Rightarrow>
          (case get_slice (ax_subsamples t) first e of None \<Rightarrow> [] | Some xs \<Rightarrow> xs)
      | _ \<Rightarrow> [])"

text \<open>A \<open>u32\<close> takes 4 bytes and a \<open>Subsample\<close> 8.\<close>

definition aux_bytes :: "aux_table \<Rightarrow> nat" where
  "aux_bytes t = length (ax_ivs t) + length (ax_sub_first t) * 4 + length (ax_subsamples t) * 8"

record source_protection =
  sp_scheme :: source_scheme
  sp_original_format :: bytes
  sp_key_id :: bytes
  sp_constant_iv :: "bytes option"
  sp_crypt_blocks :: nat
  sp_skip_blocks :: nat
  sp_aux :: aux_table

definition iv16 :: "bytes \<Rightarrow> bytes option" where
  "iv16 iv =
     (if length iv = 8 \<or> length iv = 16 then Some (iv @ replicate (16 - length iv) 0) else None)"

section \<open>Tracks\<close>

datatype track_kind = Audio | Video

record track_key =
  key_kind :: track_kind
  key_ordinal :: nat

definition VIDEO_KEY :: track_key where
  "VIDEO_KEY = \<lparr>key_kind = Video, key_ordinal = 1\<rparr>"

definition audio_key :: "nat \<Rightarrow> track_key" where
  "audio_key n = \<lparr>key_kind = Audio, key_ordinal = n\<rparr>"

definition display_key :: "track_key \<Rightarrow> string" where
  "display_key k =
     (case key_kind k of Video \<Rightarrow> ''video'' | Audio \<Rightarrow> ''audio-'' @ decimal (key_ordinal k))"

definition strip_prefix :: "string \<Rightarrow> string \<Rightarrow> string option" where
  "strip_prefix p text = (if take (length p) text = p then Some (drop (length p) text) else None)"

definition parse_key :: "string \<Rightarrow> track_key option" where
  "parse_key text =
     (if text = ''video'' then Some VIDEO_KEY
      else case strip_prefix ''audio-'' text of
        None \<Rightarrow> None
      | Some digits \<Rightarrow>
          (case parse_unsigned u16_limit digits of
             None \<Rightarrow> None
           | Some n \<Rightarrow>
               if n \<noteq> 0 \<and> display_key (audio_key n) = text then Some (audio_key n) else None))"

datatype codec_config =
    Avc (width: nat) (height: nat) (profile: nat) (compatibility: nat) (level: nat)
      (sequence_parameter_set: bytes) (picture_parameter_set: bytes)
  | Hevc (width: nat) (height: nat) (codec_string: string)
  | Vp9 (width: nat) (height: nat) (codec_string: string)
  | Av1 (width: nat) (height: nat) (codec_string: string)
  | Aac (sample_rate: nat) (channels: nat) (object_type: nat)
  | Ac3 (sample_rate: nat) (channels: nat)
  | Eac3 (sample_rate: nat) (channels: nat)
  | Opus (channels: nat)
  | Flac (sample_rate: nat) (channels: nat)

definition codecs :: "codec_config \<Rightarrow> string" where
  "codecs c =
     (case c of
        Avc _ _ p k l _ _ \<Rightarrow> ''avc1.'' @ hex2 p @ hex2 k @ hex2 l
      | Hevc _ _ s \<Rightarrow> s | Vp9 _ _ s \<Rightarrow> s | Av1 _ _ s \<Rightarrow> s
      | Aac _ _ t \<Rightarrow> ''mp4a.40.'' @ decimal t
      | Ac3 _ _ \<Rightarrow> ''ac-3'' | Eac3 _ _ \<Rightarrow> ''ec-3'' | Opus _ \<Rightarrow> ''opus'' | Flac _ _ \<Rightarrow> ''fLaC'')"

definition dimensions :: "codec_config \<Rightarrow> (nat \<times> nat) option" where
  "dimensions c =
     (case c of
        Avc w h _ _ _ _ _ \<Rightarrow> Some (w, h) | Hevc w h _ \<Rightarrow> Some (w, h) | Vp9 w h _ \<Rightarrow> Some (w, h)
      | Av1 w h _ \<Rightarrow> Some (w, h) | _ \<Rightarrow> None)"

definition audio_format :: "codec_config \<Rightarrow> (nat \<times> nat) option" where
  "audio_format c =
     (case c of
        Aac r n _ \<Rightarrow> Some (r, n) | Ac3 r n \<Rightarrow> Some (r, n) | Eac3 r n \<Rightarrow> Some (r, n)
      | Flac r n \<Rightarrow> Some (r, n) | Opus n \<Rightarrow> Some (48000, n) | _ \<Rightarrow> None)"

record track =
  tr_id :: nat
  tr_key :: track_key
  tr_kind :: track_kind
  tr_language :: string
  tr_timeline_shift :: nat
  tr_timescale :: nat
  tr_duration :: nat
  tr_codec :: codec_config
  tr_samples :: sample_index
  tr_source_protection :: "source_protection option"
  tr_label :: "string option"

record skipped_track =
  sk_id :: nat
  sk_handler :: string
  sk_reason :: string

record fragmentation =
  fg_fragments :: nat
  fg_discovery :: discovery
  fg_dropped_tail :: "dropped_tail option"

record media_index =
  mi_source :: source_identity
  mi_movie_timescale :: nat
  mi_duration :: nat
  mi_presentation_offset_ms :: nat
  mi_tracks :: "track list"
  mi_skipped_tracks :: "skipped_track list"
  mi_fragmentation :: "fragmentation option"

section \<open>Keys\<close>

definition key_wf :: "track_key \<Rightarrow> bool" where
  "key_wf k \<longleftrightarrow> (case key_kind k of Video \<Rightarrow> key_ordinal k = 1
     | Audio \<Rightarrow> 0 < key_ordinal k \<and> key_ordinal k < u16_limit)"

lemma parse_display_key: "key_wf k \<Longrightarrow> parse_key (display_key k) = Some k"
  by (cases k; cases "key_kind k")
     (auto simp: key_wf_def parse_key_def display_key_def strip_prefix_def VIDEO_KEY_def audio_key_def)

lemma parse_key_eq_Some: "parse_key text = Some k \<Longrightarrow> key_wf k \<and> text = display_key k"
  by (auto simp: parse_key_def key_wf_def VIDEO_KEY_def audio_key_def display_key_def strip_prefix_def
      split: if_splits option.splits dest: parse_unsigned_less)

section \<open>Tables of per-sample encryption data\<close>

lemma length_iv16: "iv16 iv = Some p \<Longrightarrow> length p = 16 \<and> take (length iv) p = iv"
  by (auto simp: iv16_def split: if_splits)

lemma aux_iv_length: "aux_iv t i = Some iv \<Longrightarrow> length iv = ax_iv_size t"
  by (auto simp: aux_iv_def get_slice_def split: if_splits option.splits)

section \<open>Properties\<close>

text \<open>
  One track has exactly one URL: a text names a key exactly when it is that key's own spelling,
  and the key is the video track's or an audio track's counted from one.
\<close>

theorem one_url_per_track:
  "parse_key text = Some k \<longleftrightarrow> key_wf k \<and> text = display_key k"
  using parse_display_key parse_key_eq_Some by auto

end
