(* ===== verification/Track_Selection.thy ===== *)
theory Track_Selection
  imports Media_Index "HOL-Library.Sublist"
begin

text \<open>
  Which tracks of a file are served: the \<^verbatim>\<open>tracks\<close> selector of \<^verbatim>\<open>src/src/media/selection.rs\<close>.
\<close>

datatype pick = PickNothing | PickAll | PickNth nat

record track_selection =
  ts_video :: pick
  ts_audio :: pick

definition selection_max_bytes :: nat where
  "selection_max_bytes = 32"

text \<open>\<open>str::split\<close> at a character, and \<open>split_at_checked(1)\<close>, which needs a character boundary.\<close>

fun split_on :: "char \<Rightarrow> string \<Rightarrow> string list" where
  "split_on d [] = [ [] ]"
| "split_on d (c # cs) =
     (if c = d then [] # split_on d cs
      else case split_on d cs of [] \<Rightarrow> [ [c] ] | p # ps \<Rightarrow> (c # p) # ps)"

definition is_boundary :: "char \<Rightarrow> bool" where
  "is_boundary c \<longleftrightarrow> \<not> (128 \<le> (of_char c :: nat) \<and> (of_char c :: nat) < 192)"

definition split_first :: "string \<Rightarrow> (char \<times> string) option" where
  "split_first part =
     (case part of [] \<Rightarrow> None
      | c # rest \<Rightarrow> if rest = [] \<or> is_boundary (hd rest) then Some (c, rest) else None)"

definition invalid_selection :: string where
  "invalid_selection = ''tracks must look like v1, a2, v1-a1, or v0-a0 (at most 32 bytes)''"

fun parse_parts :: "string \<Rightarrow> track_selection \<Rightarrow> string list \<Rightarrow> string + track_selection" where
  "parse_parts text s [] = Inr s"
| "parse_parts text s (part # parts) =
     (case split_first part of
        None \<Rightarrow> Inl invalid_selection
      | Some (kind, digits) \<Rightarrow>
          if digits = [] \<or> 3 < length digits \<or> \<not> list_all is_digit digits then Inl invalid_selection
          else case parse_unsigned u8_limit digits of
            None \<Rightarrow> Inl invalid_selection
          | Some number \<Rightarrow>
              let pck = (if number = 0 then PickAll else PickNth number) in
              if kind = CHR ''v'' then
                (if ts_video s \<noteq> PickNothing
                 then Inl (''tracks names the same kind of track twice ('' @ text @ '')'')
                 else parse_parts text (s\<lparr>ts_video := pck\<rparr>) parts)
              else if kind = CHR ''a'' then
                (if ts_audio s \<noteq> PickNothing
                 then Inl (''tracks names the same kind of track twice ('' @ text @ '')'')
                 else parse_parts text (s\<lparr>ts_audio := pck\<rparr>) parts)
              else Inl invalid_selection)"

definition parse_selection :: "string \<Rightarrow> string + track_selection" where
  "parse_selection text =
     (if text = [] \<or> selection_max_bytes < length text then Inl invalid_selection
      else parse_parts text \<lparr>ts_video = PickNothing, ts_audio = PickNothing\<rparr> (split_on (CHR ''-'') text))"

definition selection_part :: "char \<Rightarrow> pick \<Rightarrow> string option" where
  "selection_part letter p =
     (case p of PickNothing \<Rightarrow> None | PickAll \<Rightarrow> Some (letter # ''0'')
      | PickNth n \<Rightarrow> Some (letter # decimal n))"

fun join_with :: "string \<Rightarrow> string list \<Rightarrow> string" where
  "join_with sep [] = []"
| "join_with sep [p] = p"
| "join_with sep (p # q # ps) = p @ sep @ join_with sep (q # ps)"

definition canonical_selection :: "track_selection \<Rightarrow> string" where
  "canonical_selection s =
     join_with ''-'' (List.map_filter id
       [selection_part (CHR ''v'') (ts_video s), selection_part (CHR ''a'') (ts_audio s)])"

text \<open>The filter's two counters are \<open>u16\<close>.\<close>

fun keep_tracks :: "track_selection \<Rightarrow> nat \<Rightarrow> nat \<Rightarrow> track list \<Rightarrow> track list" where
  "keep_tracks s videos audios [] = []"
| "keep_tracks s videos audios (t # ts) =
     (case tr_kind t of
        Video \<Rightarrow>
          let seen = (videos + 1) mod u16_limit;
              kept = (case ts_video s of PickNothing \<Rightarrow> False | PickAll \<Rightarrow> True | PickNth n \<Rightarrow> seen = n)
          in (if kept then [t] else []) @ keep_tracks s seen audios ts
      | Audio \<Rightarrow>
          let seen = (audios + 1) mod u16_limit;
              kept = (case ts_audio s of PickNothing \<Rightarrow> False | PickAll \<Rightarrow> True | PickNth n \<Rightarrow> seen = n)
          in (if kept then [t] else []) @ keep_tracks s videos seen ts)"

fun number_tracks :: "nat \<Rightarrow> track list \<Rightarrow> track list" where
  "number_tracks audio [] = []"
| "number_tracks audio (t # ts) =
     (case tr_kind t of
        Video \<Rightarrow> t\<lparr>tr_key := VIDEO_KEY\<rparr> # number_tracks audio ts
      | Audio \<Rightarrow>
          let n = (audio + 1) mod u16_limit in t\<lparr>tr_key := audio_key n\<rparr> # number_tracks n ts)"

definition apply_selection :: "track_selection \<Rightarrow> track list \<Rightarrow> track list res" where
  "apply_selection s tracks =
     (let kept = keep_tracks s 0 0 tracks in
      if kept = []
      then fail (InvalidMedia (''tracks `'' @ canonical_selection s @ ''` selects no track of this file''))
      else ok (number_tracks 0 kept))"

record audio_overrides =
  ao_language :: "string option"
  ao_label :: "string option"
  ao_default :: bool

definition overrides_is_empty :: "audio_overrides \<Rightarrow> bool" where
  "overrides_is_empty o' \<longleftrightarrow> ao_language o' = None \<and> ao_label o' = None \<and> \<not> ao_default o'"

section \<open>The canonical spelling\<close>

definition pick_wf :: "pick \<Rightarrow> bool" where
  "pick_wf p \<longleftrightarrow> (case p of PickNth n \<Rightarrow> 0 < n \<and> n < u8_limit | _ \<Rightarrow> True)"

definition selection_wf :: "track_selection \<Rightarrow> bool" where
  "selection_wf s \<longleftrightarrow> pick_wf (ts_video s) \<and> pick_wf (ts_audio s)
     \<and> (ts_video s \<noteq> PickNothing \<or> ts_audio s \<noteq> PickNothing)"

lemma decimal_short: "n < 1000 \<Longrightarrow> length (decimal n) \<le> 3"
proof -
  have two: "length (decimal m) \<le> 2" if "m < 100" for m
    using that by (subst decimal.simps) (auto simp: decimal.simps [of "m div 10"])
  assume "n < 1000"
  then show ?thesis using two [of "n div 10"] by (subst decimal.simps) auto
qed

lemma split_on_append:
  "d \<notin> set p \<Longrightarrow> split_on d (p @ d # rest) = p # split_on d rest"
  by (induction p) auto

lemma split_on_none: "d \<notin> set p \<Longrightarrow> split_on d p = [p]"
  by (induction p) auto

lemma digit_not_dash: "list_all is_digit ds \<Longrightarrow> CHR ''-'' \<notin> set ds"
  by (auto simp: list_all_iff is_digit_def)

lemma digit_boundary: "is_digit c \<Longrightarrow> is_boundary c"
  unfolding is_digit_def is_boundary_def by linarith

definition pick_digits :: "pick \<Rightarrow> string" where
  "pick_digits p = (case p of PickNth n \<Rightarrow> decimal n | _ \<Rightarrow> ''0'')"

lemma pick_digits_props:
  assumes "pick_wf p" "p \<noteq> PickNothing"
  shows "pick_digits p \<noteq> []" "length (pick_digits p) \<le> 3" "list_all is_digit (pick_digits p)"
    "parse_unsigned u8_limit (pick_digits p) = Some (case p of PickNth n \<Rightarrow> n | _ \<Rightarrow> 0)"
    "selection_part c p = Some (c # pick_digits p)"
proof -
  have zero: "''0'' = decimal 0" by code_simp
  show "pick_digits p \<noteq> []" "length (pick_digits p) \<le> 3" "list_all is_digit (pick_digits p)"
    "parse_unsigned u8_limit (pick_digits p) = Some (case p of PickNth n \<Rightarrow> n | _ \<Rightarrow> 0)"
    "selection_part c p = Some (c # pick_digits p)"
    using assms decimal_digits decimal_short
    by (auto simp: pick_wf_def pick_digits_def selection_part_def zero split: pick.splits)
qed

lemma split_first_part:
  "pick_wf p \<Longrightarrow> p \<noteq> PickNothing \<Longrightarrow> split_first (c # pick_digits p) = Some (c, pick_digits p)"
  using pick_digits_props(1,3) [of p] digit_boundary
  by (cases "pick_digits p") (auto simp: split_first_def)

lemma parse_part:
  assumes "pick_wf p" "p \<noteq> PickNothing"
  shows "ts_video s = PickNothing \<Longrightarrow> parse_parts text s ((CHR ''v'' # pick_digits p) # parts)
      = parse_parts text (s\<lparr>ts_video := p\<rparr>) parts"
    "ts_audio s = PickNothing \<Longrightarrow> parse_parts text s ((CHR ''a'' # pick_digits p) # parts)
      = parse_parts text (s\<lparr>ts_audio := p\<rparr>) parts"
  using assms split_first_part [OF assms] pick_digits_props(1-4) [OF assms]
  by (cases p; simp add: pick_wf_def)+

lemma parse_canonical:
  assumes "selection_wf s"
  shows "parse_selection (canonical_selection s) = Inr s"
proof -
  obtain v a where s: "s = \<lparr>ts_video = v, ts_audio = a\<rparr>" by (cases s)
  have wf: "pick_wf v" "pick_wf a" "v \<noteq> PickNothing \<or> a \<noteq> PickNothing"
    using assms by (auto simp: selection_wf_def s)
  have dash: "p \<noteq> PickNothing \<Longrightarrow> pick_wf p \<Longrightarrow> c \<noteq> CHR ''-'' \<Longrightarrow> CHR ''-'' \<notin> set (c # pick_digits p)" for p c
    using digit_not_dash pick_digits_props(3) by auto
  have part: "p \<noteq> PickNothing \<Longrightarrow> pick_wf p \<Longrightarrow> selection_part c p = Some (c # pick_digits p)" for p c
    using pick_digits_props(5) by blast
  have short: "p \<noteq> PickNothing \<Longrightarrow> pick_wf p \<Longrightarrow> length (pick_digits p) \<le> 3" for p
    using pick_digits_props(2) by blast
  consider "v \<noteq> PickNothing" "a \<noteq> PickNothing" | "v \<noteq> PickNothing" "a = PickNothing"
    | "v = PickNothing" "a \<noteq> PickNothing" using wf(3) by blast
  then show ?thesis
  proof cases
    case 1
    have spelt: "canonical_selection s = (CHR ''v'' # pick_digits v) @ CHR ''-'' # (CHR ''a'' # pick_digits a)"
      using 1 wf part by (simp add: canonical_selection_def s map_filter_simps)
    have "split_on (CHR ''-'') (canonical_selection s) = [CHR ''v'' # pick_digits v, CHR ''a'' # pick_digits a]"
      unfolding spelt
      using split_on_append [OF dash [of v "CHR ''v''"], of "CHR ''a'' # pick_digits a"]
        split_on_none [OF dash [of a "CHR ''a''"]] 1 wf by simp
    then show ?thesis
      using 1 wf short [of v] short [of a] parse_part
      by (simp add: parse_selection_def selection_max_bytes_def s) (simp add: spelt [unfolded s])
  next
    case 2
    have spelt: "canonical_selection s = CHR ''v'' # pick_digits v"
      using 2 wf part by (simp add: canonical_selection_def s map_filter_simps selection_part_def [of _ PickNothing])
    then show ?thesis
      using 2 wf short [of v] parse_part split_on_none [OF dash [of v "CHR ''v''"]]
      by (simp add: parse_selection_def selection_max_bytes_def s)
  next
    case 3
    have spelt: "canonical_selection s = CHR ''a'' # pick_digits a"
      using 3 wf part by (simp add: canonical_selection_def s map_filter_simps selection_part_def [of _ PickNothing])
    then show ?thesis
      using 3 wf short [of a] parse_part split_on_none [OF dash [of a "CHR ''a''"]]
      by (simp add: parse_selection_def selection_max_bytes_def s)
  qed
qed

lemma parse_parts_wf:
  "parse_parts text s parts = Inr s' \<Longrightarrow> pick_wf (ts_video s) \<Longrightarrow> pick_wf (ts_audio s) \<Longrightarrow>
     parts \<noteq> [] \<or> ts_video s \<noteq> PickNothing \<or> ts_audio s \<noteq> PickNothing \<Longrightarrow> selection_wf s'"
proof (induction parts arbitrary: s)
  case Nil
  then show ?case by (simp add: selection_wf_def)
next
  case (Cons part parts)
  obtain kind digits where f: "split_first part = Some (kind, digits)"
    using Cons.prems(1) by (cases "split_first part") auto
  obtain number where p: "parse_unsigned u8_limit digits = Some number"
    using Cons.prems(1) f by (cases "parse_unsigned u8_limit digits") (auto split: if_splits)
  have step: "parse_parts text (if kind = CHR ''v''
        then s\<lparr>ts_video := if number = 0 then PickAll else PickNth number\<rparr>
        else s\<lparr>ts_audio := if number = 0 then PickAll else PickNth number\<rparr>) parts = Inr s'"
    using Cons.prems(1) f p by (auto split: if_splits)
  have "pick_wf (if number = 0 then PickAll else PickNth number)"
    using parse_unsigned_less [OF p] by (simp add: pick_wf_def)
  then show ?case
    using Cons.IH [OF step] Cons.prems by (auto split: if_splits)
qed

lemma split_on_nonempty [simp]: "split_on d s \<noteq> []"
  by (induction s) (auto split: list.splits)

lemma parse_selection_wf: "parse_selection text = Inr s \<Longrightarrow> selection_wf s"
  using parse_parts_wf [of "text" "\<lparr>ts_video = PickNothing, ts_audio = PickNothing\<rparr>"]
  by (auto simp: parse_selection_def pick_wf_def split: if_splits)

section \<open>Applying a selection\<close>

lemma keep_tracks_subseq: "subseq (keep_tracks s v a ts) ts"
  by (induction s v a ts rule: keep_tracks.induct) (auto split: track_kind.splits)

lemma length_number_tracks [simp]: "length (number_tracks n ts) = length ts"
  by (induction n ts rule: number_tracks.induct) (auto split: track_kind.splits)

lemma number_tracks_same:
  "map (\<lambda>t. t\<lparr>tr_key := VIDEO_KEY\<rparr>) (number_tracks n ts) = map (\<lambda>t. t\<lparr>tr_key := VIDEO_KEY\<rparr>) ts"
  by (induction n ts rule: number_tracks.induct) (auto split: track_kind.splits)

lemma number_tracks_keys:
  "n + length ts < u16_limit \<Longrightarrow>
     map tr_key (filter (\<lambda>t. tr_kind t = Audio) (number_tracks n ts))
       = map audio_key [Suc n..<Suc (n + length (filter (\<lambda>t. tr_kind t = Audio) ts))]
     \<and> (\<forall>t \<in> set (number_tracks n ts). tr_kind t = Video \<longrightarrow> tr_key t = VIDEO_KEY)"
proof (induction n ts rule: number_tracks.induct)
  case (2 n t ts)
  show ?case
  proof (cases "tr_kind t")
    case Audio
    then show ?thesis using 2 by (simp add: upt_conv_Cons del: upt_Suc)
  next
    case Video
    then show ?thesis using 2 by simp
  qed
qed simp

section \<open>Properties\<close>

text \<open>
  A selector that is read denotes a well-formed selection, and the canonical spelling written
  for it is read back as the same selection.
\<close>

theorem selector_roundtrip:
  assumes "parse_selection text = Inr s"
  shows "parse_selection (canonical_selection s) = Inr s"
  using parse_canonical [OF parse_selection_wf [OF assms]] .

theorem selector_roundtrip_witness:
  "parse_selection (canonical_selection \<lparr>ts_video = PickAll, ts_audio = PickNth 12\<rparr>)
     = Inr \<lparr>ts_video = PickAll, ts_audio = PickNth 12\<rparr>"
  by (rule selector_roundtrip [of "''a012-v0''"]) code_simp

text \<open>
  Applying a selection keeps some of the tracks in their order and changes nothing but their
  keys: the audio tracks left are numbered from one without a gap.  It fails only when nothing is left.
\<close>

theorem selection_applies:
  assumes "length tracks < u16_limit"
  shows "case apply_selection s tracks of
     Inl f \<Rightarrow> (\<exists>m. f = Fail (InvalidMedia m)) \<and> keep_tracks s 0 0 tracks = []
   | Inr kept \<Rightarrow> kept \<noteq> []
       \<and> (\<exists>ts. subseq ts tracks \<and> map (\<lambda>t. t\<lparr>tr_key := VIDEO_KEY\<rparr>) kept = map (\<lambda>t. t\<lparr>tr_key := VIDEO_KEY\<rparr>) ts)
       \<and> map tr_key (filter (\<lambda>t. tr_kind t = Audio) kept)
           = map audio_key [1..<Suc (length (filter (\<lambda>t. tr_kind t = Audio) kept))]"
proof (cases "keep_tracks s 0 0 tracks = []")
  case False
  let ?kept = "keep_tracks s 0 0 tracks"
  have sub: "subseq ?kept tracks" by (rule keep_tracks_subseq)
  then have "length ?kept < u16_limit" using list_emb_length [OF sub] assms by simp
  then have keys: "map tr_key (filter (\<lambda>t. tr_kind t = Audio) (number_tracks 0 ?kept))
       = map audio_key [1..<Suc (length (filter (\<lambda>t. tr_kind t = Audio) ?kept))]"
    using number_tracks_keys [of 0 ?kept] by (simp del: upt_Suc)
  have "length (map tr_key (filter (\<lambda>t. tr_kind t = Audio) (number_tracks 0 ?kept)))
      = length (filter (\<lambda>t. tr_kind t = Audio) ?kept)"
    unfolding keys by (simp del: upt_Suc)
  then have "length (filter (\<lambda>t. tr_kind t = Audio) ?kept)
      = length (filter (\<lambda>t. tr_kind t = Audio) (number_tracks 0 ?kept))" by simp
  moreover have "number_tracks 0 ?kept \<noteq> []" using False length_number_tracks [of 0 ?kept] by fastforce
  ultimately show ?thesis
    using False sub keys number_tracks_same [of 0 ?kept]
    by (auto simp: apply_selection_def simp del: upt_Suc)
qed (simp add: apply_selection_def)

definition example_track :: "nat \<Rightarrow> track_kind \<Rightarrow> track" where
  "example_track n k = \<lparr>tr_id = n, tr_key = VIDEO_KEY, tr_kind = k, tr_language = ''und'',
     tr_timeline_shift = 0, tr_timescale = 1000, tr_duration = 0, tr_codec = Aac 48000 2 2,
     tr_samples = index_new tables_default, tr_source_protection = None, tr_label = None\<rparr>"

theorem selection_applies_witness:
  "case apply_selection \<lparr>ts_video = PickNothing, ts_audio = PickNth 2\<rparr>
        [example_track 1 Video, example_track 2 Audio, example_track 3 Audio] of
     Inl f \<Rightarrow> (\<exists>m. f = Fail (InvalidMedia m)) \<and> keep_tracks \<lparr>ts_video = PickNothing, ts_audio = PickNth 2\<rparr>
        0 0 [example_track 1 Video, example_track 2 Audio, example_track 3 Audio] = []
   | Inr kept \<Rightarrow> kept \<noteq> []
       \<and> (\<exists>ts. subseq ts [example_track 1 Video, example_track 2 Audio, example_track 3 Audio]
            \<and> map (\<lambda>t. t\<lparr>tr_key := VIDEO_KEY\<rparr>) kept = map (\<lambda>t. t\<lparr>tr_key := VIDEO_KEY\<rparr>) ts)
       \<and> map tr_key (filter (\<lambda>t. tr_kind t = Audio) kept)
           = map audio_key [1..<Suc (length (filter (\<lambda>t. tr_kind t = Audio) kept))]"
  by (rule selection_applies) simp

end
