(* ===== verification/Segment_Planner.thy ===== *)
theory Segment_Planner
  imports Media_Index Config_Limits
begin

text \<open>
  The segment planner (\<^verbatim>\<open>src/src/segment/planner.rs\<close>): where the reference track is cut, and what
  of every other audio track belongs to each segment.
\<close>

record track_segment =
  sg_track_id :: nat
  sg_first_sample :: nat
  sg_end_sample :: nat
  sg_decode_time :: nat
  sg_duration :: nat

record segment =
  se_index :: nat
  se_tracks :: "track_segment list"

type_synonym segment_plan = "segment list"

definition planner_rescale :: "nat \<Rightarrow> nat \<Rightarrow> nat \<Rightarrow> nat res" where
  "planner_rescale v from_timescale to_timescale =
     ok_or (case checked_mul v to_timescale of None \<Rightarrow> None
            | Some scaled \<Rightarrow> checked_div scaled from_timescale)
       (InvalidMedia ''timestamp rescaling overflow'')"

definition track_end :: "track \<Rightarrow> nat res" where
  "track_end t =
     and_then (index_last (tr_samples t)) (\<lambda>x.
     and_then (ok_or x (InvalidMedia ''track contains no samples'')) (\<lambda>l.
       ok_or (checked_add (sm_decode_time l) (sm_duration l))
         (InvalidMedia ''track duration overflow'')))"

text \<open>The loop over a track where any sample can start a segment, after the cut \<open>current\<close>.\<close>

function jump_boundaries :: "sample_index \<Rightarrow> nat \<Rightarrow> nat \<Rightarrow> nat \<Rightarrow> nat list res" where
  "jump_boundaries s target_ticks current target =
     and_then (index_partition_by_decode_time s target) (\<lambda>p.
     let nxt = max p (current + 1) in
     if index_len s \<le> nxt then ok []
     else
       and_then (index_decode_time s nxt) (\<lambda>time.
       and_then (jump_boundaries s target_ticks nxt (saturating_add time target_ticks)) (\<lambda>rest.
         ok (nxt # rest))))"
  by pat_completeness auto
termination
  by (relation "measure (\<lambda>(s, ticks, current, target). index_len s - current)") auto

declare jump_boundaries.simps [simp del]

text \<open>The pass over the sync samples after the first.\<close>

fun sync_boundaries :: "sample_index \<Rightarrow> nat \<Rightarrow> nat \<Rightarrow> nat list \<Rightarrow> nat list res" where
  "sync_boundaries s target_ticks target [] = ok []"
| "sync_boundaries s target_ticks target (nxt # syncs) =
     and_then (index_decode_time s nxt) (\<lambda>time.
     if target \<le> time
     then and_then (sync_boundaries s target_ticks (saturating_add time target_ticks) syncs) (\<lambda>rest.
            ok (nxt # rest))
     else sync_boundaries s target_ticks target syncs)"

definition reference_boundaries :: "track \<Rightarrow> nat \<Rightarrow> nat list res" where
  "reference_boundaries reference target_ticks =
     (let s = tr_samples reference in
      and_then (index_decode_time s 0) (\<lambda>first_time.
      let target = saturating_add first_time target_ticks in
      and_then
        (if every_sample_is_sync s then jump_boundaries s target_ticks 0 target
         else and_then (sync_indices s) (\<lambda>syncs.
                sync_boundaries s target_ticks target (filter (\<lambda>i. 0 < i) syncs))) (\<lambda>cuts.
        ok (0 # cuts @ [index_len s]))))"

definition audio_segment :: "track \<Rightarrow> track \<Rightarrow> nat \<Rightarrow> nat \<Rightarrow> bool \<Rightarrow> track_segment res" where
  "audio_segment audio video video_start video_end is_final_segment =
     (let s = tr_samples audio in
      and_then (planner_rescale video_start (tr_timescale video) (tr_timescale audio)) (\<lambda>start.
      and_then (planner_rescale video_end (tr_timescale video) (tr_timescale audio)) (\<lambda>e.
      and_then (index_partition_by_decode_time s start) (\<lambda>first_sample.
      and_then (if is_final_segment then ok (index_len s) else index_partition_by_decode_time s e)
        (\<lambda>end_sample.
      and_then (if first_sample < index_len s then index_decode_time s first_sample else ok start)
        (\<lambda>decode_time.
      and_then (if end_sample = index_len s then track_end audio else index_decode_time s end_sample)
        (\<lambda>actual_end.
        ok \<lparr>sg_track_id = tr_id audio, sg_first_sample = first_sample, sg_end_sample = end_sample,
            sg_decode_time = decode_time, sg_duration = actual_end - decode_time\<rparr>)))))))"

text \<open>The loop over the tracks that follow the reference: one that has ended is left out.\<close>

definition follow_step ::
    "track \<Rightarrow> nat \<Rightarrow> nat \<Rightarrow> bool \<Rightarrow> track_segment list \<Rightarrow> track \<Rightarrow> track_segment list res" where
  "follow_step reference decode_time end_time is_final parts audio =
     and_then (audio_segment audio reference decode_time end_time is_final) (\<lambda>part.
       ok (if sg_first_sample part = index_len (tr_samples audio) then parts else parts @ [part]))"

definition plan_segment ::
    "track \<Rightarrow> track list \<Rightarrow> nat \<Rightarrow> limits \<Rightarrow> nat \<times> nat \<times> nat \<Rightarrow> segment res" where
  "plan_segment reference followers reference_end l = (\<lambda>(segment_index, first_sample, end_sample).
     let s = tr_samples reference in
     and_then (index_decode_time s first_sample) (\<lambda>decode_time.
     and_then (if end_sample = index_len s then ok reference_end else index_decode_time s end_sample)
       (\<lambda>end_time.
     and_then (ok_or (checked_sub end_time decode_time)
                (InvalidMedia ''samples are not in decode order'')) (\<lambda>duration.
     and_then (try_fold (follow_step reference decode_time end_time (end_sample = index_len s))
                [\<lparr>sg_track_id = tr_id reference, sg_first_sample = first_sample,
                  sg_end_sample = end_sample, sg_decode_time = decode_time, sg_duration = duration\<rparr>]
                followers) (\<lambda>tracks.
     if \<exists>t \<in> set tracks. max_samples_per_segment l < wsub64 (sg_end_sample t) (sg_first_sample t)
     then fail (InvalidMedia ''segment sample count exceeds configured limit'')
     else
       and_then (ok_or (u32_of_nat segment_index) (InvalidMedia ''segment index overflow'')) (\<lambda>i.
         ok \<lparr>se_index = i, se_tracks = tracks\<rparr>))))))"

definition plan :: "media_index \<Rightarrow> nat \<Rightarrow> limits \<Rightarrow> segment_plan res" where
  "plan index target_duration_ms l =
     (let video_tracks = filter (\<lambda>t. tr_kind t = Video) (mi_tracks index);
          audio_tracks = filter (\<lambda>t. tr_kind t = Audio) (mi_tracks index)
      in
      if 1 < length video_tracks
      then fail (Unsupported (''input must contain at most one video track, found ''
                  @ decimal (length video_tracks)))
      else
        and_then
          (ok_or (case get_at video_tracks 0 of Some v \<Rightarrow> Some v | None \<Rightarrow> get_at audio_tracks 0)
            (Unsupported ''input has no audio or video track'')) (\<lambda>reference.
        let followers = filter (\<lambda>t. tr_id t \<noteq> tr_id reference) audio_tracks in
        and_then
          (if index_is_empty (tr_samples reference) then ok True
           else and_then (nth_sync (tr_samples reference) 0) (\<lambda>n. ok (n \<noteq> Some 0))) (\<lambda>bad_start.
        if bad_start then fail (InvalidMedia ''the first track must begin with a sync sample'')
        else
          and_then
            (ok_or (case checked_mul target_duration_ms (tr_timescale reference) of
                      None \<Rightarrow> None
                    | Some d \<Rightarrow> if d div 1000 \<noteq> 0 then Some (d div 1000) else None)
              (InvalidMedia ''invalid target segment duration'')) (\<lambda>target_ticks.
          and_then (reference_boundaries reference target_ticks) (\<lambda>boundaries.
          and_then (track_end reference) (\<lambda>reference_end.
            collect_res (map (plan_segment reference followers reference_end l)
              (zip [0..<length boundaries] (zip boundaries (tl boundaries))))))))))"

section \<open>Where the reference is cut\<close>

text \<open>
  The rule: after a cut, the next one is at the first sync sample at or after the target.  As a
  function of the samples alone, over the positions where a cut is allowed.
\<close>

fun spec_cuts :: "sample list \<Rightarrow> nat \<Rightarrow> nat \<Rightarrow> nat list \<Rightarrow> nat list" where
  "spec_cuts xs ticks target [] = []"
| "spec_cuts xs ticks target (i # is) =
     (if target \<le> sm_decode_time (xs ! i)
      then i # spec_cuts xs ticks (saturating_add (sm_decode_time (xs ! i)) ticks) is
      else spec_cuts xs ticks target is)"

lemma sync_boundaries_eq:
  assumes "index_wf s" "\<forall>i \<in> set is. i < index_len s"
  shows "sync_boundaries s ticks target is = ok (spec_cuts (index_samples s) ticks target is)"
  using assms(2)
  by (induction "is" arbitrary: target)
     (simp_all add: index_decode_time_ok [OF assms(1)] del: nth_index_samples)

lemma spec_cuts_skip:
  "\<forall>i \<in> set is. sm_decode_time (xs ! i) < target \<Longrightarrow> spec_cuts xs ticks target (is @ js) = spec_cuts xs ticks target js"
  by (induction "is") auto

lemma jump_boundaries_eq:
  assumes "index_valid s" "current < index_len s"
  shows "jump_boundaries s ticks current target =
     ok (spec_cuts (index_samples s) ticks target [current + 1..<index_len s])"
  using assms(2)
proof (induction "index_len s - current" arbitrary: current target rule: less_induct)
  case less
  obtain p where p: "index_partition_by_decode_time s target = ok p" "p \<le> index_len s"
    using si.search_total [OF assms(1)] by blast
  note split = si.search_splits(2) [OF assms(1) p(1)]
  define nxt where "nxt = max p (current + 1)"
  have n: "current < nxt" "p \<le> nxt" by (auto simp: nxt_def)
  have below: "sm_decode_time (index_samples s ! i) < target" if "current < i" "i < nxt" for i
  proof -
    have "i < p" using that by (auto simp: nxt_def)
    then show ?thesis using split [of i] p(2) by (metis order_less_le_trans)
  qed
  have step: "jump_boundaries s ticks current target = (if index_len s \<le> nxt then ok []
     else and_then (index_decode_time s nxt) (\<lambda>time.
       and_then (jump_boundaries s ticks nxt (saturating_add time ticks)) (\<lambda>rest. ok (nxt # rest))))"
    using p(1) by (subst jump_boundaries.simps) (simp add: nxt_def)
  show ?case
  proof (cases "index_len s \<le> nxt")
    case True
    then have "spec_cuts (index_samples s) ticks target ([current + 1..<index_len s] @ []) = []"
      using below by (subst spec_cuts_skip) (auto simp del: nth_index_samples)
    then show ?thesis using True step by simp
  next
    case False
    then have lt: "nxt < index_len s" by simp
    have "[current + 1..<index_len s] = [current + 1..<nxt] @ nxt # [nxt + 1..<index_len s]"
      using upt_add_eq_append [of "current + 1" nxt "index_len s - nxt"] n lt by (simp add: upt_conv_Cons)
    then have skip: "spec_cuts (index_samples s) ticks target [current + 1..<index_len s]
        = spec_cuts (index_samples s) ticks target (nxt # [nxt + 1..<index_len s])"
      using below by (simp add: spec_cuts_skip del: nth_index_samples)
    have time: "index_decode_time s nxt = ok (sm_decode_time (index_samples s ! nxt))"
      using index_decode_time_ok assms(1) lt by (simp add: index_valid_def)
    have "target \<le> sm_decode_time (index_samples s ! nxt)"
      using split [OF lt] n(2) by linarith
    moreover have "jump_boundaries s ticks nxt (saturating_add (sm_decode_time (index_samples s ! nxt)) ticks)
        = ok (spec_cuts (index_samples s) ticks
             (saturating_add (sm_decode_time (index_samples s ! nxt)) ticks) [nxt + 1..<index_len s])"
      using lt n less.prems by (intro less.hyps) auto
    ultimately show ?thesis
      unfolding skip using step time False by (simp del: nth_index_samples upt_Suc)
  qed
qed

definition spec_boundaries :: "sample list \<Rightarrow> nat \<Rightarrow> nat list" where
  "spec_boundaries xs ticks =
     0 # spec_cuts xs ticks (saturating_add (sm_decode_time (xs ! 0)) ticks)
           (filter (\<lambda>i. 0 < i) (sync_positions xs)) @ [length xs]"

theorem reference_boundaries_eq:
  assumes "index_valid (tr_samples t)" "0 < index_len (tr_samples t)"
  shows "reference_boundaries t ticks = ok (spec_boundaries (index_samples (tr_samples t)) ticks)"
proof -
  let ?s = "tr_samples t"
  have wf: "index_wf ?s" using assms(1) by (simp add: index_valid_def)
  have syncs: "sync_indices ?s = ok (sync_positions (index_samples ?s))" by (rule sync_indices_ok [OF wf])
  have "(if every_sample_is_sync ?s then jump_boundaries ?s ticks 0 target
       else and_then (sync_indices ?s) (\<lambda>syncs. sync_boundaries ?s ticks target (filter (\<lambda>i. 0 < i) syncs)))
     = ok (spec_cuts (index_samples ?s) ticks target (filter (\<lambda>i. 0 < i) (sync_positions (index_samples ?s))))"
    for target
  proof (cases "every_sample_is_sync ?s")
    case True
    then have "sync_positions (index_samples ?s) = [0..<index_len ?s]"
      using si.syncs_all [OF assms(1)] syncs by simp
    moreover have "filter (\<lambda>i. 0 < i) [0..<index_len ?s] = [1..<index_len ?s]"
      using assms(2) by (simp add: upt_conv_Cons filter_id_conv)
    ultimately show ?thesis
      using True jump_boundaries_eq [OF assms] by simp
  next
    case False
    have "\<forall>i \<in> set (filter (\<lambda>i. 0 < i) (sync_positions (index_samples ?s))). i < index_len ?s"
      by (auto simp: sync_positions_def)
    then show ?thesis using False syncs sync_boundaries_eq [OF wf] by simp
  qed
  then show ?thesis
    using index_decode_time_ok [OF wf assms(2)]
    by (simp add: reference_boundaries_def spec_boundaries_def del: nth_index_samples)
qed

end
