(* ===== verification/Segment_Planner_Laws.thy ===== *)
theory Segment_Planner_Laws
  imports Segment_Planner
begin

text \<open>
  What the planner promises: the reference track is cut greedily at sync samples and its segments
  tile it; every other track is cut at the same instants, without a gap or an overlap.
\<close>

section \<open>The cuts\<close>

definition sat_target :: "sample list \<Rightarrow> nat \<Rightarrow> nat \<Rightarrow> nat" where
  "sat_target xs ticks i = saturating_add (sm_decode_time (xs ! i)) ticks"

text \<open>\<open>b\<close> is the first allowed position after \<open>a\<close> that reaches the target counted from \<open>a\<close>.\<close>

definition next_cut :: "sample list \<Rightarrow> nat \<Rightarrow> nat list \<Rightarrow> nat \<Rightarrow> nat \<Rightarrow> bool" where
  "next_cut xs ticks allowed a b \<longleftrightarrow> a < b \<and> b \<in> set allowed \<and> sat_target xs ticks a \<le> sm_decode_time (xs ! b)
     \<and> (\<forall>j \<in> set allowed. a < j \<and> j < b \<longrightarrow> sm_decode_time (xs ! j) < sat_target xs ticks a)"

lemma spec_cuts_greedy:
  assumes "allowed = pre @ is" "sorted_wrt (<) allowed" "\<forall>i \<in> set is. c < i"
    and "\<forall>j \<in> set pre. c < j \<longrightarrow> sm_decode_time (xs ! j) < sat_target xs ticks c"
  shows "successively (next_cut xs ticks allowed) (c # spec_cuts xs ticks (sat_target xs ticks c) is)"
    "\<forall>j \<in> set allowed. last (c # spec_cuts xs ticks (sat_target xs ticks c) is) < j \<longrightarrow>
       sm_decode_time (xs ! j) < sat_target xs ticks (last (c # spec_cuts xs ticks (sat_target xs ticks c) is))"
    "set (spec_cuts xs ticks (sat_target xs ticks c) is) \<subseteq> set is"
  using assms
proof (induction "is" arbitrary: pre c)
  case Nil
  {
    case 1
    then show ?case by simp
  next
    case 2
    then show ?case by simp
  next
    case 3
    then show ?case by simp
  }
next
  case (Cons i "is")
  have goal: "successively (next_cut xs ticks allowed) (c # spec_cuts xs ticks (sat_target xs ticks c) (i # is))
    \<and> (\<forall>j \<in> set allowed. last (c # spec_cuts xs ticks (sat_target xs ticks c) (i # is)) < j \<longrightarrow>
       sm_decode_time (xs ! j) < sat_target xs ticks (last (c # spec_cuts xs ticks (sat_target xs ticks c) (i # is))))
    \<and> set (spec_cuts xs ticks (sat_target xs ticks c) (i # is)) \<subseteq> set (i # is)"
    if prems: "allowed = pre @ i # is" "sorted_wrt (<) allowed" "\<forall>k \<in> set (i # is). c < k"
      "\<forall>j \<in> set pre. c < j \<longrightarrow> sm_decode_time (xs ! j) < sat_target xs ticks c" for pre c
  proof (cases "sat_target xs ticks c \<le> sm_decode_time (xs ! i)")
    case True
    have al: "allowed = (pre @ [i]) @ is" using prems(1) by simp
    have after: "\<forall>k \<in> set is. i < k" and before: "\<forall>j \<in> set (pre @ [i]). \<not> i < j"
      using prems(1,2) by (auto simp: sorted_wrt_append)
    note IH = Cons.IH [OF al prems(2) after]
    have "next_cut xs ticks allowed c i"
      using True prems by (auto simp: next_cut_def sorted_wrt_append)
    moreover have "spec_cuts xs ticks (sat_target xs ticks c) (i # is) = i # spec_cuts xs ticks (sat_target xs ticks i) is"
      using True by (simp add: sat_target_def)
    ultimately show ?thesis using IH before by (auto simp: successively_Cons)
  next
    case False
    have al: "allowed = (pre @ [i]) @ is" using prems(1) by simp
    have skipped: "\<forall>j \<in> set (pre @ [i]). c < j \<longrightarrow> sm_decode_time (xs ! j) < sat_target xs ticks c"
      using prems(4) False by auto
    note IH = Cons.IH [OF al prems(2) _ skipped]
    show ?thesis using IH prems(3) False by (auto simp: sat_target_def)
  qed
  {
    case 1
    then show ?case using goal [of pre c] by blast
  next
    case 2
    then show ?case using goal [of pre c] by blast
  next
    case 3
    then show ?case using goal [of pre c] by blast
  }
qed

definition cut_positions :: "sample list \<Rightarrow> nat list" where
  "cut_positions xs = filter (\<lambda>i. 0 < i) (sync_positions xs)"

lemma cut_positions_props:
  "sorted_wrt (<) (cut_positions xs)" "\<forall>i \<in> set (cut_positions xs). 0 < i \<and> i < length xs \<and> sm_is_sync (xs ! i)"
  by (auto simp: cut_positions_def sync_positions_def sorted_wrt_filter)

lemma successively_less_sorted: "successively (<) xs \<Longrightarrow> sorted_wrt (<) (xs :: nat list)"
  by (simp add: successively_conv_sorted_wrt)

lemma spec_boundaries_props:
  fixes xs :: "sample list" and ticks :: nat
  assumes "xs \<noteq> []"
  defines "cuts \<equiv> butlast (spec_boundaries xs ticks)"
  shows "hd (spec_boundaries xs ticks) = 0" "last (spec_boundaries xs ticks) = length xs"
    "sorted_wrt (<) (spec_boundaries xs ticks)" "2 \<le> length (spec_boundaries xs ticks)"
    "successively (next_cut xs ticks (cut_positions xs)) cuts"
    "\<forall>j \<in> set (cut_positions xs). last cuts < j \<longrightarrow> sm_decode_time (xs ! j) < sat_target xs ticks (last cuts)"
    "\<forall>i \<in> set (tl cuts). i < length xs \<and> sm_is_sync (xs ! i)"
proof -
  let ?sc = "spec_cuts xs ticks (sat_target xs ticks 0) (cut_positions xs)"
  have b: "spec_boundaries xs ticks = 0 # ?sc @ [length xs]"
    by (simp add: spec_boundaries_def sat_target_def cut_positions_def)
  then have cuts: "cuts = 0 # ?sc" by (simp add: cuts_def butlast_append)
  note g = spec_cuts_greedy [of "cut_positions xs" "[]" "cut_positions xs" 0 xs ticks,
      OF _ cut_positions_props(1)]
  show "hd (spec_boundaries xs ticks) = 0" "last (spec_boundaries xs ticks) = length xs"
    "2 \<le> length (spec_boundaries xs ticks)" using b by simp_all
  show s: "successively (next_cut xs ticks (cut_positions xs)) cuts"
    using g(1) cut_positions_props(2) cuts by simp
  show "\<forall>j \<in> set (cut_positions xs). last cuts < j \<longrightarrow> sm_decode_time (xs ! j) < sat_target xs ticks (last cuts)"
    using g(2) cut_positions_props(2) cuts by simp
  show t: "\<forall>i \<in> set (tl cuts). i < length xs \<and> sm_is_sync (xs ! i)"
    using g(3) cut_positions_props(2) cuts by auto
  have "sorted_wrt (<) cuts"
    using successively_mono [OF s] by (intro successively_less_sorted) (auto simp: next_cut_def)
  moreover have "\<forall>i \<in> set cuts. i < length xs" using t cuts assms(1) by auto
  moreover have "spec_boundaries xs ticks = cuts @ [length xs]" using b cuts by simp
  ultimately show "sorted_wrt (<) (spec_boundaries xs ticks)" by (simp add: sorted_wrt_append)
qed

section \<open>The plan\<close>

definition tracks_valid :: "media_index \<Rightarrow> bool" where
  "tracks_valid index \<longleftrightarrow> (\<forall>t \<in> set (mi_tracks index). index_valid (tr_samples t))"

definition reference_track :: "media_index \<Rightarrow> track option" where
  "reference_track index =
     (case filter (\<lambda>t. tr_kind t = Video) (mi_tracks index) of
        v # _ \<Rightarrow> Some v
      | [] \<Rightarrow> get_at (filter (\<lambda>t. tr_kind t = Audio) (mi_tracks index)) 0)"

definition follower_tracks :: "media_index \<Rightarrow> track \<Rightarrow> track list" where
  "follower_tracks index reference =
     filter (\<lambda>t. tr_kind t = Audio \<and> tr_id t \<noteq> tr_id reference) (mi_tracks index)"

lemma reference_track_in:
  assumes "reference_track index = Some r"
  shows "r \<in> set (mi_tracks index)"
proof -
  have "r \<in> set (filter (\<lambda>t. tr_kind t = Video) (mi_tracks index))
      \<or> r \<in> set (filter (\<lambda>t. tr_kind t = Audio) (mi_tracks index))"
  proof (cases "filter (\<lambda>t. tr_kind t = Video) (mi_tracks index)")
    case Nil
    then show ?thesis
      using assms nth_mem [of 0 "filter (\<lambda>t. tr_kind t = Audio) (mi_tracks index)"]
      by (auto simp: reference_track_def get_at_def simp del: nth_mem split: if_splits)
  next
    case (Cons v vs)
    then have "r = v" using assms by (simp add: reference_track_def)
    then show ?thesis unfolding Cons by simp
  qed
  then show ?thesis by auto
qed

lemma follow_step_eq_Inr:
  "follow_step r d e fin acc a = Inr acc' \<longleftrightarrow> (\<exists>part. audio_segment a r d e fin = Inr part
     \<and> acc' = (if sg_first_sample part = index_len (tr_samples a) then acc else acc @ [part]))"
  by (auto simp: follow_step_def and_then_eq_Inr)

lemma follow_fold:
  assumes "try_fold (follow_step r d e fin) acc fs = Inr ts"
  shows "\<forall>a \<in> set fs. audio_segment a r d e fin = Inr (projr (audio_segment a r d e fin))"
    "ts = acc @ map (\<lambda>a. projr (audio_segment a r d e fin))
       (filter (\<lambda>a. sg_first_sample (projr (audio_segment a r d e fin)) \<noteq> index_len (tr_samples a)) fs)"
  using assms
proof (induction fs arbitrary: acc)
  case (Cons a fs)
  {
    case 1
    then show ?case using Cons.IH(1) by (auto simp: and_then_eq_Inr follow_step_eq_Inr)
  next
    case 2
    then show ?case by (auto simp: and_then_eq_Inr follow_step_eq_Inr dest!: Cons.IH(2) split: if_splits)
  }
qed simp_all

definition end_of :: "track \<Rightarrow> nat \<Rightarrow> nat \<Rightarrow> nat" where
  "end_of r reference_end b =
     (if b = index_len (tr_samples r) then reference_end else sm_decode_time (index_samples (tr_samples r) ! b))"

lemma plan_segment_props:
  assumes valid: "index_valid (tr_samples r)" and ab: "a < b" "b \<le> index_len (tr_samples r)"
    and s: "plan_segment r fs rend l (k, a, b) = Inr s"
  defines "d \<equiv> sm_decode_time (index_samples (tr_samples r) ! a)"
  defines "e \<equiv> end_of r rend b"
  defines "fin \<equiv> (b = index_len (tr_samples r))"
  shows "se_index s = k" "d \<le> e"
    "se_tracks s = \<lparr>sg_track_id = tr_id r, sg_first_sample = a, sg_end_sample = b,
        sg_decode_time = d, sg_duration = e - d\<rparr> #
      map (\<lambda>f. projr (audio_segment f r d e fin))
        (filter (\<lambda>f. sg_first_sample (projr (audio_segment f r d e fin)) \<noteq> index_len (tr_samples f)) fs)"
    "\<forall>f \<in> set fs. audio_segment f r d e fin = Inr (projr (audio_segment f r d e fin))"
    "\<forall>t \<in> set (se_tracks s). wsub64 (sg_end_sample t) (sg_first_sample t) \<le> max_samples_per_segment l"
proof -
  have wf: "index_wf (tr_samples r)" using valid by (simp add: index_valid_def)
  have time: "i < index_len (tr_samples r) \<Longrightarrow>
      index_decode_time (tr_samples r) i = ok (sm_decode_time (index_samples (tr_samples r) ! i))" for i
    using index_decode_time_ok [OF wf] .
  have "(if b = index_len (tr_samples r) then ok rend else index_decode_time (tr_samples r) b) = ok e"
    using ab(2) time [of b] by (auto simp: e_def end_of_def simp del: nth_index_samples)
  then obtain tracks where le: "d \<le> e"
    and tracks: "try_fold (follow_step r d e fin)
      [\<lparr>sg_track_id = tr_id r, sg_first_sample = a, sg_end_sample = b, sg_decode_time = d, sg_duration = e - d\<rparr>]
      fs = Inr tracks"
    and s': "s = \<lparr>se_index = k, se_tracks = tracks\<rparr>"
    and lim: "\<not> (\<exists>t \<in> set tracks. max_samples_per_segment l < wsub64 (sg_end_sample t) (sg_first_sample t))"
    using s time [of a] ab
    by (auto simp: plan_segment_def and_then_eq_Inr d_def [symmetric] fin_def [symmetric]
        simp del: nth_index_samples split: if_splits)
  show "d \<le> e" by (rule le)
  show "se_index s = k" using s' by simp
  show "se_tracks s = \<lparr>sg_track_id = tr_id r, sg_first_sample = a, sg_end_sample = b,
        sg_decode_time = d, sg_duration = e - d\<rparr> #
      map (\<lambda>f. projr (audio_segment f r d e fin))
        (filter (\<lambda>f. sg_first_sample (projr (audio_segment f r d e fin)) \<noteq> index_len (tr_samples f)) fs)"
    using follow_fold(2) [OF tracks] s' by simp
  show "\<forall>f \<in> set fs. audio_segment f r d e fin = Inr (projr (audio_segment f r d e fin))"
    using follow_fold(1) [OF tracks] .
  show "\<forall>t \<in> set (se_tracks s). wsub64 (sg_end_sample t) (sg_first_sample t) \<le> max_samples_per_segment l"
    using lim s' by (auto simp: not_less)
qed

text \<open>What a successful plan is made of.\<close>

lemma plan_decompose:
  assumes valid: "tracks_valid index" and p: "plan index ms l = Inr segs"
  obtains r ticks rend where
    "reference_track index = Some r" "index_valid (tr_samples r)" "index_samples (tr_samples r) \<noteq> []"
    "track_end r = ok rend" "ticks = ms * tr_timescale r div 1000" "0 < ticks"
    "sm_is_sync (index_samples (tr_samples r) ! 0)"
    "\<And>b. b = spec_boundaries (index_samples (tr_samples r)) ticks \<Longrightarrow>
       length segs = length b - 1 \<and>
       (\<forall>k < length segs. plan_segment r (follower_tracks index r) rend l (k, b ! k, b ! Suc k) = ok (segs ! k))"
proof -
  let ?v = "filter (\<lambda>t. tr_kind t = Video) (mi_tracks index)"
  let ?a = "filter (\<lambda>t. tr_kind t = Audio) (mi_tracks index)"
  have ref: "(case get_at ?v 0 of Some v \<Rightarrow> Some v | None \<Rightarrow> get_at ?a 0) = reference_track index"
    by (cases ?v) (simp_all add: reference_track_def get_at_def)
  have fol: "filter (\<lambda>t. tr_id t \<noteq> tr_id r) ?a = follower_tracks index r" for r
    by (simp add: follower_tracks_def)
  obtain r d b rend where r: "reference_track index = Some r"
    and bad: "(if index_is_empty (tr_samples r) then ok True
           else and_then (nth_sync (tr_samples r) 0) (\<lambda>n. ok (n \<noteq> Some 0))) = ok False"
    and d: "checked_mul ms (tr_timescale r) = Some d" "d div 1000 \<noteq> 0"
    and b: "reference_boundaries r (d div 1000) = ok b" and rend: "track_end r = ok rend"
    and segs: "collect_res (map (plan_segment r (follower_tracks index r) rend l)
              (zip [0..<length b] (zip b (tl b)))) = ok segs"
    using p unfolding plan_def Let_def ref fol
    by (auto simp: and_then_eq_Inr simp del: checked_mul_eq_Some split: if_splits option.splits)
  have vr: "index_valid (tr_samples r)"
    using valid reference_track_in [OF r] by (simp add: tracks_valid_def)
  have ne: "index_samples (tr_samples r) \<noteq> []"
    using bad index_is_empty_iff [of "tr_samples r"] vr by (auto simp: index_valid_def split: if_splits)
  then have len: "0 < index_len (tr_samples r)"
    using length_index_samples [of "tr_samples r"] by (metis length_greater_0_conv)
  have sync: "sm_is_sync (index_samples (tr_samples r) ! 0)"
  proof -
    have "nth_sync (tr_samples r) 0 = ok (Some 0)"
      using bad by (auto simp: and_then_eq_Inr split: if_splits)
    then have "get_at (sync_positions (index_samples (tr_samples r))) 0 = Some 0"
      using nth_sync_ok [of "tr_samples r" 0] vr by (simp add: index_valid_def)
    then have "0 \<in> set (sync_positions (index_samples (tr_samples r)))"
      by (metis get_at_eq_Some nth_mem)
    then show ?thesis by (simp add: sync_positions_def del: nth_index_samples)
  qed
  have beq: "b = spec_boundaries (index_samples (tr_samples r)) (d div 1000)"
    using b reference_boundaries_eq [OF vr len] by simp
  have eq: "map (plan_segment r (follower_tracks index r) rend l) (zip [0..<length b] (zip b (tl b))) = map Inr segs"
    using segs by (simp add: collect_res_eq_Inr)
  have len2: "length segs = length b - 1"
    using map_eq_imp_length_eq [OF eq] by simp
  have "plan_segment r (follower_tracks index r) rend l (k, b ! k, b ! Suc k) = ok (segs ! k)"
    if k: "k < length segs" for k
  proof -
    have "map (plan_segment r (follower_tracks index r) rend l) (zip [0..<length b] (zip b (tl b))) ! k
        = map Inr segs ! k" using eq by simp
    then show ?thesis using k len2 by (simp add: nth_tl)
  qed
  then show thesis
    using that [of r rend "d div 1000"] r vr ne rend d sync beq len2 by auto
qed

lemma planner_rescale_eq_Inr:
  "planner_rescale v f t = Inr x \<longleftrightarrow> f \<noteq> 0 \<and> v * t < u64_limit \<and> x = v * t div f"
  by (auto simp: planner_rescale_def split: option.splits)

text \<open>What a follower has in a segment: the samples that play between the segment's ends.\<close>

lemma audio_segment_props:
  assumes valid: "index_valid (tr_samples a)" and x: "audio_segment a v s e fin = Inr x"
  defines "xs \<equiv> index_samples (tr_samples a)"
  shows "sg_track_id x = tr_id a"
    "sg_first_sample x \<le> length xs" "sg_end_sample x \<le> length xs"
    "i < length xs \<Longrightarrow> i < sg_first_sample x \<longleftrightarrow>
       sm_decode_time (xs ! i) < s * tr_timescale a div tr_timescale v"
    "\<not> fin \<Longrightarrow> i < length xs \<Longrightarrow> i < sg_end_sample x \<longleftrightarrow>
       sm_decode_time (xs ! i) < e * tr_timescale a div tr_timescale v"
    "fin \<Longrightarrow> sg_end_sample x = length xs"
    "index_partition_by_decode_time (tr_samples a) (s * tr_timescale a div tr_timescale v) = ok (sg_first_sample x)"
    "\<not> fin \<Longrightarrow> index_partition_by_decode_time (tr_samples a) (e * tr_timescale a div tr_timescale v)
       = ok (sg_end_sample x)"
proof -
  have first: "index_partition_by_decode_time (tr_samples a) (s * tr_timescale a div tr_timescale v)
      = ok (sg_first_sample x)"
    and last: "(if fin then ok (index_len (tr_samples a))
        else index_partition_by_decode_time (tr_samples a) (e * tr_timescale a div tr_timescale v)) = ok (sg_end_sample x)"
    and "sg_track_id x = tr_id a"
    using x by (auto simp: audio_segment_def and_then_eq_Inr planner_rescale_eq_Inr)
  then show "sg_track_id x = tr_id a" by simp
  show "index_partition_by_decode_time (tr_samples a) (s * tr_timescale a div tr_timescale v) = ok (sg_first_sample x)"
    "\<not> fin \<Longrightarrow> index_partition_by_decode_time (tr_samples a) (e * tr_timescale a div tr_timescale v)
       = ok (sg_end_sample x)"
    "fin \<Longrightarrow> sg_end_sample x = length xs"
    using first last by (auto simp: xs_def split: if_splits)
  show "sg_first_sample x \<le> length xs" "sg_end_sample x \<le> length xs"
    using si.search_splits(1) [OF valid first] last si.search_splits(1) [OF valid]
    by (auto simp: xs_def split: if_splits)
  show "i < length xs \<Longrightarrow> i < sg_first_sample x \<longleftrightarrow>
       sm_decode_time (xs ! i) < s * tr_timescale a div tr_timescale v"
    using si.search_splits(2) [OF valid first, of i] by (simp add: xs_def del: nth_index_samples)
  show "\<not> fin \<Longrightarrow> i < length xs \<Longrightarrow> i < sg_end_sample x \<longleftrightarrow>
       sm_decode_time (xs ! i) < e * tr_timescale a div tr_timescale v"
    using si.search_splits(2) [OF valid, of "e * tr_timescale a div tr_timescale v" "sg_end_sample x" i] last
    by (simp add: xs_def del: nth_index_samples)
qed

lemma audio_segments_meet:
  assumes valid: "index_valid (tr_samples a)" and le: "s \<le> m" "m \<le> e"
    and x: "audio_segment a v s m False = Inr x" and y: "audio_segment a v m e fin = Inr y"
  shows "sg_end_sample x = sg_first_sample y" "sg_first_sample x \<le> sg_end_sample x"
    "sg_first_sample y \<le> sg_end_sample y"
proof -
  note px = audio_segment_props [OF valid x] and py = audio_segment_props [OF valid y]
  show "sg_end_sample x = sg_first_sample y" using px(8) py(7) by simp
  have div: "a * t div f \<le> b * t div f" if "a \<le> b" for a b t f :: nat
    using that by (intro div_le_mono mult_le_mono1)
  show "sg_first_sample x \<le> sg_end_sample x"
    using si.search_mono [OF valid px(7) px(8) div [OF le(1)]] by simp
  show "sg_first_sample y \<le> sg_end_sample y"
    using si.search_mono [OF valid py(7) py(8) div [OF le(2)]] py(2,6) by (cases fin) auto
qed

text \<open>A part that holds samples is timed by them: it starts with its first and ends where the next starts.\<close>

lemma audio_segment_times:
  assumes valid: "index_valid (tr_samples a)" and x: "audio_segment a v s e fin = Inr x"
    and le: "sg_first_sample x \<le> sg_end_sample x" and lt: "sg_first_sample x < index_len (tr_samples a)"
  shows "index_decode_time (tr_samples a) (sg_first_sample x) = ok (sg_decode_time x)"
    and "(if sg_end_sample x = index_len (tr_samples a) then track_end a
          else index_decode_time (tr_samples a) (sg_end_sample x)) = ok (sg_decode_time x + sg_duration x)"
proof -
  let ?xs = "index_samples (tr_samples a)"
  have wf: "index_wf (tr_samples a)" using valid by (simp add: index_valid_def)
  obtain stop where first: "index_decode_time (tr_samples a) (sg_first_sample x) = ok (sg_decode_time x)"
    and stop: "(if sg_end_sample x = index_len (tr_samples a) then track_end a
          else index_decode_time (tr_samples a) (sg_end_sample x)) = ok stop"
    and dur: "sg_duration x = stop - sg_decode_time x"
    using x lt by (auto simp: audio_segment_def and_then_eq_Inr cong: if_cong)
  show "index_decode_time (tr_samples a) (sg_first_sample x) = ok (sg_decode_time x)" by (rule first)
  have d: "sg_decode_time x = sm_decode_time (?xs ! sg_first_sample x)"
    using first index_decode_time_ok [OF wf lt] by simp
  have mono: "sg_decode_time x \<le> sm_decode_time (?xs ! j)"
    if "sg_first_sample x \<le> j" "j < index_len (tr_samples a)" for j
    using sorted_nth_mono [OF index_valid_sorted [OF valid] that(1)] that lt d by (simp del: nth_index_samples)
  have "sg_decode_time x \<le> stop"
  proof (cases "sg_end_sample x = index_len (tr_samples a)")
    case True
    have last: "index_last (tr_samples a) = ok (Some (?xs ! (index_len (tr_samples a) - 1)))"
      using index_last_ok [OF wf] lt length_index_samples [of "tr_samples a"]
      by (cases "?xs = []") (auto simp: last_opt_def last_conv_nth)
    then have "sm_decode_time (?xs ! (index_len (tr_samples a) - 1)) \<le> stop"
      using stop True by (auto simp: track_end_def checked_add_def and_then_eq_Inr split: if_splits)
    then show ?thesis using mono [of "index_len (tr_samples a) - 1"] lt by linarith
  next
    case False
    then have "sg_end_sample x < index_len (tr_samples a)"
      using audio_segment_props(3) [OF valid x] by simp
    then show ?thesis using stop False index_decode_time_ok [OF wf] mono [OF le] by simp
  qed
  then show "(if sg_end_sample x = index_len (tr_samples a) then track_end a
          else index_decode_time (tr_samples a) (sg_end_sample x)) = ok (sg_decode_time x + sg_duration x)"
    using stop dur by simp
qed

lemma plan_segments:
  assumes valid: "tracks_valid index" and p: "plan index ms l = Inr segs"
  obtains r b rend where "reference_track index = Some r" "index_valid (tr_samples r)"
    "hd b = 0" "last b = index_len (tr_samples r)" "sorted_wrt (<) b" "length segs = length b - 1" "segs \<noteq> []"
    "track_end r = ok rend"
    "\<And>k. k < length segs \<Longrightarrow> b ! k < b ! Suc k \<and> b ! Suc k \<le> index_len (tr_samples r)
       \<and> (b ! Suc k = index_len (tr_samples r) \<longleftrightarrow> Suc k = length segs)
       \<and> plan_segment r (follower_tracks index r) rend l (k, b ! k, b ! Suc k) = ok (segs ! k)"
proof -
  obtain r ticks rend where r: "reference_track index = Some r" "index_valid (tr_samples r)"
    "index_samples (tr_samples r) \<noteq> []" and rend: "track_end r = ok rend"
    and segs: "\<And>b. b = spec_boundaries (index_samples (tr_samples r)) ticks \<Longrightarrow>
       length segs = length b - 1 \<and>
       (\<forall>k < length segs. plan_segment r (follower_tracks index r) rend l (k, b ! k, b ! Suc k) = ok (segs ! k))"
    using plan_decompose [OF valid p] by metis
  define b where "b = spec_boundaries (index_samples (tr_samples r)) ticks"
  note b = spec_boundaries_props(1-4) [OF r(3), of ticks, folded b_def]
  note s = segs [OF b_def]
  have ne: "b \<noteq> []" using b(4) by auto
  have inc: "b ! k < b ! Suc k" "b ! Suc k \<le> index_len (tr_samples r)"
    "b ! Suc k = index_len (tr_samples r) \<longleftrightarrow> Suc k = length segs" if k: "k < length segs" for k
  proof -
    have lt: "Suc k < length b" using k s by auto
    show "b ! k < b ! Suc k" using sorted_wrt_nth_less [OF b(3) _ lt] by simp
    have l: "last b = b ! (length b - 1)" using ne by (simp add: last_conv_nth)
    have "b ! Suc k < b ! (length b - 1)" if "Suc k \<noteq> length b - 1"
      using sorted_wrt_nth_less [OF b(3), of "Suc k" "length b - 1"] lt that by simp
    then show "b ! Suc k \<le> index_len (tr_samples r)"
      "b ! Suc k = index_len (tr_samples r) \<longleftrightarrow> Suc k = length segs"
      using b(2) l s lt by (cases "Suc k = length b - 1"; simp)+
  qed
  show thesis
  proof (rule that [OF r(1,2) b(1) _ b(3) _ _ rend])
    show "last b = index_len (tr_samples r)" using b(2) by simp
    show "length segs = length b - 1" "segs \<noteq> []" using s b(4) by auto
    show "b ! k < b ! Suc k \<and> b ! Suc k \<le> index_len (tr_samples r)
       \<and> (b ! Suc k = index_len (tr_samples r) \<longleftrightarrow> Suc k = length segs)
       \<and> plan_segment r (follower_tracks index r) rend l (k, b ! k, b ! Suc k) = ok (segs ! k)"
      if "k < length segs" for k using inc [OF that] s that by blast
  qed
qed

section \<open>Properties\<close>

text \<open>
  C33 The cuts of the reference track start at 0 and end at its last sample, increase strictly, are
  all sync samples, and are greedy: the next one is the first sync sample at or after the target
  counted from the one before.  This holds for both loops of the code, the jump over a track where
  every sample is sync and the pass over a sync table.
\<close>

theorem reference_cuts_greedy:
  assumes "index_valid (tr_samples t)" "index_samples (tr_samples t) \<noteq> []"
  shows "\<exists>b. reference_boundaries t ticks = ok b \<and> hd b = 0 \<and> last b = index_len (tr_samples t)
    \<and> sorted_wrt (<) b \<and> 2 \<le> length b
    \<and> (\<forall>i \<in> set (tl (butlast b)). sm_is_sync (index_samples (tr_samples t) ! i))
    \<and> successively (next_cut (index_samples (tr_samples t)) ticks (cut_positions (index_samples (tr_samples t))))
        (butlast b)
    \<and> (\<forall>j \<in> set (cut_positions (index_samples (tr_samples t))). last (butlast b) < j \<longrightarrow>
         sm_decode_time (index_samples (tr_samples t) ! j)
           < sat_target (index_samples (tr_samples t)) ticks (last (butlast b)))"
proof -
  have "0 < index_len (tr_samples t)"
    using assms(2) length_index_samples [of "tr_samples t"] by (metis length_greater_0_conv)
  then have "reference_boundaries t ticks = ok (spec_boundaries (index_samples (tr_samples t)) ticks)"
    using reference_boundaries_eq assms(1) by blast
  then show ?thesis
    using spec_boundaries_props [OF assms(2), of ticks] by (simp del: nth_index_samples)
qed

text \<open>
  C31 In a plan, the reference track's segments tile the track: numbered from 0, starting at its
  first sample and ending at its last, each with samples and no more than the limit, each starting
  where the one before ends, in samples and in time.
\<close>

theorem plan_tiles_reference:
  assumes "tracks_valid index" "plan index ms l = ok segs"
  shows "\<exists>r. reference_track index = Some r \<and> segs \<noteq> [] \<and> map se_index segs = [0..<length segs]
    \<and> sg_first_sample (hd (se_tracks (hd segs))) = 0
    \<and> sg_end_sample (hd (se_tracks (last segs))) = index_len (tr_samples r)
    \<and> (\<forall>k < length segs. let g = hd (se_tracks (segs ! k)) in
         sg_track_id g = tr_id r \<and> sg_first_sample g < sg_end_sample g
         \<and> sg_end_sample g \<le> index_len (tr_samples r)
         \<and> sg_end_sample g - sg_first_sample g \<le> max_samples_per_segment l
         \<and> index_decode_time (tr_samples r) (sg_first_sample g) = ok (sg_decode_time g))
    \<and> (\<forall>k. Suc k < length segs \<longrightarrow> (let g = hd (se_tracks (segs ! k)); h = hd (se_tracks (segs ! Suc k)) in
         sg_first_sample h = sg_end_sample g \<and> sg_decode_time h = sg_decode_time g + sg_duration g))
    \<and> (let g = hd (se_tracks (last segs)) in track_end r = ok (sg_decode_time g + sg_duration g))"
proof -
  obtain r b rend where r: "reference_track index = Some r" "index_valid (tr_samples r)"
    and b: "hd b = 0" "last b = index_len (tr_samples r)" "sorted_wrt (<) b" "length segs = length b - 1" "segs \<noteq> []"
    and rend: "track_end r = ok rend"
    and seg: "\<And>k. k < length segs \<Longrightarrow> b ! k < b ! Suc k \<and> b ! Suc k \<le> index_len (tr_samples r)
       \<and> (b ! Suc k = index_len (tr_samples r) \<longleftrightarrow> Suc k = length segs)
       \<and> plan_segment r (follower_tracks index r) rend l (k, b ! k, b ! Suc k) = ok (segs ! k)"
    using plan_segments [OF assms] by metis
  let ?g = "\<lambda>k. hd (se_tracks (segs ! k))"
  let ?t = "\<lambda>i. sm_decode_time (index_samples (tr_samples r) ! i)"
  have len: "index_len (tr_samples r) < u64_limit"
    using r(2) index_wfD(3) [of "tr_samples r"] tables_wf_runs(8) [OF index_wfD(1), of "tr_samples r"]
    by (simp add: index_valid_def index_len_def)
  have g: "?g k = \<lparr>sg_track_id = tr_id r, sg_first_sample = b ! k, sg_end_sample = b ! Suc k,
        sg_decode_time = ?t (b ! k), sg_duration = end_of r rend (b ! Suc k) - ?t (b ! k)\<rparr>"
    "?g k \<in> set (se_tracks (segs ! k))" "?t (b ! k) \<le> end_of r rend (b ! Suc k)" "se_index (segs ! k) = k"
    "b ! Suc k - b ! k \<le> max_samples_per_segment l"
    if k: "k < length segs" for k
  proof -
    note ps = plan_segment_props [OF r(2), of "b ! k" "b ! Suc k" "follower_tracks index r" rend l k "segs ! k"]
    have s: "b ! k < b ! Suc k" "b ! Suc k \<le> index_len (tr_samples r)"
      "plan_segment r (follower_tracks index r) rend l (k, b ! k, b ! Suc k) = ok (segs ! k)"
      using seg [OF k] by auto
    show gk: "?g k = \<lparr>sg_track_id = tr_id r, sg_first_sample = b ! k, sg_end_sample = b ! Suc k,
        sg_decode_time = ?t (b ! k), sg_duration = end_of r rend (b ! Suc k) - ?t (b ! k)\<rparr>"
      "?g k \<in> set (se_tracks (segs ! k))" using ps(3) [OF s] by simp_all
    show "?t (b ! k) \<le> end_of r rend (b ! Suc k)" "se_index (segs ! k) = k" using ps(1,2) [OF s] by auto
    have "wsub64 (b ! Suc k) (b ! k) \<le> max_samples_per_segment l"
      using ps(5) [OF s] gk by fastforce
    then show "b ! Suc k - b ! k \<le> max_samples_per_segment l" using s(1,2) len by simp
  qed
  have n: "0 < length segs" using b(5) by simp
  have b0: "b ! 0 = 0" using b(1,4) n by (cases b) auto
  have bl: "b ! Suc (length segs - 1) = index_len (tr_samples r)" using seg [of "length segs - 1"] n by simp
  have "map se_index segs = [0..<length segs]" using g(4) by (intro nth_equalityI) simp_all
  moreover have "sg_first_sample (hd (se_tracks (hd segs))) = 0"
    using g(1) [OF n] b0 b(5) by (simp add: hd_conv_nth)
  moreover have "sg_end_sample (hd (se_tracks (last segs))) = index_len (tr_samples r)"
    using g(1) [of "length segs - 1"] n bl b(5) by (simp add: last_conv_nth)
  moreover have "index_decode_time (tr_samples r) (b ! k) = ok (?t (b ! k))" if "k < length segs" for k
    using seg [OF that] index_decode_time_ok r(2) by (simp add: index_valid_def)
  moreover have "end_of r rend (b ! Suc k) = ?t (b ! Suc k)" if "Suc k < length segs" for k
    using seg [of k] that by (simp add: end_of_def)
  moreover have "end_of r rend (b ! Suc (length segs - 1)) = rend" using bl by (simp add: end_of_def)
  moreover have "?t (b ! k) \<le> ?t (b ! Suc k)" if "Suc k < length segs" for k
    using g(3) [of k] calculation(5) [OF that] that by simp
  moreover have "?t (b ! (length segs - 1)) \<le> rend"
    using g(3) [of "length segs - 1"] n bl by (simp add: end_of_def)
  ultimately show ?thesis
    using r(1) b(5) g seg n rend by (simp add: last_conv_nth del: nth_index_samples)
qed

text \<open>
  C32 In a plan, every track that follows the reference is cut at the instants where the reference is
  cut, without a gap or an overlap.  There is a part of it for each segment: it starts with the first
  sample that decodes at or after the start of the reference's own part of that segment, brought to
  the follower's clock (so what decodes before the reference starts is in no segment), each part ends
  where the next starts and the last at the track's end; a part is timed by its samples, from the
  decode time of its first one to that of the next part's first, or the end of the track; and the
  segment lists exactly the parts that do not start at the track's end.
\<close>

theorem plan_followers_meet:
  assumes "tracks_valid index" "plan index ms l = ok segs" "reference_track index = Some r"
  shows "\<exists>part. (\<forall>k < length segs. tl (se_tracks (segs ! k)) =
        map (\<lambda>f. part f k)
          (filter (\<lambda>f. sg_first_sample (part f k) \<noteq> index_len (tr_samples f)) (follower_tracks index r)))
    \<and> (\<forall>f \<in> set (follower_tracks index r). \<forall>k < length segs.
         sg_track_id (part f k) = tr_id f \<and> sg_first_sample (part f k) \<le> sg_end_sample (part f k)
         \<and> sg_end_sample (part f k) =
             (if Suc k = length segs then index_len (tr_samples f) else sg_first_sample (part f (Suc k)))
         \<and> (\<forall>i < index_len (tr_samples f). i < sg_first_sample (part f k) \<longleftrightarrow>
              sm_decode_time (index_samples (tr_samples f) ! i)
                < sg_decode_time (hd (se_tracks (segs ! k))) * tr_timescale f div tr_timescale r)
         \<and> (sg_first_sample (part f k) < index_len (tr_samples f) \<longrightarrow>
              index_decode_time (tr_samples f) (sg_first_sample (part f k)) = ok (sg_decode_time (part f k))
              \<and> (if sg_end_sample (part f k) = index_len (tr_samples f) then track_end f
                 else index_decode_time (tr_samples f) (sg_end_sample (part f k)))
                = ok (sg_decode_time (part f k) + sg_duration (part f k))))"
proof -
  obtain b rend where rv: "index_valid (tr_samples r)"
    and seg: "\<And>k. k < length segs \<Longrightarrow> b ! k < b ! Suc k \<and> b ! Suc k \<le> index_len (tr_samples r)
       \<and> (b ! Suc k = index_len (tr_samples r) \<longleftrightarrow> Suc k = length segs)
       \<and> plan_segment r (follower_tracks index r) rend l (k, b ! k, b ! Suc k) = ok (segs ! k)"
    using plan_segments [OF assms(1,2)] assms(3) by (metis option.inject)
  let ?t = "\<lambda>i. sm_decode_time (index_samples (tr_samples r) ! i)"
  let ?e = "\<lambda>k. end_of r rend (b ! Suc k)"
  let ?fin = "\<lambda>k. Suc k = length segs"
  define part where "part f k = projr (audio_segment f r (?t (b ! k)) (?e k) (?fin k))" for f k
  have p: "?t (b ! k) \<le> ?e k"
    "tl (se_tracks (segs ! k)) = map (\<lambda>f. part f k)
          (filter (\<lambda>f. sg_first_sample (part f k) \<noteq> index_len (tr_samples f)) (follower_tracks index r))"
    "\<forall>f \<in> set (follower_tracks index r). audio_segment f r (?t (b ! k)) (?e k) (?fin k) = ok (part f k)"
    "sg_decode_time (hd (se_tracks (segs ! k))) = ?t (b ! k)"
    if k: "k < length segs" for k
  proof -
    have s: "b ! k < b ! Suc k" "b ! Suc k \<le> index_len (tr_samples r)"
      "plan_segment r (follower_tracks index r) rend l (k, b ! k, b ! Suc k) = ok (segs ! k)"
      and fin: "(b ! Suc k = index_len (tr_samples r)) = ?fin k"
      using seg [OF k] by auto
    note ps = plan_segment_props [OF rv s]
    show "?t (b ! k) \<le> ?e k" by (rule ps)
    show "tl (se_tracks (segs ! k)) = map (\<lambda>f. part f k)
          (filter (\<lambda>f. sg_first_sample (part f k) \<noteq> index_len (tr_samples f)) (follower_tracks index r))"
      using ps(3) unfolding fin part_def by simp
    show "\<forall>f \<in> set (follower_tracks index r). audio_segment f r (?t (b ! k)) (?e k) (?fin k) = ok (part f k)"
      using ps(4) unfolding fin part_def .
    show "sg_decode_time (hd (se_tracks (segs ! k))) = ?t (b ! k)" using ps(3) by simp
  qed
  have fv: "index_valid (tr_samples f)" if "f \<in> set (follower_tracks index r)" for f
    using that assms(1) by (auto simp: follower_tracks_def tracks_valid_def)
  have meets: "sg_track_id (part f k) = tr_id f \<and> sg_first_sample (part f k) \<le> sg_end_sample (part f k)
         \<and> sg_end_sample (part f k) =
             (if Suc k = length segs then index_len (tr_samples f) else sg_first_sample (part f (Suc k)))"
    if f: "f \<in> set (follower_tracks index r)" and k: "k < length segs" for f k
  proof (cases "Suc k = length segs")
    case True
    then show ?thesis
      using audio_segment_props(1,2,6) [OF fv [OF f], of r "?t (b ! k)" "?e k" "?fin k" "part f k"] p(3) [OF k] f by simp
  next
    case False
    then have k': "Suc k < length segs" using k by simp
    have e: "?e k = ?t (b ! Suc k)" using seg [OF k] False by (simp add: end_of_def)
    have x: "audio_segment f r (?t (b ! k)) (?t (b ! Suc k)) False = Inr (part f k)"
      using p(3) [OF k] f False e by (simp del: nth_index_samples)
    have y: "audio_segment f r (?t (b ! Suc k)) (?e (Suc k)) (?fin (Suc k)) = Inr (part f (Suc k))"
      using p(3) [OF k'] f by blast
    have le: "?t (b ! k) \<le> ?t (b ! Suc k)" "?t (b ! Suc k) \<le> ?e (Suc k)"
      using p(1) [OF k] p(1) [OF k'] e by simp_all
    show ?thesis
      using audio_segments_meet [OF fv [OF f] le x y] audio_segment_props(1) [OF fv [OF f] x] False by simp
  qed
  have starts: "\<forall>i < index_len (tr_samples f). i < sg_first_sample (part f k) \<longleftrightarrow>
        sm_decode_time (index_samples (tr_samples f) ! i)
          < sg_decode_time (hd (se_tracks (segs ! k))) * tr_timescale f div tr_timescale r"
    if f: "f \<in> set (follower_tracks index r)" and k: "k < length segs" for f k
    using audio_segment_props(4) [OF fv [OF f] p(3) [OF k, rule_format, OF f]] p(4) [OF k]
    by (simp del: nth_index_samples)
  have timed: "index_decode_time (tr_samples f) (sg_first_sample (part f k)) = ok (sg_decode_time (part f k))
      \<and> (if sg_end_sample (part f k) = index_len (tr_samples f) then track_end f
         else index_decode_time (tr_samples f) (sg_end_sample (part f k)))
        = ok (sg_decode_time (part f k) + sg_duration (part f k))"
    if f: "f \<in> set (follower_tracks index r)" and k: "k < length segs"
      and lt: "sg_first_sample (part f k) < index_len (tr_samples f)" for f k
    using audio_segment_times [OF fv [OF f] p(3) [OF k, rule_format, OF f] _ lt] meets [OF f k] by blast
  show ?thesis using p(2) meets starts timed by (intro exI [of _ part]) blast
qed

text \<open>
  The planner's properties at concrete inputs, and a plan that lists a part with no samples.
\<close>

definition even_samples :: "nat \<Rightarrow> nat list \<Rightarrow> sample list" where
  "even_samples start durations =
     map (\<lambda>i. \<lparr>sm_offset = start + 10 * i, sm_size = 10, sm_decode_time = sum_list (take i durations),
               sm_duration = durations ! i, sm_composition_offset = 0, sm_is_sync = (i mod 2 = 0)\<rparr>)
       [0..<length durations]"

definition index_of :: "sample list \<Rightarrow> sample_index" where
  "index_of xs = (case from_samples xs of Inr s \<Rightarrow> s | Inl _ \<Rightarrow> index_new tables_default)"

lemma index_of_valid:
  assumes "\<forall>x \<in> set xs. sample_fits x" "length xs \<le> u32_limit" "sorted (map sm_decode_time xs)"
  shows "index_valid (index_of xs)" "index_samples (index_of xs) = xs"
  using from_samples_ok [OF assms(1,2)] assms(3) by (auto simp: index_of_def index_valid_def)

definition planner_track :: "nat \<Rightarrow> track_kind \<Rightarrow> sample list \<Rightarrow> track" where
  "planner_track n k xs = \<lparr>tr_id = n, tr_key = VIDEO_KEY, tr_kind = k, tr_language = ''und'',
     tr_timeline_shift = 0, tr_timescale = 1000, tr_duration = 4000, tr_codec = Opus 2,
     tr_samples = index_of xs, tr_source_protection = None, tr_label = None\<rparr>"

definition example_video :: track where
  "example_video = planner_track 1 Video (even_samples 0 [500, 500, 500, 500, 500, 500, 500, 500])"

definition example_audio :: track where
  "example_audio = planner_track 2 Audio (even_samples 80 [400, 400, 1800, 1400])"

definition example_media :: media_index where
  "example_media = \<lparr>mi_source = \<lparr>id_origin = Remote_Origin ''u'' ''v'', id_length = 120,
       id_moov_hash = None, id_metadata_hash = None\<rparr>, mi_movie_timescale = 1000, mi_duration = 4000,
     mi_presentation_offset_ms = 0, mi_tracks = [example_video, example_audio],
     mi_skipped_tracks = [], mi_fragmentation = None\<rparr>"

definition example_plan :: segment_plan where
  "example_plan = (case plan example_media 1000 (limits_default None) of Inr p \<Rightarrow> p | Inl _ \<Rightarrow> [])"

lemma example_samples_ok:
  "\<forall>x \<in> set (even_samples 0 [500, 500, 500, 500, 500, 500, 500, 500]). sample_fits x"
  "sorted (map sm_decode_time (even_samples 0 [500, 500, 500, 500, 500, 500, 500, 500]))"
  "\<forall>x \<in> set (even_samples 80 [400, 400, 1800, 1400]). sample_fits x"
  "sorted (map sm_decode_time (even_samples 80 [400, 400, 1800, 1400]))"
  by code_simp+

lemma example_media_valid: "tracks_valid example_media"
  using index_of_valid(1) [OF example_samples_ok(1) _ example_samples_ok(2)]
    index_of_valid(1) [OF example_samples_ok(3) _ example_samples_ok(4)]
  by (simp add: tracks_valid_def example_media_def example_video_def example_audio_def planner_track_def
      even_samples_def)

lemma example_plan_eq: "plan example_media 1000 (limits_default None) = ok example_plan"
proof -
  have "projr (plan example_media 1000 (limits_default None)) = example_plan
      \<and> (case plan example_media 1000 (limits_default None) of Inr _ \<Rightarrow> True | Inl _ \<Rightarrow> False)"
    by code_simp
  then show ?thesis by (cases "plan example_media 1000 (limits_default None)") auto
qed

lemma example_plan_shape:
  "map (\<lambda>s. map (\<lambda>g. (sg_track_id g, sg_first_sample g, sg_end_sample g)) (se_tracks s)) example_plan =
     [ [(1, 0, 2), (2, 0, 3)], [(1, 2, 4), (2, 3, 3)], [(1, 4, 6), (2, 3, 4)], [(1, 6, 8)] ]"
  by code_simp

text \<open>
  Audio that leaves a segment without a sample start is listed in it with no samples, while it goes
  on later: the plan has a part that no fragment can be made of.
\<close>

theorem plan_lists_empty_part:
  "\<exists>segs. plan example_media 1000 (limits_default None) = ok segs
    \<and> (\<exists>s \<in> set segs. \<exists>g \<in> set (se_tracks s). sg_first_sample g = sg_end_sample g)"
proof -
  have "\<exists>x \<in> set (map (\<lambda>s. map (\<lambda>g. (sg_track_id g, sg_first_sample g, sg_end_sample g)) (se_tracks s)) example_plan).
      \<exists>(i, a, b) \<in> set x. a = b"
    unfolding example_plan_shape by simp
  then show ?thesis using example_plan_eq by auto
qed

theorem reference_cuts_greedy_witness:
  "\<exists>b. reference_boundaries example_video 1000 = ok b \<and> hd b = 0
    \<and> last b = index_len (tr_samples example_video) \<and> sorted_wrt (<) b \<and> 2 \<le> length b
    \<and> (\<forall>i \<in> set (tl (butlast b)). sm_is_sync (index_samples (tr_samples example_video) ! i))
    \<and> successively (next_cut (index_samples (tr_samples example_video)) 1000
         (cut_positions (index_samples (tr_samples example_video)))) (butlast b)
    \<and> (\<forall>j \<in> set (cut_positions (index_samples (tr_samples example_video))). last (butlast b) < j \<longrightarrow>
         sm_decode_time (index_samples (tr_samples example_video) ! j)
           < sat_target (index_samples (tr_samples example_video)) 1000 (last (butlast b)))"
proof (rule reference_cuts_greedy)
  show "index_valid (tr_samples example_video)"
    using example_media_valid by (simp add: tracks_valid_def example_media_def)
  show "index_samples (tr_samples example_video) \<noteq> []" by code_simp
qed

theorem plan_tiles_reference_witness:
  "\<exists>r. reference_track example_media = Some r \<and> example_plan \<noteq> []
    \<and> map se_index example_plan = [0..<length example_plan]
    \<and> sg_first_sample (hd (se_tracks (hd example_plan))) = 0
    \<and> sg_end_sample (hd (se_tracks (last example_plan))) = index_len (tr_samples r)
    \<and> (\<forall>k < length example_plan. let g = hd (se_tracks (example_plan ! k)) in
         sg_track_id g = tr_id r \<and> sg_first_sample g < sg_end_sample g
         \<and> sg_end_sample g \<le> index_len (tr_samples r)
         \<and> sg_end_sample g - sg_first_sample g \<le> max_samples_per_segment (limits_default None)
         \<and> index_decode_time (tr_samples r) (sg_first_sample g) = ok (sg_decode_time g))
    \<and> (\<forall>k. Suc k < length example_plan \<longrightarrow>
         (let g = hd (se_tracks (example_plan ! k)); h = hd (se_tracks (example_plan ! Suc k)) in
         sg_first_sample h = sg_end_sample g \<and> sg_decode_time h = sg_decode_time g + sg_duration g))
    \<and> (let g = hd (se_tracks (last example_plan)) in track_end r = ok (sg_decode_time g + sg_duration g))"
  by (rule plan_tiles_reference [OF example_media_valid example_plan_eq])

theorem plan_followers_meet_witness:
  "\<exists>part. (\<forall>k < length example_plan. tl (se_tracks (example_plan ! k)) =
        map (\<lambda>f. part f k)
          (filter (\<lambda>f. sg_first_sample (part f k) \<noteq> index_len (tr_samples f))
             (follower_tracks example_media example_video)))
    \<and> (\<forall>f \<in> set (follower_tracks example_media example_video). \<forall>k < length example_plan.
         sg_track_id (part f k) = tr_id f \<and> sg_first_sample (part f k) \<le> sg_end_sample (part f k)
         \<and> sg_end_sample (part f k) =
             (if Suc k = length example_plan then index_len (tr_samples f)
              else sg_first_sample (part f (Suc k)))
         \<and> (\<forall>i < index_len (tr_samples f). i < sg_first_sample (part f k) \<longleftrightarrow>
              sm_decode_time (index_samples (tr_samples f) ! i)
                < sg_decode_time (hd (se_tracks (example_plan ! k))) * tr_timescale f div tr_timescale example_video)
         \<and> (sg_first_sample (part f k) < index_len (tr_samples f) \<longrightarrow>
              index_decode_time (tr_samples f) (sg_first_sample (part f k)) = ok (sg_decode_time (part f k))
              \<and> (if sg_end_sample (part f k) = index_len (tr_samples f) then track_end f
                 else index_decode_time (tr_samples f) (sg_end_sample (part f k)))
                = ok (sg_decode_time (part f k) + sg_duration (part f k))))"
proof (rule plan_followers_meet [OF example_media_valid example_plan_eq])
  show "reference_track example_media = Some example_video"
    by (simp add: reference_track_def example_media_def example_video_def planner_track_def)
qed

end
