(* ===== verification/Edit_Lists.thy ===== *)
theory Edit_Lists
  imports Media_Index Complex_Main "HOL-Library.Signed_Division"
begin

text \<open>
  Edit lists (\<^verbatim>\<open>src/src/mp4/edit.rs\<close>): what a track's list asks for, the offset that all
  tracks share, each track's shift onto the shared timeline, and the trimming of a track.  The
  shared offset is computed in \<open>i128\<close>: each operation that can leave its range wraps.
\<close>

section \<open>Reading an edit list\<close>

definition MAX_EDIT_ENTRIES :: nat where
  "MAX_EDIT_ENTRIES = 16"

record elst_entry =
  el_segment_duration :: nat
  el_media_time :: nat
  el_media_rate :: nat
  el_media_rate_fraction :: nat

record track_edit =
  ed_media_time :: nat
  ed_delay :: nat
  ed_media_end :: "nat option"

definition NONE_EDIT :: track_edit where
  "NONE_EDIT = \<lparr>ed_media_time = 0, ed_delay = 0, ed_media_end = None\<rparr>"

definition is_empty_edit :: "elst_entry \<Rightarrow> nat \<Rightarrow> bool" where
  "is_empty_edit e version =
     (if version = 1 then el_media_time e = u64_limit - 1 else el_media_time e = u32_limit - 1)"

definition edit_unsupported :: "nat \<Rightarrow> string \<Rightarrow> error" where
  "edit_unsupported track_id detail = Unsupported (''track '' @ decimal track_id @ '': '' @ detail)"

text \<open>The one non-empty edit of a list and the gap before it, by the list's shape.\<close>

definition edit_shape :: "nat \<Rightarrow> elst_entry list \<Rightarrow> (nat \<times> elst_entry) option" where
  "edit_shape version entries =
     (case entries of
        [e] \<Rightarrow> if \<not> is_empty_edit e version then Some (0, e) else None
      | [gap, e] \<Rightarrow>
          if is_empty_edit gap version \<and> \<not> is_empty_edit e version
          then Some (el_segment_duration gap, e) else None
      | _ \<Rightarrow> None)"

definition parse_edit_list :: "nat \<Rightarrow> nat \<Rightarrow> elst_entry list \<Rightarrow> nat \<Rightarrow> nat \<Rightarrow> track_edit res" where
  "parse_edit_list track_id version entries movie_timescale track_timescale =
     (if MAX_EDIT_ENTRIES < length entries
      then fail (edit_unsupported track_id
             (''edit list has '' @ decimal (length entries) @ '' entries''))
      else if entries = [] then ok NONE_EDIT
      else
        and_then (ok_or (edit_shape version entries)
          (edit_unsupported track_id (''edit list shape is not supported ('' @ decimal (length entries)
             @ '' entries; only one edit, optionally after one empty edit, is)''))) (\<lambda>(delay, e).
        if el_media_rate e \<noteq> 1 \<or> el_media_rate_fraction e \<noteq> 0
        then fail (edit_unsupported track_id (''edit list plays media at rate ''
               @ decimal (el_media_rate e) @ ''.'' @ decimal (el_media_rate_fraction e)
               @ '', only rate 1 is supported''))
        else
          let negative_limit = (if version = 1 then 9223372036854775807 else 2147483647) in
          if negative_limit < el_media_time e
          then fail (InvalidMedia (''track '' @ decimal track_id @ '': edit list media_time is negative''))
          else if movie_timescale = 0 \<or> track_timescale = 0
          then fail (InvalidMedia (''track '' @ decimal track_id @ '': timescale is zero''))
          else ok \<lparr>ed_media_time = el_media_time e, ed_delay = delay, ed_media_end =
            (if el_segment_duration e \<noteq> 0
             then Some (case u64_of_nat (el_media_time e
                          + el_segment_duration e * track_timescale div movie_timescale) of
                    Some t \<Rightarrow> t | None \<Rightarrow> u64_limit - 1)
             else None)\<rparr>))"

section \<open>The shared timeline\<close>

text \<open>One step of the search for the greatest offset, as a fraction.\<close>

definition shared_step :: "nat \<Rightarrow> int \<times> int \<Rightarrow> track_edit \<times> nat \<Rightarrow> int \<times> int" where
  "shared_step movie_timescale = (\<lambda>(n, d) (e, timescale).
     let numerator = int (ed_media_time e) * int movie_timescale - int (ed_delay e) * int timescale;
         denominator = int timescale * int movie_timescale
     in if wrap_i128 (n * denominator) < wrap_i128 (numerator * d) then (numerator, denominator)
        else (n, d))"

definition shared_offset :: "(track_edit \<times> nat) list \<Rightarrow> nat \<Rightarrow> int \<times> int" where
  "shared_offset edits movie_timescale = foldl (shared_step movie_timescale) (0, 1) edits"

definition shared_offset_millis :: "(track_edit \<times> nat) list \<Rightarrow> nat \<Rightarrow> nat res" where
  "shared_offset_millis edits movie_timescale =
     (case shared_offset edits movie_timescale of (numerator, denominator) \<Rightarrow>
        if denominator = 0 then panic
        else ok (case u64_of_int ((2 * numerator * 1000 + denominator) sdiv (2 * denominator)) of
               Some n \<Rightarrow> n | None \<Rightarrow> 0))"

text \<open>\<open>div_euclid\<close> by a positive divisor is \<open>div\<close>; by zero it panics.\<close>

definition timeline_shift :: "nat \<Rightarrow> int \<times> int \<Rightarrow> track_edit \<times> nat \<Rightarrow> nat res" where
  "timeline_shift movie_timescale = (\<lambda>(n, d) (e, timescale).
     let movie = int movie_timescale;
         scaled = wrap_i128 (wrap_i128 (wrap_i128 (int (ed_delay e) * d) + wrap_i128 (n * movie)) * int timescale);
         denominator = movie * d
     in if denominator = 0 then panic
        else
          let ticks = wrap_i128 (wrap_i128 (2 * scaled) + denominator) div (2 * denominator) in
          ok_or (u64_of_int (ticks - int (ed_media_time e)))
            (InvalidMedia ''edit list timeline shift is out of range''))"

definition timeline_shifts :: "(track_edit \<times> nat) list \<Rightarrow> nat \<Rightarrow> nat list res" where
  "timeline_shifts edits movie_timescale =
     collect_res (map (timeline_shift movie_timescale (shared_offset edits movie_timescale)) edits)"

section \<open>Applying an edit\<close>

definition sample_end :: "sample \<Rightarrow> nat" where
  "sample_end s = saturating_add (sm_decode_time s) (sm_duration s)"

definition presents_at :: "sample \<Rightarrow> int" where
  "presents_at s = int (sm_decode_time s) + sm_composition_offset s"

definition trim_tail :: "track \<Rightarrow> nat \<Rightarrow> track res" where
  "trim_tail t end_time =
     and_then (iter_all (tr_samples t)) (\<lambda>xs.
     let first_cut = length (takeWhile (\<lambda>s. \<not> int end_time \<le> presents_at s) xs) in
     if first_cut = length xs then ok t
     else
       and_then (to_vec (tr_samples t) first_cut (index_len (tr_samples t))) (\<lambda>rest.
       if \<exists>s \<in> set rest. presents_at s < int end_time
       then fail (edit_unsupported (tr_id t) ''edit list ends inside a run of reordered samples'')
       else if first_cut = 0
       then fail (InvalidMedia (''track '' @ decimal (tr_id t)
              @ '': edit list ends before the first sample''))
       else and_then (index_window (tr_samples t) 0 first_cut) (\<lambda>w. ok (t\<lparr>tr_samples := w\<rparr>))))"

definition drop_padding :: "track \<Rightarrow> nat \<Rightarrow> track res" where
  "drop_padding t media_time =
     and_then (iter_all (tr_samples t)) (\<lambda>xs.
     and_then (index_window (tr_samples t)
        (length (takeWhile (\<lambda>s. sample_end s \<le> media_time) xs)) (index_len (tr_samples t))) (\<lambda>w.
       ok (t\<lparr>tr_samples := w\<rparr>)))"

definition apply_edit :: "track \<Rightarrow> track_edit \<Rightarrow> nat \<Rightarrow> track res" where
  "apply_edit t e shift =
     (if e = NONE_EDIT \<and> shift = 0 then ok t
      else
        and_then (case ed_media_end e of None \<Rightarrow> ok t | Some end_time \<Rightarrow> trim_tail t end_time) (\<lambda>t1.
        and_then (if tr_kind t1 = Audio then drop_padding t1 (ed_media_time e) else ok t1) (\<lambda>t2.
        and_then (index_last (tr_samples t2)) (\<lambda>l.
        and_then (ok_or l (InvalidMedia (''track '' @ decimal (tr_id t2)
                    @ '': edit list removes every sample''))) (\<lambda>last_sample.
        and_then (index_shifted (tr_samples t2) (int shift) ''decode timestamp overflow'') (\<lambda>s.
        and_then (ok_or (checked_add (sample_end last_sample) shift)
                    (InvalidMedia ''track duration overflow'')) (\<lambda>d.
          ok (t2\<lparr>tr_samples := s, tr_timeline_shift := shift, tr_duration := d\<rparr>))))))))"

end
