(* ===== verification/Edit_Lists_Laws.thy ===== *)
theory Edit_Lists_Laws
  imports Edit_Lists
begin

text \<open>
  The offset that all tracks share and the shifts, against the formulas over the rationals; the
  trimming of a track, against lists of samples.
\<close>

section \<open>The shared offset over the rationals\<close>

lemma frac_less_iff: "0 < b \<Longrightarrow> 0 < d \<Longrightarrow> (a / b :: rat) < c / d \<longleftrightarrow> a * d < c * b"
  by (simp add: field_simps)

definition edit_offset :: "nat \<Rightarrow> track_edit \<times> nat \<Rightarrow> rat" where
  "edit_offset movie = (\<lambda>(e, timescale).
     of_nat (ed_media_time e) / of_nat timescale - of_nat (ed_delay e) / of_nat movie)"

definition spec_offset :: "(track_edit \<times> nat) list \<Rightarrow> nat \<Rightarrow> rat" where
  "spec_offset edits movie = Max (insert 0 (edit_offset movie ` set edits))"

definition spec_shift :: "(track_edit \<times> nat) list \<Rightarrow> nat \<Rightarrow> track_edit \<times> nat \<Rightarrow> int" where
  "spec_shift edits movie = (\<lambda>(e, timescale).
     round ((of_nat (ed_delay e) / of_nat movie + spec_offset edits movie) * of_nat timescale)
       - int (ed_media_time e))"

text \<open>Times up to \<open>m\<close> and timescales up to \<open>t\<close>, small enough for \<open>i128\<close>.\<close>

definition edits_bounded :: "nat \<Rightarrow> nat \<Rightarrow> (track_edit \<times> nat) list \<Rightarrow> nat \<Rightarrow> bool" where
  "edits_bounded m t edits movie \<longleftrightarrow> 0 < movie \<and> movie \<le> t \<and> (4 * m + 1) * t ^ 3 < 2 ^ 127
     \<and> (\<forall>(e, timescale) \<in> set edits. 0 < timescale \<and> timescale \<le> t
          \<and> ed_media_time e \<le> m \<and> ed_delay e \<le> m)"

lemma wrap_i128_small: "\<bar>x\<bar> \<le> b \<Longrightarrow> b < 2 ^ 127 \<Longrightarrow> wrap_i128 x = x"
  by (rule wrap_i128_id) linarith+

lemma abs_mult_le:
  fixes a b c d :: int
  shows "\<bar>a\<bar> \<le> c \<Longrightarrow> \<bar>b\<bar> \<le> d \<Longrightarrow> \<bar>a * b\<bar> \<le> c * d"
  unfolding abs_mult by (rule mult_mono) auto

definition fraction_in :: "nat \<Rightarrow> nat \<Rightarrow> int \<times> int \<Rightarrow> bool" where
  "fraction_in m t = (\<lambda>(n, d). 0 \<le> n \<and> n \<le> int m * int t \<and> 0 < d \<and> d \<le> int t * int t)"

abbreviation fraction :: "int \<times> int \<Rightarrow> rat" where
  "fraction x \<equiv> of_int (fst x) / of_int (snd x)"

lemma shared_step_eq:
  assumes x: "fraction_in m t x" and b: "0 < movie" "movie \<le> t" "(4 * m + 1) * t ^ 3 < 2 ^ 127"
    and e: "0 < ts" "ts \<le> t" "ed_media_time e \<le> m" "ed_delay e \<le> m"
  shows "fraction_in m t (shared_step movie x (e, ts))
     \<and> fraction (shared_step movie x (e, ts)) = max (fraction x) (edit_offset movie (e, ts))"
proof -
  obtain n d where nd: "x = (n, d)" by (cases x)
  let ?num = "int (ed_media_time e) * int movie - int (ed_delay e) * int ts"
  let ?den = "int ts * int movie"
  let ?M = "int m" and ?T = "int t"
  have x': "0 \<le> n" "n \<le> ?M * ?T" "0 < d" "d \<le> ?T * ?T" using x nd by (auto simp: fraction_in_def)
  have "int ((4 * m + 1) * t ^ 3) < int (2 ^ 127)" using b(3) by (simp only: of_nat_less_iff)
  then have small: "(4 * ?M + 1) * ?T ^ 3 < 2 ^ 127" by (simp add: algebra_simps)
  have "?M * ?T ^ 3 \<le> (4 * ?M + 1) * ?T ^ 3" by (intro mult_right_mono) auto
  then have fits: "?M * ?T ^ 3 < 2 ^ 127" using small by linarith
  have "int (ed_media_time e) * int movie \<le> ?M * ?T" "int (ed_delay e) * int ts \<le> ?M * ?T"
    using b e by (auto intro!: mult_mono)
  moreover have "0 \<le> int (ed_media_time e) * int movie" "0 \<le> int (ed_delay e) * int ts" by auto
  ultimately have num: "\<bar>?num\<bar> \<le> ?M * ?T" "?num \<le> ?M * ?T" by linarith+
  have den: "0 < ?den" "?den \<le> ?T * ?T" using b e by (auto intro!: mult_mono)
  have abs: "\<bar>n\<bar> \<le> ?M * ?T" "\<bar>?den\<bar> \<le> ?T * ?T" "\<bar>d\<bar> \<le> ?T * ?T" using den x' by auto
  have "\<bar>n * ?den\<bar> \<le> (?M * ?T) * (?T * ?T)" "\<bar>?num * d\<bar> \<le> (?M * ?T) * (?T * ?T)"
    by (rule abs_mult_le [OF abs(1,2)], rule abs_mult_le [OF num(1) abs(3)])
  moreover have "(?M * ?T) * (?T * ?T) = ?M * ?T ^ 3" by (simp add: power3_eq_cube)
  ultimately have w: "wrap_i128 (n * ?den) = n * ?den" "wrap_i128 (?num * d) = ?num * d"
    using fits by (auto intro: wrap_i128_small)
  have off: "edit_offset movie (e, ts) = of_int ?num / of_int ?den"
    using b(1) e(1) by (simp add: edit_offset_def divide_simps)
  have iff: "n * ?den < ?num * d \<longleftrightarrow> (of_int n / of_int d :: rat) < of_int ?num / of_int ?den"
  proof -
    have "(of_int n / of_int d :: rat) < of_int ?num / of_int ?den
        \<longleftrightarrow> (of_int n * of_int ?den :: rat) < of_int ?num * of_int d"
      using x'(3) den(1) by (subst frac_less_iff) (simp_all del: of_int_mult of_int_diff)
    also have "\<dots> \<longleftrightarrow> n * ?den < ?num * d"
      by (metis of_int_less_iff of_int_mult)
    finally show ?thesis by simp
  qed
  show ?thesis
  proof (cases "n * ?den < ?num * d")
    case True
    then have step: "shared_step movie x (e, ts) = (?num, ?den)"
      using w by (simp add: shared_step_def nd)
    have "0 \<le> n * ?den" using x'(1) den(1) by simp
    then have "0 < ?num * d" using True by linarith
    then have "0 \<le> ?num" using x'(3) by (simp add: zero_less_mult_iff)
    then show ?thesis
      using step num den iff True unfolding off nd by (simp add: fraction_in_def max_def)
  next
    case False
    then have step: "shared_step movie x (e, ts) = x" using w by (simp add: shared_step_def nd)
    then show ?thesis using x iff False unfolding off nd by (simp add: max_def)
  qed
qed

lemma fold_max_eq:
  fixes f :: "'a \<Rightarrow> rat"
  shows "foldl (\<lambda>a x. max a (f x)) m xs = Max (insert m (f ` set xs))"
proof (induction xs arbitrary: m)
  case (Cons x xs)
  have "foldl (\<lambda>a x. max a (f x)) m (x # xs) = Max (insert (max m (f x)) (f ` set xs))"
    using Cons by simp
  also have "\<dots> = Max (insert m (insert (f x) (f ` set xs)))"
    by (cases "set xs = {}") (simp_all add: max.assoc)
  finally show ?case by simp
qed simp

lemma shared_fold:
  assumes "edits_bounded m t edits movie" "fraction_in m t x"
  shows "fraction_in m t (foldl (shared_step movie) x edits)
     \<and> fraction (foldl (shared_step movie) x edits)
         = foldl (\<lambda>a e. max a (edit_offset movie e)) (fraction x) edits"
  using assms
proof (induction edits arbitrary: x)
  case (Cons e edits)
  obtain ed ts where e: "e = (ed, ts)" by (cases e)
  have step: "fraction_in m t (shared_step movie x e)"
    "fraction (shared_step movie x e) = max (fraction x) (edit_offset movie e)"
    using shared_step_eq [OF Cons.prems(2), of movie ts ed] Cons.prems(1)
    by (auto simp: edits_bounded_def e)
  have "edits_bounded m t edits movie" using Cons.prems(1) by (simp add: edits_bounded_def)
  then show ?case using Cons.IH [OF _ step(1)] step(2) by simp
qed simp

lemma edits_bounded_timescale:
  assumes "edits_bounded m t edits movie"
  shows "0 < t" "0 < movie" "movie \<le> t" "(4 * int m + 1) * int t ^ 3 < 2 ^ 127"
proof -
  show "0 < movie" "movie \<le> t" "0 < t" using assms by (auto simp: edits_bounded_def)
  have "(4 * m + 1) * t ^ 3 < 2 ^ 127" using assms by (simp add: edits_bounded_def)
  then have "int ((4 * m + 1) * t ^ 3) < int (2 ^ 127)" by (simp only: of_nat_less_iff)
  then show "(4 * int m + 1) * int t ^ 3 < 2 ^ 127" by (simp add: algebra_simps)
qed

lemma shared_offset_eq:
  assumes "edits_bounded m t edits movie"
  shows "fraction_in m t (shared_offset edits movie)"
    "fraction (shared_offset edits movie) = spec_offset edits movie"
proof -
  have "1 \<le> int t * int t"
    using edits_bounded_timescale(1) [OF assms] mult_mono [of 1 "int t" 1 "int t"] by simp
  then have "fraction_in m t (0, 1)" by (simp add: fraction_in_def)
  from shared_fold [OF assms this]
  show "fraction_in m t (shared_offset edits movie)"
    "fraction (shared_offset edits movie) = spec_offset edits movie"
    by (simp_all add: shared_offset_def spec_offset_def fold_max_eq)
qed

section \<open>The shifts\<close>

lemma round_quotient:
  fixes a b :: int
  assumes "0 < b"
  shows "(2 * a + b) div (2 * b) = round (of_int a / of_int b :: rat)"
proof -
  have "(of_int a / of_int b + 1 / 2 :: rat) = of_int (2 * a + b) / of_int (2 * b)"
    using assms by (simp add: field_simps)
  then show ?thesis unfolding round_def by (simp only: floor_divide_of_int_eq)
qed

lemma timeline_shift_eq:
  assumes b: "edits_bounded m t edits movie" and e: "e \<in> set edits"
  shows "timeline_shift movie (shared_offset edits movie) e =
     ok_or (u64_of_int (spec_shift edits movie e)) (InvalidMedia ''edit list timeline shift is out of range'')"
proof -
  obtain ed ts where ed: "e = (ed, ts)" by (cases e)
  obtain n d where nd: "shared_offset edits movie = (n, d)" by (cases "shared_offset edits movie")
  let ?M = "int m" and ?T = "int t"
  note o' = shared_offset_eq [OF b, unfolded nd]
  note pos = edits_bounded_timescale [OF b]
  have x: "0 \<le> n" "n \<le> ?M * ?T" "0 < d" "d \<le> ?T * ?T" using o'(1) by (auto simp: fraction_in_def)
  have tb: "0 < ts" "ts \<le> t" "ed_delay ed \<le> m" using b e by (auto simp: edits_bounded_def ed)
  let ?a = "int (ed_delay ed) * d" and ?b = "n * int movie"
  have a: "0 \<le> ?a" "?a \<le> ?M * (?T * ?T)" using x tb by (auto intro!: mult_mono)
  have bb: "0 \<le> ?b" "?b \<le> (?M * ?T) * ?T" using x pos by (auto intro!: mult_mono)
  have sum: "0 \<le> ?a + ?b" "?a + ?b \<le> 2 * ?M * (?T * ?T)"
    using a bb by (auto simp: algebra_simps)
  let ?s = "(?a + ?b) * int ts"
  have "?s \<le> 2 * ?M * (?T * ?T) * ?T" using sum tb by (intro mult_mono) auto
  then have s: "0 \<le> ?s" "?s \<le> 2 * ?M * ?T ^ 3" using sum(1) by (auto simp: power3_eq_cube ac_simps)
  let ?den = "int movie * d"
  have "?den \<le> ?T * (?T * ?T)" using x pos by (auto intro!: mult_mono)
  then have den: "0 < ?den" "?den \<le> ?T ^ 3" using x pos by (auto simp: power3_eq_cube ac_simps)
  have lim: "4 * (?M * ?T ^ 3) + ?T ^ 3 < 2 ^ 127" using pos(4) by (simp add: algebra_simps)
  have "?T * ?T \<le> ?T ^ 3" using pos(1) mult_left_mono [of 1 ?T "?T * ?T"] by (simp add: power3_eq_cube)
  then have "?M * (?T * ?T) \<le> ?M * ?T ^ 3" by (intro mult_left_mono) auto
  then have ab: "?a \<le> ?M * ?T ^ 3" "?b \<le> ?M * ?T ^ 3" using a bb by (auto simp: ac_simps)
  have t3: "0 \<le> ?T ^ 3" "0 \<le> ?M * ?T ^ 3" by auto
  have w: "wrap_i128 ?a = ?a" "wrap_i128 ?b = ?b" "wrap_i128 (?a + ?b) = ?a + ?b" "wrap_i128 ?s = ?s"
    "wrap_i128 (2 * ?s) = 2 * ?s" "wrap_i128 (2 * ?s + ?den) = 2 * ?s + ?den"
    using a(1) bb(1) ab s den lim t3 by (intro wrap_i128_id, linarith, linarith)+
  have "(of_int ?s / of_int ?den :: rat) =
      (of_nat (ed_delay ed) / of_nat movie + spec_offset edits movie) * of_nat ts"
    unfolding o'(2) [symmetric] using x(3) pos(2) by (simp add: field_simps)
  then have "(2 * ?s + ?den) div (2 * ?den) - int (ed_media_time ed) = spec_shift edits movie e"
    using round_quotient [OF den(1), of ?s] by (simp add: spec_shift_def ed)
  then show ?thesis
    using pos(2) x(3) unfolding timeline_shift_def nd ed by (simp add: w)
qed

lemma spec_offset_ge: "e \<in> set edits \<Longrightarrow> edit_offset movie e \<le> spec_offset edits movie"
  unfolding spec_offset_def by (intro Max_ge) auto

lemma spec_shift_nonneg:
  assumes "edits_bounded m t edits movie" "e \<in> set edits"
  shows "0 \<le> spec_shift edits movie e"
proof -
  obtain ed ts where ed: "e = (ed, ts)" by (cases e)
  have ts: "0 < ts" using assms by (auto simp: edits_bounded_def ed)
  have "(of_nat (ed_delay ed) / of_nat movie + edit_offset movie e) * of_nat ts
      \<le> (of_nat (ed_delay ed) / of_nat movie + spec_offset edits movie) * of_nat ts"
    using spec_offset_ge [OF assms(2)] by (intro mult_right_mono) auto
  moreover have "(of_nat (ed_delay ed) / of_nat movie + edit_offset movie e) * of_nat ts
      = of_nat (ed_media_time ed)"
    using ts by (simp add: edit_offset_def ed)
  ultimately have "round (of_nat (ed_media_time ed) :: rat)
      \<le> round ((of_nat (ed_delay ed) / of_nat movie + spec_offset edits movie) * of_nat ts)"
    by (intro round_mono) simp
  then show ?thesis by (simp add: spec_shift_def ed)
qed

lemma spec_shift_zero:
  assumes "edits_bounded m t edits movie" "0 < spec_offset edits movie"
  shows "\<exists>e \<in> set edits. spec_shift edits movie e = 0"
proof -
  have "spec_offset edits movie \<in> insert 0 (edit_offset movie ` set edits)"
    unfolding spec_offset_def by (rule Max_in) auto
  then obtain e where e: "e \<in> set edits" "spec_offset edits movie = edit_offset movie e"
    using assms(2) by auto
  obtain ed ts where ed: "e = (ed, ts)" by (cases e)
  have "0 < ts" using assms e by (auto simp: edits_bounded_def ed)
  then have "(of_nat (ed_delay ed) / of_nat movie + spec_offset edits movie) * of_nat ts
      = (of_nat (ed_media_time ed) :: rat)"
    unfolding e(2) by (simp add: edit_offset_def ed)
  then have "spec_shift edits movie e = 0" by (simp add: spec_shift_def ed)
  then show ?thesis using e(1) by blast
qed

lemma shared_offset_millis_eq:
  assumes "edits_bounded m t edits movie"
  shows "shared_offset_millis edits movie = ok (case u64_of_int (round (spec_offset edits movie * 1000)) of
     Some n \<Rightarrow> n | None \<Rightarrow> 0)"
proof -
  obtain n d where nd: "shared_offset edits movie = (n, d)" by (cases "shared_offset edits movie")
  note o' = shared_offset_eq [OF assms, unfolded nd]
  have x: "0 \<le> n" "0 < d" using o'(1) by (auto simp: fraction_in_def)
  have "(2 * n * 1000 + d) sdiv (2 * d) = (2 * (n * 1000) + d) div (2 * d)"
    using x by (simp add: signed_divide_int_def)
  also have "\<dots> = round (of_int (n * 1000) / of_int d :: rat)" by (rule round_quotient [OF x(2)])
  also have "(of_int (n * 1000) / of_int d :: rat) = spec_offset edits movie * 1000"
    unfolding o'(2) [symmetric] by simp
  finally show ?thesis using x(2) by (simp add: shared_offset_millis_def nd)
qed

section \<open>Trimming, as lists of samples\<close>

definition spec_trim :: "track_edit \<Rightarrow> sample list \<Rightarrow> sample list" where
  "spec_trim e xs =
     (case ed_media_end e of None \<Rightarrow> xs
      | Some m \<Rightarrow> takeWhile (\<lambda>s. presents_at s < int m) xs)"

definition spec_edited :: "track_kind \<Rightarrow> track_edit \<Rightarrow> sample list \<Rightarrow> sample list" where
  "spec_edited kind e xs =
     (if kind = Audio then dropWhile (\<lambda>s. sample_end s \<le> ed_media_time e) (spec_trim e xs)
      else spec_trim e xs)"

text \<open>The samples cut off the tail all play at or after the edit's end.\<close>

definition tail_trimmable :: "track_edit \<Rightarrow> sample list \<Rightarrow> bool" where
  "tail_trimmable e xs \<longleftrightarrow> (case ed_media_end e of None \<Rightarrow> True
     | Some m \<Rightarrow> \<forall>s \<in> set (dropWhile (\<lambda>s. presents_at s < int m) xs). int m \<le> presents_at s)"

definition last_end :: "sample list \<Rightarrow> nat" where
  "last_end xs = sm_decode_time (last xs) + sm_duration (last xs)"

definition spec_apply :: "track \<Rightarrow> track_edit \<Rightarrow> nat \<Rightarrow> sample list res" where
  "spec_apply t e shift =
     (let xs = index_samples (tr_samples t); ys = spec_edited (tr_kind t) e xs in
      if e = NONE_EDIT \<and> shift = 0 then ok xs
      else if \<not> tail_trimmable e xs
      then fail (edit_unsupported (tr_id t) ''edit list ends inside a run of reordered samples'')
      else if xs \<noteq> [] \<and> spec_trim e xs = []
      then fail (InvalidMedia (''track '' @ decimal (tr_id t) @ '': edit list ends before the first sample''))
      else if ys = []
      then fail (InvalidMedia (''track '' @ decimal (tr_id t) @ '': edit list removes every sample''))
      else if u64_limit \<le> last_end ys + shift
      then fail (InvalidMedia ''decode timestamp overflow'')
      else ok (map (shift_sample (int shift)) ys))"

definition same_but_samples :: "track \<Rightarrow> sample list \<Rightarrow> track \<Rightarrow> bool" where
  "same_but_samples t ys t' \<longleftrightarrow>
     (\<exists>s. index_valid s \<and> index_samples s = ys \<and> t' = t\<lparr>tr_samples := s\<rparr>)"

definition applied :: "track \<Rightarrow> track_edit \<Rightarrow> nat \<Rightarrow> track \<Rightarrow> sample list \<Rightarrow> bool" where
  "applied t e shift t' ys \<longleftrightarrow> same_but_samples
     (if e = NONE_EDIT \<and> shift = 0 then t
      else t\<lparr>tr_timeline_shift := shift, tr_duration := last_end ys\<rparr>) ys t'"

lemma track_samples_same [simp]: "t\<lparr>tr_samples := tr_samples t\<rparr> = t"
  by (cases t) simp

lemma same_but_samples_refl: "index_valid (tr_samples t) \<Longrightarrow> same_but_samples t (index_samples (tr_samples t)) t"
  unfolding same_but_samples_def by (rule exI [of _ "tr_samples t"]) simp

lemma index_validD: "index_valid s \<Longrightarrow> index_wf s"
  by (simp add: index_valid_def)

lemma window_prefix:
  assumes "index_valid (tr_samples t)" "n \<le> index_len (tr_samples t)"
  shows "\<exists>w. index_window (tr_samples t) 0 n = ok w
     \<and> same_but_samples t (take n (index_samples (tr_samples t))) (t\<lparr>tr_samples := w\<rparr>)"
  using si.window_law [OF assms(1), of 0 n] assms(2) by (auto simp: same_but_samples_def subslice_def)

lemma window_suffix:
  assumes "index_valid (tr_samples t)" "n \<le> index_len (tr_samples t)"
  shows "\<exists>w. index_window (tr_samples t) n (index_len (tr_samples t)) = ok w
     \<and> same_but_samples t (drop n (index_samples (tr_samples t))) (t\<lparr>tr_samples := w\<rparr>)"
  using si.window_law [OF assms(1,2)] by (auto simp: same_but_samples_def subslice_def)

lemma trim_tail_eq:
  assumes v: "index_valid (tr_samples t)" and m: "ed_media_end e = Some m"
  defines "xs \<equiv> index_samples (tr_samples t)"
  shows "if \<not> tail_trimmable e xs
       then trim_tail t m = fail (edit_unsupported (tr_id t) ''edit list ends inside a run of reordered samples'')
     else if xs \<noteq> [] \<and> spec_trim e xs = []
       then trim_tail t m = fail (InvalidMedia (''track '' @ decimal (tr_id t)
              @ '': edit list ends before the first sample''))
     else \<exists>t'. trim_tail t m = ok t' \<and> same_but_samples t (spec_trim e xs) t'"
proof -
  let ?P = "\<lambda>s. presents_at s < int m"
  let ?n = "length (takeWhile ?P xs)"
  have p: "(\<lambda>s. \<not> int m \<le> presents_at s) = ?P" by (auto simp: not_le)
  have le: "?n \<le> length xs" by (rule length_takeWhile_le)
  have len: "length xs = index_len (tr_samples t)" by (simp add: xs_def)
  have all: "iter_all (tr_samples t) = ok xs" using iter_all_ok [OF index_validD [OF v]] by (simp add: xs_def)
  have rest: "to_vec (tr_samples t) ?n (index_len (tr_samples t)) = ok (dropWhile ?P xs)"
    using to_vec_ok [OF index_validD [OF v], of ?n "index_len (tr_samples t)"] le len
    by (simp add: subslice_def xs_def [symmetric] dropWhile_eq_drop)
  have trim: "spec_trim e xs = takeWhile ?P xs" by (simp add: spec_trim_def m)
  have bad: "(\<exists>s \<in> set (dropWhile ?P xs). presents_at s < int m) \<longleftrightarrow> \<not> tail_trimmable e xs"
    by (auto simp: tail_trimmable_def m not_le)
  have step: "trim_tail t m = (if ?n = length xs then ok t
       else if \<not> tail_trimmable e xs
       then fail (edit_unsupported (tr_id t) ''edit list ends inside a run of reordered samples'')
       else if ?n = 0
       then fail (InvalidMedia (''track '' @ decimal (tr_id t) @ '': edit list ends before the first sample''))
       else and_then (index_window (tr_samples t) 0 ?n) (\<lambda>w. ok (t\<lparr>tr_samples := w\<rparr>)))"
    using all rest bad by (simp add: trim_tail_def p)
  show ?thesis
  proof (cases "?n = length xs")
    case True
    then have whole: "takeWhile ?P xs = xs" by (metis takeWhile_eq_take take_all order_refl)
    have same: "same_but_samples t (takeWhile ?P xs) t"
      unfolding whole using same_but_samples_refl [OF v] by (simp add: xs_def)
    have "dropWhile ?P xs = []" using whole takeWhile_dropWhile_id [of ?P xs] by (metis append_self_conv)
    then have "tail_trimmable e xs" unfolding tail_trimmable_def m by (simp only: option.case) simp
    then show ?thesis unfolding step trim using True same by simp
  next
    case False
    obtain w where w: "index_window (tr_samples t) 0 ?n = ok w"
      "same_but_samples t (take ?n xs) (t\<lparr>tr_samples := w\<rparr>)"
      using window_prefix [OF v, of ?n] le len by (auto simp: xs_def)
    then have "same_but_samples t (takeWhile ?P xs) (t\<lparr>tr_samples := w\<rparr>)"
      by (simp flip: takeWhile_eq_take)
    moreover have "?n = 0 \<longleftrightarrow> xs \<noteq> [] \<and> takeWhile ?P xs = []" using False by auto
    ultimately show ?thesis unfolding step trim using False w(1) by auto
  qed
qed

lemma drop_padding_eq:
  assumes v: "index_valid (tr_samples t)"
  shows "\<exists>t'. drop_padding t m = ok t'
     \<and> same_but_samples t (dropWhile (\<lambda>s. sample_end s \<le> m) (index_samples (tr_samples t))) t'"
proof -
  let ?P = "\<lambda>s. sample_end s \<le> m" and ?xs = "index_samples (tr_samples t)"
  let ?n = "length (takeWhile ?P ?xs)"
  have "?n \<le> index_len (tr_samples t)" using length_takeWhile_le [of ?P ?xs] by simp
  then obtain w where w: "index_window (tr_samples t) ?n (index_len (tr_samples t)) = ok w"
    "same_but_samples t (drop ?n ?xs) (t\<lparr>tr_samples := w\<rparr>)"
    using window_suffix [OF v] by blast
  then show ?thesis
    using iter_all_ok [OF index_validD [OF v]] by (simp add: drop_padding_def dropWhile_eq_drop)
qed

text \<open>The end of an edited track and its shift.\<close>

definition place_edited :: "track \<Rightarrow> nat \<Rightarrow> track res" where
  "place_edited t2 shift =
     and_then (index_last (tr_samples t2)) (\<lambda>l.
     and_then (ok_or l (InvalidMedia (''track '' @ decimal (tr_id t2)
                 @ '': edit list removes every sample''))) (\<lambda>last_sample.
     and_then (index_shifted (tr_samples t2) (int shift) ''decode timestamp overflow'') (\<lambda>s.
     and_then (ok_or (checked_add (sample_end last_sample) shift)
                 (InvalidMedia ''track duration overflow'')) (\<lambda>d.
       ok (t2\<lparr>tr_samples := s, tr_timeline_shift := shift, tr_duration := d\<rparr>)))))"

lemma apply_edit_place:
  "apply_edit t e shift = (if e = NONE_EDIT \<and> shift = 0 then ok t
     else and_then (case ed_media_end e of None \<Rightarrow> ok t | Some end_time \<Rightarrow> trim_tail t end_time) (\<lambda>t1.
       and_then (if tr_kind t1 = Audio then drop_padding t1 (ed_media_time e) else ok t1) (\<lambda>t2.
         place_edited t2 shift)))"
  by (simp add: apply_edit_def place_edited_def)

lemma last_end_shift:
  assumes "xs \<noteq> []"
  shows "last_end (map (shift_sample (int n)) xs) = last_end xs + n"
  using assms by (simp add: last_end_def last_map shift_sample_def nat_int_add)

lemma place_edited_eq:
  assumes v: "index_valid (tr_samples t)"
  defines "ys \<equiv> index_samples (tr_samples t)"
  shows "if ys = []
       then place_edited t shift = fail (InvalidMedia (''track '' @ decimal (tr_id t) @ '': edit list removes every sample''))
     else if u64_limit \<le> last_end ys + shift
       then place_edited t shift = fail (InvalidMedia ''decode timestamp overflow'')
     else \<exists>s. place_edited t shift = ok (t\<lparr>tr_timeline_shift := shift,
              tr_duration := last_end ys + shift, tr_samples := s\<rparr>)
       \<and> index_valid s \<and> index_samples s = map (shift_sample (int shift)) ys"
proof (cases "ys = []")
  case True
  then show ?thesis
    using index_last_ok [OF index_validD [OF v]] by (simp add: place_edited_def last_opt_def ys_def)
next
  case ne: False
  have l: "index_last (tr_samples t) = ok (Some (last ys))"
    using index_last_ok [OF index_validD [OF v]] ne by (simp add: last_opt_def ys_def)
  have sh: "index_shifted (tr_samples t) (int shift) m =
      (if u64_limit \<le> last_end ys + shift then fail (InvalidMedia m)
       else ok ((tr_samples t)\<lparr>si_shift := si_shift (tr_samples t) + int shift\<rparr>))" for m
    using ne index_first_ok [OF index_validD [OF v]] l
    by (auto simp: index_shifted_def ys_def [symmetric] last_end_def u64_of_int_def)
  show ?thesis
  proof (cases "u64_limit \<le> last_end ys + shift")
    case True
    then show ?thesis using ne l sh by (simp add: place_edited_def)
  next
    case False
    define s where "s = (tr_samples t)\<lparr>si_shift := si_shift (tr_samples t) + int shift\<rparr>"
    have s: "index_shifted (tr_samples t) (int shift) ''decode timestamp overflow'' = ok s"
      using sh False by (simp add: s_def)
    have "index_valid s"
      using v s by (auto simp: index_valid_def intro: inv_intros)
    moreover have "index_samples s = map (shift_sample (int shift)) ys"
      using index_shifted_samples [OF index_validD [OF v] s] by (simp add: ys_def)
    moreover have "sample_end (last ys) = last_end ys"
      using False by (simp add: sample_end_def last_end_def saturating_add_def)
    ultimately show ?thesis using ne False l s
      by (auto simp: place_edited_def checked_add_def intro!: exI [of _ s])
  qed
qed

lemma apply_edit_sim:
  assumes v: "index_valid (tr_samples t)"
  shows "sim (applied t e shift) (apply_edit t e shift) (spec_apply t e shift)"
proof (cases "e = NONE_EDIT \<and> shift = 0")
  case True
  then show ?thesis using same_but_samples_refl [OF v] by (simp add: apply_edit_def spec_apply_def applied_def)
next
  case on: False
  let ?xs = "index_samples (tr_samples t)"
  let ?trim = "case ed_media_end e of None \<Rightarrow> ok t | Some end_time \<Rightarrow> trim_tail t end_time"
  show ?thesis
  proof (cases "tail_trimmable e ?xs \<and> \<not> (?xs \<noteq> [] \<and> spec_trim e ?xs = [])")
    case False
    obtain m where m: "ed_media_end e = Some m"
      using False by (cases "ed_media_end e") (auto simp: tail_trimmable_def spec_trim_def)
    show ?thesis
      using on False trim_tail_eq [OF v m] by (auto simp: apply_edit_place spec_apply_def m)
  next
    case good: True
    obtain t1 where t1: "?trim = ok t1" "same_but_samples t (spec_trim e ?xs) t1"
    proof (cases "ed_media_end e")
      case None
      then show ?thesis using that same_but_samples_refl [OF v] by (simp add: spec_trim_def)
    next
      case (Some m)
      then show ?thesis using that good trim_tail_eq [OF v Some] by auto
    qed
    obtain s1 where s1: "t1 = t\<lparr>tr_samples := s1\<rparr>" "index_valid s1" "index_samples s1 = spec_trim e ?xs"
      using t1(2) by (auto simp: same_but_samples_def)
    let ?ys = "spec_edited (tr_kind t) e ?xs"
    obtain s2 where s2: "(if tr_kind t1 = Audio then drop_padding t1 (ed_media_time e) else ok t1)
        = ok (t\<lparr>tr_samples := s2\<rparr>)" "index_valid s2" "index_samples s2 = ?ys"
    proof (cases "tr_kind t = Audio")
      case True
      then show ?thesis
        using that drop_padding_eq [of t1 "ed_media_time e"] s1
        by (auto simp: same_but_samples_def spec_edited_def)
    next
      case False
      then show ?thesis using that s1 by (simp add: spec_edited_def)
    qed
    have run: "apply_edit t e shift = place_edited (t\<lparr>tr_samples := s2\<rparr>) shift"
      unfolding apply_edit_place t1(1) and_then_simps s2(1) using on by (simp only: if_False)
    have fits: "spec_apply t e shift = (if ?ys = []
      then fail (InvalidMedia (''track '' @ decimal (tr_id t) @ '': edit list removes every sample''))
      else if u64_limit \<le> last_end ?ys + shift
      then fail (InvalidMedia ''decode timestamp overflow'')
      else ok (map (shift_sample (int shift)) ?ys))"
      using on good by (auto simp: spec_apply_def)
    show ?thesis
      using place_edited_eq [of "t\<lparr>tr_samples := s2\<rparr>" shift] s2(2,3) on
      unfolding run fits applied_def same_but_samples_def
      by (auto simp: last_end_shift) blast+
  qed
qed

section \<open>Properties\<close>

text \<open>
  C26 The shifts are exactly those of the formula of the source's comment, computed over the
  rationals: \<open>O\<close> is the greatest of the offsets and 0, and a track's shift is
  \<open>round ((delay / movie + O) * timescale) - media_time\<close>.  None is negative, and one is exactly zero
  when \<open>O\<close> is positive.  The only failure is a shift past 64 bits.
\<close>

theorem timeline_shifts_exact:
  assumes "edits_bounded m t edits movie"
  shows "timeline_shifts edits movie =
       (if \<forall>e \<in> set edits. spec_shift edits movie e < int u64_limit
        then ok (map (nat \<circ> spec_shift edits movie) edits)
        else fail (InvalidMedia ''edit list timeline shift is out of range''))
     \<and> (\<forall>e \<in> set edits. 0 \<le> spec_shift edits movie e)
     \<and> (0 < spec_offset edits movie \<longrightarrow> (\<exists>e \<in> set edits. spec_shift edits movie e = 0))"
proof -
  let ?f = "spec_shift edits movie" and ?err = "InvalidMedia ''edit list timeline shift is out of range''"
  have nn: "\<forall>e \<in> set edits. 0 \<le> ?f e" using spec_shift_nonneg [OF assms] by blast
  have "timeline_shifts edits movie = collect_res (map (\<lambda>e. ok_or (u64_of_int (?f e)) ?err) edits)"
    unfolding timeline_shifts_def using timeline_shift_eq [OF assms] by (simp cong: map_cong)
  moreover have "collect_res (map (\<lambda>e. ok_or (u64_of_int (?f e)) ?err) xs) =
      (if \<forall>e \<in> set xs. ?f e < int u64_limit then ok (map (nat \<circ> ?f) xs) else fail ?err)"
    if "\<forall>e \<in> set xs. 0 \<le> ?f e" for xs
    using that by (induction xs) (auto simp: u64_of_int_def)
  ultimately show ?thesis using nn spec_shift_zero [OF assms] by simp
qed

definition example_edits :: "(track_edit \<times> nat) list" where
  "example_edits =
     [(\<lparr>ed_media_time = 2002, ed_delay = 0, ed_media_end = None\<rparr>, 24000),
      (\<lparr>ed_media_time = 1024, ed_delay = 500, ed_media_end = Some 96000\<rparr>, 48000)]"

lemma example_edits_bounded: "edits_bounded 5000 48000 example_edits 1000"
  by (simp add: edits_bounded_def example_edits_def)

lemma example_spec:
  "spec_offset example_edits 1000 = 1001 / 12000"
  "map (spec_shift example_edits 1000) example_edits = [0, 26980]"
proof -
  show o: "spec_offset example_edits 1000 = 1001 / 12000"
    by (simp add: spec_offset_def example_edits_def edit_offset_def max_def)
  show "map (spec_shift example_edits 1000) example_edits = [0, 26980]"
    unfolding spec_shift_def o by (simp add: example_edits_def round_def floor_eq_iff)
qed

theorem timeline_shifts_exact_witness:
  "timeline_shifts example_edits 1000 = ok [0, 26980]
   \<and> (\<exists>e \<in> set example_edits. spec_shift example_edits 1000 e = 0)"
proof -
  have "set (map (spec_shift example_edits 1000) example_edits) = {0, 26980}" by (simp add: example_spec(2))
  then have "spec_shift example_edits 1000 e \<in> {0, 26980}" if "e \<in> set example_edits" for e
    using that by (metis image_eqI set_map)
  then have "\<forall>e \<in> set example_edits. spec_shift example_edits 1000 e < int u64_limit" by fastforce
  moreover have "map (nat \<circ> spec_shift example_edits 1000) example_edits = [0, 26980]"
    using arg_cong [OF example_spec(2), of "map nat"] by (simp add: comp_def)
  ultimately show ?thesis
    using timeline_shifts_exact [OF example_edits_bounded] example_spec(1) by simp
qed

text \<open>
  The presentation offset in milliseconds is the shared offset rounded to the nearest, and 0 when it
  does not fit 64 bits.
\<close>

theorem presentation_offset_rounded:
  assumes "edits_bounded m t edits movie"
  shows "shared_offset_millis edits movie =
     ok (case u64_of_int (round (spec_offset edits movie * 1000)) of Some n \<Rightarrow> n | None \<Rightarrow> 0)"
  by (rule shared_offset_millis_eq [OF assms])

theorem presentation_offset_rounded_witness:
  "shared_offset_millis example_edits 1000 =
     ok (case u64_of_int (round (spec_offset example_edits 1000 * 1000)) of Some n \<Rightarrow> n | None \<Rightarrow> 0)"
  by (rule presentation_offset_rounded [OF example_edits_bounded])

text \<open>
  C27 Applying an edit to a track does, on every branch, what the edit says of the track's samples:
  the samples from its end on are cut, the whole audio samples before its start are dropped, and
  the rest is moved by the shift, with the duration the end of the last one; the errors are the
  listed ones and no others, and nothing panics.
\<close>

theorem edit_applied:
  assumes "index_valid (tr_samples t)"
  shows "sim (applied t e shift) (apply_edit t e shift) (spec_apply t e shift)"
  by (rule apply_edit_sim [OF assms])

definition example_edited :: track where
  "example_edited = \<lparr>tr_id = 2, tr_key = audio_key 1, tr_kind = Audio, tr_language = ''und'',
     tr_timeline_shift = 0, tr_timescale = 1000, tr_duration = 39, tr_codec = Aac 48000 2 2,
     tr_samples = example_index, tr_source_protection = None, tr_label = None\<rparr>"

theorem edit_applied_witness:
  "sim (applied example_edited \<lparr>ed_media_time = 15, ed_delay = 0, ed_media_end = Some 25\<rparr> 7)
     (apply_edit example_edited \<lparr>ed_media_time = 15, ed_delay = 0, ed_media_end = Some 25\<rparr> 7)
     (spec_apply example_edited \<lparr>ed_media_time = 15, ed_delay = 0, ed_media_end = Some 25\<rparr> 7)"
  by (rule edit_applied) (simp add: example_edited_def example_index_valid)

lemma example_edit_result:
  "and_then (apply_edit example_edited \<lparr>ed_media_time = 15, ed_delay = 0, ed_media_end = Some 25\<rparr> 7)
     (\<lambda>t. and_then (iter_all (tr_samples t)) (\<lambda>xs. ok (map sm_decode_time xs, tr_duration t)))
   = ok ([22, 32], 39)"
  by code_simp

text \<open>
  The bound on times and timescales is needed.  A track delayed by two seconds, with timescales near
  the top of their range, loses its delay: a product leaves \<open>i128\<close> and the wrong offset is taken.
\<close>

definition wrapping_edits :: "(track_edit \<times> nat) list" where
  "wrapping_edits =
     [(\<lparr>ed_media_time = 1, ed_delay = 0, ed_media_end = None\<rparr>, 4294967295),
      (\<lparr>ed_media_time = 0, ed_delay = 8589934592, ed_media_end = None\<rparr>, 2147483648)]"

lemma timeline_shift_value:
  assumes "int movie * d \<noteq> 0"
    "wrap_i128 (wrap_i128 (wrap_i128 (int (ed_delay e) * d) + wrap_i128 (n * int movie)) * int ts) = s"
    "wrap_i128 (wrap_i128 (2 * s) + int movie * d) div (2 * (int movie * d)) - int (ed_media_time e) = r"
    "0 \<le> r" "r < int u64_limit"
  shows "timeline_shift movie (n, d) (e, ts) = ok (nat r)"
  using assms by (simp add: timeline_shift_def)

lemma wrapping_offset:
  "shared_offset wrapping_edits 4294967295 = (- 18446744073709551616, 9223372034707292160)"
  by (simp add: shared_offset_def shared_step_def wrapping_edits_def wrap_i128_code)

theorem shifts_lose_delay:
  "timeline_shifts wrapping_edits 4294967295 = ok [3, 0]
   \<and> map (spec_shift wrapping_edits 4294967295) wrapping_edits = [0, 4294967298]"
proof
  have "timeline_shift 4294967295 (- 18446744073709551616, 9223372034707292160) (wrapping_edits ! 0) = ok (nat 3)"
    unfolding wrapping_edits_def nth_Cons_0
    by (rule timeline_shift_value [where s = 158456325010081931113378349056]; simp add: wrap_i128_code)
  moreover have
    "timeline_shift 4294967295 (- 18446744073709551616, 9223372034707292160) (wrapping_edits ! Suc 0) = ok (nat 0)"
    unfolding wrapping_edits_def nth_Cons_0 nth_Cons_Suc
    by (rule timeline_shift_value [where s = 0]; simp add: wrap_i128_code)
  ultimately show "timeline_shifts wrapping_edits 4294967295 = ok [3, 0]"
    unfolding timeline_shifts_def wrapping_offset by (simp add: wrapping_edits_def)
  have "spec_offset wrapping_edits 4294967295 = 1 / 4294967295"
    by (simp add: spec_offset_def wrapping_edits_def edit_offset_def max_def)
  then show "map (spec_shift wrapping_edits 4294967295) wrapping_edits = [0, 4294967298]"
    by (simp add: spec_shift_def wrapping_edits_def round_def floor_eq_iff)
qed

end
