(* ===== verification/Fragment_Writer.thy ===== *)
theory Fragment_Writer
  imports Box_Writer Segment_Planner
begin

text \<open>
  The writer of media segments (\<^verbatim>\<open>src/src/fmp4/fragment.rs\<close>): one \<^verbatim>\<open>moof\<close> and the header of one
  \<^verbatim>\<open>mdat\<close>, for one track, for several tracks together, for a clear fragment of an asset with
  rotating keys and for an encrypted fragment, with the byte ranges of the source that follow it.
  What is left to encrypt (\<open>PendingEncryption\<close>) is a parameter of the record of a prepared segment.
\<close>

definition TRUN_FLAGS :: nat where "TRUN_FLAGS = 0xf01"
definition TFHD_DEFAULT_BASE_IS_MOOF :: nat where "TFHD_DEFAULT_BASE_IS_MOOF = 0x020000"
definition SYNC_SAMPLE_FLAGS :: nat where "SYNC_SAMPLE_FLAGS = 0x02000000"
definition NON_SYNC_SAMPLE_FLAGS :: nat where "NON_SYNC_SAMPLE_FLAGS = 0x01010000"

record 'e prepared_segment =
  ps_header :: bytes
  ps_ranges :: "byte_range list"
  ps_content_length :: nat
  ps_encryption :: "'e option"

section \<open>Boxes of a fragment\<close>

definition sample_flags_of :: "track_kind \<Rightarrow> sample \<Rightarrow> nat" where
  "sample_flags_of kind s =
     (case kind of Audio \<Rightarrow> SYNC_SAMPLE_FLAGS
      | Video \<Rightarrow> if sm_is_sync s then SYNC_SAMPLE_FLAGS else NON_SYNC_SAMPLE_FLAGS)"

definition trun_entry :: "track_kind \<Rightarrow> sample \<Rightarrow> bytes" where
  "trun_entry kind s = be_bytes 4 (sm_duration s) @ be_bytes 4 (sm_size s)
     @ be_bytes 4 (sample_flags_of kind s) @ be_bytes 4 (cast_unsigned32 (sm_composition_offset s))"

definition tfhd_bytes :: "nat \<Rightarrow> bytes" where
  "tfhd_bytes track_id = write_full_box_fields 0 TFHD_DEFAULT_BASE_IS_MOOF @ be_bytes 4 track_id"

definition tfdt_bytes :: "nat \<Rightarrow> bytes" where
  "tfdt_bytes decode_time = write_full_box_fields 1 0 @ be_bytes 8 decode_time"

definition trun_bytes :: "track_kind \<Rightarrow> sample list \<Rightarrow> nat \<Rightarrow> int \<Rightarrow> bytes" where
  "trun_bytes kind samples sample_count data_offset =
     write_full_box_fields 1 TRUN_FLAGS @ be_bytes 4 sample_count
       @ be_bytes 4 (cast_unsigned32 data_offset) @ concat (map (trun_entry kind) samples)"

definition build_traf ::
    "nat \<Rightarrow> track_kind \<Rightarrow> sample list \<Rightarrow> nat \<Rightarrow> int \<Rightarrow> bytes \<Rightarrow> bytes res" where
  "build_traf track_id kind samples decode_time data_offset extra =
     and_then (ok_or (u32_of_nat (length samples)) (InvalidMedia ''fragment has too many samples''))
       (\<lambda>sample_count.
     and_then (write_box [] (ascii ''tfhd'') (tfhd_bytes track_id)) (\<lambda>p1.
     and_then (write_box p1 (ascii ''tfdt'') (tfdt_bytes decode_time)) (\<lambda>p2.
     and_then (write_box p2 (ascii ''trun'') (trun_bytes kind samples sample_count data_offset)) (\<lambda>p3.
       write_box [] (ascii ''traf'') (p3 @ extra)))))"

definition moof_of :: "nat \<Rightarrow> bytes \<Rightarrow> bytes list \<Rightarrow> bytes res" where
  "moof_of sequence_number moof_extra trafs =
     and_then (write_box [] (ascii ''mfhd'') (write_full_box_fields 0 0 @ be_bytes 4 sequence_number))
       (\<lambda>moof_payload. write_box [] (ascii ''moof'') (moof_payload @ moof_extra @ concat trafs))"

definition build_moof ::
    "nat \<Rightarrow> track_kind \<Rightarrow> sample list \<Rightarrow> nat \<Rightarrow> nat \<Rightarrow> int \<Rightarrow> bytes \<Rightarrow> bytes \<Rightarrow> bytes res" where
  "build_moof track_id kind samples decode_time sequence_number data_offset extra moof_extra =
     and_then (build_traf track_id kind samples decode_time data_offset extra) (\<lambda>traf.
       moof_of sequence_number moof_extra [traf])"

section \<open>Ranges of the source\<close>

definition coalesce_step :: "byte_range list \<Rightarrow> sample \<Rightarrow> byte_range list res" where
  "coalesce_step ranges s =
     (let sample_range = byte_range_new (sm_offset s) (sm_size s) in
      case last_opt ranges of
        Some previous \<Rightarrow>
          if byte_range_end previous = Some (sm_offset s)
          then and_then (ok_or (checked_add (br_length previous) (br_length sample_range))
                          (InvalidMedia ''sample range size overflow'')) (\<lambda>n.
                 ok (butlast ranges @ [previous\<lparr>br_length := n\<rparr>]))
          else ok (ranges @ [sample_range])
      | None \<Rightarrow> ok (ranges @ [sample_range]))"

definition coalesced_ranges :: "sample list \<Rightarrow> byte_range list res" where
  "coalesced_ranges samples = try_fold coalesce_step [] samples"

definition payload_length :: "sample list \<Rightarrow> nat res" where
  "payload_length samples =
     try_fold (\<lambda>total s. ok_or (checked_add total (sm_size s))
       (InvalidMedia ''fragment payload size overflow'')) 0 samples"

section \<open>A segment of one track\<close>

definition segment_samples :: "track \<Rightarrow> track_segment \<Rightarrow> sample list res" where
  "segment_samples t seg =
     (if sg_end_sample seg < sg_first_sample seg \<or> index_len (tr_samples t) < sg_end_sample seg
      then fail (InvalidMedia ''segment sample range is invalid'')
      else to_vec (tr_samples t) (sg_first_sample seg) (sg_end_sample seg))"

text \<open>The length of a vector of bytes is below 64 bits, so adding it as \<open>u64\<close> cannot fail to convert.\<close>

definition prepare_media_segment ::
    "track \<Rightarrow> track_segment \<Rightarrow> nat \<Rightarrow> limits \<Rightarrow> 'e prepared_segment res" where
  "prepare_media_segment t seg sequence_number l =
     and_then (segment_samples t seg) (\<lambda>samples.
     if samples = [] then fail (InvalidMedia ''segment contains no samples'')
     else
       and_then (build_moof (tr_id t) (tr_kind t) samples (sg_decode_time seg) sequence_number 0 [] [])
         (\<lambda>provisional_moof.
       and_then (ok_or (i32_of_nat (length provisional_moof + 8))
                   (InvalidMedia ''fragment header is too large'')) (\<lambda>data_offset.
       and_then (build_moof (tr_id t) (tr_kind t) samples (sg_decode_time seg) sequence_number
                   data_offset [] []) (\<lambda>moof.
       and_then (payload_length samples) (\<lambda>payload_len.
       if max_segment_bytes l < payload_len
       then fail (InvalidMedia ''segment payload exceeds configured limit'')
       else
         and_then (ok_or (checked_add (length moof) 8)
                     (InvalidMedia ''fragment header size overflow'')) (\<lambda>header_capacity.
         and_then (write_box_header moof (wadd64 payload_len 8) (ascii ''mdat'')) (\<lambda>header.
         and_then (ok_or (checked_add (length header) payload_len)
                     (InvalidMedia ''fragment size overflow'')) (\<lambda>content_length.
         and_then (coalesced_ranges samples) (\<lambda>ranges.
           ok \<lparr>ps_header = header, ps_ranges = ranges, ps_content_length = content_length,
               ps_encryption = None\<rparr>)))))))))"

text \<open>The whole segment as bytes; \<open>read_range\<close> is the source's read.\<close>

definition write_media_segment ::
    "(byte_range \<Rightarrow> bytes res) \<Rightarrow> track \<Rightarrow> track_segment \<Rightarrow> nat \<Rightarrow> limits \<Rightarrow> bytes res" where
  "write_media_segment read_range t seg sequence_number l =
     and_then (prepare_media_segment t seg sequence_number l :: unit prepared_segment res) (\<lambda>prepared.
       try_fold (\<lambda>output r. and_then (read_range r) (\<lambda>bs. ok (output @ bs)))
         (ps_header prepared) (ps_ranges prepared))"

section \<open>A segment of several tracks\<close>

type_synonym muxed_part = "track \<times> track_segment \<times> sample list \<times> nat"

definition expand_part ::
    "muxed_part list \<Rightarrow> nat \<times> track \<times> track_segment \<Rightarrow> muxed_part list res" where
  "expand_part expanded = (\<lambda>(index, t, seg).
     and_then (segment_samples t seg) (\<lambda>samples.
     if samples = []
     then if index = 0 then fail (InvalidMedia ''segment contains no samples'') else ok expanded
     else and_then (payload_length samples) (\<lambda>payload.
       ok (expanded @ [(t, seg, samples, payload)]))))"

definition muxed_trafs :: "muxed_part list \<Rightarrow> int list \<Rightarrow> bytes list res" where
  "muxed_trafs expanded offsets =
     collect_res (map (\<lambda>((t, seg, samples, _), offset).
       build_traf (tr_id t) (tr_kind t) samples (sg_decode_time seg) offset []) (zip expanded offsets))"

definition muxed_offsets :: "nat \<Rightarrow> muxed_part list \<Rightarrow> int list res" where
  "muxed_offsets start expanded =
     and_then (try_fold (\<lambda>(offsets, offset) (_, _, _, payload).
        and_then (ok_or (i32_of_nat offset) (InvalidMedia ''fragment is too large'')) (\<lambda>i.
          ok (offsets @ [i], wadd64 offset payload))) ([], start) expanded)
       (\<lambda>(offsets, _). ok offsets)"

definition muxed_ranges :: "muxed_part list \<Rightarrow> byte_range list res" where
  "muxed_ranges expanded =
     try_fold (\<lambda>ranges (_, _, samples, _). and_then (coalesced_ranges samples) (\<lambda>rs. ok (ranges @ rs)))
       [] expanded"

definition prepare_muxed_segment ::
    "(track \<times> track_segment) list \<Rightarrow> nat \<Rightarrow> limits \<Rightarrow> 'e prepared_segment res" where
  "prepare_muxed_segment parts sequence_number l =
     and_then (try_fold expand_part [] (zip [0..<length parts] parts)) (\<lambda>expanded.
     and_then (try_fold (\<lambda>total (_, _, _, payload). ok_or (checked_add total payload)
        (InvalidMedia ''fragment payload size overflow'')) 0 expanded) (\<lambda>payload_len.
     if max_segment_bytes l < payload_len
     then fail (InvalidMedia ''segment payload exceeds configured limit'')
     else if max_samples_per_segment l < sum_list (map (\<lambda>(_, _, samples, _). length samples) expanded)
     then fail (InvalidMedia ''segment sample count exceeds configured limit'')
     else
       and_then (muxed_trafs expanded (replicate (length expanded) 0)) (\<lambda>probe_trafs.
       and_then (moof_of sequence_number [] probe_trafs) (\<lambda>probe.
       and_then (muxed_offsets (length probe + 8) expanded) (\<lambda>offsets.
       and_then (muxed_trafs expanded offsets) (\<lambda>trafs.
       and_then (moof_of sequence_number [] trafs) (\<lambda>moof.
       and_then (write_box_header moof (wadd64 payload_len 8) (ascii ''mdat'')) (\<lambda>header.
       and_then (ok_or (checked_add (length header) payload_len)
                   (InvalidMedia ''fragment size overflow'')) (\<lambda>content_length.
       and_then (muxed_ranges expanded) (\<lambda>ranges.
         ok \<lparr>ps_header = header, ps_ranges = ranges, ps_content_length = content_length,
             ps_encryption = None\<rparr>))))))))))"

section \<open>Fragments of encrypted assets\<close>

definition MAX_SUBSAMPLES :: nat where
  "MAX_SUBSAMPLES = 42"

datatype sample_group =
    GroupClear
  | GroupProtected (sg_crypt_byte_block: byte) (sg_skip_byte_block: byte) (sg_key_id: bytes)
      (sg_constant_iv: bytes)

record fragment_rotation =
  ro_group :: "sample_group option"
  ro_pssh :: bytes

text \<open>The packed block counts: \<open>(crypt << 4) | (skip & 0x0f)\<close> on bytes.\<close>

definition pattern_byte :: "byte \<Rightarrow> byte \<Rightarrow> byte" where
  "pattern_byte crypt skip = or (push_bit 4 crypt) (and skip 0x0f)"

definition seig_entry :: "sample_group \<Rightarrow> bytes" where
  "seig_entry g = 0 # (case g of
       GroupClear \<Rightarrow> [0, 0, 0] @ replicate 16 0
     | GroupProtected crypt skip key_id constant_iv \<Rightarrow>
         [pattern_byte crypt skip, 1, 0] @ key_id @ 16 # constant_iv)"

definition sample_group_boxes :: "sample_group \<Rightarrow> nat \<Rightarrow> bytes res" where
  "sample_group_boxes g sample_count =
     (let entry = seig_entry g in
      and_then (ok_or (u32_of_nat (length entry)) (InvalidMedia ''sample group entry is too large''))
        (\<lambda>entry_length.
      let description = write_full_box_fields 1 0 @ ascii ''seig'' @ be_bytes 4 entry_length
                          @ be_bytes 4 1 @ entry;
          mapping = write_full_box_fields 0 0 @ ascii ''seig'' @ be_bytes 4 1
                          @ be_bytes 4 sample_count @ be_bytes 4 0x00010001
      in and_then (write_box [] (ascii ''sgpd'') description) (\<lambda>boxes.
           write_box boxes (ascii ''sbgp'') mapping)))"

definition rotation_boxes :: "fragment_rotation option \<Rightarrow> nat \<Rightarrow> (bytes \<times> bytes) res" where
  "rotation_boxes rotation sample_count =
     (case rotation of
        None \<Rightarrow> ok ([], [])
      | Some ro \<Rightarrow>
          and_then (ok_or (u32_of_nat sample_count) (InvalidMedia ''too many samples'')) (\<lambda>count.
          and_then (case ro_group ro of None \<Rightarrow> ok [] | Some g \<Rightarrow> sample_group_boxes g count) (\<lambda>groups.
            ok (groups, ro_pssh ro))))"

definition clear_fragment_header ::
    "nat \<Rightarrow> track_kind \<Rightarrow> sample list \<Rightarrow> nat \<Rightarrow> nat \<Rightarrow> fragment_rotation \<Rightarrow> nat \<Rightarrow> bytes res" where
  "clear_fragment_header track_id kind samples decode_time sequence_number rotation payload_len =
     (let overflow = InvalidMedia ''fragment is too large'' in
      and_then (rotation_boxes (Some rotation) (length samples)) (\<lambda>(extra, moof_extra).
      and_then (build_moof track_id kind samples decode_time sequence_number 0 extra moof_extra) (\<lambda>probe.
      and_then (ok_or (i32_of_nat (length probe + 8)) overflow) (\<lambda>data_offset.
      and_then (build_moof track_id kind samples decode_time sequence_number data_offset extra moof_extra)
        (\<lambda>header.
      and_then (ok_or (checked_add payload_len 8) overflow) (\<lambda>n.
        write_box_header header n (ascii ''mdat'')))))))"

text \<open>One sample's map of clear and protected bytes in \<^verbatim>\<open>senc\<close>, and its size in \<^verbatim>\<open>saiz\<close>.\<close>

definition subsample_map_bytes :: "(nat \<times> nat) list \<Rightarrow> bytes" where
  "subsample_map_bytes m =
     be_bytes 2 (length m) @ concat (map (\<lambda>(clear, protected). be_bytes 2 clear @ be_bytes 4 protected) m)"

definition senc_step :: "bool \<Rightarrow> bytes \<times> bytes \<Rightarrow> (nat \<times> nat) list \<Rightarrow> (bytes \<times> bytes) res" where
  "senc_step use_subsamples = (\<lambda>(senc, sizes) m.
     if \<not> use_subsamples then ok (senc, sizes @ [0])
     else if MAX_SUBSAMPLES < length m
     then fail (InvalidMedia ''a sample has more than 42 subsamples, more than saiz can describe'')
     else
       and_then (ok_or (if length m < u16_limit then Some (length m) else None)
                  (InvalidMedia ''too many subsamples'')) (\<lambda>entries.
       and_then (ok_or (if 2 + 6 * length m < u8_limit then Some (2 + 6 * length m) else None)
                  (InvalidMedia ''too many subsamples'')) (\<lambda>sz.
         ok (senc @ subsample_map_bytes m, sizes @ [of_nat sz]))))"

definition uniform_size :: "bytes \<Rightarrow> byte option" where
  "uniform_size sizes =
     (case sizes of [] \<Rightarrow> None
      | first # rest \<Rightarrow> if first \<noteq> 0 \<and> (\<forall>s \<in> set sizes. s = first) then Some first else None)"

definition encryption_boxes :: "(nat \<times> nat) list list \<Rightarrow> nat \<Rightarrow> bytes res" where
  "encryption_boxes subsamples aux_offset =
     (let use_subsamples = (\<exists>m \<in> set subsamples. m \<noteq> []) in
      and_then (ok_or (u32_of_nat (length subsamples)) (InvalidMedia ''too many samples'')) (\<lambda>count.
      and_then (try_fold (senc_step use_subsamples)
          (write_full_box_fields 0 (if use_subsamples then 2 else 0) @ be_bytes 4 count, []) subsamples)
        (\<lambda>(senc, sizes).
      let uniform = uniform_size sizes;
          aux_sizes = write_full_box_fields 0 0 @ [case uniform of None \<Rightarrow> 0 | Some s \<Rightarrow> s]
            @ be_bytes 4 count @ (if uniform = None then sizes else []);
          aux_offsets = write_full_box_fields 0 0 @ be_bytes 4 1 @ be_bytes 4 aux_offset
      in and_then (write_box [] (ascii ''senc'') senc) (\<lambda>b1.
         and_then (write_box b1 (ascii ''saiz'') aux_sizes) (\<lambda>b2.
           write_box b2 (ascii ''saio'') aux_offsets)))))"

definition encrypted_fragment_header ::
    "nat \<Rightarrow> track_kind \<Rightarrow> sample list \<Rightarrow> nat \<Rightarrow> nat \<Rightarrow> (nat \<times> nat) list list \<Rightarrow> nat
       \<Rightarrow> fragment_rotation option \<Rightarrow> bytes res" where
  "encrypted_fragment_header track_id kind samples decode_time sequence_number subsamples payload_len rotation =
     (let overflow = InvalidMedia ''encrypted fragment is too large'' in
      and_then (rotation_boxes rotation (length samples)) (\<lambda>(groups, moof_extra).
      and_then (encryption_boxes subsamples 0) (\<lambda>probe_boxes.
      let probe_extra = probe_boxes @ groups in
      and_then (build_moof track_id kind samples decode_time sequence_number 0 probe_extra moof_extra)
        (\<lambda>probe.
      let senc_entries = length probe - length probe_extra + 16 in
      and_then (ok_or (u32_of_nat senc_entries) overflow) (\<lambda>aux_offset.
      and_then (encryption_boxes subsamples aux_offset) (\<lambda>boxes.
      and_then (ok_or (i32_of_nat (length probe + 8)) overflow) (\<lambda>data_offset.
      and_then (build_moof track_id kind samples decode_time sequence_number data_offset
          (boxes @ groups) moof_extra) (\<lambda>header.
      and_then (ok_or (checked_add payload_len 8) overflow) (\<lambda>n.
        write_box_header header n (ascii ''mdat''))))))))))"

end
