(* ===== verification/Fragment_Reader.thy ===== *)
theory Fragment_Reader
  imports Box_Writer Sample_Index_Build Media_Index Config_Limits
begin

text \<open>
  Sample discovery from the \<^verbatim>\<open>moof\<close> boxes of a fragmented file (\<^verbatim>\<open>src/src/mp4/fragments.rs\<close>): the
  \<^verbatim>\<open>trex\<close> defaults, the header of a track fragment, its runs, and the walk over every fragment.
  A fragment is its place in the source and its bytes (\<^verbatim>\<open>src/src/source/metadata.rs\<close>).
\<close>

record fragment =
  fr_offset :: nat
  fr_bytes :: bytes

section \<open>Flags\<close>

text \<open>A flag is one bit, \<open>flags & mask != 0\<close>.\<close>

definition has_flag :: "nat \<Rightarrow> nat \<Rightarrow> bool" where
  "has_flag flags bit_mask \<longleftrightarrow> odd (flags div bit_mask)"

definition BASE_DATA_OFFSET :: nat where "BASE_DATA_OFFSET = 0x000001"
definition SAMPLE_DESCRIPTION_INDEX :: nat where "SAMPLE_DESCRIPTION_INDEX = 0x000002"
definition DEFAULT_DURATION :: nat where "DEFAULT_DURATION = 0x000008"
definition DEFAULT_SIZE :: nat where "DEFAULT_SIZE = 0x000010"
definition DEFAULT_FLAGS :: nat where "DEFAULT_FLAGS = 0x000020"
definition DEFAULT_BASE_IS_MOOF :: nat where "DEFAULT_BASE_IS_MOOF = 0x020000"
definition DATA_OFFSET :: nat where "DATA_OFFSET = 0x000001"
definition FIRST_SAMPLE_FLAGS :: nat where "FIRST_SAMPLE_FLAGS = 0x000004"
definition SAMPLE_DURATION :: nat where "SAMPLE_DURATION = 0x000100"
definition SAMPLE_SIZE :: nat where "SAMPLE_SIZE = 0x000200"
definition SAMPLE_FLAGS :: nat where "SAMPLE_FLAGS = 0x000400"
definition SAMPLE_COMPOSITION_OFFSET :: nat where "SAMPLE_COMPOSITION_OFFSET = 0x000800"
definition NON_SYNC_SAMPLE :: nat where "NON_SYNC_SAMPLE = 0x010000"

lemmas flag_defs = has_flag_def BASE_DATA_OFFSET_def SAMPLE_DESCRIPTION_INDEX_def DEFAULT_DURATION_def
  DEFAULT_SIZE_def DEFAULT_FLAGS_def DEFAULT_BASE_IS_MOOF_def DATA_OFFSET_def FIRST_SAMPLE_FLAGS_def
  SAMPLE_DURATION_def SAMPLE_SIZE_def SAMPLE_FLAGS_def SAMPLE_COMPOSITION_OFFSET_def NON_SYNC_SAMPLE_def

text \<open>A field that is there when its flag is set, and one that falls back to a default.\<close>

definition rd_if :: "bool \<Rightarrow> (reader \<Rightarrow> ('a \<times> reader) res) \<Rightarrow> reader \<Rightarrow> ('a option \<times> reader) res" where
  "rd_if present read r =
     (if present then and_then (read r) (\<lambda>(x, r'). ok (Some x, r')) else ok (None, r))"

definition rd_or :: "bool \<Rightarrow> (reader \<Rightarrow> ('a \<times> reader) res) \<Rightarrow> 'a \<Rightarrow> reader \<Rightarrow> ('a \<times> reader) res" where
  "rd_or present read fallback r = (if present then read r else ok (fallback, r))"

section \<open>Defaults\<close>

record track_defaults =
  td_duration :: nat
  td_size :: nat
  td_flags :: nat

definition no_defaults :: track_defaults where
  "no_defaults = \<lparr>td_duration = 0, td_size = 0, td_flags = 0\<rparr>"

definition parse_trex :: "bytes \<Rightarrow> (nat \<times> track_defaults) res" where
  "parse_trex payload =
     and_then (rd_full_box (reader_new payload)) (\<lambda>(_, r1).
     and_then (rd_u32 r1) (\<lambda>(track_id, r2).
     and_then (rd_skip r2 4) (\<lambda>r3.
     and_then (rd_u32 r3) (\<lambda>(duration, r4).
     and_then (rd_u32 r4) (\<lambda>(size, r5).
     and_then (rd_u32 r5) (\<lambda>(flags, r6).
       ok (track_id, \<lparr>td_duration = duration, td_size = size, td_flags = flags\<rparr>)))))))"

definition parse_defaults :: "bytes \<Rightarrow> (nat \<rightharpoonup> track_defaults) res" where
  "parse_defaults mvex =
     and_then (child_boxes mvex) (\<lambda>children.
       try_fold (\<lambda>defaults trex. and_then (parse_trex (bx_payload trex)) (\<lambda>(track_id, d).
           ok (defaults(track_id \<mapsto> d))))
         Map.empty (filter (\<lambda>b. bx_name b = ascii ''trex'') children))"

section \<open>The header of a track fragment\<close>

record track_fragment_header =
  tf_track_id :: nat
  tf_base_data_offset :: "nat option"
  tf_default_base_is_moof :: bool
  tf_default_duration :: "nat option"
  tf_default_size :: "nat option"
  tf_default_flags :: "nat option"

definition parse_track_fragment_header :: "bytes \<Rightarrow> track_fragment_header res" where
  "parse_track_fragment_header payload =
     and_then (rd_full_box_flags (reader_new payload)) (\<lambda>(_, flags, r1).
     and_then (rd_u32 r1) (\<lambda>(track_id, r2).
     and_then (rd_if (has_flag flags BASE_DATA_OFFSET) rd_u64 r2) (\<lambda>(base_data_offset, r3).
     and_then (if has_flag flags SAMPLE_DESCRIPTION_INDEX then rd_skip r3 4 else ok r3) (\<lambda>r4.
     and_then (rd_if (has_flag flags DEFAULT_DURATION) rd_u32 r4) (\<lambda>(default_duration, r5).
     and_then (rd_if (has_flag flags DEFAULT_SIZE) rd_u32 r5) (\<lambda>(default_size, r6).
     and_then (rd_if (has_flag flags DEFAULT_FLAGS) rd_u32 r6) (\<lambda>(default_flags, r7).
       ok \<lparr>tf_track_id = track_id, tf_base_data_offset = base_data_offset,
           tf_default_base_is_moof = has_flag flags DEFAULT_BASE_IS_MOOF,
           tf_default_duration = default_duration, tf_default_size = default_size,
           tf_default_flags = default_flags\<rparr>)))))))"

definition parse_decode_time :: "bytes \<Rightarrow> nat res" where
  "parse_decode_time payload =
     and_then (rd_full_box (reader_new payload)) (\<lambda>(version, r1).
     and_then (if version = 1 then rd_u64 r1 else rd_u32 r1) (\<lambda>(time, r2). ok time))"

section \<open>Runs\<close>

record run =
  rn_header :: track_fragment_header
  rn_defaults :: track_defaults
  rn_base :: nat
  rn_source_len :: nat
  rn_keep :: bool

definition opt_or :: "'a option \<Rightarrow> 'a \<Rightarrow> 'a" where
  "opt_or x d = (case x of None \<Rightarrow> d | Some v \<Rightarrow> v)"

text \<open>What a loop over the entries carries: the reader, the offset, the decode time, the samples.\<close>

type_synonym run_state = "reader \<times> nat \<times> nat \<times> sample list"

definition read_composition :: "byte \<Rightarrow> reader \<Rightarrow> (int \<times> reader) res" where
  "read_composition version r =
     (if version = 0
      then and_then (rd_u32 r) (\<lambda>(x, r').
        and_then (ok_or (i32_of_nat x) (invalid_media ''trun composition offset is out of range''))
          (\<lambda>c. ok (c, r')))
      else rd_i32 r)"

definition read_entry ::
    "run \<Rightarrow> byte \<Rightarrow> nat \<Rightarrow> nat option \<Rightarrow> run_state \<Rightarrow> nat \<Rightarrow> run_state res" where
  "read_entry rn version flags first_flags = (\<lambda>(r, offset, decode_time, samples) index.
     let header = rn_header rn; defaults = rn_defaults rn;
         default_flags = opt_or (tf_default_flags header) (td_flags defaults) in
     and_then (rd_or (has_flag flags SAMPLE_DURATION) rd_u32
        (opt_or (tf_default_duration header) (td_duration defaults)) r) (\<lambda>(duration, r1).
     and_then (rd_or (has_flag flags SAMPLE_SIZE) rd_u32
        (opt_or (tf_default_size header) (td_size defaults)) r1) (\<lambda>(size, r2).
     and_then (rd_or (has_flag flags SAMPLE_FLAGS) rd_u32
        (if index = 0 then opt_or first_flags default_flags else default_flags) r2)
        (\<lambda>(sample_flags, r3).
     and_then (rd_or (has_flag flags SAMPLE_COMPOSITION_OFFSET) (read_composition version) 0 r3)
        (\<lambda>(composition_offset, r4).
     and_then (ok_or (checked_add offset size) (invalid_media ''sample byte range overflow''))
        (\<lambda>end_offset.
     and_then
       (if rn_keep rn
        then if rn_source_len rn < end_offset
          then fail (invalid_media ''sample byte range exceeds source length'')
          else ok (samples @ [\<lparr>sm_offset = offset, sm_size = size, sm_decode_time = decode_time,
                 sm_duration = duration, sm_composition_offset = composition_offset,
                 sm_is_sync = (\<not> has_flag sample_flags NON_SYNC_SAMPLE)\<rparr>])
        else ok samples) (\<lambda>samples'.
     and_then (ok_or (checked_add decode_time duration) (invalid_media ''decode timestamp overflow''))
        (\<lambda>decode_time'.
       ok (r4, end_offset, decode_time', samples')))))))))"

definition entry_size_of :: "nat \<Rightarrow> nat" where
  "entry_size_of flags = 4 * length (filter (has_flag flags)
     [SAMPLE_DURATION, SAMPLE_SIZE, SAMPLE_FLAGS, SAMPLE_COMPOSITION_OFFSET])"

definition read_run ::
    "run \<Rightarrow> bytes \<Rightarrow> nat \<Rightarrow> nat \<Rightarrow> sample list \<Rightarrow> nat \<Rightarrow> (nat \<times> nat \<times> sample list) res" where
  "read_run rn payload cursor decode_time samples max_samples =
     and_then (rd_full_box_flags (reader_new payload)) (\<lambda>(version, flags, r1).
     and_then (rd_u32 r1) (\<lambda>(count, r2).
     and_then (rd_if (has_flag flags DATA_OFFSET) rd_i32 r2) (\<lambda>(data_offset, r3).
     and_then (case data_offset of
          Some d \<Rightarrow> ok_or (checked_add_signed (rn_base rn) d)
                      (invalid_media ''trun data offset is out of range'')
        | None \<Rightarrow> ok cursor) (\<lambda>offset.
     and_then (rd_if (has_flag flags FIRST_SAMPLE_FLAGS) rd_u32 r3) (\<lambda>(first_flags, r4).
     if (case checked_mul count (entry_size_of flags) of
           None \<Rightarrow> True | Some n \<Rightarrow> rd_remaining r4 < n)
     then fail (invalid_media ''trun sample count exceeds its box'')
     else if rn_keep rn \<and> max_samples < saturating_add (length samples) count
     then fail (invalid_media ''sample count exceeds configured limit'')
     else if \<not> rn_keep rn \<and> \<not> has_flag flags SAMPLE_SIZE
     then
       and_then (ok_or (case checked_mul count
              (opt_or (tf_default_size (rn_header rn)) (td_size (rn_defaults rn))) of
            None \<Rightarrow> None | Some n \<Rightarrow> checked_add offset n)
          (invalid_media ''trun data extent overflows'')) (\<lambda>total.
         ok (total, decode_time, samples))
     else
       and_then (try_fold (read_entry rn version flags first_flags)
            (r4, offset, decode_time, samples) [0..<count])
         (\<lambda>(_, offset', decode_time', samples'). ok (offset', decode_time', samples')))))))"

section \<open>Fragments\<close>

text \<open>
  The walk carries the samples, where the track's next sample decodes, and within a fragment where
  the data of the track fragment before ended.
\<close>

definition traf_base :: "track_fragment_header \<Rightarrow> nat \<Rightarrow> nat \<Rightarrow> nat" where
  "traf_base header fragment_offset previous_end =
     opt_or (tf_base_data_offset header)
       (if tf_default_base_is_moof header then fragment_offset else previous_end)"

definition traf_start :: "nat \<Rightarrow> bool \<Rightarrow> nat \<Rightarrow> bytes \<Rightarrow> nat res" where
  "traf_start track_id wanted next_decode_time traf =
     and_then (optional_child traf (ascii ''tfdt'')) (\<lambda>tfdt.
       case tfdt of
         None \<Rightarrow> ok next_decode_time
       | Some b \<Rightarrow>
           if wanted
           then and_then (parse_decode_time (bx_payload b)) (\<lambda>start.
             if start < next_decode_time
             then fail (invalid_media (''track '' @ decimal track_id
                    @ '': a fragment starts before the previous one ended''))
             else ok start)
           else ok next_decode_time)"

definition read_traf ::
    "nat \<Rightarrow> track_defaults \<Rightarrow> nat \<Rightarrow> limits \<Rightarrow> nat \<Rightarrow> sample list \<times> nat \<times> nat \<Rightarrow> bytes
       \<Rightarrow> (sample list \<times> nat \<times> nat) res" where
  "read_traf track_id defaults source_len l fragment_offset = (\<lambda>(samples, next_decode_time, previous_end) traf.
     and_then (required_child traf (ascii ''tfhd'')) (\<lambda>tfhd.
     and_then (parse_track_fragment_header (bx_payload tfhd)) (\<lambda>header.
     let base = traf_base header fragment_offset previous_end;
         wanted = (tf_track_id header = track_id) in
     and_then (traf_start track_id wanted next_decode_time traf) (\<lambda>decode_time.
     and_then (child_boxes traf) (\<lambda>children.
     and_then (try_fold (\<lambda>(cursor, time, samples) trun.
          read_run \<lparr>rn_header = header, rn_defaults = (if wanted then defaults else no_defaults),
                    rn_base = base, rn_source_len = source_len, rn_keep = wanted\<rparr>
            (bx_payload trun) cursor time samples (max_samples_per_track l))
        (base, decode_time, samples) (filter (\<lambda>b. bx_name b = ascii ''trun'') children))
        (\<lambda>(cursor, time, samples').
       ok (samples', if wanted then time else next_decode_time, cursor)))))))"

definition read_fragment ::
    "nat \<Rightarrow> track_defaults \<Rightarrow> nat \<Rightarrow> limits \<Rightarrow> sample list \<times> nat \<Rightarrow> fragment \<Rightarrow> (sample list \<times> nat) res" where
  "read_fragment track_id defaults source_len l = (\<lambda>(samples, next_decode_time) fragment.
     and_then (box_payload (fr_bytes fragment) 0) (\<lambda>moof.
     if bx_name moof \<noteq> ascii ''moof'' then fail (invalid_media ''fragment is not a moof box'')
     else
       and_then (child_boxes (bx_payload moof)) (\<lambda>children.
       and_then (try_fold (read_traf track_id defaults source_len l (fr_offset fragment))
            (samples, next_decode_time, fr_offset fragment)
            (map bx_payload (filter (\<lambda>b. bx_name b = ascii ''traf'') children)))
          (\<lambda>(samples', next', _). ok (samples', next')))))"

definition track_samples ::
    "fragment list \<Rightarrow> nat \<Rightarrow> track_defaults \<Rightarrow> nat \<Rightarrow> limits \<Rightarrow> sample list res" where
  "track_samples fragments track_id defaults source_len l =
     and_then (try_fold (read_fragment track_id defaults source_len l) ([], 0) fragments)
       (\<lambda>(samples, _). ok samples)"

definition reject_mixed :: "nat \<Rightarrow> nat \<Rightarrow> unit res" where
  "reject_mixed track_id samples_in_moov =
     (if samples_in_moov = 0 then ok ()
      else fail (Unsupported (''track '' @ decimal track_id
             @ '': samples in moov as well as in fragments are not supported'')))"

end
