(* ===== verification/Reader_Safety.thy ===== *)
theory Reader_Safety
  imports Sample_Tables_Parse
begin

text \<open>
  The walker and the reader never panic, whatever the bytes: introduction rules for the parsers
  that are made of them.
\<close>

lemma safe_fold [safe_intros]: "(\<And>s x. safe (f s x)) \<Longrightarrow> safe (try_fold f s xs)"
  by (rule safe_try_fold [where P = "\<lambda>_. True"]) auto

lemma take_safe [safe_intros]: "safe (rd_take r n)"
  by (auto simp: rd_take_def safe_def slice_def split: option.split)

lemma u8_safe [safe_intros]: "safe (rd_u8 r)"
  unfolding rd_u8_def
proof (rule safe_and_then)
  show "safe (case x of (bs, r') \<Rightarrow> and_then (index_at bs 0) (\<lambda>b. ok (b, r')))"
    if "rd_take r 1 = Inr x" for x
    using that rd_take_length by (cases x) fastforce
qed (rule take_safe)

lemma reads_safe [safe_intros]:
  "safe (rd_skip r n)" "safe (rd_u16 r)" "safe (rd_u32 r)" "safe (rd_i32 r)" "safe (rd_u64 r)"
  "safe (rd_full_box r)" "safe (rd_full_box_flags r)"
  by (auto simp: rd_skip_def rd_u16_def rd_u32_def rd_i32_def rd_u64_def rd_full_box_def
      rd_full_box_flags_def intro!: safe_intros)

lemma child_boxes_safe [safe_intros]: "safe (child_boxes data)" "safe (box_payload data offset)"
  using child_boxes_no_panic box_payload_no_panic by (auto simp: safe_def)

end
