(* ===== verification/Fragment_Reader_Laws.thy ===== *)
theory Fragment_Reader_Laws
  imports Fragment_Reader Reader_Safety
begin

text \<open>
  What reading a fragmented file promises: no panic on any bytes, and samples that lie in the
  source, follow each other in time, and can be indexed.
\<close>

section \<open>No panic\<close>

lemma rd_optional_safe [safe_intros]:
  "(\<And>r. safe (read r)) \<Longrightarrow> safe (rd_if b read r)" "(\<And>r. safe (read' r)) \<Longrightarrow> safe (rd_or b read' d r)"
  by (auto simp: rd_if_def rd_or_def intro!: safe_intros)

lemma read_composition_safe [safe_intros]: "safe (read_composition v r)"
  by (auto simp: read_composition_def intro!: safe_intros)

lemma read_entry_safe [safe_intros]: "safe (read_entry rn version flags first s i)"
  by (cases s) (auto simp: read_entry_def intro!: safe_intros)

lemma read_run_safe [safe_intros]: "safe (read_run rn payload cursor time samples mx)"
  by (auto simp: read_run_def intro!: safe_intros split: option.split)

lemma traf_header_safe [safe_intros]:
  "safe (parse_track_fragment_header p)" "safe (parse_decode_time p)" "safe (traf_start t w n traf)"
  by (auto simp: parse_track_fragment_header_def parse_decode_time_def traf_start_def
      intro!: safe_intros split: option.split)

lemma read_traf_safe [safe_intros]: "safe (read_traf t d len l o' s traf)"
  by (cases s) (auto simp: read_traf_def intro!: safe_intros)

lemma read_fragment_safe [safe_intros]: "safe (read_fragment t d len l s f)"
  by (cases s) (auto simp: read_fragment_def intro!: safe_intros)

lemma track_samples_safe: "safe (track_samples fs t d len l)"
  by (auto simp: track_samples_def intro!: safe_intros)

lemma parse_defaults_safe: "safe (parse_defaults mvex)"
  by (auto simp: parse_defaults_def parse_trex_def intro!: safe_intros)

section \<open>The samples read\<close>

definition sample_within :: "nat \<Rightarrow> nat \<Rightarrow> sample \<Rightarrow> bool" where
  "sample_within len time x \<longleftrightarrow> sm_offset x + sm_size x \<le> len \<and> sm_decode_time x + sm_duration x \<le> time"

definition in_order :: "sample list \<Rightarrow> bool" where
  "in_order = sorted_wrt (\<lambda>x y. sm_decode_time x + sm_duration x \<le> sm_decode_time y)"

definition samples_until :: "nat \<Rightarrow> nat \<Rightarrow> sample list \<Rightarrow> bool" where
  "samples_until len time xs \<longleftrightarrow> in_order xs \<and> (\<forall>x \<in> set xs. sample_within len time x) \<and> time < u64_limit"

lemma samples_until_later:
  "samples_until len t xs \<Longrightarrow> t \<le> t' \<Longrightarrow> t' < u64_limit \<Longrightarrow> samples_until len t' xs"
  by (fastforce simp: samples_until_def sample_within_def)

lemma samples_until_snoc:
  assumes "samples_until len (sm_decode_time x) xs" "sm_offset x + sm_size x \<le> len"
    "sm_decode_time x + sm_duration x < u64_limit"
  shows "samples_until len (sm_decode_time x + sm_duration x) (xs @ [x])"
  using assms
  by (fastforce simp: samples_until_def sample_within_def in_order_def sorted_wrt_append)

lemma read_entry_step:
  assumes "read_entry rn version flags first (r, o', t, xs) i = Inr (r', o'', t', xs')"
  shows "t' < u64_limit \<and> t \<le> t'"
    and "\<not> rn_keep rn \<Longrightarrow> xs' = xs"
    and "rn_keep rn \<Longrightarrow> \<exists>x. xs' = xs @ [x] \<and> sm_decode_time x = t \<and> t' = t + sm_duration x
       \<and> sm_offset x = o' \<and> o'' = o' + sm_size x \<and> o'' \<le> rn_source_len rn"
proof -
  have "t' < u64_limit \<and> t \<le> t' \<and> (\<not> rn_keep rn \<longrightarrow> xs' = xs)
      \<and> (rn_keep rn \<longrightarrow> (\<exists>x. xs' = xs @ [x] \<and> sm_decode_time x = t \<and> t' = t + sm_duration x
       \<and> sm_offset x = o' \<and> o'' = o' + sm_size x \<and> o'' \<le> rn_source_len rn))"
    using assms
    by (cases "rn_keep rn")
       (auto simp: read_entry_def and_then_eq_Inr split: if_splits)
  then show "t' < u64_limit \<and> t \<le> t'" "\<not> rn_keep rn \<Longrightarrow> xs' = xs"
    "rn_keep rn \<Longrightarrow> \<exists>x. xs' = xs @ [x] \<and> sm_decode_time x = t \<and> t' = t + sm_duration x
       \<and> sm_offset x = o' \<and> o'' = o' + sm_size x \<and> o'' \<le> rn_source_len rn"
    by blast+
qed

lemma read_entries_kept:
  assumes "rn_keep rn" "samples_until (rn_source_len rn) t xs"
    "try_fold (read_entry rn version flags first) (r, o', t, xs) is = Inr (r', o'', t', xs')"
  shows "samples_until (rn_source_len rn) t' xs' \<and> t \<le> t' \<and> length xs' = length xs + length is"
  using assms(2,3)
proof (induction "is" arbitrary: r o' t xs)
  case (Cons i "is")
  obtain r1 o1 t1 xs1 where s: "read_entry rn version flags first (r, o', t, xs) i = Inr (r1, o1, t1, xs1)"
    and rest: "try_fold (read_entry rn version flags first) (r1, o1, t1, xs1) is = Inr (r', o'', t', xs')"
    using Cons.prems(2) by (auto simp: and_then_eq_Inr)
  note step = read_entry_step(1) [OF s] read_entry_step(3) [OF s assms(1)]
  have "samples_until (rn_source_len rn) t1 xs1"
    using step samples_until_snoc Cons.prems(1) by (metis (no_types, lifting))
  then show ?case using Cons.IH [OF _ rest] step by fastforce
qed simp

lemma read_entries_measured:
  assumes "\<not> rn_keep rn"
    "try_fold (read_entry rn version flags first) (r, o', t, xs) is = Inr (r', o'', t', xs')"
  shows "xs' = xs"
  using assms(2)
proof (induction "is" arbitrary: r o' t xs)
  case (Cons i "is")
  then show ?case
    using read_entry_step(2) [OF _ assms(1)] by (fastforce simp: and_then_eq_Inr)
qed simp

lemma read_run_kept:
  assumes "rn_keep rn" "samples_until (rn_source_len rn) t xs" "mx < u64_limit - 1" "length xs \<le> mx"
    "read_run rn payload cursor t xs mx = Inr (o'', t', xs')"
  shows "samples_until (rn_source_len rn) t' xs' \<and> t \<le> t' \<and> length xs' \<le> mx"
proof -
  obtain version flags first r4 offset r' count where
    f: "try_fold (read_entry rn version flags first) (r4, offset, t, xs) [0..<count] = Inr (r', o'', t', xs')"
    and c: "\<not> mx < saturating_add (length xs) count"
    using assms(1,5) by (auto simp: read_run_def and_then_eq_Inr split: if_splits option.splits)
  have "length xs + count \<le> mx" using c assms(3) by (auto simp: saturating_add_def min_def split: if_splits)
  then show ?thesis using read_entries_kept [OF assms(1,2) f] by simp
qed

lemma read_run_measured:
  assumes "\<not> rn_keep rn" "read_run rn payload cursor t xs mx = Inr (o'', t', xs')"
  shows "xs' = xs"
  using assms read_entries_measured [OF assms(1)]
  by (fastforce simp: read_run_def and_then_eq_Inr split: if_splits option.splits)

text \<open>Between trafs: the samples so far, all before the next decode time.\<close>

definition walk_inv :: "nat \<Rightarrow> nat \<Rightarrow> sample list \<Rightarrow> nat \<Rightarrow> bool" where
  "walk_inv len mx xs next \<longleftrightarrow> samples_until len next xs \<and> length xs \<le> mx"

lemma traf_start_step:
  assumes "traf_start t wanted next traf = Inr start" "next < u64_limit"
  shows "next \<le> start" "start < u64_limit" "\<not> wanted \<Longrightarrow> start = next"
proof -
  have "parse_decode_time p = Inr x \<Longrightarrow> x < u64_limit" for p x
    by (auto simp: parse_decode_time_def and_then_eq_Inr rd_u64_def rd_u32_def split: if_splits
        dest!: rd_take_length intro!: be_value_less)
  then show "next \<le> start" "start < u64_limit" "\<not> wanted \<Longrightarrow> start = next"
    using assms by (auto simp: traf_start_def and_then_eq_Inr not_less split: option.splits if_splits)
qed

lemma read_traf_inv:
  assumes inv: "walk_inv len (max_samples_per_track l) xs next" and mx: "max_samples_per_track l < u64_limit - 1"
    and r: "read_traf t d len l o' (xs, next, prev) traf = Inr (xs', next', prev')"
  shows "walk_inv len (max_samples_per_track l) xs' next'"
proof -
  obtain header start truns cursor time where
    start: "traf_start t (tf_track_id header = t) next traf = Inr start"
    and runs: "try_fold (\<lambda>(cursor, time, samples) trun.
          read_run \<lparr>rn_header = header, rn_defaults = (if tf_track_id header = t then d else no_defaults),
             rn_base = traf_base header o' prev, rn_source_len = len, rn_keep = (tf_track_id header = t)\<rparr>
            (bx_payload trun) cursor time samples (max_samples_per_track l))
        (traf_base header o' prev, start, xs) (truns :: raw_box list) = Inr (cursor, time, xs')"
    and next': "tf_track_id header = t \<Longrightarrow> next' = time" "tf_track_id header \<noteq> t \<Longrightarrow> next' = next"
    using r by (auto simp: read_traf_def and_then_eq_Inr)
  have n: "next < u64_limit" using inv by (simp add: walk_inv_def samples_until_def)
  note st = traf_start_step [OF start n]
  show ?thesis
  proof (cases "tf_track_id header = t")
    case True
    have "samples_until len start xs"
      using inv st samples_until_later by (auto simp: walk_inv_def)
    then have "case (cursor, time, xs') of (_, time, ys) \<Rightarrow>
        samples_until len time ys \<and> length ys \<le> max_samples_per_track l"
      using inv mx
      by (intro try_fold_inv [OF _ _ runs, where P = "\<lambda>(_, time, ys).
            samples_until len time ys \<and> length ys \<le> max_samples_per_track l"])
         (auto simp: True walk_inv_def dest!: read_run_kept [rotated -1])
    then show ?thesis using next' True by (simp add: walk_inv_def)
  next
    case False
    have "case (cursor, time, xs') of (_, time, ys) \<Rightarrow> ys = xs"
      by (intro try_fold_inv [OF _ _ runs, where P = "\<lambda>(_, time, ys). ys = xs"])
         (auto simp: False dest!: read_run_measured [rotated])
    then show ?thesis using inv next' False by simp
  qed
qed

lemma read_fragment_inv:
  assumes "walk_inv len (max_samples_per_track l) xs next" "max_samples_per_track l < u64_limit - 1"
    and r: "read_fragment t d len l (xs, next) f = Inr (xs', next')"
  shows "walk_inv len (max_samples_per_track l) xs' next'"
proof -
  obtain trafs prev where trafs: "try_fold (read_traf t d len l (fr_offset f))
      (xs, next, fr_offset f) trafs = Inr (xs', next', prev)"
    using r by (auto simp: read_fragment_def and_then_eq_Inr split: if_splits)
  have "case (xs', next', prev) of (xs, next, _) \<Rightarrow> walk_inv len (max_samples_per_track l) xs next"
    using assms(1,2) read_traf_inv
    by (intro try_fold_inv [OF _ _ trafs, where P = "\<lambda>(xs, next, _). walk_inv len (max_samples_per_track l) xs next"])
       auto
  then show ?thesis by simp
qed

lemma track_samples_inv:
  assumes "track_samples fs t d len l = Inr xs" "max_samples_per_track l < u64_limit - 1"
  shows "in_order xs" "length xs \<le> max_samples_per_track l"
    "\<And>x. x \<in> set xs \<Longrightarrow> sm_offset x + sm_size x \<le> len \<and> sm_decode_time x + sm_duration x < u64_limit"
proof -
  obtain next' where f: "try_fold (read_fragment t d len l) ([], 0) fs = Inr (xs, next')"
    using assms(1) by (auto simp: track_samples_def and_then_eq_Inr)
  have "walk_inv len (max_samples_per_track l) [] 0"
    by (simp add: walk_inv_def samples_until_def in_order_def)
  then have "case (xs, next') of (xs, next) \<Rightarrow> walk_inv len (max_samples_per_track l) xs next"
    using assms(2) read_fragment_inv
    by (intro try_fold_inv [OF _ _ f, where P = "\<lambda>(xs, next). walk_inv len (max_samples_per_track l) xs next"]) auto
  then show "in_order xs" "length xs \<le> max_samples_per_track l"
    "\<And>x. x \<in> set xs \<Longrightarrow> sm_offset x + sm_size x \<le> len \<and> sm_decode_time x + sm_duration x < u64_limit"
    by (fastforce simp: walk_inv_def samples_until_def sample_within_def)+
qed

section \<open>Properties\<close>

text \<open>
  C29 Reading the fragments of a file never panics, whatever its bytes.  The samples of a successful
  read lie inside the source, are no more than the limit, each starts no earlier than the one before
  ends, and the sample index built from them lists exactly them.
\<close>

theorem fragment_samples_indexed:
  assumes "max_samples_per_track l \<le> u32_limit" "len < u64_limit"
  shows "case track_samples fragments track_id defaults len l of
     Inl f \<Rightarrow> f \<noteq> Panic
   | Inr xs \<Rightarrow> length xs \<le> max_samples_per_track l
       \<and> sorted_wrt (\<lambda>x y. sm_decode_time x + sm_duration x \<le> sm_decode_time y) xs
       \<and> (\<forall>x \<in> set xs. sm_offset x + sm_size x \<le> len)
       \<and> (\<exists>s. from_samples xs = ok s \<and> index_valid s \<and> iter_all s = ok xs)"
proof (cases "track_samples fragments track_id defaults len l")
  case (Inl f)
  then show ?thesis using track_samples_safe [of fragments track_id defaults len l] by (auto simp: safe_def)
next
  case (Inr xs)
  have mx: "max_samples_per_track l < u64_limit - 1" using assms(1) by simp
  note p = track_samples_inv [OF Inr mx]
  have sorted: "sorted (map sm_decode_time xs)"
    using p(1) by (auto simp: in_order_def sorted_wrt_iff_nth_less sorted_iff_nth_mono_less dest: add_leD1)
  have "\<forall>x \<in> set xs. sample_fits x" using p(3) assms(2) by (fastforce simp: sample_fits_def)
  then obtain s where s: "from_samples xs = ok s" "index_wf s" "index_samples s = xs" "index_ascending s"
    using from_samples_ok [of xs] p(2) assms(1) sorted by (meson order_trans)
  then have "index_valid s" "iter_all s = ok xs" using iter_all_ok by (auto simp: index_valid_def)
  then show ?thesis using Inr p s(1) by (auto simp: in_order_def)
qed

end
