(* ===== verification/Reader_Back.thy ===== *)
theory Reader_Back
  imports Box_Writer
begin

text \<open>
  Reading back, field by field, what was written: a reader that stands before the bytes of a field
  returns the field and stands behind it.
\<close>

definition at_rest :: "reader \<Rightarrow> bytes \<Rightarrow> bool" where
  "at_rest r rest \<longleftrightarrow> rd_wf r \<and> rd_rest r = rest"

lemma at_rest_new [intro]: "length data < u64_limit \<Longrightarrow> at_rest (reader_new data) data"
  by (simp add: at_rest_def)

lemma take_back:
  assumes "at_rest r (bs @ rest)" "length bs = n"
  obtains r' where "rd_take r n = ok (bs, r')" "at_rest r' rest"
proof -
  have "rd_wf r" "rd_rest r = bs @ rest" using assms(1) by (auto simp: at_rest_def)
  note front = rd_take_front [OF this assms(2)]
  show thesis by (rule that [OF front(1)]) (simp add: at_rest_def front)
qed

lemma u32_back:
  assumes "at_rest r (be_bytes 4 x @ rest)" "x < u32_limit"
  obtains r' where "rd_u32 r = ok (x, r')" "at_rest r' rest"
proof -
  obtain r' where r': "rd_take r 4 = ok (be_bytes 4 x, r')" "at_rest r' rest"
    by (rule take_back [OF assms(1) length_be_bytes])
  show thesis by (rule that [OF _ r'(2)]) (simp add: rd_u32_def r'(1) assms(2))
qed

lemma u64_back:
  assumes "at_rest r (be_bytes 8 x @ rest)" "x < u64_limit"
  obtains r' where "rd_u64 r = ok (x, r')" "at_rest r' rest"
proof -
  obtain r' where r': "rd_take r 8 = ok (be_bytes 8 x, r')" "at_rest r' rest"
    by (rule take_back [OF assms(1) length_be_bytes])
  show thesis by (rule that [OF _ r'(2)]) (simp add: rd_u64_def r'(1) assms(2))
qed

lemma i32_back:
  assumes "at_rest r (be_bytes 4 (cast_unsigned32 x) @ rest)" "- 2147483648 \<le> x" "x < 2147483648"
  obtains r' where "rd_i32 r = ok (x, r')" "at_rest r' rest"
proof -
  obtain r' where r': "rd_take r 4 = ok (be_bytes 4 (cast_unsigned32 x), r')" "at_rest r' rest"
    by (rule take_back [OF assms(1) length_be_bytes])
  show thesis by (rule that [OF _ r'(2)]) (simp add: rd_i32_def r'(1) assms(2,3))
qed

lemma drop_flag_bytes: "drop 1 (be_bytes 4 f) = be_bytes 3 f"
proof -
  have "be_bytes (Suc 3) f = of_nat (f div 256 ^ 3) # be_bytes 3 f" by (rule be_bytes.simps)
  then show ?thesis by (simp del: be_bytes.simps)
qed

lemma full_box_value: "f < 16777216 \<Longrightarrow> be_value (0 # drop 1 (be_bytes 4 f)) = f"
  unfolding drop_flag_bytes by simp

lemma length_full_box_fields [simp]: "length (write_full_box_fields v f) = 4"
  by (simp add: write_full_box_fields_def)

lemma full_box_flags_back:
  assumes "at_rest r (write_full_box_fields v f @ rest)" "f < 16777216"
  obtains r' where "rd_full_box_flags r = ok (v, f, r')" "at_rest r' rest"
proof -
  have "at_rest r ([v] @ drop 1 (be_bytes 4 f) @ rest)"
    using assms(1) by (simp add: write_full_box_fields_def)
  then obtain r1 where r1: "rd_take r 1 = ok ([v], r1)" "at_rest r1 (drop 1 (be_bytes 4 f) @ rest)"
    using take_back [of r "[v]" _ 1] by (metis One_nat_def length_Cons list.size(3))
  obtain r2 where r2: "rd_take r1 3 = ok (drop 1 (be_bytes 4 f), r2)" "at_rest r2 rest"
    by (rule take_back [OF r1(2)]) simp
  show thesis
    using that [of r2] r1 r2 full_box_value [OF assms(2)]
    by (simp add: rd_full_box_flags_def rd_u8_def del: be_value.simps)
qed

lemma full_box_back:
  assumes "at_rest r (write_full_box_fields v f @ rest)"
  obtains r' where "rd_full_box r = ok (v, r')" "at_rest r' rest"
proof -
  have "at_rest r ([v] @ drop 1 (be_bytes 4 f) @ rest)"
    using assms(1) by (simp add: write_full_box_fields_def)
  then obtain r1 where r1: "rd_take r 1 = ok ([v], r1)" "at_rest r1 (drop 1 (be_bytes 4 f) @ rest)"
    using take_back [of r "[v]" _ 1] by (metis One_nat_def length_Cons list.size(3))
  obtain r2 where r2: "rd_take r1 3 = ok (drop 1 (be_bytes 4 f), r2)" "at_rest r2 rest"
    by (rule take_back [OF r1(2)]) simp
  show thesis
    using that [of r2] r1 r2 by (simp add: rd_full_box_def rd_u8_def rd_skip_def)
qed

lemma u16_back:
  assumes "at_rest r (be_bytes 2 x @ rest)" "x < u16_limit"
  obtains r' where "rd_u16 r = ok (x, r')" "at_rest r' rest"
proof -
  obtain r' where r': "rd_take r 2 = ok (be_bytes 2 x, r')" "at_rest r' rest"
    by (rule take_back [OF assms(1) length_be_bytes])
  show thesis by (rule that [OF _ r'(2)]) (simp add: rd_u16_def r'(1) assms(2))
qed

lemma skip_back:
  assumes "at_rest r (bs @ rest)" "length bs = n"
  obtains r' where "rd_skip r n = ok r'" "at_rest r' rest"
proof -
  obtain r' where r': "rd_take r n = ok (bs, r')" "at_rest r' rest"
    by (rule take_back [OF assms])
  show thesis by (rule that [OF _ r'(2)]) (simp add: rd_skip_def r'(1))
qed

end
