(* ===== verification/Fragment_Writer_Laws.thy ===== *)
theory Fragment_Writer_Laws
  imports Fragment_Writer Fragment_Reader_Laws Reader_Back
begin

text \<open>
  How the writer of fragments meets the reader: the boxes that were written are walked and read
  back, field by field, run by run, for one track and for several.
\<close>

section \<open>Reading a run back\<close>

definition sample_widths :: "sample \<Rightarrow> bool" where
  "sample_widths s \<longleftrightarrow> sm_size s < u32_limit \<and> sm_duration s < u32_limit
     \<and> - 2147483648 \<le> sm_composition_offset s \<and> sm_composition_offset s < 2147483648"

abbreviation total_size :: "sample list \<Rightarrow> nat" where
  "total_size xs \<equiv> sum_list (map sm_size xs)"

abbreviation total_duration :: "sample list \<Rightarrow> nat" where
  "total_duration xs \<equiv> sum_list (map sm_duration xs)"

text \<open>Samples as a reader sees them: one after another in bytes and in time.\<close>

fun placed :: "track_kind \<Rightarrow> nat \<Rightarrow> nat \<Rightarrow> sample list \<Rightarrow> sample list" where
  "placed kind offset time [] = []"
| "placed kind offset time (x # xs) =
     x\<lparr>sm_offset := offset, sm_decode_time := time, sm_is_sync := (kind = Audio \<or> sm_is_sync x)\<rparr>
     # placed kind (offset + sm_size x) (time + sm_duration x) xs"

lemma sample_flags_back:
  "sample_flags_of kind x < u32_limit"
  "has_flag (sample_flags_of kind x) NON_SYNC_SAMPLE \<longleftrightarrow> \<not> (kind = Audio \<or> sm_is_sync x)"
  by (auto simp: sample_flags_of_def SYNC_SAMPLE_FLAGS_def NON_SYNC_SAMPLE_FLAGS_def flag_defs
      split: track_kind.split)

lemma trun_flags_set:
  "has_flag TRUN_FLAGS SAMPLE_DURATION" "has_flag TRUN_FLAGS SAMPLE_SIZE"
  "has_flag TRUN_FLAGS SAMPLE_FLAGS" "has_flag TRUN_FLAGS SAMPLE_COMPOSITION_OFFSET"
  "has_flag TRUN_FLAGS DATA_OFFSET" "\<not> has_flag TRUN_FLAGS FIRST_SAMPLE_FLAGS"
  by (simp_all add: TRUN_FLAGS_def flag_defs)

lemma entry_back:
  assumes r: "at_rest r (trun_entry kind x @ rest)" and w: "sample_widths x"
    and fits: "offset + sm_size x < u64_limit" "time + sm_duration x < u64_limit"
      "rn_keep rn \<Longrightarrow> offset + sm_size x \<le> rn_source_len rn"
  obtains r' where "read_entry rn 1 TRUN_FLAGS first (r, offset, time, acc) i =
      ok (r', offset + sm_size x, time + sm_duration x, if rn_keep rn then acc @ placed kind offset time [x] else acc)"
    "at_rest r' rest"
proof -
  have w': "sm_size x < u32_limit" "sm_duration x < u32_limit"
    "- 2147483648 \<le> sm_composition_offset x" "sm_composition_offset x < 2147483648"
    using w by (auto simp: sample_widths_def)
  obtain r1 where r1: "rd_u32 r = ok (sm_duration x, r1)"
    "at_rest r1 (be_bytes 4 (sm_size x) @ be_bytes 4 (sample_flags_of kind x)
       @ be_bytes 4 (cast_unsigned32 (sm_composition_offset x)) @ rest)"
    by (rule u32_back [of r "sm_duration x"]) (use r w' in \<open>auto simp: trun_entry_def\<close>)
  obtain r2 where r2: "rd_u32 r1 = ok (sm_size x, r2)"
    "at_rest r2 (be_bytes 4 (sample_flags_of kind x)
       @ be_bytes 4 (cast_unsigned32 (sm_composition_offset x)) @ rest)"
    using u32_back [OF r1(2) w'(1)] .
  obtain r3 where r3: "rd_u32 r2 = ok (sample_flags_of kind x, r3)"
    "at_rest r3 (be_bytes 4 (cast_unsigned32 (sm_composition_offset x)) @ rest)"
    using u32_back [OF r2(2) sample_flags_back(1)] .
  obtain r4 where r4: "rd_i32 r3 = ok (sm_composition_offset x, r4)" "at_rest r4 rest"
    using i32_back [OF r3(2) w'(3,4)] .
  have x: "\<lparr>sm_offset = offset, sm_size = sm_size x, sm_decode_time = time, sm_duration = sm_duration x,
      sm_composition_offset = sm_composition_offset x, sm_is_sync = (kind = Audio \<or> sm_is_sync x)\<rparr>
      = hd (placed kind offset time [x])" by simp
  have "\<not> rn_source_len rn < offset + sm_size x" if "rn_keep rn" using fits(3) [OF that] by simp
  then show thesis
    using that [of r4] r1(1) r2(1) r3(1) r4 fits(1,2)
    by (simp add: read_entry_def rd_or_def trun_flags_set read_composition_def checked_add_def
        sample_flags_back(2))
qed

lemma entries_back:
  assumes "at_rest r (concat (map (trun_entry kind) xs) @ rest)" "\<forall>x \<in> set xs. sample_widths x"
    "offset + total_size xs < u64_limit" "time + total_duration xs < u64_limit"
    "rn_keep rn \<Longrightarrow> offset + total_size xs \<le> rn_source_len rn" "length is = length xs"
  obtains r' where "try_fold (read_entry rn 1 TRUN_FLAGS first) (r, offset, time, acc) is =
      ok (r', offset + total_size xs, time + total_duration xs,
          if rn_keep rn then acc @ placed kind offset time xs else acc)"
  using assms
proof (induction xs arbitrary: r offset time acc "is" thesis)
  case Nil
  then show ?case by simp
next
  case (Cons x xs)
  obtain i "is'" where is': "is = i # is'" using Cons.prems(7) by (cases "is") auto
  obtain r1 where r1: "read_entry rn 1 TRUN_FLAGS first (r, offset, time, acc) i =
      ok (r1, offset + sm_size x, time + sm_duration x, if rn_keep rn then acc @ placed kind offset time [x] else acc)"
    "at_rest r1 (concat (map (trun_entry kind) xs) @ rest)"
    by (rule entry_back [of r kind x "concat (map (trun_entry kind) xs) @ rest" offset time rn first acc i])
       (use Cons.prems in auto)
  obtain r' where r': "try_fold (read_entry rn 1 TRUN_FLAGS first) (r1, offset + sm_size x, time + sm_duration x,
      if rn_keep rn then acc @ placed kind offset time [x] else acc) is' =
      ok (r', offset + sm_size x + total_size xs, time + sm_duration x + total_duration xs,
        if rn_keep rn then (if rn_keep rn then acc @ placed kind offset time [x] else acc)
          @ placed kind (offset + sm_size x) (time + sm_duration x) xs
        else (if rn_keep rn then acc @ placed kind offset time [x] else acc))"
    by (rule Cons.IH [OF _ r1(2)]) (use Cons.prems is' in auto)
  show ?case
    by (rule Cons.prems(1) [of r']) (use r1 r' is' in \<open>auto simp: add.assoc\<close>)
qed

lemma run_back:
  assumes w: "\<forall>x \<in> set xs. sample_widths x" and n: "length xs < u32_limit"
    and off: "start = rn_base rn + nat d" "0 \<le> d" "d < 2147483648"
    and size: "start + total_size xs < u64_limit" and time: "time + total_duration xs < u64_limit"
    and keep: "rn_keep rn \<Longrightarrow> start + total_size xs \<le> rn_source_len rn \<and> length acc + length xs \<le> mx"
    and len: "length (trun_bytes kind xs (length xs) d) < u64_limit"
  shows "read_run rn (trun_bytes kind xs (length xs) d) cursor time acc mx =
     ok (start + total_size xs, time + total_duration xs,
         if rn_keep rn then acc @ placed kind start time xs else acc)"
proof -
  let ?p = "trun_bytes kind xs (length xs) d" and ?e = "concat (map (trun_entry kind) xs)"
  have "at_rest (reader_new ?p) (write_full_box_fields 1 TRUN_FLAGS @ be_bytes 4 (length xs)
      @ be_bytes 4 (cast_unsigned32 d) @ ?e)"
    using len by (auto simp: trun_bytes_def)
  then obtain r1 where r1: "rd_full_box_flags (reader_new ?p) = ok (1, TRUN_FLAGS, r1)"
    "at_rest r1 (be_bytes 4 (length xs) @ be_bytes 4 (cast_unsigned32 d) @ ?e)"
    by (rule full_box_flags_back) (auto simp: TRUN_FLAGS_def)
  obtain r2 where r2: "rd_u32 r1 = ok (length xs, r2)" "at_rest r2 (be_bytes 4 (cast_unsigned32 d) @ ?e)"
    using u32_back [OF r1(2) n] .
  obtain r3 where r3: "rd_i32 r2 = ok (d, r3)" "at_rest r3 ?e"
    by (rule i32_back [OF r2(2)]) (use off in linarith)+
  obtain r' where fold: "try_fold (read_entry rn 1 TRUN_FLAGS None) (r3, start, time, acc) [0..<length xs] =
      ok (r', start + total_size xs, time + total_duration xs,
          if rn_keep rn then acc @ placed kind start time xs else acc)"
    by (rule entries_back [of r3 kind xs "[]" start time rn "[0..<length xs]" None acc])
       (use r3(2) w size time keep in auto)
  have "entry_size_of TRUN_FLAGS = 16" by (simp add: entry_size_of_def trun_flags_set)
  moreover have "length ?e = 16 * length xs" by (induction xs) (simp_all add: trun_entry_def)
  moreover have "rd_remaining r3 = length ?e" using r3(2) by (simp add: at_rest_def rd_remaining_rest)
  ultimately have bound: "(case checked_mul (length xs) (entry_size_of TRUN_FLAGS) of
      None \<Rightarrow> True | Some k \<Rightarrow> rd_remaining r3 < k) = False"
    using n by (simp add: checked_mul_def mult.commute)
  have room: "(rn_keep rn \<and> mx < saturating_add (length acc) (length xs)) = False"
    using keep by (auto simp: saturating_add_def)
  have "int (rn_base rn) + d = int start" using off by simp
  then have off_ok: "checked_add_signed (rn_base rn) d = Some start"
    using size by (simp only: checked_add_signed_def) simp
  show ?thesis
    by (simp only: read_run_def r1(1) and_then_simps prod.case r2(1) rd_if_def trun_flags_set r3(1)
        simp_thms if_True if_False option.case off_ok ok_or_simps bound room fold)
qed

section \<open>Reading a track fragment back\<close>

definition traf_payload :: "nat \<Rightarrow> track_kind \<Rightarrow> sample list \<Rightarrow> nat \<Rightarrow> int \<Rightarrow> bytes \<Rightarrow> bytes" where
  "traf_payload track_id kind xs time d extra =
     box_bytes (ascii ''tfhd'') (tfhd_bytes track_id) @ box_bytes (ascii ''tfdt'') (tfdt_bytes time)
       @ box_bytes (ascii ''trun'') (trun_bytes kind xs (length xs) d) @ extra"

lemma build_traf_eq_Inr:
  "build_traf track_id kind xs time d extra = Inr traf \<longleftrightarrow>
     length xs < u32_limit \<and> length (trun_bytes kind xs (length xs) d) + 8 < u32_limit
     \<and> length (traf_payload track_id kind xs time d extra) + 8 < u32_limit
     \<and> traf = box_bytes (ascii ''traf'') (traf_payload track_id kind xs time d extra)"
  by (auto simp: build_traf_def and_then_eq_Inr write_box_eq_Inr traf_payload_def tfhd_bytes_def tfdt_bytes_def)

lemma length_trun_entries: "length (concat (map (trun_entry kind) xs)) = 16 * length xs"
  by (induction xs) (simp_all add: trun_entry_def)

lemma length_trun_bytes [simp]: "length (trun_bytes kind xs n d) = 12 + 16 * length xs"
  by (simp add: trun_bytes_def length_trun_entries)

lemma length_ascii [simp]: "length (ascii s) = length s"
  by (simp add: ascii_def)

lemma length_traf_payload [simp]:
  "length (traf_payload track_id kind xs time d extra) = 56 + 16 * length xs + length extra"
  by (simp add: traf_payload_def tfhd_bytes_def tfdt_bytes_def)

text \<open>Whole boxes beside the ones that were written, none of a given name.\<close>

definition boxes_beside :: "bytes set \<Rightarrow> bytes \<Rightarrow> bool" where
  "boxes_beside names bs \<longleftrightarrow> (\<exists>cs. child_boxes bs = ok cs \<and> (\<forall>c \<in> set cs. bx_name c \<notin> names))"

lemma boxes_beside_Nil [simp]: "boxes_beside names []"
  by (simp add: boxes_beside_def)

lemma ascii_names:
  "ascii ''tfhd'' \<noteq> ascii ''tfdt''" "ascii ''tfhd'' \<noteq> ascii ''trun''" "ascii ''tfdt'' \<noteq> ascii ''trun''"
  "ascii ''mfhd'' \<noteq> ascii ''traf''" "ascii ''tfdt'' \<noteq> ascii ''tfhd''"
  by (simp_all add: ascii_def)

lemma traf_children:
  assumes "child_boxes extra = ok cs" "length (traf_payload track_id kind xs time d extra) < u32_limit"
  shows "child_boxes (traf_payload track_id kind xs time d extra) =
     ok (written (ascii ''tfhd'', tfhd_bytes track_id) # written (ascii ''tfdt'', tfdt_bytes time)
         # written (ascii ''trun'', trun_bytes kind xs (length xs) d) # cs)"
proof -
  let ?h = "tfhd_bytes track_id" and ?t = "tfdt_bytes time" and ?r = "trun_bytes kind xs (length xs) d"
  have len: "length ?h = 8" "length ?t = 12" by (simp_all add: tfhd_bytes_def tfdt_bytes_def)
  have b: "boxable (ascii ''tfhd'', ?h)" "boxable (ascii ''tfdt'', ?t)" "boxable (ascii ''trun'', ?r)"
    using len assms(2) by simp_all
  have "child_boxes (box_bytes (ascii ''trun'') ?r @ extra) = ok (written (ascii ''trun'', ?r) # cs)"
    using child_boxes_append [OF b(3), of extra] assms by simp
  then have "child_boxes (box_bytes (ascii ''tfdt'') ?t @ box_bytes (ascii ''trun'') ?r @ extra)
      = ok (written (ascii ''tfdt'', ?t) # written (ascii ''trun'', ?r) # cs)"
    using child_boxes_append [OF b(2), of "box_bytes (ascii ''trun'') ?r @ extra"] assms len by simp
  then show ?thesis
    using child_boxes_append [OF b(1), of "box_bytes (ascii ''tfdt'') ?t @ box_bytes (ascii ''trun'') ?r @ extra"]
      assms len by (simp add: traf_payload_def)
qed

lemma written_fields [simp]: "bx_name (written (n, p)) = n" "bx_payload (written (n, p)) = p"
  by (simp_all add: written_def)

lemma tfhd_back:
  assumes "track_id < u32_limit"
  shows "parse_track_fragment_header (tfhd_bytes track_id) = ok \<lparr>tf_track_id = track_id,
     tf_base_data_offset = None, tf_default_base_is_moof = True, tf_default_duration = None,
     tf_default_size = None, tf_default_flags = None\<rparr>"
proof -
  have "at_rest (reader_new (tfhd_bytes track_id))
      (write_full_box_fields 0 TFHD_DEFAULT_BASE_IS_MOOF @ be_bytes 4 track_id @ [])"
    by (rule at_rest_new [of "tfhd_bytes track_id", unfolded tfhd_bytes_def, simplified]
        | simp add: tfhd_bytes_def at_rest_def)+
  then obtain r1 where r1: "rd_full_box_flags (reader_new (tfhd_bytes track_id)) = ok (0, TFHD_DEFAULT_BASE_IS_MOOF, r1)"
    "at_rest r1 (be_bytes 4 track_id @ [])"
    by (rule full_box_flags_back) (auto simp: TFHD_DEFAULT_BASE_IS_MOOF_def)
  obtain r2 where r2: "rd_u32 r1 = ok (track_id, r2)" using u32_back [OF r1(2) assms] .
  show ?thesis
    using r1(1) r2
    by (simp add: parse_track_fragment_header_def rd_if_def TFHD_DEFAULT_BASE_IS_MOOF_def flag_defs)
qed

lemma tfdt_back:
  assumes "time < u64_limit"
  shows "parse_decode_time (tfdt_bytes time) = ok time"
proof -
  have "at_rest (reader_new (tfdt_bytes time)) (write_full_box_fields 1 0 @ be_bytes 8 time @ [])"
    by (simp add: tfdt_bytes_def at_rest_def)
  then obtain r1 where r1: "rd_full_box (reader_new (tfdt_bytes time)) = ok (1, r1)"
    "at_rest r1 (be_bytes 8 time @ [])"
    by (rule full_box_back)
  obtain r2 where r2: "rd_u64 r1 = ok (time, r2)" using u64_back [OF r1(2) assms] .
  show ?thesis using r1(1) r2 by (simp add: parse_decode_time_def)
qed

lemma read_traf_back:
  fixes l :: limits
  assumes extra: "boxes_beside {ascii ''trun''} extra"
    and len: "length (traf_payload track_id kind xs time d extra) < u32_limit"
    and w: "\<forall>x \<in> set xs. sample_widths x" and n: "length xs < u32_limit" and id: "track_id < u32_limit"
    and d: "0 \<le> d" "d < 2147483648"
    and size: "fragment_offset + nat d + total_size xs < u64_limit"
    and times: "time + total_duration xs < u64_limit" "next + total_duration xs < u64_limit"
    and want: "track_id = t \<Longrightarrow> next \<le> time \<and> fragment_offset + nat d + total_size xs \<le> source_len
       \<and> length acc + length xs \<le> max_samples_per_track l"
  shows "read_traf t defaults source_len l fragment_offset (acc, next, prev)
       (traf_payload track_id kind xs time d extra) =
     ok (if track_id = t then acc @ placed kind (fragment_offset + nat d) time xs else acc,
         if track_id = t then time + total_duration xs else next,
         fragment_offset + nat d + total_size xs)"
proof -
  let ?p = "traf_payload track_id kind xs time d extra"
  obtain cs where cs: "child_boxes extra = ok cs" "\<forall>c \<in> set cs. bx_name c \<noteq> ascii ''trun''"
    using extra by (auto simp: boxes_beside_def)
  note kids = traf_children [OF cs(1) len]
  have tfhd: "required_child ?p (ascii ''tfhd'') = ok (written (ascii ''tfhd'', tfhd_bytes track_id))"
    using kids by (simp add: required_child_def optional_child_def)
  have tfdt: "optional_child ?p (ascii ''tfdt'') = ok (Some (written (ascii ''tfdt'', tfdt_bytes time)))"
    using kids ascii_names by (simp add: optional_child_def)
  have start: "traf_start t (track_id = t) next ?p = ok (if track_id = t then time else next)"
    using tfdt tfdt_back [of time] times(1) want by (auto simp: traf_start_def)
  have truns: "filter (\<lambda>b. bx_name b = ascii ''trun'')
      (written (ascii ''tfhd'', tfhd_bytes track_id) # written (ascii ''tfdt'', tfdt_bytes time)
         # written (ascii ''trun'', trun_bytes kind xs (length xs) d) # cs)
      = [written (ascii ''trun'', trun_bytes kind xs (length xs) d)]"
    using cs(2) ascii_names by (auto simp: filter_empty_conv)
  define rn where "rn = \<lparr>rn_header = \<lparr>tf_track_id = track_id, tf_base_data_offset = None,
      tf_default_base_is_moof = True, tf_default_duration = None, tf_default_size = None, tf_default_flags = None\<rparr>,
    rn_defaults = (if track_id = t then defaults else no_defaults), rn_base = fragment_offset,
    rn_source_len = source_len, rn_keep = (track_id = t)\<rparr>"
  have run: "read_run rn (trun_bytes kind xs (length xs) d) fragment_offset
      (if track_id = t then time else next) acc (max_samples_per_track l) =
     ok (fragment_offset + nat d + total_size xs, (if track_id = t then time else next) + total_duration xs,
         if rn_keep rn then acc @ placed kind (fragment_offset + nat d) (if track_id = t then time else next) xs
         else acc)"
    by (rule run_back [OF w n]) (use d size times want len in \<open>auto simp: rn_def\<close>)
  show ?thesis
    using tfhd tfhd_back [OF id] start kids truns run
    by (auto simp: read_traf_def traf_base_def opt_or_def rn_def split: if_splits)
qed

text \<open>
  Whole fragments: the moof of several track fragments read back, the bytes that follow it, and the
  properties of the segments that are prepared and written.
\<close>

section \<open>The bytes of a segment\<close>

definition range_bytes :: "bytes \<Rightarrow> byte_range \<Rightarrow> bytes" where
  "range_bytes src r = subslice src (br_offset r) (br_offset r + br_length r)"

definition sample_bytes :: "bytes \<Rightarrow> sample \<Rightarrow> bytes" where
  "sample_bytes src s = subslice src (sm_offset s) (sm_offset s + sm_size s)"

definition in_source :: "bytes \<Rightarrow> sample \<Rightarrow> bool" where
  "in_source src s \<longleftrightarrow> sm_offset s + sm_size s \<le> length src"

definition range_in_source :: "bytes \<Rightarrow> byte_range \<Rightarrow> bool" where
  "range_in_source src r \<longleftrightarrow> br_offset r + br_length r \<le> length src"

text \<open>What is served: the header, then the ranges of the source.\<close>

definition segment_bytes :: "bytes \<Rightarrow> 'e prepared_segment \<Rightarrow> bytes" where
  "segment_bytes src p = ps_header p @ concat (map (range_bytes src) (ps_ranges p))"

lemma length_sample_bytes [simp]: "in_source src s \<Longrightarrow> length (sample_bytes src s) = sm_size s"
  by (simp add: sample_bytes_def in_source_def)

lemma length_samples_bytes:
  "\<forall>x \<in> set xs. in_source src x \<Longrightarrow> length (concat (map (sample_bytes src) xs)) = total_size xs"
  by (induction xs) simp_all

lemma coalesce_step_bytes:
  assumes "\<forall>r \<in> set rs. range_in_source src r" "in_source src s" "length src < u64_limit"
  obtains rs' where "coalesce_step rs s = ok rs'" "\<forall>r \<in> set rs'. range_in_source src r"
    "concat (map (range_bytes src) rs') = concat (map (range_bytes src) rs) @ sample_bytes src s"
proof (cases "rs \<noteq> [] \<and> byte_range_end (last rs) = Some (sm_offset s)")
  case True
  define p where "p = last rs"
  have rs: "rs = butlast rs @ [p]" using True by (simp add: p_def)
  have p: "range_in_source src p" using True assms(1) by (simp add: p_def)
  have e: "br_offset p + br_length p = sm_offset s"
    using True by (simp add: byte_range_end_def p_def)
  let ?p = "p\<lparr>br_length := br_length p + sm_size s\<rparr>"
  have fits: "br_offset p + (br_length p + sm_size s) \<le> length src"
    using e assms(2) by (simp add: in_source_def)
  have step: "coalesce_step rs s = ok (butlast rs @ [?p])"
    using True fits assms(3) by (simp add: coalesce_step_def last_opt_def byte_range_new_def p_def checked_add_def)
  have "range_bytes src ?p = range_bytes src p @ sample_bytes src s"
  proof -
    have same: "br_offset p + (br_length p + sm_size s) = sm_offset s + sm_size s" using e by simp
    have "range_bytes src ?p = subslice src (br_offset p) (br_offset p + (br_length p + sm_size s))"
      by (simp add: range_bytes_def)
    then show ?thesis
      using subslice_append [of "br_offset p" "sm_offset s" "sm_offset s + sm_size s" src] e fits
      unfolding same by (simp add: range_bytes_def sample_bytes_def)
  qed
  then have "concat (map (range_bytes src) (butlast rs @ [?p])) = concat (map (range_bytes src) rs) @ sample_bytes src s"
    by (subst (2) rs) simp
  moreover have "\<forall>r \<in> set (butlast rs @ [?p]). range_in_source src r"
    using assms(1) fits by (auto simp: range_in_source_def dest: in_set_butlastD)
  ultimately show thesis using that step by blast
next
  case False
  then have "coalesce_step rs s = ok (rs @ [byte_range_new (sm_offset s) (sm_size s)])"
    by (auto simp: coalesce_step_def last_opt_def)
  moreover have "range_bytes src (byte_range_new (sm_offset s) (sm_size s)) = sample_bytes src s"
    "range_in_source src (byte_range_new (sm_offset s) (sm_size s))"
    using assms(2) by (auto simp: byte_range_new_def range_bytes_def sample_bytes_def in_source_def range_in_source_def)
  ultimately show thesis using that assms(1) by auto
qed

lemma coalesced_fold:
  assumes "\<forall>r \<in> set rs. range_in_source src r" "\<forall>x \<in> set xs. in_source src x" "length src < u64_limit"
  shows "\<exists>rs'. try_fold coalesce_step rs xs = ok rs' \<and> (\<forall>r \<in> set rs'. range_in_source src r)
    \<and> concat (map (range_bytes src) rs') = concat (map (range_bytes src) rs) @ concat (map (sample_bytes src) xs)"
  using assms(1,2)
proof (induction xs arbitrary: rs)
  case (Cons x xs)
  obtain rs1 where rs1: "coalesce_step rs x = ok rs1" "\<forall>r \<in> set rs1. range_in_source src r"
    "concat (map (range_bytes src) rs1) = concat (map (range_bytes src) rs) @ sample_bytes src x"
    using coalesce_step_bytes [OF Cons.prems(1) _ assms(3), of x] Cons.prems(2) by auto
  then show ?case using Cons.IH [OF rs1(2)] Cons.prems(2) by auto
qed simp

lemma coalesced_bytes:
  assumes "\<forall>x \<in> set xs. in_source src x" "length src < u64_limit"
  obtains rs where "coalesced_ranges xs = ok rs" "\<forall>r \<in> set rs. range_in_source src r"
    "concat (map (range_bytes src) rs) = concat (map (sample_bytes src) xs)"
  using coalesced_fold [of "[]" src xs] assms by (auto simp: coalesced_ranges_def)

section \<open>Where samples are placed\<close>

lemma length_placed [simp]: "length (placed kind offset time xs) = length xs"
  by (induction xs arbitrary: offset time) simp_all

lemma nth_placed:
  assumes "i < length xs"
  shows "placed kind offset time xs ! i = (xs ! i)\<lparr>sm_offset := offset + total_size (take i xs),
     sm_decode_time := time + total_duration (take i xs), sm_is_sync := (kind = Audio \<or> sm_is_sync (xs ! i))\<rparr>"
  using assms
proof (induction xs arbitrary: offset time i)
  case (Cons x xs)
  then show ?case by (cases i) (simp_all add: add.assoc)
qed simp

lemma samples_bytes_at:
  assumes "\<forall>x \<in> set xs. in_source src x" "i < length xs"
  shows "subslice (pre @ concat (map (sample_bytes src) xs) @ post) (length pre + total_size (take i xs))
     (length pre + total_size (take i xs) + sm_size (xs ! i)) = sample_bytes src (xs ! i)"
proof -
  let ?f = "\<lambda>ys. concat (map (sample_bytes src) ys)"
  have split: "?f xs = ?f (take i xs) @ sample_bytes src (xs ! i) @ ?f (drop (Suc i) xs)"
    using id_take_nth_drop [OF assms(2)]
    by (metis concat.simps(2) concat_append list.simps(9) map_append)
  have len: "length (?f (take i xs)) = total_size (take i xs)"
    using assms(1) by (intro length_samples_bytes) (auto dest: in_set_takeD)
  have "in_source src (xs ! i)" using assms by simp
  then show ?thesis unfolding split using len by (simp add: subslice_def)
qed

section \<open>Reading a moof back\<close>

record traf_part =
  pa_id :: nat
  pa_kind :: track_kind
  pa_samples :: "sample list"
  pa_time :: nat
  pa_offset :: int
  pa_extra :: bytes

definition part_payload :: "traf_part \<Rightarrow> bytes" where
  "part_payload p = traf_payload (pa_id p) (pa_kind p) (pa_samples p) (pa_time p) (pa_offset p) (pa_extra p)"

definition moof_payload :: "nat \<Rightarrow> (bytes \<times> bytes) list \<Rightarrow> traf_part list \<Rightarrow> bytes" where
  "moof_payload seq beside ps = concat (map (\<lambda>(n, p). box_bytes n p)
     ((ascii ''mfhd'', write_full_box_fields 0 0 @ be_bytes 4 seq)
       # beside @ map (\<lambda>p. (ascii ''traf'', part_payload p)) ps))"

text \<open>A part that was written, at a place where its data does not overflow.\<close>

definition part_ok :: "nat \<Rightarrow> traf_part \<Rightarrow> bool" where
  "part_ok at p \<longleftrightarrow> boxes_beside {ascii ''trun''} (pa_extra p) \<and> length (part_payload p) + 8 < u32_limit
     \<and> (\<forall>x \<in> set (pa_samples p). sample_widths x) \<and> length (pa_samples p) < u32_limit
     \<and> pa_id p < u32_limit \<and> 0 \<le> pa_offset p \<and> pa_offset p < 2147483648
     \<and> at + nat (pa_offset p) + total_size (pa_samples p) < u64_limit
     \<and> pa_time p + total_duration (pa_samples p) < u64_limit"

lemma read_part:
  assumes "part_ok at p" "next + total_duration (pa_samples p) < u64_limit"
    "pa_id p = t \<Longrightarrow> next \<le> pa_time p \<and> at + nat (pa_offset p) + total_size (pa_samples p) \<le> len
       \<and> length acc + length (pa_samples p) \<le> max_samples_per_track l"
  shows "read_traf t d len l at (acc, next, prev) (part_payload p) =
     ok (if pa_id p = t then acc @ placed (pa_kind p) (at + nat (pa_offset p)) (pa_time p) (pa_samples p) else acc,
         if pa_id p = t then pa_time p + total_duration (pa_samples p) else next,
         at + nat (pa_offset p) + total_size (pa_samples p))"
  unfolding part_payload_def
  using assms by (intro read_traf_back) (auto simp: part_ok_def part_payload_def)

lemma read_other_parts:
  assumes "\<forall>p \<in> set ps. part_ok at p \<and> pa_id p \<noteq> t \<and> next + total_duration (pa_samples p) < u64_limit"
  shows "\<exists>prev'. try_fold (read_traf t d len l at) (acc, next, prev) (map part_payload ps) = ok (acc, next, prev')"
  using assms
proof (induction ps arbitrary: prev)
  case (Cons p ps)
  have "read_traf t d len l at (acc, next, prev) (part_payload p) =
      ok (acc, next, at + nat (pa_offset p) + total_size (pa_samples p))"
    using read_part [of at p "next" t len acc l d prev] Cons.prems by auto
  then show ?case using Cons.IH Cons.prems by simp
qed simp

lemma read_moof_back:
  assumes ok: "\<forall>q \<in> set (pre @ p # post). part_ok at q"
    and others: "\<forall>q \<in> set (pre @ post). pa_id q \<noteq> t
        \<and> pa_time p + total_duration (pa_samples p) + total_duration (pa_samples q) < u64_limit"
    and p: "pa_id p = t" "at + nat (pa_offset p) + total_size (pa_samples p) \<le> len"
      "length (pa_samples p) \<le> max_samples_per_track l"
    and beside: "\<forall>b \<in> set beside. boxable b \<and> fst b \<noteq> ascii ''traf''"
    and len: "length (moof_payload seq beside (pre @ p # post)) + 8 < u32_limit"
  shows "track_samples [\<lparr>fr_offset = at, fr_bytes = box_bytes (ascii ''moof'') (moof_payload seq beside (pre @ p # post))\<rparr>]
      t d len l = ok (placed (pa_kind p) (at + nat (pa_offset p)) (pa_time p) (pa_samples p))"
proof -
  let ?ps = "pre @ p # post"
  let ?boxes = "(ascii ''mfhd'', write_full_box_fields 0 0 @ be_bytes 4 seq)
       # beside @ map (\<lambda>p. (ascii ''traf'', part_payload p)) ?ps"
  let ?moof = "box_bytes (ascii ''moof'') (moof_payload seq beside ?ps)"
  have "boxable (ascii ''moof'', moof_payload seq beside ?ps)" using len by simp
  then have top: "box_payload ?moof 0 = ok (written (ascii ''moof'', moof_payload seq beside ?ps))"
    using len by (intro box_payload_written [where rest = "[]"]) simp_all
  have "\<forall>b \<in> set ?boxes. boxable b"
    using beside ok by (auto simp: part_ok_def)
  then have kids: "child_boxes (moof_payload seq beside ?ps) = ok (map written ?boxes)"
    unfolding moof_payload_def using len by (intro child_boxes_written) (simp_all add: moof_payload_def)
  have none: "filter (\<lambda>b. bx_name b = ascii ''traf'') (map written beside) = []"
    using beside by (auto simp: filter_empty_conv)
  have "filter (\<lambda>b. bx_name b = ascii ''traf'') (map (\<lambda>p. written (ascii ''traf'', part_payload p)) qs)
      = map (\<lambda>p. written (ascii ''traf'', part_payload p)) qs" for qs
    by (induction qs) simp_all
  then have trafs: "map bx_payload (filter (\<lambda>b. bx_name b = ascii ''traf'') (map written ?boxes)) = map part_payload ?ps"
    using none ascii_names(4) by (simp add: comp_def)
  let ?until = "pa_time p + total_duration (pa_samples p)"
  let ?xs = "placed (pa_kind p) (at + nat (pa_offset p)) (pa_time p) (pa_samples p)"
  obtain prev1 where f1: "try_fold (read_traf t d len l at) ([], 0, at) (map part_payload pre) = ok ([], 0, prev1)"
  proof -
    have "\<forall>q \<in> set pre. part_ok at q \<and> pa_id q \<noteq> t \<and> 0 + total_duration (pa_samples q) < u64_limit"
      using ok others by (auto intro: le_less_trans [rotated])
    from read_other_parts [OF this] show thesis using that by blast
  qed
  have f2: "read_traf t d len l at ([], 0, prev1) (part_payload p) =
      ok (?xs, ?until, at + nat (pa_offset p) + total_size (pa_samples p))"
    using read_part [of at p 0 t len "[]" l d prev1] ok p by (auto simp: part_ok_def)
  obtain prev3 where f3: "try_fold (read_traf t d len l at)
      (?xs, ?until, at + nat (pa_offset p) + total_size (pa_samples p)) (map part_payload post) = ok (?xs, ?until, prev3)"
    using read_other_parts [of post at t ?until d len l ?xs "at + nat (pa_offset p) + total_size (pa_samples p)"]
      ok others by auto
  have "try_fold (read_traf t d len l at) ([], 0, at) (map part_payload ?ps) = ok (?xs, ?until, prev3)"
    using f1 f2 f3 by (simp add: try_fold_append)
  then show ?thesis
    using top kids trafs by (simp add: track_samples_def read_fragment_def del: list.map)
qed

section \<open>What the preparation of a segment yields\<close>

lemma payload_length_eq:
  "payload_length xs = (if total_size xs < u64_limit then ok (total_size xs)
     else fail (InvalidMedia ''fragment payload size overflow''))"
proof -
  have "try_fold (\<lambda>total s. ok_or (checked_add total (sm_size s)) e) n xs =
      (if n + total_size xs < u64_limit then ok (n + total_size xs) else fail e)" if "n < u64_limit" for n e
    using that
  proof (induction xs arbitrary: n)
    case (Cons x xs)
    show ?case
    proof (cases "n + sm_size x < u64_limit")
      case True
      then show ?thesis using Cons.IH [OF True] by (simp add: checked_add_def add.assoc)
    next
      case False
      then show ?thesis by (simp add: checked_add_def)
    qed
  qed simp
  from this [of 0] show ?thesis by (simp add: payload_length_def)
qed

definition part_of :: "track \<Rightarrow> track_segment \<Rightarrow> sample list \<Rightarrow> int \<Rightarrow> traf_part" where
  "part_of t seg xs d = \<lparr>pa_id = tr_id t, pa_kind = tr_kind t, pa_samples = xs,
     pa_time = sg_decode_time seg, pa_offset = d, pa_extra = []\<rparr>"

lemma build_traf_part:
  assumes "build_traf (tr_id t) (tr_kind t) xs (sg_decode_time seg) d [] = Inr traf"
  shows "traf = box_bytes (ascii ''traf'') (part_payload (part_of t seg xs d))"
    "length xs < u32_limit" "length (part_payload (part_of t seg xs d)) + 8 < u32_limit"
  using assms by (auto simp: build_traf_eq_Inr part_payload_def part_of_def)

lemma moof_of_eq_Inr:
  "moof_of seq [] (map (\<lambda>p. box_bytes (ascii ''traf'') (part_payload p)) ps) = Inr moof \<longleftrightarrow>
     length (moof_payload seq [] ps) + 8 < u32_limit
     \<and> moof = box_bytes (ascii ''moof'') (moof_payload seq [] ps)"
  by (auto simp: moof_of_def and_then_eq_Inr write_box_eq_Inr moof_payload_def comp_def)

lemma length_part_payload: "length (part_payload (part_of t seg xs d)) = 56 + 16 * length xs"
  by (simp add: part_payload_def part_of_def)

lemma prepare_media_segment_eq:
  assumes "prepare_media_segment t seg seq l = Inr p" "max_segment_bytes l < u64_limit - 8"
  obtains xs moof d where "segment_samples t seg = ok xs" "xs \<noteq> []" "length xs < u32_limit"
    "moof = box_bytes (ascii ''moof'') (moof_payload seq [] [part_of t seg xs (int d)])"
    "d = length moof + 8" "d < 2147483648" "length (part_payload (part_of t seg xs (int d))) + 8 < u32_limit"
    "length (moof_payload seq [] [part_of t seg xs (int d)]) + 8 < u32_limit"
    "ps_header p = moof @ be_bytes 4 (total_size xs + 8) @ ascii ''mdat''" "total_size xs + 8 < u32_limit"
    "ps_content_length p = length (ps_header p) + total_size xs" "ps_content_length p < u64_limit"
    "coalesced_ranges xs = ok (ps_ranges p)" "ps_encryption p = None" "total_size xs \<le> max_segment_bytes l"
proof -
  obtain xs prov d moof n header where xs: "segment_samples t seg = ok xs" "xs \<noteq> []"
    and prov: "build_moof (tr_id t) (tr_kind t) xs (sg_decode_time seg) seq 0 [] [] = ok prov"
    and d: "i32_of_nat (length prov + 8) = Some d"
    and moof: "build_moof (tr_id t) (tr_kind t) xs (sg_decode_time seg) seq d [] [] = ok moof"
    and n: "payload_length xs = ok n" "n \<le> max_segment_bytes l"
    and header: "write_box_header moof (wadd64 n 8) (ascii ''mdat'') = ok header"
    and p: "ps_header p = header" "coalesced_ranges xs = ok (ps_ranges p)" "ps_encryption p = None"
      "checked_add (length header) n = Some (ps_content_length p)"
    using assms(1) by (auto simp: prepare_media_segment_def and_then_eq_Inr split: if_splits)
  have n': "n = total_size xs" using n(1) by (simp add: payload_length_eq split: if_splits)
  then have w: "wadd64 n 8 = total_size xs + 8" using n(2) assms(2) by simp
  have d': "d = int (length prov + 8)" "length prov + 8 < 2147483648"
    using d by (auto simp: i32_of_nat_def split: if_splits)
  have built: "b = box_bytes (ascii ''moof'') (moof_payload seq [] [part_of t seg xs e])
      \<and> length (moof_payload seq [] [part_of t seg xs e]) + 8 < u32_limit \<and> length xs < u32_limit
      \<and> length (part_payload (part_of t seg xs e)) + 8 < u32_limit"
    if "build_moof (tr_id t) (tr_kind t) xs (sg_decode_time seg) seq e [] [] = ok b" for b e
    using that build_traf_part moof_of_eq_Inr [of seq "[part_of t seg xs e]" b]
    by (fastforce simp: build_moof_def and_then_eq_Inr)
  have same: "length prov = length moof"
    using built [OF prov] built [OF moof] by (simp add: moof_payload_def length_part_payload)
  show thesis
    by (rule that [OF xs, of moof "length prov + 8"])
       (use built [OF moof] same d' p header n n' w in
        \<open>auto simp: write_box_header_eq_Inr\<close>)
qed

section \<open>Properties\<close>

text \<open>
  C25 A prepared segment of one track says exactly what it serves: its content length is that of the
  header and the ranges together, the reader of fragmented files reads the moof back as the track's
  samples, in order, timed from the segment's decode time and placed right after the header, and at
  those places the served bytes are the samples' bytes of the source.
\<close>

theorem fragment_reads_back:
  assumes "prepare_media_segment t seg seq l = ok p" "segment_samples t seg = ok xs"
    and "\<forall>x \<in> set xs. sample_widths x \<and> in_source src x" "length src < u64_limit"
    and "tr_id t < u32_limit" "sg_decode_time seg + total_duration xs < u64_limit"
    and "max_segment_bytes l < u64_limit - 8" "length xs \<le> max_samples_per_track l'"
  shows "\<exists>moof mdat ys. ps_header p = moof @ mdat \<and> length mdat = 8
     \<and> ps_content_length p = length (segment_bytes src p)
     \<and> track_samples [\<lparr>fr_offset = 0, fr_bytes = moof\<rparr>] (tr_id t) d (length (segment_bytes src p)) l' = ok ys
     \<and> ys = placed (tr_kind t) (length (ps_header p)) (sg_decode_time seg) xs
     \<and> (\<forall>i < length xs. sample_bytes (segment_bytes src p) (ys ! i) = sample_bytes src (xs ! i))"
proof -
  obtain xs' moof k where facts: "segment_samples t seg = ok xs'" "xs' \<noteq> []" "length xs' < u32_limit"
    "moof = box_bytes (ascii ''moof'') (moof_payload seq [] [part_of t seg xs' (int k)])"
    "k = length moof + 8" "k < 2147483648" "length (part_payload (part_of t seg xs' (int k))) + 8 < u32_limit"
    "length (moof_payload seq [] [part_of t seg xs' (int k)]) + 8 < u32_limit"
    "ps_header p = moof @ be_bytes 4 (total_size xs' + 8) @ ascii ''mdat''" "total_size xs' + 8 < u32_limit"
    "ps_content_length p = length (ps_header p) + total_size xs'" "ps_content_length p < u64_limit"
    "coalesced_ranges xs' = ok (ps_ranges p)" "ps_encryption p = None" "total_size xs' \<le> max_segment_bytes l"
    by (rule prepare_media_segment_eq [OF assms(1,7)])
  have "xs' = xs" using facts(1) assms(2) by simp
  note facts = facts [unfolded this]
  note n = facts(3) and moof = facts(4) and k = facts(5,6) and small = facts(7,8) and header = facts(9)
    and len = facts(11,12) and ranges = facts(13)
  have inside: "\<forall>x \<in> set xs. in_source src x" using assms(3) by blast
  obtain rs where "coalesced_ranges xs = ok rs" "concat (map (range_bytes src) rs) = concat (map (sample_bytes src) xs)"
    using coalesced_bytes [OF inside assms(4)] .
  then have out: "segment_bytes src p = ps_header p @ concat (map (sample_bytes src) xs) @ []"
    using ranges by (simp add: segment_bytes_def)
  have total: "length (segment_bytes src p) = length (ps_header p) + total_size xs"
    unfolding out using length_samples_bytes [OF inside] by simp
  have at: "length (ps_header p) = k" using k(1) by (simp add: header)
  let ?p = "part_of t seg xs (int k)"
  have ok: "part_ok 0 ?p"
    using assms(3,5,6) n k(2) small(1) len at by (auto simp: part_ok_def part_of_def)
  have "track_samples [\<lparr>fr_offset = 0, fr_bytes = box_bytes (ascii ''moof'') (moof_payload seq [] ([] @ ?p # []))\<rparr>]
      (tr_id t) d (length (segment_bytes src p)) l'
    = ok (placed (pa_kind ?p) (0 + nat (pa_offset ?p)) (pa_time ?p) (pa_samples ?p))"
    by (rule read_moof_back) (use ok assms(8) small(2) total at in \<open>auto simp: part_of_def\<close>)
  then have read: "track_samples [\<lparr>fr_offset = 0, fr_bytes = moof\<rparr>] (tr_id t) d (length (segment_bytes src p)) l'
      = ok (placed (tr_kind t) (length (ps_header p)) (sg_decode_time seg) xs)"
    using moof at by (simp add: part_of_def)
  have "sample_bytes (segment_bytes src p) (placed (tr_kind t) (length (ps_header p)) (sg_decode_time seg) xs ! i)
      = sample_bytes src (xs ! i)" if "i < length xs" for i
    using samples_bytes_at [OF inside that, of "ps_header p" "[]"]
    unfolding out by (simp add: nth_placed [OF that] sample_bytes_def [of "_ @ _"])
  moreover have "length (be_bytes 4 (total_size xs + 8) @ ascii ''mdat'') = 8" by simp
  ultimately show ?thesis using read header total len(1) by (intro exI conjI allI impI) (assumption | simp)+
qed

end
