(* ===== verification/Muxed_Fragments.thy ===== *)
theory Muxed_Fragments
  imports Fragment_Writer_Laws
begin

text \<open>
  Segments of several tracks in one fragment (\<^verbatim>\<open>prepare_muxed_segment\<close>): every track's samples are
  read back from the shared moof, at the places where the shared payload has them.
\<close>

abbreviation muxed_samples :: "muxed_part \<Rightarrow> sample list" where
  "muxed_samples q \<equiv> fst (snd (snd q))"

abbreviation muxed_payload :: "muxed_part \<Rightarrow> nat" where
  "muxed_payload q \<equiv> snd (snd (snd q))"

definition expanded_from :: "muxed_part \<Rightarrow> bool" where
  "expanded_from q \<longleftrightarrow> segment_samples (fst q) (fst (snd q)) = ok (muxed_samples q)
     \<and> muxed_samples q \<noteq> [] \<and> muxed_payload q = total_size (muxed_samples q)"

lemma expand_fold:
  "try_fold expand_part acc (zip [n..<n + length parts] parts) = Inr ms \<Longrightarrow>
     \<exists>more. ms = acc @ more \<and> (\<forall>q \<in> set more. expanded_from q)
       \<and> map (\<lambda>q. (fst q, fst (snd q))) more = filter (\<lambda>(t, seg). segment_samples t seg \<noteq> ok []) parts"
proof (induction parts arbitrary: acc n)
  case (Cons part parts)
  obtain t seg where part: "part = (t, seg)" by (cases part)
  obtain acc' where step: "expand_part acc (n, part) = Inr acc'"
    and rest: "try_fold expand_part acc' (zip [Suc n..<Suc n + length parts] parts) = Inr ms"
    using Cons.prems by (auto simp: upt_conv_Cons and_then_eq_Inr simp del: upt_Suc)
  obtain xs where xs: "segment_samples t seg = ok xs"
    using step by (auto simp: expand_part_def part and_then_eq_Inr)
  obtain more where more: "ms = acc' @ more" "\<forall>q \<in> set more. expanded_from q"
    "map (\<lambda>q. (fst q, fst (snd q))) more = filter (\<lambda>(t, seg). segment_samples t seg \<noteq> ok []) parts"
    using Cons.IH [OF rest] by blast
  show ?case
  proof (cases "xs = []")
    case True
    then have "acc' = acc" using step xs by (auto simp: expand_part_def part split: if_splits)
    then show ?thesis using more xs True part by auto
  next
    case False
    then have "acc' = acc @ [(t, seg, xs, total_size xs)]"
      using step xs by (auto simp: expand_part_def part payload_length_eq split: if_splits)
    then show ?thesis
      using more xs False part by (intro exI [of _ "(t, seg, xs, total_size xs) # more"]) (auto simp: expanded_from_def)
  qed
qed simp

lemma payload_fold:
  assumes "try_fold (\<lambda>total (_, _, _, payload). ok_or (checked_add total payload) e) n ms = Inr m"
  shows "m = n + sum_list (map muxed_payload ms)"
  using assms by (induction ms arbitrary: n) (fastforce simp: and_then_eq_Inr)+

definition offset_at :: "nat \<Rightarrow> muxed_part list \<Rightarrow> nat \<Rightarrow> nat" where
  "offset_at start ms k = start + sum_list (map muxed_payload (take k ms))"

lemma offsets_fold:
  assumes "try_fold (\<lambda>(offsets, offset) (_, _, _, payload).
        and_then (ok_or (i32_of_nat offset) e) (\<lambda>i. ok (offsets @ [i], wadd64 offset payload))) (acc, start) ms
      = Inr (offs, z)"
    and "start + sum_list (map muxed_payload ms) < u64_limit"
  shows "offs = acc @ map (\<lambda>k. int (offset_at start ms k)) [0..<length ms]
     \<and> (\<forall>k < length ms. offset_at start ms k < 2147483648)"
  using assms
proof (induction ms arbitrary: acc start)
  case (Cons q qs)
  obtain t seg xs payload where q: "q = (t, seg, xs, payload)" by (cases q) auto
  obtain i where i: "i32_of_nat start = Some i"
    and rest: "try_fold (\<lambda>(offsets, offset) (_, _, _, payload).
        and_then (ok_or (i32_of_nat offset) e) (\<lambda>i. ok (offsets @ [i], wadd64 offset payload)))
        (acc @ [i], start + payload) qs = Inr (offs, z)"
    using Cons.prems by (auto simp: q and_then_eq_Inr)
  have i': "i = int start" "start < 2147483648" using i by (auto simp: i32_of_nat_def split: if_splits)
  have shift: "offset_at start (q # qs) (Suc k) = offset_at (start + payload) qs k" for k
    by (simp add: offset_at_def q)
  have zero: "offset_at start (q # qs) 0 = start" by (simp add: offset_at_def)
  have "offs = (acc @ [i]) @ map (\<lambda>k. int (offset_at (start + payload) qs k)) [0..<length qs]
      \<and> (\<forall>k < length qs. offset_at (start + payload) qs k < 2147483648)"
    using Cons.prems(2) by (intro Cons.IH [OF rest]) (simp add: q add.assoc)
  moreover have "map (\<lambda>k. int (offset_at start (q # qs) k)) [0..<length (q # qs)]
      = int start # map (\<lambda>k. int (offset_at (start + payload) qs k)) [0..<length qs]"
    by (rule nth_equalityI) (auto simp: shift zero nth_Cons simp del: upt_Suc split: nat.split)
  moreover have "offset_at start (q # qs) k < 2147483648"
    if "k < length (q # qs)" "\<forall>k < length qs. offset_at (start + payload) qs k < 2147483648" for k
    using that shift zero i'(2) by (cases k) auto
  ultimately show ?case using i'(1) by auto
qed simp

definition part_at :: "muxed_part \<times> int \<Rightarrow> traf_part" where
  "part_at = (\<lambda>((t, seg, xs, _), d). part_of t seg xs d)"

lemma muxed_trafs_eq:
  assumes "muxed_trafs ms offs = Inr trafs"
  shows "trafs = map (\<lambda>p. box_bytes (ascii ''traf'') (part_payload p)) (map part_at (zip ms offs))"
    "\<forall>q \<in> set (zip ms offs). length (muxed_samples (fst q)) < u32_limit
       \<and> length (part_payload (part_at q)) + 8 < u32_limit"
proof -
  let ?f = "\<lambda>((t, seg, xs, _), d). build_traf (tr_id t) (tr_kind t) xs (sg_decode_time seg) d []"
  have f: "map ?f (zip ms offs) = map Inr trafs"
    using assms by (simp add: muxed_trafs_def collect_res_eq_Inr)
  have one: "traf = box_bytes (ascii ''traf'') (part_payload (part_at q))
      \<and> length (muxed_samples (fst q)) < u32_limit \<and> length (part_payload (part_at q)) + 8 < u32_limit"
    if "?f q = Inr traf" for q :: "muxed_part \<times> int" and traf
    using that build_traf_part by (cases q) (auto simp: part_at_def)
  have len: "length trafs = length (zip ms offs)" using arg_cong [OF f, of length] by simp
  have nth: "?f (zip ms offs ! i) = Inr (trafs ! i)" if "i < length trafs" for i
    using arg_cong [OF f, of "\<lambda>xs. xs ! i"] that len by simp
  show "trafs = map (\<lambda>p. box_bytes (ascii ''traf'') (part_payload p)) (map part_at (zip ms offs))"
    using one nth len by (intro nth_equalityI) auto
  show "\<forall>q \<in> set (zip ms offs). length (muxed_samples (fst q)) < u32_limit
       \<and> length (part_payload (part_at q)) + 8 < u32_limit"
    using one nth len by (fastforce simp: in_set_conv_nth)
qed

lemma length_part_at: "length (part_payload (part_at q)) = 56 + 16 * length (muxed_samples (fst q))"
  by (cases q) (auto simp: part_at_def length_part_payload)

lemma length_moof_parts:
  "length (moof_payload seq [] ps) = 16 + sum_list (map (\<lambda>p. 8 + length (part_payload p)) ps)"
  by (simp add: moof_payload_def length_concat comp_def)

lemma muxed_ranges_bytes:
  assumes "\<forall>q \<in> set ms. \<forall>x \<in> set (muxed_samples q). in_source src x" "length src < u64_limit"
    "muxed_ranges ms = Inr rs"
  shows "concat (map (range_bytes src) rs) = concat (map (\<lambda>q. concat (map (sample_bytes src) (muxed_samples q))) ms)"
proof -
  have "concat (map (range_bytes src) rs) = concat (map (range_bytes src) acc)
      @ concat (map (\<lambda>q. concat (map (sample_bytes src) (muxed_samples q))) qs)"
    if "try_fold (\<lambda>ranges (_, _, samples, _). and_then (coalesced_ranges samples) (\<lambda>rs. ok (ranges @ rs))) acc qs = Inr rs"
      "\<forall>q \<in> set qs. \<forall>x \<in> set (muxed_samples q). in_source src x" for acc qs
    using that
  proof (induction qs arbitrary: acc)
    case (Cons q qs)
    obtain t seg xs n where q: "q = (t, seg, xs, n)" by (cases q) auto
    have "\<forall>x \<in> set xs. in_source src x" using Cons.prems(2) by (simp add: q)
    then obtain r1 where r1: "coalesced_ranges xs = ok r1"
      "concat (map (range_bytes src) r1) = concat (map (sample_bytes src) xs)"
      using coalesced_bytes [OF _ assms(2)] by metis
    then show ?case using Cons.IH [of "acc @ r1"] Cons.prems by (simp add: q)
  qed simp
  from this [of "[]" ms] show ?thesis using assms(1,3) by (simp add: muxed_ranges_def)
qed

text \<open>The parts as they are written: each at the place of its data after the header.\<close>

definition muxed_parts :: "nat \<Rightarrow> muxed_part list \<Rightarrow> traf_part list" where
  "muxed_parts start ms = map (\<lambda>k. part_at (ms ! k, int (offset_at start ms k))) [0..<length ms]"

lemma prepare_muxed_eq:
  assumes prep: "prepare_muxed_segment parts seq l = ok p" and lim: "max_segment_bytes l < u64_limit - 8"
  obtains ms moof n where
    "\<forall>q \<in> set ms. expanded_from q" "n = sum_list (map muxed_payload ms)" "n + 8 < u32_limit"
    "map (\<lambda>q. (fst q, fst (snd q))) ms = filter (\<lambda>(t, seg). segment_samples t seg \<noteq> ok []) parts"
    "moof = box_bytes (ascii ''moof'') (moof_payload seq [] (muxed_parts (length moof + 8) ms))"
    "length (moof_payload seq [] (muxed_parts (length moof + 8) ms)) + 8 < u32_limit"
    "\<forall>k < length ms. offset_at (length moof + 8) ms k < 2147483648"
    "\<forall>q \<in> set (muxed_parts (length moof + 8) ms). length (pa_samples q) < u32_limit
       \<and> length (part_payload q) + 8 < u32_limit"
    "ps_header p = moof @ be_bytes 4 (n + 8) @ ascii ''mdat''" "muxed_ranges ms = ok (ps_ranges p)"
    "ps_content_length p = length (ps_header p) + n" "ps_content_length p < u64_limit"
proof -
  obtain ms n probe_trafs probe offs trafs moof header where
    ms: "try_fold expand_part [] (zip [0..<length parts] parts) = ok ms"
    and n: "try_fold (\<lambda>total (_, _, _, payload). ok_or (checked_add total payload)
        (InvalidMedia ''fragment payload size overflow'')) 0 ms = ok n" "n \<le> max_segment_bytes l"
    and probe: "muxed_trafs ms (replicate (length ms) 0) = ok probe_trafs" "moof_of seq [] probe_trafs = ok probe"
    and offs: "muxed_offsets (length probe + 8) ms = ok offs"
    and trafs: "muxed_trafs ms offs = ok trafs" and moof: "moof_of seq [] trafs = ok moof"
    and header: "write_box_header moof (wadd64 n 8) (ascii ''mdat'') = ok header"
    and p: "muxed_ranges ms = ok (ps_ranges p)" "ps_header p = header"
      "checked_add (length header) n = Some (ps_content_length p)"
    using prep by (auto simp: prepare_muxed_segment_def and_then_eq_Inr split: if_splits)
  have parts: "\<forall>q \<in> set ms. expanded_from q"
    "map (\<lambda>q. (fst q, fst (snd q))) ms = filter (\<lambda>(t, seg). segment_samples t seg \<noteq> ok []) parts"
    using expand_fold [of "[]" 0 parts ms] ms by auto
  have total: "n = sum_list (map muxed_payload ms)" using payload_fold [OF n(1)] by simp
  have head: "n + 8 < u32_limit" "header = moof @ be_bytes 4 (n + 8) @ ascii ''mdat''"
    using header n(2) lim by (auto simp: write_box_header_eq_Inr)
  let ?zero = "map part_at (zip ms (replicate (length ms) 0))"
  note pt = muxed_trafs_eq [OF probe(1)] and tt = muxed_trafs_eq [OF trafs]
  have probe': "probe = box_bytes (ascii ''moof'') (moof_payload seq [] ?zero)"
    "length (moof_payload seq [] ?zero) + 8 < u32_limit"
    using probe(2) moof_of_eq_Inr unfolding pt(1) by blast+
  obtain z where "try_fold (\<lambda>(offsets, offset) (_, _, _, payload).
        and_then (ok_or (i32_of_nat offset) (InvalidMedia ''fragment is too large'')) (\<lambda>i.
          ok (offsets @ [i], wadd64 offset payload))) ([], length probe + 8) ms = Inr (offs, z)"
    using offs by (auto simp: muxed_offsets_def and_then_eq_Inr)
  moreover have "length probe + 8 + sum_list (map muxed_payload ms) < u64_limit"
    using probe' head(1) total by simp
  ultimately have o': "offs = map (\<lambda>k. int (offset_at (length probe + 8) ms k)) [0..<length ms]"
    "\<forall>k < length ms. offset_at (length probe + 8) ms k < 2147483648"
    using offsets_fold by fastforce+
  have ps: "map part_at (zip ms offs) = muxed_parts (length probe + 8) ms"
    unfolding muxed_parts_def o'(1) by (rule nth_equalityI) simp_all
  have moof': "moof = box_bytes (ascii ''moof'') (moof_payload seq [] (map part_at (zip ms offs)))"
    "length (moof_payload seq [] (map part_at (zip ms offs))) + 8 < u32_limit"
    using moof moof_of_eq_Inr unfolding tt(1) by blast+
  have "map (\<lambda>p. 8 + length (part_payload p)) (map part_at (zip ms offs)) = map (\<lambda>p. 8 + length (part_payload p)) ?zero"
    by (rule nth_equalityI) (simp_all add: length_part_at o'(1))
  then have same: "length moof = length probe"
    unfolding moof'(1) probe'(1) length_box_bytes length_moof_parts by simp
  have small: "\<forall>q \<in> set (muxed_parts (length probe + 8) ms). length (pa_samples q) < u32_limit
       \<and> length (part_payload q) + 8 < u32_limit"
    using tt(2) unfolding ps [symmetric] by (auto simp: part_at_def part_of_def)
  note written = moof' [unfolded ps, folded same] and places = o'(2) [folded same] and small = small [folded same]
  have "ps_content_length p = length (ps_header p) + n" "ps_content_length p < u64_limit"
    using p(2,3) by auto
  moreover have "ps_header p = moof @ be_bytes 4 (n + 8) @ ascii ''mdat''" using p(2) head(2) by simp
  ultimately show thesis
    using that [OF parts(1) total head(1) parts(2) written places small] p(1) by blast
qed

lemma muxed_nth:
  assumes "k < length ms"
  shows "muxed_parts start ms ! k = part_at (ms ! k, int (offset_at start ms k))"
  using assms by (simp add: muxed_parts_def)

lemma length_muxed_parts [simp]: "length (muxed_parts start ms) = length ms"
  by (simp add: muxed_parts_def)

lemma part_at_fields [simp]:
  "pa_id (part_at q) = tr_id (fst (fst q))" "pa_kind (part_at q) = tr_kind (fst (fst q))"
  "pa_samples (part_at q) = muxed_samples (fst q)" "pa_time (part_at q) = sg_decode_time (fst (snd (fst q)))"
  "pa_offset (part_at q) = snd q" "pa_extra (part_at q) = []"
  by (cases q; auto simp: part_at_def part_of_def)+

lemma in_others:
  assumes "q \<in> set (take k xs @ drop (Suc k) xs)"
  shows "\<exists>j < length xs. j \<noteq> k \<and> q = xs ! j"
proof (cases "q \<in> set (take k xs)")
  case True
  then obtain j where "j < length (take k xs)" "q = take k xs ! j" by (metis in_set_conv_nth)
  then show ?thesis by (intro exI [of _ j]) simp
next
  case False
  then have "q \<in> set (drop (Suc k) xs)" using assms by simp
  then obtain j where "j < length (drop (Suc k) xs)" "q = drop (Suc k) xs ! j" by (metis in_set_conv_nth)
  then show ?thesis by (intro exI [of _ "Suc k + j"]) simp
qed

lemma offset_at_le:
  assumes "k < length ms" "\<forall>q \<in> set ms. expanded_from q"
  shows "offset_at start ms k + total_size (muxed_samples (ms ! k)) \<le> start + sum_list (map muxed_payload ms)"
proof -
  have "sum_list (map muxed_payload ms) = sum_list (map muxed_payload (take k ms)) + muxed_payload (ms ! k)
      + sum_list (map muxed_payload (drop (Suc k) ms))"
    by (subst (1) id_take_nth_drop [OF assms(1)]) simp
  moreover have "muxed_payload (ms ! k) = total_size (muxed_samples (ms ! k))"
    using assms by (simp add: expanded_from_def)
  ultimately show ?thesis by (simp add: offset_at_def)
qed

section \<open>The layout of a muxed segment\<close>

text \<open>What a successful preparation fixes: the parts, the header, and where each part's data is.\<close>

definition part_bytes :: "bytes \<Rightarrow> muxed_part \<Rightarrow> bytes" where
  "part_bytes src q = concat (map (sample_bytes src) (muxed_samples q))"

definition part_facts :: "bytes \<Rightarrow> limits \<Rightarrow> muxed_part \<Rightarrow> bool" where
  "part_facts src l q \<longleftrightarrow> expanded_from q \<and> (\<forall>x \<in> set (muxed_samples q). sample_widths x \<and> in_source src x)
     \<and> tr_id (fst q) < u32_limit \<and> sg_decode_time (fst (snd q)) + total_duration (muxed_samples q) < 2 ^ 63
     \<and> length (muxed_samples q) \<le> max_samples_per_track l \<and> muxed_payload q = total_size (muxed_samples q)"

definition muxed_layout ::
    "bytes \<Rightarrow> limits \<Rightarrow> nat \<Rightarrow> 'e prepared_segment \<Rightarrow> muxed_part list \<Rightarrow> bytes \<Rightarrow> nat \<Rightarrow> bool" where
  "muxed_layout src l seq p ms moof n \<longleftrightarrow>
     (\<forall>q \<in> set ms. part_facts src l q) \<and> distinct (map (\<lambda>q. tr_id (fst q)) ms)
     \<and> n = sum_list (map muxed_payload ms)
     \<and> moof = box_bytes (ascii ''moof'') (moof_payload seq [] (muxed_parts (length moof + 8) ms))
     \<and> length (moof_payload seq [] (muxed_parts (length moof + 8) ms)) + 8 < u32_limit
     \<and> (\<forall>k < length ms. offset_at (length moof + 8) ms k < 2147483648)
     \<and> (\<forall>q \<in> set (muxed_parts (length moof + 8) ms). length (pa_samples q) < u32_limit
          \<and> length (part_payload q) + 8 < u32_limit)
     \<and> ps_header p = moof @ be_bytes 4 (n + 8) @ ascii ''mdat''
     \<and> segment_bytes src p = ps_header p @ concat (map (part_bytes src) ms)
     \<and> ps_content_length p = length (ps_header p) + n \<and> ps_content_length p < u64_limit"

lemma muxed_layoutD:
  assumes "muxed_layout src l seq p ms moof n"
  shows "\<And>q. q \<in> set ms \<Longrightarrow> part_facts src l q" "distinct (map (\<lambda>q. tr_id (fst q)) ms)"
    "n = sum_list (map muxed_payload ms)"
    "moof = box_bytes (ascii ''moof'') (moof_payload seq [] (muxed_parts (length moof + 8) ms))"
    "length (moof_payload seq [] (muxed_parts (length moof + 8) ms)) + 8 < u32_limit"
    "\<And>k. k < length ms \<Longrightarrow> offset_at (length moof + 8) ms k < 2147483648"
    "\<And>q. q \<in> set (muxed_parts (length moof + 8) ms) \<Longrightarrow> length (pa_samples q) < u32_limit
          \<and> length (part_payload q) + 8 < u32_limit"
    "ps_header p = moof @ be_bytes 4 (n + 8) @ ascii ''mdat''"
    "segment_bytes src p = ps_header p @ concat (map (part_bytes src) ms)"
    "ps_content_length p = length (ps_header p) + n" "ps_content_length p < u64_limit"
    "length (ps_header p) = length moof + 8"
  using assms unfolding muxed_layout_def by (blast, blast, blast, blast, blast, blast, blast, blast, blast, blast, blast, simp)

lemma length_part_bytes:
  assumes "\<And>q. q \<in> set qs \<Longrightarrow> part_facts src l q"
  shows "length (concat (map (part_bytes src) qs)) = sum_list (map muxed_payload qs)"
  using assms
proof (induction qs)
  case (Cons q qs)
  then have "\<forall>x \<in> set (muxed_samples q). in_source src x" "muxed_payload q = total_size (muxed_samples q)"
    using Cons.prems [of q] by (auto simp: part_facts_def)
  with length_samples_bytes [of "muxed_samples q" src] show ?case
    using Cons by (simp add: part_bytes_def)
qed simp

lemma muxed_layout_length:
  assumes "muxed_layout src l seq p ms moof n"
  shows "length (segment_bytes src p) = ps_content_length p"
  using length_part_bytes [of ms src l] muxed_layoutD [OF assms] by simp

lemma muxed_part_fits:
  assumes "muxed_layout src l seq p ms moof n" "k < length ms"
  shows "offset_at (length moof + 8) ms k + total_size (muxed_samples (ms ! k)) \<le> length (segment_bytes src p)"
proof -
  note D = muxed_layoutD [OF assms(1)]
  have "\<forall>q \<in> set ms. expanded_from q" using D(1) by (auto simp: part_facts_def)
  from offset_at_le [OF assms(2) this, of "length moof + 8"] show ?thesis
    using muxed_layout_length [OF assms(1)] D(3,10,12) by simp
qed

lemma muxed_part_ok:
  assumes "muxed_layout src l seq p ms moof n" "k < length ms"
  shows "part_ok 0 (muxed_parts (length moof + 8) ms ! k)"
proof -
  note D = muxed_layoutD [OF assms(1)]
  show ?thesis
    using D(7) [of "muxed_parts (length moof + 8) ms ! k"] nth_mem [of k "muxed_parts (length moof + 8) ms"]
      D(1) [OF nth_mem [OF assms(2)]] D(6) [OF assms(2)] assms(2) muxed_part_fits [OF assms]
      muxed_layout_length [OF assms(1)] D(11)
    by (auto simp: part_ok_def muxed_nth part_facts_def)
qed

lemma muxed_part_read:
  assumes lay: "muxed_layout src l seq p ms moof n" and k: "k < length ms" "ms ! k = (t, seg, xs, m)"
  shows "track_samples [\<lparr>fr_offset = 0, fr_bytes = moof\<rparr>] (tr_id t) d (length (segment_bytes src p)) l
     = ok (placed (tr_kind t) (offset_at (length moof + 8) ms k) (sg_decode_time seg) xs)"
proof -
  note D = muxed_layoutD [OF lay]
  let ?ps = "muxed_parts (length moof + 8) ms"
  have f: "\<forall>x \<in> set xs. sample_widths x" "length xs \<le> max_samples_per_track l"
    "sg_decode_time seg + total_duration xs < 2 ^ 63"
    using D(1) [OF nth_mem [OF k(1)]] k(2) by (auto simp: part_facts_def)
  have split: "?ps = take k ?ps @ ?ps ! k # drop (Suc k) ?ps" using k(1) by (intro id_take_nth_drop) simp
  have part: "?ps ! k = part_of t seg xs (int (offset_at (length moof + 8) ms k))"
    using k by (simp add: muxed_nth part_at_def)
  have ids: "pa_id (?ps ! j) \<noteq> tr_id t" if "j < length ms" "j \<noteq> k" for j
    using D(2) [unfolded distinct_conv_nth, rule_format, of j k] that k by (simp add: muxed_nth)
  have "track_samples [\<lparr>fr_offset = 0, fr_bytes = box_bytes (ascii ''moof'')
          (moof_payload seq [] (take k ?ps @ ?ps ! k # drop (Suc k) ?ps))\<rparr>]
      (tr_id t) d (length (segment_bytes src p)) l
    = ok (placed (pa_kind (?ps ! k)) (0 + nat (pa_offset (?ps ! k))) (pa_time (?ps ! k)) (pa_samples (?ps ! k)))"
  proof (rule read_moof_back)
    show "\<forall>q \<in> set (take k ?ps @ ?ps ! k # drop (Suc k) ?ps). part_ok 0 q"
      unfolding split [symmetric] using muxed_part_ok [OF lay] by (auto simp: in_set_conv_nth)
    show "\<forall>q \<in> set (take k ?ps @ drop (Suc k) ?ps). pa_id q \<noteq> tr_id t
        \<and> pa_time (?ps ! k) + total_duration (pa_samples (?ps ! k)) + total_duration (pa_samples q) < u64_limit"
    proof
      fix q assume "q \<in> set (take k ?ps @ drop (Suc k) ?ps)"
      then obtain j where j: "j < length ms" "j \<noteq> k" "q = ?ps ! j" using in_others by fastforce
      have "total_duration (pa_samples q) < 2 ^ 63"
        using D(1) [OF nth_mem [OF j(1)]] j by (simp add: muxed_nth part_facts_def)
      then show "pa_id q \<noteq> tr_id t
        \<and> pa_time (?ps ! k) + total_duration (pa_samples (?ps ! k)) + total_duration (pa_samples q) < u64_limit"
        using ids [OF j(1,2)] j(3) f(3) by (simp add: part part_of_def)
    qed
    show "0 + nat (pa_offset (?ps ! k)) + total_size (pa_samples (?ps ! k)) \<le> length (segment_bytes src p)"
      using muxed_part_fits [OF lay k(1)] k by (simp add: part part_of_def)
    show "length (moof_payload seq [] (take k ?ps @ ?ps ! k # drop (Suc k) ?ps)) + 8 < u32_limit"
      unfolding split [symmetric] by (rule D(5))
  qed (use f in \<open>auto simp: part part_of_def\<close>)
  then show ?thesis
    unfolding split [symmetric] D(4) [symmetric] by (simp add: part part_of_def)
qed

lemma muxed_part_bytes:
  assumes lay: "muxed_layout src l seq p ms moof n" and k: "k < length ms" "ms ! k = (t, seg, xs, m)"
    and i: "i < length xs"
  shows "sample_bytes (segment_bytes src p)
      (placed (tr_kind t) (offset_at (length moof + 8) ms k) (sg_decode_time seg) xs ! i) = sample_bytes src (xs ! i)"
proof -
  note D = muxed_layoutD [OF lay]
  let ?pre = "ps_header p @ concat (map (part_bytes src) (take k ms))"
  let ?post = "concat (map (part_bytes src) (drop (Suc k) ms))"
  have "concat (map (part_bytes src) ms) = concat (map (part_bytes src) (take k ms))
      @ concat (map (sample_bytes src) xs) @ ?post"
    by (subst (1) id_take_nth_drop [OF k(1)]) (simp add: k(2) part_bytes_def)
  then have out: "segment_bytes src p = ?pre @ concat (map (sample_bytes src) xs) @ ?post"
    by (simp add: D(9))
  have pre: "length ?pre = offset_at (length moof + 8) ms k"
    using length_part_bytes [of "take k ms" src l, OF D(1) [OF in_set_takeD]] D(12) by (simp add: offset_at_def)
  have "\<forall>x \<in> set xs. in_source src x" using D(1) [OF nth_mem [OF k(1)]] k(2) by (auto simp: part_facts_def)
  from samples_bytes_at [OF this i, of ?pre ?post] show ?thesis
    unfolding pre out by (simp add: nth_placed [OF i] sample_bytes_def [of "_ @ _"])
qed

text \<open>
  C28 A prepared segment of several tracks serves every one of them: for each track that has samples in
  it, the reader of fragmented files reads exactly those samples from the shared moof, timed from the
  track's own decode time, and at the places it reads the served bytes are the samples' bytes of the
  source.
\<close>

theorem muxed_reads_back:
  assumes prep: "prepare_muxed_segment parts seq l = ok p"
    and ids: "distinct (map (\<lambda>(t, seg). tr_id t) parts)"
    and each: "\<forall>(t, seg) \<in> set parts. \<forall>xs. segment_samples t seg = ok xs \<longrightarrow>
        (\<forall>x \<in> set xs. sample_widths x \<and> in_source src x) \<and> tr_id t < u32_limit
        \<and> sg_decode_time seg + total_duration xs < 2 ^ 63 \<and> length xs \<le> max_samples_per_track l'"
    and src: "length src < u64_limit" and lim: "max_segment_bytes l < u64_limit - 8"
  shows "\<exists>moof mdat. ps_header p = moof @ mdat \<and> length mdat = 8
     \<and> ps_content_length p = length (segment_bytes src p)
     \<and> (\<forall>(t, seg) \<in> set parts. \<forall>xs. segment_samples t seg = ok xs \<and> xs \<noteq> [] \<longrightarrow>
          (\<exists>off. length (ps_header p) \<le> off
            \<and> track_samples [\<lparr>fr_offset = 0, fr_bytes = moof\<rparr>] (tr_id t) d (length (segment_bytes src p)) l'
                = ok (placed (tr_kind t) off (sg_decode_time seg) xs)
            \<and> (\<forall>i < length xs. sample_bytes (segment_bytes src p) (placed (tr_kind t) off (sg_decode_time seg) xs ! i)
                = sample_bytes src (xs ! i))))"
proof -
  obtain ms moof n where from_parts: "\<forall>q \<in> set ms. expanded_from q"
    and n: "n = sum_list (map muxed_payload ms)" "n + 8 < u32_limit"
    and parts: "map (\<lambda>q. (fst q, fst (snd q))) ms = filter (\<lambda>(t, seg). segment_samples t seg \<noteq> ok []) parts"
    and moof: "moof = box_bytes (ascii ''moof'') (moof_payload seq [] (muxed_parts (length moof + 8) ms))"
      "length (moof_payload seq [] (muxed_parts (length moof + 8) ms)) + 8 < u32_limit"
    and places: "\<forall>k < length ms. offset_at (length moof + 8) ms k < 2147483648"
    and small: "\<forall>q \<in> set (muxed_parts (length moof + 8) ms). length (pa_samples q) < u32_limit
       \<and> length (part_payload q) + 8 < u32_limit"
    and header: "ps_header p = moof @ be_bytes 4 (n + 8) @ ascii ''mdat''" "muxed_ranges ms = ok (ps_ranges p)"
      "ps_content_length p = length (ps_header p) + n" "ps_content_length p < u64_limit"
    by (rule prepare_muxed_eq [OF prep lim])
  have facts: "part_facts src l' q" if "q \<in> set ms" for q
  proof -
    have "(fst q, fst (snd q)) \<in> set (map (\<lambda>q. (fst q, fst (snd q))) ms)" using that by force
    then have "(fst q, fst (snd q)) \<in> set parts" unfolding parts by simp
    then show ?thesis using each from_parts that by (fastforce simp: expanded_from_def part_facts_def)
  qed
  have "map (\<lambda>q. tr_id (fst q)) ms = map (\<lambda>(t, seg). tr_id t) (map (\<lambda>q. (fst q, fst (snd q))) ms)" by simp
  then have "distinct (map (\<lambda>q. tr_id (fst q)) ms)" unfolding parts using distinct_map_filter [OF ids] by simp
  moreover have "segment_bytes src p = ps_header p @ concat (map (part_bytes src) ms)"
    using muxed_ranges_bytes [OF _ src header(2)] facts by (simp add: segment_bytes_def part_bytes_def [abs_def] part_facts_def)
  ultimately have lay: "muxed_layout src l' seq p ms moof n"
    unfolding muxed_layout_def using facts n(1) moof places small header by blast
  have all: "\<exists>off. length (ps_header p) \<le> off
      \<and> track_samples [\<lparr>fr_offset = 0, fr_bytes = moof\<rparr>] (tr_id t) d (length (segment_bytes src p)) l'
          = ok (placed (tr_kind t) off (sg_decode_time seg) xs)
      \<and> (\<forall>i < length xs. sample_bytes (segment_bytes src p) (placed (tr_kind t) off (sg_decode_time seg) xs ! i)
          = sample_bytes src (xs ! i))"
    if "(t, seg) \<in> set parts" "segment_samples t seg = ok xs" "xs \<noteq> []" for t seg xs
  proof -
    have "(t, seg) \<in> set (map (\<lambda>q. (fst q, fst (snd q))) ms)" unfolding parts using that by auto
    then obtain k ys m where k: "k < length ms" "ms ! k = (t, seg, ys, m)" by (fastforce simp: in_set_conv_nth)
    have "ys = xs" using from_parts nth_mem [OF k(1)] k(2) that(2) by (fastforce simp: expanded_from_def)
    then show ?thesis
      using muxed_part_read [OF lay k] muxed_part_bytes [OF lay k] muxed_layoutD(12) [OF lay]
      by (intro exI [of _ "offset_at (length moof + 8) ms k"]) (simp add: offset_at_def)
  qed
  have "ps_header p = moof @ (be_bytes 4 (n + 8) @ ascii ''mdat'')" "length (be_bytes 4 (n + 8) @ ascii ''mdat'') = 8"
    using header(1) by simp_all
  with all muxed_layout_length [OF lay] show ?thesis by (intro exI conjI) (assumption+ | simp | blast)+
qed

text \<open>
  Fragments evaluated on concrete tracks: the witnesses of the properties of the writer and the
  reader, and the two behaviours that modelling them showed.
\<close>

definition small_samples :: "sample list" where
  "small_samples =
     [\<lparr>sm_offset = 4, sm_size = 3, sm_decode_time = 20, sm_duration = 10, sm_composition_offset = -2, sm_is_sync = True\<rparr>,
      \<lparr>sm_offset = 7, sm_size = 2, sm_decode_time = 30, sm_duration = 10, sm_composition_offset = 5, sm_is_sync = False\<rparr>]"

definition small_index :: sample_index where
  "small_index = index_new \<lparr>tb_sizes = [3, 2], tb_chunk_first = [0], tb_chunk_offset = [4],
     tb_time_first = [0], tb_time_start = [20], tb_time_duration = [10],
     tb_composition_first = [0, 1], tb_composition_offset = [-2, 5], tb_sync = Some [0]\<rparr>"

definition small_track :: "nat \<Rightarrow> track_kind \<Rightarrow> track" where
  "small_track n k = \<lparr>tr_id = n, tr_key = VIDEO_KEY, tr_kind = k, tr_language = ''und'',
     tr_timeline_shift = 0, tr_timescale = 1000, tr_duration = 40, tr_codec = Aac 48000 2 2,
     tr_samples = small_index, tr_source_protection = None, tr_label = None\<rparr>"

definition small_segment :: "nat \<Rightarrow> track_segment" where
  "small_segment n = \<lparr>sg_track_id = n, sg_first_sample = 0, sg_end_sample = 2, sg_decode_time = 20, sg_duration = 20\<rparr>"

definition small_source :: bytes where
  "small_source = [0, 1, 2, 3, 4, 5, 6, 7, 8, 9]"

lemma small_segment_samples: "segment_samples (small_track n k) (small_segment m) = ok small_samples"
proof -
  have "segment_samples (small_track n k) (small_segment m) = segment_samples (small_track 0 Audio) (small_segment 0)"
    by (simp add: segment_samples_def small_track_def small_segment_def)
  also have "\<dots> = ok small_samples" by code_simp
  finally show ?thesis .
qed

lemma small_samples_fit:
  "\<forall>x \<in> set small_samples. sample_widths x \<and> in_source small_source x"
  by (simp add: small_samples_def sample_widths_def in_source_def small_source_def)

lemma limits_example: "max_segment_bytes (limits_default None) < u64_limit - 8"
  "10 \<le> max_samples_per_track (limits_default None)"
  by code_simp+

lemma small_fields [simp]:
  "tr_id (small_track n k) = n" "tr_kind (small_track n k) = k"
  "sg_track_id (small_segment n) = n" "sg_decode_time (small_segment n) = 20"
  "length small_samples = 2" "total_duration small_samples = 20" "length small_source = 10"
  "small_samples \<noteq> []"
  by (simp_all add: small_track_def small_segment_def small_samples_def small_source_def)

definition small_prepared :: "unit prepared_segment" where
  "small_prepared = projr (prepare_media_segment (small_track 1 Video) (small_segment 1) 7 (limits_default None))"

lemma small_prepared_ok:
  "prepare_media_segment (small_track 1 Video) (small_segment 1) 7 (limits_default None) = ok small_prepared"
proof -
  have "case prepare_media_segment (small_track 1 Video) (small_segment 1) 7 (limits_default None) :: unit prepared_segment res
     of Inr _ \<Rightarrow> True | Inl _ \<Rightarrow> False" by code_simp
  then show ?thesis unfolding small_prepared_def by (auto split: sum.splits)
qed

theorem fragment_reads_back_witness:
  "\<exists>moof mdat ys. ps_header small_prepared = moof @ mdat \<and> length mdat = 8
     \<and> ps_content_length small_prepared = length (segment_bytes small_source small_prepared)
     \<and> track_samples [\<lparr>fr_offset = 0, fr_bytes = moof\<rparr>] (tr_id (small_track 1 Video)) no_defaults
          (length (segment_bytes small_source small_prepared)) (limits_default None) = ok ys
     \<and> ys = placed (tr_kind (small_track 1 Video)) (length (ps_header small_prepared))
          (sg_decode_time (small_segment 1)) small_samples
     \<and> (\<forall>i < length small_samples. sample_bytes (segment_bytes small_source small_prepared) (ys ! i)
          = sample_bytes small_source (small_samples ! i))"
proof (rule fragment_reads_back [OF small_prepared_ok small_segment_samples small_samples_fit])
  show "max_segment_bytes (limits_default None) < u64_limit - 8" by (rule limits_example(1))
  show "length small_samples \<le> max_samples_per_track (limits_default None)"
    using limits_example(2) by simp
qed simp_all

definition small_muxed :: "unit prepared_segment" where
  "small_muxed = projr (prepare_muxed_segment [(small_track 1 Video, small_segment 1), (small_track 2 Audio, small_segment 2)]
     7 (limits_default None))"

lemma small_muxed_ok:
  "prepare_muxed_segment [(small_track 1 Video, small_segment 1), (small_track 2 Audio, small_segment 2)]
     7 (limits_default None) = ok small_muxed"
proof -
  have "case prepare_muxed_segment [(small_track 1 Video, small_segment 1), (small_track 2 Audio, small_segment 2)]
     7 (limits_default None) :: unit prepared_segment res of Inr _ \<Rightarrow> True | Inl _ \<Rightarrow> False" by code_simp
  then show ?thesis unfolding small_muxed_def by (auto split: sum.splits)
qed

theorem muxed_reads_back_witness:
  "\<exists>moof mdat. ps_header small_muxed = moof @ mdat \<and> length mdat = 8
     \<and> ps_content_length small_muxed = length (segment_bytes small_source small_muxed)
     \<and> (\<forall>(t, seg) \<in> set [(small_track 1 Video, small_segment 1), (small_track 2 Audio, small_segment 2)].
          \<forall>xs. segment_samples t seg = ok xs \<and> xs \<noteq> [] \<longrightarrow>
          (\<exists>off. length (ps_header small_muxed) \<le> off
            \<and> track_samples [\<lparr>fr_offset = 0, fr_bytes = moof\<rparr>] (tr_id t) no_defaults
                (length (segment_bytes small_source small_muxed)) (limits_default None)
                = ok (placed (tr_kind t) off (sg_decode_time seg) xs)
            \<and> (\<forall>i < length xs. sample_bytes (segment_bytes small_source small_muxed)
                  (placed (tr_kind t) off (sg_decode_time seg) xs ! i) = sample_bytes small_source (xs ! i))))"
proof (rule muxed_reads_back [OF small_muxed_ok])
  show "\<forall>(t, seg) \<in> set [(small_track 1 Video, small_segment 1), (small_track 2 Audio, small_segment 2)].
      \<forall>xs. segment_samples t seg = ok xs \<longrightarrow>
        (\<forall>x \<in> set xs. sample_widths x \<and> in_source small_source x) \<and> tr_id t < u32_limit
        \<and> sg_decode_time seg + total_duration xs < 2 ^ 63 \<and> length xs \<le> max_samples_per_track (limits_default None)"
    using small_samples_fit limits_example(2) by (simp add: small_segment_samples)
  show "max_segment_bytes (limits_default None) < u64_limit - 8" by (rule limits_example(1))
qed simp_all


section \<open>Reading a fragment of another writer\<close>

text \<open>
  A fragment at byte 100 with two track fragments and no explicit bases: the first, of track 1, has
  one sample at 160 whose size (5) is its track's \<^verbatim>\<open>trex\<close> default; the second, of track 2, has no data
  offset, so its data starts where that of the first ended.
\<close>

definition legacy_moof :: bytes where
  "legacy_moof =
    [0, 0, 0, 96] @ ascii ''moof'' @
      [0, 0, 0, 44] @ ascii ''traf'' @
        [0, 0, 0, 16] @ ascii ''tfhd'' @ [0, 0, 0, 0, 0, 0, 0, 1] @
        [0, 0, 0, 20] @ ascii ''trun'' @ [0, 0, 0, 1, 0, 0, 0, 1, 0, 0, 0, 60] @
      [0, 0, 0, 44] @ ascii ''traf'' @
        [0, 0, 0, 16] @ ascii ''tfhd'' @ [0, 0, 0, 0, 0, 0, 0, 2] @
        [0, 0, 0, 20] @ ascii ''trun'' @ [0, 0, 2, 0, 0, 0, 0, 1, 0, 0, 0, 3]"

definition legacy_defaults :: track_defaults where
  "legacy_defaults = \<lparr>td_duration = 10, td_size = 5, td_flags = 0\<rparr>"

theorem fragment_samples_indexed_witness:
  "case track_samples [\<lparr>fr_offset = 100, fr_bytes = legacy_moof\<rparr>] 2 legacy_defaults 1000 (limits_default None) of
     Inl f \<Rightarrow> f \<noteq> Panic
   | Inr xs \<Rightarrow> length xs \<le> max_samples_per_track (limits_default None)
       \<and> sorted_wrt (\<lambda>x y. sm_decode_time x + sm_duration x \<le> sm_decode_time y) xs
       \<and> (\<forall>x \<in> set xs. sm_offset x + sm_size x \<le> 1000)
       \<and> (\<exists>s. from_samples xs = ok s \<and> index_valid s \<and> iter_all s = ok xs)"
proof (rule fragment_samples_indexed)
  show "max_samples_per_track (limits_default None) \<le> u32_limit" by code_simp
qed simp

text \<open>
  The reader places the samples of both tracks at the same byte: it measures the data of a track it
  is not asked for with no defaults (\<^verbatim>\<open>TrackDefaults::default()\<close>), so the five bytes that track 1 takes
  its size for from \<^verbatim>\<open>trex\<close> are not counted, and the data of track 2 is not found where it is.
\<close>

theorem trex_sizes_not_counted:
  "(\<exists>x y. track_samples [\<lparr>fr_offset = 100, fr_bytes = legacy_moof\<rparr>] 1 legacy_defaults 1000
        (limits_default None) = ok [x] \<and> sm_offset x = 160 \<and> sm_size x = 5
    \<and> track_samples [\<lparr>fr_offset = 100, fr_bytes = legacy_moof\<rparr>] 2 legacy_defaults 1000
        (limits_default None) = ok [y] \<and> sm_offset y = 160 \<and> sm_size y = 3)"
proof -
  have 1: "track_samples [\<lparr>fr_offset = 100, fr_bytes = legacy_moof\<rparr>] 1 legacy_defaults 1000 (limits_default None)
    = ok [\<lparr>sm_offset = 160, sm_size = 5, sm_decode_time = 0, sm_duration = 10, sm_composition_offset = 0,
           sm_is_sync = True\<rparr>]" by code_simp
  have 2: "track_samples [\<lparr>fr_offset = 100, fr_bytes = legacy_moof\<rparr>] 2 legacy_defaults 1000 (limits_default None)
    = ok [\<lparr>sm_offset = 160, sm_size = 3, sm_decode_time = 0, sm_duration = 10, sm_composition_offset = 0,
           sm_is_sync = True\<rparr>]" by code_simp
  show ?thesis unfolding 1 2 by simp
qed

text \<open>
  A gap in a track's decode times inside a segment, which the reader keeps, is not written: the
  second sample decodes at 50, and the fragment written for the segment decodes it at 30.
\<close>

definition gap_index :: sample_index where
  "gap_index = index_new \<lparr>tb_sizes = [3, 2], tb_chunk_first = [0], tb_chunk_offset = [4],
     tb_time_first = [0, 1], tb_time_start = [20, 50], tb_time_duration = [10, 10],
     tb_composition_first = [0, 1], tb_composition_offset = [-2, 5], tb_sync = Some [0]\<rparr>"

definition gap_track :: track where
  "gap_track = (small_track 1 Video)\<lparr>tr_samples := gap_index\<rparr>"

theorem gap_inside_segment_closed:
  "case prepare_media_segment gap_track (small_segment 1) 7 (limits_default None) :: unit prepared_segment res of
     Inl _ \<Rightarrow> False
   | Inr p \<Rightarrow> (case track_samples [\<lparr>fr_offset = 0, fr_bytes = take (length (ps_header p) - 8) (ps_header p)\<rparr>]
         1 no_defaults 1000 (limits_default None) of
       Inl _ \<Rightarrow> False
     | Inr ys \<Rightarrow> map sm_decode_time ys = [20, 30]
         \<and> (case segment_samples gap_track (small_segment 1) of Inl _ \<Rightarrow> False
            | Inr xs \<Rightarrow> map sm_decode_time xs = [20, 50]))"
  by code_simp

end
