(* ===== verification/Codec_Entries.thy ===== *)
theory Codec_Entries
  imports Media_Index Mp4_Boxes
begin

text \<open>
  Codec configuration read from sample entries (\<^verbatim>\<open>src/src/mp4/codec.rs\<close>): the codec string,
  the dimensions or the channel layout, and for AAC the audio object type.
\<close>

section \<open>Text of codec strings\<close>

definition hex_upper_char :: "nat \<Rightarrow> char" where
  "hex_upper_char d = (if d < 10 then char_of (48 + d) else char_of (55 + d))"

text \<open>The formats \<^verbatim>\<open>{:X}\<close>, \<^verbatim>\<open>{:02}\<close> and, of a byte, \<^verbatim>\<open>{:#04x}\<close>.\<close>

fun hex_upper :: "nat \<Rightarrow> string" where
  "hex_upper n = (if n < 16 then [hex_upper_char n] else hex_upper (n div 16) @ [hex_upper_char (n mod 16)])"

declare hex_upper.simps [simp del]

definition decimal2 :: "nat \<Rightarrow> string" where
  "decimal2 n = (if n < 10 then CHR ''0'' # decimal n else decimal n)"

definition hex_prefixed :: "byte \<Rightarrow> string" where
  "hex_prefixed b = ''0x'' @ hex2 (unat b)"

text \<open>\<open>from_utf8_lossy\<close> of a code that is ASCII.\<close>

definition tag_text :: "bytes \<Rightarrow> string" where
  "tag_text name = map (\<lambda>b. char_of (unat b)) name"

definition reverse_bits32 :: "nat \<Rightarrow> nat" where
  "reverse_bits32 x = foldl (\<lambda>v i. 2 * v + of_bool (bit x i)) 0 [0..<32]"

section \<open>Visual entries\<close>

definition VISUAL_ENTRY_HEAD :: nat where
  "VISUAL_ENTRY_HEAD = 78"

definition visual_entry :: "bytes \<Rightarrow> (nat \<times> nat \<times> bytes) res" where
  "visual_entry entry =
     and_then (rd_skip (reader_new entry) 24) (\<lambda>r1.
     and_then (rd_u16 r1) (\<lambda>(w, r2).
     and_then (rd_u16 r2) (\<lambda>(h, r3).
     and_then (rd_skip r3 (VISUAL_ENTRY_HEAD - 28)) (\<lambda>r4.
       ok (w, h, rd_rest r4)))))"

text \<open>A count and that many parameter sets; the first is kept.\<close>

fun parameter_sets :: "nat \<Rightarrow> bytes option \<Rightarrow> reader \<Rightarrow> (bytes option \<times> reader) res" where
  "parameter_sets 0 first r = ok (first, r)"
| "parameter_sets (Suc n) first r =
     and_then (rd_u16 r) (\<lambda>(len, r1).
     and_then (rd_take r1 len) (\<lambda>(bs, r2).
       parameter_sets n (case first of None \<Rightarrow> Some bs | Some _ \<Rightarrow> first) r2))"

definition first_parameter_set :: "reader \<Rightarrow> byte \<Rightarrow> string \<Rightarrow> (bytes \<times> reader) res" where
  "first_parameter_set r count_mask name =
     and_then (rd_u8 r) (\<lambda>(count, r1).
     and_then (parameter_sets (unat (and count count_mask)) None r1) (\<lambda>(first, r2).
     and_then (ok_or first (Unsupported (''H.264 without '' @ name))) (\<lambda>bs. ok (bs, r2))))"

definition parse_avc :: "bytes \<Rightarrow> codec_config res" where
  "parse_avc entry =
     and_then (visual_entry entry) (\<lambda>(w, h, children).
     and_then (optional_child children (ascii ''avcC'')) (\<lambda>c.
     and_then (ok_or c (Unsupported ''H.264 without avcC'')) (\<lambda>config.
     and_then (rd_skip (reader_new (bx_payload config)) 1) (\<lambda>r1.
     and_then (rd_u8 r1) (\<lambda>(p, r2).
     and_then (rd_u8 r2) (\<lambda>(k, r3).
     and_then (rd_u8 r3) (\<lambda>(l, r4).
     and_then (rd_skip r4 1) (\<lambda>r5.
     and_then (first_parameter_set r5 0x1f ''SPS'') (\<lambda>(sps, r6).
     and_then (first_parameter_set r6 0xff ''PPS'') (\<lambda>(pps, _).
       ok (Avc w h (unat p) (unat k) (unat l) sps pps)))))))))))"

definition hevc_codecs :: "bytes \<Rightarrow> byte \<Rightarrow> nat \<Rightarrow> bytes \<Rightarrow> byte \<Rightarrow> string" where
  "hevc_codecs tag profile_byte compat_flags constraints lev =
     (let space = (case unat (drop_bit 6 profile_byte) of
                     (Suc 0) \<Rightarrow> ''A'' | (Suc (Suc 0)) \<Rightarrow> ''B'' | (Suc (Suc (Suc 0))) \<Rightarrow> ''C'' | _ \<Rightarrow> '''');
          tier = (if and profile_byte 0x20 = 0 then CHR ''L'' else CHR ''H'');
          used = length constraints - length (takeWhile (\<lambda>b. b = 0) (rev constraints))
      in tag_text tag @ ''.'' @ space @ decimal (unat (and profile_byte 0x1f)) @ ''.''
         @ hex_upper (reverse_bits32 compat_flags) @ ''.'' @ [tier] @ decimal (unat lev)
         @ concat (map (\<lambda>b. ''.'' @ hex_upper (unat b)) (take used constraints)))"

definition parse_hevc :: "bytes \<Rightarrow> bytes \<Rightarrow> codec_config res" where
  "parse_hevc entry tag =
     and_then (visual_entry entry) (\<lambda>(w, h, children).
     and_then (optional_child children (ascii ''hvcC'')) (\<lambda>c.
     and_then (ok_or c (Unsupported ''HEVC without hvcC'')) (\<lambda>config.
     and_then (rd_skip (reader_new (bx_payload config)) 1) (\<lambda>r1.
     and_then (rd_u8 r1) (\<lambda>(p, r2).
     and_then (rd_u32 r2) (\<lambda>(compat_flags, r3).
     and_then (rd_take r3 6) (\<lambda>(constraints, r4).
     and_then (rd_u8 r4) (\<lambda>(lev, _).
       ok (Hevc w h (hevc_codecs tag p compat_flags constraints lev))))))))))"

definition parse_vp9 :: "bytes \<Rightarrow> codec_config res" where
  "parse_vp9 entry =
     and_then (visual_entry entry) (\<lambda>(w, h, children).
     and_then (optional_child children (ascii ''vpcC'')) (\<lambda>c.
     and_then (ok_or c (Unsupported ''VP9 without vpcC'')) (\<lambda>config.
     and_then (rd_full_box (reader_new (bx_payload config))) (\<lambda>(_, r1).
     and_then (rd_u8 r1) (\<lambda>(p, r2).
     and_then (rd_u8 r2) (\<lambda>(l, r3).
     and_then (rd_u8 r3) (\<lambda>(d, _).
       ok (Vp9 w h (''vp09.'' @ decimal2 (unat p) @ ''.'' @ decimal2 (unat l) @ ''.''
             @ decimal2 (unat (drop_bit 4 d)))))))))))"

definition parse_av1 :: "bytes \<Rightarrow> codec_config res" where
  "parse_av1 entry =
     and_then (visual_entry entry) (\<lambda>(w, h, children).
     and_then (optional_child children (ascii ''av1C'')) (\<lambda>c.
     and_then (ok_or c (Unsupported ''AV1 without av1C'')) (\<lambda>config.
     and_then (rd_u8 (reader_new (bx_payload config))) (\<lambda>(marker, r1).
     if marker \<noteq> 0x81 then fail (Unsupported ''AV1 configuration version is not 1'')
     else
       and_then (rd_u8 r1) (\<lambda>(profile_and_level, r2).
       and_then (rd_u8 r2) (\<lambda>(flags, _).
       let tier = (if and flags 0x80 = 0 then ''M'' else ''H'');
           bit_depth = (if and flags 0x40 = 0 then 8 else if and flags 0x20 = 0 then 10 else 12)
       in ok (Av1 w h (''av01.'' @ decimal (unat (drop_bit 5 profile_and_level)) @ ''.''
            @ decimal2 (unat (and profile_and_level 0x1f)) @ tier @ ''.'' @ decimal2 bit_depth))))))))"

section \<open>Audio entries\<close>

record audio_entry =
  ae_channels :: nat
  ae_sample_rate :: nat
  ae_children :: bytes

definition parse_audio_entry :: "bytes \<Rightarrow> nat \<Rightarrow> audio_entry res" where
  "parse_audio_entry entry track_id =
     and_then (rd_skip (reader_new entry) 8) (\<lambda>r1.
     and_then (rd_u16 r1) (\<lambda>(version, r2).
     and_then (rd_skip r2 6) (\<lambda>r3.
     and_then (rd_u16 r3) (\<lambda>(chans, r4).
     and_then (rd_skip r4 6) (\<lambda>r5.
     and_then (rd_u32 r5) (\<lambda>(rate, r6).
     and_then (if version = 0 then ok r6 else if version = 1 then rd_skip r6 16
               else fail (Unsupported (''track '' @ decimal track_id @ '': sound sample description version ''
                      @ decimal version @ '' is not supported''))) (\<lambda>r7.
       ok \<lparr>ae_channels = chans, ae_sample_rate = rate div 65536, ae_children = rd_rest r7\<rparr>)))))))"

definition protected_entry_children :: "bytes \<Rightarrow> bytes \<Rightarrow> nat \<Rightarrow> bytes res" where
  "protected_entry_children name entry track_id =
     (if name = ascii ''encv'' then and_then (visual_entry entry) (\<lambda>(_, _, children). ok children)
      else and_then (parse_audio_entry entry track_id) (\<lambda>a. ok (ae_children a)))"

definition require_child :: "bytes \<Rightarrow> bytes \<Rightarrow> string \<Rightarrow> nat \<Rightarrow> raw_box res" where
  "require_child children name codec track_id =
     and_then (optional_child children name) (\<lambda>c.
       ok_or c (Unsupported (''track '' @ decimal track_id @ '': '' @ codec @ '' without its `''
         @ tag_text name @ ''` configuration box'')))"

definition find_esds :: "bytes \<Rightarrow> nat \<Rightarrow> raw_box res" where
  "find_esds children track_id =
     (let missing = Unsupported (''track '' @ decimal track_id @ '': AAC without esds'') in
      and_then (optional_child children (ascii ''esds'')) (\<lambda>esds.
        case esds of
          Some b \<Rightarrow> ok b
        | None \<Rightarrow>
            and_then (optional_child children (ascii ''wave'')) (\<lambda>wave.
            and_then (ok_or wave missing) (\<lambda>wave_box.
            and_then (optional_child (bx_payload wave_box) (ascii ''esds'')) (\<lambda>inner.
              ok_or inner missing)))))"

text \<open>A QuickTime sound description rewritten into the layout of ISO files.\<close>

definition iso_audio_entry :: "bytes \<Rightarrow> nat \<Rightarrow> bytes option res" where
  "iso_audio_entry entry track_id =
     and_then (rd_take (reader_new entry) 8) (\<lambda>(head, r1).
     and_then (rd_u16 r1) (\<lambda>(version, r2).
     if version = 0 then ok None
     else
       and_then (rd_skip r2 6) (\<lambda>r3.
       and_then (rd_u16 r3) (\<lambda>(chans, r4).
       and_then (rd_skip r4 6) (\<lambda>r5.
       and_then (rd_u32 r5) (\<lambda>(rate, r6).
       and_then (rd_skip r6 16) (\<lambda>r7.
       and_then (find_esds (rd_rest r7) track_id) (\<lambda>esds.
       and_then (ok_or (u32_of_nat (length (bx_payload esds) + 8)) (invalid_media ''esds box is too large''))
         (\<lambda>sz.
         ok (Some (head @ replicate 8 0 @ be_bytes 2 chans @ be_bytes 2 16 @ replicate 4 0
           @ be_bytes 4 rate @ be_bytes 4 sz @ ascii ''esds'' @ bx_payload esds)))))))))))"

section \<open>The audio object type\<close>

definition ES_DESCRIPTOR :: byte where "ES_DESCRIPTOR = 0x03"
definition DECODER_CONFIG_DESCRIPTOR :: byte where "DECODER_CONFIG_DESCRIPTOR = 0x04"
definition DECODER_SPECIFIC_INFO :: byte where "DECODER_SPECIFIC_INFO = 0x05"
definition MPEG4_AUDIO :: byte where "MPEG4_AUDIO = 0x40"

text \<open>One to four bytes of seven bits each, the high bit set on all but the last.\<close>

fun descriptor_length :: "nat \<Rightarrow> nat \<Rightarrow> reader \<Rightarrow> (nat \<times> reader) res" where
  "descriptor_length 0 v r = ok (v, r)"
| "descriptor_length (Suc n) v r =
     and_then (rd_u8 r) (\<lambda>(b, r').
       let v' = v * 128 + unat (and b 0x7f) in
       if and b 0x80 = 0 then ok (v', r') else descriptor_length n v' r')"

lemma descriptor_length_moves:
  "descriptor_length n v r = Inr (m, r') \<Longrightarrow> rd_data r' = rd_data r \<and> rd_position r \<le> rd_position r'"
  by (induction n arbitrary: v r)
    (fastforce simp: rd_u8_def rd_take_def and_then_eq_Inr split: option.splits if_splits)+

function descriptor :: "byte \<Rightarrow> reader \<Rightarrow> (bytes option \<times> reader) res" where
  "descriptor wanted r =
     (if rd_remaining r = 0 then ok (None, r)
      else
        and_then (rd_u8 r) (\<lambda>(tag, r1).
        and_then (descriptor_length 4 0 r1) (\<lambda>(len, r2).
        and_then (rd_take r2 len) (\<lambda>(body, r3).
          if tag = wanted then ok (Some body, r3) else descriptor wanted r3))))"
  by pat_completeness auto
termination
proof (relation "measure (\<lambda>(wanted, r). rd_remaining r)")
  fix wanted r x tag r1 y len r2 z body r3
  assume a: "rd_remaining r \<noteq> 0" "rd_u8 r = Inr x" "(tag, r1) = x" "descriptor_length 4 0 r1 = Inr y" "(len, r2) = y"
    "rd_take r2 len = Inr z" "(body, r3) = z"
  then have "rd_data r1 = rd_data r" "rd_position r1 = rd_position r + 1"
    by (auto simp: rd_u8_def rd_take_def and_then_eq_Inr split: option.splits if_splits)
  moreover have "rd_data r2 = rd_data r1" "rd_position r1 \<le> rd_position r2"
    using descriptor_length_moves a by fastforce+
  moreover have "rd_data r3 = rd_data r2" "rd_position r2 \<le> rd_position r3"
    using a by (auto simp: rd_take_def and_then_eq_Inr split: option.splits if_splits)
  ultimately show "((wanted, r3), wanted, r) \<in> measure (\<lambda>(wanted, r). rd_remaining r)"
    using a(1) by (simp add: rd_remaining_def)
qed simp

declare descriptor.simps [simp del]

definition object_type_of :: "bytes \<Rightarrow> nat res" where
  "object_type_of config =
     and_then (ok_or (get_at config 0) (invalid_media ''AudioSpecificConfig is empty'')) (\<lambda>first.
     let t = unat (drop_bit 3 first) in
     if t \<noteq> 31 then ok t
     else
       and_then (ok_or (get_at config 1) (invalid_media ''AudioSpecificConfig is truncated'')) (\<lambda>second.
         ok (32 + (unat (and first 0x07) * 8 + unat (drop_bit 5 second)))))"

definition skip_if :: "bool \<Rightarrow> nat \<Rightarrow> reader \<Rightarrow> reader res" where
  "skip_if b n r = (if b then rd_skip r n else ok r)"

definition audio_object_type :: "bytes \<Rightarrow> nat \<Rightarrow> nat res" where
  "audio_object_type esds track_id =
     and_then (rd_full_box (reader_new esds)) (\<lambda>(_, r1).
     and_then (descriptor ES_DESCRIPTOR r1) (\<lambda>(es, _).
     and_then (ok_or es (invalid_media ''esds has no ES descriptor'')) (\<lambda>es_body.
     and_then (rd_skip (reader_new es_body) 2) (\<lambda>e1.
     and_then (rd_u8 e1) (\<lambda>(flags, e2).
     and_then (skip_if (and flags 0x80 \<noteq> 0) 2 e2) (\<lambda>e3.
     and_then (if and flags 0x40 \<noteq> 0
               then and_then (rd_u8 e3) (\<lambda>(n, e'). rd_skip e' (unat n)) else ok e3) (\<lambda>e4.
     and_then (skip_if (and flags 0x20 \<noteq> 0) 2 e4) (\<lambda>e5.
     and_then (descriptor DECODER_CONFIG_DESCRIPTOR e5) (\<lambda>(decoder, _).
     and_then (ok_or decoder (invalid_media ''esds has no decoder configuration'')) (\<lambda>decoder_body.
     and_then (rd_u8 (reader_new decoder_body)) (\<lambda>(indication, d1).
     if indication \<noteq> MPEG4_AUDIO
     then fail (Unsupported (''track '' @ decimal track_id @ '': audio object type indication ''
            @ hex_prefixed indication @ '' is not MPEG-4 AAC''))
     else
       and_then (rd_skip d1 12) (\<lambda>d2.
       and_then (descriptor DECODER_SPECIFIC_INFO d2) (\<lambda>(config, _).
       and_then (ok_or config (invalid_media ''esds has no AudioSpecificConfig'')) (\<lambda>config_body.
         object_type_of config_body))))))))))))))"

section \<open>Audio codecs\<close>

definition parse_aac :: "bytes \<Rightarrow> nat \<Rightarrow> codec_config res" where
  "parse_aac entry track_id =
     and_then (parse_audio_entry entry track_id) (\<lambda>audio.
     and_then (find_esds (ae_children audio) track_id) (\<lambda>esds.
     and_then (audio_object_type (bx_payload esds) track_id) (\<lambda>t.
     if t = 2 \<or> t = 5 \<or> t = 29
     then ok (Aac (ae_sample_rate audio) (ae_channels audio) t)
     else fail (Unsupported (''track '' @ decimal track_id @ '': AAC audio object type '' @ decimal t
            @ '' is not supported, only AAC-LC (2), HE-AAC (5), and HE-AACv2 (29) are'')))))"

definition parse_ac3 :: "bytes \<Rightarrow> nat \<Rightarrow> codec_config res" where
  "parse_ac3 entry track_id =
     and_then (parse_audio_entry entry track_id) (\<lambda>audio.
     and_then (require_child (ae_children audio) (ascii ''dac3'') ''AC-3'' track_id) (\<lambda>_.
       ok (Ac3 (ae_sample_rate audio) (ae_channels audio))))"

definition parse_eac3 :: "bytes \<Rightarrow> nat \<Rightarrow> codec_config res" where
  "parse_eac3 entry track_id =
     and_then (parse_audio_entry entry track_id) (\<lambda>audio.
     and_then (require_child (ae_children audio) (ascii ''dec3'') ''E-AC-3'' track_id) (\<lambda>_.
       ok (Eac3 (ae_sample_rate audio) (ae_channels audio))))"

definition parse_opus :: "bytes \<Rightarrow> nat \<Rightarrow> codec_config res" where
  "parse_opus entry track_id =
     and_then (parse_audio_entry entry track_id) (\<lambda>audio.
     and_then (require_child (ae_children audio) (ascii ''dOps'') ''Opus'' track_id) (\<lambda>config.
     and_then (rd_skip (reader_new (bx_payload config)) 1) (\<lambda>r1.
     and_then (rd_u8 r1) (\<lambda>(n, _). ok (Opus (unat n))))))"

definition parse_flac :: "bytes \<Rightarrow> nat \<Rightarrow> codec_config res" where
  "parse_flac entry track_id =
     and_then (parse_audio_entry entry track_id) (\<lambda>audio.
     and_then (require_child (ae_children audio) (ascii ''dfLa'') ''FLAC'' track_id) (\<lambda>config.
     and_then (rd_full_box (reader_new (bx_payload config))) (\<lambda>(_, r1).
     and_then (rd_u8 r1) (\<lambda>(header, r2).
     if and header 0x7f \<noteq> 0 then fail (invalid_media ''dfLa does not start with STREAMINFO'')
     else
       and_then (rd_skip r2 (3 + 10)) (\<lambda>r3.
       and_then (rd_take r3 3) (\<lambda>(packed, _).
       and_then (index_at packed 0) (\<lambda>p0.
       and_then (index_at packed 1) (\<lambda>p1.
       and_then (index_at packed 2) (\<lambda>p2.
       let rate = unat p0 * 4096 + unat p1 * 16 + unat (drop_bit 4 p2);
           chans = unat (and (drop_bit 1 p2) 0x07) + 1
       in if rate = 0 then fail (invalid_media ''FLAC sample rate is zero'')
          else ok (Flac rate chans))))))))))"

end
