(* ===== verification/Codec_Laws.thy ===== *)
theory Codec_Laws
  imports Codec_Entries Reader_Safety Reader_Back
begin

text \<open>
  Sample entries: reading one never panics, and a QuickTime sound entry rewritten into the ISO
  layout describes the same track.
\<close>

section \<open>No panic\<close>

lemma visual_entry_safe [safe_intros]: "safe (visual_entry entry)"
  by (auto simp: visual_entry_def intro!: safe_intros)

lemma parameter_sets_safe [safe_intros]: "safe (parameter_sets n first r)"
  by (induction n arbitrary: first r) (auto intro!: safe_intros)

lemma first_parameter_set_safe [safe_intros]: "safe (first_parameter_set r m name)"
  by (auto simp: first_parameter_set_def intro!: safe_intros)

lemma audio_entry_safe [safe_intros]: "safe (parse_audio_entry entry t)"
  by (auto simp: parse_audio_entry_def intro!: safe_intros)

lemma require_child_safe [safe_intros]: "safe (require_child cs name codec t)" "safe (find_esds cs t)"
  by (auto simp: require_child_def find_esds_def intro!: safe_intros split: option.split)

lemma descriptor_length_safe [safe_intros]: "safe (descriptor_length n v r)"
  by (induction n arbitrary: v r) (auto intro!: safe_intros)

lemma descriptor_safe [safe_intros]: "safe (descriptor wanted r)"
proof (induction wanted r rule: descriptor.induct)
  case (1 wanted r)
  then show ?case by (subst descriptor.simps) (auto intro!: safe_intros)
qed

lemma object_type_safe [safe_intros]: "safe (object_type_of c)" "safe (skip_if b n r)" "safe (audio_object_type e t)"
  by (auto simp: object_type_of_def skip_if_def audio_object_type_def intro!: safe_intros)

lemma codec_parsers_safe [safe_intros]:
  "safe (parse_avc entry)" "safe (parse_hevc entry tag)" "safe (parse_vp9 entry)" "safe (parse_av1 entry)"
  "safe (parse_aac entry t)" "safe (parse_ac3 entry t)" "safe (parse_eac3 entry t)" "safe (parse_opus entry t)"
  by (auto simp: parse_avc_def parse_hevc_def parse_vp9_def parse_av1_def parse_aac_def parse_ac3_def
      parse_eac3_def parse_opus_def intro!: safe_intros)

lemma parse_flac_safe [safe_intros]: "safe (parse_flac entry t)"
proof -
  have "safe (index_at bs i)" if "rd_take r 3 = ok (bs, r')" "i < 3" for bs r r' i
    using that rd_take_length [of r 3 bs r'] by simp
  then show ?thesis by (auto simp: parse_flac_def intro!: safe_intros)
qed

section \<open>The ISO layout\<close>

lemma rd_u16_less: "rd_u16 r = ok (x, r') \<Longrightarrow> x < u16_limit"
  by (auto simp: rd_u16_eq_Inr intro!: be_value_less dest!: rd_take_length)

lemma eight_zeros: "(replicate 8 0 :: bytes) = be_bytes 2 0 @ replicate 6 0"
  by code_simp

lemma find_esds_written:
  assumes "length payload + 8 < u32_limit"
  shows "find_esds (box_bytes (ascii ''esds'') payload) t = ok (written (ascii ''esds'', payload))"
proof -
  have "child_boxes (concat (map (\<lambda>(n, p). box_bytes n p) [(ascii ''esds'', payload)]))
      = ok (map written [(ascii ''esds'', payload)])"
    using assms by (intro child_boxes_written) (auto simp: ascii_def)
  then show ?thesis by (simp add: find_esds_def optional_child_def written_def)
qed

text \<open>
  A QuickTime AAC entry is rewritten into an ISO entry that is read as the same codec
  configuration, channel count and rate included, and that is left alone when it is rewritten
  again.
\<close>

theorem iso_entry_same_codec:
  assumes parse: "parse_aac entry t = ok c" and rewrite: "iso_audio_entry entry t = ok (Some entry')"
  shows "parse_aac entry' t = ok c \<and> iso_audio_entry entry' t = ok None"
proof -
  obtain head r1 version r2 r3 chans r4 r5 rate r6 r7 esds where
    reads: "rd_take (reader_new entry) 8 = ok (head, r1)" "rd_u16 r1 = ok (version, r2)" "version \<noteq> 0"
      "rd_skip r2 6 = ok r3" "rd_u16 r3 = ok (chans, r4)" "rd_skip r4 6 = ok r5" "rd_u32 r5 = ok (rate, r6)"
      "rd_skip r6 16 = ok r7" "find_esds (rd_rest r7) t = ok esds" "length (bx_payload esds) + 8 < u32_limit"
    and out: "entry' = head @ replicate 8 0 @ be_bytes 2 chans @ be_bytes 2 16 @ replicate 4 0
           @ be_bytes 4 rate @ be_bytes 4 (length (bx_payload esds) + 8) @ ascii ''esds'' @ bx_payload esds"
    using rewrite by (auto simp: iso_audio_entry_def and_then_eq_Inr split: if_splits)
  have skip: "rd_skip (reader_new entry) 8 = ok r1" using reads(1) by (simp add: rd_skip_def)
  have audio: "parse_audio_entry entry t = (if version = 1
      then ok \<lparr>ae_channels = chans, ae_sample_rate = rate div 65536, ae_children = rd_rest r7\<rparr>
      else fail (Unsupported (''track '' @ decimal t @ '': sound sample description version ''
        @ decimal version @ '' is not supported'')))"
    unfolding parse_audio_entry_def skip and_then_simps reads(2) using reads(3-8) by simp
  have bounds: "length head = 8" "chans < u16_limit" "rate < u32_limit"
    using rd_take_length [OF reads(1)] rd_u16_less [OF reads(5)] rd_u32_less [OF reads(7)] by auto
  let ?esds = "box_bytes (ascii ''esds'') (bx_payload esds)"
  have "entry' = head @ be_bytes 2 0 @ replicate 6 0 @ be_bytes 2 chans
      @ (be_bytes 2 16 @ replicate 4 0) @ be_bytes 4 rate @ ?esds"
    by (simp only: out box_bytes_def eight_zeros append_assoc)
  moreover have "length entry' < u64_limit" using bounds(1) reads(10) by (simp add: out ascii_def)
  ultimately have "at_rest (reader_new entry') (head @ be_bytes 2 0 @ replicate 6 0 @ be_bytes 2 chans
      @ (be_bytes 2 16 @ replicate 4 0) @ be_bytes 4 rate @ ?esds)"
    using at_rest_new by metis
  then obtain s1 where s1: "rd_take (reader_new entry') 8 = ok (head, s1)"
      "at_rest s1 (be_bytes 2 0 @ replicate 6 0 @ be_bytes 2 chans @ (be_bytes 2 16 @ replicate 4 0) @ be_bytes 4 rate @ ?esds)"
    using take_back bounds(1) by blast
  obtain s2 where s2: "rd_u16 s1 = ok (0, s2)"
      "at_rest s2 (replicate 6 0 @ be_bytes 2 chans @ (be_bytes 2 16 @ replicate 4 0) @ be_bytes 4 rate @ ?esds)"
    by (rule u16_back [OF s1(2)]) simp
  obtain s3 where s3: "rd_skip s2 6 = ok s3"
      "at_rest s3 (be_bytes 2 chans @ (be_bytes 2 16 @ replicate 4 0) @ be_bytes 4 rate @ ?esds)"
    by (rule skip_back [OF s2(2)]) simp
  obtain s4 where s4: "rd_u16 s3 = ok (chans, s4)"
      "at_rest s4 ((be_bytes 2 16 @ replicate 4 0) @ be_bytes 4 rate @ ?esds)"
    by (rule u16_back [OF s3(2) bounds(2)])
  obtain s5 where s5: "rd_skip s4 6 = ok s5" "at_rest s5 (be_bytes 4 rate @ ?esds)"
    by (rule skip_back [OF s4(2)]) simp
  obtain s6 where s6: "rd_u32 s5 = ok (rate, s6)" "at_rest s6 ?esds"
    by (rule u32_back [OF s5(2) bounds(3)])
  have skip': "rd_skip (reader_new entry') 8 = ok s1" using s1(1) by (simp add: rd_skip_def)
  have audio': "parse_audio_entry entry' t = ok \<lparr>ae_channels = chans, ae_sample_rate = rate div 65536, ae_children = ?esds\<rparr>"
    unfolding parse_audio_entry_def skip' and_then_simps
    using s2(1) s3(1) s4(1) s5(1) s6 by (simp add: at_rest_def)
  have "find_esds ?esds t = ok (written (ascii ''esds'', bx_payload esds))"
    by (rule find_esds_written [OF reads(10)])
  then have "parse_aac entry' t = ok c"
    using parse reads(9) by (auto simp: parse_aac_def audio audio' written_def split: if_splits cong del: if_weak_cong)
  moreover have "iso_audio_entry entry' t = ok None"
    using s1(1) s2(1) by (simp add: iso_audio_entry_def)
  ultimately show ?thesis by simp
qed

definition example_quicktime_entry :: bytes where
  "example_quicktime_entry =
     [0, 0, 0, 0, 0, 0, 0, 1] @ [0, 1] @ replicate 6 0 @ [0, 2] @ [0, 16, 0, 0, 0, 0] @ [0xBB, 0x80, 0, 0]
       @ replicate 16 0
       @ [0, 0, 0, 44] @ ascii ''wave'' @ [0, 0, 0, 36] @ ascii ''esds'' @ [0, 0, 0, 0, 3, 22, 0, 1, 0, 4, 17, 0x40]
       @ replicate 12 0 @ [5, 2, 0x11, 0x90]"

theorem iso_entry_same_codec_witness:
  "\<exists>out. iso_audio_entry example_quicktime_entry 1 = ok (Some out) \<and> out \<noteq> example_quicktime_entry
     \<and> parse_aac out 1 = ok (Aac 48000 2 2) \<and> iso_audio_entry out 1 = ok None"
proof -
  have parse: "parse_aac example_quicktime_entry 1 = ok (Aac 48000 2 2)" by code_simp
  have "case iso_audio_entry example_quicktime_entry 1 of Inr (Some out) \<Rightarrow> out \<noteq> example_quicktime_entry | _ \<Rightarrow> False"
    by code_simp
  then obtain out where out: "iso_audio_entry example_quicktime_entry 1 = ok (Some out)" "out \<noteq> example_quicktime_entry"
    by (auto split: sum.splits option.splits)
  with iso_entry_same_codec [OF parse out(1)] show ?thesis by blast
qed

end
