(* ===== verification/Bit_Reader.thy ===== *)
theory Bit_Reader
  imports Byte_Strings
begin

text \<open>
  The bits of a NAL unit (\<^verbatim>\<open>src/src/cenc/bits.rs\<close>): its bytes with the emulation-prevention bytes
  removed, each mapped back to where it came from, and a reader of bits, exp-Golomb codes included.
  A parser threads a reader; the combinators here are its sequencing.
\<close>

section \<open>Unescaping\<close>

record rbsp =
  rb_bytes :: bytes
  rb_origin :: "nat list"

text \<open>The bytes that are kept with their places; the zeros before one saturate as a \<open>u8\<close> does.\<close>

fun unescape :: "nat \<Rightarrow> nat \<Rightarrow> bytes \<Rightarrow> (byte \<times> nat) list" where
  "unescape zeros index [] = []"
| "unescape zeros index (b # bs) =
     (if 2 \<le> zeros \<and> b = 3 then unescape 0 (Suc index) bs
      else (b, index) # unescape (if b = 0 then min 255 (zeros + 1) else 0) (Suc index) bs)"

definition rbsp_new :: "bytes \<Rightarrow> nat \<Rightarrow> rbsp" where
  "rbsp_new nal limit =
     (let kept = unescape 0 0 (take limit nal) in \<lparr>rb_bytes = map fst kept, rb_origin = map snd kept\<rparr>)"

definition nal_bytes_covering :: "rbsp \<Rightarrow> nat \<Rightarrow> nat option" where
  "nal_bytes_covering s bits =
     (if bits = 0 then Some 0 else map_option Suc (get_at (rb_origin s) ((bits - 1) div 8)))"

section \<open>Reading bits\<close>

record bit_reader =
  br_data :: bytes
  br_bit :: nat

definition rbsp_reader :: "rbsp \<Rightarrow> bit_reader" where
  "rbsp_reader s = \<lparr>br_data = rb_bytes s, br_bit = 0\<rparr>"

type_synonym 'a parser = "bit_reader \<Rightarrow> ('a \<times> bit_reader) res"

definition truncated :: error where
  "truncated = InvalidMedia ''a slice or parameter set is truncated''"

definition read_bit :: "bool parser" where
  "read_bit r =
     and_then (ok_or (get_at (br_data r) (br_bit r div 8)) truncated) (\<lambda>byte.
       ok (and (drop_bit (7 - br_bit r mod 8) byte) 1 = 1, r\<lparr>br_bit := br_bit r + 1\<rparr>))"

fun bits_loop :: "nat \<Rightarrow> nat \<Rightarrow> nat parser" where
  "bits_loop 0 v r = ok (v, r)"
| "bits_loop (Suc n) v r = and_then (read_bit r) (\<lambda>(b, r'). bits_loop n (2 * v + of_bool b) r')"

definition read_bits :: "nat \<Rightarrow> nat parser" where
  "read_bits count r =
     (if 32 < count then fail (InvalidMedia ''a field is wider than 32 bits'')
      else and_then (bits_loop count 0 r) (\<lambda>(v, r').
        and_then (ok_or (u32_of_nat v) truncated) (\<lambda>x. ok (x, r'))))"

definition skip_bits :: "nat \<Rightarrow> unit parser" where
  "skip_bits count r =
     and_then (ok_or (checked_add (br_bit r) count) truncated) (\<lambda>until.
       if length (br_data r) * 8 < until then fail truncated else ok ((), r\<lparr>br_bit := until\<rparr>))"

text \<open>The zeros before the one that ends them.\<close>

function ue_zeros :: "nat \<Rightarrow> nat parser" where
  "ue_zeros zeros r =
     and_then (read_bit r) (\<lambda>(b, r').
       if b then ok (zeros, r')
       else if 31 < zeros + 1 then fail (InvalidMedia ''an exp-Golomb code is too long'')
       else ue_zeros (zeros + 1) r')"
  by pat_completeness auto
termination by (relation "measure (\<lambda>(zeros, r). 32 - zeros)") auto

declare ue_zeros.simps [simp del]

definition read_ue :: "nat parser" where
  "read_ue r =
     and_then (ue_zeros 0 r) (\<lambda>(zeros, r1).
     and_then (read_bits zeros r1) (\<lambda>(suffix, r2).
     and_then (ok_or (u32_of_nat (2 ^ zeros - 1 + suffix)) truncated) (\<lambda>x. ok (x, r2))))"

definition read_se :: "int parser" where
  "read_se r =
     and_then (read_ue r) (\<lambda>(code, r').
       let magnitude = (int code + 1) div 2 in
       ok (if int code mod 2 = 1 then magnitude else - magnitude, r'))"

section \<open>Sequencing\<close>

definition p_bind :: "'a parser \<Rightarrow> ('a \<Rightarrow> 'b parser) \<Rightarrow> 'b parser" where
  "p_bind p f r = and_then (p r) (\<lambda>(x, r'). f x r')"

definition p_then :: "'a parser \<Rightarrow> 'b parser \<Rightarrow> 'b parser" where
  "p_then p q = p_bind p (\<lambda>_. q)"

definition p_return :: "'a \<Rightarrow> 'a parser" where
  "p_return x r = ok (x, r)"

definition p_lift :: "'a res \<Rightarrow> 'a parser" where
  "p_lift v r = and_then v (\<lambda>x. ok (x, r))"

definition p_when :: "bool \<Rightarrow> 'a parser \<Rightarrow> unit parser" where
  "p_when b p = (if b then p_then p (p_return ()) else p_return ())"

definition p_or :: "bool \<Rightarrow> 'a parser \<Rightarrow> 'a \<Rightarrow> 'a parser" where
  "p_or b p x = (if b then p else p_return x)"

fun p_times :: "nat \<Rightarrow> 'a parser \<Rightarrow> 'a list parser" where
  "p_times 0 p = p_return []"
| "p_times (Suc n) p = p_bind p (\<lambda>x. p_bind (p_times n p) (\<lambda>xs. p_return (x # xs)))"

fun p_fold :: "('s \<Rightarrow> 'a \<Rightarrow> 's parser) \<Rightarrow> 's \<Rightarrow> 'a list \<Rightarrow> 's parser" where
  "p_fold f s [] = p_return s"
| "p_fold f s (x # xs) = p_bind (f s x) (\<lambda>s'. p_fold f s' xs)"

text \<open>Only the position and the value of a parse matter to its caller.\<close>

definition p_run :: "'a parser \<Rightarrow> bytes \<Rightarrow> 'a res" where
  "p_run p data = and_then (p \<lparr>br_data = data, br_bit = 0\<rparr>) (\<lambda>(x, _). ok x)"

definition p_position :: "nat parser" where
  "p_position r = ok (br_bit r, r)"

end
