(* ===== verification/Avc_Slices.thy ===== *)
theory Avc_Slices
  imports Bit_Reader Codec_Entries
begin

text \<open>
  H.264 far enough to find where a slice header ends (\<^verbatim>\<open>src/src/cenc/avc.rs\<close>): the parameter sets
  of \<^verbatim>\<open>avcC\<close> and of the stream, and the slice header that reads them.
\<close>

definition MAX_SLICE_HEADER_BYTES :: nat where
  "MAX_SLICE_HEADER_BYTES = 4096"

definition MAX_PARAMETER_SET_BYTES :: nat where
  "MAX_PARAMETER_SET_BYTES = 65536"

definition HIGH_PROFILES :: "nat list" where
  "HIGH_PROFILES = [100, 110, 122, 244, 44, 83, 86, 118, 128, 138, 139, 134, 135]"

record avc_sps =
  as_chroma_array_type :: nat
  as_separate_colour_plane :: bool
  as_log2_max_frame_num :: nat
  as_poc_type :: nat
  as_log2_max_poc_lsb :: nat
  as_delta_pic_order_always_zero :: bool
  as_frame_mbs_only :: bool

record avc_pps =
  ap_sps_id :: nat
  ap_entropy_coding :: bool
  ap_bottom_field_pic_order_in_frame_present :: bool
  ap_num_ref_idx_l0_default :: nat
  ap_num_ref_idx_l1_default :: nat
  ap_weighted_pred :: bool
  ap_weighted_bipred_idc :: nat
  ap_deblocking_filter_control_present :: bool
  ap_redundant_pic_cnt_present :: bool

record avc_parameters =
  av_nal_length_size :: nat
  av_sps :: "nat \<rightharpoonup> avc_sps"
  av_pps :: "nat \<rightharpoonup> avc_pps"

definition avc_empty :: "nat \<Rightarrow> avc_parameters" where
  "avc_empty n = \<lparr>av_nal_length_size = n, av_sps = Map.empty, av_pps = Map.empty\<rparr>"

section \<open>Parts of the syntax\<close>

definition avc_ref_count :: "nat parser" where
  "avc_ref_count = p_bind read_ue (\<lambda>n.
     if n + 1 \<le> 32 then p_return (n + 1)
     else p_lift (fail (InvalidMedia ''too many H.264 reference indices'')))"

definition malformed_list :: error where
  "malformed_list = InvalidMedia ''an H.264 reference list modification is malformed''"

fun avc_list_operations :: "nat \<Rightarrow> unit parser" where
  "avc_list_operations 0 = p_lift (fail malformed_list)"
| "avc_list_operations (Suc n) = p_bind read_ue (\<lambda>operation.
     if operation \<le> 2 then p_then read_ue (avc_list_operations n)
     else if operation = 3 then p_return ()
     else p_lift (fail malformed_list))"

definition avc_list_modification :: "unit parser" where
  "avc_list_modification = p_bind read_bit (\<lambda>modified.
     if \<not> modified then p_return () else avc_list_operations 65)"

definition avc_weight_entry :: "nat \<Rightarrow> unit parser" where
  "avc_weight_entry chroma =
     p_bind read_bit (\<lambda>luma.
     p_then (p_when luma (p_then read_se read_se)) (
     p_bind (p_or (chroma \<noteq> 0) read_bit False) (\<lambda>chroma_weighted.
       p_when chroma_weighted (p_times 4 read_se))))"

definition avc_pred_weight_table :: "nat \<Rightarrow> nat \<Rightarrow> nat \<Rightarrow> unit parser" where
  "avc_pred_weight_table chroma l0 l1 =
     p_then read_ue (
     p_then (p_when (chroma \<noteq> 0) read_ue) (
     p_then (p_times (min (l0 + l1) (u32_limit - 1)) (avc_weight_entry chroma)) (p_return ())))"

definition malformed_marking :: error where
  "malformed_marking = InvalidMedia ''an H.264 reference marking is malformed''"

fun avc_marking_operations :: "nat \<Rightarrow> unit parser" where
  "avc_marking_operations 0 = p_lift (fail malformed_marking)"
| "avc_marking_operations (Suc n) = p_bind read_ue (\<lambda>operation.
     if operation = 0 then p_return ()
     else if operation \<in> {1, 2, 4, 6} then p_then read_ue (avc_marking_operations n)
     else if operation = 3 then p_then read_ue (p_then read_ue (avc_marking_operations n))
     else if operation = 5 then avc_marking_operations n
     else p_lift (fail malformed_marking))"

definition avc_dec_ref_pic_marking :: "bool \<Rightarrow> unit parser" where
  "avc_dec_ref_pic_marking idr =
     (if idr then skip_bits 2
      else p_bind read_bit (\<lambda>adaptive.
        if \<not> adaptive then p_return () else avc_marking_operations 65))"

text \<open>One coefficient of a scaling list; \<open>rem_euclid\<close> by 256 is \<open>mod\<close>.\<close>

definition scaling_step :: "int \<times> int \<Rightarrow> nat \<Rightarrow> (int \<times> int) parser" where
  "scaling_step = (\<lambda>(last_scale, next_scale) _.
     p_bind (if next_scale \<noteq> 0
             then p_bind read_se (\<lambda>delta. p_return ((last_scale + delta + 256) mod 256))
             else p_return next_scale) (\<lambda>n.
       p_return (if n \<noteq> 0 then n else last_scale, n)))"

definition skip_scaling_list :: "nat \<Rightarrow> unit parser" where
  "skip_scaling_list count = p_then (p_fold scaling_step (8, 8) [0..<count]) (p_return ())"

definition avc_small :: "nat \<Rightarrow> nat \<Rightarrow> nat res" where
  "avc_small v limit =
     (if limit < v then fail (InvalidMedia ''an H.264 parameter is out of range'') else ok v)"

section \<open>Parameter sets\<close>

definition avc_scaling_lists :: "nat \<Rightarrow> unit parser" where
  "avc_scaling_lists chroma_format_idc =
     p_fold (\<lambda>_ index. p_bind read_bit (\<lambda>present.
         p_when present (skip_scaling_list (if index < 6 then 16 else 64))))
       () [0..<(if chroma_format_idc = 3 then 12 else 8)]"

text \<open>What the high profiles add: the chroma format, whether its planes are separate, scaling lists.\<close>

definition avc_high_profile_fields :: "(nat \<times> bool) parser" where
  "avc_high_profile_fields =
     p_bind read_ue (\<lambda>chroma_format_idc.
     if 3 < chroma_format_idc
     then p_lift (fail (InvalidMedia ''an H.264 chroma format is out of range''))
     else
       p_bind (p_or (chroma_format_idc = 3) read_bit False) (\<lambda>separate.
       p_then read_ue (p_then read_ue (p_then (skip_bits 1) (
       p_bind read_bit (\<lambda>scaling_matrix.
       p_then (p_when scaling_matrix (avc_scaling_lists chroma_format_idc)) (
         p_return (chroma_format_idc, separate))))))))"

definition avc_poc_fields :: "nat \<Rightarrow> (nat \<times> bool) parser" where
  "avc_poc_fields poc_type =
     (if poc_type = 0
      then p_bind read_ue (\<lambda>n. p_bind (p_lift (avc_small n 12)) (\<lambda>m. p_return (m + 4, False)))
      else if poc_type = 1
      then
        p_bind read_bit (\<lambda>always_zero.
        p_then read_se (p_then read_se (
        p_bind read_ue (\<lambda>n.
        p_bind (p_lift (avc_small n 255)) (\<lambda>m.
        p_then (p_times m read_se) (p_return (0, always_zero)))))))
      else if poc_type = 2 then p_return (0, False)
      else p_lift (fail (InvalidMedia ''an H.264 POC type is out of range'')))"

definition avc_sps_fields :: "(nat \<times> avc_sps) parser" where
  "avc_sps_fields =
     p_then (skip_bits 8) (
     p_bind (read_bits 8) (\<lambda>profile_idc.
     p_then (skip_bits 16) (
     p_bind read_ue (\<lambda>id.
     p_bind (p_or (profile_idc \<in> set HIGH_PROFILES) avc_high_profile_fields (1, False))
       (\<lambda>(chroma_format_idc, separate).
     p_bind read_ue (\<lambda>frame_num.
     p_bind (p_lift (avc_small frame_num 12)) (\<lambda>log2_frame_num.
     p_bind read_ue (\<lambda>poc_type.
     p_bind (avc_poc_fields poc_type) (\<lambda>(log2_max_poc_lsb, always_zero).
     p_then read_ue (p_then (skip_bits 1) (p_then read_ue (p_then read_ue (
     p_bind read_bit (\<lambda>frame_mbs_only.
       p_return (id, \<lparr>as_chroma_array_type = (if separate then 0 else chroma_format_idc),
         as_separate_colour_plane = separate, as_log2_max_frame_num = log2_frame_num + 4,
         as_poc_type = poc_type, as_log2_max_poc_lsb = log2_max_poc_lsb,
         as_delta_pic_order_always_zero = always_zero, as_frame_mbs_only = frame_mbs_only\<rparr>)))))))))))))))"

definition avc_parse_sps :: "bytes \<Rightarrow> (nat \<times> avc_sps) res" where
  "avc_parse_sps nal = p_run avc_sps_fields (rb_bytes (rbsp_new nal MAX_PARAMETER_SET_BYTES))"

definition avc_pps_fields :: "(nat \<times> avc_pps) parser" where
  "avc_pps_fields =
     p_then (skip_bits 8) (
     p_bind read_ue (\<lambda>id.
     p_bind read_ue (\<lambda>sps_id.
     p_bind read_bit (\<lambda>entropy_coding.
     p_bind read_bit (\<lambda>bottom_field.
     p_bind read_ue (\<lambda>slice_groups.
     if slice_groups \<noteq> 0
     then p_lift (fail (Unsupported ''H.264 with slice groups (FMO) cannot be encrypted''))
     else
       p_bind avc_ref_count (\<lambda>l0.
       p_bind avc_ref_count (\<lambda>l1.
       p_bind read_bit (\<lambda>weighted_pred.
       p_bind (read_bits 2) (\<lambda>bipred_idc.
       p_then read_se (p_then read_se (p_then read_se (
       p_bind read_bit (\<lambda>deblocking.
       p_then (skip_bits 1) (
       p_bind read_bit (\<lambda>redundant.
         p_return (id, \<lparr>ap_sps_id = sps_id, ap_entropy_coding = entropy_coding,
           ap_bottom_field_pic_order_in_frame_present = bottom_field,
           ap_num_ref_idx_l0_default = l0, ap_num_ref_idx_l1_default = l1,
           ap_weighted_pred = weighted_pred, ap_weighted_bipred_idc = bipred_idc,
           ap_deblocking_filter_control_present = deblocking,
           ap_redundant_pic_cnt_present = redundant\<rparr>)))))))))))))))))"

definition avc_parse_pps :: "bytes \<Rightarrow> (nat \<times> avc_pps) res" where
  "avc_parse_pps nal = p_run avc_pps_fields (rb_bytes (rbsp_new nal MAX_PARAMETER_SET_BYTES))"

text \<open>Takes in a parameter set; another NAL unit, or an empty one, changes nothing.\<close>

definition avc_update :: "avc_parameters \<Rightarrow> bytes \<Rightarrow> avc_parameters res" where
  "avc_update params nal =
     (case get_at nal 0 of
        None \<Rightarrow> ok params
      | Some header \<Rightarrow>
          if and header 0x1f = 7
          then and_then (avc_parse_sps nal) (\<lambda>(id, sps). ok (params\<lparr>av_sps := (av_sps params)(id \<mapsto> sps)\<rparr>))
          else if and header 0x1f = 8
          then and_then (avc_parse_pps nal) (\<lambda>(id, pps). ok (params\<lparr>av_pps := (av_pps params)(id \<mapsto> pps)\<rparr>))
          else ok params)"

fun avc_take_sets :: "nat \<Rightarrow> avc_parameters \<Rightarrow> reader \<Rightarrow> (avc_parameters \<times> reader) res" where
  "avc_take_sets 0 params r = ok (params, r)"
| "avc_take_sets (Suc n) params r =
     and_then (rd_u16 r) (\<lambda>(len, r1).
     and_then (rd_take r1 len) (\<lambda>(nal, r2).
     and_then (avc_update params nal) (\<lambda>params'. avc_take_sets n params' r2)))"

definition avc_from_sample_entry :: "bytes \<Rightarrow> avc_parameters res" where
  "avc_from_sample_entry entry =
     and_then (visual_entry entry) (\<lambda>(_, _, children).
     and_then (optional_child children (ascii ''avcC'')) (\<lambda>c.
     and_then (ok_or c (Unsupported ''H.264 without avcC'')) (\<lambda>config.
     and_then (rd_skip (reader_new (bx_payload config)) 4) (\<lambda>r1.
     and_then (rd_u8 r1) (\<lambda>(length_size, r2).
     and_then (rd_u8 r2) (\<lambda>(sps_count, r3).
     and_then (avc_take_sets (unat (and sps_count 0x1f)) (avc_empty (unat (and length_size 3) + 1)) r3)
       (\<lambda>(params, r4).
     and_then (rd_u8 r4) (\<lambda>(pps_count, r5).
     and_then (avc_take_sets (unat pps_count) params r5) (\<lambda>(params', _). ok params')))))))))"

section \<open>Slice headers\<close>

text \<open>The order of the pictures: fields that depend on the type of the picture order count.\<close>

definition avc_poc_slice_fields :: "avc_sps \<Rightarrow> avc_pps \<Rightarrow> bool \<Rightarrow> unit parser" where
  "avc_poc_slice_fields sps pps field_pic =
     (let bottom = ap_bottom_field_pic_order_in_frame_present pps \<and> \<not> field_pic in
      p_then (p_when (as_poc_type sps = 0)
        (p_then (skip_bits (as_log2_max_poc_lsb sps)) (p_when bottom read_se)))
        (p_when (as_poc_type sps = 1 \<and> \<not> as_delta_pic_order_always_zero sps)
          (p_then read_se (p_when bottom read_se))))"

text \<open>The reference indices of the two lists, after the slice's override of the defaults.\<close>

definition avc_ref_counts :: "avc_pps \<Rightarrow> bool \<Rightarrow> bool \<Rightarrow> (nat \<times> nat) parser" where
  "avc_ref_counts pps predicted b =
     p_bind (p_or predicted read_bit False) (\<lambda>override.
     if override
     then p_bind avc_ref_count (\<lambda>l0.
          p_bind (p_or b avc_ref_count (ap_num_ref_idx_l1_default pps)) (\<lambda>l1. p_return (l0, l1)))
     else p_return (ap_num_ref_idx_l0_default pps, ap_num_ref_idx_l1_default pps))"

definition avc_slice_fields :: "avc_sps \<Rightarrow> avc_pps \<Rightarrow> nat \<Rightarrow> nat \<Rightarrow> nat \<Rightarrow> unit parser" where
  "avc_slice_fields sps pps nal_ref_idc nal_type slice_type =
     (let p = (slice_type = 0); b = (slice_type = 1); i = (slice_type = 2);
          sp = (slice_type = 3); si = (slice_type = 4) in
      p_then (p_when (as_separate_colour_plane sps) (skip_bits 2)) (
      p_then (skip_bits (as_log2_max_frame_num sps)) (
      p_bind (p_or (\<not> as_frame_mbs_only sps) read_bit False) (\<lambda>field_pic.
      p_then (p_when field_pic (skip_bits 1)) (
      p_then (p_when (nal_type = 5) read_ue) (
      p_then (avc_poc_slice_fields sps pps field_pic) (
      p_then (p_when (ap_redundant_pic_cnt_present pps) read_ue) (
      p_then (p_when b (skip_bits 1)) (
      p_bind (avc_ref_counts pps (p \<or> sp \<or> b) b) (\<lambda>(l0, l1).
      p_then (p_when (\<not> i \<and> \<not> si)
        (p_then avc_list_modification (p_when b avc_list_modification))) (
      p_then (p_when ((ap_weighted_pred pps \<and> (p \<or> sp)) \<or> (ap_weighted_bipred_idc pps = 1 \<and> b))
        (avc_pred_weight_table (as_chroma_array_type sps) l0 (if b then l1 else 0))) (
      p_then (p_when (nal_ref_idc \<noteq> 0) (avc_dec_ref_pic_marking (nal_type = 5))) (
      p_then (p_when (ap_entropy_coding pps \<and> \<not> i \<and> \<not> si) read_ue) (
      p_then read_se (
      p_then (p_when (sp \<or> si) (p_then (p_when sp (skip_bits 1)) read_se)) (
      p_bind (p_or (ap_deblocking_filter_control_present pps) read_ue 1) (\<lambda>idc.
        p_when (idc \<noteq> 1) (p_then read_se read_se))))))))))))))))))"

definition avc_slice_header :: "avc_parameters \<Rightarrow> unit parser" where
  "avc_slice_header params =
     p_then (skip_bits 1) (
     p_bind (read_bits 2) (\<lambda>nal_ref_idc.
     p_bind (read_bits 5) (\<lambda>nal_type.
     if nal_type \<noteq> 1 \<and> nal_type \<noteq> 5
     then p_lift (fail (Unsupported (''H.264 NAL unit type '' @ decimal nal_type @ '' cannot be encrypted'')))
     else
       p_then read_ue (
       p_bind read_ue (\<lambda>raw_type.
       if 9 < raw_type then p_lift (fail (InvalidMedia ''an H.264 slice type is out of range''))
       else
         p_bind read_ue (\<lambda>pps_id.
         p_bind (p_lift (ok_or (av_pps params pps_id) (InvalidMedia ''a slice names an unknown PPS''))) (\<lambda>pps.
         p_bind (p_lift (ok_or (av_sps params (ap_sps_id pps)) (InvalidMedia ''a PPS names an unknown SPS'')))
           (\<lambda>sps. avc_slice_fields sps pps nal_ref_idc nal_type (raw_type mod 5)))))))))"

definition avc_header_bits :: "avc_parameters \<Rightarrow> bytes \<Rightarrow> nat res" where
  "avc_header_bits params nal =
     p_run (p_then (avc_slice_header params) p_position) (rb_bytes (rbsp_new nal MAX_SLICE_HEADER_BYTES))"

definition avc_clear_bytes :: "avc_parameters \<Rightarrow> bytes \<Rightarrow> nat res" where
  "avc_clear_bytes params nal =
     and_then (avc_header_bits params nal) (\<lambda>bits.
       ok_or (nal_bytes_covering (rbsp_new nal MAX_SLICE_HEADER_BYTES) bits)
         (InvalidMedia ''a slice header is truncated''))"

end
