(* ===== verification/Hevc_Slices.thy ===== *)
theory Hevc_Slices
  imports Bit_Reader Codec_Entries
begin

text \<open>
  H.265 far enough to find where a slice segment header ends (\<^verbatim>\<open>src/src/cenc/hevc.rs\<close>): the
  parameter sets of \<^verbatim>\<open>hvcC\<close> and of the stream, down to the reference picture sets, and the slice
  segment header that reads them.
\<close>

definition SLICE_HEADER_BYTES :: nat where "SLICE_HEADER_BYTES = 1024"
definition LARGE_SLICE_HEADER_BYTES :: nat where "LARGE_SLICE_HEADER_BYTES = 65536"
definition HEVC_PARAMETER_SET_BYTES :: nat where "HEVC_PARAMETER_SET_BYTES = 65536"
definition MAX_REFERENCE_SETS :: nat where "MAX_REFERENCE_SETS = 64"
definition MAX_REFERENCES_PER_SET :: nat where "MAX_REFERENCES_PER_SET = 16"
definition MAX_LONG_TERM_PICTURES :: nat where "MAX_LONG_TERM_PICTURES = 32"
definition NAL_SPS :: byte where "NAL_SPS = 33"
definition NAL_PPS :: byte where "NAL_PPS = 34"

section \<open>Data\<close>

record reference_set =
  rs_before :: "(int \<times> bool) list"
  rs_after :: "(int \<times> bool) list"

definition reference_set_len :: "reference_set \<Rightarrow> nat" where
  "reference_set_len s = length (rs_before s) + length (rs_after s)"

definition reference_set_used :: "reference_set \<Rightarrow> nat" where
  "reference_set_used s = length (filter snd (rs_before s @ rs_after s))"

record hevc_sps =
  hs_chroma_array_type :: nat
  hs_separate_colour_plane :: bool
  hs_pic_size_in_ctbs :: nat
  hs_log2_max_poc_lsb :: nat
  hs_sample_adaptive_offset :: bool
  hs_reference_sets :: "reference_set list"
  hs_long_term_present :: bool
  hs_long_term_used :: "bool list"
  hs_temporal_mvp :: bool

record hevc_pps =
  hp_sps_id :: nat
  hp_dependent_slice_segments :: bool
  hp_output_flag_present :: bool
  hp_extra_slice_header_bits :: nat
  hp_cabac_init_present :: bool
  hp_num_ref_idx_l0_default :: nat
  hp_num_ref_idx_l1_default :: nat
  hp_weighted_pred :: bool
  hp_weighted_bipred :: bool
  hp_slice_chroma_qp_offsets_present :: bool
  hp_chroma_qp_offset_list_enabled :: bool
  hp_deblocking_override_enabled :: bool
  hp_deblocking_disabled :: bool
  hp_loop_filter_across_slices :: bool
  hp_lists_modification_present :: bool
  hp_entry_points :: bool
  hp_header_extension_present :: bool

record hevc_parameters =
  hv_nal_length_size :: nat
  hv_sps :: "nat \<rightharpoonup> hevc_sps"
  hv_pps :: "nat \<rightharpoonup> hevc_pps"

definition hevc_empty :: "nat \<Rightarrow> hevc_parameters" where
  "hevc_empty n = \<lparr>hv_nal_length_size = n, hv_sps = Map.empty, hv_pps = Map.empty\<rparr>"

section \<open>Numbers\<close>

definition hevc_range :: error where
  "hevc_range = InvalidMedia ''an H.265 value is out of range''"

definition hevc_bounded :: "nat \<Rightarrow> nat \<Rightarrow> nat res" where
  "hevc_bounded v limit =
     (if limit < v then fail (InvalidMedia ''an H.265 reference picture set is too large'') else ok v)"

text \<open>How many bits a number takes; 64 less its leading zeros.\<close>

fun bit_length :: "nat \<Rightarrow> nat" where
  "bit_length n = (if n = 0 then 0 else Suc (bit_length (n div 2)))"

declare bit_length.simps [simp del]

definition ceil_log2 :: "nat \<Rightarrow> nat" where
  "ceil_log2 v = (if v \<le> 1 then 0 else bit_length (v - 1))"

definition div_ceil :: "nat \<Rightarrow> nat \<Rightarrow> nat" where
  "div_ceil a b = a div b + (if a mod b = 0 then 0 else 1)"

text \<open>Saturating arithmetic of an \<open>i32\<close>.\<close>

definition sat_i32 :: "int \<Rightarrow> int" where
  "sat_i32 x = max (- 2147483648) (min 2147483647 x)"

definition hevc_delta :: "int parser" where
  "hevc_delta = p_bind read_ue (\<lambda>v.
     p_bind (p_lift (ok_or (i32_of_nat v) hevc_range)) (\<lambda>x. p_return (sat_i32 (x + 1))))"

section \<open>Reference picture sets\<close>

fun hevc_entries :: "nat \<Rightarrow> int \<Rightarrow> int \<Rightarrow> (int \<times> bool) list parser" where
  "hevc_entries 0 sign poc = p_return []"
| "hevc_entries (Suc n) sign poc =
     p_bind hevc_delta (\<lambda>d.
     let poc' = sat_i32 (poc + sign * d) in
     p_bind read_bit (\<lambda>used.
     p_bind (hevc_entries n sign poc') (\<lambda>rest. p_return ((poc', used) # rest))))"

definition hevc_explicit_set :: "reference_set parser" where
  "hevc_explicit_set =
     p_bind read_ue (\<lambda>n. p_bind (p_lift (hevc_bounded n MAX_REFERENCES_PER_SET)) (\<lambda>negative.
     p_bind read_ue (\<lambda>m. p_bind (p_lift (hevc_bounded m MAX_REFERENCES_PER_SET)) (\<lambda>positive.
     p_bind (hevc_entries negative (-1) 0) (\<lambda>before_set.
     p_bind (hevc_entries positive 1 0) (\<lambda>after_set.
       p_return \<lparr>rs_before = before_set, rs_after = after_set\<rparr>))))))"

text \<open>An entry of the reference, moved; kept when it falls on the wanted side and its flag says so.\<close>

definition move_entry ::
    "(bool \<times> bool) list \<Rightarrow> int \<Rightarrow> (int \<Rightarrow> bool) \<Rightarrow> (int \<times> bool) list \<Rightarrow> nat \<times> int \<times> bool
       \<Rightarrow> (int \<times> bool) list res" where
  "move_entry flags delta side acc = (\<lambda>(at, poc, _).
     let moved = sat_i32 (poc + delta) in
     if side moved
     then and_then (index_at flags at) (\<lambda>(used, keep). ok (if keep then acc @ [(moved, used)] else acc))
     else ok acc)"

definition keep_delta ::
    "(bool \<times> bool) list \<Rightarrow> int \<Rightarrow> (int \<Rightarrow> bool) \<Rightarrow> nat \<Rightarrow> (int \<times> bool) list \<Rightarrow> (int \<times> bool) list res" where
  "keep_delta flags delta side entries acc =
     (if side delta
      then and_then (index_at flags entries) (\<lambda>(used, keep). ok (if keep then acc @ [(delta, used)] else acc))
      else ok acc)"

definition hevc_moved_side ::
    "(bool \<times> bool) list \<Rightarrow> int \<Rightarrow> (int \<Rightarrow> bool) \<Rightarrow> nat \<Rightarrow> (nat \<times> int \<times> bool) list
       \<Rightarrow> (nat \<times> int \<times> bool) list \<Rightarrow> (int \<times> bool) list res" where
  "hevc_moved_side flags delta side entries far near =
     and_then (try_fold (move_entry flags delta side) [] (rev far)) (\<lambda>acc1.
     and_then (keep_delta flags delta side entries acc1) (\<lambda>acc2.
       try_fold (move_entry flags delta side) acc2 near))"

definition hevc_moved_set :: "(bool \<times> bool) list \<Rightarrow> int \<Rightarrow> reference_set \<Rightarrow> reference_set res" where
  "hevc_moved_set flags delta reference =
     (let negative_count = length (rs_before reference);
          entries = reference_set_len reference;
          numbered_before = zip [0..<negative_count] (rs_before reference);
          numbered_after = zip [negative_count..<entries] (rs_after reference) in
      and_then (hevc_moved_side flags delta (\<lambda>x. x < 0) entries numbered_after numbered_before) (\<lambda>before_set.
      and_then (hevc_moved_side flags delta (\<lambda>x. 0 < x) entries numbered_before numbered_after) (\<lambda>after_set.
        ok \<lparr>rs_before = before_set, rs_after = after_set\<rparr>)))"

definition hevc_flag_pair :: "(bool \<times> bool) parser" where
  "hevc_flag_pair = p_bind read_bit (\<lambda>used. p_bind (p_or (\<not> used) read_bit True) (\<lambda>keep. p_return (used, keep)))"

definition hevc_moved_by :: "int \<Rightarrow> reference_set \<Rightarrow> reference_set parser" where
  "hevc_moved_by delta reference =
     p_bind (p_times (reference_set_len reference + 1) hevc_flag_pair) (\<lambda>flags.
       p_lift (hevc_moved_set flags delta reference))"

definition hevc_predicted_set :: "nat \<Rightarrow> nat \<Rightarrow> reference_set list \<Rightarrow> reference_set parser" where
  "hevc_predicted_set index count sets =
     p_bind (if index = count then p_bind read_ue (\<lambda>d. p_return (d + 1)) else p_return 1) (\<lambda>delta_index.
     p_bind (p_lift (ok_or (case checked_sub index delta_index of None \<Rightarrow> None | Some at \<Rightarrow> get_at sets at)
        (InvalidMedia ''an H.265 reference set names a missing set''))) (\<lambda>reference.
     p_bind read_bit (\<lambda>negative_sign.
     p_bind hevc_delta (\<lambda>magnitude.
       hevc_moved_by (if negative_sign then - magnitude else magnitude) reference))))"

definition hevc_set_at :: "nat \<Rightarrow> nat \<Rightarrow> reference_set list \<Rightarrow> reference_set parser" where
  "hevc_set_at index count sets =
     p_bind (p_or (index \<noteq> 0) read_bit False) (\<lambda>predicted.
       if \<not> predicted then hevc_explicit_set else hevc_predicted_set index count sets)"

definition hevc_reference_set :: "nat \<Rightarrow> reference_set list \<Rightarrow> reference_set parser" where
  "hevc_reference_set count sets = hevc_set_at count count sets"

section \<open>Parts of the syntax\<close>

definition hevc_ref_count :: "nat parser" where
  "hevc_ref_count = p_bind read_ue (\<lambda>n.
     if n + 1 \<le> 16 then p_return (n + 1)
     else p_lift (fail (InvalidMedia ''too many H.265 reference indices'')))"

definition hevc_list_modification :: "nat \<Rightarrow> nat \<Rightarrow> unit parser" where
  "hevc_list_modification active entry_width =
     p_bind read_bit (\<lambda>modified. p_when modified (p_times active (skip_bits entry_width)))"

definition hevc_weights_of_list :: "nat \<Rightarrow> nat \<Rightarrow> unit parser" where
  "hevc_weights_of_list chroma count =
     p_bind (p_times count read_bit) (\<lambda>luma.
     p_bind (p_or (chroma \<noteq> 0) (p_times count read_bit) []) (\<lambda>chroma_flags.
       p_fold (\<lambda>_ (index, weighted).
           p_then (p_when weighted (p_times 2 read_se))
             (p_when (get_at chroma_flags index = Some True) (p_times 4 read_se)))
         () (zip [0..<length luma] luma)))"

definition hevc_pred_weight_table :: "nat \<Rightarrow> nat \<Rightarrow> nat \<Rightarrow> unit parser" where
  "hevc_pred_weight_table chroma l0 l1 =
     p_then read_ue (
     p_then (p_when (chroma \<noteq> 0) read_se) (
       p_fold (\<lambda>_ count. hevc_weights_of_list chroma count) () [l0, l1]))"

definition hevc_profile_tier_level :: "nat \<Rightarrow> unit parser" where
  "hevc_profile_tier_level max_sub_layers_minus1 =
     p_then (skip_bits 3) (
     p_bind (read_bits 5) (\<lambda>general_profile.
     if 6 \<le> general_profile \<and> general_profile \<le> 11
     then p_lift (fail (Unsupported (''H.265 profile '' @ decimal general_profile @ '' cannot be encrypted'')))
     else
       p_then (skip_bits (32 + 4 + 43 + 1 + 8)) (
       p_bind (p_times max_sub_layers_minus1 (p_bind read_bit (\<lambda>a. p_bind read_bit (\<lambda>b. p_return (a, b)))))
         (\<lambda>present.
       p_then (p_when (0 < max_sub_layers_minus1) (skip_bits (2 * (8 - max_sub_layers_minus1)))) (
         p_fold (\<lambda>_ (profile_there, level_there).
             p_then (p_when profile_there (skip_bits 88)) (p_when level_there (skip_bits 8)))
           () present)))))"

definition hevc_scaling_list :: "nat \<Rightarrow> unit parser" where
  "hevc_scaling_list size_id =
     p_bind read_bit (\<lambda>listed.
       if listed
       then p_then (p_when (1 < size_id) read_se) (
            p_then (p_times (min 64 (2 ^ (4 + 2 * size_id))) read_se) (p_return ()))
       else p_then read_ue (p_return ()))"

definition hevc_scaling_list_data :: "unit parser" where
  "hevc_scaling_list_data =
     p_fold (\<lambda>_ size_id. p_then (p_times (if size_id = 3 then 2 else 6) (hevc_scaling_list size_id)) (p_return ()))
       () [0..<4]"

section \<open>Parameter sets\<close>

definition hevc_reference_sets :: "nat \<Rightarrow> reference_set list parser" where
  "hevc_reference_sets count =
     p_fold (\<lambda>sets index. p_bind (hevc_set_at index count sets) (\<lambda>s. p_return (sets @ [s]))) [] [0..<count]"

definition hevc_long_term_sps :: "nat \<Rightarrow> bool list parser" where
  "hevc_long_term_sps log2_max_poc_lsb =
     p_bind read_ue (\<lambda>n.
     p_bind (p_lift (hevc_bounded n MAX_LONG_TERM_PICTURES)) (\<lambda>count.
       p_times count (p_then (skip_bits log2_max_poc_lsb) read_bit)))"

text \<open>The sizes of coding blocks: the logarithm of the largest is at most 6.\<close>

definition hevc_block_sizes :: "nat parser" where
  "hevc_block_sizes =
     p_bind read_ue (\<lambda>a.
     p_bind (p_lift (if a + 3 \<le> 6 then ok (a + 3) else fail hevc_range)) (\<lambda>log2_min_cb.
     p_bind read_ue (\<lambda>log2_diff_cb.
       p_lift (if log2_min_cb + log2_diff_cb \<le> 6 then ok (log2_min_cb + log2_diff_cb) else fail hevc_range))))"

text \<open>The fields up to the size of the picture, and those from there to the transform sizes.\<close>

definition hevc_sps_head :: "(nat \<times> nat \<times> nat \<times> bool \<times> nat \<times> nat) parser" where
  "hevc_sps_head =
     p_then (skip_bits 16) (p_then (skip_bits 4) (
     p_bind (read_bits 3) (\<lambda>max_sub_layers_minus1.
     p_then (skip_bits 1) (
     p_then (hevc_profile_tier_level max_sub_layers_minus1) (
     p_bind read_ue (\<lambda>id.
     p_bind read_ue (\<lambda>chroma_format_idc.
     if 3 < chroma_format_idc
     then p_lift (fail (InvalidMedia ''an H.265 chroma format is out of range''))
     else
       p_bind (p_or (chroma_format_idc = 3) read_bit False) (\<lambda>separate.
       p_bind read_ue (\<lambda>w.
       p_bind read_ue (\<lambda>h.
         p_return (max_sub_layers_minus1, id, chroma_format_idc, separate, w, h)))))))))))"

definition hevc_sps_sizes :: "nat \<Rightarrow> (nat \<times> nat) parser" where
  "hevc_sps_sizes max_sub_layers_minus1 =
     p_bind read_bit (\<lambda>cropped.
     p_then (p_when cropped (p_times 4 read_ue)) (
     p_then read_ue (p_then read_ue (
     p_bind read_ue (\<lambda>n.
     p_bind (p_lift (if n + 4 \<le> 16 then ok (n + 4) else fail hevc_range)) (\<lambda>log2_max_poc_lsb.
     p_bind read_bit (\<lambda>ordering_info_present.
     let first_layer = (if ordering_info_present then 0 else max_sub_layers_minus1) in
     p_then (p_times (max_sub_layers_minus1 + 1 - first_layer) (p_times 3 read_ue)) (
     p_bind hevc_block_sizes (\<lambda>log2_ctb.
     p_then (p_times 4 read_ue) (p_return (log2_max_poc_lsb, log2_ctb)))))))))))"

definition hevc_sps_fields :: "(nat \<times> hevc_sps) parser" where
  "hevc_sps_fields =
     p_bind hevc_sps_head (\<lambda>(max_sub_layers_minus1, id, chroma_format_idc, separate, w, h).
     p_bind (hevc_sps_sizes max_sub_layers_minus1) (\<lambda>(log2_max_poc_lsb, log2_ctb).
     p_bind read_bit (\<lambda>scaling_enabled.
     p_bind (p_or scaling_enabled read_bit False) (\<lambda>scaling_listed.
     p_then (p_when scaling_listed hevc_scaling_list_data) (
     p_then (skip_bits 1) (
     p_bind read_bit (\<lambda>sample_adaptive_offset.
     p_bind read_bit (\<lambda>pcm.
     p_then (p_when pcm (p_then (skip_bits 8) (p_then read_ue (p_then read_ue (skip_bits 1))))) (
     p_bind read_ue (\<lambda>n.
     p_bind (p_lift (hevc_bounded n MAX_REFERENCE_SETS)) (\<lambda>reference_set_count.
     p_bind (hevc_reference_sets reference_set_count) (\<lambda>reference_sets.
     p_bind read_bit (\<lambda>long_term_present.
     p_bind (p_or long_term_present (hevc_long_term_sps log2_max_poc_lsb) []) (\<lambda>long_term_used.
     p_bind read_bit (\<lambda>temporal_mvp.
     let ctb = 2 ^ log2_ctb in
       p_return (id, \<lparr>hs_chroma_array_type = (if separate then 0 else chroma_format_idc),
         hs_separate_colour_plane = separate,
         hs_pic_size_in_ctbs = div_ceil w ctb * div_ceil h ctb,
         hs_log2_max_poc_lsb = log2_max_poc_lsb, hs_sample_adaptive_offset = sample_adaptive_offset,
         hs_reference_sets = reference_sets, hs_long_term_present = long_term_present,
         hs_long_term_used = long_term_used, hs_temporal_mvp = temporal_mvp\<rparr>))))))))))))))))"

definition hevc_parse_sps :: "bytes \<Rightarrow> (nat \<times> hevc_sps) res" where
  "hevc_parse_sps nal = p_run hevc_sps_fields (rb_bytes (rbsp_new nal HEVC_PARAMETER_SET_BYTES))"

text \<open>Tiles: the number of columns and rows, and their sizes unless they are uniform.\<close>

definition hevc_tiles :: "unit parser" where
  "hevc_tiles =
     p_bind read_ue (\<lambda>c. p_bind (p_lift (hevc_bounded c 255)) (\<lambda>columns.
     p_bind read_ue (\<lambda>r. p_bind (p_lift (hevc_bounded r 255)) (\<lambda>rows.
     p_bind read_bit (\<lambda>uniform.
     p_then (p_when (\<not> uniform) (p_times (columns + rows) read_ue)) (skip_bits 1))))))"

definition hevc_deblocking :: "(bool \<times> bool) parser" where
  "hevc_deblocking =
     p_bind read_bit (\<lambda>override.
     p_bind read_bit (\<lambda>disabled.
     p_then (p_when (\<not> disabled) (p_then read_se read_se)) (p_return (override, disabled))))"

definition hevc_pps_extension :: "bool \<Rightarrow> bool parser" where
  "hevc_pps_extension transform_skip =
     p_bind read_bit (\<lambda>range_extension.
     p_bind read_bit (\<lambda>multilayer.
     p_bind read_bit (\<lambda>three_d.
     p_bind read_bit (\<lambda>screen_content.
     p_then (skip_bits 4) (
     if multilayer \<or> three_d \<or> screen_content
     then p_lift (fail (Unsupported
       ''H.265 multilayer, 3D, and screen-content extensions cannot be encrypted''))
     else p_or range_extension
       (p_then (p_when transform_skip read_ue) (p_then (skip_bits 1) read_bit)) False)))))"

definition hevc_pps_fields :: "(nat \<times> hevc_pps) parser" where
  "hevc_pps_fields =
     p_then (skip_bits 16) (
     p_bind read_ue (\<lambda>id.
     p_bind read_ue (\<lambda>sps_id.
     p_bind read_bit (\<lambda>dependent.
     p_bind read_bit (\<lambda>output_flag.
     p_bind (read_bits 3) (\<lambda>extra_bits.
     p_then (skip_bits 1) (
     p_bind read_bit (\<lambda>cabac_init.
     p_bind hevc_ref_count (\<lambda>l0.
     p_bind hevc_ref_count (\<lambda>l1.
     p_then read_se (p_then (skip_bits 1) (
     p_bind read_bit (\<lambda>transform_skip.
     p_bind read_bit (\<lambda>qp_delta.
     p_then (p_when qp_delta read_ue) (
     p_then read_se (p_then read_se (
     p_bind read_bit (\<lambda>chroma_offsets.
     p_bind read_bit (\<lambda>weighted_pred.
     p_bind read_bit (\<lambda>weighted_bipred.
     p_then (skip_bits 1) (
     p_bind read_bit (\<lambda>tiles.
     p_bind read_bit (\<lambda>wavefronts.
     p_then (p_when tiles hevc_tiles) (
     p_bind read_bit (\<lambda>loop_filter.
     p_bind read_bit (\<lambda>deblocking_present.
     p_bind (p_or deblocking_present hevc_deblocking (False, False)) (\<lambda>(override, disabled).
     p_bind read_bit (\<lambda>scaling_listed.
     p_then (p_when scaling_listed hevc_scaling_list_data) (
     p_bind read_bit (\<lambda>lists_modification.
     p_then read_ue (
     p_bind read_bit (\<lambda>header_extension.
     p_bind read_bit (\<lambda>extension.
     p_bind (p_or extension (hevc_pps_extension transform_skip) False) (\<lambda>qp_offset_list.
       p_return (id, \<lparr>hp_sps_id = sps_id, hp_dependent_slice_segments = dependent,
         hp_output_flag_present = output_flag, hp_extra_slice_header_bits = extra_bits,
         hp_cabac_init_present = cabac_init, hp_num_ref_idx_l0_default = l0,
         hp_num_ref_idx_l1_default = l1, hp_weighted_pred = weighted_pred,
         hp_weighted_bipred = weighted_bipred, hp_slice_chroma_qp_offsets_present = chroma_offsets,
         hp_chroma_qp_offset_list_enabled = qp_offset_list,
         hp_deblocking_override_enabled = override, hp_deblocking_disabled = disabled,
         hp_loop_filter_across_slices = loop_filter,
         hp_lists_modification_present = lists_modification,
         hp_entry_points = (tiles \<or> wavefronts),
         hp_header_extension_present = header_extension\<rparr>)))))))))))))))))))))))))))))))))))"

definition hevc_parse_pps :: "bytes \<Rightarrow> (nat \<times> hevc_pps) res" where
  "hevc_parse_pps nal = p_run hevc_pps_fields (rb_bytes (rbsp_new nal HEVC_PARAMETER_SET_BYTES))"

definition hevc_update :: "hevc_parameters \<Rightarrow> bytes \<Rightarrow> hevc_parameters res" where
  "hevc_update params nal =
     (case get_at nal 0 of
        None \<Rightarrow> ok params
      | Some header \<Rightarrow>
          if and (drop_bit 1 header) 0x3f = NAL_SPS
          then and_then (hevc_parse_sps nal) (\<lambda>(id, sps). ok (params\<lparr>hv_sps := (hv_sps params)(id \<mapsto> sps)\<rparr>))
          else if and (drop_bit 1 header) 0x3f = NAL_PPS
          then and_then (hevc_parse_pps nal) (\<lambda>(id, pps). ok (params\<lparr>hv_pps := (hv_pps params)(id \<mapsto> pps)\<rparr>))
          else ok params)"

fun hevc_take_sets :: "nat \<Rightarrow> hevc_parameters \<Rightarrow> reader \<Rightarrow> (hevc_parameters \<times> reader) res" where
  "hevc_take_sets 0 params r = ok (params, r)"
| "hevc_take_sets (Suc n) params r =
     and_then (rd_u16 r) (\<lambda>(len, r1).
     and_then (rd_take r1 len) (\<lambda>(nal, r2).
     and_then (hevc_update params nal) (\<lambda>params'. hevc_take_sets n params' r2)))"

fun hevc_take_arrays :: "nat \<Rightarrow> hevc_parameters \<Rightarrow> reader \<Rightarrow> (hevc_parameters \<times> reader) res" where
  "hevc_take_arrays 0 params r = ok (params, r)"
| "hevc_take_arrays (Suc n) params r =
     and_then (rd_skip r 1) (\<lambda>r1.
     and_then (rd_u16 r1) (\<lambda>(count, r2).
     and_then (hevc_take_sets count params r2) (\<lambda>(params', r3). hevc_take_arrays n params' r3)))"

definition hevc_from_sample_entry :: "bytes \<Rightarrow> hevc_parameters res" where
  "hevc_from_sample_entry entry =
     and_then (visual_entry entry) (\<lambda>(_, _, children).
     and_then (optional_child children (ascii ''hvcC'')) (\<lambda>c.
     and_then (ok_or c (Unsupported ''H.265 without hvcC'')) (\<lambda>config.
     and_then (rd_skip (reader_new (bx_payload config)) 21) (\<lambda>r1.
     and_then (rd_u8 r1) (\<lambda>(length_size, r2).
     and_then (rd_u8 r2) (\<lambda>(arrays, r3).
     and_then (hevc_take_arrays (unat arrays) (hevc_empty (unat (and length_size 3) + 1)) r3)
       (\<lambda>(params, _). ok params)))))))"

text \<open>
  The slice segment header of H.265 (\<^verbatim>\<open>src/src/cenc/hevc.rs\<close>, \<^verbatim>\<open>header_bits\<close> and \<^verbatim>\<open>slice_fields\<close>) and how
  many bytes of a NAL unit it covers.
\<close>

section \<open>Fields of an independent slice segment\<close>

text \<open>The short-term set of the slice: one of the sequence's, or one of its own.\<close>

definition hevc_current_set :: "hevc_sps \<Rightarrow> reference_set parser" where
  "hevc_current_set sps =
     p_bind read_bit (\<lambda>from_sps.
       if from_sps
       then
         let count = length (hs_reference_sets sps) in
         p_bind (p_or (1 < count) (read_bits (ceil_log2 count)) 0) (\<lambda>index.
           p_lift (ok_or (get_at (hs_reference_sets sps) index)
             (InvalidMedia ''a slice names a missing reference picture set'')))
       else hevc_reference_set (length (hs_reference_sets sps)) (hs_reference_sets sps))"

definition hevc_long_term_entry :: "hevc_sps \<Rightarrow> nat \<Rightarrow> nat \<Rightarrow> nat \<Rightarrow> nat parser" where
  "hevc_long_term_entry sps from_sps_count so_far index =
     p_bind (if index < from_sps_count
             then p_bind (p_or (1 < length (hs_long_term_used sps))
                    (read_bits (ceil_log2 (length (hs_long_term_used sps)))) 0) (\<lambda>which.
                    p_return (get_at (hs_long_term_used sps) which = Some True))
             else p_then (skip_bits (hs_log2_max_poc_lsb sps)) read_bit) (\<lambda>used.
     p_bind read_bit (\<lambda>msb_present.
     p_then (p_when msb_present read_ue) (p_return (so_far + of_bool used))))"

definition hevc_long_term :: "hevc_sps \<Rightarrow> nat \<Rightarrow> nat parser" where
  "hevc_long_term sps pictures_total =
     p_bind (p_or (0 < length (hs_long_term_used sps)) read_ue 0) (\<lambda>from_sps_count.
     p_bind read_ue (\<lambda>explicit.
     if from_sps_count + explicit \<le> MAX_LONG_TERM_PICTURES
     then p_fold (hevc_long_term_entry sps from_sps_count) pictures_total [0..<from_sps_count + explicit]
     else p_lift (fail (InvalidMedia ''too many H.265 long-term pictures''))))"

text \<open>The pictures a slice refers to, and whether it predicts motion in time.\<close>

definition hevc_references :: "hevc_sps \<Rightarrow> bool \<Rightarrow> (nat \<times> bool) parser" where
  "hevc_references sps idr =
     (if idr then p_return (0, False)
      else
        p_then (skip_bits (hs_log2_max_poc_lsb sps)) (
        p_bind (hevc_current_set sps) (\<lambda>current_set.
        p_bind (p_or (hs_long_term_present sps) (hevc_long_term sps (reference_set_used current_set))
            (reference_set_used current_set)) (\<lambda>pictures_total.
        p_bind (p_or (hs_temporal_mvp sps) read_bit False) (\<lambda>temporal_mvp.
          p_return (pictures_total, temporal_mvp))))))"

definition hevc_ref_counts :: "hevc_pps \<Rightarrow> bool \<Rightarrow> (nat \<times> nat) parser" where
  "hevc_ref_counts pps b =
     p_bind read_bit (\<lambda>override.
     if override
     then p_bind hevc_ref_count (\<lambda>l0.
          p_bind (p_or b hevc_ref_count (hp_num_ref_idx_l1_default pps)) (\<lambda>l1. p_return (l0, l1)))
     else p_return (hp_num_ref_idx_l0_default pps, hp_num_ref_idx_l1_default pps))"

text \<open>What a slice that predicts from other pictures says.\<close>

definition hevc_prediction_fields :: "hevc_sps \<Rightarrow> hevc_pps \<Rightarrow> bool \<Rightarrow> nat \<Rightarrow> bool \<Rightarrow> unit parser" where
  "hevc_prediction_fields sps pps b pictures_total temporal_mvp =
     p_bind (hevc_ref_counts pps b) (\<lambda>(l0, l1).
     p_then (p_when (hp_lists_modification_present pps \<and> 1 < pictures_total)
       (p_then (hevc_list_modification l0 (ceil_log2 pictures_total))
         (p_when b (hevc_list_modification l1 (ceil_log2 pictures_total))))) (
     p_then (p_when b (skip_bits 1)) (
     p_then (p_when (hp_cabac_init_present pps) (skip_bits 1)) (
     p_then (p_when temporal_mvp
       (p_bind (p_or b read_bit True) (\<lambda>from_l0.
          p_when ((from_l0 \<and> 1 < l0) \<or> (\<not> from_l0 \<and> 1 < l1)) read_ue))) (
     p_then (p_when ((hp_weighted_pred pps \<and> \<not> b) \<or> (hp_weighted_bipred pps \<and> b))
       (hevc_pred_weight_table (hs_chroma_array_type sps) l0 (if b then l1 else 0))) (
     p_then read_ue (p_return ())))))))"

definition hevc_slice_deblocking :: "hevc_pps \<Rightarrow> bool parser" where
  "hevc_slice_deblocking pps =
     p_bind (p_or (hp_deblocking_override_enabled pps) read_bit False) (\<lambda>override.
       if override
       then p_bind read_bit (\<lambda>disabled.
              p_then (p_when (\<not> disabled) (p_then read_se read_se)) (p_return disabled))
       else p_return (hp_deblocking_disabled pps))"

definition hevc_slice_fields :: "hevc_sps \<Rightarrow> hevc_pps \<Rightarrow> bool \<Rightarrow> unit parser" where
  "hevc_slice_fields sps pps idr =
     p_then (skip_bits (hp_extra_slice_header_bits pps)) (
     p_bind read_ue (\<lambda>slice_type.
     if 2 < slice_type then p_lift (fail (InvalidMedia ''an H.265 slice type is out of range''))
     else
       let b = (slice_type = 0); p = (slice_type = 1) in
       p_then (p_when (hp_output_flag_present pps) (skip_bits 1)) (
       p_then (p_when (hs_separate_colour_plane sps) (skip_bits 2)) (
       p_bind (hevc_references sps idr) (\<lambda>(pictures_total, temporal_mvp).
       p_bind (p_or (hs_sample_adaptive_offset sps) read_bit False) (\<lambda>sao_luma.
       p_bind (p_or (hs_sample_adaptive_offset sps \<and> hs_chroma_array_type sps \<noteq> 0) read_bit False)
         (\<lambda>sao_chroma.
       p_then (p_when (b \<or> p) (hevc_prediction_fields sps pps b pictures_total temporal_mvp)) (
       p_then read_se (
       p_then (p_when (hp_slice_chroma_qp_offsets_present pps) (p_then read_se read_se)) (
       p_then (p_when (hp_chroma_qp_offset_list_enabled pps) (skip_bits 1)) (
       p_bind (hevc_slice_deblocking pps) (\<lambda>deblocking_disabled.
         p_when (hp_loop_filter_across_slices pps \<and> (sao_luma \<or> sao_chroma \<or> \<not> deblocking_disabled))
           (skip_bits 1)))))))))))))"

section \<open>The header\<close>

text \<open>Slice types of the base layer, and the types that start a sequence anew.\<close>

definition hevc_is_slice :: "nat \<Rightarrow> bool" where
  "hevc_is_slice nal_type \<longleftrightarrow> nal_type \<le> 9 \<or> (16 \<le> nal_type \<and> nal_type \<le> 21)"

definition hevc_entry_points :: "unit parser" where
  "hevc_entry_points =
     p_bind read_ue (\<lambda>count.
       p_when (0 < count) (
         p_bind read_ue (\<lambda>n.
         p_bind (p_lift (if n + 1 \<le> 32 then ok (n + 1)
             else fail (InvalidMedia ''an H.265 entry point width is out of range''))) (\<lambda>entry_width.
           p_times count (skip_bits entry_width)))))"

definition hevc_header_extension :: "unit parser" where
  "hevc_header_extension = p_bind read_ue (\<lambda>n. skip_bits (n * 8))"

text \<open>A slice segment that is not the first has an address, and may depend on the one before.\<close>

definition hevc_segment_address :: "hevc_sps \<Rightarrow> hevc_pps \<Rightarrow> bool \<Rightarrow> bool parser" where
  "hevc_segment_address sps pps first_slice_segment =
     (if first_slice_segment then p_return False
      else
        p_bind (p_or (hp_dependent_slice_segments pps) read_bit False) (\<lambda>dependent.
        p_then (skip_bits (ceil_log2 (hs_pic_size_in_ctbs sps))) (p_return dependent)))"

definition hevc_slice_header :: "hevc_parameters \<Rightarrow> unit parser" where
  "hevc_slice_header params =
     p_then (skip_bits 1) (
     p_bind (read_bits 6) (\<lambda>nal_type.
     p_bind (read_bits 6) (\<lambda>layer_id.
     p_then (skip_bits 3) (
     if \<not> hevc_is_slice nal_type
     then p_lift (fail (Unsupported (''H.265 NAL unit type '' @ decimal nal_type @ '' cannot be encrypted'')))
     else if layer_id \<noteq> 0
     then p_lift (fail (Unsupported ''H.265 layers above the base layer cannot be encrypted''))
     else
       p_bind read_bit (\<lambda>first_slice_segment.
       p_then (p_when (16 \<le> nal_type \<and> nal_type \<le> 23) (skip_bits 1)) (
       p_bind read_ue (\<lambda>pps_id.
       p_bind (p_lift (ok_or (hv_pps params pps_id) (InvalidMedia ''a slice names an unknown PPS''))) (\<lambda>pps.
       p_bind (p_lift (ok_or (hv_sps params (hp_sps_id pps)) (InvalidMedia ''a PPS names an unknown SPS'')))
         (\<lambda>sps.
       p_bind (hevc_segment_address sps pps first_slice_segment) (\<lambda>dependent.
       p_then (p_when (\<not> dependent) (hevc_slice_fields sps pps (nal_type = 19 \<or> nal_type = 20))) (
       p_then (p_when (hp_entry_points pps) hevc_entry_points) (
         p_when (hp_header_extension_present pps) hevc_header_extension))))))))))))"

text \<open>The alignment that ends the header: a one bit, then zeros up to the next byte.\<close>

definition hevc_header_bits :: "hevc_parameters \<Rightarrow> rbsp \<Rightarrow> nat res" where
  "hevc_header_bits params s =
     and_then (p_run (p_then (hevc_slice_header params) p_position) (rb_bytes s)) (\<lambda>position.
       ok ((position div 8 + 1) * 8))"

definition hevc_attempt :: "hevc_parameters \<Rightarrow> bytes \<Rightarrow> nat \<Rightarrow> nat res" where
  "hevc_attempt params nal limit =
     and_then (hevc_header_bits params (rbsp_new nal limit)) (\<lambda>bits.
       ok_or (nal_bytes_covering (rbsp_new nal limit) bits) (InvalidMedia ''a slice header is truncated''))"

definition hevc_clear_bytes :: "hevc_parameters \<Rightarrow> bytes \<Rightarrow> nat res" where
  "hevc_clear_bytes params nal =
     (case hevc_attempt params nal SLICE_HEADER_BYTES of
        Inl (Fail e) \<Rightarrow>
          if SLICE_HEADER_BYTES < length nal then hevc_attempt params nal LARGE_SLICE_HEADER_BYTES
          else fail e
      | other \<Rightarrow> other)"

end
