(* ===== verification/Nal_Subsamples.thy ===== *)
theory Nal_Subsamples
  imports Avc_Slices Hevc_Slices Fragment_Writer
begin

text \<open>
  Which bytes of a video sample are protected (\<^verbatim>\<open>src/src/cenc/segment.rs\<close>, \<^verbatim>\<open>avc_subsamples\<close> and
  \<^verbatim>\<open>hevc_subsamples\<close>): every NAL unit that is not a slice joins the next clear run, and each slice's
  header stays clear.  The two functions are the same walk over NAL units; they differ in how a
  unit's type is read and in the parameter sets.
\<close>

section \<open>Clear runs\<close>

text \<open>A clear run longer than a \<open>u16\<close> becomes several clear-only subsamples.\<close>

function push_subsample :: "(nat \<times> nat) list \<Rightarrow> nat \<Rightarrow> nat \<Rightarrow> (nat \<times> nat) list res" where
  "push_subsample m clear protected_len =
     (if u16_limit - 1 < clear
      then push_subsample (m @ [(u16_limit - 1, 0)]) (clear - (u16_limit - 1)) protected_len
      else
        and_then (expect (if clear < u16_limit then Some clear else None)) (\<lambda>c.
        and_then (ok_or (u32_of_nat protected_len) (InvalidMedia ''a slice is larger than 4 GiB'')) (\<lambda>p.
          ok (m @ [(c, p)]))))"
  by pat_completeness auto
termination by (relation "measure (\<lambda>(m, clear, p). clear)") auto

declare push_subsample.simps [simp del]

section \<open>Types of NAL units\<close>

datatype nal_class = Slice_Unit | Parameter_Unit | Refused_Unit error | Other_Unit

definition avc_class :: "byte \<Rightarrow> nal_class" where
  "avc_class header =
     (let t = unat (and header 0x1f) in
      if t = 1 \<or> t = 5 then Slice_Unit
      else if 2 \<le> t \<and> t \<le> 4 then Refused_Unit (Unsupported ''H.264 data partitioning cannot be encrypted'')
      else if t = 7 \<or> t = 8 then Parameter_Unit
      else Other_Unit)"

definition hevc_class :: "byte \<Rightarrow> nal_class" where
  "hevc_class header =
     (let t = unat (and (drop_bit 1 header) 0x3f) in
      if hevc_is_slice t then Slice_Unit
      else if t \<le> 31
      then Refused_Unit (Unsupported (''H.265 NAL unit type '' @ decimal t @ '' cannot be encrypted''))
      else if t \<le> 34 then Parameter_Unit
      else Other_Unit)"

section \<open>The walk\<close>

text \<open>
  The rest of the sample, the parameter sets changed by the sample itself, the map so far and the
  clear bytes that no subsample has taken yet.
\<close>

function subsample_walk ::
    "nat \<Rightarrow> (byte \<Rightarrow> nal_class) \<Rightarrow> ('p \<Rightarrow> bytes \<Rightarrow> nat res) \<Rightarrow> ('p \<Rightarrow> bytes \<Rightarrow> 'p res) \<Rightarrow> 'p
       \<Rightarrow> 'p option \<Rightarrow> (nat \<times> nat) list \<Rightarrow> nat \<Rightarrow> bytes \<Rightarrow> ((nat \<times> nat) list \<times> nat) res" where
  "subsample_walk length_size class_of clear_bytes update params in_band m clear rest =
     (if rest = [] then ok (m, clear)
      else
        and_then (ok_or (get_slice rest 0 length_size) (InvalidMedia ''a NAL length is truncated'')) (\<lambda>pre.
        let len = be_value pre in
        and_then (ok_or (get_slice rest length_size (length_size + len))
            (InvalidMedia ''a NAL unit runs past its sample'')) (\<lambda>nal.
        and_then (ok_or (get_at nal 0) (InvalidMedia ''an empty NAL unit'')) (\<lambda>header.
        let later = drop (length_size + len) rest in
        case class_of header of
          Slice_Unit \<Rightarrow>
            and_then (clear_bytes (case in_band of Some p \<Rightarrow> p | None \<Rightarrow> params) nal) (\<lambda>n.
            and_then (push_subsample m (clear + length_size + n) (wsub64 len n)) (\<lambda>m'.
              subsample_walk length_size class_of clear_bytes update params in_band m' 0 later))
        | Refused_Unit e \<Rightarrow> fail e
        | Parameter_Unit \<Rightarrow>
            and_then (update (case in_band of Some p \<Rightarrow> p | None \<Rightarrow> params) nal) (\<lambda>p.
              subsample_walk length_size class_of clear_bytes update params (Some p) m
                (clear + (length_size + len)) later)
        | Other_Unit \<Rightarrow>
            subsample_walk length_size class_of clear_bytes update params in_band m
              (clear + (length_size + len)) later))))"
  by pat_completeness auto
termination
proof (relation "measure (\<lambda>(l, k, c, u, params, in_band, m, clear, rest). length rest)", goal_cases)
  case 1
  then show ?case by simp
qed (auto simp: get_slice_def get_at_def subslice_def split: if_splits)

declare subsample_walk.simps [simp del]

definition close_subsamples :: "(nat \<times> nat) list \<times> nat \<Rightarrow> (nat \<times> nat) list res" where
  "close_subsamples = (\<lambda>(m, clear).
     and_then (if 0 < clear then push_subsample m clear 0 else ok m) (\<lambda>m'.
       if MAX_SUBSAMPLES < length m'
       then fail (InvalidMedia ''a sample has more than 42 subsamples, more than saiz can describe'')
       else ok m'))"

definition avc_subsamples :: "avc_parameters \<Rightarrow> bytes \<Rightarrow> (nat \<times> nat) list res" where
  "avc_subsamples params sample_bytes =
     and_then (subsample_walk (av_nal_length_size params) avc_class avc_clear_bytes avc_update params None [] 0
         sample_bytes) close_subsamples"

definition hevc_subsamples :: "hevc_parameters \<Rightarrow> bytes \<Rightarrow> (nat \<times> nat) list res" where
  "hevc_subsamples params sample_bytes =
     and_then (subsample_walk (hv_nal_length_size params) hevc_class hevc_clear_bytes hevc_update params None [] 0
         sample_bytes) close_subsamples"

end
