(* ===== verification/Bit_Codes.thy ===== *)
theory Bit_Codes
  imports Bit_Reader
begin

text \<open>
  What every parser of this code satisfies: it never panics, it stays inside its data, and what it
  reads depends on the bits it passes over only.  The last is what lets a slice header be found
  again once the bytes behind it are encrypted.
\<close>

section \<open>Parsers\<close>

definition bit_at :: "bytes \<Rightarrow> nat \<Rightarrow> bool" where
  "bit_at d k = bit (d ! (k div 8)) (7 - k mod 8)"

definition agrees :: "bytes \<Rightarrow> bytes \<Rightarrow> nat \<Rightarrow> bool" where
  "agrees d d' n \<longleftrightarrow> n \<le> 8 * length d' \<and> (\<forall>k < n. bit_at d k = bit_at d' k)"

lemma agrees_mono: "agrees d d' n \<Longrightarrow> m \<le> n \<Longrightarrow> agrees d d' m"
  by (simp add: agrees_def)

abbreviation at_bit :: "bytes \<Rightarrow> nat \<Rightarrow> bit_reader" where
  "at_bit d i \<equiv> \<lparr>br_data = d, br_bit = i\<rparr>"

definition parses :: "('a \<Rightarrow> bool) \<Rightarrow> 'a parser \<Rightarrow> bool" where
  "parses Q p \<longleftrightarrow> (\<forall>d i. i \<le> 8 * length d \<longrightarrow> safe (p (at_bit d i)) \<and>
     (\<forall>x r. p (at_bit d i) = ok (x, r) \<longrightarrow>
        Q x \<and> (\<exists>j. r = at_bit d j \<and> i \<le> j \<and> j \<le> 8 * length d
          \<and> (\<forall>d'. agrees d d' j \<longrightarrow> p (at_bit d' i) = ok (x, at_bit d' j)))))"

abbreviation any :: "'a \<Rightarrow> bool" where
  "any \<equiv> \<lambda>_. True"

lemma parsesI:
  assumes "\<And>d i. i \<le> 8 * length d \<Longrightarrow> safe (p (at_bit d i))"
    and "\<And>d i x r. i \<le> 8 * length d \<Longrightarrow> p (at_bit d i) = ok (x, r) \<Longrightarrow> Q x \<and>
      (\<exists>j. r = at_bit d j \<and> i \<le> j \<and> j \<le> 8 * length d
        \<and> (\<forall>d'. agrees d d' j \<longrightarrow> p (at_bit d' i) = ok (x, at_bit d' j)))"
  shows "parses Q p"
  using assms unfolding parses_def by blast

lemma parses_safe: "parses Q p \<Longrightarrow> i \<le> 8 * length d \<Longrightarrow> safe (p (at_bit d i))"
  unfolding parses_def by blast

lemma parsesE:
  assumes "parses Q p" "p (at_bit d i) = ok (x, r)" "i \<le> 8 * length d"
  obtains j where "r = at_bit d j" "i \<le> j" "j \<le> 8 * length d" "Q x"
    "\<And>d'. agrees d d' j \<Longrightarrow> p (at_bit d' i) = ok (x, at_bit d' j)"
  using assms unfolding parses_def by blast

named_theorems parses_intros "parsers that behave"

lemma parses_weaken: "parses Q p \<Longrightarrow> (\<And>x. Q x \<Longrightarrow> R x) \<Longrightarrow> parses R p"
  unfolding parses_def by blast

lemma parses_bind:
  assumes "parses Q p" "\<And>x. Q x \<Longrightarrow> parses R (f x)"
  shows "parses R (p_bind p f)"
proof (rule parsesI)
  fix d :: bytes and i assume i: "i \<le> 8 * length d"
  have "safe (f x r)" if "p (at_bit d i) = ok (x, r)" for x r
    using parsesE [OF assms(1) that i] assms(2) parses_safe by metis
  then show "safe (p_bind p f (at_bit d i))"
    unfolding p_bind_def using parses_safe [OF assms(1) i] by (intro safe_and_then) auto
next
  fix d i y r assume i: "i \<le> 8 * length d" and r: "p_bind p f (at_bit d i) = ok (y, r)"
  then obtain x r1 where x: "p (at_bit d i) = ok (x, r1)" "f x r1 = ok (y, r)"
    by (auto simp: p_bind_def and_then_eq_Inr)
  obtain j where j: "r1 = at_bit d j" "i \<le> j" "j \<le> 8 * length d" "Q x"
    "\<And>d'. agrees d d' j \<Longrightarrow> p (at_bit d' i) = ok (x, at_bit d' j)"
    using parsesE [OF assms(1) x(1) i] by blast
  obtain k where k: "r = at_bit d k" "j \<le> k" "k \<le> 8 * length d" "R y"
    "\<And>d'. agrees d d' k \<Longrightarrow> f x (at_bit d' j) = ok (y, at_bit d' k)"
    using parsesE [OF assms(2) [OF j(4)] x(2) [unfolded j(1)] j(3)] by blast
  show "R y \<and> (\<exists>j. r = at_bit d j \<and> i \<le> j \<and> j \<le> 8 * length d
        \<and> (\<forall>d'. agrees d d' j \<longrightarrow> p_bind p f (at_bit d' i) = ok (y, at_bit d' j)))"
  proof (intro conjI exI)
    show "\<forall>d'. agrees d d' k \<longrightarrow> p_bind p f (at_bit d' i) = ok (y, at_bit d' k)"
      using j(5) k(2,5) agrees_mono by (auto simp: p_bind_def)
  qed (use j k in auto)
qed

lemma parses_return: "Q x \<Longrightarrow> parses Q (p_return x)"
  by (rule parsesI) (auto simp: p_return_def)

lemma parses_lift: "(\<And>x. v = ok x \<Longrightarrow> Q x) \<Longrightarrow> safe v \<Longrightarrow> parses Q (p_lift v)"
  by (rule parsesI) (auto simp: p_lift_def and_then_eq_Inr intro!: safe_and_then)

lemma parses_read_bit [parses_intros]: "parses any read_bit"
proof (rule parsesI)
  fix d i x r assume "i \<le> 8 * length d" and "read_bit (at_bit d i) = ok (x, r)"
  then have i: "i div 8 < length d" and r: "r = at_bit d (Suc i)"
    and x: "x = (and (drop_bit (7 - i mod 8) (d ! (i div 8))) 1 = 1)"
    by (auto simp: read_bit_def and_then_eq_Inr get_at_eq_Some)
  have bit: "(and (drop_bit (7 - i mod 8) (c ! (i div 8))) 1 = 1) = bit_at c i" for c :: bytes
    by (simp add: bit_at_def and_one_eq bit_iff_odd_drop_bit odd_iff_mod_2_eq_one)
  show "True \<and> (\<exists>j. r = at_bit d j \<and> i \<le> j \<and> j \<le> 8 * length d
        \<and> (\<forall>d'. agrees d d' j \<longrightarrow> read_bit (at_bit d' i) = ok (x, at_bit d' j)))"
  proof (intro conjI exI allI impI)
    show "Suc i \<le> 8 * length d" using i by linarith
    fix d' assume a: "agrees d d' (Suc i)"
    then have "i div 8 < length d'" "bit_at d i = bit_at d' i" by (auto simp: agrees_def)
    then show "read_bit (at_bit d' i) = ok (x, at_bit d' (Suc i))"
      unfolding x bit by (simp add: read_bit_def get_at_def bit)
  qed (use r in auto)
qed (auto simp: read_bit_def intro!: safe_and_then)

lemma parses_skip [parses_intros]: "parses any (skip_bits n)"
proof (rule parsesI)
  fix d i x r assume i: "i \<le> 8 * length d" and "skip_bits n (at_bit d i) = ok (x, r)"
  then have n: "i + n < u64_limit" "i + n \<le> 8 * length d" "r = at_bit d (i + n)"
    by (auto simp: skip_bits_def and_then_eq_Inr split: if_splits)
  show "True \<and> (\<exists>j. r = at_bit d j \<and> i \<le> j \<and> j \<le> 8 * length d
        \<and> (\<forall>d'. agrees d d' j \<longrightarrow> skip_bits n (at_bit d' i) = ok (x, at_bit d' j)))"
    using n by (intro conjI exI [of _ "i + n"]) (auto simp: skip_bits_def agrees_def checked_add_def)
qed (auto simp: skip_bits_def intro!: safe_and_then)

lemma parses_bits_loop: "parses (\<lambda>v. v < (u + 1) * 2 ^ n) (bits_loop n u)"
proof (induction n arbitrary: u)
  case 0
  have "bits_loop 0 u = p_return u" by (rule ext) (simp add: p_return_def)
  then show ?case using parses_return [of "\<lambda>v. v < u + 1" u] by simp
next
  case (Suc n)
  have "bits_loop (Suc n) u = p_bind read_bit (\<lambda>b. bits_loop n (2 * u + of_bool b))"
    by (rule ext) (simp add: p_bind_def)
  moreover have "parses (\<lambda>v. v < (u + 1) * 2 ^ Suc n) (bits_loop n (2 * u + of_bool b))" for b
  proof (rule parses_weaken [OF Suc.IH])
    fix v :: nat assume v: "v < (2 * u + of_bool b + 1) * 2 ^ n"
    have "(2 * u + of_bool b + 1) * 2 ^ n \<le> (2 * u + 2) * 2 ^ n" by (intro mult_right_mono) auto
    also have "(2 * u + 2) * 2 ^ n = (u + 1) * 2 ^ Suc n" by (simp add: algebra_simps)
    finally show "v < (u + 1) * 2 ^ Suc n" using v by simp
  qed
  ultimately show ?case by (simp only:) (rule parses_bind [OF parses_read_bit])
qed

lemma bits_loop_pow: "parses (\<lambda>v. v < 2 ^ n) (bits_loop n 0)"
  using parses_bits_loop [of 0 n] by simp

lemma read_bits_eq: "n \<le> 32 \<Longrightarrow> i \<le> 8 * length d \<Longrightarrow> read_bits n (at_bit d i) = bits_loop n 0 (at_bit d i)"
proof -
  assume n: "n \<le> 32" and i: "i \<le> 8 * length d"
  have "v < u32_limit" if "bits_loop n 0 (at_bit d i) = ok (v, r)" for v r
  proof -
    have "v < 2 ^ n" using parsesE [OF bits_loop_pow that i] by metis
    also have "(2 :: nat) ^ n \<le> 2 ^ 32" using n by (intro power_increasing) auto
    finally show ?thesis by simp
  qed
  then show ?thesis
    using n by (cases "bits_loop n 0 (at_bit d i)") (auto simp: read_bits_def u32_of_nat_def)
qed

lemma parses_cong:
  assumes "parses Q p" "\<And>d i. i \<le> 8 * length d \<Longrightarrow> q (at_bit d i) = p (at_bit d i)"
  shows "parses Q q"
proof (rule parsesI)
  fix d i x r assume i: "i \<le> 8 * length d" and r: "q (at_bit d i) = ok (x, r)"
  then have "p (at_bit d i) = ok (x, r)" using assms(2) by simp
  from parsesE [OF assms(1) this i] obtain j where j: "r = at_bit d j" "i \<le> j" "j \<le> 8 * length d" "Q x"
    "\<And>d'. agrees d d' j \<Longrightarrow> p (at_bit d' i) = ok (x, at_bit d' j)" by blast
  have "q (at_bit d' i) = ok (x, at_bit d' j)" if "agrees d d' j" for d'
    using j(2,5) that assms(2) [of i d'] by (simp add: agrees_def)
  then show "Q x \<and> (\<exists>j. r = at_bit d j \<and> i \<le> j \<and> j \<le> 8 * length d
        \<and> (\<forall>d'. agrees d d' j \<longrightarrow> q (at_bit d' i) = ok (x, at_bit d' j)))"
    using j by blast
qed (use assms parses_safe in auto)

lemma parses_fail: "(\<And>d i. p (at_bit d i) = fail e) \<Longrightarrow> parses Q p"
  by (rule parsesI) auto

lemma parses_read_bits [parses_intros]: "parses (\<lambda>v. v < 2 ^ n) (read_bits n)"
proof (cases "n \<le> 32")
  case True
  show ?thesis by (rule parses_cong [OF bits_loop_pow]) (simp add: read_bits_eq True)
qed (auto intro: parses_fail simp: read_bits_def)

lemma parses_ue_zeros: "z \<le> 31 \<Longrightarrow> parses (\<lambda>n. n \<le> 31) (ue_zeros z)"
proof (induction "31 - z" arbitrary: z)
  case 0
  have "ue_zeros z = p_bind read_bit (\<lambda>b. if b then p_return z
      else p_lift (fail (InvalidMedia ''an exp-Golomb code is too long'')))"
    using 0 by (intro ext) (subst ue_zeros.simps, auto simp: p_bind_def p_return_def p_lift_def intro!: arg_cong2 [where f = and_then])
  then show ?case
    using 0 by (auto intro!: parses_bind [OF parses_read_bit] parses_return parses_lift)
next
  case (Suc n)
  have "ue_zeros z = p_bind read_bit (\<lambda>b. if b then p_return z else ue_zeros (z + 1))"
    using Suc(2) by (intro ext) (subst ue_zeros.simps, auto simp: p_bind_def p_return_def fun_eq_iff intro!: arg_cong2 [where f = and_then])
  moreover have "parses (\<lambda>n. n \<le> 31) (ue_zeros (z + 1))" using Suc by (intro Suc(1)) auto
  ultimately show ?case using Suc by (auto intro!: parses_bind [OF parses_read_bit] parses_return)
qed

lemma read_ue_eq:
  "read_ue = p_bind (ue_zeros 0) (\<lambda>z. p_bind (read_bits z)
     (\<lambda>s. p_lift (ok_or (u32_of_nat (2 ^ z - 1 + s)) truncated)))"
  by (rule ext) (simp add: read_ue_def p_bind_def p_lift_def)

lemma parses_ue [parses_intros]: "parses (\<lambda>v. v < u32_limit) read_ue"
  unfolding read_ue_eq
  by (rule parses_bind [OF parses_ue_zeros], simp, rule parses_bind [OF parses_read_bits], rule parses_lift) auto

lemma read_se_eq:
  "read_se = p_bind read_ue (\<lambda>c. p_return (if int c mod 2 = 1 then (int c + 1) div 2 else - ((int c + 1) div 2)))"
  by (rule ext) (simp add: read_se_def p_bind_def p_return_def)

lemma parses_se [parses_intros]: "parses any read_se"
  unfolding read_se_eq by (rule parses_bind [OF parses_ue parses_return]) simp

lemma parses_then [parses_intros]: "parses any p \<Longrightarrow> parses R q \<Longrightarrow> parses R (p_then p q)"
  unfolding p_then_def by (rule parses_bind)

lemma parses_when [parses_intros]: "parses Q p \<Longrightarrow> parses any (p_when b p)"
  unfolding p_when_def by (auto intro!: parses_intros parses_return dest: parses_weaken [where R = any])

lemma parses_or [parses_intros]: "parses Q p \<Longrightarrow> Q x \<Longrightarrow> parses Q (p_or b p x)"
  unfolding p_or_def by (simp add: parses_return)

lemma parses_times [parses_intros]: "parses Q p \<Longrightarrow> parses (\<lambda>xs. length xs = n \<and> (\<forall>x \<in> set xs. Q x)) (p_times n p)"
proof (induction n)
  case (Suc n)
  show ?case unfolding p_times.simps
    by (rule parses_bind [OF Suc.prems], rule parses_bind [OF Suc.IH [OF Suc.prems]], rule parses_return) auto
qed (auto intro: parses_return)

lemma parses_fold:
  assumes "\<And>s x. P s \<Longrightarrow> x \<in> set xs \<Longrightarrow> parses P (f s x)" "P s"
  shows "parses P (p_fold f s xs)"
  using assms
proof (induction xs arbitrary: s)
  case (Cons x xs)
  show ?case unfolding p_fold.simps
    by (rule parses_bind [of P]) (use Cons in auto)
qed (auto intro: parses_return)

section \<open>Parsers whose values do not matter\<close>

named_theorems any_intros "parsers that behave, whatever they return"

lemma any_of: "parses Q p \<Longrightarrow> parses any p"
  by (erule parses_weaken) simp

lemma any_reads [any_intros]:
  "parses any read_bit" "parses any (read_bits n)" "parses any read_ue" "parses any read_se" "parses any (skip_bits n)"
  by (rule any_of, rule parses_intros)+

lemma any_bind [any_intros]: "parses any p \<Longrightarrow> (\<And>x. parses any (f x)) \<Longrightarrow> parses any (p_bind p f)"
  by (rule parses_bind)

lemma any_steps [any_intros]:
  "parses any (p_return x)" "safe v \<Longrightarrow> parses any (p_lift v)"
  by (rule parses_return parses_lift, simp_all)+

lemma any_then [any_intros]:
  "parses any p \<Longrightarrow> parses any q \<Longrightarrow> parses any (p_then p q)" "parses any p \<Longrightarrow> parses any (p_when b p)"
  "parses any p \<Longrightarrow> parses any (p_or b p x)"
  by (rule parses_intros; assumption?; simp)+

lemma any_times [any_intros]: "parses any p \<Longrightarrow> parses any (p_times n p)"
  by (rule any_of, rule parses_times)

lemma any_fold [any_intros]: "(\<And>s x. parses any (f s x)) \<Longrightarrow> parses any (p_fold f s xs)"
  by (rule parses_fold) simp_all

lemma any_if [any_intros]: "(b \<Longrightarrow> parses any p) \<Longrightarrow> (\<not> b \<Longrightarrow> parses any q) \<Longrightarrow> parses any (if b then p else q)"
  by simp

lemma any_prod [any_intros]: "(\<And>a b. parses any (f a b)) \<Longrightarrow> parses any (case x of (a, b) \<Rightarrow> f a b)"
  by (cases x) simp

lemma any_let [any_intros]: "parses any (f x) \<Longrightarrow> parses any (Let x f)"
  by simp

section \<open>Running a parser over all of its data\<close>

lemma p_run_position:
  assumes "parses Q p" "p_run (p_then p p_position) d = ok n"
  shows "n \<le> 8 * length d" "agrees d d' n \<Longrightarrow> p_run (p_then p p_position) d' = ok n"
proof -
  obtain x r where r: "p (at_bit d 0) = ok (x, r)" "n = br_bit r"
    using assms(2) by (auto simp: p_run_def p_then_def p_bind_def p_position_def and_then_eq_Inr)
  obtain j where "r = at_bit d j" "j \<le> 8 * length d"
    "\<And>d'. agrees d d' j \<Longrightarrow> p (at_bit d' 0) = ok (x, at_bit d' j)"
    using parsesE [OF assms(1) r(1)] by auto
  then show "n \<le> 8 * length d" "agrees d d' n \<Longrightarrow> p_run (p_then p p_position) d' = ok n"
    using r(2) by (auto simp: p_run_def p_then_def p_bind_def p_position_def)
qed

lemma p_run_safe: "parses Q p \<Longrightarrow> safe (p_run p d)"
  unfolding p_run_def using parses_safe [of Q p 0 d] by (intro safe_and_then) auto

lemma p_run_position_safe: "parses Q p \<Longrightarrow> safe (p_run (p_then p p_position) d)"
  unfolding p_run_def p_then_def p_bind_def p_position_def
  using parses_safe [of Q p 0 d] by (intro safe_and_then) auto

text \<open>
  The codes of a NAL unit read back: exp-Golomb codes, and bytes escaped against start codes.  The
  encoders are those of the standards (H.264, 7.4.1 and 9.1); this code only reads.
\<close>

section \<open>Numbers as bits\<close>

fun bin_digits :: "nat \<Rightarrow> nat \<Rightarrow> bool list" where
  "bin_digits 0 x = []"
| "bin_digits (Suc n) x = bit x n # bin_digits n x"

lemma length_bin_digits [simp]: "length (bin_digits n x) = n"
  by (induction n) simp_all

text \<open>The data has these bits from this place on.\<close>

fun spelled :: "bytes \<Rightarrow> nat \<Rightarrow> bool list \<Rightarrow> bool" where
  "spelled d i [] \<longleftrightarrow> i \<le> 8 * length d"
| "spelled d i (b # bs) \<longleftrightarrow> i < 8 * length d \<and> bit_at d i = b \<and> spelled d (Suc i) bs"

lemma spelled_append:
  "spelled d i (xs @ ys) \<longleftrightarrow> spelled d i xs \<and> spelled d (i + length xs) ys"
proof (induction xs arbitrary: i)
  case Nil
  have "spelled d i ys \<Longrightarrow> i \<le> 8 * length d" by (cases ys) auto
  then show ?case by auto
qed auto

lemma read_bit_at: "i < 8 * length d \<Longrightarrow> read_bit (at_bit d i) = ok (bit_at d i, at_bit d (Suc i))"
  by (simp add: read_bit_def get_at_def bit_at_def and_one_eq bit_iff_odd_drop_bit odd_iff_mod_2_eq_one
      less_mult_imp_div_less mult.commute)

lemma bits_loop_spelled:
  "spelled d i (bin_digits n x) \<Longrightarrow>
     bits_loop n u (at_bit d i) = ok (u * 2 ^ n + x mod 2 ^ n, at_bit d (i + n))"
proof (induction n arbitrary: i u)
  case (Suc n)
  have "x mod 2 ^ Suc n = of_bool (bit x n) * 2 ^ n + x mod 2 ^ n"
    using take_bit_Suc_from_most [of n x] by (simp add: take_bit_eq_mod mult.commute)
  then show ?case using Suc by (simp add: read_bit_at algebra_simps)
qed simp

lemma ue_zeros_spelled:
  assumes "spelled d i (replicate k False @ [True])" "z + k \<le> 31"
  shows "ue_zeros z (at_bit d i) = ok (z + k, at_bit d (i + k + 1))"
  using assms
proof (induction k arbitrary: z i)
  case 0
  then show ?case by (subst ue_zeros.simps) (simp add: read_bit_at)
next
  case (Suc k)
  then show ?case by (subst ue_zeros.simps) (simp add: read_bit_at)
qed

section \<open>Exp-Golomb codes\<close>

fun ue_width :: "nat \<Rightarrow> nat" where
  "ue_width n = (if n \<le> 1 then 0 else Suc (ue_width (n div 2)))"

declare ue_width.simps [simp del]

lemma ue_width_bounds: "1 \<le> n \<Longrightarrow> 2 ^ ue_width n \<le> n \<and> n < 2 ^ Suc (ue_width n)"
proof (induction n rule: ue_width.induct)
  case (1 n)
  show ?case
  proof (cases "n \<le> 1")
    case True
    then show ?thesis using 1 by (simp add: ue_width.simps)
  next
    case False
    with 1 have "2 ^ ue_width (n div 2) \<le> n div 2 \<and> n div 2 < 2 ^ Suc (ue_width (n div 2))" by simp
    then show ?thesis using False by (subst (1 2) ue_width.simps) (simp, linarith)
  qed
qed

definition ue_code :: "nat \<Rightarrow> bool list" where
  "ue_code v = (let k = ue_width (v + 1) in replicate k False @ [True] @ bin_digits k (v + 1))"

definition se_code :: "int \<Rightarrow> bool list" where
  "se_code s = ue_code (nat (if 0 < s then 2 * s - 1 else - 2 * s))"

lemma read_ue_spelled:
  assumes "v + 1 < u32_limit" "spelled d i (ue_code v)"
  shows "read_ue (at_bit d i) = ok (v, at_bit d (i + length (ue_code v)))"
proof -
  let ?k = "ue_width (v + 1)"
  have k: "2 ^ ?k \<le> v + 1" "v + 1 < 2 ^ Suc ?k" using ue_width_bounds [of "v + 1"] by auto
  have "(2 :: nat) ^ ?k < 2 ^ 32" using k(1) assms(1) by simp
  then have k31: "?k \<le> 31" using power_strict_increasing_iff [of "2 :: nat" ?k 32] by simp
  have sp: "spelled d i (replicate ?k False @ [True])" "spelled d (i + ?k + 1) (bin_digits ?k (v + 1))"
    using assms(2) by (auto simp: ue_code_def spelled_append simp flip: append_assoc)
  have "(v + 1) mod 2 ^ ?k = v + 1 - 2 ^ ?k"
  proof -
    have "(v + 1) mod 2 ^ ?k = (v + 1 - 2 ^ ?k) mod 2 ^ ?k" using k(1) by (simp add: le_mod_geq)
    also have "\<dots> = v + 1 - 2 ^ ?k" using k(2) by (intro mod_less) simp
    finally show ?thesis .
  qed
  then have bits: "bits_loop ?k 0 (at_bit d (i + ?k + 1)) = ok (v + 1 - 2 ^ ?k, at_bit d (i + ?k + 1 + ?k))"
    using bits_loop_spelled [OF sp(2), of 0] by simp
  moreover have "i + ?k + 1 \<le> 8 * length d"
    using sp(2) by (cases "bin_digits ?k (v + 1)") auto
  moreover have "2 ^ ?k - 1 + (v + 1 - 2 ^ ?k) = v"
    using k(1) one_le_power [of "2 :: nat" ?k] by linarith
  ultimately show ?thesis
    using ue_zeros_spelled [OF sp(1), of 0] k31 assms(1)
    by (simp add: read_ue_def read_bits_eq u32_of_nat_def ue_code_def)
qed

lemma read_se_spelled:
  assumes "\<bar>s\<bar> < 2147483648" "spelled d i (se_code s)"
  shows "read_se (at_bit d i) = ok (s, at_bit d (i + length (se_code s)))"
proof -
  let ?c = "nat (if 0 < s then 2 * s - 1 else - 2 * s)"
  have "read_ue (at_bit d i) = ok (?c, at_bit d (i + length (se_code s)))"
    using assms unfolding se_code_def by (intro read_ue_spelled) (auto simp: abs_less_iff)
  moreover have "(if int ?c mod 2 = 1 then (int ?c + 1) div 2 else - ((int ?c + 1) div 2)) = s"
  proof (cases "0 < s")
    case True
    then have "(2 * s - 1) mod 2 = 1" by presburger
    with True show ?thesis by simp
  next
    case False
    then show ?thesis by simp
  qed
  ultimately show ?thesis by (simp add: read_se_def)
qed

text \<open>
  An unsigned and a signed number written as exp-Golomb codes, one after the other, are read back
  wherever they stand in the data and whatever follows them, and the reader stands right behind them.
\<close>

theorem golomb_codes_read_back:
  assumes "v + 1 < u32_limit" "\<bar>s\<bar> < 2147483648" "spelled d i (ue_code v @ se_code s)"
  shows "p_bind read_ue (\<lambda>x. p_bind read_se (\<lambda>y. p_return (x, y))) \<lparr>br_data = d, br_bit = i\<rparr>
    = ok ((v, s), \<lparr>br_data = d, br_bit = i + length (ue_code v @ se_code s)\<rparr>)"
  using assms read_ue_spelled [of v d i] read_se_spelled [of s d "i + length (ue_code v)"]
  by (simp add: p_bind_def p_return_def spelled_append add.assoc)

theorem golomb_codes_read_back_witness:
  "p_bind read_ue (\<lambda>x. p_bind read_se (\<lambda>y. p_return (x, y))) \<lparr>br_data = [0xF8, 0xC2, 0x80], br_bit = 5\<rparr>
    = ok ((11, -2), \<lparr>br_data = [0xF8, 0xC2, 0x80], br_bit = 5 + length (ue_code 11 @ se_code (-2))\<rparr>)"
  by (rule golomb_codes_read_back) code_simp+

section \<open>Escaped bytes\<close>

text \<open>The writer's side: a 3 goes before a byte up to 3 that two zeros precede.\<close>

fun escape :: "nat \<Rightarrow> bytes \<Rightarrow> bytes" where
  "escape zeros [] = []"
| "escape zeros (b # bs) =
     (if 2 \<le> zeros \<and> b \<le> 3 then 3 # b # escape (if b = 0 then 1 else 0) bs
      else b # escape (if b = 0 then zeros + 1 else 0) bs)"

lemma unescape_escape:
  assumes "min 2 z = min 2 z'"
  shows "unescape z n (escape z' bs)
    = map (\<lambda>k. (bs ! k, n + length (escape z' (take (Suc k) bs)) - 1)) [0..<length bs]"
  using assms
proof (induction bs arbitrary: z z' n)
  case (Cons b bs)
  have z: "2 \<le> z \<longleftrightarrow> 2 \<le> z'" "min 2 (min 255 (z + 1)) = min 2 (z' + 1)" using Cons.prems by linarith+
  have up: "map f [0..<Suc m] = f 0 # map (\<lambda>k. f (Suc k)) [0..<m]" for f :: "nat \<Rightarrow> byte \<times> nat" and m
    by (simp add: upt_conv_Cons map_Suc_upt [symmetric] comp_def del: upt_Suc)
  show ?case
  proof (cases "2 \<le> z' \<and> b \<le> 3")
    case True
    then have "unescape (if b = 0 then 1 else 0) (Suc (Suc n)) (escape (if b = 0 then 1 else 0) bs)
      = map (\<lambda>k. (bs ! k, Suc (Suc n) + length (escape (if b = 0 then 1 else 0) (take (Suc k) bs)) - 1)) [0..<length bs]"
      by (intro Cons.IH) simp
    then show ?thesis using True z by (cases "b = 0") (simp_all add: up del: upt_Suc)
  next
    case False
    then have b: "\<not> (2 \<le> z \<and> b = 3)" using z by auto
    have "unescape (if b = 0 then min 255 (z + 1) else 0) (Suc n) (escape (if b = 0 then z' + 1 else 0) bs)
      = map (\<lambda>k. (bs ! k, Suc n + length (escape (if b = 0 then z' + 1 else 0) (take (Suc k) bs)) - 1)) [0..<length bs]"
      using z by (intro Cons.IH) simp
    then show ?thesis using False b by (cases "b = 0") (auto simp: up simp del: upt_Suc)
  qed
qed simp

text \<open>
  Bytes escaped against start codes come back as they were, and the first bits of them are covered
  by exactly the escaped form of the bytes that hold those bits.
\<close>

theorem unescaping_undoes_escaping:
  assumes "length (escape 0 bs) \<le> limit" "n \<le> 8 * length bs"
  shows "rb_bytes (rbsp_new (escape 0 bs) limit) = bs
    \<and> nal_bytes_covering (rbsp_new (escape 0 bs) limit) n = Some (length (escape 0 (take ((n + 7) div 8) bs)))"
proof -
  have u: "unescape 0 0 (take limit (escape 0 bs))
      = map (\<lambda>k. (bs ! k, length (escape 0 (take (Suc k) bs)) - 1)) [0..<length bs]"
    using assms(1) unescape_escape [of 0 0 0 bs] by simp
  then have "rb_bytes (rbsp_new (escape 0 bs) limit) = bs"
    by (simp add: rbsp_new_def comp_def map_nth)
  moreover have "nal_bytes_covering (rbsp_new (escape 0 bs) limit) n
      = Some (length (escape 0 (take ((n + 7) div 8) bs)))"
  proof (cases n)
    case (Suc m)
    have "(n + 7) div 8 = Suc (m div 8)" "m div 8 < length bs" using Suc assms(2) by auto
    moreover have "0 < length (escape 0 (take (Suc (m div 8)) bs))"
      using \<open>m div 8 < length bs\<close> by (cases bs) auto
    ultimately show ?thesis using Suc u by (simp add: nal_bytes_covering_def rbsp_new_def get_at_def)
  qed (simp add: nal_bytes_covering_def)
  ultimately show ?thesis by simp
qed

theorem unescaping_undoes_escaping_witness:
  "rb_bytes (rbsp_new (escape 0 [0x65, 0, 0, 1, 0, 0, 0, 7]) 4096) = [0x65, 0, 0, 1, 0, 0, 0, 7]
    \<and> nal_bytes_covering (rbsp_new (escape 0 [0x65, 0, 0, 1, 0, 0, 0, 7]) 4096) 30
      = Some (length (escape 0 (take ((30 + 7) div 8) [0x65, 0, 0, 1, 0, 0, 0, 7])))"
  by (rule unescaping_undoes_escaping) code_simp+

section \<open>What a covered header depends on\<close>

text \<open>The zeros before the bytes that follow.\<close>

fun zeros_after :: "nat \<Rightarrow> bytes \<Rightarrow> nat" where
  "zeros_after z [] = z"
| "zeros_after z (b # bs) =
     zeros_after (if 2 \<le> z \<and> b = 3 then 0 else if b = 0 then min 255 (z + 1) else 0) bs"

lemma unescape_append:
  "unescape z n (xs @ ys) = unescape z n xs @ unescape (zeros_after z xs) (n + length xs) ys"
  by (induction xs arbitrary: z n) auto

lemma unescape_places: "(b, k) \<in> set (unescape z n xs) \<Longrightarrow> n \<le> k \<and> k < n + length xs"
  by (induction xs arbitrary: z n) (auto split: if_splits, (fastforce dest: Suc_leD)+)

lemma length_unescape: "length (unescape z n xs) \<le> length xs"
  by (induction xs arbitrary: z n) (auto simp: le_SucI)

lemma unescape_sorted: "sorted_wrt (<) (map snd (unescape z n xs))"
  by (induction xs arbitrary: z n) (auto dest!: unescape_places)

lemma rbsp_lengths [simp]: "length (rb_origin (rbsp_new nal limit)) = length (rb_bytes (rbsp_new nal limit))"
  by (simp add: rbsp_new_def)

lemma rb_origin_less: "k < length (rb_origin (rbsp_new nal limit)) \<Longrightarrow> rb_origin (rbsp_new nal limit) ! k < min limit (length nal)"
proof -
  let ?u = "unescape 0 0 (take limit nal)"
  assume k: "k < length (rb_origin (rbsp_new nal limit))"
  then have "?u ! k \<in> set ?u" by (simp add: rbsp_new_def)
  then show ?thesis
    using k unescape_places [of "fst (?u ! k)" "snd (?u ! k)" 0 0 "take limit nal"] by (simp add: rbsp_new_def min.commute)
qed

lemma covering_le: "nal_bytes_covering (rbsp_new nal limit) n = Some m \<Longrightarrow> m \<le> min limit (length nal)"
  using rb_origin_less [of "(n - 1) div 8" nal limit]
  by (auto simp: nal_bytes_covering_def get_at_eq_Some split: if_splits)

text \<open>
  The bytes behind the covered ones do not matter: the unescaped data agrees up to the covered
  bits, and they are covered by the same bytes.
\<close>

lemma covering_stable:
  assumes "nal_bytes_covering (rbsp_new nal limit) n = Some m" "take m nal' = take m nal" "limit' = limit \<or> m \<le> limit'"
  shows "agrees (rb_bytes (rbsp_new nal limit)) (rb_bytes (rbsp_new nal' limit')) n"
    "nal_bytes_covering (rbsp_new nal' limit') n = Some m"
proof -
  have mle: "m \<le> limit" "m \<le> length nal" using covering_le [OF assms(1)] by auto
  then have mle': "m \<le> length nal'" "m \<le> limit'" using arg_cong [OF assms(2), of length] assms(3) by auto
  have pre: "unescape 0 0 (take l w) = unescape 0 0 (take m nal) @ unescape (zeros_after 0 (take m nal)) m (drop m (take l w))"
    if "m \<le> l" "m \<le> length w" "take m w = take m nal" for l w
  proof -
    have "take l w = take m nal @ drop m (take l w)"
      using that append_take_drop_id [of m "take l w"] by (simp add: min_def)
    then show ?thesis
      using unescape_append [of 0 0 "take m nal" "drop m (take l w)"] mle(2) by simp
  qed
  let ?u = "unescape 0 0 (take m nal)"
  have len: "n \<le> 8 * length ?u" and cov: "n \<noteq> 0 \<Longrightarrow> Suc (snd (?u ! ((n - 1) div 8))) = m"
  proof -
    let ?w = "unescape 0 0 (take limit nal)" and ?k = "(n - 1) div 8"
    have w: "?w = ?u @ unescape (zeros_after 0 (take m nal)) m (drop m (take limit nal))"
      using pre [OF mle refl] .
    have "n = 0 \<or> (?k < length ?u \<and> Suc (snd (?u ! ?k)) = m)"
    proof (cases "n = 0")
      case False
      then have k: "?k < length ?w" "m = Suc (snd (?w ! ?k))"
        using assms(1) by (auto simp: nal_bytes_covering_def get_at_eq_Some rbsp_new_def split: if_splits)
      have "?k < length ?u"
      proof (rule ccontr)
        assume "\<not> ?k < length ?u"
        then have "?w ! ?k \<in> set (unescape (zeros_after 0 (take m nal)) m (drop m (take limit nal)))"
          using k(1) unfolding w by (simp add: nth_append)
        then have "m \<le> snd (?w ! ?k)" using unescape_places by (metis prod.collapse)
        then show False using k(2) by simp
      qed
      then show ?thesis using k(2) unfolding w by (simp add: nth_append)
    qed simp
    then show "n \<le> 8 * length ?u" "n \<noteq> 0 \<Longrightarrow> Suc (snd (?u ! ?k)) = m" by auto
  qed
  obtain us where us: "unescape 0 0 (take limit nal) = ?u @ us" using pre [OF mle refl] by blast
  obtain vs where vs: "unescape 0 0 (take limit' nal') = ?u @ vs"
    using pre [OF mle'(2,1) assms(2)] by blast
  show "agrees (rb_bytes (rbsp_new nal limit)) (rb_bytes (rbsp_new nal' limit')) n"
    unfolding agrees_def
  proof (intro conjI allI impI)
    fix k assume "k < n"
    then have "k div 8 < length ?u" using len by linarith
    then show "bit_at (rb_bytes (rbsp_new nal limit)) k = bit_at (rb_bytes (rbsp_new nal' limit')) k"
      by (simp add: bit_at_def rbsp_new_def us vs nth_append)
  qed (use len in \<open>simp add: rbsp_new_def vs\<close>)
  show "nal_bytes_covering (rbsp_new nal' limit') n = Some m"
  proof (cases "n = 0")
    case False
    then have "(n - 1) div 8 < length ?u" using len by linarith
    then show ?thesis
      using False cov by (simp add: nal_bytes_covering_def rbsp_new_def vs get_at_def nth_append)
  qed (use assms(1) in \<open>simp add: nal_bytes_covering_def\<close>)
qed

end
