(* ===== verification/Avc_Laws.thy ===== *)
theory Avc_Laws
  imports Avc_Slices Bit_Codes Codec_Laws
begin

text \<open>
  The header of an H.264 slice: finding its end never panics, it lies in the NAL unit, and it
  depends on the bytes it covers only.
\<close>

section \<open>Parts of the syntax\<close>

lemma any_avc_list_operations [any_intros]: "parses any (avc_list_operations n)"
  by (induction n) (auto intro!: any_intros)

lemma any_avc_marking_operations [any_intros]: "parses any (avc_marking_operations n)"
  by (induction n) (auto intro!: any_intros)

lemma any_scaling_step [any_intros]: "parses any (scaling_step s i)"
  by (cases s) (auto simp: scaling_step_def intro!: any_intros)

lemma any_avc_parts [any_intros]:
  "parses any avc_ref_count" "parses any avc_list_modification" "parses any (avc_pred_weight_table c a b)"
  "parses any (avc_dec_ref_pic_marking idr)" "parses any (skip_scaling_list n)" "parses any (avc_scaling_lists c)"
  unfolding avc_ref_count_def avc_list_modification_def avc_pred_weight_table_def avc_weight_entry_def
    avc_dec_ref_pic_marking_def skip_scaling_list_def avc_scaling_lists_def
  by (intro any_intros safe_simps)+

lemma avc_small_safe [any_intros]: "safe (avc_small v n)"
  by (simp add: avc_small_def)

lemma any_avc_sps [any_intros]: "parses any avc_sps_fields"
  unfolding avc_sps_fields_def avc_high_profile_fields_def avc_poc_fields_def
  by (intro any_intros safe_simps)

lemma any_avc_pps [any_intros]: "parses any avc_pps_fields"
  unfolding avc_pps_fields_def by (intro any_intros safe_simps)

lemma any_avc_slice_header: "parses any (avc_slice_header params)"
  unfolding avc_slice_header_def avc_slice_fields_def avc_poc_slice_fields_def avc_ref_counts_def
  by (intro any_intros safe_simps)

section \<open>Parameters\<close>

lemma avc_update_safe [safe_intros]: "safe (avc_update params nal)"
  using p_run_safe [OF any_avc_sps] p_run_safe [OF any_avc_pps]
  by (auto simp: avc_update_def avc_parse_sps_def avc_parse_pps_def intro!: safe_intros split: option.split)

lemma avc_take_sets_safe [safe_intros]: "safe (avc_take_sets n params r)"
  by (induction n arbitrary: params r) (auto intro!: safe_intros)

lemma avc_from_sample_entry_safe [safe_intros]: "safe (avc_from_sample_entry entry)"
  by (auto simp: avc_from_sample_entry_def intro!: safe_intros)

section \<open>Clear bytes\<close>

lemma avc_clear_bytes_safe [safe_intros]: "safe (avc_clear_bytes params nal)"
  using p_run_position_safe [OF any_avc_slice_header]
  by (auto simp: avc_clear_bytes_def avc_header_bits_def intro!: safe_intros)

lemma avc_clear_bytes_le: "avc_clear_bytes params nal = ok n \<Longrightarrow> n \<le> length nal"
  using covering_le [of nal] by (auto simp: avc_clear_bytes_def and_then_eq_Inr dest: covering_le)

lemma avc_clear_bytes_stable:
  assumes "avc_clear_bytes params nal = ok n" "take n nal' = take n nal"
  shows "avc_clear_bytes params nal' = ok n"
proof -
  obtain bits where bits: "avc_header_bits params nal = ok bits"
      "nal_bytes_covering (rbsp_new nal MAX_SLICE_HEADER_BYTES) bits = Some n"
    using assms(1) by (auto simp: avc_clear_bytes_def and_then_eq_Inr)
  note st = covering_stable [OF bits(2) assms(2), of MAX_SLICE_HEADER_BYTES]
  have "avc_header_bits params nal' = ok bits"
    using bits(1) p_run_position(2) [OF any_avc_slice_header _ st(1)] by (simp add: avc_header_bits_def)
  then show ?thesis using st(2) by (simp add: avc_clear_bytes_def)
qed

text \<open>
  They are the bytes that the header needs: cut down to them, the unit gives the same header, and cut
  down further it does not.
\<close>

definition avc_header_fills :: "avc_parameters \<Rightarrow> bytes \<Rightarrow> nat \<Rightarrow> bool" where
  "avc_header_fills params nal n \<longleftrightarrow> 0 < n \<and> n \<le> length nal
     \<and> (\<exists>bits. avc_header_bits params nal = ok bits \<and> avc_header_bits params (take n nal) = ok bits
          \<and> (\<forall>k < n. avc_header_bits params (take k nal) \<noteq> ok bits))"

lemma shorter_unit_holds_less:
  assumes "nal_bytes_covering (rbsp_new nal limit) bits = Some n" "k < n" "0 < bits"
  shows "8 * length (rb_bytes (rbsp_new (take k nal) limit)) < bits"
proof -
  let ?w = "unescape 0 0 (take limit nal)" and ?u = "unescape 0 0 (take k nal)" and ?k = "(bits - 1) div 8"
  have le: "n \<le> limit" "n \<le> length nal" using covering_le [OF assms(1)] by auto
  have cov: "?k < length ?w" "Suc (snd (?w ! ?k)) = n"
    using assms(1,3) by (auto simp: nal_bytes_covering_def get_at_eq_Some rbsp_new_def)
  have "take limit nal = take k nal @ drop k (take limit nal)"
    using append_take_drop_id [of k "take limit nal"] le assms(2) by (simp add: min_def)
  then obtain rest where w: "?w = ?u @ rest"
    using unescape_append [of 0 0 "take k nal" "drop k (take limit nal)"] by metis
  have "length ?u \<le> ?k"
  proof (rule ccontr)
    assume "\<not> length ?u \<le> ?k"
    then have "?w ! ?k \<in> set ?u" unfolding w by (simp add: nth_append)
    then have "snd (?w ! ?k) < k"
      using unescape_places [of "fst (?w ! ?k)" "snd (?w ! ?k)" 0 0 "take k nal"] by simp
    then show False using cov(2) assms(2) by simp
  qed
  moreover have "8 * ?k \<le> bits - 1" by simp
  moreover have "take limit (take k nal) = take k nal" using le assms(2) by (simp add: min_def)
  ultimately show ?thesis using assms(3) by (simp add: rbsp_new_def)
qed

lemma avc_clear_bytes_fill:
  assumes "avc_clear_bytes params nal = ok n" "0 < n"
  shows "avc_header_fills params nal n"
proof -
  obtain bits where bits: "avc_header_bits params nal = ok bits"
      "nal_bytes_covering (rbsp_new nal MAX_SLICE_HEADER_BYTES) bits = Some n"
    using assms(1) by (auto simp: avc_clear_bytes_def and_then_eq_Inr)
  have pos: "0 < bits" using bits(2) assms(2) by (auto simp: nal_bytes_covering_def split: if_splits)
  have "take n (take n nal) = take n nal" by simp
  note st = covering_stable [OF bits(2) this, of MAX_SLICE_HEADER_BYTES]
  have same: "avc_header_bits params (take n nal) = ok bits"
    using bits(1) p_run_position(2) [OF any_avc_slice_header _ st(1)] by (simp add: avc_header_bits_def)
  have "avc_header_bits params (take k nal) \<noteq> ok bits" if "k < n" for k
  proof
    assume "avc_header_bits params (take k nal) = ok bits"
    then have "bits \<le> 8 * length (rb_bytes (rbsp_new (take k nal) MAX_SLICE_HEADER_BYTES))"
      using p_run_position(1) [OF any_avc_slice_header] by (simp add: avc_header_bits_def)
    then show False using shorter_unit_holds_less [OF bits(2) that pos] by simp
  qed
  then show ?thesis
    using bits(1) same assms(2) avc_clear_bytes_le [OF assms(1)] by (auto simp: avc_header_fills_def)
qed

end
