(* ===== verification/Hevc_Laws.thy ===== *)
theory Hevc_Laws
  imports Hevc_Slices Bit_Codes Codec_Laws
begin

text \<open>
  The header of an H.265 slice segment: finding its end never panics, it lies in the NAL unit, and
  it depends on the bytes it covers only, whichever of the two attempts found it.
\<close>

section \<open>Reference picture sets\<close>

lemma hevc_checks_safe [any_intros]: "safe (hevc_bounded v n)"
  by (simp add: hevc_bounded_def)

lemma any_hevc_delta [any_intros]: "parses any hevc_delta"
  unfolding hevc_delta_def by (intro any_intros safe_simps)

lemma any_hevc_entries [any_intros]: "parses any (hevc_entries n sign poc)"
  by (induction n arbitrary: poc) (auto intro!: any_intros)

lemma any_hevc_explicit_set [any_intros]: "parses any hevc_explicit_set"
  unfolding hevc_explicit_set_def by (intro any_intros)

lemma move_entry_safe: "fst e < length flags \<Longrightarrow> safe (move_entry flags delta side acc e)"
  by (cases e) (auto simp: move_entry_def intro!: safe_intros split: prod.split)

lemma move_entries_safe:
  "\<forall>e \<in> set es. fst e < length flags \<Longrightarrow> safe (try_fold (move_entry flags delta side) acc es)"
  by (rule safe_try_fold [where P = "\<lambda>_. True"]) (auto intro: move_entry_safe)

lemma hevc_moved_side_safe:
  assumes "entries < length flags" "\<forall>e \<in> set far \<union> set near. fst e < length flags"
  shows "safe (hevc_moved_side flags delta side entries far near)"
  using assms unfolding hevc_moved_side_def keep_delta_def
  by (auto intro!: safe_intros move_entries_safe split: prod.split)

text \<open>The flags are read for every entry of the reference and one more, so none is missing.\<close>

lemma hevc_moved_set_safe:
  assumes "length flags = reference_set_len reference + 1"
  shows "safe (hevc_moved_set flags delta reference)"
proof -
  let ?b = "zip [0..<length (rs_before reference)] (rs_before reference)"
  let ?a = "zip [length (rs_before reference)..<reference_set_len reference] (rs_after reference)"
  have "\<forall>e \<in> set ?a \<union> set ?b. fst e < length flags"
    using assms by (auto simp: reference_set_len_def dest!: set_zip_leftD)
  moreover have "reference_set_len reference < length flags" using assms by simp
  ultimately show ?thesis
    unfolding hevc_moved_set_def Let_def
    by (intro safe_and_then hevc_moved_side_safe safe_simps) (simp_all add: Un_commute)
qed

lemma any_hevc_flag_pair [any_intros]: "parses any hevc_flag_pair"
  unfolding hevc_flag_pair_def by (intro any_intros)

lemma any_hevc_moved_by [any_intros]: "parses any (hevc_moved_by delta reference)"
  unfolding hevc_moved_by_def
  by (rule parses_bind [OF parses_times [OF any_hevc_flag_pair]], rule any_steps(2)) (simp add: hevc_moved_set_safe)

lemma any_hevc_predicted_set [any_intros]: "parses any (hevc_predicted_set index count sets)"
  unfolding hevc_predicted_set_def by (intro any_intros safe_simps)

lemma any_hevc_set [any_intros]: "parses any (hevc_set_at i n sets)" "parses any (hevc_reference_set n sets)"
  unfolding hevc_reference_set_def hevc_set_at_def by (intro any_intros)+

section \<open>Parts of the syntax\<close>

lemma any_hevc_parts [any_intros]:
  "parses any hevc_ref_count" "parses any (hevc_list_modification n w)" "parses any (hevc_weights_of_list c n)"
  "parses any (hevc_pred_weight_table c a b)" "parses any (hevc_profile_tier_level n)" "parses any hevc_scaling_list_data"
  unfolding hevc_ref_count_def hevc_list_modification_def hevc_weights_of_list_def hevc_pred_weight_table_def
    hevc_profile_tier_level_def hevc_scaling_list_data_def hevc_scaling_list_def
  by (intro any_intros safe_simps)+

lemma any_hevc_sps [any_intros]: "parses any hevc_sps_fields"
  unfolding hevc_sps_fields_def hevc_sps_head_def hevc_sps_sizes_def hevc_block_sizes_def
    hevc_reference_sets_def hevc_long_term_sps_def Let_def
  by (intro any_intros safe_simps) (simp_all split: if_splits)

lemma any_hevc_pps [any_intros]: "parses any hevc_pps_fields"
  unfolding hevc_pps_fields_def hevc_tiles_def hevc_deblocking_def hevc_pps_extension_def
  by (intro any_intros safe_simps)

lemma any_hevc_references [any_intros]: "parses any (hevc_references sps idr)"
  unfolding hevc_references_def hevc_current_set_def hevc_long_term_def hevc_long_term_entry_def Let_def
  by (intro any_intros safe_simps)

lemma any_hevc_slice_fields [any_intros]: "parses any (hevc_slice_fields sps pps idr)"
  unfolding hevc_slice_fields_def hevc_prediction_fields_def hevc_ref_counts_def hevc_slice_deblocking_def Let_def
  by (intro any_intros safe_simps)

lemma any_hevc_slice_header: "parses any (hevc_slice_header params)"
  unfolding hevc_slice_header_def hevc_segment_address_def hevc_entry_points_def hevc_header_extension_def
  by (intro any_intros safe_simps) (simp_all split: if_splits)

section \<open>Parameters\<close>

lemma hevc_update_safe [safe_intros]: "safe (hevc_update params nal)"
  using p_run_safe [OF any_hevc_sps] p_run_safe [OF any_hevc_pps]
  by (auto simp: hevc_update_def hevc_parse_sps_def hevc_parse_pps_def intro!: safe_intros split: option.split)

lemma hevc_take_sets_safe [safe_intros]: "safe (hevc_take_sets n params r)"
  by (induction n arbitrary: params r) (auto intro!: safe_intros)

lemma hevc_take_arrays_safe [safe_intros]: "safe (hevc_take_arrays n params r)"
  by (induction n arbitrary: params r) (auto intro!: safe_intros)

lemma hevc_from_sample_entry_safe [safe_intros]: "safe (hevc_from_sample_entry entry)"
  by (auto simp: hevc_from_sample_entry_def intro!: safe_intros)

section \<open>Clear bytes\<close>

lemma hevc_attempt_safe [safe_intros]: "safe (hevc_attempt params nal limit)"
  using p_run_position_safe [OF any_hevc_slice_header]
  by (auto simp: hevc_attempt_def hevc_header_bits_def intro!: safe_intros)

lemma hevc_clear_bytes_safe [safe_intros]: "safe (hevc_clear_bytes params nal)"
  using hevc_attempt_safe [of params nal SLICE_HEADER_BYTES] hevc_attempt_safe [of params nal LARGE_SLICE_HEADER_BYTES]
  by (auto simp: hevc_clear_bytes_def safe_def split: sum.split fault.split)

lemma hevc_attempt_le: "hevc_attempt params nal limit = ok n \<Longrightarrow> n \<le> min limit (length nal)"
  by (auto simp: hevc_attempt_def and_then_eq_Inr dest!: covering_le)

lemma hevc_clear_bytes_le: "hevc_clear_bytes params nal = ok n \<Longrightarrow> n \<le> length nal"
  by (auto simp: hevc_clear_bytes_def split: sum.splits fault.splits if_splits dest: hevc_attempt_le)

text \<open>The alignment moves the end to a byte boundary past the position.\<close>

lemma hevc_attempt_stable:
  assumes "hevc_attempt params nal limit = ok n" "take n nal' = take n nal" "limit' = limit \<or> n \<le> limit'"
  shows "hevc_attempt params nal' limit' = ok n"
proof -
  obtain pos where pos: "p_run (p_then (hevc_slice_header params) p_position) (rb_bytes (rbsp_new nal limit)) = ok pos"
      "nal_bytes_covering (rbsp_new nal limit) ((pos div 8 + 1) * 8) = Some n"
    using assms(1) by (auto simp: hevc_attempt_def hevc_header_bits_def and_then_eq_Inr)
  note st = covering_stable [OF pos(2) assms(2,3)]
  have "agrees (rb_bytes (rbsp_new nal limit)) (rb_bytes (rbsp_new nal' limit')) pos"
    by (rule agrees_mono [OF st(1)]) presburger
  then have "p_run (p_then (hevc_slice_header params) p_position) (rb_bytes (rbsp_new nal' limit')) = ok pos"
    by (rule p_run_position(2) [OF any_hevc_slice_header pos(1)])
  then show ?thesis using st(2) by (simp add: hevc_attempt_def hevc_header_bits_def)
qed

lemma hevc_clear_bytes_stable:
  assumes "hevc_clear_bytes params nal = ok n" "take n nal' = take n nal" "length nal' = length nal"
  shows "hevc_clear_bytes params nal' = ok n"
proof (cases "hevc_attempt params nal SLICE_HEADER_BYTES")
  case (Inr m)
  then have "hevc_attempt params nal SLICE_HEADER_BYTES = ok n"
    using assms(1) unfolding hevc_clear_bytes_def by simp
  then have "hevc_attempt params nal' SLICE_HEADER_BYTES = ok n"
    by (rule hevc_attempt_stable [OF _ assms(2)]) simp
  then show ?thesis by (simp add: hevc_clear_bytes_def)
next
  case (Inl f)
  obtain e where e: "f = Fail e"
    using Inl hevc_attempt_safe [of params nal SLICE_HEADER_BYTES] by (cases f) (auto simp: safe_def)
  then have f: "f = Fail e" "SLICE_HEADER_BYTES < length nal"
      "hevc_attempt params nal LARGE_SLICE_HEADER_BYTES = ok n"
    using assms(1) unfolding hevc_clear_bytes_def Inl e by (simp_all split: if_splits)
  have large: "hevc_attempt params nal' LARGE_SLICE_HEADER_BYTES = ok n"
    by (rule hevc_attempt_stable [OF f(3) assms(2)]) simp
  have "SLICE_HEADER_BYTES < n"
  proof (rule ccontr)
    assume "\<not> SLICE_HEADER_BYTES < n"
    then have "hevc_attempt params nal SLICE_HEADER_BYTES = ok n"
      by (intro hevc_attempt_stable [OF f(3)]) auto
    then show False using Inl by simp
  qed
  then have "take SLICE_HEADER_BYTES nal' = take SLICE_HEADER_BYTES nal"
    using arg_cong [OF assms(2), of "take SLICE_HEADER_BYTES"] by (simp add: min_def)
  then have "hevc_attempt params nal' SLICE_HEADER_BYTES = hevc_attempt params nal SLICE_HEADER_BYTES"
    by (simp add: hevc_attempt_def rbsp_new_def)
  then show ?thesis using Inl f large assms(3) by (simp add: hevc_clear_bytes_def)
qed

end
