(* ===== verification/Nal_Laws.thy ===== *)
theory Nal_Laws
  imports Nal_Subsamples Avc_Laws Hevc_Laws
begin

text \<open>
  What the walk over a sample's NAL units needs of a codec, as a locale: the bytes of a slice that
  stay clear are at least its first, at most all of them, and do not depend on the bytes behind
  them.  From that follow, for both codecs at once, that the subsamples tile the sample and that
  they are found again in the encrypted sample.
\<close>

section \<open>Clear runs\<close>

fun map_total :: "(nat \<times> nat) list \<Rightarrow> nat" where
  "map_total [] = 0"
| "map_total ((c, p) # m) = c + p + map_total m"

definition map_widths :: "(nat \<times> nat) list \<Rightarrow> bool" where
  "map_widths m \<longleftrightarrow> (\<forall>(c, p) \<in> set m. c < u16_limit \<and> p < u32_limit)"

lemma map_total_append [simp]: "map_total (m @ m') = map_total m + map_total m'"
  by (induction m rule: map_total.induct) auto

text \<open>What the protected ranges of a sample become under a transformation of each.\<close>

fun map_protected :: "(bytes \<Rightarrow> bytes) \<Rightarrow> (nat \<times> nat) list \<Rightarrow> bytes \<Rightarrow> bytes" where
  "map_protected f [] xs = xs"
| "map_protected f ((c, p) # m) xs =
     take c xs @ f (take p (drop c xs)) @ map_protected f m (drop (c + p) xs)"

definition keeps_length :: "(bytes \<Rightarrow> bytes) \<Rightarrow> bool" where
  "keeps_length f \<longleftrightarrow> (\<forall>xs. length (f xs) = length xs)"

lemma keeps_length_Nil [simp]: "keeps_length f \<Longrightarrow> f [] = []"
  unfolding keeps_length_def by (metis length_0_conv)

lemma length_map_protected: "keeps_length f \<Longrightarrow> map_total m \<le> length xs \<Longrightarrow> length (map_protected f m xs) = length xs"
  by (induction f m xs rule: map_protected.induct) (auto simp: keeps_length_def)

lemma map_protected_append:
  "map_total m = length xs \<Longrightarrow> map_protected f (m @ m') (xs @ ys) = map_protected f m xs @ map_protected f m' ys"
  by (induction f m xs rule: map_protected.induct) auto

definition pushed :: "nat \<Rightarrow> nat \<Rightarrow> (nat \<times> nat) list" where
  "pushed clear p = replicate ((clear - 1) div (u16_limit - 1)) (u16_limit - 1, 0)
     @ [(clear - (clear - 1) div (u16_limit - 1) * (u16_limit - 1), p)]"

lemma push_subsample_eq:
  "push_subsample m clear p =
     (if p < u32_limit then ok (m @ pushed clear p) else fail (InvalidMedia ''a slice is larger than 4 GiB''))"
proof (induction m clear p rule: push_subsample.induct)
  case (1 m clear p)
  show ?case
  proof (cases "u16_limit - 1 < clear")
    case True
    let ?q = "(clear - (u16_limit - 1) - 1) div (u16_limit - 1)"
    have q: "(clear - 1) div (u16_limit - 1) = Suc ?q"
      using True le_div_geq [of "u16_limit - 1" "clear - 1"] by simp
    then have "pushed clear p = (u16_limit - 1, 0) # pushed (clear - (u16_limit - 1)) p"
      unfolding pushed_def q using True by (simp add: diff_diff_eq)
    then show ?thesis using 1 True by (subst push_subsample.simps) simp
  next
    case False
    then have "(clear - 1) div (u16_limit - 1) = 0" by simp
    then show ?thesis using False
      by (subst push_subsample.simps) (simp add: pushed_def u32_of_nat_def)
  qed
qed

lemma pushed_total: "map_total (pushed clear p) = clear + p"
proof -
  have t: "map_total (replicate k (c, 0)) = k * c" for k c by (induction k) auto
  have "(clear - 1) div (u16_limit - 1) * (u16_limit - 1) \<le> clear - 1" by (rule div_times_less_eq_dividend)
  then show ?thesis by (simp add: pushed_def t)
qed

lemma pushed_widths: "p < u32_limit \<Longrightarrow> map_widths (pushed clear p)"
proof -
  have "(clear - 1) mod (u16_limit - 1) < u16_limit - 1" by simp
  then have "clear - (clear - 1) div (u16_limit - 1) * (u16_limit - 1) < u16_limit"
    using div_mult_mod_eq [of "clear - 1" "u16_limit - 1"] by linarith
  then show "p < u32_limit \<Longrightarrow> ?thesis" by (auto simp: map_widths_def pushed_def)
qed

lemma map_protected_clear:
  "f [] = [] \<Longrightarrow> k * c \<le> length xs \<Longrightarrow>
     map_protected f (replicate k (c, 0) @ m) xs = take (k * c) xs @ map_protected f m (drop (k * c) xs)"
proof (induction k arbitrary: xs)
  case (Suc k)
  then have "map_protected f (replicate k (c, 0) @ m) (drop c xs)
      = take (k * c) (drop c xs) @ map_protected f m (drop (k * c) (drop c xs))" by (intro Suc.IH) auto
  then show ?case using Suc.prems(1) by (simp add: take_add add.commute)
qed simp

lemma map_protected_pushed:
  assumes "keeps_length f" "length xs = clear + p"
  shows "map_protected f (pushed clear p) xs = take clear xs @ f (drop clear xs)"
proof -
  let ?k = "(clear - 1) div (u16_limit - 1)" and ?c = "u16_limit - 1"
  have le: "?k * ?c \<le> clear" using div_times_less_eq_dividend [of "clear - 1" ?c] by linarith
  then have "map_protected f (pushed clear p) xs
      = take (?k * ?c) xs @ map_protected f [(clear - ?k * ?c, p)] (drop (?k * ?c) xs)"
    unfolding pushed_def using assms by (intro map_protected_clear) auto
  also have "\<dots> = take (?k * ?c) xs @ take (clear - ?k * ?c) (drop (?k * ?c) xs) @ f (drop clear xs)"
    using assms le by simp
  also have "\<dots> = take clear xs @ f (drop clear xs)"
    using take_add [of "?k * ?c" "clear - ?k * ?c" xs] le by simp
  finally show ?thesis .
qed

section \<open>What is protected\<close>

text \<open>The places of a sample that a map protects, and the places that its NAL units leave to protect.\<close>

fun protected_places :: "nat \<Rightarrow> (nat \<times> nat) list \<Rightarrow> nat set" where
  "protected_places at [] = {}"
| "protected_places at ((c, p) # m) = {at + c..<at + c + p} \<union> protected_places (at + c + p) m"

lemma protected_places_append:
  "protected_places at (m @ m') = protected_places at m \<union> protected_places (at + map_total m) m'"
  by (induction at m rule: protected_places.induct) (auto simp: add.assoc)

lemma protected_places_pushed: "protected_places at (pushed clear p) = {at + clear..<at + clear + p}"
proof -
  let ?k = "(clear - 1) div (u16_limit - 1)" and ?c = "u16_limit - 1"
  have le: "?k * ?c \<le> clear" using div_times_less_eq_dividend [of "clear - 1" ?c] by linarith
  have none: "protected_places at (replicate k (c, 0)) = {}" "map_total (replicate k (c, 0)) = k * c" for at k c
    by (induction k arbitrary: at) auto
  have "protected_places at (pushed clear p) = protected_places (at + ?k * ?c) [(clear - ?k * ?c, p)]"
    unfolding pushed_def protected_places_append none by simp
  then show ?thesis using le by (simp add: add.assoc [symmetric])
qed

text \<open>
  A sample as its format gives it: length-prefixed units, of which only slices hold protected bytes,
  and those only behind their header; parameter sets count for the units after them.
\<close>

inductive protectable ::
    "nat \<Rightarrow> (byte \<Rightarrow> bool) \<Rightarrow> (byte \<Rightarrow> bool) \<Rightarrow> ('p \<Rightarrow> bytes \<Rightarrow> nat \<Rightarrow> bool) \<Rightarrow> ('p \<Rightarrow> bytes \<Rightarrow> 'p res)
       \<Rightarrow> 'p \<Rightarrow> nat \<Rightarrow> bytes \<Rightarrow> nat set \<Rightarrow> bool"
  for len_bytes is_slice is_set header update where
  units_end: "protectable len_bytes is_slice is_set header update params at [] {}"
| slice_unit: "protectable len_bytes is_slice is_set header update params at (pre @ nal @ later)
      ({at + len_bytes + n..<at + len_bytes + length nal} \<union> places)"
  if "length pre = len_bytes" "be_value pre = length nal" "nal \<noteq> []" "is_slice (hd nal)" "header params nal n"
     "protectable len_bytes is_slice is_set header update params (at + len_bytes + length nal) later places"
| set_unit: "protectable len_bytes is_slice is_set header update params at (pre @ nal @ later) places"
  if "length pre = len_bytes" "be_value pre = length nal" "nal \<noteq> []" "is_set (hd nal)" "update params nal = ok params'"
     "protectable len_bytes is_slice is_set header update params' (at + len_bytes + length nal) later places"
| other_unit: "protectable len_bytes is_slice is_set header update params at (pre @ nal @ later) places"
  if "length pre = len_bytes" "be_value pre = length nal" "nal \<noteq> []" "\<not> is_slice (hd nal)" "\<not> is_set (hd nal)"
     "protectable len_bytes is_slice is_set header update params (at + len_bytes + length nal) later places"

lemma protectable_mono:
  assumes "\<And>q nal n. header q nal n \<Longrightarrow> header' q nal n"
  shows "protectable len_bytes is_slice is_set header update params at data places \<Longrightarrow>
    protectable len_bytes is_slice is_set header' update params at data places"
  by (induction rule: protectable.induct) (auto intro: protectable.intros assms)

section \<open>The contract of a codec\<close>

locale slice_codec =
  fixes length_size :: "'p \<Rightarrow> nat"
    and class_of :: "byte \<Rightarrow> nal_class"
    and clear_bytes :: "'p \<Rightarrow> bytes \<Rightarrow> nat res"
    and update :: "'p \<Rightarrow> bytes \<Rightarrow> 'p res"
  assumes clear_safe: "safe (clear_bytes p nal)"
    and update_safe: "safe (update p nal)"
    and clear_bounds: "clear_bytes p nal = ok n \<Longrightarrow> 0 < n \<and> n \<le> length nal"
    and clear_stable: "clear_bytes p nal = ok n \<Longrightarrow> take n nal' = take n nal \<Longrightarrow>
      length nal' = length nal \<Longrightarrow> clear_bytes p nal' = ok n"
begin

abbreviation walk :: "'p \<Rightarrow> 'p option \<Rightarrow> (nat \<times> nat) list \<Rightarrow> nat \<Rightarrow> bytes \<Rightarrow> ((nat \<times> nat) list \<times> nat) res" where
  "walk p \<equiv> subsample_walk (length_size p) class_of clear_bytes update p"

abbreviation current :: "'p \<Rightarrow> 'p option \<Rightarrow> 'p" where
  "current p in_band \<equiv> (case in_band of Some q \<Rightarrow> q | None \<Rightarrow> p)"

text \<open>One NAL unit of a sample, taken whole.\<close>

definition unit_at :: "'p \<Rightarrow> bytes \<Rightarrow> bytes \<Rightarrow> bool" where
  "unit_at p pre nal \<longleftrightarrow> length pre = length_size p \<and> be_value pre = length nal \<and> nal \<noteq> []"

lemma walk_Nil [simp]: "walk p in_band m clear [] = ok (m, clear)"
  by (simp add: subsample_walk.simps)

lemma walk_unit:
  assumes "unit_at p pre nal" "length nal < u64_limit"
  shows "walk p in_band m clear (pre @ nal @ later) =
     (case class_of (hd nal) of
        Slice_Unit \<Rightarrow>
          and_then (clear_bytes (current p in_band) nal) (\<lambda>n.
          if length nal - n < u32_limit
          then walk p in_band (m @ pushed (clear + length pre + n) (length nal - n)) 0 later
          else fail (InvalidMedia ''a slice is larger than 4 GiB''))
      | Refused_Unit e \<Rightarrow> fail e
      | Parameter_Unit \<Rightarrow>
          and_then (update (current p in_band) nal) (\<lambda>q.
            walk p (Some q) m (clear + (length pre + length nal)) later)
      | Other_Unit \<Rightarrow> walk p in_band m (clear + (length pre + length nal)) later)"
proof -
  let ?rest = "pre @ nal @ later"
  have u: "length pre = length_size p" "be_value pre = length nal" "nal \<noteq> []" using assms by (auto simp: unit_at_def)
  have "get_slice ?rest 0 (length_size p) = Some pre" "get_slice ?rest (length_size p) (length_size p + length nal) = Some nal"
    using u(1) by (auto simp: get_slice_def subslice_def)
  moreover have "get_at nal 0 = Some (hd nal)" using u(3) by (simp add: get_at_def hd_conv_nth)
  moreover have "drop (length_size p + length nal) ?rest = later" using u(1) by simp
  moreover have "wsub64 (length nal) n = length nal - n" if "clear_bytes q nal = ok n" for q n
    using clear_bounds [OF that] assms(2) by simp
  ultimately show ?thesis
    using u by (subst subsample_walk.simps)
      (auto simp: push_subsample_eq and_then_def split: nal_class.split sum.split)
qed

lemma walk_parts:
  assumes "walk p in_band m clear rest = ok r" "rest \<noteq> []"
  obtains pre nal later where "rest = pre @ nal @ later" "unit_at p pre nal"
proof -
  obtain pre nal where "get_slice rest 0 (length_size p) = Some pre"
    "get_slice rest (length_size p) (length_size p + be_value pre) = Some nal" "nal \<noteq> []"
    using assms by (subst (asm) subsample_walk.simps) (auto simp: and_then_eq_Inr get_at_eq_Some)
  then have "rest = pre @ nal @ drop (length_size p + be_value pre) rest \<and> unit_at p pre nal"
    by (auto simp: get_slice_eq_Some subslice_def unit_at_def take_add)
      (metis append_take_drop_id drop_drop add.commute)
  then show thesis using that by blast
qed

lemma walk_safe: "safe (walk p in_band m clear rest)"
proof (induction "length rest" arbitrary: in_band m clear rest rule: less_induct)
  case less
  have "safe (walk p b m' c (drop (length_size p + be_value pre) rest))"
    if "rest \<noteq> []" "get_slice rest (length_size p) (length_size p + be_value pre) = Some nal" "get_at nal 0 = Some h"
    for b m' c pre nal h
    using that by (intro less) (auto simp: get_slice_def get_at_def subslice_def split: if_splits)
  then show ?case
    using clear_safe update_safe
    by (subst subsample_walk.simps) (auto simp: push_subsample_eq intro!: safe_and_then split: nal_class.split)
qed

text \<open>What a walk has found of a sample, and what it finds once the protected ranges are changed.\<close>

definition found :: "'p \<Rightarrow> 'p option \<Rightarrow> nat \<Rightarrow> bytes \<Rightarrow> (nat \<times> nat) list \<Rightarrow> nat \<Rightarrow> bool" where
  "found p in_band c0 rest new c1 \<longleftrightarrow> map_total new + c1 = c0 + length rest \<and> map_widths new
     \<and> (\<forall>f before_rest. keeps_length f \<and> length before_rest = c0 \<longrightarrow>
          (\<exists>rest'. map_protected f new (before_rest @ rest) = before_rest @ rest' \<and> length rest' = length rest
            \<and> (\<forall>m. walk p in_band m c0 rest' = ok (m @ new, c1))))"

lemma foundI:
  assumes "map_total new + c1 = c0 + length rest" "map_widths new"
    and "\<And>f before_rest. keeps_length f \<Longrightarrow> length before_rest = c0 \<Longrightarrow>
      \<exists>rest'. map_protected f new (before_rest @ rest) = before_rest @ rest' \<and> length rest' = length rest
        \<and> (\<forall>m. walk p in_band m c0 rest' = ok (m @ new, c1))"
  shows "found p in_band c0 rest new c1"
  using assms by (simp add: found_def)

lemma foundE:
  assumes "found p in_band c0 rest new c1" "keeps_length f" "length before_rest = c0"
  obtains rest' where "map_protected f new (before_rest @ rest) = before_rest @ rest'" "length rest' = length rest"
    "\<And>m. walk p in_band m c0 rest' = ok (m @ new, c1)"
  using assms unfolding found_def by blast

lemma found_slice:
  assumes u: "unit_at p pre nal" "class_of (hd nal) = Slice_Unit" "length nal < u64_limit"
    and n: "clear_bytes (current p in_band) nal = ok n" "length nal - n < u32_limit"
    and later: "found p in_band 0 later new c1"
  shows "found p in_band c0 (pre @ nal @ later) (pushed (c0 + length pre + n) (length nal - n) @ new) c1"
proof (rule foundI)
  have le: "0 < n" "n \<le> length nal" using clear_bounds [OF n(1)] by auto
  show "map_total (pushed (c0 + length pre + n) (length nal - n) @ new) + c1 = c0 + length (pre @ nal @ later)"
    using later le by (simp add: pushed_total found_def)
  show "map_widths (pushed (c0 + length pre + n) (length nal - n) @ new)"
    using later pushed_widths [OF n(2)] by (auto simp: found_def map_widths_def)
  fix f and before_rest :: bytes assume f: "keeps_length f" "length before_rest = c0"
  obtain later' where l: "map_protected f new ([] @ later) = [] @ later'" "length later' = length later"
    "\<And>m. walk p in_band m 0 later' = ok (m @ new, c1)" by (rule foundE [OF later f(1)]) auto
  let ?nal = "take n nal @ f (drop n nal)"
  have len: "length ?nal = length nal" using f(1) le by (simp add: keeps_length_def)
  have "map_protected f (pushed (c0 + length pre + n) (length nal - n) @ new) ((before_rest @ pre @ nal) @ later)
      = map_protected f (pushed (c0 + length pre + n) (length nal - n)) (before_rest @ pre @ nal) @ later'"
    using l(1) f(2) le by (subst map_protected_append) (simp_all add: pushed_total)
  also have "map_protected f (pushed (c0 + length pre + n) (length nal - n)) (before_rest @ pre @ nal)
      = before_rest @ pre @ ?nal"
    using f le by (subst map_protected_pushed) auto
  finally have eq: "map_protected f (pushed (c0 + length pre + n) (length nal - n) @ new) (before_rest @ pre @ nal @ later)
      = before_rest @ pre @ ?nal @ later'" by simp
  have "?nal \<noteq> []" using len u(1) by (auto simp: unit_at_def)
  then have u': "unit_at p pre ?nal" using u(1) len by (simp add: unit_at_def)
  have "take n ?nal = take n nal" using le by simp
  then have n': "clear_bytes (current p in_band) ?nal = ok n"
    using clear_stable [OF n(1) _ len] by blast
  have "hd ?nal = hd nal" using le by (cases nal; cases n) auto
  then have "walk p in_band m c0 (pre @ ?nal @ later')
      = ok (m @ pushed (c0 + length pre + n) (length nal - n) @ new, c1)" for m
    using walk_unit [OF u', of in_band m c0 later'] u(2,3) n' n(2) len l(3) by simp
  then show "\<exists>rest'. map_protected f (pushed (c0 + length pre + n) (length nal - n) @ new) (before_rest @ pre @ nal @ later)
        = before_rest @ rest' \<and> length rest' = length (pre @ nal @ later)
      \<and> (\<forall>m. walk p in_band m c0 rest' = ok (m @ pushed (c0 + length pre + n) (length nal - n) @ new, c1))"
    using eq len l(2) by (intro exI [of _ "pre @ ?nal @ later'"]) simp
qed

lemma found_other:
  assumes u: "unit_at p pre nal" "length nal < u64_limit"
    and step: "\<And>m later. walk p in_band m c0 (pre @ nal @ later) = walk p in_band' m (c0 + (length pre + length nal)) later"
    and later: "found p in_band' (c0 + (length pre + length nal)) later new c1"
  shows "found p in_band c0 (pre @ nal @ later) new c1"
proof (rule foundI)
  show "map_total new + c1 = c0 + length (pre @ nal @ later)" "map_widths new" using later by (auto simp: found_def)
  fix f and before_rest :: bytes assume f: "keeps_length f" "length before_rest = c0"
  obtain later' where "map_protected f new ((before_rest @ pre @ nal) @ later) = (before_rest @ pre @ nal) @ later'"
    "length later' = length later" "\<And>m. walk p in_band' m (c0 + (length pre + length nal)) later' = ok (m @ new, c1)"
    by (rule foundE [OF later f(1), of "before_rest @ pre @ nal"]) (use f(2) in auto)
  then show "\<exists>rest'. map_protected f new (before_rest @ pre @ nal @ later) = before_rest @ rest'
      \<and> length rest' = length (pre @ nal @ later) \<and> (\<forall>m. walk p in_band m c0 rest' = ok (m @ new, c1))"
    using step by (intro exI [of _ "pre @ nal @ later'"]) simp
qed

lemma walk_found:
  assumes "walk p in_band m c0 rest = ok (m', c1)" "length rest < u64_limit"
  shows "\<exists>new. m' = m @ new \<and> found p in_band c0 rest new c1"
  using assms
proof (induction "length rest" arbitrary: in_band m c0 rest rule: less_induct)
  case less
  show ?case
  proof (cases "rest = []")
    case True
    then show ?thesis using less.prems by (auto simp: found_def map_widths_def)
  next
    case False
    obtain pre nal later where parts: "rest = pre @ nal @ later" and u: "unit_at p pre nal"
      by (rule walk_parts [OF less.prems(1) False])
    have len: "length nal < u64_limit" "length later < u64_limit" "length later < length rest"
      using less.prems(2) u parts by (auto simp: unit_at_def)
    note step = walk_unit [OF u len(1)]
    have r: "walk p in_band m c0 (pre @ nal @ later) = ok (m', c1)" using less.prems(1) parts by simp
    show ?thesis
    proof (cases "class_of (hd nal)")
      case Slice_Unit
      then obtain n where n: "clear_bytes (current p in_band) nal = ok n" "length nal - n < u32_limit"
        "walk p in_band (m @ pushed (c0 + length pre + n) (length nal - n)) 0 later = ok (m', c1)"
        using r unfolding step by (auto simp: and_then_eq_Inr split: if_splits)
      then obtain new where "m' = (m @ pushed (c0 + length pre + n) (length nal - n)) @ new" "found p in_band 0 later new c1"
        using less.hyps [OF len(3) n(3) len(2)] by blast
      then show ?thesis using found_slice [OF u Slice_Unit len(1) n(1,2)] parts by auto
    next
      case Parameter_Unit
      then obtain q where q: "update (current p in_band) nal = ok q"
        "walk p (Some q) m (c0 + (length pre + length nal)) later = ok (m', c1)"
        using r unfolding step by (auto simp: and_then_eq_Inr)
      have "walk p in_band k c0 (pre @ nal @ l) = walk p (Some q) k (c0 + (length pre + length nal)) l" for k l
        unfolding step using Parameter_Unit q(1) by simp
      then show ?thesis
        using less.hyps [OF len(3) q(2) len(2)] found_other [OF u len(1)] parts by blast
    next
      case (Refused_Unit e)
      then show ?thesis using r unfolding step by simp
    next
      case Other_Unit
      then have step': "walk p in_band k c0 (pre @ nal @ l) = walk p in_band k (c0 + (length pre + length nal)) l" for k l
        unfolding step by simp
      then show ?thesis
        using r less.hyps [OF len(3) _ len(2)] found_other [OF u len(1)] parts by metis
    qed
  qed
qed

abbreviation leaves :: "'p \<Rightarrow> 'p \<Rightarrow> nat \<Rightarrow> bytes \<Rightarrow> nat set \<Rightarrow> bool" where
  "leaves p \<equiv> protectable (length_size p) (\<lambda>h. class_of h = Slice_Unit) (\<lambda>h. class_of h = Parameter_Unit)
     (\<lambda>q nal n. clear_bytes q nal = ok n) update"

text \<open>What the walk protects is what the units of the sample leave to protect.\<close>

lemma walk_protects:
  assumes "walk p in_band m c0 rest = ok (m', c1)" "length rest < u64_limit"
  shows "\<exists>places. protected_places 0 m' = protected_places 0 m \<union> places
    \<and> leaves p (current p in_band) (map_total m + c0) rest places"
  using assms
proof (induction "length rest" arbitrary: in_band m c0 rest rule: less_induct)
  case less
  show ?case
  proof (cases "rest = []")
    case True
    then show ?thesis using less.prems by (auto intro: units_end)
  next
    case False
    obtain pre nal later where parts: "rest = pre @ nal @ later" and u: "unit_at p pre nal"
      by (rule walk_parts [OF less.prems(1) False])
    have unit: "length pre = length_size p" "be_value pre = length nal" "nal \<noteq> []" using u by (auto simp: unit_at_def)
    have len: "length nal < u64_limit" "length later < u64_limit" "length later < length rest"
      using less.prems(2) u parts by (auto simp: unit_at_def)
    note step = walk_unit [OF u len(1)]
    have r: "walk p in_band m c0 (pre @ nal @ later) = ok (m', c1)" using less.prems(1) parts by simp
    show ?thesis
    proof (cases "class_of (hd nal)")
      case Slice_Unit
      then obtain n where n: "clear_bytes (current p in_band) nal = ok n"
        "walk p in_band (m @ pushed (c0 + length pre + n) (length nal - n)) 0 later = ok (m', c1)"
        using r unfolding step by (auto simp: and_then_eq_Inr split: if_splits)
      have le: "n \<le> length nal" using clear_bounds [OF n(1)] by auto
      let ?m = "m @ pushed (c0 + length pre + n) (length nal - n)"
      obtain places where IH: "protected_places 0 m' = protected_places 0 ?m \<union> places"
          "leaves p (current p in_band) (map_total ?m + 0) later places"
        using less.hyps [OF len(3) n(2) len(2)] by blast
      have at: "map_total ?m + 0 = map_total m + c0 + length_size p + length nal"
        using le unit(1) by (simp add: pushed_total)
      let ?at = "map_total m + c0"
      have "leaves p (current p in_band) ?at (pre @ nal @ later)
          ({?at + length_size p + n..<?at + length_size p + length nal} \<union> places)"
        by (rule slice_unit) (use unit Slice_Unit n(1) IH(2) [unfolded at] in auto)
      moreover have "protected_places 0 m' = protected_places 0 m
          \<union> ({?at + length_size p + n..<?at + length_size p + length nal} \<union> places)"
        using IH(1) le unit(1) by (simp add: protected_places_append protected_places_pushed ac_simps)
      ultimately show ?thesis unfolding parts by blast
    next
      case Parameter_Unit
      then obtain q where q: "update (current p in_band) nal = ok q"
        "walk p (Some q) m (c0 + (length pre + length nal)) later = ok (m', c1)"
        using r unfolding step by (auto simp: and_then_eq_Inr)
      obtain places where IH: "protected_places 0 m' = protected_places 0 m \<union> places"
          "leaves p q (map_total m + (c0 + (length pre + length nal))) later places"
        using less.hyps [OF len(3) q(2) len(2)] by auto
      have "leaves p (current p in_band) (map_total m + c0) (pre @ nal @ later) places"
        by (rule set_unit [where params' = q]) (use unit Parameter_Unit q(1) IH(2) in \<open>simp_all add: ac_simps\<close>)
      then show ?thesis unfolding parts using IH(1) by blast
    next
      case (Refused_Unit e)
      then show ?thesis using r unfolding step by simp
    next
      case Other_Unit
      then have "walk p in_band m (c0 + (length pre + length nal)) later = ok (m', c1)" using r unfolding step by simp
      from less.hyps [OF len(3) this len(2)] obtain places where IH:
          "protected_places 0 m' = protected_places 0 m \<union> places"
          "leaves p (current p in_band) (map_total m + (c0 + (length pre + length nal))) later places"
        by blast
      have "leaves p (current p in_band) (map_total m + c0) (pre @ nal @ later) places"
        by (rule other_unit) (use unit Other_Unit IH(2) in \<open>simp_all add: ac_simps\<close>)
      then show ?thesis unfolding parts using IH(1) by blast
    qed
  qed
qed

lemma subsamples_protect:
  assumes "and_then (walk p None [] 0 data) close_subsamples = ok m" "length data < u64_limit"
  shows "protectable (length_size p) (\<lambda>h. class_of h = Slice_Unit) (\<lambda>h. class_of h = Parameter_Unit)
        (\<lambda>q nal n. clear_bytes q nal = ok n) update p 0 data (protected_places 0 m)"
proof -
  obtain m0 c where w: "walk p None [] 0 data = ok (m0, c)" "close_subsamples (m0, c) = ok m"
    using assms(1) by (auto simp: and_then_eq_Inr)
  have "protected_places 0 m = protected_places 0 m0"
    using w(2) by (auto simp: close_subsamples_def push_subsample_eq protected_places_append protected_places_pushed
        split: if_splits)
  then show ?thesis using walk_protects [OF w(1) assms(2)] by simp
qed

text \<open>The whole of a sample's map.\<close>

abbreviation subsamples :: "'p \<Rightarrow> bytes \<Rightarrow> (nat \<times> nat) list res" where
  "subsamples p data \<equiv> and_then (walk p None [] 0 data) close_subsamples"

lemma subsamples_safe: "safe (subsamples p data)"
  using walk_safe by (auto simp: close_subsamples_def push_subsample_eq intro!: safe_and_then split: if_split)

lemma subsamples_ok:
  assumes "subsamples p data = ok m" "length data < u64_limit"
  shows "map_total m = length data" "map_widths m" "length m \<le> MAX_SUBSAMPLES"
    "keeps_length f \<Longrightarrow> subsamples p (map_protected f m data) = ok m"
proof -
  obtain m0 c where w: "walk p None [] 0 data = ok (m0, c)" "close_subsamples (m0, c) = ok m"
    using assms(1) by (auto simp: and_then_eq_Inr)
  obtain new where new: "m0 = [] @ new" "found p None 0 data new c" using walk_found [OF w(1) assms(2)] by blast
  have m: "m = (if 0 < c then m0 @ pushed c 0 else m0)" "length m \<le> MAX_SUBSAMPLES"
    using w(2) by (auto simp: close_subsamples_def push_subsample_eq split: if_splits)
  show "length m \<le> MAX_SUBSAMPLES" by (rule m(2))
  show total: "map_total m = length data" using new m(1) by (auto simp: found_def pushed_total)
  show "map_widths m" using new m(1) pushed_widths [of 0 c] by (auto simp: found_def map_widths_def)
  assume f: "keeps_length f"
  obtain data' where d: "map_protected f m0 data = data'" "length data' = length data"
      "\<And>k. walk p None k 0 data' = ok (k @ m0, c)"
    by (rule foundE [OF new(2) f, of "[]"]) (use new(1) in auto)
  have "map_protected f m data = data'"
  proof (cases "0 < c")
    case True
    have "map_total m0 + c = length data" using new by (simp add: found_def)
    then have split: "data = take (map_total m0) data @ drop (map_total m0) data" and l: "length (take (map_total m0) data) = map_total m0"
      "length (drop (map_total m0) data) = c + 0" by auto
    have "map_protected f m0 data = map_protected f m0 (take (map_total m0) data) @ drop (map_total m0) data"
      using map_protected_append [of m0 "take (map_total m0) data" f "[]" "drop (map_total m0) data"] l split by simp
    moreover have "map_protected f m data = map_protected f m0 (take (map_total m0) data) @ drop (map_total m0) data"
      using map_protected_append [of m0 "take (map_total m0) data" f "pushed c 0" "drop (map_total m0) data"] l split
        map_protected_pushed [OF f l(2)] f m(1) True by simp
    ultimately show ?thesis using d(1) by simp
  qed (use m(1) d(1) in simp)
  then show "subsamples p (map_protected f m data) = ok m"
    using d(3) [of "[]"] w(2) by simp
qed

end

section \<open>Both codecs keep the contract\<close>

lemma position_after_skip:
  assumes "parses any q" "p_run (p_then (p_then (skip_bits 1) q) p_position) d = ok n"
  shows "0 < n"
proof -
  obtain r1 x r2 where r: "skip_bits 1 (at_bit d 0) = ok ((), r1)" "q r1 = ok (x, r2)" "n = br_bit r2"
    using assms(2) by (auto simp: p_run_def p_then_def p_bind_def p_position_def and_then_eq_Inr)
  then have "r1 = at_bit d 1" "1 \<le> 8 * length d"
    by (auto simp: skip_bits_def and_then_eq_Inr Suc_le_eq split: if_splits)
  with parsesE [OF assms(1), of d 1] r(2,3) show ?thesis by fastforce
qed

lemma covering_positive: "nal_bytes_covering s bits = Some n \<Longrightarrow> 0 < bits \<Longrightarrow> 0 < n"
  by (auto simp: nal_bytes_covering_def)

lemma avc_clear_bytes_positive: "avc_clear_bytes params nal = ok n \<Longrightarrow> 0 < n"
proof -
  assume "avc_clear_bytes params nal = ok n"
  then obtain bits where bits: "avc_header_bits params nal = ok bits"
      "nal_bytes_covering (rbsp_new nal MAX_SLICE_HEADER_BYTES) bits = Some n"
    by (auto simp: avc_clear_bytes_def and_then_eq_Inr)
  have "\<exists>tail. avc_slice_header params = p_then (skip_bits 1) tail \<and> parses any tail"
    by (rule exI, rule conjI, rule avc_slice_header_def,
        unfold avc_slice_fields_def avc_poc_slice_fields_def avc_ref_counts_def, intro any_intros safe_simps)
  then have "0 < bits" using bits(1) position_after_skip unfolding avc_header_bits_def by metis
  then show ?thesis by (rule covering_positive [OF bits(2)])
qed

lemma hevc_clear_bytes_positive: "hevc_clear_bytes params nal = ok n \<Longrightarrow> 0 < n"
proof -
  have "0 < m" if "hevc_attempt params nal limit = ok m" for limit m
    using that covering_positive by (fastforce simp: hevc_attempt_def hevc_header_bits_def and_then_eq_Inr)
  then show "hevc_clear_bytes params nal = ok n \<Longrightarrow> ?thesis"
    by (auto simp: hevc_clear_bytes_def split: sum.splits fault.splits if_splits)
qed

interpretation avc: slice_codec av_nal_length_size avc_class avc_clear_bytes avc_update
  by unfold_locales
    (auto intro: avc_clear_bytes_safe avc_update_safe avc_clear_bytes_le avc_clear_bytes_positive avc_clear_bytes_stable)

interpretation hevc: slice_codec hv_nal_length_size hevc_class hevc_clear_bytes hevc_update
  by unfold_locales
    (auto intro: hevc_clear_bytes_safe hevc_update_safe hevc_clear_bytes_le hevc_clear_bytes_positive hevc_clear_bytes_stable)

lemma avc_subsamples_eq: "avc_subsamples params data = avc.subsamples params data"
  by (simp add: avc_subsamples_def)

lemma hevc_subsamples_eq: "hevc_subsamples params data = hevc.subsamples params data"
  by (simp add: hevc_subsamples_def)

lemma avc_class_is:
  "(avc_class h = Slice_Unit) = (unat (and h 0x1f) \<in> {1, 5})"
  "(avc_class h = Parameter_Unit) = (unat (and h 0x1f) \<in> {7, 8})"
  by (auto simp: avc_class_def Let_def)

section \<open>Properties\<close>

text \<open>
  C34 The subsamples of an H.264 sample are found without a panic; they cover the sample exactly, each
  fits its fields and no more than \<^verbatim>\<open>saiz\<close> can describe.  The bytes they protect are exactly those
  behind the header of each slice, up to the end of its NAL unit: the NAL lengths, the units that are
  not slices (types other than 1 and 5) and every byte a slice header needs stay clear, a header being
  read under the parameter sets (types 7 and 8) that the sample itself has brought by then, and needing
  the fewest bytes that give it.  And changing the protected bytes, as encryption does, leaves the map
  what it was, so that it is found again in the encrypted sample.
\<close>

theorem avc_subsamples_cover:
  assumes "length data < u64_limit"
  shows "case avc_subsamples params data of
     Inl e \<Rightarrow> e \<noteq> Panic
   | Inr m \<Rightarrow> map_total m = length data \<and> length m \<le> MAX_SUBSAMPLES
       \<and> (\<forall>(c, p) \<in> set m. c < u16_limit \<and> p < u32_limit)
       \<and> protectable (av_nal_length_size params) (\<lambda>h. unat (and h 0x1f) \<in> {1, 5}) (\<lambda>h. unat (and h 0x1f) \<in> {7, 8})
           avc_header_fills avc_update params 0 data (protected_places 0 m)
       \<and> (\<forall>f. keeps_length f \<longrightarrow> avc_subsamples params (map_protected f m data) = ok m)"
proof (cases "avc_subsamples params data")
  case (Inl e)
  then show ?thesis using avc.subsamples_safe [of params data] by (auto simp: avc_subsamples_eq safe_def)
next
  case (Inr m)
  then have m: "avc.subsamples params data = ok m" by (simp add: avc_subsamples_eq)
  have "protectable (av_nal_length_size params) (\<lambda>h. unat (and h 0x1f) \<in> {1, 5}) (\<lambda>h. unat (and h 0x1f) \<in> {7, 8})
      avc_header_fills avc_update params 0 data (protected_places 0 m)"
    unfolding avc_class_is [symmetric]
    by (rule protectable_mono [OF _ avc.subsamples_protect [OF m assms]])
      (use avc_clear_bytes_fill avc_clear_bytes_positive in blast)
  then show ?thesis
    using avc.subsamples_ok [OF m assms] unfolding Inr by (simp add: avc_subsamples_eq map_widths_def)
qed

text \<open>
  The same of an H.265 sample, whose slice headers are looked for in two attempts.
\<close>

theorem hevc_subsamples_cover:
  assumes "length data < u64_limit"
  shows "case hevc_subsamples params data of
     Inl e \<Rightarrow> e \<noteq> Panic
   | Inr m \<Rightarrow> map_total m = length data \<and> length m \<le> MAX_SUBSAMPLES
       \<and> (\<forall>(c, p) \<in> set m. c < u16_limit \<and> p < u32_limit)
       \<and> (\<forall>f. keeps_length f \<longrightarrow> hevc_subsamples params (map_protected f m data) = ok m)"
  using hevc.subsamples_safe [of params data] hevc.subsamples_ok [OF _ assms, of params]
  by (auto simp: hevc_subsamples_eq safe_def map_widths_def split: sum.split)

text \<open>
  One H.264 and one H.265 sample: an intra slice whose header is found, and found again when the
  bytes behind it are changed.
\<close>

definition example_avc :: avc_parameters where
  "example_avc = \<lparr>av_nal_length_size = 4,
     av_sps = [0 \<mapsto> \<lparr>as_chroma_array_type = 1, as_separate_colour_plane = False, as_log2_max_frame_num = 4,
       as_poc_type = 2, as_log2_max_poc_lsb = 0, as_delta_pic_order_always_zero = False, as_frame_mbs_only = True\<rparr>],
     av_pps = [0 \<mapsto> \<lparr>ap_sps_id = 0, ap_entropy_coding = False,
       ap_bottom_field_pic_order_in_frame_present = False, ap_num_ref_idx_l0_default = 1,
       ap_num_ref_idx_l1_default = 1, ap_weighted_pred = False, ap_weighted_bipred_idc = 0,
       ap_deblocking_filter_control_present = False, ap_redundant_pic_cnt_present = False\<rparr>]\<rparr>"

definition example_avc_sample :: bytes where
  "example_avc_sample = [0, 0, 0, 2, 9, 16, 0, 0, 0, 8, 0x65, 0x88, 0x84, 0x80, 1, 2, 3, 4]"

definition example_hevc :: hevc_parameters where
  "example_hevc = \<lparr>hv_nal_length_size = 4,
     hv_sps = [0 \<mapsto> \<lparr>hs_chroma_array_type = 1, hs_separate_colour_plane = False, hs_pic_size_in_ctbs = 40,
       hs_log2_max_poc_lsb = 8, hs_sample_adaptive_offset = False, hs_reference_sets = [],
       hs_long_term_present = False, hs_long_term_used = [], hs_temporal_mvp = False\<rparr>],
     hv_pps = [0 \<mapsto> \<lparr>hp_sps_id = 0, hp_dependent_slice_segments = False, hp_output_flag_present = False,
       hp_extra_slice_header_bits = 0, hp_cabac_init_present = False, hp_num_ref_idx_l0_default = 1,
       hp_num_ref_idx_l1_default = 1, hp_weighted_pred = False, hp_weighted_bipred = False,
       hp_slice_chroma_qp_offsets_present = False, hp_chroma_qp_offset_list_enabled = False,
       hp_deblocking_override_enabled = False, hp_deblocking_disabled = False,
       hp_loop_filter_across_slices = False, hp_lists_modification_present = False,
       hp_entry_points = False, hp_header_extension_present = False\<rparr>]\<rparr>"

definition example_hevc_sample :: bytes where
  "example_hevc_sample = [0, 0, 0, 6, 0x26, 1, 0xAF, 1, 2, 3]"

lemma example_maps:
  "avc_subsamples example_avc example_avc_sample = ok [(14, 4)]"
  "hevc_subsamples example_hevc example_hevc_sample = ok [(7, 3)]"
  by code_simp+

lemma rev_keeps_length: "keeps_length rev"
  by (simp add: keeps_length_def)

theorem avc_subsamples_cover_witness:
  "avc_subsamples example_avc example_avc_sample = ok [(14, 4)]
   \<and> avc_subsamples example_avc (map_protected rev [(14, 4)] example_avc_sample) = ok [(14, 4)]
   \<and> map_total [(14, 4)] = length example_avc_sample
   \<and> protectable 4 (\<lambda>h. unat (and h 0x1f) \<in> {1, 5}) (\<lambda>h. unat (and h 0x1f) \<in> {7, 8})
       avc_header_fills avc_update example_avc 0 example_avc_sample {14..<18}"
proof -
  have "length example_avc_sample < u64_limit" by (simp add: example_avc_sample_def)
  from avc_subsamples_cover [OF this, of example_avc] show ?thesis
    using example_maps(1) rev_keeps_length by (auto simp: example_avc_def)
qed

theorem hevc_subsamples_cover_witness:
  "hevc_subsamples example_hevc example_hevc_sample = ok [(7, 3)]
   \<and> hevc_subsamples example_hevc (map_protected rev [(7, 3)] example_hevc_sample) = ok [(7, 3)]
   \<and> map_total [(7, 3)] = length example_hevc_sample"
proof -
  have "length example_hevc_sample < u64_limit" by (simp add: example_hevc_sample_def)
  from hevc_subsamples_cover [OF this, of example_hevc] show ?thesis
    using example_maps(2) rev_keeps_length by auto
qed

end
