(* ===== verification/Sample_Cipher.thy ===== *)
theory Sample_Cipher
  imports Media_Index Mp4_Boxes
begin

text \<open>
  Encrypting and decrypting bytes: the \<^verbatim>\<open>cbcs\<close> pattern (\<^verbatim>\<open>src/src/cenc/cipher.rs\<close>), whole segments
  as one message (\<^verbatim>\<open>src/src/cenc/aes128.rs\<close>), and the four schemes undone on one sample
  (\<^verbatim>\<open>src/src/cenc/source.rs\<close>).  AES is not part of the repository: the block cipher under a key is a
  parameter, \<open>E\<close> to encrypt a block and \<open>D\<close> to decrypt one.
\<close>

section \<open>Blocks\<close>

definition xor_bytes :: "bytes \<Rightarrow> bytes \<Rightarrow> bytes" where
  "xor_bytes xs ys = map2 (\<lambda>x y. xor x y) xs ys"

text \<open>
  The loop over the whole 16-byte blocks of a range (\<open>as_chunks_mut\<close>): the selected ones go through
  a step that also carries a state, the others and the bytes after the last block stay.
\<close>

function block_loop ::
    "(nat \<Rightarrow> bool) \<Rightarrow> ('s \<Rightarrow> bytes \<Rightarrow> bytes \<times> 's) \<Rightarrow> nat \<Rightarrow> 's \<Rightarrow> bytes \<Rightarrow> bytes \<times> 's" where
  "block_loop select step index s data =
     (if length data < 16 then (data, s)
      else
        (let (out, s1) = (if select index then step s (take 16 data) else (take 16 data, s));
             (rest, s2) = block_loop select step (Suc index) s1 (drop 16 data)
         in (out @ rest, s2)))"
  by pat_completeness auto
termination by (relation "measure (\<lambda>(sel, f, i, s, data). length data)") auto

declare block_loop.simps [simp del]

section \<open>The pattern\<close>

record pattern =
  pt_crypt :: nat
  pt_skip :: nat

definition VIDEO_PATTERN :: pattern where
  "VIDEO_PATTERN = \<lparr>pt_crypt = 1, pt_skip = 9\<rparr>"

definition FULL_PATTERN :: pattern where
  "FULL_PATTERN = \<lparr>pt_crypt = 0, pt_skip = 0\<rparr>"

definition encrypts_block :: "pattern \<Rightarrow> nat \<Rightarrow> bool" where
  "encrypts_block p index =
     (let crypt = pt_crypt p; period = crypt + pt_skip p in
      \<not> (period \<noteq> 0 \<and> crypt \<le> index mod period))"

text \<open>One block of the chain: the block XOR the last ciphertext, encrypted.\<close>

definition encrypt_chained :: "(bytes \<Rightarrow> bytes) \<Rightarrow> bytes \<Rightarrow> bytes \<Rightarrow> bytes \<times> bytes" where
  "encrypt_chained E chain block = (let out = E (xor_bytes block chain) in (out, out))"

definition encrypt_range :: "(bytes \<Rightarrow> bytes) \<Rightarrow> bytes \<Rightarrow> pattern \<Rightarrow> bytes \<Rightarrow> bytes" where
  "encrypt_range E iv p data = fst (block_loop (encrypts_block p) (encrypt_chained E) 0 iv data)"

section \<open>Whole segments\<close>

definition segment_iv :: "nat \<Rightarrow> bytes" where
  "segment_iv segment_index = replicate 12 0 @ be_bytes 4 segment_index"

definition encrypt_segment :: "(bytes \<Rightarrow> bytes) \<Rightarrow> nat \<Rightarrow> bytes \<Rightarrow> bytes" where
  "encrypt_segment E segment_index data =
     (let padding = 16 - length data mod 16
      in encrypt_range E (segment_iv segment_index) FULL_PATTERN (data @ replicate padding (of_nat padding)))"

section \<open>Counter mode\<close>

record ctr_stream =
  cs_counter :: nat
  cs_keystream :: bytes
  cs_used :: nat

definition ctr_new :: "bytes \<Rightarrow> ctr_stream" where
  "ctr_new iv = \<lparr>cs_counter = be_value iv, cs_keystream = replicate 16 0, cs_used = 16\<rparr>"

text \<open>The next block of the keystream, when the last is used up.\<close>

definition ctr_refill :: "(bytes \<Rightarrow> bytes) \<Rightarrow> ctr_stream \<Rightarrow> ctr_stream" where
  "ctr_refill E s =
     (if cs_used s = 16
      then \<lparr>cs_counter = (cs_counter s + 1) mod 2 ^ 128, cs_keystream = E (be_bytes 16 (cs_counter s)),
            cs_used = 0\<rparr>
      else s)"

lemma ctr_refill_used: "cs_used s \<le> 16 \<Longrightarrow> cs_used (ctr_refill E s) < 16"
  by (simp add: ctr_refill_def)

text \<open>
  At most 16 bytes of a keystream block are used at any time; the loop takes at least one byte each
  time because of that, and a stream that claims more is cut short here only to be total.
\<close>

function ctr_apply :: "(bytes \<Rightarrow> bytes) \<Rightarrow> ctr_stream \<Rightarrow> bytes \<Rightarrow> bytes \<times> ctr_stream" where
  "ctr_apply E s data =
     (if data = [] \<or> 16 < cs_used s then (data, s)
      else
        (let s1 = ctr_refill E s;
             n = min (16 - cs_used s1) (length data);
             now = xor_bytes (take n data) (drop (cs_used s1) (cs_keystream s1));
             (later, s2) = ctr_apply E (s1\<lparr>cs_used := cs_used s1 + n\<rparr>) (drop n data)
         in (now @ later, s2)))"
  by pat_completeness auto
termination
proof (relation "measure (\<lambda>(E, s, data). length data)", goal_cases)
  case (2 E s data s1 n now)
  then have "cs_used s1 < 16" using ctr_refill_used [of s E] by simp
  then show ?case using 2 by auto
qed simp

declare ctr_apply.simps [simp del]

section \<open>One sample\<close>

record sample_decryptor =
  sd_key :: bytes
  sd_scheme :: source_scheme
  sd_crypt :: nat
  sd_skip :: nat

definition decryptor_new :: "bytes \<Rightarrow> source_scheme \<Rightarrow> nat \<Rightarrow> nat \<Rightarrow> sample_decryptor" where
  "decryptor_new key scheme crypt skip =
     \<lparr>sd_key = key, sd_scheme = scheme, sd_crypt = crypt, sd_skip = skip\<rparr>"

definition selects :: "sample_decryptor \<Rightarrow> nat \<Rightarrow> bool" where
  "selects d index \<longleftrightarrow>
     (let period = sd_crypt d + sd_skip d in period = 0 \<or> index mod period < sd_crypt d)"

definition cbc_block :: "(bytes \<Rightarrow> bytes) \<Rightarrow> bytes \<Rightarrow> bytes \<Rightarrow> bytes \<times> bytes" where
  "cbc_block D chain block = (xor_bytes (D block) chain, block)"

definition subsample_mismatch :: error where
  "subsample_mismatch = InvalidMedia ''subsample sizes do not add up to the size of the sample''"

definition range_step ::
    "nat \<Rightarrow> (nat \<times> nat) list \<times> nat \<Rightarrow> subsample \<Rightarrow> ((nat \<times> nat) list \<times> nat) res" where
  "range_step len = (\<lambda>(ranges, at) s.
     let start = at + sb_clear s in
     and_then (ok_or (case checked_add start (sb_protected s) of
         Some e \<Rightarrow> if e \<le> len then Some e else None
       | None \<Rightarrow> None) subsample_mismatch) (\<lambda>e. ok (ranges @ [(start, e)], e)))"

definition protected_ranges :: "nat \<Rightarrow> subsample list \<Rightarrow> (nat \<times> nat) list res" where
  "protected_ranges len subs =
     (if subs = [] then ok [(0, len)]
      else
        and_then (try_fold (range_step len) ([], 0) subs) (\<lambda>(ranges, at).
          if at \<noteq> len then fail subsample_mismatch else ok ranges))"

text \<open>The ranges in turn, each changed in place by a step that carries a state.\<close>

fun range_loop :: "('s \<Rightarrow> bytes \<Rightarrow> bytes \<times> 's) \<Rightarrow> 's \<Rightarrow> bytes \<Rightarrow> (nat \<times> nat) list \<Rightarrow> bytes res" where
  "range_loop f s data [] = ok data"
| "range_loop f s data ((a, b) # ranges) =
     and_then (slice data a b) (\<lambda>range.
       let (out, s') = f s range in range_loop f s' (take a data @ out @ drop b data) ranges)"

definition decrypt ::
    "(bytes \<Rightarrow> bytes \<Rightarrow> bytes) \<Rightarrow> (bytes \<Rightarrow> bytes \<Rightarrow> bytes) \<Rightarrow> sample_decryptor \<Rightarrow> bytes \<Rightarrow> bytes
       \<Rightarrow> subsample list \<Rightarrow> bytes res" where
  "decrypt enc dec d iv data subs =
     (let E = enc (sd_key d); D = dec (sd_key d) in
      and_then (protected_ranges (length data) subs) (\<lambda>ranges.
        case sd_scheme d of
          Cenc \<Rightarrow> range_loop (ctr_apply E) (ctr_new iv) data ranges
        | Cens \<Rightarrow> range_loop (block_loop (selects d) (ctr_apply E) 0) (ctr_new iv) data ranges
        | Cbc1 \<Rightarrow> range_loop (block_loop (\<lambda>_. True) (cbc_block D) 0) iv data ranges
        | Cbcs \<Rightarrow> range_loop (\<lambda>_ range. (fst (block_loop (selects d) (cbc_block D) 0 iv range), ())) () data
            ranges))"

section \<open>One track\<close>

record track_decryption =
  td_decryptor :: sample_decryptor
  td_protection :: source_protection

definition decrypt_sample ::
    "(bytes \<Rightarrow> bytes \<Rightarrow> bytes) \<Rightarrow> (bytes \<Rightarrow> bytes \<Rightarrow> bytes) \<Rightarrow> track_decryption \<Rightarrow> nat \<Rightarrow> bytes \<Rightarrow> bytes res" where
  "decrypt_sample enc dec t index data =
     (let aux = sp_aux (td_protection t) in
      and_then (ok_or (case aux_iv aux index of
            Some iv \<Rightarrow> iv16 iv
          | None \<Rightarrow> sp_constant_iv (td_protection t))
        (InvalidMedia (''sample '' @ decimal index @ '' has no IV''))) (\<lambda>iv.
        decrypt enc dec (td_decryptor t) iv data (aux_subsamples aux index)))"

definition leaves_prefix_clear :: "track_decryption \<Rightarrow> nat \<Rightarrow> nat \<Rightarrow> bool" where
  "leaves_prefix_clear t index length_size \<longleftrightarrow>
     (case aux_subsamples (sp_aux (td_protection t)) index of
        [] \<Rightarrow> False
      | first # _ \<Rightarrow> length_size \<le> sb_clear first)"

text \<open>Length-prefixed units that cover the sample exactly, none empty.\<close>

function units_tile :: "nat \<Rightarrow> bytes \<Rightarrow> nat \<Rightarrow> bool" where
  "units_tile length_size data at =
     (if length data \<le> at then at = length data
      else case get_slice data at (at + length_size) of
        None \<Rightarrow> False
      | Some pre \<Rightarrow> if be_value pre = 0 then False else units_tile length_size data (at + length_size + be_value pre))"
  by pat_completeness auto
termination by (relation "measure (\<lambda>(l, data, at). length data - at)") auto

declare units_tile.simps [simp del]

definition nal_units_tile :: "bytes \<Rightarrow> nat \<Rightarrow> bool" where
  "nal_units_tile data length_size = units_tile length_size data 0"

end
