(* ===== verification/Sample_Cipher_Laws.thy ===== *)
theory Sample_Cipher_Laws
  imports Sample_Cipher Reader_Safety
begin

text \<open>
  What encryption and decryption do to a sample, in terms of its subsamples: the clear bytes stay,
  the protected ones go through the scheme, and every scheme is undone.
\<close>

section \<open>A block cipher\<close>

text \<open>What is relied on of AES: it maps 16 bytes to 16 bytes, and decrypting undoes encrypting.\<close>

definition block_cipher :: "(bytes \<Rightarrow> bytes \<Rightarrow> bytes) \<Rightarrow> (bytes \<Rightarrow> bytes \<Rightarrow> bytes) \<Rightarrow> bytes \<Rightarrow> bool" where
  "block_cipher enc dec key \<longleftrightarrow>
     (\<forall>b. length b = 16 \<longrightarrow> length (enc key b) = 16 \<and> length (dec key b) = 16 \<and> dec key (enc key b) = b)"

lemma block_cipherD:
  assumes "block_cipher enc dec key" and "length b = 16"
  shows "length (enc key b) = 16" and "length (dec key b) = 16" and "dec key (enc key b) = b"
  using assms by (auto simp: block_cipher_def)

lemma length_xor_bytes [simp]: "length (xor_bytes xs ys) = min (length xs) (length ys)"
  by (simp add: xor_bytes_def)

lemma nth_xor_bytes [simp]:
  "i < length xs \<Longrightarrow> i < length ys \<Longrightarrow> xor_bytes xs ys ! i = xor (xs ! i) (ys ! i)"
  by (simp add: xor_bytes_def)

lemma xor_bytes_Nil [simp]: "xor_bytes [] ys = []" "xor_bytes xs [] = []"
  by (simp_all add: xor_bytes_def)

lemma xor_xor_bytes [simp]: "length xs \<le> length ys \<Longrightarrow> xor_bytes (xor_bytes xs ys) ys = xs"
  by (rule nth_equalityI) (simp_all add: xor.assoc)

lemma xor_bytes_append:
  "length xs = length ys \<Longrightarrow> xor_bytes (xs @ xs') (ys @ ys') = xor_bytes xs ys @ xor_bytes xs' ys'"
  by (simp add: xor_bytes_def)

section \<open>Loops over blocks\<close>

lemma block_loop_short: "length data < 16 \<Longrightarrow> block_loop sel f i s data = (data, s)"
  by (subst block_loop.simps) simp

lemma block_loop_step:
  assumes "16 \<le> length data"
  shows "block_loop sel f i s data =
    (let (out, s1) = (if sel i then f s (take 16 data) else (take 16 data, s));
         (rest, s2) = block_loop sel f (Suc i) s1 (drop 16 data)
     in (out @ rest, s2))"
  using assms by (subst block_loop.simps) simp

text \<open>A loop is undone by the loop of a step that undoes each of its steps.\<close>

lemma block_loop_undone:
  assumes step: "\<And>s b c s1. P s \<Longrightarrow> length b = 16 \<Longrightarrow> f s b = (c, s1) \<Longrightarrow>
      length c = 16 \<and> P s1 \<and> g s c = (b, s1)"
  shows "P s \<Longrightarrow> block_loop sel f i s data = (out, s2) \<Longrightarrow>
    length out = length data \<and> P s2 \<and> block_loop sel g i s out = (data, s2)"
proof (induction data arbitrary: i s out rule: length_induct)
  case (1 data)
  show ?case
  proof (cases "length data < 16")
    case True
    then show ?thesis using "1.prems" by (auto simp: block_loop_short)
  next
    case False
    define c s1 where "c = fst (if sel i then f s (take 16 data) else (take 16 data, s))"
      and "s1 = snd (if sel i then f s (take 16 data) else (take 16 data, s))"
    then have cs: "(if sel i then f s (take 16 data) else (take 16 data, s)) = (c, s1)" by simp
    obtain rest where rest: "block_loop sel f (Suc i) s1 (drop 16 data) = (rest, s2)" "out = c @ rest"
      using "1.prems"(2) False cs by (auto simp: block_loop_step split: prod.splits)
    have b: "length (take 16 data) = 16" using False by simp
    have c: "length c = 16 \<and> P s1 \<and> (if sel i then g s c else (c, s)) = (take 16 data, s1)"
      using step [OF "1.prems"(1) b] cs "1.prems"(1) b by (auto split: if_splits)
    have shorter: "length (drop 16 data) < length data" using False by simp
    have IH: "length rest = length (drop 16 data) \<and> P s2 \<and>
        block_loop sel g (Suc i) s1 rest = (drop 16 data, s2)"
      using "1.IH" [rule_format, OF shorter] c rest(1) by blast
    have "block_loop sel g i s out =
        (let (u, s1) = (if sel i then g s c else (c, s)); (rest', s2) = block_loop sel g (Suc i) s1 rest
         in (u @ rest', s2))"
      using c rest(2) by (subst block_loop_step) (simp_all cong: if_cong split: if_splits)
    also have "\<dots> = (data, s2)" using IH c by simp
    finally show ?thesis using c rest(2) IH False by simp
  qed
qed

lemma length_block_loop:
  assumes "\<And>s b. P s \<Longrightarrow> length b = 16 \<Longrightarrow> length (fst (f s b)) = 16 \<and> P (snd (f s b))"
  shows "P s \<Longrightarrow> length (fst (block_loop sel f i s data)) = length data \<and> P (snd (block_loop sel f i s data))"
proof (induction data arbitrary: i s rule: length_induct)
  case (1 data)
  show ?case
  proof (cases "length data < 16")
    case False
    define r where "r = (if sel i then f s (take 16 data) else (take 16 data, s))"
    have r: "length (fst r) = 16 \<and> P (snd r)"
      using assms [of s "take 16 data"] "1.prems" False by (simp add: r_def)
    have "length (drop 16 data) < length data" using False by simp
    note IH = "1.IH" [rule_format, OF this, of "snd r" "Suc i"]
    have "block_loop sel f i s data =
        (fst r @ fst (block_loop sel f (Suc i) (snd r) (drop 16 data)),
         snd (block_loop sel f (Suc i) (snd r) (drop 16 data)))"
      using False block_loop_step [of data sel f i s] by (simp add: r_def split: prod.splits)
    then show ?thesis using False r IH by simp
  qed (simp add: block_loop_short "1.prems")
qed

section \<open>The keystream\<close>

text \<open>Byte \<open>j\<close> of the keystream that starts at counter \<open>c\<close>.\<close>

definition keystream :: "(bytes \<Rightarrow> bytes) \<Rightarrow> nat \<Rightarrow> nat \<Rightarrow> byte" where
  "keystream E c j = E (be_bytes 16 ((c + j div 16) mod 2 ^ 128)) ! (j mod 16)"

text \<open>A stream that has produced \<open>pos\<close> bytes, and \<open>k\<close> blocks.\<close>

definition stream_at :: "(bytes \<Rightarrow> bytes) \<Rightarrow> nat \<Rightarrow> ctr_stream \<Rightarrow> nat \<Rightarrow> bool" where
  "stream_at E c s pos \<longleftrightarrow>
     (\<exists>k. cs_used s \<le> 16 \<and> pos + 16 = 16 * k + cs_used s \<and> cs_counter s = (c + k) mod 2 ^ 128 \<and>
       (cs_used s < 16 \<longrightarrow> cs_keystream s = E (be_bytes 16 ((c + (k - 1)) mod 2 ^ 128))))"

lemma stream_at_new: "length iv = 16 \<Longrightarrow> stream_at E (be_value iv) (ctr_new iv) 0"
  using be_value_bound [of iv] by (auto simp: stream_at_def ctr_new_def)

lemma stream_at_refill:
  assumes "stream_at E c s pos"
  shows "stream_at E c (ctr_refill E s) pos" and "cs_used (ctr_refill E s) = pos mod 16"
    and "cs_keystream (ctr_refill E s) = E (be_bytes 16 ((c + pos div 16) mod 2 ^ 128))"
proof -
  obtain k where k: "cs_used s \<le> 16" "pos + 16 = 16 * k + cs_used s"
      "cs_counter s = (c + k) mod 2 ^ 128"
      "cs_used s < 16 \<longrightarrow> cs_keystream s = E (be_bytes 16 ((c + (k - 1)) mod 2 ^ 128))"
    using assms by (auto simp: stream_at_def)
  show "stream_at E c (ctr_refill E s) pos"
  proof (cases "cs_used s = 16")
    case True
    then show ?thesis
      using k unfolding stream_at_def ctr_refill_def
      by (intro exI [of _ "Suc k"]) (simp add: mod_Suc_eq del: power.simps)
  qed (use assms in \<open>simp add: ctr_refill_def\<close>)
  have "pos mod 16 = (if cs_used s = 16 then 0 else cs_used s) \<and>
      pos div 16 = (if cs_used s = 16 then k else k - 1)"
    using k(1,2) by (cases k) (auto simp: div_nat_eqI mod_nat_eqI)
  then show "cs_used (ctr_refill E s) = pos mod 16"
    and "cs_keystream (ctr_refill E s) = E (be_bytes 16 ((c + pos div 16) mod 2 ^ 128))"
    using k by (auto simp: ctr_refill_def)
qed

lemma div_mod_within:
  fixes m d i :: nat
  assumes "m mod d + i < d"
  shows "(m + i) div d = m div d" and "(m + i) mod d = m mod d + i"
proof -
  have e: "m + i = (m mod d + i) + m div d * d" by (simp add: mult.commute)
  have "d \<noteq> 0" using assms by auto
  then have "(m + i) div d = m div d + (m mod d + i) div d"
    unfolding e by (rule div_mult_self1)
  then show "(m + i) div d = m div d" using assms by simp
  have "(m + i) mod d = (m mod d + i) mod d" unfolding e by (rule mod_mult_self1)
  then show "(m + i) mod d = m mod d + i" using assms by simp
qed

lemma stream_at_advance:
  assumes "stream_at E c s pos" and "cs_used s + n \<le> 16" and "cs_used s < 16"
  shows "stream_at E c (s\<lparr>cs_used := cs_used s + n\<rparr>) (pos + n)"
  using assms by (auto simp: stream_at_def)

lemma ctr_apply_keystream:
  assumes E: "\<And>b. length b = 16 \<Longrightarrow> length (E b) = 16"
  shows "stream_at E c s pos \<Longrightarrow>
    fst (ctr_apply E s data) = xor_bytes data (map (keystream E c) [pos..<pos + length data])
    \<and> stream_at E c (snd (ctr_apply E s data)) (pos + length data)"
proof (induction data arbitrary: s pos rule: length_induct)
  case (1 data)
  show ?case
  proof (cases "data = []")
    case True
    then show ?thesis using "1.prems" by (subst (1 2) ctr_apply.simps) simp
  next
    case False
    define s1 where "s1 = ctr_refill E s"
    define n where "n = min (16 - cs_used s1) (length data)"
    define s2 where "s2 = s1\<lparr>cs_used := cs_used s1 + n\<rparr>"
    have used: "cs_used s \<le> 16" "cs_used s1 < 16"
      using "1.prems" ctr_refill_used [of s E] by (auto simp: stream_at_def s1_def)
    note refill = stream_at_refill [OF "1.prems", folded s1_def]
    have n: "0 < n" "cs_used s1 + n \<le> 16" "n \<le> length data"
      using used(2) False by (auto simp: n_def)
    have s2: "stream_at E c s2 (pos + n)"
      unfolding s2_def by (rule stream_at_advance [OF refill(1) n(2) used(2)])
    have shorter: "length (drop n data) < length data" using n by simp
    note IH = "1.IH" [rule_format, OF shorter s2]
    have now: "xor_bytes (take n data) (drop (cs_used s1) (cs_keystream s1)) =
        xor_bytes (take n data) (map (keystream E c) [pos..<pos + n])"
    proof (rule nth_equalityI)
      fix i
      assume "i < length (xor_bytes (take n data) (drop (cs_used s1) (cs_keystream s1)))"
      then have i: "i < n" by simp
      then have at: "pos mod 16 + i < 16" using refill(2) n(2) by simp
      then have "(pos + i) div 16 = pos div 16" "(pos + i) mod 16 = pos mod 16 + i"
        by (simp_all add: div_mod_within)
      then show "xor_bytes (take n data) (drop (cs_used s1) (cs_keystream s1)) ! i =
          xor_bytes (take n data) (map (keystream E c) [pos..<pos + n]) ! i"
        using i at n refill(2,3) by (simp add: keystream_def E)
    qed (use refill(2,3) n in \<open>simp add: E\<close>)
    have split: "map (keystream E c) [pos..<pos + length data] =
        map (keystream E c) [pos..<pos + n] @ map (keystream E c) [pos + n..<pos + length data]"
      using n upt_add_eq_append [of pos "pos + n" "length data - n"] by (simp flip: map_append)
    have "xor_bytes data (map (keystream E c) [pos..<pos + length data]) =
        xor_bytes (take n data) (map (keystream E c) [pos..<pos + n]) @
        xor_bytes (drop n data) (map (keystream E c) [pos + n..<pos + length data])"
      unfolding split using n xor_bytes_append [of "take n data" "map (keystream E c) [pos..<pos + n]"
          "drop n data"] by simp
    moreover have "ctr_apply E s data =
        (xor_bytes (take n data) (drop (cs_used s1) (cs_keystream s1)) @ fst (ctr_apply E s2 (drop n data)),
         snd (ctr_apply E s2 (drop n data)))"
      using False used(1)
      by (subst ctr_apply.simps) (simp add: s1_def [symmetric] n_def [symmetric] s2_def split: prod.splits)
    ultimately show ?thesis using IH n now by simp
  qed
qed

section \<open>Samples by their subsamples\<close>

text \<open>The sample read from the left: each subsample's clear bytes stay, its protected ones are changed.\<close>

fun on_protected :: "('s \<Rightarrow> bytes \<Rightarrow> bytes \<times> 's) \<Rightarrow> 's \<Rightarrow> subsample list \<Rightarrow> bytes \<Rightarrow> bytes" where
  "on_protected f s [] data = data"
| "on_protected f s (x # xs) data =
     (let (out, s') = f s (take (sb_protected x) (drop (sb_clear x) data)) in
      take (sb_clear x) data @ out @ on_protected f s' xs (drop (sb_clear x + sb_protected x) data))"

definition subs_total :: "subsample list \<Rightarrow> nat" where
  "subs_total subs = (\<Sum>x\<leftarrow>subs. sb_clear x + sb_protected x)"

lemma subs_total_simps [simp]:
  "subs_total [] = 0"
  "subs_total (x # xs) = sb_clear x + sb_protected x + subs_total xs"
  by (simp_all add: subs_total_def)

fun clear_of :: "subsample list \<Rightarrow> bytes \<Rightarrow> bytes" where
  "clear_of [] data = data"
| "clear_of (x # xs) data = take (sb_clear x) data @ clear_of xs (drop (sb_clear x + sb_protected x) data)"

fun protected_of :: "subsample list \<Rightarrow> bytes \<Rightarrow> bytes" where
  "protected_of [] data = []"
| "protected_of (x # xs) data =
     take (sb_protected x) (drop (sb_clear x) data) @ protected_of xs (drop (sb_clear x + sb_protected x) data)"

text \<open>No subsamples stand for one that protects the whole sample.\<close>

definition whole_or :: "nat \<Rightarrow> subsample list \<Rightarrow> subsample list" where
  "whole_or len subs = (if subs = [] then [\<lparr>sb_clear = 0, sb_protected = len\<rparr>] else subs)"

fun offsets :: "nat \<Rightarrow> subsample list \<Rightarrow> (nat \<times> nat) list" where
  "offsets at [] = []"
| "offsets at (x # xs) =
     (at + sb_clear x, at + (sb_clear x + sb_protected x)) # offsets (at + (sb_clear x + sb_protected x)) xs"

lemma range_steps:
  assumes "len < u64_limit" and "at \<le> len"
  shows "try_fold (range_step len) (ranges, at) subs =
    (if at + subs_total subs \<le> len then ok (ranges @ offsets at subs, at + subs_total subs)
     else fail subsample_mismatch)"
  using assms(2)
proof (induction subs arbitrary: ranges at)
  case (Cons x xs)
  then show ?case using assms(1) Cons.IH by (auto simp: range_step_def checked_add_def add.assoc)
qed simp

lemma protected_ranges_are:
  assumes "len < u64_limit"
  shows "protected_ranges len subs =
    (if subs_total (whole_or len subs) = len then ok (offsets 0 (whole_or len subs))
     else fail subsample_mismatch)"
  using assms by (auto simp: protected_ranges_def whole_or_def range_steps)

text \<open>
  Steps that keep the length of what they change, and steps undone by others, in states that satisfy
  an invariant.
\<close>

definition keeps :: "('s \<Rightarrow> bool) \<Rightarrow> ('s \<Rightarrow> bytes \<Rightarrow> bytes \<times> 's) \<Rightarrow> bool" where
  "keeps P f \<longleftrightarrow> (\<forall>s r. P s \<longrightarrow> length (fst (f s r)) = length r \<and> P (snd (f s r)))"

definition undoes ::
    "('s \<Rightarrow> bool) \<Rightarrow> ('s \<Rightarrow> bytes \<Rightarrow> bytes \<times> 's) \<Rightarrow> ('s \<Rightarrow> bytes \<Rightarrow> bytes \<times> 's) \<Rightarrow> bool" where
  "undoes P g f \<longleftrightarrow>
     (\<forall>s r. P s \<longrightarrow> length (fst (f s r)) = length r \<and> P (snd (f s r)) \<and> g s (fst (f s r)) = (r, snd (f s r)))"

lemma keepsD: "keeps P f \<Longrightarrow> P s \<Longrightarrow> f s r = (out, s') \<Longrightarrow> length out = length r \<and> P s'"
  unfolding keeps_def by (metis fst_conv snd_conv)

lemma undoesD: "undoes P g f \<Longrightarrow> P s \<Longrightarrow> f s r = (out, s') \<Longrightarrow> length out = length r \<and> P s' \<and> g s out = (r, s')"
  unfolding undoes_def by (metis fst_conv snd_conv)

text \<open>The loop over ranges in place is the reading from the left.\<close>

lemma range_loop_from_left:
  assumes len: "keeps P f"
  shows "P s \<Longrightarrow> subs_total subs = length data \<Longrightarrow>
    range_loop f s (pre @ data) (offsets (length pre) subs) = ok (pre @ on_protected f s subs data)"
proof (induction subs arbitrary: s pre data)
  case (Cons x xs)
  let ?c = "sb_clear x" and ?p = "sb_protected x"
  let ?r = "take ?p (drop ?c data)"
  have le: "?c + ?p \<le> length data" using Cons.prems(2) by simp
  obtain out s' where out: "f s ?r = (out, s')" by fastforce
  have o: "length out = ?p" "P s'" using keepsD [OF len Cons.prems(1) out] le by auto
  have "slice (pre @ data) (length pre + ?c) (length pre + (?c + ?p)) = ok ?r"
    using le by (simp add: slice_def subslice_def)
  moreover have "range_loop f s' ((pre @ take ?c data @ out) @ drop (?c + ?p) data)
      (offsets (length (pre @ take ?c data @ out)) xs) =
      ok ((pre @ take ?c data @ out) @ on_protected f s' xs (drop (?c + ?p) data))"
    by (rule Cons.IH) (use o Cons.prems(2) in auto)
  moreover have "length (pre @ take ?c data @ out) = length pre + (?c + ?p)" using le o by simp
  ultimately show ?case using out by (simp add: add.commute)
qed simp

lemma on_protected_undone:
  assumes inv: "undoes P g f"
  shows "P s \<Longrightarrow> subs_total subs = length data \<Longrightarrow>
    length (on_protected f s subs data) = length data \<and>
    on_protected g s subs (on_protected f s subs data) = data"
proof (induction subs arbitrary: s data)
  case (Cons x xs)
  let ?c = "sb_clear x" and ?p = "sb_protected x"
  let ?r = "take ?p (drop ?c data)"
  have le: "?c + ?p \<le> length data" using Cons.prems(2) by simp
  obtain out s' where out: "f s ?r = (out, s')" by fastforce
  have o: "length out = ?p" "P s'" "g s out = (?r, s')" using undoesD [OF inv Cons.prems(1) out] le by auto
  let ?rest = "on_protected f s' xs (drop (?c + ?p) data)"
  have "length ?rest = length (drop (?c + ?p) data) \<and> on_protected g s' xs ?rest = drop (?c + ?p) data"
    by (rule Cons.IH) (use o Cons.prems(2) in auto)
  moreover have "take ?c data @ ?r @ drop (?c + ?p) data = data"
    by (metis append_assoc append_take_drop_id take_add)
  ultimately show ?case using out o le by simp
qed simp

lemma clear_bytes_stay:
  assumes len: "keeps P f"
  shows "P s \<Longrightarrow> subs_total subs = length data \<Longrightarrow> clear_of subs (on_protected f s subs data) = clear_of subs data"
proof (induction subs arbitrary: s data)
  case (Cons x xs)
  let ?r = "take (sb_protected x) (drop (sb_clear x) data)"
  obtain out s' where out: "f s ?r = (out, s')" by fastforce
  have "length out = sb_protected x" "P s'" using keepsD [OF len Cons.prems(1) out] Cons.prems(2) by auto
  then show ?case using Cons.IH [of s' "drop (sb_clear x + sb_protected x) data"] Cons.prems(2) out by simp
qed simp

section \<open>The steps keep lengths and are undone\<close>

lemma ctr_apply_state:
  "length xs = length ys \<Longrightarrow> snd (ctr_apply E s xs) = snd (ctr_apply E s ys)"
proof (induction xs arbitrary: s ys rule: length_induct)
  case (1 xs)
  show ?case
  proof (cases "xs = [] \<or> 16 < cs_used s")
    case True
    then show ?thesis using "1.prems" by (subst (1 2) ctr_apply.simps) auto
  next
    case False
    define s1 where "s1 = ctr_refill E s"
    define n where "n = min (16 - cs_used s1) (length xs)"
    have "cs_used s1 < 16" using ctr_refill_used [of s E] False by (simp add: s1_def)
    then have n: "0 < n" "n \<le> length xs" using False by (auto simp: n_def)
    have "snd (ctr_apply E s zs) = snd (ctr_apply E (s1\<lparr>cs_used := cs_used s1 + n\<rparr>) (drop n zs))"
      if "length zs = length xs" for zs
      using False that by (subst ctr_apply.simps) (auto simp: s1_def n_def split: prod.splits)
    then show ?thesis using "1.IH" [rule_format, of "drop n xs" "drop n ys"] "1.prems" n by simp
  qed
qed

definition in_stream :: "(bytes \<Rightarrow> bytes) \<Rightarrow> nat \<Rightarrow> ctr_stream \<Rightarrow> bool" where
  "in_stream E c s \<longleftrightarrow> (\<exists>pos. stream_at E c s pos)"

lemma in_stream_new: "length iv = 16 \<Longrightarrow> in_stream E (be_value iv) (ctr_new iv)"
  using stream_at_new by (auto simp: in_stream_def)

lemma ctr_apply_undone:
  assumes E: "\<And>b. length b = 16 \<Longrightarrow> length (E b) = 16"
    and s: "in_stream E c s" and applied: "ctr_apply E s r = (out, s')"
  shows "length out = length r \<and> in_stream E c s' \<and> ctr_apply E s out = (r, s')"
proof -
  obtain pos where pos: "stream_at E c s pos" using s by (auto simp: in_stream_def)
  note on = ctr_apply_keystream [OF E pos]
  have out: "out = xor_bytes r (map (keystream E c) [pos..<pos + length r])"
      "stream_at E c s' (pos + length r)"
    using on [of r] applied by auto
  then have len: "length out = length r" by simp
  have "fst (ctr_apply E s out) = r" using on [of out] out len by simp
  moreover have "snd (ctr_apply E s out) = s'" using ctr_apply_state [OF len, of E s] applied by simp
  ultimately show ?thesis using out(2) len by (auto simp: in_stream_def prod_eq_iff)
qed

lemma chain_undone:
  assumes "block_cipher enc dec key" and "length s = 16" and "length b = 16"
    and "encrypt_chained (enc key) s b = (c, s1)"
  shows "length c = 16 \<and> length s1 = 16 \<and> cbc_block (dec key) s c = (b, s1)"
  using assms block_cipherD [OF assms(1), of "xor_bytes b s"]
  by (auto simp: encrypt_chained_def cbc_block_def)

lemma blocks_undone:
  assumes "block_cipher enc dec key" and "length s = 16"
    and "block_loop sel (encrypt_chained (enc key)) i s data = (out, s2)"
  shows "length out = length data \<and> length s2 = 16 \<and> block_loop sel (cbc_block (dec key)) i s out = (data, s2)"
  using block_loop_undone [of "\<lambda>s. length s = 16" "encrypt_chained (enc key)" "cbc_block (dec key)"]
    chain_undone [OF assms(1)] assms(2,3) by blast

lemma ctr_blocks_undone:
  assumes "block_cipher enc dec key" and "in_stream (enc key) c s"
    and "block_loop sel (ctr_apply (enc key)) i s data = (out, s2)"
  shows "length out = length data \<and> in_stream (enc key) c s2
    \<and> block_loop sel (ctr_apply (enc key)) i s out = (data, s2)"
proof (rule block_loop_undone [where P = "in_stream (enc key) c" and f = "ctr_apply (enc key)"])
  show "length d = 16 \<and> in_stream (enc key) c s1 \<and> ctr_apply (enc key) s d = (b, s1)"
    if "in_stream (enc key) c s" "length b = 16" "ctr_apply (enc key) s b = (d, s1)" for s b d s1
    using ctr_apply_undone [of "enc key" c s b d s1] that block_cipherD [OF assms(1)] by simp
qed (use assms in auto)

lemma selects_pattern: "selects d = encrypts_block \<lparr>pt_crypt = sd_crypt d, pt_skip = sd_skip d\<rparr>"
  by (auto simp: selects_def encrypts_block_def fun_eq_iff)

lemma encrypt_range_undone:
  assumes "block_cipher enc dec key" and "length iv = 16"
  shows "length (encrypt_range (enc key) iv p r) = length r"
    and "fst (block_loop (encrypts_block p) (cbc_block (dec key)) 0 iv (encrypt_range (enc key) iv p r)) = r"
  using blocks_undone [OF assms, of "encrypts_block p" 0 r]
  by (cases "block_loop (encrypts_block p) (encrypt_chained (enc key)) 0 iv r"; simp add: encrypt_range_def)+

section \<open>Decryption by subsamples\<close>

definition decrypted ::
    "(bytes \<Rightarrow> bytes) \<Rightarrow> (bytes \<Rightarrow> bytes) \<Rightarrow> sample_decryptor \<Rightarrow> bytes \<Rightarrow> subsample list \<Rightarrow> bytes \<Rightarrow> bytes" where
  "decrypted E D d iv =
     (case sd_scheme d of
        Cenc \<Rightarrow> on_protected (ctr_apply E) (ctr_new iv)
      | Cens \<Rightarrow> on_protected (block_loop (selects d) (ctr_apply E) 0) (ctr_new iv)
      | Cbc1 \<Rightarrow> on_protected (block_loop (\<lambda>_. True) (cbc_block D) 0) iv
      | Cbcs \<Rightarrow> on_protected (\<lambda>_ r. (fst (block_loop (selects d) (cbc_block D) 0 iv r), ())) ())"

text \<open>
  What the standard encrypts: the keystream runs on through the protected bytes for \<^verbatim>\<open>cenc\<close> and through
  the selected blocks for \<^verbatim>\<open>cens\<close>, the chain runs on through a sample's blocks for \<^verbatim>\<open>cbc1\<close>, and starts
  anew in each range for \<^verbatim>\<open>cbcs\<close>.
\<close>

definition encrypted ::
    "(bytes \<Rightarrow> bytes) \<Rightarrow> sample_decryptor \<Rightarrow> bytes \<Rightarrow> subsample list \<Rightarrow> bytes \<Rightarrow> bytes" where
  "encrypted E d iv =
     (case sd_scheme d of
        Cenc \<Rightarrow> on_protected (ctr_apply E) (ctr_new iv)
      | Cens \<Rightarrow> on_protected (block_loop (selects d) (ctr_apply E) 0) (ctr_new iv)
      | Cbc1 \<Rightarrow> on_protected (block_loop (\<lambda>_. True) (encrypt_chained E) 0) iv
      | Cbcs \<Rightarrow> on_protected (\<lambda>_ r. (encrypt_range E iv \<lparr>pt_crypt = sd_crypt d, pt_skip = sd_skip d\<rparr> r, ())) ())"

lemma ctr_keeps:
  assumes "block_cipher enc dec key" and "in_stream (enc key) c s"
  shows "length (fst (ctr_apply (enc key) s r)) = length r \<and> in_stream (enc key) c (snd (ctr_apply (enc key) s r))"
  using ctr_apply_undone [of "enc key" c s r "fst (ctr_apply (enc key) s r)" "snd (ctr_apply (enc key) s r)"]
    assms block_cipherD(1) [OF assms(1)] by simp

lemma cbc_keeps:
  assumes "block_cipher enc dec key" and "length s = 16" and "length b = 16"
  shows "length (fst (cbc_block (dec key) s b)) = 16 \<and> length (snd (cbc_block (dec key) s b)) = 16"
  using assms block_cipherD(2) [OF assms(1,3)] by (simp add: cbc_block_def)

lemma cbc_blocks_keep:
  assumes "block_cipher enc dec key" and "length s = 16"
  shows "length (fst (block_loop sel (cbc_block (dec key)) i s r)) = length r
    \<and> length (snd (block_loop sel (cbc_block (dec key)) i s r)) = 16"
  using length_block_loop [where P = "\<lambda>s. length s = 16"] cbc_keeps [OF assms(1)] assms(2) by blast

lemma ctr_blocks_keep:
  assumes "block_cipher enc dec key" and "in_stream (enc key) c s"
  shows "length (fst (block_loop sel (ctr_apply (enc key)) i s r)) = length r
    \<and> in_stream (enc key) c (snd (block_loop sel (ctr_apply (enc key)) i s r))"
  using length_block_loop [where P = "in_stream (enc key) c" and f = "ctr_apply (enc key)"]
    ctr_keeps [OF assms(1)] assms(2) by metis

text \<open>Each scheme is a step with an invariant of its state.\<close>

lemma schemes_keep:
  assumes "block_cipher enc dec key"
  shows "keeps (in_stream (enc key) c) (ctr_apply (enc key))"
    and "keeps (in_stream (enc key) c) (block_loop sel (ctr_apply (enc key)) i)"
    and "keeps (\<lambda>s. length s = 16) (block_loop sel (cbc_block (dec key)) i)"
    and "length iv = 16 \<Longrightarrow> keeps (\<lambda>_. True) (\<lambda>_ r. (fst (block_loop sel (cbc_block (dec key)) i iv r), ()))"
  using ctr_keeps [OF assms] ctr_blocks_keep [OF assms] cbc_blocks_keep [OF assms] by (auto simp: keeps_def)

lemma schemes_undone:
  assumes "block_cipher enc dec key"
  shows "undoes (in_stream (enc key) c) (ctr_apply (enc key)) (ctr_apply (enc key))"
    and "undoes (in_stream (enc key) c) (block_loop sel (ctr_apply (enc key)) i) (block_loop sel (ctr_apply (enc key)) i)"
    and "undoes (\<lambda>s. length s = 16) (block_loop sel (cbc_block (dec key)) i)
      (block_loop sel (encrypt_chained (enc key)) i)"
    and "length iv = 16 \<Longrightarrow> undoes (\<lambda>_. True)
      (\<lambda>_ r. (fst (block_loop (encrypts_block p) (cbc_block (dec key)) 0 iv r), ()))
      (\<lambda>_ r. (encrypt_range (enc key) iv p r, ()))"
  using ctr_apply_undone [of "enc key", OF block_cipherD(1) [OF assms] _ prod.collapse [symmetric]]
    ctr_blocks_undone [OF assms _ prod.collapse [symmetric]] blocks_undone [OF assms _ prod.collapse [symmetric]]
    encrypt_range_undone [OF assms]
  by (auto simp: undoes_def)

lemma decrypted_cases:
  assumes "block_cipher enc dec (sd_key d)" and "length iv = 16"
    and "\<And>(f :: ctr_stream \<Rightarrow> bytes \<Rightarrow> bytes \<times> ctr_stream) s P. keeps P f \<Longrightarrow> P s \<Longrightarrow> Q (on_protected f s)"
    and "\<And>(f :: bytes \<Rightarrow> bytes \<Rightarrow> bytes \<times> bytes) s P. keeps P f \<Longrightarrow> P s \<Longrightarrow> Q (on_protected f s)"
    and "\<And>(f :: unit \<Rightarrow> bytes \<Rightarrow> bytes \<times> unit) s P. keeps P f \<Longrightarrow> P s \<Longrightarrow> Q (on_protected f s)"
  shows "Q (decrypted (enc (sd_key d)) (dec (sd_key d)) d iv)"
  using assms(3) [OF schemes_keep(1) [OF assms(1)] in_stream_new [OF assms(2)]]
    assms(3) [OF schemes_keep(2) [OF assms(1)] in_stream_new [OF assms(2)]]
    assms(4) [OF schemes_keep(3) [OF assms(1)] assms(2)]
    assms(5) [OF schemes_keep(4) [OF assms(1,2)] TrueI]
  by (cases "sd_scheme d") (simp_all only: decrypted_def source_scheme.case)

lemma decrypt_from_left:
  assumes "block_cipher enc dec (sd_key d)" and "length iv = 16" and "length data < u64_limit"
  shows "decrypt enc dec d iv data subs =
    (if subs_total (whole_or (length data) subs) = length data
     then ok (decrypted (enc (sd_key d)) (dec (sd_key d)) d iv (whole_or (length data) subs) data)
     else fail subsample_mismatch)"
proof (cases "subs_total (whole_or (length data) subs) = length data")
  case True
  have loop: "keeps P f \<Longrightarrow> P s \<Longrightarrow> range_loop f s data (offsets 0 (whole_or (length data) subs)) =
      ok (on_protected f s (whole_or (length data) subs) data)" for P and f :: "'s \<Rightarrow> bytes \<Rightarrow> bytes \<times> 's" and s
    using range_loop_from_left [of P f s _ data "[]"] True by simp
  show ?thesis
  proof (cases "sd_scheme d")
    case Cenc
    then show ?thesis
      using True assms(3) loop [OF schemes_keep(1) [OF assms(1)] in_stream_new [OF assms(2)]]
      by (simp add: decrypt_def decrypted_def protected_ranges_are)
  next
    case Cens
    then show ?thesis
      using True assms(3) loop [OF schemes_keep(2) [OF assms(1)] in_stream_new [OF assms(2)]]
      by (simp add: decrypt_def decrypted_def protected_ranges_are)
  next
    case Cbc1
    then show ?thesis
      using True assms(3) loop [OF schemes_keep(3) [OF assms(1)] assms(2)]
      by (simp add: decrypt_def decrypted_def protected_ranges_are)
  next
    case Cbcs
    then show ?thesis
      using True assms(3) loop [OF schemes_keep(4) [OF assms(1,2)] TrueI]
      by (simp add: decrypt_def decrypted_def protected_ranges_are)
  qed
next
  case False
  then show ?thesis using assms(3) by (simp add: decrypt_def protected_ranges_are)
qed

lemma length_on_protected:
  assumes len: "keeps P f"
  shows "P s \<Longrightarrow> subs_total subs = length data \<Longrightarrow> length (on_protected f s subs data) = length data"
proof (induction subs arbitrary: s data)
  case (Cons x xs)
  let ?r = "take (sb_protected x) (drop (sb_clear x) data)"
  obtain out s' where out: "f s ?r = (out, s')" by fastforce
  have "length out = sb_protected x" "P s'" using keepsD [OF len Cons.prems(1) out] Cons.prems(2) by auto
  then show ?case using Cons.IH [of s' "drop (sb_clear x + sb_protected x) data"] Cons.prems(2) out by simp
qed simp

lemma decrypted_keeps:
  assumes "block_cipher enc dec (sd_key d)" and "length iv = 16" and "subs_total subs = length data"
  shows "length (decrypted (enc (sd_key d)) (dec (sd_key d)) d iv subs data) = length data
    \<and> clear_of subs (decrypted (enc (sd_key d)) (dec (sd_key d)) d iv subs data) = clear_of subs data"
proof (rule decrypted_cases [OF assms(1,2)])
qed (blast intro: length_on_protected clear_bytes_stay assms(3))+

lemma whole_or_total: "subs = [] \<or> subs_total subs = len \<Longrightarrow> subs_total (whole_or len subs) = len"
  by (auto simp: whole_or_def)

lemma encrypted_undone:
  assumes "block_cipher enc dec (sd_key d)" and "length iv = 16" and "subs_total subs = length data"
  shows "length (encrypted (enc (sd_key d)) d iv subs data) = length data \<and>
    decrypted (enc (sd_key d)) (dec (sd_key d)) d iv subs (encrypted (enc (sd_key d)) d iv subs data) = data"
proof (cases "sd_scheme d")
  case Cenc
  then show ?thesis
    using on_protected_undone [OF schemes_undone(1) [OF assms(1)] in_stream_new [OF assms(2)] assms(3)]
    by (simp add: encrypted_def decrypted_def)
next
  case Cens
  then show ?thesis
    using on_protected_undone [OF schemes_undone(2) [OF assms(1)] in_stream_new [OF assms(2)] assms(3)]
    by (simp add: encrypted_def decrypted_def)
next
  case Cbc1
  then show ?thesis
    using on_protected_undone [OF schemes_undone(3) [OF assms(1)] assms(2,3)]
    by (simp add: encrypted_def decrypted_def)
next
  case Cbcs
  then show ?thesis
    using on_protected_undone [OF schemes_undone(4) [OF assms(1,2)] TrueI assms(3)]
    by (simp add: encrypted_def decrypted_def selects_pattern)
qed

lemma cenc_protected:
  assumes E: "\<And>b. length b = 16 \<Longrightarrow> length (E b) = 16"
  shows "stream_at E c s pos \<Longrightarrow> subs_total subs = length data \<Longrightarrow>
    protected_of subs (on_protected (ctr_apply E) s subs data) =
      xor_bytes (protected_of subs data)
        (map (keystream E c) [pos..<pos + length (protected_of subs data)])"
proof (induction subs arbitrary: s pos data)
  case (Cons x xs)
  let ?r = "take (sb_protected x) (drop (sb_clear x) data)"
  let ?rest = "drop (sb_clear x + sb_protected x) data"
  let ?n = "length (protected_of xs ?rest)"
  note on = ctr_apply_keystream [OF E Cons.prems(1), of ?r]
  have r: "length ?r = sb_protected x" "length (fst (ctr_apply E s ?r)) = sb_protected x"
    using Cons.prems(2) on by auto
  have IH: "protected_of xs (on_protected (ctr_apply E) (snd (ctr_apply E s ?r)) xs ?rest) =
      xor_bytes (protected_of xs ?rest)
        (map (keystream E c) [pos + sb_protected x..<pos + sb_protected x + ?n])"
    by (rule Cons.IH) (use on r Cons.prems(2) in auto)
  have "protected_of (x # xs) (on_protected (ctr_apply E) s (x # xs) data) =
      fst (ctr_apply E s ?r) @ protected_of xs (on_protected (ctr_apply E) (snd (ctr_apply E s ?r)) xs ?rest)"
    using r Cons.prems(2) by (cases "ctr_apply E s ?r") simp
  also have "\<dots> = xor_bytes (?r @ protected_of xs ?rest)
      (map (keystream E c) [pos..<pos + sb_protected x] @
       map (keystream E c) [pos + sb_protected x..<pos + sb_protected x + ?n])"
    unfolding IH using on r by (simp add: xor_bytes_append)
  also have "map (keystream E c) [pos..<pos + sb_protected x] @
      map (keystream E c) [pos + sb_protected x..<pos + sb_protected x + ?n] =
      map (keystream E c) [pos..<pos + length (?r @ protected_of xs ?rest)]"
    using upt_add_eq_append [of pos "pos + sb_protected x" ?n] r
    by (simp only: map_append [symmetric] length_append add.assoc [symmetric] le_add1)
  finally show ?case by (simp only: protected_of.simps)
qed simp

section \<open>The schemes as the standard gives them\<close>

text \<open>
  The bytes of a protected range of \<open>n\<close> bytes that a scheme encrypts: every byte for \<^verbatim>\<open>cenc\<close>, every whole
  block for \<^verbatim>\<open>cbc1\<close>, and the first \<open>c\<close> of every \<open>c + s\<close> whole blocks for \<^verbatim>\<open>cens\<close> and \<^verbatim>\<open>cbcs\<close>.
\<close>

definition encrypted_bytes :: "source_scheme \<Rightarrow> nat \<Rightarrow> nat \<Rightarrow> nat \<Rightarrow> nat list" where
  "encrypted_bytes scheme c s n =
     (case scheme of
        Cenc \<Rightarrow> [0..<n]
      | Cbc1 \<Rightarrow> [0..<16 * (n div 16)]
      | _ \<Rightarrow> [j \<leftarrow> [0..<16 * (n div 16)]. c + s = 0 \<or> (j div 16) mod (c + s) < c])"

text \<open>Their places in the sample, range by range.\<close>

fun places :: "(nat \<Rightarrow> nat list) \<Rightarrow> nat \<Rightarrow> subsample list \<Rightarrow> nat list list" where
  "places R at [] = []"
| "places R at (x # xs) =
     map (\<lambda>j. at + sb_clear x + j) (R (sb_protected x)) # places R (at + (sb_clear x + sb_protected x)) xs"

text \<open>Cipher block chaining: each ciphertext block is the plain one XOR the ciphertext before it, encrypted.\<close>

function cbc_chain :: "(bytes \<Rightarrow> bytes) \<Rightarrow> bytes \<Rightarrow> bytes \<Rightarrow> bytes" where
  "cbc_chain E chain text =
     (if length text < 16 then []
      else E (xor_bytes (take 16 text) chain) @
        cbc_chain E (E (xor_bytes (take 16 text) chain)) (drop 16 text))"
  by pat_completeness auto
termination by (relation "measure (\<lambda>(E, chain, text). length text)") auto

declare cbc_chain.simps [simp del]

text \<open>
  A sample encrypted: its encrypted bytes in order go through one keystream counted up from the IV
  (\<^verbatim>\<open>cenc\<close>, \<^verbatim>\<open>cens\<close>), through one chain from the IV (\<^verbatim>\<open>cbc1\<close>), or through a chain from the IV for each
  range (\<^verbatim>\<open>cbcs\<close>); the result stands in their places, and every other byte is kept.
\<close>

definition ciphertext ::
    "(bytes \<Rightarrow> bytes) \<Rightarrow> source_scheme \<Rightarrow> bytes \<Rightarrow> bytes list \<Rightarrow> bytes" where
  "ciphertext E scheme iv texts =
     (case scheme of
        Cbc1 \<Rightarrow> cbc_chain E iv (concat texts)
      | Cbcs \<Rightarrow> concat (map (cbc_chain E iv) texts)
      | _ \<Rightarrow> xor_bytes (concat texts) (map (keystream E (be_value iv)) [0..<length (concat texts)]))"

definition sample_places :: "sample_decryptor \<Rightarrow> subsample list \<Rightarrow> nat list list" where
  "sample_places d subs = places (encrypted_bytes (sd_scheme d) (sd_crypt d) (sd_skip d)) 0 subs"

definition encrypted_sample ::
    "(bytes \<Rightarrow> bytes) \<Rightarrow> sample_decryptor \<Rightarrow> bytes \<Rightarrow> subsample list \<Rightarrow> bytes \<Rightarrow> bytes" where
  "encrypted_sample E d iv subs data =
     (let ps = sample_places d subs;
          cipher = map_of (zip (concat ps) (ciphertext E (sd_scheme d) iv (map (map ((!) data)) ps)))
      in map (\<lambda>j. case cipher j of Some b \<Rightarrow> b | None \<Rightarrow> data ! j) [0..<length data])"

text \<open>
  A step over a range gathers: in states that stand for \<open>u\<close>, the bytes in the places \<open>R\<close> of the range
  go through the mode \<open>M\<close>, the others stay.
\<close>

definition gathers ::
    "('s \<Rightarrow> 'u \<Rightarrow> bool) \<Rightarrow> (nat \<Rightarrow> nat list) \<Rightarrow> ('u \<Rightarrow> bytes \<Rightarrow> bytes \<times> 'u) \<Rightarrow> ('s \<Rightarrow> bytes \<Rightarrow> bytes \<times> 's) \<Rightarrow> bool" where
  "gathers I R M f \<longleftrightarrow>
     (\<forall>s u r. I s u \<longrightarrow>
        length (fst (f s r)) = length r
        \<and> map ((!) (fst (f s r))) (R (length r)) = fst (M u (map ((!) r) (R (length r))))
        \<and> (\<forall>j < length r. j \<notin> set (R (length r)) \<longrightarrow> fst (f s r) ! j = r ! j)
        \<and> I (snd (f s r)) (snd (M u (map ((!) r) (R (length r))))))"

lemma gathersD:
  assumes "gathers I R M f" and "I s u" and "f s r = (out, s')" and "M u (map ((!) r) (R (length r))) = (c, u')"
  shows "length out = length r" and "map ((!) out) (R (length r)) = c"
    and "\<And>j. j < length r \<Longrightarrow> j \<notin> set (R (length r)) \<Longrightarrow> out ! j = r ! j" and "I s' u'"
  using assms unfolding gathers_def by (metis fst_conv snd_conv)+

fun in_turn :: "('u \<Rightarrow> bytes \<Rightarrow> bytes \<times> 'u) \<Rightarrow> 'u \<Rightarrow> bytes list \<Rightarrow> bytes" where
  "in_turn M u [] = []"
| "in_turn M u (t # ts) = fst (M u t) @ in_turn M (snd (M u t)) ts"

lemma places_shift: "places R (k + at) xs = map (map ((+) k)) (places R at xs)"
  by (induction xs arbitrary: at) (simp_all add: add.assoc)

lemma places_from: "places R k xs = map (map ((+) k)) (places R 0 xs)"
  using places_shift [of R k 0 xs] by simp

text \<open>The protected bytes of a whole sample, read from the left, go through the mode in turn.\<close>

lemma on_protected_gathers:
  assumes f: "gathers I R M f" and R: "\<And>n. set (R n) \<subseteq> {..<n}"
  shows "I s u \<Longrightarrow> subs_total subs = length data \<Longrightarrow>
    length (on_protected f s subs data) = length data
    \<and> map ((!) (on_protected f s subs data)) (concat (places R 0 subs))
        = in_turn M u (map (map ((!) data)) (places R 0 subs))
    \<and> (\<forall>j < length data. j \<notin> set (concat (places R 0 subs)) \<longrightarrow> on_protected f s subs data ! j = data ! j)"
proof (induction subs arbitrary: s u data)
  case (Cons x xs)
  let ?c = "sb_clear x" and ?p = "sb_protected x"
  define r where "r = take ?p (drop ?c data)"
  define rest where "rest = drop (?c + ?p) data"
  have parts: "data = take ?c data @ r @ rest" "length (take ?c data) = ?c" "length r = ?p"
      "subs_total xs = length rest"
    using Cons.prems(2) append_take_drop_id [of ?p "drop ?c data"] append_take_drop_id [of ?c data]
    by (simp_all add: r_def rest_def add.commute)
  obtain out s' where out: "f s r = (out, s')" by fastforce
  obtain c u' where c: "M u (map ((!) r) (R (length r))) = (c, u')" by fastforce
  note step = gathersD [OF f Cons.prems(1) out c]
  note IH = Cons.IH [OF step(4) parts(4)]
  have on: "on_protected f s (x # xs) data = take ?c data @ out @ on_protected f s' xs rest"
    using out by (simp add: r_def rest_def)
  have at: "\<And>ys. map ((!) (take ?c data @ r' @ ys)) (map (\<lambda>j. ?c + j) (R ?p)) = map ((!) r') (R ?p)"
    if "length r' = ?p" for r'
    using that R [of ?p] parts(2) by (auto simp: nth_append)
  have later: "map ((!) (take ?c data @ r' @ ys)) (map ((+) (?c + ?p)) ps) = map ((!) ys) ps"
    if "length r' = ?p" for r' ys ps
    using that parts(2) by (auto simp: nth_append add.assoc)
  have pl: "places R 0 (x # xs) = map (\<lambda>j. ?c + j) (R ?p) # map (map ((+) (?c + ?p))) (places R 0 xs)"
    using places_from [of R "?c + ?p" xs] by simp
  have texts: "map (map ((!) data)) (places R 0 (x # xs)) =
      map ((!) r) (R ?p) # map (map ((!) rest)) (places R 0 xs)"
    using at [OF parts(3), of rest] later [OF parts(3), of rest] parts(1) by (simp only: pl list.map) (simp add: o_def)
  have len: "length out = ?p" using step(1) parts(3) by simp
  have "map ((!) (on_protected f s (x # xs) data)) (concat (places R 0 (x # xs))) =
      map ((!) out) (R ?p) @ map ((!) (on_protected f s' xs rest)) (concat (places R 0 xs))"
    unfolding on pl using at [OF len, of "on_protected f s' xs rest"]
      later [OF len, of "on_protected f s' xs rest" "concat (places R 0 xs)"]
    by (simp add: map_concat [symmetric])
  then have gathered: "map ((!) (on_protected f s (x # xs) data)) (concat (places R 0 (x # xs))) =
      in_turn M u (map (map ((!) data)) (places R 0 (x # xs)))"
    using IH step(2) parts(3) c unfolding texts by (simp only: in_turn.simps fst_conv snd_conv)
  have "on_protected f s (x # xs) data ! j = data ! j"
    if j: "j < length data" "j \<notin> set (concat (places R 0 (x # xs)))" for j
  proof -
    consider "j < ?c" | "?c \<le> j" "j < ?c + ?p" | "?c + ?p \<le> j" by linarith
    then show ?thesis
    proof cases
      case 1
      then show ?thesis unfolding on using parts(2) by (simp add: nth_append)
    next
      case 2
      then have "j - ?c < length r" "j - ?c \<notin> set (R (length r))"
        using j(2) parts(3) unfolding pl by (auto simp: image_iff)
      then have "out ! (j - ?c) = r ! (j - ?c)" by (rule step(3))
      moreover have "data ! j = r ! (j - ?c)" 
        using arg_cong [OF parts(1), of "\<lambda>xs. xs ! j"] 2 parts(2,3) less_diff_conv2 [of ?c j ?p]
        by (simp add: nth_append add.commute del: length_take)
      moreover have "j - ?c < ?p" using 2 by linarith
      ultimately show ?thesis unfolding on using 2 len parts(2) by (simp add: nth_append)
    next
      case 3
      then have not_beyond: "\<not> j - ?c < ?p" by linarith
      have "j - (?c + ?p) < length rest" "j - (?c + ?p) \<notin> set (concat (places R 0 xs))"
        using 3 j parts unfolding pl
        by (auto simp: rest_def image_iff) (metis le_add_diff_inverse)
      then have "on_protected f s' xs rest ! (j - (?c + ?p)) = rest ! (j - (?c + ?p))" using IH by blast
      moreover have "data ! j = rest ! (j - (?c + ?p))" 
        using arg_cong [OF parts(1), of "\<lambda>xs. xs ! j"] 3 parts(2,3) not_beyond by (simp add: nth_append del: length_take)
      ultimately show ?thesis unfolding on using 3 len parts(2) not_beyond by (simp add: nth_append)
    qed
  qed
  moreover have "length (on_protected f s (x # xs) data) = length data"
    unfolding on using IH len parts(2-4) Cons.prems(2) by simp
  ultimately show ?case using gathered by blast
qed simp

text \<open>A mode that runs on: what it makes of two texts is what it makes of them together.\<close>

definition runs_on :: "('u \<Rightarrow> bytes \<Rightarrow> bytes \<times> 'u) \<Rightarrow> bool" where
  "runs_on M \<longleftrightarrow> (\<forall>u. M u [] = ([], u)) \<and> (\<forall>u a b. 16 dvd length a \<longrightarrow>
     M u (a @ b) = (fst (M u a) @ fst (M (snd (M u a)) b), snd (M (snd (M u a)) b)))"

lemma runs_onD:
  assumes "runs_on M"
  shows "M u [] = ([], u)"
    and "16 dvd length a \<Longrightarrow> M u (a @ b) = (fst (M u a) @ fst (M (snd (M u a)) b), snd (M (snd (M u a)) b))"
  using assms by (auto simp: runs_on_def)

lemma in_turn_runs_on:
  assumes "runs_on M"
  shows "\<forall>t \<in> set ts. 16 dvd length t \<Longrightarrow> in_turn M u ts = fst (M u (concat ts))"
  by (induction ts arbitrary: u) (simp_all add: runs_onD [OF assms])

definition block_places :: "(nat \<Rightarrow> bool) \<Rightarrow> nat \<Rightarrow> nat list" where
  "block_places sel n = [j \<leftarrow> [0..<16 * (n div 16)]. sel (j div 16)]"

lemma upt_16: "[0..<16 + m] = [0..<16] @ map ((+) 16) [0..<m]"
  using upt_add_eq_append [of 0 16 m] map_add_upt [of 16 m] by (simp add: add.commute [of _ 16])

lemma block_places_step:
  assumes "16 \<le> n"
  shows "block_places sel n =
    (if sel 0 then [0..<16] else []) @ map ((+) 16) (block_places (\<lambda>i. sel (Suc i)) (n - 16))"
proof -
  have n: "16 * (n div 16) = 16 + 16 * ((n - 16) div 16)"
    using assms le_div_geq [of 16 n] by simp
  have low: "filter (\<lambda>j. sel (j div 16)) [0..<16] = (if sel 0 then [0..<16] else [])"
    by (simp add: filter_empty_conv filter_id_conv)
  have next_block: "(16 + j) div 16 = Suc (j div 16)" for j :: nat by simp
  show ?thesis
    unfolding block_places_def n upt_16 filter_append low filter_map o_def next_block ..
qed

lemma block_places_bound: "set (block_places sel n) \<subseteq> {..<n}"
proof -
  have "16 * (n div 16) \<le> n" by simp
  then show ?thesis by (auto simp: block_places_def)
qed

lemma dvd_block_places: "16 dvd length (block_places sel n)"
proof (induction n arbitrary: sel rule: less_induct)
  case (less n)
  show ?case
  proof (cases "16 \<le> n")
    case True
    then show ?thesis using less.IH [of "n - 16" "\<lambda>i. sel (Suc i)"] by (auto simp: block_places_step)
  qed (simp add: block_places_def)
qed

lemma block_loop_gathers_at:
  assumes M: "runs_on M"
    and step: "\<And>s u b. I s u \<Longrightarrow> length b = 16 \<Longrightarrow>
      length (fst (f s b)) = 16 \<and> fst (f s b) = fst (M u b) \<and> I (snd (f s b)) (snd (M u b))"
  shows "I s u \<Longrightarrow> block_loop sel f i s r = (out, s') \<Longrightarrow>
    M u (map ((!) r) (block_places (\<lambda>k. sel (i + k)) (length r))) = (c, u') \<Longrightarrow>
    length out = length r \<and> map ((!) out) (block_places (\<lambda>k. sel (i + k)) (length r)) = c
    \<and> (\<forall>j < length r. j \<notin> set (block_places (\<lambda>k. sel (i + k)) (length r)) \<longrightarrow> out ! j = r ! j) \<and> I s' u'"
proof (induction r arbitrary: i s u out c s' u' rule: length_induct)
  case (1 r)
  show ?case
  proof (cases "length r < 16")
    case True
    then show ?thesis using "1.prems" runs_onD(1) [OF M, of u] by (auto simp: block_loop_short block_places_def)
  next
    case False
    define b rest where "b = take 16 r" and "rest = drop 16 r"
    have r: "r = b @ rest" "length b = 16" "length rest < length r" using False by (auto simp: b_def rest_def)
    let ?Q = "block_places (\<lambda>k. sel (Suc i + k)) (length rest)"
    obtain o1 s1 where o1: "(if sel i then f s b else (b, s)) = (o1, s1)" by fastforce
    obtain o2 where o2: "block_loop sel f (Suc i) s1 rest = (o2, s')" "out = o1 @ o2"
      using "1.prems"(2) False o1 unfolding b_def rest_def by (auto simp: block_loop_step split: prod.splits)
    define c1 u1 where "c1 = (if sel i then fst (M u b) else [])" and "u1 = (if sel i then snd (M u b) else u)"
    have first: "length o1 = 16" "I s1 u1" "sel i \<Longrightarrow> o1 = c1" "\<not> sel i \<Longrightarrow> o1 = b"
      using step [OF "1.prems"(1) r(2)] o1 "1.prems"(1) r(2) by (auto simp: c1_def u1_def split: if_splits)
    have Q: "block_places (\<lambda>k. sel (i + k)) (length r) = (if sel i then [0..<16] else []) @ map ((+) 16) ?Q"
      using block_places_step [of "length r" "\<lambda>k. sel (i + k)"] False r by simp
    have gather: "map ((!) (x @ y)) ((if sel i then [0..<16] else []) @ map ((+) 16) ?Q) =
        (if sel i then x else []) @ map ((!) y) ?Q" if "length x = 16" for x y :: bytes
      using that map_nth [of x] by (auto simp: nth_append o_def intro: nth_equalityI)
    obtain c2 u2 where c2: "M u1 (map ((!) rest) ?Q) = (c2, u2)" by fastforce
    have "M u (map ((!) r) (block_places (\<lambda>k. sel (i + k)) (length r))) = (c1 @ c2, u2)"
      using runs_onD(2) [OF M, of b u] runs_onD(1) [OF M] r(2) c2
      unfolding Q r(1) [THEN arg_cong [of _ _ "(!)"]] gather [OF r(2)] by (auto simp: c1_def u1_def)
    then have c: "c = c1 @ c2" "u' = u2" using "1.prems"(3) by auto
    note IH = "1.IH" [rule_format, OF r(3) first(2) o2(1) c2]
    have "map ((!) out) (block_places (\<lambda>k. sel (i + k)) (length r)) = c"
      unfolding Q o2(2) gather [OF first(1)] c using IH first(3) by (auto simp: c1_def)
    moreover have "out ! j = r ! j"
      if j: "j < length r" "j \<notin> set (block_places (\<lambda>k. sel (i + k)) (length r))" for j
    proof (cases "j < 16")
      case True
      then have "\<not> sel i" using j(2) unfolding Q by (auto split: if_splits)
      then show ?thesis using True first r(1,2) by (simp add: o2(2) nth_append)
    next
      case False
      then have "j - 16 < length rest" "j - 16 \<notin> set ?Q"
        using j r unfolding Q by (auto simp: image_iff split: if_splits)
      then have "o2 ! (j - 16) = rest ! (j - 16)" using IH by blast
      then show ?thesis using False first(1) r(2) unfolding r(1) by (simp add: o2(2) nth_append)
    qed
    ultimately show ?thesis using IH first(1) r c(2) by (auto simp: o2(2))
  qed
qed

lemma block_loop_gathers:
  assumes "runs_on M"
    and "\<And>s u b. I s u \<Longrightarrow> length b = 16 \<Longrightarrow>
      length (fst (f s b)) = 16 \<and> fst (f s b) = fst (M u b) \<and> I (snd (f s b)) (snd (M u b))"
  shows "gathers I (block_places sel) M (block_loop sel f 0)"
  unfolding gathers_def
proof (intro allI impI)
  fix s u r
  assume "I s u"
  from block_loop_gathers_at [where I = I and f = f and i = 0 and sel = sel, OF assms this
      prod.collapse [symmetric] prod.collapse [symmetric], of r]
  show "length (fst (block_loop sel f 0 s r)) = length r
    \<and> map ((!) (fst (block_loop sel f 0 s r))) (block_places sel (length r))
        = fst (M u (map ((!) r) (block_places sel (length r))))
    \<and> (\<forall>j < length r. j \<notin> set (block_places sel (length r)) \<longrightarrow> fst (block_loop sel f 0 s r) ! j = r ! j)
    \<and> I (snd (block_loop sel f 0 s r)) (snd (M u (map ((!) r) (block_places sel (length r)))))"
    by simp
qed

text \<open>The keystream and the chain as modes.\<close>

definition by_keystream :: "(bytes \<Rightarrow> bytes) \<Rightarrow> nat \<Rightarrow> nat \<Rightarrow> bytes \<Rightarrow> bytes \<times> nat" where
  "by_keystream E c pos xs = (xor_bytes xs (map (keystream E c) [pos..<pos + length xs]), pos + length xs)"

function chain_end :: "(bytes \<Rightarrow> bytes) \<Rightarrow> bytes \<Rightarrow> bytes \<Rightarrow> bytes" where
  "chain_end E chain text =
     (if length text < 16 then chain else chain_end E (E (xor_bytes (take 16 text) chain)) (drop 16 text))"
  by pat_completeness auto
termination by (relation "measure (\<lambda>(E, chain, text). length text)") auto

declare chain_end.simps [simp del]

definition by_chain :: "(bytes \<Rightarrow> bytes) \<Rightarrow> bytes \<Rightarrow> bytes \<Rightarrow> bytes \<times> bytes" where
  "by_chain E u xs = (cbc_chain E u xs, chain_end E u xs)"

lemma upt_append: "[a..<a + (m + n)] = [a..<a + m] @ [a + m..<a + (m + n)]"
  by (metis add.assoc le_add1 upt_add_eq_append)

lemma keystream_runs_on:
  "by_keystream E c u (a @ b) =
     (fst (by_keystream E c u a) @ fst (by_keystream E c (snd (by_keystream E c u a)) b),
      snd (by_keystream E c (snd (by_keystream E c u a)) b))"
  by (simp add: by_keystream_def upt_append xor_bytes_append add.assoc)

lemma runs_on_keystream: "runs_on (by_keystream E c)"
  using keystream_runs_on by (simp add: runs_on_def) (simp add: by_keystream_def)

lemma cbc_chain_simps:
  "length xs < 16 \<Longrightarrow> cbc_chain E u xs = []"
  "length b = 16 \<Longrightarrow> cbc_chain E u (b @ xs) = E (xor_bytes b u) @ cbc_chain E (E (xor_bytes b u)) xs"
  by (subst cbc_chain.simps; simp)+

lemma chain_end_simps:
  "length xs < 16 \<Longrightarrow> chain_end E u xs = u"
  "length b = 16 \<Longrightarrow> chain_end E u (b @ xs) = chain_end E (E (xor_bytes b u)) xs"
  by (subst chain_end.simps; simp)+

lemma chain_append:
  "16 dvd length a \<Longrightarrow> cbc_chain E u (a @ b) = cbc_chain E u a @ cbc_chain E (chain_end E u a) b
    \<and> chain_end E u (a @ b) = chain_end E (chain_end E u a) b"
proof (induction a arbitrary: u rule: length_induct)
  case (1 a)
  show ?case
  proof (cases "a = []")
    case False
    define h t where "h = take 16 a" and "t = drop 16 a"
    have "16 \<le> length a" using "1.prems" False by (simp add: dvd_imp_le)
    then have a: "a = h @ t" "length h = 16" "length t < length a" "16 dvd length t"
      using "1.prems" by (auto simp: h_def t_def)
    note IH = "1.IH" [rule_format, OF a(3,4), of "E (xor_bytes h u)"]
    show ?thesis using IH unfolding a(1) append_assoc by (simp add: cbc_chain_simps chain_end_simps a(2))
  qed (simp add: cbc_chain_simps chain_end_simps)
qed

lemma runs_on_chain: "runs_on (by_chain E)"
  by (auto simp: runs_on_def by_chain_def chain_append cbc_chain_simps(1) chain_end_simps(1))

lemma one_chain_block:
  assumes "length b = 16"
  shows "cbc_chain E u b = E (xor_bytes b u)" and "chain_end E u b = E (xor_bytes b u)"
  using cbc_chain_simps [of "[]" E] cbc_chain_simps(2) [OF assms, of E u "[]"]
    chain_end_simps(1) [of "[]" E] chain_end_simps(2) [OF assms, of E u "[]"] by simp_all

text \<open>The steps of the four schemes gather what the standard says.\<close>

lemma schemes_gather:
  assumes "block_cipher enc dec key"
  shows "gathers (stream_at (enc key) c) (\<lambda>n. [0..<n]) (by_keystream (enc key) c) (ctr_apply (enc key))"
    and "gathers (stream_at (enc key) c) (block_places sel) (by_keystream (enc key) c)
      (block_loop sel (ctr_apply (enc key)) 0)"
    and "gathers (\<lambda>s u. s = u \<and> length u = 16) (block_places sel) (by_chain (enc key))
      (block_loop sel (encrypt_chained (enc key)) 0)"
proof -
  note E = block_cipherD(1) [OF assms]
  have ks: "fst (ctr_apply (enc key) s b) = xor_bytes b (map (keystream (enc key) c) [pos..<pos + length b])
      \<and> stream_at (enc key) c (snd (ctr_apply (enc key) s b)) (pos + length b)"
    if "stream_at (enc key) c s pos" for s pos b
    by (rule ctr_apply_keystream [OF _ that]) (rule E)
  have len: "stream_at (enc key) c s pos \<Longrightarrow> length (fst (ctr_apply (enc key) s b)) = length b" for s pos b
    using ks [of s pos b] by simp
  show "gathers (stream_at (enc key) c) (\<lambda>n. [0..<n]) (by_keystream (enc key) c) (ctr_apply (enc key))"
    unfolding gathers_def
  proof (intro allI impI)
    fix s u r
    assume s: "stream_at (enc key) c s u"
    show "length (fst (ctr_apply (enc key) s r)) = length r
      \<and> map ((!) (fst (ctr_apply (enc key) s r))) [0..<length r] =
          fst (by_keystream (enc key) c u (map ((!) r) [0..<length r]))
      \<and> (\<forall>j < length r. j \<notin> set [0..<length r] \<longrightarrow> fst (ctr_apply (enc key) s r) ! j = r ! j)
      \<and> stream_at (enc key) c (snd (ctr_apply (enc key) s r))
          (snd (by_keystream (enc key) c u (map ((!) r) [0..<length r])))"
      using ks [OF s, of r] len [OF s, of r] map_nth [of r] map_nth [of "fst (ctr_apply (enc key) s r)"]
      by (simp add: by_keystream_def)
  qed
  show "gathers (stream_at (enc key) c) (block_places sel) (by_keystream (enc key) c)
      (block_loop sel (ctr_apply (enc key)) 0)"
  proof (rule block_loop_gathers [OF runs_on_keystream])
    fix s u and b :: bytes
    assume "stream_at (enc key) c s u" and "length b = 16"
    then show "length (fst (ctr_apply (enc key) s b)) = 16
      \<and> fst (ctr_apply (enc key) s b) = fst (by_keystream (enc key) c u b)
      \<and> stream_at (enc key) c (snd (ctr_apply (enc key) s b)) (snd (by_keystream (enc key) c u b))"
      using ks [of s u b] by (simp add: by_keystream_def)
  qed
  show "gathers (\<lambda>s u. s = u \<and> length u = 16) (block_places sel) (by_chain (enc key))
      (block_loop sel (encrypt_chained (enc key)) 0)"
    by (rule block_loop_gathers [OF runs_on_chain])
      (auto simp: by_chain_def one_chain_block encrypt_chained_def Let_def E)
qed

lemma range_gathers:
  assumes "block_cipher enc dec key" and "length iv = 16"
  shows "gathers (\<lambda>_ _. True) (block_places (encrypts_block p)) (\<lambda>_ xs. (cbc_chain (enc key) iv xs, ()))
    (\<lambda>_ r. (encrypt_range (enc key) iv p r, ()))"
  using schemes_gather(3) [OF assms(1), of "encrypts_block p"] assms(2)
  by (auto simp: gathers_def encrypt_range_def by_chain_def)

lemma in_turn_restarts: "in_turn (\<lambda>_ xs. (m xs, ())) () ts = concat (map m ts)"
  by (induction ts) simp_all

lemma encrypted_bytes_are:
  "encrypted_bytes Cenc c s n = [0..<n]"
  "encrypted_bytes Cens c s n = block_places (encrypts_block \<lparr>pt_crypt = c, pt_skip = s\<rparr>) n"
  "encrypted_bytes Cbc1 c s n = block_places (\<lambda>_. True) n"
  "encrypted_bytes Cbcs c s n = block_places (encrypts_block \<lparr>pt_crypt = c, pt_skip = s\<rparr>) n"
  by (auto simp: encrypted_bytes_def block_places_def encrypts_block_def intro!: filter_cong)

text \<open>What gathering gives is the sample with the ciphertext in its places.\<close>

lemma ciphertext_placed:
  assumes "length out = length data" and "map ((!) out) ps = c"
    and "\<forall>j < length data. j \<notin> set ps \<longrightarrow> out ! j = data ! j"
  shows "map (\<lambda>j. case map_of (zip ps c) j of Some b \<Rightarrow> b | None \<Rightarrow> data ! j) [0..<length data] = out"
  unfolding assms(2) [symmetric] map_of_zip_map
  by (rule nth_equalityI) (use assms(1,3) in auto)

lemma keystream_in_turn:
  "in_turn (by_keystream E c) u ts =
     xor_bytes (concat ts) (map (keystream E c) [u..<u + length (concat ts)])"
  by (induction ts arbitrary: u)
    (simp_all add: by_keystream_def upt_append xor_bytes_append add.assoc)

lemma dvd_places:
  assumes "\<And>n. 16 dvd length (R n)"
  shows "\<forall>p \<in> set (places R at subs). 16 dvd length p"
  by (induction subs arbitrary: at) (simp_all add: assms)

lemma standard_from_steps:
  assumes "gathers I R M f" and "\<And>n. set (R n) \<subseteq> {..<n}" and "I s u" and "subs_total subs = length data"
    and "R = encrypted_bytes (sd_scheme d) (sd_crypt d) (sd_skip d)"
    and "ciphertext E (sd_scheme d) iv (map (map ((!) data)) (places R 0 subs)) =
      in_turn M u (map (map ((!) data)) (places R 0 subs))"
  shows "on_protected f s subs data = encrypted_sample E d iv subs data"
  using on_protected_gathers [OF assms(1-4)] assms(6)
    ciphertext_placed [of "on_protected f s subs data" data "concat (places R 0 subs)"]
  unfolding encrypted_sample_def sample_places_def Let_def assms(5) [symmetric] by simp

lemma encrypted_is_standard:
  assumes "block_cipher enc dec (sd_key d)" and "length iv = 16" and "subs_total subs = length data"
  shows "encrypted (enc (sd_key d)) d iv subs data = encrypted_sample (enc (sd_key d)) d iv subs data"
proof -
  note sel = selects_pattern [of d]
  show ?thesis
  proof (cases "sd_scheme d")
    case Cenc
    have "on_protected (ctr_apply (enc (sd_key d))) (ctr_new iv) subs data =
        encrypted_sample (enc (sd_key d)) d iv subs data"
      by (rule standard_from_steps [OF schemes_gather(1) [OF assms(1)] _ stream_at_new [OF assms(2)] assms(3)])
        (auto simp: Cenc encrypted_bytes_are fun_eq_iff ciphertext_def keystream_in_turn)
    then show ?thesis by (simp add: encrypted_def Cenc)
  next
    case Cens
    have "on_protected (block_loop (selects d) (ctr_apply (enc (sd_key d))) 0) (ctr_new iv) subs data =
        encrypted_sample (enc (sd_key d)) d iv subs data"
      by (rule standard_from_steps [OF schemes_gather(2) [OF assms(1)] block_places_bound
            stream_at_new [OF assms(2)] assms(3)])
        (simp_all add: Cens encrypted_bytes_are fun_eq_iff ciphertext_def keystream_in_turn sel)
    then show ?thesis by (simp add: encrypted_def Cens)
  next
    case Cbc1
    have "on_protected (block_loop (\<lambda>_. True) (encrypt_chained (enc (sd_key d))) 0) iv subs data =
        encrypted_sample (enc (sd_key d)) d iv subs data"
      by (rule standard_from_steps [OF schemes_gather(3) [OF assms(1)] block_places_bound _ assms(3), where u = iv])
        (simp_all add: Cbc1 encrypted_bytes_are fun_eq_iff ciphertext_def assms(2) in_turn_runs_on [OF runs_on_chain]
          dvd_places [OF dvd_block_places, unfolded Ball_def] by_chain_def)
    then show ?thesis by (simp add: encrypted_def Cbc1)
  next
    case Cbcs
    have "on_protected (\<lambda>_ r. (encrypt_range (enc (sd_key d)) iv \<lparr>pt_crypt = sd_crypt d, pt_skip = sd_skip d\<rparr> r, ()))
        () subs data = encrypted_sample (enc (sd_key d)) d iv subs data"
      by (rule standard_from_steps [OF range_gathers [OF assms(1,2)] block_places_bound TrueI assms(3)])
        (simp_all add: Cbcs encrypted_bytes_are fun_eq_iff ciphertext_def in_turn_restarts)
    then show ?thesis by (simp add: encrypted_def Cbcs)
  qed
qed

section \<open>Properties\<close>

text \<open>
  C39 Decrypting a sample in place, under any scheme, depends on its subsamples alone: where there are
  some and they do not add up to the size of the sample, it fails with that error; in every other case
  it succeeds, and the result is the reading of the sample from the left, with the same length and the
  same clear bytes.
\<close>

theorem decryption_by_subsamples:
  assumes "block_cipher enc dec (sd_key d)" and "length iv = 16" and "length data < u64_limit"
  shows "if subs \<noteq> [] \<and> subs_total subs \<noteq> length data
    then decrypt enc dec d iv data subs = fail subsample_mismatch
    else \<exists>out. decrypt enc dec d iv data subs = ok out
      \<and> out = decrypted (enc (sd_key d)) (dec (sd_key d)) d iv (whole_or (length data) subs) data
      \<and> length out = length data
      \<and> clear_of (whole_or (length data) subs) out = clear_of (whole_or (length data) subs) data"
  using decrypt_from_left [OF assms, of subs] decrypted_keeps [OF assms(1,2), of "whole_or (length data) subs"]
  by (auto simp: whole_or_def)

text \<open>
  C38 A sample encrypted under any of the four schemes, the way the standard says, is decrypted to what
  it was.  The reference encryption is a function of its own: it lists the places of the encrypted bytes
  (all protected bytes for \<^verbatim>\<open>cenc\<close>, the whole blocks of each range for \<^verbatim>\<open>cbc1\<close>, the first blocks of
  each pattern for \<^verbatim>\<open>cens\<close> and \<^verbatim>\<open>cbcs\<close>), puts their bytes through the keystream whose block \<open>k\<close> is the
  cipher of the IV plus \<open>k\<close>, or through block chaining, and keeps every other byte.
\<close>

theorem four_schemes_undone:
  assumes "block_cipher enc dec (sd_key d)" and "length iv = 16" and "length data < u64_limit"
    and "subs = [] \<or> subs_total subs = length data"
  shows "decrypt enc dec d iv (encrypted_sample (enc (sd_key d)) d iv (whole_or (length data) subs) data) subs
    = ok data"
proof -
  note total = whole_or_total [OF assms(4)]
  note undone = encrypted_undone [OF assms(1,2) total]
  show ?thesis
    using decrypt_from_left [of enc dec d iv "encrypted (enc (sd_key d)) d iv (whole_or (length data) subs) data"]
      undone total assms unfolding encrypted_is_standard [OF assms(1,2) total, symmetric]
    by (simp add: whole_or_def split: if_splits)
qed

text \<open>
  C36 A sample under \<^verbatim>\<open>cenc\<close> is decrypted with one keystream, which runs on through its protected
  bytes wherever the subsamples break them.
\<close>

theorem cenc_is_one_keystream:
  assumes "block_cipher enc dec (sd_key d)" and "length iv = 16" and "length data < u64_limit"
    and "sd_scheme d = Cenc" and "decrypt enc dec d iv data subs = ok out"
  shows "protected_of (whole_or (length data) subs) out =
    xor_bytes (protected_of (whole_or (length data) subs) data)
      (map (keystream (enc (sd_key d)) (be_value iv))
        [0..<length (protected_of (whole_or (length data) subs) data)])"
  using decrypt_from_left [OF assms(1-3), of subs] assms(4,5)
    cenc_protected [OF block_cipherD(1) [OF assms(1)] stream_at_new [OF assms(2)],
      where subs = "whole_or (length data) subs" and data = data]
  by (simp add: decrypted_def split: if_splits)

text \<open>
  A whole segment encrypted as one message is a whole number of blocks, longer than the segment,
  and plain CBC decryption gives the segment followed by its padding, whose every byte is its length.
\<close>

theorem whole_segment_undone:
  assumes "block_cipher enc dec key"
  shows "\<exists>n. 1 \<le> n \<and> n \<le> 16 \<and> length (encrypt_segment (enc key) index data) = length data + n
    \<and> 16 dvd (length data + n)
    \<and> fst (block_loop (\<lambda>_. True) (cbc_block (dec key)) 0 (segment_iv index) (encrypt_segment (enc key) index data))
        = data @ replicate n (of_nat n)"
proof (intro exI conjI)
  let ?n = "16 - length data mod 16"
  let ?padded = "data @ replicate ?n (of_nat ?n)"
  have full: "encrypts_block FULL_PATTERN = (\<lambda>_. True)"
    by (rule ext) (simp add: encrypts_block_def FULL_PATTERN_def)
  have iv: "length (segment_iv index) = 16" by (simp add: segment_iv_def)
  show "1 \<le> ?n" and "?n \<le> 16" by (simp_all add: Suc_le_eq)
  show "length (encrypt_segment (enc key) index data) = length data + ?n"
    using encrypt_range_undone(1) [OF assms iv, of FULL_PATTERN ?padded] by (simp add: encrypt_segment_def)
  have "length data + ?n = 16 * (length data div 16) + 16"
    using mult_div_mod_eq [of 16 "length data"] mod_less_divisor [of 16 "length data"] by linarith
  then show "16 dvd (length data + ?n)" by simp
  show "fst (block_loop (\<lambda>_. True) (cbc_block (dec key)) 0 (segment_iv index)
      (encrypt_segment (enc key) index data)) = ?padded"
    using encrypt_range_undone(2) [OF assms iv, of FULL_PATTERN ?padded] by (simp add: encrypt_segment_def full)
qed

section \<open>Concrete samples\<close>

text \<open>A permutation of blocks that depends on the key stands for the cipher.\<close>

abbreviation shift_enc :: "bytes \<Rightarrow> bytes \<Rightarrow> bytes" where
  "shift_enc key b \<equiv> map (\<lambda>x. x + hd key) (rev b)"

abbreviation shift_dec :: "bytes \<Rightarrow> bytes \<Rightarrow> bytes" where
  "shift_dec key b \<equiv> rev (map (\<lambda>x. x - hd key) b)"

lemma shift_cipher: "block_cipher shift_enc shift_dec key"
  by (simp add: block_cipher_def rev_map o_def)

abbreviation sample_key :: "source_scheme \<Rightarrow> sample_decryptor" where
  "sample_key s \<equiv> decryptor_new (replicate 16 9) s 1 1"

theorem decryption_by_subsamples_witness:
  "decrypt shift_enc shift_dec (sample_key Cbcs) (replicate 16 1) (replicate 40 5)
      [\<lparr>sb_clear = 4, sb_protected = 30\<rparr>] = fail subsample_mismatch"
  using decryption_by_subsamples [of shift_enc shift_dec "sample_key Cbcs" "replicate 16 1" "replicate 40 5"
      "[\<lparr>sb_clear = 4, sb_protected = 30\<rparr>]"]
  by (simp add: shift_cipher)

text \<open>Two blocks of the keystream, the second from the counter after the IV.\<close>

theorem four_schemes_undone_witness:
  "encrypted_sample (shift_enc (replicate 16 9)) (sample_key Cenc) (replicate 15 0 @ [4]) 
        [\<lparr>sb_clear = 1, sb_protected = 18\<rparr>] (replicate 19 0)
      = [0, 13] @ replicate 15 9 @ [14, 9]
    \<and> decrypt shift_enc shift_dec (sample_key Cenc) (replicate 15 0 @ [4]) ([0, 13] @ replicate 15 9 @ [14, 9])
        [\<lparr>sb_clear = 1, sb_protected = 18\<rparr>] = ok (replicate 19 0)"
proof -
  let ?d = "sample_key Cenc" and ?iv = "replicate 15 0 @ [4] :: bytes"
    and ?subs = "[\<lparr>sb_clear = 1, sb_protected = 18\<rparr>]" and ?data = "replicate 19 0 :: bytes"
  have run: "encrypted_sample (shift_enc (replicate 16 9)) ?d ?iv ?subs ?data = [0, 13] @ replicate 15 9 @ [14, 9]"
    by code_simp
  have "decrypt shift_enc shift_dec ?d ?iv
      (encrypted_sample (shift_enc (sd_key ?d)) ?d ?iv (whole_or (length ?data) ?subs) ?data) ?subs = ok ?data"
    by (rule four_schemes_undone) (simp_all add: shift_cipher)
  then show ?thesis using run by (simp add: whole_or_def decryptor_new_def)
qed

theorem cenc_is_one_keystream_witness:
  "decrypt shift_enc shift_dec (sample_key Cenc) (replicate 16 1) [2, 3, 4, 5] [\<lparr>sb_clear = 1, sb_protected = 1\<rparr>,
      \<lparr>sb_clear = 1, sb_protected = 1\<rparr>] = ok [2, 9, 4, 15]
    \<and> protected_of [\<lparr>sb_clear = 1, sb_protected = 1\<rparr>, \<lparr>sb_clear = 1, sb_protected = 1\<rparr>] [2, 9, 4, 15]
      = xor_bytes [3, 5] (map (keystream (shift_enc (replicate 16 9)) (be_value (replicate 16 1))) [0, 1])"
proof -
  let ?subs = "[\<lparr>sb_clear = 1, sb_protected = 1\<rparr>, \<lparr>sb_clear = 1, sb_protected = 1\<rparr>]"
  have run: "decrypt shift_enc shift_dec (sample_key Cenc) (replicate 16 1) [2, 3, 4, 5] ?subs = ok [2, 9, 4, 15]"
    by code_simp
  then show ?thesis
    using cenc_is_one_keystream [of shift_enc shift_dec "sample_key Cenc" "replicate 16 1" "[2, 3, 4, 5]"
        ?subs "[2, 9, 4, 15]"]
    by (simp add: shift_cipher whole_or_def decryptor_new_def)
qed

theorem whole_segment_undone_witness:
  "\<exists>n. 1 \<le> n \<and> n \<le> 16 \<and> length (encrypt_segment (shift_enc (replicate 16 9)) 3 [1, 2, 3])
      = length [1 :: byte, 2, 3] + n
    \<and> 16 dvd (length [1 :: byte, 2, 3] + n)
    \<and> fst (block_loop (\<lambda>_. True) (cbc_block (shift_dec (replicate 16 9))) 0 (segment_iv 3)
        (encrypt_segment (shift_enc (replicate 16 9)) 3 [1, 2, 3])) = [1, 2, 3] @ replicate n (of_nat n)"
  by (rule whole_segment_undone [OF shift_cipher])

end
