(* ===== verification/Key_Material.thy ===== *)
theory Key_Material
  imports Mp4_Boxes Track_Selection
begin

text \<open>
  Content keys and DRM systems as the mapper supplies them, validated before any use
  (\<^verbatim>\<open>src/src/cenc/keys.rs\<close>), and the keys that undo a source's protection
  (\<^verbatim>\<open>src/src/cenc/source_keys.rs\<close>).  SHA-256, base64 and the URL parser come from other crates and
  are parameters.  A validation returns its value or the reason as text.
\<close>

section \<open>Text forms of identifiers\<close>

definition hex_string :: "bytes \<Rightarrow> string" where
  "hex_string bs = concat (map (\<lambda>b. hex2 (unat b)) bs)"

definition uuid_string :: "bytes \<Rightarrow> string" where
  "uuid_string bs =
     (let h = hex_string bs in
      subslice h 0 8 @ ''-'' @ subslice h 8 12 @ ''-'' @ subslice h 12 16 @ ''-'' @ subslice h 16 20 @ ''-''
        @ drop 20 h)"

text \<open>\<open>char::to_digit(16)\<close>.\<close>

definition hex_digit :: "char \<Rightarrow> nat option" where
  "hex_digit c =
     (let n = of_char c in
      if 48 \<le> n \<and> n \<le> 57 then Some (n - 48)
      else if 97 \<le> n \<and> n \<le> 102 then Some (n - 87)
      else if 65 \<le> n \<and> n \<le> 70 then Some (n - 55)
      else None)"

fun hex_pairs :: "string \<Rightarrow> bytes option" where
  "hex_pairs (a # b # rest) =
     (case (hex_digit a, hex_digit b) of
        (Some h, Some l) \<Rightarrow> map_option ((#) (of_nat (h * 16 + l))) (hex_pairs rest)
      | _ \<Rightarrow> None)"
| "hex_pairs _ = Some []"

definition hex16_of :: "string \<Rightarrow> string \<Rightarrow> string + bytes" where
  "hex16_of reason txt =
     (if length txt \<noteq> 32 then Inl reason
      else case hex_pairs txt of None \<Rightarrow> Inl reason | Some bs \<Rightarrow> Inr bs)"

definition hex16 :: "string \<Rightarrow> string \<Rightarrow> string + bytes" where
  "hex16 txt field = hex16_of (''encryption '' @ field @ '' must be 32 hex digits'') txt"

definition source_hex16 :: "string \<Rightarrow> string \<Rightarrow> string + bytes" where
  "source_hex16 txt field = hex16_of (''source_encryption '' @ field @ '' must be 32 hex digits'') txt"

definition uuid :: "string \<Rightarrow> string + bytes" where
  "uuid txt =
     (if map length (split_on (CHR ''-'') txt) \<noteq> [8, 4, 4, 4, 12]
      then Inl ''encryption system_id must be a UUID''
      else hex16 (filter (\<lambda>c. c \<noteq> CHR ''-'') txt) ''system_id'')"

section \<open>Keys\<close>

definition WIDEVINE :: bytes where
  "WIDEVINE = [0xed, 0xef, 0x8b, 0xa9, 0x79, 0xd6, 0x4a, 0xce, 0xa3, 0xc8, 0x27, 0xdc, 0xd5, 0x1d, 0x21, 0xed]"

definition FAIRPLAY :: bytes where
  "FAIRPLAY = [0x94, 0xce, 0x86, 0xfb, 0x07, 0xff, 0x4f, 0x43, 0xad, 0xb8, 0x93, 0xd2, 0xfa, 0x96, 0x8c, 0xa2]"

definition PLAYREADY :: bytes where
  "PLAYREADY = [0x9a, 0x04, 0xf0, 0x79, 0x98, 0x40, 0x42, 0x86, 0xab, 0x92, 0xe6, 0x5b, 0xe0, 0x88, 0x5f, 0x95]"

definition CLEARKEY :: bytes where
  "CLEARKEY = [0xe2, 0x71, 0x9d, 0x58, 0xa9, 0x85, 0xb3, 0xc9, 0x78, 0x1a, 0xb0, 0x30, 0xaf, 0x78, 0xd3, 0x0e]"

definition MAX_SYSTEMS :: nat where "MAX_SYSTEMS = 8"
definition MAX_PSSH_BYTES :: nat where "MAX_PSSH_BYTES = 16 * 1024"
definition MAX_URI_BYTES :: nat where "MAX_URI_BYTES = 2048"
definition MAX_PERIODS :: nat where "MAX_PERIODS = 256"

record content_key =
  ck_key_id :: bytes
  ck_key :: bytes
  ck_iv :: bytes

datatype content_keys = All_Keys content_key | Split_Keys (split_video: content_key) (split_audio: content_key)

record drm_system =
  ds_system_id :: bytes
  ds_pssh :: "bytes option"
  ds_license_url :: "string option"
  ds_hls_uri :: "string option"

datatype encryption =
  Encryption (en_keys: content_keys) (en_systems: "drm_system list") (en_periods: "key_period list")
and key_period = Key_Period (kp_start_ms: nat) (kp_encryption: "encryption option")

fun key_for :: "encryption \<Rightarrow> track_kind \<Rightarrow> content_key" where
  "key_for e kind =
     (case (en_keys e, kind) of
        (All_Keys k, _) \<Rightarrow> k
      | (Split_Keys v _, Video) \<Rightarrow> v
      | (Split_Keys _ a, Audio) \<Rightarrow> a)"

definition distinct_keys :: "encryption \<Rightarrow> content_key list" where
  "distinct_keys e =
     (case en_keys e of
        All_Keys k \<Rightarrow> [k]
      | Split_Keys v a \<Rightarrow> if v = a then [v] else [v, a])"

definition is_rotating :: "encryption \<Rightarrow> bool" where
  "is_rotating e \<longleftrightarrow> en_periods e \<noteq> []"

definition encrypted_periods :: "encryption \<Rightarrow> encryption list" where
  "encrypted_periods e = (if en_periods e = [] then [e] else List.map_filter kp_encryption (en_periods e))"

text \<open>Every key ID once, in the order of the first use.\<close>

definition push_new :: "'a list \<Rightarrow> 'a \<Rightarrow> 'a list" where
  "push_new xs x = (if x \<in> set xs then xs else xs @ [x])"

definition key_ids :: "encryption \<Rightarrow> string list" where
  "key_ids e =
     foldl (\<lambda>ids period. foldl (\<lambda>ids k. push_new ids (uuid_string (ck_key_id k))) ids (distinct_keys period))
       [] (encrypted_periods e)"

section \<open>The fingerprint\<close>

definition feed :: "bytes \<Rightarrow> bytes" where
  "feed part = be_bytes 8 (length part) @ part"

definition unwrap_or_empty :: "'a list option \<Rightarrow> 'a list" where
  "unwrap_or_empty x = (case x of None \<Rightarrow> [] | Some xs \<Rightarrow> xs)"

definition feed_key :: "(bytes \<Rightarrow> bytes) \<Rightarrow> content_key \<Rightarrow> bytes" where
  "feed_key sha k = feed (ck_key_id k) @ feed (sha (ck_key k)) @ feed (ck_iv k)"

definition feed_system :: "drm_system \<Rightarrow> bytes" where
  "feed_system s =
     feed (ds_system_id s) @ feed (unwrap_or_empty (ds_pssh s))
       @ feed (ascii (unwrap_or_empty (ds_license_url s))) @ feed (ascii (unwrap_or_empty (ds_hls_uri s)))"

fun fingerprint :: "(bytes \<Rightarrow> bytes) \<Rightarrow> encryption \<Rightarrow> bytes"
and feed_period :: "(bytes \<Rightarrow> bytes) \<Rightarrow> key_period \<Rightarrow> bytes" where
  "fingerprint sha (Encryption ks systems periods) =
     sha (concat (map (feed_key sha) (distinct_keys (Encryption ks systems periods)))
       @ concat (map feed_system systems) @ concat (map (feed_period sha) periods))"
| "feed_period sha (Key_Period start None) = feed (be_bytes 8 start) @ feed (ascii ''clear'')"
| "feed_period sha (Key_Period start (Some e)) = feed (be_bytes 8 start) @ feed (fingerprint sha e)"

section \<open>The wire form\<close>

record wire_key =
  wk_tracks :: "string option"
  wk_key_id :: string
  wk_key :: string
  wk_iv :: "string option"

record wire_system =
  ws_system_id :: string
  ws_pssh :: "string option"
  ws_license_url :: "string option"
  ws_hls_uri :: "string option"

record wire_period =
  wp_start_ms :: nat
  wp_clear :: bool
  wp_keys :: "wire_key list"
  wp_systems :: "wire_system list"

record wire_encryption =
  we_scheme :: string
  we_keys :: "wire_key list"
  we_systems :: "wire_system list"
  we_clear_lead_ms :: "nat option"
  we_periods :: "wire_period list"

text \<open>The other crates: SHA-256, base64, and the URL parser with a URL's scheme and its normal form.\<close>

record key_library =
  kl_sha256 :: "bytes \<Rightarrow> bytes"
  kl_base64_decode :: "string \<Rightarrow> bytes option"
  kl_parse_url :: "string \<Rightarrow> (string \<times> string) option"

definition derived_iv :: "key_library \<Rightarrow> bytes \<Rightarrow> bytes" where
  "derived_iv lib key_id = take 16 (kl_sha256 lib (ascii ''segmentor cbcs iv'' @ key_id))"

definition SHAPE :: string where
  "SHAPE = ''encryption keys must be one for all tracks, or one for video and one for audio''"

definition content_key_of :: "key_library \<Rightarrow> wire_key \<Rightarrow> string + content_key" where
  "content_key_of lib w =
     and_then (hex16 (wk_key_id w) ''key_id'') (\<lambda>id.
     and_then (hex16 (wk_key w) ''key'') (\<lambda>k.
     and_then (case wk_iv w of
         Some iv \<Rightarrow> hex16 iv ''iv''
       | None \<Rightarrow> and_then (hex16 (wk_key_id w) ''key_id'') (\<lambda>id. Inr (derived_iv lib id))) (\<lambda>iv.
       Inr \<lparr>ck_key_id = id, ck_key = k, ck_iv = iv\<rparr>)))"

record key_slots =
  sl_all :: "content_key option"
  sl_video :: "content_key option"
  sl_audio :: "content_key option"

definition keys_step :: "key_library \<Rightarrow> key_slots \<Rightarrow> wire_key \<Rightarrow> string + key_slots" where
  "keys_step lib slots w =
     and_then (content_key_of lib w) (\<lambda>k.
       if wk_tracks w = None \<or> wk_tracks w = Some ''all''
       then (if sl_all slots \<noteq> None then Inl SHAPE else Inr (slots\<lparr>sl_all := Some k\<rparr>))
       else if wk_tracks w = Some ''video''
       then (if sl_video slots \<noteq> None then Inl SHAPE else Inr (slots\<lparr>sl_video := Some k\<rparr>))
       else if wk_tracks w = Some ''audio''
       then (if sl_audio slots \<noteq> None then Inl SHAPE else Inr (slots\<lparr>sl_audio := Some k\<rparr>))
       else Inl ''encryption key tracks must be all, video, or audio'')"

definition keys_of :: "key_library \<Rightarrow> wire_key list \<Rightarrow> string + content_keys" where
  "keys_of lib wire =
     and_then (try_fold (keys_step lib) \<lparr>sl_all = None, sl_video = None, sl_audio = None\<rparr> wire) (\<lambda>slots.
       case (sl_all slots, sl_video slots, sl_audio slots) of
         (Some k, None, None) \<Rightarrow> Inr (All_Keys k)
       | (None, Some v, Some a) \<Rightarrow> Inr (Split_Keys v a)
       | _ \<Rightarrow> Inl SHAPE)"

text \<open>\<open>Result::ok\<close>.\<close>

definition to_option :: "'e + 'a \<Rightarrow> 'a option" where
  "to_option r = (case r of Inl _ \<Rightarrow> None | Inr x \<Rightarrow> Some x)"

definition parse_pssh :: "bytes \<Rightarrow> (bytes \<times> bytes) option" where
  "parse_pssh bs =
     Option.bind (to_option (rd_u32 (reader_new bs))) (\<lambda>(size, r1).
     if size \<noteq> length bs then None
     else
       Option.bind (to_option (rd_take r1 4)) (\<lambda>(name, r2).
       if name \<noteq> ascii ''pssh'' then None
       else
         Option.bind (to_option (rd_full_box r2)) (\<lambda>(version, r3).
         Option.bind (to_option (rd_take r3 16)) (\<lambda>(system_id, r4).
         Option.bind
           (if version = 1
            then Option.bind (to_option (rd_u32 r4)) (\<lambda>(kids, r5).
                 Option.bind (checked_mul kids 16) (\<lambda>n.
                 Option.bind (to_option (rd_take r5 n)) (\<lambda>(_, r6). Some r6)))
            else if version \<noteq> 0 then None else Some r4) (\<lambda>r7.
         Option.bind (to_option (rd_u32 r7)) (\<lambda>(data_size, r8).
         Option.bind (to_option (rd_take r8 data_size)) (\<lambda>(data, r9).
           if rd_rest r9 = [] then Some (system_id, data) else None)))))))"

definition pssh_data :: "bytes \<Rightarrow> bytes option" where
  "pssh_data pssh = map_option snd (parse_pssh pssh)"

definition decode_pssh :: "key_library \<Rightarrow> string \<Rightarrow> bytes \<Rightarrow> string + bytes" where
  "decode_pssh lib encoded system_id =
     (case kl_base64_decode lib encoded of
        None \<Rightarrow> Inl ''encryption pssh must be base64''
      | Some bs \<Rightarrow>
          if MAX_PSSH_BYTES < length bs
          then Inl (''encryption pssh is larger than '' @ decimal MAX_PSSH_BYTES @ '' bytes'')
          else case parse_pssh bs of
            Some (named, _) \<Rightarrow> if named = system_id then Inr bs else Inl ''encryption pssh names a different system_id''
          | None \<Rightarrow> Inl ''encryption pssh is not a well-formed pssh box'')"

definition license_url :: "key_library \<Rightarrow> string \<Rightarrow> string + string" where
  "license_url lib txt =
     (case kl_parse_url lib txt of
        None \<Rightarrow> Inl ''encryption license_url is not a URL''
      | Some (scheme, normal) \<Rightarrow>
          if scheme \<noteq> ''https'' \<or> MAX_URI_BYTES < length txt
          then Inl ''encryption license_url must be an https URL'' else Inr normal)"

text \<open>
  \<open>char::is_control\<close> on the bytes of a text: the C0 controls and DEL are one byte, the C1 controls are
  the two-byte sequences that begin with 0xC2 and go on with 0x80 to 0x9F.
\<close>

fun has_control :: "string \<Rightarrow> bool" where
  "has_control [] = False"
| "has_control (c # cs) =
     (of_char c < (32 :: nat) \<or> of_char c = (127 :: nat)
      \<or> (of_char c = (194 :: nat) \<and> (case cs of d # _ \<Rightarrow> 128 \<le> (of_char d :: nat) \<and> (of_char d :: nat) \<le> 159 | [] \<Rightarrow> False))
      \<or> has_control cs)"

definition hls_uri :: "string \<Rightarrow> string + string" where
  "hls_uri txt =
     (if txt = [] \<or> MAX_URI_BYTES < length txt \<or> CHR 0x22 \<in> set txt \<or> has_control txt
      then Inl ''encryption hls_uri must be 1 to 2048 characters without quotes'' else Inr txt)"

text \<open>\<open>Option::map\<close> and \<open>transpose\<close>.\<close>

definition transposed :: "('a \<Rightarrow> 'e + 'b) \<Rightarrow> 'a option \<Rightarrow> 'e + 'b option" where
  "transposed f x = (case x of None \<Rightarrow> Inr None | Some v \<Rightarrow> and_then (f v) (\<lambda>y. Inr (Some y)))"

definition systems_step :: "key_library \<Rightarrow> drm_system list \<Rightarrow> wire_system \<Rightarrow> string + drm_system list" where
  "systems_step lib systems w =
     and_then (uuid (ws_system_id w)) (\<lambda>system_id.
     if \<exists>known \<in> set systems. ds_system_id known = system_id then Inl ''encryption lists a system_id twice''
     else
       and_then (transposed (\<lambda>encoded. decode_pssh lib encoded system_id) (ws_pssh w)) (\<lambda>pssh.
       and_then (transposed (license_url lib) (ws_license_url w)) (\<lambda>license.
       and_then (transposed hls_uri (ws_hls_uri w)) (\<lambda>uri.
         if system_id = FAIRPLAY \<and> uri = None then Inl ''FairPlay needs an hls_uri''
         else Inr (systems @ [\<lparr>ds_system_id = system_id, ds_pssh = pssh, ds_license_url = license,
           ds_hls_uri = uri\<rparr>])))))"

definition systems_of :: "key_library \<Rightarrow> wire_system list \<Rightarrow> string + drm_system list" where
  "systems_of lib wire =
     (if MAX_SYSTEMS < length wire
      then Inl (''encryption lists more than '' @ decimal MAX_SYSTEMS @ '' systems'')
      else try_fold (systems_step lib) [] wire)"

definition single_period :: "key_library \<Rightarrow> wire_key list \<Rightarrow> wire_system list \<Rightarrow> string + encryption" where
  "single_period lib wire_keys wire_systems =
     and_then (keys_of lib wire_keys) (\<lambda>keys.
     and_then (systems_of lib wire_systems) (\<lambda>systems.
       if (case keys of Split_Keys _ _ \<Rightarrow> True | All_Keys _ \<Rightarrow> False) \<and> (\<exists>s \<in> set systems. ds_system_id s = FAIRPLAY)
       then Inl ''FairPlay needs one key for all tracks (encryption keys tracks \"all\")''
       else Inr (Encryption keys systems [])))"

section \<open>The timeline\<close>

definition same_key_ids :: "encryption option \<Rightarrow> encryption option \<Rightarrow> bool" where
  "same_key_ids before after =
     (case (before, after) of (Some a, Some b) \<Rightarrow> key_ids a = key_ids b | _ \<Rightarrow> False)"

text \<open>\<open>slice::windows(2)\<close>.\<close>

definition neighbours :: "'a list \<Rightarrow> ('a \<times> 'a) list" where
  "neighbours xs = zip xs (drop 1 xs)"

definition timeline :: "(nat \<times> encryption option) list \<Rightarrow> string + encryption" where
  "timeline periods =
     (if map_option fst (get_at periods 0) \<noteq> Some 0
      then Inl ''the first encryption period must start at 0''
      else if \<exists>(a, b) \<in> set (neighbours periods). fst b \<le> fst a
      then Inl ''encryption period start_ms must increase''
      else case List.map_filter snd periods of
        [] \<Rightarrow> Inl ''encryption needs at least one period with keys''
      | primary # _ \<Rightarrow>
          if \<exists>(a, b) \<in> set (neighbours periods). same_key_ids (snd a) (snd b)
          then Inl ''adjacent encryption periods must use different key_id values''
          else if length periods = 1 then Inr primary
          else Inr (Encryption (en_keys primary) (en_systems primary)
            (map (\<lambda>(start, content). Key_Period start content) periods)))"

definition period_of :: "key_library \<Rightarrow> wire_period \<Rightarrow> string + nat \<times> encryption option" where
  "period_of lib p =
     (if wp_clear p
      then (if wp_keys p \<noteq> [] \<or> wp_systems p \<noteq> []
            then Inl ''an encryption period is clear or has keys, not both''
            else Inr (wp_start_ms p, None))
      else and_then (single_period lib (wp_keys p) (wp_systems p)) (\<lambda>e. Inr (wp_start_ms p, Some e)))"

definition validate_encryption :: "key_library \<Rightarrow> wire_encryption \<Rightarrow> string + encryption" where
  "validate_encryption lib w =
     (if we_scheme w \<noteq> ''cbcs'' then Inl ''encryption scheme is not supported; only cbcs is''
      else if we_periods w = []
      then
        and_then (single_period lib (we_keys w) (we_systems w)) (\<lambda>primary.
          case we_clear_lead_ms w of
            None \<Rightarrow> Inr primary
          | Some lead \<Rightarrow> if lead = 0 then Inr primary else timeline [(0, None), (lead, Some primary)])
      else if we_keys w \<noteq> [] \<or> we_systems w \<noteq> [] \<or> we_clear_lead_ms w \<noteq> None
      then Inl ''encryption periods cannot be combined with keys, systems, or clear_lead_ms''
      else if MAX_PERIODS < length (we_periods w)
      then Inl (''encryption lists more than '' @ decimal MAX_PERIODS @ '' periods'')
      else and_then (collect_res (map (period_of lib) (we_periods w))) timeline)"

section \<open>Keys of a protected source\<close>

definition MAX_SOURCE_KEYS :: nat where "MAX_SOURCE_KEYS = 16"

record wire_source_key =
  wsk_tracks :: "string option"
  wsk_key_id :: string
  wsk_key :: string

record wire_source_encryption =
  wse_keys :: "wire_source_key list"
  wse_passthrough :: bool

record source_key =
  sk_key_id :: bytes
  sk_tracks :: "track_kind option"
  sk_key :: bytes

definition source_tracks :: "string option \<Rightarrow> string + track_kind option" where
  "source_tracks t =
     (if t = None \<or> t = Some ''all'' then Inr None
      else if t = Some ''video'' then Inr (Some Video)
      else if t = Some ''audio'' then Inr (Some Audio)
      else Inl ''source_encryption key tracks must be all, video, or audio'')"

definition source_key_of :: "wire_source_key \<Rightarrow> string + source_key" where
  "source_key_of w =
     and_then (source_tracks (wsk_tracks w)) (\<lambda>tracks.
     and_then (source_hex16 (wsk_key_id w) ''key_id'') (\<lambda>id.
     and_then (source_hex16 (wsk_key w) ''key'') (\<lambda>k.
       Inr \<lparr>sk_key_id = id, sk_tracks = tracks, sk_key = k\<rparr>)))"

definition source_keys_step :: "source_key list \<Rightarrow> wire_source_key \<Rightarrow> string + source_key list" where
  "source_keys_step keys w =
     and_then (source_key_of w) (\<lambda>k.
       if \<exists>known \<in> set keys. sk_key_id known = sk_key_id k \<and> sk_tracks known = sk_tracks k
       then Inl ''source_encryption lists a key_id twice for the same tracks''
       else Inr (keys @ [k]))"

definition validate_source :: "wire_source_encryption \<Rightarrow> string + source_key list" where
  "validate_source w =
     (if wse_passthrough w
      then Inl (if wse_keys w = [] then ''source_encryption passthrough is not supported yet''
                else ''source_encryption cannot have both keys and passthrough'')
      else if wse_keys w = [] then Inl ''source_encryption needs keys''
      else if MAX_SOURCE_KEYS < length (wse_keys w)
      then Inl (''source_encryption lists more than '' @ decimal MAX_SOURCE_KEYS @ '' keys'')
      else try_fold source_keys_step [] (wse_keys w))"

definition source_key_for :: "source_key list \<Rightarrow> bytes \<Rightarrow> track_kind \<Rightarrow> bytes option" where
  "source_key_for keys key_id kind =
     (let matching = (\<lambda>tracks. find (\<lambda>k. sk_key_id k = key_id \<and> sk_tracks k = tracks) keys) in
      map_option sk_key (case matching (Some kind) of Some k \<Rightarrow> Some k | None \<Rightarrow> matching None))"

text \<open>The entries are 49 bytes each, so their order is the order of the numbers they write.\<close>

definition source_entry :: "(bytes \<Rightarrow> bytes) \<Rightarrow> source_key \<Rightarrow> bytes" where
  "source_entry sha k =
     sk_key_id k @ [case sk_tracks k of None \<Rightarrow> 0 | Some Video \<Rightarrow> 1 | Some Audio \<Rightarrow> 2] @ take 32 (sha (sk_key k))"

definition source_fingerprint :: "(bytes \<Rightarrow> bytes) \<Rightarrow> source_key list \<Rightarrow> bytes" where
  "source_fingerprint sha keys =
     sha (ascii ''source keys'' @ concat (sort_key be_value (map (source_entry sha) keys)))"

section \<open>The key of whole-segment encryption\<close>

record aes128 =
  ak_key :: bytes
  ak_uri :: string

record wire_aes128 =
  wa_key :: string
  wa_key_uri :: string

definition aes128_fingerprint :: "(bytes \<Rightarrow> bytes) \<Rightarrow> aes128 \<Rightarrow> bytes" where
  "aes128_fingerprint sha a =
     sha (ascii ''hls aes-128'' @ sha (ak_key a) @ be_bytes 8 (length (ak_uri a)) @ ascii (ak_uri a))"

text \<open>\<open>Result::map_err\<close> with a reason that does not depend on the error.\<close>

definition map_err :: "'f \<Rightarrow> 'e + 'a \<Rightarrow> 'f + 'a" where
  "map_err reason r = (case r of Inl _ \<Rightarrow> Inl reason | Inr x \<Rightarrow> Inr x)"

definition validate_aes128 :: "wire_aes128 \<Rightarrow> string + aes128" where
  "validate_aes128 w =
     and_then (map_err ''hls_aes128 key must be 32 hex digits'' (hex16 (wa_key w) ''key'')) (\<lambda>k.
     and_then (map_err ''hls_aes128 key_uri must be 1 to 2048 characters without quotes'' (hls_uri (wa_key_uri w))) (\<lambda>uri.
       Inr \<lparr>ak_key = k, ak_uri = uri\<rparr>))"

end
