(* ===== verification/Key_Laws.thy ===== *)
theory Key_Laws
  imports Key_Material Reader_Back
begin

text \<open>
  Keys: identifiers are read back as they are written, a \<^verbatim>\<open>pssh\<close> box is exactly one well-formed box,
  what validation accepts keeps every rule of the wire format, and the fingerprint tells two
  encryptions apart unless the hash collides.
\<close>

section \<open>Identifiers\<close>

lemma hex_digit_char [simp]: "d < 16 \<Longrightarrow> hex_digit (hex_char d) = Some d"
  by (auto simp: hex_digit_def hex_char_def)

lemma hex_string_simps [simp]:
  "hex_string [] = []"
  "hex_string (b # bs) = hex_char (unat b div 16) # hex_char (unat b mod 16) # hex_string bs"
  by (simp_all add: hex_string_def hex2_def)

lemma length_hex_string [simp]: "length (hex_string bs) = 2 * length bs"
  by (induction bs) simp_all

lemma byte_div_16: "unat (b :: byte) div 16 < 16"
  using byte_less [of b] by (simp add: less_mult_imp_div_less)

lemma hex_pairs_hex_string [simp]: "hex_pairs (hex_string bs) = Some bs"
  by (induction bs) (simp_all add: byte_div_16 mult.commute [of _ 16])

lemma hex16_hex_string: "length bs = 16 \<Longrightarrow> hex16 (hex_string bs) field = Inr bs"
  by (simp add: hex16_def hex16_of_def)

lemma of_hex_char: "d < 16 \<Longrightarrow> of_char (hex_char d) = (if d < 10 then 48 + d else 87 + d :: nat)"
  by (simp add: hex_char_def)

lemma hex_char_not_dash: "d < 16 \<Longrightarrow> hex_char d \<noteq> CHR ''-''"
  using of_hex_char [of d] by (auto split: if_splits)

lemma dash_free: "CHR ''-'' \<notin> set (hex_string bs)"
  by (induction bs) (auto simp: hex_char_not_dash byte_div_16 dest: sym)

lemma split_on_dash_free: "d \<notin> set xs \<Longrightarrow> split_on d (xs @ d # ys) = xs # split_on d ys"
  by (induction xs) auto

lemma split_on_one: "d \<notin> set xs \<Longrightarrow> split_on d xs = [xs]"
  by (induction xs) auto

lemma uuid_uuid_string:
  assumes "length bs = 16"
  shows "uuid (uuid_string bs) = Inr bs"
proof -
  let ?h = "hex_string bs"
  have dash: "CHR ''-'' \<notin> set (subslice ?h a b)" "CHR ''-'' \<notin> set (drop a ?h)" for a b
    using dash_free by (auto simp: subslice_def dest: in_set_takeD in_set_dropD)
  have without: "CHR ''-'' \<notin> set xs \<Longrightarrow> filter (\<lambda>c. c \<noteq> CHR ''-'') xs = xs" for xs
    by (rule filter_True) auto
  have "split_on (CHR ''-'') (uuid_string bs) =
      [subslice ?h 0 8, subslice ?h 8 12, subslice ?h 12 16, subslice ?h 16 20, drop 20 ?h]"
    by (simp add: uuid_string_def split_on_dash_free split_on_one dash)
  moreover have "filter (\<lambda>c. c \<noteq> CHR ''-'') (uuid_string bs) =
      subslice ?h 0 8 @ subslice ?h 8 12 @ subslice ?h 12 16 @ subslice ?h 16 20 @ drop 20 ?h"
    by (simp add: uuid_string_def without dash)
  moreover have "subslice ?h 0 8 @ subslice ?h 8 12 @ subslice ?h 12 16 @ subslice ?h 16 20 @ drop 20 ?h = ?h"
    using assms by (simp add: subslice_append append_assoc [symmetric] del: append_assoc)
      (simp add: subslice_def)
  ultimately show ?thesis using assms by (simp add: uuid_def hex16_hex_string)
qed

section \<open>One pssh box\<close>

lemma bind_eq_SomeD: "Option.bind x f = Some y \<Longrightarrow> \<exists>a. x = Some a \<and> f a = Some y"
  by (cases x) auto

lemma to_option_eq_Some [simp]: "to_option r = Some x \<longleftrightarrow> r = Inr x"
  by (cases r) (auto simp: to_option_def)

lemma to_option_Inr [simp]: "to_option (Inr x) = Some x"
  by (simp add: to_option_def)

lemma taken:
  assumes "at_rest r rest" and "rd_take r n = Inr (bs, r')"
  obtains rest' where "rest = bs @ rest'" "length bs = n" "at_rest r' rest'"
  using assms rd_take_step [of r n bs r'] by (auto simp: at_rest_def)

lemma taken_u32:
  assumes "at_rest r rest" and "rd_u32 r = Inr (x, r')"
  obtains rest' where "rest = be_bytes 4 x @ rest'" "x < u32_limit" "at_rest r' rest'"
proof -
  obtain bs where bs: "rd_take r 4 = Inr (bs, r')" "x = be_value bs"
    using assms(2) by (auto simp: rd_u32_eq_Inr)
  obtain rest' where "rest = bs @ rest'" "length bs = 4" "at_rest r' rest'"
    by (rule taken [OF assms(1) bs(1)])
  then show thesis using that bs(2) be_value_bound [of bs] be_bytes_be_value [of bs] by simp
qed

lemma taken_full_box:
  assumes "at_rest r rest" and "rd_full_box r = Inr (v, r')"
  obtains flags rest' where "rest = v # flags @ rest'" "length flags = 3" "at_rest r' rest'"
proof -
  obtain r1 where r1: "rd_u8 r = Inr (v, r1)" "rd_skip r1 3 = Inr r'"
    using assms(2) by (auto simp: rd_full_box_def and_then_eq_Inr)
  have "rd_take r 1 = Inr ([v], r1)" using r1(1) assms(1) by (simp add: rd_u8_eq_Inr at_rest_def)
  then obtain rest1 where rest1: "rest = [v] @ rest1" "at_rest r1 rest1" by (rule taken [OF assms(1)])
  obtain flags where "rd_take r1 3 = Inr (flags, r')" using r1(2) by (auto simp: rd_skip_eq_Inr)
  then obtain rest' where "rest1 = flags @ rest'" "length flags = 3" "at_rest r' rest'"
    by (rule taken [OF rest1(2)])
  then show thesis using that rest1(1) by simp
qed

text \<open>The key IDs of a version 1 box; a version 0 box has none.\<close>

definition pssh_kids :: "byte \<Rightarrow> bytes \<Rightarrow> bool" where
  "pssh_kids version kids \<longleftrightarrow>
     version = 0 \<and> kids = [] \<or>
     version = 1 \<and> (\<exists>n ids. kids = be_bytes 4 n @ ids \<and> length ids = n * 16 \<and> n < u32_limit)"

definition pssh_layout :: "bytes \<Rightarrow> bytes \<Rightarrow> bytes \<Rightarrow> bool" where
  "pssh_layout bs sysid data \<longleftrightarrow>
     (\<exists>version flags kids. length flags = 3 \<and> length sysid = 16 \<and> pssh_kids version kids
       \<and> length bs < u32_limit
       \<and> bs = be_bytes 4 (length bs) @ ascii ''pssh'' @ version # flags @ sysid @ kids
           @ be_bytes 4 (length data) @ data)"

lemma pssh_kids_read:
  assumes "at_rest r rest"
    and "(if version = 1
          then Option.bind (to_option (rd_u32 r)) (\<lambda>(n, r5).
               Option.bind (checked_mul n 16) (\<lambda>m.
               Option.bind (to_option (rd_take r5 m)) (\<lambda>(_, r6). Some r6)))
          else if version \<noteq> 0 then None else Some r) = Some r'"
  obtains kids rest' where "rest = kids @ rest'" "pssh_kids version kids" "at_rest r' rest'"
proof (cases "version = 1")
  case True
  then obtain n r5 m ids where r: "rd_u32 r = Inr (n, r5)" "checked_mul n 16 = Some m"
      "rd_take r5 m = Inr (ids, r')"
    using assms(2) by (auto dest!: bind_eq_SomeD)
  obtain rest5 where rest5: "rest = be_bytes 4 n @ rest5" "n < u32_limit" "at_rest r5 rest5"
    by (rule taken_u32 [OF assms(1) r(1)])
  obtain rest' where "rest5 = ids @ rest'" "length ids = m" "at_rest r' rest'"
    by (rule taken [OF rest5(3) r(3)])
  then show thesis using that [of "be_bytes 4 n @ ids" rest'] rest5 r(2) True by (auto simp: pssh_kids_def)
next
  case False
  then show thesis using that [of "[]" rest] assms by (auto simp: pssh_kids_def split: if_splits)
qed

lemma parse_pssh_layout:
  assumes "length bs < u64_limit" and "parse_pssh bs = Some (sysid, data)"
  shows "pssh_layout bs sysid data"
proof -
  obtain r1 name r2 version r3 r4 r7 n r8 r9 where
      r: "rd_u32 (reader_new bs) = Inr (length bs, r1)" "rd_take r1 4 = Inr (ascii ''pssh'', r2)"
        "rd_full_box r2 = Inr (version, r3)" "rd_take r3 16 = Inr (sysid, r4)"
        "rd_u32 r7 = Inr (n, r8)" "rd_take r8 n = Inr (data, r9)" "rd_rest r9 = []"
      and kids: "(if version = 1
          then Option.bind (to_option (rd_u32 r4)) (\<lambda>(n, r5).
               Option.bind (checked_mul n 16) (\<lambda>m.
               Option.bind (to_option (rd_take r5 m)) (\<lambda>(_, r6). Some r6)))
          else if version \<noteq> 0 then None else Some r4) = Some r7"
    using assms(2) unfolding parse_pssh_def
    by (auto dest!: bind_eq_SomeD simp del: bind_eq_Some_conv split: if_splits)
  obtain b1 where b1: "bs = be_bytes 4 (length bs) @ b1" "length bs < u32_limit" "at_rest r1 b1"
    by (rule taken_u32 [OF at_rest_new [OF assms(1)] r(1)])
  obtain b2 where b2: "b1 = ascii ''pssh'' @ b2" "at_rest r2 b2" by (rule taken [OF b1(3) r(2)])
  obtain flags b3 where b3: "b2 = version # flags @ b3" "length flags = 3" "at_rest r3 b3"
    by (rule taken_full_box [OF b2(2) r(3)])
  obtain b4 where b4: "b3 = sysid @ b4" "length sysid = 16" "at_rest r4 b4" by (rule taken [OF b3(3) r(4)])
  obtain kid_bytes b7 where b7: "b4 = kid_bytes @ b7" "pssh_kids version kid_bytes" "at_rest r7 b7"
    by (rule pssh_kids_read [OF b4(3) kids])
  obtain b8 where b8: "b7 = be_bytes 4 n @ b8" "at_rest r8 b8" by (rule taken_u32 [OF b7(3) r(5)])
  obtain b9 where b9: "b8 = data @ b9" "length data = n" "at_rest r9 b9" by (rule taken [OF b8(2) r(6)])
  have "bs = be_bytes 4 (length bs) @ ascii ''pssh'' @ version # flags @ sysid @ kid_bytes
      @ be_bytes 4 (length data) @ data"
    using b1(1) b2(1) b3(1) b4(1) b7(1) b8(1) b9 r(7) by (simp add: at_rest_def del: be_bytes.simps)
  then show ?thesis unfolding pssh_layout_def using b1(2) b3(2) b4(2) b7(2) by blast
qed

lemma pssh_kids_back:
  assumes "at_rest r (kids @ rest)" and "pssh_kids version kids"
  obtains r' where "(if version = 1
          then Option.bind (to_option (rd_u32 r)) (\<lambda>(n, r5).
               Option.bind (checked_mul n 16) (\<lambda>m.
               Option.bind (to_option (rd_take r5 m)) (\<lambda>(_, r6). Some r6)))
          else if version \<noteq> 0 then None else Some r) = Some r'" "at_rest r' rest"
proof (cases "version = 1")
  case True
  then obtain n ids where n: "kids = be_bytes 4 n @ ids" "length ids = n * 16" "n < u32_limit"
    using assms(2) by (auto simp: pssh_kids_def)
  obtain r5 where r5: "rd_u32 r = ok (n, r5)" "at_rest r5 (ids @ rest)"
    using u32_back [of r n "ids @ rest"] assms(1) n by auto
  obtain r6 where r6: "rd_take r5 (n * 16) = ok (ids, r6)" "at_rest r6 rest"
    by (rule take_back [OF r5(2) n(2)])
  show thesis using that [of r6] r5 r6 True n(3) by (simp add: checked_mul_def)
next
  case False
  then show thesis using that [of r] assms by (auto simp: pssh_kids_def)
qed

lemma parse_pssh_of_layout:
  assumes "pssh_layout bs sysid data"
  shows "parse_pssh bs = Some (sysid, data)"
proof -
  obtain version flags kids where b: "length flags = 3" "length sysid = 16" "pssh_kids version kids"
      "length bs < u32_limit"
      "bs = be_bytes 4 (length bs) @ ascii ''pssh'' @ ([version] @ flags) @ sysid @ kids
         @ be_bytes 4 (length data) @ data @ []"
    using assms by (auto simp: pssh_layout_def)
  have "length data \<le> length bs" by (subst b(5)) simp
  then have len: "length data < u32_limit" using b(4) by simp
  have "at_rest (reader_new bs) bs" using b(4) by auto
  then obtain r1 where r1: "rd_u32 (reader_new bs) = ok (length bs, r1)"
      "at_rest r1 (ascii ''pssh'' @ ([version] @ flags) @ sysid @ kids @ be_bytes 4 (length data) @ data @ [])"
    using u32_back [OF _ b(4)] b(5) by metis
  obtain r2 where r2: "rd_take r1 4 = ok (ascii ''pssh'', r2)"
      "at_rest r2 (([version] @ flags) @ sysid @ kids @ be_bytes 4 (length data) @ data @ [])"
    by (rule take_back [OF r1(2), where n = 4]) (simp add: ascii_def)
  obtain q where q: "rd_take r2 1 = ok ([version], q)"
      "at_rest q (flags @ sysid @ kids @ be_bytes 4 (length data) @ data @ [])"
    using take_back [of r2 "[version]" _ 1] r2(2) by auto
  obtain r3 where r3: "rd_take q 3 = ok (flags, r3)" "at_rest r3 (sysid @ kids @ be_bytes 4 (length data) @ data @ [])"
    by (rule take_back [OF q(2) b(1)])
  obtain r4 where r4: "rd_take r3 16 = ok (sysid, r4)" "at_rest r4 (kids @ be_bytes 4 (length data) @ data @ [])"
    by (rule take_back [OF r3(2) b(2)])
  obtain r7 where r7: "(if version = 1
          then Option.bind (to_option (rd_u32 r4)) (\<lambda>(n, r5).
               Option.bind (checked_mul n 16) (\<lambda>m.
               Option.bind (to_option (rd_take r5 m)) (\<lambda>(_, r6). Some r6)))
          else if version \<noteq> 0 then None else Some r4) = Some r7"
      "at_rest r7 (be_bytes 4 (length data) @ data @ [])"
    by (rule pssh_kids_back [OF r4(2) b(3)])
  obtain r8 where r8: "rd_u32 r7 = ok (length data, r8)" "at_rest r8 (data @ [])"
    by (rule u32_back [OF r7(2) len])
  obtain r9 where r9: "rd_take r8 (length data) = ok (data, r9)" "at_rest r9 []"
    by (rule take_back [OF r8(2) refl])
  have "rd_full_box r2 = ok (version, r3)"
    using q(1) r3(1) by (simp add: rd_full_box_def rd_u8_def rd_skip_def)
  then show ?thesis
    unfolding parse_pssh_def using r1(1) r2(1) r4(1) r7(1) r8(1) r9 by (simp add: at_rest_def)
qed

section \<open>What validation accepts\<close>

definition content_key_ok :: "content_key \<Rightarrow> bool" where
  "content_key_ok k \<longleftrightarrow> length (ck_key_id k) = 16 \<and> length (ck_key k) = 16 \<and> length (ck_iv k) = 16"

definition keys_ok :: "content_keys \<Rightarrow> bool" where
  "keys_ok ks \<longleftrightarrow> (case ks of All_Keys k \<Rightarrow> content_key_ok k | Split_Keys v a \<Rightarrow> content_key_ok v \<and> content_key_ok a)"

definition system_ok :: "drm_system \<Rightarrow> bool" where
  "system_ok s \<longleftrightarrow>
     length (ds_system_id s) = 16
     \<and> (\<forall>p. ds_pssh s = Some p \<longrightarrow> length p \<le> MAX_PSSH_BYTES \<and> (\<exists>data. pssh_layout p (ds_system_id s) data))
     \<and> (\<forall>u. ds_license_url s = Some u \<longrightarrow> u \<noteq> [] \<and> length u < u64_limit)
     \<and> (\<forall>u. ds_hls_uri s = Some u \<longrightarrow> hls_uri u = Inr u)
     \<and> (ds_system_id s = FAIRPLAY \<longrightarrow> ds_hls_uri s \<noteq> None)"

definition systems_ok :: "drm_system list \<Rightarrow> bool" where
  "systems_ok systems \<longleftrightarrow>
     distinct (map ds_system_id systems) \<and> (\<forall>s \<in> set systems. system_ok s)"

text \<open>One period: its keys and systems, with a single key where FairPlay is named.\<close>

definition single_ok :: "encryption \<Rightarrow> bool" where
  "single_ok e \<longleftrightarrow>
     en_periods e = [] \<and> keys_ok (en_keys e) \<and> systems_ok (en_systems e) \<and> length (en_systems e) \<le> MAX_SYSTEMS
     \<and> ((\<exists>v a. en_keys e = Split_Keys v a) \<longrightarrow> FAIRPLAY \<notin> ds_system_id ` set (en_systems e))"

text \<open>
  An encryption: one period, or a timeline that starts at 0 and whose first keys are the
  encryption's own; neighbouring periods with keys have different ones.
\<close>

definition timeline_ok :: "key_period list \<Rightarrow> bool" where
  "timeline_ok ps \<longleftrightarrow>
     ps \<noteq> [] \<and> kp_start_ms (hd ps) = 0 \<and> sorted_wrt (<) (map kp_start_ms ps)
     \<and> (\<forall>p \<in> set ps. kp_start_ms p < u64_limit)
     \<and> (\<forall>p \<in> set ps. \<forall>e. kp_encryption p = Some e \<longrightarrow> single_ok e)
     \<and> (\<forall>(a, b) \<in> set (neighbours ps). \<not> same_key_ids (kp_encryption a) (kp_encryption b))"

definition encryption_ok :: "encryption \<Rightarrow> bool" where
  "encryption_ok e \<longleftrightarrow>
     (if en_periods e = [] then single_ok e
      else timeline_ok (en_periods e) \<and> length (en_periods e) \<le> MAX_PERIODS
        \<and> (\<exists>rest. encrypted_periods e = Encryption (en_keys e) (en_systems e) [] # rest))"

lemma hex_pairs_length: "hex_pairs str = Some bs \<Longrightarrow> length str = 2 * n \<Longrightarrow> length bs = n"
proof (induction str arbitrary: bs n rule: hex_pairs.induct)
  case (1 a b rest)
  then show ?case by (cases n) (auto split: option.splits)
qed auto

lemma hex16_length: "hex16 str f = Inr bs \<Longrightarrow> length bs = 16"
  using hex_pairs_length [of str bs 16] by (auto simp: hex16_def hex16_of_def split: if_splits option.splits)

lemma uuid_length: "uuid str = Inr bs \<Longrightarrow> length bs = 16"
  using hex16_length by (auto simp: uuid_def split: if_splits)

lemma content_key_of_ok:
  assumes "\<And>x. length (kl_sha256 lib x) = 32" and "content_key_of lib w = Inr k"
  shows "content_key_ok k"
  using assms by (auto simp: content_key_of_def content_key_ok_def and_then_eq_Inr derived_iv_def
      split: option.splits dest: hex16_length)

lemma keys_of_ok:
  assumes sha: "\<And>x. length (kl_sha256 lib x) = 32" and "keys_of lib ws = Inr ks"
  shows "keys_ok ks"
proof -
  let ?P = "\<lambda>sl. (\<forall>k. sl_all sl = Some k \<or> sl_video sl = Some k \<or> sl_audio sl = Some k \<longrightarrow> content_key_ok k)"
  obtain slots where slots: "try_fold (keys_step lib) \<lparr>sl_all = None, sl_video = None, sl_audio = None\<rparr> ws = Inr slots"
      "(case (sl_all slots, sl_video slots, sl_audio slots) of
         (Some k, None, None) \<Rightarrow> Inr (All_Keys k)
       | (None, Some v, Some a) \<Rightarrow> Inr (Split_Keys v a)
       | _ \<Rightarrow> Inl SHAPE) = Inr ks"
    using assms(2) by (auto simp: keys_of_def and_then_eq_Inr)
  have "?P slots"
  proof (rule try_fold_inv [where P = ?P, OF _ _ slots(1)])
    show "?P sl'" if "w \<in> set ws" "?P sl" "keys_step lib sl w = Inr sl'" for sl w sl'
      using that(2,3) content_key_of_ok [OF sha]
      by (auto simp: keys_step_def and_then_eq_Inr split: if_splits)
  qed simp
  then show ?thesis using slots(2) by (auto simp: keys_ok_def split: option.splits)
qed

text \<open>
  What is relied on of the other crates: a SHA-256 digest has 32 bytes, a decoded text is in memory, and
  so is the normal form of a URL, which is not empty.
\<close>

definition key_library_ok :: "key_library \<Rightarrow> bool" where
  "key_library_ok lib \<longleftrightarrow>
     (\<forall>x. length (kl_sha256 lib x) = 32)
     \<and> (\<forall>str b. kl_base64_decode lib str = Some b \<longrightarrow> length b < u64_limit)
     \<and> (\<forall>str scheme url. kl_parse_url lib str = Some (scheme, url) \<longrightarrow> url \<noteq> [] \<and> length url < u64_limit)"

lemma systems_step_ok:
  assumes "key_library_ok lib"
    and "systems_ok systems" and "systems_step lib systems w = Inr systems'"
  shows "systems_ok systems' \<and> length systems' = Suc (length systems)"
proof -
  obtain sysid pssh license uri where step: "uuid (ws_system_id w) = Inr sysid"
      "\<not> (\<exists>known \<in> set systems. ds_system_id known = sysid)"
      "transposed (\<lambda>encoded. decode_pssh lib encoded sysid) (ws_pssh w) = Inr pssh"
      "transposed (license_url lib) (ws_license_url w) = Inr license"
      "transposed hls_uri (ws_hls_uri w) = Inr uri" "\<not> (sysid = FAIRPLAY \<and> uri = None)"
      "systems' = systems @ [\<lparr>ds_system_id = sysid, ds_pssh = pssh, ds_license_url = license, ds_hls_uri = uri\<rparr>]"
    using assms(3) by (auto simp: systems_step_def and_then_eq_Inr split: if_splits)
  have "length p \<le> MAX_PSSH_BYTES \<and> (\<exists>data. pssh_layout p sysid data)" if some: "pssh = Some p" for p
  proof -
    obtain enc data where "kl_base64_decode lib enc = Some p" "parse_pssh p = Some (sysid, data)"
        "length p \<le> MAX_PSSH_BYTES"
      using step(3) some
      by (auto simp: transposed_def decode_pssh_def and_then_eq_Inr split: option.splits if_splits)
    then show ?thesis using parse_pssh_layout assms(1) unfolding key_library_ok_def by blast
  qed
  moreover have "u \<noteq> [] \<and> length u < u64_limit" if "license = Some u" for u
    using step(4) that assms(1)
    by (auto simp: transposed_def license_url_def and_then_eq_Inr key_library_ok_def split: option.splits if_splits)
  moreover have "hls_uri u = Inr u" if "uri = Some u" for u
    using step(5) that by (auto simp: transposed_def hls_uri_def and_then_eq_Inr split: option.splits if_splits)
  ultimately have "system_ok (last systems')"
    using step(6,7) uuid_length [OF step(1)] by (auto simp: system_ok_def)
  then show ?thesis using assms(2) step(2,7) by (auto simp: systems_ok_def)
qed

lemma systems_of_ok:
  assumes "key_library_ok lib"
    and "systems_of lib ws = Inr systems"
  shows "systems_ok systems \<and> length systems \<le> MAX_SYSTEMS"
proof -
  have "try_fold (systems_step lib) acc xs = Inr systems \<Longrightarrow> systems_ok acc \<Longrightarrow>
      systems_ok systems \<and> length systems = length acc + length xs" for acc xs
  proof (induction xs arbitrary: acc)
    case (Cons w ws)
    then obtain acc' where acc': "systems_step lib acc w = Inr acc'" "try_fold (systems_step lib) acc' ws = Inr systems"
      by (auto simp: and_then_eq_Inr)
    then show ?case using systems_step_ok [OF assms(1) Cons.prems(2) acc'(1)] Cons.IH by auto
  qed simp
  from this [of "[]" ws] show ?thesis
    using assms(2) by (auto simp: systems_of_def systems_ok_def split: if_splits)
qed

lemma single_period_ok:
  assumes "key_library_ok lib" and "single_period lib ks ws = Inr e"
  shows "single_ok e"
proof -
  obtain keys systems where step: "keys_of lib ks = Inr keys" "systems_of lib ws = Inr systems"
      "\<not> ((\<exists>v a. keys = Split_Keys v a) \<and> (\<exists>s \<in> set systems. ds_system_id s = FAIRPLAY))"
      "e = Encryption keys systems []"
    using assms(2) by (auto simp: single_period_def and_then_eq_Inr split: if_splits content_keys.splits)
  show ?thesis
    using step(3,4) keys_of_ok [OF _ step(1)] systems_of_ok [OF assms(1) step(2)] assms(1)
    by (auto simp: single_ok_def key_library_ok_def)
qed

lemma neighbours_sorted: "(\<forall>(a, b) \<in> set (neighbours xs). f a < (f b :: nat)) \<Longrightarrow> sorted_wrt (<) (map f xs)"
proof (induction xs)
  case (Cons x xs)
  then show ?case
  proof (cases xs)
    case Nil
    then show ?thesis by simp
  next
    case (Cons y ys)
    then have "f x < f y" "\<forall>(a, b) \<in> set (neighbours xs). f a < f b"
      using Cons.prems by (auto simp: neighbours_def)
    then show ?thesis using Cons.IH Cons by (auto intro: less_trans)
  qed
qed simp

lemma map_filter_Cons: "List.map_filter f (x # xs) = (case f x of None \<Rightarrow> List.map_filter f xs | Some y \<Rightarrow> y # List.map_filter f xs)"
  by (simp add: List.map_filter_def split: option.split)

lemma map_filter_map: "List.map_filter f (map g xs) = List.map_filter (f \<circ> g) xs"
  by (induction xs) (auto simp: map_filter_Cons split: option.split) 

lemma neighbours_map: "neighbours (map f xs) = map (map_prod f f) (neighbours xs)"
  by (auto simp: neighbours_def zip_map_map drop_map)

lemma timeline_result:
  assumes single: "\<And>start e. (start, Some e) \<in> set ps \<Longrightarrow> single_ok e"
    and starts: "\<And>start c. (start, c) \<in> set ps \<Longrightarrow> start < u64_limit"
    and "length ps \<le> MAX_PERIODS" and "timeline ps = Inr e"
  shows "encryption_ok e"
proof -
  obtain primary more where first: "List.map_filter snd ps = primary # more"
    using assms(4) by (auto simp: timeline_def split: if_splits list.splits)
  have conds: "map_option fst (get_at ps 0) = Some 0" "\<forall>(a, b) \<in> set (neighbours ps). fst a < fst b"
      "\<forall>(a, b) \<in> set (neighbours ps). \<not> same_key_ids (snd a) (snd b)"
    using assms(4) first by (auto simp: timeline_def not_le split: if_splits)
  have primary: "single_ok primary"
  proof -
    have "Some primary \<in> snd ` set ps"
      using first by (induction ps) (auto simp: map_filter_Cons split: option.splits)
    then show ?thesis using single by force
  qed
  show ?thesis
  proof (cases "length ps = 1")
    case True
    then have "e = primary" using assms(4) first conds by (auto simp: timeline_def split: if_splits)
    then show ?thesis using primary by (simp add: encryption_ok_def single_ok_def)
  next
    case False
    let ?ps = "map (\<lambda>(start, content). Key_Period start content) ps"
    have e: "e = Encryption (en_keys primary) (en_systems primary) ?ps"
      using assms(4) first False by (auto simp: timeline_def split: if_splits)
    have ne: "ps \<noteq> []" using first by auto
    have kp: "kp_start_ms \<circ> (\<lambda>(start, content). Key_Period start content) = fst"
        "kp_encryption \<circ> (\<lambda>(start, content). Key_Period start content) = snd" by (auto simp: fun_eq_iff)
    have "timeline_ok ?ps"
      unfolding timeline_ok_def
    proof (intro conjI)
      show "?ps \<noteq> []" using ne by simp
      show "kp_start_ms (hd ?ps) = 0"
        using conds(1) ne by (cases ps) (auto simp: get_at_def)
      show "sorted_wrt (<) (map kp_start_ms ?ps)"
        using neighbours_sorted [OF conds(2)] by (simp add: kp)
      show "\<forall>p \<in> set ?ps. kp_start_ms p < u64_limit" using starts by auto
      show "\<forall>p \<in> set ?ps. \<forall>e. kp_encryption p = Some e \<longrightarrow> single_ok e" using single by auto
      show "\<forall>(a, b) \<in> set (neighbours ?ps). \<not> same_key_ids (kp_encryption a) (kp_encryption b)"
        using conds(3) by (fastforce simp: neighbours_map)
    qed
    moreover have "encrypted_periods e = Encryption (en_keys e) (en_systems e) [] # more"
    proof -
      have "en_periods primary = []" using primary by (simp add: single_ok_def)
      then have "primary = Encryption (en_keys primary) (en_systems primary) []" by (cases primary) auto
      then show ?thesis using ne first by (simp add: e encrypted_periods_def map_filter_map kp)
    qed
    ultimately show ?thesis using ne assms(3) by (auto simp: encryption_ok_def e)
  qed
qed

text \<open>The widths of the numbers of the wire form.\<close>

definition wire_ok :: "wire_encryption \<Rightarrow> bool" where
  "wire_ok w \<longleftrightarrow>
     (\<forall>lead. we_clear_lead_ms w = Some lead \<longrightarrow> lead < u64_limit)
     \<and> (\<forall>p \<in> set (we_periods w). wp_start_ms p < u64_limit)"

lemma validated_ok:
  assumes "key_library_ok lib" and "validate_encryption lib w = Inr e" and "wire_ok w"
  shows "encryption_ok e"
proof (cases "we_periods w = []")
  case True
  then obtain primary where primary: "single_period lib (we_keys w) (we_systems w) = Inr primary"
      "e = primary \<or> (\<exists>lead. lead < u64_limit \<and> timeline [(0, None), (lead, Some primary)] = Inr e)"
    using assms(2,3) True
    by (auto simp: validate_encryption_def and_then_eq_Inr wire_ok_def split: if_splits option.splits)
  have ok: "single_ok primary" by (rule single_period_ok [OF assms(1) primary(1)])
  from primary(2) show ?thesis
  proof (elim disjE exE conjE)
    assume "e = primary"
    then show ?thesis using ok by (simp add: encryption_ok_def single_ok_def)
  next
    fix lead assume "lead < u64_limit" and line: "timeline [(0, None), (lead, Some primary)] = Inr e"
    then show ?thesis using ok by (intro timeline_result [OF _ _ _ line]) (auto simp: MAX_PERIODS_def)
  qed
next
  case False
  then obtain ps where ps: "length (we_periods w) \<le> MAX_PERIODS"
      "map (period_of lib) (we_periods w) = map Inr ps" "timeline ps = Inr e"
    using assms(2) by (auto simp: validate_encryption_def and_then_eq_Inr collect_res_eq_Inr split: if_splits)
  have "length ps = length (we_periods w)" using arg_cong [OF ps(2), of length] by simp
  moreover have "single_ok x" if x: "(start, Some x) \<in> set ps" for start x
  proof -
    have "Inr (start, Some x) \<in> set (map (period_of lib) (we_periods w))" using x ps(2) by simp
    then obtain p where "period_of lib p = Inr (start, Some x)" by auto
    then show ?thesis
      using single_period_ok [OF assms(1)] by (auto simp: period_of_def and_then_eq_Inr split: if_splits)
  qed
  moreover have "start < u64_limit" if x: "(start, c) \<in> set ps" for start c
  proof -
    have "Inr (start, c) \<in> set (map (period_of lib) (we_periods w))" using x ps(2) by simp
    then obtain p where "p \<in> set (we_periods w)" "period_of lib p = Inr (start, c)" by auto
    then show ?thesis
      using assms(3) by (auto simp: period_of_def and_then_eq_Inr wire_ok_def split: if_splits)
  qed
  ultimately show ?thesis using ps(1,3) by (intro timeline_result [of ps]) auto
qed

section \<open>The fingerprint\<close>

text \<open>Parts are fed with their lengths, so equal feeds have equal parts.\<close>

lemma feed_append_eq:
  assumes "feed a @ xs = feed b @ ys" and "length a < u64_limit" and "length b < u64_limit"
  shows "a = b" and "xs = ys"
proof -
  have "be_bytes 8 (length a) = be_bytes 8 (length b)" "a @ xs = b @ ys"
    using assms(1) by (simp_all add: feed_def append_eq_append_conv del: be_bytes.simps)
  moreover have "length a = length b"
  proof -
    have "be_value (be_bytes 8 n) = n" if "n < u64_limit" for n
      by (rule be_value_be_bytes) (use that in simp)
    then show ?thesis using calculation(1) assms(2,3) by metis
  qed
  ultimately show "a = b" and "xs = ys" by simp_all
qed

lemma ascii_inject [simp]: "ascii a = ascii b \<longleftrightarrow> a = b"
proof
  assume eq: "ascii a = ascii b"
  have "unat (of_char c :: byte) = of_char c" for c
  proof -
    have "(of_char c :: byte) = of_nat (of_char c)" by (simp only: of_nat_of_char)
    then have "unat (of_char c :: byte) = of_char c mod 256" by (simp only: unat_of_nat) simp
    then show ?thesis by simp
  qed
  then have "inj (of_char :: char \<Rightarrow> byte)"
    by (intro injI) (metis inj_of_char injD)
  then show "a = b" using eq by (simp add: ascii_def inj_map_eq_map)
qed simp

definition key_parts :: "(bytes \<Rightarrow> bytes) \<Rightarrow> content_key \<Rightarrow> bytes list" where
  "key_parts sha k = [ck_key_id k, sha (ck_key k), ck_iv k]"

definition system_parts :: "drm_system \<Rightarrow> bytes list" where
  "system_parts s = [ds_system_id s, unwrap_or_empty (ds_pssh s), ascii (unwrap_or_empty (ds_license_url s)),
     ascii (unwrap_or_empty (ds_hls_uri s))]"

definition period_parts :: "(bytes \<Rightarrow> bytes) \<Rightarrow> key_period \<Rightarrow> bytes list" where
  "period_parts sha p = [be_bytes 8 (kp_start_ms p),
     case kp_encryption p of None \<Rightarrow> ascii ''clear'' | Some e \<Rightarrow> fingerprint sha e]"

abbreviation short :: "bytes list \<Rightarrow> bool" where
  "short ps \<equiv> \<forall>p \<in> set ps. length p < u64_limit"

lemma feed_nonempty [simp]: "feed p \<noteq> []"
proof
  assume "feed p = []"
  then have "length (feed p) = 0" by simp
  then show False by (simp add: feed_def del: length_0_conv be_bytes.simps)
qed

lemma feed_concat: "concat (map feed (concat (map f xs))) = concat (map (\<lambda>x. concat (map feed (f x))) xs)"
  by (induction xs) simp_all

lemma feeds_equal:
  "concat (map feed ps) = concat (map feed qs) \<Longrightarrow> short ps \<Longrightarrow> short qs \<Longrightarrow> ps = qs"
proof (induction ps arbitrary: qs)
  case Nil
  then show ?case by (cases qs) simp_all
next
  case (Cons p ps)
  then obtain q qs' where qs: "qs = q # qs'" by (cases qs) auto
  then show ?case
    using Cons feed_append_eq [of p "concat (map feed ps)" q "concat (map feed qs')"] by auto
qed

text \<open>The texts that SHA-256 is given for a fingerprint: the keys, and the parts each after its length.\<close>

definition fed_text :: "(bytes \<Rightarrow> bytes) \<Rightarrow> encryption \<Rightarrow> bytes" where
  "fed_text sha e = concat (map feed (concat (map (key_parts sha) (distinct_keys e))
     @ concat (map system_parts (en_systems e)) @ concat (map (period_parts sha) (en_periods e))))"

definition hashed_single :: "(bytes \<Rightarrow> bytes) \<Rightarrow> encryption \<Rightarrow> bytes set" where
  "hashed_single sha e = insert (fed_text sha e) (ck_key ` set (distinct_keys e))"

definition hashed :: "(bytes \<Rightarrow> bytes) \<Rightarrow> encryption \<Rightarrow> bytes set" where
  "hashed sha e =
     hashed_single sha e \<union> (\<Union>x \<in> set (List.map_filter kp_encryption (en_periods e)). hashed_single sha x)"

lemma hashed_period:
  "p \<in> set (en_periods e) \<Longrightarrow> kp_encryption p = Some x \<Longrightarrow> hashed_single sha x \<subseteq> hashed sha e"
proof -
  have "p \<in> set ps \<Longrightarrow> kp_encryption p = Some x \<Longrightarrow> x \<in> set (List.map_filter kp_encryption ps)" for ps
    by (induction ps) (auto simp: List.map_filter_simps split: option.split)
  then show "p \<in> set (en_periods e) \<Longrightarrow> kp_encryption p = Some x \<Longrightarrow> hashed_single sha x \<subseteq> hashed sha e"
    by (auto simp: hashed_def)
qed

text \<open>No text of the one has the digest of a different text of the other.\<close>

definition no_collision :: "(bytes \<Rightarrow> bytes) \<Rightarrow> bytes set \<Rightarrow> bytes set \<Rightarrow> bool" where
  "no_collision sha xs ys \<longleftrightarrow> (\<forall>x \<in> xs. \<forall>y \<in> ys. sha x = sha y \<longrightarrow> x = y)"

lemma no_collisionD: "no_collision sha xs ys \<Longrightarrow> sha x = sha y \<Longrightarrow> x \<in> xs \<Longrightarrow> y \<in> ys \<Longrightarrow> x = y"
  by (simp add: no_collision_def)

lemma no_collision_mono: "no_collision sha xs ys \<Longrightarrow> as \<subseteq> xs \<Longrightarrow> bs \<subseteq> ys \<Longrightarrow> no_collision sha as bs"
  by (auto simp: no_collision_def)

lemma fingerprint_parts: "fingerprint sha e = sha (fed_text sha e)"
proof (cases e)
  case (Encryption ks systems periods)
  have "feed_key sha k = concat (map feed (key_parts sha k))" for k
    by (simp add: feed_key_def key_parts_def)
  moreover have "feed_system s = concat (map feed (system_parts s))" for s
    by (simp add: feed_system_def system_parts_def)
  moreover have "feed_period sha p = concat (map feed (period_parts sha p))" for p
    by (cases p; cases "kp_encryption p") (auto simp: period_parts_def)
  ultimately show ?thesis by (simp add: Encryption fed_text_def feed_concat cong: map_cong)
qed

text \<open>
  The parts of a list of systems are four each and begin with 16 bytes, those of a period two and begin
  with 8, so where the systems end can be read off the parts.
\<close>

lemma systems_parts_equal:
  assumes "\<forall>s \<in> set xs \<union> set ys. length (ds_system_id s) = 16"
    and "concat (map system_parts xs) @ ps = concat (map system_parts ys) @ qs"
    and "\<forall>p. ps \<noteq> [] \<longrightarrow> length (hd ps) = 8" and "\<forall>p. qs \<noteq> [] \<longrightarrow> length (hd qs) = 8"
  shows "list_all2 (\<lambda>x y. system_parts x = system_parts y) xs ys \<and> ps = qs"
  using assms(1,2)
proof (induction xs arbitrary: ys)
  case Nil
  then show ?case using assms(3,4) by (cases ys) (auto simp: system_parts_def)
next
  case (Cons x xs)
  then show ?case using assms(3,4) by (cases ys) (auto simp: system_parts_def)
qed

lemma system_parts_inject:
  assumes "system_ok x" and "system_ok y" and "system_parts x = system_parts y"
  shows "x = y"
proof -
  have ne: "unwrap_or_empty a = unwrap_or_empty b \<Longrightarrow> a \<noteq> Some [] \<Longrightarrow> b \<noteq> Some [] \<Longrightarrow> a = b"
    for a b :: "'c list option" by (cases a; cases b) (auto simp: unwrap_or_empty_def)
  have "\<not> pssh_layout [] sysid data" for sysid data
    by (auto simp: pssh_layout_def)
  then have "ds_pssh s \<noteq> Some [] \<and> ds_license_url s \<noteq> Some [] \<and> ds_hls_uri s \<noteq> Some []" if "system_ok s" for s
    using that by (auto simp: system_ok_def hls_uri_def)
  then show ?thesis
    using assms ne [of "ds_pssh x" "ds_pssh y"] ne [of "ds_license_url x" "ds_license_url y"]
      ne [of "ds_hls_uri x" "ds_hls_uri y"]
    by (intro drm_system.equality) (auto simp: system_parts_def)
qed

text \<open>
  Two encryptions that give the same bytes and the same signalling: a split into equal keys is the same
  as one key for all tracks.
\<close>

definition same_single :: "encryption \<Rightarrow> encryption \<Rightarrow> bool" where
  "same_single a b \<longleftrightarrow> distinct_keys a = distinct_keys b \<and> en_systems a = en_systems b"

definition same_output :: "encryption \<Rightarrow> encryption \<Rightarrow> bool" where
  "same_output a b \<longleftrightarrow>
     same_single a b
     \<and> list_all2 (\<lambda>p q. kp_start_ms p = kp_start_ms q \<and> rel_option same_single (kp_encryption p) (kp_encryption q))
         (en_periods a) (en_periods b)"

lemma key_parts_equal:
  assumes "no_collision sha (ck_key ` set (distinct_keys a)) (ck_key ` set (distinct_keys b))"
    and "concat (map (key_parts sha) (distinct_keys a)) @ concat (map system_parts s) @ concat (map (period_parts sha) ps) =
      concat (map (key_parts sha) (distinct_keys b)) @ concat (map system_parts t) @ concat (map (period_parts sha) qs)"
  shows "distinct_keys a = distinct_keys b \<and>
    concat (map system_parts s) @ concat (map (period_parts sha) ps) =
    concat (map system_parts t) @ concat (map (period_parts sha) qs)"
proof -
  have one: "x = y" if "key_parts sha x = key_parts sha y" "x \<in> set (distinct_keys a)" "y \<in> set (distinct_keys b)" for x y
    using that no_collisionD [OF assms(1), of "ck_key x" "ck_key y"] content_key.equality [of x y]
    by (auto simp: key_parts_def)
  have len: "length (concat (map (key_parts sha) ks)) = 3 * length ks" for ks
    by (induction ks) (simp_all add: key_parts_def)
  have lens: "length (concat (map system_parts s)) = 4 * length s"
      "length (concat (map (period_parts sha) ps)) = 2 * length ps" for s ps
    by (induction s, simp_all add: system_parts_def) (induction ps, simp_all add: period_parts_def)
  have two: "length (distinct_keys e) = 1 \<or> length (distinct_keys e) = 2" for e
    by (auto simp: distinct_keys_def split: content_keys.splits)
  have "3 * length (distinct_keys a) + (4 * length s + 2 * length ps) =
      3 * length (distinct_keys b) + (4 * length t + 2 * length qs)"
    using arg_cong [OF assms(2), of length] by (simp only: length_append len lens)
  then have same: "length (distinct_keys a) = length (distinct_keys b)"
    using two [of a] two [of b] by presburger
  then have "concat (map (key_parts sha) (distinct_keys a)) = concat (map (key_parts sha) (distinct_keys b))"
      and rest: "concat (map system_parts s) @ concat (map (period_parts sha) ps) =
        concat (map system_parts t) @ concat (map (period_parts sha) qs)"
    using assms(2) by (simp_all add: append_eq_append_conv len)
  moreover have "length xs = length ys \<Longrightarrow> concat (map (key_parts sha) xs) = concat (map (key_parts sha) ys) \<Longrightarrow>
      set xs \<subseteq> set (distinct_keys a) \<Longrightarrow> set ys \<subseteq> set (distinct_keys b) \<Longrightarrow> xs = ys"
    for xs ys :: "content_key list"
  proof (induction xs ys rule: list_induct2)
    case (Cons x xs y ys)
    have "length (key_parts sha x) = length (key_parts sha y)" by (simp add: key_parts_def)
    then show ?case using Cons one [of x y] by (simp add: append_eq_append_conv)
  qed simp
  ultimately show ?thesis using same by blast
qed

lemma distinct_keys_ok: "keys_ok (en_keys e) \<Longrightarrow> \<forall>k \<in> set (distinct_keys e). content_key_ok k"
  by (auto simp: keys_ok_def distinct_keys_def split: content_keys.splits if_splits)

lemma systems_equal:
  assumes "systems_ok xs" and "systems_ok ys"
    and "concat (map system_parts xs) @ concat (map (period_parts sha) ps) =
      concat (map system_parts ys) @ concat (map (period_parts sha) qs)"
  shows "xs = ys" and "concat (map (period_parts sha) ps) = concat (map (period_parts sha) qs)"
proof -
  have hd: "concat (map (period_parts sha) ps) \<noteq> [] \<longrightarrow> length (hd (concat (map (period_parts sha) ps))) = 8" for ps
    by (cases ps) (simp_all add: period_parts_def)
  have ids: "\<forall>s \<in> set xs \<union> set ys. length (ds_system_id s) = 16"
    using assms(1,2) by (auto simp: systems_ok_def system_ok_def)
  have both: "list_all2 (\<lambda>x y. system_parts x = system_parts y) xs ys \<and>
      concat (map (period_parts sha) ps) = concat (map (period_parts sha) qs)"
    by (rule systems_parts_equal [OF ids assms(3)]) (use hd in blast)+
  then show "concat (map (period_parts sha) ps) = concat (map (period_parts sha) qs)" ..
  show "xs = ys"
  proof (rule nth_equalityI)
    show "length xs = length ys" using both list_all2_lengthD by blast
    show "xs ! i = ys ! i" if "i < length xs" for i
      using both that assms(1,2)
      by (intro system_parts_inject) (auto simp: list_all2_conv_all_nth systems_ok_def)
  qed
qed

text \<open>Every part is short: the hypotheses that bound it.\<close>

lemma parts_short:
  assumes "\<And>x. length (sha x) = 32" and "\<forall>k \<in> set ks. content_key_ok k" and "systems_ok ss"
  shows "short (concat (map (key_parts sha) ks) @ concat (map system_parts ss) @ concat (map (period_parts sha) ps))"
proof -
  have "length (fingerprint sha e) = 32" for e using assms(1) by (simp add: fingerprint_parts)
  then have "\<forall>q \<in> set (period_parts sha p). length q < u64_limit" for p
    by (auto simp: period_parts_def ascii_def split: option.split)
  moreover have "\<forall>q \<in> set (system_parts s). length q < u64_limit" if "system_ok s" for s
  proof -
    have "hls_uri u = Inr u \<Longrightarrow> length u < u64_limit" for u
      by (auto simp: hls_uri_def MAX_URI_BYTES_def split: if_splits)
    then show ?thesis
      using that
      by (auto simp: system_parts_def system_ok_def unwrap_or_empty_def ascii_def MAX_PSSH_BYTES_def
          split: option.splits)
  qed
  moreover have "\<forall>q \<in> set (key_parts sha k). length q < u64_limit" if "content_key_ok k" for k
    using that assms(1) by (auto simp: key_parts_def content_key_ok_def)
  ultimately show ?thesis using assms(2,3) unfolding systems_ok_def by fastforce
qed

lemma parts_of_equal_fingerprints:
  assumes sha: "\<And>x. length (sha x) = 32" and inj: "no_collision sha (hashed_single sha a) (hashed_single sha b)"
    and "keys_ok (en_keys a)" "systems_ok (en_systems a)" "keys_ok (en_keys b)" "systems_ok (en_systems b)"
    and "fingerprint sha a = fingerprint sha b"
  shows "same_single a b" and "concat (map (period_parts sha) (en_periods a)) = concat (map (period_parts sha) (en_periods b))"
proof -
  note short = parts_short [OF sha distinct_keys_ok]
  have "fed_text sha a = fed_text sha b"
    by (rule no_collisionD [OF inj assms(7) [unfolded fingerprint_parts]]) (simp_all add: hashed_single_def)
  note texts = this [unfolded fed_text_def]
  have "concat (map (key_parts sha) (distinct_keys a)) @ concat (map system_parts (en_systems a))
      @ concat (map (period_parts sha) (en_periods a)) =
    concat (map (key_parts sha) (distinct_keys b)) @ concat (map system_parts (en_systems b))
      @ concat (map (period_parts sha) (en_periods b))"
    by (rule feeds_equal [OF texts short short]) (use assms(3-6) in simp_all)
  note keys = key_parts_equal [OF no_collision_mono [OF inj] this, unfolded hashed_single_def, OF subset_insertI subset_insertI]
  show "same_single a b"
    using keys systems_equal(1) [OF assms(4,6) conjunct2 [OF keys]] by (simp add: same_single_def)
  show "concat (map (period_parts sha) (en_periods a)) = concat (map (period_parts sha) (en_periods b))"
    by (rule systems_equal(2) [OF assms(4,6) conjunct2 [OF keys]])
qed

lemma single_parts:
  "single_ok e \<Longrightarrow> keys_ok (en_keys e) \<and> systems_ok (en_systems e)"
  by (simp add: single_ok_def)

lemma encryption_parts:
  assumes "encryption_ok e"
  shows "keys_ok (en_keys e) \<and> systems_ok (en_systems e)"
proof (cases "en_periods e = []")
  case False
  then obtain more where periods: "timeline_ok (en_periods e)"
      "encrypted_periods e = Encryption (en_keys e) (en_systems e) [] # more"
    using assms by (auto simp: encryption_ok_def)
  have "\<forall>x \<in> set (List.map_filter kp_encryption ps). \<exists>p \<in> set ps. kp_encryption p = Some x" for ps
    by (induction ps) (auto simp: map_filter_Cons split: option.splits)
  then have "single_ok (Encryption (en_keys e) (en_systems e) [])"
    using periods False by (fastforce simp: encrypted_periods_def timeline_ok_def)
  then show ?thesis by (simp add: single_ok_def)
qed (use assms in \<open>simp add: encryption_ok_def single_parts\<close>)

lemma periods_of_equal_parts:
  assumes sha: "\<And>x. length (sha x) = 32"
  shows "concat (map (period_parts sha) ps) = concat (map (period_parts sha) qs) \<Longrightarrow>
    \<forall>p \<in> set ps \<union> set qs. kp_start_ms p < u64_limit \<and> (\<forall>e. kp_encryption p = Some e \<longrightarrow> single_ok e) \<Longrightarrow>
    (\<And>p q a b. p \<in> set ps \<Longrightarrow> q \<in> set qs \<Longrightarrow> kp_encryption p = Some a \<Longrightarrow> kp_encryption q = Some b \<Longrightarrow>
      no_collision sha (hashed_single sha a) (hashed_single sha b)) \<Longrightarrow>
    list_all2 (\<lambda>p q. kp_start_ms p = kp_start_ms q \<and> rel_option same_single (kp_encryption p) (kp_encryption q)) ps qs"
proof (induction ps arbitrary: qs)
  case Nil
  then show ?case by (cases qs) (auto simp: period_parts_def)
next
  case (Cons p ps)
  then obtain q qs' where qs: "qs = q # qs'" by (cases qs) (auto simp: period_parts_def)
  have parts: "be_bytes 8 (kp_start_ms p) = be_bytes 8 (kp_start_ms q)"
      "(case kp_encryption p of None \<Rightarrow> ascii ''clear'' | Some e \<Rightarrow> fingerprint sha e) =
       (case kp_encryption q of None \<Rightarrow> ascii ''clear'' | Some e \<Rightarrow> fingerprint sha e)"
      "concat (map (period_parts sha) ps) = concat (map (period_parts sha) qs')"
    using Cons.prems(1) qs period_parts_def [of sha p] period_parts_def [of sha q]
    by (simp_all del: be_bytes.simps)
  have read: "be_value (be_bytes 8 n) = n" if "n < u64_limit" for n
    by (rule be_value_be_bytes) (use that in simp)
  have start: "kp_start_ms p = kp_start_ms q"
  proof -
    have "kp_start_ms p < u64_limit" "kp_start_ms q < u64_limit" using Cons.prems(2) qs by auto
    then show ?thesis using read parts(1) by metis
  qed
  have clear: "ascii ''clear'' \<noteq> fingerprint sha e" for e
  proof -
    have "length (fingerprint sha e) = 32" using sha by (simp add: fingerprint_parts)
    moreover have "length (ascii ''clear'') = 5" by (simp add: ascii_def)
    ultimately show ?thesis by (metis numeral_eq_iff semiring_norm(87) semiring_norm(88) num.distinct)
  qed
  have content: "rel_option same_single (kp_encryption p) (kp_encryption q)"
  proof (cases "kp_encryption p"; cases "kp_encryption q")
    fix a b assume some: "kp_encryption p = Some a" "kp_encryption q = Some b"
    then have ab: "single_ok a" "single_ok b" "fingerprint sha a = fingerprint sha b"
      using parts(2) Cons.prems(2) qs by auto
    have inj: "no_collision sha (hashed_single sha a) (hashed_single sha b)"
      by (rule Cons.prems(3) [OF _ _ some]) (use qs in simp_all)
    have "same_single a b"
      by (rule parts_of_equal_fingerprints(1) [OF sha inj _ _ _ _ ab(3)])
        (use ab single_parts in blast)+
    then show ?thesis using some by simp
  qed (use parts(2) clear clear [symmetric] in simp_all)
  have "list_all2 (\<lambda>p q. kp_start_ms p = kp_start_ms q \<and>
      rel_option same_single (kp_encryption p) (kp_encryption q)) ps qs'"
    by (rule Cons.IH [OF parts(3)]) (use Cons.prems(2,3) qs in auto)
  then show ?case using qs start content by simp
qed

end
