(* ===== verification/Key_Properties.thy ===== *)
theory Key_Properties
  imports Key_Laws "HOL-Library.Multiset"
begin

text \<open>
  The properties of keys: identifiers and \<^verbatim>\<open>pssh\<close> boxes, the rules validation keeps, the fingerprint,
  and the choice of a source key.
\<close>

section \<open>Identifiers and boxes\<close>

text \<open>
  A key ID written in hexadecimal or as a UUID is read back as the same 16 bytes.
\<close>

theorem identifiers_read_back:
  "length bs = 16 \<Longrightarrow> hex16 (hex_string bs) field = Inr bs \<and> uuid (uuid_string bs) = Inr bs"
  by (simp add: hex16_hex_string uuid_uuid_string)

theorem identifiers_read_back_witness:
  "hex16 (hex_string WIDEVINE) ''key'' = Inr WIDEVINE
    \<and> uuid (uuid_string WIDEVINE) = Inr WIDEVINE \<and> uuid_string WIDEVINE = ''edef8ba9-79d6-4ace-a3c8-27dcd51d21ed''"
proof -
  have "uuid_string WIDEVINE = ''edef8ba9-79d6-4ace-a3c8-27dcd51d21ed''" by code_simp
  then show ?thesis using identifiers_read_back [of WIDEVINE "''key''"] by (simp add: WIDEVINE_def)
qed

text \<open>
  C38 Bytes are taken as a \<^verbatim>\<open>pssh\<close> box of a system exactly when they are one whole box of version 0 or
  1 with that system's ID, any key IDs and the data, and nothing after it.
\<close>

theorem pssh_exactly_one_box:
  "length bs < u64_limit \<Longrightarrow> parse_pssh bs = Some (sysid, data) \<longleftrightarrow> pssh_layout bs sysid data"
  using parse_pssh_layout parse_pssh_of_layout by blast

abbreviation small_pssh :: bytes where
  "small_pssh \<equiv> be_bytes 4 34 @ ascii ''pssh'' @ [0, 0, 0, 0] @ WIDEVINE @ be_bytes 4 2 @ [7, 8]"

theorem pssh_exactly_one_box_witness:
  "pssh_layout small_pssh WIDEVINE [7, 8] \<and> parse_pssh (small_pssh @ [0]) = None"
proof -
  have "parse_pssh small_pssh = Some (WIDEVINE, [7, 8])" and "parse_pssh (small_pssh @ [0]) = None"
    by code_simp+
  moreover have "length small_pssh < u64_limit" by (simp add: ascii_def WIDEVINE_def)
  ultimately show ?thesis using pssh_exactly_one_box [of small_pssh WIDEVINE "[7, 8]"] by blast
qed

section \<open>Validation\<close>

text \<open>
  What validation accepts keeps the rules of the wire format: keys, IDs and IVs of 16 bytes, at most
  eight systems with distinct IDs and well-formed boxes, one key where FairPlay is named, and a
  timeline that starts at 0, increases, changes keys between neighbours, and begins with the keys the
  init segments declare.
\<close>

theorem validated_encryption:
  assumes "key_library_ok lib" and "wire_ok w" and "validate_encryption lib w = Inr e"
  shows "encryption_ok e"
  by (rule validated_ok [OF assms(1,3,2)])

abbreviation toy_library :: key_library where
  "toy_library \<equiv> \<lparr>kl_sha256 = (\<lambda>x. take 32 (x @ replicate 32 0)), kl_base64_decode = (\<lambda>_. None),
     kl_parse_url = (\<lambda>_. None)\<rparr>"

abbreviation toy_key :: wire_key where
  "toy_key \<equiv> \<lparr>wk_tracks = None, wk_key_id = ''0123456789abcdef0123456789abcdef'',
     wk_key = ''00112233445566778899aabbccddeeff'', wk_iv = None\<rparr>"

abbreviation toy_wire :: wire_encryption where
  "toy_wire \<equiv> \<lparr>we_scheme = ''cbcs'', we_keys = [toy_key], we_systems = [], we_clear_lead_ms = Some 6000,
     we_periods = []\<rparr>"

abbreviation toy_content_key :: content_key where
  "toy_content_key \<equiv> \<lparr>ck_key_id = [0x01, 0x23, 0x45, 0x67, 0x89, 0xab, 0xcd, 0xef, 0x01, 0x23, 0x45, 0x67, 0x89, 0xab,
       0xcd, 0xef],
     ck_key = [0x00, 0x11, 0x22, 0x33, 0x44, 0x55, 0x66, 0x77, 0x88, 0x99, 0xaa, 0xbb, 0xcc, 0xdd, 0xee, 0xff],
     ck_iv = ascii ''segmentor cbcs i''\<rparr>"

abbreviation toy_lead :: encryption where
  "toy_lead \<equiv> Encryption (All_Keys toy_content_key) []
     [Key_Period 0 None, Key_Period 6000 (Some (Encryption (All_Keys toy_content_key) [] []))]"

lemma toy_validated: "validate_encryption toy_library toy_wire = Inr toy_lead"
  by code_simp

theorem validated_encryption_witness: "encryption_ok toy_lead"
  by (rule validated_encryption [of toy_library toy_wire, OF _ _ toy_validated])
    (auto simp: key_library_ok_def wire_ok_def)

section \<open>The fingerprint\<close>

text \<open>
  Encryptions with the same fingerprint give the same bytes and the same signalling, period by
  period, unless two different texts that were hashed for the two of them have one SHA-256 digest.
\<close>

theorem fingerprint_tells_apart:
  assumes "encryption_ok a" and "encryption_ok b" and "\<And>x. length (sha x) = 32"
    and "fingerprint sha a = fingerprint sha b"
  shows "same_output a b \<or> (\<exists>x \<in> hashed sha a. \<exists>y \<in> hashed sha b. x \<noteq> y \<and> sha x = sha y)"
proof (rule disjCI)
  assume "\<not> (\<exists>x \<in> hashed sha a. \<exists>y \<in> hashed sha b. x \<noteq> y \<and> sha x = sha y)"
  then have inj: "no_collision sha (hashed sha a) (hashed sha b)" by (auto simp: no_collision_def)
  have first: "no_collision sha (hashed_single sha a) (hashed_single sha b)"
    by (rule no_collision_mono [OF inj]) (auto simp: hashed_def)
  have single: "same_single a b" and parts:
      "concat (map (period_parts sha) (en_periods a)) = concat (map (period_parts sha) (en_periods b))"
    using parts_of_equal_fingerprints [OF assms(3) first _ _ _ _ assms(4)] encryption_parts [OF assms(1)]
      encryption_parts [OF assms(2)] by blast+
  have "\<forall>p \<in> set (en_periods e). kp_start_ms p < u64_limit \<and> (\<forall>x. kp_encryption p = Some x \<longrightarrow> single_ok x)"
    if "encryption_ok e" for e
    using that by (cases "en_periods e = []") (auto simp: encryption_ok_def timeline_ok_def)
  then have "\<forall>p \<in> set (en_periods a) \<union> set (en_periods b).
      kp_start_ms p < u64_limit \<and> (\<forall>x. kp_encryption p = Some x \<longrightarrow> single_ok x)"
    using assms(1,2) by blast
  moreover have "no_collision sha (hashed_single sha x) (hashed_single sha y)"
    if "p \<in> set (en_periods a)" "q \<in> set (en_periods b)" "kp_encryption p = Some x" "kp_encryption q = Some y" for p q x y
    by (rule no_collision_mono [OF inj]) (use hashed_period that in blast)+
  ultimately show "same_output a b"
    unfolding same_output_def using single periods_of_equal_parts [OF assms(3) parts] by blast
qed

abbreviation pad_hash :: "bytes \<Rightarrow> bytes" where
  "pad_hash x \<equiv> take 32 (x @ replicate 32 0)"

theorem fingerprint_tells_apart_witness:
  "same_output (Encryption (All_Keys toy_content_key) [] [])
      (Encryption (Split_Keys toy_content_key toy_content_key) [] [])"
proof -
  let ?a = "Encryption (All_Keys toy_content_key) [] []"
  let ?b = "Encryption (Split_Keys toy_content_key toy_content_key) [] []"
  have eq: "fingerprint pad_hash ?a = fingerprint pad_hash ?b" by (simp add: distinct_keys_def)
  have "hashed pad_hash ?a = {fed_text pad_hash ?a, ck_key toy_content_key}"
      "hashed pad_hash ?b = {fed_text pad_hash ?a, ck_key toy_content_key}"
    by (auto simp: hashed_def hashed_single_def distinct_keys_def fed_text_def List.map_filter_simps)
  moreover have "pad_hash (fed_text pad_hash ?a) \<noteq> pad_hash (ck_key toy_content_key)" by code_simp
  ultimately have "\<not> (\<exists>x \<in> hashed pad_hash ?a. \<exists>y \<in> hashed pad_hash ?b. x \<noteq> y \<and> pad_hash x = pad_hash y)"
    by auto
  moreover have "same_output ?a ?b \<or> (\<exists>x \<in> hashed pad_hash ?a. \<exists>y \<in> hashed pad_hash ?b. x \<noteq> y \<and> pad_hash x = pad_hash y)"
    by (rule fingerprint_tells_apart [OF _ _ _ eq])
      (simp_all add: encryption_ok_def single_ok_def keys_ok_def content_key_ok_def systems_ok_def ascii_def)
  ultimately show ?thesis by blast
qed

section \<open>Source keys\<close>

lemma source_keys_fold:
  "try_fold source_keys_step acc ws = Inr keys \<Longrightarrow>
    distinct (map (\<lambda>k. (sk_key_id k, sk_tracks k)) acc) \<and> (\<forall>k \<in> set acc. length (sk_key_id k) = 16 \<and> length (sk_key k) = 16) \<Longrightarrow>
    distinct (map (\<lambda>k. (sk_key_id k, sk_tracks k)) keys) \<and> (\<forall>k \<in> set keys. length (sk_key_id k) = 16 \<and> length (sk_key k) = 16)"
proof (induction ws arbitrary: acc)
  case (Cons w ws)
  have hex: "source_hex16 s f = Inr bs \<Longrightarrow> length bs = 16" for s f bs
    using hex_pairs_length [of s bs 16] by (auto simp: source_hex16_def hex16_of_def split: if_splits option.splits)
  obtain k where k: "source_key_of w = Inr k" "try_fold source_keys_step (acc @ [k]) ws = Inr keys"
      "\<not> (\<exists>known \<in> set acc. sk_key_id known = sk_key_id k \<and> sk_tracks known = sk_tracks k)"
  proof -
    obtain acc' where "source_keys_step acc w = Inr acc'" "try_fold source_keys_step acc' ws = Inr keys"
      using Cons.prems(1) by (auto simp: and_then_eq_Inr)
    then show thesis by (auto simp: source_keys_step_def and_then_eq_Inr split: if_splits intro: that)
  qed
  have "length (sk_key_id k) = 16 \<and> length (sk_key k) = 16"
    using k(1) hex by (auto simp: source_key_of_def and_then_eq_Inr)
  then show ?case using Cons.prems(2) k(3) by (intro Cons.IH [OF k(2)]) auto
qed simp

definition pair_of :: "source_key \<Rightarrow> bytes \<times> track_kind option" where
  "pair_of k = (sk_key_id k, sk_tracks k)"

lemma find_pair:
  "distinct (map pair_of keys) \<Longrightarrow>
    find (\<lambda>k. sk_key_id k = key_id \<and> sk_tracks k = t) keys = Some x \<longleftrightarrow> x \<in> set keys \<and> pair_of x = (key_id, t)"
  by (induction keys) (auto simp: pair_of_def image_iff)

lemma lookup_in_set:
  assumes "distinct (map pair_of keys)"
  shows "source_key_for keys key_id kind = Some k \<longleftrightarrow>
      \<lparr>sk_key_id = key_id, sk_tracks = Some kind, sk_key = k\<rparr> \<in> set keys
      \<or> (\<nexists>k'. \<lparr>sk_key_id = key_id, sk_tracks = Some kind, sk_key = k'\<rparr> \<in> set keys)
        \<and> \<lparr>sk_key_id = key_id, sk_tracks = None, sk_key = k\<rparr> \<in> set keys"
proof -
  have found: "(\<exists>x. find (\<lambda>k. sk_key_id k = key_id \<and> sk_tracks k = t) keys = Some x \<and> sk_key x = k) \<longleftrightarrow>
      \<lparr>sk_key_id = key_id, sk_tracks = t, sk_key = k\<rparr> \<in> set keys" for t k
  proof
    assume "\<exists>x. find (\<lambda>k. sk_key_id k = key_id \<and> sk_tracks k = t) keys = Some x \<and> sk_key x = k"
    then obtain x where "x \<in> set keys" "pair_of x = (key_id, t)" "sk_key x = k"
      using find_pair [OF assms] by blast
    moreover from this have "x = \<lparr>sk_key_id = key_id, sk_tracks = t, sk_key = k\<rparr>"
      by (intro source_key.equality) (auto simp: pair_of_def)
    ultimately show "\<lparr>sk_key_id = key_id, sk_tracks = t, sk_key = k\<rparr> \<in> set keys" by simp
  qed (use find_pair [OF assms] in \<open>fastforce simp: pair_of_def\<close>)
  show ?thesis
    using found [of "Some kind" k] found [of None k] found [of "Some kind"]
    by (auto simp: source_key_for_def split: option.splits)
qed

lemma source_fingerprint_mset:
  assumes "mset keys' = mset keys" and "\<And>x. 32 \<le> length (sha x)" and "\<forall>k \<in> set keys. length (sk_key_id k) = 16"
  shows "source_fingerprint sha keys' = source_fingerprint sha keys"
proof -
  have "\<forall>e \<in> set (map (source_entry sha) keys). length e = 49"
    using assms(2,3) by (auto simp: source_entry_def)
  then have "inj_on be_value (set (map (source_entry sha) keys))"
    by (intro inj_onI) (metis be_bytes_be_value)
  moreover have "set (map (source_entry sha) keys') = set (map (source_entry sha) keys)"
    using mset_eq_setD [OF assms(1)] by simp
  ultimately have "sort_key be_value (map (source_entry sha) keys') = sort_key be_value (map (source_entry sha) keys)"
    using assms(1) by (intro sort_key_inj_key_eq) simp_all
  then show ?thesis by (simp add: source_fingerprint_def)
qed

text \<open>
  The key for a track is the one listed for its key ID and its kind of track, or else the one for
  any track; there is at most one of each, so the order of the list does not matter to the choice, nor
  to the fingerprint.
\<close>

theorem source_key_lookup:
  assumes "validate_source w = Inr keys" and "\<And>x. 32 \<le> length (sha x)"
  shows "(source_key_for keys key_id kind = Some k \<longleftrightarrow>
      \<lparr>sk_key_id = key_id, sk_tracks = Some kind, sk_key = k\<rparr> \<in> set keys
      \<or> (\<nexists>k'. \<lparr>sk_key_id = key_id, sk_tracks = Some kind, sk_key = k'\<rparr> \<in> set keys)
        \<and> \<lparr>sk_key_id = key_id, sk_tracks = None, sk_key = k\<rparr> \<in> set keys)
    \<and> (\<forall>keys'. mset keys' = mset keys \<longrightarrow> source_fingerprint sha keys' = source_fingerprint sha keys
        \<and> source_key_for keys' key_id kind = source_key_for keys key_id kind)"
proof -
  have "try_fold source_keys_step [] (wse_keys w) = Inr keys"
    using assms(1) by (auto simp: validate_source_def split: if_splits)
  note facts = source_keys_fold [OF this]
  have distinct: "distinct (map pair_of keys)" and sizes: "\<forall>k \<in> set keys. length (sk_key_id k) = 16"
    using facts by (simp_all add: pair_of_def [abs_def])
  have chosen: "source_key_for keys' key_id kind = source_key_for keys key_id kind" if same: "mset keys' = mset keys" for keys'
  proof -
    have "distinct (map pair_of keys')"
      using distinct same by (metis mset_eq_imp_distinct_iff mset_map)
    then have "source_key_for keys' key_id kind = Some k \<longleftrightarrow> source_key_for keys key_id kind = Some k" for k
      by (simp add: lookup_in_set distinct mset_eq_setD [OF same])
    then show ?thesis by (metis not_None_eq)
  qed
  show ?thesis
    by (intro conjI allI impI lookup_in_set [OF distinct] chosen)
      (erule source_fingerprint_mset [OF _ assms(2) sizes])
qed

abbreviation toy_source :: wire_source_encryption where
  "toy_source \<equiv> \<lparr>wse_keys =
     [\<lparr>wsk_tracks = None, wsk_key_id = ''0123456789abcdef0123456789abcdef'', wsk_key = ''00000000000000000000000000000000''\<rparr>,
      \<lparr>wsk_tracks = Some ''audio'', wsk_key_id = ''0123456789abcdef0123456789abcdef'',
        wsk_key = ''ffffffffffffffffffffffffffffffff''\<rparr>], wse_passthrough = False\<rparr>"

abbreviation toy_id :: bytes where
  "toy_id \<equiv> [0x01, 0x23, 0x45, 0x67, 0x89, 0xab, 0xcd, 0xef, 0x01, 0x23, 0x45, 0x67, 0x89, 0xab, 0xcd, 0xef]"

abbreviation toy_keys :: "source_key list" where
  "toy_keys \<equiv> [\<lparr>sk_key_id = toy_id, sk_tracks = None, sk_key = replicate 16 0\<rparr>,
     \<lparr>sk_key_id = toy_id, sk_tracks = Some Audio, sk_key = replicate 16 255\<rparr>]"

theorem source_key_lookup_witness:
  "source_key_for toy_keys toy_id Audio = Some (replicate 16 255)
    \<and> source_fingerprint pad_hash (rev toy_keys) = source_fingerprint pad_hash toy_keys"
proof -
  have valid: "validate_source toy_source = Inr toy_keys" by code_simp
  have hash: "32 \<le> length (pad_hash x)" for x by simp
  note facts = source_key_lookup [of toy_source toy_keys pad_hash, OF valid hash]
  show ?thesis
  proof (rule conjI)
    show "source_key_for toy_keys toy_id Audio = Some (replicate 16 255)"
      using conjunct1 [OF facts, of toy_id Audio "replicate 16 255"] by simp
    show "source_fingerprint pad_hash (rev toy_keys) = source_fingerprint pad_hash toy_keys"
      using conjunct2 [OF facts, rule_format, of "rev toy_keys"] by (simp only: mset_rev)
  qed
qed

end
