(* ===== verification/Source_Metadata.thy ===== *)
theory Source_Metadata
  imports Config_Limits Fragment_Reader
begin

text \<open>
  Finding \<^verbatim>\<open>moov\<close> and every \<^verbatim>\<open>moof\<close> of a source (\<^verbatim>\<open>src/src/source/metadata.rs\<close>): reads through a window,
  the walk over the top-level boxes, the fragments a \<^verbatim>\<open>sidx\<close> lists, and files cut off in a fragment.
  A source is its length and a way to read a range of it; reading is I/O, so it is a parameter.
\<close>

definition MAX_OTHER_BOXES :: nat where "MAX_OTHER_BOXES = 4096"
definition WINDOW :: nat where "WINDOW = 8 * 1024"
definition MIN_PARALLEL_REFERENCES :: nat where "MIN_PARALLEL_REFERENCES = 4"
definition MAX_SIDX_BYTES :: nat where "MAX_SIDX_BYTES = 1024 * 1024"

record media_source =
  ms_len :: nat
  ms_read :: "byte_range \<Rightarrow> bytes res"

record metadata =
  md_len :: nat
  md_moov :: byte_range
  md_moov_bytes :: bytes
  md_fragments :: "fragment list"
  md_discovery :: discovery
  md_dropped :: "dropped_tail option"

section \<open>Reads through a window\<close>

record windowed_reader =
  wr_start :: nat
  wr_window :: bytes

definition reader_at_start :: windowed_reader where
  "reader_at_start = \<lparr>wr_start = 0, wr_window = []\<rparr>"

text \<open>What a read returns, and the window after it; after an error the walk may go on reading.\<close>

type_synonym 'a windowed = "windowed_reader \<Rightarrow> 'a res \<times> windowed_reader"

definition w_bind :: "'a windowed \<Rightarrow> ('a \<Rightarrow> 'b windowed) \<Rightarrow> 'b windowed" where
  "w_bind p f w = (case p w of (Inl e, w') \<Rightarrow> (Inl e, w') | (Inr x, w') \<Rightarrow> f x w')"

definition w_lift :: "'a res \<Rightarrow> 'a windowed" where
  "w_lift r w = (r, w)"

definition cut_window :: "nat \<Rightarrow> nat \<Rightarrow> bytes windowed" where
  "cut_window off n w =
     (let start = off - wr_start w in (slice (wr_window w) start (start + n), w))"

definition read_window :: "media_source \<Rightarrow> nat \<Rightarrow> nat \<Rightarrow> bytes windowed" where
  "read_window src off n w =
     (case checked_add off n of
        None \<Rightarrow> (fail (InvalidMedia ''box range overflows''), w)
      | Some e \<Rightarrow>
          if off < wr_start w \<or> wr_start w + length (wr_window w) < e
          then
            (case ms_read src (byte_range_new off (min (max n WINDOW) (wsub64 (ms_len src) off))) of
               Inl err \<Rightarrow> (Inl err, w)
             | Inr bs \<Rightarrow> cut_window off n \<lparr>wr_start = off, wr_window = bs\<rparr>)
          else cut_window off n w)"

record box_header =
  bh_name :: bytes
  bh_size :: nat

definition bad_top_level :: error where
  "bad_top_level = InvalidMedia ''invalid top-level MP4 box size''"

text \<open>The declared size and the size of the header; an extended size needs a second read.\<close>

definition declared_size :: "media_source \<Rightarrow> nat \<Rightarrow> nat \<Rightarrow> nat \<Rightarrow> (nat \<times> nat) windowed" where
  "declared_size src off e size32 =
     (if size32 = 1
      then
        if e - off < 16 then w_lift (fail bad_top_level)
        else w_bind (read_window src (off + 8) 8) (\<lambda>extended.
          w_lift (and_then (slice extended 0 8) (\<lambda>bs. ok (be_value bs, 16))))
      else if size32 = 0 then w_lift (ok (e - off, 8))
      else w_lift (ok (size32, 8)))"

definition read_header :: "media_source \<Rightarrow> nat \<Rightarrow> nat \<Rightarrow> box_header windowed" where
  "read_header src off e =
     (if e - off < 8 then w_lift (fail bad_top_level)
      else
        w_bind (read_window src off 8) (\<lambda>header.
        w_bind (w_lift (slice header 0 4)) (\<lambda>size_bytes.
        w_bind (w_lift (slice header 4 8)) (\<lambda>name.
        w_bind (declared_size src off e (be_value size_bytes)) (\<lambda>(size, header_size).
          w_lift
            (if size < header_size \<or> (case checked_add off size of None \<Rightarrow> True | Some box_end \<Rightarrow> e < box_end)
             then fail bad_top_level
             else ok \<lparr>bh_name = name, bh_size = size\<rparr>))))))"

section \<open>The segment index\<close>

record coverage =
  cv_start :: nat
  cv_sizes :: "nat list"

definition coverage_end :: "coverage \<Rightarrow> nat option" where
  "coverage_end c =
     foldl (\<lambda>e size. case e of None \<Rightarrow> None | Some x \<Rightarrow> checked_add x size) (Some (cv_start c)) (cv_sizes c)"

fun sidx_sizes :: "bytes \<Rightarrow> nat \<Rightarrow> nat \<Rightarrow> nat list option" where
  "sidx_sizes payload at 0 = Some []"
| "sidx_sizes payload at (Suc n) =
     Option.bind (get_slice payload at (at + 12)) (\<lambda>entry.
       let word = be_value (take 4 entry) in
       if 2147483648 \<le> word \<or> word = 0 then None
       else map_option ((#) word) (sidx_sizes payload (at + 12) n))"

definition parse_sidx :: "bytes \<Rightarrow> nat \<Rightarrow> nat \<Rightarrow> coverage option" where
  "parse_sidx payload sidx_end max_references =
     Option.bind (get_at payload 0) (\<lambda>version.
     Option.bind
       (if version = 0
        then map_option (\<lambda>bs. (be_value bs, 20)) (get_slice payload 16 20)
        else map_option (\<lambda>bs. (be_value bs, 28)) (get_slice payload 20 28)) (\<lambda>(first_offset, after).
     let count_at = after + 2 in
     Option.bind (get_slice payload count_at (count_at + 2)) (\<lambda>count_bytes.
     let count = be_value count_bytes in
     if count < MIN_PARALLEL_REFERENCES \<or> max_references < count then None
     else
       Option.bind (sidx_sizes payload (count_at + 2) count) (\<lambda>sizes.
       Option.bind (checked_add sidx_end first_offset) (\<lambda>start.
         Some \<lparr>cv_start = start, cv_sizes = sizes\<rparr>)))))"

lemma read_header_size: "read_header src off e w = (Inr h, w') \<Longrightarrow> 8 \<le> bh_size h \<and> off + bh_size h \<le> e"
  by (auto simp: read_header_def declared_size_def w_bind_def w_lift_def and_then_eq_Inr
    split: prod.splits sum.splits if_splits option.splits)

text \<open>
  Every \<^verbatim>\<open>moof\<close> between two offsets, or none if what is there is not whole boxes that start a
  fragment; a read that fails is an error.
\<close>

function subsegment_loop ::
    "media_source \<Rightarrow> nat \<Rightarrow> nat \<Rightarrow> fragment list \<Rightarrow> windowed_reader \<Rightarrow> fragment list option res" where
  "subsegment_loop src off e found w =
     (if e \<le> off then ok (if found = [] then None else Some found)
      else
        (case read_header src off e w of
           (Inl (Fail (InvalidMedia _)), _) \<Rightarrow> ok None
         | (Inl err, _) \<Rightarrow> Inl err
         | (Inr header, w1) \<Rightarrow>
             if bh_name header = ascii ''moof''
             then
               (case read_window src off (bh_size header) w1 of
                  (Inl err, _) \<Rightarrow> Inl err
                | (Inr bs, w2) \<Rightarrow>
                    subsegment_loop src (off + bh_size header) e (found @ [\<lparr>fr_offset = off, fr_bytes = bs\<rparr>]) w2)
             else subsegment_loop src (off + bh_size header) e found w1))"
  by pat_completeness auto
termination
  by (relation "measure (\<lambda>(src, off, e, found, w). e - off)")
    (auto dest!: read_header_size [OF sym] read_header_size)

declare subsegment_loop.simps [simp del]

definition walk_subsegment :: "media_source \<Rightarrow> nat \<Rightarrow> nat \<Rightarrow> fragment list option res" where
  "walk_subsegment src start e = subsegment_loop src start e [] reader_at_start"

fun coverage_ranges :: "nat \<Rightarrow> nat list \<Rightarrow> (nat \<times> nat) list" where
  "coverage_ranges off [] = []"
| "coverage_ranges off (n # sizes) = (off, off + n) # coverage_ranges (off + n) sizes"

text \<open>
  The subsegments finish in some order, which is the scheduler's: the first one that fails, or that is
  not what the \<^verbatim>\<open>sidx\<close> said, decides; otherwise the fragments come in the order of the ranges.
\<close>

fun collect_finished ::
    "media_source \<Rightarrow> (nat \<times> nat) list \<Rightarrow> fragment list option list \<Rightarrow> nat list \<Rightarrow> fragment list option res" where
  "collect_finished src ranges results [] = ok (Some (concat (List.map_filter (\<lambda>r. r) results)))"
| "collect_finished src ranges results (i # order) =
     and_then (index_at ranges i) (\<lambda>(start, e).
     and_then (walk_subsegment src start e) (\<lambda>r.
       case r of
         None \<Rightarrow> ok None
       | Some fs \<Rightarrow> collect_finished src ranges (results[i := Some fs]) order))"

definition fetch_by_sidx ::
    "media_source \<Rightarrow> (nat \<Rightarrow> nat list) \<Rightarrow> coverage \<Rightarrow> fragment list option res" where
  "fetch_by_sidx src order c =
     (let ranges = coverage_ranges (cv_start c) (cv_sizes c) in
      collect_finished src ranges (replicate (length ranges) None) (order (length ranges)))"

section \<open>Files cut off\<close>

datatype cut = Cut_Header | Cut_Moof | Cut_Mdat

definition cut_size :: "media_source \<Rightarrow> nat \<Rightarrow> nat \<Rightarrow> nat \<Rightarrow> (nat + cut option) windowed" where
  "cut_size src off remaining size32 =
     (if size32 = 0 then w_lift (ok (Inr None))
      else if size32 = 1 \<and> remaining < 16 then w_lift (ok (Inr (Some Cut_Header)))
      else if size32 = 1
      then w_bind (read_window src (off + 8) 8) (\<lambda>bs. w_lift (and_then (slice bs 0 8) (\<lambda>v. ok (Inl (be_value v)))))
      else if size32 < 8 then w_lift (ok (Inr None))
      else w_lift (ok (Inl size32)))"

definition cut_box :: "media_source \<Rightarrow> nat \<Rightarrow> nat \<Rightarrow> cut option windowed" where
  "cut_box src off len =
     (let remaining = len - off in
      if remaining < 8 then w_lift (ok (Some Cut_Header))
      else
        w_bind (read_window src off 8) (\<lambda>header.
        w_bind (w_lift (slice header 0 4)) (\<lambda>size_bytes.
        w_bind (w_lift (slice header 4 8)) (\<lambda>name.
        w_bind (cut_size src off remaining (be_value size_bytes)) (\<lambda>declared.
          w_lift (ok
            (case declared of
               Inr result \<Rightarrow> result
             | Inl sz \<Rightarrow>
                 if sz \<le> remaining then None
                 else if name = ascii ''moof'' then Some Cut_Moof
                 else if name = ascii ''mdat'' then Some Cut_Mdat
                 else None)))))))"

section \<open>The walk\<close>

record walk =
  wk_reader :: windowed_reader
  wk_moov :: "(byte_range \<times> bytes) option"
  wk_fragments :: "fragment list"
  wk_metadata_bytes :: nat
  wk_other_boxes :: nat
  wk_media_boxes :: nat
  wk_discovery :: discovery
  wk_dropped :: "dropped_tail option"
  wk_last_moof :: "nat option"
  wk_pending :: "coverage option"

definition walk_new :: walk where
  "walk_new = \<lparr>wk_reader = reader_at_start, wk_moov = None, wk_fragments = [], wk_metadata_bytes = 0,
     wk_other_boxes = 0, wk_media_boxes = 0, wk_discovery = Sequential, wk_dropped = None,
     wk_last_moof = None, wk_pending = None\<rparr>"

definition too_many_fragments :: "limits \<Rightarrow> error" where
  "too_many_fragments l = Unsupported (''the file has more than '' @ decimal (max_fragments l)
     @ '' fragments, the limit set by limits.max_fragments'')"

definition too_many_boxes :: error where
  "too_many_boxes = InvalidMedia ''too many top-level MP4 boxes''"

definition count_other :: "walk \<Rightarrow> walk res" where
  "count_other w =
     (if MAX_OTHER_BOXES < wk_other_boxes w + 1 then fail too_many_boxes
      else ok (w\<lparr>wk_other_boxes := wk_other_boxes w + 1\<rparr>))"

definition add_metadata_bytes :: "limits \<Rightarrow> nat \<Rightarrow> walk \<Rightarrow> walk res" where
  "add_metadata_bytes l n w =
     (if max_metadata_bytes l < saturating_add (wk_metadata_bytes w) n
      then fail (InvalidMedia ''moov and moof boxes exceed configured metadata limit'')
      else ok (w\<lparr>wk_metadata_bytes := saturating_add (wk_metadata_bytes w) n\<rparr>))"

text \<open>A read in the walk: its reader goes on from where the read left it.\<close>

definition walk_read :: "media_source \<Rightarrow> nat \<Rightarrow> nat \<Rightarrow> walk \<Rightarrow> (bytes \<times> walk) res" where
  "walk_read src off n w =
     (case read_window src off n (wk_reader w) of
        (Inl e, _) \<Rightarrow> Inl e
      | (Inr bs, r) \<Rightarrow> ok (bs, w\<lparr>wk_reader := r\<rparr>))"

definition record_moov :: "media_source \<Rightarrow> limits \<Rightarrow> nat \<Rightarrow> nat \<Rightarrow> walk \<Rightarrow> walk res" where
  "record_moov src l off sz w =
     (if max_metadata_bytes l < sz then fail (InvalidMedia ''moov exceeds configured metadata limit'')
      else and_then (walk_read src off sz w) (\<lambda>(bs, w1).
        ok (w1\<lparr>wk_moov := Some (byte_range_new off sz, bs)\<rparr>)))"

definition record_moof :: "media_source \<Rightarrow> limits \<Rightarrow> nat \<Rightarrow> nat \<Rightarrow> walk \<Rightarrow> walk res" where
  "record_moof src l off sz w =
     (if max_fragments l \<le> length (wk_fragments w) then fail (too_many_fragments l)
      else
        and_then (add_metadata_bytes l sz w) (\<lambda>w1.
        and_then (walk_read src off sz w1) (\<lambda>(bs, w2).
          ok (w2\<lparr>wk_fragments := wk_fragments w2 @ [\<lparr>fr_offset = off, fr_bytes = bs\<rparr>], wk_last_moof := Some off\<rparr>))))"

definition record_sidx :: "media_source \<Rightarrow> limits \<Rightarrow> nat \<Rightarrow> nat \<Rightarrow> walk \<Rightarrow> walk res" where
  "record_sidx src l off sz w =
     and_then (count_other w) (\<lambda>w1.
       if sz \<le> MAX_SIDX_BYTES
       then and_then (walk_read src (off + 8) (sz - 8) w1) (\<lambda>(payload, w2).
         ok (w2\<lparr>wk_pending := parse_sidx payload (off + sz) (max_fragments l)\<rparr>))
       else ok w1)"

definition record_mdat :: "limits \<Rightarrow> walk \<Rightarrow> walk res" where
  "record_mdat l w =
     (if saturating_add (max_fragments l) 16 < wk_media_boxes w + 1 then fail too_many_boxes
      else ok (w\<lparr>wk_media_boxes := wk_media_boxes w + 1\<rparr>))"

definition record_box :: "media_source \<Rightarrow> limits \<Rightarrow> nat \<Rightarrow> box_header \<Rightarrow> bool \<Rightarrow> walk \<Rightarrow> walk res" where
  "record_box src l off header use_sidx w =
     (if bh_name header = ascii ''moov'' then record_moov src l off (bh_size header) w
      else if bh_name header = ascii ''moof'' then record_moof src l off (bh_size header) w
      else if bh_name header = ascii ''sidx'' \<and> use_sidx \<and> wk_fragments w = [] \<and> wk_pending w = None
      then record_sidx src l off (bh_size header) w
      else if bh_name header = ascii ''mdat'' then record_mdat l w
      else count_other w)"

text \<open>Where the walk goes on when a \<^verbatim>\<open>sidx\<close> said the fragments start here.\<close>

definition try_jump ::
    "media_source \<Rightarrow> limits \<Rightarrow> (nat \<Rightarrow> nat list) \<Rightarrow> nat \<Rightarrow> walk \<Rightarrow> (nat option \<times> walk) res" where
  "try_jump src l order off w =
     (case wk_pending w of
        None \<Rightarrow> ok (None, w)
      | Some c \<Rightarrow>
          if off < cv_start c then ok (None, w)
          else
            (let w1 = w\<lparr>wk_pending := None\<rparr> in
             if off \<noteq> cv_start c then ok (None, w1)
             else
               (case coverage_end c of
                  None \<Rightarrow> ok (None, w1)
                | Some e \<Rightarrow>
                    if ms_len src < e then ok (None, w1)
                    else
                      and_then (fetch_by_sidx src order c) (\<lambda>found.
                        case found of
                          None \<Rightarrow> ok (None, w1)
                        | Some fs \<Rightarrow>
                            let w2 = w1\<lparr>wk_fragments := wk_fragments w1 @ fs\<rparr> in
                            if max_fragments l < length (wk_fragments w2) then fail (too_many_fragments l)
                            else and_then (add_metadata_bytes l (\<Sum>f\<leftarrow>fs. length (fr_bytes f)) w2) (\<lambda>w3.
                              ok (Some e, w3\<lparr>wk_discovery := Sidx\<rparr>))))))"

definition cut_name :: "cut \<Rightarrow> string" where
  "cut_name c = (case c of Cut_Header \<Rightarrow> ''box header'' | Cut_Moof \<Rightarrow> ''moof'' | Cut_Mdat \<Rightarrow> ''mdat'')"

definition drop_tail :: "nat \<Rightarrow> nat \<Rightarrow> cut \<Rightarrow> walk \<Rightarrow> walk res" where
  "drop_tail len off c w =
     (let last_start = map_option fr_offset (last_opt (wk_fragments w));
          takes_moof = (c = Cut_Mdat \<and> wk_last_moof w \<noteq> None \<and> last_start = wk_last_moof w);
          w1 = (if takes_moof
                then w\<lparr>wk_fragments := butlast (wk_fragments w), wk_last_moof := None\<rparr> else w);
          from_offset = (if takes_moof then (case wk_last_moof w of Some start \<Rightarrow> start | None \<Rightarrow> off) else off)
      in if wk_fragments w1 = []
         then fail (InvalidMedia ''the file ends before its first fragment is complete'')
         else ok (w1\<lparr>wk_dropped := Some \<lparr>dt_bytes = len - from_offset, dt_fragments = of_bool takes_moof\<rparr>\<rparr>))"

definition handle_cut :: "media_source \<Rightarrow> limits \<Rightarrow> nat \<Rightarrow> string \<Rightarrow> walk \<Rightarrow> walk res" where
  "handle_cut src l off message w =
     (case (if wk_fragments w = [] then (ok None, wk_reader w) else cut_box src off (ms_len src) (wk_reader w)) of
        (Inl e, _) \<Rightarrow> Inl e
      | (Inr None, _) \<Rightarrow> fail (InvalidMedia message)
      | (Inr (Some c), r) \<Rightarrow>
          if \<not> tolerate_truncated_tail l
          then fail (InvalidMedia (''the file ends partway through a '' @ cut_name c @ '' box, ''
            @ decimal (ms_len src - off)
            @ '' bytes from the end of the last whole box; if it is still being written or was cut off, set limits.tolerate_truncated_tail to serve the complete fragments before it''))
          else drop_tail (ms_len src) off c (w\<lparr>wk_reader := r\<rparr>))"

text \<open>The pending \<^verbatim>\<open>sidx\<close> is taken at most once before the walk moves on.\<close>

lemma try_jump_pending:
  "try_jump src l order off w = Inr (Some e, w') \<Longrightarrow> wk_pending w \<noteq> None \<and> wk_pending w' = None \<and> off \<le> e"
proof -
  have add: "foldl (\<lambda>e size. case e of None \<Rightarrow> None | Some x \<Rightarrow> checked_add x size) a xs = Some e \<Longrightarrow>
      \<exists>x. a = Some x \<and> x \<le> e" for xs and a :: "nat option" and e
    by (induction xs arbitrary: a) (fastforce split: option.splits)+
  show "try_jump src l order off w = Inr (Some e, w') \<Longrightarrow> wk_pending w \<noteq> None \<and> wk_pending w' = None \<and> off \<le> e"
    by (auto simp: try_jump_def coverage_end_def and_then_eq_Inr add_metadata_bytes_def dest!: add
        split: option.splits if_splits)
qed

function walk_run ::
    "media_source \<Rightarrow> limits \<Rightarrow> (nat \<Rightarrow> nat list) \<Rightarrow> bool \<Rightarrow> nat \<Rightarrow> walk \<Rightarrow> walk res" where
  "walk_run src l order use_sidx off w =
     (if ms_len src \<le> off then ok w
      else
        and_then (try_jump src l order off w) (\<lambda>(jump, w1).
          case jump of
            Some e \<Rightarrow> walk_run src l order use_sidx e w1
          | None \<Rightarrow>
              (case read_header src off (ms_len src) (wk_reader w1) of
                 (Inl (Fail (InvalidMedia message)), r) \<Rightarrow> handle_cut src l off message (w1\<lparr>wk_reader := r\<rparr>)
               | (Inl err, _) \<Rightarrow> Inl err
               | (Inr header, r) \<Rightarrow>
                   and_then (record_box src l off header use_sidx (w1\<lparr>wk_reader := r\<rparr>)) (\<lambda>w2.
                     walk_run src l order use_sidx (off + bh_size header) w2))))"
  by pat_completeness auto
termination
proof (relation "measures [\<lambda>(src, l, order, u, off, w). ms_len src - off,
    \<lambda>(src, l, order, u, off, w). if wk_pending w = None then 0 else 1]")
qed (auto dest!: try_jump_pending read_header_size [OF sym] read_header_size)

declare walk_run.simps [simp del]

definition fetch_with :: "media_source \<Rightarrow> limits \<Rightarrow> (nat \<Rightarrow> nat list) \<Rightarrow> bool \<Rightarrow> metadata res" where
  "fetch_with src l order use_sidx =
     and_then (walk_run src l order use_sidx 0 walk_new) (\<lambda>w.
     and_then (ok_or (wk_moov w) (InvalidMedia ''missing moov box'')) (\<lambda>(moov, moov_bytes).
     and_then (add_metadata_bytes l (br_length moov) w) (\<lambda>w1.
       ok \<lparr>md_len = ms_len src, md_moov = moov, md_moov_bytes = moov_bytes, md_fragments = wk_fragments w1,
         md_discovery = wk_discovery w1, md_dropped = wk_dropped w1\<rparr>)))"

definition fetch :: "media_source \<Rightarrow> limits \<Rightarrow> (nat \<Rightarrow> nat list) \<Rightarrow> metadata res" where
  "fetch src l order = fetch_with src l order True"

end
