(* ===== verification/Source_Metadata_Laws.thy ===== *)
theory Source_Metadata_Laws
  imports Source_Metadata
begin

text \<open>
  The fragments found by the walk are those of the file: reads through the window return the file's
  bytes, and however the fragments are found, one box after another or in parallel from a \<^verbatim>\<open>sidx\<close>, they
  are the \<^verbatim>\<open>moof\<close> boxes of the file in order.
\<close>

section \<open>Reads\<close>

text \<open>A source that reads from a file in memory.\<close>

definition reads_content :: "media_source \<Rightarrow> bytes \<Rightarrow> bool" where
  "reads_content src c \<longleftrightarrow>
     ms_len src = length c \<and> length c < u64_limit
     \<and> (\<forall>off n. off + n \<le> length c \<longrightarrow> ms_read src (byte_range_new off n) = ok (subslice c off (off + n)))"

definition window_of :: "bytes \<Rightarrow> windowed_reader \<Rightarrow> bool" where
  "window_of c w \<longleftrightarrow>
     wr_start w + length (wr_window w) \<le> length c
     \<and> wr_window w = subslice c (wr_start w) (wr_start w + length (wr_window w))"

lemma window_of_start [simp]: "window_of c reader_at_start"
  by (simp add: window_of_def reader_at_start_def)

lemma file_subslice:
  "a + j \<le> b \<Longrightarrow> b \<le> length xs \<Longrightarrow> i \<le> j \<Longrightarrow> subslice (subslice xs a b) i j = subslice xs (a + i) (a + j)"
  by (simp add: subslice_def drop_take min_def ac_simps)

lemma cut_window_exact:
  assumes "window_of c w" and "wr_start w \<le> off" and "off + n \<le> wr_start w + length (wr_window w)"
  shows "cut_window off n w = (ok (subslice c off (off + n)), w)"
proof -
  have "subslice (wr_window w) (off - wr_start w) (off - wr_start w + n) = subslice c off (off + n)"
  proof (subst conjunct2 [OF assms(1) [unfolded window_of_def]])
    show "subslice (subslice c (wr_start w) (wr_start w + length (wr_window w))) (off - wr_start w)
        (off - wr_start w + n) = subslice c off (off + n)"
      using assms by (subst file_subslice) (auto simp: window_of_def)
  qed
  moreover have "off - wr_start w + n \<le> length (wr_window w)" using assms(2,3) by linarith
  ultimately show ?thesis by (simp add: cut_window_def)
qed

lemma read_window_exact:
  assumes "reads_content src c" and "window_of c w" and "off + n \<le> length c"
  obtains w' where "read_window src off n w = (ok (subslice c off (off + n)), w')" "window_of c w'"
proof (cases "off < wr_start w \<or> wr_start w + length (wr_window w) < off + n")
  case True
  let ?fetch = "min (max n WINDOW) (length c - off)"
  let ?w = "\<lparr>wr_start = off, wr_window = subslice c off (off + ?fetch)\<rparr>"
  have len: "ms_len src = length c" "length c < u64_limit" using assms(1) by (simp_all add: reads_content_def)
  have fetch: "off + ?fetch \<le> length c" "n \<le> ?fetch" using assms(3) by auto
  have "ms_read src (byte_range_new off ?fetch) = ok (subslice c off (off + ?fetch))"
    using assms(1) fetch(1) unfolding reads_content_def by blast
  moreover have "wsub64 (ms_len src) off = length c - off" using len assms(3) by simp
  moreover have w: "window_of c ?w" using fetch(1) by (simp add: window_of_def)
  moreover have "cut_window off n ?w = (ok (subslice c off (off + n)), ?w)"
    by (rule cut_window_exact [OF w]) (use fetch in simp_all)
  ultimately show thesis using that [of ?w] True len assms(3) by (simp add: read_window_def checked_add_def)
next
  case False
  then have "cut_window off n w = (ok (subslice c off (off + n)), w)"
    by (intro cut_window_exact [OF assms(2)]) auto
  then show thesis
    using that [of w] False assms by (simp add: read_window_def checked_add_def reads_content_def)
qed

section \<open>Headers\<close>

text \<open>The header of the box at an offset, read from the file's bytes.\<close>

definition header_size_at :: "bytes \<Rightarrow> nat \<Rightarrow> nat \<Rightarrow> (nat \<times> nat) option" where
  "header_size_at c off e =
     (let size32 = be_value (subslice c off (off + 4)) in
      if size32 = 1 then (if e - off < 16 then None else Some (be_value (subslice c (off + 8) (off + 16)), 16))
      else if size32 = 0 then Some (e - off, 8)
      else Some (size32, 8))"

definition header_at :: "bytes \<Rightarrow> nat \<Rightarrow> nat \<Rightarrow> box_header option" where
  "header_at c off e =
     (if e - off < 8 then None
      else case header_size_at c off e of
        None \<Rightarrow> None
      | Some (sz, header_size) \<Rightarrow>
          if sz < header_size \<or> e < off + sz then None
          else Some \<lparr>bh_name = subslice c (off + 4) (off + 8), bh_size = sz\<rparr>)"

lemma header_at_size: "header_at c off e = Some h \<Longrightarrow> 8 \<le> bh_size h \<and> off + bh_size h \<le> e"
  by (auto simp: header_at_def header_size_at_def split: if_splits)

lemma read_header_exact:
  assumes src: "reads_content src c" and w: "window_of c w" and e: "e \<le> length c"
  obtains w' where "window_of c w'"
    "read_header src off e w = (case header_at c off e of None \<Rightarrow> fail bad_top_level | Some h \<Rightarrow> ok h, w')"
proof (cases "e - off < 8")
  case True
  then show thesis using that [OF w] by (simp add: read_header_def header_at_def w_lift_def)
next
  case False
  then have off: "off + 8 \<le> length c" using e by simp
  obtain w1 where w1: "read_window src off 8 w = (ok (subslice c off (off + 8)), w1)" "window_of c w1"
    by (rule read_window_exact [OF src w off])
  have parts: "slice (subslice c off (off + 8)) 0 4 = ok (subslice c off (off + 4))"
      "slice (subslice c off (off + 8)) 4 8 = ok (subslice c (off + 4) (off + 8))"
    using off by (simp_all add: file_subslice)
  let ?size32 = "be_value (subslice c off (off + 4))"
  obtain w2 where w2: "window_of c w2" "declared_size src off e ?size32 w1 =
      (case header_size_at c off e of None \<Rightarrow> fail bad_top_level | Some x \<Rightarrow> ok x, w2)"
  proof (cases "?size32 = 1 \<and> \<not> e - off < 16")
    case True
    then have far: "off + 16 \<le> length c" using e by linarith
    then have "off + 8 + 8 \<le> length c" by simp
    then obtain w2 where "read_window src (off + 8) 8 w1 = (ok (subslice c (off + 8) (off + 8 + 8)), w2)"
        "window_of c w2" by (rule read_window_exact [OF src w1(2)])
    moreover have "slice (subslice c (off + 8) (off + 8 + 8)) 0 8 = ok (subslice c (off + 8) (off + 16))"
      using far by (simp add: file_subslice add.commute)
    ultimately show thesis
      using that [of w2] True by (simp add: declared_size_def header_size_at_def w_bind_def w_lift_def)
  next
    case False
    then show thesis
      using that [OF w1(2)] by (auto simp: declared_size_def header_size_at_def w_lift_def)
  qed
  have "read_header src off e w = (case header_at c off e of None \<Rightarrow> fail bad_top_level | Some h \<Rightarrow> ok h, w2)"
    using False w1(1) parts w2(2) e src
    by (auto simp: read_header_def header_at_def w_bind_def w_lift_def checked_add_def reads_content_def
        split: option.split)
  then show thesis using that w2(1) by blast
qed

section \<open>The boxes of a file\<close>

text \<open>The boxes that tile a part of the file, with where each starts; none if it is not whole boxes.\<close>

function boxes_between :: "bytes \<Rightarrow> nat \<Rightarrow> nat \<Rightarrow> (nat \<times> box_header) list option" where
  "boxes_between c off e =
     (if e \<le> off then Some []
      else case header_at c off e of
        None \<Rightarrow> None
      | Some h \<Rightarrow> map_option ((#) (off, h)) (boxes_between c (off + bh_size h) e))"
  by pat_completeness auto
termination
  by (relation "measure (\<lambda>(c, off, e). e - off)") (auto dest!: header_at_size)

declare boxes_between.simps [simp del]

text \<open>The fragments among them.\<close>

definition is_moof :: "nat \<times> box_header \<Rightarrow> bool" where
  "is_moof b \<longleftrightarrow> bh_name (snd b) = ascii ''moof''"

definition moofs_of :: "bytes \<Rightarrow> (nat \<times> box_header) list \<Rightarrow> fragment list" where
  "moofs_of c bs =
     map (\<lambda>(off, h). \<lparr>fr_offset = off, fr_bytes = subslice c off (off + bh_size h)\<rparr>) (filter is_moof bs)"

lemma moofs_of_simps [simp]:
  "moofs_of c [] = []"
  "moofs_of c ((off, h) # bs) =
     (if bh_name h = ascii ''moof'' then \<lparr>fr_offset = off, fr_bytes = subslice c off (off + bh_size h)\<rparr> # moofs_of c bs
      else moofs_of c bs)"
  "moofs_of c (as @ bs) = moofs_of c as @ moofs_of c bs"
  by (simp_all add: moofs_of_def is_moof_def)

lemma subsegment_loop_exact:
  assumes src: "reads_content src c" and e: "e \<le> length c" and w: "window_of c w"
  shows "subsegment_loop src off e found w =
    ok (case boxes_between c off e of
          None \<Rightarrow> None
        | Some bs \<Rightarrow> if found @ moofs_of c bs = [] then None else Some (found @ moofs_of c bs))"
  using w
proof (induction "e - off" arbitrary: off found w rule: less_induct)
  case less
  show ?case
  proof (cases "e \<le> off")
    case True
    then show ?thesis by (simp add: subsegment_loop.simps [of _ off] boxes_between.simps [of _ off])
  next
    case False
    obtain w1 where w1: "window_of c w1"
        "read_header src off e w = (case header_at c off e of None \<Rightarrow> fail bad_top_level | Some h \<Rightarrow> ok h, w1)"
      by (rule read_header_exact [OF src less.prems e])
    show ?thesis
    proof (cases "header_at c off e")
      case None
      then show ?thesis
        using False w1 by (simp add: subsegment_loop.simps [of _ off] boxes_between.simps [of _ off] bad_top_level_def)
    next
      case (Some h)
      note size = header_at_size [OF Some]
      have closer: "e - (off + bh_size h) < e - off" using size False by linarith
      obtain w2 where w2: "window_of c w2"
          "read_window src off (bh_size h) w1 = (ok (subslice c off (off + bh_size h)), w2)"
        using read_window_exact [OF src w1(1)] size e by (metis order_trans)
      show ?thesis
        using False w1 w2 Some less.hyps [OF closer w1(1)] less.hyps [OF closer w2(1)]
        by (simp add: subsegment_loop.simps [of _ off] boxes_between.simps [of _ off] split: option.split)
    qed
  qed
qed

lemma walk_subsegment_exact:
  assumes "reads_content src c" and "e \<le> length c"
  shows "walk_subsegment src off e =
    ok (Option.bind (boxes_between c off e) (\<lambda>bs. if moofs_of c bs = [] then None else Some (moofs_of c bs)))"
  by (simp add: walk_subsegment_def subsegment_loop_exact [OF assms window_of_start] split: Option.bind_split option.split)

section \<open>Subsegments in any order\<close>

text \<open>
  The order in which the subsegments finish does not show: only the subsegments themselves decide what is
  collected.
\<close>

lemma collect_finished_some:
  assumes "collect_finished src ranges results order = ok (Some fs)"
  obtains found where "fs = concat (List.map_filter (\<lambda>r. r) (fold (\<lambda>i rs. rs[i := Some (found i)]) order results))"
    and "\<And>i. i \<in> set order \<Longrightarrow> i < length ranges \<and> walk_subsegment src (fst (ranges ! i)) (snd (ranges ! i)) = ok (Some (found i))"
  using assms
proof (induction order arbitrary: results thesis)
  case Nil
  then show ?case by simp
next
  case (Cons i order)
  obtain start e f where i: "i < length ranges" "ranges ! i = (start, e)" "walk_subsegment src start e = ok (Some f)"
      and rest: "collect_finished src ranges (results[i := Some f]) order = ok (Some fs)"
    using Cons.prems(2) by (auto simp: and_then_eq_Inr index_at_def split: option.splits if_splits)
  obtain found where found: "fs = concat (List.map_filter (\<lambda>r. r) (fold (\<lambda>i rs. rs[i := Some (found i)]) order (results[i := Some f])))"
      "\<And>j. j \<in> set order \<Longrightarrow> j < length ranges \<and> walk_subsegment src (fst (ranges ! j)) (snd (ranges ! j)) = ok (Some (found j))"
    by (rule Cons.IH [OF _ rest]) blast
  have same: "found j = f" if "j \<in> set order" "j = i" for j using found(2) [OF that(1)] i that(2) by simp
  define g where "g = found(i := f)"
  have "fold (\<lambda>i rs. rs[i := Some (found i)]) order xs = fold (\<lambda>i rs. rs[i := Some (g i)]) order xs" for xs
    by (rule fold_cong) (auto simp: g_def same)
  then have "fs = concat (List.map_filter (\<lambda>r. r) (fold (\<lambda>i rs. rs[i := Some (g i)]) (i # order) results))"
    using found(1) by (simp add: g_def)
  moreover have "j < length ranges \<and> walk_subsegment src (fst (ranges ! j)) (snd (ranges ! j)) = ok (Some (g j))"
      if "j \<in> set (i # order)" for j
    using that found(2) i by (auto simp: g_def)
  ultimately show ?case by (rule Cons.prems(1))
qed

lemma fold_updates:
  "length (fold (\<lambda>i rs. rs[i := Some (g i)]) order results) = length results"
  "i < length results \<Longrightarrow> fold (\<lambda>i rs. rs[i := Some (g i)]) order results ! i = (if i \<in> set order then Some (g i) else results ! i)"
  by (induction order arbitrary: results) (auto simp: nth_list_update)

lemma map_filter_all: "List.map_filter (\<lambda>r. r) (map (\<lambda>x. Some (f x)) xs) = map f xs"
  by (induction xs) (simp_all add: List.map_filter_simps)

lemma fetch_by_sidx_some:
  assumes "fetch_by_sidx src order cv = ok (Some fs)" and "\<And>n. set (order n) = {..<n}"
  defines "ranges \<equiv> coverage_ranges (cv_start cv) (cv_sizes cv)"
  shows "\<exists>found. fs = concat (map found [0..<length ranges]) \<and>
    (\<forall>i < length ranges. walk_subsegment src (fst (ranges ! i)) (snd (ranges ! i)) = ok (Some (found i)))"
proof -
  have run: "collect_finished src ranges (replicate (length ranges) None) (order (length ranges)) = ok (Some fs)"
    using assms(1) by (simp add: fetch_by_sidx_def ranges_def)
  obtain found where found: "fs = concat (List.map_filter (\<lambda>r. r) (fold (\<lambda>i rs. rs[i := Some (found i)]) (order (length ranges)) (replicate (length ranges) None)))"
      "\<And>i. i \<in> set (order (length ranges)) \<Longrightarrow> i < length ranges \<and> walk_subsegment src (fst (ranges ! i)) (snd (ranges ! i)) = ok (Some (found i))"
    by (rule collect_finished_some [OF run]) blast
  have "fold (\<lambda>i rs. rs[i := Some (found i)]) (order (length ranges)) (replicate (length ranges) None)
      = map (\<lambda>i. Some (found i)) [0..<length ranges]"
    by (rule nth_equalityI) (simp_all add: fold_updates assms(2))
  then have "fs = concat (map found [0..<length ranges])" using found(1) by (simp add: map_filter_all)
  moreover have "\<forall>i < length ranges. walk_subsegment src (fst (ranges ! i)) (snd (ranges ! i)) = ok (Some (found i))"
    using found(2) assms(2) by auto
  ultimately show ?thesis by blast
qed

text \<open>
  No box of size 0, which is one that goes to the end of what is walked: to the end of the file in the
  walk, to the end of its subsegment in a subsegment.
\<close>

definition sized :: "bytes \<Rightarrow> (nat \<times> box_header) list \<Rightarrow> bool" where
  "sized c bs \<longleftrightarrow> (\<forall>(off, h) \<in> set bs. be_value (subslice c off (off + 4)) \<noteq> 0)"

lemma sized_simps [simp]:
  "sized c []"
  "sized c ((off, h) # bs) \<longleftrightarrow> be_value (subslice c off (off + 4)) \<noteq> 0 \<and> sized c bs"
  "sized c (as @ bs) \<longleftrightarrow> sized c as \<and> sized c bs"
  by (auto simp: sized_def)

lemma header_at_longer:
  assumes "header_at c off e = Some h" and "e \<le> e'" and "be_value (subslice c off (off + 4)) \<noteq> 0"
  shows "header_at c off e' = Some h"
  using assms by (auto simp: header_at_def header_size_at_def Let_def split: if_splits)

lemma boxes_between_longer:
  assumes "boxes_between c off e = Some as" and "off \<le> e" and "e \<le> e'"
    and "boxes_between c off e' = Some bs" and "sized c bs"
  shows "\<exists>rest. bs = as @ rest \<and> boxes_between c e e' = Some rest"
  using assms
proof (induction c off e arbitrary: as bs rule: boxes_between.induct)
  case (1 c off e)
  show ?case
  proof (cases "e \<le> off")
    case True
    then have "as = []" "off = e" using 1(2,3) by (simp_all add: boxes_between.simps [of _ off])
    then show ?thesis using 1(5) by simp
  next
    case False
    obtain h as' where h: "header_at c off e = Some h" "boxes_between c (off + bh_size h) e = Some as'" "as = (off, h) # as'"
      using False 1(2) by (auto simp: boxes_between.simps [of _ off] split: option.splits)
    obtain h' bs' where h': "header_at c off e' = Some h'" "boxes_between c (off + bh_size h') e' = Some bs'" "bs = (off, h') # bs'"
      using False 1(4,5) by (auto simp: boxes_between.simps [of _ off] split: option.splits)
    have same: "h' = h" using header_at_longer [OF h(1) 1(4)] h' 1(6) by simp
    have within: "off + bh_size h \<le> e" using header_at_size [OF h(1)] by simp
    obtain rest where "bs' = as' @ rest" "boxes_between c e e' = Some rest"
      using 1(1) [OF False h(1) h(2) within 1(4)] h' 1(6) same by auto
    then show ?thesis using h(3) h'(3) same by simp
  qed
qed

lemma coverage_end_sum: "coverage_end cv = Some e \<Longrightarrow> e = cv_start cv + sum_list (cv_sizes cv)"
proof -
  have none: "foldl (\<lambda>e size. case e of None \<Rightarrow> None | Some x \<Rightarrow> checked_add x size) None xs = None" for xs :: "nat list"
    by (induction xs) simp_all
  have "foldl (\<lambda>e size. case e of None \<Rightarrow> None | Some x \<Rightarrow> checked_add x size) (Some a) xs = Some e \<Longrightarrow> e = a + sum_list xs"
    for a e and xs :: "nat list"
    by (induction xs arbitrary: a) (fastforce simp: checked_add_def none split: if_splits)+
  then show "coverage_end cv = Some e \<Longrightarrow> e = cv_start cv + sum_list (cv_sizes cv)" by (auto simp: coverage_end_def)
qed

lemma coverage_fragments:
  assumes src: "reads_content src c"
    and "list_all2 (\<lambda>(start, e) f. walk_subsegment src start e = ok (Some f)) (coverage_ranges off sizes) found"
    and "off + sum_list sizes \<le> length c"
    and "boxes_between c off (length c) = Some bs" and "sized c bs"
  shows "\<exists>as rest. bs = as @ rest \<and> boxes_between c (off + sum_list sizes) (length c) = Some rest
    \<and> concat found = moofs_of c as"
  using assms(2-)
proof (induction sizes arbitrary: off found bs)
  case Nil
  then show ?case by auto
next
  case (Cons n sizes)
  obtain f found' where f: "found = f # found'" "walk_subsegment src off (off + n) = ok (Some f)"
      "list_all2 (\<lambda>(start, e) f. walk_subsegment src start e = ok (Some f)) (coverage_ranges (off + n) sizes) found'"
    using Cons.prems(1) by (auto simp: list_all2_Cons1)
  obtain as where as: "boxes_between c off (off + n) = Some as" "f = moofs_of c as"
    using f(2) walk_subsegment_exact [OF src, of "off + n" off] Cons.prems(2)
    by (auto split: bind_splits if_splits)
  obtain rest where rest: "bs = as @ rest" "boxes_between c (off + n) (length c) = Some rest"
    using boxes_between_longer [OF as(1) _ _ Cons.prems(3,4)] Cons.prems(2) by auto
  obtain as' rest' where "rest = as' @ rest'" "boxes_between c (off + n + sum_list sizes) (length c) = Some rest'"
      "concat found' = moofs_of c as'"
    using Cons.IH [OF f(3) _ rest(2)] Cons.prems(2,4) rest(1) by auto
  then show ?case
    using rest(1) f(1) as(2) by (intro exI [of _ "as @ as'"] exI [of _ rest']) (simp add: add.assoc)
qed

section \<open>The walk\<close>

lemma try_jump_some:
  assumes src: "reads_content src c" and order: "\<And>n. set (order n) = {..<n}"
    and jump: "try_jump src l order off w = ok (Some e, w')"
    and bs: "boxes_between c off (length c) = Some bs" "sized c bs"
  shows "wk_reader w' = wk_reader w \<and> wk_dropped w' = wk_dropped w
    \<and> (\<exists>as rest. bs = as @ rest \<and> boxes_between c e (length c) = Some rest
         \<and> wk_fragments w' = wk_fragments w @ moofs_of c as)"
proof -
  obtain cv fs where cv: "wk_pending w = Some cv" "off = cv_start cv" "coverage_end cv = Some e" "e \<le> ms_len src"
      "fetch_by_sidx src order cv = ok (Some fs)"
    and w': "wk_fragments w' = wk_fragments w @ fs" "wk_reader w' = wk_reader w" "wk_dropped w' = wk_dropped w"
    using jump by (auto simp: try_jump_def and_then_eq_Inr add_metadata_bytes_def Let_def
        split: option.splits if_splits)
  define ranges where "ranges = coverage_ranges (cv_start cv) (cv_sizes cv)"
  obtain found where found: "fs = concat (map found [0..<length ranges])"
      "\<And>i. i < length ranges \<Longrightarrow> walk_subsegment src (fst (ranges ! i)) (snd (ranges ! i)) = ok (Some (found i))"
    using fetch_by_sidx_some [OF cv(5) order] unfolding ranges_def by blast
  have all: "list_all2 (\<lambda>(start, e) f. walk_subsegment src start e = ok (Some f))
      (coverage_ranges off (cv_sizes cv)) (map found [0..<length ranges])"
    using found(2) cv(2) by (auto simp: list_all2_conv_all_nth ranges_def case_prod_beta)
  have "off + sum_list (cv_sizes cv) = e" using coverage_end_sum [OF cv(3)] cv(2) by simp
  moreover have "e \<le> length c" using src cv(4) by (simp add: reads_content_def)
  ultimately obtain as rest where "bs = as @ rest" "boxes_between c e (length c) = Some rest" "fs = moofs_of c as"
    using coverage_fragments [OF src all _ bs] found(1) by auto
  then show ?thesis using w' by auto
qed

lemma try_jump_none:
  "try_jump src l order off w = ok (None, w') \<Longrightarrow>
     wk_reader w' = wk_reader w \<and> wk_dropped w' = wk_dropped w \<and> wk_fragments w' = wk_fragments w"
  by (auto simp: try_jump_def and_then_eq_Inr add_metadata_bytes_def Let_def split: option.splits if_splits)

lemma walk_read_exact:
  assumes "reads_content src c" and "window_of c (wk_reader w)" and "off + n \<le> length c"
  obtains r where "walk_read src off n w = ok (subslice c off (off + n), w\<lparr>wk_reader := r\<rparr>)" "window_of c r"
proof -
  obtain r where "read_window src off n (wk_reader w) = (ok (subslice c off (off + n)), r)" "window_of c r"
    by (rule read_window_exact [OF assms])
  then show thesis using that by (simp add: walk_read_def)
qed

lemma moof_names: "ascii ''moof'' \<noteq> ascii ''moov''" "ascii ''moof'' \<noteq> ascii ''sidx''" "ascii ''moof'' \<noteq> ascii ''mdat''"
    "ascii ''moov'' \<noteq> ascii ''sidx''" "ascii ''moov'' \<noteq> ascii ''mdat''" "ascii ''sidx'' \<noteq> ascii ''mdat''"
  by code_simp+

lemma add_metadata_bytes_same:
  "add_metadata_bytes l n w = ok w' \<Longrightarrow> wk_reader w' = wk_reader w \<and> wk_dropped w' = wk_dropped w \<and> wk_fragments w' = wk_fragments w"
  by (auto simp: add_metadata_bytes_def split: if_splits)

lemma count_other_same:
  "count_other w = ok w' \<Longrightarrow> wk_reader w' = wk_reader w \<and> wk_dropped w' = wk_dropped w \<and> wk_fragments w' = wk_fragments w"
  by (auto simp: count_other_def split: if_splits)

lemma record_mdat_same:
  "record_mdat l w = ok w' \<Longrightarrow> wk_reader w' = wk_reader w \<and> wk_dropped w' = wk_dropped w \<and> wk_fragments w' = wk_fragments w"
  by (auto simp: record_mdat_def split: if_splits)

lemma walk_read_same:
  assumes "reads_content src c" and "window_of c (wk_reader w)" and "off + n \<le> length c"
    and "walk_read src off n w = ok (bs, w')"
  shows "window_of c (wk_reader w') \<and> wk_dropped w' = wk_dropped w \<and> wk_fragments w' = wk_fragments w
    \<and> bs = subslice c off (off + n)"
  by (rule walk_read_exact [OF assms(1-3)]) (use assms(4) in simp)

lemma record_moov_same:
  assumes "reads_content src c" and "window_of c (wk_reader w)" and "off + n \<le> length c"
    and "record_moov src l off n w = ok w'"
  shows "window_of c (wk_reader w') \<and> wk_dropped w' = wk_dropped w \<and> wk_fragments w' = wk_fragments w"
  using assms(4) walk_read_same [OF assms(1-3)] by (auto simp: record_moov_def and_then_eq_Inr split: if_splits)

lemma record_sidx_same:
  assumes "reads_content src c" and "window_of c (wk_reader w)" and "8 \<le> n" and "off + n \<le> length c"
    and "record_sidx src l off n w = ok w'"
  shows "window_of c (wk_reader w') \<and> wk_dropped w' = wk_dropped w \<and> wk_fragments w' = wk_fragments w"
proof -
  obtain w1 where w1: "count_other w = ok w1"
      "if n \<le> MAX_SIDX_BYTES then \<exists>payload w2. walk_read src (off + 8) (n - 8) w1 = ok (payload, w2)
         \<and> w' = w2\<lparr>wk_pending := parse_sidx payload (off + n) (max_fragments l)\<rparr> else w' = w1"
    using assms(5) by (auto simp: record_sidx_def and_then_eq_Inr split: if_splits)
  note same = count_other_same [OF w1(1)]
  have "window_of c (wk_reader w1)" "off + 8 + (n - 8) \<le> length c" using same assms(2-4) by simp_all
  note walk_read_same [OF assms(1) this]
  then show ?thesis using w1(2) same assms(2) by (auto split: if_splits)
qed

lemma record_moof_adds:
  assumes "reads_content src c" and "window_of c (wk_reader w)" and "off + n \<le> length c"
    and "record_moof src l off n w = ok w'"
  shows "window_of c (wk_reader w') \<and> wk_dropped w' = wk_dropped w
    \<and> wk_fragments w' = wk_fragments w @ [\<lparr>fr_offset = off, fr_bytes = subslice c off (off + n)\<rparr>]"
proof -
  obtain w1 bs w2 where w1: "add_metadata_bytes l n w = ok w1" "walk_read src off n w1 = ok (bs, w2)"
      "w' = w2\<lparr>wk_fragments := wk_fragments w2 @ [\<lparr>fr_offset = off, fr_bytes = bs\<rparr>], wk_last_moof := Some off\<rparr>"
    using assms(4) by (auto simp: record_moof_def and_then_eq_Inr split: if_splits)
  note same = add_metadata_bytes_same [OF w1(1)]
  have "window_of c (wk_reader w1)" using same assms(2) by simp
  from walk_read_same [OF assms(1) this assms(3) w1(2)] show ?thesis using w1(3) same by simp
qed

lemma record_box_exact:
  assumes src: "reads_content src c" and w: "window_of c (wk_reader w)"
    and h: "header_at c off (length c) = Some h" and run: "record_box src l off h u w = ok w'"
  shows "window_of c (wk_reader w') \<and> wk_dropped w' = wk_dropped w
    \<and> wk_fragments w' = wk_fragments w @ moofs_of c [(off, h)]"
proof -
  have size: "8 \<le> bh_size h" "off + bh_size h \<le> length c" using header_at_size [OF h] by simp_all
  consider "bh_name h = ascii ''moov''" "record_moov src l off (bh_size h) w = ok w'"
    | "bh_name h = ascii ''moof''" "record_moof src l off (bh_size h) w = ok w'"
    | "bh_name h \<noteq> ascii ''moof''" "record_sidx src l off (bh_size h) w = ok w'"
    | "bh_name h \<noteq> ascii ''moof''" "record_mdat l w = ok w'"
    | "bh_name h \<noteq> ascii ''moof''" "count_other w = ok w'"
    using run unfolding record_box_def by (metis moof_names(2))
  then show ?thesis
  proof cases
    case 1
    then show ?thesis using record_moov_same [OF src w size(2) 1(2)] moof_names by simp
  next
    case 2
    then show ?thesis using record_moof_adds [OF src w size(2) 2(2)] by simp
  next
    case 3
    then show ?thesis using record_sidx_same [OF src w size 3(2)] by simp
  next
    case 4
    then show ?thesis using record_mdat_same [OF 4(2)] w by simp
  next
    case 5
    then show ?thesis using count_other_same [OF 5(2)] w by simp
  qed
qed

lemma walk_run_exact:
  assumes src: "reads_content src c" and order: "\<And>n. set (order n) = {..<n}"
    and "walk_run src l order u off w = ok w'" and "window_of c (wk_reader w)"
    and "boxes_between c off (length c) = Some bs" and "sized c bs"
  shows "wk_fragments w' = wk_fragments w @ moofs_of c bs \<and> wk_dropped w' = wk_dropped w"
  using assms(3-)
proof (induction "2 * (length c - off) + (if wk_pending w = None then 0 else 1)" arbitrary: off w bs rule: less_induct)
  case less
  note run = less.prems(1) and window = less.prems(2) and bs = less.prems(3,4)
  have len: "ms_len src = length c" using src by (simp add: reads_content_def)
  show ?case
  proof (cases "length c \<le> off")
    case True
    then show ?thesis using run bs(1) len by (simp add: walk_run.simps [of _ _ _ _ off] boxes_between.simps [of _ off])
  next
    case False
    obtain jump w1 where jump: "try_jump src l order off w = ok (jump, w1)"
      using run False len by (auto simp: walk_run.simps [of _ _ _ _ off] and_then_eq_Inr)
    show ?thesis
    proof (cases jump)
      case (Some e)
      have rest: "walk_run src l order u e w1 = ok w'"
        using run False len jump Some by (simp add: walk_run.simps [of _ _ _ _ off])
      obtain as tail where tail: "bs = as @ tail" "boxes_between c e (length c) = Some tail"
          "wk_fragments w1 = wk_fragments w @ moofs_of c as" "wk_reader w1 = wk_reader w" "wk_dropped w1 = wk_dropped w"
        using try_jump_some [OF src order jump [unfolded Some] bs] by blast
      have "2 * (length c - e) + (if wk_pending w1 = None then 0 else 1) < 2 * (length c - off) + (if wk_pending w = None then 0 else 1)"
        using try_jump_pending [OF jump [unfolded Some]] by auto
      from less.hyps [OF this rest] show ?thesis using tail window bs(2) by simp
    next
      case None
      note same = try_jump_none [OF jump [unfolded None]]
      obtain h bs' where h: "header_at c off (length c) = Some h" "boxes_between c (off + bh_size h) (length c) = Some bs'"
          "bs = (off, h) # bs'"
        using False bs(1) by (auto simp: boxes_between.simps [of _ off] split: option.splits)
      obtain r where r: "window_of c r" "read_header src off (length c) (wk_reader w1) = (ok h, r)"
        by (rule read_header_exact [OF src _ order_refl, of "wk_reader w1" off]) (use same window h(1) in auto)
      obtain w2 where w2: "record_box src l off h u (w1\<lparr>wk_reader := r\<rparr>) = ok w2"
          "walk_run src l order u (off + bh_size h) w2 = ok w'"
        using run False len jump None r(2) by (auto simp: walk_run.simps [of _ _ _ _ off] and_then_eq_Inr)
      have "window_of c (wk_reader (w1\<lparr>wk_reader := r\<rparr>))" using r(1) by simp
      note kept = record_box_exact [OF src this h(1) w2(1)]
      have "2 * (length c - (off + bh_size h)) + (if wk_pending w2 = None then 0 else 1) < 2 * (length c - off) + (if wk_pending w = None then 0 else 1)"
        using header_at_size [OF h(1)] False by auto
      from less.hyps [OF this w2(2) _ h(2)] show ?thesis using kept h(3) bs(2) same by simp
    qed
  qed
qed

text \<open>C35
  However the fragments of a file of whole boxes are found, one box after another or in parallel from
  a segment index and in whatever order the parts finish, they are the file's \<^verbatim>\<open>moof\<close> boxes, every one and
  in file order, and nothing is reported as cut off. The one exception is a box of size 0, one that
  declares that it goes to the end: the parallel walk takes it to end with its part.\<close>

theorem fragments_found:
  assumes "reads_content src c" and "\<And>n. set (order n) = {..<n}"
    and "boxes_between c 0 (length c) = Some bs" and "sized c bs"
    and "fetch_with src l order use_sidx = ok m"
  shows "md_fragments m = moofs_of c bs \<and> md_dropped m = None"
proof -
  obtain w where "walk_run src l order use_sidx 0 walk_new = ok w"
      "md_fragments m = wk_fragments w" "md_dropped m = wk_dropped w"
    using assms(5) by (auto simp: fetch_with_def and_then_eq_Inr add_metadata_bytes_def split: if_splits)
  then show ?thesis
    using walk_run_exact [OF assms(1,2) _ _ assms(3,4)] by (simp add: walk_new_def)
qed

end
