(* ===== verification/Source_Metadata_Properties.thy ===== *)
theory Source_Metadata_Properties
  imports Source_Metadata_Laws
begin

text \<open>
  What the walk over the top-level boxes guarantees beyond the fragments themselves: it succeeds on a file
  within the limits, and whatever the source returns it keeps no more than the limits allow.
\<close>

section \<open>A file within the limits is read\<close>

definition named :: "string \<Rightarrow> (nat \<times> box_header) list \<Rightarrow> (nat \<times> box_header) list" where
  "named name bs = filter (\<lambda>b. bh_name (snd b) = ascii name) bs"

definition others :: "(nat \<times> box_header) list \<Rightarrow> (nat \<times> box_header) list" where
  "others bs = filter (\<lambda>b. bh_name (snd b) \<notin> ascii ` {''moov'', ''moof'', ''mdat''}) bs"

definition total_size :: "(nat \<times> box_header) list \<Rightarrow> nat" where
  "total_size bs = (\<Sum>b\<leftarrow>bs. bh_size (snd b))"

lemma named_simps [simp]:
  "named name [] = []"
  "named name ((off, h) # bs) = (if bh_name h = ascii name then (off, h) # named name bs else named name bs)"
  by (simp_all add: named_def)

lemma others_simps [simp]:
  "others [] = []"
  "others ((off, h) # bs) = (if bh_name h \<in> ascii ` {''moov'', ''moof'', ''mdat''} then others bs else (off, h) # others bs)"
  by (simp_all add: others_def)

lemma total_size_simps [simp]: "total_size [] = 0" "total_size ((off, h) # bs) = bh_size h + total_size bs"
  by (simp_all add: total_size_def)

text \<open>What a file may hold: every \<^verbatim>\<open>moov\<close> fits beside all the \<^verbatim>\<open>moof\<close> boxes.\<close>

definition boxes_within :: "limits \<Rightarrow> (nat \<times> box_header) list \<Rightarrow> bool" where
  "boxes_within l bs \<longleftrightarrow>
     length (named ''moof'' bs) \<le> max_fragments l
     \<and> length (named ''mdat'' bs) \<le> saturating_add (max_fragments l) 16
     \<and> length (others bs) \<le> MAX_OTHER_BOXES
     \<and> (\<forall>b \<in> set (named ''moov'' bs). total_size (named ''moof'' bs) + bh_size (snd b) \<le> max_metadata_bytes l)
     \<and> total_size (named ''moof'' bs) \<le> max_metadata_bytes l"

text \<open>The walk with some of the boxes behind it.\<close>

definition room_for :: "limits \<Rightarrow> (nat \<times> box_header) list \<Rightarrow> walk \<Rightarrow> bool" where
  "room_for l bs w \<longleftrightarrow>
     length (wk_fragments w) + length (named ''moof'' bs) \<le> max_fragments l
     \<and> wk_media_boxes w + length (named ''mdat'' bs) \<le> saturating_add (max_fragments l) 16
     \<and> wk_other_boxes w + length (others bs) \<le> MAX_OTHER_BOXES
     \<and> (\<forall>b \<in> set (named ''moov'' bs). bh_size (snd b) \<le> max_metadata_bytes l)
     \<and> wk_metadata_bytes w + total_size (named ''moof'' bs) \<le> max_metadata_bytes l"

text \<open>What a box leaves of the walk.\<close>

definition moov_of :: "bytes \<Rightarrow> (nat \<times> box_header) list \<Rightarrow> (byte_range \<times> bytes) option \<Rightarrow> (byte_range \<times> bytes) option" where
  "moov_of c bs before =
     (case last_opt (named ''moov'' bs) of
        None \<Rightarrow> before
      | Some (off, h) \<Rightarrow> Some (byte_range_new off (bh_size h), subslice c off (off + bh_size h)))"

lemma record_box_succeeds:
  assumes src: "reads_content src c" and w: "window_of c (wk_reader w)"
    and h: "header_at c off (length c) = Some h" and room: "room_for l ((off, h) # bs) w"
    and big: "max_metadata_bytes l < u64_limit" and no_sidx: "u \<Longrightarrow> bh_name h \<noteq> ascii ''sidx''"
  shows "\<exists>w'. record_box src l off h u w = ok w' \<and> room_for l bs w' \<and> wk_pending w' = wk_pending w
    \<and> wk_discovery w' = wk_discovery w \<and> wk_moov w' = moov_of c [(off, h)] (wk_moov w)
    \<and> wk_metadata_bytes w' = wk_metadata_bytes w + total_size (named ''moof'' [(off, h)])"
proof -
  have size: "off + bh_size h \<le> length c" using header_at_size [OF h] by simp
  obtain r where r: "walk_read src off (bh_size h) w = ok (subslice c off (off + bh_size h), w\<lparr>wk_reader := r\<rparr>)"
    by (rule walk_read_exact [OF src w size])
  let ?w = "w\<lparr>wk_metadata_bytes := wk_metadata_bytes w + bh_size h\<rparr>"
  obtain r' where r': "walk_read src off (bh_size h) ?w = ok (subslice c off (off + bh_size h), ?w\<lparr>wk_reader := r'\<rparr>)"
    by (rule walk_read_exact [OF src _ size, of ?w]) (use w in simp)
  consider "bh_name h = ascii ''moov''" | "bh_name h = ascii ''moof''" | "bh_name h = ascii ''mdat''"
    | "bh_name h \<notin> ascii ` {''moov'', ''moof'', ''mdat''}" by blast
  then show ?thesis
  proof cases
    case 1
    then have "record_box src l off h u w = record_moov src l off (bh_size h) w" by (simp add: record_box_def)
    then show ?thesis using 1 room r moof_names by (auto simp: record_moov_def room_for_def moov_of_def last_opt_def)
  next
    case 2
    then have "record_box src l off h u w = record_moof src l off (bh_size h) w"
      using moof_names by (simp add: record_box_def)
    then show ?thesis using 2 room r' moof_names big
      by (auto simp: record_moof_def room_for_def moov_of_def last_opt_def add_metadata_bytes_def saturating_add_def)
  next
    case 3
    then have "record_box src l off h u w = record_mdat l w" using moof_names by (simp add: record_box_def)
    then show ?thesis using 3 room moof_names by (auto simp: record_mdat_def room_for_def moov_of_def last_opt_def)
  next
    case 4
    then have "record_box src l off h u w = count_other w" using no_sidx by (auto simp: record_box_def)
    then show ?thesis using 4 room by (auto simp: count_other_def room_for_def moov_of_def last_opt_def)
  qed
qed

lemma moov_of_Cons: "moov_of c (b # bs) before = moov_of c bs (moov_of c [b] before)"
  by (cases b) (simp add: moov_of_def last_opt_def split: prod.splits)

lemma walk_run_succeeds:
  assumes src: "reads_content src c" and big: "max_metadata_bytes l < u64_limit"
    and "window_of c (wk_reader w)" and "boxes_between c off (length c) = Some bs" and "room_for l bs w"
    and "wk_pending w = None" and "u \<Longrightarrow> named ''sidx'' bs = []"
  shows "\<exists>w'. walk_run src l order u off w = ok w' \<and> wk_discovery w' = wk_discovery w
    \<and> wk_moov w' = moov_of c bs (wk_moov w)
    \<and> wk_metadata_bytes w' = wk_metadata_bytes w + total_size (named ''moof'' bs)
    \<and> wk_fragments w' = wk_fragments w @ moofs_of c bs \<and> wk_dropped w' = wk_dropped w"
  using assms(3-)
proof (induction bs arbitrary: off w)
  case Nil
  then have "length c \<le> off" by (auto simp: boxes_between.simps [of _ off] split: if_splits option.splits)
  then show ?case using src by (simp add: walk_run.simps [of _ _ _ _ off] reads_content_def moov_of_def last_opt_def)
next
  case (Cons b bs)
  obtain h where h: "header_at c off (length c) = Some h" "boxes_between c (off + bh_size h) (length c) = Some bs"
      "b = (off, h)" "off < length c"
    using Cons.prems(2) by (auto simp: boxes_between.simps [of _ off] split: if_splits option.splits)
  obtain r where r: "window_of c r" "read_header src off (length c) (wk_reader w) = (ok h, r)"
    by (rule read_header_exact [OF src Cons.prems(1) order_refl, of off]) (use h(1) in auto)
  let ?w = "w\<lparr>wk_reader := r\<rparr>"
  have room: "room_for l ((off, h) # bs) ?w" using Cons.prems(3) h(3) by (simp add: room_for_def)
  have window: "window_of c (wk_reader ?w)" using r(1) by simp
  have no_sidx: "bh_name h \<noteq> ascii ''sidx''" if u using Cons.prems(5) [OF that] h(3) by (auto split: if_splits)
  obtain w2 where w2: "record_box src l off h u ?w = ok w2" "room_for l bs w2" "wk_pending w2 = wk_pending ?w"
      "wk_discovery w2 = wk_discovery ?w" "wk_moov w2 = moov_of c [(off, h)] (wk_moov ?w)"
      "wk_metadata_bytes w2 = wk_metadata_bytes ?w + total_size (named ''moof'' [(off, h)])"
    using record_box_succeeds [OF src window h(1) room big no_sidx] by blast
  have kept: "window_of c (wk_reader w2)" "wk_dropped w2 = wk_dropped w"
      "wk_fragments w2 = wk_fragments w @ moofs_of c [(off, h)]"
    using record_box_exact [OF src window h(1) w2(1)] by simp_all
  have tail: "u \<Longrightarrow> named ''sidx'' bs = []" using Cons.prems(5) h(3) by (auto split: if_splits)
  obtain w' where w': "walk_run src l order u (off + bh_size h) w2 = ok w'" "wk_discovery w' = wk_discovery w2"
      "wk_moov w' = moov_of c bs (wk_moov w2)" "wk_metadata_bytes w' = wk_metadata_bytes w2 + total_size (named ''moof'' bs)"
      "wk_fragments w' = wk_fragments w2 @ moofs_of c bs" "wk_dropped w' = wk_dropped w2"
    using Cons.IH [OF kept(1) h(2) w2(2) _ tail] w2(3) Cons.prems(4) by auto
  have "try_jump src l order off w = ok (None, w)" using Cons.prems(4) by (simp add: try_jump_def)
  then have "walk_run src l order u off w = ok w'"
    using src h(4) r(2) w2(1) w'(1) by (simp add: walk_run.simps [of _ _ _ _ off] reads_content_def)
  then show ?case using w' w2 h(3) kept moov_of_Cons [of c "(off, h)" bs "wk_moov w"] by auto
qed

lemma whole_file_read:
  assumes "reads_content src c" and "boxes_between c 0 (length c) = Some bs"
    and "boxes_within l bs" and "max_metadata_bytes l < u64_limit" and "named ''sidx'' bs = []"
    and "named ''moov'' bs \<noteq> []"
  shows "\<exists>m off h. fetch src l order = ok m \<and> last (named ''moov'' bs) = (off, h)
    \<and> md_moov m = byte_range_new off (bh_size h) \<and> md_moov_bytes m = subslice c off (off + bh_size h)
    \<and> md_len m = length c \<and> md_fragments m = moofs_of c bs \<and> md_dropped m = None"
proof -
  obtain off h where b: "last (named ''moov'' bs) = (off, h)" by fastforce
  have last: "(off, h) \<in> set (named ''moov'' bs)" using b assms(6) last_in_set by fastforce
  have room: "room_for l bs walk_new"
    using assms(3) by (fastforce simp: room_for_def boxes_within_def walk_new_def)
  have walk: "window_of c (wk_reader walk_new)" "wk_pending walk_new = None" by (simp_all add: walk_new_def)
  obtain w where w: "walk_run src l order True 0 walk_new = ok w" "wk_moov w = moov_of c bs (wk_moov walk_new)"
      "wk_metadata_bytes w = total_size (named ''moof'' bs)" "wk_fragments w = moofs_of c bs" "wk_dropped w = None"
    using walk_run_succeeds [OF assms(1,4) walk(1) assms(2) room walk(2) assms(5)] by (auto simp: walk_new_def)
  have moov: "wk_moov w = Some (byte_range_new off (bh_size h), subslice c off (off + bh_size h))"
    using w(2) b assms(6) by (simp add: moov_of_def last_opt_def)
  have add: "add_metadata_bytes l (bh_size h) w = ok (w\<lparr>wk_metadata_bytes := wk_metadata_bytes w + bh_size h\<rparr>)"
    using w(3) last assms(3,4) by (fastforce simp: add_metadata_bytes_def saturating_add_def boxes_within_def)
  have len: "ms_len src = length c" using assms(1) by (simp add: reads_content_def)
  show ?thesis
    by (simp only: fetch_def fetch_with_def w(1) moov and_then_simps ok_or_simps case_prod_conv)
      (simp add: add b w len byte_range_new_def)
qed

text \<open>C37
  Metadata discovery succeeds on every file of whole boxes within the limits that has a \<^verbatim>\<open>moov\<close> and no
  \<^verbatim>\<open>sidx\<close>: it keeps the last \<^verbatim>\<open>moov\<close> with its place and bytes and every fragment, and nothing is cut off.\<close>

theorem whole_file_fetched:
  assumes "reads_content src c" and "boxes_between c 0 (length c) = Some bs"
    and "boxes_within l bs" and "max_metadata_bytes l < u64_limit" and "named ''sidx'' bs = []"
    and "named ''moov'' bs \<noteq> []"
  shows "\<exists>m off h. fetch src l order = ok m \<and> last (named ''moov'' bs) = (off, h)
    \<and> md_moov m = byte_range_new off (bh_size h) \<and> md_moov_bytes m = subslice c off (off + bh_size h)
    \<and> md_len m = length c \<and> md_fragments m = moofs_of c bs \<and> md_dropped m = None"
  by (rule whole_file_read [OF assms])

section \<open>Whatever the source returns\<close>

text \<open>A read gives exactly the bytes asked for, or an error.\<close>

lemma read_window_length: "read_window src off n w = (ok bs, w') \<Longrightarrow> length bs = n"
  by (auto simp: read_window_def cut_window_def slice_def split: option.splits if_splits sum.splits)

text \<open>The totals a walk keeps are within the limits.\<close>

definition within_limits :: "limits \<Rightarrow> walk \<Rightarrow> bool" where
  "within_limits l w \<longleftrightarrow>
     length (wk_fragments w) \<le> max_fragments l
     \<and> (\<Sum>f\<leftarrow>wk_fragments w. length (fr_bytes f)) \<le> wk_metadata_bytes w
     \<and> wk_metadata_bytes w \<le> max_metadata_bytes l
     \<and> wk_other_boxes w \<le> MAX_OTHER_BOXES \<and> wk_media_boxes w \<le> max_fragments l + 16
     \<and> (\<forall>moov bs. wk_moov w = Some (moov, bs) \<longrightarrow> length bs = br_length moov)"

lemma add_metadata_bytes_within:
  assumes "add_metadata_bytes l n w = ok w'" and "max_metadata_bytes l < u64_limit - 1"
  shows "w' = w\<lparr>wk_metadata_bytes := wk_metadata_bytes w + n\<rparr> \<and> wk_metadata_bytes w + n \<le> max_metadata_bytes l"
  using assms by (auto simp: add_metadata_bytes_def saturating_add_def split: if_splits)

lemma walk_read_within:
  "walk_read src off n w = ok (bs, w') \<Longrightarrow> length bs = n \<and> (\<exists>r. w' = w\<lparr>wk_reader := r\<rparr>)"
  by (auto simp: walk_read_def dest: read_window_length split: prod.splits sum.splits)

lemma record_box_within:
  assumes "record_box src l off h u w = ok w'" and "within_limits l w" and "max_metadata_bytes l < u64_limit - 1"
  shows "within_limits l w'"
proof -
  consider "record_moov src l off (bh_size h) w = ok w'" | "record_moof src l off (bh_size h) w = ok w'"
    | "record_sidx src l off (bh_size h) w = ok w'" | "record_mdat l w = ok w'" | "count_other w = ok w'"
    using assms(1) unfolding record_box_def by metis
  then show ?thesis
  proof cases
    case 1
    then show ?thesis using assms(2)
      by (auto simp: record_moov_def and_then_eq_Inr within_limits_def byte_range_new_def dest!: walk_read_within split: if_splits)
  next
    case 2
    then obtain w1 bs w2 where w1: "add_metadata_bytes l (bh_size h) w = ok w1" "walk_read src off (bh_size h) w1 = ok (bs, w2)"
        "w' = w2\<lparr>wk_fragments := wk_fragments w2 @ [\<lparr>fr_offset = off, fr_bytes = bs\<rparr>], wk_last_moof := Some off\<rparr>"
        "length (wk_fragments w) < max_fragments l"
      by (auto simp: record_moof_def and_then_eq_Inr split: if_splits)
    then show ?thesis using assms(2) add_metadata_bytes_within [OF w1(1) assms(3)] walk_read_within [OF w1(2)]
      by (auto simp: within_limits_def)
  next
    case 3
    then show ?thesis using assms(2)
      by (auto simp: record_sidx_def count_other_def and_then_eq_Inr within_limits_def dest!: walk_read_within split: if_splits)
  next
    case 4
    then show ?thesis using assms(2)
      by (auto simp: record_mdat_def within_limits_def saturating_add_def split: if_splits)
  next
    case 5
    then show ?thesis using assms(2) by (auto simp: count_other_def within_limits_def split: if_splits)
  qed
qed

lemma try_jump_within:
  assumes "try_jump src l order off w = ok (jump, w')" and "within_limits l w" and "max_metadata_bytes l < u64_limit - 1"
  shows "within_limits l w'"
proof -
  have kept: "within_limits l (w\<lparr>wk_pending := None\<rparr>)" using assms(2) by (simp add: within_limits_def)
  have "within_limits l (w3\<lparr>wk_discovery := d\<rparr>)"
    if "add_metadata_bytes l (\<Sum>f\<leftarrow>fs. length (fr_bytes f)) (w\<lparr>wk_pending := None, wk_fragments := wk_fragments w @ fs\<rparr>) = ok w3"
      "length (wk_fragments w) + length fs \<le> max_fragments l" for w3 fs d
    using add_metadata_bytes_within [OF that(1) assms(3)] assms(2) that(2) by (auto simp: within_limits_def)
  then show ?thesis
    using assms(1,2) kept
    by (auto simp: try_jump_def and_then_eq_Inr Let_def not_less split: option.splits if_splits)
qed

lemma handle_cut_within:
  assumes "handle_cut src l off message w = ok w'" and "within_limits l w"
  shows "within_limits l w'"
proof -
  have "(\<Sum>f\<leftarrow>butlast fs. length (fr_bytes f)) \<le> (\<Sum>f\<leftarrow>fs. length (fr_bytes f))" for fs
    by (induction fs) simp_all
  note shorter = order_trans [OF this]
  show ?thesis using assms
    by (auto simp: handle_cut_def drop_tail_def Let_def within_limits_def intro: shorter
        split: sum.splits prod.splits option.splits if_splits)
qed

lemma walk_run_within:
  assumes "walk_run src l order u off w = ok w'" and "within_limits l w" and "max_metadata_bytes l < u64_limit - 1"
  shows "within_limits l w'"
  using assms(1,2)
proof (induction "2 * (ms_len src - off) + (if wk_pending w = None then 0 else 1)" arbitrary: off w rule: less_induct)
  case less
  note run = less.prems(1)
  show ?case
  proof (cases "ms_len src \<le> off")
    case True
    then show ?thesis using less.prems by (simp add: walk_run.simps [of _ _ _ _ off])
  next
    case False
    obtain jump w1 where jump: "try_jump src l order off w = ok (jump, w1)"
      using run False by (auto simp: walk_run.simps [of _ _ _ _ off] and_then_eq_Inr)
    note w1 = try_jump_within [OF jump less.prems(2) assms(3)]
    show ?thesis
    proof (cases jump)
      case (Some e)
      have smaller: "2 * (ms_len src - e) + (if wk_pending w1 = None then 0 else 1) < 2 * (ms_len src - off) + (if wk_pending w = None then 0 else 1)"
        using try_jump_pending [OF jump [unfolded Some]] by auto
      have "walk_run src l order u e w1 = ok w'"
        using run False jump Some by (simp add: walk_run.simps [of _ _ _ _ off])
      then show ?thesis using less.hyps [OF smaller] w1 by simp
    next
      case None
      obtain res r where r: "read_header src off (ms_len src) (wk_reader w1) = (res, r)" by fastforce
      let ?w = "w1\<lparr>wk_reader := r\<rparr>"
      have kept: "within_limits l ?w" using w1 by (simp add: within_limits_def)
      show ?thesis
      proof (cases res)
        case (Inl e)
        then obtain message where "handle_cut src l off message ?w = ok w'"
          using run False jump None r
          by (auto simp: walk_run.simps [of _ _ _ _ off] split: fault.splits error.splits)
        then show ?thesis using kept by (rule handle_cut_within)
      next
        case (Inr h)
        obtain w2 where w2: "record_box src l off h u ?w = ok w2" "walk_run src l order u (off + bh_size h) w2 = ok w'"
          using run False jump None r Inr by (auto simp: walk_run.simps [of _ _ _ _ off] and_then_eq_Inr)
        have "2 * (ms_len src - (off + bh_size h)) + (if wk_pending w2 = None then 0 else 1) < 2 * (ms_len src - off) + (if wk_pending w = None then 0 else 1)"
          using read_header_size [OF r [unfolded Inr]] False by auto
        then show ?thesis using less.hyps w2(2) record_box_within [OF w2(1) kept assms(3)] by blast
      qed
    qed
  qed
qed

text \<open>C36
  Whatever the source returns, and whatever a hostile file says of itself, what discovery keeps stays within
  the limits: no more fragments than allowed, and no more bytes of \<^verbatim>\<open>moov\<close> and \<^verbatim>\<open>moof\<close> boxes together.\<close>

theorem metadata_bounded:
  assumes "fetch_with src l order use_sidx = ok m" and "max_metadata_bytes l < u64_limit - 1"
  shows "length (md_fragments m) \<le> max_fragments l
    \<and> length (md_moov_bytes m) + (\<Sum>f\<leftarrow>md_fragments m. length (fr_bytes f)) \<le> max_metadata_bytes l"
proof -
  have start: "within_limits l walk_new" by (simp add: within_limits_def walk_new_def)
  obtain w w1 moov bs where run: "walk_run src l order use_sidx 0 walk_new = ok w" "wk_moov w = Some (moov, bs)"
      "add_metadata_bytes l (br_length moov) w = ok w1"
    and m: "md_fragments m = wk_fragments w1" "md_moov_bytes m = bs"
    using assms(1) by (auto simp: fetch_with_def and_then_eq_Inr ok_or_eq_Inr)
  show ?thesis
    using walk_run_within [OF run(1) start assms(2)] add_metadata_bytes_within [OF run(3) assms(2)] run(2) m
    by (auto simp: within_limits_def)
qed

text \<open>Metadata discovery on small files, among them one whose segment index is followed.\<close>

definition memory_source :: "bytes \<Rightarrow> media_source" where
  "memory_source c = \<lparr>ms_len = length c, ms_read = (\<lambda>r. slice c (br_offset r) (br_offset r + br_length r))\<rparr>"

lemma memory_source_reads: "length c < u64_limit \<Longrightarrow> reads_content (memory_source c) c"
  by (simp add: reads_content_def memory_source_def byte_range_new_def)

definition plain_box :: "string \<Rightarrow> bytes \<Rightarrow> bytes" where
  "plain_box name payload = be_bytes 4 (8 + length payload) @ ascii name @ payload"

definition fragment_pairs :: "nat \<Rightarrow> bytes" where
  "fragment_pairs n = concat (replicate n (plain_box ''moof'' [] @ plain_box ''mdat'' []))"

definition indexed_file :: bytes where
  "indexed_file = plain_box ''moov'' []
     @ plain_box ''sidx'' (replicate 22 0 @ be_bytes 2 4 @ concat (replicate 4 (be_bytes 4 16 @ replicate 8 0)))
     @ fragment_pairs 4"

definition plain_file :: bytes where
  "plain_file = plain_box ''ftyp'' [] @ plain_box ''moov'' [] @ fragment_pairs 2"

definition small_limits :: limits where
  "small_limits = (limits_default (Some 4))\<lparr>max_fragments := 4, max_metadata_bytes := 1024\<rparr>"

lemma indexed_file_fetched:
  "case fetch_with (memory_source indexed_file) small_limits (\<lambda>n. rev [0..<n]) True of Inl _ \<Rightarrow> False
   | Inr m \<Rightarrow> md_discovery m = Sidx \<and> map fr_offset (md_fragments m) = [88, 104, 120, 136]"
  by code_simp

lemma indexed_file_tiled:
  "case boxes_between indexed_file 0 (length indexed_file) of None \<Rightarrow> False | Some bs \<Rightarrow> sized indexed_file bs"
  by code_simp

lemma indexed_file_reads: "reads_content (memory_source indexed_file) indexed_file"
proof -
  have "length indexed_file = 152" by code_simp
  then show ?thesis by (intro memory_source_reads) simp
qed

lemma backwards_complete: "set (rev [0..<n]) = {..<n}"
  by (simp add: atLeast0LessThan)

theorem fragments_found_witness:
  "\<exists>m bs. fetch_with (memory_source indexed_file) small_limits (\<lambda>n. rev [0..<n]) True = ok m
     \<and> md_discovery m = Sidx \<and> md_fragments m = moofs_of indexed_file bs \<and> length (md_fragments m) = 4"
proof -
  obtain m where m: "fetch_with (memory_source indexed_file) small_limits (\<lambda>n. rev [0..<n]) True = ok m"
      "md_discovery m = Sidx" "map fr_offset (md_fragments m) = [88, 104, 120, 136]"
    using indexed_file_fetched by (auto split: sum.splits)
  obtain bs where bs: "boxes_between indexed_file 0 (length indexed_file) = Some bs" "sized indexed_file bs"
    using indexed_file_tiled by (auto split: option.splits)
  have "length (md_fragments m) = 4" using arg_cong [OF m(3), of length] by simp
  then show ?thesis
    using m fragments_found [OF indexed_file_reads backwards_complete bs m(1)] by blast
qed

theorem metadata_bounded_witness:
  "\<exists>m. fetch_with (memory_source indexed_file) small_limits (\<lambda>n. rev [0..<n]) True = ok m
     \<and> length (md_fragments m) \<le> 4 \<and> length (md_moov_bytes m) + (\<Sum>f\<leftarrow>md_fragments m. length (fr_bytes f)) \<le> 1024"
proof -
  obtain m where m: "fetch_with (memory_source indexed_file) small_limits (\<lambda>n. rev [0..<n]) True = ok m"
    using indexed_file_fetched by (auto split: sum.splits)
  have "max_metadata_bytes small_limits < u64_limit - 1" by (simp add: small_limits_def)
  from metadata_bounded [OF m this] show ?thesis using m by (simp add: small_limits_def)
qed

lemma plain_file_tiled:
  "case boxes_between plain_file 0 (length plain_file) of None \<Rightarrow> False
   | Some bs \<Rightarrow> boxes_within small_limits bs \<and> named ''sidx'' bs = [] \<and> named ''moov'' bs \<noteq> [] \<and> length (moofs_of plain_file bs) = 2"
  by code_simp

theorem whole_file_fetched_witness:
  "\<exists>m. fetch (memory_source plain_file) small_limits (\<lambda>n. [0..<n]) = ok m
     \<and> length (md_fragments m) = 2 \<and> md_dropped m = None"
proof -
  have "length plain_file = 48" by code_simp
  then have reads: "reads_content (memory_source plain_file) plain_file" by (intro memory_source_reads) simp
  have big: "max_metadata_bytes small_limits < u64_limit" by (simp add: small_limits_def)
  obtain bs where bs: "boxes_between plain_file 0 (length plain_file) = Some bs" "boxes_within small_limits bs"
      "named ''sidx'' bs = []" "named ''moov'' bs \<noteq> []" "length (moofs_of plain_file bs) = 2"
    using plain_file_tiled by (auto split: option.splits)
  show ?thesis
    using whole_file_fetched [OF reads bs(1,2) big bs(3,4), of "\<lambda>n. [0..<n]"] bs(5) by auto
qed

end
