(* ===== verification/Source_Protection.thy ===== *)
theory Source_Protection
  imports Fragment_Reader Codec_Entries
begin

text \<open>
  How a source track is protected (\<^verbatim>\<open>src/src/mp4/protection.rs\<close>): the \<^verbatim>\<open>sinf\<close> box, and the IVs and the
  subsample maps that \<^verbatim>\<open>senc\<close> boxes hold, of a progressive file in one box and of a fragmented one in a
  box of each track fragment.
\<close>

section \<open>The protection scheme\<close>

record sinf =
  sf_original_format :: bytes
  sf_scheme :: source_scheme
  sf_key_id :: bytes
  sf_iv_size :: nat
  sf_constant_iv :: "bytes option"
  sf_crypt_blocks :: nat
  sf_skip_blocks :: nat
  sf_is_protected :: bool

definition track_unsupported :: "nat \<Rightarrow> string \<Rightarrow> error" where
  "track_unsupported track_id what = Unsupported (''track '' @ decimal track_id @ '': '' @ what)"

text \<open>The constant IV of a track with no IV per sample, after the key ID.\<close>

definition constant_iv_of :: "nat \<Rightarrow> bool \<Rightarrow> nat \<Rightarrow> reader \<Rightarrow> bytes option res" where
  "constant_iv_of track_id is_protected iv_size r =
     (if is_protected \<and> iv_size = 0
      then
        and_then (rd_u8 r) (\<lambda>(size_byte, r1).
        let size = unat size_byte in
        and_then (rd_take r1 size) (\<lambda>(bs, _).
        and_then (ok_or (iv16 bs) (track_unsupported track_id
            (''a constant IV of '' @ decimal size @ '' bytes is not supported''))) (\<lambda>iv.
          ok (Some iv))))
      else ok None)"

definition sinf_of ::
    "nat \<Rightarrow> bytes \<Rightarrow> source_scheme \<Rightarrow> byte \<Rightarrow> byte \<Rightarrow> bool \<Rightarrow> nat \<Rightarrow> bytes \<Rightarrow> reader \<Rightarrow> sinf res" where
  "sinf_of track_id original_format scheme version pat is_protected iv_size key_id r =
     (if iv_size \<notin> {0, 8, 16}
      then fail (track_unsupported track_id
        (''a per-sample IV of '' @ decimal iv_size @ '' bytes is not supported''))
      else
        and_then (constant_iv_of track_id is_protected iv_size r) (\<lambda>constant_iv.
          ok \<lparr>sf_original_format = original_format, sf_scheme = scheme, sf_key_id = key_id,
              sf_iv_size = iv_size, sf_constant_iv = constant_iv,
              sf_crypt_blocks = (if 1 \<le> version then unat (drop_bit 4 pat) else 0),
              sf_skip_blocks = (if 1 \<le> version then unat (and pat 0x0f) else 0),
              sf_is_protected = is_protected\<rparr>))"

definition read_tenc :: "nat \<Rightarrow> bytes \<Rightarrow> source_scheme \<Rightarrow> bytes \<Rightarrow> sinf res" where
  "read_tenc track_id original_format scheme payload =
     and_then (rd_full_box (reader_new payload)) (\<lambda>(version, r1).
     and_then (rd_skip r1 1) (\<lambda>r2.
     and_then (rd_u8 r2) (\<lambda>(pat, r3).
     and_then (rd_u8 r3) (\<lambda>(is_protected, r4).
     if 1 < is_protected
     then fail (track_unsupported track_id
       (''default_isProtected of '' @ decimal (unat is_protected) @ '' is not supported''))
     else
       and_then (rd_u8 r4) (\<lambda>(iv_size, r5).
       and_then (rd_take r5 16) (\<lambda>(key_id, r6).
         sinf_of track_id original_format scheme version pat (is_protected = 1) (unat iv_size) key_id r6))))))"

definition parse_sinf :: "nat \<Rightarrow> bytes \<Rightarrow> sinf res" where
  "parse_sinf track_id payload =
     and_then (required_child payload (ascii ''frma'')) (\<lambda>frma.
     and_then (ok_or (get_slice (bx_payload frma) 0 4) (invalid_media ''frma is truncated'')) (\<lambda>original_format.
     and_then (required_child payload (ascii ''schm'')) (\<lambda>schm.
     and_then (ok_or (get_slice (bx_payload schm) 4 8) (invalid_media ''schm is truncated'')) (\<lambda>scheme_type.
     and_then (ok_or (scheme_from_fourcc scheme_type) (track_unsupported track_id
         (''protection scheme `'' @ fourcc scheme_type @ ''` is not supported''))) (\<lambda>scheme.
     and_then (required_child payload (ascii ''schi'')) (\<lambda>schi.
     and_then (required_child (bx_payload schi) (ascii ''tenc'')) (\<lambda>tenc.
       read_tenc track_id original_format scheme (bx_payload tenc))))))))"

section \<open>IVs and subsample maps\<close>

record aux_builder =
  ab_iv_size :: nat
  ab_limit :: nat
  ab_samples :: nat
  ab_ivs :: bytes
  ab_sub_first :: "nat list"
  ab_subsamples :: "subsample list"

definition builder_new :: "nat \<Rightarrow> nat \<Rightarrow> aux_builder" where
  "builder_new iv_size limit =
     \<lparr>ab_iv_size = iv_size, ab_limit = limit, ab_samples = 0, ab_ivs = [], ab_sub_first = [],
      ab_subsamples = []\<rparr>"

definition reserve :: "nat \<Rightarrow> aux_builder \<Rightarrow> unit res" where
  "reserve count b =
     (case checked_add (ab_samples b) count of
        None \<Rightarrow> fail (invalid_media ''senc describes more samples than the track has'')
      | Some n \<Rightarrow>
          if ab_limit b < n then fail (invalid_media ''senc describes more samples than the track has'')
          else ok ())"

definition too_many_subsamples :: error where
  "too_many_subsamples = invalid_media ''senc has too many subsamples''"

text \<open>The subsamples of one sample, as many as its count says.\<close>

fun read_subsamples :: "nat \<Rightarrow> subsample list \<Rightarrow> reader \<Rightarrow> (subsample list \<times> reader) res" where
  "read_subsamples 0 subs r = ok (subs, r)"
| "read_subsamples (Suc n) subs r =
     and_then (rd_u16 r) (\<lambda>(clear, r1).
     and_then (rd_u32 r1) (\<lambda>(protected, r2).
       read_subsamples n (subs @ [\<lparr>sb_clear = clear, sb_protected = protected\<rparr>]) r2))"

definition senc_entry :: "bool \<Rightarrow> aux_builder \<times> reader \<Rightarrow> nat \<Rightarrow> (aux_builder \<times> reader) res" where
  "senc_entry with_subsamples = (\<lambda>(b, r) _.
     and_then (rd_take r (ab_iv_size b)) (\<lambda>(iv, r1).
     and_then (ok_or (u32_of_nat (length (ab_subsamples b))) too_many_subsamples) (\<lambda>first.
     let b1 = b\<lparr>ab_ivs := ab_ivs b @ iv, ab_sub_first := ab_sub_first b @ [first]\<rparr> in
     if with_subsamples
     then
       and_then (rd_u16 r1) (\<lambda>(n, r2).
       and_then (read_subsamples n (ab_subsamples b1) r2) (\<lambda>(subs, r3).
         ok (b1\<lparr>ab_subsamples := subs\<rparr>, r3)))
     else ok (b1, r1))))"

definition push_senc :: "nat \<Rightarrow> bytes \<Rightarrow> nat \<Rightarrow> string \<Rightarrow> aux_builder \<Rightarrow> aux_builder res" where
  "push_senc track_id payload expected what b =
     and_then (rd_full_box_flags (reader_new payload)) (\<lambda>(_, flags, r1).
     and_then (rd_u32 r1) (\<lambda>(count, r2).
     if count \<noteq> expected
     then fail (InvalidMedia (''track '' @ decimal track_id @ '': senc describes '' @ decimal count
       @ '' samples, '' @ what @ '' has '' @ decimal expected))
     else
       let with_subsamples = has_flag flags 2;
           least = ab_iv_size b + (if with_subsamples then 2 else 0) in
       if (case checked_mul count least of None \<Rightarrow> True | Some n \<Rightarrow> rd_remaining r2 < n)
       then fail (invalid_media ''senc sample count exceeds its box'')
       else
         and_then (reserve count b) (\<lambda>_.
         and_then (try_fold (senc_entry with_subsamples) (b, r2) [0..<count]) (\<lambda>(b1, _).
           ok (b1\<lparr>ab_samples := ab_samples b1 + count\<rparr>)))))"

definition push_unlisted :: "nat \<Rightarrow> aux_builder \<Rightarrow> aux_builder res" where
  "push_unlisted count b =
     and_then (reserve count b) (\<lambda>_.
     and_then (ok_or (u32_of_nat (length (ab_subsamples b))) too_many_subsamples) (\<lambda>at.
       ok (b\<lparr>ab_sub_first := ab_sub_first b @ replicate count at, ab_samples := ab_samples b + count\<rparr>)))"

definition builder_finish :: "aux_builder \<Rightarrow> aux_table res" where
  "builder_finish b =
     (if ab_subsamples b = [] then ok (aux_new (ab_iv_size b) (ab_ivs b) [] [])
      else
        and_then (expect (u32_of_nat (length (ab_subsamples b)))) (\<lambda>n.
          ok (aux_new (ab_iv_size b) (ab_ivs b) (ab_sub_first b @ [n]) (ab_subsamples b))))"

section \<open>The protection of a track\<close>

definition protection_of :: "sinf \<Rightarrow> aux_table \<Rightarrow> source_protection" where
  "protection_of s aux =
     \<lparr>sp_scheme = sf_scheme s, sp_original_format = sf_original_format s, sp_key_id = sf_key_id s,
      sp_constant_iv = sf_constant_iv s, sp_crypt_blocks = sf_crypt_blocks s,
      sp_skip_blocks = sf_skip_blocks s, sp_aux = aux\<rparr>"

definition refuse_key_changes :: "nat \<Rightarrow> raw_box list \<Rightarrow> unit res" where
  "refuse_key_changes track_id boxes =
     (if \<exists>g \<in> set boxes. bx_name g = ascii ''sgpd'' \<and> get_slice (bx_payload g) 4 8 = Some (ascii ''seig'')
      then fail (track_unsupported track_id ''a sample group that changes the key (seig) is not supported'')
      else ok ())"

definition no_senc :: "nat \<Rightarrow> error" where
  "no_senc track_id = track_unsupported track_id
     ''sample auxiliary information without a senc box is not supported''"

definition read_protection :: "nat \<Rightarrow> sinf \<Rightarrow> bytes \<Rightarrow> nat \<Rightarrow> source_protection option res" where
  "read_protection track_id s stbl sample_count =
     and_then (child_boxes stbl) (\<lambda>boxes.
     and_then (refuse_key_changes track_id boxes) (\<lambda>_.
     if \<not> sf_is_protected s then ok None
     else
       and_then (optional_child stbl (ascii ''senc'')) (\<lambda>senc.
       and_then
         (case senc of
            Some b \<Rightarrow>
              and_then (push_senc track_id (bx_payload b) sample_count ''the track''
                  (builder_new (sf_iv_size s) sample_count)) builder_finish
          | None \<Rightarrow>
              and_then (optional_child stbl (ascii ''saiz'')) (\<lambda>saiz.
                if saiz \<noteq> None then fail (no_senc track_id)
                else if sf_constant_iv s \<noteq> None then ok (aux_new 0 [] [] [])
                else fail (track_unsupported track_id ''a protected track needs a senc box, or a constant IV'')))
         (\<lambda>aux. ok (Some (protection_of s aux))))))"

definition trun_samples :: "nat \<Rightarrow> raw_box \<Rightarrow> nat res" where
  "trun_samples n trun =
     and_then (ok_or (get_slice (bx_payload trun) 4 8) (invalid_media ''trun is truncated'')) (\<lambda>bs.
       ok_or (checked_add n (be_value bs)) (invalid_media ''trun sample counts overflow''))"

definition push_traf_senc :: "nat \<Rightarrow> sinf \<Rightarrow> aux_builder \<Rightarrow> raw_box list \<Rightarrow> nat \<Rightarrow> aux_builder res" where
  "push_traf_senc track_id s b parts samples =
     (case find (\<lambda>p. bx_name p = ascii ''senc'') parts of
        Some senc \<Rightarrow> push_senc track_id (bx_payload senc) samples ''the fragment'' b
      | None \<Rightarrow>
          if \<exists>p \<in> set parts. bx_name p = ascii ''saiz'' then fail (no_senc track_id)
          else if sf_constant_iv s \<noteq> None then push_unlisted samples b
          else fail (track_unsupported track_id
            ''a protected track needs a senc box in every fragment, or a constant IV''))"

definition push_traf :: "nat \<Rightarrow> sinf \<Rightarrow> aux_builder \<Rightarrow> raw_box \<Rightarrow> aux_builder res" where
  "push_traf track_id s b traf =
     and_then (required_child (bx_payload traf) (ascii ''tfhd'')) (\<lambda>tfhd.
     if get_slice (bx_payload tfhd) 4 8 \<noteq> Some (be_bytes 4 track_id) then ok b
     else
       and_then (child_boxes (bx_payload traf)) (\<lambda>parts.
       and_then (refuse_key_changes track_id parts) (\<lambda>_.
       if \<not> sf_is_protected s then ok b
       else
         and_then (try_fold trun_samples 0 (filter (\<lambda>p. bx_name p = ascii ''trun'') parts))
           (push_traf_senc track_id s b parts))))"

lemma push_traf_cases:
  assumes "push_traf t s b traf = ok b'"
  obtains "b' = b"
  | parts n where "child_boxes (bx_payload traf) = ok parts" "push_traf_senc t s b parts n = ok b'"
  using assms by (auto simp: push_traf_def and_then_eq_Inr split: if_splits)

definition push_fragment :: "nat \<Rightarrow> sinf \<Rightarrow> aux_builder \<Rightarrow> fragment \<Rightarrow> aux_builder res" where
  "push_fragment track_id s b fr =
     and_then (box_payload (fr_bytes fr) 0) (\<lambda>moof.
     and_then (child_boxes (bx_payload moof)) (\<lambda>children.
       try_fold (push_traf track_id s) b (filter (\<lambda>c. bx_name c = ascii ''traf'') children)))"

definition read_fragmented_protection ::
    "nat \<Rightarrow> sinf \<Rightarrow> bytes \<Rightarrow> fragment list \<Rightarrow> nat \<Rightarrow> source_protection option res" where
  "read_fragmented_protection track_id s stbl fragments sample_count =
     and_then (child_boxes stbl) (\<lambda>boxes.
     and_then (refuse_key_changes track_id boxes) (\<lambda>_.
     and_then (try_fold (push_fragment track_id s) (builder_new (sf_iv_size s) sample_count) fragments) (\<lambda>b.
     if \<not> sf_is_protected s then ok None
     else if ab_samples b \<noteq> sample_count
     then fail (InvalidMedia (''track '' @ decimal track_id @ '': the fragments' senc boxes describe ''
       @ decimal (ab_samples b) @ '' samples, the track has '' @ decimal sample_count))
     else and_then (builder_finish b) (\<lambda>aux. ok (Some (protection_of s aux))))))"

end
