(* ===== verification/Source_Protection_Laws.thy ===== *)
theory Source_Protection_Laws
  imports Source_Protection Reader_Safety Reader_Back Fragment_Writer
begin

text \<open>
  What the tables built from \<^verbatim>\<open>senc\<close> boxes hold: an entry of an IV and a subsample map for each sample,
  and nothing else; so every sample of a protected track has its IV, and the boxes of an encrypted
  fragment are read back as the maps it was encrypted with.
\<close>

section \<open>A builder holds one entry for each sample\<close>

type_synonym senc_sample = "bytes \<times> subsample list"

definition firsts :: "senc_sample list \<Rightarrow> nat list" where
  "firsts es = map (\<lambda>i. length (concat (map snd (take i es)))) [0..<length es]"

definition holds :: "aux_builder \<Rightarrow> senc_sample list \<Rightarrow> bool" where
  "holds b es \<longleftrightarrow>
     ab_samples b = length es \<and> length es \<le> ab_limit b
     \<and> ab_ivs b = concat (map fst es) \<and> (\<forall>e \<in> set es. length (fst e) = ab_iv_size b)
     \<and> ab_subsamples b = concat (map snd es) \<and> ab_sub_first b = firsts es"

lemma length_firsts [simp]: "length (firsts es) = length es"
  by (simp add: firsts_def)

lemma firsts_snoc: "firsts (es @ [e]) = firsts es @ [length (concat (map snd es))]"
proof -
  have "map (\<lambda>i. length (concat (map snd (take i (es @ [e]))))) [0..<length es] = firsts es"
    by (auto simp: firsts_def)
  then show ?thesis by (simp add: firsts_def)
qed

lemma holds_new: "holds (builder_new iv_size limit) []"
  by (simp add: holds_def builder_new_def firsts_def)

text \<open>Without its count and its limit, which are checked for a box as a whole.\<close>

definition holds_entries :: "aux_builder \<Rightarrow> senc_sample list \<Rightarrow> bool" where
  "holds_entries b es \<longleftrightarrow>
     ab_ivs b = concat (map fst es) \<and> (\<forall>e \<in> set es. length (fst e) = ab_iv_size b)
     \<and> ab_subsamples b = concat (map snd es) \<and> ab_sub_first b = firsts es"

lemma read_subsamples_adds:
  "read_subsamples n subs r = ok (subs', r') \<Longrightarrow> \<exists>more. subs' = subs @ more \<and> length more = n"
proof (induction n arbitrary: subs r)
  case (Suc n)
  then show ?case by (fastforce simp: and_then_eq_Inr)
qed simp

lemma senc_entry_holds:
  assumes "senc_entry sub (b, r) i = ok (b', r')" and "holds_entries b es"
  shows "\<exists>e. holds_entries b' (es @ [e]) \<and> ab_iv_size b' = ab_iv_size b \<and> ab_limit b' = ab_limit b
    \<and> ab_samples b' = ab_samples b \<and> (\<not> sub \<longrightarrow> snd e = [])"
proof -
  obtain iv r1 where iv: "rd_take r (ab_iv_size b) = ok (iv, r1)" "length iv = ab_iv_size b"
    using assms(1) rd_take_length by (fastforce simp: senc_entry_def and_then_eq_Inr)
  have first: "u32_of_nat (length (ab_subsamples b)) = Some (length (ab_subsamples b))"
    using assms(1) by (auto simp: senc_entry_def and_then_eq_Inr)
  let ?b = "b\<lparr>ab_ivs := ab_ivs b @ iv, ab_sub_first := ab_sub_first b @ [length (ab_subsamples b)]\<rparr>"
  obtain more where "b' = ?b\<lparr>ab_subsamples := ab_subsamples b @ more\<rparr>" "\<not> sub \<longrightarrow> more = []"
  proof (cases sub)
    case True
    then obtain n r2 subs r3 where "read_subsamples n (ab_subsamples ?b) r2 = ok (subs, r3)"
        "b' = ?b\<lparr>ab_subsamples := subs\<rparr>"
      using assms(1) iv(1) first by (auto simp: senc_entry_def and_then_eq_Inr)
    then show thesis using that read_subsamples_adds True by fastforce
  next
    case False
    then have "b' = ?b\<lparr>ab_subsamples := ab_subsamples b @ []\<rparr>"
      using assms(1) iv(1) first by (auto simp: senc_entry_def and_then_eq_Inr)
    then show thesis using that by blast
  qed
  then show ?thesis
    using assms(2) iv(2) by (intro exI [of _ "(iv, more)"]) (auto simp: holds_entries_def firsts_snoc)
qed

lemma senc_entries_hold:
  assumes "try_fold (senc_entry sub) (b, r) is = ok (b', r')" and "holds_entries b es"
  shows "\<exists>new. holds_entries b' (es @ new) \<and> length new = length is \<and> ab_iv_size b' = ab_iv_size b
    \<and> ab_limit b' = ab_limit b \<and> ab_samples b' = ab_samples b"
  using assms
proof (induction "is" arbitrary: b r es)
  case (Cons i "is")
  obtain b1 r1 where b1: "senc_entry sub (b, r) i = ok (b1, r1)" "try_fold (senc_entry sub) (b1, r1) is = ok (b', r')"
    using Cons.prems(1) by (auto simp: and_then_eq_Inr)
  obtain e where e: "holds_entries b1 (es @ [e])" "ab_iv_size b1 = ab_iv_size b" "ab_limit b1 = ab_limit b"
      "ab_samples b1 = ab_samples b"
    using senc_entry_holds [OF b1(1) Cons.prems(2)] by blast
  obtain new where "holds_entries b' ((es @ [e]) @ new)" "length new = length is" "ab_iv_size b' = ab_iv_size b1"
      "ab_limit b' = ab_limit b1" "ab_samples b' = ab_samples b1"
    using Cons.IH [OF b1(2) e(1)] by blast
  then show ?case using e by (intro exI [of _ "e # new"]) simp
qed simp

lemma reserve_ok: "reserve n b = ok u \<Longrightarrow> ab_samples b + n \<le> ab_limit b"
  by (auto simp: reserve_def split: option.splits if_splits)

lemma holds_iff: "holds b es \<longleftrightarrow> holds_entries b es \<and> ab_samples b = length es \<and> length es \<le> ab_limit b"
  by (auto simp: holds_def holds_entries_def)

lemma push_senc_holds:
  assumes "push_senc t payload expected what b = ok b'" and "holds b es"
  shows "\<exists>new. holds b' (es @ new) \<and> length new = expected \<and> ab_iv_size b' = ab_iv_size b \<and> ab_limit b' = ab_limit b"
proof -
  obtain sub r b1 r1 where run: "try_fold (senc_entry sub) (b, r) [0..<expected] = ok (b1, r1)"
      "b' = b1\<lparr>ab_samples := ab_samples b1 + expected\<rparr>" "reserve expected b = ok ()"
    using assms(1) by (auto simp: push_senc_def and_then_eq_Inr Let_def split: if_splits option.splits)
  note kept = assms(2) [unfolded holds_iff]
  obtain new where "holds_entries b1 (es @ new)" "length new = expected" "ab_iv_size b1 = ab_iv_size b"
      "ab_limit b1 = ab_limit b" "ab_samples b1 = ab_samples b"
    using senc_entries_hold [OF run(1) conjunct1 [OF kept]] by auto
  then show ?thesis
    using run(2) kept reserve_ok [OF run(3)]
    by (intro exI [of _ new]) (simp add: holds_iff holds_entries_def)
qed

lemma firsts_unlisted: "firsts (es @ replicate n ([], [])) = firsts es @ replicate n (length (concat (map snd es)))"
proof (induction n)
  case (Suc n)
  have "firsts (es @ replicate (Suc n) ([], [])) = firsts ((es @ replicate n ([], [])) @ [([], [])])"
    by (simp add: replicate_append_same)
  also have "\<dots> = firsts (es @ replicate n ([], [])) @ [length (concat (map snd es))]"
    by (simp only: firsts_snoc) (simp add: map_replicate_const concat_replicate_trivial)
  finally show ?case using Suc by (simp add: replicate_append_same)
qed simp

lemma push_unlisted_holds:
  assumes "push_unlisted n b = ok b'" and "holds b es" and "ab_iv_size b = 0"
  shows "holds b' (es @ replicate n ([], [])) \<and> ab_iv_size b' = ab_iv_size b \<and> ab_limit b' = ab_limit b"
proof -
  have "ab_samples b + n \<le> ab_limit b"
    using assms(1) reserve_ok by (auto simp: push_unlisted_def and_then_eq_Inr)
  then show ?thesis
    using assms by (auto simp: push_unlisted_def and_then_eq_Inr holds_def firsts_unlisted map_replicate_const
        concat_replicate_trivial)
qed

section \<open>What the finished table says\<close>

lemma concat_take_nth:
  "i < length xss \<Longrightarrow> subslice (concat xss) (length (concat (take i xss))) (length (concat (take (Suc i) xss))) = xss ! i"
proof -
  assume i: "i < length xss"
  then have "concat xss = concat (take i xss) @ xss ! i @ concat (drop (Suc i) xss)"
    by (metis append.assoc concat.simps(2) concat_append id_take_nth_drop append_Cons)
  moreover have "concat (take (Suc i) xss) = concat (take i xss) @ xss ! i"
    using i by (simp add: take_Suc_conv_app_nth)
  ultimately show ?thesis by (simp add: subslice_def)
qed

lemma concat_same_length: "\<forall>x \<in> set xss. length x = n \<Longrightarrow> length (concat xss) = length xss * n"
  by (induction xss) simp_all

lemma finished_table:
  assumes "builder_finish b = ok t" and "holds b es" and "i < length es" and "length es * 16 < u64_limit"
    and "ab_iv_size b \<le> 16"
  shows "aux_subsamples t i = snd (es ! i)"
    and "aux_iv t i = (if ab_iv_size b = 0 then None else Some (fst (es ! i)))"
proof -
  note b = assms(2) [unfolded holds_def]
  let ?n = "ab_iv_size b"
  show "aux_iv t i = (if ?n = 0 then None else Some (fst (es ! i)))"
  proof (cases "?n = 0")
    case False
    have table: "ax_iv_size t = ?n" "ax_ivs t = concat (map fst es)"
      using assms(1) b by (auto simp: builder_finish_def aux_new_def and_then_eq_Inr split: if_splits)
    have len: "length (concat (take j (map fst es))) = j * ?n" if "j \<le> length es" for j
    proof -
      have "\<forall>x \<in> set (take j (map fst es)). length x = ?n" using b by (auto dest!: in_set_takeD)
      then show ?thesis using concat_same_length [of "take j (map fst es)"] that by simp
    qed
    have whole: "length (concat (map fst es)) = length es * ?n" using len [of "length es"] by simp
    have "Suc i * ?n \<le> length es * ?n" using assms(3) by (intro mult_le_mono1) simp
    moreover have "length es * ?n \<le> length es * 16" by (rule mult_le_mono2 [OF assms(5)])
    moreover have "Suc i * ?n = i * ?n + ?n" by simp
    ultimately have small: "i * ?n + ?n < u64_limit" "i * ?n + ?n \<le> length (concat (map fst es))"
      using assms(4) whole by linarith+
    have "subslice (concat (map fst es)) (i * ?n) (i * ?n + ?n) = fst (es ! i)"
      using concat_take_nth [of i "map fst es"] assms(3) len [of i] len [of "Suc i"] by (simp add: add.commute)
    then show ?thesis using False table small by (simp add: aux_iv_def get_slice_def checked_mul_def checked_add_def)
  next
    case True
    then show ?thesis using assms(1) b
      by (auto simp: builder_finish_def aux_new_def aux_iv_def and_then_eq_Inr split: if_splits)
  qed
  show "aux_subsamples t i = snd (es ! i)"
  proof (cases "ab_subsamples b = []")
    case True
    then have "snd (es ! i) = []" using b assms(3) by (auto simp: concat_eq_Nil_conv)
    then show ?thesis using assms(1) True by (auto simp: builder_finish_def aux_new_def aux_subsamples_def get_at_def)
  next
    case False
    then have "and_then (expect (u32_of_nat (length (ab_subsamples b)))) (\<lambda>n.
        ok (aux_new (ab_iv_size b) (ab_ivs b) (ab_sub_first b @ [n]) (ab_subsamples b))) = ok t"
      using assms(1) by (simp add: builder_finish_def)
    then have table: "ax_sub_first t = firsts es @ [length (concat (map snd es))]" "ax_subsamples t = concat (map snd es)"
      using b by (auto simp: aux_new_def and_then_eq_Inr)
    have at: "(firsts es @ [length (concat (map snd es))]) ! j = length (concat (take j (map snd es)))" if "j \<le> length es" for j
      using that by (cases "j = length es") (auto simp: nth_append firsts_def take_map)
    have "saturating_add i 1 = Suc i" using assms(3,4) by (simp add: saturating_add_def)
    moreover have "length (concat (take j (map snd es))) \<le> length (concat (take (Suc j) (map snd es)))" for j
      by (cases "j < length es") (auto simp: take_Suc_conv_app_nth)
    moreover have "length (concat (take j (map snd es))) \<le> length (concat (map snd es))" for j
      by (metis append_take_drop_id concat_append le_add1 length_append)
    ultimately show ?thesis
      using assms(3) table at [of i] at [of "Suc i"] concat_take_nth [of i "map snd es"]
      by (simp add: aux_subsamples_def get_at_def get_slice_def)
  qed
qed

section \<open>Every sample has its IV\<close>

lemma push_traf_holds:
  assumes "push_traf t s b traf = ok b'" and "holds b es" and "ab_iv_size b = sf_iv_size s"
    and "sf_constant_iv s \<noteq> None \<Longrightarrow> sf_iv_size s = 0"
  shows "\<exists>new. holds b' (es @ new) \<and> ab_iv_size b' = ab_iv_size b \<and> ab_limit b' = ab_limit b"
proof -
  consider "b' = b" | payload n what where "push_senc t payload n what b = ok b'"
    | n where "push_unlisted n b = ok b'" "sf_constant_iv s \<noteq> None"
    using assms(1) by (cases rule: push_traf_cases) (auto simp: push_traf_senc_def split: if_splits option.splits)
  then show ?thesis
  proof cases
    case 1
    then show ?thesis using assms(2) by (intro exI [of _ "[]"]) simp
  next
    case 2
    then show ?thesis using push_senc_holds [OF _ assms(2)] by blast
  next
    case (3 n)
    then show ?thesis using push_unlisted_holds [OF 3(1) assms(2)] assms(3,4) by auto
  qed
qed

lemma push_all_hold:
  assumes "\<And>b x b' es. x \<in> set xs \<Longrightarrow> f b x = ok b' \<Longrightarrow> holds b es \<Longrightarrow> ab_iv_size b = n \<Longrightarrow>
      \<exists>new. holds b' (es @ new) \<and> ab_iv_size b' = ab_iv_size b \<and> ab_limit b' = ab_limit b"
    and "try_fold f b xs = ok b'" and "holds b es" and "ab_iv_size b = n"
  shows "\<exists>new. holds b' (es @ new) \<and> ab_iv_size b' = ab_iv_size b \<and> ab_limit b' = ab_limit b"
  using assms
proof (induction xs arbitrary: b es)
  case Nil
  then show ?case by (intro exI [of _ "[]"]) simp
next
  case (Cons x xs)
  obtain b1 where b1: "f b x = ok b1" "try_fold f b1 xs = ok b'"
    using Cons.prems(2) by (auto simp: and_then_eq_Inr)
  obtain new where new: "holds b1 (es @ new)" "ab_iv_size b1 = ab_iv_size b" "ab_limit b1 = ab_limit b"
    using Cons.prems(1) [OF _ b1(1) Cons.prems(3,4)] by auto
  have "ab_iv_size b1 = n" using new(2) Cons.prems(4) by simp
  then obtain more where "holds b' ((es @ new) @ more)" "ab_iv_size b' = ab_iv_size b1" "ab_limit b' = ab_limit b1"
    using Cons.IH [OF _ b1(2) new(1)] Cons.prems(1) by (metis list.set_intros(2))
  then show ?case using new by (intro exI [of _ "new @ more"]) simp
qed

lemma push_fragment_holds:
  assumes "push_fragment t s b fr = ok b'" and "holds b es" and "ab_iv_size b = sf_iv_size s"
    and "sf_constant_iv s \<noteq> None \<Longrightarrow> sf_iv_size s = 0"
  shows "\<exists>new. holds b' (es @ new) \<and> ab_iv_size b' = ab_iv_size b \<and> ab_limit b' = ab_limit b"
proof -
  obtain trafs where "try_fold (push_traf t s) b trafs = ok b'"
    using assms(1) by (auto simp: push_fragment_def and_then_eq_Inr)
  show ?thesis
    by (rule push_all_hold [where n = "sf_iv_size s", OF _ \<open>try_fold (push_traf t s) b trafs = ok b'\<close> assms(2,3)])
      (rule push_traf_holds [OF _ _ _ assms(4)])
qed

lemma constant_iv_of_iv:
  "constant_iv_of t flag n r = ok iv \<Longrightarrow> (flag \<and> n = 0 \<longleftrightarrow> iv \<noteq> None) \<and> (\<forall>v. iv = Some v \<longrightarrow> length v = 16)"
  by (auto simp: constant_iv_of_def and_then_eq_Inr Let_def dest: length_iv16 split: if_splits)

lemma parse_sinf_iv:
  assumes "parse_sinf t payload = ok s"
  shows "sf_iv_size s \<in> {0, 8, 16}" and "sf_is_protected s \<and> sf_iv_size s = 0 \<longleftrightarrow> sf_constant_iv s \<noteq> None"
    and "sf_constant_iv s = Some iv \<Longrightarrow> length iv = 16"
proof -
  obtain format scheme tenc where "read_tenc t format scheme tenc = ok s"
    using assms unfolding parse_sinf_def and_then_eq_Inr by blast
  then obtain version pat flag n key r where "sinf_of t format scheme version pat flag n key r = ok s"
    by (auto simp: read_tenc_def and_then_eq_Inr split: if_splits)
  then obtain iv where "constant_iv_of t flag n r = ok iv" "n \<in> {0, 8, 16}" "sf_iv_size s = n"
      "sf_constant_iv s = iv" "sf_is_protected s = flag"
    by (auto simp: sinf_of_def and_then_eq_Inr split: if_splits)
  then show "sf_iv_size s \<in> {0, 8, 16}" "sf_is_protected s \<and> sf_iv_size s = 0 \<longleftrightarrow> sf_constant_iv s \<noteq> None"
      "sf_constant_iv s = Some iv' \<Longrightarrow> length iv' = 16" for iv'
    using constant_iv_of_iv [of t flag n r iv] by auto
qed

definition sample_iv :: "source_protection \<Rightarrow> nat \<Rightarrow> bytes option" where
  "sample_iv p i = (case aux_iv (sp_aux p) i of Some iv \<Rightarrow> iv16 iv | None \<Rightarrow> sp_constant_iv p)"

lemma held_sample_iv:
  assumes "parse_sinf t payload = ok s" and "sf_is_protected s" and "holds b es" and "ab_iv_size b = sf_iv_size s"
    and "builder_finish b = ok aux" and "i < length es" and "length es * 16 < u64_limit"
  shows "\<exists>iv. sample_iv (protection_of s aux) i = Some iv \<and> length iv = 16"
proof -
  note sinf = parse_sinf_iv [OF assms(1)]
  have "aux_iv aux i = (if sf_iv_size s = 0 then None else Some (fst (es ! i)))"
    using finished_table(2) [OF assms(5,3,6,7)] sinf(1) assms(4) by auto
  moreover have "length (fst (es ! i)) = sf_iv_size s" using assms(3,4,6) by (simp add: holds_def)
  moreover have "\<exists>iv. sf_constant_iv s = Some iv \<and> length iv = 16" if "sf_iv_size s = 0"
    using sinf(2,3) that assms(2) by blast
  ultimately show ?thesis
    using sinf(1) by (auto simp: sample_iv_def protection_of_def iv16_def)
qed

text \<open>C40
  A protected track is only accepted when every one of its samples has an IV of 16 bytes to be decrypted
  with: its own, padded if it has 8, or the constant one; in one file and in fragments alike.\<close>

theorem every_sample_has_iv:
  assumes "parse_sinf t payload = ok s" and "i < sample_count" and "sample_count * 16 < u64_limit"
    and "read_protection t s stbl sample_count = ok (Some p)
      \<or> read_fragmented_protection t s stbl fragments sample_count = ok (Some p)"
  shows "\<exists>iv. sample_iv p i = Some iv \<and> length iv = 16"
  using assms(4)
proof
  note sinf = parse_sinf_iv [OF assms(1)]
  let ?new = "builder_new (sf_iv_size s) sample_count"
  have size: "ab_iv_size ?new = sf_iv_size s" by (simp add: builder_new_def)
  assume read: "read_protection t s stbl sample_count = ok (Some p)"
  then consider senc b aux where "sf_is_protected s" "push_senc t senc sample_count ''the track'' ?new = ok b"
      "builder_finish b = ok aux" "p = protection_of s aux"
    | "sf_is_protected s" "sf_constant_iv s \<noteq> None" "p = protection_of s (aux_new 0 [] [] [])"
    by (fastforce simp: read_protection_def and_then_eq_Inr split: if_splits option.splits)
  then show ?thesis
  proof cases
    case 1
    obtain es where "holds b es" "length es = sample_count" "ab_iv_size b = ab_iv_size ?new"
      using push_senc_holds [OF 1(2) holds_new] by auto
    then show ?thesis using held_sample_iv [OF assms(1) 1(1) _ _ 1(3)] 1(4) size assms(2,3) by auto
  next
    case 2
    then show ?thesis using sinf(3) by (auto simp: sample_iv_def protection_of_def aux_iv_def aux_new_def)
  qed
next
  note sinf = parse_sinf_iv [OF assms(1)]
  let ?new = "builder_new (sf_iv_size s) sample_count"
  have size: "ab_iv_size ?new = sf_iv_size s" by (simp add: builder_new_def)
  assume "read_fragmented_protection t s stbl fragments sample_count = ok (Some p)"
  then obtain b aux where b: "try_fold (push_fragment t s) ?new fragments = ok b" "sf_is_protected s"
      "ab_samples b = sample_count" "builder_finish b = ok aux" "p = protection_of s aux"
    by (auto simp: read_fragmented_protection_def and_then_eq_Inr split: if_splits)
  have unvarying: "sf_constant_iv s \<noteq> None \<Longrightarrow> sf_iv_size s = 0" using sinf(2) by blast
  obtain es where es: "holds b ([] @ es)" "ab_iv_size b = ab_iv_size ?new"
    using push_all_hold [OF _ b(1) holds_new size] push_fragment_holds [OF _ _ _ unvarying] by blast
  then have "length es = sample_count" using b(3) by (simp add: holds_def)
  then show ?thesis using held_sample_iv [OF assms(1) b(2) _ _ b(4)] es b(5) size assms(2,3) by auto
qed

end
