(* ===== verification/Senc_Roundtrip.thy ===== *)
theory Senc_Roundtrip
  imports Source_Protection_Laws
begin

text \<open>
  The boxes that an encrypted fragment carries (\<^verbatim>\<open>src/src/fmp4/fragment.rs\<close>) read back by the reader of
  protected sources (\<^verbatim>\<open>src/src/mp4/protection.rs\<close>): each sample has the map it was encrypted with.
\<close>

definition as_subsamples :: "(nat \<times> nat) list \<Rightarrow> subsample list" where
  "as_subsamples m = map (\<lambda>(c, p). \<lparr>sb_clear = c, sb_protected = p\<rparr>) m"

definition map_fits :: "(nat \<times> nat) list \<Rightarrow> bool" where
  "map_fits m \<longleftrightarrow> (\<forall>(c, p) \<in> set m. c < u16_limit \<and> p < u32_limit)"

lemma read_subsamples_back:
  assumes "at_rest r (concat (map (\<lambda>(c, p). be_bytes 2 c @ be_bytes 4 p) m) @ rest)" and "map_fits m"
  shows "\<exists>r'. read_subsamples (length m) subs r = ok (subs @ as_subsamples m, r') \<and> at_rest r' rest"
  using assms
proof (induction m arbitrary: r subs)
  case Nil
  then show ?case by (simp add: as_subsamples_def)
next
  case (Cons x m)
  obtain c p where x: "x = (c, p)" "c < u16_limit" "p < u32_limit"
    using Cons.prems(2) by (cases x) (auto simp: map_fits_def)
  let ?rest = "concat (map (\<lambda>(c, p). be_bytes 2 c @ be_bytes 4 p) m) @ rest"
  have "at_rest r (be_bytes 2 c @ be_bytes 4 p @ ?rest)" using Cons.prems(1) x(1) by simp
  then obtain r1 where r1: "rd_u16 r = ok (c, r1)" "at_rest r1 (be_bytes 4 p @ ?rest)"
    by (rule u16_back [OF _ x(2)])
  obtain r2 where r2: "rd_u32 r1 = ok (p, r2)" "at_rest r2 ?rest" by (rule u32_back [OF r1(2) x(3)])
  have "map_fits m" using Cons.prems(2) by (simp add: map_fits_def)
  then obtain r3 where "read_subsamples (length m) (subs @ [\<lparr>sb_clear = c, sb_protected = p\<rparr>]) r2
      = ok ((subs @ [\<lparr>sb_clear = c, sb_protected = p\<rparr>]) @ as_subsamples m, r3)" "at_rest r3 rest"
    using Cons.IH [OF r2(2)] by blast
  then show ?case using r1(1) r2(1) x(1) by (auto simp: as_subsamples_def)
qed

definition map_total_length :: "(nat \<times> nat) list list \<Rightarrow> nat" where
  "map_total_length ms = sum_list (map length ms)"

lemma senc_entries_back:
  assumes "at_rest r (concat (map subsample_map_bytes ms) @ rest)"
    and "\<forall>m \<in> set ms. map_fits m \<and> length m < u16_limit"
    and "ab_iv_size b = 0" and "length (ab_subsamples b) + map_total_length ms < u32_limit"
    and "holds_entries b es" and "length is = length ms"
  shows "\<exists>b' r'. try_fold (senc_entry True) (b, r) is = ok (b', r')
    \<and> holds_entries b' (es @ map (\<lambda>m. ([], as_subsamples m)) ms) \<and> ab_iv_size b' = 0
    \<and> ab_limit b' = ab_limit b \<and> ab_samples b' = ab_samples b
    \<and> length (ab_subsamples b') = length (ab_subsamples b) + map_total_length ms"
  using assms
proof (induction ms arbitrary: r b es "is")
  case Nil
  then show ?case by (simp add: map_total_length_def)
next
  case (Cons m ms)
  obtain i "is'" where is': "is = i # is'" "length is' = length ms" using Cons.prems(6) by (cases "is") auto
  have m: "map_fits m" "length m < u16_limit" using Cons.prems(2) by auto
  let ?pairs = "concat (map (\<lambda>(c, p). be_bytes 2 c @ be_bytes 4 p) m)"
  let ?rest = "concat (map subsample_map_bytes ms) @ rest"
  have "at_rest r ([] @ be_bytes 2 (length m) @ ?pairs @ ?rest)"
    using Cons.prems(1) by (simp add: subsample_map_bytes_def [of m])
  then obtain r1 where r1: "rd_take r 0 = ok ([], r1)" "at_rest r1 (be_bytes 2 (length m) @ ?pairs @ ?rest)"
    using take_back [of r "[]" _ 0] by (metis list.size(3))
  obtain r2 where r2: "rd_u16 r1 = ok (length m, r2)" "at_rest r2 (?pairs @ ?rest)"
    by (rule u16_back [OF r1(2) m(2)])
  obtain r3 where r3: "read_subsamples (length m) (ab_subsamples b) r2 = ok (ab_subsamples b @ as_subsamples m, r3)"
      "at_rest r3 ?rest"
    using read_subsamples_back [OF r2(2) m(1)] by blast
  let ?n = "length (ab_subsamples b)"
  let ?b = "b\<lparr>ab_ivs := ab_ivs b @ [], ab_sub_first := ab_sub_first b @ [?n], ab_subsamples := ab_subsamples b @ as_subsamples m\<rparr>"
  have step: "senc_entry True (b, r) i = ok (?b, r3)"
    using r1(1) r2(1) r3(1) Cons.prems(3,4) by (simp add: senc_entry_def u32_of_nat_def)
  have held: "holds_entries ?b (es @ [([], as_subsamples m)])"
    using Cons.prems(3,5) by (auto simp: holds_entries_def firsts_snoc)
  have room: "length (ab_subsamples ?b) + map_total_length ms < u32_limit"
    using Cons.prems(4) by (simp add: map_total_length_def as_subsamples_def)
  obtain b' r' where "try_fold (senc_entry True) (?b, r3) is' = ok (b', r')"
      "holds_entries b' ((es @ [([], as_subsamples m)]) @ map (\<lambda>m. ([], as_subsamples m)) ms)" "ab_iv_size b' = 0"
      "ab_limit b' = ab_limit ?b" "ab_samples b' = ab_samples ?b"
      "length (ab_subsamples b') = length (ab_subsamples ?b) + map_total_length ms"
    using Cons.IH [OF r3(2) _ _ room held is'(2)] Cons.prems(2,3) by auto
  then show ?case using step is'(1)
    by (intro exI [of _ b'] exI [of _ r']) (simp add: map_total_length_def as_subsamples_def)
qed

lemma senc_steps:
  "try_fold (senc_step use) (senc, sizes) ms = ok (senc', sizes') \<Longrightarrow>
     senc' = senc @ (if use then concat (map subsample_map_bytes ms) else [])
     \<and> (use \<longrightarrow> (\<forall>m \<in> set ms. length m \<le> MAX_SUBSAMPLES))"
proof (induction ms arbitrary: senc sizes)
  case (Cons m ms)
  obtain s1 z1 where step: "senc_step use (senc, sizes) m = ok (s1, z1)" "try_fold (senc_step use) (s1, z1) ms = ok (senc', sizes')"
    using Cons.prems by (auto simp: and_then_eq_Inr)
  then have "s1 = senc @ (if use then subsample_map_bytes m else [])" "use \<longrightarrow> length m \<le> MAX_SUBSAMPLES"
    by (auto simp: senc_step_def and_then_eq_Inr split: if_splits)
  then show ?case using Cons.IH [OF step(2)] by auto
qed simp

lemma length_map_bytes: "length (concat (map subsample_map_bytes ms)) = 2 * length ms + 6 * map_total_length ms"
proof -
  have "length (concat (map (\<lambda>(c, p). be_bytes 2 c @ be_bytes 4 p) m)) = 6 * length m" for m :: "(nat \<times> nat) list"
    by (induction m) auto
  then have "length (subsample_map_bytes m) = 2 + 6 * length m" for m by (simp add: subsample_map_bytes_def)
  then show ?thesis by (induction ms) (simp_all add: map_total_length_def)
qed

lemma senc_entries_none:
  assumes "at_rest r rest" and "ab_iv_size b = 0" and "length (ab_subsamples b) < u32_limit" and "holds_entries b es"
  shows "\<exists>b' r'. try_fold (senc_entry False) (b, r) is = ok (b', r')
    \<and> holds_entries b' (es @ map (\<lambda>_. ([], [])) is) \<and> ab_iv_size b' = 0
    \<and> ab_limit b' = ab_limit b \<and> ab_samples b' = ab_samples b \<and> ab_subsamples b' = ab_subsamples b"
  using assms
proof (induction "is" arbitrary: r b es)
  case (Cons i "is")
  have "at_rest r ([] @ rest)" using Cons.prems(1) by simp
  then obtain r1 where r1: "rd_take r 0 = ok ([], r1)" "at_rest r1 rest"
    using take_back [of r "[]" _ 0] by (metis list.size(3))
  let ?b = "b\<lparr>ab_sub_first := ab_sub_first b @ [length (ab_subsamples b)]\<rparr>"
  have step: "senc_entry False (b, r) i = ok (?b, r1)"
    using r1(1) Cons.prems(2,3) by (simp add: senc_entry_def u32_of_nat_def)
  have held: "holds_entries ?b (es @ [([], [])])" using Cons.prems(2,4) by (auto simp: holds_entries_def firsts_snoc)
  have b: "ab_iv_size ?b = 0" "length (ab_subsamples ?b) < u32_limit" using Cons.prems(2,3) by simp_all
  obtain b' r' where "try_fold (senc_entry False) (?b, r1) is = ok (b', r')"
      "holds_entries b' ((es @ [([], [])]) @ map (\<lambda>_. ([], [])) is)" "ab_iv_size b' = 0"
      "ab_limit b' = ab_limit ?b" "ab_samples b' = ab_samples ?b" "ab_subsamples b' = ab_subsamples ?b"
    using Cons.IH [OF r1(2) b held] by blast
  then show ?case using step by (intro exI [of _ b'] exI [of _ r']) simp
qed simp

text \<open>The maps of a \<^verbatim>\<open>senc\<close> payload, with a map for each sample or with none at all.\<close>

lemma push_senc_back:
  fixes flagged :: bool and maps :: "(nat \<times> nat) list list"
  defines "payload \<equiv> write_full_box_fields 0 (if flagged then 2 else 0) @ be_bytes 4 (length maps)
      @ (if flagged then concat (map subsample_map_bytes maps) else [])"
  assumes "length maps < u32_limit" and "flagged \<or> (\<forall>m \<in> set maps. m = [])" and "length payload < u32_limit"
    and "\<forall>m \<in> set maps. map_fits m \<and> length m \<le> MAX_SUBSAMPLES"
  shows "\<exists>b. push_senc t payload (length maps) what (builder_new 0 (length maps)) = ok b
    \<and> holds b (map (\<lambda>m. ([], as_subsamples m)) maps) \<and> ab_iv_size b = 0 \<and> length (ab_subsamples b) < u32_limit
    \<and> ab_samples b = length maps"
proof -
  let ?new = "builder_new 0 (length maps)" and ?flags = "if flagged then 2 else 0 :: nat"
  let ?tail = "if flagged then concat (map subsample_map_bytes maps) else []"
  have fits: "length maps < u32_limit" "length ?tail = (if flagged then 2 * length maps + 6 * map_total_length maps else 0)"
    using assms(2) by (simp_all add: length_map_bytes)
  have short: "length payload < u64_limit" using assms(4) by simp
  have start: "at_rest (reader_new payload) (write_full_box_fields 0 ?flags @ be_bytes 4 (length maps) @ ?tail)"
    using at_rest_new [OF short] by (simp add: payload_def)
  obtain r1 where r1: "rd_full_box_flags (reader_new payload) = ok (0, ?flags, r1)" "at_rest r1 (be_bytes 4 (length maps) @ ?tail)"
    by (rule full_box_flags_back [OF start]) simp
  obtain r2 where r2: "rd_u32 r1 = ok (length maps, r2)" "at_rest r2 (?tail @ [])"
    by (rule u32_back [OF _ fits(1)]) (use r1(2) in simp_all)
  have new: "holds_entries ?new []" "ab_iv_size ?new = 0" "ab_subsamples ?new = []" "ab_limit ?new = length maps"
      "ab_samples ?new = 0"
    using holds_new [of 0 "length maps"] by (simp_all add: builder_new_def holds_iff)
  obtain b r3 where b: "try_fold (senc_entry flagged) (?new, r2) [0..<length maps] = ok (b, r3)"
      "holds_entries b (map (\<lambda>m. ([], as_subsamples m)) maps)" "ab_iv_size b = 0" "ab_limit b = length maps"
      "ab_samples b = 0" "length (ab_subsamples b) < u32_limit"
  proof (cases flagged)
    case True
    have total: "map_total_length maps < u32_limit"
      using True assms(4) fits(2) by (simp add: payload_def)
    have "\<forall>m \<in> set maps. map_fits m \<and> length m < u16_limit" using assms(5) by (fastforce simp: MAX_SUBSAMPLES_def)
    then show thesis
      using senc_entries_back [OF _ _ new(2) _ new(1), of r2 maps "[]" "[0..<length maps]"] r2(2) True total new that
      by auto
  next
    case False
    have same: "map (\<lambda>m. ([], as_subsamples m)) maps = map (\<lambda>_. ([], [])) [0..<length maps]"
      using assms(3) False by (intro nth_equalityI) (auto simp: as_subsamples_def)
    have none: "length (ab_subsamples ?new) < u32_limit" using new(3) by simp
    obtain b' r' where "try_fold (senc_entry False) (?new, r2) [0..<length maps] = ok (b', r')"
        "holds_entries b' ([] @ map (\<lambda>_. ([], [])) [0..<length maps])" "ab_iv_size b' = 0"
        "ab_limit b' = ab_limit ?new" "ab_samples b' = ab_samples ?new" "ab_subsamples b' = ab_subsamples ?new"
      using senc_entries_none [OF r2(2) new(2) none new(1)] by blast
    then show thesis using that [of b' r'] False new(3-5) unfolding same by simp
  qed
  have flag: "has_flag ?flags 2 = flagged" by (simp add: has_flag_def)
  have left: "length maps * (0 + (if flagged then 2 else 0)) \<le> rd_remaining r2"
    using r2(2) fits(2) by (simp add: rd_remaining_rest at_rest_def)
  have "reserve (length maps) ?new = ok ()" using fits(1) by (simp add: reserve_def builder_new_def checked_add_def)
  then have "push_senc t payload (length maps) what ?new = ok (b\<lparr>ab_samples := length maps\<rparr>)"
    using r1(1) r2(1) b(1,5) flag left fits(1) new(2)
    by (auto simp: push_senc_def checked_mul_def not_less)
  then show ?thesis
    using b by (intro exI [of _ "b\<lparr>ab_samples := length maps\<rparr>"]) (simp add: holds_iff holds_entries_def)
qed

lemma senc_written:
  assumes "encryption_boxes maps off = ok out" and "\<forall>m \<in> set maps. map_fits m" and "length out < u32_limit"
  shows "\<exists>senc saiz saio b aux.
    child_boxes out = ok [written (ascii ''senc'', senc), written (ascii ''saiz'', saiz), written (ascii ''saio'', saio)]
    \<and> push_senc t senc (length maps) what (builder_new 0 (length maps)) = ok b \<and> ab_samples b = length maps
    \<and> builder_finish b = ok aux \<and> ax_iv_size aux = 0
    \<and> (\<forall>i < length maps. aux_subsamples aux i = as_subsamples (maps ! i))"
proof -
  let ?use = "\<exists>m \<in> set maps. m \<noteq> []"
  obtain senc sizes b1 b2 saiz saio where run: "length maps < u32_limit"
      "try_fold (senc_step ?use) (write_full_box_fields 0 (if ?use then 2 else 0) @ be_bytes 4 (length maps), []) maps
        = ok (senc, sizes)"
      "write_box [] (ascii ''senc'') senc = ok b1" "write_box b1 (ascii ''saiz'') saiz = ok b2"
      "write_box b2 (ascii ''saio'') saio = ok out"
    using assms(1) by (auto simp: encryption_boxes_def and_then_eq_Inr Let_def)
  note steps = senc_steps [OF run(2)]
  let ?tail = "if ?use then concat (map subsample_map_bytes maps) else []"
  have senc: "senc = write_full_box_fields 0 (if ?use then 2 else 0) @ be_bytes 4 (length maps) @ ?tail"
    using steps by simp
  have out: "out = concat (map (\<lambda>(n, p). box_bytes n p) [(ascii ''senc'', senc), (ascii ''saiz'', saiz), (ascii ''saio'', saio)])"
      and boxable: "\<forall>b \<in> set [(ascii ''senc'', senc), (ascii ''saiz'', saiz), (ascii ''saio'', saio)]. boxable b"
    using run(3-5) by (auto simp: write_box_eq_Inr ascii_def)
  have children: "child_boxes out = ok (map written [(ascii ''senc'', senc), (ascii ''saiz'', saiz), (ascii ''saio'', saio)])"
    unfolding out by (rule child_boxes_written [OF boxable]) (use assms(3) out in simp)
  have fits: "\<forall>m \<in> set maps. map_fits m \<and> length m \<le> MAX_SUBSAMPLES"
    using assms(2) steps by (cases ?use) auto
  have flag: "?use \<or> (\<forall>m \<in> set maps. m = [])" by blast
  have "length senc < u32_limit" using boxable by simp
  then obtain b where b: "push_senc t senc (length maps) what (builder_new 0 (length maps)) = ok b"
      "holds b (map (\<lambda>m. ([], as_subsamples m)) maps)" "ab_iv_size b = 0" "length (ab_subsamples b) < u32_limit"
      "ab_samples b = length maps"
    using push_senc_back [OF run(1) flag _ fits] unfolding senc by blast
  have "\<exists>aux. builder_finish b = ok aux \<and> ax_iv_size aux = 0" using b(3,4) by (simp add: builder_finish_def u32_of_nat_def aux_new_def)
  then obtain aux where aux: "builder_finish b = ok aux" "ax_iv_size aux = 0" by blast
  have "aux_subsamples aux i = as_subsamples (maps ! i)" if "i < length maps" for i
    using finished_table(1) [OF aux(1) b(2), of i] that run(1) b(3) by simp
  then show ?thesis using children b(1) b(5) aux by auto
qed

text \<open>C40
  The \<^verbatim>\<open>senc\<close> box written for an encrypted fragment is read back with exactly the subsamples the samples
  were encrypted with, sample by sample.\<close>

theorem senc_maps_read_back:
  assumes "encryption_boxes maps off = ok out" and "\<forall>m \<in> set maps. map_fits m" and "length out < u32_limit"
  shows "\<exists>senc more b aux. child_boxes out = ok (senc # more) \<and> bx_name senc = ascii ''senc''
    \<and> push_senc t (bx_payload senc) (length maps) what (builder_new 0 (length maps)) = ok b
    \<and> builder_finish b = ok aux
    \<and> (\<forall>i < length maps. aux_subsamples aux i = as_subsamples (maps ! i))"
  using senc_written [OF assms, of t what] by (fastforce simp: written_def)

theorem senc_maps_read_back_witness:
  "\<exists>out senc more b aux. encryption_boxes [[(5, 32)], [], [(7, 16), (0, 48)]] 0 = ok out
    \<and> child_boxes out = ok (senc # more)
    \<and> push_senc 1 (bx_payload senc) 3 ''the track'' (builder_new 0 3) = ok b \<and> builder_finish b = ok aux
    \<and> aux_subsamples aux 2 = [\<lparr>sb_clear = 7, sb_protected = 16\<rparr>, \<lparr>sb_clear = 0, sb_protected = 48\<rparr>]"
proof -
  let ?maps = "[[(5, 32)], [], [(7, 16), (0, 48)]] :: (nat \<times> nat) list list"
  have "case encryption_boxes ?maps 0 of Inl _ \<Rightarrow> False | Inr out \<Rightarrow> length out < u32_limit" by code_simp
  then obtain out where out: "encryption_boxes ?maps 0 = ok out" "length out < u32_limit" by (auto split: sum.splits)
  have fits: "\<forall>m \<in> set ?maps. map_fits m" by (simp add: map_fits_def)
  have len: "length ?maps = 3" by simp
  obtain senc more b aux where read: "child_boxes out = ok (senc # more)"
      "push_senc 1 (bx_payload senc) 3 ''the track'' (builder_new 0 3) = ok b"
      "builder_finish b = ok aux" "\<forall>i < 3. aux_subsamples aux i = as_subsamples (?maps ! i)"
    using senc_maps_read_back [OF out(1) fits out(2)] unfolding len by blast
  have "aux_subsamples aux 2 = as_subsamples (?maps ! 2)" using read(4) by simp
  then have "aux_subsamples aux 2 = [\<lparr>sb_clear = 7, sb_protected = 16\<rparr>, \<lparr>sb_clear = 0, sb_protected = 48\<rparr>]"
    by (simp add: as_subsamples_def)
  then show ?thesis using out(1) read(1-3) by blast
qed

section \<open>A protected track\<close>

definition example_sinf :: bytes where
  "example_sinf = box_bytes (ascii ''frma'') (ascii ''avc1'')
     @ box_bytes (ascii ''schm'') ([0, 0, 0, 0] @ ascii ''cenc'' @ [0, 1, 0, 0])
     @ box_bytes (ascii ''schi'') (box_bytes (ascii ''tenc'') ([0, 0, 0, 0, 0, 0, 1, 8] @ replicate 16 7))"

definition example_stbl :: bytes where
  "example_stbl = box_bytes (ascii ''senc'') ([0, 0, 0, 0] @ be_bytes 4 2 @ replicate 8 1 @ replicate 8 2)"

theorem every_sample_has_iv_witness:
  "\<exists>s p. parse_sinf 1 example_sinf = ok s \<and> read_protection 1 s example_stbl 2 = ok (Some p)
     \<and> (\<exists>iv. sample_iv p 1 = Some iv \<and> length iv = 16)"
proof -
  have "case parse_sinf 1 example_sinf of Inl _ \<Rightarrow> False
      | Inr s \<Rightarrow> (case read_protection 1 s example_stbl 2 of Inr (Some p) \<Rightarrow> True | _ \<Rightarrow> False)" by code_simp
  then obtain s p where run: "parse_sinf 1 example_sinf = ok s" "read_protection 1 s example_stbl 2 = ok (Some p)"
    by (auto split: sum.splits option.splits)
  have "\<exists>iv. sample_iv p 1 = Some iv \<and> length iv = 16"
    by (rule every_sample_has_iv [OF run(1), of 1 2 example_stbl p "[]"]) (use run(2) in simp_all)
  then show ?thesis using run by blast
qed

end
