(* ===== verification/Init_Segments.thy ===== *)
theory Init_Segments
  imports Source_Metadata Codec_Entries Box_Writer
begin

text \<open>
  Initialization segments (\<^verbatim>\<open>src/src/fmp4/init.rs\<close>), built from the boxes of the source: its headers with no
  duration, its sample description as it is, rewritten if it is of QuickTime, freed of the protection of
  the source and given that of the stream, and empty tables.
\<close>

definition FTYP :: bytes where
  "FTYP = be_bytes 4 24 @ ascii ''ftypiso6'' @ be_bytes 4 0 @ ascii ''iso6mp41''"

record init_protection =
  ip_key_id :: bytes
  ip_constant_iv :: bytes
  ip_crypt_byte_block :: byte
  ip_skip_byte_block :: byte
  ip_pssh :: "bytes list"

definition init_write_box :: "bytes \<Rightarrow> bytes \<Rightarrow> bytes \<Rightarrow> bytes res" where
  "init_write_box output name payload =
     and_then (ok_or (Option.bind (checked_add (length payload) 8) u32_of_nat)
         (InvalidMedia ''initialization segment is too large'')) (\<lambda>sz.
       ok (output @ be_bytes 4 sz @ name @ payload))"

section \<open>Headers without a duration\<close>

record duration_at =
  da_version_0 :: nat
  da_version_1 :: nat

definition MOVIE_OR_MEDIA :: duration_at where
  "MOVIE_OR_MEDIA = \<lparr>da_version_0 = 16, da_version_1 = 24\<rparr>"

definition TRACK_HEADER :: duration_at where
  "TRACK_HEADER = \<lparr>da_version_0 = 20, da_version_1 = 28\<rparr>"

definition with_zero_duration :: "bytes \<Rightarrow> duration_at \<Rightarrow> bytes res" where
  "with_zero_duration payload at =
     and_then (case get_at payload 0 of
         Some version \<Rightarrow> ok (if version = 1 then (da_version_1 at, 8) else (da_version_0 at, 4))
       | None \<Rightarrow> fail (InvalidMedia ''header box is empty'')) (\<lambda>(offset, width').
     if length payload < offset + width' then fail (InvalidMedia ''header box is truncated'')
     else ok (take offset payload @ replicate width' 0 @ drop (offset + width') payload))"

section \<open>The sample description\<close>

text \<open>The first entry of an \<^verbatim>\<open>stsd\<close> payload.\<close>

definition first_entry :: "bytes \<Rightarrow> raw_box res" where
  "first_entry description =
     and_then (rd_full_box (reader_new description)) (\<lambda>(_, r1).
     and_then (rd_skip r1 4) (\<lambda>r2.
     and_then (child_boxes (rd_rest r2)) (\<lambda>entries.
       ok_or (get_at entries 0) (InvalidMedia ''stsd entry is missing''))))"

definition protection_info :: "bytes \<Rightarrow> init_protection \<Rightarrow> bytes res" where
  "protection_info original p =
     and_then (init_write_box [] (ascii ''frma'') original) (\<lambda>s1.
     and_then (init_write_box s1 (ascii ''schm'') (replicate 4 0 @ ascii ''cbcs'' @ be_bytes 4 0x00010000)) (\<lambda>s2.
     and_then (init_write_box [] (ascii ''tenc'')
         ([1, 0, 0, 0, 0, or (push_bit 4 (ip_crypt_byte_block p)) (and (ip_skip_byte_block p) 0x0f), 1, 0]
           @ ip_key_id p @ [16] @ ip_constant_iv p)) (\<lambda>scheme_info.
       init_write_box s2 (ascii ''schi'') scheme_info)))"

definition protected_type :: "bytes \<Rightarrow> bytes" where
  "protected_type name = (if name \<in> {ascii ''mp4a'', ascii ''ac-3'', ascii ''ec-3''} then ascii ''enca'' else ascii ''encv'')"

definition protect :: "bytes \<Rightarrow> init_protection option \<Rightarrow> bytes res" where
  "protect description protection =
     (case protection of
        None \<Rightarrow> ok description
      | Some p \<Rightarrow>
          and_then (first_entry description) (\<lambda>entry.
          and_then (protection_info (bx_name entry) p) (\<lambda>info.
          and_then (init_write_box (bx_payload entry) (ascii ''sinf'') info) (\<lambda>payload.
          and_then (slice description 0 8) (\<lambda>head.
            init_write_box head (protected_type (bx_name entry)) payload)))))"

definition copy_but_sinf :: "bytes \<Rightarrow> raw_box list \<Rightarrow> bytes res" where
  "copy_but_sinf payload children =
     try_fold (\<lambda>out c. if bx_name c \<noteq> ascii ''sinf'' then init_write_box out (bx_name c) (bx_payload c) else ok out)
       payload children"

definition unprotected_description :: "bytes \<Rightarrow> nat \<Rightarrow> bytes option res" where
  "unprotected_description description track_id =
     and_then (first_entry description) (\<lambda>entry.
     if bx_name entry \<noteq> ascii ''encv'' \<and> bx_name entry \<noteq> ascii ''enca'' then ok None
     else
       and_then (protected_entry_children (bx_name entry) (bx_payload entry) track_id) (\<lambda>children.
       and_then (required_child children (ascii ''sinf'')) (\<lambda>sinf.
       and_then (required_child (bx_payload sinf) (ascii ''frma'')) (\<lambda>frma.
       and_then (ok_or (get_slice (bx_payload frma) 0 4) (InvalidMedia ''frma is truncated'')) (\<lambda>original.
       and_then (slice (bx_payload entry) 0 (length (bx_payload entry) - length children)) (\<lambda>fixed.
       and_then (child_boxes children) (\<lambda>cs.
       and_then (copy_but_sinf fixed cs) (\<lambda>payload.
       and_then (slice description 0 8) (\<lambda>head.
       and_then (init_write_box head original payload) (\<lambda>rewritten. ok (Some rewritten)))))))))))"

definition iso_description :: "bytes \<Rightarrow> nat \<Rightarrow> init_protection option \<Rightarrow> bytes res" where
  "iso_description description track_id protection =
     and_then (first_entry description) (\<lambda>entry.
     if bx_name entry \<noteq> ascii ''mp4a'' then protect description protection
     else
       and_then (iso_audio_entry (bx_payload entry) track_id) (\<lambda>rewritten.
         case rewritten of
           None \<Rightarrow> protect description protection
         | Some iso_entry \<Rightarrow>
             and_then (slice description 0 8) (\<lambda>head.
             and_then (init_write_box head (ascii ''mp4a'') iso_entry) (\<lambda>d. protect d protection))))"

definition sample_description :: "bytes \<Rightarrow> nat \<Rightarrow> init_protection option \<Rightarrow> bytes res" where
  "sample_description description track_id protection =
     and_then (unprotected_description description track_id) (\<lambda>unprotected.
       iso_description (case unprotected of None \<Rightarrow> description | Some d \<Rightarrow> d) track_id protection)"

section \<open>The boxes of a track\<close>

definition sample_table_box :: "raw_box \<Rightarrow> nat \<Rightarrow> init_protection option \<Rightarrow> bytes res" where
  "sample_table_box sample_table track_id protection =
     and_then (required_child (bx_payload sample_table) (ascii ''stsd'')) (\<lambda>description.
     and_then (sample_description (bx_payload description) track_id protection) (\<lambda>d.
     and_then (init_write_box [] (ascii ''stsd'') d) (\<lambda>o1.
     and_then (init_write_box o1 (ascii ''stts'') (replicate 8 0)) (\<lambda>o2.
     and_then (init_write_box o2 (ascii ''stsc'') (replicate 8 0)) (\<lambda>o3.
     and_then (init_write_box o3 (ascii ''stsz'') (replicate 12 0)) (\<lambda>o4.
       init_write_box o4 (ascii ''stco'') (replicate 8 0)))))))"

definition media_info_box :: "raw_box \<Rightarrow> nat \<Rightarrow> init_protection option \<Rightarrow> bytes res" where
  "media_info_box media_info track_id protection =
     and_then (child_boxes (bx_payload media_info)) (\<lambda>children.
       try_fold (\<lambda>out c.
         if bx_name c = ascii ''stbl''
         then and_then (sample_table_box c track_id protection) (init_write_box out (ascii ''stbl''))
         else init_write_box out (bx_name c) (bx_payload c)) [] children)"

definition media_box :: "raw_box \<Rightarrow> nat \<Rightarrow> init_protection option \<Rightarrow> bytes res" where
  "media_box media track_id protection =
     and_then (child_boxes (bx_payload media)) (\<lambda>children.
       try_fold (\<lambda>out c.
         if bx_name c = ascii ''mdhd''
         then and_then (with_zero_duration (bx_payload c) MOVIE_OR_MEDIA) (init_write_box out (ascii ''mdhd''))
         else if bx_name c = ascii ''minf''
         then and_then (media_info_box c track_id protection) (init_write_box out (ascii ''minf''))
         else init_write_box out (bx_name c) (bx_payload c)) [] children)"

definition track_box :: "raw_box \<Rightarrow> nat \<Rightarrow> init_protection option \<Rightarrow> bytes res" where
  "track_box track track_id protection =
     and_then (required_child (bx_payload track) (ascii ''tkhd'')) (\<lambda>header.
     and_then (required_child (bx_payload track) (ascii ''mdia'')) (\<lambda>media.
     and_then (with_zero_duration (bx_payload header) TRACK_HEADER) (\<lambda>h.
     and_then (init_write_box [] (ascii ''tkhd'') h) (\<lambda>o1.
     and_then (media_box media track_id protection) (\<lambda>m.
       init_write_box o1 (ascii ''mdia'') m)))))"

definition track_extends :: "nat \<Rightarrow> bytes" where
  "track_extends track_id =
     be_bytes 4 32 @ ascii ''trex'' @ replicate 4 0 @ be_bytes 4 track_id @ be_bytes 4 1 @ replicate 12 0"

section \<open>The segment\<close>

definition track_id_of :: "raw_box \<Rightarrow> nat res" where
  "track_id_of track =
     and_then (required_child (bx_payload track) (ascii ''tkhd'')) (\<lambda>header.
     and_then (rd_full_box (reader_new (bx_payload header))) (\<lambda>(version, r1).
     and_then (rd_skip r1 (if version = 1 then 16 else 8)) (\<lambda>r2.
     and_then (rd_u32 r2) (\<lambda>(id, _). ok id))))"

definition find_track :: "raw_box list \<Rightarrow> nat \<Rightarrow> raw_box res" where
  "find_track children track_id =
     ok_or (find (\<lambda>t. track_id_of t = ok track_id) (filter (\<lambda>c. bx_name c = ascii ''trak'') children))
       (InvalidMedia (''track '' @ decimal track_id @ '' does not exist''))"

definition add_track ::
    "raw_box list \<Rightarrow> init_protection option \<Rightarrow> bytes \<times> bytes \<Rightarrow> nat \<Rightarrow> (bytes \<times> bytes) res" where
  "add_track children protection = (\<lambda>(movie, extends) track_id.
     and_then (find_track children track_id) (\<lambda>track.
     and_then (track_box track track_id protection) (\<lambda>t.
     and_then (init_write_box movie (ascii ''trak'') t) (\<lambda>movie'.
       ok (movie', extends @ track_extends track_id)))))"

definition write_init :: "metadata \<Rightarrow> nat list \<Rightarrow> init_protection option \<Rightarrow> bytes res" where
  "write_init md track_ids protection =
     and_then (box_payload (md_moov_bytes md) 0) (\<lambda>moov.
     and_then (child_boxes (bx_payload moov)) (\<lambda>children.
     and_then (ok_or (find (\<lambda>c. bx_name c = ascii ''mvhd'') children)
         (InvalidMedia ''required MP4 box `mvhd` is missing'')) (\<lambda>movie_header.
     and_then (with_zero_duration (bx_payload movie_header) MOVIE_OR_MEDIA) (\<lambda>h.
     and_then (init_write_box [] (ascii ''mvhd'') h) (\<lambda>movie0.
     and_then (try_fold (add_track children protection) (movie0, []) track_ids) (\<lambda>(movie1, extends).
     and_then (init_write_box movie1 (ascii ''mvex'') extends) (\<lambda>movie2.
       init_write_box FTYP (ascii ''moov'')
         (movie2 @ (case protection of None \<Rightarrow> [] | Some p \<Rightarrow> concat (ip_pssh p))))))))))"

definition write_init_segment :: "metadata \<Rightarrow> nat \<Rightarrow> bytes res" where
  "write_init_segment md track_id = write_init md [track_id] None"

definition write_muxed_init_segment :: "metadata \<Rightarrow> nat list \<Rightarrow> bytes res" where
  "write_muxed_init_segment md track_ids = write_init md track_ids None"

definition write_protected_init_segment :: "metadata \<Rightarrow> nat \<Rightarrow> init_protection \<Rightarrow> bytes res" where
  "write_protected_init_segment md track_id p = write_init md [track_id] (Some p)"

text \<open>The first sample entry of a track, as the file has it.\<close>

definition init_sample_entry :: "metadata \<Rightarrow> nat \<Rightarrow> (bytes \<times> bytes) res" where
  "init_sample_entry md track_id =
     and_then (box_payload (md_moov_bytes md) 0) (\<lambda>moov.
     and_then (child_boxes (bx_payload moov)) (\<lambda>children.
     and_then (find_track children track_id) (\<lambda>track.
     and_then (required_child (bx_payload track) (ascii ''mdia'')) (\<lambda>media.
     and_then (required_child (bx_payload media) (ascii ''minf'')) (\<lambda>info.
     and_then (required_child (bx_payload info) (ascii ''stbl'')) (\<lambda>table.
     and_then (required_child (bx_payload table) (ascii ''stsd'')) (\<lambda>description.
     and_then (first_entry (bx_payload description)) (\<lambda>entry.
       ok (bx_name entry, bx_payload entry)))))))))"

end
