(* ===== verification/Segment_Protection.thy ===== *)
theory Segment_Protection
  imports Nal_Subsamples Sample_Cipher Key_Material Segment_Planner Init_Segments
begin

text \<open>
  Encrypting segments (\<^verbatim>\<open>src/src/cenc/segment.rs\<close>), the schedule of rotating keys
  (\<^verbatim>\<open>src/src/cenc/schedule.rs\<close>) and the tracks of a protected source that are decrypted while
  serving (\<^verbatim>\<open>src/src/cenc/source.rs\<close>).  The block cipher is a parameter, \<open>enc\<close> and \<open>dec\<close> under a key;
  shared pointers are modelled by what they point to.
\<close>

section \<open>The schedule of keys\<close>

record scheduled_period =
  sc_first_segment :: nat
  sc_encryption :: "encryption option"

text \<open>Where a segment starts: by the clock of the first track in it.\<close>

definition start_of :: "track list \<Rightarrow> segment \<Rightarrow> (nat \<times> nat) option" where
  "start_of tracks seg =
     Option.bind (get_at (se_tracks seg) 0) (\<lambda>part.
     Option.bind (find (\<lambda>t. tr_id t = sg_track_id part) tracks) (\<lambda>t.
       Some (sg_decode_time part, tr_timescale t)))"

definition begun :: "track list \<Rightarrow> nat \<Rightarrow> nat \<Rightarrow> segment \<Rightarrow> bool" where
  "begun tracks base start_ms seg \<longleftrightarrow>
     (case start_of tracks seg of
        None \<Rightarrow> False
      | Some (time, timescale) \<Rightarrow> start_ms * timescale \<le> (time - base) * 1000)"

definition schedule_step ::
    "track list \<Rightarrow> segment_plan \<Rightarrow> nat \<Rightarrow> scheduled_period list \<Rightarrow> key_period \<Rightarrow> scheduled_period list res" where
  "schedule_step tracks segs base periods period =
     (case find (begun tracks base (kp_start_ms period)) segs of
        None \<Rightarrow> ok periods
      | Some first \<Rightarrow>
          if periods \<noteq> [] \<and> se_index first \<le> sc_first_segment (last periods)
          then fail (InvalidMedia ''two encryption periods begin in the same segment'')
          else ok (periods @ [\<lparr>sc_first_segment = se_index first, sc_encryption = kp_encryption period\<rparr>]))"

definition schedule :: "encryption \<Rightarrow> track list \<Rightarrow> segment_plan \<Rightarrow> scheduled_period list res" where
  "schedule e tracks segs =
     (if \<not> is_rotating e then ok [\<lparr>sc_first_segment = 0, sc_encryption = Some e\<rparr>]
      else
        (let base = (case Option.bind (get_at segs 0) (start_of tracks) of None \<Rightarrow> 0 | Some (time, _) \<Rightarrow> time)
         in try_fold (schedule_step tracks segs base) [] (en_periods e)))"

section \<open>What each track needs\<close>

datatype video_parameters = Avc_Parameters avc_parameters | Hevc_Parameters hevc_parameters

record track_protection =
  tn_key :: content_key
  tn_kind :: track_kind
  tn_video :: "video_parameters option"
  tn_rotation :: "fragment_rotation option"

definition kind_pattern :: "track_kind \<Rightarrow> pattern" where
  "kind_pattern kind = (case kind of Video \<Rightarrow> VIDEO_PATTERN | Audio \<Rightarrow> FULL_PATTERN)"

definition protection_pattern :: "track_protection \<Rightarrow> pattern" where
  "protection_pattern p = kind_pattern (tn_kind p)"

definition protection_init :: "track_protection \<Rightarrow> bytes list \<Rightarrow> init_protection" where
  "protection_init p pssh =
     \<lparr>ip_key_id = ck_key_id (tn_key p), ip_constant_iv = ck_iv (tn_key p),
      ip_crypt_byte_block = of_nat (pt_crypt (protection_pattern p)),
      ip_skip_byte_block = of_nat (pt_skip (protection_pattern p)), ip_pssh = pssh\<rparr>"

definition system_pssh :: "encryption \<Rightarrow> bytes list" where
  "system_pssh e = List.map_filter ds_pssh (en_systems e)"

text \<open>The parameter sets of a track, or that it cannot be encrypted.\<close>

definition video_parameters_of :: "metadata \<Rightarrow> track \<Rightarrow> video_parameters option res" where
  "video_parameters_of md t =
     (case tr_codec t of
        Avc _ _ _ _ _ _ _ \<Rightarrow>
          and_then (init_sample_entry md (tr_id t)) (\<lambda>(_, entry).
          and_then (avc_from_sample_entry entry) (\<lambda>p. ok (Some (Avc_Parameters p))))
      | Hevc _ _ _ \<Rightarrow>
          and_then (init_sample_entry md (tr_id t)) (\<lambda>(_, entry).
          and_then (hevc_from_sample_entry entry) (\<lambda>p. ok (Some (Hevc_Parameters p))))
      | Aac _ _ _ \<Rightarrow> ok None
      | Ac3 _ _ \<Rightarrow> ok None
      | Eac3 _ _ \<Rightarrow> ok None
      | other \<Rightarrow> fail (Unsupported (codecs other @ '' cannot be encrypted'')))"

definition rotation_of :: "encryption \<Rightarrow> encryption \<Rightarrow> track_kind \<Rightarrow> fragment_rotation" where
  "rotation_of period primary kind =
     \<lparr>ro_group =
        (if key_for period kind \<noteq> key_for primary kind
         then Some (GroupProtected (of_nat (pt_crypt (kind_pattern kind))) (of_nat (pt_skip (kind_pattern kind)))
           (ck_key_id (key_for period kind)) (ck_iv (key_for period kind)))
         else None),
      ro_pssh = concat (system_pssh period)\<rparr>"

definition track_protection_of ::
    "encryption \<Rightarrow> encryption \<Rightarrow> metadata \<Rightarrow> bool \<Rightarrow> (nat \<rightharpoonup> track_protection) \<Rightarrow> track
       \<Rightarrow> (nat \<rightharpoonup> track_protection) res" where
  "track_protection_of period primary md rotating protected t =
     and_then (video_parameters_of md t) (\<lambda>video.
       ok (protected(tr_id t \<mapsto>
         \<lparr>tn_key = key_for period (tr_kind t), tn_kind = tr_kind t, tn_video = video,
          tn_rotation = (if rotating then Some (rotation_of period primary (tr_kind t)) else None)\<rparr>)))"

definition track_protections ::
    "encryption \<Rightarrow> encryption \<Rightarrow> track list \<Rightarrow> metadata \<Rightarrow> bool \<Rightarrow> (nat \<rightharpoonup> track_protection) res" where
  "track_protections period primary tracks md rotating =
     try_fold (track_protection_of period primary md rotating) Map.empty tracks"

section \<open>An encrypted asset\<close>

datatype period_content = Period_Encrypted "nat \<rightharpoonup> track_protection" | Period_Clear fragment_rotation

record period_protection =
  pp_first_segment :: nat
  pp_content :: period_content

record asset_protection =
  ap_encryption :: encryption
  ap_tracks :: "nat \<rightharpoonup> track_protection"
  ap_pssh :: "bytes list"
  ap_periods :: "period_protection list"

datatype segment_protection = Segment_Encrypted track_protection | Segment_Clear fragment_rotation

definition period_step ::
    "encryption \<Rightarrow> track list \<Rightarrow> metadata \<Rightarrow> period_protection list \<Rightarrow> scheduled_period
       \<Rightarrow> period_protection list res" where
  "period_step e tracks md periods scheduled =
     and_then (case sc_encryption scheduled of
         Some period \<Rightarrow> and_then (track_protections period e tracks md True) (\<lambda>p. ok (Period_Encrypted p))
       | None \<Rightarrow> ok (Period_Clear \<lparr>ro_group = Some GroupClear, ro_pssh = []\<rparr>)) (\<lambda>content.
       ok (periods @ [\<lparr>pp_first_segment = sc_first_segment scheduled, pp_content = content\<rparr>]))"

definition asset_protection_new ::
    "encryption \<Rightarrow> track list \<Rightarrow> metadata \<Rightarrow> segment_plan \<Rightarrow> asset_protection res" where
  "asset_protection_new e tracks md segs =
     and_then (track_protections e e tracks md (is_rotating e)) (\<lambda>primary.
     and_then
       (if is_rotating e
        then and_then (schedule e tracks segs) (\<lambda>periods. try_fold (period_step e tracks md) [] periods)
        else ok []) (\<lambda>periods.
       ok \<lparr>ap_encryption = e, ap_tracks = primary, ap_pssh = system_pssh e, ap_periods = periods\<rparr>))"

text \<open>The periods are in order, so that the partition point is the number of those that have begun.\<close>

definition for_segment :: "asset_protection \<Rightarrow> nat \<Rightarrow> nat \<Rightarrow> segment_protection option" where
  "for_segment a segment_index track_id =
     (if ap_periods a = [] then map_option Segment_Encrypted (ap_tracks a track_id)
      else
        (let started = takeWhile (\<lambda>p. pp_first_segment p \<le> segment_index) (ap_periods a) in
         if started = [] then None
         else case pp_content (last started) of
             Period_Encrypted tracks \<Rightarrow> map_option Segment_Encrypted (tracks track_id)
           | Period_Clear rotation \<Rightarrow> Some (Segment_Clear rotation)))"

section \<open>A segment that still has to be encrypted\<close>

record pending_clear =
  pc_track_id :: nat
  pc_kind :: track_kind
  pc_samples :: "sample list"
  pc_decode_time :: nat
  pc_sequence_number :: nat
  pc_rotation :: fragment_rotation

record pending_cbcs =
  pb_track_id :: nat
  pb_kind :: track_kind
  pb_samples :: "sample list"
  pb_decode_time :: nat
  pb_sequence_number :: nat
  pb_protection :: track_protection

datatype pending_encryption =
    Pending_Decrypt (pd_header: bytes) (pd_first_sample: nat) (pd_sizes: "nat list")
      (pd_decryption: track_decryption) (pd_then: "pending_encryption option")
  | Pending_Cbcs pending_cbcs
  | Pending_Clear pending_clear
  | Pending_Whole (pw_header: bytes) (pw_segment_index: nat) (pw_key: aes128)

fun header_room :: "pending_encryption \<Rightarrow> nat" where
  "header_room (Pending_Decrypt header _ _ _ next_step) =
     (case next_step of None \<Rightarrow> length header | Some p \<Rightarrow> header_room p)"
| "header_room (Pending_Cbcs p) = saturating_add (saturating_mul (length (pb_samples p)) 64) 1024"
| "header_room (Pending_Clear p) = saturating_add (saturating_mul (length (pc_samples p)) 32) 512"
| "header_room (Pending_Whole header _ _) = length header + 16"

definition clear_finish :: "pending_clear \<Rightarrow> bytes \<Rightarrow> bytes res" where
  "clear_finish p payload =
     and_then (clear_fragment_header (pc_track_id p) (pc_kind p) (pc_samples p) (pc_decode_time p)
         (pc_sequence_number p) (pc_rotation p) (length payload)) (\<lambda>header. ok (header @ payload))"

text \<open>The protected parts of one sample, in place.\<close>

definition encrypt_part ::
    "(bytes \<Rightarrow> bytes) \<Rightarrow> bytes \<Rightarrow> pattern \<Rightarrow> nat \<times> bytes \<Rightarrow> nat \<times> nat \<Rightarrow> (nat \<times> bytes) res" where
  "encrypt_part E iv p = (\<lambda>(at, sample_bytes) (clear, protected).
     let start = at + clear; e = start + protected in
     and_then (slice sample_bytes start e) (\<lambda>range.
       ok (e, take start sample_bytes @ encrypt_range E iv p range @ drop e sample_bytes)))"

definition encrypt_sample_bytes ::
    "(bytes \<Rightarrow> bytes) \<Rightarrow> bytes \<Rightarrow> pattern \<Rightarrow> (nat \<times> nat) list \<Rightarrow> bytes \<Rightarrow> bytes res" where
  "encrypt_sample_bytes E iv p m sample_bytes =
     (if m = [] then ok (encrypt_range E iv p sample_bytes)
      else and_then (try_fold (encrypt_part E iv p) (0, sample_bytes) m) (\<lambda>(_, out). ok out))"

definition subsample_map :: "video_parameters option \<Rightarrow> bytes \<Rightarrow> (nat \<times> nat) list res" where
  "subsample_map video sample_bytes =
     (case video of
        Some (Avc_Parameters avc) \<Rightarrow> avc_subsamples avc sample_bytes
      | Some (Hevc_Parameters hevc) \<Rightarrow> hevc_subsamples hevc sample_bytes
      | None \<Rightarrow> ok [])"

definition cbcs_step ::
    "(bytes \<Rightarrow> bytes) \<Rightarrow> track_protection \<Rightarrow> (nat \<times> nat) list list \<times> nat \<times> bytes \<Rightarrow> sample
       \<Rightarrow> ((nat \<times> nat) list list \<times> nat \<times> bytes) res" where
  "cbcs_step E t = (\<lambda>(maps, offset, payload) s.
     let e = offset + sm_size s in
     and_then (slice payload offset e) (\<lambda>sample_bytes.
     and_then (subsample_map (tn_video t) sample_bytes) (\<lambda>m.
     and_then (encrypt_sample_bytes E (ck_iv (tn_key t)) (protection_pattern t) m sample_bytes) (\<lambda>out.
       ok (maps @ [m], e, take offset payload @ out @ drop e payload)))))"

definition expected_length :: "sample list \<Rightarrow> nat option" where
  "expected_length samples =
     foldl (\<lambda>total s. Option.bind total (\<lambda>n. checked_add n (sm_size s))) (Some 0) samples"

definition cbcs_finish :: "(bytes \<Rightarrow> bytes \<Rightarrow> bytes) \<Rightarrow> pending_cbcs \<Rightarrow> bytes \<Rightarrow> bytes res" where
  "cbcs_finish enc p payload =
     (if expected_length (pb_samples p) \<noteq> Some (length payload)
      then fail (InvalidMedia ''encrypted segment bytes do not match its samples'')
      else
        and_then (try_fold (cbcs_step (enc (ck_key (tn_key (pb_protection p)))) (pb_protection p)) ([], 0, payload)
            (pb_samples p)) (\<lambda>(maps, _, encrypted).
        and_then (encrypted_fragment_header (pb_track_id p) (pb_kind p) (pb_samples p) (pb_decode_time p)
            (pb_sequence_number p) maps (length encrypted) (tn_rotation (pb_protection p))) (\<lambda>header.
          ok (header @ encrypted))))"

text \<open>The samples of a segment, decrypted in place one after the other.\<close>

definition decrypt_step ::
    "(bytes \<Rightarrow> bytes \<Rightarrow> bytes) \<Rightarrow> (bytes \<Rightarrow> bytes \<Rightarrow> bytes) \<Rightarrow> track_decryption \<Rightarrow> nat \<Rightarrow> nat \<times> bytes \<Rightarrow> nat \<times> nat
       \<Rightarrow> (nat \<times> bytes) res" where
  "decrypt_step enc dec t first_sample = (\<lambda>(at, payload) (offset, sz).
     and_then (ok_or (case checked_add at sz of
           Some e \<Rightarrow> if e \<le> length payload then Some e else None
         | None \<Rightarrow> None) (InvalidMedia ''segment payload is shorter than its samples'')) (\<lambda>e.
     and_then (decrypt_sample enc dec t (first_sample + offset) (subslice payload at e)) (\<lambda>out.
       ok (e, take at payload @ out @ drop e payload))))"

definition decrypt_samples ::
    "(bytes \<Rightarrow> bytes \<Rightarrow> bytes) \<Rightarrow> (bytes \<Rightarrow> bytes \<Rightarrow> bytes) \<Rightarrow> track_decryption \<Rightarrow> nat \<Rightarrow> nat list \<Rightarrow> bytes \<Rightarrow> bytes res" where
  "decrypt_samples enc dec t first_sample sizes payload =
     and_then (try_fold (decrypt_step enc dec t first_sample) (0, payload) (zip [0..<length sizes] sizes))
       (\<lambda>(_, out). ok out)"

fun finish ::
    "(bytes \<Rightarrow> bytes \<Rightarrow> bytes) \<Rightarrow> (bytes \<Rightarrow> bytes \<Rightarrow> bytes) \<Rightarrow> pending_encryption \<Rightarrow> bytes \<Rightarrow> bytes res" where
  "finish enc dec (Pending_Decrypt header first_sample sizes t next_step) payload =
     and_then (decrypt_samples enc dec t first_sample sizes payload) (\<lambda>clear.
       case next_step of
         Some p \<Rightarrow> finish enc dec p clear
       | None \<Rightarrow> ok (header @ clear))"
| "finish enc dec (Pending_Cbcs p) payload = cbcs_finish enc p payload"
| "finish enc dec (Pending_Clear p) payload = clear_finish p payload"
| "finish enc dec (Pending_Whole header segment_index k) payload =
     ok (encrypt_segment (enc (ak_key k)) segment_index (header @ payload))"

section \<open>The tracks of a protected source\<close>

record asset_decryption =
  ad_tracks :: "(nat \<times> track_decryption) list"
  ad_key_ids :: "string list"

text \<open>A table by track ID: the last entry of an ID is the one that counts.\<close>

definition put_track :: "nat \<Rightarrow> 'a \<Rightarrow> (nat \<times> 'a) list \<Rightarrow> (nat \<times> 'a) list" where
  "put_track t x table = filter (\<lambda>(u, _). u \<noteq> t) table @ [(t, x)]"

definition decryption_step ::
    "source_key list option \<Rightarrow> (nat \<times> track_decryption) list \<times> string list \<Rightarrow> track
       \<Rightarrow> ((nat \<times> track_decryption) list \<times> string list) res" where
  "decryption_step keys = (\<lambda>(decryptions, ids) t.
     case tr_source_protection t of
       None \<Rightarrow> ok (decryptions, ids)
     | Some p \<Rightarrow>
         (case keys of
            None \<Rightarrow> fail (Unsupported (''track '' @ decimal (tr_id t) @ '': encrypted media is not supported''))
          | Some ks \<Rightarrow>
              let key_id = uuid_string (sp_key_id p) in
              and_then (ok_or (source_key_for ks (sp_key_id p) (tr_kind t)) (Unsupported
                  (''track '' @ decimal (tr_id t) @ '': source_encryption has no key for key ID '' @ key_id))) (\<lambda>k.
                ok (put_track (tr_id t)
                      \<lparr>td_decryptor = decryptor_new k (sp_scheme p) (sp_crypt_blocks p) (sp_skip_blocks p),
                       td_protection = p\<rparr> decryptions,
                    push_new ids key_id))))"

definition asset_decryption_new ::
    "track list \<Rightarrow> source_key list option \<Rightarrow> asset_decryption option res" where
  "asset_decryption_new tracks keys =
     and_then (try_fold (decryption_step keys) ([], []) tracks) (\<lambda>(decryptions, ids).
       ok (if decryptions = [] then None else Some \<lparr>ad_tracks = decryptions, ad_key_ids = ids\<rparr>))"

definition decryption_bytes :: "asset_decryption \<Rightarrow> nat" where
  "decryption_bytes a = sum_list (map (\<lambda>(_, t). aux_bytes (sp_aux (td_protection t))) (ad_tracks a))"

definition nal_length_size :: "bytes \<Rightarrow> codec_config \<Rightarrow> nat option" where
  "nal_length_size entry codec =
     (let named = (\<lambda>name off.
        case visual_entry entry of
          Inl _ \<Rightarrow> None
        | Inr (_, _, children) \<Rightarrow>
            (case optional_child children name of
               Inr (Some config) \<Rightarrow>
                 map_option (\<lambda>b. unat (and b 3) + 1) (get_at (bx_payload config) off)
             | _ \<Rightarrow> None))
      in case codec of
           Avc _ _ _ _ _ _ _ \<Rightarrow> named (ascii ''avcC'') 4
         | Hevc _ _ _ \<Rightarrow> named (ascii ''hvcC'') 21
         | _ \<Rightarrow> None)"

text \<open>
  The keys are tried on the first sample of every video track whose length prefixes are encrypted;
  \<open>read_range\<close> is the source's read.
\<close>

definition check_track ::
    "(bytes \<Rightarrow> bytes \<Rightarrow> bytes) \<Rightarrow> (bytes \<Rightarrow> bytes \<Rightarrow> bytes) \<Rightarrow> (byte_range \<Rightarrow> bytes res) \<Rightarrow> metadata \<Rightarrow> nat
       \<Rightarrow> asset_decryption \<Rightarrow> track \<Rightarrow> unit res" where
  "check_track enc dec read_range md max_sample_bytes a t =
     (case map_of (ad_tracks a) (tr_id t) of
        None \<Rightarrow> ok ()
      | Some d \<Rightarrow>
          and_then (init_sample_entry md (tr_id t)) (\<lambda>(_, entry).
            case nal_length_size entry (tr_codec t) of
              None \<Rightarrow> ok ()
            | Some length_size \<Rightarrow>
                and_then (index_get (tr_samples t) 0) (\<lambda>first.
                if max_sample_bytes < sm_size first then ok ()
                else if leaves_prefix_clear d (window_start (tr_samples t)) length_size then ok ()
                else
                  and_then (read_range (byte_range_new (sm_offset first) (sm_size first))) (\<lambda>sample_bytes.
                  and_then (decrypt_sample enc dec d (window_start (tr_samples t)) sample_bytes) (\<lambda>clear.
                    if \<not> nal_units_tile clear length_size
                    then fail (InvalidMedia (''track '' @ decimal (tr_id t)
                      @ '': the source_encryption key does not decrypt it''))
                    else ok ())))))"

definition check_keys ::
    "(bytes \<Rightarrow> bytes \<Rightarrow> bytes) \<Rightarrow> (bytes \<Rightarrow> bytes \<Rightarrow> bytes) \<Rightarrow> (byte_range \<Rightarrow> bytes res) \<Rightarrow> metadata \<Rightarrow> nat
       \<Rightarrow> asset_decryption \<Rightarrow> track list \<Rightarrow> unit res" where
  "check_keys enc dec read_range md max_sample_bytes a tracks =
     try_fold (\<lambda>_ t. check_track enc dec read_range md max_sample_bytes a t) ()
       (filter (\<lambda>t. tr_kind t = Video) tracks)"

end
