(* ===== verification/Movie_Parser.thy ===== *)
theory Movie_Parser
  imports Source_Protection Source_Metadata Edit_Lists Sample_Tables_Parse
begin

text \<open>
  The index of a file from its \<^verbatim>\<open>moov\<close> and its fragments (\<^verbatim>\<open>src/src/mp4/parser.rs\<close>): what is packaged and
  what is set aside, one track after another, the edit lists over all of them, and the timeline of a
  fragmented file.  BLAKE3 is a parameter; the threads that parse the tracks are modelled by the order
  in which their results are looked at.
\<close>

section \<open>The raw structure\<close>

datatype disposition = Package | Skip string

record raw_track =
  rt_id :: nat
  rt_handler :: bytes
  rt_disposition :: disposition
  rt_trak :: bytes

record raw_moov =
  rm_movie_timescale :: nat
  rm_movie_duration :: nat
  rm_fragmented :: bool
  rm_defaults :: "nat \<rightharpoonup> track_defaults"
  rm_tracks :: "raw_track list"

definition read_timescale_and_duration :: "reader \<Rightarrow> byte \<Rightarrow> (nat \<times> nat \<times> reader) res" where
  "read_timescale_and_duration r version =
     (if version = 1
      then
        and_then (rd_skip r 16) (\<lambda>r1.
        and_then (rd_u32 r1) (\<lambda>(timescale, r2).
        and_then (rd_u64 r2) (\<lambda>(duration, r3). ok (timescale, duration, r3))))
      else
        and_then (rd_skip r 8) (\<lambda>r1.
        and_then (rd_u32 r1) (\<lambda>(timescale, r2).
        and_then (rd_u32 r2) (\<lambda>(duration, r3). ok (timescale, duration, r3)))))"

definition track_id_in :: "bytes \<Rightarrow> nat res" where
  "track_id_in tkhd =
     and_then (rd_full_box (reader_new tkhd)) (\<lambda>(version, r1).
     and_then (rd_skip r1 (if version = 1 then 16 else 8)) (\<lambda>r2.
     and_then (rd_u32 r2) (\<lambda>(id, _). ok id)))"

definition handler_type :: "bytes \<Rightarrow> bytes res" where
  "handler_type hdlr = ok_or (get_slice hdlr 8 12) (invalid_media ''hdlr payload is truncated'')"

definition validate_data_reference :: "bytes \<Rightarrow> unit res" where
  "validate_data_reference media_info =
     and_then (required_child media_info (ascii ''dinf'')) (\<lambda>data_info.
     and_then (required_child (bx_payload data_info) (ascii ''dref'')) (\<lambda>data_reference.
     and_then (rd_full_box (reader_new (bx_payload data_reference))) (\<lambda>(_, r1).
     and_then (rd_u32 r1) (\<lambda>(entry_count, r2).
     if entry_count \<noteq> 1
     then fail (Unsupported ''exactly one self-contained data reference is required'')
     else
       and_then (child_boxes (rd_rest r2)) (\<lambda>entries.
       and_then (ok_or (get_at entries 0) (invalid_media ''dref entry is missing'')) (\<lambda>entry.
       if bx_name entry = ascii ''url '' \<and> (case get_at (bx_payload entry) 3 of None \<Rightarrow> False | Some flags \<Rightarrow> and flags 1 \<noteq> 0)
       then ok () else fail (Unsupported ''external data references are not supported'')))))))"

text \<open>The only entry of \<^verbatim>\<open>stsd\<close>; another count is refused with a message.\<close>

definition stsd_entry_count :: "bytes \<Rightarrow> (nat \<times> reader) res" where
  "stsd_entry_count sample_table =
     and_then (required_child sample_table (ascii ''stsd'')) (\<lambda>description.
     and_then (rd_full_box (reader_new (bx_payload description))) (\<lambda>(_, r1). rd_u32 r1))"

definition sample_entry_of :: "bytes \<Rightarrow> raw_box res" where
  "sample_entry_of sample_table =
     and_then (stsd_entry_count sample_table) (\<lambda>(entry_count, r).
     if entry_count \<noteq> 1
     then fail (Unsupported (decimal entry_count @ '' sample descriptions; exactly one is required''))
     else
       and_then (child_boxes (rd_rest r)) (\<lambda>entries.
         ok_or (get_at entries 0) (invalid_media ''stsd entry is missing'')))"

definition declared_samples :: "bytes \<Rightarrow> nat res" where
  "declared_samples payload =
     and_then (rd_full_box (reader_new payload)) (\<lambda>(_, r1).
     and_then (rd_skip r1 4) (\<lambda>r2.
     and_then (rd_u32 r2) (\<lambda>(n, _). ok n)))"

definition sample_count :: "bytes \<Rightarrow> nat res" where
  "sample_count sample_table =
     and_then (optional_child sample_table (ascii ''stsz'')) (\<lambda>sizes.
       case sizes of
         Some b \<Rightarrow> declared_samples (bx_payload b)
       | None \<Rightarrow> and_then (required_child sample_table (ascii ''stz2'')) (\<lambda>b. declared_samples (bx_payload b)))"

definition packaged_entries :: "string list" where
  "packaged_entries = [''avc1'', ''hvc1'', ''hev1'', ''vp09'', ''av01'', ''mp4a'', ''ac-3'', ''ec-3'', ''Opus'', ''fLaC'']"

definition protected_names :: "bytes \<Rightarrow> bool" where
  "protected_names name \<longleftrightarrow> name = ascii ''encv'' \<or> name = ascii ''enca''"

definition classify_sample_description :: "nat \<Rightarrow> bytes \<Rightarrow> bytes \<Rightarrow> disposition res" where
  "classify_sample_description track_id handler sample_table =
     and_then (stsd_entry_count sample_table) (\<lambda>(entry_count, _).
     if entry_count \<noteq> 1
     then fail (track_unsupported track_id (decimal entry_count @ '' sample descriptions; exactly one is required''))
     else
       and_then (sample_entry_of sample_table) (\<lambda>entry.
       let refused = fail (track_unsupported track_id
             (''sample description `'' @ fourcc (bx_name entry) @ ''` is not supported'')) in
       if bx_name entry \<in> set (map ascii packaged_entries) then ok Package
       else if protected_names (bx_name entry)
       then
         and_then (protected_entry_children (bx_name entry) (bx_payload entry) track_id) (\<lambda>children.
         and_then (optional_child children (ascii ''sinf'')) (\<lambda>sinf.
           if sinf = None
           then fail (track_unsupported track_id ''encrypted media without protection information is not supported'')
           else ok Package))
       else if handler = ascii ''vide''
       then and_then (sample_count sample_table) (\<lambda>n. if n \<le> 1 then ok (Skip ''single still image'') else refused)
       else refused))"

definition raw_track_of :: "raw_track list \<Rightarrow> raw_box \<Rightarrow> raw_track list res" where
  "raw_track_of tracks trak =
     and_then (required_child (bx_payload trak) (ascii ''tkhd'')) (\<lambda>tkhd.
     and_then (track_id_in (bx_payload tkhd)) (\<lambda>id.
     and_then (required_child (bx_payload trak) (ascii ''mdia'')) (\<lambda>media.
     and_then (required_child (bx_payload media) (ascii ''hdlr'')) (\<lambda>hdlr.
     and_then (handler_type (bx_payload hdlr)) (\<lambda>handler.
     and_then
       (if handler = ascii ''vide'' \<or> handler = ascii ''soun''
        then
          and_then (required_child (bx_payload media) (ascii ''minf'')) (\<lambda>media_info.
          and_then (validate_data_reference (bx_payload media_info)) (\<lambda>_.
          and_then (required_child (bx_payload media_info) (ascii ''stbl'')) (\<lambda>sample_table.
            classify_sample_description id handler (bx_payload sample_table))))
        else ok (Skip ''not an audio or video track'')) (\<lambda>d.
     if \<exists>existing \<in> set tracks. rt_id existing = id then fail (invalid_media ''two tracks share one track ID'')
     else ok (tracks @ [\<lparr>rt_id = id, rt_handler = handler, rt_disposition = d, rt_trak = bx_payload trak\<rparr>])))))))"

definition validate_raw_moov :: "bytes \<Rightarrow> raw_moov res" where
  "validate_raw_moov moov =
     and_then (box_payload moov 0) (\<lambda>root.
     if bx_name root \<noteq> ascii ''moov'' then fail (invalid_media ''metadata range is not a moov box'')
     else
       and_then (child_boxes (bx_payload root)) (\<lambda>children.
       and_then
         (case find (\<lambda>c. bx_name c = ascii ''mvex'') children of
            None \<Rightarrow> ok None
          | Some mvex \<Rightarrow> and_then (parse_defaults (bx_payload mvex)) (\<lambda>d. ok (Some d))) (\<lambda>defaults.
       and_then (ok_or (find (\<lambda>c. bx_name c = ascii ''mvhd'') children)
           (invalid_media ''required MP4 box `mvhd` is missing'')) (\<lambda>header.
       and_then (rd_full_box (reader_new (bx_payload header))) (\<lambda>(version, r1).
       and_then (read_timescale_and_duration r1 version) (\<lambda>(movie_timescale, movie_duration, _).
       if movie_timescale = 0 then fail (invalid_media ''movie timescale is zero'')
       else
         and_then (try_fold raw_track_of [] (filter (\<lambda>c. bx_name c = ascii ''trak'') children)) (\<lambda>tracks.
           ok \<lparr>rm_movie_timescale = movie_timescale, rm_movie_duration = movie_duration,
               rm_fragmented = (defaults \<noteq> None),
               rm_defaults = (case defaults of None \<Rightarrow> Map.empty | Some d \<Rightarrow> d), rm_tracks = tracks\<rparr>)))))))"

section \<open>One track\<close>

record media_header =
  mh_timescale :: nat
  mh_duration :: nat
  mh_language :: string

definition language_of :: "nat \<Rightarrow> string" where
  "language_of packed = map (\<lambda>shift. char_of (packed div 2 ^ shift mod 32 + 0x60)) [10, 5, 0]"

definition parse_media_header :: "bytes \<Rightarrow> nat \<Rightarrow> media_header res" where
  "parse_media_header payload track_id =
     and_then (rd_full_box (reader_new payload)) (\<lambda>(version, r1).
     and_then (read_timescale_and_duration r1 version) (\<lambda>(timescale, duration, r2).
     if timescale = 0
     then fail (invalid_media (''track '' @ decimal track_id @ '': timescale is zero''))
     else
       and_then (rd_u16 r2) (\<lambda>(packed, _).
         ok \<lparr>mh_timescale = timescale, mh_duration = duration, mh_language = language_of packed\<rparr>)))"

definition elst_entry_at :: "byte \<Rightarrow> elst_entry list \<times> reader \<Rightarrow> nat \<Rightarrow> (elst_entry list \<times> reader) res" where
  "elst_entry_at version = (\<lambda>(entries, r) _.
     and_then (if version = 1 then rd_u64 r else rd_u32 r) (\<lambda>(segment_duration, r1).
     and_then (if version = 1 then rd_u64 r1 else rd_u32 r1) (\<lambda>(media_time, r2).
     and_then (rd_u16 r2) (\<lambda>(media_rate, r3).
     and_then (rd_u16 r3) (\<lambda>(media_rate_fraction, r4).
       ok (entries @ [\<lparr>el_segment_duration = segment_duration, el_media_time = media_time,
         el_media_rate = media_rate, el_media_rate_fraction = media_rate_fraction\<rparr>], r4))))))"

definition track_edit_of :: "raw_track \<Rightarrow> nat \<Rightarrow> nat \<Rightarrow> track_edit res" where
  "track_edit_of raw movie_timescale track_timescale =
     and_then (optional_child (rt_trak raw) (ascii ''edts'')) (\<lambda>edts.
       case edts of
         None \<Rightarrow> ok NONE_EDIT
       | Some b \<Rightarrow>
           and_then (optional_child (bx_payload b) (ascii ''elst'')) (\<lambda>elst.
             case elst of
               None \<Rightarrow> ok NONE_EDIT
             | Some e \<Rightarrow>
                 and_then (rd_full_box (reader_new (bx_payload e))) (\<lambda>(version, r1).
                 and_then (rd_entry_count r1 (if version = 1 then 20 else 12)) (\<lambda>(count, r2).
                 and_then (try_fold (elst_entry_at version) ([], r2) [0..<count]) (\<lambda>(entries, _).
                   parse_edit_list (rt_id raw) (unat version) entries movie_timescale track_timescale)))))"

datatype track_source = Tables_Source | Fragments_Source "fragment list" "nat \<rightharpoonup> track_defaults"

definition codec_of :: "raw_track \<Rightarrow> raw_box \<Rightarrow> bytes \<Rightarrow> codec_config res" where
  "codec_of raw entry format =
     (let payload = bx_payload entry; video = (rt_handler raw = ascii ''vide'') in
      if format = ascii ''avc1'' \<and> video then parse_avc payload
      else if (format = ascii ''hvc1'' \<or> format = ascii ''hev1'') \<and> video then parse_hevc payload format
      else if format = ascii ''vp09'' \<and> video then parse_vp9 payload
      else if format = ascii ''av01'' \<and> video then parse_av1 payload
      else if format = ascii ''mp4a'' \<and> \<not> video then parse_aac payload (rt_id raw)
      else if format = ascii ''ac-3'' \<and> \<not> video then parse_ac3 payload (rt_id raw)
      else if format = ascii ''ec-3'' \<and> \<not> video then parse_eac3 payload (rt_id raw)
      else if format = ascii ''Opus'' \<and> \<not> video then parse_opus payload (rt_id raw)
      else if format = ascii ''fLaC'' \<and> \<not> video then parse_flac payload (rt_id raw)
      else fail (track_unsupported (rt_id raw) (''sample description `'' @ fourcc format
        @ ''` does not belong in a '' @ fourcc (rt_handler raw) @ '' track'')))"

definition samples_of :: "raw_track \<Rightarrow> bytes \<Rightarrow> nat \<Rightarrow> limits \<Rightarrow> track_source \<Rightarrow> sample_index res" where
  "samples_of raw stbl source_len l source =
     (case source of
        Tables_Source \<Rightarrow> and_then (parse_sample_tables stbl) (\<lambda>ts. sample_index_of ts source_len l)
      | Fragments_Source fragments defaults \<Rightarrow>
          and_then (sample_count stbl) (\<lambda>n.
          and_then (reject_mixed (rt_id raw) n) (\<lambda>_.
          and_then (track_samples fragments (rt_id raw)
              (case defaults (rt_id raw) of None \<Rightarrow> no_defaults | Some d \<Rightarrow> d) source_len l) from_samples)))"

definition sinf_of_entry :: "raw_track \<Rightarrow> raw_box \<Rightarrow> sinf option res" where
  "sinf_of_entry raw entry =
     (if protected_names (bx_name entry)
      then
        and_then (protected_entry_children (bx_name entry) (bx_payload entry) (rt_id raw)) (\<lambda>children.
        and_then (required_child children (ascii ''sinf'')) (\<lambda>sinf.
        and_then (parse_sinf (rt_id raw) (bx_payload sinf)) (\<lambda>s. ok (Some s))))
      else ok None)"

definition source_protection_of ::
    "raw_track \<Rightarrow> sinf option \<Rightarrow> bytes \<Rightarrow> track_source \<Rightarrow> nat \<Rightarrow> source_protection option res" where
  "source_protection_of raw sinf stbl source count =
     (case (sinf, source) of
        (None, _) \<Rightarrow> ok None
      | (Some s, Tables_Source) \<Rightarrow> read_protection (rt_id raw) s stbl count
      | (Some s, Fragments_Source fragments _) \<Rightarrow> read_fragmented_protection (rt_id raw) s stbl fragments count)"

definition parse_track ::
    "raw_track \<Rightarrow> nat \<Rightarrow> nat \<Rightarrow> limits \<Rightarrow> track_source \<Rightarrow> (track \<times> track_edit) res" where
  "parse_track raw movie_timescale source_len l source =
     and_then (required_child (rt_trak raw) (ascii ''mdia'')) (\<lambda>media.
     and_then (required_child (bx_payload media) (ascii ''mdhd'')) (\<lambda>mdhd.
     and_then (parse_media_header (bx_payload mdhd) (rt_id raw)) (\<lambda>header.
     and_then (required_child (bx_payload media) (ascii ''minf'')) (\<lambda>minf.
     and_then (required_child (bx_payload minf) (ascii ''stbl'')) (\<lambda>stbl_box.
     let stbl = bx_payload stbl_box in
     and_then (sample_entry_of stbl) (\<lambda>entry.
     and_then (sinf_of_entry raw entry) (\<lambda>sinf.
     and_then (codec_of raw entry (case sinf of None \<Rightarrow> bx_name entry | Some s \<Rightarrow> sf_original_format s)) (\<lambda>codec.
     and_then (samples_of raw stbl source_len l source) (\<lambda>samples.
     if index_is_empty samples
     then fail (invalid_media (''track '' @ decimal (rt_id raw) @ '' has no samples''))
     else
       and_then (source_protection_of raw sinf stbl source (index_len samples)) (\<lambda>protection.
       and_then (track_edit_of raw movie_timescale (mh_timescale header)) (\<lambda>edit.
         ok (\<lparr>tr_id = rt_id raw, tr_key = VIDEO_KEY,
              tr_kind = (if rt_handler raw = ascii ''vide'' then Video else Audio),
              tr_language = mh_language header, tr_timeline_shift = 0, tr_timescale = mh_timescale header,
              tr_duration = mh_duration header, tr_codec = codec, tr_samples = samples,
              tr_source_protection = protection, tr_label = None\<rparr>, edit))))))))))))"

section \<open>The index of a file\<close>

fun assign_keys_from :: "nat \<Rightarrow> track list \<Rightarrow> track list" where
  "assign_keys_from audio [] = []"
| "assign_keys_from audio (t # ts) =
     (case tr_kind t of
        Video \<Rightarrow> t\<lparr>tr_key := VIDEO_KEY\<rparr> # assign_keys_from audio ts
      | Audio \<Rightarrow>
          let n = min (audio + 1) (u16_limit - 1) in t\<lparr>tr_key := audio_key n\<rparr> # assign_keys_from n ts)"

definition assign_keys :: "track list \<Rightarrow> track list" where
  "assign_keys tracks = assign_keys_from 0 tracks"

text \<open>The track whose first sample is earliest in seconds, the first of them if there are several.\<close>

definition first_times :: "track list \<Rightarrow> (nat \<times> nat) list res" where
  "first_times tracks =
     and_then (collect_res (map (\<lambda>t. and_then (index_first (tr_samples t)) (\<lambda>s.
         ok (map_option (\<lambda>x. (sm_decode_time x, tr_timescale t)) s))) tracks)) (\<lambda>firsts.
       ok (List.map_filter (\<lambda>x. x) firsts))"

definition earlier :: "nat \<times> nat \<Rightarrow> nat \<times> nat \<Rightarrow> nat \<times> nat" where
  "earlier best x = (if fst x * snd best < fst best * snd x then x else best)"

definition earliest_of :: "(nat \<times> nat) list \<Rightarrow> (nat \<times> nat) option" where
  "earliest_of xs = (case xs of [] \<Rightarrow> None | x # rest \<Rightarrow> Some (foldl earlier x rest))"

definition shift_to_origin :: "nat \<times> nat \<Rightarrow> track \<Rightarrow> track res" where
  "shift_to_origin earliest t =
     (if snd earliest = 0 then panic
      else
        and_then (ok_or (u64_of_nat (fst earliest * tr_timescale t div snd earliest))
            (invalid_media ''timeline origin overflow'')) (\<lambda>origin.
        and_then (index_shifted (tr_samples t) (- int origin) ''timeline origin overflow'') (\<lambda>samples.
        and_then (index_last samples) (\<lambda>last.
        and_then (ok_or last (invalid_media ''a fragmented track has no samples'')) (\<lambda>x.
        and_then (ok_or (checked_add (sm_decode_time x) (sm_duration x))
            (invalid_media ''track duration overflow'')) (\<lambda>duration.
          ok (t\<lparr>tr_samples := samples, tr_duration := duration\<rparr>)))))))"

definition normalise_fragmented_timeline :: "track list \<Rightarrow> track list res" where
  "normalise_fragmented_timeline tracks =
     and_then (first_times tracks) (\<lambda>times.
       case earliest_of times of
         None \<Rightarrow> ok tracks
       | Some earliest \<Rightarrow> collect_res (map (shift_to_origin earliest) tracks))"

definition movie_duration :: "track list \<Rightarrow> nat \<Rightarrow> nat" where
  "movie_duration tracks movie_timescale =
     (let durations = map (\<lambda>t. tr_duration t * movie_timescale div tr_timescale t) tracks in
      if durations = [] then 0 else min (Max (set durations)) (u64_limit - 1))"

definition metadata_hashes :: "(bytes \<Rightarrow> bytes) \<Rightarrow> metadata \<Rightarrow> bytes \<times> bytes" where
  "metadata_hashes blake3 md =
     (blake3 (md_moov_bytes md),
      blake3 (md_moov_bytes md @ concat (map (\<lambda>f. be_bytes 8 (fr_offset f) @ fr_bytes f) (md_fragments md))))"

definition track_source_of :: "raw_moov \<Rightarrow> metadata \<Rightarrow> track_source res" where
  "track_source_of moov md =
     (if rm_fragmented moov
      then (if md_fragments md = [] then fail (invalid_media ''the file is fragmented but has no fragments'')
            else ok (Fragments_Source (md_fragments md) (rm_defaults moov)))
      else if md_fragments md = [] then ok Tables_Source
      else fail (invalid_media ''moof boxes without an mvex box in moov''))"

definition kept_tracks :: "raw_moov \<Rightarrow> raw_track list" where
  "kept_tracks moov = filter (\<lambda>r. rt_disposition r = Package) (rm_tracks moov)"

definition skipped_tracks_of :: "raw_moov \<Rightarrow> skipped_track list" where
  "skipped_tracks_of moov = List.map_filter (\<lambda>r. case rt_disposition r of
       Package \<Rightarrow> None
     | Skip reason \<Rightarrow> Some \<lparr>sk_id = rt_id r, sk_handler = fourcc (rt_handler r), sk_reason = reason\<rparr>)
     (rm_tracks moov)"

text \<open>The edits of all tracks, each applied with its shift.\<close>

definition apply_edits :: "(track \<times> track_edit) list \<Rightarrow> nat \<Rightarrow> (track list \<times> nat) res" where
  "apply_edits parsed movie_timescale =
     (let timescales = map (\<lambda>(t, e). (e, tr_timescale t)) parsed in
      and_then (timeline_shifts timescales movie_timescale) (\<lambda>shifts.
      and_then (shared_offset_millis timescales movie_timescale) (\<lambda>presentation_offset.
      and_then (collect_res (map (\<lambda>((t, e), shift). apply_edit t e shift) (zip parsed shifts))) (\<lambda>tracks.
        ok (tracks, presentation_offset)))))"

definition parse_metadata ::
    "(bytes \<Rightarrow> bytes) \<Rightarrow> metadata \<Rightarrow> source_identity \<Rightarrow> limits \<Rightarrow> media_index res" where
  "parse_metadata blake3 md identity l =
     and_then (validate_raw_moov (md_moov_bytes md)) (\<lambda>moov.
     if max_tracks l < length (rm_tracks moov)
     then fail (Unsupported (''track count '' @ decimal (length (rm_tracks moov))
       @ '' exceeds configured limit '' @ decimal (max_tracks l)))
     else
       and_then (track_source_of moov md) (\<lambda>source.
       and_then (collect_res (map (\<lambda>raw. parse_track raw (rm_movie_timescale moov) (md_len md) l source)
           (kept_tracks moov))) (\<lambda>parsed.
       and_then (apply_edits parsed (rm_movie_timescale moov)) (\<lambda>(edited, presentation_offset).
       and_then (if rm_fragmented moov then normalise_fragmented_timeline edited else ok edited) (\<lambda>timed.
       let tracks = assign_keys timed; (moov_hash, metadata_hash) = metadata_hashes blake3 md in
         ok \<lparr>mi_source = identity\<lparr>id_moov_hash := Some moov_hash, id_metadata_hash := Some metadata_hash\<rparr>,
             mi_movie_timescale = rm_movie_timescale moov,
             mi_duration = (if rm_movie_duration moov = 0 then movie_duration tracks (rm_movie_timescale moov)
               else rm_movie_duration moov),
             mi_presentation_offset_ms = presentation_offset, mi_tracks = tracks,
             mi_skipped_tracks = skipped_tracks_of moov,
             mi_fragmentation = (if rm_fragmented moov
               then Some \<lparr>fg_fragments = length (md_fragments md), fg_discovery = md_discovery md,
                 fg_dropped_tail = md_dropped md\<rparr> else None)\<rparr>)))))"

text \<open>
  Fetching and parsing a source.  Whether \<^verbatim>\<open>moov\<close> reads back the same, and whether the source is still the
  one that was opened, are answers of the source after the parse.
\<close>

record parsed_media =
  pm_index :: media_index
  pm_metadata :: metadata

definition parse_media ::
    "(bytes \<Rightarrow> bytes) \<Rightarrow> media_source \<Rightarrow> (nat \<Rightarrow> nat list) \<Rightarrow> source_identity \<Rightarrow> limits
       \<Rightarrow> bool res \<Rightarrow> unit res \<Rightarrow> parsed_media res" where
  "parse_media blake3 src order identity l matches verified =
     (if max_source_bytes l < ms_len src then fail (Unsupported ''source exceeds configured size limit'')
      else
        and_then (fetch src l order) (\<lambda>md.
        and_then (parse_metadata blake3 md identity l) (\<lambda>index.
        and_then verified (\<lambda>_.
        and_then matches (\<lambda>unchanged.
          if \<not> unchanged then fail (invalid_media ''moov changed while it was being parsed'')
          else ok \<lparr>pm_index = index, pm_metadata = md\<rparr>)))))"

end
