(* ===== verification/Movie_Parser_Laws.thy ===== *)
theory Movie_Parser_Laws
  imports Movie_Parser Fragment_Reader_Laws Source_Protection_Laws Sample_Tables_Properties Edit_Lists_Laws Codec_Laws
begin

text \<open>
  Each parser of the movie box returns, with a value or an error.  The one panic in the code that a file
  could ask for, of more subsamples than 32 bits count, needs more bytes of metadata than are ever read.
\<close>

section \<open>How many bytes the subsamples of a box take\<close>

lemma rd_take_remaining: "rd_take r n = ok (bs, r') \<Longrightarrow> rd_remaining r = n + rd_remaining r'"
  by (auto simp: rd_take_def rd_remaining_def and_then_eq_Inr split: option.splits if_splits)

lemma reads_remaining:
  "rd_skip r n = ok r' \<Longrightarrow> rd_remaining r = n + rd_remaining r'"
  "rd_u8 r = ok (b, r') \<Longrightarrow> rd_remaining r = 1 + rd_remaining r'"
  "rd_u16 r = ok (x, r') \<Longrightarrow> rd_remaining r = 2 + rd_remaining r'"
  "rd_u32 r = ok (x, r') \<Longrightarrow> rd_remaining r = 4 + rd_remaining r'"
  "rd_full_box_flags r = ok (b, f, r') \<Longrightarrow> rd_remaining r = 4 + rd_remaining r'"
  by (auto simp: rd_skip_def rd_u8_def rd_u16_def rd_u32_def rd_full_box_flags_def and_then_eq_Inr
      dest!: rd_take_remaining)

lemma remaining_new [simp]: "rd_remaining (reader_new data) = length data"
  by (simp add: rd_remaining_def reader_new_def)

lemma read_subsamples_bytes:
  "read_subsamples n subs r = ok (subs', r') \<Longrightarrow> 6 * length subs' + rd_remaining r' = 6 * length subs + rd_remaining r"
  by (induction n arbitrary: subs r) (fastforce simp: and_then_eq_Inr dest!: reads_remaining)+

lemma senc_entry_bytes:
  assumes "senc_entry sub (b, r) i = ok (b', r')"
  shows "6 * length (ab_subsamples b') + rd_remaining r' \<le> 6 * length (ab_subsamples b) + rd_remaining r"
  using assms
  by (fastforce simp: senc_entry_def and_then_eq_Inr split: if_splits
      dest!: rd_take_remaining reads_remaining read_subsamples_bytes)

lemma senc_entries_bytes:
  assumes "try_fold (senc_entry sub) (b, r) is = ok (b', r')"
  shows "6 * length (ab_subsamples b') + rd_remaining r' \<le> 6 * length (ab_subsamples b) + rd_remaining r"
proof -
  let ?m = "\<lambda>(b, r). 6 * length (ab_subsamples b) + rd_remaining r"
  have "?m (b', r') \<le> ?m (b, r)"
    by (rule try_fold_inv [OF _ _ assms, where P = "\<lambda>s. ?m s \<le> ?m (b, r)"])
      (auto dest!: senc_entry_bytes)
  then show ?thesis by simp
qed

lemma push_senc_bytes:
  assumes "push_senc t payload expected what b = ok b'"
  shows "6 * length (ab_subsamples b') \<le> 6 * length (ab_subsamples b) + length payload"
proof -
  obtain sub r b1 r1 where run: "try_fold (senc_entry sub) (b, r) [0..<expected] = ok (b1, r1)"
      "b' = b1\<lparr>ab_samples := ab_samples b1 + expected\<rparr>" "rd_remaining r \<le> length payload"
    using assms by (auto simp: push_senc_def and_then_eq_Inr split: if_splits option.splits dest!: reads_remaining)
  then show ?thesis using senc_entries_bytes [OF run(1)] by simp
qed

lemma child_payloads_fit:
  assumes "child_boxes data = ok cs"
  shows "sum_list (map (\<lambda>c. length (bx_payload c)) cs) \<le> length data"
proof -
  obtain spans where "data = concat spans" "list_all2 box_span cs spans"
    using child_boxes_tile [OF assms] by blast
  moreover have "list_all2 box_span cs spans \<Longrightarrow>
      sum_list (map (\<lambda>c. length (bx_payload c)) cs) \<le> length (concat spans)"
    by (induction cs spans rule: list_all2_induct) (auto simp: box_span_def suffix_def)
  ultimately show ?thesis by simp
qed

lemma filter_payloads_fit:
  "sum_list (map (\<lambda>c. length (bx_payload c)) (filter P cs)) \<le> sum_list (map (\<lambda>c. length (bx_payload c)) cs)"
  by (induction cs) auto

lemma find_found: "find P xs = Some x \<Longrightarrow> x \<in> set xs"
  by (auto simp: find_Some_iff)

lemma push_traf_bytes:
  assumes "push_traf t s b traf = ok b'"
  shows "6 * length (ab_subsamples b') \<le> 6 * length (ab_subsamples b) + length (bx_payload traf)"
  using assms
proof (cases rule: push_traf_cases)
  case (2 parts n)
  then consider senc where "senc \<in> set parts" "push_senc t (bx_payload senc) n ''the fragment'' b = ok b'"
    | "push_unlisted n b = ok b'"
    by (auto simp: push_traf_senc_def dest: find_found split: option.splits if_splits)
  then show ?thesis
  proof cases
    case (1 senc)
    show ?thesis using push_senc_bytes [OF 1(2)] child_payload_length [OF 2(1) 1(1)] by linarith
  qed (auto simp: push_unlisted_def and_then_eq_Inr)
qed simp

lemma fold_bytes:
  assumes "try_fold f b xs = ok b'"
    and "\<And>b x b'. f b x = ok b' \<Longrightarrow> 6 * length (ab_subsamples b') \<le> 6 * length (ab_subsamples b) + weight x"
  shows "6 * length (ab_subsamples b') \<le> 6 * length (ab_subsamples b) + sum_list (map weight xs)"
  using assms
proof (induction xs arbitrary: b)
  case (Cons x xs)
  obtain b1 where b1: "f b x = ok b1" "try_fold f b1 xs = ok b'" using Cons.prems(1) by (auto simp: and_then_eq_Inr)
  have "6 * length (ab_subsamples b1) \<le> 6 * length (ab_subsamples b) + weight x"
    by (rule Cons.prems(2) [OF b1(1)])
  moreover have "6 * length (ab_subsamples b') \<le> 6 * length (ab_subsamples b1) + sum_list (map weight xs)"
    by (rule Cons.IH [OF b1(2)]) (simp add: Cons.prems(2))
  ultimately show ?case by simp
qed simp

lemma push_fragment_bytes:
  assumes "push_fragment t s b fr = ok b'"
  shows "6 * length (ab_subsamples b') \<le> 6 * length (ab_subsamples b) + length (fr_bytes fr)"
proof -
  obtain moof cs where moof: "box_payload (fr_bytes fr) 0 = ok moof" "child_boxes (bx_payload moof) = ok cs"
      "try_fold (push_traf t s) b (filter (\<lambda>c. bx_name c = ascii ''traf'') cs) = ok b'"
    using assms by (auto simp: push_fragment_def and_then_eq_Inr)
  have "length (bx_payload moof) \<le> length (fr_bytes fr)" using box_payload_size [OF moof(1)] by simp
  moreover have "6 * length (ab_subsamples b') \<le> 6 * length (ab_subsamples b)
      + sum_list (map (\<lambda>c. length (bx_payload c)) (filter (\<lambda>c. bx_name c = ascii ''traf'') cs))"
    by (rule fold_bytes [OF moof(3)]) (rule push_traf_bytes)
  ultimately show ?thesis
    using child_payloads_fit [OF moof(2)]
      filter_payloads_fit [of "\<lambda>c. bx_name c = ascii ''traf''" cs] by linarith
qed

section \<open>Protection\<close>

lemma sinf_safe [safe_intros]: "safe (parse_sinf t payload)"
  by (auto simp: parse_sinf_def read_tenc_def sinf_of_def constant_iv_of_def intro!: safe_intros)

lemma read_subsamples_safe [safe_intros]: "safe (read_subsamples n subs r)"
  by (induction n arbitrary: subs r) (auto intro!: safe_intros)

lemma reserve_safe [safe_intros]: "safe (reserve n b)"
  by (auto simp: reserve_def split: option.split)

lemma push_senc_safe [safe_intros]: "safe (push_senc t payload expected what b)"
proof -
  have "safe (senc_entry sub s i)" for sub s i
    by (cases s) (auto simp: senc_entry_def intro!: safe_intros)
  then show ?thesis by (auto simp: push_senc_def intro!: safe_intros)
qed

lemma push_traf_safe [safe_intros]: "safe (push_traf t s b traf)"
  by (auto simp: push_traf_def push_traf_senc_def refuse_key_changes_def push_unlisted_def trun_samples_def
      intro!: safe_intros split: option.split)

lemma push_fragment_safe [safe_intros]: "safe (push_fragment t s b fr)"
  by (auto simp: push_fragment_def intro!: safe_intros)

lemma builder_finish_safe: "length (ab_subsamples b) < u32_limit \<Longrightarrow> safe (builder_finish b)"
  by (simp add: builder_finish_def u32_of_nat_def)

lemma read_protection_safe:
  assumes "length stbl < u32_limit"
  shows "safe (read_protection t s stbl n)"
proof -
  have "safe (builder_finish b)"
    if "optional_child stbl name = ok (Some senc)" "push_senc t (bx_payload senc) n what (builder_new iv n) = ok b"
    for name senc what iv b
    using push_senc_bytes [OF that(2)] child_found_length(1) [OF that(1)] assms
    by (intro builder_finish_safe) (simp add: builder_new_def)
  then show ?thesis
    by (auto simp: read_protection_def refuse_key_changes_def intro!: safe_intros split: option.split)
qed

lemma read_fragmented_protection_safe:
  assumes "sum_list (map (\<lambda>f. length (fr_bytes f)) fragments) < u32_limit"
  shows "safe (read_fragmented_protection t s stbl fragments n)"
proof -
  have "safe (builder_finish b)" if "try_fold (push_fragment t s) (builder_new iv n) fragments = ok b" for iv b
  proof (rule builder_finish_safe)
    have "6 * length (ab_subsamples b) \<le> 6 * length (ab_subsamples (builder_new iv n))
        + sum_list (map (\<lambda>f. length (fr_bytes f)) fragments)"
      by (rule fold_bytes [OF that]) (rule push_fragment_bytes)
    then show "length (ab_subsamples b) < u32_limit" using assms by (simp add: builder_new_def)
  qed
  then show ?thesis
    by (auto simp: read_fragmented_protection_def refuse_key_changes_def intro!: safe_intros)
qed

section \<open>The raw movie box\<close>

lemma timescale_and_duration_safe [safe_intros]: "safe (read_timescale_and_duration r v)"
  by (auto simp: read_timescale_and_duration_def intro!: safe_intros)

lemma sample_entry_safe [safe_intros]: "safe (stsd_entry_count stbl)" "safe (sample_entry_of stbl)" "safe (sample_count stbl)"
  by (auto simp: sample_entry_of_def stsd_entry_count_def sample_count_def declared_samples_def
      intro!: safe_intros split: option.split)

lemma entry_children_safe [safe_intros]: "safe (protected_entry_children name entry t)"
  by (auto simp: protected_entry_children_def intro!: safe_intros split: option.split)

lemma classify_safe [safe_intros]: "safe (classify_sample_description t h stbl)"
  by (auto simp: classify_sample_description_def intro!: safe_intros)

lemma data_reference_safe [safe_intros]: "safe (validate_data_reference minf)"
  by (auto simp: validate_data_reference_def intro!: safe_intros)

lemma raw_track_safe [safe_intros]: "safe (raw_track_of ts trak)"
  by (auto simp: raw_track_of_def track_id_in_def handler_type_def intro!: safe_intros)

lemma raw_moov_safe [safe_intros]: "safe (validate_raw_moov moov)"
  by (auto simp: validate_raw_moov_def intro!: safe_intros parse_defaults_safe split: option.split)

lemma raw_moov_timescale: "validate_raw_moov moov = ok m \<Longrightarrow> 0 < rm_movie_timescale m"
  by (auto simp: validate_raw_moov_def and_then_eq_Inr split: if_splits)

lemma raw_track_payload:
  "raw_track_of ts trak = ok ts' \<Longrightarrow> \<exists>r. ts' = ts @ [r] \<and> rt_trak r = bx_payload trak \<and> rt_id r \<notin> rt_id ` set ts"
  by (auto simp: raw_track_of_def and_then_eq_Inr split: if_splits)

lemma raw_tracks_distinct:
  assumes "validate_raw_moov moov = ok m"
  shows "distinct (map rt_id (rm_tracks m))" and "\<forall>r \<in> set (rm_tracks m). length (rt_trak r) \<le> length moov"
proof -
  obtain root cs where cs: "box_payload moov 0 = ok root" "child_boxes (bx_payload root) = ok cs"
      "try_fold raw_track_of [] (filter (\<lambda>c. bx_name c = ascii ''trak'') cs) = ok (rm_tracks m)"
    using assms by (auto simp: validate_raw_moov_def and_then_eq_Inr split: if_splits)
  have len: "length (bx_payload c) \<le> length moov" if "c \<in> set cs" for c
    using child_payload_length [OF cs(2) that] box_payload_size [OF cs(1)] by linarith
  have "distinct (map rt_id (rm_tracks m)) \<and> (\<forall>r \<in> set (rm_tracks m). length (rt_trak r) \<le> length moov)"
    by (rule try_fold_inv [OF _ _ cs(3)]) (auto dest!: raw_track_payload simp: len)
  then show "distinct (map rt_id (rm_tracks m))" "\<forall>r \<in> set (rm_tracks m). length (rt_trak r) \<le> length moov"
    by auto
qed

text \<open>
  What the parser of the movie box promises of every file: it never panics, and the index it returns is
  sound, track by track and as a whole.
\<close>

lemma map_ok_related: "map f xs = map ok ys \<Longrightarrow> list_all2 (\<lambda>x y. f x = ok y) xs ys"
  by (auto simp: list_all2_conv_all_nth list_eq_iff_nth_eq)

section \<open>One track\<close>

text \<open>A track that can be cut and served: it has samples, in order, inside the source.\<close>

definition track_sound :: "nat \<Rightarrow> track \<Rightarrow> bool" where
  "track_sound len t \<longleftrightarrow> index_valid (tr_samples t) \<and> index_samples (tr_samples t) \<noteq> []
     \<and> 0 < tr_timescale t \<and> (\<forall>x \<in> set (index_samples (tr_samples t)). sm_offset x + sm_size x \<le> len)"

text \<open>The bytes of metadata and the limits under which the widths of the code are enough.\<close>

definition source_small :: "track_source \<Rightarrow> bool" where
  "source_small source = (case source of Tables_Source \<Rightarrow> True
     | Fragments_Source fragments _ \<Rightarrow> sum_list (map (\<lambda>f. length (fr_bytes f)) fragments) < u32_limit)"

lemma samples_of_sound:
  assumes "length stbl < u64_limit" and "max_samples_per_track l \<le> u32_limit" and "len < u64_limit"
  shows "safe (samples_of raw stbl len l source)"
    and "samples_of raw stbl len l source = ok s \<Longrightarrow>
      index_valid s \<and> (\<forall>x \<in> set (index_samples s). sm_offset x + sm_size x \<le> len)"
proof -
  have tables: "safe (sample_index_of ts len l)
      \<and> (\<forall>s. sample_index_of ts len l = ok s \<longrightarrow>
          index_valid s \<and> (\<forall>x \<in> set (index_samples s). sm_offset x + sm_size x \<le> len))"
    if "stbl_wf ts" for ts
    using sample_index_sim [OF that, of len l] expand_samples_safe [of ts len l]
    by (cases rule: sim_cases) (auto simp: safe_def)
  have frags: "safe (from_samples xs)
      \<and> (\<forall>s. from_samples xs = ok s \<longrightarrow>
          index_valid s \<and> (\<forall>x \<in> set (index_samples s). sm_offset x + sm_size x \<le> len))"
    if "track_samples fs t d len l = ok xs" for fs t d xs
    using fragment_samples_indexed [OF assms(2,3), of fs t d] that iter_all_ok
    by (auto simp: safe_def index_valid_def)
  show "safe (samples_of raw stbl len l source)"
    unfolding samples_of_def
    using tables parse_sample_tables_wf parse_sample_tables_safe [OF assms(1)] frags track_samples_safe
    by (cases source) (auto simp: reject_mixed_def intro!: safe_intros)
  show "samples_of raw stbl len l source = ok s \<Longrightarrow>
      index_valid s \<and> (\<forall>x \<in> set (index_samples s). sm_offset x + sm_size x \<le> len)"
    unfolding samples_of_def
    using tables parse_sample_tables_wf frags
    by (cases source) (fastforce simp: and_then_eq_Inr)+
qed

lemma safe_if [safe_intros]: "(c \<Longrightarrow> safe a) \<Longrightarrow> (\<not> c \<Longrightarrow> safe b) \<Longrightarrow> safe (if c then a else b)"
  by simp

lemmas safe_steps = safe_if safe_and_then safe_simps children_safe

lemma media_header_safe [safe_intros]: "safe (parse_media_header payload t)"
  by (auto simp: parse_media_header_def intro!: safe_intros)

lemma sinf_of_entry_safe [safe_intros]: "safe (sinf_of_entry raw entry)"
  unfolding sinf_of_entry_def by (intro safe_steps entry_children_safe sinf_safe)

lemma codec_of_safe [safe_intros]: "safe (codec_of raw entry format)"
  unfolding codec_of_def Let_def by (intro safe_steps codec_parsers_safe parse_flac_safe)

lemma edit_list_safe [safe_intros]: "safe (parse_edit_list t v es ms ts)"
  unfolding parse_edit_list_def Let_def case_prod_beta by (intro safe_steps)

lemma elst_entry_safe [safe_intros]: "safe (elst_entry_at v s i)"
  by (cases s) (auto simp: elst_entry_at_def intro!: safe_intros)

lemma entry_count_safe [safe_intros]: "safe (rd_entry_count r n)"
  by (auto simp: rd_entry_count_def intro!: safe_intros)

lemma track_edit_safe [safe_intros]: "safe (track_edit_of raw ms ts)"
  by (auto simp: track_edit_of_def intro!: safe_intros split: option.split)

lemma source_protection_safe:
  assumes "length stbl < u32_limit" and "source_small source"
  shows "safe (source_protection_of raw sinf stbl source n)"
  using assms read_protection_safe read_fragmented_protection_safe
  by (cases source) (auto simp: source_protection_of_def source_small_def split: option.split)

lemma parse_track_safe:
  assumes "length (rt_trak raw) < u32_limit" and "max_samples_per_track l \<le> u32_limit" and "len < u64_limit"
    and "source_small source"
  shows "safe (parse_track raw ms len l source)"
proof -
  have "length (bx_payload stbl) < u32_limit"
    if "required_child (rt_trak raw) a = ok mdia" "required_child (bx_payload mdia) b = ok minf"
      "required_child (bx_payload minf) c = ok stbl" for a b c mdia minf stbl
    using child_found_length(2) [OF that(1)] child_found_length(2) [OF that(2)] child_found_length(2) [OF that(3)]
      assms(1) by linarith
  then have "safe (samples_of raw (bx_payload stbl) len l source)"
      "safe (source_protection_of raw sinf (bx_payload stbl) source n)"
    if "required_child (rt_trak raw) a = ok mdia" "required_child (bx_payload mdia) b = ok minf"
      "required_child (bx_payload minf) c = ok stbl" for a b c mdia minf stbl sinf n
    using that samples_of_sound(1) [OF _ assms(2,3)] source_protection_safe [OF _ assms(4)] by fastforce+
  then show ?thesis
    unfolding parse_track_def Let_def
    by (intro safe_steps media_header_safe sample_entry_safe sinf_of_entry_safe codec_of_safe track_edit_safe)
qed

lemma media_header_timescale: "parse_media_header payload t = ok h \<Longrightarrow> 0 < mh_timescale h"
  by (auto simp: parse_media_header_def and_then_eq_Inr split: if_splits)

lemma parse_track_sound:
  assumes "parse_track raw ms len l source = ok (t, e)"
    and "length (rt_trak raw) < u32_limit" and "max_samples_per_track l \<le> u32_limit" and "len < u64_limit"
  shows "track_sound len t" and "tr_id t = rt_id raw" and "tr_timeline_shift t = 0"
proof -
  obtain mdia minf stbl header samples where parts:
      "required_child (rt_trak raw) (ascii ''mdia'') = ok mdia"
      "required_child (bx_payload mdia) (ascii ''minf'') = ok minf"
      "required_child (bx_payload minf) (ascii ''stbl'') = ok stbl"
      "samples_of raw (bx_payload stbl) len l source = ok samples" "\<not> index_is_empty samples"
      "tr_samples t = samples" "0 < tr_timescale t" "tr_id t = rt_id raw" "tr_timeline_shift t = 0"
    using assms(1) media_header_timescale unfolding parse_track_def
    by (auto simp: and_then_eq_Inr Let_def split: if_splits)
  have "length (bx_payload stbl) < u64_limit"
    using child_found_length(2) [OF parts(1)] child_found_length(2) [OF parts(2)] child_found_length(2) [OF parts(3)]
      assms(2) by linarith
  then have "index_valid samples \<and> (\<forall>x \<in> set (index_samples samples). sm_offset x + sm_size x \<le> len)"
    using samples_of_sound(2) [OF _ assms(3,4) parts(4)] by blast
  then show "track_sound len t" "tr_id t = rt_id raw" "tr_timeline_shift t = 0"
    using parts index_is_empty_iff by (auto simp: track_sound_def index_valid_def)
qed

section \<open>The edits of all tracks\<close>

lemma shared_offset_denominator:
  assumes "0 < movie" and "\<forall>(e, timescale) \<in> set edits. 0 < timescale"
  shows "0 < snd (shared_offset edits movie)"
proof -
  have "0 < snd (foldl (shared_step movie) (n, d) edits)" if "0 < d" for n d
    using assms(2) that
  proof (induction edits arbitrary: n d)
    case (Cons x edits)
    obtain n' d' where step: "shared_step movie (n, d) x = (n', d')" by (cases "shared_step movie (n, d) x")
    have "0 < d'"
      using step Cons.prems assms(1) by (cases x) (auto simp: shared_step_def split: if_splits)
    then show ?case using Cons.IH [of d' n'] Cons.prems(1) step by simp
  qed simp
  then show ?thesis by (simp add: shared_offset_def)
qed

lemma edits_safe:
  assumes "0 < movie" and "\<forall>(e, timescale) \<in> set edits. 0 < timescale"
  shows "safe (timeline_shifts edits movie)" and "safe (shared_offset_millis edits movie)"
proof -
  obtain n d where nd: "shared_offset edits movie = (n, d)" by (cases "shared_offset edits movie")
  then have "0 < d" using shared_offset_denominator [OF assms] by simp
  then show "safe (timeline_shifts edits movie)" "safe (shared_offset_millis edits movie)"
    using assms(1) nd
    by (auto simp: timeline_shifts_def shared_offset_millis_def timeline_shift_def intro!: safe_collect)
qed

lemma apply_edit_safe:
  assumes "index_valid (tr_samples t)"
  shows "safe (apply_edit t e shift)"
proof -
  have "safe (spec_apply t e shift)" unfolding spec_apply_def Let_def by (intro safe_steps)
  then show ?thesis using apply_edit_sim [OF assms, of e shift]
    by (cases "apply_edit t e shift"; cases "spec_apply t e shift") (auto simp: safe_def)
qed

lemma set_spec_edited: "x \<in> set (spec_edited kind e xs) \<Longrightarrow> x \<in> set xs"
  by (auto simp: spec_edited_def spec_trim_def dest!: set_dropWhileD set_takeWhileD split: if_splits option.splits)

lemma apply_edit_sound:
  assumes "track_sound len t" and "apply_edit t e shift = ok t'"
  shows "track_sound len t'" and "tr_id t' = tr_id t" and "tr_kind t' = tr_kind t"
proof -
  have valid: "index_valid (tr_samples t)" using assms(1) by (simp add: track_sound_def)
  obtain ys where ys: "spec_apply t e shift = ok ys" "applied t e shift t' ys"
    using apply_edit_sim [OF valid, of e shift] assms(2) by (cases rule: sim_cases) auto
  obtain s where s: "index_valid s" "index_samples s = ys" "tr_samples t' = s" "tr_timescale t' = tr_timescale t"
      "tr_id t' = tr_id t" "tr_kind t' = tr_kind t"
    using ys(2) by (auto simp: applied_def same_but_samples_def)
  have "ys \<noteq> [] \<and> (\<forall>y \<in> set ys. \<exists>x \<in> set (index_samples (tr_samples t)).
      sm_offset y = sm_offset x \<and> sm_size y = sm_size x)"
    using ys(1) assms(1)
    by (auto simp: spec_apply_def track_sound_def shift_sample_def dest!: set_spec_edited split: if_splits) blast+
  then show "track_sound len t'" using assms(1) s by (fastforce simp: track_sound_def)
  show "tr_id t' = tr_id t" "tr_kind t' = tr_kind t" by fact+
qed

lemma apply_edits_safe:
  assumes "0 < movie" and "\<forall>(t, e) \<in> set parsed. track_sound len t"
  shows "safe (apply_edits parsed movie)"
proof -
  have scales: "\<forall>(e, timescale) \<in> set (map (\<lambda>(t, e). (e, tr_timescale t)) parsed). 0 < timescale"
    using assms(2) by (auto simp: track_sound_def)
  have "safe (apply_edit t e shift)" if "((t, e), shift) \<in> set (zip parsed shifts)" for t e shift shifts
    using assms(2) set_zip_leftD [OF that] by (intro apply_edit_safe) (auto simp: track_sound_def)
  then show ?thesis
    using edits_safe [OF assms(1) scales]
    unfolding apply_edits_def Let_def by (intro safe_steps safe_collect) auto
qed

lemma apply_edits_sound:
  assumes "apply_edits parsed movie = ok (tracks, offset)" and "\<forall>(t, e) \<in> set parsed. track_sound len t"
  shows "\<forall>t \<in> set tracks. track_sound len t" and "map tr_id tracks = map (tr_id \<circ> fst) parsed"
proof -
  obtain shifts where shifts: "timeline_shifts (map (\<lambda>(t, e). (e, tr_timescale t)) parsed) movie = ok shifts"
      "map (\<lambda>((t, e), shift). apply_edit t e shift) (zip parsed shifts) = map ok tracks"
    using assms(1) by (auto simp: apply_edits_def and_then_eq_Inr collect_res_eq_Inr)
  have len: "length shifts = length parsed"
    using shifts(1) by (auto simp: timeline_shifts_def collect_res_eq_Inr dest: map_eq_imp_length_eq)
  have "length tracks = length parsed"
    using arg_cong [OF shifts(2), of length] len by simp
  moreover have "track_sound len (tracks ! i) \<and> tr_id (tracks ! i) = tr_id (fst (parsed ! i))" if "i < length parsed" for i
  proof -
    have "apply_edit (fst (parsed ! i)) (snd (parsed ! i)) (shifts ! i) = ok (tracks ! i)"
      using arg_cong [OF shifts(2), of "\<lambda>xs. xs ! i"] that len calculation by (simp add: case_prod_beta)
    moreover have "track_sound len (fst (parsed ! i))" using assms(2) nth_mem [OF that] by (auto simp: case_prod_beta)
    ultimately show ?thesis using apply_edit_sound by blast
  qed
  ultimately show "\<forall>t \<in> set tracks. track_sound len t" "map tr_id tracks = map (tr_id \<circ> fst) parsed"
    by (auto simp: all_set_conv_all_nth intro: nth_equalityI)
qed

section \<open>The timeline of a fragmented file\<close>

lemma index_shifted_safe:
  assumes "index_valid s"
  shows "safe (index_shifted s delta m)"
  using index_first_ok [OF index_validD [OF assms]] index_last_ok [OF index_validD [OF assms]]
  unfolding index_shifted_def by (auto simp: safe_def last_opt_def and_then_eq_Inl ok_or_def split: option.splits if_splits)

lemma index_shifted_valid:
  assumes "index_valid s" and "index_shifted s delta m = ok s'"
  shows "index_valid s'" and "index_samples s' = map (shift_sample delta) (index_samples s)"
  using assms index_shifted_samples [OF index_validD [OF assms(1)] assms(2)]
  by (auto simp: index_valid_def intro: inv_intros)

definition first_ticks :: "track \<Rightarrow> nat" where
  "first_ticks t = sm_decode_time (hd (index_samples (tr_samples t)))"

lemma first_times_eq:
  assumes "\<forall>t \<in> set tracks. track_sound len t"
  shows "first_times tracks = ok (map (\<lambda>t. (first_ticks t, tr_timescale t)) tracks)"
proof -
  have "and_then (index_first (tr_samples t)) (\<lambda>s. ok (map_option (\<lambda>x. (sm_decode_time x, tr_timescale t)) s))
      = ok (Some (first_ticks t, tr_timescale t))" if "t \<in> set tracks" for t
    using assms that index_first_ok [of "tr_samples t"]
    by (auto simp: track_sound_def index_valid_def first_ticks_def)
  then have each: "map (\<lambda>t. and_then (index_first (tr_samples t)) (\<lambda>s. ok (map_option (\<lambda>x. (sm_decode_time x, tr_timescale t)) s))) tracks
      = map (\<lambda>t. ok (Some (first_ticks t, tr_timescale t))) tracks"
    by (intro map_cong) auto
  have "List.map_filter (\<lambda>x. x) (map (\<lambda>t. Some (first_ticks t, tr_timescale t)) ts)
      = map (\<lambda>t. (first_ticks t, tr_timescale t)) ts" for ts
    by (induction ts) (auto simp: List.map_filter_simps)
  then show ?thesis unfolding first_times_def each by simp
qed

lemma ratio_trans:
  fixes a b c d e f :: nat
  assumes "a * b \<le> c * d" and "c * e \<le> f * b" and "0 < b"
  shows "a * e \<le> f * d"
proof -
  have "a * e * b \<le> c * d * e" using mult_right_mono [OF assms(1), of e] by (simp add: ac_simps)
  also have "\<dots> \<le> f * d * b" using mult_right_mono [OF assms(2), of d] by (simp add: ac_simps)
  finally show ?thesis using assms(3) by simp
qed

lemma earliest_is_least:
  assumes "earliest_of xs = Some best" and "\<forall>x \<in> set xs. 0 < snd x"
  shows "best \<in> set xs" and "\<forall>x \<in> set xs. fst best * snd x \<le> fst x * snd best"
proof -
  have "foldl earlier b rest \<in> set (b # rest)
      \<and> (\<forall>x \<in> set (b # rest). fst (foldl earlier b rest) * snd x \<le> fst x * snd (foldl earlier b rest))"
    if "\<forall>x \<in> set (b # rest). 0 < snd x" for b rest
    using that
  proof (induction rest arbitrary: b)
    case (Cons y rest)
    let ?e = "earlier b y" and ?m = "foldl earlier (earlier b y) rest"
    have pos: "0 < snd ?e" using Cons.prems by (auto simp: earlier_def)
    then have IH: "?m \<in> set (?e # rest)" "\<forall>x \<in> set (?e # rest). fst ?m * snd x \<le> fst x * snd ?m"
      using Cons.IH [of ?e] Cons.prems by auto
    note pos
    moreover have "fst ?e * snd x \<le> fst x * snd ?e" if "x = b \<or> x = y" for x
      using that by (auto simp: earlier_def not_less)
    moreover have "fst ?m * snd ?e \<le> fst ?e * snd ?m" using IH(2) by simp
    ultimately have "fst ?m * snd x \<le> fst x * snd ?m" if "x = b \<or> x = y" for x
      using that ratio_trans [of "fst ?m" "snd ?e" "fst ?e" "snd ?m" "snd x" "fst x"] by blast
    moreover have "?e = b \<or> ?e = y" by (simp add: earlier_def)
    ultimately show ?case using IH by auto
  qed simp
  then show "best \<in> set xs" "\<forall>x \<in> set xs. fst best * snd x \<le> fst x * snd best"
    using assms by (auto simp: earliest_of_def split: list.splits)
qed

text \<open>The origin that all tracks get, in the ticks of one with the given timescale.\<close>

definition origin_ticks :: "track \<Rightarrow> track \<Rightarrow> nat" where
  "origin_ticks e t = first_ticks e * tr_timescale t div tr_timescale e"

definition is_earliest :: "track list \<Rightarrow> track \<Rightarrow> bool" where
  "is_earliest tracks e \<longleftrightarrow> e \<in> set tracks
     \<and> (\<forall>t \<in> set tracks. first_ticks e * tr_timescale t \<le> first_ticks t * tr_timescale e)"

lemma shift_to_origin_eq:
  assumes "track_sound len t" and "tr_timescale e \<noteq> 0"
    and "shift_to_origin (first_ticks e, tr_timescale e) t = ok t'"
  shows "index_samples (tr_samples t') = map (shift_sample (- int (origin_ticks e t))) (index_samples (tr_samples t))"
    and "tr_duration t' = last_end (index_samples (tr_samples t'))" and "track_sound len t'"
    and "tr_id t' = tr_id t" and "tr_timescale t' = tr_timescale t" and "tr_kind t' = tr_kind t"
    and "origin_ticks e t \<le> first_ticks t"
proof -
  have valid: "index_valid (tr_samples t)" and some: "index_samples (tr_samples t) \<noteq> []"
    using assms(1) by (auto simp: track_sound_def)
  obtain s l where s: "index_shifted (tr_samples t) (- int (origin_ticks e t)) ''timeline origin overflow'' = ok s"
      "index_last s = ok (Some l)" "sm_decode_time l + sm_duration l < u64_limit"
      "t' = t\<lparr>tr_samples := s, tr_duration := sm_decode_time l + sm_duration l\<rparr>"
    using assms(2,3) by (auto simp: shift_to_origin_def origin_ticks_def and_then_eq_Inr split: if_splits)
  note s' = index_shifted_valid [OF valid s(1)]
  have "l = last (index_samples s)"
    using s(2) index_last_ok [OF index_validD [OF s'(1)]] by (auto simp: last_opt_def split: if_splits)
  then show "tr_duration t' = last_end (index_samples (tr_samples t'))" using s(4) by (simp add: last_end_def)
  show "index_samples (tr_samples t') = map (shift_sample (- int (origin_ticks e t))) (index_samples (tr_samples t))"
    using s(4) s'(2) by simp
  show "track_sound len t'" using assms(1) s(4) s' by (auto simp: track_sound_def shift_sample_def)
  show "tr_id t' = tr_id t" "tr_timescale t' = tr_timescale t" "tr_kind t' = tr_kind t" using s(4) by simp_all
  show "origin_ticks e t \<le> first_ticks t"
    using s(1) some index_shifted_eq_Inr [OF index_validD [OF valid]] by (auto simp: first_ticks_def)
qed

lemma shift_to_origin_safe:
  assumes "track_sound len t" and "snd earliest \<noteq> 0"
  shows "safe (shift_to_origin earliest t)"
proof -
  have "safe (index_last s)" if "index_shifted (tr_samples t) d m = ok s" for s d m
    using index_last_ok [OF index_validD [OF index_shifted_valid(1) [OF _ that]]] assms(1)
    by (simp add: track_sound_def)
  then show ?thesis
    using assms index_shifted_safe [of "tr_samples t"]
    unfolding shift_to_origin_def by (intro safe_steps) (auto simp: track_sound_def)
qed

lemma normalise_earliest:
  assumes "\<forall>t \<in> set tracks. track_sound len t" and "tracks \<noteq> []"
  shows "\<exists>e. is_earliest tracks e \<and> normalise_fragmented_timeline tracks
      = collect_res (map (shift_to_origin (first_ticks e, tr_timescale e)) tracks)"
proof -
  let ?times = "map (\<lambda>t. (first_ticks t, tr_timescale t)) tracks"
  obtain best where best: "earliest_of ?times = Some best"
    using assms(2) by (cases tracks) (auto simp: earliest_of_def)
  have "\<forall>x \<in> set ?times. 0 < snd x" using assms(1) by (auto simp: track_sound_def)
  note least = earliest_is_least [OF best this]
  obtain e where "e \<in> set tracks" "best = (first_ticks e, tr_timescale e)" using least(1) by auto
  then show ?thesis
    using least(2) first_times_eq [OF assms(1)] best
    by (intro exI [of _ e]) (auto simp: is_earliest_def normalise_fragmented_timeline_def)
qed

lemma normalise_safe:
  assumes "\<forall>t \<in> set tracks. track_sound len t"
  shows "safe (normalise_fragmented_timeline tracks)"
proof (cases "tracks = []")
  case False
  then obtain e where e: "is_earliest tracks e" "normalise_fragmented_timeline tracks
      = collect_res (map (shift_to_origin (first_ticks e, tr_timescale e)) tracks)"
    using normalise_earliest [OF assms] by blast
  have "tr_timescale e \<noteq> 0" using e(1) assms by (auto simp: is_earliest_def track_sound_def)
  then have "safe (shift_to_origin (first_ticks e, tr_timescale e) t)" if "t \<in> set tracks" for t
    using shift_to_origin_safe assms that by (metis snd_conv)
  then show ?thesis using e(2) by (auto intro!: safe_collect)
qed (simp add: normalise_fragmented_timeline_def first_times_def earliest_of_def)

lemma normalise_sound:
  assumes "\<forall>t \<in> set tracks. track_sound len t" and "normalise_fragmented_timeline tracks = ok tracks'"
  shows "\<forall>t \<in> set tracks'. track_sound len t" and "map tr_id tracks' = map tr_id tracks"
proof -
  have "(\<forall>t \<in> set tracks'. track_sound len t) \<and> map tr_id tracks' = map tr_id tracks"
  proof (cases "tracks = []")
    case True
    then show ?thesis using assms(2) by (simp add: normalise_fragmented_timeline_def first_times_def earliest_of_def)
  next
    case False
    then obtain e where e: "is_earliest tracks e"
        "map (shift_to_origin (first_ticks e, tr_timescale e)) tracks = map ok tracks'"
      using normalise_earliest [OF assms(1)] assms(2) collect_res_eq_Inr by metis
    have scale: "tr_timescale e \<noteq> 0" using e(1) assms(1) by (auto simp: is_earliest_def track_sound_def)
    have "list_all2 (\<lambda>t t'. track_sound len t' \<and> tr_id t' = tr_id t) tracks tracks'"
      by (rule list.rel_mono_strong [OF map_ok_related [OF e(2)]])
        (use assms(1) shift_to_origin_eq(3,4) [OF _ scale] in blast)
    then show ?thesis by (induction rule: list_all2_induct) auto
  qed
  then show "\<forall>t \<in> set tracks'. track_sound len t" "map tr_id tracks' = map tr_id tracks" by auto
qed

section \<open>The index of a file\<close>

lemma assign_keys_from_same:
  "map (\<lambda>t. t\<lparr>tr_key := k\<rparr>) (assign_keys_from n tracks) = map (\<lambda>t. t\<lparr>tr_key := k\<rparr>) tracks"
  by (induction n tracks rule: assign_keys_from.induct) (auto split: track_kind.split)

lemma assign_keys_sound:
  "(\<forall>t \<in> set (assign_keys tracks). track_sound len t) \<longleftrightarrow> (\<forall>t \<in> set tracks. track_sound len t)"
  "map tr_id (assign_keys tracks) = map tr_id tracks"
proof -
  let ?k = "map (\<lambda>t. t\<lparr>tr_key := VIDEO_KEY\<rparr>)"
  have same: "?k (assign_keys tracks) = ?k tracks" by (simp add: assign_keys_def assign_keys_from_same)
  have sound: "(\<forall>t \<in> set ts. track_sound len t) \<longleftrightarrow> (\<forall>t \<in> set (?k ts). track_sound len t)" for ts
    by (simp add: track_sound_def)
  show "(\<forall>t \<in> set (assign_keys tracks). track_sound len t) \<longleftrightarrow> (\<forall>t \<in> set tracks. track_sound len t)"
    unfolding sound [of "assign_keys tracks"] sound [of tracks] same by simp
  have id_of: "map tr_id ts = map tr_id (?k ts)" for ts by simp
  show "map tr_id (assign_keys tracks) = map tr_id tracks"
    using id_of [of "assign_keys tracks"] id_of [of tracks] same by simp
qed

lemma audio_keys:
  assumes "n + length tracks < u16_limit"
  shows "map tr_key (filter (\<lambda>t. tr_kind t = Audio) (assign_keys_from n tracks))
    = map (\<lambda>i. audio_key (Suc (n + i))) [0..<length (filter (\<lambda>t. tr_kind t = Audio) tracks)]"
  using assms
proof (induction n tracks rule: assign_keys_from.induct)
  case (2 n t ts)
  show ?case
  proof (cases "tr_kind t")
    case Audio
    then have "min (n + 1) (u16_limit - 1) = Suc n" using 2(3) by simp
    then show ?thesis
      using 2 Audio by (simp add: upt_conv_Cons map_Suc_upt [symmetric] comp_def del: upt_Suc)
  next
    case Video
    then show ?thesis using 2 by simp
  qed
qed simp

definition metadata_small :: "metadata \<Rightarrow> bool" where
  "metadata_small md \<longleftrightarrow> length (md_moov_bytes md) < u32_limit \<and> md_len md < u64_limit
     \<and> sum_list (map (\<lambda>f. length (fr_bytes f)) (md_fragments md)) < u32_limit"

lemma track_source_small: "metadata_small md \<Longrightarrow> track_source_of moov md = ok source \<Longrightarrow> source_small source"
  by (auto simp: track_source_of_def metadata_small_def source_small_def split: if_splits)

lemma kept_payload:
  assumes "validate_raw_moov moov = ok m" and "raw \<in> set (kept_tracks m)" and "length moov < u32_limit"
  shows "length (rt_trak raw) < u32_limit"
  using raw_tracks_distinct(2) [OF assms(1)] assms(2,3) by (auto simp: kept_tracks_def)

lemma parsed_tracks_sound:
  assumes "collect_res (map (\<lambda>raw. parse_track raw ms len l source) raws) = ok parsed"
    and "\<forall>raw \<in> set raws. length (rt_trak raw) < u32_limit" and "max_samples_per_track l \<le> u32_limit" and "len < u64_limit"
  shows "\<forall>(t, e) \<in> set parsed. track_sound len t" and "map (tr_id \<circ> fst) parsed = map rt_id raws"
proof -
  have "list_all2 (\<lambda>raw x. track_sound len (fst x) \<and> tr_id (fst x) = rt_id raw) raws parsed"
    by (rule list.rel_mono_strong [OF map_ok_related [OF iffD1 [OF collect_res_eq_Inr assms(1)]]])
      (use parse_track_sound(1,2) [OF _ _ assms(3,4)] assms(2) in force)
  then show "\<forall>(t, e) \<in> set parsed. track_sound len t" "map (tr_id \<circ> fst) parsed = map rt_id raws"
    by (induction rule: list_all2_induct) auto
qed

lemma timed_safe:
  assumes "apply_edits parsed movie = ok (edited, off)" and "\<forall>(t, e) \<in> set parsed. track_sound len t"
  shows "safe (normalise_fragmented_timeline edited)"
  by (rule normalise_safe [OF apply_edits_sound(1) [OF assms]])

lemma parse_metadata_safe:
  assumes "metadata_small md" and "max_samples_per_track l \<le> u32_limit"
  shows "safe (parse_metadata blake3 md identity l)"
proof -
  have len: "md_len md < u64_limit" "length (md_moov_bytes md) < u32_limit"
    using assms(1) by (simp_all add: metadata_small_def)
  have one: "safe (parse_track raw (rm_movie_timescale moov) (md_len md) l source)"
    if "validate_raw_moov (md_moov_bytes md) = ok moov" "track_source_of moov md = ok source" "raw \<in> set (kept_tracks moov)"
    for moov source raw
    using parse_track_safe [OF kept_payload [OF that(1,3) len(2)] assms(2) len(1) track_source_small [OF assms(1) that(2)]] .
  have sound: "\<forall>(t, e) \<in> set parsed. track_sound (md_len md) t"
    if "validate_raw_moov (md_moov_bytes md) = ok moov"
      "collect_res (map (\<lambda>raw. parse_track raw (rm_movie_timescale moov) (md_len md) l source) (kept_tracks moov)) = ok parsed"
    for moov source parsed
    using parsed_tracks_sound(1) [OF that(2) _ assms(2) len(1)] kept_payload [OF that(1) _ len(2)] by blast
  show ?thesis
    unfolding parse_metadata_def Let_def case_prod_beta
    by (intro safe_steps raw_moov_safe safe_collect)
      (auto simp: track_source_of_def one sound intro!: apply_edits_safe [OF _ sound] one timed_safe [OF _ sound] dest: raw_moov_timescale)
qed

end
