(* ===== verification/Init_Laws.thy ===== *)
theory Init_Laws
  imports Init_Segments Movie_Parser_Laws Reader_Back Key_Laws Fragment_Writer_Laws
begin

text \<open>
  An init segment is a movie: the parser of source files reads it, and finds the tracks that were asked
  for, with their handlers and sample descriptions, no samples, and what protects them.
\<close>

section \<open>Boxes rewritten one by one\<close>

lemma init_write_box_eq_Inr:
  "init_write_box out name payload = ok r \<longleftrightarrow> length payload + 8 < u32_limit \<and> r = out @ box_bytes name payload"
  by (auto simp: init_write_box_def box_bytes_def and_then_eq_Inr Option.bind_eq_Some_conv)

lemma init_write_box_ok: "length payload + 8 < u32_limit \<Longrightarrow> init_write_box out name payload = ok (out @ box_bytes name payload)"
  by (simp add: init_write_box_eq_Inr)

lemma init_write_box_safe [safe_intros]: "safe (init_write_box out name payload)"
  unfolding init_write_box_def by (intro safe_steps)

lemma box_name_length:
  assumes "box_payload data offset = ok b"
  shows "length (bx_name b) = 4"
proof -
  obtain header where "8 \<le> header" "header \<le> bx_size b" "offset + bx_size b \<le> length data"
      "bx_name b = subslice data (offset + 4) (offset + 8)"
    using box_payload_ok [OF assms] by blast
  then show ?thesis by simp
qed

lemma child_name_length: "child_boxes data = ok cs \<Longrightarrow> c \<in> set cs \<Longrightarrow> length (bx_name c) = 4"
proof (induction data arbitrary: cs rule: child_boxes.induct)
  case (1 data)
  then show ?case
    by (cases "data = []") (fastforce simp: child_boxes_step and_then_eq_Inr dest: box_name_length)+
qed

lemma rewrite_children:
  assumes "child_boxes data = ok cs" and "length out < u64_limit"
    and "try_fold (\<lambda>acc c. and_then (g c) (init_write_box acc (bx_name c))) [] cs = ok out"
  shows "\<exists>cs'. child_boxes out = ok cs' \<and> list_all2 (\<lambda>c c'. bx_name c' = bx_name c \<and> g c = ok (bx_payload c')) cs cs'"
proof -
  have names: "\<forall>c \<in> set cs. length (bx_name c) = 4" using child_name_length [OF assms(1)] by blast
  have "\<exists>ps. list_all2 (\<lambda>c b. fst b = bx_name c \<and> g c = ok (snd b)) cs ps \<and> (\<forall>b \<in> set ps. boxable b)
      \<and> out = start @ concat (map (\<lambda>(n, p). box_bytes n p) ps)"
    if "try_fold (\<lambda>acc c. and_then (g c) (init_write_box acc (bx_name c))) start cs = ok out" for start
    using that names
  proof (induction cs arbitrary: start)
    case Nil
    then show ?case by simp
  next
    case (Cons c cs)
    obtain p where p: "g c = ok p" "length p + 8 < u32_limit"
        "try_fold (\<lambda>acc c. and_then (g c) (init_write_box acc (bx_name c))) (start @ box_bytes (bx_name c) p) cs = ok out"
      using Cons.prems(1) by (auto simp: and_then_eq_Inr init_write_box_eq_Inr)
    obtain ps where "list_all2 (\<lambda>c b. fst b = bx_name c \<and> g c = ok (snd b)) cs ps" "\<forall>b \<in> set ps. boxable b"
        "out = (start @ box_bytes (bx_name c) p) @ concat (map (\<lambda>(n, p). box_bytes n p) ps)"
      using Cons.IH [OF p(3)] Cons.prems(2) by auto
    then show ?case using p Cons.prems(2) by (intro exI [of _ "(bx_name c, p) # ps"]) simp
  qed
  from this [OF assms(3)] obtain ps where ps: "list_all2 (\<lambda>c b. fst b = bx_name c \<and> g c = ok (snd b)) cs ps"
      "\<forall>b \<in> set ps. boxable b" "out = concat (map (\<lambda>(n, p). box_bytes n p) ps)"
    by auto
  have "child_boxes out = ok (map written ps)" using child_boxes_written [OF ps(2)] ps(3) assms(2) by simp
  moreover have "list_all2 (\<lambda>c c'. bx_name c' = bx_name c \<and> g c = ok (bx_payload c')) cs (map written ps)"
    using ps(1) by (auto simp: list_all2_conv_all_nth written_def case_prod_beta)
  ultimately show ?thesis by blast
qed

lemma find_related:
  "list_all2 R xs ys \<Longrightarrow> (\<And>x y. R x y \<Longrightarrow> P x = Q y) \<Longrightarrow>
     rel_option R (find P xs) (find Q ys)"
  by (induction xs ys rule: list_all2_induct) auto

lemma rewritten_child:
  assumes "child_boxes data = ok cs" and "length out < u64_limit"
    and "try_fold (\<lambda>acc c. and_then (g c) (init_write_box acc (bx_name c))) [] cs = ok out"
    and "required_child data n = ok c"
  shows "\<exists>c'. required_child out n = ok c' \<and> g c = ok (bx_payload c') \<and> bx_name c = n"
proof -
  obtain cs' where cs': "child_boxes out = ok cs'"
      "list_all2 (\<lambda>c c'. bx_name c' = bx_name c \<and> g c = ok (bx_payload c')) cs cs'"
    using rewrite_children [OF assms(1-3)] by blast
  have found: "find (\<lambda>c. bx_name c = n) cs = Some c"
    using assms(1,4) by (auto simp: required_child_def optional_child_def and_then_eq_Inr)
  have "rel_option (\<lambda>c c'. bx_name c' = bx_name c \<and> g c = ok (bx_payload c'))
      (find (\<lambda>c. bx_name c = n) cs) (find (\<lambda>c. bx_name c = n) cs')"
    by (rule find_related [OF cs'(2)]) simp
  then obtain c' where "find (\<lambda>c. bx_name c = n) cs' = Some c'" "g c = ok (bx_payload c')"
    using found by (auto simp: option_rel_Some1)
  then show ?thesis using cs'(1) found by (auto simp: required_child_def optional_child_def find_Some_iff)
qed

text \<open>A child of boxes that were written one after another.\<close>

lemma written_child:
  assumes "\<forall>b \<in> set bs. boxable b" and "length (concat (map (\<lambda>(n, p). box_bytes n p) bs)) < u64_limit"
    and "map_of bs n = Some p"
  shows "required_child (concat (map (\<lambda>(n, p). box_bytes n p) bs)) n = ok (written (n, p))"
proof -
  have "find (\<lambda>c. bx_name c = n) (map written bs) = Some (written (n, p))"
    using assms(3) by (induction bs) (auto split: if_splits)
  then show ?thesis using child_boxes_written [OF assms(1,2)] by (simp add: required_child_def optional_child_def)
qed

section \<open>The protection that is declared is read back\<close>

lemma pattern_byte:
  fixes c s :: byte
  assumes "c < 16" and "s < 16"
  shows "drop_bit 4 (or (push_bit 4 c) (and s 0x0f)) = c" and "and (or (push_bit 4 c) (and s 0x0f)) 0x0f = s"
proof -
  have small: "take_bit 4 c = c" "take_bit 4 s = s"
    using assms by (simp_all add: word_unat_eq_iff unsigned_take_bit_eq take_bit_nat_eq_self_iff word_less_nat_alt)
  have fifteen: "(0x0f :: byte) = mask 4" by (simp add: mask_eq_exp_minus_1)
  show "drop_bit 4 (or (push_bit 4 c) (and s 0x0f)) = c"
  proof (rule bit_word_eqI)
    fix n assume "n < LENGTH(8)"
    show "bit (drop_bit 4 (or (push_bit 4 c) (and s 0x0f))) n = bit c n"
      unfolding fifteen by (subst small(1) [symmetric]) (auto simp: bit_simps)
  qed
  show "and (or (push_bit 4 c) (and s 0x0f)) 0x0f = s"
  proof (rule bit_word_eqI)
    fix n assume "n < LENGTH(8)"
    show "bit (and (or (push_bit 4 c) (and s 0x0f)) 0x0f) n = bit s n"
      unfolding fifteen by (subst (2) small(2) [symmetric]) (auto simp: bit_simps)
  qed
qed

lemma byte_back:
  assumes "at_rest r (b # rest)"
  obtains r' where "rd_u8 r = ok (b, r')" "at_rest r' rest"
proof -
  have "at_rest r ([b] @ rest)" using assms by simp
  then obtain r' where r': "rd_take r 1 = ok ([b], r')" "at_rest r' rest"
    by (rule take_back [where n = 1]) simp
  show thesis by (rule that [OF _ r'(2)]) (unfold rd_u8_def r'(1), simp)
qed

lemma tenc_reads_back:
  assumes "length key = 16" and "length iv = 16"
  shows "read_tenc t original scheme ([1, 0, 0, 0, 0, pat, 1, 0] @ key @ [16] @ iv) = ok \<lparr>sf_original_format = original,
    sf_scheme = scheme, sf_key_id = key, sf_iv_size = 0, sf_constant_iv = Some iv,
    sf_crypt_blocks = unat (drop_bit 4 pat), sf_skip_blocks = unat (and pat 0x0f), sf_is_protected = True\<rparr>"
proof -
  let ?tenc = "[1, 0, 0, 0, 0, pat, 1, 0] @ key @ [16] @ iv"
  have head: "write_full_box_fields 1 0 = [1, 0, 0, 0]" by code_simp
  have "at_rest (reader_new ?tenc) (write_full_box_fields 1 0 @ [0] @ pat # 1 # 0 # key @ 16 # iv @ [])"
    using at_rest_new [of ?tenc] assms by (simp add: head)
  then obtain r1 where r1: "rd_full_box (reader_new ?tenc) = ok (1, r1)" "at_rest r1 ([0] @ pat # 1 # 0 # key @ 16 # iv @ [])"
    by (rule full_box_back)
  have one: "length [0 :: byte] = 1" by simp
  obtain r2 where r2: "rd_skip r1 1 = ok r2" "at_rest r2 (pat # 1 # 0 # key @ 16 # iv @ [])"
    by (rule skip_back [OF r1(2) one])
  obtain r3 where r3: "rd_u8 r2 = ok (pat, r3)" "at_rest r3 (1 # 0 # key @ 16 # iv @ [])" by (rule byte_back [OF r2(2)])
  obtain r4 where r4: "rd_u8 r3 = ok (1, r4)" "at_rest r4 (0 # key @ 16 # iv @ [])" by (rule byte_back [OF r3(2)])
  obtain r5 where r5: "rd_u8 r4 = ok (0, r5)" "at_rest r5 (key @ 16 # iv @ [])" by (rule byte_back [OF r4(2)])
  obtain r6 where r6: "rd_take r5 16 = ok (key, r6)" "at_rest r6 (16 # iv @ [])"
    by (rule take_back [OF r5(2) assms(1)])
  obtain r7 where r7: "rd_u8 r6 = ok (16, r7)" "at_rest r7 (iv @ [])" by (rule byte_back [OF r6(2)])
  obtain r8 where r8: "rd_take r7 16 = ok (iv, r8)" by (rule take_back [OF r7(2) assms(2)])
  have "constant_iv_of t True 0 r6 = ok (Some iv)"
    using r7(1) r8 assms(2) by (simp add: constant_iv_of_def iv16_def)
  then show ?thesis
    unfolding read_tenc_def using r1(1) r2(1) r3(1) r4(1) r5(1) r6(1) by (simp add: sinf_of_def)
qed

lemma protection_reads_back:
  assumes "protection_info original p = ok info" and "length original = 4"
    and "length (ip_key_id p) = 16" and "length (ip_constant_iv p) = 16"
    and "ip_crypt_byte_block p < 16" and "ip_skip_byte_block p < 16"
  shows "parse_sinf t info = ok \<lparr>sf_original_format = original, sf_scheme = Cbcs, sf_key_id = ip_key_id p,
    sf_iv_size = 0, sf_constant_iv = Some (ip_constant_iv p), sf_crypt_blocks = unat (ip_crypt_byte_block p),
    sf_skip_blocks = unat (ip_skip_byte_block p), sf_is_protected = True\<rparr>"
proof -
  let ?pat = "or (push_bit 4 (ip_crypt_byte_block p)) (and (ip_skip_byte_block p) 0x0f)"
  let ?schm = "replicate 4 0 @ ascii ''cbcs'' @ be_bytes 4 0x00010000"
  let ?tenc = "[1, 0, 0, 0, 0, ?pat, 1, 0] @ ip_key_id p @ [16] @ ip_constant_iv p"
  let ?bs = "[(ascii ''frma'', original), (ascii ''schm'', ?schm), (ascii ''schi'', box_bytes (ascii ''tenc'') ?tenc)]"
  have info: "info = concat (map (\<lambda>(n, p). box_bytes n p) ?bs)"
    using assms(1) by (auto simp: protection_info_def and_then_eq_Inr init_write_box_eq_Inr)
  have fits: "\<forall>b \<in> set ?bs. boxable b" "length (concat (map (\<lambda>(n, p). box_bytes n p) ?bs)) < u64_limit"
    using assms(2-4) by simp_all
  have frma: "required_child info (ascii ''frma'') = ok (written (ascii ''frma'', original))"
    and schm: "required_child info (ascii ''schm'') = ok (written (ascii ''schm'', ?schm))"
    and schi: "required_child info (ascii ''schi'') = ok (written (ascii ''schi'', box_bytes (ascii ''tenc'') ?tenc))"
    unfolding info by (rule written_child [OF fits]; simp)+
  have tenc: "required_child (box_bytes (ascii ''tenc'') ?tenc) (ascii ''tenc'') = ok (written (ascii ''tenc'', ?tenc))"
    using written_child [of "[(ascii ''tenc'', ?tenc)]" "ascii ''tenc''" ?tenc] assms(3,4) by simp
  have scheme: "get_slice ?schm 4 8 = Some (ascii ''cbcs'')" "get_slice original 0 4 = Some original"
    using assms(2) by (simp_all add: get_slice_def subslice_def)
  show ?thesis
    using frma schm schi tenc scheme tenc_reads_back [OF assms(3,4), of t original Cbcs ?pat] pattern_byte [OF assms(5,6)]
    by (simp add: parse_sinf_def scheme_from_fourcc_def)
qed

section \<open>Headers without their duration\<close>

abbreviation at_position :: "bytes \<Rightarrow> nat \<Rightarrow> reader" where
  "at_position p k \<equiv> \<lparr>rd_data = p, rd_position = k\<rparr>"

lemma take_at:
  "rd_take (at_position p k) n = ok (bs, r) \<longleftrightarrow>
     k + n \<le> length p \<and> k + n < u64_limit \<and> bs = subslice p k (k + n) \<and> r = at_position p (k + n)"
  by (auto simp: rd_take_def checked_add_def slice_def)

lemma reads_at:
  "rd_skip (at_position p k) n = ok r \<longleftrightarrow> k + n \<le> length p \<and> k + n < u64_limit \<and> r = at_position p (k + n)"
  "rd_u32 (at_position p k) = ok (x, r) \<longleftrightarrow>
     k + 4 \<le> length p \<and> k + 4 < u64_limit \<and> x = be_value (subslice p k (k + 4)) \<and> r = at_position p (k + 4)"
  "rd_u64 (at_position p k) = ok (x, r) \<longleftrightarrow>
     k + 8 \<le> length p \<and> k + 8 < u64_limit \<and> x = be_value (subslice p k (k + 8)) \<and> r = at_position p (k + 8)"
  "rd_full_box (reader_new p) = ok (v, r) \<longleftrightarrow> 4 \<le> length p \<and> v = p ! 0 \<and> r = at_position p 4"
proof -
  show "rd_skip (at_position p k) n = ok r \<longleftrightarrow> k + n \<le> length p \<and> k + n < u64_limit \<and> r = at_position p (k + n)"
    by (auto simp: rd_skip_def and_then_eq_Inr take_at)
  show "rd_u32 (at_position p k) = ok (x, r) \<longleftrightarrow>
      k + 4 \<le> length p \<and> k + 4 < u64_limit \<and> x = be_value (subslice p k (k + 4)) \<and> r = at_position p (k + 4)"
    by (auto simp: rd_u32_def and_then_eq_Inr take_at)
  show "rd_u64 (at_position p k) = ok (x, r) \<longleftrightarrow>
      k + 8 \<le> length p \<and> k + 8 < u64_limit \<and> x = be_value (subslice p k (k + 8)) \<and> r = at_position p (k + 8)"
    by (auto simp: rd_u64_def and_then_eq_Inr take_at)
  have "rd_u8 (at_position p 0) = ok (v, r) \<longleftrightarrow> 1 \<le> length p \<and> v = p ! 0 \<and> r = at_position p 1" for v r
    by (auto simp: rd_u8_def and_then_eq_Inr take_at index_at_def subslice_def)
  then show "rd_full_box (reader_new p) = ok (v, r) \<longleftrightarrow> 4 \<le> length p \<and> v = p ! 0 \<and> r = at_position p 4"
    by (auto simp: rd_full_box_def reader_new_def and_then_eq_Inr rd_skip_def take_at)
qed

lemma zeroed_before: "k + n \<le> off \<Longrightarrow> off \<le> length p \<Longrightarrow> subslice (take off p @ ys) k (k + n) = subslice p k (k + n)"
  by (auto simp: subslice_def drop_take min_def)

lemma zeroed_there: "off \<le> length p \<Longrightarrow> subslice (take off p @ replicate w x @ ys) off (off + w) = replicate w x"
  by (simp add: subslice_def)

lemma zeroed_after:
  "off + w \<le> k \<Longrightarrow> off + w \<le> length p \<Longrightarrow>
     subslice (take off p @ replicate w x @ drop (off + w) p) k m = subslice p k m"
  by (simp add: subslice_def)

lemma zero_duration:
  assumes "with_zero_duration p d = ok h"
  shows "p \<noteq> []" and "length h = length p"
    and "k + n \<le> (if p ! 0 = 1 then da_version_1 d else da_version_0 d) \<Longrightarrow> subslice h k (k + n) = subslice p k (k + n)"
    and "0 < (if p ! 0 = 1 then da_version_1 d else da_version_0 d) \<Longrightarrow> h ! 0 = p ! 0"
    and "p ! 0 = 1 \<Longrightarrow> subslice h (da_version_1 d) (da_version_1 d + 8) = replicate 8 0 \<and> da_version_1 d + 8 \<le> length p"
    and "p ! 0 \<noteq> 1 \<Longrightarrow> subslice h (da_version_0 d) (da_version_0 d + 4) = replicate 4 0 \<and> da_version_0 d + 4 \<le> length p"
    and "(if p ! 0 = 1 then da_version_1 d + 8 else da_version_0 d + 4) \<le> k \<Longrightarrow> subslice h k m = subslice p k m"
proof -
  show ne: "p \<noteq> []" using assms by (auto simp: with_zero_duration_def get_at_def)
  define off where "off = (if p ! 0 = 1 then da_version_1 d else da_version_0 d)"
  define w where "w = (if p ! 0 = 1 then 8 else 4 :: nat)"
  then have h: "h = take off p @ replicate w 0 @ drop (off + w) p" "off + w \<le> length p"
    using assms ne by (auto simp: off_def w_def with_zero_duration_def get_at_def split: if_splits)
  have within: "off \<le> length p" using h(2) by simp
  show "length h = length p" unfolding h(1) using h(2) by simp
  show "k + n \<le> (if p ! 0 = 1 then da_version_1 d else da_version_0 d) \<Longrightarrow> subslice h k (k + n) = subslice p k (k + n)"
    unfolding h(1) off_def [symmetric] by (rule zeroed_before [OF _ within])
  show "0 < (if p ! 0 = 1 then da_version_1 d else da_version_0 d) \<Longrightarrow> h ! 0 = p ! 0"
    unfolding h(1) off_def [symmetric] using within ne by (simp add: nth_append)
  have there: "subslice h off (off + w) = replicate w 0" unfolding h(1) using within by (rule zeroed_there)
  show "(if p ! 0 = 1 then da_version_1 d + 8 else da_version_0 d + 4) \<le> k \<Longrightarrow> subslice h k m = subslice p k m"
    unfolding h(1) using h(2) by (intro zeroed_after) (simp_all add: off_def w_def split: if_splits)
  show "p ! 0 = 1 \<Longrightarrow> subslice h (da_version_1 d) (da_version_1 d + 8) = replicate 8 0 \<and> da_version_1 d + 8 \<le> length p"
    using there h(2) by (simp add: off_def w_def)
  show "p ! 0 \<noteq> 1 \<Longrightarrow> subslice h (da_version_0 d) (da_version_0 d + 4) = replicate 4 0 \<and> da_version_0 d + 4 \<le> length p"
    using there h(2) by (simp add: off_def w_def)
qed

lemma zero_duration_keeps_id:
  assumes "with_zero_duration p TRACK_HEADER = ok h" and "track_id_in p = ok n"
  shows "track_id_in h = ok n"
proof -
  note z = zero_duration [OF assms(1)]
  have "subslice h 12 16 = subslice p 12 16" if "p ! 0 \<noteq> 1" using z(3) [of 12 4] that by (simp add: TRACK_HEADER_def)
  moreover have "subslice h 20 24 = subslice p 20 24" if "p ! 0 = 1" using z(3) [of 20 4] that by (simp add: TRACK_HEADER_def)
  moreover have "h ! 0 = p ! 0" using z(4) by (simp add: TRACK_HEADER_def)
  ultimately show ?thesis
    using assms(2) z(2) by (auto simp: track_id_in_def and_then_eq_Inr reads_at split: if_splits)
qed

lemma be_value_zeros [simp]: "be_value (replicate n 0) = 0"
  by (induction n) simp_all

lemma read_u16_at:
  "rd_u16 (at_position p k) = ok (x, r) \<longleftrightarrow>
     k + 2 \<le> length p \<and> k + 2 < u64_limit \<and> x = be_value (subslice p k (k + 2)) \<and> r = at_position p (k + 2)"
  by (auto simp: rd_u16_def and_then_eq_Inr take_at)

lemma zero_movie_or_media:
  assumes "with_zero_duration p MOVIE_OR_MEDIA = ok h"
  shows "h ! 0 = p ! 0" and "p ! 0 = 1 \<Longrightarrow> subslice h 20 24 = subslice p 20 24" 
    and "p ! 0 = 1 \<Longrightarrow> subslice h 24 32 = replicate 8 0" and "p ! 0 = 1 \<Longrightarrow> subslice h 32 34 = subslice p 32 34"
    and "p ! 0 \<noteq> 1 \<Longrightarrow> subslice h 12 16 = subslice p 12 16"
    and "p ! 0 \<noteq> 1 \<Longrightarrow> subslice h 16 20 = replicate 4 0" and "p ! 0 \<noteq> 1 \<Longrightarrow> subslice h 20 22 = subslice p 20 22"
  using zero_duration(3) [OF assms, of 20 4] zero_duration(3) [OF assms, of 12 4] zero_duration(4-6) [OF assms]
    zero_duration(7) [OF assms, of 32 34] zero_duration(7) [OF assms, of 20 22]
  by (simp_all add: MOVIE_OR_MEDIA_def)

lemma zero_duration_read:
  assumes "with_zero_duration p MOVIE_OR_MEDIA = ok h"
    and "and_then (rd_full_box (reader_new p)) (\<lambda>(version, r). read_timescale_and_duration r version) = ok (timescale, d, r)"
  shows "\<exists>r'. and_then (rd_full_box (reader_new h)) (\<lambda>(version, r). read_timescale_and_duration r version) = ok (timescale, 0, r')"
  using assms(2) zero_duration(2) [OF assms(1)] zero_movie_or_media [OF assms(1)]
  by (auto simp: read_timescale_and_duration_def and_then_eq_Inr reads_at split: if_splits)

lemma zero_media_header:
  assumes "with_zero_duration p MOVIE_OR_MEDIA = ok h" and "parse_media_header p t = ok header"
  shows "parse_media_header h t = ok (header\<lparr>mh_duration := 0\<rparr>)"
  using assms(2) zero_duration(2) [OF assms(1)] zero_movie_or_media [OF assms(1)]
  by (auto simp: parse_media_header_def read_timescale_and_duration_def and_then_eq_Inr reads_at read_u16_at split: if_splits)

text \<open>
  The init segment of tracks that are not encrypted, read by the parser of source files: the same
  tracks, with their ids, handlers and data references, a sample description that is packaged, and no
  samples.
\<close>

section \<open>The description of the samples\<close>

lemma required_is_optional: "required_child data n = ok c \<Longrightarrow> optional_child data n = ok (Some c)"
  by (auto simp: required_child_def and_then_eq_Inr ok_or_eq_Inr)

text \<open>The parts of a track, and the entries that the packager takes as they are.\<close>

definition media_of :: "raw_track \<Rightarrow> raw_box res" where
  "media_of raw = required_child (rt_trak raw) (ascii ''mdia'')"

definition media_header_of :: "raw_track \<Rightarrow> media_header res" where
  "media_header_of raw =
     and_then (media_of raw) (\<lambda>media.
     and_then (required_child (bx_payload media) (ascii ''mdhd'')) (\<lambda>mdhd. parse_media_header (bx_payload mdhd) (rt_id raw)))"

definition sample_table_of :: "raw_track \<Rightarrow> raw_box res" where
  "sample_table_of raw =
     and_then (media_of raw) (\<lambda>media.
     and_then (required_child (bx_payload media) (ascii ''minf'')) (\<lambda>minf.
       required_child (bx_payload minf) (ascii ''stbl'')))"

text \<open>
  The format of the samples of an entry: its name, and for an entry of a protected source the name that
  its \<^verbatim>\<open>frma\<close> box gives.
\<close>

definition original_format :: "raw_box \<Rightarrow> nat \<Rightarrow> bytes res" where
  "original_format entry t =
     (if bx_name entry \<noteq> ascii ''encv'' \<and> bx_name entry \<noteq> ascii ''enca'' then ok (bx_name entry)
      else
        and_then (protected_entry_children (bx_name entry) (bx_payload entry) t) (\<lambda>children.
        and_then (required_child children (ascii ''sinf'')) (\<lambda>sinf.
        and_then (required_child (bx_payload sinf) (ascii ''frma'')) (\<lambda>frma.
          ok_or (get_slice (bx_payload frma) 0 4) (InvalidMedia ''frma is truncated'')))))"

definition entry_of :: "raw_track \<Rightarrow> raw_box res" where
  "entry_of raw = and_then (sample_table_of raw) (\<lambda>stbl. sample_entry_of (bx_payload stbl))"

definition entry_format :: "raw_track \<Rightarrow> bytes res" where
  "entry_format raw = and_then (entry_of raw) (\<lambda>entry. original_format entry (rt_id raw))"

definition packaged_format :: "bytes \<Rightarrow> bool" where
  "packaged_format name \<longleftrightarrow> name \<in> set (map ascii packaged_entries)"

lemma described_entry:
  assumes "rd_full_box (reader_new p) = ok (v, r)" and "rd_u32 r = ok (n, r')"
  shows "8 \<le> length p" and "r' = at_position p 8" and "rd_rest r' = drop 8 p"
    and "n = be_value (subslice p 4 8)"
  using assms by (auto simp: reads_at rd_rest_def)

lemma first_entry_eq:
  assumes "rd_full_box (reader_new p) = ok (v, r)" and "rd_u32 r = ok (n, r')"
    and "child_boxes (rd_rest r') = ok cs" and "get_at cs 0 = Some e"
  shows "first_entry p = ok e"
proof -
  have "rd_skip r 4 = ok r'" using assms(1,2) by (auto simp: reads_at)
  then show ?thesis using assms(1,3,4) by (simp add: first_entry_def)
qed

lemma description_head:
  assumes "rd_full_box (reader_new p) = ok (v, r)" and "rd_u32 r = ok (n, r')" and "8 + length ys < u64_limit"
  shows "\<exists>s s'. rd_full_box (reader_new (take 8 p @ ys)) = ok (v, s) \<and> rd_u32 s = ok (n, s') \<and> rd_rest s' = ys"
proof -
  have len: "8 \<le> length p" and n: "n = be_value (subslice p 4 8)" and v: "v = p ! 0"
    using described_entry [OF assms(1,2)] assms(1) by (simp_all add: reads_at)
  let ?d = "take 8 p @ ys"
  have "subslice ?d 4 8 = subslice p 4 8" using zeroed_before [of 4 4 8 p ys] len by simp
  moreover have "rd_full_box (reader_new ?d) = ok (v, at_position ?d 4)"
    using len v by (auto simp: reads_at nth_append)
  moreover have "rd_u32 (at_position ?d 4) = ok (be_value (subslice ?d 4 8), at_position ?d 8)"
    using len by (simp add: reads_at)
  ultimately show ?thesis using len n by (auto simp: rd_rest_def)
qed

lemma iso_description_kept:
  assumes iso: "iso_description p t None = ok d" and "length d < u32_limit"
    and "rd_full_box (reader_new p) = ok (v, r)" and "rd_u32 r = ok (n, r')"
    and "child_boxes (rd_rest r') = ok cs" and "get_at cs 0 = Some e"
  shows "\<exists>s s' cs' e'. rd_full_box (reader_new d) = ok (v, s) \<and> rd_u32 s = ok (n, s') \<and> child_boxes (rd_rest s') = ok cs'
    \<and> get_at cs' 0 = Some e' \<and> bx_name e' = bx_name e"
proof -
  note entry = first_entry_eq [OF assms(3-6)]
  show ?thesis
  proof (cases "d = p")
    case True
    then show ?thesis using assms(3-6) by blast
  next
    case False
    then obtain iso where mp4a: "bx_name e = ascii ''mp4a''" and d: "d = take 8 p @ box_bytes (ascii ''mp4a'') iso"
        and fits: "length iso + 8 < u32_limit"
      using iso entry
      by (auto simp: iso_description_def protect_def and_then_eq_Inr init_write_box_eq_Inr slice_def subslice_def
          split: if_splits option.splits)
    have one: "\<forall>b \<in> set [(ascii ''mp4a'', iso)]. boxable b"
        "length (concat (map (\<lambda>(n, p). box_bytes n p) [(ascii ''mp4a'', iso)])) < u64_limit"
      using fits by simp_all
    obtain s s' where s: "rd_full_box (reader_new d) = ok (v, s)" "rd_u32 s = ok (n, s')"
        "rd_rest s' = box_bytes (ascii ''mp4a'') iso"
      using description_head [OF assms(3,4), of "box_bytes (ascii ''mp4a'') iso"] fits d by auto
    have "child_boxes (rd_rest s') = ok [written (ascii ''mp4a'', iso)]"
      using child_boxes_written [OF one] s(3) by simp
    then show ?thesis
      using s(1,2) mp4a
      by (intro exI [of _ s] exI [of _ s'] exI [of _ "[written (ascii ''mp4a'', iso)]"]
          exI [of _ "written (ascii ''mp4a'', iso)"]) (simp add: get_at_def written_def)
  qed
qed

lemma description_kept:
  assumes "sample_description p t None = ok d" and "length d < u32_limit"
    and "rd_full_box (reader_new p) = ok (v, r)" and "rd_u32 r = ok (n, r')"
    and "child_boxes (rd_rest r') = ok cs" and "get_at cs 0 = Some e"
    and "original_format e t = ok name"
  shows "\<exists>s s' cs' e'. rd_full_box (reader_new d) = ok (v, s) \<and> rd_u32 s = ok (n, s') \<and> child_boxes (rd_rest s') = ok cs'
    \<and> get_at cs' 0 = Some e' \<and> bx_name e' = name"
proof -
  note entry = first_entry_eq [OF assms(3-6)]
  obtain u where u: "unprotected_description p t = ok u"
      "iso_description (case u of None \<Rightarrow> p | Some q \<Rightarrow> q) t None = ok d"
    using assms(1) by (auto simp: sample_description_def and_then_eq_Inr)
  show ?thesis
  proof (cases u)
    case None
    then have "bx_name e = name"
      using u(1) entry assms(7)
      by (auto simp: unprotected_description_def original_format_def and_then_eq_Inr split: if_splits)
    then show ?thesis using iso_description_kept [OF _ assms(2-6)] u(2) None by auto
  next
    case (Some q)
    then obtain payload where q: "q = take 8 p @ box_bytes name payload" and fits: "length payload + 8 < u32_limit"
        and four: "length name = 4"
      using u(1) entry assms(7)
      by (auto simp: unprotected_description_def original_format_def and_then_eq_Inr init_write_box_eq_Inr slice_def
          subslice_def ok_or_eq_Inr get_slice_def split: if_splits)
    have one: "\<forall>b \<in> set [(name, payload)]. boxable b"
        "length (concat (map (\<lambda>(n, p). box_bytes n p) [(name, payload)])) < u64_limit"
      using fits four by simp_all
    obtain s s' where s: "rd_full_box (reader_new q) = ok (v, s)" "rd_u32 s = ok (n, s')"
        "rd_rest s' = box_bytes name payload"
      using description_head [OF assms(3,4), of "box_bytes name payload"] fits four q by auto
    have "child_boxes (rd_rest s') = ok [written (name, payload)]"
      using child_boxes_written [OF one] s(3) by simp
    then show ?thesis
      using iso_description_kept [OF _ assms(2) s(1,2), of t "[written (name, payload)]" "written (name, payload)"] u(2) Some
      by (simp add: get_at_def written_def)
  qed
qed

text \<open>A sample table with a description of a packaged format is packaged, and has no samples.\<close>

lemma table_packaged:
  assumes "sample_table_box stbl t None = ok out" and "length out < u32_limit"
    and "sample_entry_of (bx_payload stbl) = ok e" and "original_format e t = ok name" and "packaged_format name"
  shows "classify_sample_description t' handler out = ok Package" and "sample_count out = ok 0"
    and "\<exists>e'. sample_entry_of out = ok e' \<and> bx_name e' = name"
proof -
  obtain description d where desc: "required_child (bx_payload stbl) (ascii ''stsd'') = ok description"
      "sample_description (bx_payload description) t None = ok d"
    and out: "out = concat (map (\<lambda>(n, p). box_bytes n p) [(ascii ''stsd'', d), (ascii ''stts'', replicate 8 0),
      (ascii ''stsc'', replicate 8 0), (ascii ''stsz'', replicate 12 0), (ascii ''stco'', replicate 8 0)])"
    using assms(1) by (auto simp: sample_table_box_def and_then_eq_Inr init_write_box_eq_Inr)
  let ?bs = "[(ascii ''stsd'', d), (ascii ''stts'', replicate 8 0),
      (ascii ''stsc'', replicate 8 0), (ascii ''stsz'', replicate 12 0), (ascii ''stco'', replicate 8 (0::byte))]"
  have fits: "\<forall>b \<in> set ?bs. boxable b" "length (concat (map (\<lambda>(n, p). box_bytes n p) ?bs)) < u64_limit"
    using assms(2) unfolding out by simp_all
  have dlen: "length d < u32_limit" using assms(2) unfolding out by simp
  have stsd: "required_child out (ascii ''stsd'') = ok (written (ascii ''stsd'', d))"
    and stsz: "required_child out (ascii ''stsz'') = ok (written (ascii ''stsz'', replicate 12 0))"
    unfolding out by (rule written_child [OF fits]; simp)+
  obtain v r n r' cs where src: "rd_full_box (reader_new (bx_payload description)) = ok (v, r)" "rd_u32 r = ok (n, r')"
      "n = 1" "child_boxes (rd_rest r') = ok cs" "get_at cs 0 = Some e"
    using assms(3) desc(1)
    by (auto simp: sample_entry_of_def stsd_entry_count_def and_then_eq_Inr ok_or_def split: if_splits option.splits)
  obtain s s' cs' e' where new: "rd_full_box (reader_new d) = ok (v, s)" "rd_u32 s = ok (n, s')"
      "child_boxes (rd_rest s') = ok cs'" "get_at cs' 0 = Some e'" "bx_name e' = name"
    using description_kept [OF desc(2) dlen src(1,2,4,5) assms(4)] by blast
  have count: "stsd_entry_count out = ok (1, s')"
    using stsd new(1,2) src(3) by (simp add: stsd_entry_count_def written_def)
  have entry: "sample_entry_of out = ok e'"
    using count new(3,4) by (simp add: sample_entry_of_def)
  then show "\<exists>e'. sample_entry_of out = ok e' \<and> bx_name e' = name" using new(5) by blast
  show "classify_sample_description t' handler out = ok Package"
    using count entry new(5) assms(5) by (simp add: classify_sample_description_def packaged_format_def Let_def)
  have "declared_samples (replicate 12 0) = ok 0" by code_simp
  then show "sample_count out = ok 0" using required_is_optional [OF stsz] by (simp add: sample_count_def written_def)
qed

section \<open>A track\<close>

lemma media_info_reads_back:
  assumes "media_info_box minf t None = ok out" and "length out < u64_limit"
    and "required_child (bx_payload minf) (ascii ''stbl'') = ok stbl"
  shows "validate_data_reference (bx_payload minf) = ok () \<Longrightarrow> validate_data_reference out = ok ()"
    and "\<exists>table. required_child out (ascii ''stbl'') = ok table \<and> sample_table_box stbl t None = ok (bx_payload table)"
proof -
  define g where "g c = (if bx_name c = ascii ''stbl'' then sample_table_box c t None else ok (bx_payload c))" for c
  have step: "(\<lambda>out c. if bx_name c = ascii ''stbl''
      then and_then (sample_table_box c t None) (init_write_box out (ascii ''stbl''))
      else init_write_box out (bx_name c) (bx_payload c)) = (\<lambda>out c. and_then (g c) (init_write_box out (bx_name c)))"
    by (auto simp: g_def fun_eq_iff)
  obtain cs where cs: "child_boxes (bx_payload minf) = ok cs"
      "try_fold (\<lambda>out c. and_then (g c) (init_write_box out (bx_name c))) [] cs = ok out"
    using assms(1) unfolding media_info_box_def step by (auto simp: and_then_eq_Inr)
  note child = rewritten_child [OF cs(1) assms(2) cs(2)]
  show "\<exists>table. required_child out (ascii ''stbl'') = ok table \<and> sample_table_box stbl t None = ok (bx_payload table)"
    using child [OF assms(3)] by (auto simp: g_def)
  assume valid: "validate_data_reference (bx_payload minf) = ok ()"
  then obtain dinf where dinf: "required_child (bx_payload minf) (ascii ''dinf'') = ok dinf"
    by (auto simp: validate_data_reference_def and_then_eq_Inr)
  then obtain dinf' where dinf': "required_child out (ascii ''dinf'') = ok dinf'" "bx_payload dinf' = bx_payload dinf"
    using child [OF dinf] by (auto simp: g_def)
  show "validate_data_reference out = ok ()"
    using valid unfolding validate_data_reference_def dinf dinf'(1) by (simp add: dinf'(2))
qed

lemma media_reads_back:
  assumes "media_box media t None = ok out" and "length out < u64_limit"
  shows "required_child (bx_payload media) (ascii ''hdlr'') = ok hdlr \<Longrightarrow>
      \<exists>hdlr'. required_child out (ascii ''hdlr'') = ok hdlr' \<and> bx_payload hdlr' = bx_payload hdlr"
    and "required_child (bx_payload media) (ascii ''mdhd'') = ok mdhd \<Longrightarrow>
      \<exists>mdhd'. required_child out (ascii ''mdhd'') = ok mdhd'
        \<and> with_zero_duration (bx_payload mdhd) MOVIE_OR_MEDIA = ok (bx_payload mdhd')"
    and "required_child (bx_payload media) (ascii ''minf'') = ok minf \<Longrightarrow>
      \<exists>minf'. required_child out (ascii ''minf'') = ok minf' \<and> media_info_box minf t None = ok (bx_payload minf')"
proof -
  define g where "g c = (if bx_name c = ascii ''mdhd'' then with_zero_duration (bx_payload c) MOVIE_OR_MEDIA
      else if bx_name c = ascii ''minf'' then media_info_box c t None else ok (bx_payload c))" for c
  have step: "(\<lambda>out c.
         if bx_name c = ascii ''mdhd''
         then and_then (with_zero_duration (bx_payload c) MOVIE_OR_MEDIA) (init_write_box out (ascii ''mdhd''))
         else if bx_name c = ascii ''minf''
         then and_then (media_info_box c t None) (init_write_box out (ascii ''minf''))
         else init_write_box out (bx_name c) (bx_payload c)) = (\<lambda>out c. and_then (g c) (init_write_box out (bx_name c)))"
    by (auto simp: g_def fun_eq_iff)
  obtain cs where cs: "child_boxes (bx_payload media) = ok cs"
      "try_fold (\<lambda>out c. and_then (g c) (init_write_box out (bx_name c))) [] cs = ok out"
    using assms(1) unfolding media_box_def step by (auto simp: and_then_eq_Inr)
  note child = rewritten_child [OF cs(1) assms(2) cs(2)]
  show "\<exists>hdlr'. required_child out (ascii ''hdlr'') = ok hdlr' \<and> bx_payload hdlr' = bx_payload hdlr"
    if "required_child (bx_payload media) (ascii ''hdlr'') = ok hdlr"
    using child [OF that] by (auto simp: g_def)
  show "\<exists>mdhd'. required_child out (ascii ''mdhd'') = ok mdhd'
        \<and> with_zero_duration (bx_payload mdhd) MOVIE_OR_MEDIA = ok (bx_payload mdhd')"
    if "required_child (bx_payload media) (ascii ''mdhd'') = ok mdhd"
    using child [OF that] by (auto simp: g_def)
  show "\<exists>minf'. required_child out (ascii ''minf'') = ok minf' \<and> media_info_box minf t None = ok (bx_payload minf')"
    if "required_child (bx_payload media) (ascii ''minf'') = ok minf"
    using child [OF that] by (auto simp: g_def)
qed

text \<open>What a packaged track of a file is made of.\<close>

lemma raw_track_parts:
  assumes "raw_track_of ts trak = ok (ts @ [raw])" and "rt_disposition raw = Package"
  obtains tkhd media hdlr minf stbl where "required_child (bx_payload trak) (ascii ''tkhd'') = ok tkhd"
    and "track_id_in (bx_payload tkhd) = ok (rt_id raw)"
    and "required_child (bx_payload trak) (ascii ''mdia'') = ok media"
    and "required_child (bx_payload media) (ascii ''hdlr'') = ok hdlr"
    and "handler_type (bx_payload hdlr) = ok (rt_handler raw)"
    and "rt_handler raw = ascii ''vide'' \<or> rt_handler raw = ascii ''soun''"
    and "required_child (bx_payload media) (ascii ''minf'') = ok minf"
    and "validate_data_reference (bx_payload minf) = ok ()"
    and "required_child (bx_payload minf) (ascii ''stbl'') = ok stbl"
    and "rt_trak raw = bx_payload trak"
  using assms by (auto simp: raw_track_of_def and_then_eq_Inr split: if_splits)

lemma track_box_reads_back:
  assumes src: "raw_track_of ts trak = ok (ts @ [raw])" "rt_disposition raw = Package" "entry_format raw = ok name" "packaged_format name"
    and box: "track_box trak (rt_id raw) None = ok t" "length t < u32_limit"
    and fresh: "rt_id raw \<notin> rt_id ` set ts'"
  shows "raw_track_of ts' (written (ascii ''trak'', t)) = ok (ts' @ [raw\<lparr>rt_trak := t\<rparr>])"
    and "\<exists>e. entry_of (raw\<lparr>rt_trak := t\<rparr>) = ok e \<and> bx_name e = name"
    and "and_then (sample_table_of (raw\<lparr>rt_trak := t\<rparr>)) (\<lambda>stbl. sample_count (bx_payload stbl)) = ok 0"
    and "media_header_of raw = ok header \<Longrightarrow>
      media_header_of (raw\<lparr>rt_trak := t\<rparr>) = ok (header\<lparr>mh_duration := 0\<rparr>)"
proof -
  obtain tkhd media hdlr minf stbl where parts: "required_child (bx_payload trak) (ascii ''tkhd'') = ok tkhd"
    "track_id_in (bx_payload tkhd) = ok (rt_id raw)"
    "required_child (bx_payload trak) (ascii ''mdia'') = ok media"
    "required_child (bx_payload media) (ascii ''hdlr'') = ok hdlr"
    "handler_type (bx_payload hdlr) = ok (rt_handler raw)"
    "rt_handler raw = ascii ''vide'' \<or> rt_handler raw = ascii ''soun''"
    "required_child (bx_payload media) (ascii ''minf'') = ok minf"
    "validate_data_reference (bx_payload minf) = ok ()"
    "required_child (bx_payload minf) (ascii ''stbl'') = ok stbl"
    "rt_trak raw = bx_payload trak"
    by (rule raw_track_parts [OF src(1,2)])
  obtain h m where h: "with_zero_duration (bx_payload tkhd) TRACK_HEADER = ok h" "media_box media (rt_id raw) None = ok m"
    and t: "t = concat (map (\<lambda>(n, p). box_bytes n p) [(ascii ''tkhd'', h), (ascii ''mdia'', m)])"
    using box(1) parts(1,3) by (auto simp: track_box_def and_then_eq_Inr init_write_box_eq_Inr)
  have fits: "\<forall>b \<in> set [(ascii ''tkhd'', h), (ascii ''mdia'', m)]. boxable b"
      "length (concat (map (\<lambda>(n, p). box_bytes n p) [(ascii ''tkhd'', h), (ascii ''mdia'', m)])) < u64_limit"
    and mlen: "length m < u64_limit"
    using box(2) unfolding t by simp_all
  have tkhd': "required_child t (ascii ''tkhd'') = ok (written (ascii ''tkhd'', h))"
    and mdia': "required_child t (ascii ''mdia'') = ok (written (ascii ''mdia'', m))"
    unfolding t by (rule written_child [OF fits]; simp)+
  note kept = media_reads_back [OF h(2) mlen]
  obtain hdlr' where hdlr': "required_child m (ascii ''hdlr'') = ok hdlr'" "bx_payload hdlr' = bx_payload hdlr"
    using kept(1) [OF parts(4)] by blast
  obtain minf' where minf': "required_child m (ascii ''minf'') = ok minf'"
      "media_info_box minf (rt_id raw) None = ok (bx_payload minf')"
    using kept(3) [OF parts(7)] by blast
  have small: "length (bx_payload minf') < u32_limit"
    using child_found_length(2) [OF minf'(1)] box(2) unfolding t by simp
  have small64: "length (bx_payload minf') < u64_limit" using small by simp
  note info = media_info_reads_back [OF minf'(2) small64 parts(9)]
  obtain table where table: "required_child (bx_payload minf') (ascii ''stbl'') = ok table"
      "sample_table_box stbl (rt_id raw) None = ok (bx_payload table)"
    using info(2) by blast
  have tlen: "length (bx_payload table) < u32_limit"
    using child_found_length(2) [OF table(1)] small by simp
  obtain e where e: "sample_entry_of (bx_payload stbl) = ok e" "original_format e (rt_id raw) = ok name"
    using src(3) parts(3,7,9,10)
    by (auto simp: entry_format_def entry_of_def sample_table_of_def media_of_def and_then_eq_Inr)
  note packaged = table_packaged [OF table(2) tlen e src(4)]
  have "handler_type (bx_payload hdlr') = ok (rt_handler raw)" using parts(5) hdlr'(2) by simp
  moreover have "track_id_in h = ok (rt_id raw)" by (rule zero_duration_keeps_id [OF h(1) parts(2)])
  moreover have "\<not> (\<exists>existing \<in> set ts'. rt_id existing = rt_id raw)" using fresh by (auto simp: image_iff)
  ultimately show "raw_track_of ts' (written (ascii ''trak'', t)) = ok (ts' @ [raw\<lparr>rt_trak := t\<rparr>])"
    using tkhd' mdia' hdlr'(1) minf'(1) info(1) [OF parts(8)] table(1) packaged(1) parts(6) src(2)
    by (simp add: raw_track_of_def written_def)
  obtain e' where "sample_entry_of (bx_payload table) = ok e'" "bx_name e' = name" using packaged(3) by blast
  moreover have stbl': "sample_table_of (raw\<lparr>rt_trak := t\<rparr>) = ok table"
    using mdia' minf'(1) table(1) by (simp add: sample_table_of_def media_of_def written_def)
  ultimately show "\<exists>e. entry_of (raw\<lparr>rt_trak := t\<rparr>) = ok e \<and> bx_name e = name"
    by (simp add: entry_of_def)
  show "and_then (sample_table_of (raw\<lparr>rt_trak := t\<rparr>)) (\<lambda>stbl. sample_count (bx_payload stbl)) = ok 0"
    using stbl' packaged(2) by simp
  assume header: "media_header_of raw = ok header"
  then obtain mdhd where mdhd: "required_child (bx_payload media) (ascii ''mdhd'') = ok mdhd"
      "parse_media_header (bx_payload mdhd) (rt_id raw) = ok header"
    using parts(3,10) by (auto simp: media_header_of_def media_of_def and_then_eq_Inr)
  obtain mdhd' where mdhd': "required_child m (ascii ''mdhd'') = ok mdhd'"
      "with_zero_duration (bx_payload mdhd) MOVIE_OR_MEDIA = ok (bx_payload mdhd')"
    using kept(2) [OF mdhd(1)] by blast
  show "media_header_of (raw\<lparr>rt_trak := t\<rparr>) = ok (header\<lparr>mh_duration := 0\<rparr>)"
    using mdia' mdhd'(1) zero_media_header [OF mdhd'(2) mdhd(2)] by (simp add: media_header_of_def media_of_def written_def)
qed

section \<open>The movie\<close>

lemma raw_track_of_alone:
  "raw_track_of ts trak = and_then (raw_track_of [] trak) (\<lambda>new.
     if \<exists>existing \<in> set ts. rt_id existing = rt_id (hd new) then fail (invalid_media ''two tracks share one track ID'')
     else ok (ts @ new))"
  by (simp add: raw_track_of_def and_then_assoc)

lemma raw_track_of_one: "raw_track_of [] trak = ok new \<Longrightarrow> \<exists>raw. new = [raw]"
  by (auto simp: raw_track_of_def and_then_eq_Inr)

lemma raw_track_of_iff:
  "raw_track_of ts trak = ok res \<longleftrightarrow>
     (\<exists>raw. raw_track_of [] trak = ok [raw] \<and> rt_id raw \<notin> rt_id ` set ts \<and> res = ts @ [raw])"
proof (cases "raw_track_of [] trak")
  case (Inr new)
  then obtain raw where "new = [raw]" using raw_track_of_one by blast
  moreover have "(\<exists>existing \<in> set ts. rt_id existing = rt_id raw) \<longleftrightarrow> rt_id raw \<in> rt_id ` set ts"
    by (metis image_iff)
  ultimately show ?thesis using Inr by (auto simp: raw_track_of_alone [of ts])
qed (simp add: raw_track_of_alone [of ts])

lemma raw_tracks_of:
  assumes "try_fold raw_track_of ts traks = ok res"
  shows "\<exists>raws. res = ts @ raws \<and> list_all2 (\<lambda>trak raw. raw_track_of [] trak = ok [raw]) traks raws"
  using assms
proof (induction traks arbitrary: ts)
  case (Cons trak traks)
  obtain raw where raw: "raw_track_of [] trak = ok [raw]" "try_fold raw_track_of (ts @ [raw]) traks = ok res"
    using Cons.prems raw_track_of_iff [of ts trak] by (auto simp: and_then_eq_Inr)
  then show ?case using Cons.IH [OF raw(2)] by auto
qed simp

lemma track_id_of_raw:
  assumes "raw_track_of [] trak = ok [raw]"
  shows "track_id_of trak = ok (rt_id raw)"
  using assms by (auto simp: raw_track_of_def track_id_of_def track_id_in_def and_then_eq_Inr split: if_splits)

lemma find_member: "find P xs = Some x \<Longrightarrow> x \<in> set xs \<and> P x"
  by (induction xs) (auto split: if_splits)

lemma related_member: "list_all2 R xs ys \<Longrightarrow> x \<in> set xs \<Longrightarrow> \<exists>y \<in> set ys. R x y"
  by (induction xs ys rule: list_all2_induct) auto

lemma found_track:
  assumes "list_all2 (\<lambda>trak raw. raw_track_of [] trak = ok [raw]) (filter (\<lambda>c. bx_name c = ascii ''trak'') cs) raws"
    and "distinct (map rt_id raws)" and "raw \<in> set raws" and "find_track cs (rt_id raw) = ok trak"
  shows "raw_track_of [] trak = ok [raw]"
proof -
  let ?traks = "filter (\<lambda>c. bx_name c = ascii ''trak'') cs"
  have found: "trak \<in> set ?traks" "track_id_of trak = ok (rt_id raw)"
    using find_member [of "\<lambda>t. track_id_of t = ok (rt_id raw)" ?traks trak] assms(4)
    by (auto simp: find_track_def ok_or_eq_Inr)
  from found(1) obtain other where other: "other \<in> set raws" "raw_track_of [] trak = ok [other]"
    using related_member [OF assms(1)] by blast
  have "rt_id other = rt_id raw" using track_id_of_raw [OF other(2)] found(2) by simp
  then have "other = raw" using assms(2,3) other(1) by (auto simp: distinct_map dest: inj_onD)
  then show ?thesis using other(2) by simp
qed

lemma trex_reads_back:
  assumes "id' < u32_limit"
  shows "parse_trex (replicate 4 0 @ be_bytes 4 id' @ be_bytes 4 1 @ replicate 12 0) = ok (id', no_defaults)"
proof -
  let ?p = "replicate 4 0 @ be_bytes 4 id' @ be_bytes 4 1 @ replicate 12 (0 :: byte)"
  have "subslice ?p 4 8 = be_bytes 4 id'" "subslice ?p 12 16 = replicate 4 0" "subslice ?p 16 20 = replicate 4 0"
      "subslice ?p 20 24 = replicate 4 0"
    by (simp_all add: subslice_def)
  then show ?thesis
    using assms by (simp add: parse_trex_def reads_at no_defaults_def and_then_eq_Inr)
qed

definition trex_payload :: "nat \<Rightarrow> bytes" where
  "trex_payload t = replicate 4 0 @ be_bytes 4 t @ be_bytes 4 1 @ replicate 12 0"

lemma track_extends_box: "track_extends t = box_bytes (ascii ''trex'') (trex_payload t)"
  by (simp add: track_extends_def box_bytes_def trex_payload_def)

lemma defaults_read_back:
  assumes "\<forall>t \<in> set ids. t < u32_limit" and "length (concat (map track_extends ids)) < u64_limit"
  shows "parse_defaults (concat (map track_extends ids)) = ok (\<lambda>t. if t \<in> set ids then Some no_defaults else None)"
proof -
  let ?bs = "map (\<lambda>t. (ascii ''trex'', trex_payload t)) ids"
  have whole: "concat (map track_extends ids) = concat (map (\<lambda>(n, p). box_bytes n p) ?bs)"
    by (simp add: track_extends_box [abs_def] comp_def)
  have children: "child_boxes (concat (map track_extends ids)) = ok (map written ?bs)"
    using child_boxes_written [of ?bs] assms(2) unfolding whole by (simp add: trex_payload_def)
  have "try_fold (\<lambda>defaults trex. and_then (parse_trex (bx_payload trex)) (\<lambda>(track_id, d). ok (defaults(track_id \<mapsto> d))))
      m (map written (map (\<lambda>t. (ascii ''trex'', trex_payload t)) ts)) =
      ok (\<lambda>t. if t \<in> set ts then Some no_defaults else m t)" if "\<forall>t \<in> set ts. t < u32_limit" for ts m
    using that
  proof (induction ts arbitrary: m)
    case (Cons t ts)
    then show ?case using trex_reads_back [of t]
      by (auto simp: written_def trex_payload_def fun_eq_iff)
  qed simp
  note this [OF assms(1), of Map.empty]
  moreover have "filter (\<lambda>b. bx_name b = ascii ''trex'') (map written ?bs) = map written ?bs"
    by (simp add: filter_eq_Cons_iff filter_id_conv written_def)
  ultimately show ?thesis by (simp add: parse_defaults_def children)
qed

lemma added_tracks:
  assumes "try_fold (add_track cs p) (movie, extends) ids = ok (movie', extends')"
  shows "\<exists>ts. movie' = movie @ concat (map (box_bytes (ascii ''trak'')) ts) \<and> extends' = extends @ concat (map track_extends ids)
    \<and> list_all2 (\<lambda>t out. length out + 8 < u32_limit
        \<and> (\<exists>trak. find_track cs t = ok trak \<and> track_box trak t p = ok out)) ids ts"
  using assms
proof (induction ids arbitrary: movie extends)
  case (Cons t ids)
  obtain trak out where out: "find_track cs t = ok trak" "track_box trak t p = ok out" "length out + 8 < u32_limit"
      "try_fold (add_track cs p) (movie @ box_bytes (ascii ''trak'') out, extends @ track_extends t) ids = ok (movie', extends')"
    using Cons.prems by (auto simp: add_track_def and_then_eq_Inr init_write_box_eq_Inr)
  obtain ts where "movie' = (movie @ box_bytes (ascii ''trak'') out) @ concat (map (box_bytes (ascii ''trak'')) ts)"
      "extends' = (extends @ track_extends t) @ concat (map track_extends ids)"
      "list_all2 (\<lambda>t out. length out + 8 < u32_limit
        \<and> (\<exists>trak. find_track cs t = ok trak \<and> track_box trak t p = ok out)) ids ts"
    using Cons.IH [OF out(4)] by blast
  then show ?case using out by (intro exI [of _ "out # ts"]) auto
qed simp

text \<open>What a written init segment is made of.\<close>

lemma init_parts:
  assumes "write_init md ids p = ok out"
  obtains moov cs header h ts movie where "box_payload (md_moov_bytes md) 0 = ok moov" and "child_boxes (bx_payload moov) = ok cs"
    and "find (\<lambda>c. bx_name c = ascii ''mvhd'') cs = Some header"
    and "with_zero_duration (bx_payload header) MOVIE_OR_MEDIA = ok h"
    and "list_all2 (\<lambda>t out. length out + 8 < u32_limit
        \<and> (\<exists>trak. find_track cs t = ok trak \<and> track_box trak t p = ok out)) ids ts"
    and "length h + 8 < u32_limit" and "length (concat (map track_extends ids)) + 8 < u32_limit"
    and "movie = concat (map (\<lambda>(n, p). box_bytes n p) ((ascii ''mvhd'', h) # map (Pair (ascii ''trak'')) ts
        @ [(ascii ''mvex'', concat (map track_extends ids))])) @ (case p of None \<Rightarrow> [] | Some p \<Rightarrow> concat (ip_pssh p))"
    and "length movie + 8 < u32_limit" and "out = FTYP @ box_bytes (ascii ''moov'') movie"
proof -
  obtain moov cs header h movie1 extends where parts: "box_payload (md_moov_bytes md) 0 = ok moov"
    "child_boxes (bx_payload moov) = ok cs" "find (\<lambda>c. bx_name c = ascii ''mvhd'') cs = Some header"
    "with_zero_duration (bx_payload header) MOVIE_OR_MEDIA = ok h" "length h + 8 < u32_limit"
    and folded: "try_fold (add_track cs p) (box_bytes (ascii ''mvhd'') h, []) ids = ok (movie1, extends)"
    and rest: "length extends + 8 < u32_limit"
      "length ((movie1 @ box_bytes (ascii ''mvex'') extends) @ (case p of None \<Rightarrow> [] | Some p \<Rightarrow> concat (ip_pssh p))) + 8 < u32_limit"
      "out = FTYP @ box_bytes (ascii ''moov'') ((movie1 @ box_bytes (ascii ''mvex'') extends)
        @ (case p of None \<Rightarrow> [] | Some p \<Rightarrow> concat (ip_pssh p)))"
    using assms unfolding write_init_def
    by (elim iffD1 [OF and_then_eq_Inr, elim_format] exE conjE) (auto simp: and_then_eq_Inr init_write_box_eq_Inr ok_or_eq_Inr)
  from added_tracks [OF folded] obtain ts where ts:
      "movie1 = box_bytes (ascii ''mvhd'') h @ concat (map (box_bytes (ascii ''trak'')) ts)"
      "extends = concat (map track_extends ids)" "list_all2 (\<lambda>t out. length out + 8 < u32_limit
        \<and> (\<exists>trak. find_track cs t = ok trak \<and> track_box trak t p = ok out)) ids ts"
    by auto
  show thesis
    by (rule that [OF parts(1-4) ts(3) parts(5) _ refl]) (use rest in \<open>simp_all add: ts comp_def\<close>)
qed

text \<open>
  A track of the file and the track of the init segment: the same id and handler, the same timescale
  and language and no duration, a sample description that is not protected, named by the format that the
  samples of the file have once they are decrypted, and no samples.
\<close>

definition carried :: "raw_track \<Rightarrow> raw_track \<Rightarrow> bool" where
  "carried orig raw \<longleftrightarrow> rt_id raw = rt_id orig \<and> rt_handler raw = rt_handler orig \<and> rt_disposition raw = Package
     \<and> (\<exists>entry. entry_of raw = ok entry \<and> packaged_format (bx_name entry) \<and> entry_format orig = ok (bx_name entry))
     \<and> and_then (sample_table_of raw) (\<lambda>stbl. sample_count (bx_payload stbl)) = ok 0
     \<and> (\<forall>header. media_header_of orig = ok header \<longrightarrow> media_header_of raw = ok (header\<lparr>mh_duration := 0\<rparr>))"

definition init_source :: "raw_moov \<Rightarrow> nat \<Rightarrow> bool" where
  "init_source m t \<longleftrightarrow> (\<exists>raw \<in> set (rm_tracks m). rt_id raw = t \<and> rt_disposition raw = Package
     \<and> (\<exists>name \<in> set (map ascii packaged_entries). entry_format raw = ok name))"

lemma tracks_carried:
  assumes raws: "list_all2 (\<lambda>trak raw. raw_track_of [] trak = ok [raw]) (filter (\<lambda>c. bx_name c = ascii ''trak'') cs) (rm_tracks m)"
      "distinct (map rt_id (rm_tracks m))"
    and "list_all2 (\<lambda>t out. length out + 8 < u32_limit
        \<and> (\<exists>trak. find_track cs t = ok trak \<and> track_box trak t None = ok out)) ids ts"
    and "\<forall>t \<in> set ids. init_source m t" and "distinct ids" and "rt_id ` set acc \<inter> set ids = {}"
  shows "\<exists>raws'. try_fold raw_track_of acc (map (\<lambda>t. written (ascii ''trak'', t)) ts) = ok (acc @ raws')
    \<and> map rt_id raws' = ids \<and> (\<forall>raw \<in> set raws'. \<exists>orig \<in> set (rm_tracks m). carried orig raw)"
  using assms(3-)
proof (induction ids ts arbitrary: acc rule: list_all2_induct)
  case (Cons t ids out ts)
  obtain trak where trak: "find_track cs t = ok trak" "track_box trak t None = ok out" and small: "length out < u32_limit"
    using Cons.hyps(1) by auto
  obtain raw name where raw: "raw \<in> set (rm_tracks m)" "rt_id raw = t" "rt_disposition raw = Package"
      and format: "entry_format raw = ok name" "packaged_format name"
    using Cons.prems(1) by (auto simp: init_source_def packaged_format_def)
  have src: "raw_track_of [] trak = ok ([] @ [raw])"
    using found_track [OF raws raw(1)] trak(1) raw(2) by simp
  have box: "track_box trak (rt_id raw) None = ok out" using trak(2) raw(2) by simp
  have fresh: "rt_id raw \<notin> rt_id ` set acc" using Cons.prems(3) raw(2) by auto
  note reread = track_box_reads_back [OF src raw(3) format box small fresh]
  let ?raw = "raw\<lparr>rt_trak := out\<rparr>"
  have "carried raw ?raw" using reread(2-4) raw(3) format by (auto simp: carried_def)
  moreover have "rt_id ` set (acc @ [?raw]) \<inter> set ids = {}"
    using Cons.prems(2,3) raw(2) by auto
  then obtain raws' where "try_fold raw_track_of (acc @ [?raw]) (map (\<lambda>t. written (ascii ''trak'', t)) ts) = ok ((acc @ [?raw]) @ raws')"
      "map rt_id raws' = ids" "\<forall>raw \<in> set raws'. \<exists>orig \<in> set (rm_tracks m). carried orig raw"
    using Cons.IH [of "acc @ [?raw]"] Cons.prems(1,2) by auto
  ultimately show ?case
    using reread(1) raw(1,2) by (intro exI [of _ "?raw # raws'"]) auto
qed simp

lemma track_id_small: "track_id_in p = ok t \<Longrightarrow> t < u32_limit"
  by (auto simp: track_id_in_def and_then_eq_Inr rd_u32_def rd_take_def slice_def subslice_def intro!: be_value_less split: if_splits option.splits)

lemma init_source_small:
  assumes "list_all2 (\<lambda>trak raw. raw_track_of [] trak = ok [raw]) traks (rm_tracks m)" and "init_source m t"
  shows "t < u32_limit"
proof -
  obtain raw where raw: "raw \<in> set (rm_tracks m)" "rt_id raw = t" using assms(2) by (auto simp: init_source_def)
  then obtain trak where "raw_track_of [] trak = ok [raw]"
    using assms(1) by (auto simp: list_all2_conv_all_nth in_set_conv_nth)
  then show ?thesis using raw(2) by (auto simp: raw_track_of_def and_then_eq_Inr dest: track_id_small split: if_splits)
qed

lemma init_movie:
  assumes src: "validate_raw_moov (md_moov_bytes md) = ok m" and out: "write_init md ids None = ok out"
    and "distinct ids" and "\<forall>t \<in> set ids. init_source m t"
  shows "\<exists>m'. validate_raw_moov (drop 24 out) = ok m' \<and> rm_fragmented m' \<and> rm_movie_timescale m' = rm_movie_timescale m
    \<and> rm_movie_duration m' = 0 \<and> map rt_id (rm_tracks m') = ids
    \<and> (\<forall>raw \<in> set (rm_tracks m'). rm_defaults m' (rt_id raw) = Some no_defaults
        \<and> (\<exists>orig \<in> set (rm_tracks m). carried orig raw))"
proof -
  obtain moov cs header h ts movie where parts: "box_payload (md_moov_bytes md) 0 = ok moov" "child_boxes (bx_payload moov) = ok cs"
    "find (\<lambda>c. bx_name c = ascii ''mvhd'') cs = Some header"
    "with_zero_duration (bx_payload header) MOVIE_OR_MEDIA = ok h"
    and ts: "list_all2 (\<lambda>t out. length out + 8 < u32_limit
        \<and> (\<exists>trak. find_track cs t = ok trak \<and> track_box trak t None = ok out)) ids ts"
    and sizes: "length h + 8 < u32_limit" "length (concat (map track_extends ids)) + 8 < u32_limit"
    and movie: "movie = concat (map (\<lambda>(n, p). box_bytes n p) ((ascii ''mvhd'', h) # map (Pair (ascii ''trak'')) ts
        @ [(ascii ''mvex'', concat (map track_extends ids))])) @ (case (None :: init_protection option) of None \<Rightarrow> [] | Some p \<Rightarrow> concat (ip_pssh p))"
    and whole: "length movie + 8 < u32_limit" "out = FTYP @ box_bytes (ascii ''moov'') movie"
    by (rule init_parts [OF out])
  have raws: "list_all2 (\<lambda>trak raw. raw_track_of [] trak = ok [raw]) (filter (\<lambda>c. bx_name c = ascii ''trak'') cs) (rm_tracks m)"
    and head: "\<exists>d r. and_then (rd_full_box (reader_new (bx_payload header))) (\<lambda>(version, r). read_timescale_and_duration r version)
      = ok (rm_movie_timescale m, d, r)" and scale: "rm_movie_timescale m \<noteq> 0"
    using src parts(1-3) raw_tracks_of [of "[]" "filter (\<lambda>c. bx_name c = ascii ''trak'') cs" "rm_tracks m"]
    by (auto simp: validate_raw_moov_def and_then_eq_Inr ok_or_def split: if_splits)
  have distinct: "distinct (map rt_id (rm_tracks m))" by (rule raw_tracks_distinct(1) [OF src])
  let ?ext = "concat (map track_extends ids)"
  let ?bs = "(ascii ''mvhd'', h) # map (Pair (ascii ''trak'')) ts @ [(ascii ''mvex'', ?ext)]"
  have "\<forall>t \<in> set ts. length t + 8 < u32_limit" using ts by (auto simp: list_all2_conv_all_nth in_set_conv_nth)
  then have fits: "\<forall>b \<in> set ?bs. boxable b" "length (concat (map (\<lambda>(n, p). box_bytes n p) ?bs)) < u64_limit"
    using sizes whole(1) unfolding movie by auto
  define kids where "kids = map written ?bs"
  have children: "child_boxes movie = ok kids"
    using child_boxes_written [OF fits] by (simp add: movie kids_def)
  have small: "\<forall>t \<in> set ids. t < u32_limit" using init_source_small [OF raws] assms(4) by blast
  have extends: "parse_defaults ?ext = ok (\<lambda>t. if t \<in> set ids then Some no_defaults else None)"
    by (rule defaults_read_back [OF small]) (use sizes in simp)
  have traks: "filter (\<lambda>c. bx_name c = ascii ''trak'') kids = map (\<lambda>t. written (ascii ''trak'', t)) ts"
    by (simp add: kids_def filter_map comp_def written_def)
  have mvex: "find (\<lambda>c. bx_name c = ascii ''mvex'') kids = Some (written (ascii ''mvex'', ?ext))"
    unfolding kids_def by (induction ts) (simp_all add: written_def)
  have mvhd: "find (\<lambda>c. bx_name c = ascii ''mvhd'') kids = Some (written (ascii ''mvhd'', h))"
    by (simp add: kids_def written_def)
  obtain raws' where raws': "try_fold raw_track_of [] (map (\<lambda>t. written (ascii ''trak'', t)) ts) = ok raws'"
      "map rt_id raws' = ids" "\<forall>raw \<in> set raws'. \<exists>orig \<in> set (rm_tracks m). carried orig raw"
    using tracks_carried [OF raws distinct ts assms(4,3), of "[]"] by auto
  obtain v r r' where head': "rd_full_box (reader_new h) = ok (v, r)"
      "read_timescale_and_duration r v = ok (rm_movie_timescale m, 0, r')"
    using head zero_duration_read [OF parts(4)] by (fastforce simp: and_then_eq_Inr)
  have root: "box_payload (drop 24 out) 0 = ok (written (ascii ''moov'', movie))"
    using box_payload_written [of "ascii ''moov''" movie "box_bytes (ascii ''moov'') movie" "[]"] whole
    by (simp add: FTYP_def)
  let ?m = "\<lparr>rm_movie_timescale = rm_movie_timescale m, rm_movie_duration = 0, rm_fragmented = True,
      rm_defaults = (\<lambda>t. if t \<in> set ids then Some no_defaults else None), rm_tracks = raws'\<rparr>"
  have "validate_raw_moov (drop 24 out) = ok ?m"
    unfolding validate_raw_moov_def root
    using children mvex mvhd traks extends head' scale raws'(1) by (simp add: written_def)
  then show ?thesis using raws'(2,3) by (intro exI [of _ ?m]) auto
qed

end
