(* ===== verification/Media_Opening.thy ===== *)
theory Media_Opening
  imports Movie_Parser_Laws Source_Metadata_Properties
begin

text \<open>
  Opening a source: discovery and parser together.  Nothing that a source returns makes them panic, and
  the index they return is sound.
\<close>

section \<open>Discovery returns\<close>

text \<open>A read inside the source returns as many bytes as were asked for, or an error.\<close>

definition source_honest :: "media_source \<Rightarrow> bool" where
  "source_honest src \<longleftrightarrow> ms_len src < u64_limit
     \<and> (\<forall>off n. off + n \<le> ms_len src \<longrightarrow>
          (case ms_read src (byte_range_new off n) of Inl f \<Rightarrow> f \<noteq> Panic | Inr bs \<Rightarrow> length bs = n))"

lemma window_safe:
  assumes "source_honest src" and "off + n \<le> ms_len src"
  shows "safe (fst (read_window src off n w))"
proof -
  let ?n = "min (max n WINDOW) (wsub64 (ms_len src) off)"
  have sub: "wsub64 (ms_len src) off = ms_len src - off" using assms by (simp add: source_honest_def)
  then have "off + ?n \<le> ms_len src" "n \<le> ?n" using assms(2) by auto
  then have "case ms_read src (byte_range_new off ?n) of Inl f \<Rightarrow> f \<noteq> Panic | Inr bs \<Rightarrow> length bs = ?n"
    using assms(1) unfolding source_honest_def by blast
  then show ?thesis
    using \<open>n \<le> ?n\<close> by (auto simp: read_window_def cut_window_def slice_def safe_def split: option.split sum.splits)
qed

lemma bind_safe:
  assumes "safe (fst (p w))" and "\<And>x w'. p w = (Inr x, w') \<Longrightarrow> safe (fst (f x w'))"
  shows "safe (fst (w_bind p f w))"
  using assms by (auto simp: w_bind_def safe_def split: prod.split sum.split)

lemma lift_safe [simp]: "safe (fst (w_lift r w)) = safe r"
  by (simp add: w_lift_def)

lemma slice_safe: "a \<le> b \<Longrightarrow> b \<le> length xs \<Longrightarrow> safe (slice xs a b)"
  by (simp add: slice_def)

lemma read_header_safe:
  assumes "source_honest src" and "e \<le> ms_len src"
  shows "safe (fst (read_header src off e w))"
proof -
  have size: "safe (fst (declared_size src off e n w'))" for n w'
    unfolding declared_size_def
    using assms(2) by (auto intro!: bind_safe window_safe [OF assms(1)] safe_and_then slice_safe dest!: read_window_length)
  show ?thesis
    unfolding read_header_def
    using assms(2) by (auto intro!: bind_safe size window_safe [OF assms(1)] slice_safe dest!: read_window_length)
qed

lemma subsegment_safe:
  assumes "source_honest src" and "e \<le> ms_len src"
  shows "safe (subsegment_loop src off e found w)"
proof (induction "e - off" arbitrary: off found w rule: less_induct)
  case less
  obtain r w1 where header: "read_header src off e w = (r, w1)" by (cases "read_header src off e w")
  consider "e \<le> off" | f where "off < e" "r = Inl f" | h where "off < e" "r = Inr h" by (cases r; cases "e \<le> off") auto
  then show ?case
  proof cases
    case 1
    then show ?thesis by (subst subsegment_loop.simps) simp
  next
    case (2 f)
    note Inl = 2(2)
    moreover have "f \<noteq> Panic" using read_header_safe [OF assms, of off w] header Inl by (simp add: safe_def)
    ultimately show ?thesis
      using header by (subst subsegment_loop.simps) (auto simp: safe_def split: fault.split error.split)
  next
    case (3 h)
    note Inr = 3(2)
    have fits: "8 \<le> bh_size h \<and> off + bh_size h \<le> e" using read_header_size [of src off e w h w1] header Inr by simp
    then have "safe (subsegment_loop src (off + bh_size h) e found' w')" for found' w'
      by (intro less) (use fits in linarith)
    moreover have "safe (fst (read_window src off (bh_size h) w1))"
      using window_safe [OF assms(1)] fits assms(2) by simp
    ultimately show ?thesis
      using header Inr by (subst subsegment_loop.simps) (auto simp: safe_def split: prod.split sum.split)
  qed
qed

lemma coverage_ranges_within:
  "(start, e) \<in> set (coverage_ranges off sizes) \<Longrightarrow> e \<le> off + sum_list sizes"
  by (induction sizes arbitrary: off) fastforce+

lemma collect_finished_safe:
  assumes "source_honest src" and "\<forall>(start, e) \<in> set ranges. e \<le> ms_len src" and "set order \<subseteq> {..<length ranges}"
  shows "safe (collect_finished src ranges results order)"
  using assms(3)
proof (induction order arbitrary: results)
  case (Cons i order)
  obtain start e where at: "index_at ranges i = ok (start, e)" "e \<le> ms_len src"
    using Cons.prems assms(2) nth_mem [of i ranges] by (cases "ranges ! i") (auto simp: index_at_def)
  have "safe (walk_subsegment src start e)"
    unfolding walk_subsegment_def by (rule subsegment_safe [OF assms(1) at(2)])
  then show ?case using Cons at(1) by (auto intro!: safe_and_then split: option.split)
qed simp

lemma coverage_ranges_length [simp]: "length (coverage_ranges off sizes) = length sizes"
  by (induction sizes arbitrary: off) simp_all

lemma try_jump_safe:
  assumes "source_honest src" and "\<And>n. set (order n) \<subseteq> {..<n}"
  shows "safe (try_jump src l order off w)"
proof -
  have "safe (fetch_by_sidx src order c)" if "coverage_end c = Some e" "e \<le> ms_len src" for c e
    unfolding fetch_by_sidx_def Let_def
    by (rule collect_finished_safe [OF assms(1)])
      (use coverage_end_sum [OF that(1)] that(2) coverage_ranges_within assms(2) in fastforce)+
  moreover have "safe (add_metadata_bytes l n v)" for n v by (simp add: add_metadata_bytes_def)
  ultimately show ?thesis
    unfolding try_jump_def Let_def
    by (auto intro!: safe_and_then split: option.split)
qed

lemma walk_read_safe:
  assumes "source_honest src" and "off + n \<le> ms_len src"
  shows "safe (walk_read src off n w)"
  using window_safe [OF assms, of "wk_reader w"] by (auto simp: walk_read_def safe_def split: prod.split sum.split)

lemma record_box_safe:
  assumes "source_honest src" and "8 \<le> bh_size h" and "off + bh_size h \<le> ms_len src"
  shows "safe (record_box src l off h u w)"
proof -
  have "safe (count_other w)" "safe (record_mdat l w)" "safe (add_metadata_bytes l n w)" for n w
    by (simp_all add: count_other_def record_mdat_def add_metadata_bytes_def)
  moreover have "safe (walk_read src off (bh_size h) w)" "safe (walk_read src (off + 8) (bh_size h - 8) w)" for w
    using walk_read_safe [OF assms(1)] assms(2,3) by simp_all
  ultimately show ?thesis
    unfolding record_box_def record_moov_def record_moof_def record_sidx_def
    by (auto intro!: safe_and_then)
qed

lemma handle_cut_safe:
  assumes "source_honest src" and "off \<le> ms_len src"
  shows "safe (handle_cut src l off m w)"
proof -
  have size: "safe (fst (cut_size src off (ms_len src - off) n v))" for n v
    unfolding cut_size_def
    using assms(2) by (auto intro!: bind_safe window_safe [OF assms(1)] safe_and_then slice_safe dest!: read_window_length)
  have "safe (fst (cut_box src off (ms_len src) v))" for v
    unfolding cut_box_def Let_def
    using assms(2) by (auto intro!: bind_safe size window_safe [OF assms(1)] slice_safe dest!: read_window_length)
  moreover have "safe (drop_tail len off c v)" for len c v by (simp add: drop_tail_def)
  ultimately show ?thesis
    unfolding handle_cut_def
    by (auto simp: safe_def split: prod.split sum.split option.split) (metis fst_conv)
qed

lemma walk_run_safe:
  assumes "source_honest src" and "\<And>n. set (order n) \<subseteq> {..<n}"
  shows "safe (walk_run src l order u off w)"
proof (induction "ms_len src - off" arbitrary: off w rule: less_induct)
  case less
  have step: "safe (walk_run src l order u off v)"
    if "\<And>e v'. try_jump src l order off v = ok (Some e, v') \<Longrightarrow> safe (walk_run src l order u e v')" for v
  proof (cases "ms_len src \<le> off")
    case True
    then show ?thesis by (subst walk_run.simps) simp
  next
    case False
    have read: "safe (case read_header src off (ms_len src) (wk_reader v1) of
        (Inl (Fail (InvalidMedia message)), r) \<Rightarrow> handle_cut src l off message (v1\<lparr>wk_reader := r\<rparr>)
      | (Inl err, _) \<Rightarrow> Inl err
      | (Inr header, r) \<Rightarrow>
          and_then (record_box src l off header u (v1\<lparr>wk_reader := r\<rparr>)) (\<lambda>w2.
            walk_run src l order u (off + bh_size header) w2))" for v1
    proof -
      obtain x r where x: "read_header src off (ms_len src) (wk_reader v1) = (x, r)"
        by (cases "read_header src off (ms_len src) (wk_reader v1)")
      show ?thesis
      proof (cases x)
        case (Inl f)
        have "f \<noteq> Panic"
          using read_header_safe [OF assms(1), of "ms_len src" off "wk_reader v1"] x Inl by (simp add: safe_def)
        then show ?thesis
          using x Inl handle_cut_safe [OF assms(1)] False by (auto split: fault.split error.split)
      next
        case (Inr h)
        then have h: "8 \<le> bh_size h \<and> off + bh_size h \<le> ms_len src"
          using read_header_size [of src off "ms_len src" "wk_reader v1" h r] x by simp
        have "safe (walk_run src l order u (off + bh_size h) w2)" for w2
          by (intro less) (use h in linarith)
        then show ?thesis using x Inr h record_box_safe [OF assms(1)] by (auto intro!: safe_and_then)
      qed
    qed
    show ?thesis
      using False that read
      by (subst walk_run.simps) (auto intro!: safe_and_then try_jump_safe [OF assms] split: option.split)
  qed
  have settled: "safe (walk_run src l order u off v)" if "wk_pending v = None" for v
    using that by (intro step) (auto dest: try_jump_pending)
  show ?case
  proof (rule step)
    fix e v'
    assume jump: "try_jump src l order off w = ok (Some e, v')"
    note after = try_jump_pending [OF this]
    show "safe (walk_run src l order u e v')"
    proof (cases "e = off \<or> ms_len src \<le> off")
      case True
      then show ?thesis using after settled by (cases "e = off") (auto simp: walk_run.simps [of src l order u e])
    next
      case False
      show ?thesis by (intro less) (use False after in linarith)
    qed
  qed
qed

lemma fetch_safe:
  assumes "source_honest src" and "\<And>n. set (order n) \<subseteq> {..<n}"
  shows "safe (fetch src l order)"
  unfolding fetch_def fetch_with_def
  by (auto simp: add_metadata_bytes_def intro!: safe_and_then walk_run_safe [OF assms])

section \<open>Opening a source\<close>

text \<open>C3
  Opening a source never panics, whatever its bytes: the source may be any that answers a read inside it
  with as many bytes as were asked for or with an error, and parts of it may be read in any order.  The
  limits are those that a deployment may set: less than \<open>2\<^sup>3\<^sup>2\<close> bytes of metadata and samples per track.\<close>

theorem opening_never_panics:
  assumes "source_honest src" and "\<And>n. set (order n) \<subseteq> {..<n}"
    and "max_metadata_bytes l < u32_limit" and "max_samples_per_track l \<le> u32_limit"
    and "matches \<noteq> panic" and "verified \<noteq> panic"
  shows "parse_media blake3 src order identity l matches verified \<noteq> panic"
proof -
  have "metadata_small md" if "fetch src l order = ok md" for md
  proof -
    have "md_len md = ms_len src" using that by (auto simp: fetch_def fetch_with_def and_then_eq_Inr ok_or_eq_Inr)
    then show ?thesis
      using metadata_bounded [OF that [unfolded fetch_def]] assms(1,3) by (simp add: metadata_small_def source_honest_def)
  qed
  then have "safe (parse_media blake3 src order identity l matches verified)"
    using assms(5,6) fetch_safe [OF assms(1,2)] parse_metadata_safe [OF _ assms(4)]
    unfolding parse_media_def by (intro safe_steps) (auto simp: safe_def)
  then show ?thesis by (simp add: safe_def)
qed

text \<open>
  A sound index: each packaged track has samples, in decode order, all inside the source, and a
  timescale; no two tracks share an ID, packaged or set aside; and audio tracks are numbered in file
  order from 1.
\<close>

definition index_sound :: "nat \<Rightarrow> media_index \<Rightarrow> bool" where
  "index_sound len mi \<longleftrightarrow>
     (\<forall>t \<in> set (mi_tracks mi). track_sound len t)
     \<and> distinct (map tr_id (mi_tracks mi) @ map sk_id (mi_skipped_tracks mi))
     \<and> map tr_key (filter (\<lambda>t. tr_kind t = Audio) (mi_tracks mi))
         = map audio_key [1..<Suc (length (filter (\<lambda>t. tr_kind t = Audio) (mi_tracks mi)))]"

lemma kept_and_skipped:
  "distinct (map rt_id raws) \<Longrightarrow>
     distinct (map rt_id (filter (\<lambda>r. rt_disposition r = Package) raws)
       @ map sk_id (List.map_filter (\<lambda>r. case rt_disposition r of Package \<Rightarrow> None
           | Skip reason \<Rightarrow> Some \<lparr>sk_id = rt_id r, sk_handler = fourcc (rt_handler r), sk_reason = reason\<rparr>) raws))"
proof (induction raws)
  case (Cons r raws)
  have "sk_id s \<in> rt_id ` set raws"
    if "s \<in> set (List.map_filter (\<lambda>r. case rt_disposition r of Package \<Rightarrow> None
           | Skip reason \<Rightarrow> Some \<lparr>sk_id = rt_id r, sk_handler = fourcc (rt_handler r), sk_reason = reason\<rparr>) raws)" for s
    using that by (auto simp: List.map_filter_def split: disposition.splits)
  then show ?case
    using Cons by (cases "rt_disposition r") (auto simp: List.map_filter_simps)
qed (simp add: List.map_filter_simps)

lemma track_count: "assign_keys tracks = ts \<Longrightarrow> length ts = length tracks"
  using arg_cong [OF assign_keys_sound(2) [of tracks], of length] by simp

lemma numbered_audio:
  assumes "length tracks < u16_limit"
  shows "map tr_key (filter (\<lambda>t. tr_kind t = Audio) (assign_keys tracks))
    = map audio_key [1..<Suc (length (filter (\<lambda>t. tr_kind t = Audio) (assign_keys tracks)))]"
proof -
  let ?n = "length (filter (\<lambda>t. tr_kind t = Audio) tracks)"
  have keys: "map tr_key (filter (\<lambda>t. tr_kind t = Audio) (assign_keys tracks)) = map (\<lambda>i. audio_key (Suc i)) [0..<?n]"
    using audio_keys [of 0 tracks] assms by (simp add: assign_keys_def)
  have "length (filter (\<lambda>t. tr_kind t = Audio) (assign_keys tracks)) = ?n"
    using arg_cong [OF keys, of length] by (simp only: length_map length_upt)
  moreover have "map audio_key [1..<Suc ?n] = map (\<lambda>i. audio_key (Suc i)) [0..<?n]"
    by (simp add: comp_def map_Suc_upt [symmetric] del: upt_Suc)
  ultimately show ?thesis using keys by simp
qed

text \<open>C4
  The index of a file is sound, whatever its bytes: no packaged track is without samples or has one
  outside the source, and no two tracks share an ID or a key.\<close>

theorem opened_index_sound:
  assumes "parse_metadata blake3 md identity l = ok mi"
    and "metadata_small md" and "max_samples_per_track l \<le> u32_limit" and "max_tracks l < u16_limit"
  shows "index_sound (md_len md) mi"
proof -
  have len: "md_len md < u64_limit" "length (md_moov_bytes md) < u32_limit"
    using assms(2) by (simp_all add: metadata_small_def)
  obtain moov source parsed edited off timed where parts: "validate_raw_moov (md_moov_bytes md) = ok moov"
      "length (rm_tracks moov) \<le> max_tracks l"
      "collect_res (map (\<lambda>raw. parse_track raw (rm_movie_timescale moov) (md_len md) l source) (kept_tracks moov)) = ok parsed"
      "apply_edits parsed (rm_movie_timescale moov) = ok (edited, off)"
      "(if rm_fragmented moov then normalise_fragmented_timeline edited else ok edited) = ok timed"
      "mi_tracks mi = assign_keys timed" "mi_skipped_tracks mi = skipped_tracks_of moov"
    using assms(1) unfolding parse_metadata_def
    by (auto simp: and_then_eq_Inr Let_def case_prod_beta simp del: safe_simps split: if_split_asm)
  note parsed = parsed_tracks_sound [OF parts(3) _ assms(3) len(1)]
  note small = kept_payload [OF parts(1) _ len(2)]
  have sound: "\<forall>(t, e) \<in> set parsed. track_sound (md_len md) t" using parsed(1) small by blast
  note edited = apply_edits_sound [OF parts(4) sound]
  have timed: "(\<forall>t \<in> set timed. track_sound (md_len md) t) \<and> map tr_id timed = map tr_id edited"
    using parts(5) edited(1) normalise_sound by (auto split: if_splits)
  have ids: "map tr_id timed = map rt_id (kept_tracks moov)"
    using timed edited(2) parsed(2) small by simp
  have "length timed = length (kept_tracks moov)" using arg_cong [OF ids, of length] by simp
  also have "\<dots> \<le> max_tracks l" using parts(2) by (simp add: kept_tracks_def order_trans [OF length_filter_le])
  finally have few: "length timed < u16_limit" using assms(4) by simp
  show ?thesis
    unfolding index_sound_def parts(6,7) numbered_audio [OF few] assign_keys_sound(1)
    using timed ids kept_and_skipped [OF raw_tracks_distinct(1) [OF parts(1)]]
    by (simp add: assign_keys_sound kept_tracks_def skipped_tracks_of_def)
qed

text \<open>C5
  The timeline of a fragmented file starts at zero: the track that starts first, in seconds, decides by
  how much all tracks move, each by that time in its own ticks rounded down, so no sample moves before
  zero and one track starts there; and each track's duration is where its last sample ends.\<close>

theorem fragmented_timeline_at_origin:
  assumes "\<forall>t \<in> set tracks. track_sound len t" and "tracks \<noteq> []"
    and "normalise_fragmented_timeline tracks = ok tracks'"
  shows "\<exists>e. is_earliest tracks e
    \<and> list_all2 (\<lambda>t t'. origin_ticks e t \<le> first_ticks t \<and> tr_duration t' = last_end (index_samples (tr_samples t'))
        \<and> index_samples (tr_samples t') = map (shift_sample (- int (origin_ticks e t))) (index_samples (tr_samples t)))
        tracks tracks'
    \<and> (\<exists>t' \<in> set tracks'. first_ticks t' = 0)"
proof -
  obtain e where e: "is_earliest tracks e"
      "map (shift_to_origin (first_ticks e, tr_timescale e)) tracks = map ok tracks'"
    using normalise_earliest [OF assms(1,2)] assms(3) collect_res_eq_Inr by metis
  have scale: "tr_timescale e \<noteq> 0" using e(1) assms(1) by (auto simp: is_earliest_def track_sound_def)
  have all: "list_all2 (\<lambda>t t'. origin_ticks e t \<le> first_ticks t \<and> tr_duration t' = last_end (index_samples (tr_samples t'))
        \<and> index_samples (tr_samples t') = map (shift_sample (- int (origin_ticks e t))) (index_samples (tr_samples t)))
        tracks tracks'"
    by (rule list.rel_mono_strong [OF map_ok_related [OF e(2)]])
      (use assms(1) shift_to_origin_eq(1,2,7) [OF _ scale] in blast)
  obtain i where i: "i < length tracks" "tracks ! i = e" using e(1) by (auto simp: is_earliest_def in_set_conv_nth)
  have "origin_ticks e e = first_ticks e" using scale by (simp add: origin_ticks_def)
  moreover have "index_samples (tr_samples e) \<noteq> []" using assms(1) i by (auto simp: track_sound_def)
  ultimately have "first_ticks (tracks' ! i) = 0"
    using list_all2_nthD [OF all i(1)] i(2) by (simp add: first_ticks_def hd_map shift_sample_def)
  then have "\<exists>t' \<in> set tracks'. first_ticks t' = 0" using i(1) list_all2_lengthD [OF all] nth_mem by metis
  then show ?thesis using e(1) all by blast
qed

end
