(* ===== verification/Media_Opening_Examples.thy ===== *)
theory Media_Opening_Examples
  imports Media_Opening Key_Laws Fragment_Writer_Laws
begin

text \<open>
  Opening a small file: one audio track, and one track that is set aside.  The boxes are walked by the
  laws of written boxes, and only the fields are evaluated.
\<close>

section \<open>Walking written boxes\<close>

definition boxes :: "(string \<times> bytes) list \<Rightarrow> bytes" where
  "boxes bs = concat (map (\<lambda>(n, p). box_bytes n p) (map (\<lambda>(n, p). (ascii n, p)) bs))"

definition box_of :: "string \<times> bytes \<Rightarrow> raw_box" where
  "box_of = (\<lambda>(n, p). \<lparr>bx_name = ascii n, bx_payload = p, bx_size = length p + 8\<rparr>)"

definition fits :: "(string \<times> bytes) list \<Rightarrow> bool" where
  "fits bs \<longleftrightarrow> (\<forall>(n, p) \<in> set bs. length n = 4) \<and> length (boxes bs) < u32_limit"

lemma length_boxes: "length (boxes bs) = sum_list (map (\<lambda>(n, p). 4 + length n + length p) bs)"
  by (induction bs) (auto simp: boxes_def)

lemma child_boxes_of:
  assumes "fits bs"
  shows "child_boxes (boxes bs) = ok (map box_of bs)"
proof -
  have "boxable (ascii n, p)" if "(n, p) \<in> set bs" for n p
  proof -
    have "4 + length n + length p \<in> set (map (\<lambda>(n, p). 4 + length n + length p) bs)" using that by force
    then have "4 + length n + length p \<le> length (boxes bs)" unfolding length_boxes by (rule member_le_sum_list) simp
    then show ?thesis using assms that by (auto simp: fits_def)
  qed
  then have "\<forall>b \<in> set (map (\<lambda>(n, p). (ascii n, p)) bs). boxable b" by auto
  moreover have "length (concat (map (\<lambda>(n, p). box_bytes n p) (map (\<lambda>(n, p). (ascii n, p)) bs))) < u64_limit"
    using assms by (simp add: fits_def boxes_def)
  ultimately show ?thesis
    using child_boxes_written [of "map (\<lambda>(n, p). (ascii n, p)) bs"]
    by (simp add: boxes_def box_of_def written_def case_prod_beta comp_def)
qed

lemma find_child:
  assumes "fits bs"
  shows "optional_child (boxes bs) (ascii m) = ok (map_option (\<lambda>p. box_of (m, p)) (map_of bs m))"
proof -
  have "find (\<lambda>c. bx_name c = ascii m) (map box_of bs) = map_option (\<lambda>p. box_of (m, p)) (map_of bs m)"
    by (induction bs) (auto simp: box_of_def)
  then show ?thesis using child_boxes_of [OF assms] by (simp add: optional_child_def)
qed

lemma box_of_fields [simp]: "bx_name (box_of (n, p)) = ascii n" "bx_payload (box_of (n, p)) = p"
  by (simp_all add: box_of_def)

section \<open>The file\<close>

definition opus_leaf :: bytes where
  "opus_leaf = replicate 16 0 @ [0, 2] @ replicate 10 0 @ boxes [(''dOps'', [0, 2])]"
definition stsd_leaf :: bytes where "stsd_leaf = replicate 4 0 @ be_bytes 4 1 @ boxes [(''Opus'', opus_leaf)]"
definition stts_leaf :: bytes where "stts_leaf = replicate 4 0 @ be_bytes 4 1 @ be_bytes 4 3 @ be_bytes 4 20"
definition stsc_leaf :: bytes where "stsc_leaf = replicate 4 0 @ concat (map (be_bytes 4) [1, 1, 3, 1])"
definition stsz_leaf :: bytes where "stsz_leaf = replicate 4 0 @ concat (map (be_bytes 4) [5, 3])"
definition stco_leaf :: bytes where "stco_leaf = replicate 4 0 @ concat (map (be_bytes 4) [1, 600])"

definition stbl_boxes :: "(string \<times> bytes) list" where
  "stbl_boxes = [(''stsd'', stsd_leaf), (''stts'', stts_leaf), (''stsc'', stsc_leaf), (''stsz'', stsz_leaf), (''stco'', stco_leaf)]"

definition dref_leaf :: bytes where
  "dref_leaf = replicate 4 0 @ be_bytes 4 1 @ boxes [(''url '', [0, 0, 0, 1])]"

lemma leaf_lengths:
  "length opus_leaf = 38" "length stsd_leaf = 54" "length stts_leaf = 16" "length stsc_leaf = 20" "length stsz_leaf = 12"
  "length stco_leaf = 12"
  by code_simp+

definition mdhd_leaf :: bytes where "mdhd_leaf = replicate 12 0 @ be_bytes 4 1000 @ be_bytes 4 60 @ be_bytes 2 0x55C4"
definition hdlr_leaf :: "string \<Rightarrow> bytes" where "hdlr_leaf handler = replicate 8 0 @ ascii handler"
definition tkhd_leaf :: "nat \<Rightarrow> bytes" where "tkhd_leaf n = replicate 12 0 @ be_bytes 4 n @ replicate 8 0"
definition mvhd_leaf :: bytes where "mvhd_leaf = replicate 12 0 @ be_bytes 4 1000 @ be_bytes 4 0"

definition minf_boxes :: "(string \<times> bytes) list" where
  "minf_boxes = [(''dinf'', boxes [(''dref'', dref_leaf)]), (''stbl'', boxes stbl_boxes)]"

definition mdia_boxes :: "(string \<times> bytes) list" where
  "mdia_boxes = [(''mdhd'', mdhd_leaf), (''hdlr'', hdlr_leaf ''soun''), (''minf'', boxes minf_boxes)]"

definition trak_boxes :: "(string \<times> bytes) list" where
  "trak_boxes = [(''tkhd'', tkhd_leaf 7), (''mdia'', boxes mdia_boxes)]"

definition text_boxes :: "(string \<times> bytes) list" where
  "text_boxes = [(''tkhd'', tkhd_leaf 9), (''mdia'', boxes [(''hdlr'', hdlr_leaf ''text'')])]"

definition moov_boxes :: "(string \<times> bytes) list" where
  "moov_boxes = [(''mvhd'', mvhd_leaf), (''trak'', boxes trak_boxes), (''trak'', boxes text_boxes)]"

lemma example_fits:
  "fits stbl_boxes" "fits minf_boxes" "fits mdia_boxes" "fits trak_boxes" "fits text_boxes" "fits moov_boxes"
  "fits [(''moov'', boxes moov_boxes)]" "fits [(''hdlr'', hdlr_leaf ''text'')]" "fits [(''dref'', dref_leaf)]"
  by (simp_all add: fits_def length_boxes leaf_lengths stbl_boxes_def dref_leaf_def minf_boxes_def mdia_boxes_def trak_boxes_def
      text_boxes_def moov_boxes_def mdhd_leaf_def hdlr_leaf_def tkhd_leaf_def mvhd_leaf_def)

lemma boxes_at:
  "map_of stbl_boxes ''stsd'' = Some stsd_leaf" "map_of stbl_boxes ''stts'' = Some stts_leaf"
  "map_of stbl_boxes ''stsc'' = Some stsc_leaf" "map_of stbl_boxes ''stsz'' = Some stsz_leaf"
  "map_of stbl_boxes ''stco'' = Some stco_leaf" "map_of stbl_boxes ''ctts'' = None" "map_of stbl_boxes ''stss'' = None"
  "map_of minf_boxes ''dinf'' = Some (boxes [(''dref'', dref_leaf)])" "map_of minf_boxes ''stbl'' = Some (boxes stbl_boxes)"
  "map_of mdia_boxes ''mdhd'' = Some mdhd_leaf" "map_of mdia_boxes ''hdlr'' = Some (hdlr_leaf ''soun'')"
  "map_of mdia_boxes ''minf'' = Some (boxes minf_boxes)"
  "map_of trak_boxes ''tkhd'' = Some (tkhd_leaf 7)" "map_of trak_boxes ''mdia'' = Some (boxes mdia_boxes)"
  "map_of trak_boxes ''edts'' = None"
  "map_of text_boxes ''tkhd'' = Some (tkhd_leaf 9)" "map_of text_boxes ''mdia'' = Some (boxes [(''hdlr'', hdlr_leaf ''text'')])"
  by (simp_all add: stbl_boxes_def minf_boxes_def mdia_boxes_def trak_boxes_def text_boxes_def)

lemmas found = required_child_def example_fits [THEN find_child] boxes_at

lemma data_reference_valid: "validate_data_reference (boxes minf_boxes) = ok ()"
proof -
  have "rd_full_box (reader_new dref_leaf) = ok (0, \<lparr>rd_data = dref_leaf, rd_position = 4\<rparr>)"
      "rd_u32 \<lparr>rd_data = dref_leaf, rd_position = 4\<rparr> = ok (1, \<lparr>rd_data = dref_leaf, rd_position = 8\<rparr>)"
      "child_boxes (rd_rest \<lparr>rd_data = dref_leaf, rd_position = 8\<rparr>) = ok [box_of (''url '', [0, 0, 0, 1])]"
    by code_simp+
  then show ?thesis by (simp add: validate_data_reference_def found get_at_def)
qed

lemma sample_entry_found:
  "stsd_entry_count (boxes stbl_boxes) = ok (1, \<lparr>rd_data = stsd_leaf, rd_position = 8\<rparr>)"
  "sample_entry_of (boxes stbl_boxes) = ok (box_of (''Opus'', opus_leaf))"
proof -
  have "rd_full_box (reader_new stsd_leaf) = ok (0, \<lparr>rd_data = stsd_leaf, rd_position = 4\<rparr>)"
      "rd_u32 \<lparr>rd_data = stsd_leaf, rd_position = 4\<rparr> = ok (1, \<lparr>rd_data = stsd_leaf, rd_position = 8\<rparr>)"
    by code_simp+
  then show count: "stsd_entry_count (boxes stbl_boxes) = ok (1, \<lparr>rd_data = stsd_leaf, rd_position = 8\<rparr>)"
    by (simp add: stsd_entry_count_def found)
  have "child_boxes (rd_rest \<lparr>rd_data = stsd_leaf, rd_position = 8\<rparr>) = ok [box_of (''Opus'', opus_leaf)]"
    by code_simp
  then show "sample_entry_of (boxes stbl_boxes) = ok (box_of (''Opus'', opus_leaf))"
    by (simp add: sample_entry_of_def count get_at_def)
qed

lemma tables_parsed:
  "parse_sample_tables (boxes stbl_boxes) = ok \<lparr>st_time_to_sample = [(3, 20)], st_composition = None, st_sync = None,
     st_sample_to_chunk = [(1, 3)], st_sizes = ConstantSize 5 3, st_chunk_offsets = [600]\<rparr>"
proof -
  have "parse_chunk_offsets stco_leaf False = ok [600]" "parse_stsz stsz_leaf = ok (ConstantSize 5 3)"
      "parse_runs stts_leaf = ok [(3, 20)]" "parse_stsc stsc_leaf = ok [(1, 3)]"
    by code_simp+
  then show ?thesis
    by (simp add: parse_sample_tables_def parse_offsets_of_def parse_sizes_of_def parse_required_def parse_optional_def found)
qed

section \<open>Parsing it\<close>

definition audio_raw :: raw_track where
  "audio_raw = \<lparr>rt_id = 7, rt_handler = ascii ''soun'', rt_disposition = Package, rt_trak = boxes trak_boxes\<rparr>"

definition aside_raw :: raw_track where
  "aside_raw = \<lparr>rt_id = 9, rt_handler = ascii ''text'', rt_disposition = Skip ''not an audio or video track'',
     rt_trak = boxes text_boxes\<rparr>"

lemma raw_tracks_found:
  "raw_track_of [] (box_of (''trak'', boxes trak_boxes)) = ok [audio_raw]"
  "raw_track_of [audio_raw] (box_of (''trak'', boxes text_boxes)) = ok [audio_raw, aside_raw]"
proof -
  have leaves: "track_id_in (tkhd_leaf 7) = ok 7" "track_id_in (tkhd_leaf 9) = ok 9"
      "handler_type (hdlr_leaf ''soun'') = ok (ascii ''soun'')" "handler_type (hdlr_leaf ''text'') = ok (ascii ''text'')"
    by code_simp+
  have "classify_sample_description 7 (ascii ''soun'') (boxes stbl_boxes) = ok Package"
    by (simp add: classify_sample_description_def sample_entry_found packaged_entries_def)
  then show "raw_track_of [] (box_of (''trak'', boxes trak_boxes)) = ok [audio_raw]"
    by (simp add: raw_track_of_def found leaves data_reference_valid audio_raw_def)
  show "raw_track_of [audio_raw] (box_of (''trak'', boxes text_boxes)) = ok [audio_raw, aside_raw]"
    by (simp add: raw_track_of_def found leaves aside_raw_def audio_raw_def)
qed

definition raw_example :: raw_moov where
  "raw_example = \<lparr>rm_movie_timescale = 1000, rm_movie_duration = 0, rm_fragmented = False, rm_defaults = Map.empty,
     rm_tracks = [audio_raw, aside_raw]\<rparr>"

lemma raw_moov_found: "validate_raw_moov (box_bytes (ascii ''moov'') (boxes moov_boxes)) = ok raw_example"
proof -
  have header: "rd_full_box (reader_new mvhd_leaf) = ok (0, \<lparr>rd_data = mvhd_leaf, rd_position = 4\<rparr>)"
      "read_timescale_and_duration \<lparr>rd_data = mvhd_leaf, rd_position = 4\<rparr> 0 = ok (1000, 0, \<lparr>rd_data = mvhd_leaf, rd_position = 20\<rparr>)"
    by code_simp+
  have small: "length (boxes moov_boxes) + 8 < u32_limit" using example_fits(7) by (simp add: fits_def length_boxes)
  have root: "box_payload (box_bytes (ascii ''moov'') (boxes moov_boxes)) 0 = ok (written (ascii ''moov'', boxes moov_boxes))"
    by (rule box_payload_written [where rest = "[]"]) (use small in simp_all)
  show ?thesis
    unfolding validate_raw_moov_def root
    by (simp add: written_def child_boxes_of [OF example_fits(6)], simp add: moov_boxes_def header raw_tracks_found raw_example_def)
qed

lemma example_indexed:
  "case sample_index_of \<lparr>st_time_to_sample = [(3, 20)], st_composition = None, st_sync = None,
     st_sample_to_chunk = [(1, 3)], st_sizes = ConstantSize 5 3, st_chunk_offsets = [600]\<rparr> 800 (limits_default None) of
     Inl f \<Rightarrow> False | Inr s \<Rightarrow> \<not> index_is_empty s"
  by code_simp

lemma example_track_parsed:
  "\<exists>t. parse_track audio_raw 1000 800 (limits_default None) Tables_Source = ok (t, NONE_EDIT)
     \<and> tr_kind t = Audio \<and> tr_timescale t = 1000"
proof -
  have header: "parse_media_header mdhd_leaf 7 = ok \<lparr>mh_timescale = 1000, mh_duration = 60, mh_language = ''und''\<rparr>"
    by code_simp
  have "parse_opus opus_leaf 7 = ok (Opus 2)" by code_simp
  then have codec: "codec_of audio_raw (box_of (''Opus'', opus_leaf)) (ascii ''Opus'') = ok (Opus 2)"
    by (simp add: codec_of_def audio_raw_def)
  obtain s where s: "sample_index_of \<lparr>st_time_to_sample = [(3, 20)], st_composition = None, st_sync = None,
     st_sample_to_chunk = [(1, 3)], st_sizes = ConstantSize 5 3, st_chunk_offsets = [600]\<rparr> 800 (limits_default None) = ok s"
      "\<not> index_is_empty s"
    using example_indexed by (auto split: sum.splits)
  then have samples: "samples_of audio_raw (boxes stbl_boxes) 800 (limits_default None) Tables_Source = ok s"
    by (simp add: samples_of_def tables_parsed)
  have edit: "track_edit_of audio_raw 1000 1000 = ok NONE_EDIT" by (simp add: track_edit_of_def audio_raw_def found)
  have "rt_trak audio_raw = boxes trak_boxes" "rt_id audio_raw = 7" "rt_handler audio_raw = ascii ''soun''"
    by (simp_all add: audio_raw_def)
  then show ?thesis
    by (simp add: parse_track_def found header sample_entry_found sinf_of_entry_def protected_names_def codec samples s(2)
        source_protection_of_def edit)
qed

definition no_identity :: source_identity where
  "no_identity = \<lparr>id_origin = Remote_Origin ''u'' ''v'', id_length = 800, id_moov_hash = None, id_metadata_hash = None\<rparr>"

definition movie_bytes :: bytes where
  "movie_bytes = box_bytes (ascii ''moov'') (boxes moov_boxes)"

definition of_example :: "metadata \<Rightarrow> bool" where
  "of_example md \<longleftrightarrow> md_len md = 800 \<and> md_moov_bytes md = movie_bytes \<and> md_fragments md = []"

lemma no_edit_shift:
  "timeline_shifts [(NONE_EDIT, 1000)] 1000 = ok [0]" "shared_offset_millis [(NONE_EDIT, 1000)] 1000 = ok 0"
proof -
  have offset: "shared_offset [(NONE_EDIT, 1000)] 1000 = (0, 1)"
    by (simp add: shared_offset_def shared_step_def NONE_EDIT_def)
  have wrapped: "wrap_i128 0 = 0" "wrap_i128 1000 = 1000" by (simp_all add: wrap_i128_def)
  have "timeline_shift 1000 (0, 1) (NONE_EDIT, 1000) = ok 0"
    by (simp add: timeline_shift_def wrapped NONE_EDIT_def u64_of_int_def)
  then show "timeline_shifts [(NONE_EDIT, 1000)] 1000 = ok [0]" by (simp add: timeline_shifts_def offset)
  have "(1 :: int) sdiv 2 = 0" by (simp add: signed_divide_int_def)
  then show "shared_offset_millis [(NONE_EDIT, 1000)] 1000 = ok 0" by (simp add: shared_offset_millis_def offset u64_of_int_def)
qed

lemma example_parsed_parts:
  "kept_tracks raw_example = [audio_raw]" "length (skipped_tracks_of raw_example) = 1"
  "length (rm_tracks raw_example) = 2" "\<not> rm_fragmented raw_example" "rm_movie_timescale raw_example = 1000"
  by (simp_all add: kept_tracks_def skipped_tracks_of_def raw_example_def audio_raw_def aside_raw_def List.map_filter_simps)

lemma example_metadata_parsed:
  assumes "of_example md"
  shows "\<exists>mi. parse_metadata blake3 md identity (limits_default None) = ok mi
     \<and> length (mi_tracks mi) = 1 \<and> length (mi_skipped_tracks mi) = 1"
proof -
  obtain t where t: "parse_track audio_raw 1000 800 (limits_default None) Tables_Source = ok (t, NONE_EDIT)"
      "tr_kind t = Audio" "tr_timescale t = 1000"
    using example_track_parsed by blast
  have md: "md_len md = 800" "md_moov_bytes md = movie_bytes" "md_fragments md = []" using assms by (simp_all add: of_example_def)
  have edited: "apply_edits [(t, NONE_EDIT)] 1000 = ok ([t], 0)"
    using t(3) by (simp add: apply_edits_def apply_edit_def no_edit_shift)
  have moov: "validate_raw_moov (md_moov_bytes md) = ok raw_example" using raw_moov_found md(2) by (simp add: movie_bytes_def)
  have source: "track_source_of raw_example md = ok Tables_Source"
    using example_parsed_parts(4) md(3) by (simp add: track_source_of_def)
  have few: "\<not> max_tracks (limits_default None) < length (rm_tracks raw_example)"
    by (simp add: limits_default_def example_parsed_parts)
  have parsed: "collect_res (map (\<lambda>raw. parse_track raw (rm_movie_timescale raw_example) (md_len md) (limits_default None) Tables_Source)
      (kept_tracks raw_example)) = ok [(t, NONE_EDIT)]"
    by (simp add: example_parsed_parts md(1) t(1))
  have keyed: "length (assign_keys [t]) = 1" by (simp add: assign_keys_def t(2))
  show ?thesis
    unfolding parse_metadata_def moov and_then_simps if_not_P [OF few] source parsed
    unfolding example_parsed_parts(5) edited and_then_simps case_prod_conv if_not_P [OF example_parsed_parts(4)] metadata_hashes_def
    by (simp add: keyed example_parsed_parts)
qed

lemma movie_length: "length movie_bytes = 408" "length (boxes moov_boxes) = 400"
  by (simp_all add: movie_bytes_def length_boxes leaf_lengths stbl_boxes_def dref_leaf_def minf_boxes_def mdia_boxes_def trak_boxes_def
      text_boxes_def moov_boxes_def mdhd_leaf_def hdlr_leaf_def tkhd_leaf_def mvhd_leaf_def)

definition example_metadata :: metadata where
  "example_metadata = \<lparr>md_len = 800, md_moov = byte_range_new 0 408, md_moov_bytes = movie_bytes, md_fragments = [],
     md_discovery = Sequential, md_dropped = None\<rparr>"

theorem opened_index_sound_witness:
  "\<exists>mi. parse_metadata (\<lambda>_. []) example_metadata no_identity (limits_default None) = ok mi
     \<and> length (mi_tracks mi) = 1 \<and> length (mi_skipped_tracks mi) = 1 \<and> index_sound 800 mi"
proof -
  have "of_example example_metadata" by (simp add: of_example_def example_metadata_def)
  then obtain mi where mi: "parse_metadata (\<lambda>_. []) example_metadata no_identity (limits_default None) = ok mi"
      "length (mi_tracks mi) = 1" "length (mi_skipped_tracks mi) = 1"
    using example_metadata_parsed by blast
  have "metadata_small example_metadata"
    by (simp add: metadata_small_def example_metadata_def movie_length)
  moreover have "max_samples_per_track (limits_default None) \<le> u32_limit" "max_tracks (limits_default None) < u16_limit"
    by (simp_all add: limits_default_def)
  ultimately have "index_sound (md_len example_metadata) mi" by (rule opened_index_sound [OF mi(1)])
  then show ?thesis using mi by (simp add: example_metadata_def)
qed

section \<open>Opening\<close>

definition example_file :: bytes where
  "example_file = movie_bytes @ box_bytes (ascii ''mdat'') (replicate 384 7)"

definition in_memory :: "bytes \<Rightarrow> media_source" where
  "in_memory c = \<lparr>ms_len = length c, ms_read = (\<lambda>r. slice c (br_offset r) (br_offset r + br_length r))\<rparr>"

lemma in_memory_reads: "length c < u64_limit \<Longrightarrow> reads_content (in_memory c) c"
  by (simp add: reads_content_def in_memory_def byte_range_new_def)

lemma reads_content_honest: "reads_content src c \<Longrightarrow> source_honest src"
  by (simp add: reads_content_def source_honest_def)

lemma header_of_box:
  assumes "length before = off" and "length name = 4" and "length payload + 8 < u32_limit"
    and "c = before @ box_bytes name payload @ rest"
  shows "header_at c off (length c) = Some \<lparr>bh_name = name, bh_size = length payload + 8\<rparr>"
proof -
  have "subslice c off (off + 4) = be_bytes 4 (length payload + 8)" "subslice c (off + 4) (off + 8) = name"
    using assms(1,2,4) by (simp_all add: subslice_def box_bytes_def)
  then show ?thesis using assms by (simp add: header_at_def header_size_at_def)
qed

lemma example_file_boxes:
  "length example_file = 800"
  "boxes_between example_file 0 (length example_file)
     = Some [(0, \<lparr>bh_name = ascii ''moov'', bh_size = 408\<rparr>), (408, \<lparr>bh_name = ascii ''mdat'', bh_size = 392\<rparr>)]"
proof -
  show len: "length example_file = 800" by (simp add: example_file_def movie_length)
  have "header_at example_file 0 (length example_file) = Some \<lparr>bh_name = ascii ''moov'', bh_size = 408\<rparr>"
    using header_of_box [of "[]" 0 "ascii ''moov''" "boxes moov_boxes" example_file] movie_length
    by (simp add: example_file_def movie_bytes_def)
  moreover have "header_at example_file 408 (length example_file) = Some \<lparr>bh_name = ascii ''mdat'', bh_size = 392\<rparr>"
    using header_of_box [of movie_bytes 408 "ascii ''mdat''" "replicate 384 7" example_file "[]"] movie_length
    by (simp add: example_file_def)
  ultimately show "boxes_between example_file 0 (length example_file)
     = Some [(0, \<lparr>bh_name = ascii ''moov'', bh_size = 408\<rparr>), (408, \<lparr>bh_name = ascii ''mdat'', bh_size = 392\<rparr>)]"
    by (simp add: boxes_between.simps [of example_file] len)
qed

lemma example_fetched:
  "\<exists>md. fetch (in_memory example_file) (limits_default None) order = ok md \<and> of_example md"
proof -
  let ?bs = "[(0, \<lparr>bh_name = ascii ''moov'', bh_size = 408\<rparr>), (408, \<lparr>bh_name = ascii ''mdat'', bh_size = 392\<rparr>)]"
  have reads: "reads_content (in_memory example_file) example_file" by (intro in_memory_reads) (simp add: example_file_boxes)
  have "boxes_within (limits_default None) ?bs"
    by (simp add: boxes_within_def limits_default_def saturating_add_def MAX_OTHER_BOXES_def)
  then obtain md where "fetch (in_memory example_file) (limits_default None) order = ok md"
      "md_moov_bytes md = subslice example_file 0 408" "md_len md = 800" "md_fragments md = moofs_of example_file ?bs"
    using whole_file_read [OF reads example_file_boxes(2), of "limits_default None" order]
    by (auto simp: limits_default_def example_file_boxes(1))
  moreover have "subslice example_file 0 408 = movie_bytes" by (simp add: example_file_def subslice_def movie_length)
  ultimately show ?thesis by (auto simp: of_example_def is_moof_def)
qed

theorem opening_never_panics_witness:
  "\<exists>pm. parse_media (\<lambda>_. []) (in_memory example_file) (\<lambda>n. rev [0..<n]) no_identity (limits_default None) (ok True) (ok ()) = ok pm
     \<and> length (mi_tracks (pm_index pm)) = 1
     \<and> parse_media (\<lambda>_. []) (in_memory example_file) (\<lambda>n. rev [0..<n]) no_identity (limits_default None) (ok True) (ok ()) \<noteq> panic"
proof -
  have reads: "reads_content (in_memory example_file) example_file" by (intro in_memory_reads) (simp add: example_file_boxes)
  have safe: "parse_media (\<lambda>_. []) (in_memory example_file) (\<lambda>n. rev [0..<n]) no_identity (limits_default None) (ok True) (ok ()) \<noteq> panic"
    by (rule opening_never_panics [OF reads_content_honest [OF reads]]) (auto simp: limits_default_def)
  obtain md mi where "fetch (in_memory example_file) (limits_default None) (\<lambda>n. rev [0..<n]) = ok md"
      "parse_metadata (\<lambda>_. []) md no_identity (limits_default None) = ok mi" "length (mi_tracks mi) = 1"
    using example_fetched example_metadata_parsed by metis
  moreover have "\<not> max_source_bytes (limits_default None) < ms_len (in_memory example_file)"
    by (simp add: limits_default_def in_memory_def example_file_boxes(1))
  ultimately show ?thesis using safe by (simp add: parse_media_def)
qed

section \<open>A fragmented timeline\<close>

definition live_sample :: "nat \<Rightarrow> nat \<Rightarrow> sample" where
  "live_sample off time = \<lparr>sm_offset = off, sm_size = 5, sm_decode_time = time, sm_duration = 1000, sm_composition_offset = 0,
     sm_is_sync = True\<rparr>"

definition live_track :: "track_kind \<Rightarrow> nat \<Rightarrow> sample_index \<Rightarrow> track" where
  "live_track kind timescale s = \<lparr>tr_id = 1, tr_key = VIDEO_KEY, tr_kind = kind, tr_language = ''und'',
     tr_timeline_shift = 0, tr_timescale = timescale, tr_duration = 0, tr_codec = Opus 2, tr_samples = s,
     tr_source_protection = None, tr_label = None\<rparr>"

lemma live_index:
  assumes "time < 1000000"
  shows "\<exists>s. index_valid s \<and> index_samples s = [live_sample 100 time, live_sample 200 (time + 1000)]"
proof -
  let ?xs = "[live_sample 100 time, live_sample 200 (time + 1000)]"
  have "\<forall>x \<in> set ?xs. sample_fits x" using assms by (simp add: sample_fits_def live_sample_def)
  moreover have "sorted (map sm_decode_time ?xs)" by (simp add: live_sample_def)
  ultimately show ?thesis using from_samples_ok [of ?xs] by (auto simp: index_valid_def)
qed

lemma live_shifted:
  assumes "index_valid s" and "index_samples s = [live_sample 100 time, live_sample 200 (time + 1000)]"
    and "origin \<le> time" and "time < 1000000" and "origin = ticks * timescale div scale" and "0 < scale"
  shows "\<exists>t'. shift_to_origin (ticks, scale) (live_track kind timescale s) = ok t'"
proof -
  let ?s = "s\<lparr>si_shift := si_shift s - int origin\<rparr>"
  have shifted: "index_shifted s (- int origin) m = ok ?s" for m
    using assms(2-4) by (simp add: index_shifted_eq_Inr [OF index_validD [OF assms(1)]] live_sample_def)
  note valid = index_shifted_valid [OF assms(1) shifted]
  have "index_last ?s = ok (Some (live_sample 200 (time + 1000 - origin)))"
    using index_last_ok [OF index_validD [OF valid(1)]] assms(2,3) unfolding valid(2)
    by (simp add: last_opt_def shift_sample_def live_sample_def)
  moreover have "origin < u64_limit" using assms(3,4) by simp
  ultimately show ?thesis
    using shifted assms(4-6)
    by (simp add: shift_to_origin_def live_track_def u64_of_nat_def checked_add_def live_sample_def)
qed

theorem fragmented_timeline_at_origin_witness:
  "\<exists>tracks tracks'. map first_ticks tracks = [900003, 480000] \<and> normalise_fragmented_timeline tracks = ok tracks'
     \<and> (\<exists>e. is_earliest tracks e \<and> (\<exists>t' \<in> set tracks'. first_ticks t' = 0))"
proof -
  obtain video where video: "index_valid video" "index_samples video = [live_sample 100 900003, live_sample 200 (900003 + 1000)]"
    using live_index [of 900003] by auto
  obtain audio where audio: "index_valid audio" "index_samples audio = [live_sample 100 480000, live_sample 200 (480000 + 1000)]"
    using live_index [of 480000] by auto
  let ?tracks = "[live_track Video 90000 video, live_track Audio 48000 audio]"
  have sound: "\<forall>t \<in> set ?tracks. track_sound 300 t"
    using video audio by (auto simp: track_sound_def live_track_def live_sample_def)
  have first: "map first_ticks ?tracks = [900003, 480000]"
    using video(2) audio(2) by (simp add: first_ticks_def live_track_def live_sample_def)
  have "\<exists>t'. shift_to_origin (480000, 48000) (live_track Video 90000 video) = ok t'"
    by (rule live_shifted [OF video, where origin = 900000]) simp_all
  then obtain t1 where t1: "shift_to_origin (480000, 48000) (live_track Video 90000 video) = ok t1" ..
  have "\<exists>t'. shift_to_origin (480000, 48000) (live_track Audio 48000 audio) = ok t'"
    by (rule live_shifted [OF audio, where origin = 480000]) simp_all
  then obtain t2 where t2: "shift_to_origin (480000, 48000) (live_track Audio 48000 audio) = ok t2" ..
  have "first_times ?tracks = ok [(900003, 90000), (480000, 48000)]"
    using first_times_eq [OF sound] first by (simp add: live_track_def)
  then have norm: "normalise_fragmented_timeline ?tracks = ok [t1, t2]"
    by (simp add: normalise_fragmented_timeline_def earliest_of_def earlier_def t1 t2)
  have "?tracks \<noteq> []" by simp
  from fragmented_timeline_at_origin [OF sound this norm]
  have "\<exists>e. is_earliest ?tracks e \<and> (\<exists>t' \<in> set [t1, t2]. first_ticks t' = 0)" by (elim exE conjE) (intro exI conjI)
  then show ?thesis using first norm by (intro exI [of _ ?tracks] exI [of _ "[t1, t2]"] conjI)
qed

end
