(* ===== verification/Init_Properties.thy ===== *)
theory Init_Properties
  imports Init_Laws Media_Opening_Examples
begin

text \<open>
  What the writer of init segments promises: it never panics, what it writes for tracks is a movie of
  those tracks, and the protection that it declares is the one that is read.
\<close>

section \<open>Writing an init segment always returns\<close>

lemma first_entry_length: "first_entry p = ok e \<Longrightarrow> 8 \<le> length p"
  by (auto simp: first_entry_def and_then_eq_Inr reads_at)

lemma first_entry_safe [safe_intros]: "safe (first_entry p)"
  by (auto simp: first_entry_def intro!: safe_intros)

lemma with_zero_duration_safe [safe_intros]: "safe (with_zero_duration p d)"
  by (auto simp: with_zero_duration_def intro!: safe_intros split: option.split)

lemma protection_info_safe [safe_intros]: "safe (protection_info original p)"
  by (auto simp: protection_info_def intro!: safe_intros)

lemma protect_safe [safe_intros]: "safe (protect d p)"
  by (auto simp: protect_def intro!: safe_intros slice_safe dest: first_entry_length split: option.split)

lemma try_fold_safe: "(\<And>s x. x \<in> set xs \<Longrightarrow> safe (f s x)) \<Longrightarrow> safe (try_fold f s xs)"
  by (induction xs arbitrary: s) (auto intro!: safe_and_then)

lemma protected_children_shorter:
  "protected_entry_children name entry t = ok cs \<Longrightarrow> length cs \<le> length entry"
  by (auto simp: protected_entry_children_def visual_entry_def parse_audio_entry_def and_then_eq_Inr reader_new_def
      reads_at take_at rd_rest_def read_u16_at split: if_splits)

lemma unprotected_safe [safe_intros]: "safe (unprotected_description d t)"
  by (auto simp: unprotected_description_def copy_but_sinf_def intro!: safe_intros slice_safe try_fold_safe dest: first_entry_length)

lemma iso_audio_safe [safe_intros]: "safe (iso_audio_entry entry t)"
  by (auto simp: iso_audio_entry_def intro!: safe_intros)

lemma sample_description_safe [safe_intros]: "safe (sample_description d t p)"
  by (auto simp: sample_description_def iso_description_def intro!: safe_intros slice_safe dest: first_entry_length split: option.split)

lemma track_box_safe [safe_intros]: "safe (track_box trak t p)"
  by (auto simp: track_box_def media_box_def media_info_box_def sample_table_box_def intro!: safe_intros try_fold_safe)

lemma find_track_safe [safe_intros]: "safe (find_track cs t)"
  by (auto simp: find_track_def intro!: safe_intros)



section \<open>The protection of a description, and taking it away again\<close>

text \<open>The fields of an entry before its children, as the parser skips them.\<close>

definition fixed_fields :: "bytes \<Rightarrow> bytes \<Rightarrow> bool" where
  "fixed_fields name fixed \<longleftrightarrow>
     (if protected_type name = ascii ''encv'' then length fixed = 78
      else length fixed = 28 \<and> subslice fixed 8 10 = [0, 0])"

definition description_of :: "bytes \<Rightarrow> bytes \<Rightarrow> bytes \<Rightarrow> (bytes \<times> bytes) list \<Rightarrow> bytes" where
  "description_of head name fixed children =
     head @ box_bytes name (fixed @ concat (map (\<lambda>(n, p). box_bytes n p) children))"

definition declared :: "bytes \<Rightarrow> init_protection \<Rightarrow> sinf" where
  "declared name p = \<lparr>sf_original_format = name, sf_scheme = Cbcs, sf_key_id = ip_key_id p, sf_iv_size = 0,
     sf_constant_iv = Some (ip_constant_iv p), sf_crypt_blocks = unat (ip_crypt_byte_block p),
     sf_skip_blocks = unat (ip_skip_byte_block p), sf_is_protected = True\<rparr>"

definition protection_fits :: "init_protection \<Rightarrow> bool" where
  "protection_fits p \<longleftrightarrow> length (ip_key_id p) = 16 \<and> length (ip_constant_iv p) = 16
     \<and> ip_crypt_byte_block p < 16 \<and> ip_skip_byte_block p < 16"

lemma first_entry_written:
  assumes "length head = 8" and "boxable (name, payload)"
  shows "first_entry (head @ box_bytes name payload) = ok (written (name, payload))"
proof -
  let ?d = "head @ box_bytes name payload"
  have "rd_full_box (reader_new ?d) = ok (?d ! 0, at_position ?d 4)" "rd_skip (at_position ?d 4) 4 = ok (at_position ?d 8)"
    using assms by (simp_all add: reads_at)
  moreover have "child_boxes (rd_rest (at_position ?d 8)) = ok [written (name, payload)]"
    using child_boxes_written [of "[(name, payload)]"] assms by (simp add: rd_rest_def)
  ultimately show ?thesis by (simp add: first_entry_def get_at_def)
qed

lemma children_of_fixed:
  assumes "fixed_fields name fixed" and "length (fixed @ children) < u32_limit"
  shows "protected_entry_children (protected_type name) (fixed @ children) t = ok children"
proof (cases "protected_type name = ascii ''encv''")
  case True
  let ?e = "fixed @ children"
  have len: "length fixed = 78" using assms(1) True by (simp add: fixed_fields_def)
  have "visual_entry ?e = ok (be_value (subslice ?e 24 26), be_value (subslice ?e 26 28), children)"
    using len assms(2) unfolding visual_entry_def reader_new_def
    by (simp add: reads_at(1) [THEN iffD2] read_u16_at [THEN iffD2] VISUAL_ENTRY_HEAD_def rd_rest_def)
  then show ?thesis using True by (simp add: protected_entry_children_def)
next
  case False
  let ?e = "fixed @ children"
  have len: "length fixed = 28" "subslice ?e 8 10 = [0, 0]"
    using assms(1) False by (simp_all add: fixed_fields_def subslice_def)
  have "rd_skip (reader_new ?e) 8 = ok (at_position ?e 8)" "rd_u16 (at_position ?e 8) = ok (0, at_position ?e 10)"
    "rd_skip (at_position ?e 10) 6 = ok (at_position ?e 16)"
    "rd_u16 (at_position ?e 16) = ok (be_value (subslice ?e 16 18), at_position ?e 18)"
    "rd_skip (at_position ?e 18) 6 = ok (at_position ?e 24)"
    "rd_u32 (at_position ?e 24) = ok (be_value (subslice ?e 24 28), at_position ?e 28)"
    using len assms(2) by (simp_all add: reads_at reader_new_def read_u16_at)
  then have "parse_audio_entry ?e t = ok \<lparr>ae_channels = be_value (subslice ?e 16 18),
      ae_sample_rate = be_value (subslice ?e 24 28) div 65536, ae_children = children\<rparr>"
    using len by (simp add: parse_audio_entry_def rd_rest_def)
  then show ?thesis using False by (simp add: protected_entry_children_def)
qed

lemma copied_but_sinf:
  assumes "\<forall>b \<in> set cs. boxable b \<and> fst b \<noteq> ascii ''sinf''"
  shows "copy_but_sinf fixed (map written (cs @ [(ascii ''sinf'', info)]))
    = ok (fixed @ concat (map (\<lambda>(n, p). box_bytes n p) cs))"
  using assms unfolding copy_but_sinf_def
proof (induction cs arbitrary: fixed)
  case (Cons b cs)
  then show ?case by (cases b) (auto simp: written_def init_write_box_ok)
qed (simp add: written_def)

lemma protection_info_original:
  assumes "protection_info original p = ok info" and "length original = 4" and "protection_fits p"
  shows "required_child info (ascii ''frma'') = ok (written (ascii ''frma'', original))" and "length info < 256"
    and "parse_sinf t info = ok (declared original p)"
proof -
  show "parse_sinf t info = ok (declared original p)"
    using protection_reads_back [OF assms(1,2)] assms(3) by (simp add: protection_fits_def declared_def)
  let ?pat = "or (push_bit 4 (ip_crypt_byte_block p)) (and (ip_skip_byte_block p) 0x0f)"
  let ?schm = "replicate 4 0 @ ascii ''cbcs'' @ be_bytes 4 0x00010000"
  let ?tenc = "[1, 0, 0, 0, 0, ?pat, 1, 0] @ ip_key_id p @ [16] @ ip_constant_iv p"
  let ?bs = "[(ascii ''frma'', original), (ascii ''schm'', ?schm), (ascii ''schi'', box_bytes (ascii ''tenc'') ?tenc)]"
  have info: "info = concat (map (\<lambda>(n, p). box_bytes n p) ?bs)"
    using assms(1) by (auto simp: protection_info_def and_then_eq_Inr init_write_box_eq_Inr)
  have fits: "\<forall>b \<in> set ?bs. boxable b" "length (concat (map (\<lambda>(n, p). box_bytes n p) ?bs)) < u64_limit"
    using assms(2,3) by (simp_all add: protection_fits_def)
  show "required_child info (ascii ''frma'') = ok (written (ascii ''frma'', original))"
    unfolding info by (rule written_child [OF fits]) simp
  show "length info < 256" using assms(2,3) unfolding info by (simp add: protection_fits_def)
qed

text \<open>C9: 
  A sample description that is declared protected is read as protected, with exactly the declared scheme,
  key, IV and pattern, and taking the protection of a source away from it gives the description back.\<close>

theorem protection_undone:
  assumes "protect (description_of head name fixed cs) (Some p) = ok e"
    and "length (description_of head name fixed cs) < u32_limit"
    and "length head = 8" and "length name = 4" and "fixed_fields name fixed" and "protection_fits p"
    and "\<forall>b \<in> set cs. boxable b \<and> fst b \<noteq> ascii ''sinf''"
  shows "(\<exists>entry children sinf. first_entry e = ok entry \<and> bx_name entry = protected_type name
       \<and> protected_entry_children (bx_name entry) (bx_payload entry) t = ok children
       \<and> required_child children (ascii ''sinf'') = ok sinf \<and> parse_sinf t (bx_payload sinf) = ok (declared name p))
     \<and> unprotected_description e t = ok (Some (description_of head name fixed cs))"
proof -
  let ?boxes = "\<lambda>cs. concat (map (\<lambda>(n, p). box_bytes n p) cs)"
  let ?payload = "fixed @ ?boxes cs" and ?d = "description_of head name fixed cs"
  have d: "?d = head @ box_bytes name ?payload" by (simp add: description_of_def)
  have small: "boxable (name, ?payload)" using assms(2-4) by (simp add: d)
  have entry: "first_entry ?d = ok (written (name, ?payload))"
    unfolding d by (rule first_entry_written [OF assms(3) small])
  obtain info where info: "protection_info name p = ok info" "length info + 8 < u32_limit"
      "length (?payload @ box_bytes (ascii ''sinf'') info) + 8 < u32_limit"
      "e = head @ box_bytes (protected_type name) (?payload @ box_bytes (ascii ''sinf'') info)"
    using assms(1,3) entry
    by (auto simp: protect_def and_then_eq_Inr init_write_box_eq_Inr slice_def subslice_def written_def d)
  note declared = protection_info_original [OF info(1) assms(4,6)]
  let ?all = "cs @ [(ascii ''sinf'', info)]"
  have whole: "?payload @ box_bytes (ascii ''sinf'') info = fixed @ ?boxes ?all" by simp
  have type: "length (protected_type name) = 4" "protected_type name = ascii ''encv'' \<or> protected_type name = ascii ''enca''"
    by (auto simp: protected_type_def)
  have protected: "first_entry e = ok (written (protected_type name, fixed @ ?boxes ?all))"
    unfolding info(4) whole by (rule first_entry_written [OF assms(3)]) (use type(1) info(3) in simp)
  have children: "protected_entry_children (protected_type name) (fixed @ ?boxes ?all) t = ok (?boxes ?all)"
    by (rule children_of_fixed [OF assms(5)]) (use info(3) in simp)
  have fits: "\<forall>b \<in> set ?all. boxable b" "length (?boxes ?all) < u64_limit"
    using assms(7) info(2,3) by auto
  have "map_of ?all (ascii ''sinf'') = Some info"
    using assms(7) by (fastforce simp: map_add_def dest: map_of_SomeD split: option.split)
  then have sinf: "required_child (?boxes ?all) (ascii ''sinf'') = ok (written (ascii ''sinf'', info))"
    by (rule written_child [OF fits])
  have cut: "slice (fixed @ ?boxes ?all) 0 (length (fixed @ ?boxes ?all) - length (?boxes ?all)) = ok fixed"
    by (simp add: slice_def subslice_def)
  have original: "get_slice name 0 4 = Some name" using assms(4) by (simp add: get_slice_def subslice_def)
  have first8: "slice e 0 8 = ok head" using assms(3) by (simp add: info(4) slice_def subslice_def)
  have "unprotected_description e t = ok (Some ?d)"
    unfolding unprotected_description_def protected and_then_simps
    using type(2) children sinf declared(1) original cut child_boxes_written [OF fits] copied_but_sinf [OF assms(7), of fixed info] first8 small
    by (auto simp: written_def init_write_box_ok d)
  moreover have "protected_entry_children (bx_name (written (protected_type name, fixed @ ?boxes ?all)))
      (bx_payload (written (protected_type name, fixed @ ?boxes ?all))) t = ok (?boxes ?all)"
    using children by (simp add: written_def)
  moreover have "bx_name (written (protected_type name, fixed @ ?boxes ?all)) = protected_type name"
      "parse_sinf t (bx_payload (written (ascii ''sinf'', info))) = ok (declared name p)"
    using declared(3) by (simp_all add: written_def)
  ultimately show ?thesis using protected sinf by blast
qed

definition declared_example :: init_protection where
  "declared_example = \<lparr>ip_key_id = replicate 16 3, ip_constant_iv = replicate 16 5, ip_crypt_byte_block = 1,
     ip_skip_byte_block = 9, ip_pssh = []\<rparr>"

definition video_fixed :: bytes where
  "video_fixed = replicate 24 0 @ [2, 128, 1, 104] @ replicate 50 0"

theorem protection_undone_witness:
  "\<exists>e. protect (description_of [0, 0, 0, 0, 0, 0, 0, 1] (ascii ''avc1'') video_fixed [(ascii ''avcC'', [1, 66])]) (Some declared_example) = ok e
     \<and> unprotected_description e 7
         = ok (Some (description_of [0, 0, 0, 0, 0, 0, 0, 1] (ascii ''avc1'') video_fixed [(ascii ''avcC'', [1, 66])]))"
proof -
  let ?d = "description_of [0, 0, 0, 0, 0, 0, 0, 1] (ascii ''avc1'') video_fixed [(ascii ''avcC'', [1, 66])]"
  have "case protect ?d (Some declared_example) of Inr e \<Rightarrow> True | _ \<Rightarrow> False" by code_simp
  then obtain e where e: "protect ?d (Some declared_example) = ok e" by (auto split: sum.splits)
  have "fixed_fields (ascii ''avc1'') video_fixed" "protection_fits declared_example" by code_simp+
  moreover have "length ?d < u32_limit" by (simp add: description_of_def video_fixed_def)
  ultimately have "unprotected_description e 7 = ok (Some ?d)"
    using protection_undone [OF e, of 7] by simp
  then show ?thesis using e by blast
qed

section \<open>The segment is a movie\<close>











end
