(* ===== verification/Key_Schedule_Laws.thy ===== *)
theory Key_Schedule_Laws
  imports Segment_Protection
begin

text \<open>
  Which keys protect a segment of a rotating asset: those of the last period that has begun when the
  segment starts.
\<close>

section \<open>Lists in step\<close>

lemma takeWhile_sorted:
  fixes f :: "'a \<Rightarrow> nat"
  assumes "sorted_wrt (<) (map f xs)"
  shows "takeWhile (\<lambda>x. f x \<le> k) xs = filter (\<lambda>x. f x \<le> k) xs"
  using assms
proof (induction xs)
  case (Cons x xs)
  then have "\<forall>y \<in> set xs. \<not> f y \<le> k" if "\<not> f x \<le> k" using that by fastforce
  then show ?case using Cons by (auto simp: filter_empty_conv)
qed simp

lemma related_takeWhile:
  assumes "list_all2 R xs ys" and "\<And>x y. R x y \<Longrightarrow> P x = Q y"
  shows "list_all2 R (takeWhile P xs) (takeWhile Q ys)"
  using assms(1) by (induction rule: list_all2_induct) (auto simp: assms(2))

lemma related_last: "list_all2 R xs ys \<Longrightarrow> xs \<noteq> [] \<Longrightarrow> R (last xs) (last ys)"
  by (induction rule: list_all2_induct) auto

section \<open>The scheduled periods\<close>

text \<open>A plan whose segments are numbered in order and start, by one clock, at these starts.\<close>

definition timed_plan :: "track list \<Rightarrow> segment_plan \<Rightarrow> nat \<Rightarrow> nat list \<Rightarrow> bool" where
  "timed_plan tracks segs scale starts \<longleftrightarrow> length starts = length segs \<and> sorted starts
     \<and> (\<forall>i < length segs. se_index (segs ! i) = i \<and> start_of tracks (segs ! i) = Some (starts ! i, scale))"

text \<open>A timeline of keys: it starts at 0 and every period after the one before.\<close>

definition key_timeline :: "key_period list \<Rightarrow> bool" where
  "key_timeline periods \<longleftrightarrow> periods \<noteq> [] \<and> kp_start_ms (hd periods) = 0 \<and> sorted_wrt (<) (map kp_start_ms periods)"

definition has_begun :: "nat \<Rightarrow> nat \<Rightarrow> nat \<Rightarrow> key_period \<Rightarrow> bool" where
  "has_begun scale base time period \<longleftrightarrow> kp_start_ms period * scale \<le> (time - base) * 1000"

definition scheduled_at :: "track list \<Rightarrow> segment_plan \<Rightarrow> nat \<Rightarrow> key_period \<Rightarrow> scheduled_period option" where
  "scheduled_at tracks segs base period =
     map_option (\<lambda>seg. \<lparr>sc_first_segment = se_index seg, sc_encryption = kp_encryption period\<rparr>)
       (find (begun tracks base (kp_start_ms period)) segs)"

lemma schedule_steps:
  assumes "try_fold (schedule_step tracks segs base) acc periods = ok ps" and "sorted_wrt (<) (map sc_first_segment acc)"
  shows "ps = acc @ List.map_filter (scheduled_at tracks segs base) periods \<and> sorted_wrt (<) (map sc_first_segment ps)"
  using assms
proof (induction periods arbitrary: acc)
  case (Cons p periods)
  obtain acc' where step: "schedule_step tracks segs base acc p = ok acc'"
      "try_fold (schedule_step tracks segs base) acc' periods = ok ps"
    using Cons.prems(1) by (auto simp: and_then_eq_Inr)
  have shape: "acc' = acc @ (case scheduled_at tracks segs base p of None \<Rightarrow> [] | Some s \<Rightarrow> [s])"
    using step(1) by (auto simp: schedule_step_def scheduled_at_def split: option.splits if_splits)
  have "sorted_wrt (<) (map sc_first_segment acc')"
  proof (cases "find (begun tracks base (kp_start_ms p)) segs")
    case None
    then show ?thesis using shape Cons.prems(2) by (simp add: scheduled_at_def)
  next
    case (Some seg)
    have "x < se_index seg" if "x \<in> set (map sc_first_segment acc)" for x
    proof -
      have ne: "acc \<noteq> []" using that by auto
      then have "sc_first_segment (last acc) < se_index seg"
        using step(1) Some by (auto simp: schedule_step_def split: if_splits)
      moreover have "x \<le> sc_first_segment (last acc)"
        using Cons.prems(2) that ne
        by (induction acc) (auto split: if_splits simp: order.strict_implies_order)
      ultimately show ?thesis by simp
    qed
    then show ?thesis using shape Some Cons.prems(2) by (simp add: scheduled_at_def sorted_wrt_append)
  qed
  from Cons.IH [OF step(2) this] show ?case
    by (auto simp: shape List.map_filter_simps split: option.splits)
qed (simp add: List.map_filter_simps)

lemma first_begun:
  assumes plan: "timed_plan tracks segs scale starts" and "i < length segs"
  shows "(case scheduled_at tracks segs base p of None \<Rightarrow> False | Some s \<Rightarrow> sc_first_segment s \<le> i)
    \<longleftrightarrow> has_begun scale base (starts ! i) p"
proof -
  have at: "begun tracks base (kp_start_ms p) (segs ! j) \<longleftrightarrow> has_begun scale base (starts ! j) p"
      "se_index (segs ! j) = j" if "j < length segs" for j
    using plan that by (simp_all add: timed_plan_def begun_def has_begun_def)
  have later: "has_begun scale base (starts ! k) p" if "has_begun scale base (starts ! j) p" "j \<le> k" "k < length segs" for j k
  proof -
    have "starts ! j \<le> starts ! k" using plan that(2,3) by (auto simp: timed_plan_def intro: sorted_nth_mono)
    then have "(starts ! j - base) * 1000 \<le> (starts ! k - base) * 1000" by simp
    then show ?thesis using that(1) unfolding has_begun_def by linarith
  qed
  show ?thesis
  proof (cases "find (begun tracks base (kp_start_ms p)) segs")
    case None
    then have "\<not> begun tracks base (kp_start_ms p) (segs ! i)" using assms(2) by (auto simp: find_None_iff)
    then show ?thesis using at(1) [OF assms(2)] None by (simp add: scheduled_at_def)
  next
    case (Some seg)
    then obtain j where j: "j < length segs" "seg = segs ! j" "begun tracks base (kp_start_ms p) (segs ! j)"
        "\<forall>k < j. \<not> begun tracks base (kp_start_ms p) (segs ! k)"
      by (auto simp: find_Some_iff)
    have "j \<le> i \<longleftrightarrow> has_begun scale base (starts ! i) p"
      using j at later [of j i] assms(2) by (meson leI less_trans)
    then show ?thesis using Some at j by (simp add: scheduled_at_def)
  qed
qed

lemma started_periods:
  assumes "timed_plan tracks segs scale starts" and "i < length segs"
  shows "map sc_encryption (filter (\<lambda>s. sc_first_segment s \<le> i) (List.map_filter (scheduled_at tracks segs base) periods))
    = map kp_encryption (filter (has_begun scale base (starts ! i)) periods)"
proof (induction periods)
  case (Cons p periods)
  have "sc_encryption s = kp_encryption p" if "scheduled_at tracks segs base p = Some s" for s
    using that by (auto simp: scheduled_at_def)
  then show ?case
    using Cons first_begun [OF assms, of base p] by (auto simp: List.map_filter_simps split: option.splits)
qed (simp add: List.map_filter_simps)

text \<open>The period whose keys a segment that starts at a time is under.\<close>

definition in_force :: "nat \<Rightarrow> nat \<Rightarrow> nat \<Rightarrow> key_period list \<Rightarrow> key_period" where
  "in_force scale base time periods = last (filter (has_begun scale base time) periods)"

lemma scheduled_in_force:
  assumes "schedule e tracks segs = ok ps" and "is_rotating e" and "key_timeline (en_periods e)"
    and plan: "timed_plan tracks segs scale starts" and i: "i < length segs"
  shows "takeWhile (\<lambda>s. sc_first_segment s \<le> i) ps \<noteq> []"
    and "sc_encryption (last (takeWhile (\<lambda>s. sc_first_segment s \<le> i) ps))
      = kp_encryption (in_force scale (starts ! 0) (starts ! i) (en_periods e))"
proof -
  have "start_of tracks (segs ! 0) = Some (starts ! 0, scale)" "segs \<noteq> []"
    using plan i less_le_trans [of 0 "Suc i"] by (auto simp: timed_plan_def dest: spec [of _ 0])
  then have "try_fold (schedule_step tracks segs (starts ! 0)) [] (en_periods e) = ok ps"
    using assms(1,2) by (simp add: schedule_def get_at_def)
  note steps = schedule_steps [OF this, simplified]
  have ps: "ps = List.map_filter (scheduled_at tracks segs (starts ! 0)) (en_periods e)" by (rule conjunct1 [OF steps])
  have sorted: "sorted_wrt (<) (map sc_first_segment ps)" by (rule conjunct2 [OF steps])
  let ?started = "takeWhile (\<lambda>s. sc_first_segment s \<le> i) ps"
  let ?begun = "filter (has_begun scale (starts ! 0) (starts ! i)) (en_periods e)"
  have same: "map sc_encryption ?started = map kp_encryption ?begun"
    unfolding takeWhile_sorted [OF sorted] unfolding ps by (rule started_periods [OF plan i])
  have "hd (en_periods e) \<in> set ?begun" using assms(3) by (simp add: key_timeline_def has_begun_def)
  then have ne: "?begun \<noteq> []" by (metis empty_iff list.set(1))
  then show some: "?started \<noteq> []" using same by auto
  have "sc_encryption (last ?started) = kp_encryption (last ?begun)"
    using same ne some by (metis last_map)
  then show "sc_encryption (last ?started) = kp_encryption (in_force scale (starts ! 0) (starts ! i) (en_periods e))"
    by (simp add: in_force_def)
qed

section \<open>Properties\<close>

definition clear_rotation :: fragment_rotation where
  "clear_rotation = \<lparr>ro_group = Some GroupClear, ro_pssh = []\<rparr>"

definition content_of :: "encryption \<Rightarrow> track list \<Rightarrow> metadata \<Rightarrow> encryption option \<Rightarrow> period_content \<Rightarrow> bool" where
  "content_of e tracks md period content \<longleftrightarrow>
     (case period of
        None \<Rightarrow> content = Period_Clear clear_rotation
      | Some p \<Rightarrow> (\<exists>protections. track_protections p e tracks md True = ok protections
          \<and> content = Period_Encrypted protections))"

lemma periods_related:
  assumes "try_fold (period_step e tracks md) acc ps = ok periods"
  shows "\<exists>new. periods = acc @ new \<and> list_all2 (\<lambda>s p. sc_first_segment s = pp_first_segment p
    \<and> content_of e tracks md (sc_encryption s) (pp_content p)) ps new"
  using assms
proof (induction ps arbitrary: acc)
  case (Cons s ps)
  obtain acc' where step: "period_step e tracks md acc s = ok acc'" "try_fold (period_step e tracks md) acc' ps = ok periods"
    using Cons.prems by (auto simp: and_then_eq_Inr)
  obtain content where "acc' = acc @ [\<lparr>pp_first_segment = sc_first_segment s, pp_content = content\<rparr>]"
      "content_of e tracks md (sc_encryption s) content"
    using step(1) by (cases "sc_encryption s") (auto simp: period_step_def and_then_eq_Inr content_of_def clear_rotation_def)
  then show ?case using Cons.IH [OF step(2)] by auto
qed simp

text \<open>C7 
  In a rotating asset every segment is protected under the keys of the last period that has begun when the
  segment starts, by the clock of the reference track, or is clear when that period is; so a key is used
  from the first segment that starts at or after its time until the next one's.\<close>

theorem segment_key_in_force:
  assumes "asset_protection_new e tracks md segs = ok a" and "is_rotating e" and "key_timeline (en_periods e)"
    and "timed_plan tracks segs scale starts" and "i < length segs"
  shows "case kp_encryption (in_force scale (starts ! 0) (starts ! i) (en_periods e)) of
      None \<Rightarrow> for_segment a i t = Some (Segment_Clear clear_rotation)
    | Some period \<Rightarrow> (\<exists>protections. track_protections period e tracks md True = ok protections
        \<and> for_segment a i t = map_option Segment_Encrypted (protections t))"
proof -
  obtain ps where ps: "schedule e tracks segs = ok ps" "try_fold (period_step e tracks md) [] ps = ok (ap_periods a)"
    using assms(1,2) by (auto simp: asset_protection_new_def and_then_eq_Inr)
  note sched = scheduled_in_force [OF ps(1) assms(2-5)]
  let ?R = "\<lambda>s p. sc_first_segment s = pp_first_segment p \<and> content_of e tracks md (sc_encryption s) (pp_content p)"
  have "list_all2 ?R ps (ap_periods a)" using periods_related [OF ps(2)] by simp
  then have related: "list_all2 ?R (takeWhile (\<lambda>s. sc_first_segment s \<le> i) ps) (takeWhile (\<lambda>p. pp_first_segment p \<le> i) (ap_periods a))"
    by (rule related_takeWhile) simp
  let ?started = "takeWhile (\<lambda>p. pp_first_segment p \<le> i) (ap_periods a)"
  have ne: "?started \<noteq> []" using list_all2_lengthD [OF related] sched(1) by (metis length_0_conv)
  then have some: "ap_periods a \<noteq> []" by (metis takeWhile.simps(1))
  have answer: "for_segment a i t = (case pp_content (last ?started) of
        Period_Encrypted tracks \<Rightarrow> map_option Segment_Encrypted (tracks t) | Period_Clear rotation \<Rightarrow> Some (Segment_Clear rotation))"
    unfolding for_segment_def Let_def by (simp only: ne some if_False)
  have content: "content_of e tracks md (kp_encryption (in_force scale (starts ! 0) (starts ! i) (en_periods e))) (pp_content (last ?started))"
    using related_last [OF related sched(1)] unfolding sched(2) by blast
  show ?thesis
  proof (cases "kp_encryption (in_force scale (starts ! 0) (starts ! i) (en_periods e))")
    case None
    then show ?thesis using answer content by (simp add: content_of_def)
  next
    case (Some period)
    then show ?thesis using answer content by (auto simp: content_of_def)
  qed
qed

end
