(* ===== verification/Segment_Protection_Laws.thy ===== *)
theory Segment_Protection_Laws
  imports Segment_Protection Nal_Laws Sample_Cipher_Laws Senc_Roundtrip Fragment_Writer_Laws Init_Properties Key_Schedule_Laws
begin

text \<open>
  An encrypted segment is read and decrypted back by the readers of protected sources: the same
  subsamples, the same order of keys, the bytes that were there.
\<close>

section \<open>One sample\<close>

lemma as_subsamples_simps [simp]:
  "as_subsamples [] = []" "as_subsamples ((c, p) # m) = \<lparr>sb_clear = c, sb_protected = p\<rparr> # as_subsamples m"
  by (simp_all add: as_subsamples_def)

lemma subs_total_as [simp]: "subs_total (as_subsamples m) = map_total m"
  by (induction m rule: map_total.induct) simp_all







section \<open>All the samples\<close>




section \<open>The fragment\<close>

text \<open>Boxes written one after the other, and the \<^verbatim>\<open>pssh\<close> of a period: boxes, none of them a \<^verbatim>\<open>traf\<close>.\<close>

abbreviation boxes_of :: "(bytes \<times> bytes) list \<Rightarrow> bytes" where
  "boxes_of bs \<equiv> concat (map (\<lambda>(n, p). box_bytes n p) bs)"

definition boxes_but_traf :: "bytes \<Rightarrow> bool" where
  "boxes_but_traf bs \<longleftrightarrow> (\<exists>xs. bs = boxes_of xs \<and> (\<forall>x \<in> set xs. boxable x \<and> fst x \<noteq> ascii ''traf''))"

lemma boxes_but_traf_Nil [simp]: "boxes_but_traf []"
  unfolding boxes_but_traf_def by (rule exI [of _ "[]"]) simp












section \<open>Properties\<close>





section \<open>A key that changes\<close>

definition key_numbered :: "byte \<Rightarrow> content_key" where
  "key_numbered n = \<lparr>ck_key_id = replicate 16 n, ck_key = replicate 16 n, ck_iv = replicate 16 n\<rparr>"

definition rotating_example :: encryption where
  "rotating_example = Encryption (All_Keys (key_numbered 1)) []
     [Key_Period 0 (Some (Encryption (All_Keys (key_numbered 1)) [] [])),
      Key_Period 3000 (Some (Encryption (All_Keys (key_numbered 2)) [] [])), Key_Period 9000 None]"

definition audio_track :: "sample_index \<Rightarrow> track" where
  "audio_track s = \<lparr>tr_id = 1, tr_key = audio_key 1, tr_kind = Audio, tr_language = ''und'', tr_timeline_shift = 0,
     tr_timescale = 1000, tr_duration = 8000, tr_codec = Ac3 48000 2, tr_samples = s, tr_source_protection = None, tr_label = None\<rparr>"

definition early_segment :: segment where
  "early_segment = \<lparr>se_index = 0,
     se_tracks = [\<lparr>sg_track_id = 1, sg_first_sample = 0, sg_end_sample = 4, sg_decode_time = 500, sg_duration = 4000\<rparr>]\<rparr>"

definition late_segment :: segment where
  "late_segment = \<lparr>se_index = 1,
     se_tracks = [\<lparr>sg_track_id = 1, sg_first_sample = 4, sg_end_sample = 8, sg_decode_time = 4500, sg_duration = 4000\<rparr>]\<rparr>"

definition two_segments :: segment_plan where
  "two_segments = [early_segment, late_segment]"

theorem segment_key_in_force_witness:
  "\<exists>s a p. asset_protection_new rotating_example [audio_track s] example_metadata two_segments = ok a
     \<and> for_segment a 1 1 = Some (Segment_Encrypted p) \<and> tn_key p = key_numbered 2"
proof -
  obtain s :: sample_index where True by blast
  let ?tracks = "[audio_track s]" and ?e = "rotating_example"
  have rotating: "is_rotating ?e" by (simp add: is_rotating_def rotating_example_def)
  have line: "key_timeline (en_periods ?e)" by (simp add: key_timeline_def rotating_example_def)
  have starts: "start_of ?tracks early_segment = Some (500, 1000)" "start_of ?tracks late_segment = Some (4500, 1000)"
    by (simp_all add: start_of_def early_segment_def late_segment_def get_at_def audio_track_def)
  have len: "length two_segments = 2" "se_index early_segment = 0" "se_index late_segment = 1"
    by (simp_all add: two_segments_def early_segment_def late_segment_def)
  have plan: "timed_plan ?tracks two_segments 1000 [500, 4500]"
    using starts len by (auto simp: timed_plan_def less_Suc_eq numeral_2_eq_2 two_segments_def)
  have protections: "\<exists>p. track_protections period ?e ?tracks md rot = ok p
      \<and> map_option tn_key (p 1) = Some (key_for period Audio)" for period md rot
    by (simp add: track_protections_def track_protection_of_def video_parameters_of_def audio_track_def)
  have begun: "begun ?tracks 500 start early_segment = (start * 1000 \<le> 0)"
      "begun ?tracks 500 start late_segment = (start * 1000 \<le> 4000000)" for start
    using starts by (simp_all add: begun_def)
  have finds: "find (begun ?tracks 500 0) two_segments = Some early_segment" "find (begun ?tracks 500 3000) two_segments = Some late_segment"
      "find (begun ?tracks 500 9000) two_segments = None" "Option.bind (get_at two_segments 0) (start_of ?tracks) = Some (500, 1000)"
    using begun starts(1) by (simp_all add: two_segments_def get_at_def)
  have "\<exists>ps. try_fold (schedule_step ?tracks two_segments 500) [] (en_periods ?e) = ok ps"
    using finds len by (simp add: rotating_example_def schedule_step_def)
  then have "\<exists>ps. schedule ?e ?tracks two_segments = ok ps"
    using rotating finds(4) by (simp add: schedule_def)
  then obtain ps where ps: "schedule ?e ?tracks two_segments = ok ps" ..
  have one: "\<exists>acc'. period_step ?e ?tracks example_metadata acc q = ok acc'" for acc q
  proof (cases "sc_encryption q")
    case (Some period)
    obtain p where "track_protections period ?e ?tracks example_metadata True = ok p" using protections by blast
    then show ?thesis using Some by (simp add: period_step_def)
  qed (simp add: period_step_def)
  have "\<exists>periods. try_fold (period_step ?e ?tracks example_metadata) acc qs = ok periods" for acc qs
  proof (induction qs arbitrary: acc)
    case (Cons q qs)
    obtain acc' where "period_step ?e ?tracks example_metadata acc q = ok acc'" using one by blast
    then show ?case using Cons.IH [of acc'] by simp
  qed simp
  then obtain periods where "try_fold (period_step ?e ?tracks example_metadata) [] ps = ok periods" by blast
  moreover obtain primary where "track_protections ?e ?e ?tracks example_metadata True = ok primary" using protections by blast
  ultimately have "\<exists>a. asset_protection_new ?e ?tracks example_metadata two_segments = ok a"
    using ps rotating by (simp add: asset_protection_new_def)
  then obtain a where a: "asset_protection_new ?e ?tracks example_metadata two_segments = ok a" ..
  have "in_force 1000 500 4500 (en_periods ?e) = Key_Period 3000 (Some (Encryption (All_Keys (key_numbered 2)) [] []))"
    by (simp add: in_force_def has_begun_def rotating_example_def)
  then obtain prots where "track_protections (Encryption (All_Keys (key_numbered 2)) [] []) ?e ?tracks example_metadata True = ok prots"
      "for_segment a 1 1 = map_option Segment_Encrypted (prots 1)"
    using segment_key_in_force [OF a rotating line plan, of 1 1] len(1) by auto
  then obtain p where "for_segment a 1 1 = Some (Segment_Encrypted p)" "tn_key p = key_numbered 2"
    using protections [of "Encryption (All_Keys (key_numbered 2)) [] []" example_metadata True] by auto
  then show ?thesis using a by blast
qed

end
