(* ===== verification/Clips.thy ===== *)
theory Clips
  imports Sample_Index_Laws Key_Material
begin

text \<open>
  Cutting one file's sample index down to a time window and placing the result on the timeline of a
  sequence (\<^verbatim>\<open>src/src/clip.rs\<close>).  A position on the timeline is a number of nanoseconds; each
  conversion to ticks rounds down once.
\<close>

section \<open>Positions on the timeline\<close>

definition MAX_CLIP_MS :: nat where
  "MAX_CLIP_MS = 4294967295"

definition NANOS_PER_SECOND :: nat where
  "NANOS_PER_SECOND = 1000000000"

record clip_window =
  cw_from_ms :: nat
  cw_to_ms :: "nat option"

type_synonym timeline_position = nat

abbreviation clip_overflow :: error where
  "clip_overflow \<equiv> InvalidMedia ''clip timing overflow''"

definition position_millis :: "timeline_position \<Rightarrow> nat" where
  "position_millis p = p div 1000000"

definition position_in_ticks :: "timeline_position \<Rightarrow> nat \<Rightarrow> nat res" where
  "position_in_ticks p timescale = ok_or (u64_of_nat (p * timescale div NANOS_PER_SECOND)) clip_overflow"

definition position_after :: "timeline_position \<Rightarrow> nat \<Rightarrow> nat \<Rightarrow> timeline_position res" where
  "position_after p ticks timescale =
     and_then (ok_or (checked_div (ticks * NANOS_PER_SECOND) timescale) clip_overflow) (\<lambda>nanos.
       ok_or (case u64_of_nat nanos of None \<Rightarrow> None | Some n \<Rightarrow> checked_add p n) clip_overflow)"

section \<open>Times of samples and of clocks\<close>

definition presented :: "sample \<Rightarrow> int" where
  "presented x = int (sm_decode_time x) + sm_composition_offset x"

definition clip_sample_end :: "sample \<Rightarrow> nat res" where
  "clip_sample_end x = ok_or (checked_add (sm_decode_time x) (sm_duration x)) clip_overflow"

definition ms_to_ticks :: "nat \<Rightarrow> nat \<Rightarrow> nat res" where
  "ms_to_ticks milliseconds timescale = ok_or (u64_of_nat (milliseconds * timescale div 1000)) clip_overflow"

definition ticks_to_ms :: "nat \<Rightarrow> nat \<Rightarrow> nat" where
  "ticks_to_ms ticks timescale =
     (case checked_div (ticks * 1000) timescale of
        None \<Rightarrow> u64_limit - 1
      | Some m \<Rightarrow> (case u64_of_nat m of None \<Rightarrow> u64_limit - 1 | Some n \<Rightarrow> n))"

definition clip_rescale :: "nat \<Rightarrow> nat \<Rightarrow> nat \<Rightarrow> nat res" where
  "clip_rescale v from_timescale to_timescale =
     ok_or (case checked_div (v * to_timescale) from_timescale of
              None \<Rightarrow> None | Some scaled \<Rightarrow> u64_of_nat scaled) clip_overflow"

section \<open>What of each track is kept\<close>

text \<open>The keyframes in order, each with its sample.\<close>

definition video_window :: "sample_index \<Rightarrow> nat \<Rightarrow> nat option \<Rightarrow> (nat \<times> nat) res" where
  "video_window s start to =
     and_then (sync_indices s) (\<lambda>syncs.
     and_then (collect_res (map (index_get s) syncs)) (\<lambda>keyframes.
     let first = (case last_opt (filter (\<lambda>(i, x). presented x \<le> int start) (zip syncs keyframes)) of
                    Some (i, x) \<Rightarrow> i
                  | None \<Rightarrow> (case syncs of [] \<Rightarrow> 0 | i # _ \<Rightarrow> i))
     in
     and_then
       (case to of
          None \<Rightarrow> ok (index_len s)
        | Some e \<Rightarrow>
            and_then (to_vec s first (index_len s)) (\<lambda>xs.
              ok (case last_opt (filter (\<lambda>(i, x). presented x < int e) (enumerate 0 xs)) of
                    None \<Rightarrow> first + 1
                  | Some (i, x) \<Rightarrow> first + i + 1))) (\<lambda>e.
       ok (first, max e (first + 1)))))"

definition audio_window :: "sample_index \<Rightarrow> nat \<Rightarrow> nat option \<Rightarrow> (nat \<times> nat) res" where
  "audio_window s start to =
     and_then (index_partition_by_decode_time s (saturating_add start 1)) (\<lambda>p.
     let first = p - 1 in
     and_then (case to of None \<Rightarrow> ok (index_len s) | Some e \<Rightarrow> index_partition_by_decode_time s e) (\<lambda>e.
       ok (first, max e (first + 1))))"

definition follower_window :: "track \<Rightarrow> nat \<Rightarrow> nat \<Rightarrow> bool \<Rightarrow> (nat \<times> nat) res" where
  "follower_window t start e to_the_end =
     and_then (index_partition_by_decode_time (tr_samples t) start) (\<lambda>first.
     and_then (if to_the_end then ok (index_len (tr_samples t))
               else index_partition_by_decode_time (tr_samples t) e) (\<lambda>last.
       ok (first, max last first)))"

definition clip_reference :: "media_index \<Rightarrow> track res" where
  "clip_reference index =
     ok_or (case find (\<lambda>t. tr_kind t = Video) (mi_tracks index) of
              Some t \<Rightarrow> Some t | None \<Rightarrow> find (\<lambda>t. tr_kind t = Audio) (mi_tracks index))
       (Unsupported ''input has no audio or video track'')"

definition ms_after :: "nat \<Rightarrow> nat \<Rightarrow> nat \<Rightarrow> nat res" where
  "ms_after ms offset timescale =
     and_then (ok_or (checked_add ms offset) clip_overflow) (\<lambda>moved. ms_to_ticks moved timescale)"

definition reference_window :: "media_index \<Rightarrow> track \<Rightarrow> clip_window \<Rightarrow> (nat \<times> nat) res" where
  "reference_window index reference w =
     (let timescale = tr_timescale reference; offset = mi_presentation_offset_ms index in
      and_then (index_last (tr_samples reference)) (\<lambda>l.
      and_then (ok_or l (InvalidMedia ''track contains no samples'')) (\<lambda>last.
      and_then (clip_sample_end last) (\<lambda>reference_end.
      and_then (ms_after (cw_from_ms w) offset timescale) (\<lambda>start.
      if reference_end \<le> start
      then fail (InvalidMedia (''from_ms '' @ decimal (cw_from_ms w) @ '' is at or past the end of the file''))
      else
        and_then
          (case cw_to_ms w of
             None \<Rightarrow> ok None
           | Some ms \<Rightarrow> and_then (ms_after ms offset timescale) (\<lambda>e. ok (Some e))) (\<lambda>to.
        if (case to of None \<Rightarrow> False | Some e \<Rightarrow> e \<le> start)
        then fail (InvalidMedia ''to_ms must be later than from_ms'')
        else
          let to' = (case to of None \<Rightarrow> None | Some e \<Rightarrow> if e < reference_end then Some e else None) in
          (case tr_kind reference of
             Video \<Rightarrow> video_window (tr_samples reference) start to'
           | Audio \<Rightarrow> audio_window (tr_samples reference) start to')))))))"

section \<open>Moving what is kept\<close>

definition moved_track :: "track \<Rightarrow> nat \<times> nat \<Rightarrow> nat \<Rightarrow> nat \<Rightarrow> track res" where
  "moved_track t span origin base =
     and_then (index_window (tr_samples t) (fst span) (snd span)) (\<lambda>kept.
     if index_is_empty kept
     then fail (InvalidMedia (''the window leaves track `'' @ display_key (tr_key t) @ ''` with no samples''))
     else
       and_then (index_decode_time kept 0) (\<lambda>earliest.
       if earliest < origin then fail clip_overflow
       else
         and_then (index_shifted kept (int base - int origin) ''clip timing overflow'') (\<lambda>samples.
         and_then (index_last samples) (\<lambda>l.
         and_then (expect l) (\<lambda>last.
         and_then (clip_sample_end last) (\<lambda>e.
         and_then (index_decode_time samples 0) (\<lambda>first.
         and_then (ok_or (checked_sub e first) clip_overflow) (\<lambda>duration.
           ok (t\<lparr>tr_duration := duration, tr_samples := samples\<rparr>)))))))))"

datatype trailing = Keep | Cut

record trimmed =
  tm_index :: media_index
  tm_end :: timeline_position
  tm_served_from_ms :: nat
  tm_served_to_ms :: nat
  tm_span_from_ms :: nat
  tm_span_to_ms :: nat
  tm_lead_ms :: nat

definition least_of :: "int list \<Rightarrow> int option" where
  "least_of xs = (if xs = [] then None else Some (Min (set xs)))"

text \<open>One turn of the loop over the tracks of the file.\<close>

definition trim_track ::
    "track \<Rightarrow> nat \<times> nat \<Rightarrow> nat \<Rightarrow> nat \<Rightarrow> nat \<Rightarrow> bool \<Rightarrow> timeline_position \<Rightarrow> track \<Rightarrow> track res" where
  "trim_track reference span origin kept_end lead to_the_end start t =
     and_then
       (if tr_id t = tr_id reference then ok (span, origin, lead)
        else
          and_then (clip_rescale origin (tr_timescale reference) (tr_timescale t)) (\<lambda>track_origin.
          and_then (clip_rescale kept_end (tr_timescale reference) (tr_timescale t)) (\<lambda>span_end.
          and_then (follower_window t track_origin span_end to_the_end) (\<lambda>span.
          and_then (clip_rescale lead (tr_timescale reference) (tr_timescale t)) (\<lambda>track_lead.
            ok (span, track_origin, track_lead)))))) (\<lambda>(span, track_origin, track_lead).
     and_then (position_in_ticks start (tr_timescale t)) (\<lambda>ticks.
     and_then (ok_or (checked_add ticks track_lead) clip_overflow) (\<lambda>base.
       moved_track t span track_origin base)))"

definition trim :: "media_index \<Rightarrow> clip_window \<Rightarrow> timeline_position \<Rightarrow> trailing \<Rightarrow> trimmed res" where
  "trim index w start trail =
     and_then (clip_reference index) (\<lambda>reference.
     let timescale = tr_timescale reference in
     and_then (reference_window index reference w) (\<lambda>(first, e).
     and_then (index_window (tr_samples reference) first e) (\<lambda>kept.
     and_then (index_decode_time (tr_samples reference) first) (\<lambda>origin.
     and_then (index_last kept) (\<lambda>l.
     and_then (expect l) (\<lambda>last.
     and_then (clip_sample_end last) (\<lambda>kept_end.
     and_then (iter_all kept) (\<lambda>xs.
     and_then (expect (least_of (map presented xs))) (\<lambda>earliest.
     let lead = (case u64_of_int (int origin - earliest) of None \<Rightarrow> 0 | Some n \<Rightarrow> n);
         to_the_end = (e = index_len (tr_samples reference) \<and> trail = Keep)
     in
     and_then (collect_res (map (trim_track reference (first, e) origin kept_end lead to_the_end start)
                 (mi_tracks index))) (\<lambda>tracks.
     and_then (ok_or (case checked_sub kept_end origin of
                        None \<Rightarrow> None | Some n \<Rightarrow> checked_add n lead) clip_overflow) (\<lambda>length.
     let offset = mi_presentation_offset_ms index in
     and_then (clip_rescale length timescale (mi_movie_timescale index)) (\<lambda>duration.
     and_then (position_after start length timescale) (\<lambda>clip_end.
       ok \<lparr>tm_index = index\<lparr>mi_duration := duration, mi_tracks := tracks\<rparr>,
           tm_end = clip_end,
           tm_served_from_ms =
             ticks_to_ms (case u64_of_int earliest of None \<Rightarrow> 0 | Some n \<Rightarrow> n) timescale - offset,
           tm_served_to_ms = ticks_to_ms kept_end timescale - offset,
           tm_span_from_ms = ticks_to_ms origin timescale,
           tm_span_to_ms = ticks_to_ms kept_end timescale,
           tm_lead_ms = ticks_to_ms lead timescale\<rparr>)))))))))))))"

section \<open>The version of an asset made of clips\<close>

definition FORMAT_REVISION :: nat where
  "FORMAT_REVISION = 2"

definition version_text :: "bytes \<Rightarrow> string" where
  "version_text digest = hex_string (take 8 digest)"

type_synonym clip_content = "source_identity \<times> clip_window \<times> encryption option \<times> track_selection option"

definition version_of_clip :: "(bytes \<Rightarrow> bytes) \<Rightarrow> clip_content \<Rightarrow> bytes res" where
  "version_of_clip sha = (\<lambda>(source, w, encryption, tracks).
     and_then (expect (id_metadata_hash source)) (\<lambda>content.
       ok (content @ be_bytes 8 (cw_from_ms w)
         @ (case cw_to_ms w of Some ms \<Rightarrow> [1] @ be_bytes 8 ms | None \<Rightarrow> [0])
         @ (case encryption of Some e \<Rightarrow> ascii ''cbcs'' @ fingerprint sha e | None \<Rightarrow> ascii ''clear'')
         @ (case tracks of Some s \<Rightarrow> ascii ''tracks'' @ ascii (canonical_selection s) | None \<Rightarrow> []))))"

definition version_of_clips ::
    "(bytes \<Rightarrow> bytes) \<Rightarrow> string \<Rightarrow> aes128 option \<Rightarrow> clip_content list \<Rightarrow> string res" where
  "version_of_clips sha mapper_version aes clips =
     and_then (collect_res (map (version_of_clip sha) clips)) (\<lambda>parts.
       ok (version_text (sha (ascii ''clips'' @ be_bytes 4 FORMAT_REVISION
         @ be_bytes 8 (length mapper_version) @ ascii mapper_version
         @ (case aes of Some a \<Rightarrow> ascii ''aes128'' @ aes128_fingerprint sha a | None \<Rightarrow> [])
         @ concat parts))))"

end
