(* ===== verification/Clip_Laws.thy ===== *)
theory Clip_Laws
  imports Clips Movie_Parser_Laws
begin

text \<open>
  Which samples a clip keeps, and where on the timeline they play.
\<close>

section \<open>The last that satisfies a condition\<close>

text \<open>An ascending list: nothing that satisfies the condition comes after the last that does.\<close>

lemma last_opt_filterD:
  assumes "sorted_wrt (<) ns" "last_opt (filter P ns) = Some (n :: nat)"
  shows "n \<in> set ns" "P n" "m \<in> set ns \<Longrightarrow> n < m \<Longrightarrow> \<not> P m"
proof -
  let ?f = "filter P ns"
  have ne: "?f \<noteq> []" and n: "n = last ?f" using assms(2) by (auto simp: last_opt_def split: if_splits)
  then show "n \<in> set ns" "P n" using last_in_set [OF ne] by auto
  show "\<not> P m" if "m \<in> set ns" "n < m"
  proof
    assume "P m"
    then have "m \<in> set ?f" using that by simp
    then obtain k where k: "k < length ?f" "m = ?f ! k" by (metis in_set_conv_nth)
    have "sorted_wrt (<) ?f" using assms(1) by (simp add: sorted_wrt_filter)
    moreover have "n = ?f ! (length ?f - 1)" using n ne by (simp add: last_conv_nth)
    ultimately show False
      using that k by (metis One_nat_def Suc_pred leD le_less length_greater_0_conv less_Suc_eq_le ne nless_le
        sorted_wrt_nth_less diff_less zero_less_Suc)
  qed
qed

lemma last_opt_filter_None: "last_opt (filter P xs) = None \<longleftrightarrow> (\<forall>x \<in> set xs. \<not> P x)"
  by (auto simp: last_opt_def filter_empty_conv)

lemma last_opt_map: "last_opt (map f xs) = map_option f (last_opt xs)"
  by (simp add: last_opt_def last_map)

section \<open>The window on the reference track\<close>

text \<open>What \<open>video_window\<close> computes, over the list of samples.\<close>

definition keyframe_start :: "sample list \<Rightarrow> nat \<Rightarrow> nat" where
  "keyframe_start xs start =
     (case last_opt (filter (\<lambda>i. presented (xs ! i) \<le> int start) (sync_positions xs)) of
        Some i \<Rightarrow> i
      | None \<Rightarrow> (case sync_positions xs of [] \<Rightarrow> 0 | i # _ \<Rightarrow> i))"

definition prefix_end :: "sample list \<Rightarrow> nat \<Rightarrow> nat option \<Rightarrow> nat" where
  "prefix_end xs first to =
     (case to of
        None \<Rightarrow> length xs
      | Some e \<Rightarrow>
          (case last_opt (filter (\<lambda>i. presented (xs ! i) < int e) [first..<length xs]) of
             Some i \<Rightarrow> i + 1 | None \<Rightarrow> first + 1))"

lemma sync_positions_bound: "i \<in> set (sync_positions xs) \<longleftrightarrow> i < length xs \<and> sm_is_sync (xs ! i)"
  by (auto simp: sync_positions_def)

lemma sync_positions_sorted: "sorted_wrt (<) (sync_positions xs)"
  by (simp add: sync_positions_def sorted_wrt_filter)

lemma zip_map_self: "zip xs (map f xs) = map (\<lambda>x. (x, f x)) xs"
  by (induction xs) auto

lemma keyframe_start_bound:
  assumes "xs \<noteq> []"
  shows "keyframe_start xs start < length xs"
proof (cases "last_opt (filter (\<lambda>i. presented (xs ! i) \<le> int start) (sync_positions xs))")
  case None
  then show ?thesis
    using assms sync_positions_bound [of "hd (sync_positions xs)" xs]
    by (auto simp: keyframe_start_def split: list.split)
next
  case (Some n)
  then show ?thesis
    using last_opt_filterD(1) [OF sync_positions_sorted Some] sync_positions_bound [of n xs]
    by (simp add: keyframe_start_def)
qed

lemma enumerate_subslice:
  assumes "a \<le> length xs"
  shows "enumerate 0 (subslice xs a (length xs)) = map (\<lambda>i. (i - a, xs ! i)) [a..<length xs]"
  using assms by (intro nth_equalityI) (auto simp: nth_enumerate_eq)

lemma video_window_ok:
  assumes "index_valid s" "index_samples s = xs" "xs \<noteq> []"
    and first_def: "first = keyframe_start xs start"
  shows "video_window s start to = ok (first, max (prefix_end xs first to) (first + 1))"
proof -
  have wf: "index_wf s" using assms(1) by (simp add: index_valid_def)
  have len: "index_len s = length xs" using assms(2) length_index_samples [of s] by simp
  have bound: "first < length xs" unfolding first_def using keyframe_start_bound [OF assms(3)] .
  have gets: "collect_res (map (index_get s) (sync_positions xs)) = ok (map (\<lambda>i. xs ! i) (sync_positions xs))"
  proof -
    have "map (index_get s) (sync_positions xs) = map (\<lambda>i. ok (xs ! i)) (sync_positions xs)"
      using index_get_ok [OF wf] sync_positions_bound [of _ xs] assms(2) len by simp
    then show ?thesis by (simp only: collect_res_map_Inr)
  qed
  have start: "(case last_opt (filter (\<lambda>(i, x). presented x \<le> int start)
        (zip (sync_positions xs) (map (\<lambda>i. xs ! i) (sync_positions xs)))) of
      Some (i, x) \<Rightarrow> i | None \<Rightarrow> (case sync_positions xs of [] \<Rightarrow> 0 | i # _ \<Rightarrow> i)) = first"
    by (cases "last_opt (filter (\<lambda>i. presented (xs ! i) \<le> int start) (sync_positions xs))")
       (simp_all add: zip_map_self filter_map comp_def last_opt_map first_def keyframe_start_def)
  have pref: "(case last_opt (filter (\<lambda>(i, x). presented x < int e) (enumerate 0 (subslice xs first (length xs)))) of
      None \<Rightarrow> first + 1 | Some (i, x) \<Rightarrow> first + i + 1) = prefix_end xs first (Some e)" for e
  proof -
    let ?m = "last_opt (filter (\<lambda>i. presented (xs ! i) < int e) [first..<length xs])"
    have "last_opt (filter (\<lambda>(i, x). presented x < int e) (enumerate 0 (subslice xs first (length xs))))
        = map_option (\<lambda>i. (i - first, xs ! i)) ?m"
      using bound by (simp add: enumerate_subslice filter_map comp_def last_opt_map)
    moreover have "first \<le> i" if "?m = Some i" for i
      using last_opt_filterD(1) [of "[first..<length xs]", OF _ that] by simp
    ultimately show ?thesis by (cases ?m) (auto simp: prefix_end_def)
  qed
  have vec: "to_vec s first (length xs) = ok (subslice xs first (length xs))"
    using to_vec_ok [OF wf, of first "length xs"] bound len assms(2) by simp
  show ?thesis
  proof (cases to)
    case None
    then show ?thesis unfolding video_window_def
      by (simp add: sync_indices_ok [OF wf] assms(2) gets start Let_def len prefix_end_def)
  next
    case (Some e)
    then show ?thesis
      unfolding video_window_def sync_indices_ok [OF wf] assms(2) and_then_simps gets Let_def start
      by (simp only: option.case len vec and_then_simps pref)
  qed
qed

lemma prefix_end_bound:
  assumes "first < length xs"
  shows "prefix_end xs first to \<le> length xs"
proof (cases to)
  case (Some e)
  then show ?thesis
    using assms last_opt_filterD(1) [of "[first..<length xs]" "\<lambda>i. presented (xs ! i) < int e"]
    by (cases "last_opt (filter (\<lambda>i. presented (xs ! i) < int e) [first..<length xs])")
       (simp_all add: prefix_end_def Suc_leI)
qed (simp add: prefix_end_def)

text \<open>The keyframe a clip of video starts at.\<close>

lemma keyframe_start_shown:
  assumes "i < length xs" "sm_is_sync (xs ! i)" "presented (xs ! i) \<le> int start"
  defines "k \<equiv> keyframe_start xs start"
  shows "sm_is_sync (xs ! k)" "presented (xs ! k) \<le> int start"
    "\<lbrakk>k < j; j < length xs; sm_is_sync (xs ! j)\<rbrakk> \<Longrightarrow> int start < presented (xs ! j)"
proof -
  obtain n where n: "last_opt (filter (\<lambda>i. presented (xs ! i) \<le> int start) (sync_positions xs)) = Some n"
    using assms(1-3) sync_positions_bound [of i xs]
    by (cases "last_opt (filter (\<lambda>i. presented (xs ! i) \<le> int start) (sync_positions xs))")
       (auto simp: last_opt_filter_None)
  then have k: "k = n" by (simp add: k_def keyframe_start_def)
  note d = last_opt_filterD [OF sync_positions_sorted n]
  show "sm_is_sync (xs ! k)" "presented (xs ! k) \<le> int start"
    using d(1,2) k sync_positions_bound by auto
  show "int start < presented (xs ! j)" if "k < j" "j < length xs" "sm_is_sync (xs ! j)"
    using d(3) [of j] that k sync_positions_bound [of j xs] by auto
qed

lemma keyframe_start_first:
  assumes "\<forall>i < length xs. sm_is_sync (xs ! i) \<longrightarrow> int start < presented (xs ! i)"
    and "j < length xs" "sm_is_sync (xs ! j)"
  shows "sm_is_sync (xs ! keyframe_start xs start)" "keyframe_start xs start \<le> j"
proof -
  have none: "last_opt (filter (\<lambda>i. presented (xs ! i) \<le> int start) (sync_positions xs)) = None"
    using assms(1) sync_positions_bound [of _ xs] by (auto simp: last_opt_filter_None)
  obtain p ps where ps: "sync_positions xs = p # ps"
    using assms(2,3) sync_positions_bound [of j xs] by (cases "sync_positions xs") auto
  then have k: "keyframe_start xs start = p" using none by (simp add: keyframe_start_def)
  show "sm_is_sync (xs ! keyframe_start xs start)" using k ps sync_positions_bound [of p xs] by simp
  show "keyframe_start xs start \<le> j"
    using k ps sync_positions_sorted [of xs] sync_positions_bound [of j xs] assms(2,3) by auto
qed

lemma prefix_end_holds:
  "\<lbrakk>first \<le> i; i < length xs; \<forall>e. to = Some e \<longrightarrow> presented (xs ! i) < int e\<rbrakk> \<Longrightarrow> i < prefix_end xs first to"
proof (cases to)
  case (Some e)
  assume i: "first \<le> i" "i < length xs" and "\<forall>e. to = Some e \<longrightarrow> presented (xs ! i) < int e"
  with Some have p: "presented (xs ! i) < int e" by simp
  let ?ns = "[first..<length xs]"
  obtain n where n: "last_opt (filter (\<lambda>i. presented (xs ! i) < int e) ?ns) = Some n"
    using i p by (cases "last_opt (filter (\<lambda>i. presented (xs ! i) < int e) ?ns)") (auto simp: last_opt_filter_None)
  have "i \<le> n" using last_opt_filterD(3) [OF _ n, of i] i p by force
  then show ?thesis using Some n by (simp add: prefix_end_def)
qed (simp add: prefix_end_def)

text \<open>It is the shortest: its last sample is shown before the end, or is the only one.\<close>

lemma prefix_end_shortest:
  assumes "e' = max (prefix_end xs first (Some e)) (first + 1)"
  shows "e' = first + 1 \<or> presented (xs ! (e' - 1)) < int e"
proof (cases "last_opt (filter (\<lambda>i. presented (xs ! i) < int e) [first..<length xs])")
  case (Some n)
  have "first \<le> n" "presented (xs ! n) < int e"
    using last_opt_filterD(1,2) [OF _ Some] by auto
  then show ?thesis using assms Some by (simp add: prefix_end_def)
qed (use assms in \<open>simp add: prefix_end_def\<close>)

text \<open>Audio: the frame that holds the start, through the last that starts before the end.\<close>

lemma audio_window_ok:
  assumes "index_valid s" "index_samples s = xs" "xs \<noteq> []" "start < u64_limit - 1"
  obtains first e where "audio_window s start to = ok (first, e)" "first < e" "e \<le> length xs"
    "first = 0 \<or> sm_decode_time (xs ! first) \<le> start"
    "\<And>j. \<lbrakk>first < j; j < length xs\<rbrakk> \<Longrightarrow> start < sm_decode_time (xs ! j)"
    "\<And>i. \<lbrakk>first \<le> i; i < length xs; \<forall>t. to = Some t \<longrightarrow> sm_decode_time (xs ! i) < t\<rbrakk> \<Longrightarrow> i < e"
    "\<And>t. to = Some t \<Longrightarrow> e = first + 1 \<or> sm_decode_time (xs ! (e - 1)) < t"
proof -
  have len: "index_len s = length xs" using assms(2) length_index_samples [of s] by simp
  obtain p where p: "index_partition_by_decode_time s (start + 1) = ok p" "p \<le> length xs"
    using si.search_total [OF assms(1)] len by metis
  have below: "i < p \<longleftrightarrow> sm_decode_time (xs ! i) < start + 1" if "i < length xs" for i
    using si.search_splits(2) [OF assms(1) p(1)] that len assms(2) by simp
  obtain q where q: "(case to of None \<Rightarrow> ok (index_len s) | Some e \<Rightarrow> index_partition_by_decode_time s e) = ok q"
      "q \<le> length xs"
      "\<And>i. i < length xs \<Longrightarrow> i < q \<longleftrightarrow> (\<forall>t. to = Some t \<longrightarrow> sm_decode_time (xs ! i) < t)"
  proof (cases to)
    case (Some e)
    obtain q where "index_partition_by_decode_time s e = ok q" "q \<le> length xs"
      using si.search_total [OF assms(1)] len by metis
    then show thesis
      using that [of q] Some si.search_splits(2) [OF assms(1), of e q] len assms(2) by simp
  qed (use that len in simp)
  let ?first = "p - 1" and ?e = "max q (p - 1 + 1)"
  have "audio_window s start to = ok (?first, ?e)"
    using p q assms(4) by (simp add: audio_window_def saturating_add_def Let_def)
  moreover have "?first < ?e" by simp
  moreover have bound: "?first < length xs" using p(2) assms(3) by (cases p) auto
  then have "?e \<le> length xs" using q(2) by simp
  moreover have "?first = 0 \<or> sm_decode_time (xs ! ?first) \<le> start"
    using below [OF bound] by (cases p) auto
  moreover have "start < sm_decode_time (xs ! j)" if "?first < j" "j < length xs" for j
  proof -
    have "\<not> j < p" using that(1) by simp
    then show ?thesis using below [OF that(2)] by simp
  qed
  moreover have "i < ?e" if "?first \<le> i" "i < length xs" "\<forall>t. to = Some t \<longrightarrow> sm_decode_time (xs ! i) < t" for i
    using q(3) [OF that(2)] that(3) by simp
  moreover have "?e = ?first + 1 \<or> sm_decode_time (xs ! (?e - 1)) < t" if "to = Some t" for t
    using q(3) [of "q - 1"] q(2) that by (cases "q \<le> p - 1 + 1") (auto simp: max_def)
  ultimately show thesis using that by blast
qed

section \<open>A track that is moved\<close>

definition track_moved_by :: "track \<Rightarrow> nat \<Rightarrow> nat \<Rightarrow> int \<Rightarrow> track \<Rightarrow> bool" where
  "track_moved_by t a b delta t' \<longleftrightarrow>
     a < b \<and> b \<le> index_len (tr_samples t) \<and> index_valid (tr_samples t')
     \<and> index_samples (tr_samples t') = map (shift_sample delta) (subslice (index_samples (tr_samples t)) a b)
     \<and> t' = t\<lparr>tr_duration := tr_duration t', tr_samples := tr_samples t'\<rparr>"

lemma track_moved_id: "track_moved_by t a b delta t' \<Longrightarrow> tr_id t' = tr_id t"
proof -
  assume "track_moved_by t a b delta t'"
  then have "tr_id t' = tr_id (t\<lparr>tr_duration := tr_duration t', tr_samples := tr_samples t'\<rparr>)"
    unfolding track_moved_by_def by (elim conjE) (rule arg_cong)
  then show ?thesis by simp
qed

lemma moved_trackD:
  assumes "moved_track t (a, b) origin base = ok t'" "index_valid (tr_samples t)"
  shows "track_moved_by t a b (int base - int origin) t'"
    "origin \<le> sm_decode_time (index_samples (tr_samples t) ! a)"
    "tr_duration t' + sm_decode_time (hd (index_samples (tr_samples t')))
       = sm_decode_time (last (index_samples (tr_samples t'))) + sm_duration (last (index_samples (tr_samples t')))"
    "sm_decode_time (last (index_samples (tr_samples t'))) + sm_duration (last (index_samples (tr_samples t')))
       < u64_limit"
proof -
  obtain kept where kept: "index_window (tr_samples t) a b = ok kept" "\<not> index_is_empty kept"
    using assms(1) by (auto simp: moved_track_def and_then_eq_Inr split: if_splits)
  note k = si.windowD [OF assms(2) kept(1)]
  have wf: "index_wf kept" using k(3) by (simp add: index_valid_def)
  have ne: "index_samples kept \<noteq> []" using kept(2) index_is_empty_iff [OF wf] by simp
  have ab: "a < b" using ne k by (cases "a = b") auto
  have first: "index_decode_time kept 0 = ok (sm_decode_time (index_samples (tr_samples t) ! a))"
    using index_decode_time_ok [OF wf, of 0] ne k ab by simp
  obtain s' e where s': "origin \<le> sm_decode_time (index_samples (tr_samples t) ! a)"
      "index_shifted kept (int base - int origin) ''clip timing overflow'' = ok s'"
    and t': "and_then (index_last s') (\<lambda>l. and_then (expect l) (\<lambda>last. and_then (clip_sample_end last) (\<lambda>e.
         and_then (index_decode_time s' 0) (\<lambda>first. and_then (ok_or (checked_sub e first) clip_overflow) (\<lambda>duration.
           ok (t\<lparr>tr_duration := duration, tr_samples := s'\<rparr>)))))) = ok t'"
    using assms(1) kept first by (auto simp: moved_track_def and_then_eq_Inr split: if_splits)
  note v = index_shifted_valid [OF k(3) s'(2)]
  have wf': "index_wf s'" using v(1) by (simp add: index_valid_def)
  have ne': "index_samples s' \<noteq> []" using v(2) ne by simp
  then have pos: "0 < index_len s'" by (metis length_greater_0_conv length_index_samples)
  from t' have dur: "tr_samples t' = s'" "t' = t\<lparr>tr_duration := tr_duration t', tr_samples := s'\<rparr>"
    "tr_duration t' + sm_decode_time (hd (index_samples s'))
       = sm_decode_time (last (index_samples s')) + sm_duration (last (index_samples s'))"
    "sm_decode_time (last (index_samples s')) + sm_duration (last (index_samples s')) < u64_limit"
    using ne' pos index_last_ok [OF wf'] index_decode_time_ok [OF wf' pos]
    by (auto simp: and_then_eq_Inr last_opt_def clip_sample_end_def hd_conv_nth)
  show "track_moved_by t a b (int base - int origin) t'"
    using dur v k ab by (simp add: track_moved_by_def)
  show "origin \<le> sm_decode_time (index_samples (tr_samples t) ! a)" by (rule s'(1))
  show "tr_duration t' + sm_decode_time (hd (index_samples (tr_samples t')))
       = sm_decode_time (last (index_samples (tr_samples t'))) + sm_duration (last (index_samples (tr_samples t')))"
    "sm_decode_time (last (index_samples (tr_samples t'))) + sm_duration (last (index_samples (tr_samples t')))
       < u64_limit"
    using dur by simp_all
qed

section \<open>What the trimming returns\<close>

lemma case_option_eq_Some:
  "(case x of None \<Rightarrow> None | Some n \<Rightarrow> f n) = Some y \<longleftrightarrow> (\<exists>n. x = Some n \<and> f n = Some y)"
  by (cases x) auto

lemma clip_reference_in: "clip_reference index = ok r \<Longrightarrow> r \<in> set (mi_tracks index)"
  by (auto simp: clip_reference_def find_Some_iff split: option.splits)

lemma reference_windowD:
  assumes "reference_window index r w = ok (first, e)" "index_valid (tr_samples r)"
  shows "first < e" "e \<le> index_len (tr_samples r)"
proof -
  let ?s = "tr_samples r" and ?xs = "index_samples (tr_samples r)"
  have wf: "index_wf ?s" using assms(2) by (simp add: index_valid_def)
  have ne: "?xs \<noteq> []"
    using assms(1) index_last_ok [OF wf] by (auto simp: reference_window_def and_then_eq_Inr Let_def last_opt_def)
  obtain start to where w: "start < u64_limit - 1"
      "case tr_kind r of Video \<Rightarrow> video_window ?s start to = ok (first, e)
        | Audio \<Rightarrow> audio_window ?s start to = ok (first, e)"
  proof -
    from assms(1) obtain x l start to where l: "clip_sample_end x = ok l" "\<not> l \<le> start"
      and k: "(case tr_kind r of Video \<Rightarrow> video_window ?s start to | Audio \<Rightarrow> audio_window ?s start to) = ok (first, e)"
      by (auto simp: reference_window_def and_then_eq_Inr Let_def split: if_splits)
    have "start < u64_limit - 1" using l by (auto simp: clip_sample_end_def)
    then show thesis using that k by (cases "tr_kind r") auto
  qed
  show "first < e" "e \<le> index_len ?s"
  proof -
    have "first < e \<and> e \<le> index_len ?s"
    proof (cases "tr_kind r")
      case Video
      then have "first = keyframe_start ?xs start" "e = max (prefix_end ?xs first to) (first + 1)"
        using w(2) video_window_ok [OF assms(2) refl ne refl, of start to] by auto
      then show ?thesis
        using keyframe_start_bound [OF ne, of start] prefix_end_bound [of first ?xs to] by simp
    next
      case Audio
      obtain f' e' where "audio_window ?s start to = ok (f', e')" "f' < e'" "e' \<le> length ?xs"
        by (rule audio_window_ok [OF assms(2) refl ne w(1), of to])
      then show ?thesis using w(2) Audio by simp
    qed
    then show "first < e" "e \<le> index_len ?s" by auto
  qed
qed

text \<open>The samples a follower keeps, on its own clock.\<close>

definition plays_within :: "track \<Rightarrow> nat \<Rightarrow> nat \<Rightarrow> bool \<Rightarrow> nat \<Rightarrow> nat \<Rightarrow> bool" where
  "plays_within t start span_end to_the_end a b \<longleftrightarrow>
     (\<forall>i < index_len (tr_samples t). a \<le> i \<and> i < b \<longleftrightarrow>
        start \<le> sm_decode_time (index_samples (tr_samples t) ! i)
        \<and> (to_the_end \<or> sm_decode_time (index_samples (tr_samples t) ! i) < span_end))"

lemma follower_window_plays:
  assumes "index_valid (tr_samples t)" "follower_window t start span_end to_the_end = ok (a, b)"
  shows "plays_within t start span_end to_the_end a b"
proof -
  obtain q where p: "index_partition_by_decode_time (tr_samples t) start = ok a"
    and q: "(if to_the_end then ok (index_len (tr_samples t))
             else index_partition_by_decode_time (tr_samples t) span_end) = ok q" "b = max q a"
    using assms(2) by (auto simp: follower_window_def and_then_eq_Inr)
  show ?thesis
    unfolding plays_within_def
  proof (intro allI impI)
    fix i assume i: "i < index_len (tr_samples t)"
    have a: "i < a \<longleftrightarrow> sm_decode_time (index_samples (tr_samples t) ! i) < start"
      using si.search_splits(2) [OF assms(1) p i] .
    have b: "i < q \<longleftrightarrow> to_the_end \<or> sm_decode_time (index_samples (tr_samples t) ! i) < span_end"
      using q(1) i si.search_splits(2) [OF assms(1), of span_end q i] by (auto split: if_splits)
    show "a \<le> i \<and> i < b \<longleftrightarrow> start \<le> sm_decode_time (index_samples (tr_samples t) ! i)
        \<and> (to_the_end \<or> sm_decode_time (index_samples (tr_samples t) ! i) < span_end)"
      using a b q(2) by auto
  qed
qed

lemma collect_map_eq_Inr: "collect_res (map f xs) = Inr ys \<longleftrightarrow> list_all2 (\<lambda>x y. f x = Inr y) xs ys"
  by (auto simp: collect_res_eq_Inr list_all2_conv_all_nth list_eq_iff_nth_eq)

lemma list_all2_in: "list_all2 R xs ys \<Longrightarrow> x \<in> set xs \<Longrightarrow> \<exists>y \<in> set ys. R x y"
  by (induction rule: list_all2_induct) auto

lemma trim_trackD:
  assumes "trim_track r (first, e) origin kept_end lead to_the_end start t = ok t'"
    and "index_valid (tr_samples t)"
  obtains a b track_origin track_lead ticks span_end where
    "position_in_ticks start (tr_timescale t) = ok ticks"
    "track_moved_by t a b (int (ticks + track_lead) - int track_origin) t'"
    "tr_id t = tr_id r \<longrightarrow> a = first \<and> b = e \<and> track_origin = origin \<and> track_lead = lead"
    "tr_id t \<noteq> tr_id r \<longrightarrow> clip_rescale origin (tr_timescale r) (tr_timescale t) = ok track_origin
       \<and> clip_rescale kept_end (tr_timescale r) (tr_timescale t) = ok span_end
       \<and> clip_rescale lead (tr_timescale r) (tr_timescale t) = ok track_lead
       \<and> plays_within t track_origin span_end to_the_end a b"
proof (cases "tr_id t = tr_id r")
  case True
  then obtain ticks where m: "position_in_ticks start (tr_timescale t) = ok ticks"
      "moved_track t (first, e) origin (ticks + lead) = ok t'"
    using assms(1) by (auto simp: trim_track_def and_then_eq_Inr)
  show thesis by (rule that [OF m(1) moved_trackD(1) [OF m(2) assms(2)]]) (use True in auto)
next
  case False
  then obtain track_origin span_end track_lead a b ticks where *:
      "clip_rescale origin (tr_timescale r) (tr_timescale t) = ok track_origin"
      "clip_rescale kept_end (tr_timescale r) (tr_timescale t) = ok span_end"
      "clip_rescale lead (tr_timescale r) (tr_timescale t) = ok track_lead"
      "follower_window t track_origin span_end to_the_end = ok (a, b)"
      "position_in_ticks start (tr_timescale t) = ok ticks"
      "moved_track t (a, b) track_origin (ticks + track_lead) = ok t'"
    using assms(1) by (auto simp: trim_track_def and_then_eq_Inr)
  show thesis
    by (rule that [OF *(5) moved_trackD(1) [OF *(6) assms(2)], of span_end])
       (use False * follower_window_plays [OF assms(2) *(4)] in auto)
qed

text \<open>A track as the parser leaves it; composition offsets are \<open>i32\<close>.\<close>

definition clip_track_ok :: "track \<Rightarrow> bool" where
  "clip_track_ok t \<longleftrightarrow> index_valid (tr_samples t)
     \<and> (\<forall>x \<in> set (index_samples (tr_samples t)). - (2 ^ 31) \<le> sm_composition_offset x)"

lemma earliest_bound:
  assumes "clip_track_ok r" "first < e" "e \<le> index_len (tr_samples r)"
  shows "int (sm_decode_time (index_samples (tr_samples r) ! first)) - 2 ^ 31
    \<le> Min (presented ` set (subslice (index_samples (tr_samples r)) first e))"
proof -
  let ?xs = "index_samples (tr_samples r)"
  have "int (sm_decode_time (?xs ! first)) - 2 ^ 31 \<le> presented x" if "x \<in> set (subslice ?xs first e)" for x
  proof -
    obtain i where i: "i < e - first" "x = ?xs ! (first + i)"
      using \<open>x \<in> set (subslice ?xs first e)\<close> assms(3) by (auto simp: in_set_conv_nth)
    have "sm_decode_time (?xs ! first) \<le> sm_decode_time x"
      using sorted_nth_mono [OF index_valid_sorted, of "tr_samples r" first "first + i"] assms i
      by (simp add: clip_track_ok_def)
    moreover have "- (2 ^ 31) \<le> sm_composition_offset x"
      using that set_subslice [of ?xs first e] assms(1) by (auto simp: clip_track_ok_def)
    ultimately show ?thesis by (simp add: presented_def)
  qed
  moreover have "subslice ?xs first e \<noteq> []"
    using assms(2,3) length_subslice [of e ?xs first] by (metis diff_is_0_eq leD length_index_samples list.size(3))
  ultimately show ?thesis by (subst Min_ge_iff) auto
qed

lemma trimD:
  assumes "trim index w start trail = ok t"
    and tracks: "\<forall>tr \<in> set (mi_tracks index). clip_track_ok tr"
  obtains r first e kept_end lead length
  where "clip_reference index = ok r" "reference_window index r w = ok (first, e)"
    "first < e" "e \<le> index_len (tr_samples r)"
    "kept_end = sm_decode_time (index_samples (tr_samples r) ! (e - 1))
       + sm_duration (index_samples (tr_samples r) ! (e - 1))"
    "int lead = max 0 (int (sm_decode_time (index_samples (tr_samples r) ! first))
       - Min (presented ` set (subslice (index_samples (tr_samples r)) first e)))"
    "list_all2 (\<lambda>x y. trim_track r (first, e) (sm_decode_time (index_samples (tr_samples r) ! first)) kept_end
        lead (e = index_len (tr_samples r) \<and> trail = Keep) start x = ok y)
      (mi_tracks index) (mi_tracks (tm_index t))"
    "length + sm_decode_time (index_samples (tr_samples r) ! first) = kept_end + lead"
    "sm_decode_time (index_samples (tr_samples r) ! first) \<le> kept_end"
    "position_after start length (tr_timescale r) = ok (tm_end t)"
proof -
  obtain r first e where r: "clip_reference index = ok r" "reference_window index r w = ok (first, e)"
    using assms(1) by (auto simp: trim_def and_then_eq_Inr Let_def)
  have ok: "clip_track_ok r" using clip_reference_in [OF r(1)] tracks by blast
  then have v: "index_valid (tr_samples r)" by (simp add: clip_track_ok_def)
  then have wf: "index_wf (tr_samples r)" by (simp add: index_valid_def)
  note fe = reference_windowD [OF r(2) v]
  let ?xs = "index_samples (tr_samples r)"
  obtain kept where kept: "index_window (tr_samples r) first e = ok kept"
    using index_window_ok [of first e "tr_samples r"] fe by simp
  note k = si.windowD [OF v kept]
  have wfk: "index_wf kept" using k(3) by (simp add: index_valid_def)
  have ne: "index_samples kept \<noteq> []" using k(4) fe by (metis k(5) length_0_conv length_index_samples diff_is_0_eq leD)
  have last: "last_opt (index_samples kept) = Some (?xs ! (e - 1))"
    using ne fe k(4) by (simp add: last_opt_def last_conv_nth)
  have origin: "index_decode_time (tr_samples r) first = ok (sm_decode_time (?xs ! first))"
    using index_decode_time_ok [OF wf, of first] fe by simp
  have least: "least_of (map presented (index_samples kept)) = Some (Min (presented ` set (subslice ?xs first e)))"
    using ne k(4) by (simp add: least_of_def)
  let ?earliest = "Min (presented ` set (subslice ?xs first e))"
  define lead where "lead = (case u64_of_int (int (sm_decode_time (?xs ! first)) - ?earliest) of None \<Rightarrow> 0 | Some n \<Rightarrow> n)"
  have rest: "\<exists>kept_end tracks length duration clip_end.
      clip_sample_end (?xs ! (e - 1)) = ok kept_end
      \<and> collect_res (map (trim_track r (first, e) (sm_decode_time (?xs ! first)) kept_end lead
           (e = index_len (tr_samples r) \<and> trail = Keep) start) (mi_tracks index)) = ok tracks
      \<and> sm_decode_time (?xs ! first) \<le> kept_end \<and> length = kept_end - sm_decode_time (?xs ! first) + lead
      \<and> position_after start length (tr_timescale r) = ok clip_end
      \<and> mi_tracks (tm_index t) = tracks \<and> tm_end t = clip_end"
    using assms(1)
    apply (simp add: trim_def r kept origin last index_last_ok [OF wfk] iter_all_ok [OF wfk] least Let_def
        lead_def [symmetric])
    apply (simp add: and_then_eq_Inr case_option_eq_Some lead_def [symmetric])
    by (elim exE conjE, drule sym [of _ t], simp)
  then obtain kept_end where fin: "clip_sample_end (?xs ! (e - 1)) = ok kept_end"
      "collect_res (map (trim_track r (first, e) (sm_decode_time (?xs ! first)) kept_end lead
           (e = index_len (tr_samples r) \<and> trail = Keep) start) (mi_tracks index)) = ok (mi_tracks (tm_index t))"
      "sm_decode_time (?xs ! first) \<le> kept_end"
      "position_after start (kept_end - sm_decode_time (?xs ! first) + lead) (tr_timescale r) = ok (tm_end t)"
    by (elim exE conjE) simp
  have lead: "int lead = max 0 (int (sm_decode_time (?xs ! first)) - ?earliest)"
    using earliest_bound [OF ok fe] by (simp add: lead_def u64_of_int_def)
  show thesis
  proof (rule that [OF r fe _ lead _ _ fin(3,4)])
    show "kept_end = sm_decode_time (?xs ! (e - 1)) + sm_duration (?xs ! (e - 1))"
      using fin(1) by (simp add: clip_sample_end_def)
    show "list_all2 (\<lambda>x y. trim_track r (first, e) (sm_decode_time (?xs ! first)) kept_end lead
        (e = index_len (tr_samples r) \<and> trail = Keep) start x = ok y) (mi_tracks index) (mi_tracks (tm_index t))"
      using fin(2) by (simp add: collect_map_eq_Inr)
  qed (use fin(3) in simp)
qed

section \<open>Where the clip plays\<close>

lemma presented_shift:
  "0 \<le> int (sm_decode_time x) + delta \<Longrightarrow> presented (shift_sample delta x) = presented x + delta"
  by (simp add: presented_def shift_sample_def)

text \<open>Moving a clip by its lead as well keeps every frame at or after its start.\<close>

lemma moved_after_start:
  assumes "track_moved_by r first e (int (ticks + lead) - int origin) r'" "index_valid (tr_samples r)"
    and origin: "origin = sm_decode_time (index_samples (tr_samples r) ! first)"
    and lead: "int lead = max 0 (int origin - Min (presented ` set (subslice (index_samples (tr_samples r)) first e)))"
    and x: "x \<in> set (index_samples (tr_samples r'))"
  shows "int ticks \<le> presented x"
proof -
  let ?xs = "index_samples (tr_samples r)"
  have m: "first < e" "e \<le> length ?xs" "index_samples (tr_samples r') = map (shift_sample (int (ticks + lead) - int origin)) (subslice ?xs first e)"
    using assms(1) by (auto simp: track_moved_by_def)
  then obtain y where y: "y \<in> set (subslice ?xs first e)" "x = shift_sample (int (ticks + lead) - int origin) y"
    using x by auto
  then obtain i where i: "i < e - first" "y = ?xs ! (first + i)"
    using m(2) by (auto simp: in_set_conv_nth)
  have "origin \<le> sm_decode_time y"
    using sorted_nth_mono [OF index_valid_sorted [OF assms(2)], of first "first + i"] m i origin by simp
  then have "presented x = presented y + int ticks + int lead - int origin"
    using y(2) by (simp add: presented_shift)
  moreover have "Min (presented ` set (subslice ?xs first e)) \<le> presented y" using y(1) by simp
  ultimately show ?thesis using lead by linarith
qed

text \<open>Nanoseconds lose less than a tick of any clock up to 1 GHz.\<close>

lemma position_after_in_ticks:
  assumes "position_in_ticks start ts = ok ticks" "position_after start len ts = ok stop"
    and "ts \<le> NANOS_PER_SECOND"
  shows "stop * ts div NANOS_PER_SECOND \<le> ticks + len" "ticks + len \<le> stop * ts div NANOS_PER_SECOND + 1"
proof -
  let ?N = "NANOS_PER_SECOND"
  have pos: "0 < ?N" by (simp add: NANOS_PER_SECOND_def)
  have ticks: "ticks = start * ts div ?N"
    using assms(1) by (auto simp: position_in_ticks_def)
  have stop: "stop = start + len * ?N div ts" "ts \<noteq> 0"
    using assms(2) by (auto simp: position_after_def and_then_eq_Inr split: option.splits)
  have up: "len * ?N div ts * ts \<le> len * ?N" by (simp add: div_times_less_eq_dividend)
  have "len * ?N < len * ?N div ts * ts + ts"
    using stop(2) by (metis add.commute add_less_cancel_left div_mult_mod_eq mod_less_divisor neq0_conv)
  then have low: "len * ?N < len * ?N div ts * ts + ?N" using assms(3) by linarith
  have "stop * ts = start * ts + len * ?N div ts * ts" using stop(1) by (simp add: add_mult_distrib)
  then have 1: "stop * ts \<le> start * ts + len * ?N" and 2: "start * ts + len * ?N < stop * ts + ?N"
    using up low by linarith+
  have "(start * ts + len * ?N) div ?N = ticks + len" using pos ticks by simp
  then show "stop * ts div ?N \<le> ticks + len" using div_le_mono [OF 1, of ?N] by simp
  have "(start * ts + len * ?N) div ?N \<le> (stop * ts + ?N) div ?N" using 2 by (intro div_le_mono) simp
  also have "\<dots> = stop * ts div ?N + 1" using pos by simp
  finally show "ticks + len \<le> stop * ts div ?N + 1"
    using \<open>(start * ts + len * ?N) div ?N = ticks + len\<close> by simp
qed

section \<open>Trimming does not panic\<close>

lemma safe_ok_or_case [simp]: "safe (ok_or (case m of None \<Rightarrow> a | Some n \<Rightarrow> b n) e)"
  by simp

lemma moved_track_safe:
  assumes "index_valid (tr_samples t)" "a \<le> b" "b \<le> index_len (tr_samples t)"
  shows "safe (moved_track t (a, b) origin base)"
proof -
  obtain kept where kept: "index_window (tr_samples t) a b = ok kept"
    using index_window_ok [OF assms(2,3)] by blast
  note k = si.windowD [OF assms(1) kept]
  have wf: "index_wf kept" using k(3) by (simp add: index_valid_def)
  show ?thesis
  proof (cases "index_is_empty kept")
    case False
    then have ne: "index_samples kept \<noteq> []" using index_is_empty_iff [OF wf] by simp
    then have "0 < index_len kept" by (metis length_greater_0_conv length_index_samples)
    then have first: "\<exists>x. index_decode_time kept 0 = ok x" using index_decode_time_ok [OF wf] by blast
    have rest: "safe (and_then (index_last s) (\<lambda>l. and_then (expect l) (\<lambda>last. and_then (clip_sample_end last) (\<lambda>e.
         and_then (index_decode_time s 0) (\<lambda>first. and_then (ok_or (checked_sub e first) clip_overflow) (\<lambda>duration.
           ok (t\<lparr>tr_duration := duration, tr_samples := s\<rparr>)))))))"
      if s: "index_shifted kept (int base - int origin) ''clip timing overflow'' = ok s" for s
    proof -
      note v = index_shifted_valid [OF k(3) s]
      have wfs: "index_wf s" using v(1) by (simp add: index_valid_def)
      have nes: "index_samples s \<noteq> []" using v(2) ne by simp
      then have "0 < index_len s" by (metis length_greater_0_conv length_index_samples)
      then have "\<exists>x. index_decode_time s 0 = ok x" using index_decode_time_ok [OF wfs] by blast
      then show ?thesis
        using nes by (auto simp: index_last_ok [OF wfs] last_opt_def clip_sample_end_def intro!: safe_and_then)
    qed
    obtain x where x: "index_decode_time kept 0 = ok x" using first by blast
    show ?thesis
    proof (cases "index_shifted kept (int base - int origin) ''clip timing overflow''")
      case (Inl f)
      then show ?thesis using kept False x index_shifted_fault [OF wf Inl]
        by (simp add: moved_track_def)
    next
      case (Inr s)
      then show ?thesis using kept False x rest [OF Inr] by (simp add: moved_track_def)
    qed
  qed (simp add: moved_track_def kept)
qed

lemma follower_windowD:
  assumes "index_valid (tr_samples t)" "follower_window t start span_end to_the_end = ok (a, b)"
  shows "a \<le> b" "b \<le> index_len (tr_samples t)"
  using assms(2) si.search_splits(1) [OF assms(1)]
  by (auto simp: follower_window_def and_then_eq_Inr split: if_splits)

lemma follower_window_safe: "index_valid (tr_samples t) \<Longrightarrow> safe (follower_window t start span_end to_the_end)"
  using si.search_total [of "tr_samples t"]
  by (auto simp: follower_window_def intro!: safe_and_then) (metis safe_simps(1))+

lemma trim_track_safe:
  assumes "index_valid (tr_samples t)" "first \<le> e"
    and "tr_id t = tr_id r \<Longrightarrow> e \<le> index_len (tr_samples t)"
  shows "safe (trim_track r (first, e) origin kept_end lead to_the_end start t)"
proof -
  let ?part = "if tr_id t = tr_id r then ok ((first, e), origin, lead)
    else and_then (clip_rescale origin (tr_timescale r) (tr_timescale t)) (\<lambda>track_origin.
      and_then (clip_rescale kept_end (tr_timescale r) (tr_timescale t)) (\<lambda>span_end.
      and_then (follower_window t track_origin span_end to_the_end) (\<lambda>span.
      and_then (clip_rescale lead (tr_timescale r) (tr_timescale t)) (\<lambda>track_lead.
        ok (span, track_origin, track_lead)))))"
  have "safe ?part"
    using follower_window_safe [OF assms(1)] by (auto simp: clip_rescale_def intro!: safe_and_then)
  moreover have "safe (and_then (position_in_ticks start (tr_timescale t)) (\<lambda>ticks.
       and_then (ok_or (checked_add ticks track_lead) clip_overflow) (\<lambda>base. moved_track t span track_origin base)))"
    if part: "?part = ok (span, track_origin, track_lead)" for span track_origin track_lead
  proof -
    obtain a b where ab: "span = (a, b)" by (cases span)
    have "a \<le> b \<and> b \<le> index_len (tr_samples t)"
      using part ab assms follower_windowD [OF assms(1)] by (auto simp: and_then_eq_Inr split: if_splits)
    then show ?thesis
      using ab moved_track_safe [OF assms(1), of a b] by (auto simp: position_in_ticks_def intro!: safe_and_then)
  qed
  ultimately show ?thesis
    unfolding trim_track_def by (intro safe_and_then [of ?part]) (auto split: prod.split)
qed

lemma audio_window_safe: "index_valid s \<Longrightarrow> safe (audio_window s start to)"
proof -
  assume v: "index_valid s"
  have p: "safe (index_partition_by_decode_time s m)" for m
    using si.search_total [OF v, of m] by auto
  show ?thesis unfolding audio_window_def Let_def
    by (intro safe_and_then p) (auto split: option.split simp: p)
qed

lemma reference_window_safe:
  assumes "index_valid (tr_samples r)"
  shows "safe (reference_window index r w)"
proof -
  let ?s = "tr_samples r" and ?xs = "index_samples (tr_samples r)"
  have wf: "index_wf ?s" using assms by (simp add: index_valid_def)
  have ticks: "safe (ms_after a b c)" for a b c
    unfolding ms_after_def ms_to_ticks_def by (intro safe_and_then) simp_all
  have windows: "safe (case tr_kind r of Video \<Rightarrow> video_window ?s start to | Audio \<Rightarrow> audio_window ?s start to)"
    if "?xs \<noteq> []" for start to
    using video_window_ok [OF assms refl that refl, of start to] audio_window_safe [OF assms]
    by (cases "tr_kind r") simp_all
  have upto: "safe (case cw_to_ms w of None \<Rightarrow> ok None
       | Some ms \<Rightarrow> and_then (ms_after ms a b) (\<lambda>e. ok (Some e)))" for a b
    by (cases "cw_to_ms w") (auto intro!: safe_and_then ticks)
  show ?thesis
  proof (cases "?xs = []")
    case True
    then show ?thesis by (simp add: reference_window_def index_last_ok [OF wf] last_opt_def Let_def)
  next
    case False
    have "safe (clip_sample_end x)" for x by (simp add: clip_sample_end_def)
    with False windows [OF False] ticks upto show ?thesis
      unfolding reference_window_def Let_def index_last_ok [OF wf] last_opt_def if_not_P [OF False]
        and_then_simps ok_or_simps
      by (intro safe_and_then) (auto intro!: safe_and_then)
  qed
qed

lemma trim_safe:
  assumes tracks: "\<forall>x \<in> set (mi_tracks index). clip_track_ok x" and ids: "distinct (map tr_id (mi_tracks index))"
  shows "safe (trim index w start trail)"
proof (cases "clip_reference index")
  case (Inl f)
  then have "f \<noteq> Panic" by (auto simp: clip_reference_def ok_or_def split: option.splits)
  then show ?thesis by (simp add: trim_def Inl safe_def)
next
  case (Inr r)
  have r: "r \<in> set (mi_tracks index)" by (rule clip_reference_in [OF Inr])
  then have v: "index_valid (tr_samples r)" using tracks by (auto simp: clip_track_ok_def)
  then have wf: "index_wf (tr_samples r)" by (simp add: index_valid_def)
  show ?thesis
  proof (cases "reference_window index r w")
    case (Inl f)
    then show ?thesis using Inr reference_window_safe [OF v, of index w] by (simp add: trim_def Let_def safe_def)
  next
    case window: (Inr p)
    obtain first e where p: "p = (first, e)" by (cases p)
    note fe = reference_windowD [OF window [unfolded p] v]
    obtain kept where kept: "index_window (tr_samples r) first e = ok kept"
      using index_window_ok [of first e "tr_samples r"] fe by simp
    note k = si.windowD [OF v kept]
    have wfk: "index_wf kept" using k(3) by (simp add: index_valid_def)
    have ne: "index_samples kept \<noteq> []"
      using k(4) fe by (metis k(5) length_0_conv length_index_samples diff_is_0_eq leD)
    have origin: "\<exists>o'. index_decode_time (tr_samples r) first = ok o'"
      using index_decode_time_ok [OF wf, of first] fe by auto
    have all: "safe (collect_res (map (trim_track r (first, e) origin kept_end lead to_the_end start)
        (mi_tracks index)))" for origin kept_end lead to_the_end
    proof (rule safe_collect)
      fix q assume "q \<in> set (map (trim_track r (first, e) origin kept_end lead to_the_end start) (mi_tracks index))"
      then obtain x where x: "x \<in> set (mi_tracks index)"
          "q = trim_track r (first, e) origin kept_end lead to_the_end start x" by auto
      have "e \<le> index_len (tr_samples x)" if "tr_id x = tr_id r"
        using that x(1) r ids fe by (metis distinct_map inj_on_eq_iff)
      then show "safe q"
        using x tracks fe by (auto intro!: trim_track_safe simp: clip_track_ok_def)
    qed
    have rest: "safe (clip_sample_end x)" "safe (clip_rescale a b c)" "safe (position_after p a b)" for x a b c p
      by (simp_all add: clip_sample_end_def clip_rescale_def position_after_def safe_and_then)
    have least: "\<exists>m. least_of (map presented (index_samples kept)) = Some m"
      using ne by (simp add: least_of_def)
    from origin least show ?thesis
      unfolding trim_def Inr and_then_simps window p Let_def prod.case kept
        index_last_ok [OF wfk] iter_all_ok [OF wfk]
      using ne all rest
      by (auto simp: last_opt_def intro!: safe_and_then)
  qed
qed

end
