(* ===== verification/Clip_Properties.thy ===== *)
theory Clip_Properties
  imports Clip_Laws Segment_Planner_Laws
begin

text \<open>
  The properties of clips: the window kept of the reference track, what the other tracks keep,
  where everything is moved on the timeline, and that trimming never panics.
\<close>

section \<open>Two tracks to try them on\<close>

lemma example_tracks_ok: "\<forall>t \<in> set (mi_tracks example_media). clip_track_ok t"
proof -
  have "index_samples (tr_samples example_video) = even_samples 0 [500, 500, 500, 500, 500, 500, 500, 500]"
    "index_samples (tr_samples example_audio) = even_samples 80 [400, 400, 1800, 1400]"
    using index_of_valid(2) [OF example_samples_ok(1) _ example_samples_ok(2)]
      index_of_valid(2) [OF example_samples_ok(3) _ example_samples_ok(4)]
    by (simp_all add: example_video_def example_audio_def planner_track_def even_samples_def)
  then show ?thesis
    using example_media_valid
    by (auto simp: clip_track_ok_def tracks_valid_def example_media_def even_samples_def)
qed

definition example_window :: clip_window where
  "example_window = \<lparr>cw_from_ms = 1200, cw_to_ms = Some 2600\<rparr>"

definition example_clip :: trimmed where
  "example_clip = projr (trim example_media example_window 1000000000 Cut)"

lemma example_clip_eq: "trim example_media example_window 1000000000 Cut = ok example_clip"
proof -
  have "case trim example_media example_window 1000000000 Cut of Inr _ \<Rightarrow> True | Inl _ \<Rightarrow> False"
    by code_simp
  then show ?thesis by (simp add: example_clip_def split: sum.splits)
qed

text \<open>No sample of a moved track decodes before the start, whatever track it is.\<close>

lemma track_moves_after_start:
  assumes "trim_track r (first, e) origin kept_end lead to_the_end start x = ok y" "index_valid (tr_samples x)"
  shows "\<exists>ticks. position_in_ticks start (tr_timescale y) = ok ticks
    \<and> (\<forall>s \<in> set (index_samples (tr_samples y)). ticks \<le> sm_decode_time s)"
proof -
  obtain a b o' l ticks where ticks: "position_in_ticks start (tr_timescale x) = ok ticks"
    and m: "moved_track x (a, b) o' (ticks + l) = ok y"
    using assms(1) by (auto simp: trim_track_def and_then_eq_Inr split: if_splits)
  note moved = moved_trackD(1,2) [OF m assms(2)]
  have "tr_timescale y = tr_timescale (x\<lparr>tr_duration := tr_duration y, tr_samples := tr_samples y\<rparr>)"
    using moved(1) unfolding track_moved_by_def by (elim conjE) (rule arg_cong)
  then have same: "tr_timescale y = tr_timescale x" by simp
  have "ticks \<le> sm_decode_time s" if s: "s \<in> set (index_samples (tr_samples y))" for s
  proof -
    have xs: "a < b" "b \<le> length (index_samples (tr_samples x))"
      "index_samples (tr_samples y) =
         map (shift_sample (int (ticks + l) - int o')) (subslice (index_samples (tr_samples x)) a b)"
      using moved(1) by (simp_all add: track_moved_by_def)
    then obtain i where i: "i < b - a"
        "s = shift_sample (int (ticks + l) - int o') (index_samples (tr_samples x) ! (a + i))"
      using s by (auto simp: in_set_conv_nth)
    have "sm_decode_time (index_samples (tr_samples x) ! a) \<le> sm_decode_time (index_samples (tr_samples x) ! (a + i))"
      using sorted_nth_mono [OF index_valid_sorted [OF assms(2)], of a "a + i"] i(1) xs(2) by simp
    then show ?thesis using moved(2) i(2) by (simp add: shift_sample_def)
  qed
  then show ?thesis using ticks same by auto
qed

section \<open>Properties\<close>

text \<open>
  C10 A clip of video starts at the last keyframe shown at or before the requested start (the first
  keyframe when all are shown later), holds every later frame in decode order that is shown before
  the requested end, and is the shortest such run: its last frame is shown before the end unless it
  is the only one.
\<close>

theorem video_clip_window:
  assumes "index_valid s" "index_samples s = xs" "xs \<noteq> []" "video_window s start to = ok (first, e)"
  shows "first < e \<and> e \<le> length xs
    \<and> (if \<exists>i < length xs. sm_is_sync (xs ! i) \<and> presented (xs ! i) \<le> int start
       then sm_is_sync (xs ! first) \<and> presented (xs ! first) \<le> int start
         \<and> (\<forall>j. first < j \<and> j < length xs \<and> sm_is_sync (xs ! j) \<longrightarrow> int start < presented (xs ! j))
       else \<forall>j < length xs. sm_is_sync (xs ! j) \<longrightarrow> sm_is_sync (xs ! first) \<and> first \<le> j)
    \<and> (\<forall>i. first \<le> i \<and> i < length xs \<and> (\<forall>t. to = Some t \<longrightarrow> presented (xs ! i) < int t) \<longrightarrow> i < e)
    \<and> (\<forall>t. to = Some t \<longrightarrow> e = first + 1 \<or> presented (xs ! (e - 1)) < int t)"
proof -
  have w: "first = keyframe_start xs start" "e = max (prefix_end xs first to) (first + 1)"
    using assms(4) video_window_ok [OF assms(1,2,3) refl, of start to] by auto
  have b: "first < length xs" using w(1) keyframe_start_bound [OF assms(3)] by simp
  have starts: "if \<exists>i < length xs. sm_is_sync (xs ! i) \<and> presented (xs ! i) \<le> int start
       then sm_is_sync (xs ! first) \<and> presented (xs ! first) \<le> int start
         \<and> (\<forall>j. first < j \<and> j < length xs \<and> sm_is_sync (xs ! j) \<longrightarrow> int start < presented (xs ! j))
       else \<forall>j < length xs. sm_is_sync (xs ! j) \<longrightarrow> sm_is_sync (xs ! first) \<and> first \<le> j"
    using keyframe_start_shown [of _ xs start] keyframe_start_first [of xs start] w(1)
    by (auto simp: not_le)
  have holds: "i < e" if "first \<le> i" "i < length xs" "\<forall>t. to = Some t \<longrightarrow> presented (xs ! i) < int t" for i
    using prefix_end_holds [OF that] w(2) by simp
  have "e \<le> length xs" "first < e" using w(2) b prefix_end_bound [OF b] by auto
  then show ?thesis
    using starts holds prefix_end_shortest [of e xs first] w(2) by blast
qed

theorem video_clip_window_witness:
  "let xs = index_samples (tr_samples example_video) in
   2 < (6 :: nat) \<and> 6 \<le> length xs
    \<and> (if \<exists>i < length xs. sm_is_sync (xs ! i) \<and> presented (xs ! i) \<le> int 1200
       then sm_is_sync (xs ! 2) \<and> presented (xs ! 2) \<le> int 1200
         \<and> (\<forall>j. 2 < j \<and> j < length xs \<and> sm_is_sync (xs ! j) \<longrightarrow> int 1200 < presented (xs ! j))
       else \<forall>j < length xs. sm_is_sync (xs ! j) \<longrightarrow> sm_is_sync (xs ! 2) \<and> 2 \<le> j)
    \<and> (\<forall>i. 2 \<le> i \<and> i < length xs \<and> (\<forall>t. Some 2600 = Some t \<longrightarrow> presented (xs ! i) < int t) \<longrightarrow> i < 6)
    \<and> (\<forall>t. Some 2600 = Some t \<longrightarrow> 6 = 2 + (1 :: nat) \<or> presented (xs ! (6 - 1)) < int t)"
proof -
  have "index_valid (tr_samples example_video)"
    using example_tracks_ok by (simp add: clip_track_ok_def example_media_def)
  moreover have "index_samples (tr_samples example_video) \<noteq> []" by code_simp
  moreover have "video_window (tr_samples example_video) 1200 (Some 2600) = ok (2, 6)" by code_simp
  ultimately show ?thesis unfolding Let_def by (rule video_clip_window [OF _ refl])
qed

text \<open>
  C11 Every track of a clip is one run of the file's samples, moved by one offset: the reference
  track's window, and of each other track exactly the samples that decode within the reference's
  kept span on that track's clock (to the track's end where nothing follows the clip).
\<close>

theorem clip_follows_reference:
  assumes "trim index w start trail = ok t" "\<forall>x \<in> set (mi_tracks index). clip_track_ok x"
  shows "\<exists>r first e origin kept_end lead. clip_reference index = ok r
    \<and> reference_window index r w = ok (first, e)
    \<and> origin = sm_decode_time (index_samples (tr_samples r) ! first)
    \<and> kept_end = sm_decode_time (index_samples (tr_samples r) ! (e - 1))
         + sm_duration (index_samples (tr_samples r) ! (e - 1))
    \<and> list_all2 (\<lambda>x y. \<exists>a b ticks track_lead track_origin.
         position_in_ticks start (tr_timescale x) = ok ticks
         \<and> track_moved_by x a b (int (ticks + track_lead) - int track_origin) y
         \<and> (if tr_id x = tr_id r then a = first \<and> b = e \<and> track_origin = origin \<and> track_lead = lead
            else clip_rescale origin (tr_timescale r) (tr_timescale x) = ok track_origin
              \<and> clip_rescale lead (tr_timescale r) (tr_timescale x) = ok track_lead
              \<and> (\<exists>stop. clip_rescale kept_end (tr_timescale r) (tr_timescale x) = ok stop
                   \<and> plays_within x track_origin stop (e = index_len (tr_samples r) \<and> trail = Keep) a b)))
       (mi_tracks index) (mi_tracks (tm_index t))"
proof -
  obtain r first e kept_end lead len where r: "clip_reference index = ok r" "reference_window index r w = ok (first, e)"
    and kept_end: "kept_end = sm_decode_time (index_samples (tr_samples r) ! (e - 1))
       + sm_duration (index_samples (tr_samples r) ! (e - 1))"
    and tracks: "list_all2 (\<lambda>x y. trim_track r (first, e) (sm_decode_time (index_samples (tr_samples r) ! first)) kept_end
        lead (e = index_len (tr_samples r) \<and> trail = Keep) start x = ok y)
      (mi_tracks index) (mi_tracks (tm_index t))"
    by (rule trimD [OF assms])
  have each: "\<exists>a b ticks track_lead track_origin.
         position_in_ticks start (tr_timescale x) = ok ticks
         \<and> track_moved_by x a b (int (ticks + track_lead) - int track_origin) y
         \<and> (if tr_id x = tr_id r then a = first \<and> b = e
              \<and> track_origin = sm_decode_time (index_samples (tr_samples r) ! first) \<and> track_lead = lead
            else clip_rescale (sm_decode_time (index_samples (tr_samples r) ! first)) (tr_timescale r) (tr_timescale x)
                = ok track_origin
              \<and> clip_rescale lead (tr_timescale r) (tr_timescale x) = ok track_lead
              \<and> (\<exists>stop. clip_rescale kept_end (tr_timescale r) (tr_timescale x) = ok stop
                   \<and> plays_within x track_origin stop (e = index_len (tr_samples r) \<and> trail = Keep) a b))"
    if x: "x \<in> set (mi_tracks index)" and y: "trim_track r (first, e)
        (sm_decode_time (index_samples (tr_samples r) ! first)) kept_end
        lead (e = index_len (tr_samples r) \<and> trail = Keep) start x = ok y" for x y
  proof -
    have "index_valid (tr_samples x)" using assms(2) x by (simp add: clip_track_ok_def)
    from y this obtain a b track_origin track_lead ticks stop where part:
      "position_in_ticks start (tr_timescale x) = ok ticks"
      "track_moved_by x a b (int (ticks + track_lead) - int track_origin) y"
      "tr_id x = tr_id r \<longrightarrow> a = first \<and> b = e
         \<and> track_origin = sm_decode_time (index_samples (tr_samples r) ! first) \<and> track_lead = lead"
      "tr_id x \<noteq> tr_id r \<longrightarrow>
         clip_rescale (sm_decode_time (index_samples (tr_samples r) ! first)) (tr_timescale r) (tr_timescale x)
           = ok track_origin
         \<and> clip_rescale kept_end (tr_timescale r) (tr_timescale x) = ok stop
         \<and> clip_rescale lead (tr_timescale r) (tr_timescale x) = ok track_lead
         \<and> plays_within x track_origin stop (e = index_len (tr_samples r) \<and> trail = Keep) a b"
      by (rule trim_trackD) blast
    have chosen: "if tr_id x = tr_id r then a = first \<and> b = e
          \<and> track_origin = sm_decode_time (index_samples (tr_samples r) ! first) \<and> track_lead = lead
        else clip_rescale (sm_decode_time (index_samples (tr_samples r) ! first)) (tr_timescale r) (tr_timescale x)
            = ok track_origin
          \<and> clip_rescale lead (tr_timescale r) (tr_timescale x) = ok track_lead
          \<and> (\<exists>stop. clip_rescale kept_end (tr_timescale r) (tr_timescale x) = ok stop
               \<and> plays_within x track_origin stop (e = index_len (tr_samples r) \<and> trail = Keep) a b)"
    proof (cases "tr_id x = tr_id r")
      case True
      show ?thesis unfolding if_P [OF True] using part(3) [rule_format, OF True] .
    next
      case False
      show ?thesis unfolding if_not_P [OF False] using part(4) [rule_format, OF False] by blast
    qed
    show ?thesis
      by (rule exI [of _ a], rule exI [of _ b], rule exI [of _ ticks], rule exI [of _ track_lead],
          rule exI [of _ track_origin], rule conjI [OF part(1) conjI [OF part(2) chosen]])
  qed
  show ?thesis
    by (rule exI [of _ r], rule exI [of _ first], rule exI [of _ e], rule exI, rule exI [of _ kept_end],
        rule exI [of _ lead], intro conjI, rule r(1), rule r(2), rule refl, rule kept_end,
        rule list.rel_mono_strong [OF tracks each])
qed

theorem clip_follows_reference_witness:
  "\<exists>r first e origin kept_end lead. clip_reference example_media = ok r
    \<and> reference_window example_media r example_window = ok (first, e)
    \<and> origin = sm_decode_time (index_samples (tr_samples r) ! first)
    \<and> kept_end = sm_decode_time (index_samples (tr_samples r) ! (e - 1))
         + sm_duration (index_samples (tr_samples r) ! (e - 1))
    \<and> list_all2 (\<lambda>x y. \<exists>a b ticks track_lead track_origin.
         position_in_ticks 1000000000 (tr_timescale x) = ok ticks
         \<and> track_moved_by x a b (int (ticks + track_lead) - int track_origin) y
         \<and> (if tr_id x = tr_id r then a = first \<and> b = e \<and> track_origin = origin \<and> track_lead = lead
            else clip_rescale origin (tr_timescale r) (tr_timescale x) = ok track_origin
              \<and> clip_rescale lead (tr_timescale r) (tr_timescale x) = ok track_lead
              \<and> (\<exists>stop. clip_rescale kept_end (tr_timescale r) (tr_timescale x) = ok stop
                   \<and> plays_within x track_origin stop (e = index_len (tr_samples r) \<and> Cut = Keep) a b)))
       (mi_tracks example_media) (mi_tracks (tm_index example_clip))"
  by (rule clip_follows_reference [OF example_clip_eq example_tracks_ok])

text \<open>
  C12 A clip plays from its start on the timeline to the start of the next one.  No frame of its
  reference track is shown before the start, whatever the composition offsets.  On every other track
  no sample decodes before the start, so none is shown before it unless its own composition offset is
  negative (the code takes the lead from the reference track only).  And where the reference track's
  clock is at most 1 GHz, the position where the next clip starts is the end of its last frame to
  within one tick of it.
\<close>

theorem clip_on_timeline:
  assumes "trim index w start trail = ok t" "\<forall>x \<in> set (mi_tracks index). clip_track_ok x"
  shows "\<exists>r r' ticks. clip_reference index = ok r \<and> r' \<in> set (mi_tracks (tm_index t)) \<and> tr_id r' = tr_id r
    \<and> position_in_ticks start (tr_timescale r) = ok ticks
    \<and> index_samples (tr_samples r') \<noteq> []
    \<and> (\<forall>x \<in> set (index_samples (tr_samples r')). int ticks \<le> presented x)
    \<and> (\<forall>y \<in> set (mi_tracks (tm_index t)). \<exists>tk. position_in_ticks start (tr_timescale y) = ok tk
        \<and> (\<forall>x \<in> set (index_samples (tr_samples y)). tk \<le> sm_decode_time x
             \<and> (0 \<le> sm_composition_offset x \<longrightarrow> int tk \<le> presented x)))
    \<and> (tr_timescale r \<le> NANOS_PER_SECOND \<longrightarrow>
        (\<exists>stop. position_in_ticks (tm_end t) (tr_timescale r) = ok stop
          \<and> stop \<le> sm_decode_time (last (index_samples (tr_samples r')))
                    + sm_duration (last (index_samples (tr_samples r')))
          \<and> sm_decode_time (last (index_samples (tr_samples r')))
               + sm_duration (last (index_samples (tr_samples r'))) \<le> stop + 1))"
proof -
  obtain r first e kept_end lead len where r: "clip_reference index = ok r" "reference_window index r w = ok (first, e)"
    and fe: "first < e" "e \<le> index_len (tr_samples r)"
    and kept_end: "kept_end = sm_decode_time (index_samples (tr_samples r) ! (e - 1))
       + sm_duration (index_samples (tr_samples r) ! (e - 1))"
    and lead: "int lead = max 0 (int (sm_decode_time (index_samples (tr_samples r) ! first))
       - Min (presented ` set (subslice (index_samples (tr_samples r)) first e)))"
    and tracks: "list_all2 (\<lambda>x y. trim_track r (first, e) (sm_decode_time (index_samples (tr_samples r) ! first)) kept_end
        lead (e = index_len (tr_samples r) \<and> trail = Keep) start x = ok y)
      (mi_tracks index) (mi_tracks (tm_index t))"
    and len: "len + sm_decode_time (index_samples (tr_samples r) ! first) = kept_end + lead"
    and stop: "position_after start len (tr_timescale r) = ok (tm_end t)"
    by (rule trimD [OF assms])
  have v: "index_valid (tr_samples r)"
    using clip_reference_in [OF r(1)] assms(2) by (auto simp: clip_track_ok_def)
  obtain r' where r': "r' \<in> set (mi_tracks (tm_index t))"
      "trim_track r (first, e) (sm_decode_time (index_samples (tr_samples r) ! first)) kept_end
        lead (e = index_len (tr_samples r) \<and> trail = Keep) start r = ok r'"
    using list_all2_in [OF tracks clip_reference_in [OF r(1)]] by blast
  let ?xs = "index_samples (tr_samples r)" and ?ys = "index_samples (tr_samples r')"
  obtain ticks where ticks: "position_in_ticks start (tr_timescale r) = ok ticks"
    and m: "moved_track r (first, e) (sm_decode_time (?xs ! first)) (ticks + lead) = ok r'"
    using r'(2) by (auto simp: trim_track_def and_then_eq_Inr)
  note moved = moved_trackD(1) [OF m v]
  then have ys: "?ys = map (shift_sample (int (ticks + lead) - int (sm_decode_time (?xs ! first)))) (subslice ?xs first e)"
    by (simp add: track_moved_by_def)
  note id = track_moved_id [OF moved]
  have ne: "subslice ?xs first e \<noteq> []"
    using fe length_subslice [of e ?xs first] by (metis diff_is_0_eq leD length_index_samples list.size(3))
  have after: "\<forall>x \<in> set ?ys. int ticks \<le> presented x"
    using moved_after_start [OF moved v refl lead] by blast
  have final: "last (subslice ?xs first e) = ?xs ! (e - 1)" using ne fe by (simp add: last_conv_nth)
  have le: "sm_decode_time (?xs ! first) \<le> sm_decode_time (?xs ! (e - 1))"
    using sorted_nth_mono [OF index_valid_sorted [OF v], of first "e - 1"] fe by simp
  have E: "sm_decode_time (last ?ys) + sm_duration (last ?ys) = ticks + len"
    using ys ne final le len kept_end by (simp add: last_map shift_sample_def)
  have "ticks + len < u64_limit"
    using moved_trackD(4) [OF m v] E by simp
  then have stops: "tr_timescale r \<le> NANOS_PER_SECOND \<longrightarrow> (\<exists>stop. position_in_ticks (tm_end t) (tr_timescale r) = ok stop
          \<and> stop \<le> ticks + len \<and> ticks + len \<le> stop + 1)"
    using position_after_in_ticks [OF ticks stop] by (auto simp: position_in_ticks_def)
  have others: "\<forall>y \<in> set (mi_tracks (tm_index t)). \<exists>tk. position_in_ticks start (tr_timescale y) = ok tk
        \<and> (\<forall>x \<in> set (index_samples (tr_samples y)). tk \<le> sm_decode_time x
             \<and> (0 \<le> sm_composition_offset x \<longrightarrow> int tk \<le> presented x))"
  proof
    fix y
    assume "y \<in> set (mi_tracks (tm_index t))"
    then obtain x where x: "x \<in> set (mi_tracks index)"
        "trim_track r (first, e) (sm_decode_time (?xs ! first)) kept_end
          lead (e = index_len (tr_samples r) \<and> trail = Keep) start x = ok y"
      using tracks unfolding list_all2_conv_all_nth in_set_conv_nth by metis
    have "index_valid (tr_samples x)" using assms(2) x(1) by (simp add: clip_track_ok_def)
    from track_moves_after_start [OF x(2) this]
    show "\<exists>tk. position_in_ticks start (tr_timescale y) = ok tk
        \<and> (\<forall>x \<in> set (index_samples (tr_samples y)). tk \<le> sm_decode_time x
             \<and> (0 \<le> sm_composition_offset x \<longrightarrow> int tk \<le> presented x))"
      by (force simp: presented_def)
  qed
  show ?thesis
    by (intro exI conjI, rule r(1), rule r'(1), rule id, rule ticks) (use ys ne after others stops E in simp_all)
qed

theorem clip_on_timeline_witness:
  "\<exists>r r' ticks. clip_reference example_media = ok r \<and> r' \<in> set (mi_tracks (tm_index example_clip))
    \<and> tr_id r' = tr_id r
    \<and> position_in_ticks 1000000000 (tr_timescale r) = ok ticks
    \<and> index_samples (tr_samples r') \<noteq> []
    \<and> (\<forall>x \<in> set (index_samples (tr_samples r')). int ticks \<le> presented x)
    \<and> (\<forall>y \<in> set (mi_tracks (tm_index example_clip)). \<exists>tk. position_in_ticks 1000000000 (tr_timescale y) = ok tk
        \<and> (\<forall>x \<in> set (index_samples (tr_samples y)). tk \<le> sm_decode_time x
             \<and> (0 \<le> sm_composition_offset x \<longrightarrow> int tk \<le> presented x)))
    \<and> (tr_timescale r \<le> NANOS_PER_SECOND \<longrightarrow>
        (\<exists>stop. position_in_ticks (tm_end example_clip) (tr_timescale r) = ok stop
          \<and> stop \<le> sm_decode_time (last (index_samples (tr_samples r')))
                    + sm_duration (last (index_samples (tr_samples r')))
          \<and> sm_decode_time (last (index_samples (tr_samples r')))
               + sm_duration (last (index_samples (tr_samples r'))) \<le> stop + 1))"
  by (rule clip_on_timeline [OF example_clip_eq example_tracks_ok])

text \<open>
  C13 Trimming never panics, whatever the window and the start: the reads it takes for granted (a
  first and a last sample, an earliest frame) are of windows that hold at least one sample.
\<close>

theorem trimming_never_panics:
  assumes "\<forall>x \<in> set (mi_tracks index). clip_track_ok x" "distinct (map tr_id (mi_tracks index))"
  shows "trim index w start trail \<noteq> panic"
  using trim_safe [OF assms] by (simp add: safe_def)

theorem trimming_never_panics_witness: "trim example_media example_window 1000000000 Keep \<noteq> panic"
  by (rule trimming_never_panics [OF example_tracks_ok])
     (simp add: example_media_def example_video_def example_audio_def planner_track_def)

end
