(* ===== verification/Asset_Cache.thy ===== *)
theory Asset_Cache
  imports Vod_Prelude
begin

text \<open>
  The cache of loaded assets, a least-recently-used cache bounded by weight
  (\<^verbatim>\<open>src/src/registry/cache.rs\<close>).  What is cached is a type parameter, its weight
  (\<open>ServedAsset::index_bytes\<close>) a function argument.  The hash map is its list of pairs, at most one
  for a key; it is only searched, and what the search for the oldest entry finds does not depend on
  its order, because no two entries were used at the same instant of the clock.
\<close>

type_synonym cache_key = "string \<times> string"

record 'a cache_entry =
  ce_asset :: 'a
  ce_weight :: nat
  ce_last_used :: nat

record 'a loaded_cache =
  lc_entries :: "(cache_key \<times> 'a cache_entry) list"
  lc_total_weight :: nat
  lc_budget :: nat
  lc_clock :: nat

definition cache_new :: "nat \<Rightarrow> 'a loaded_cache" where
  "cache_new budget = \<lparr>lc_entries = [], lc_total_weight = 0, lc_budget = budget, lc_clock = 0\<rparr>"

section \<open>The hash map\<close>

definition map_remove :: "'k \<Rightarrow> ('k \<times> 'v) list \<Rightarrow> ('k \<times> 'v) list" where
  "map_remove k m = filter (\<lambda>(k', v). k' \<noteq> k) m"

definition map_put :: "'k \<Rightarrow> 'v \<Rightarrow> ('k \<times> 'v) list \<Rightarrow> ('k \<times> 'v) list" where
  "map_put k v m = (k, v) # map_remove k m"

text \<open>\<open>min_by_key\<close>: the first of the least.\<close>

fun min_by_key :: "('x \<Rightarrow> nat) \<Rightarrow> 'x list \<Rightarrow> 'x option" where
  "min_by_key f [] = None"
| "min_by_key f (x # xs) =
     (case min_by_key f xs of None \<Rightarrow> Some x | Some y \<Rightarrow> Some (if f x \<le> f y then x else y))"

section \<open>Operations\<close>

definition cache_get :: "'a loaded_cache \<Rightarrow> string \<Rightarrow> string \<Rightarrow> 'a option \<times> 'a loaded_cache" where
  "cache_get c asset_id version =
     (let clock = wadd64 (lc_clock c) 1; c1 = c\<lparr>lc_clock := clock\<rparr> in
      case map_of (lc_entries c1) (asset_id, version) of
        None \<Rightarrow> (None, c1)
      | Some e \<Rightarrow>
          (Some (ce_asset e),
           c1\<lparr>lc_entries := map (\<lambda>(k, x). (k, if k = (asset_id, version) then x\<lparr>ce_last_used := clock\<rparr> else x))
                (lc_entries c1)\<rparr>))"

definition drop_entry :: "cache_key \<Rightarrow> 'a loaded_cache \<Rightarrow> 'a loaded_cache" where
  "drop_entry k c =
     (case map_of (lc_entries c) k of
        None \<Rightarrow> c
      | Some e \<Rightarrow> c\<lparr>lc_entries := map_remove k (lc_entries c),
                    lc_total_weight := wsub64 (lc_total_weight c) (ce_weight e)\<rparr>)"

lemma min_by_key_in: "min_by_key f xs = Some x \<Longrightarrow> x \<in> set xs"
  by (induction xs arbitrary: x) (auto split: option.splits if_splits)

lemma drop_entry_shorter:
  assumes "(k, e) \<in> set (lc_entries c)"
  shows "length (lc_entries (drop_entry k c)) < length (lc_entries c)"
proof -
  obtain e' where "map_of (lc_entries c) k = Some e'"
    using assms weak_map_of_SomeI [of k e "lc_entries c"] by blast
  moreover have "length (map_remove k (lc_entries c)) < length (lc_entries c)"
    unfolding map_remove_def using assms by (intro length_filter_less) auto
  ultimately show ?thesis by (simp add: drop_entry_def)
qed

text \<open>The loop that evicts the oldest entries until there is room for \<open>weight\<close> more.\<close>

function evict :: "nat \<Rightarrow> 'a loaded_cache \<Rightarrow> 'a loaded_cache" where
  "evict weight c =
     (if wadd64 (lc_total_weight c) weight \<le> lc_budget c then c
      else case min_by_key (\<lambda>(k, e). ce_last_used e) (lc_entries c) of
             None \<Rightarrow> c
           | Some (oldest, _) \<Rightarrow> evict weight (drop_entry oldest c))"
  by pat_completeness auto
termination
proof (relation "measure (\<lambda>(weight, c). length (lc_entries c))")
  show "((weight, drop_entry oldest c), weight, c) \<in> measure (\<lambda>(weight, c). length (lc_entries c))"
    if "min_by_key (\<lambda>(k, e). ce_last_used e) (lc_entries c) = Some x" "(oldest, e) = x"
    for weight :: nat and c :: "'a loaded_cache" and x oldest e
  proof -
    have "(oldest, e) \<in> set (lc_entries c)" using min_by_key_in [OF that(1)] that(2) by simp
    from drop_entry_shorter [OF this] show ?thesis by simp
  qed
qed auto

declare evict.simps [simp del]

definition cache_insert :: "('a \<Rightarrow> nat) \<Rightarrow> 'a loaded_cache \<Rightarrow> string \<Rightarrow> string \<Rightarrow> 'a \<Rightarrow> 'a loaded_cache" where
  "cache_insert weight_of c asset_id version asset =
     (let weight = weight_of asset in
      if lc_budget c < weight then c
      else
        let c1 = c\<lparr>lc_clock := wadd64 (lc_clock c) 1\<rparr>;
            c2 = evict weight (drop_entry (asset_id, version) c1)
        in c2\<lparr>lc_total_weight := wadd64 (lc_total_weight c2) weight,
              lc_entries := map_put (asset_id, version)
                \<lparr>ce_asset = asset, ce_weight = weight, ce_last_used = lc_clock c2\<rparr> (lc_entries c2)\<rparr>)"

definition retain_only :: "'a loaded_cache \<Rightarrow> string \<Rightarrow> string option \<Rightarrow> 'a loaded_cache" where
  "retain_only c asset_id keep =
     foldl (\<lambda>c k. drop_entry k c) c
       (filter (\<lambda>(i, version). i = asset_id \<and> Some version \<noteq> keep) (map fst (lc_entries c)))"

definition cache_len :: "'a loaded_cache \<Rightarrow> nat" where
  "cache_len c = length (lc_entries c)"

text \<open>The rows of the status report, most recently used first.\<close>

definition cache_snapshot :: "('a \<Rightarrow> 'r) \<Rightarrow> 'a loaded_cache \<Rightarrow> (cache_key \<times> nat \<times> 'r) list" where
  "cache_snapshot describe c =
     map (\<lambda>(k, e). (k, ce_weight e, describe (ce_asset e)))
       (rev (sort_key (\<lambda>(k, e). ce_last_used e) (rev (lc_entries c))))"

end
