(* ===== verification/Asset_Cache_Laws.thy ===== *)
theory Asset_Cache_Laws
  imports Asset_Cache "HOL-Library.Multiset"
begin

text \<open>
  The invariant of the cache, that its operations keep it, and what an insertion evicts.
\<close>

section \<open>The invariant\<close>

definition entries_weight :: "(cache_key \<times> 'a cache_entry) list \<Rightarrow> nat" where
  "entries_weight es = sum_list (map (\<lambda>(k, e). ce_weight e) es)"

text \<open>
  One entry for a key, no two used at the same instant, the total the sum of the weights, and
  within the budget.
\<close>

definition cache_inv :: "('a \<Rightarrow> nat) \<Rightarrow> 'a loaded_cache \<Rightarrow> bool" where
  "cache_inv weight_of c \<longleftrightarrow>
     distinct (map fst (lc_entries c))
     \<and> distinct (map (\<lambda>(k, e). ce_last_used e) (lc_entries c))
     \<and> (\<forall>(k, e) \<in> set (lc_entries c). ce_weight e = weight_of (ce_asset e) \<and> ce_last_used e \<le> lc_clock c)
     \<and> lc_total_weight c = entries_weight (lc_entries c)
     \<and> lc_total_weight c \<le> lc_budget c"

text \<open>The counters have not wrapped.\<close>

definition cache_small :: "'a loaded_cache \<Rightarrow> bool" where
  "cache_small c \<longleftrightarrow> 2 * lc_budget c < u64_limit \<and> lc_clock c + 1 < u64_limit"

lemma entries_weight_simps [simp]:
  "entries_weight [] = 0" "entries_weight ((k, e) # es) = ce_weight e + entries_weight es"
  by (simp_all add: entries_weight_def)

lemma entries_weight_mset: "mset es = mset es' \<Longrightarrow> entries_weight es = entries_weight es'"
  unfolding entries_weight_def by (metis mset_map sum_mset_sum_list)

lemma map_remove_weight:
  "distinct (map fst es) \<Longrightarrow> (k, e) \<in> set es \<Longrightarrow>
   entries_weight (map_remove k es) + ce_weight e = entries_weight es"
proof (induction es)
  case (Cons x es)
  show ?case
  proof (cases "fst x = k")
    case True
    then have "k \<notin> fst ` set es" using Cons.prems(1) by simp
    then have "map_remove k es = es" "(k, e) \<notin> set es"
      unfolding map_remove_def by (force intro: filter_True)+
    then show ?thesis using True Cons.prems(2) by (auto simp: map_remove_def)
  next
    case False
    then show ?thesis using Cons by (cases x) (auto simp: map_remove_def)
  qed
qed simp

lemma map_remove_weight_le: "entries_weight (map_remove k es) \<le> entries_weight es"
  by (induction es) (auto simp: map_remove_def)

lemma set_map_remove: "set (map_remove k es) = {(k', e) \<in> set es. k' \<noteq> k}"
  by (auto simp: map_remove_def)

lemma map_remove_distinct:
  "distinct (map f es) \<Longrightarrow> distinct (map f (map_remove k es))"
  unfolding map_remove_def by (rule distinct_map_filter)

lemma map_remove_absent: "map_of es k = None \<Longrightarrow> map_remove k es = es"
  by (force simp: map_of_eq_None_iff map_remove_def intro: filter_True)

section \<open>Dropping an entry\<close>

lemma drop_entry_props:
  assumes "distinct (map fst (lc_entries c))" "lc_total_weight c = entries_weight (lc_entries c)"
    "lc_total_weight c < u64_limit"
  shows "lc_entries (drop_entry k c) = map_remove k (lc_entries c)"
    "lc_total_weight (drop_entry k c) = entries_weight (map_remove k (lc_entries c))"
    "lc_budget (drop_entry k c) = lc_budget c" "lc_clock (drop_entry k c) = lc_clock c"
proof -
  show "lc_budget (drop_entry k c) = lc_budget c" "lc_clock (drop_entry k c) = lc_clock c"
    by (simp_all add: drop_entry_def split: option.split)
  show "lc_entries (drop_entry k c) = map_remove k (lc_entries c)"
    by (simp add: drop_entry_def map_remove_absent split: option.split)
  show "lc_total_weight (drop_entry k c) = entries_weight (map_remove k (lc_entries c))"
  proof (cases "map_of (lc_entries c) k")
    case None
    then show ?thesis using assms by (simp add: drop_entry_def map_remove_absent)
  next
    case (Some e)
    then have "entries_weight (map_remove k (lc_entries c)) + ce_weight e = entries_weight (lc_entries c)"
      using map_remove_weight [OF assms(1)] map_of_SomeD by metis
    then show ?thesis using Some assms by (simp add: drop_entry_def)
  qed
qed

lemma drop_entry_inv:
  assumes "cache_inv weight_of c" "lc_budget c < u64_limit"
  shows "cache_inv weight_of (drop_entry k c)"
proof -
  have lim: "lc_total_weight c < u64_limit" using assms by (simp add: cache_inv_def)
  note d = drop_entry_props [of c k, OF _ _ lim]
  have i: "distinct (map fst (lc_entries c))" "lc_total_weight c = entries_weight (lc_entries c)"
    using assms(1) by (simp_all add: cache_inv_def)
  have "entries_weight (map_remove k (lc_entries c)) \<le> entries_weight (lc_entries c)"
    by (rule map_remove_weight_le)
  then show ?thesis
    using assms(1) d [OF i] by (auto simp: cache_inv_def set_map_remove intro!: map_remove_distinct)
qed

section \<open>Eviction\<close>

lemma min_by_key_None: "min_by_key f xs = None \<longleftrightarrow> xs = []"
  by (cases xs) (auto split: option.splits)

lemma min_by_key_least: "min_by_key f xs = Some x \<Longrightarrow> y \<in> set xs \<Longrightarrow> f x \<le> f y"
proof (induction xs arbitrary: x)
  case (Cons z zs)
  show ?case
  proof (cases "min_by_key f zs")
    case None
    then show ?thesis using Cons.prems by (simp add: min_by_key_None)
  next
    case (Some m)
    have "y \<in> set zs \<Longrightarrow> f m \<le> f y" by (rule Cons.IH [OF Some])
    then show ?thesis using Cons.prems Some by (auto split: if_splits)
  qed
qed simp

text \<open>
  Eviction keeps the most recently used entries: what stays was used after whatever is evicted, and
  one entry fewer evicted would leave no room.
\<close>

definition evicts_oldest :: "nat \<Rightarrow> 'a loaded_cache \<Rightarrow> 'a loaded_cache \<Rightarrow> bool" where
  "evicts_oldest weight c c' \<longleftrightarrow>
     set (lc_entries c') \<subseteq> set (lc_entries c)
     \<and> (\<forall>x \<in> set (lc_entries c) - set (lc_entries c'). \<forall>y \<in> set (lc_entries c').
          ce_last_used (snd x) < ce_last_used (snd y))
     \<and> (\<forall>x \<in> set (lc_entries c) - set (lc_entries c').
          lc_budget c < weight + ce_weight (snd x) + entries_weight (lc_entries c')
          \<or> (\<exists>y \<in> set (lc_entries c) - set (lc_entries c'). ce_last_used (snd x) < ce_last_used (snd y)))"

lemma evict_ok:
  assumes "cache_inv weight_of c" "weight \<le> lc_budget c" "2 * lc_budget c < u64_limit"
  shows "cache_inv weight_of (evict weight c) \<and> lc_budget (evict weight c) = lc_budget c
    \<and> lc_clock (evict weight c) = lc_clock c
    \<and> lc_total_weight (evict weight c) + weight \<le> lc_budget c
    \<and> evicts_oldest weight c (evict weight c)"
  using assms
proof (induction weight c rule: evict.induct)
  case (1 weight c)
  have total: "lc_total_weight c + weight < u64_limit" "lc_total_weight c < u64_limit"
    using "1.prems" by (auto simp: cache_inv_def)
  show ?case
  proof (cases "lc_total_weight c + weight \<le> lc_budget c")
    case True
    then have "evict weight c = c" using total by (subst evict.simps) simp
    then show ?thesis using "1.prems" True by (simp add: evicts_oldest_def)
  next
    case False
    have "lc_entries c \<noteq> []"
      using False "1.prems" by (auto simp: cache_inv_def)
    then obtain oldest e where old: "min_by_key (\<lambda>(k, e). ce_last_used e) (lc_entries c) = Some (oldest, e)"
      using min_by_key_None by (metis not_None_eq surj_pair)
    let ?d = "drop_entry oldest c"
    have ev: "evict weight c = evict weight ?d"
      using False total old by (subst evict.simps) simp
    have inv: "cache_inv weight_of ?d" using drop_entry_inv [OF "1.prems"(1)] "1.prems"(3) by simp
    have i: "distinct (map fst (lc_entries c))" "lc_total_weight c = entries_weight (lc_entries c)"
      using "1.prems" by (simp_all add: cache_inv_def)
    note d = drop_entry_props [of c oldest, OF i total(2)]
    have ih: "cache_inv weight_of (evict weight ?d) \<and> lc_budget (evict weight ?d) = lc_budget ?d
      \<and> lc_clock (evict weight ?d) = lc_clock ?d \<and> lc_total_weight (evict weight ?d) + weight \<le> lc_budget ?d
      \<and> evicts_oldest weight ?d (evict weight ?d)"
      using "1.IH" [OF _ old refl inv] False total d "1.prems" by simp
    have mem: "(oldest, e) \<in> set (lc_entries c)" by (rule min_by_key_in [OF old])
    have uniq: "x = (oldest, e)" if "x \<in> set (lc_entries c)" "fst x = oldest" for x
      using that mem i(1) by (metis distinct_map fst_conv inj_onD)
    have old_least: "ce_last_used e < ce_last_used (snd x)" if "x \<in> set (lc_entries c)" "x \<noteq> (oldest, e)" for x
    proof -
      have "ce_last_used e \<le> ce_last_used (snd x)"
        using min_by_key_least [OF old that(1)] by (simp add: case_prod_beta)
      moreover have "ce_last_used e \<noteq> ce_last_used (snd x)"
      proof
        assume same: "ce_last_used e = ce_last_used (snd x)"
        have "inj_on (\<lambda>(k, e). ce_last_used e) (set (lc_entries c))"
          using "1.prems"(1) by (simp add: cache_inv_def distinct_map)
        then have "(oldest, e) = x"
          using mem that(1) same by (auto simp: inj_on_def case_prod_beta)
        then show False using that(2) by simp
      qed
      ultimately show ?thesis by simp
    qed
    let ?r = "evict weight ?d"
    have sub: "set (lc_entries ?r) \<subseteq> set (lc_entries ?d)" using ih by (simp add: evicts_oldest_def)
    have dset: "set (lc_entries ?d) = set (lc_entries c) - {(oldest, e)}"
      using d(1) uniq by (auto simp: set_map_remove)
    have gone: "x = (oldest, e) \<or> x \<in> set (lc_entries ?d) - set (lc_entries ?r)"
      if "x \<in> set (lc_entries c) - set (lc_entries ?r)" for x
      using that dset by blast
    have a: "ce_last_used (snd x) < ce_last_used (snd y)"
      if "x \<in> set (lc_entries c) - set (lc_entries ?r)" "y \<in> set (lc_entries ?r)" for x y
    proof -
      have y: "y \<in> set (lc_entries c)" "y \<noteq> (oldest, e)" using that(2) sub dset by auto
      from gone [OF that(1)] show ?thesis
        using old_least [OF y] ih that(2) by (auto simp: evicts_oldest_def)
    qed
    have b: "lc_budget c < weight + ce_weight (snd x) + entries_weight (lc_entries ?r)
          \<or> (\<exists>y \<in> set (lc_entries c) - set (lc_entries ?r). ce_last_used (snd x) < ce_last_used (snd y))"
      if x: "x \<in> set (lc_entries c) - set (lc_entries ?r)" for x
      using gone [OF x]
    proof
      assume x: "x = (oldest, e)"
      show ?thesis
      proof (cases "set (lc_entries ?d) - set (lc_entries ?r) = {}")
        case True
        then have "set (lc_entries ?d) = set (lc_entries ?r)" using sub by blast
        moreover have "distinct (lc_entries ?d)" "distinct (lc_entries ?r)"
          using inv ih by (auto simp: cache_inv_def distinct_map)
        ultimately have "mset (lc_entries ?d) = mset (lc_entries ?r)"
          by (simp add: set_eq_iff_mset_eq_distinct)
        then have "entries_weight (lc_entries ?r) + ce_weight e = entries_weight (lc_entries c)"
          using entries_weight_mset d(1) map_remove_weight [OF i(1) mem] by metis
        then show ?thesis using False i(2) x by simp
      next
        case False
        then obtain y where "y \<in> set (lc_entries ?d) - set (lc_entries ?r)" by blast
        then show ?thesis using old_least [of y] dset x by auto
      qed
    next
      assume "x \<in> set (lc_entries ?d) - set (lc_entries ?r)"
      then show ?thesis using ih d(3) dset unfolding evicts_oldest_def by (metis DiffD1 DiffD2 DiffI)
    qed
    show ?thesis
      using ih ev d sub dset a b by (auto simp: evicts_oldest_def)
  qed
qed

section \<open>Operations on well-formed caches\<close>

lemma cache_new_inv: "cache_inv weight_of (cache_new budget)"
  by (simp add: cache_inv_def cache_new_def)

lemma cache_get_inv:
  assumes "cache_inv weight_of c" "lc_clock c + 1 < u64_limit"
  shows "cache_inv weight_of (snd (cache_get c i v))"
proof (cases "map_of (lc_entries c) (i, v)")
  case None
  then show ?thesis using assms by (fastforce simp: cache_get_def Let_def cache_inv_def)
next
  case (Some e)
  let ?t = "\<lambda>(k, x). (k, if k = (i, v) then x\<lparr>ce_last_used := Suc (lc_clock c)\<rparr> else x)"
  let ?es = "map ?t (lc_entries c)"
  have r: "snd (cache_get c i v) = c\<lparr>lc_clock := Suc (lc_clock c), lc_entries := ?es\<rparr>"
    using Some assms(2) by (simp add: cache_get_def Let_def)
  have keys: "map fst ?es = map fst (lc_entries c)" by (simp add: comp_def case_prod_beta)
  have weights: "entries_weight ?es = entries_weight (lc_entries c)"
    unfolding entries_weight_def by (rule arg_cong [of _ _ sum_list]) (auto simp: comp_def)
  have inj: "inj_on (\<lambda>x. ce_last_used (snd (?t x))) (set (lc_entries c))"
  proof (rule inj_onI)
    fix x y assume x: "x \<in> set (lc_entries c)" and y: "y \<in> set (lc_entries c)"
      and same: "ce_last_used (snd (?t x)) = ce_last_used (snd (?t y))"
    have le: "ce_last_used (snd x) \<le> lc_clock c" "ce_last_used (snd y) \<le> lc_clock c"
      using assms(1) x y by (auto simp: cache_inv_def)
    have used: "inj_on (\<lambda>x. ce_last_used (snd x)) (set (lc_entries c))" "inj_on fst (set (lc_entries c))"
      using assms(1) by (auto simp: cache_inv_def distinct_map case_prod_beta')
    show "x = y"
    proof (cases "fst x = (i, v) \<longleftrightarrow> fst y = (i, v)")
      case True
      then show ?thesis using used x y same by (cases "fst x = (i, v)") (auto simp: inj_on_def case_prod_beta)
    next
      case False
      then show ?thesis using le same by (auto simp: case_prod_beta split: if_splits)
    qed
  qed
  have "distinct (map (\<lambda>(k, e). ce_last_used e) ?es)"
    using inj assms(1) by (auto simp: distinct_map cache_inv_def comp_def case_prod_beta inj_on_def)
  moreover have "\<forall>(k, e) \<in> set ?es. ce_weight e = weight_of (ce_asset e) \<and> ce_last_used e \<le> Suc (lc_clock c)"
    using assms(1) by (auto simp: cache_inv_def)
  moreover have "distinct (map fst ?es)" unfolding keys using assms(1) by (simp add: cache_inv_def)
  ultimately show ?thesis
    using assms(1) weights unfolding r cache_inv_def by simp
qed

lemma cache_insert_eq:
  fixes i v :: string
  assumes "cache_inv weight_of c" "cache_small c" "weight_of a \<le> lc_budget c"
  defines "d \<equiv> drop_entry (i, v) (c\<lparr>lc_clock := Suc (lc_clock c)\<rparr>)"
  defines "r \<equiv> evict (weight_of a) d"
  shows "cache_insert weight_of c i v a =
      r\<lparr>lc_total_weight := lc_total_weight r + weight_of a,
        lc_entries := ((i, v), \<lparr>ce_asset = a, ce_weight = weight_of a, ce_last_used = Suc (lc_clock c)\<rparr>) # lc_entries r\<rparr>"
    "cache_inv weight_of r" "lc_clock r = Suc (lc_clock c)" "lc_budget r = lc_budget c"
    "lc_total_weight r + weight_of a \<le> lc_budget c" "evicts_oldest (weight_of a) d r"
    "lc_entries d = map_remove (i, v) (lc_entries c)" "(i, v) \<notin> fst ` set (lc_entries r)"
    "\<forall>x \<in> set (lc_entries r). ce_last_used (snd x) \<le> lc_clock c"
proof -
  let ?c = "c\<lparr>lc_clock := Suc (lc_clock c)\<rparr>"
  have lim: "2 * lc_budget c < u64_limit" "lc_budget ?c < u64_limit" using assms(2) by (auto simp: cache_small_def)
  have inv: "cache_inv weight_of ?c" using assms(1) by (fastforce simp: cache_inv_def)
  have dinv: "cache_inv weight_of d" unfolding d_def by (rule drop_entry_inv [OF inv lim(2)])
  have i: "distinct (map fst (lc_entries ?c))" "lc_total_weight ?c = entries_weight (lc_entries ?c)"
    "lc_total_weight ?c < u64_limit"
    using inv lim by (auto simp: cache_inv_def)
  note d = drop_entry_props [OF i, of "(i, v)", folded d_def]
  have e: "cache_inv weight_of r" "lc_budget r = lc_budget d" "lc_clock r = lc_clock d"
    "lc_total_weight r + weight_of a \<le> lc_budget d" "evicts_oldest (weight_of a) d r"
    using evict_ok [OF dinv, of "weight_of a"] d assms(3) lim unfolding r_def by auto
  show "cache_inv weight_of r" "lc_clock r = Suc (lc_clock c)" "lc_budget r = lc_budget c"
    "lc_total_weight r + weight_of a \<le> lc_budget c" "evicts_oldest (weight_of a) d r"
    "lc_entries d = map_remove (i, v) (lc_entries c)"
    using e d by simp_all
  have sub: "set (lc_entries r) \<subseteq> set (map_remove (i, v) (lc_entries c))"
    using e(5) d(1) by (simp add: evicts_oldest_def)
  then show fresh: "(i, v) \<notin> fst ` set (lc_entries r)" by (auto simp: set_map_remove)
  show "\<forall>x \<in> set (lc_entries r). ce_last_used (snd x) \<le> lc_clock c"
    using sub assms(1) by (fastforce simp: set_map_remove cache_inv_def)
  have "map_remove (i, v) (lc_entries r) = lc_entries r"
    using fresh by (intro map_remove_absent) (simp add: map_of_eq_None_iff)
  moreover have "wadd64 (lc_clock c) 1 = Suc (lc_clock c)" using assms(2) by (simp add: cache_small_def)
  moreover have "lc_total_weight r + weight_of a < u64_limit" using e(4) d(3) lim(2) by simp
  ultimately show "cache_insert weight_of c i v a =
      r\<lparr>lc_total_weight := lc_total_weight r + weight_of a,
        lc_entries := ((i, v), \<lparr>ce_asset = a, ce_weight = weight_of a, ce_last_used = Suc (lc_clock c)\<rparr>) # lc_entries r\<rparr>"
    using assms(3) e(3) d(4)
    by (simp add: cache_insert_def Let_def map_put_def d_def [symmetric] r_def [symmetric])
qed

lemma cache_insert_inv:
  assumes "cache_inv weight_of c" "cache_small c"
  shows "cache_inv weight_of (cache_insert weight_of c i v a)"
proof (cases "weight_of a \<le> lc_budget c")
  case True
  note r = cache_insert_eq [OF assms True, of i v]
  show ?thesis
    using r(2-5,8,9) unfolding r(1) cache_inv_def by (auto simp: case_prod_beta)
next
  case False
  then show ?thesis using assms(1) by (simp add: cache_insert_def)
qed

lemma retain_only_inv:
  assumes "cache_inv weight_of c" "lc_budget c < u64_limit"
  shows "cache_inv weight_of (retain_only c i keep)"
    "lc_entries (retain_only c i keep) = filter (\<lambda>((i', v), e). i' \<noteq> i \<or> Some v = keep) (lc_entries c)"
proof -
  have fold: "cache_inv weight_of (foldl (\<lambda>c k. drop_entry k c) c ks)
      \<and> lc_entries (foldl (\<lambda>c k. drop_entry k c) c ks) = filter (\<lambda>(k, e). k \<notin> set ks) (lc_entries c)"
    if "cache_inv weight_of c" "lc_budget c < u64_limit" for ks and c :: "'a loaded_cache"
    using that
  proof (induction ks arbitrary: c)
    case (Cons k ks)
    have inv: "cache_inv weight_of (drop_entry k c)" by (rule drop_entry_inv [OF Cons.prems])
    have i: "distinct (map fst (lc_entries c))" "lc_total_weight c = entries_weight (lc_entries c)"
      "lc_total_weight c < u64_limit"
      using Cons.prems by (auto simp: cache_inv_def)
    note d = drop_entry_props [OF i, of k]
    show ?case using Cons.IH [OF inv] d Cons.prems(2)
      by (auto simp: map_remove_def case_prod_beta intro!: filter_cong)
  qed (simp add: case_prod_beta)
  show "cache_inv weight_of (retain_only c i keep)"
    using fold [OF assms] by (simp add: retain_only_def)
  have "lc_entries (retain_only c i keep) =
      filter (\<lambda>(k, e). k \<notin> set (filter (\<lambda>(i', version). i' = i \<and> Some version \<noteq> keep) (map fst (lc_entries c)))) (lc_entries c)"
    using fold [OF assms] by (simp add: retain_only_def)
  also have "\<dots> = filter (\<lambda>((i', v), e). i' \<noteq> i \<or> Some v = keep) (lc_entries c)"
    by (intro filter_cong) (auto, force)
  finally show "lc_entries (retain_only c i keep) = filter (\<lambda>((i', v), e). i' \<noteq> i \<or> Some v = keep) (lc_entries c)" .
qed

section \<open>Properties\<close>

text \<open>
  C14 Whatever is inserted, read or dropped, the cache keeps its invariant: one entry for an asset's
  version, no two last used at the same instant, and the total it accounts for is the sum of the
  entries' weights, within the budget.
\<close>

theorem cache_keeps_budget:
  assumes "cache_inv weight_of c" "cache_small c"
  shows "cache_inv weight_of (cache_insert weight_of c i v a)
    \<and> cache_inv weight_of (snd (cache_get c i v))
    \<and> cache_inv weight_of (retain_only c i keep)"
  using cache_insert_inv [OF assms] cache_get_inv [OF assms(1)] retain_only_inv(1) [OF assms(1)] assms(2)
  by (auto simp: cache_small_def)

text \<open>
  C15 Eviction ends, with room for what is inserted, and drops the least recently used: after an
  insertion the new entry is there, every other kept entry was used after every evicted one, and
  keeping the youngest of the evicted as well would exceed the budget.  An asset heavier than the
  whole budget is not kept, and evicts nothing.
\<close>

theorem insertion_evicts_oldest:
  assumes "cache_inv weight_of c" "cache_small c"
  shows "if lc_budget c < weight_of a then cache_insert weight_of c i v a = c
    else \<exists>kept. lc_entries (cache_insert weight_of c i v a) =
          ((i, v), \<lparr>ce_asset = a, ce_weight = weight_of a, ce_last_used = Suc (lc_clock c)\<rparr>) # kept
       \<and> entries_weight kept + weight_of a \<le> lc_budget c
       \<and> (let others = {(k, e) \<in> set (lc_entries c). k \<noteq> (i, v)} in
           set kept \<subseteq> others
           \<and> (\<forall>x \<in> others - set kept. \<forall>y \<in> set kept. ce_last_used (snd x) < ce_last_used (snd y))
           \<and> (\<forall>x \<in> others - set kept.
                (\<forall>y \<in> others - set kept. ce_last_used (snd y) \<le> ce_last_used (snd x)) \<longrightarrow>
                lc_budget c < weight_of a + ce_weight (snd x) + entries_weight kept))"
proof (cases "lc_budget c < weight_of a")
  case True
  then show ?thesis by (simp add: cache_insert_def)
next
  case False
  let ?d = "drop_entry (i, v) (c\<lparr>lc_clock := Suc (lc_clock c)\<rparr>)"
  let ?r = "evict (weight_of a) ?d"
  have w: "weight_of a \<le> lc_budget c" using False by simp
  note r = cache_insert_eq [OF assms w, of i v]
  have others: "set (lc_entries ?d) = {(k, e) \<in> set (lc_entries c). k \<noteq> (i, v)}"
    using r(7) by (simp add: set_map_remove)
  have budget: "lc_budget ?d = lc_budget c" by (simp add: drop_entry_def split: option.split)
  have total: "lc_total_weight ?r = entries_weight (lc_entries ?r)" using r(2) by (simp add: cache_inv_def)
  have ev: "set (lc_entries ?r) \<subseteq> set (lc_entries ?d)"
    "\<forall>x \<in> set (lc_entries ?d) - set (lc_entries ?r). \<forall>y \<in> set (lc_entries ?r). ce_last_used (snd x) < ce_last_used (snd y)"
    "\<forall>x \<in> set (lc_entries ?d) - set (lc_entries ?r).
      (\<forall>y \<in> set (lc_entries ?d) - set (lc_entries ?r). ce_last_used (snd y) \<le> ce_last_used (snd x)) \<longrightarrow>
      lc_budget c < weight_of a + ce_weight (snd x) + entries_weight (lc_entries ?r)"
    using r(6) budget by (auto simp: evicts_oldest_def not_less [symmetric] simp del: not_less)
  show ?thesis
    unfolding if_not_P [OF False] Let_def others [symmetric]
    using r(1,5) total ev by (intro exI [of _ "lc_entries ?r"]) simp
qed

section \<open>A cache to try them on\<close>

definition example_cache :: "string loaded_cache" where
  "example_cache = cache_insert length (cache_insert length (cache_insert length (cache_new 10)
     ''a'' ''1'' ''xxx'') ''b'' ''1'' ''xxxx'') ''c'' ''1'' ''xx''"

lemma example_cache_ok: "cache_inv length example_cache" "cache_small example_cache"
proof -
  have "cache_small (cache_new 10 :: string loaded_cache)"
    "cache_small (cache_insert length (cache_new 10) ''a'' ''1'' ''xxx'')"
    "cache_small (cache_insert length (cache_insert length (cache_new 10) ''a'' ''1'' ''xxx'') ''b'' ''1'' ''xxxx'')"
    "cache_small example_cache"
    by code_simp+
  then show "cache_inv length example_cache" "cache_small example_cache"
    unfolding example_cache_def by (simp_all add: cache_insert_inv cache_new_inv)
qed

theorem cache_keeps_budget_witness:
  "cache_inv length (cache_insert length example_cache ''d'' ''1'' ''xxxx'')
   \<and> cache_inv length (snd (cache_get example_cache ''a'' ''1''))
   \<and> cache_inv length (retain_only example_cache ''b'' None)"
  using cache_keeps_budget [OF example_cache_ok] by blast

theorem insertion_evicts_oldest_witness:
  "\<exists>kept. lc_entries (cache_insert length example_cache ''d'' ''1'' ''xxxx'') =
          ((''d'', ''1''), \<lparr>ce_asset = ''xxxx'', ce_weight = 4, ce_last_used = 4\<rparr>) # kept
       \<and> entries_weight kept + 4 \<le> 10"
proof -
  have "\<not> lc_budget example_cache < length ''xxxx''" "lc_clock example_cache = 3" "lc_budget example_cache = 10"
    by code_simp+
  then show ?thesis
    using insertion_evicts_oldest [OF example_cache_ok, of "''xxxx''" "''d''" "''1''"]
    by (auto simp: Let_def)
qed

end
