(* ===== verification/Segment_Stream.thy ===== *)
theory Segment_Stream
  imports Fragment_Writer Text_Numbers
begin

text \<open>
  How a response for a segment is streamed (\<^verbatim>\<open>src/src/http/stream.rs\<close>) and which of its bytes are
  sent (\<^verbatim>\<open>src/src/http/range.rs\<close>, \<^verbatim>\<open>src/src/http/validators.rs\<close>).

  A task sends items into a channel: chunks of bytes, or an error that ends the body.  What the task
  meets on the way is the environment: what a read of the source returns (bytes, a failure, or no
  job slot in time) and whether a send succeeds, each of which may depend on everything sent so far.
  Headers are other crates' values: the ones looked at are arguments.
\<close>

section \<open>Ranges of a response\<close>

record byte_interval =
  bi_start :: nat
  bi_end :: nat

definition overlap :: "byte_interval \<Rightarrow> nat \<Rightarrow> nat \<Rightarrow> byte_interval option" where
  "overlap i start stop =
     (let o' = \<lparr>bi_start = max (bi_start i) start, bi_end = min (bi_end i) stop\<rparr> in
      if bi_start o' < bi_end o' then Some o' else None)"

text \<open>\<open>str::split_once\<close> at a character.\<close>

fun split_once :: "char \<Rightarrow> string \<Rightarrow> (string \<times> string) option" where
  "split_once d [] = None"
| "split_once d (c # cs) =
     (if c = d then Some ([], cs)
      else map_option (\<lambda>(a, b). (c # a, b)) (split_once d cs))"

text \<open>
  The \<open>Range\<close> header, if there is one; its text, if it has only the characters a text may have; the
  \<open>If-Range\<close> header, if there is one; the strong entity tag of what is served.
\<close>

record range_headers =
  rh_range :: "string option option"
  rh_if_range :: "string option"

definition requested_range :: "range_headers \<Rightarrow> nat \<Rightarrow> string \<Rightarrow> unit + byte_interval option" where
  "requested_range h whole etag =
     (case rh_range h of
        None \<Rightarrow> Inr None
      | Some v \<Rightarrow>
          if (case rh_if_range h of None \<Rightarrow> False | Some condition \<Rightarrow> condition \<noteq> etag) then Inr None
          else
            (case v of
               None \<Rightarrow> Inl ()
             | Some txt \<Rightarrow>
                 (case strip_prefix ''bytes='' txt of
                    None \<Rightarrow> Inl ()
                  | Some r \<Rightarrow>
                      if CHR '','' \<in> set r then Inl ()
                      else
                        (case split_once (CHR ''-'') r of
                           None \<Rightarrow> Inl ()
                         | Some (head_text, tail_text) \<Rightarrow>
                             and_then
                               (if head_text = [] then
                                  (case parse_unsigned u64_limit tail_text of
                                     None \<Rightarrow> Inl ()
                                   | Some final_bytes \<Rightarrow>
                                       if final_bytes = 0 \<or> whole = 0 then Inl ()
                                       else Inr (whole - final_bytes, whole))
                                else
                                  (case parse_unsigned u64_limit head_text of
                                     None \<Rightarrow> Inl ()
                                   | Some start \<Rightarrow>
                                       if tail_text = [] then Inr (start, whole)
                                       else
                                         (case parse_unsigned u64_limit tail_text of
                                            None \<Rightarrow> Inl ()
                                          | Some l \<Rightarrow>
                                              (case checked_add l 1 of
                                                 None \<Rightarrow> Inl ()
                                               | Some stop \<Rightarrow> Inr (start, min stop whole))))) (\<lambda>(start, stop).
                             if stop \<le> start \<or> whole \<le> start then Inl ()
                             else Inr (Some \<lparr>bi_start = start, bi_end = stop\<rparr>))))))"

section \<open>The environment of a task\<close>

datatype stream_abort = Idle | Client | Stream_Error

datatype stream_stop = Aborted stream_abort | Panicked

type_synonym stream_item = "string + bytes"

datatype source_read = Queue_Timeout | Read_Failed | Read_Bytes bytes

record stream_env =
  en_read :: "stream_item list \<Rightarrow> nat \<Rightarrow> nat \<Rightarrow> source_read"
  en_send :: "stream_item list \<Rightarrow> stream_item \<Rightarrow> stream_abort option"

text \<open>A step of the task returns how it ended and everything sent so far.\<close>

type_synonym 'a streamed = "(stream_stop + 'a) \<times> stream_item list"

definition andthen :: "'a streamed \<Rightarrow> ('a \<Rightarrow> stream_item list \<Rightarrow> 'b streamed) \<Rightarrow> 'b streamed" where
  "andthen m f = (case m of (Inl e, sent) \<Rightarrow> (Inl e, sent) | (Inr x, sent) \<Rightarrow> f x sent)"

definition send_item :: "stream_env \<Rightarrow> stream_item \<Rightarrow> stream_item list \<Rightarrow> unit streamed" where
  "send_item env item sent =
     (case en_send env sent item of
        None \<Rightarrow> (Inr (), sent @ [item]) | Some reason \<Rightarrow> (Inl (Aborted reason), sent))"

definition fail_stream :: "stream_env \<Rightarrow> string \<Rightarrow> stream_item list \<Rightarrow> 'a streamed" where
  "fail_stream env message sent = (Inl (Aborted Stream_Error), snd (send_item env (Inl message) sent))"

definition read_source :: "stream_env \<Rightarrow> nat \<Rightarrow> nat \<Rightarrow> stream_item list \<Rightarrow> bytes streamed" where
  "read_source env off n sent =
     (case en_read env sent off n of
        Queue_Timeout \<Rightarrow> fail_stream env ''segment read queue timed out'' sent
      | Read_Failed \<Rightarrow> fail_stream env ''source read failed'' sent
      | Read_Bytes bs \<Rightarrow> (Inr bs, sent))"

section \<open>Which reads to make\<close>

definition MAX_GAP_BYTES :: nat where
  "MAX_GAP_BYTES = 64 * 1024"

definition GAP_BUDGET_BYTES :: nat where
  "GAP_BUDGET_BYTES = 256 * 1024"

definition MAX_RUNS :: nat where
  "MAX_RUNS = 4"

definition HELD_CHUNKS :: nat where
  "HELD_CHUNKS = 4"

datatype read_op = Split byte_range | Span nat nat "byte_range list"

record read_window =
  rw_start :: nat
  rw_end :: nat
  rw_members :: "(nat \<times> byte_range) list"

definition piece_end :: "byte_range \<Rightarrow> nat" where
  "piece_end p = wadd64 (br_offset p) (br_length p)"

text \<open>The source ranges behind the requested interval, after the header.\<close>

fun requested_pieces :: "byte_interval \<Rightarrow> nat \<Rightarrow> byte_range list \<Rightarrow> byte_range list" where
  "requested_pieces i virtual_offset [] = []"
| "requested_pieces i virtual_offset (r # rs) =
     (let source_end = wadd64 virtual_offset (br_length r) in
      (case overlap i virtual_offset source_end of
         None \<Rightarrow> []
       | Some v \<Rightarrow> [byte_range_new (wsub64 (wadd64 (br_offset r) (bi_start v)) virtual_offset)
                     (bi_end v - bi_start v)])
      @ requested_pieces i source_end rs)"

definition close_span :: "(nat \<times> nat \<times> byte_range list) option \<Rightarrow> read_op list" where
  "close_span current = (case current of None \<Rightarrow> [] | Some (start, stop, members) \<Rightarrow> [Span start stop members])"

text \<open>The loop of \<open>coalesce\<close>; the read being gathered is \<open>current\<close>.\<close>

fun coalesce_from ::
    "nat \<Rightarrow> nat \<Rightarrow> (nat \<times> nat \<times> byte_range list) option \<Rightarrow> byte_range list \<Rightarrow> read_op list" where
  "coalesce_from chunk_size gap_spent current [] = close_span current"
| "coalesce_from chunk_size gap_spent current (piece # pieces) =
     (let stop = piece_end piece;
          joined = (case current of
              None \<Rightarrow> None
            | Some (start, current_end, members) \<Rightarrow>
                (case checked_sub (br_offset piece) current_end of
                   None \<Rightarrow> None
                 | Some gap \<Rightarrow>
                     if gap \<le> MAX_GAP_BYTES \<and> wadd64 gap_spent gap \<le> GAP_BUDGET_BYTES
                        \<and> wsub64 stop start \<le> chunk_size
                     then Some (wadd64 gap_spent gap, start, stop, members @ [piece]) else None))
      in case joined of
           Some (spent, grown) \<Rightarrow> coalesce_from chunk_size spent (Some grown) pieces
         | None \<Rightarrow>
             close_span current
             @ (if chunk_size < br_length piece
                then Split piece # coalesce_from chunk_size gap_spent None pieces
                else coalesce_from chunk_size gap_spent (Some (br_offset piece, stop, [piece])) pieces))"

definition coalesce :: "byte_range list \<Rightarrow> nat \<Rightarrow> read_op list" where
  "coalesce pieces chunk_size = coalesce_from chunk_size 0 None pieces"

text \<open>Each piece with its run: a new one starts where a piece is before the end of the last.\<close>

fun tag_runs :: "nat \<Rightarrow> nat \<Rightarrow> byte_range list \<Rightarrow> (nat \<times> byte_range) list \<times> nat" where
  "tag_runs run previous_end [] = ([], run)"
| "tag_runs run previous_end (p # ps) =
     (let run' = (if br_offset p < previous_end then run + 1 else run);
          (rest, final_run) = tag_runs run' (piece_end p) ps
      in ((run', p) # rest, final_run))"

text \<open>The loop that gathers windows; the last one is open and given apart.\<close>

fun gather :: "nat \<Rightarrow> nat \<Rightarrow> read_window option \<Rightarrow> (nat \<times> byte_range) list \<Rightarrow> read_window list" where
  "gather chunk_size gap_spent w [] = (case w of None \<Rightarrow> [] | Some w \<Rightarrow> [w])"
| "gather chunk_size gap_spent w ((run, piece) # rest) =
     (let stop = piece_end piece;
          fresh = \<lparr>rw_start = br_offset piece, rw_end = stop, rw_members = [(run, piece)]\<rparr>
      in case w of
           None \<Rightarrow> gather chunk_size gap_spent (Some fresh) rest
         | Some w \<Rightarrow>
             let gap = br_offset piece - rw_end w in
             if gap \<le> MAX_GAP_BYTES \<and> wadd64 gap_spent gap \<le> GAP_BUDGET_BYTES
                \<and> wsub64 (max stop (rw_end w)) (rw_start w) \<le> chunk_size
             then gather chunk_size (wadd64 gap_spent gap)
                    (Some (w\<lparr>rw_end := max (rw_end w) stop, rw_members := rw_members w @ [(run, piece)]\<rparr>)) rest
             else w # gather chunk_size gap_spent (Some fresh) rest)"

definition read_length :: "read_op \<Rightarrow> nat" where
  "read_length r = (case r of Split piece \<Rightarrow> br_length piece | Span start stop ps \<Rightarrow> wsub64 stop start)"

definition interleaved_windows :: "byte_range list \<Rightarrow> nat \<Rightarrow> read_window list option" where
  "interleaved_windows pieces chunk_size =
     (let (tagged, run) = tag_runs 0 0 pieces; runs = run + 1 in
      if \<not> (2 \<le> runs \<and> runs \<le> MAX_RUNS) \<or> (\<exists>p \<in> set pieces. chunk_size < br_length p) then None
      else
        let held = sum_list (map (\<lambda>(r, p). br_length p) (filter (\<lambda>(r, p). r \<noteq> 0) tagged)) mod u64_limit in
        if min (chunk_size * HELD_CHUNKS) (u64_limit - 1) < held then None
        else
          let windows = gather chunk_size 0 None (sort_key (\<lambda>(r, p). br_offset p) tagged);
              merged = sum_list (map (\<lambda>w. wsub64 (rw_end w) (rw_start w)) windows) mod u64_limit;
              separate = sum_list (map read_length (coalesce pieces chunk_size)) mod u64_limit
          in if merged < separate then Some windows else None)"

section \<open>The task\<close>

text \<open>The header, a chunk at a time; past the end the saturation of \<open>at + chunk_size\<close> cannot show.\<close>

function send_header ::
    "stream_env \<Rightarrow> bytes \<Rightarrow> nat \<Rightarrow> nat \<Rightarrow> nat \<Rightarrow> stream_item list \<Rightarrow> unit streamed" where
  "send_header env header chunk_size at' stop sent =
     (if at' < stop then
        let next = min stop (at' + max 1 chunk_size) in
        andthen (send_item env (Inr (subslice header at' next)) sent) (\<lambda>_ sent'.
          send_header env header chunk_size next stop sent')
      else (Inr (), sent))"
  by pat_completeness auto
termination
  by (relation "measure (\<lambda>(env, header, chunk_size, at', stop, sent). stop - at')") auto

declare send_header.simps [simp del]

text \<open>One piece larger than a chunk.  A chunk size of 0 would never end.\<close>

partial_function (option) split_piece ::
    "stream_env \<Rightarrow> nat \<Rightarrow> nat \<Rightarrow> nat \<Rightarrow> stream_item list \<Rightarrow> unit streamed option" where
  "split_piece env chunk_size off remaining sent =
     (if remaining = 0 then Some (Inr (), sent)
      else
        let n = min remaining chunk_size in
        (case andthen (read_source env off n sent) (\<lambda>chunk sent'. send_item env (Inr chunk) sent') of
           (Inl e, sent') \<Rightarrow> Some (Inl e, sent')
         | (Inr _, sent') \<Rightarrow> split_piece env chunk_size (wadd64 off n) (remaining - n) sent'))"

text \<open>The pieces of one read, joined.\<close>

fun pieces_of :: "bytes \<Rightarrow> nat \<Rightarrow> byte_range list \<Rightarrow> bytes option" where
  "pieces_of data start [] = Some []"
| "pieces_of data start (p # ps) =
     (let from' = wsub64 (br_offset p) start in
      case get_slice data from' (wadd64 from' (br_length p)) of
        None \<Rightarrow> None
      | Some bs \<Rightarrow> map_option (\<lambda>rest. bs @ rest) (pieces_of data start ps))"

definition read_span :: "stream_env \<Rightarrow> nat \<Rightarrow> nat \<Rightarrow> byte_range list \<Rightarrow> stream_item list \<Rightarrow> unit streamed" where
  "read_span env start stop ps sent =
     andthen (read_source env start (wsub64 stop start) sent) (\<lambda>data sent'.
       case ps of
         [p] \<Rightarrow>
           if br_offset p = start
           then (if br_length p \<le> length data then send_item env (Inr (take (br_length p) data)) sent'
                 else (Inl Panicked, sent'))
           else (case pieces_of data start ps of
                   None \<Rightarrow> fail_stream env ''source read was shorter than requested'' sent'
                 | Some joined \<Rightarrow> send_item env (Inr joined) sent')
       | _ \<Rightarrow>
           (case pieces_of data start ps of
              None \<Rightarrow> fail_stream env ''source read was shorter than requested'' sent'
            | Some joined \<Rightarrow> send_item env (Inr joined) sent'))"

fun stream_reads :: "stream_env \<Rightarrow> nat \<Rightarrow> read_op list \<Rightarrow> stream_item list \<Rightarrow> unit streamed option" where
  "stream_reads env chunk_size [] sent = Some (Inr (), sent)"
| "stream_reads env chunk_size (Split p # rs) sent =
     (case split_piece env chunk_size (br_offset p) (br_length p) sent of
        None \<Rightarrow> None
      | Some (Inl e, sent') \<Rightarrow> Some (Inl e, sent')
      | Some (Inr _, sent') \<Rightarrow> stream_reads env chunk_size rs sent')"
| "stream_reads env chunk_size (Span start stop ps # rs) sent =
     (case read_span env start stop ps sent of
        (Inl e, sent') \<Rightarrow> Some (Inl e, sent')
      | (Inr _, sent') \<Rightarrow> stream_reads env chunk_size rs sent')"

text \<open>\<open>held.resize_with(run, Vec::new)\<close> and the append to the run's bytes.\<close>

definition hold :: "nat \<Rightarrow> bytes \<Rightarrow> bytes list \<Rightarrow> bytes list" where
  "hold run bs held =
     (let held' = held @ replicate (run - length held) [] in held'[run - 1 := held' ! (run - 1) @ bs])"

text \<open>The members of a window, routed: what is ready to be sent, and what is held.\<close>

fun route :: "bytes \<Rightarrow> nat \<Rightarrow> (nat \<times> byte_range) list \<Rightarrow> bytes \<times> bytes list \<Rightarrow> (bytes \<times> bytes list) option" where
  "route data start [] (ready, held) = Some (ready, held)"
| "route data start ((run, p) # ms) (ready, held) =
     (let from' = wsub64 (br_offset p) start in
      case get_slice data from' (saturating_add from' (br_length p)) of
        None \<Rightarrow> None
      | Some bs \<Rightarrow>
          if run = 0 then route data start ms (ready @ bs, held)
          else route data start ms (ready, hold run bs held))"

fun stream_windows :: "stream_env \<Rightarrow> read_window list \<Rightarrow> bytes list \<Rightarrow> stream_item list \<Rightarrow> bytes list streamed" where
  "stream_windows env [] held sent = (Inr held, sent)"
| "stream_windows env (w # ws) held sent =
     andthen (read_source env (rw_start w) (wsub64 (rw_end w) (rw_start w)) sent) (\<lambda>data sent'.
       case route data (rw_start w) (rw_members w) ([], held) of
         None \<Rightarrow> fail_stream env ''source read was shorter than requested'' sent'
       | Some (ready, held') \<Rightarrow>
           andthen (if ready \<noteq> [] then send_item env (Inr ready) sent' else (Inr (), sent')) (\<lambda>_ sent''.
             stream_windows env ws held' sent''))"

function chunks_of :: "nat \<Rightarrow> 'b list \<Rightarrow> 'b list list" where
  "chunks_of n xs = (if xs = [] then [] else take (max 1 n) xs # chunks_of n (drop (max 1 n) xs))"
  by pat_completeness auto
termination
  by (relation "measure (\<lambda>(n, xs). length xs)") auto

declare chunks_of.simps [simp del]

fun send_all :: "stream_env \<Rightarrow> bytes list \<Rightarrow> stream_item list \<Rightarrow> unit streamed" where
  "send_all env [] sent = (Inr (), sent)"
| "send_all env (c # cs) sent = andthen (send_item env (Inr c) sent) (\<lambda>_ sent'. send_all env cs sent')"

definition stream_interleaved ::
    "stream_env \<Rightarrow> nat \<Rightarrow> read_window list \<Rightarrow> stream_item list \<Rightarrow> unit streamed" where
  "stream_interleaved env chunk_size ws sent =
     andthen (stream_windows env ws [] sent) (\<lambda>held sent'.
       send_all env (concat (map (chunks_of chunk_size) held)) sent')"

definition stream_segment ::
    "stream_env \<Rightarrow> 'e prepared_segment \<Rightarrow> byte_interval \<Rightarrow> nat \<Rightarrow> unit streamed option" where
  "stream_segment env prepared i chunk_size =
     (let header_end = length (ps_header prepared) in
      case (case overlap i 0 header_end of
              None \<Rightarrow> (Inr (), [])
            | Some v \<Rightarrow> send_header env (ps_header prepared) chunk_size (bi_start v) (bi_end v) []) of
        (Inl e, sent) \<Rightarrow> Some (Inl e, sent)
      | (Inr _, sent) \<Rightarrow>
          let pieces = requested_pieces i header_end (ps_ranges prepared) in
          (case interleaved_windows pieces chunk_size of
             Some windows \<Rightarrow> Some (stream_interleaved env chunk_size windows sent)
           | None \<Rightarrow> stream_reads env chunk_size (coalesce pieces chunk_size) sent))"

end
