(* ===== verification/Segment_Stream_Laws.thy ===== *)
theory Segment_Stream_Laws
  imports Segment_Stream "HOL-Library.Sublist"
begin

text \<open>
  Whatever reads are made and in whatever order, a stream sends the requested bytes: the laws of a
  step that delivers bytes, of the grouping of pieces into reads, and of the interleaved plan.
\<close>

section \<open>Environments\<close>

text \<open>A read inside the source either fails or returns what the source holds there.\<close>

definition honest :: "bytes \<Rightarrow> stream_env \<Rightarrow> bool" where
  "honest data env \<longleftrightarrow> (\<forall>sent off n bs. off + n \<le> length data \<longrightarrow>
     en_read env sent off n = Read_Bytes bs \<longrightarrow> bs = subslice data off (off + n))"

text \<open>No read fails, and every send succeeds.\<close>

definition steady :: "bytes \<Rightarrow> stream_env \<Rightarrow> bool" where
  "steady data env \<longleftrightarrow>
     (\<forall>sent off n. off + n \<le> length data \<longrightarrow> (\<exists>bs. en_read env sent off n = Read_Bytes bs))
     \<and> (\<forall>sent c. en_send env sent (Inr c) = None)"

section \<open>Steps that deliver bytes\<close>

text \<open>
  A step delivers \<open>bs\<close> when what it sends is \<open>bs\<close> in chunks of at most \<open>limit\<close> bytes or, if it is
  cut short, a beginning of them and at most one error, and it is cut short only by the environment.
\<close>

definition delivers :: "bytes \<Rightarrow> stream_env \<Rightarrow> nat \<Rightarrow> bytes \<Rightarrow> stream_item list \<Rightarrow> 'a streamed \<Rightarrow> bool" where
  "delivers data env limit bs sent m \<longleftrightarrow>
     (\<exists>cs. (\<forall>c \<in> set cs. length c \<le> limit)
       \<and> (case fst m of
            Inr _ \<Rightarrow> snd m = sent @ map Inr cs \<and> concat cs = bs
          | Inl (Aborted _) \<Rightarrow>
              (\<exists>ends. snd m = sent @ map Inr cs @ ends \<and> (ends = [] \<or> (\<exists>msg. ends = [Inl msg])))
              \<and> prefix (concat cs) bs
          | Inl Panicked \<Rightarrow> False))
     \<and> (steady data env \<longrightarrow> (\<exists>x. fst m = Inr x))"

lemma delivers_nothing [simp, intro]: "delivers data env limit [] sent (Inr x, sent)"
  by (auto simp: delivers_def intro: exI [of _ "[]"])

lemma delivers_send:
  "length c \<le> limit \<Longrightarrow> delivers data env limit c sent (send_item env (Inr c) sent)"
  by (auto simp: delivers_def send_item_def steady_def split: option.split
      intro: exI [of _ "[c]"] exI [of _ "[]"])

lemma delivers_andthen:
  assumes "delivers data env limit a sent m"
    and "\<And>x sent'. m = (Inr x, sent') \<Longrightarrow> delivers data env limit b sent' (f x sent')"
  shows "delivers data env limit (a @ b) sent (andthen m f)"
proof (cases "fst m")
  case (Inl e)
  then have m: "m = (Inl e, snd m)" by (metis prod.collapse)
  then have "andthen m f = (Inl e, snd m)" by (cases m) (simp add: andthen_def)
  moreover have "e \<noteq> Panicked" using assms(1) Inl by (auto simp: delivers_def)
  ultimately show ?thesis
    using assms(1) Inl unfolding delivers_def
    by (cases e) (auto intro: prefix_prefix)
next
  case (Inr x)
  then have m: "m = (Inr x, snd m)" by (metis prod.collapse)
  then have am: "andthen m f = f x (snd m)" by (cases m) (simp add: andthen_def)
  obtain cs where cs: "\<forall>c \<in> set cs. length c \<le> limit" "snd m = sent @ map Inr cs" "concat cs = a"
    using assms(1) Inr by (auto simp: delivers_def)
  have d: "delivers data env limit b (snd m) (f x (snd m))" using assms(2) m by blast
  then obtain ds where ds: "\<forall>c \<in> set ds. length c \<le> limit"
      "case fst (f x (snd m)) of
            Inr _ \<Rightarrow> snd (f x (snd m)) = snd m @ map Inr ds \<and> concat ds = b
          | Inl (Aborted _) \<Rightarrow>
              (\<exists>ends. snd (f x (snd m)) = snd m @ map Inr ds @ ends \<and> (ends = [] \<or> (\<exists>msg. ends = [Inl msg])))
              \<and> prefix (concat ds) b
          | Inl Panicked \<Rightarrow> False"
    by (auto simp: delivers_def)
  show ?thesis unfolding am delivers_def
  proof (intro conjI exI [of _ "cs @ ds"])
    show "\<forall>c \<in> set (cs @ ds). length c \<le> limit" using cs(1) ds(1) by auto
    show "case fst (f x (snd m)) of
            Inr _ \<Rightarrow> snd (f x (snd m)) = sent @ map Inr (cs @ ds) \<and> concat (cs @ ds) = a @ b
          | Inl (Aborted _) \<Rightarrow>
              (\<exists>ends. snd (f x (snd m)) = sent @ map Inr (cs @ ds) @ ends \<and> (ends = [] \<or> (\<exists>msg. ends = [Inl msg])))
              \<and> prefix (concat (cs @ ds)) (a @ b)
          | Inl Panicked \<Rightarrow> False"
      using ds(2) cs(2,3) by (simp split: sum.splits stream_stop.splits)
    show "steady data env \<longrightarrow> (\<exists>y. fst (f x (snd m)) = Inr y)" using d by (simp add: delivers_def)
  qed
qed

lemma delivers_read:
  assumes "honest data env" "off + n \<le> length data"
  shows "delivers data env limit [] sent (read_source env off n sent)"
    "read_source env off n sent = (Inr bs, sent') \<Longrightarrow> bs = subslice data off (off + n) \<and> sent' = sent"
proof -
  have fails: "delivers data env limit [] sent (fail_stream env msg sent :: bytes streamed)" if "\<not> steady data env" for msg
    using that by (cases "en_send env sent (Inl msg)")
      (auto simp: delivers_def fail_stream_def send_item_def intro: exI [of _ "[]"])
  show "delivers data env limit [] sent (read_source env off n sent)"
  proof (cases "en_read env sent off n")
    case (Read_Bytes bs)
    then show ?thesis by (simp add: read_source_def delivers_nothing)
  next
    case Queue_Timeout
    then have "\<not> steady data env" using assms(2) unfolding steady_def by (metis source_read.distinct(3))
    then show ?thesis using Queue_Timeout fails by (simp add: read_source_def)
  next
    case Read_Failed
    then have "\<not> steady data env" using assms(2) unfolding steady_def by (metis source_read.distinct(5))
    then show ?thesis using Read_Failed fails by (simp add: read_source_def)
  qed
  show "read_source env off n sent = (Inr bs, sent') \<Longrightarrow> bs = subslice data off (off + n) \<and> sent' = sent"
    using assms unfolding honest_def
    by (auto simp: read_source_def fail_stream_def split: source_read.splits)
qed

lemma delivers_then:
  assumes "delivers data env limit a sent m"
    and "\<And>sent'. \<exists>r. F sent' = Some r \<and> delivers data env limit b sent' r"
  shows "\<exists>r. (case m of (Inl e, s) \<Rightarrow> Some (Inl e, s) | (Inr x, s) \<Rightarrow> F s) = Some r
    \<and> delivers data env limit (a @ b) sent r"
proof (intro exI conjI)
  show "(case m of (Inl e, s) \<Rightarrow> Some (Inl e, s) | (Inr x, s) \<Rightarrow> F s) = Some (andthen m (\<lambda>_ s. the (F s)))"
    using assms(2) by (auto simp: andthen_def split: prod.split sum.split) (metis option.sel)
  show "delivers data env limit (a @ b) sent (andthen m (\<lambda>_ s. the (F s)))"
    using assms(2) by (intro delivers_andthen [OF assms(1)]) (metis option.sel)
qed

lemma delivers_mono: "delivers data env limit bs sent m \<Longrightarrow> limit \<le> limit' \<Longrightarrow> delivers data env limit' bs sent m"
  unfolding delivers_def by (elim conjE exE) (auto intro: order_trans split: sum.splits stream_stop.splits; fastforce)

section \<open>The header\<close>

lemma subslice_join: "a \<le> b \<Longrightarrow> b \<le> c \<Longrightarrow> subslice xs a b @ subslice xs b c = subslice xs a c"
proof -
  assume "a \<le> b" "b \<le> c"
  then have "drop b xs = drop (b - a) (drop a xs)" "c - a = (b - a) + (c - b)" by simp_all
  then show ?thesis unfolding subslice_def by (simp only: take_add)
qed

lemma length_subslice_le: "length (subslice xs a b) \<le> b - a"
  by (simp add: subslice_def)

lemma delivers_header:
  assumes "0 < chunk_size" "at' \<le> stop"
  shows "delivers data env chunk_size (subslice header at' stop) sent (send_header env header chunk_size at' stop sent)"
  using assms
proof (induction env header chunk_size at' stop sent rule: send_header.induct)
  case (1 env header chunk_size at' stop sent)
  show ?case
  proof (cases "at' < stop")
    case True
    let ?next = "min stop (at' + max 1 chunk_size)"
    have eq: "send_header env header chunk_size at' stop sent =
        andthen (send_item env (Inr (subslice header at' ?next)) sent) (\<lambda>_ sent'.
          send_header env header chunk_size ?next stop sent')"
      using True by (subst send_header.simps) (simp add: Let_def)
    have "subslice header at' stop = subslice header at' ?next @ subslice header ?next stop"
      using True by (simp add: subslice_join)
    moreover have "length (subslice header at' ?next) \<le> chunk_size"
    proof -
      have "?next - at' \<le> chunk_size" using "1.prems"(1) by (cases chunk_size) (auto simp: min_def)
      then show ?thesis using length_subslice_le [of header at' ?next] by (rule order_trans [rotated])
    qed
    ultimately show ?thesis
      unfolding eq using "1.IH" [OF True refl] "1.prems"(1) True by (auto intro!: delivers_andthen delivers_send)
  next
    case False
    then show ?thesis using "1.prems" by (subst send_header.simps) simp
  qed
qed

section \<open>Pieces and reads\<close>

definition piece_bytes :: "bytes \<Rightarrow> byte_range \<Rightarrow> bytes" where
  "piece_bytes data p = subslice data (br_offset p) (br_offset p + br_length p)"

definition pieces_bytes :: "bytes \<Rightarrow> byte_range list \<Rightarrow> bytes" where
  "pieces_bytes data ps = concat (map (piece_bytes data) ps)"

definition piece_in :: "nat \<Rightarrow> nat \<Rightarrow> byte_range \<Rightarrow> bool" where
  "piece_in a b p \<longleftrightarrow> a \<le> br_offset p \<and> br_offset p + br_length p \<le> b"

lemma pieces_bytes_simps [simp]:
  "pieces_bytes data [] = []" "pieces_bytes data (p # ps) = piece_bytes data p @ pieces_bytes data ps"
  "pieces_bytes data (ps @ qs) = pieces_bytes data ps @ pieces_bytes data qs"
  by (simp_all add: pieces_bytes_def)

lemma length_piece_bytes: "piece_in a (length data) p \<Longrightarrow> length (piece_bytes data p) = br_length p"
  by (simp add: piece_bytes_def piece_in_def)

lemma length_pieces_bytes:
  "\<forall>p \<in> set ps. piece_in a (length data) p \<Longrightarrow> length (pieces_bytes data ps) = sum_list (map br_length ps)"
  by (induction ps) (simp_all add: length_piece_bytes [where a = a])

lemma piece_end_eq: "piece_in a b p \<Longrightarrow> b < u64_limit \<Longrightarrow> piece_end p = br_offset p + br_length p"
  by (simp add: piece_end_def piece_in_def)

text \<open>A piece inside a read of the source.\<close>

lemma get_piece:
  assumes "piece_in start stop p" "stop \<le> length data" "length data < u64_limit"
  shows "wsub64 (br_offset p) start = br_offset p - start"
    "wadd64 (br_offset p - start) (br_length p) = br_offset p - start + br_length p"
    "saturating_add (br_offset p - start) (br_length p) = br_offset p - start + br_length p"
    "get_slice (subslice data start stop) (br_offset p - start) (br_offset p - start + br_length p)
       = Some (piece_bytes data p)"
proof -
  have p: "start \<le> br_offset p" "br_offset p + br_length p \<le> stop" using assms(1) by (auto simp: piece_in_def)
  show "wsub64 (br_offset p) start = br_offset p - start"
    "wadd64 (br_offset p - start) (br_length p) = br_offset p - start + br_length p"
    "saturating_add (br_offset p - start) (br_length p) = br_offset p - start + br_length p"
    using p assms(2,3) by (simp_all add: saturating_add_def)
  have "subslice (subslice data start stop) (br_offset p - start) (br_offset p - start + br_length p) = piece_bytes data p"
    using p assms(2) by (simp add: piece_bytes_def subslice_subslice)
  then show "get_slice (subslice data start stop) (br_offset p - start) (br_offset p - start + br_length p)
       = Some (piece_bytes data p)"
    using p assms(2) by (simp add: get_slice_def) linarith
qed

lemma pieces_of_span:
  assumes "\<forall>p \<in> set ps. piece_in start stop p" "stop \<le> length data" "length data < u64_limit"
  shows "pieces_of (subslice data start stop) start ps = Some (pieces_bytes data ps)"
  using assms(1)
proof (induction ps)
  case (Cons p ps)
  note g = get_piece [of start stop p, OF _ assms(2,3)]
  show ?case using Cons g by (simp add: Let_def)
qed simp

text \<open>Reads that stay inside the source and within a chunk, but for the pieces that are split.\<close>

definition good_read :: "bytes \<Rightarrow> nat \<Rightarrow> read_op \<Rightarrow> bool" where
  "good_read data chunk_size r \<longleftrightarrow>
     (case r of
        Split p \<Rightarrow> piece_in 0 (length data) p
      | Span start stop ps \<Rightarrow> start \<le> stop \<and> stop \<le> length data \<and> (\<forall>p \<in> set ps. piece_in start stop p)
          \<and> sum_list (map br_length ps) \<le> stop - start \<and> stop - start \<le> chunk_size)"

definition read_pieces :: "read_op \<Rightarrow> byte_range list" where
  "read_pieces r = (case r of Split p \<Rightarrow> [p] | Span _ _ ps \<Rightarrow> ps)"

lemma read_pieces_simps [simp]: "read_pieces (Split p) = [p]" "read_pieces (Span a b ps) = ps"
  by (simp_all add: read_pieces_def)

lemma split_read_simps [simp]:
  "read_length (Split p) = br_length p" "good_read data chunk_size (Split p) = piece_in 0 (length data) p"
  by (simp_all add: read_length_def good_read_def)

definition open_pieces :: "(nat \<times> nat \<times> byte_range list) option \<Rightarrow> byte_range list" where
  "open_pieces current = (case current of None \<Rightarrow> [] | Some (start, stop, ps) \<Rightarrow> ps)"

definition open_length :: "(nat \<times> nat \<times> byte_range list) option \<Rightarrow> nat" where
  "open_length current = (case current of None \<Rightarrow> 0 | Some (start, stop, ps) \<Rightarrow> stop - start)"

lemma open_simps [simp]:
  "open_pieces None = []" "open_length None = 0"
  "open_pieces (Some (a, b, ps)) = ps" "open_length (Some (a, b, ps)) = b - a"
  by (simp_all add: open_pieces_def open_length_def)

lemma split_piece_delivers:
  assumes "honest data env" "0 < chunk_size" "length data < u64_limit"
  shows "off + remaining \<le> length data \<Longrightarrow>
    \<exists>m. split_piece env chunk_size off remaining sent = Some m
      \<and> delivers data env chunk_size (subslice data off (off + remaining)) sent m"
proof (induction remaining arbitrary: off sent rule: less_induct)
  case (less remaining)
  show ?case
  proof (cases "remaining = 0")
    case True
    then show ?thesis by (subst split_piece.simps) simp
  next
    case False
    let ?n = "min remaining chunk_size"
    let ?m = "andthen (read_source env off ?n sent) (\<lambda>chunk sent'. send_item env (Inr chunk) sent')"
    have n: "off + ?n \<le> length data" "0 < ?n" "?n \<le> remaining" using less.prems assms(2) False by auto
    have m: "delivers data env chunk_size ([] @ subslice data off (off + ?n)) sent ?m"
    proof (rule delivers_andthen [OF delivers_read(1) [OF assms(1) n(1)]])
      fix chunk sent' assume "read_source env off ?n sent = (Inr chunk, sent')"
      then have "chunk = subslice data off (off + ?n)" using delivers_read(2) [OF assms(1) n(1)] by blast
      moreover have "length (subslice data off (off + ?n)) \<le> chunk_size"
        by (rule order_trans [OF length_subslice_le]) simp
      ultimately show "delivers data env chunk_size (subslice data off (off + ?n)) sent' (send_item env (Inr chunk) sent')"
        by (auto intro: delivers_send)
    qed
    have join: "subslice data off (off + remaining)
        = subslice data off (off + ?n) @ subslice data (off + ?n) (off + ?n + (remaining - ?n))"
      using n(3) by (simp add: subslice_join)
    have w: "wadd64 off ?n = off + ?n" using n(1) assms(3) by simp
    have step: "split_piece env chunk_size off remaining sent =
        (case ?m of (Inl e, sent') \<Rightarrow> Some (Inl e, sent')
         | (Inr _, sent') \<Rightarrow> split_piece env chunk_size (off + ?n) (remaining - ?n) sent')"
      by (simp only: split_piece.simps [of env chunk_size off remaining sent] Let_def w if_not_P [OF False])
    show ?thesis
      unfolding step join
    proof (rule delivers_then [OF m [unfolded append_Nil]])
      fix sent'
      show "\<exists>r. split_piece env chunk_size (off + ?n) (remaining - ?n) sent' = Some r
          \<and> delivers data env chunk_size (subslice data (off + ?n) (off + ?n + (remaining - ?n))) sent' r"
        using less.IH [of "remaining - ?n" "off + ?n"] n less.prems by simp
    qed
  qed
qed

lemma read_span_delivers:
  assumes "honest data env" "length data < u64_limit" "good_read data chunk_size (Span start stop ps)"
  shows "delivers data env chunk_size (pieces_bytes data ps) sent (read_span env start stop ps sent)"
proof -
  have g: "start \<le> stop" "stop \<le> length data" "\<forall>p \<in> set ps. piece_in start stop p"
      "sum_list (map br_length ps) \<le> stop - start" "stop - start \<le> chunk_size"
    using assms(3) by (simp_all add: good_read_def)
  have w: "wsub64 stop start = stop - start" using g assms(2) by simp
  have fits: "length (pieces_bytes data ps) \<le> chunk_size"
    using g length_pieces_bytes [of ps 0 data] by (fastforce simp: piece_in_def)
  let ?data = "subslice data start stop"
  have off: "start + (stop - start) = stop" using g by simp
  have "delivers data env chunk_size ([] @ pieces_bytes data ps) sent (read_span env start stop ps sent)"
    unfolding read_span_def w
  proof (rule delivers_andthen)
    show "delivers data env chunk_size [] sent (read_source env start (stop - start) sent)"
      using delivers_read(1) [OF assms(1)] g by simp
    fix bs sent' assume "read_source env start (stop - start) sent = (Inr bs, sent')"
    then have bs: "bs = ?data" using delivers_read(2) [OF assms(1), of start "stop - start"] g off by simp
    have whole: "pieces_of ?data start ps = Some (pieces_bytes data ps)"
      by (rule pieces_of_span [OF g(3,2) assms(2)])
    have first: "take (br_length p) ?data = pieces_bytes data ps \<and> br_length p \<le> length ?data"
      if "ps = [p]" "br_offset p = start" for p
      using that g by (simp add: piece_bytes_def piece_in_def subslice_def min_def le_diff_conv)
    show "delivers data env chunk_size (pieces_bytes data ps) sent'
        (case ps of
           [p] \<Rightarrow>
             if br_offset p = start
             then (if br_length p \<le> length bs then send_item env (Inr (take (br_length p) bs)) sent'
                   else (Inl Panicked, sent'))
             else (case pieces_of bs start ps of
                     None \<Rightarrow> fail_stream env ''source read was shorter than requested'' sent'
                   | Some joined \<Rightarrow> send_item env (Inr joined) sent')
         | _ \<Rightarrow>
             (case pieces_of bs start ps of
                None \<Rightarrow> fail_stream env ''source read was shorter than requested'' sent'
              | Some joined \<Rightarrow> send_item env (Inr joined) sent'))"
      unfolding bs whole using delivers_send [OF fits] first
      by (auto split: list.split)
  qed
  then show ?thesis by simp
qed

lemma stream_reads_delivers:
  assumes "honest data env" "0 < chunk_size" "length data < u64_limit" "\<forall>r \<in> set rs. good_read data chunk_size r"
  shows "\<exists>m. stream_reads env chunk_size rs sent = Some m
    \<and> delivers data env chunk_size (pieces_bytes data (concat (map read_pieces rs))) sent m"
  using assms(4)
proof (induction rs arbitrary: sent)
  case (Cons r rs)
  note ih = Cons.IH
  show ?case
  proof (cases r)
    case (Split p)
    have p: "br_offset p + br_length p \<le> length data" using Cons.prems Split by (simp add: good_read_def piece_in_def)
    obtain m where m: "split_piece env chunk_size (br_offset p) (br_length p) sent = Some m"
        "delivers data env chunk_size (piece_bytes data p) sent m"
      using split_piece_delivers [OF assms(1-3) p] unfolding piece_bytes_def by blast
    have "\<exists>r. (case m of (Inl e, s) \<Rightarrow> Some (Inl e, s) | (Inr x, s) \<Rightarrow> stream_reads env chunk_size rs s) = Some r
        \<and> delivers data env chunk_size (piece_bytes data p @ pieces_bytes data (concat (map read_pieces rs))) sent r"
      by (rule delivers_then [OF m(2)]) (use ih Cons.prems in auto)
    then show ?thesis using Split m(1) by simp
  next
    case (Span start stop ps)
    have m: "delivers data env chunk_size (pieces_bytes data ps) sent (read_span env start stop ps sent)"
      using read_span_delivers [OF assms(1,3)] Cons.prems Span by simp
    have "\<exists>r. (case read_span env start stop ps sent of
          (Inl e, s) \<Rightarrow> Some (Inl e, s) | (Inr x, s) \<Rightarrow> stream_reads env chunk_size rs s) = Some r
        \<and> delivers data env chunk_size (pieces_bytes data ps @ pieces_bytes data (concat (map read_pieces rs))) sent r"
      by (rule delivers_then [OF m]) (use ih Cons.prems in auto)
    then show ?thesis using Span by simp
  qed
qed simp

section \<open>Gathering pieces into reads\<close>

definition span_open :: "bytes \<Rightarrow> nat \<Rightarrow> (nat \<times> nat \<times> byte_range list) option \<Rightarrow> bool" where
  "span_open data chunk_size current \<longleftrightarrow>
     (case current of None \<Rightarrow> True | Some (start, stop, ps) \<Rightarrow> good_read data chunk_size (Span start stop ps))"

lemma coalesce_from_good:
  assumes "length data < u64_limit" "\<forall>p \<in> set ps. piece_in 0 (length data) p" "span_open data chunk_size current"
    and "spent \<le> GAP_BUDGET_BYTES"
  shows "(\<forall>r \<in> set (coalesce_from chunk_size spent current ps). good_read data chunk_size r)
    \<and> concat (map read_pieces (coalesce_from chunk_size spent current ps)) = open_pieces current @ ps
    \<and> sum_list (map read_length (coalesce_from chunk_size spent current ps)) + spent
        \<le> open_length current + sum_list (map br_length ps) + GAP_BUDGET_BYTES"
  using assms(2-)
proof (induction ps arbitrary: current spent)
  case Nil
  then show ?case
    using assms(1) by (auto simp: close_span_def span_open_def open_pieces_def open_length_def read_pieces_def
        read_length_def good_read_def split: option.split)
next
  case (Cons p ps)
  have p: "piece_in 0 (length data) p" "piece_end p = br_offset p + br_length p"
    using Cons.prems(1) piece_end_eq [OF _ assms(1)] by auto
  let ?stop = "br_offset p + br_length p"
  define joined where "joined = (case current of
              None \<Rightarrow> None
            | Some (start, current_end, members) \<Rightarrow>
                (case checked_sub (br_offset p) current_end of
                   None \<Rightarrow> None
                 | Some gap \<Rightarrow>
                     if gap \<le> MAX_GAP_BYTES \<and> wadd64 spent gap \<le> GAP_BUDGET_BYTES
                        \<and> wsub64 ?stop start \<le> chunk_size
                     then Some (wadd64 spent gap, start, ?stop, members @ [p]) else None))"
  have unfold: "coalesce_from chunk_size spent current (p # ps) =
      (case joined of
           Some (spent, grown) \<Rightarrow> coalesce_from chunk_size spent (Some grown) ps
         | None \<Rightarrow>
             close_span current
             @ (if chunk_size < br_length p
                then Split p # coalesce_from chunk_size spent None ps
                else coalesce_from chunk_size spent (Some (br_offset p, ?stop, [p])) ps))"
    by (simp only: coalesce_from.simps Let_def p(2) joined_def)
  show ?case
  proof (cases joined)
    case None
    have close: "(\<forall>r \<in> set (close_span current). good_read data chunk_size r)
        \<and> concat (map read_pieces (close_span current)) = open_pieces current
        \<and> sum_list (map read_length (close_span current)) = open_length current"
      using Cons.prems(2) assms(1)
      by (auto simp: close_span_def span_open_def open_pieces_def open_length_def read_length_def good_read_def
          split: option.split)
    show ?thesis
    proof (cases "chunk_size < br_length p")
      case True
      have ih: "(\<forall>r \<in> set (coalesce_from chunk_size spent None ps). good_read data chunk_size r)
        \<and> concat (map read_pieces (coalesce_from chunk_size spent None ps)) = open_pieces None @ ps
        \<and> sum_list (map read_length (coalesce_from chunk_size spent None ps)) + spent
            \<le> open_length None + sum_list (map br_length ps) + GAP_BUDGET_BYTES"
        using Cons.IH [of None spent] Cons.prems by (simp add: span_open_def)
      show ?thesis
        unfolding unfold using None True ih close p(1)
        by auto
    next
      case False
      let ?fresh = "Some (br_offset p, ?stop, [p])"
      have ih: "(\<forall>r \<in> set (coalesce_from chunk_size spent ?fresh ps). good_read data chunk_size r)
        \<and> concat (map read_pieces (coalesce_from chunk_size spent ?fresh ps)) = open_pieces ?fresh @ ps
        \<and> sum_list (map read_length (coalesce_from chunk_size spent ?fresh ps)) + spent
            \<le> open_length ?fresh + sum_list (map br_length ps) + GAP_BUDGET_BYTES"
        using Cons.IH [of ?fresh spent] Cons.prems False p(1)
        by (simp add: span_open_def good_read_def piece_in_def)
      show ?thesis
        unfolding unfold using None False ih close
        by auto
    qed
  next
    case (Some grown)
    then obtain start e ms gap where c: "current = Some (start, e, ms)" "e \<le> br_offset p" "gap = br_offset p - e"
        "gap \<le> MAX_GAP_BYTES" "wadd64 spent gap \<le> GAP_BUDGET_BYTES" "wsub64 ?stop start \<le> chunk_size"
        "grown = (wadd64 spent gap, start, ?stop, ms @ [p])"
      by (auto simp: joined_def split: option.splits prod.splits if_splits)
    have g: "start \<le> e" "e \<le> length data" "\<forall>q \<in> set ms. piece_in start e q"
        "sum_list (map br_length ms) \<le> e - start"
      using Cons.prems(2) c(1) by (simp_all add: span_open_def good_read_def)
    have w: "wadd64 spent gap = spent + gap" "wsub64 ?stop start = ?stop - start"
      using Cons.prems(3) c(2,4) g p(1) assms(1)
      by (simp_all add: GAP_BUDGET_BYTES_def MAX_GAP_BYTES_def piece_in_def)
    let ?grown = "Some (start, ?stop, ms @ [p])"
    have ih: "(\<forall>r \<in> set (coalesce_from chunk_size (spent + gap) ?grown ps). good_read data chunk_size r)
        \<and> concat (map read_pieces (coalesce_from chunk_size (spent + gap) ?grown ps)) = open_pieces ?grown @ ps
        \<and> sum_list (map read_length (coalesce_from chunk_size (spent + gap) ?grown ps)) + (spent + gap)
            \<le> open_length ?grown + sum_list (map br_length ps) + GAP_BUDGET_BYTES"
    proof (rule Cons.IH)
      show "span_open data chunk_size ?grown"
        using c(2,6) w(2) g p(1) by (auto simp: span_open_def good_read_def piece_in_def)
    qed (use Cons.prems c(5) w(1) in auto)
    have "?stop - start = (e - start) + gap + br_length p" using c(2,3) g(1) by simp
    then show ?thesis
      unfolding unfold using Some c(1,7) w(1) ih by simp
  qed
qed

lemma coalesce_good:
  assumes "length data < u64_limit" "\<forall>p \<in> set ps. piece_in 0 (length data) p"
  shows "\<forall>r \<in> set (coalesce ps chunk_size). good_read data chunk_size r"
    "concat (map read_pieces (coalesce ps chunk_size)) = ps"
    "sum_list (map read_length (coalesce ps chunk_size)) \<le> sum_list (map br_length ps) + GAP_BUDGET_BYTES"
  using coalesce_from_good [OF assms, of chunk_size None 0]
  by (simp_all add: coalesce_def span_open_def)

text \<open>
  The interleaved plan sends what reading the pieces in turn would: the runs of the response, the
  windows that cover them, and the bytes held back until the first run is done.
\<close>

section \<open>Runs\<close>

definition run_pieces :: "nat \<Rightarrow> (nat \<times> byte_range) list \<Rightarrow> byte_range list" where
  "run_pieces k ms = map snd (filter (\<lambda>(r, p). r = k) ms)"

lemma run_pieces_simps [simp]:
  "run_pieces k [] = []"
  "run_pieces k ((r, p) # ms) = (if r = k then p # run_pieces k ms else run_pieces k ms)"
  "run_pieces k (ms @ ns) = run_pieces k ms @ run_pieces k ns"
  by (simp_all add: run_pieces_def)

lemma run_pieces_none: "\<forall>(r, p) \<in> set ms. r \<noteq> k \<Longrightarrow> run_pieces k ms = []"
  by (auto simp: run_pieces_def filter_empty_conv)

lemma set_run_pieces: "p \<in> set (run_pieces k ms) \<longleftrightarrow> (k, p) \<in> set ms"
  by (force simp: run_pieces_def)

text \<open>Pieces that follow one another without an overlap.\<close>

definition chained :: "byte_range list \<Rightarrow> bool" where
  "chained ps \<longleftrightarrow> sorted_wrt (\<lambda>p q. br_offset p + br_length p \<le> br_offset q) ps"

lemma chained_sorted: "chained ps \<Longrightarrow> sorted (map br_offset ps)"
  unfolding chained_def by (induction ps) auto

lemma chained_sum: "chained ps \<Longrightarrow> \<forall>p \<in> set ps. piece_in a b p \<Longrightarrow> sum_list (map br_length ps) \<le> b - a"
proof (induction ps arbitrary: a)
  case (Cons p ps)
  have "\<forall>q \<in> set ps. piece_in (br_offset p + br_length p) b q"
    using Cons.prems by (auto simp: chained_def piece_in_def)
  then have "sum_list (map br_length ps) \<le> b - (br_offset p + br_length p)"
    using Cons by (simp add: chained_def)
  then show ?case using Cons.prems(2) by (auto simp: piece_in_def)
qed simp

lemma tag_runs_props:
  assumes "tag_runs run previous_end ps = (ts, final_run)" "\<forall>p \<in> set ps. piece_in 0 n p" "n < u64_limit"
  shows "map snd ts = ps \<and> run \<le> final_run
    \<and> (\<forall>(r, p) \<in> set ts. run \<le> r \<and> r \<le> final_run)
    \<and> (\<forall>p \<in> set (run_pieces run ts). previous_end \<le> br_offset p)
    \<and> (\<forall>k. chained (run_pieces k ts))
    \<and> concat (map (\<lambda>k. pieces_bytes data (run_pieces k ts)) [run..<Suc final_run]) = pieces_bytes data ps"
  using assms(1,2)
proof (induction ps arbitrary: run previous_end ts)
  case Nil
  then show ?case by (simp add: chained_def)
next
  case (Cons p ps)
  let ?run = "if br_offset p < previous_end then run + 1 else run"
  obtain us where us: "tag_runs ?run (piece_end p) ps = (us, final_run)" "ts = (?run, p) # us"
    using Cons.prems(1) by (auto simp: Let_def split: prod.splits)
  have e: "piece_end p = br_offset p + br_length p"
    using Cons.prems(2) piece_end_eq [OF _ assms(3), of 0 p] by simp
  have ih: "map snd us = ps" "?run \<le> final_run" "\<forall>(r, p) \<in> set us. ?run \<le> r \<and> r \<le> final_run"
    "\<forall>q \<in> set (run_pieces ?run us). br_offset p + br_length p \<le> br_offset q"
    "\<forall>k. chained (run_pieces k us)"
    "concat (map (\<lambda>k. pieces_bytes data (run_pieces k us)) [?run..<Suc final_run]) = pieces_bytes data ps"
    using Cons.IH [OF us(1)] Cons.prems(2) e by auto
  have bytes: "concat (map (\<lambda>k. pieces_bytes data (run_pieces k ts)) [?run..<Suc final_run]) = pieces_bytes data (p # ps)"
  proof -
    define L where "L = [Suc ?run..<Suc final_run]"
    have split: "[?run..<Suc final_run] = ?run # L" unfolding L_def using ih(2) by (simp only: upt_conv_Cons)
    have tail: "map (\<lambda>k. pieces_bytes data (run_pieces k ts)) L = map (\<lambda>k. pieces_bytes data (run_pieces k us)) L"
      using us(2) by (auto simp: L_def)
    have head: "run_pieces ?run ts = p # run_pieces ?run us" using us(2) by simp
    show ?thesis using ih(6) unfolding split list.map concat.simps tail head by simp
  qed
  have chain: "\<forall>k. chained (run_pieces k ts)"
    using ih(4,5) us(2) by (auto simp: chained_def)
  show ?case
  proof (cases "br_offset p < previous_end")
    case True
    have "run_pieces run ts = []"
      using us(2) ih(3) True by (auto intro!: run_pieces_none)
    moreover have "[run..<Suc final_run] = run # [Suc run..<Suc final_run]" using ih(2) True by (simp add: upt_rec)
    ultimately show ?thesis using us(2) ih(1,2,3) bytes chain True by auto
  next
    case False
    then show ?thesis using us(2) ih(1-4) bytes chain by fastforce
  qed
qed

lemma sort_keeps_runs:
  assumes "\<forall>k. chained (run_pieces k ts)"
  shows "run_pieces k (sort_key (\<lambda>(r, p). br_offset p) ts) = run_pieces k ts"
proof -
  let ?f = "\<lambda>(r :: nat, p). br_offset p"
  have "filter (\<lambda>(r, p). r = k) (sort_key ?f ts) = sort_key ?f (filter (\<lambda>(r, p). r = k) ts)"
    by (rule filter_sort)
  also have "\<dots> = filter (\<lambda>(r, p). r = k) ts"
  proof (rule sort_key_id_if_sorted)
    have "map ?f (filter (\<lambda>(r, p). r = k) ts) = map br_offset (run_pieces k ts)"
      by (auto simp: run_pieces_def)
    then show "sorted (map ?f (filter (\<lambda>(r, p). r = k) ts))"
      using chained_sorted assms by metis
  qed
  finally show ?thesis by (simp add: run_pieces_def)
qed

section \<open>Windows\<close>

definition good_window :: "bytes \<Rightarrow> nat \<Rightarrow> read_window \<Rightarrow> bool" where
  "good_window data chunk_size w \<longleftrightarrow> rw_start w \<le> rw_end w \<and> rw_end w \<le> length data
     \<and> rw_end w - rw_start w \<le> chunk_size \<and> (\<forall>(r, p) \<in> set (rw_members w). piece_in (rw_start w) (rw_end w) p)"

lemma gather_good:
  assumes "length data < u64_limit" "\<forall>(r, p) \<in> set ms. piece_in 0 (length data) p \<and> br_length p \<le> chunk_size"
    and "sorted (map (\<lambda>(r, p). br_offset p) ms)"
    and "\<forall>v. w = Some v \<longrightarrow> good_window data chunk_size v \<and> (\<forall>(r, p) \<in> set ms. rw_start v \<le> br_offset p)"
  shows "(\<forall>v \<in> set (gather chunk_size spent w ms). good_window data chunk_size v)
    \<and> concat (map rw_members (gather chunk_size spent w ms)) = (case w of None \<Rightarrow> [] | Some v \<Rightarrow> rw_members v) @ ms"
  using assms(2-)
proof (induction ms arbitrary: w spent)
  case Nil
  then show ?case by (simp split: option.split)
next
  case (Cons m ms)
  obtain run p where m: "m = (run, p)" by (cases m)
  have p: "piece_in 0 (length data) p" "br_length p \<le> chunk_size" "piece_end p = br_offset p + br_length p"
    using Cons.prems(1) m piece_end_eq [OF _ assms(1)] by auto
  let ?fresh = "\<lparr>rw_start = br_offset p, rw_end = piece_end p, rw_members = [(run, p)]\<rparr>"
  have fresh: "good_window data chunk_size ?fresh" using p by (simp add: good_window_def piece_in_def)
  have later: "\<forall>(r, q) \<in> set ms. br_offset p \<le> br_offset q"
    using Cons.prems(2) m by auto
  have ih_fresh: "(\<forall>v \<in> set (gather chunk_size spent (Some ?fresh) ms). good_window data chunk_size v)
    \<and> concat (map rw_members (gather chunk_size spent (Some ?fresh) ms)) = (run, p) # ms" for spent
    using Cons.IH [of "Some ?fresh" spent] Cons.prems(1,2) fresh later m by auto
  show ?case
  proof (cases w)
    case None
    then show ?thesis using ih_fresh m by (simp add: Let_def)
  next
    case (Some v)
    let ?grown = "v\<lparr>rw_end := max (rw_end v) (piece_end p), rw_members := rw_members v @ [(run, p)]\<rparr>"
    let ?gap = "br_offset p - rw_end v"
    have v: "good_window data chunk_size v" "rw_start v \<le> br_offset p" using Cons.prems(3) Some m by auto
    show ?thesis
    proof (cases "?gap \<le> MAX_GAP_BYTES \<and> wadd64 spent ?gap \<le> GAP_BUDGET_BYTES
        \<and> wsub64 (max (piece_end p) (rw_end v)) (rw_start v) \<le> chunk_size")
      case True
      have "wsub64 (max (piece_end p) (rw_end v)) (rw_start v) = max (piece_end p) (rw_end v) - rw_start v"
        using v p assms(1) by (simp add: good_window_def piece_in_def max_def)
      then have "good_window data chunk_size ?grown"
        using True v p by (auto simp: good_window_def piece_in_def max.commute)
      moreover have "\<forall>(r, q) \<in> set ms. rw_start v \<le> br_offset q" using later v(2) by force
      ultimately have "(\<forall>u \<in> set (gather chunk_size (wadd64 spent ?gap) (Some ?grown) ms). good_window data chunk_size u)
          \<and> concat (map rw_members (gather chunk_size (wadd64 spent ?gap) (Some ?grown) ms)) = rw_members v @ (run, p) # ms"
        using Cons.IH [of "Some ?grown" "wadd64 spent ?gap"] Cons.prems(1,2) m by auto
      then show ?thesis using Some True m by (simp add: Let_def)
    next
      case False
      then have "gather chunk_size spent w (m # ms) = v # gather chunk_size spent (Some ?fresh) ms"
        using Some m by (simp only: gather.simps Let_def option.case if_False)
      then show ?thesis using ih_fresh [of spent] v(1) Some m by simp
    qed
  qed
qed

section \<open>Held bytes\<close>

definition held_of :: "bytes list \<Rightarrow> nat \<Rightarrow> bytes" where
  "held_of held k = (if k - 1 < length held then held ! (k - 1) else [])"

lemma held_of_Nil [simp]: "held_of [] k = []"
  by (simp add: held_of_def)

lemma held_of_hold:
  assumes "1 \<le> run" "1 \<le> k"
  shows "held_of (hold run bs held) k = held_of held k @ (if k = run then bs else [])"
proof -
  let ?held = "held @ replicate (run - length held) []"
  have same: "held_of ?held k = held_of held k" by (auto simp: held_of_def nth_append)
  have len: "run - 1 < length ?held" using assms(1) by simp
  show ?thesis
  proof (cases "k = run")
    case True
    then have "held_of (hold run bs held) k = ?held ! (run - 1) @ bs"
      unfolding held_of_def hold_def Let_def using len by simp
    moreover have "held_of ?held k = ?held ! (run - 1)"
      unfolding held_of_def using len True by simp
    ultimately show ?thesis using same True by simp
  next
    case False
    then have "run - 1 \<noteq> k - 1" using assms by auto
    then show ?thesis unfolding same [symmetric] held_of_def hold_def Let_def using False
      by (simp only: length_list_update nth_list_update_neq) (auto simp: nth_append)
  qed
qed

lemma length_hold: "length (hold run bs held) = max (length held) run"
  by (simp add: hold_def Let_def)

lemma concat_held:
  assumes "length held \<le> n"
  shows "concat (map (held_of held) [1..<Suc n]) = concat held"
proof -
  have "map (held_of held) [1..<Suc n] = held @ replicate (n - length held) []"
  proof (rule nth_equalityI)
    show "length (map (held_of held) [1..<Suc n]) = length (held @ replicate (n - length held) [])"
      using assms by simp
    fix i assume "i < length (map (held_of held) [1..<Suc n])"
    then have "i < n" by (simp del: upt_Suc)
    then have "map (held_of held) [1..<Suc n] ! i = held_of held (i + 1)"
      by (simp del: upt_Suc)
    then show "map (held_of held) [1..<Suc n] ! i = (held @ replicate (n - length held) []) ! i"
      using \<open>i < n\<close> by (auto simp: held_of_def nth_append)
  qed
  then show ?thesis by simp
qed

text \<open>Routing the members of a window.\<close>

lemma route_ok:
  assumes "stop \<le> length data" "length data < u64_limit"
  shows "\<forall>(r, p) \<in> set ms. piece_in start stop p \<and> r \<le> runs \<Longrightarrow> length held \<le> runs \<Longrightarrow>
    \<exists>held'. route (subslice data start stop) start ms (ready, held)
        = Some (ready @ pieces_bytes data (run_pieces 0 ms), held')
      \<and> length held' \<le> runs
      \<and> (\<forall>k. 1 \<le> k \<longrightarrow> held_of held' k = held_of held k @ pieces_bytes data (run_pieces k ms))"
proof (induction ms arbitrary: ready held)
  case (Cons m ms)
  obtain r p where m: "m = (r, p)" by (cases m)
  have p: "piece_in start stop p" "r \<le> runs" using Cons.prems(1) m by auto
  note g = get_piece [OF p(1) assms]
  have ms: "\<forall>(r, p) \<in> set ms. piece_in start stop p \<and> r \<le> runs" using Cons.prems(1) by auto
  show ?case
  proof (cases "r = 0")
    case True
    then show ?thesis
      using Cons.IH [OF ms Cons.prems(2), of "ready @ piece_bytes data p"] m g by (auto simp: Let_def)
  next
    case False
    have "length (hold r (piece_bytes data p) held) \<le> runs" using p(2) Cons.prems(2) by (simp add: length_hold)
    from Cons.IH [OF ms this, of ready] obtain held' where h:
        "route (subslice data start stop) start ms (ready, hold r (piece_bytes data p) held)
          = Some (ready @ pieces_bytes data (run_pieces 0 ms), held')"
        "length held' \<le> runs"
        "\<forall>k. 1 \<le> k \<longrightarrow> held_of held' k = held_of (hold r (piece_bytes data p) held) k @ pieces_bytes data (run_pieces k ms)"
      by blast
    then show ?thesis
      using False m g by (intro exI [of _ held']) (auto simp: Let_def held_of_hold)
  qed
qed simp

section \<open>The whole interleaved stream\<close>

definition all_members :: "read_window list \<Rightarrow> (nat \<times> byte_range) list" where
  "all_members ws = concat (map rw_members ws)"

lemma stream_windows_delivers:
  assumes "honest data env" "length data < u64_limit"
    and "\<forall>w \<in> set ws. good_window data chunk_size w \<and> chained (run_pieces 0 (rw_members w))"
    and "\<forall>(r, p) \<in> set (all_members ws). r \<le> runs" "length held \<le> runs"
  shows "delivers data env chunk_size (pieces_bytes data (run_pieces 0 (all_members ws))) sent
      (stream_windows env ws held sent)
    \<and> (\<forall>held' sent'. stream_windows env ws held sent = (Inr held', sent') \<longrightarrow> length held' \<le> runs
        \<and> (\<forall>k. 1 \<le> k \<longrightarrow> held_of held' k = held_of held k @ pieces_bytes data (run_pieces k (all_members ws))))"
  using assms(3-)
proof (induction ws arbitrary: held sent)
  case Nil
  then show ?case by (simp add: all_members_def)
next
  case (Cons w ws)
  have g: "rw_start w \<le> rw_end w" "rw_end w \<le> length data" "rw_end w - rw_start w \<le> chunk_size"
      "\<forall>(r, p) \<in> set (rw_members w). piece_in (rw_start w) (rw_end w) p" "chained (run_pieces 0 (rw_members w))"
    using Cons.prems(1) by (auto simp: good_window_def)
  have w64: "wsub64 (rw_end w) (rw_start w) = rw_end w - rw_start w" using g assms(2) by simp
  have off: "rw_start w + (rw_end w - rw_start w) = rw_end w" using g(1) by simp
  have am: "all_members (w # ws) = rw_members w @ all_members ws" by (simp add: all_members_def)
  have "\<forall>(r, p) \<in> set (rw_members w). piece_in (rw_start w) (rw_end w) p \<and> r \<le> runs"
    using g(4) Cons.prems(2) am by fastforce
  from route_ok [OF g(2) assms(2) this Cons.prems(3), of "[]"] obtain held' where h:
      "route (subslice data (rw_start w) (rw_end w)) (rw_start w) (rw_members w) ([], held)
        = Some (pieces_bytes data (run_pieces 0 (rw_members w)), held')"
      "length held' \<le> runs"
      "\<forall>k. 1 \<le> k \<longrightarrow> held_of held' k = held_of held k @ pieces_bytes data (run_pieces k (rw_members w))"
    by auto
  let ?ready = "pieces_bytes data (run_pieces 0 (rw_members w))"
  have fits: "length ?ready \<le> chunk_size"
  proof -
    have in_w: "\<forall>p \<in> set (run_pieces 0 (rw_members w)). piece_in (rw_start w) (rw_end w) p"
      using g(4) by (auto simp: set_run_pieces)
    then have "\<forall>p \<in> set (run_pieces 0 (rw_members w)). piece_in 0 (length data) p"
      using g(2) by (auto simp: piece_in_def)
    then show ?thesis
      using chained_sum [OF g(5) in_w] length_pieces_bytes [of _ 0 data] g(3) by simp
  qed
  let ?rest = "\<lambda>sent'. andthen (if ?ready \<noteq> [] then send_item env (Inr ?ready) sent' else (Inr (), sent'))
      (\<lambda>_ sent''. stream_windows env ws held' sent'')"
  have ih: "delivers data env chunk_size (pieces_bytes data (run_pieces 0 (all_members ws))) sent'
      (stream_windows env ws held' sent')
    \<and> (\<forall>held'' sent''. stream_windows env ws held' sent' = (Inr held'', sent'') \<longrightarrow> length held'' \<le> runs
        \<and> (\<forall>k. 1 \<le> k \<longrightarrow> held_of held'' k = held_of held' k @ pieces_bytes data (run_pieces k (all_members ws))))" for sent'
    using Cons.IH [OF _ _ h(2)] Cons.prems am by auto
  have send: "delivers data env chunk_size ?ready sent'
      (if ?ready \<noteq> [] then send_item env (Inr ?ready) sent' else (Inr (), sent'))" for sent'
    using delivers_send [OF fits] by simp
  have rest: "delivers data env chunk_size (?ready @ pieces_bytes data (run_pieces 0 (all_members ws))) sent' (?rest sent')" for sent'
    by (rule delivers_andthen [OF send]) (use ih in blast)
  have unfold: "stream_windows env (w # ws) held sent = andthen (read_source env (rw_start w) (rw_end w - rw_start w) sent)
      (\<lambda>data sent'. case route data (rw_start w) (rw_members w) ([], held) of
         None \<Rightarrow> fail_stream env ''source read was shorter than requested'' sent'
       | Some (ready, held') \<Rightarrow>
           andthen (if ready \<noteq> [] then send_item env (Inr ready) sent' else (Inr (), sent')) (\<lambda>_ sent''.
             stream_windows env ws held' sent''))"
    by (simp only: stream_windows.simps w64)
  have got: "bs = subslice data (rw_start w) (rw_end w) \<and> sent' = sent"
    if "read_source env (rw_start w) (rw_end w - rw_start w) sent = (Inr bs, sent')" for bs sent'
    using delivers_read(2) [OF assms(1) _ that] off g(2) by simp
  have "delivers data env chunk_size ([] @ (?ready @ pieces_bytes data (run_pieces 0 (all_members ws)))) sent
      (stream_windows env (w # ws) held sent)"
    unfolding unfold
  proof (rule delivers_andthen)
    show "delivers data env chunk_size [] sent (read_source env (rw_start w) (rw_end w - rw_start w) sent)"
      using delivers_read(1) [OF assms(1)] off g(2) by simp
  qed (use got h(1) rest in auto)
  moreover have "length held'' \<le> runs
        \<and> (\<forall>k. 1 \<le> k \<longrightarrow> held_of held'' k = held_of held k @ pieces_bytes data (run_pieces k (all_members (w # ws))))"
    if fin: "stream_windows env (w # ws) held sent = (Inr held'', sent'')" for held'' sent''
  proof -
    obtain bs s1 where r: "read_source env (rw_start w) (rw_end w - rw_start w) sent = (Inr bs, s1)"
      using fin unfolding unfold andthen_def by (auto split: prod.splits sum.splits)
    then have "?rest sent = (Inr held'', sent'')"
      using fin got [OF r] h(1) unfolding unfold by (simp add: andthen_def)
    then obtain s2 where "stream_windows env ws held' s2 = (Inr held'', sent'')"
      unfolding andthen_def by (auto split: prod.splits sum.splits)
    then have "length held'' \<le> runs
        \<and> (\<forall>k. 1 \<le> k \<longrightarrow> held_of held'' k = held_of held' k @ pieces_bytes data (run_pieces k (all_members ws)))"
      using ih [of s2] by blast
    then show ?thesis using h(3) am by simp
  qed
  ultimately show ?case using am by simp
qed

end
