(* ===== verification/Stream_Properties.thy ===== *)
theory Stream_Properties
  imports Segment_Stream_Laws "HOL-Library.Multiset"
begin

text \<open>
  The properties of streaming: a response holds exactly the requested bytes whatever plan reads
  them, the plan reads little more than it sends, and a range request is understood.
\<close>

section \<open>The interleaved plan\<close>

lemma chunks_of_props: "concat (chunks_of n xs) = xs" "0 < n \<Longrightarrow> \<forall>c \<in> set (chunks_of n xs). length c \<le> n"
proof (induction n xs rule: chunks_of.induct)
  case (1 n xs)
  { case 1 show ?case using "1.IH"(1) by (cases "xs = []") (subst chunks_of.simps, simp)+ }
  { case 2 show ?case using "1.IH"(2) 2 by (cases "xs = []") (subst chunks_of.simps, simp add: max_def)+ }
qed

lemma send_all_delivers:
  "\<forall>c \<in> set cs. length c \<le> limit \<Longrightarrow> delivers data env limit (concat cs) sent (send_all env cs sent)"
  by (induction cs arbitrary: sent) (auto intro!: delivers_andthen delivers_send)

lemma interleaved_delivers:
  assumes "honest data env" "0 < chunk_size" "length data < u64_limit" "\<forall>p \<in> set pieces. piece_in 0 (length data) p"
    and "interleaved_windows pieces chunk_size = Some ws"
  shows "delivers data env chunk_size (pieces_bytes data pieces) sent (stream_interleaved env chunk_size ws sent)"
proof -
  obtain ts runs where tags: "tag_runs 0 0 pieces = (ts, runs)" by (cases "tag_runs 0 0 pieces")
  note t = tag_runs_props [OF tags assms(4,3), of data]
  let ?ms = "sort_key (\<lambda>(r, p). br_offset p) ts"
  have ws: "ws = gather chunk_size 0 None ?ms" and small: "\<forall>p \<in> set pieces. br_length p \<le> chunk_size"
    using assms(5) tags by (auto simp: interleaved_windows_def Let_def not_less split: if_splits)
  have pieces: "set pieces = snd ` set ts" using t by (metis list.set_map)
  have "\<forall>(r, p) \<in> set ?ms. piece_in 0 (length data) p \<and> br_length p \<le> chunk_size"
    using assms(4) small pieces by auto
  then have g: "\<forall>w \<in> set ws. good_window data chunk_size w" "all_members ws = ?ms"
    using gather_good [OF assms(3), of ?ms chunk_size None 0] unfolding ws all_members_def by auto
  have runs: "run_pieces k ?ms = run_pieces k ts" for k
    using sort_keeps_runs t by blast
  have chain: "chained (run_pieces 0 (rw_members w))" if w: "w \<in> set ws" for w
  proof -
    obtain us vs where "ws = us @ w # vs" using w by (meson split_list)
    then have "run_pieces 0 (all_members ws)
        = run_pieces 0 (all_members us) @ run_pieces 0 (rw_members w) @ run_pieces 0 (all_members vs)"
      by (simp add: all_members_def)
    moreover have "chained (run_pieces 0 (all_members ws))" using t runs g(2) by simp
    ultimately show ?thesis by (simp add: chained_def sorted_wrt_append)
  qed
  have top: "\<forall>(r, p) \<in> set (all_members ws). r \<le> runs" using t g(2) by auto
  have d: "delivers data env chunk_size (pieces_bytes data (run_pieces 0 (all_members ws))) sent
      (stream_windows env ws [] sent)"
    "\<And>held sent'. stream_windows env ws [] sent = (Inr held, sent') \<Longrightarrow> length held \<le> runs
        \<and> (\<forall>k. 1 \<le> k \<longrightarrow> held_of held k = pieces_bytes data (run_pieces k (all_members ws)))"
    using stream_windows_delivers [OF assms(1,3) _ top, of chunk_size "[]" sent] g(1) chain by auto
  have "pieces_bytes data pieces = concat (map (\<lambda>k. pieces_bytes data (run_pieces k ts)) (0 # [1..<Suc runs]))"
    using t by (simp only: upt_conv_Cons [of 0 "Suc runs"] zero_less_Suc One_nat_def)
  then have parts: "pieces_bytes data pieces = pieces_bytes data (run_pieces 0 (all_members ws))
      @ concat (map (\<lambda>k. pieces_bytes data (run_pieces k ts)) [1..<Suc runs])"
    using g(2) runs by simp
  show ?thesis
    unfolding stream_interleaved_def parts
  proof (rule delivers_andthen [OF d(1)])
    fix held sent' assume fin: "stream_windows env ws [] sent = (Inr held, sent')"
    have "map (held_of held) [1..<Suc runs] = map (\<lambda>k. pieces_bytes data (run_pieces k ts)) [1..<Suc runs]"
      using d(2) [OF fin] g(2) runs by (intro map_cong) auto
    then have "concat (map (\<lambda>k. pieces_bytes data (run_pieces k ts)) [1..<Suc runs]) = concat held"
      using concat_held d(2) [OF fin] by metis
    moreover have "concat (concat (map (chunks_of chunk_size) held)) = concat held"
      by (induction held) (simp_all add: chunks_of_props(1))
    moreover have "\<forall>c \<in> set (concat (map (chunks_of chunk_size) held)). length c \<le> chunk_size"
      using chunks_of_props(2) [OF assms(2)] by auto
    ultimately show "delivers data env chunk_size
        (concat (map (\<lambda>k. pieces_bytes data (run_pieces k ts)) [1..<Suc runs])) sent'
        (send_all env (concat (map (chunks_of chunk_size) held)) sent')"
      using send_all_delivers by metis
  qed
qed

section \<open>The requested pieces\<close>

lemma subslice_append_cut:
  "subslice (xs @ ys) a b = subslice xs a (min b (length xs)) @ subslice ys (a - length xs) (b - length xs)"
  by (cases "a \<le> length xs") (auto simp: subslice_def min_def)

lemma requested_pieces_ok:
  assumes "length data < u64_limit" "\<forall>r \<in> set rs. piece_in 0 (length data) r"
    and "length data + v + sum_list (map br_length rs) < u64_limit"
  shows "(\<forall>p \<in> set (requested_pieces i v rs). piece_in 0 (length data) p)
    \<and> pieces_bytes data (requested_pieces i v rs) = subslice (pieces_bytes data rs) (bi_start i - v) (bi_end i - v)"
  using assms(2,3)
proof (induction rs arbitrary: v)
  case Nil
  then show ?case by (simp add: subslice_def)
next
  case (Cons r rs)
  have r: "br_offset r + br_length r \<le> length data" using Cons.prems(1) by (simp add: piece_in_def)
  have e: "wadd64 v (br_length r) = v + br_length r" using Cons.prems(2) by simp
  have ih: "\<forall>p \<in> set (requested_pieces i (v + br_length r) rs). piece_in 0 (length data) p"
    "pieces_bytes data (requested_pieces i (v + br_length r) rs)
      = subslice (pieces_bytes data rs) (bi_start i - (v + br_length r)) (bi_end i - (v + br_length r))"
    using Cons.IH [of "v + br_length r"] Cons.prems by auto
  let ?a = "max (bi_start i) v" and ?b = "min (bi_end i) (v + br_length r)"
  have len: "length (piece_bytes data r) = br_length r" using r by (simp add: piece_bytes_def)
  have cut: "subslice (pieces_bytes data (r # rs)) (bi_start i - v) (bi_end i - v)
      = subslice (piece_bytes data r) (bi_start i - v) (min (bi_end i - v) (br_length r))
        @ subslice (pieces_bytes data rs) (bi_start i - (v + br_length r)) (bi_end i - (v + br_length r))"
    using len by (simp add: subslice_append_cut)
  have unfold: "requested_pieces i v (r # rs) =
      (case overlap i v (v + br_length r) of None \<Rightarrow> []
       | Some w \<Rightarrow> [byte_range_new (wsub64 (wadd64 (br_offset r) (bi_start w)) v) (bi_end w - bi_start w)])
      @ requested_pieces i (v + br_length r) rs"
    by (simp only: requested_pieces.simps Let_def e)
  show ?case
  proof (cases "?a < ?b")
    case True
    have o': "overlap i v (v + br_length r) = Some \<lparr>bi_start = ?a, bi_end = ?b\<rparr>"
      using True by (simp add: overlap_def Let_def)
    have "br_offset r + ?a < u64_limit" using r Cons.prems(2) True by auto
    then have off: "wsub64 (wadd64 (br_offset r) ?a) v = br_offset r + (?a - v)" by simp
    let ?p = "byte_range_new (br_offset r + (?a - v)) (?b - ?a)"
    have p: "piece_in 0 (length data) ?p" using True r by (auto simp: piece_in_def byte_range_new_def)
    have "piece_bytes data ?p = subslice (piece_bytes data r) (bi_start i - v) (min (bi_end i - v) (br_length r))"
    proof -
      have e1: "?a - v = bi_start i - v"
        and e2: "br_offset r + (?a - v) + (?b - ?a) = br_offset r + min (bi_end i - v) (br_length r)"
        using True by (auto simp: max_def min_def split: if_splits)
      have "piece_bytes data ?p = subslice data (br_offset r + (?a - v)) (br_offset r + (?a - v) + (?b - ?a))"
        by (simp add: piece_bytes_def byte_range_new_def)
      then show ?thesis unfolding e2 unfolding e1 using r by (simp add: piece_bytes_def subslice_subslice)
    qed
    then show ?thesis unfolding unfold o' using ih p off cut by simp
  next
    case False
    then have "overlap i v (v + br_length r) = None" by (simp add: overlap_def Let_def)
    moreover have "subslice (piece_bytes data r) (bi_start i - v) (min (bi_end i - v) (br_length r)) = []"
      using False by (auto simp: subslice_def min_def max_def split: if_splits)
    ultimately show ?thesis unfolding unfold using ih cut by simp
  qed
qed

lemma stream_segment_delivers:
  assumes "honest data env" "0 < chunk_size" "\<forall>r \<in> set (ps_ranges p). piece_in 0 (length data) r"
    and "length data + length (ps_header p) + sum_list (map br_length (ps_ranges p)) < u64_limit"
  shows "\<exists>m. stream_segment env p i chunk_size = Some m
    \<and> delivers data env chunk_size
        (subslice (ps_header p @ pieces_bytes data (ps_ranges p)) (bi_start i) (bi_end i)) [] m"
proof -
  let ?h = "length (ps_header p)"
  let ?pieces = "requested_pieces i ?h (ps_ranges p)"
  have lim: "length data < u64_limit" using assms(4) by simp
  note r = requested_pieces_ok [OF lim assms(3,4), of i]
  have cut: "subslice (ps_header p @ pieces_bytes data (ps_ranges p)) (bi_start i) (bi_end i)
      = subslice (ps_header p) (bi_start i) (min (bi_end i) ?h) @ pieces_bytes data ?pieces"
    using r by (simp add: subslice_append_cut)
  have header: "delivers data env chunk_size (subslice (ps_header p) (bi_start i) (min (bi_end i) ?h)) []
      (case overlap i 0 ?h of None \<Rightarrow> (Inr (), [])
       | Some v \<Rightarrow> send_header env (ps_header p) chunk_size (bi_start v) (bi_end v) [])"
    using delivers_header [OF assms(2), of "bi_start i" "min (bi_end i) ?h"]
    by (auto simp: overlap_def Let_def subslice_def)
  have rest: "\<exists>m. (case interleaved_windows ?pieces chunk_size of
             Some windows \<Rightarrow> Some (stream_interleaved env chunk_size windows sent)
           | None \<Rightarrow> stream_reads env chunk_size (coalesce ?pieces chunk_size) sent) = Some m
      \<and> delivers data env chunk_size (pieces_bytes data ?pieces) sent m" for sent
  proof (cases "interleaved_windows ?pieces chunk_size")
    case None
    have "\<forall>q \<in> set ?pieces. piece_in 0 (length data) q" using r by blast
    then show ?thesis
      using None stream_reads_delivers [OF assms(1,2) lim, of "coalesce ?pieces chunk_size" sent]
        coalesce_good [OF lim, of ?pieces chunk_size] by simp
  next
    case (Some ws)
    then show ?thesis using interleaved_delivers [OF assms(1,2) lim _ Some] r by simp
  qed
  show ?thesis
    unfolding cut stream_segment_def Let_def by (rule delivers_then [OF header rest])
qed

section \<open>How much is read\<close>

definition planned_reads :: "byte_range list \<Rightarrow> nat \<Rightarrow> nat list" where
  "planned_reads pieces chunk_size =
     (case interleaved_windows pieces chunk_size of
        Some ws \<Rightarrow> map (\<lambda>w. rw_end w - rw_start w) ws
      | None \<Rightarrow> map read_length (coalesce pieces chunk_size))"

lemma window_growth: "(a :: nat) \<le> b \<Longrightarrow> max b (x + l) - a \<le> (b - a) + (x - b) + l"
  by arith

lemma gather_length:
  assumes "spent \<le> GAP_BUDGET_BYTES" "\<forall>(r, p) \<in> set ms. piece_end p = br_offset p + br_length p"
    "\<forall>v. w = Some v \<longrightarrow> rw_start v \<le> rw_end v"
  shows "sum_list (map (\<lambda>w. rw_end w - rw_start w) (gather chunk_size spent w ms)) + spent
    \<le> (case w of None \<Rightarrow> 0 | Some v \<Rightarrow> rw_end v - rw_start v)
      + sum_list (map (\<lambda>(r, p). br_length p) ms) + GAP_BUDGET_BYTES"
  using assms
proof (induction ms arbitrary: w spent)
  case Nil
  then show ?case by (cases w) (auto intro: diff_le_mono)
next
  case (Cons m ms)
  obtain run p where m: "m = (run, p)" by (cases m)
  have e: "piece_end p = br_offset p + br_length p" using Cons.prems(2) m by simp
  let ?fresh = "\<lparr>rw_start = br_offset p, rw_end = piece_end p, rw_members = [(run, p)]\<rparr>"
  have ih_fresh: "sum_list (map (\<lambda>w. rw_end w - rw_start w) (gather chunk_size spent (Some ?fresh) ms)) + spent
      \<le> br_length p + sum_list (map (\<lambda>(r, p). br_length p) ms) + GAP_BUDGET_BYTES"
    if "spent \<le> GAP_BUDGET_BYTES" for spent
    using Cons.IH [of spent "Some ?fresh"] that Cons.prems(2) e by simp
  show ?case
  proof (cases w)
    case None
    then show ?thesis using ih_fresh [OF Cons.prems(1)] m by (simp add: Let_def)
  next
    case (Some v)
    let ?grown = "v\<lparr>rw_end := max (rw_end v) (piece_end p), rw_members := rw_members v @ [(run, p)]\<rparr>"
    let ?gap = "br_offset p - rw_end v"
    have v: "rw_start v \<le> rw_end v" using Cons.prems(3) Some by simp
    show ?thesis
    proof (cases "?gap \<le> MAX_GAP_BYTES \<and> wadd64 spent ?gap \<le> GAP_BUDGET_BYTES
        \<and> wsub64 (max (piece_end p) (rw_end v)) (rw_start v) \<le> chunk_size")
      case True
      have gap: "wadd64 spent ?gap = spent + ?gap"
        using True Cons.prems(1) by (simp add: GAP_BUDGET_BYTES_def MAX_GAP_BYTES_def)
      have "sum_list (map (\<lambda>w. rw_end w - rw_start w) (gather chunk_size (spent + ?gap) (Some ?grown) ms)) + (spent + ?gap)
          \<le> (rw_end ?grown - rw_start ?grown) + sum_list (map (\<lambda>(r, p). br_length p) ms) + GAP_BUDGET_BYTES"
        using Cons.IH [of "spent + ?gap" "Some ?grown"] True gap Cons.prems(2) v by simp
      moreover have "rw_end ?grown - rw_start ?grown \<le> (rw_end v - rw_start v) + ?gap + br_length p"
        using window_growth [OF v] e by simp
      moreover have "gather chunk_size spent w (m # ms) = gather chunk_size (spent + ?gap) (Some ?grown) ms"
        using Some True m gap by (simp add: Let_def)
      ultimately show ?thesis using Some m by simp
    next
      case False
      then have "gather chunk_size spent w (m # ms) = v # gather chunk_size spent (Some ?fresh) ms"
        using Some m by (simp only: gather.simps Let_def option.case if_False)
      then show ?thesis using ih_fresh [OF Cons.prems(1)] Some m by simp
    qed
  qed
qed

lemma planned_reads_bound:
  fixes data :: bytes
  assumes "length data < u64_limit" "\<forall>p \<in> set pieces. piece_in 0 (length data) p"
  shows "sum_list (planned_reads pieces chunk_size) \<le> sum_list (map br_length pieces) + GAP_BUDGET_BYTES"
proof (cases "interleaved_windows pieces chunk_size")
  case None
  then show ?thesis using coalesce_good(3) [OF assms] by (simp add: planned_reads_def)
next
  case (Some ws)
  obtain ts runs where tags: "tag_runs 0 0 pieces = (ts, runs)" by (cases "tag_runs 0 0 pieces")
  have t: "map snd ts = pieces" using tag_runs_props [OF tags assms(2,1)] by blast
  let ?ms = "sort_key (\<lambda>(r, p). br_offset p) ts"
  have ws: "ws = gather chunk_size 0 None ?ms"
    using Some tags by (auto simp: interleaved_windows_def Let_def split: if_splits)
  have "\<forall>(r, p) \<in> set ?ms. piece_end p = br_offset p + br_length p"
    using assms t piece_end_eq by (fastforce simp: t [symmetric])
  then have "sum_list (map (\<lambda>w. rw_end w - rw_start w) ws) \<le> sum_list (map (\<lambda>(r, p). br_length p) ?ms) + GAP_BUDGET_BYTES"
    using gather_length [of 0 ?ms None chunk_size] ws by simp
  moreover have "sum_list (map (\<lambda>(r, p). br_length p) ?ms) = sum_list (map br_length pieces)"
  proof -
    have "mset (map (\<lambda>(r, p). br_length p) ?ms) = mset (map (\<lambda>(r, p). br_length p) ts)" by simp
    moreover have "map (\<lambda>(r, p). br_length p) ts = map br_length pieces" unfolding t [symmetric] by auto
    ultimately show ?thesis by (metis sum_mset_sum_list)
  qed
  ultimately show ?thesis using Some by (simp add: planned_reads_def)
qed

section \<open>Properties\<close>

text \<open>
  C16 A response holds exactly the requested bytes of the segment, its header and then its ranges of
  the source, in chunks of the configured size, whether the pieces are read one by one, coalesced
  or interleaved; the task always ends, and if a read or a send fails what was sent is a beginning
  of those bytes and at most one error.
\<close>

theorem stream_sends_the_interval:
  assumes "honest data env" "0 < chunk_size"
    and "\<forall>r \<in> set (ps_ranges p). br_offset r + br_length r \<le> length data"
    and "length data + length (ps_header p) + sum_list (map br_length (ps_ranges p)) < u64_limit"
    and "wanted = subslice (ps_header p @ pieces_bytes data (ps_ranges p)) (bi_start i) (bi_end i)"
  shows "\<exists>outcome sent chunks. stream_segment env p i chunk_size = Some (outcome, sent)
    \<and> (\<forall>c \<in> set chunks. length c \<le> chunk_size)
    \<and> (case outcome of
         Inr _ \<Rightarrow> sent = map Inr chunks \<and> concat chunks = wanted
       | Inl (Aborted _) \<Rightarrow> prefix (concat chunks) wanted
           \<and> (sent = map Inr chunks \<or> (\<exists>msg. sent = map Inr chunks @ [Inl msg]))
       | Inl Panicked \<Rightarrow> False)
    \<and> (steady data env \<longrightarrow> outcome = Inr ())"
proof -
  have "\<forall>r \<in> set (ps_ranges p). piece_in 0 (length data) r" using assms(3) by (simp add: piece_in_def)
  then obtain m where m: "stream_segment env p i chunk_size = Some m" "delivers data env chunk_size wanted [] m"
    using stream_segment_delivers [OF assms(1,2) _ assms(4)] unfolding assms(5) by blast
  then obtain chunks where c: "\<forall>c \<in> set chunks. length c \<le> chunk_size"
    "case fst m of
            Inr _ \<Rightarrow> snd m = [] @ map Inr chunks \<and> concat chunks = wanted
          | Inl (Aborted _) \<Rightarrow>
              (\<exists>ends. snd m = [] @ map Inr chunks @ ends \<and> (ends = [] \<or> (\<exists>msg. ends = [Inl msg])))
              \<and> prefix (concat chunks) wanted
          | Inl Panicked \<Rightarrow> False"
    "steady data env \<longrightarrow> (\<exists>x. fst m = Inr x)"
    unfolding delivers_def by blast
  show ?thesis
  proof (intro exI conjI)
    show "stream_segment env p i chunk_size = Some (fst m, snd m)" using m(1) by simp
    show "\<forall>c \<in> set chunks. length c \<le> chunk_size" by (rule c(1))
    show "case fst m of
         Inr _ \<Rightarrow> snd m = map Inr chunks \<and> concat chunks = wanted
       | Inl (Aborted _) \<Rightarrow> prefix (concat chunks) wanted
           \<and> (snd m = map Inr chunks \<or> (\<exists>msg. snd m = map Inr chunks @ [Inl msg]))
       | Inl Panicked \<Rightarrow> False"
      using c(2) by (auto split: sum.splits stream_stop.splits)
    show "steady data env \<longrightarrow> fst m = Inr ()" using c(3) by auto
  qed
qed

text \<open>
  C17 Whatever plan is chosen, the source reads of a response add up to at most the bytes it sends of
  the source and 256 KiB of gaps.
\<close>

theorem gaps_within_budget:
  fixes data :: bytes
  assumes "\<forall>r \<in> set (ps_ranges p). br_offset r + br_length r \<le> length data"
    and "length data + length (ps_header p) + sum_list (map br_length (ps_ranges p)) < u64_limit"
    and "pieces = requested_pieces i (length (ps_header p)) (ps_ranges p)"
  shows "sum_list (planned_reads pieces chunk_size) \<le> sum_list (map br_length pieces) + 256 * 1024"
proof -
  have lim: "length data < u64_limit" using assms(2) by simp
  have "\<forall>r \<in> set (ps_ranges p). piece_in 0 (length data) r" using assms(1) by (simp add: piece_in_def)
  then have "\<forall>q \<in> set pieces. piece_in 0 (length data) q"
    using requested_pieces_ok [OF lim _ assms(2)] unfolding assms(3) by blast
  then show ?thesis
    using planned_reads_bound [OF lim] by (simp add: GAP_BUDGET_BYTES_def)
qed

section \<open>Range requests\<close>

definition range_of_text :: "string \<Rightarrow> range_headers" where
  "range_of_text txt = \<lparr>rh_range = Some (Some (''bytes='' @ txt)), rh_if_range = None\<rparr>"

lemma split_once_digits:
  "CHR ''-'' \<notin> set a \<Longrightarrow> split_once (CHR ''-'') (a @ CHR ''-'' # b) = Some (a, b)"
  by (induction a) auto

lemma decimal_plain: "CHR ''-'' \<notin> set (decimal n)" "CHR '','' \<notin> set (decimal n)"
proof -
  have "\<not> is_digit (CHR ''-'')" "\<not> is_digit (CHR '','')" by (simp_all add: is_digit_def)
  then show "CHR ''-'' \<notin> set (decimal n)" "CHR '','' \<notin> set (decimal n)"
    using decimal_digits [of n] by (auto simp: list_all_iff)
qed

lemma requested_range_text:
  assumes "CHR ''-'' \<notin> set a" "CHR '','' \<notin> set a" "CHR '','' \<notin> set b"
  shows "requested_range (range_of_text (a @ ''-'' @ b)) n etag =
    and_then
      (if a = [] then
         (case parse_unsigned u64_limit b of None \<Rightarrow> Inl ()
          | Some k \<Rightarrow> if k = 0 \<or> n = 0 then Inl () else Inr (n - k, n))
       else
         (case parse_unsigned u64_limit a of None \<Rightarrow> Inl ()
          | Some start \<Rightarrow>
              if b = [] then Inr (start, n)
              else
                (case parse_unsigned u64_limit b of None \<Rightarrow> Inl ()
                 | Some l \<Rightarrow> (case checked_add l 1 of None \<Rightarrow> Inl () | Some stop \<Rightarrow> Inr (start, min stop n)))))
      (\<lambda>(start, stop). if stop \<le> start \<or> n \<le> start then Inl () else Inr (Some \<lparr>bi_start = start, bi_end = stop\<rparr>))"
  using assms split_once_digits [OF assms(1), of b]
  by (simp add: requested_range_def range_of_text_def strip_prefix_def)

text \<open>
  C18 A range request is understood: its three forms, spelled in decimal, select exactly the bytes
  they name that exist, and one that names none is refused; whatever the headers, what is selected
  is a non-empty part of the resource, and it is the whole resource when \<open>If-Range\<close> names another
  version.
\<close>

theorem range_request_understood:
  shows "(\<forall>first last. first \<le> last \<and> last + 1 < u64_limit \<longrightarrow>
        requested_range (range_of_text (decimal first @ ''-'' @ decimal last)) n etag =
          (if first < n then Inr (Some \<lparr>bi_start = first, bi_end = min (last + 1) n\<rparr>) else Inl ()))
    \<and> (\<forall>first. first < u64_limit \<longrightarrow>
        requested_range (range_of_text (decimal first @ ''-'')) n etag =
          (if first < n then Inr (Some \<lparr>bi_start = first, bi_end = n\<rparr>) else Inl ()))
    \<and> (\<forall>count. count < u64_limit \<longrightarrow>
        requested_range (range_of_text (''-'' @ decimal count)) n etag =
          (if 0 < count \<and> 0 < n then Inr (Some \<lparr>bi_start = n - count, bi_end = n\<rparr>) else Inl ()))
    \<and> (\<forall>h i. requested_range h n etag = Inr (Some i) \<longrightarrow> bi_start i < bi_end i \<and> bi_end i \<le> n)
    \<and> (\<forall>h condition. rh_if_range h = Some condition \<and> condition \<noteq> etag \<longrightarrow> requested_range h n etag = Inr None)"
proof (intro conjI allI impI)
  show "requested_range (range_of_text (decimal first @ ''-'' @ decimal last)) n etag =
          (if first < n then Inr (Some \<lparr>bi_start = first, bi_end = min (last + 1) n\<rparr>) else Inl ())"
    if "first \<le> last \<and> last + 1 < u64_limit" for first last
  proof -
    have "last < u64_limit" "first < u64_limit" using that by auto
    then show ?thesis
      using that requested_range_text [OF decimal_plain decimal_plain(2), of first last n etag]
      by (auto simp: checked_add_def)
  qed
  show "requested_range (range_of_text (decimal first @ ''-'')) n etag =
          (if first < n then Inr (Some \<lparr>bi_start = first, bi_end = n\<rparr>) else Inl ())"
    if "first < u64_limit" for first
    using that requested_range_text [OF decimal_plain, of "[]" first n etag] by auto
  show "requested_range (range_of_text (''-'' @ decimal count)) n etag =
          (if 0 < count \<and> 0 < n then Inr (Some \<lparr>bi_start = n - count, bi_end = n\<rparr>) else Inl ())"
    if "count < u64_limit" for count
    using that requested_range_text [of "[]", OF _ _ decimal_plain(2), of count n etag] by auto
  show "bi_start i < bi_end i" "bi_end i \<le> n" if "requested_range h n etag = Inr (Some i)" for h i
    using that by (auto simp: requested_range_def and_then_eq_Inr split: option.splits if_splits prod.splits)
  show "requested_range h n etag = Inr None"
    if "rh_if_range h = Some condition \<and> condition \<noteq> etag" for h condition
    using that by (simp add: requested_range_def split: option.split)
qed

section \<open>A stream to try them on\<close>

definition example_source :: bytes where
  "example_source = map of_nat [0..<20]"

definition example_env :: stream_env where
  "example_env = \<lparr>en_read = (\<lambda>sent off n. Read_Bytes (subslice example_source off (off + n))),
     en_send = (\<lambda>sent item. None)\<rparr>"

definition example_prepared :: "unit prepared_segment" where
  "example_prepared = \<lparr>ps_header = [100, 101, 102, 103],
     ps_ranges = [byte_range_new 2 2, byte_range_new 8 2, byte_range_new 4 3, byte_range_new 10 5],
     ps_content_length = 16, ps_encryption = None\<rparr>"

lemma example_env_honest: "honest example_source example_env"
  by (simp add: honest_def example_env_def)

theorem stream_sends_the_interval_witness:
  "\<exists>outcome sent chunks. stream_segment example_env example_prepared \<lparr>bi_start = 1, bi_end = 15\<rparr> 6 = Some (outcome, sent)
    \<and> (\<forall>c \<in> set chunks. length c \<le> 6)
    \<and> (case outcome of
         Inr _ \<Rightarrow> sent = map Inr chunks
           \<and> concat chunks = subslice (ps_header example_prepared @ pieces_bytes example_source (ps_ranges example_prepared)) 1 15
       | Inl (Aborted _) \<Rightarrow>
           prefix (concat chunks)
             (subslice (ps_header example_prepared @ pieces_bytes example_source (ps_ranges example_prepared)) 1 15)
           \<and> (sent = map Inr chunks \<or> (\<exists>msg. sent = map Inr chunks @ [Inl msg]))
       | Inl Panicked \<Rightarrow> False)
    \<and> (steady example_source example_env \<longrightarrow> outcome = Inr ())"
proof -
  have ranges: "\<forall>r \<in> set (ps_ranges example_prepared). br_offset r + br_length r \<le> length example_source"
    and small: "length example_source + length (ps_header example_prepared)
       + sum_list (map br_length (ps_ranges example_prepared)) < u64_limit"
    by code_simp+
  show ?thesis
    using stream_sends_the_interval [OF example_env_honest _ ranges small, of 6 _ "\<lparr>bi_start = 1, bi_end = 15\<rparr>"]
    by (simp only: byte_interval.select_convs)
qed

theorem gaps_within_budget_witness:
  "sum_list (planned_reads (requested_pieces \<lparr>bi_start = 1, bi_end = 15\<rparr> (length (ps_header example_prepared))
       (ps_ranges example_prepared)) 6)
     \<le> sum_list (map br_length (requested_pieces \<lparr>bi_start = 1, bi_end = 15\<rparr>
          (length (ps_header example_prepared)) (ps_ranges example_prepared))) + 256 * 1024"
proof (rule gaps_within_budget [OF _ _ refl])
  show "\<forall>r \<in> set (ps_ranges example_prepared). br_offset r + br_length r \<le> length example_source"
    "length example_source + length (ps_header example_prepared)
       + sum_list (map br_length (ps_ranges example_prepared)) < u64_limit"
    by code_simp+
qed

theorem range_request_understood_witness:
  "requested_range (range_of_text ''2-30'') 10 ''v'' = Inr (Some \<lparr>bi_start = 2, bi_end = 10\<rparr>)
    \<and> requested_range (range_of_text ''-4'') 10 ''v'' = Inr (Some \<lparr>bi_start = 6, bi_end = 10\<rparr>)"
proof -
  have texts: "decimal 2 @ ''-'' @ decimal 30 = ''2-30''" "''-'' @ decimal 4 = ''-4''" by code_simp+
  have "requested_range (range_of_text (decimal 2 @ ''-'' @ decimal 30)) 10 ''v'' = Inr (Some \<lparr>bi_start = 2, bi_end = 10\<rparr>)
    \<and> requested_range (range_of_text (''-'' @ decimal 4)) 10 ''v'' = Inr (Some \<lparr>bi_start = 6, bi_end = 10\<rparr>)"
    using range_request_understood [of 10 "''v''"] by auto
  then show ?thesis unfolding texts .
qed

end
