(* ===== verification/Text_Lines.thy ===== *)
theory Text_Lines
  imports Text_Numbers
begin

text \<open>
  Operations of \<open>str\<close> on text, which is the list of its bytes in UTF-8: lines, white space, searching,
  splitting and replacing.  Positions are byte offsets, as they are in the source.
\<close>

section \<open>Lines\<close>

definition quoted :: "string \<Rightarrow> string" where
  "quoted s = CHR 0x22 # s @ [CHR 0x22]"

definition line_of :: "string \<Rightarrow> string" where
  "line_of s = s @ [CHR 0x0A]"

text \<open>\<open>str::lines\<close> of a text without carriage returns.\<close>

fun split_lines :: "string \<Rightarrow> string list" where
  "split_lines [] = []"
| "split_lines (c # s) =
     (if c = CHR 0x0A then [] # split_lines s
      else (case split_lines s of [] \<Rightarrow> [[c]] | l # ls \<Rightarrow> (c # l) # ls))"

text \<open>\<open>str::replace\<close> of one character.\<close>

definition replace_char :: "char \<Rightarrow> string \<Rightarrow> string \<Rightarrow> string" where
  "replace_char c by' s = concat (map (\<lambda>x. if x = c then by' else [x]) s)"

fun joined_by :: "string \<Rightarrow> string list \<Rightarrow> string" where
  "joined_by sep [] = []"
| "joined_by sep [x] = x"
| "joined_by sep (x # xs) = x @ sep @ joined_by sep xs"

section \<open>White space\<close>

text \<open>Every character of Unicode's \<open>White_Space\<close>, in UTF-8.\<close>

definition space_codes :: "nat list list" where
  "space_codes = map (\<lambda>x. [x]) ([9..<14] @ [32]) @ [[0xC2, 0x85], [0xC2, 0xA0], [0xE1, 0x9A, 0x80]]
     @ map (\<lambda>x. [0xE2, 0x80, x]) ([0x80..<0x8B] @ [0xA8, 0xA9, 0xAF]) @ [[0xE2, 0x81, 0x9F], [0xE3, 0x80, 0x80]]"

definition space_texts :: "string list" where
  "space_texts = map (map char_of) space_codes"

definition leading :: "string list \<Rightarrow> string \<Rightarrow> string option" where
  "leading ps s = find (\<lambda>p. take (length p) s = p) ps"

fun strip_leading :: "string list \<Rightarrow> string \<Rightarrow> string" where
  "strip_leading ps [] = []"
| "strip_leading ps (c # s) =
     (case leading ps (c # s) of None \<Rightarrow> c # s | Some p \<Rightarrow> strip_leading ps (drop (length p - 1) s))"

definition trim_start :: "string \<Rightarrow> string" where
  "trim_start s = strip_leading space_texts s"

definition trim_end :: "string \<Rightarrow> string" where
  "trim_end s = rev (strip_leading (map rev space_texts) (rev s))"

definition trim_text :: "string \<Rightarrow> string" where
  "trim_text s = trim_end (trim_start s)"

text \<open>The text up to the first white space, and \<open>str::split_whitespace\<close>.\<close>

fun first_word :: "string \<Rightarrow> string" where
  "first_word [] = []"
| "first_word (c # s) = (if leading space_texts (c # s) = None then c # first_word s else [])"

lemma length_strip_leading: "length (strip_leading ps s) \<le> length s"
proof (induction ps s rule: strip_leading.induct)
  case (2 ps c s)
  show ?case
  proof (cases "leading ps (c # s)")
    case (Some p)
    then have "length (strip_leading ps (c # s)) \<le> length (drop (length p - 1) s)" using 2 [OF Some] by simp
    then show ?thesis by simp
  qed simp
qed simp

lemma trim_start_shorter: "length (trim_start s) \<le> length s"
  by (simp add: trim_start_def length_strip_leading)

function words_of :: "string \<Rightarrow> string list" where
  "words_of s =
     (let t = trim_start s; w = first_word t
      in if w = [] then [] else w # words_of (drop (length w) t))"
  by pat_completeness auto
termination
proof (relation "measure length")
  fix s t w assume t: "t = trim_start s" and w: "w = first_word t" "w \<noteq> []"
  have "first_word t \<noteq> [] \<Longrightarrow> t \<noteq> []" by auto
  then have "length (drop (length w) t) < length t" using w by simp
  then show "(drop (length w) t, s) \<in> measure length" using trim_start_shorter [of s] t by simp
qed simp

declare words_of.simps [simp del]

section \<open>Searching and splitting\<close>

text \<open>\<open>str::split_once\<close> at a character satisfying a condition, and at a text.\<close>

fun split_at :: "(char \<Rightarrow> bool) \<Rightarrow> string \<Rightarrow> (string \<times> string) option" where
  "split_at P [] = None"
| "split_at P (c # s) = (if P c then Some ([], s) else map_option (\<lambda>(a, b). (c # a, b)) (split_at P s))"

fun split_text :: "string \<Rightarrow> string \<Rightarrow> (string \<times> string) option" where
  "split_text sep [] = (if sep = [] then Some ([], []) else None)"
| "split_text sep (c # s) =
     (if take (length sep) (c # s) = sep then Some ([], drop (length sep) (c # s))
      else map_option (\<lambda>(a, b). (c # a, b)) (split_text sep s))"

definition contains :: "string \<Rightarrow> string \<Rightarrow> bool" where
  "contains sub s \<longleftrightarrow> split_text sub s \<noteq> None"

definition find_char :: "char \<Rightarrow> string \<Rightarrow> nat option" where
  "find_char c s = (if c \<in> set s then Some (length (takeWhile (\<lambda>x. x \<noteq> c) s)) else None)"

text \<open>\<open>str::split\<close> at a character: one part more than there are separators.\<close>

fun split_parts :: "char \<Rightarrow> string \<Rightarrow> string list" where
  "split_parts c [] = [[]]"
| "split_parts c (x # s) =
     (if x = c then [] # split_parts c s
      else (case split_parts c s of [] \<Rightarrow> [[x]] | p # ps \<Rightarrow> (x # p) # ps))"

definition lower_char :: "char \<Rightarrow> char" where
  "lower_char c = (let n = of_char c :: nat in if 65 \<le> n \<and> n \<le> 90 then char_of (n + 32) else c)"

text \<open>A field of digits only, of a length within the bounds, as a \<open>u64\<close>.\<close>

definition digits_field :: "nat \<Rightarrow> nat \<Rightarrow> string \<Rightarrow> nat option" where
  "digits_field low high s =
     (if list_all is_digit s \<and> low \<le> length s \<and> length s \<le> high then parse_unsigned u64_limit s else None)"

section \<open>UTF-8\<close>

definition continuation :: "nat \<Rightarrow> bool" where
  "continuation n \<longleftrightarrow> 0x80 \<le> n \<and> n < 0xC0"

text \<open>\<open>str::from_utf8\<close> accepts it.\<close>

fun utf8_valid :: "nat list \<Rightarrow> bool" where
  "utf8_valid [] \<longleftrightarrow> True"
| "utf8_valid (a # s) \<longleftrightarrow>
     (if a < 0x80 then utf8_valid s
      else if a < 0xC2 then False
      else if a < 0xE0 then (case s of b # s' \<Rightarrow> continuation b \<and> utf8_valid s' | _ \<Rightarrow> False)
      else if a < 0xF0 then
        (case s of
           b # c # s' \<Rightarrow> continuation b \<and> (a = 0xE0 \<longrightarrow> 0xA0 \<le> b) \<and> (a = 0xED \<longrightarrow> b < 0xA0)
             \<and> continuation c \<and> utf8_valid s'
         | _ \<Rightarrow> False)
      else if a < 0xF5 then
        (case s of
           b # c # d # s' \<Rightarrow> continuation b \<and> (a = 0xF0 \<longrightarrow> 0x90 \<le> b) \<and> (a = 0xF4 \<longrightarrow> b < 0x90)
             \<and> continuation c \<and> continuation d \<and> utf8_valid s'
         | _ \<Rightarrow> False)
      else False)"

end
