(* ===== verification/Presentation.thy ===== *)
theory Presentation
  imports Segment_Protection Text_Lines
begin

text \<open>
  What the renderers of playlists and manifests work from (\<^verbatim>\<open>src/src/protocol/presentation.rs\<close>), and
  how keys are signalled (\<^verbatim>\<open>src/src/cenc/signal.rs\<close>).  Base64 is a parameter.  Text is a list of
  characters; a double quote in what is written is put there by \<open>quoted\<close>.
\<close>

section \<open>Whole seconds\<close>

text \<open>\<open>div_ceil\<close> of a number of ticks by a timescale, which panics for no ticks a second.\<close>

definition whole_seconds :: "nat \<Rightarrow> nat \<Rightarrow> nat res" where
  "whole_seconds ticks timescale = (if timescale = 0 then panic else ok (div_ceil ticks timescale))"

section \<open>The view of one file\<close>

record subtitle =
  su_language :: string
  su_label :: string
  su_default :: bool
  su_forced :: bool
  su_data :: bytes

record presentation =
  pn_tracks :: "track list"
  pn_plan :: segment_plan
  pn_version :: string
  pn_subtitles :: "subtitle list"
  pn_encryption :: "encryption option"
  pn_aes128 :: "aes128 option"
  pn_muxed :: bool
  pn_iframes :: bool

definition presentation_new :: "track list \<Rightarrow> segment_plan \<Rightarrow> string \<Rightarrow> presentation" where
  "presentation_new tracks segs version =
     \<lparr>pn_tracks = tracks, pn_plan = segs, pn_version = version, pn_subtitles = [], pn_encryption = None,
      pn_aes128 = None, pn_muxed = False, pn_iframes = True\<rparr>"

definition rotating :: "presentation \<Rightarrow> bool" where
  "rotating p = (case pn_encryption p of None \<Rightarrow> False | Some e \<Rightarrow> is_rotating e)"

definition key_schedule :: "presentation \<Rightarrow> scheduled_period list res" where
  "key_schedule p =
     (case pn_encryption p of
        None \<Rightarrow> ok []
      | Some e \<Rightarrow>
          if is_rotating e then
            (case schedule e (pn_tracks p) (pn_plan p) of
               Inr periods \<Rightarrow> ok periods | Inl Panic \<Rightarrow> panic | Inl (Fail _) \<Rightarrow> ok [])
          else ok [])"

definition longest :: "nat list \<Rightarrow> nat \<Rightarrow> nat" where
  "longest xs none = (if xs = [] then none else Max (set xs))"

definition duration_seconds :: "presentation \<Rightarrow> nat res" where
  "duration_seconds p =
     and_then (collect_res (map (\<lambda>t. whole_seconds (tr_duration t) (tr_timescale t)) (pn_tracks p))) (\<lambda>secs.
       ok (longest secs 0))"

definition presented_track :: "presentation \<Rightarrow> track_key \<Rightarrow> track res" where
  "presented_track p key = ok_or (find (\<lambda>t. tr_key t = key) (pn_tracks p)) (NotFound ''track does not exist'')"

definition video_of :: "presentation \<Rightarrow> track option" where
  "video_of p = find (\<lambda>t. tr_kind t = Video) (pn_tracks p)"

definition audio_tracks :: "presentation \<Rightarrow> track list" where
  "audio_tracks p = filter (\<lambda>t. tr_kind t = Audio) (pn_tracks p)"

definition track_segments :: "segment_plan \<Rightarrow> nat \<Rightarrow> track_segment list" where
  "track_segments segs id' =
     List.map_filter (\<lambda>s. find (\<lambda>part. sg_track_id part = id') (se_tracks s)) segs"

record bandwidth =
  bw_average :: nat
  bw_peak :: nat

definition bits_per_second :: "nat \<Rightarrow> nat \<Rightarrow> nat \<Rightarrow> nat option" where
  "bits_per_second n ticks timescale =
     Option.bind (checked_mul n 8) (\<lambda>bits.
     Option.bind (checked_mul bits timescale) (\<lambda>scaled. checked_div scaled ticks))"

definition bandwidth_step :: "track \<Rightarrow> nat \<Rightarrow> track_segment \<Rightarrow> nat res" where
  "bandwidth_step t peak part =
     (if sg_end_sample part < sg_first_sample part \<or> index_len (tr_samples t) < sg_end_sample part
      then fail (InvalidMedia ''segment sample range is invalid'')
      else
        and_then (payload_bytes (tr_samples t) (sg_first_sample part) (sg_end_sample part)) (\<lambda>n.
          ok (case bits_per_second n (sg_duration part) (tr_timescale t) of
                None \<Rightarrow> peak | Some rate \<Rightarrow> max peak rate)))"

definition bandwidth_of :: "presentation \<Rightarrow> track \<Rightarrow> bandwidth res" where
  "bandwidth_of p t =
     and_then (payload_bytes (tr_samples t) 0 (index_len (tr_samples t))) (\<lambda>n.
     and_then (ok_or (bits_per_second n (tr_duration t) (tr_timescale t))
                (InvalidMedia ''bandwidth calculation overflow'')) (\<lambda>average.
     and_then (try_fold (bandwidth_step t) average (track_segments (pn_plan p) (tr_id t))) (\<lambda>peak.
       ok \<lparr>bw_average = average, bw_peak = peak\<rparr>)))"

record sequence_clip =
  sq_presentation :: presentation
  sq_first_segment :: nat
  sq_start_nanos :: nat

section \<open>Signalling of keys\<close>

definition hls_attributes :: "(bytes \<Rightarrow> string) \<Rightarrow> drm_system \<Rightarrow> bytes option \<Rightarrow> string option" where
  "hls_attributes base64 system key_id =
     (if ds_system_id system = FAIRPLAY then
        map_option (\<lambda>uri. ''URI='' @ quoted uri @ '',KEYFORMAT='' @ quoted ''com.apple.streamingkeydelivery''
            @ '',KEYFORMATVERSIONS='' @ quoted ''1'') (ds_hls_uri system)
      else if ds_system_id system = WIDEVINE then
        map_option (\<lambda>pssh. ''URI='' @ quoted (''data:text/plain;base64,'' @ base64 pssh)
            @ (case key_id of None \<Rightarrow> [] | Some id' \<Rightarrow> '',KEYID=0x'' @ hex_string id')
            @ '',KEYFORMAT='' @ quoted ''urn:uuid:edef8ba9-79d6-4ace-a3c8-27dcd51d21ed''
            @ '',KEYFORMATVERSIONS='' @ quoted ''1'') (ds_pssh system)
      else if ds_system_id system = PLAYREADY then
        map_option (\<lambda>object. ''URI='' @ quoted (''data:text/plain;charset=UTF-16;base64,'' @ base64 object)
            @ '',KEYFORMAT='' @ quoted ''com.microsoft.playready'' @ '',KEYFORMATVERSIONS='' @ quoted ''1'')
          (Option.bind (ds_pssh system) pssh_data)
      else if ds_system_id system = CLEARKEY then
        map_option (\<lambda>target. ''URI='' @ quoted target @ '',KEYFORMAT='' @ quoted ''org.w3.clearkey''
            @ '',KEYFORMATVERSIONS='' @ quoted ''1'') (ds_license_url system)
      else None)"

definition key_line :: "string \<Rightarrow> string \<Rightarrow> string" where
  "key_line tag attributes = line_of (''#'' @ tag @ '':METHOD=SAMPLE-AES,'' @ attributes)"

definition hls_key_lines :: "(bytes \<Rightarrow> string) \<Rightarrow> encryption \<Rightarrow> content_key \<Rightarrow> string \<Rightarrow> string" where
  "hls_key_lines base64 e key tag =
     concat (map (key_line tag)
       (List.map_filter (\<lambda>s. hls_attributes base64 s (Some (ck_key_id key))) (en_systems e)))"

definition hls_key_none :: "string \<Rightarrow> string" where
  "hls_key_none tag = line_of (''#'' @ tag @ '':METHOD=NONE'')"

text \<open>One turn of the loops over the keys and systems; the state is the lines and what they name.\<close>

definition session_step ::
    "(bytes \<Rightarrow> string) \<Rightarrow> content_key \<Rightarrow> string \<times> string list \<Rightarrow> drm_system \<Rightarrow> string \<times> string list" where
  "session_step base64 key = (\<lambda>(written, seen) system.
     case hls_attributes base64 system None of
       None \<Rightarrow> (written, seen)
     | Some identity \<Rightarrow>
         if identity \<in> set seen then (written, seen)
         else
           (case hls_attributes base64 system (Some (ck_key_id key)) of
              None \<Rightarrow> (written, seen @ [identity])
            | Some attributes \<Rightarrow> (written @ key_line ''EXT-X-SESSION-KEY'' attributes, seen @ [identity])))"

definition session_uses :: "encryption list \<Rightarrow> (content_key \<times> drm_system) list" where
  "session_uses es =
     concat (map (\<lambda>e. concat (map (\<lambda>k. map (Pair k) (en_systems e)) (distinct_keys e)))
       (concat (map encrypted_periods es)))"

definition hls_session_keys_for_sequence :: "(bytes \<Rightarrow> string) \<Rightarrow> encryption list \<Rightarrow> string" where
  "hls_session_keys_for_sequence base64 es =
     fst (foldl (\<lambda>st (k, system). session_step base64 k st system) ([], []) (session_uses es))"

definition hls_session_keys :: "(bytes \<Rightarrow> string) \<Rightarrow> encryption \<Rightarrow> string" where
  "hls_session_keys base64 e = hls_session_keys_for_sequence base64 [e]"

text \<open>The \<open>ContentProtection\<close> elements of an adaptation set.\<close>

definition protection_element :: "(bytes \<Rightarrow> string) \<Rightarrow> drm_system \<Rightarrow> string" where
  "protection_element base64 s =
     line_of (''      <ContentProtection schemeIdUri='' @ quoted (''urn:uuid:'' @ uuid_string (ds_system_id s)) @ ''>'')
     @ (case ds_pssh s of None \<Rightarrow> []
        | Some pssh \<Rightarrow> line_of (''        <cenc:pssh>'' @ base64 pssh @ ''</cenc:pssh>''))
     @ (case ds_license_url s of None \<Rightarrow> []
        | Some target \<Rightarrow> line_of (''        <dashif:Laurl>''
            @ replace_char (CHR ''<'') ''&lt;'' (replace_char (CHR ''&'') ''&amp;'' target) @ ''</dashif:Laurl>''))
     @ line_of ''      </ContentProtection>''"

definition dash_content_protection :: "(bytes \<Rightarrow> string) \<Rightarrow> encryption \<Rightarrow> content_key \<Rightarrow> string" where
  "dash_content_protection base64 e key =
     line_of (''      <ContentProtection schemeIdUri='' @ quoted ''urn:mpeg:dash:mp4protection:2011''
       @ '' value='' @ quoted ''cbcs'' @ '' cenc:default_KID='' @ quoted (uuid_string (ck_key_id key)) @ '' />'')
     @ concat (map (protection_element base64) (en_systems e))"

end
