(* ===== verification/Hls_Playlists.thy ===== *)
theory Hls_Playlists
  imports Presentation
begin

text \<open>
  The HLS playlists (\<^verbatim>\<open>src/src/protocol/hls.rs\<close>): the master playlist, the playlists of a track, of
  its keyframes and of a subtitle file, for one file, for a sequence of clips and for an adaptive
  asset.  A playlist is the text that is sent.
\<close>

section \<open>Common lines\<close>

definition track_language :: "track \<Rightarrow> string option" where
  "track_language t =
     (let l = tr_language t
      in if length l = 3 \<and> list_all (\<lambda>c. of_char (CHR ''a'') \<le> (of_char c :: nat) \<and> of_char c \<le> (of_char (CHR ''z'') :: nat)) l
            \<and> l \<noteq> ''und'' then Some l else None)"

definition attribute :: "string \<Rightarrow> string \<Rightarrow> string" where
  "attribute name content = '','' @ name @ ''='' @ quoted content"

definition language_attribute :: "track \<Rightarrow> string" where
  "language_attribute t = (case track_language t of None \<Rightarrow> [] | Some l \<Rightarrow> attribute ''LANGUAGE'' l)"

definition resolution_attribute :: "(nat \<times> nat) option \<Rightarrow> string" where
  "resolution_attribute r =
     (case r of None \<Rightarrow> [] | Some (w, h) \<Rightarrow> '',RESOLUTION='' @ decimal w @ ''x'' @ decimal h)"

definition flag :: "bool \<Rightarrow> string" where
  "flag b = (if b then ''YES'' else ''NO'')"

definition positional_name :: "nat \<Rightarrow> track \<Rightarrow> string" where
  "positional_name index t =
     ''Audio '' @ decimal (index + 1)
     @ (case track_language t of None \<Rightarrow> [] | Some l \<Rightarrow> '' ('' @ l @ '')'')"

definition unquoted :: "string \<Rightarrow> string" where
  "unquoted = replace_char (CHR 0x22) [CHR 0x27]"

definition subtitle_rendition :: "string \<Rightarrow> subtitle \<Rightarrow> string" where
  "subtitle_rendition version s =
     line_of (''#EXT-X-MEDIA:TYPE=SUBTITLES'' @ attribute ''GROUP-ID'' ''subs''
       @ attribute ''NAME'' (unquoted (su_label s)) @ attribute ''LANGUAGE'' (su_language s)
       @ '',DEFAULT='' @ flag (su_default s) @ '',AUTOSELECT='' @ flag (su_default s \<or> su_forced s)
       @ '',FORCED='' @ flag (su_forced s)
       @ attribute ''URI'' (''subtitles/'' @ su_language s @ ''/index.m3u8?v='' @ version))"

definition audio_rendition :: "string \<Rightarrow> nat \<Rightarrow> track \<Rightarrow> bool \<Rightarrow> string" where
  "audio_rendition version index t own_uri =
     line_of (''#EXT-X-MEDIA:TYPE=AUDIO'' @ attribute ''GROUP-ID'' ''audio''
       @ attribute ''NAME'' (positional_name index t) @ language_attribute t
       @ '',DEFAULT='' @ flag (index = 0) @ '',AUTOSELECT=YES''
       @ (if own_uri then attribute ''URI'' (display_key (tr_key t) @ ''/index.m3u8?v='' @ version) else []))"

definition adaptive_audio_media :: "string \<Rightarrow> nat \<Rightarrow> track_key \<Rightarrow> track \<Rightarrow> bool \<Rightarrow> string" where
  "adaptive_audio_media version index key t is_default =
     line_of (''#EXT-X-MEDIA:TYPE=AUDIO'' @ attribute ''GROUP-ID'' ''audio''
       @ attribute ''NAME'' (case tr_label t of None \<Rightarrow> positional_name index t | Some l \<Rightarrow> unquoted l)
       @ language_attribute t @ '',DEFAULT='' @ flag is_default @ '',AUTOSELECT=YES''
       @ attribute ''URI'' (display_key key @ ''/index.m3u8?v='' @ version))"

definition stream_line :: "nat \<Rightarrow> nat \<Rightarrow> string \<Rightarrow> (nat \<times> nat) option \<Rightarrow> bool \<Rightarrow> bool \<Rightarrow> string" where
  "stream_line peak average codec_list dims with_audio with_subtitles =
     line_of (''#EXT-X-STREAM-INF:BANDWIDTH='' @ decimal peak @ '',AVERAGE-BANDWIDTH='' @ decimal average
       @ attribute ''CODECS'' codec_list @ resolution_attribute dims
       @ (if with_audio then attribute ''AUDIO'' ''audio'' else [])
       @ (if with_subtitles then attribute ''SUBTITLES'' ''subs'' else []))"

definition master_header :: string where
  "master_header = line_of ''#EXTM3U'' @ line_of ''#EXT-X-VERSION:7''"

definition media_header :: "nat \<Rightarrow> string" where
  "media_header target =
     line_of ''#EXTM3U'' @ line_of ''#EXT-X-VERSION:7''
     @ line_of (''#EXT-X-TARGETDURATION:'' @ decimal target)
     @ line_of ''#EXT-X-MEDIA-SEQUENCE:0'' @ line_of ''#EXT-X-PLAYLIST-TYPE:VOD''"

fun joined :: "string list \<Rightarrow> string" where
  "joined [] = []"
| "joined [x] = x"
| "joined (x # xs) = x @ '','' @ joined xs"

section \<open>The playlist of a track\<close>

definition target_duration :: "presentation \<Rightarrow> track \<Rightarrow> nat res" where
  "target_duration p t =
     and_then (collect_res (map (\<lambda>part. whole_seconds (sg_duration part) (tr_timescale t))
       (track_segments (pn_plan p) (tr_id t)))) (\<lambda>secs.
       ok (longest secs 1))"

definition key_transition_lines ::
    "(bytes \<Rightarrow> string) \<Rightarrow> encryption option \<Rightarrow> encryption option \<Rightarrow> track_kind \<Rightarrow> string \<Rightarrow> string" where
  "key_transition_lines base64 previous current kind tag =
     (case current of
        Some e \<Rightarrow> hls_key_lines base64 e (key_for e kind) tag
      | None \<Rightarrow> (if previous \<noteq> None then hls_key_none tag else []))"

definition key_lines :: "(bytes \<Rightarrow> string) \<Rightarrow> presentation \<Rightarrow> track \<Rightarrow> string res" where
  "key_lines base64 p t =
     and_then (key_schedule p) (\<lambda>periods.
       ok (key_transition_lines base64 None
         (case get_at periods 0 of None \<Rightarrow> pn_encryption p | Some first \<Rightarrow> sc_encryption first)
         (tr_kind t) ''EXT-X-KEY''))"

definition aes128_key_line :: "presentation \<Rightarrow> string" where
  "aes128_key_line p =
     (case pn_aes128 p of None \<Rightarrow> []
      | Some a \<Rightarrow> line_of (''#EXT-X-KEY:METHOD=AES-128,URI='' @ quoted (ak_uri a)))"

text \<open>A number of three digits, with leading zeros.\<close>

definition three_digits :: "nat \<Rightarrow> string" where
  "three_digits n = [digit_char (n div 100), digit_char (n div 10 mod 10), digit_char (n mod 10)]"

definition duration_line :: "nat \<Rightarrow> string" where
  "duration_line ms =
     line_of (''#EXTINF:'' @ decimal (ms div 1000) @ ''.'' @ three_digits (ms mod 1000) @ '','')"

definition milliseconds_of :: "nat \<Rightarrow> nat \<Rightarrow> string \<Rightarrow> nat res" where
  "milliseconds_of ticks timescale message =
     ok_or (Option.bind (checked_mul ticks 1000) (\<lambda>scaled. checked_div scaled timescale))
       (InvalidMedia message)"

definition period_lines :: "(bytes \<Rightarrow> string) \<Rightarrow> track_kind \<Rightarrow> scheduled_period \<Rightarrow> string" where
  "period_lines base64 kind period =
     (case sc_encryption period of
        Some e \<Rightarrow> hls_key_lines base64 e (key_for e kind) ''EXT-X-KEY''
      | None \<Rightarrow> hls_key_none ''EXT-X-KEY'')"

text \<open>One entry; the state is what is written and the periods to come.\<close>

definition entry_step ::
    "(bytes \<Rightarrow> string) \<Rightarrow> track \<Rightarrow> nat \<Rightarrow> string \<Rightarrow> string \<times> scheduled_period list \<Rightarrow> nat \<times> track_segment
     \<Rightarrow> (string \<times> scheduled_period list) res" where
  "entry_step base64 t first_number version = (\<lambda>(written, periods) (offset, part).
     and_then (milliseconds_of (sg_duration part) (tr_timescale t) ''segment duration overflow'') (\<lambda>ms.
     and_then (ok_or (checked_add offset first_number) (InvalidMedia ''segment number overflow'')) (\<lambda>number.
       (let (keys, later) =
              (case periods of
                 period # rest \<Rightarrow>
                   (if sc_first_segment period \<le> number
                    then (period_lines base64 (tr_kind t) period, rest) else ([], periods))
               | [] \<Rightarrow> ([], periods))
        in ok (written @ keys @ duration_line ms
             @ line_of (''segments/'' @ decimal number @ ''/media.m4s?v='' @ version), later)))))"

definition segment_entries :: "(bytes \<Rightarrow> string) \<Rightarrow> presentation \<Rightarrow> track \<Rightarrow> nat \<Rightarrow> string \<Rightarrow> string res" where
  "segment_entries base64 p t first_number version =
     and_then (key_schedule p) (\<lambda>periods.
     and_then (try_fold (entry_step base64 t first_number version) ([], drop 1 periods)
       (enumerate 0 (track_segments (pn_plan p) (tr_id t)))) (\<lambda>(written, later). ok written))"

definition media_playlist :: "(bytes \<Rightarrow> string) \<Rightarrow> presentation \<Rightarrow> track_key \<Rightarrow> string res" where
  "media_playlist base64 p key =
     and_then (presented_track p key) (\<lambda>t.
     and_then (target_duration p t) (\<lambda>target.
     and_then (key_lines base64 p t) (\<lambda>keys.
     and_then (segment_entries base64 p t 0 (pn_version p)) (\<lambda>entries.
       ok (media_header target @ line_of ''#EXT-X-INDEPENDENT-SEGMENTS'' @ keys
         @ line_of (''#EXT-X-MAP:URI='' @ quoted (''init.mp4?v='' @ pn_version p))
         @ aes128_key_line p @ entries @ line_of ''#EXT-X-ENDLIST'')))))"

section \<open>Keyframes\<close>

record keyframe =
  kf_interval :: nat
  kf_bytes :: nat

definition keyframe_at :: "sample_index \<Rightarrow> nat list \<Rightarrow> nat \<Rightarrow> nat \<times> nat \<Rightarrow> keyframe res" where
  "keyframe_at samples sync ending = (\<lambda>(position, index).
     and_then (case get_at sync (position + 1) of
                 None \<Rightarrow> ok ending | Some later \<Rightarrow> index_decode_time samples later) (\<lambda>later.
     and_then (index_decode_time samples index) (\<lambda>start.
     and_then (ok_or (checked_sub later start) (InvalidMedia ''keyframe interval overflow'')) (\<lambda>interval.
     and_then (index_size samples index) (\<lambda>n.
       ok \<lparr>kf_interval = interval, kf_bytes = n\<rparr>)))))"

definition keyframes :: "track \<Rightarrow> keyframe list res" where
  "keyframes t =
     and_then (sync_indices (tr_samples t)) (\<lambda>sync.
     and_then (index_last (tr_samples t)) (\<lambda>x.
     and_then (ok_or x (InvalidMedia ''keyframe interval overflow'')) (\<lambda>final.
     and_then (ok_or (checked_add (sm_decode_time final) (sm_duration final))
                (InvalidMedia ''keyframe interval overflow'')) (\<lambda>ending.
       collect_res (map (keyframe_at (tr_samples t) sync ending) (enumerate 0 sync))))))"

definition peak_bandwidth :: "keyframe list \<Rightarrow> nat \<Rightarrow> nat option" where
  "peak_bandwidth frames timescale =
     (let rates = List.map_filter (\<lambda>f. bits_per_second (kf_bytes f) (kf_interval f) timescale) frames
      in if rates = [] then None else Some (Max (set rates)))"

definition average_bandwidth :: "keyframe list \<Rightarrow> nat \<Rightarrow> nat option" where
  "average_bandwidth frames timescale =
     bits_per_second (foldl wadd64 0 (map kf_bytes frames)) (foldl wadd64 0 (map kf_interval frames)) timescale"

definition without_iframes :: "presentation \<Rightarrow> bool" where
  "without_iframes p \<longleftrightarrow> pn_aes128 p \<noteq> None \<or> rotating p \<or> \<not> pn_iframes p"

definition iframe_stream :: "presentation \<Rightarrow> track option \<Rightarrow> string option res" where
  "iframe_stream p video =
     (case video of
        None \<Rightarrow> ok None
      | Some t \<Rightarrow>
          if without_iframes p then ok None
          else
            and_then (keyframes t) (\<lambda>frames.
            (case (peak_bandwidth frames (tr_timescale t), average_bandwidth frames (tr_timescale t)) of
               (Some peak, Some average) \<Rightarrow>
                 ok (Some (line_of (''#EXT-X-I-FRAME-STREAM-INF:BANDWIDTH='' @ decimal peak
                   @ '',AVERAGE-BANDWIDTH='' @ decimal average @ attribute ''CODECS'' (codecs (tr_codec t))
                   @ resolution_attribute (dimensions (tr_codec t))
                   @ attribute ''URI'' (''video/iframes.m3u8?v='' @ pn_version p))))
             | _ \<Rightarrow> ok None)))"

definition iframe_entry :: "track \<Rightarrow> string \<Rightarrow> nat \<times> keyframe \<Rightarrow> string res" where
  "iframe_entry t version = (\<lambda>(index, frame).
     and_then (milliseconds_of (kf_interval frame) (tr_timescale t) ''keyframe interval overflow'') (\<lambda>ms.
       ok (duration_line ms @ line_of (''iframes/'' @ decimal index @ ''/media.m4s?v='' @ version))))"

definition iframe_playlist :: "(bytes \<Rightarrow> string) \<Rightarrow> presentation \<Rightarrow> string option res" where
  "iframe_playlist base64 p =
     (case video_of p of
        None \<Rightarrow> ok None
      | Some t \<Rightarrow>
          if without_iframes p then ok None
          else
            and_then (keyframes t) (\<lambda>frames.
            and_then (collect_res (map (\<lambda>f. whole_seconds (kf_interval f) (tr_timescale t)) frames)) (\<lambda>secs.
            and_then (key_lines base64 p t) (\<lambda>keys.
            and_then (collect_res (map (iframe_entry t (pn_version p)) (enumerate 0 frames))) (\<lambda>entries.
              ok (Some (media_header (longest secs 1) @ line_of ''#EXT-X-I-FRAMES-ONLY'' @ keys
                @ line_of (''#EXT-X-MAP:URI='' @ quoted (''init.mp4?v='' @ pn_version p))
                @ concat entries @ line_of ''#EXT-X-ENDLIST'')))))))"

definition subtitle_playlist :: "presentation \<Rightarrow> string res" where
  "subtitle_playlist p =
     and_then (duration_seconds p) (\<lambda>secs.
     let seconds = max secs 1 in
       ok (media_header seconds @ line_of (''#EXTINF:'' @ decimal seconds @ ''.000,'')
         @ line_of (''sub.vtt?v='' @ pn_version p) @ line_of ''#EXT-X-ENDLIST''))"

section \<open>Master playlists\<close>

definition opt_list :: "'a option \<Rightarrow> 'a list" where
  "opt_list x = (case x of None \<Rightarrow> [] | Some v \<Rightarrow> [v])"

definition or_text :: "string option \<Rightarrow> string" where
  "or_text x = (case x of None \<Rightarrow> [] | Some v \<Rightarrow> v)"

text \<open>The bandwidth of a video and an audio track together.\<close>

definition add_bandwidth :: "presentation \<Rightarrow> nat \<times> nat \<Rightarrow> track \<Rightarrow> (nat \<times> nat) res" where
  "add_bandwidth p = (\<lambda>(peak, average) t.
     and_then (bandwidth_of p t) (\<lambda>b.
     and_then (ok_or (checked_add peak (bw_peak b)) (InvalidMedia ''bandwidth overflow'')) (\<lambda>peak'.
     and_then (ok_or (checked_add average (bw_average b)) (InvalidMedia ''bandwidth overflow'')) (\<lambda>average'.
       ok (peak', average')))))"

definition session_lines :: "(bytes \<Rightarrow> string) \<Rightarrow> encryption option \<Rightarrow> string" where
  "session_lines base64 e = (case e of None \<Rightarrow> [] | Some e' \<Rightarrow> hls_session_keys base64 e')"

definition MUXED :: string where "MUXED = ''muxed''"

definition master_playlist :: "(bytes \<Rightarrow> string) \<Rightarrow> presentation \<Rightarrow> string res" where
  "master_playlist base64 p =
     (let video = video_of p; tracks = audio_tracks p; audio = get_at tracks 0; version = pn_version p;
          described = opt_list video @ opt_list audio;
          muxed = (pn_muxed p \<and> video \<noteq> None \<and> audio \<noteq> None);
          audio_group = (if muxed then 1 < length tracks else audio \<noteq> None \<and> (video \<noteq> None \<or> 1 < length tracks))
      in if described = [] then fail (InvalidMedia ''asset contains no tracks'')
         else
           and_then (try_fold (add_bandwidth p) (0, 0) described) (\<lambda>(peak, average).
           and_then (iframe_stream p video) (\<lambda>iframes.
             ok (master_header @ session_lines base64 (pn_encryption p)
               @ (if audio_group
                  then concat (map (\<lambda>(index, t). audio_rendition version index t (\<not> (muxed \<and> index = 0))) (enumerate 0 tracks))
                  else [])
               @ concat (map (subtitle_rendition version) (pn_subtitles p))
               @ or_text iframes
               @ stream_line peak average (joined (map (\<lambda>t. codecs (tr_codec t)) described))
                   (Option.bind video (\<lambda>t. dimensions (tr_codec t))) audio_group (pn_subtitles p \<noteq> [])
               @ line_of ((if muxed then MUXED
                           else display_key (case described of t # _ \<Rightarrow> tr_key t | [] \<Rightarrow> VIDEO_KEY))
                   @ ''/index.m3u8?v='' @ version)))))"

section \<open>Sequences of clips\<close>

definition sequence_target :: "track_key \<Rightarrow> nat \<Rightarrow> sequence_clip \<Rightarrow> nat res" where
  "sequence_target key target c =
     and_then (presented_track (sq_presentation c) key) (\<lambda>t.
     and_then (target_duration (sq_presentation c) t) (\<lambda>own. ok (max target own)))"

text \<open>One clip of a track's playlist; the state is what is written and the encryption in force.\<close>

definition sequence_clip_step ::
    "(bytes \<Rightarrow> string) \<Rightarrow> track_key \<Rightarrow> string \<Rightarrow> string \<times> encryption option \<Rightarrow> nat \<times> sequence_clip
     \<Rightarrow> (string \<times> encryption option) res" where
  "sequence_clip_step base64 key version = (\<lambda>(written, previous) (position, c).
     and_then (presented_track (sq_presentation c) key) (\<lambda>t.
     and_then (segment_entries base64 (sq_presentation c) t (sq_first_segment c) version) (\<lambda>entries.
       (let current = pn_encryption (sq_presentation c)
        in ok (written
           @ (if 0 < position then line_of ''#EXT-X-DISCONTINUITY'' else [])
           @ (if current \<noteq> previous
              then key_transition_lines base64 previous current (tr_kind t) ''EXT-X-KEY'' else [])
           @ (if 0 < position \<and> pn_aes128 (sq_presentation c) \<noteq> None then line_of ''#EXT-X-KEY:METHOD=NONE'' else [])
           @ line_of (''#EXT-X-MAP:URI='' @ quoted (''clips/'' @ decimal position @ ''/init.mp4?v='' @ version))
           @ aes128_key_line (sq_presentation c) @ entries, current)))))"

definition sequence_media_playlist ::
    "(bytes \<Rightarrow> string) \<Rightarrow> sequence_clip list \<Rightarrow> track_key \<Rightarrow> string \<Rightarrow> string res" where
  "sequence_media_playlist base64 clips key version =
     and_then (try_fold (sequence_target key) 1 clips) (\<lambda>target.
     and_then (try_fold (sequence_clip_step base64 key version) ([], None) (enumerate 0 clips)) (\<lambda>(written, previous).
       ok (media_header target @ line_of ''#EXT-X-INDEPENDENT-SEGMENTS'' @ written @ line_of ''#EXT-X-ENDLIST'')))"

record sequence_variant =
  vr_peak :: nat
  vr_average :: nat
  vr_codecs :: string
  vr_resolution :: "(nat \<times> nat) option"

abbreviation u128_limit :: nat where "u128_limit \<equiv> 340282366920938463463374607431768211456"

definition add_wide :: "nat \<Rightarrow> nat \<Rightarrow> nat res" where
  "add_wide a b = (if a + b < u128_limit then ok (a + b) else fail (InvalidMedia ''bandwidth overflow''))"

definition larger :: "(nat \<times> nat) option \<Rightarrow> (nat \<times> nat) option \<Rightarrow> (nat \<times> nat) option" where
  "larger best new =
     (case (new, best) of
        (None, _) \<Rightarrow> best
      | (Some d, None) \<Rightarrow> Some d
      | (Some (w, h), Some (bw, bh)) \<Rightarrow> if bw * bh < w * h then Some (w, h) else best)"

record variant_state =
  vs_peak :: nat
  vs_weighted :: nat
  vs_total_ms :: nat
  vs_video_codecs :: "string list"
  vs_audio_codecs :: "string list"
  vs_resolution :: "(nat \<times> nat) option"

definition variant_step :: "bool \<Rightarrow> variant_state \<Rightarrow> sequence_clip \<Rightarrow> variant_state res" where
  "variant_step with_audio st c =
     (let p = sq_presentation c; video = video_of p;
          audio = (if with_audio then get_at (audio_tracks p) 0 else None)
      in and_then (try_fold (add_bandwidth p) (0, 0) (opt_list video @ opt_list audio)) (\<lambda>(peak, average).
         and_then (ok_or (case video of None \<Rightarrow> audio | Some t \<Rightarrow> Some t) (InvalidMedia ''a clip has no tracks'')) (\<lambda>reference.
         and_then (if tr_timescale reference = 0 then panic
                   else ok (tr_duration reference * 1000 div tr_timescale reference)) (\<lambda>ms.
         and_then (add_wide (vs_weighted st) (average * ms mod u128_limit)) (\<lambda>weighted.
         and_then (add_wide (vs_total_ms st) ms) (\<lambda>total_ms.
           ok \<lparr>vs_peak = max (vs_peak st) peak, vs_weighted = weighted, vs_total_ms = total_ms,
               vs_video_codecs = (case video of None \<Rightarrow> vs_video_codecs st
                                  | Some t \<Rightarrow> push_new (vs_video_codecs st) (codecs (tr_codec t))),
               vs_audio_codecs = (case audio of None \<Rightarrow> vs_audio_codecs st
                                  | Some t \<Rightarrow> push_new (vs_audio_codecs st) (codecs (tr_codec t))),
               vs_resolution = (case video of None \<Rightarrow> vs_resolution st
                                | Some t \<Rightarrow> larger (vs_resolution st) (dimensions (tr_codec t)))\<rparr>))))))"

definition sequence_variant_with :: "sequence_clip list \<Rightarrow> bool \<Rightarrow> sequence_variant res" where
  "sequence_variant_with clips with_audio =
     and_then (try_fold (variant_step with_audio)
       \<lparr>vs_peak = 0, vs_weighted = 0, vs_total_ms = 0, vs_video_codecs = [], vs_audio_codecs = [],
        vs_resolution = None\<rparr> clips) (\<lambda>st.
     let average = (if vs_total_ms st = 0 then 0 else vs_weighted st div vs_total_ms st) in
     if u64_limit \<le> average then fail (InvalidMedia ''bandwidth overflow'')
     else ok \<lparr>vr_peak = vs_peak st, vr_average = average,
            vr_codecs = joined (vs_video_codecs st @ vs_audio_codecs st), vr_resolution = vs_resolution st\<rparr>)"

definition res_to_option :: "'a res \<Rightarrow> 'a option" where
  "res_to_option r = (case r of Inl _ \<Rightarrow> None | Inr v \<Rightarrow> Some v)"

text \<open>The first track that names a language.\<close>

definition named_track :: "track list \<Rightarrow> track option" where
  "named_track = find (\<lambda>t. track_language t \<noteq> None)"

definition labelling_track :: "sequence_clip list \<Rightarrow> presentation \<Rightarrow> track_key \<Rightarrow> track res" where
  "labelling_track clips first key =
     (case named_track (List.map_filter (\<lambda>c. res_to_option (presented_track (sq_presentation c) key)) clips) of
        Some t \<Rightarrow> ok t | None \<Rightarrow> presented_track first key)"

definition sequence_master_playlist :: "(bytes \<Rightarrow> string) \<Rightarrow> sequence_clip list \<Rightarrow> string \<Rightarrow> string res" where
  "sequence_master_playlist base64 clips version =
     and_then (ok_or (get_at clips 0) (InvalidMedia ''a sequence has no clips'')) (\<lambda>c.
     let first = sq_presentation c; video_key = map_option tr_key (video_of first);
         audio_keys = map tr_key (audio_tracks first);
         audio_group = (audio_keys \<noteq> [] \<and> (video_key \<noteq> None \<or> 1 < length audio_keys))
     in
     and_then (if audio_group
               then collect_res (map (\<lambda>(index, key).
                 and_then (labelling_track clips first key) (\<lambda>t. ok (audio_rendition version index t True)))
                 (enumerate 0 audio_keys))
               else ok []) (\<lambda>renditions.
     and_then (sequence_variant_with clips True) (\<lambda>variant.
       ok (master_header
         @ hls_session_keys_for_sequence base64 (List.map_filter (\<lambda>c. pn_encryption (sq_presentation c)) clips)
         @ concat renditions
         @ stream_line (vr_peak variant) (vr_average variant) (vr_codecs variant) (vr_resolution variant)
             audio_group False
         @ line_of (display_key (case opt_list video_key @ audio_keys of key # _ \<Rightarrow> key | [] \<Rightarrow> VIDEO_KEY)
             @ ''/index.m3u8?v='' @ version)))))"

section \<open>Adaptive assets\<close>

record adaptive_video =
  av_id :: string
  av_track :: track
  av_bandwidth :: bandwidth

record adaptive_audio =
  aa_key :: track_key
  aa_track :: track
  aa_default :: bool

record sequence_video =
  sv_id :: string
  sv_clips :: "sequence_clip list"

record sequence_audio =
  sa_key :: track_key
  sa_internal_key :: track_key
  sa_default :: bool
  sa_clips :: "sequence_clip list"

definition variant_uri :: "string \<Rightarrow> string \<Rightarrow> string" where
  "variant_uri i version = line_of (''video-'' @ i @ ''/index.m3u8?v='' @ version)"

definition adaptive_master_playlist ::
    "(bytes \<Rightarrow> string) \<Rightarrow> string \<Rightarrow> adaptive_video list \<Rightarrow> adaptive_audio list \<Rightarrow> subtitle list
     \<Rightarrow> string option \<Rightarrow> encryption option \<Rightarrow> string res" where
  "adaptive_master_playlist base64 version video audio subtitles iframe_line e =
     (if video = [] then fail (InvalidMedia ''composite asset has no video renditions'')
      else ok (master_header @ session_lines base64 e
        @ concat (map (\<lambda>(index, a). adaptive_audio_media version index (aa_key a) (aa_track a) (aa_default a))
            (enumerate 0 audio))
        @ concat (map (subtitle_rendition version) subtitles)
        @ or_text iframe_line
        @ concat (map (\<lambda>v. stream_line (bw_peak (av_bandwidth v)) (bw_average (av_bandwidth v))
              (joined (codecs (tr_codec (av_track v))
                # (case audio of a # _ \<Rightarrow> [codecs (tr_codec (aa_track a))] | [] \<Rightarrow> [])))
              (dimensions (tr_codec (av_track v))) (audio \<noteq> []) (subtitles \<noteq> [])
            @ variant_uri (av_id v) version) video)))"

definition variants_by_bandwidth :: "sequence_video list \<Rightarrow> (sequence_video \<times> sequence_variant) list res" where
  "variants_by_bandwidth video =
     (if video = [] then fail (InvalidMedia ''an adaptive sequence has no video renditions'')
      else
        and_then (collect_res (map (\<lambda>v. and_then (sequence_variant_with (sv_clips v) False) (\<lambda>variant. ok (v, variant))) video))
          (\<lambda>variants. ok (sort_key (\<lambda>(v, variant). vr_peak variant) variants)))"

definition video_by_bandwidth :: "sequence_video list \<Rightarrow> sequence_video list res" where
  "video_by_bandwidth video = and_then (variants_by_bandwidth video) (\<lambda>variants. ok (map fst variants))"

definition adaptive_sequence_audio :: "string \<Rightarrow> nat \<times> sequence_audio \<Rightarrow> string res" where
  "adaptive_sequence_audio version = (\<lambda>(index, a).
     and_then (collect_res (map (\<lambda>c. presented_track (sq_presentation c) (sa_internal_key a)) (sa_clips a))) (\<lambda>tracks.
     and_then (ok_or (case named_track tracks of Some t \<Rightarrow> Some t | None \<Rightarrow> get_at tracks 0)
                (InvalidMedia ''an audio rendition has no clips'')) (\<lambda>t.
       ok (adaptive_audio_media version index (sa_key a) t (sa_default a)))))"

definition shared_audio_codecs :: "sequence_audio list \<Rightarrow> string list res" where
  "shared_audio_codecs audio =
     (case audio of
        [] \<Rightarrow> ok []
      | a # _ \<Rightarrow>
          try_fold (\<lambda>cs c. and_then (presented_track (sq_presentation c) (sa_internal_key a)) (\<lambda>t.
            ok (push_new cs (codecs (tr_codec t))))) [] (sa_clips a))"

definition adaptive_sequence_master_playlist ::
    "string \<Rightarrow> sequence_video list \<Rightarrow> sequence_audio list \<Rightarrow> string res" where
  "adaptive_sequence_master_playlist version video audio =
     and_then (variants_by_bandwidth video) (\<lambda>variants.
     and_then (collect_res (map (adaptive_sequence_audio version) (enumerate 0 audio))) (\<lambda>renditions.
     and_then (shared_audio_codecs audio) (\<lambda>audio_codecs.
       ok (master_header @ concat renditions
         @ concat (map (\<lambda>(v, variant).
             stream_line (vr_peak variant) (vr_average variant) (joined (vr_codecs variant # audio_codecs))
               (vr_resolution variant) (audio \<noteq> []) False
             @ variant_uri (sv_id v) version) variants)))))"

end
