(* ===== verification/Whole_Lines.thy ===== *)
theory Whole_Lines
  imports Text_Lines
begin

text \<open>Texts of whole lines, and the lines that \<open>str::lines\<close> finds in them.\<close>

definition one_line :: "string \<Rightarrow> bool" where
  "one_line s \<longleftrightarrow> CHR 0x0A \<notin> set s"

text \<open>A text of whole lines.\<close>

definition in_lines :: "string list \<Rightarrow> string" where
  "in_lines ls = concat (map line_of ls)"

lemma one_line_simps [simp]:
  "one_line []" "one_line (c # s) \<longleftrightarrow> c \<noteq> CHR 0x0A \<and> one_line s" "one_line (a @ b) \<longleftrightarrow> one_line a \<and> one_line b"
  by (auto simp: one_line_def)

lemma in_lines_simps [simp]:
  "in_lines [] = []" "in_lines (l # ls) = line_of l @ in_lines ls" "in_lines (a @ b) = in_lines a @ in_lines b"
  by (simp_all add: in_lines_def)

lemma split_first_line: "one_line l \<Longrightarrow> split_lines (line_of l @ s) = l # split_lines s"
proof (induction l)
  case (Cons c l)
  then show ?case by (simp add: line_of_def)
qed (simp add: line_of_def)

lemma split_in_lines [simp]: "list_all one_line ls \<Longrightarrow> split_lines (in_lines ls) = ls"
  by (induction ls) (simp_all add: split_first_line)

lemma one_line_decimal [simp]: "one_line (decimal n)"
  using decimal_digits [of n] by (auto simp: one_line_def list_all_iff is_digit_def)

end
