(* ===== verification/Playlist_Laws.thy ===== *)
theory Playlist_Laws
  imports Hls_Playlists Key_Schedule_Laws Whole_Lines
begin

text \<open>
  What a player reads in a media playlist.  The reader is a reference: it splits the text into
  lines, keeps the last duration and the last block of key lines, and lists an entry for every
  address.  The playlists written are read back as the segments of the track, each under the keys
  of the period in force at it.
\<close>

section \<open>Lines\<close>

lemma one_line_quoted [simp]: "one_line (quoted s) \<longleftrightarrow> one_line s"
  by (simp add: quoted_def)

lemma digit_char_not_newline [simp]: "d < 10 \<Longrightarrow> digit_char d \<noteq> CHR 0x0A"
  using of_digit_char [of d] by auto

section \<open>The reader\<close>

record entry =
  et_millis :: nat
  et_keys :: "string list"
  et_uri :: string

record player =
  py_target :: nat
  py_pending :: nat
  py_keys :: "string list"
  py_in_block :: bool
  py_entries :: "entry list"

definition read_duration :: "string \<Rightarrow> nat" where
  "read_duration s =
     digits_value (takeWhile is_digit s) * 1000 + digits_value (take 3 (drop 1 (dropWhile is_digit s)))"

definition read_line :: "player \<Rightarrow> string \<Rightarrow> player" where
  "read_line r l =
     (case strip_prefix ''#EXT-X-TARGETDURATION:'' l of Some d \<Rightarrow> r\<lparr>py_target := digits_value d\<rparr> | None \<Rightarrow>
     (case strip_prefix ''#EXTINF:'' l of Some d \<Rightarrow> r\<lparr>py_pending := read_duration d\<rparr> | None \<Rightarrow>
     (case strip_prefix ''#EXT-X-KEY:'' l of
        Some attributes \<Rightarrow>
          r\<lparr>py_keys := (if py_in_block r then py_keys r @ [attributes] else [attributes]), py_in_block := True\<rparr>
      | None \<Rightarrow>
          if take 1 l = ''#'' then r
          else r\<lparr>py_in_block := False,
            py_entries := py_entries r @ [\<lparr>et_millis = py_pending r, et_keys = py_keys r, et_uri = l\<rparr>]\<rparr>)))"

definition new_player :: player where
  "new_player = \<lparr>py_target = 0, py_pending = 0, py_keys = [], py_in_block = True, py_entries = []\<rparr>"

definition read_playlist :: "string \<Rightarrow> player" where
  "read_playlist s = foldl read_line new_player (split_lines s)"

lemma strip_prefix_same [simp]: "strip_prefix p (p @ s) = Some s"
  by (simp add: strip_prefix_def)

lemma read_target: "read_line r (''#EXT-X-TARGETDURATION:'' @ decimal n) = r\<lparr>py_target := n\<rparr>"
  unfolding read_line_def strip_prefix_same by simp

lemma three_digits_value: "n < 1000 \<Longrightarrow> digits_value (three_digits n) = n"
proof -
  assume "n < 1000"
  moreover have "n div 100 = n div 10 div 10" by (simp add: div_mult2_eq [symmetric])
  moreover have "n = 10 * (n div 10) + n mod 10" "n div 10 = 10 * (n div 10 div 10) + n div 10 mod 10" by simp_all
  ultimately have "100 * (n div 100) + 10 * (n div 10 mod 10) + n mod 10 = n" by linarith
  then show ?thesis using \<open>n < 1000\<close> by (simp add: three_digits_def digits_value_def algebra_simps)
qed

lemma read_duration_written: "read_duration (decimal (ms div 1000) @ ''.'' @ three_digits (ms mod 1000) @ '','') = ms"
proof -
  have "takeWhile is_digit (decimal n @ ''.'' @ s) = decimal n" "dropWhile is_digit (decimal n @ ''.'' @ s) = ''.'' @ s" for n s
    using decimal_digits [of n] by (simp_all add: list_all_iff takeWhile_append dropWhile_append is_digit_def)
  moreover have "take 3 (three_digits n @ s) = three_digits n" for n s by (simp add: three_digits_def)
  ultimately show ?thesis
    by (simp add: read_duration_def three_digits_value del: append_Cons append_Nil) (simp add: three_digits_value)
qed

lemma read_extinf:
  "read_line r (''#EXTINF:'' @ decimal (ms div 1000) @ ''.'' @ three_digits (ms mod 1000) @ '','') = r\<lparr>py_pending := ms\<rparr>"
proof -
  have "strip_prefix ''#EXT-X-TARGETDURATION:'' (''#EXTINF:'' @ s) = None" for s by (simp add: strip_prefix_def)
  then show ?thesis unfolding read_line_def strip_prefix_same using read_duration_written [of ms] by simp
qed

definition key_block :: "player \<Rightarrow> string list \<Rightarrow> player" where
  "key_block r ks = (if ks = [] then r
     else r\<lparr>py_keys := (if py_in_block r then py_keys r @ ks else ks), py_in_block := True\<rparr>)"

lemma read_key: "read_line r (''#EXT-X-KEY:'' @ k) = key_block r [k]"
proof -
  have "strip_prefix ''#EXT-X-TARGETDURATION:'' (''#EXT-X-KEY:'' @ s) = None"
      "strip_prefix ''#EXTINF:'' (''#EXT-X-KEY:'' @ s) = None" for s by (simp_all add: strip_prefix_def)
  then show ?thesis unfolding read_line_def strip_prefix_same key_block_def by simp
qed

lemma read_keys: "foldl read_line r (map ((@) ''#EXT-X-KEY:'') ks) = key_block r ks"
proof (induction ks arbitrary: r)
  case (Cons k ks)
  have "foldl read_line r (map ((@) ''#EXT-X-KEY:'') (k # ks)) = key_block (key_block r [k]) ks"
    by (simp only: list.map foldl_Cons read_key Cons)
  also have "\<dots> = key_block r (k # ks)" by (simp add: key_block_def)
  finally show ?case .
qed (simp add: key_block_def)

text \<open>A line that is neither a duration, nor a key, nor an address.\<close>

definition other_line :: "string \<Rightarrow> bool" where
  "other_line l \<longleftrightarrow> take 1 l = ''#'' \<and> strip_prefix ''#EXT-X-TARGETDURATION:'' l = None
     \<and> strip_prefix ''#EXTINF:'' l = None \<and> strip_prefix ''#EXT-X-KEY:'' l = None"

lemma read_other: "other_line l \<Longrightarrow> read_line r l = r"
  by (simp add: other_line_def read_line_def)

lemma read_uri:
  assumes "l = c # s" and "c \<noteq> CHR ''#''"
  shows "read_line r l = r\<lparr>py_in_block := False,
    py_entries := py_entries r @ [\<lparr>et_millis = py_pending r, et_keys = py_keys r, et_uri = l\<rparr>]\<rparr>"
  using assms by (simp add: read_line_def strip_prefix_def)

section \<open>The key lines\<close>

text \<open>The attributes of the lines that name the keys of one encryption.\<close>

definition key_attributes :: "(bytes \<Rightarrow> string) \<Rightarrow> track_kind \<Rightarrow> encryption \<Rightarrow> string list" where
  "key_attributes base64 kind e =
     map ((@) ''METHOD=SAMPLE-AES,'')
       (List.map_filter (\<lambda>s. hls_attributes base64 s (Some (ck_key_id (key_for e kind)))) (en_systems e))"

text \<open>Nothing of an encryption that is written contains a line break.\<close>

definition plain_systems :: "encryption \<Rightarrow> bool" where
  "plain_systems e \<longleftrightarrow> (\<forall>s \<in> set (en_systems e). pred_option one_line (ds_hls_uri s) \<and> pred_option one_line (ds_license_url s))"

definition plain_text :: "(bytes \<Rightarrow> string) \<Rightarrow> presentation \<Rightarrow> bool" where
  "plain_text base64 p \<longleftrightarrow> (\<forall>x. one_line (base64 x)) \<and> one_line (pn_version p)
     \<and> pred_option (\<lambda>a. one_line (ak_uri a)) (pn_aes128 p)
     \<and> pred_option (\<lambda>e. plain_systems e \<and> (\<forall>k \<in> set (en_periods e). pred_option plain_systems (kp_encryption k)))
         (pn_encryption p)"

lemma hls_key_lines_text:
  "hls_key_lines base64 e (key_for e kind) ''EXT-X-KEY'' = in_lines (map ((@) ''#EXT-X-KEY:'') (key_attributes base64 kind e))"
proof -
  have "key_line ''EXT-X-KEY'' = line_of \<circ> ((@) ''#EXT-X-KEY:'') \<circ> ((@) ''METHOD=SAMPLE-AES,'')"
    by (simp add: key_line_def fun_eq_iff)
  then show ?thesis unfolding hls_key_lines_def in_lines_def key_attributes_def by (simp only: map_map comp_assoc)
qed

lemma hex_char_plain [simp]: "n < 16 \<Longrightarrow> hex_char n \<noteq> CHR 0x0A"
proof -
  assume "n < 16"
  then have "of_char (hex_char n) = (if n < 10 then 48 + n else 87 + n)" by (simp add: hex_char_def)
  then show ?thesis using \<open>n < 16\<close> by (auto split: if_splits)
qed

lemma one_line_hex [simp]: "one_line (hex_string xs)"
proof -
  have "one_line (hex2 (unat x))" for x :: byte
  proof -
    have "unat x div 16 < 16" using byte_less [of x] by linarith
    then show ?thesis by (simp add: hex2_def)
  qed
  then show ?thesis by (induction xs) (simp_all add: hex_string_def)
qed

lemma one_line_attributes:
  assumes "hls_attributes base64 s k = Some a" and "\<forall>x. one_line (base64 x)"
    and "pred_option one_line (ds_hls_uri s)" and "pred_option one_line (ds_license_url s)"
  shows "one_line a"
  using assms by (auto simp: hls_attributes_def split: if_splits option.splits)

lemma one_line_keys:
  assumes "plain_systems e" and "\<forall>x. one_line (base64 x)"
  shows "list_all one_line (map ((@) ''#EXT-X-KEY:'') (key_attributes base64 kind e))"
  using assms one_line_attributes
  by (auto simp: list_all_iff key_attributes_def List.map_filter_def plain_systems_def)

section \<open>The entries\<close>

definition period_keys :: "(bytes \<Rightarrow> string) \<Rightarrow> track_kind \<Rightarrow> scheduled_period \<Rightarrow> string list" where
  "period_keys base64 kind q =
     (case sc_encryption q of Some e \<Rightarrow> key_attributes base64 kind e | None \<Rightarrow> [''METHOD=NONE''])"

text \<open>
  The keys of a segment: those of the last period to come that has begun and writes key lines, else the
  current ones.
\<close>

definition keys_from ::
    "(bytes \<Rightarrow> string) \<Rightarrow> track_kind \<Rightarrow> scheduled_period list \<Rightarrow> string list \<Rightarrow> nat \<Rightarrow> string list" where
  "keys_from base64 kind periods current number =
     (let told = filter (\<lambda>q. period_keys base64 kind q \<noteq> []) (takeWhile (\<lambda>q. sc_first_segment q \<le> number) periods)
      in if told = [] then current else period_keys base64 kind (last told))"

text \<open>The keys once a period has begun: its own, where it writes any.\<close>

definition keys_after :: "(bytes \<Rightarrow> string) \<Rightarrow> track_kind \<Rightarrow> scheduled_period \<Rightarrow> string list \<Rightarrow> string list" where
  "keys_after base64 kind q current =
     (if period_keys base64 kind q = [] then current else period_keys base64 kind q)"

text \<open>The periods to come, none of them before a segment.\<close>

definition upcoming :: "nat \<Rightarrow> scheduled_period list \<Rightarrow> bool" where
  "upcoming k periods \<longleftrightarrow> sorted_wrt (<) (map sc_first_segment periods)
     \<and> (\<forall>q \<in> set periods. k \<le> sc_first_segment q \<and> pred_option plain_systems (sc_encryption q))"

definition segment_uri :: "string \<Rightarrow> nat \<Rightarrow> string" where
  "segment_uri version number = ''segments/'' @ decimal number @ ''/media.m4s?v='' @ version"

definition entry_of ::
    "(bytes \<Rightarrow> string) \<Rightarrow> track \<Rightarrow> nat \<Rightarrow> string \<Rightarrow> scheduled_period list \<Rightarrow> string list \<Rightarrow> nat \<times> track_segment \<Rightarrow> entry" where
  "entry_of base64 t first version periods current = (\<lambda>(n, part).
     \<lparr>et_millis = sg_duration part * 1000 div tr_timescale t,
      et_keys = keys_from base64 (tr_kind t) periods current (n + first), et_uri = segment_uri version (n + first)\<rparr>)"

lemma milliseconds_of_ok: "milliseconds_of ticks ts m = ok ms \<Longrightarrow> ms = ticks * 1000 div ts"
  by (auto simp: milliseconds_of_def checked_mul_def checked_div_def ok_or_def split: option.splits if_splits bind_splits)

lemma period_lines_text:
  assumes "pred_option plain_systems (sc_encryption q)" and "\<forall>x. one_line (base64 x)"
  shows "period_lines base64 kind q = in_lines (map ((@) ''#EXT-X-KEY:'') (period_keys base64 kind q))"
    and "list_all one_line (map ((@) ''#EXT-X-KEY:'') (period_keys base64 kind q))"
proof -
  show "period_lines base64 kind q = in_lines (map ((@) ''#EXT-X-KEY:'') (period_keys base64 kind q))"
    unfolding period_lines_def period_keys_def
    by (simp add: hls_key_lines_text hls_key_none_def split: option.split del: key_for.simps)
  show "list_all one_line (map ((@) ''#EXT-X-KEY:'') (period_keys base64 kind q))"
    using assms one_line_keys [of _ base64 kind] unfolding period_keys_def by (cases "sc_encryption q") simp_all
qed

lemma keys_from_Cons:
  "sc_first_segment q \<le> j \<Longrightarrow> keys_from base64 kind (q # rest) current j = keys_from base64 kind rest (keys_after base64 kind q current) j"
  by (simp add: keys_from_def keys_after_def Let_def)

lemma keys_from_upcoming:
  "upcoming k periods \<Longrightarrow> j < k \<Longrightarrow> keys_from base64 kind periods current j = current"
  by (cases periods) (auto simp: upcoming_def keys_from_def)

lemma upcoming_Cons:
  "upcoming k (q # rest) \<Longrightarrow> upcoming (Suc (sc_first_segment q)) rest"
  by (auto simp: upcoming_def)

lemma upcoming_Suc:
  "upcoming k periods \<Longrightarrow> (\<And>q rest. periods = q # rest \<Longrightarrow> k < sc_first_segment q) \<Longrightarrow> upcoming (Suc k) periods"
  by (cases periods) (force simp: upcoming_def)+

text \<open>What is written for one segment, and how it is read.\<close>

lemma entry_step_read:
  assumes step: "entry_step base64 t first version (w, periods) (n, part) = ok (w', rest)"
    and up: "upcoming (n + first) periods"
    and plain: "one_line version" "\<forall>x. one_line (base64 x)"
  obtains ls where "w' = w @ in_lines ls" "list_all one_line ls"
    "upcoming (Suc n + first) rest"
    "\<And>r. (py_in_block r \<Longrightarrow> upcoming (Suc n + first) periods) \<Longrightarrow>
       foldl read_line r ls = r\<lparr>py_pending := sg_duration part * 1000 div tr_timescale t,
         py_keys := keys_from base64 (tr_kind t) periods (py_keys r) (n + first), py_in_block := False,
         py_entries := py_entries r @ [entry_of base64 t first version periods (py_keys r) (n, part)]\<rparr>"
    "\<And>current j. n + first \<le> j \<Longrightarrow> keys_from base64 (tr_kind t) rest (keys_from base64 (tr_kind t) periods current (n + first)) j
       = keys_from base64 (tr_kind t) periods current j"
    "set rest \<subseteq> set periods"
proof -
  let ?ms = "sg_duration part * 1000 div tr_timescale t"
  let ?tail = "[''#EXTINF:'' @ decimal (?ms div 1000) @ ''.'' @ three_digits (?ms mod 1000) @ '','',
    segment_uri version (n + first)]"
  have tail: "duration_line ?ms @ line_of (''segments/'' @ decimal (n + first) @ ''/media.m4s?v='' @ version) = in_lines ?tail"
    by (simp add: duration_line_def segment_uri_def)
  have tail_plain: "list_all one_line ?tail"
    using plain by (simp add: segment_uri_def three_digits_def)
  have tail_read: "foldl read_line r ?tail = r\<lparr>py_pending := ?ms, py_in_block := False,
      py_entries := py_entries r @ [\<lparr>et_millis = ?ms, et_keys = py_keys r, et_uri = segment_uri version (n + first)\<rparr>]\<rparr>" for r
  proof -
    have "read_line r' (segment_uri version (n + first)) = r'\<lparr>py_in_block := False,
        py_entries := py_entries r' @ [\<lparr>et_millis = py_pending r', et_keys = py_keys r', et_uri = segment_uri version (n + first)\<rparr>]\<rparr>" for r'
      by (rule read_uri [of _ "CHR ''s''" "''egments/'' @ decimal (n + first) @ ''/media.m4s?v='' @ version"]) (simp_all add: segment_uri_def)
    then show ?thesis by (simp only: foldl_Cons foldl_Nil read_extinf) simp
  qed
  obtain keys where w': "w' = w @ keys @ in_lines ?tail"
    and keys: "(keys, rest) = (case periods of q # others \<Rightarrow>
        (if sc_first_segment q \<le> n + first then (period_lines base64 (tr_kind t) q, others) else ([], periods)) | [] \<Rightarrow> ([], periods))"
  proof -
    obtain ms where ms: "milliseconds_of (sg_duration part) (tr_timescale t) ''segment duration overflow'' = ok ms"
      using step by (auto simp: entry_step_def and_then_eq_Inr)
    obtain keys later where chosen: "(case periods of q # others \<Rightarrow>
        (if sc_first_segment q \<le> n + first then (period_lines base64 (tr_kind t) q, others) else ([], periods))
      | [] \<Rightarrow> ([], periods)) = (keys, later)" by (rule prod.exhaust)
    have "n + first < u64_limit"
      using step by (auto simp: entry_step_def and_then_eq_Inr ok_or_def checked_add_def split: if_splits)
    then have number: "ok_or (checked_add n first) e = ok (n + first)" for e by (simp add: checked_add_def ok_or_def)
    then have "(w @ keys @ duration_line ms @ line_of (''segments/'' @ decimal (n + first) @ ''/media.m4s?v='' @ version), later)
        = (w', rest)"
      using step unfolding entry_step_def split_conv ms number and_then_simps chosen Let_def by (simp only: sum.inject)
    then show thesis using that [of keys] chosen tail milliseconds_of_ok [OF ms] by simp
  qed
  show thesis
  proof (cases "\<exists>q others. periods = q # others \<and> sc_first_segment q \<le> n + first")
    case True
    then obtain q others where q: "periods = q # others" "sc_first_segment q \<le> n + first" by blast
    then have at: "sc_first_segment q = n + first" and q_props: "pred_option plain_systems (sc_encryption q)"
      using up by (auto simp: upcoming_def)
    have got: "keys = period_lines base64 (tr_kind t) q" "rest = others" using keys q by simp_all
    note lines = period_lines_text [OF q_props plain(2), of "tr_kind t"]
    let ?ks = "map ((@) ''#EXT-X-KEY:'') (period_keys base64 (tr_kind t) q)"
    have now: "keys_from base64 (tr_kind t) periods current (n + first) = keys_after base64 (tr_kind t) q current" for current
      using keys_from_upcoming [OF upcoming_Cons [OF up [unfolded q(1)]], of "n + first"] at q by (simp add: keys_from_Cons)
    show thesis
    proof (rule that [of "?ks @ ?tail"])
      show "w' = w @ in_lines (?ks @ ?tail)" using w' got lines(1) by simp
      show "list_all one_line (?ks @ ?tail)" using lines(2) tail_plain by simp
      show "upcoming (Suc n + first) rest" using upcoming_Cons [OF up [unfolded q(1)]] at got by simp
      show "foldl read_line r (?ks @ ?tail) = r\<lparr>py_pending := ?ms,
         py_keys := keys_from base64 (tr_kind t) periods (py_keys r) (n + first), py_in_block := False,
         py_entries := py_entries r @ [entry_of base64 t first version periods (py_keys r) (n, part)]\<rparr>"
        if "py_in_block r \<Longrightarrow> upcoming (Suc n + first) periods" for r
      proof -
        have "\<not> py_in_block r" using that at q by (auto simp: upcoming_def)
        then show ?thesis unfolding foldl_append read_keys tail_read
          by (simp add: key_block_def keys_after_def entry_of_def now)
      qed
      show "keys_from base64 (tr_kind t) rest (keys_from base64 (tr_kind t) periods current (n + first)) j
          = keys_from base64 (tr_kind t) periods current j" if "n + first \<le> j" for current j
        unfolding now using that at q got by (simp add: keys_from_Cons)
      show "set rest \<subseteq> set periods" using q got by auto
    qed
  next
    case False
    then have got: "keys = []" "rest = periods" using keys by (auto split: list.splits)
    have later: "upcoming (Suc n + first) periods"
    proof -
      have "n + first < sc_first_segment q" if "periods = q # others" for q others using False that by fastforce
      then show ?thesis using upcoming_Suc [OF up] by simp
    qed
    then have now: "keys_from base64 (tr_kind t) periods current (n + first) = current" for current
      by (rule keys_from_upcoming) simp
    show thesis
    proof (rule that [of ?tail])
      show "w' = w @ in_lines ?tail" using w' got by simp
    qed (use got later tail_plain now in \<open>simp_all only: tail_read entry_of_def subset_refl split_conv\<close>, simp_all)
  qed
qed

lemma entries_read:
  assumes "try_fold (entry_step base64 t first version) (w, periods) (enumerate n parts) = ok (w', later)"
    and "upcoming (n + first) periods"
    and plain: "one_line version" "\<forall>x. one_line (base64 x)"
  shows "\<exists>ls. w' = w @ in_lines ls \<and> list_all one_line ls
    \<and> (\<forall>r. (py_in_block r \<longrightarrow> upcoming (Suc n + first) periods)
         \<longrightarrow> py_target (foldl read_line r ls) = py_target r
           \<and> (periods = [] \<longrightarrow> py_keys (foldl read_line r ls) = py_keys r)
           \<and> py_entries (foldl read_line r ls)
             = py_entries r @ map (entry_of base64 t first version periods (py_keys r)) (enumerate n parts))"
  using assms(1,2)
proof (induction parts arbitrary: n w periods)
  case Nil
  then show ?case by (intro exI [of _ "[]"]) simp
next
  case (Cons part parts)
  obtain w1 rest where step: "entry_step base64 t first version (w, periods) (n, part) = ok (w1, rest)"
    and more_steps: "try_fold (entry_step base64 t first version) (w1, rest) (enumerate (Suc n) parts) = ok (w', later)"
    using Cons.prems(1) by (auto simp: and_then_eq_Inr)
  show ?case
  proof (rule entry_step_read [OF step Cons.prems(2) plain])
    fix ls
    assume ls: "w1 = w @ in_lines ls" "list_all one_line ls" and up: "upcoming (Suc n + first) rest"
      and read: "\<And>r. (py_in_block r \<Longrightarrow> upcoming (Suc n + first) periods) \<Longrightarrow>
        foldl read_line r ls = r\<lparr>py_pending := sg_duration part * 1000 div tr_timescale t,
          py_keys := keys_from base64 (tr_kind t) periods (py_keys r) (n + first), py_in_block := False,
          py_entries := py_entries r @ [entry_of base64 t first version periods (py_keys r) (n, part)]\<rparr>"
      and keys: "\<And>current j. n + first \<le> j \<Longrightarrow>
        keys_from base64 (tr_kind t) rest (keys_from base64 (tr_kind t) periods current (n + first)) j
          = keys_from base64 (tr_kind t) periods current j"
      and sub: "set rest \<subseteq> set periods"
    from Cons.IH [OF more_steps up] obtain ls' where ls': "w' = w1 @ in_lines ls'" "list_all one_line ls'"
      and tail: "\<And>r. \<not> py_in_block r \<Longrightarrow> py_target (foldl read_line r ls') = py_target r
           \<and> (rest = [] \<longrightarrow> py_keys (foldl read_line r ls') = py_keys r)
           \<and> py_entries (foldl read_line r ls')
             = py_entries r @ map (entry_of base64 t first version rest (py_keys r)) (enumerate (Suc n) parts)" by blast
    have same: "map (entry_of base64 t first version rest (keys_from base64 (tr_kind t) periods current (n + first))) (enumerate (Suc n) parts)
        = map (entry_of base64 t first version periods current) (enumerate (Suc n) parts)" for current
      by (rule map_cong) (auto simp: entry_of_def in_set_enumerate_eq keys)
    show ?thesis
    proof (intro exI [of _ "ls @ ls'"] conjI allI impI)
      fix r :: player
      assume "py_in_block r \<longrightarrow> upcoming (Suc n + first) periods"
      then have r: "foldl read_line r ls = r\<lparr>py_pending := sg_duration part * 1000 div tr_timescale t,
          py_keys := keys_from base64 (tr_kind t) periods (py_keys r) (n + first), py_in_block := False,
          py_entries := py_entries r @ [entry_of base64 t first version periods (py_keys r) (n, part)]\<rparr>"
        using read by blast
      show "py_target (foldl read_line r (ls @ ls')) = py_target r" unfolding foldl_append r using tail by simp
      show "py_keys (foldl read_line r (ls @ ls')) = py_keys r" if "periods = []"
        unfolding foldl_append r using tail sub that by (simp add: keys_from_def)
      show "py_entries (foldl read_line r (ls @ ls'))
          = py_entries r @ map (entry_of base64 t first version periods (py_keys r)) (enumerate n (part # parts))"
        unfolding foldl_append r using tail same by simp
    qed (use ls ls' in simp_all)
  qed
qed

section \<open>The playlist of a track\<close>

definition key_text :: "(bytes \<Rightarrow> string) \<Rightarrow> track_kind \<Rightarrow> encryption option \<Rightarrow> string list" where
  "key_text base64 kind e = (case e of None \<Rightarrow> [] | Some e' \<Rightarrow> key_attributes base64 kind e')"

text \<open>The keys before the first segment.\<close>

definition first_keys :: "(bytes \<Rightarrow> string) \<Rightarrow> presentation \<Rightarrow> track_kind \<Rightarrow> scheduled_period list \<Rightarrow> string list" where
  "first_keys base64 p kind periods =
     key_text base64 kind (case periods of [] \<Rightarrow> pn_encryption p | q # _ \<Rightarrow> sc_encryption q)
     @ (case pn_aes128 p of None \<Rightarrow> [] | Some a \<Rightarrow> [''METHOD=AES-128,URI='' @ quoted (ak_uri a)])"

lemma media_header_read:
  "media_header n @ line_of ''#EXT-X-INDEPENDENT-SEGMENTS'' = in_lines [''#EXTM3U'', ''#EXT-X-VERSION:7'',
     ''#EXT-X-TARGETDURATION:'' @ decimal n, ''#EXT-X-MEDIA-SEQUENCE:0'', ''#EXT-X-PLAYLIST-TYPE:VOD'', ''#EXT-X-INDEPENDENT-SEGMENTS'']"
  "foldl read_line r [''#EXTM3U'', ''#EXT-X-VERSION:7'',
     ''#EXT-X-TARGETDURATION:'' @ decimal n, ''#EXT-X-MEDIA-SEQUENCE:0'', ''#EXT-X-PLAYLIST-TYPE:VOD'', ''#EXT-X-INDEPENDENT-SEGMENTS''] = r\<lparr>py_target := n\<rparr>"
proof -
  have "other_line ''#EXTM3U''" "other_line ''#EXT-X-VERSION:7''" "other_line ''#EXT-X-MEDIA-SEQUENCE:0''"
    "other_line ''#EXT-X-PLAYLIST-TYPE:VOD''" "other_line ''#EXT-X-INDEPENDENT-SEGMENTS''"
    by (simp_all add: other_line_def strip_prefix_def)
  then show "foldl read_line r [''#EXTM3U'', ''#EXT-X-VERSION:7'',
     ''#EXT-X-TARGETDURATION:'' @ decimal n, ''#EXT-X-MEDIA-SEQUENCE:0'', ''#EXT-X-PLAYLIST-TYPE:VOD'', ''#EXT-X-INDEPENDENT-SEGMENTS''] = r\<lparr>py_target := n\<rparr>"
    by (simp only: foldl_Cons foldl_Nil read_other read_target)
qed (simp add: media_header_def)

lemma key_block_append: "key_block (key_block r ks) ks' = key_block r (ks @ ks')"
  by (simp add: key_block_def)

lemma key_schedule_sorted:
  assumes "key_schedule p = ok periods"
  shows "sorted_wrt (<) (map sc_first_segment periods)
    \<and> (\<forall>q \<in> set periods. \<exists>e k. pn_encryption p = Some e \<and> k \<in> set (en_periods e) \<and> sc_encryption q = kp_encryption k)"
proof (cases "periods = []")
  case False
  then obtain e where e: "pn_encryption p = Some e" "is_rotating e" "schedule e (pn_tracks p) (pn_plan p) = ok periods"
    using assms by (auto simp: key_schedule_def split: option.splits if_splits sum.splits fault.splits)
  from e obtain base where "try_fold (schedule_step (pn_tracks p) (pn_plan p) base) [] (en_periods e) = ok periods"
    by (auto simp: schedule_def Let_def)
  from schedule_steps [OF this] have steps: "periods = List.map_filter (scheduled_at (pn_tracks p) (pn_plan p) base) (en_periods e)"
    "sorted_wrt (<) (map sc_first_segment periods)" by (force+)
  have "\<exists>k \<in> set (en_periods e). sc_encryption q = kp_encryption k" if "q \<in> set periods" for q
    using that steps(1) by (auto simp: List.map_filter_def scheduled_at_def split: option.splits)
  then show ?thesis using e steps(2) by blast
qed simp

lemma key_schedule_upcoming:
  assumes "key_schedule p = ok periods" and "plain_text base64 p"
  shows "sorted_wrt (<) (map sc_first_segment periods)"
    and "\<forall>q \<in> set periods. pred_option plain_systems (sc_encryption q)"
  using key_schedule_sorted [OF assms(1)] assms(2) by (fastforce simp: plain_text_def)+

lemma initial_keys_text:
  assumes "key_lines base64 p t = ok keys" and "key_schedule p = ok periods" and "plain_text base64 p"
  shows "keys = in_lines (map ((@) ''#EXT-X-KEY:'')
      (key_text base64 (tr_kind t) (case periods of [] \<Rightarrow> pn_encryption p | q # _ \<Rightarrow> sc_encryption q)))"
    and "list_all one_line (map ((@) ''#EXT-X-KEY:'')
      (key_text base64 (tr_kind t) (case periods of [] \<Rightarrow> pn_encryption p | q # _ \<Rightarrow> sc_encryption q)))"
proof -
  let ?e = "case periods of [] \<Rightarrow> pn_encryption p | q # _ \<Rightarrow> sc_encryption q"
  have "(case get_at periods 0 of None \<Rightarrow> pn_encryption p | Some first \<Rightarrow> sc_encryption first) = ?e"
    by (cases periods) (simp_all add: get_at_def)
  then have "keys = key_transition_lines base64 None ?e (tr_kind t) ''EXT-X-KEY''"
    using assms(1,2) by (simp add: key_lines_def)
  then show "keys = in_lines (map ((@) ''#EXT-X-KEY:'') (key_text base64 (tr_kind t) ?e))"
    by (cases ?e) (simp_all add: key_transition_lines_def key_text_def hls_key_lines_text del: key_for.simps)
  have "pred_option plain_systems ?e"
    using assms(3) key_schedule_upcoming(2) [OF assms(2,3)] by (cases periods) (auto simp: plain_text_def option.pred_set)
  then show "list_all one_line (map ((@) ''#EXT-X-KEY:'') (key_text base64 (tr_kind t) ?e))"
    using assms(3) one_line_keys [of _ base64 "tr_kind t"] by (cases ?e) (simp_all add: key_text_def plain_text_def)
qed

lemma upcoming_later:
  assumes "key_schedule p = ok periods" and "plain_text base64 p"
  shows "upcoming 1 (drop 1 periods)"
  using key_schedule_upcoming [OF assms(1,2)] by (cases periods) (auto simp: upcoming_def)

lemma media_playlist_read:
  assumes "media_playlist base64 p key = ok sent" and t: "presented_track p key = ok t"
    and plain: "plain_text base64 p" and periods: "key_schedule p = ok periods"
  shows "target_duration p t = ok (py_target (read_playlist sent))"
    and "py_entries (read_playlist sent)
      = map (entry_of base64 t 0 (pn_version p) (drop 1 periods) (first_keys base64 p (tr_kind t) periods))
          (enumerate 0 (track_segments (pn_plan p) (tr_id t)))"
proof -
  let ?parts = "track_segments (pn_plan p) (tr_id t)"
  let ?e = "case periods of [] \<Rightarrow> pn_encryption p | q # _ \<Rightarrow> sc_encryption q"
  let ?ks = "key_text base64 (tr_kind t) ?e"
  let ?aes = "case pn_aes128 p of None \<Rightarrow> [] | Some a \<Rightarrow> [''METHOD=AES-128,URI='' @ quoted (ak_uri a)]"
  let ?map = "''#EXT-X-MAP:URI='' @ quoted (''init.mp4?v='' @ pn_version p)"
  obtain target klines body later where parts: "target_duration p t = ok target" "key_lines base64 p t = ok klines"
    "try_fold (entry_step base64 t 0 (pn_version p)) ([], drop 1 periods) (enumerate 0 ?parts) = ok (body, later)"
    and sent: "sent = media_header target @ line_of ''#EXT-X-INDEPENDENT-SEGMENTS'' @ klines @ line_of ?map
      @ aes128_key_line p @ body @ line_of ''#EXT-X-ENDLIST''"
    using assms(1) t periods unfolding media_playlist_def segment_entries_def by (auto simp: and_then_eq_Inr)
  note up = upcoming_later [OF periods plain]
  then have "upcoming (0 + 0) (drop 1 periods)" by (auto simp: upcoming_def)
  from entries_read [OF parts(3) this] plain up obtain ls where ls: "body = in_lines ls" "list_all one_line ls"
    and read: "\<And>r. py_target (foldl read_line r ls) = py_target r
      \<and> py_entries (foldl read_line r ls)
        = py_entries r @ map (entry_of base64 t 0 (pn_version p) (drop 1 periods) (py_keys r)) (enumerate 0 ?parts)"
    unfolding plain_text_def by auto
  have aes: "aes128_key_line p = in_lines (map ((@) ''#EXT-X-KEY:'') ?aes)" "list_all one_line (map ((@) ''#EXT-X-KEY:'') ?aes)"
    using plain by (cases "pn_aes128 p"; simp add: aes128_key_line_def plain_text_def)+
  have other: "other_line ?map" "other_line ''#EXT-X-ENDLIST''" by (simp_all add: other_line_def strip_prefix_def)
  let ?header = "[''#EXTM3U'', ''#EXT-X-VERSION:7'', ''#EXT-X-TARGETDURATION:'' @ decimal target,
    ''#EXT-X-MEDIA-SEQUENCE:0'', ''#EXT-X-PLAYLIST-TYPE:VOD'', ''#EXT-X-INDEPENDENT-SEGMENTS'']"
  note ks = initial_keys_text [OF parts(2) periods plain]
  have lines: "split_lines sent = ?header @ map ((@) ''#EXT-X-KEY:'') ?ks @ [?map]
      @ map ((@) ''#EXT-X-KEY:'') ?aes @ ls @ [''#EXT-X-ENDLIST'']" (is "_ = ?all")
  proof -
    have eq: "sent = in_lines ?all"
      unfolding sent ks(1) aes(1) ls(1) using media_header_read(1) [of target] by simp
    have "list_all one_line ?all" using ks(2) aes(2) ls(2) plain by (simp add: plain_text_def)
    then show ?thesis unfolding eq by (rule split_in_lines)
  qed
  define r where "r = key_block (new_player\<lparr>py_target := target\<rparr>) (?ks @ ?aes)"
  have all: "read_playlist sent = foldl read_line r ls"
    unfolding read_playlist_def lines r_def foldl_append media_header_read(2) read_keys
    unfolding foldl_Cons foldl_Nil read_other [OF other(1)] read_other [OF other(2)] key_block_append ..
  have r: "py_target r = target" "py_entries r = []" "py_keys r = first_keys base64 p (tr_kind t) periods"
    by (simp_all add: r_def key_block_def new_player_def first_keys_def)
  show "target_duration p t = ok (py_target (read_playlist sent))" using read r all parts(1) by simp
  show "py_entries (read_playlist sent)
      = map (entry_of base64 t 0 (pn_version p) (drop 1 periods) (first_keys base64 p (tr_kind t) periods)) (enumerate 0 ?parts)"
    using read r all by simp
qed

section \<open>How long an entry lasts\<close>

lemma collect_res_mem: "collect_res (map f xs) = Inr ys \<Longrightarrow> x \<in> set xs \<Longrightarrow> \<exists>y \<in> set ys. f x = Inr y"
  by (induction xs arbitrary: ys) (auto simp: and_then_eq_Inr)

lemma longest_upper: "x \<in> set xs \<Longrightarrow> x \<le> longest xs none"
  by (auto simp: longest_def)

lemma whole_seconds_upper:
  assumes "whole_seconds ticks ts = ok s"
  shows "ticks * 1000 div ts \<le> s * 1000"
proof -
  have ts: "0 < ts" "s = div_ceil ticks ts" using assms by (auto simp: whole_seconds_def split: if_splits)
  have "ticks \<le> s * ts"
  proof -
    have "ticks = ts * (ticks div ts) + ticks mod ts" "ticks mod ts < ts" using ts(1) by simp_all
    then have "ticks \<le> ts * (ticks div ts) + ts" by linarith
    then show ?thesis unfolding ts(2) div_ceil_def by (auto simp: algebra_simps)
  qed
  then have "ticks * 1000 div ts \<le> s * 1000 * ts div ts" by (intro div_le_mono) simp
  then show ?thesis using ts(1) by simp
qed

lemma target_duration_upper:
  assumes "target_duration p t = ok target" and "part \<in> set (track_segments (pn_plan p) (tr_id t))"
  shows "sg_duration part * 1000 div tr_timescale t \<le> target * 1000"
proof -
  obtain secs where secs: "collect_res (map (\<lambda>part. whole_seconds (sg_duration part) (tr_timescale t))
      (track_segments (pn_plan p) (tr_id t))) = ok secs" "target = longest secs 1"
    using assms(1) by (auto simp: target_duration_def and_then_eq_Inr)
  from collect_res_mem [OF secs(1) assms(2)] obtain s where s: "s \<in> set secs" "whole_seconds (sg_duration part) (tr_timescale t) = ok s"
    by blast
  have "s \<le> target" unfolding secs(2) by (rule longest_upper [OF s(1)])
  then show ?thesis using whole_seconds_upper [OF s(2)] by (meson le_trans mult_le_mono1)
qed

lemma enumerated_entries:
  "map et_uri (map (entry_of base64 t first version periods current) (enumerate n parts))
     = map (segment_uri version) [n + first..<n + first + length parts]"
  "map et_millis (map (entry_of base64 t first version periods current) (enumerate n parts))
     = map (\<lambda>part. sg_duration part * 1000 div tr_timescale t) parts"
proof -
  show "map et_uri (map (entry_of base64 t first version periods current) (enumerate n parts))
     = map (segment_uri version) [n + first..<n + first + length parts]"
    by (rule nth_equalityI) (simp_all add: entry_of_def nth_enumerate_eq ac_simps)
  show "map et_millis (map (entry_of base64 t first version periods current) (enumerate n parts))
     = map (\<lambda>part. sg_duration part * 1000 div tr_timescale t) parts"
    by (rule nth_equalityI) (simp_all add: entry_of_def nth_enumerate_eq)
qed

section \<open>Session keys\<close>

text \<open>What tells two session keys apart, and which are written.\<close>

definition identity_of :: "(bytes \<Rightarrow> string) \<Rightarrow> content_key \<times> drm_system \<Rightarrow> string option" where
  "identity_of base64 = (\<lambda>(k, s). hls_attributes base64 s None)"

definition session_line :: "(bytes \<Rightarrow> string) \<Rightarrow> content_key \<times> drm_system \<Rightarrow> string" where
  "session_line base64 = (\<lambda>(k, s). key_line ''EXT-X-SESSION-KEY'' (or_text (hls_attributes base64 s (Some (ck_key_id k)))))"

lemma attributes_named: "hls_attributes base64 s None = None \<longleftrightarrow> hls_attributes base64 s k = None"
  by (auto simp: hls_attributes_def)

lemma session_steps:
  assumes "foldl (\<lambda>st (k, system). session_step base64 k st system) (w, seen) uses = (w', seen')"
  shows "\<exists>kept. set kept \<subseteq> set uses \<and> w' = w @ concat (map (session_line base64) kept)
    \<and> map Some seen' = map Some seen @ map (identity_of base64) kept
    \<and> set seen' = set seen \<union> {i. \<exists>u \<in> set uses. identity_of base64 u = Some i} \<and> (distinct seen \<longrightarrow> distinct seen')"
  using assms
proof (induction uses arbitrary: w seen)
  case Nil
  then show ?case by (intro exI [of _ "[]"]) simp
next
  case (Cons u uses)
  obtain k s where u: "u = (k, s)" by fastforce
  obtain w1 seen1 where step: "session_step base64 k (w, seen) s = (w1, seen1)" by fastforce
  have "foldl (\<lambda>st (k, system). session_step base64 k st system) (w1, seen1) uses = (w', seen')"
    using Cons.prems u step by simp
  from Cons.IH [OF this] obtain kept where kept: "set kept \<subseteq> set uses" "w' = w1 @ concat (map (session_line base64) kept)"
    "map Some seen' = map Some seen1 @ map (identity_of base64) kept"
    "set seen' = set seen1 \<union> {i. \<exists>u \<in> set uses. identity_of base64 u = Some i}" "distinct seen1 \<longrightarrow> distinct seen'" by blast
  show ?case
  proof (cases "hls_attributes base64 s None")
    case None
    then have "w1 = w" "seen1 = seen" using step by (auto simp: session_step_def)
    then show ?thesis using kept u None by (intro exI [of _ kept]) (auto simp: identity_of_def)
  next
    case (Some i)
    then obtain a where a: "hls_attributes base64 s (Some (ck_key_id k)) = Some a"
      using attributes_named [of base64 s "Some (ck_key_id k)"] by fastforce
    show ?thesis
    proof (cases "i \<in> set seen")
      case True
      then have "w1 = w" "seen1 = seen" using step Some by (auto simp: session_step_def)
      then show ?thesis using kept u Some True by (intro exI [of _ kept]) (auto simp: identity_of_def)
    next
      case False
      then have new: "w1 = w @ session_line base64 u" "seen1 = seen @ [i]"
        using step Some a u by (auto simp: session_step_def session_line_def or_text_def)
      show ?thesis
        using kept u Some False new by (intro exI [of _ "u # kept"]) (auto simp: identity_of_def)
    qed
  qed
qed

end
