(* ===== verification/Playlist_Properties.thy ===== *)
theory Playlist_Properties
  imports Playlist_Laws Sample_Index_Laws
begin

text \<open>
  Properties of the media playlists and of the session keys, with an asset of two segments whose
  key changes between them.
\<close>

text \<open>C19 (roundtrip). The media playlist of a track, read line by line, lists exactly the segments
  of the track in order: entry number n has the address of segment n and its duration in
  milliseconds, and none lasts longer than the target duration declared.\<close>

theorem playlist_lists_segments:
  assumes "media_playlist base64 p key = ok playlist" and "presented_track p key = ok t"
    and "plain_text base64 p"
  shows "let r = read_playlist playlist; parts = track_segments (pn_plan p) (tr_id t) in
    map et_uri (py_entries r) = map (segment_uri (pn_version p)) [0..<length parts]
    \<and> map et_millis (py_entries r) = map (\<lambda>part. sg_duration part * 1000 div tr_timescale t) parts
    \<and> (\<forall>x \<in> set (py_entries r). et_millis x \<le> py_target r * 1000)"
proof -
  obtain periods where periods: "key_schedule p = ok periods"
    using assms(1,2) by (auto simp: media_playlist_def key_lines_def and_then_eq_Inr)
  note read = media_playlist_read [OF assms(1,2,3) periods]
  have "et_millis x \<le> py_target (read_playlist playlist) * 1000" if "x \<in> set (py_entries (read_playlist playlist))" for x
    using that target_duration_upper [OF read(1)] unfolding read(2)
    by (auto simp: entry_of_def set_zip enumerate_eq_zip)
  then show ?thesis using enumerated_entries [of base64 t 0] by (simp add: read(2) Let_def)
qed

text \<open>Strictly rising places: those up to one place and those below it differ by one at most.\<close>

lemma told_before:
  assumes "sorted_wrt (<) (map f qs)" and "takeWhile (\<lambda>q. f q \<le> i) qs = xs @ [q]" and "\<not> P q" and "0 < (i :: nat)"
  shows "filter P (takeWhile (\<lambda>q. f q \<le> i - 1) qs) = filter P (takeWhile (\<lambda>q. f q \<le> i) qs)"
  using assms
proof (induction qs arbitrary: xs)
  case (Cons y ys)
  show ?case
  proof (cases "xs")
    case Nil
    then have "y = q" "takeWhile (\<lambda>q. f q \<le> i) ys = []" using Cons.prems(2) by (auto split: if_splits)
    then show ?thesis using Cons.prems(3) by (cases ys) (auto split: if_splits)
  next
    case (Cons x xs')
    then have y: "x = y" "f y \<le> i" "takeWhile (\<lambda>q. f q \<le> i) ys = xs' @ [q]" using Cons.prems(2) by (auto split: if_splits)
    then have "q \<in> set ys" "f q \<le> i" using set_takeWhileD [of q "\<lambda>q. f q \<le> i" ys] by auto
    then have "f y < i" using Cons.prems(1) by auto
    then have "f y \<le> i - 1" "f y \<le> i" by simp_all
    then show ?thesis using Cons.IH [OF _ y(3) Cons.prems(3,4)] Cons.prems(1) by simp
  qed
qed simp

text \<open>C20 (safety). The keys a player reads for segment i of an asset whose keys change follow the period
  in force when the segment starts: where it is encrypted, the lines that name its key in every system of
  it that HLS can name; where it has none of those, no line is written, so that the segment stands under
  the keys of the one before it; and where it is clear, no keys at all, or METHOD=NONE.\<close>

theorem playlist_announces_keys:
  assumes "media_playlist base64 p key = ok playlist" and "presented_track p key = ok t"
    and "plain_text base64 p" and "pn_aes128 p = None"
    and e: "pn_encryption p = Some e" "is_rotating e" "key_timeline (en_periods e)"
    and "schedule e (pn_tracks p) (pn_plan p) = ok ps"
    and "timed_plan (pn_tracks p) (pn_plan p) scale starts" and "i < length (pn_plan p)"
    and i: "i < length (py_entries (read_playlist playlist))"
  shows "let keys = (\<lambda>j. et_keys (py_entries (read_playlist playlist) ! j)) in
    case kp_encryption (in_force scale (starts ! 0) (starts ! i) (en_periods e)) of
      Some period \<Rightarrow> keys i =
        (if key_attributes base64 (tr_kind t) period \<noteq> [] then key_attributes base64 (tr_kind t) period
         else if i = 0 then [] else keys (i - 1))
    | None \<Rightarrow> keys i \<in> {[], [''METHOD=NONE'']}"
proof -
  have periods: "key_schedule p = ok ps" using e assms(8) by (simp add: key_schedule_def)
  note read = media_playlist_read [OF assms(1,2,3) periods]
  note force = scheduled_in_force [OF assms(8) e(2,3) assms(9,10)]
  obtain q rest where q: "ps = q # rest" "sc_first_segment q \<le> i"
    using force(1) by (cases ps) (auto split: if_splits)
  have sorted: "sorted_wrt (<) (map sc_first_segment rest)"
    using key_schedule_upcoming(1) [OF periods assms(3)] q(1) by simp
  let ?cur = "key_text base64 (tr_kind t) (sc_encryption q)" and ?k = "period_keys base64 (tr_kind t)"
  have keys: "et_keys (py_entries (read_playlist playlist) ! j) = keys_from base64 (tr_kind t) rest ?cur j"
    if "j \<le> i" for j
    using i that unfolding read(2) by (simp add: q(1) entry_of_def nth_enumerate_eq first_keys_def assms(4))
  have lowest: "takeWhile (\<lambda>q. sc_first_segment q \<le> 0) rest = []"
  proof (cases rest)
    case (Cons y ys)
    have "sc_first_segment q < sc_first_segment y"
      using key_schedule_upcoming(1) [OF periods assms(3)] q(1) Cons by simp
    then show ?thesis using Cons by simp
  qed simp
  show ?thesis
  proof (cases "takeWhile (\<lambda>s. sc_first_segment s \<le> i) rest" rule: rev_cases)
    case Nil
    then have "takeWhile (\<lambda>s. sc_first_segment s \<le> i - 1) rest = []"
      by (cases rest) (auto split: if_splits)
    then have "keys_from base64 (tr_kind t) rest ?cur i = ?cur" "keys_from base64 (tr_kind t) rest ?cur (i - 1) = ?cur"
      using Nil by (simp_all add: keys_from_def)
    moreover have "sc_encryption q = kp_encryption (in_force scale (starts ! 0) (starts ! i) (en_periods e))"
      using force(2) q Nil by simp
    ultimately show ?thesis
      using keys [of i] keys [of "i - 1"] by (auto simp: key_text_def Let_def split: option.split)
  next
    case (snoc xs l)
    then have enc: "sc_encryption l = kp_encryption (in_force scale (starts ! 0) (starts ! i) (en_periods e))"
      using force(2) q by simp
    show ?thesis
    proof (cases "?k l = []")
      case False
      then have "keys_from base64 (tr_kind t) rest ?cur i = ?k l" using snoc by (simp add: keys_from_def)
      then show ?thesis
        using False keys [of i] enc by (auto simp: period_keys_def Let_def split: option.split)
    next
      case True
      then obtain period where period: "sc_encryption l = Some period" "key_attributes base64 (tr_kind t) period = []"
        by (cases "sc_encryption l") (auto simp: period_keys_def)
      have "i \<noteq> 0" using lowest snoc by (cases i) auto
      then have "keys_from base64 (tr_kind t) rest ?cur i = keys_from base64 (tr_kind t) rest ?cur (i - 1)"
        using told_before [OF sorted snoc, of "\<lambda>q. ?k q \<noteq> []"] True by (simp add: keys_from_def)
      then show ?thesis
        using period enc [symmetric] keys [of i] keys [of "i - 1"] \<open>i \<noteq> 0\<close> by (simp add: Let_def)
    qed
  qed
qed

text \<open>(invariant). The master playlist of a sequence names every licence once: each session key
  that any clip may need has a line, and no two lines have the same identity.\<close>

theorem session_keys_once:
  "\<exists>kept. hls_session_keys_for_sequence base64 es = concat (map (session_line base64) kept)
     \<and> set kept \<subseteq> set (session_uses es) \<and> distinct (map (identity_of base64) kept)
     \<and> set (map (identity_of base64) kept) = {i. i \<noteq> None \<and> (\<exists>u \<in> set (session_uses es). identity_of base64 u = i)}"
proof -
  let ?uses = "session_uses es"
  obtain w seen where st: "foldl (\<lambda>st (k, system). session_step base64 k st system) ([], []) ?uses = (w, seen)"
    by fastforce
  from session_steps [OF this] obtain kept where kept: "set kept \<subseteq> set ?uses" "w = concat (map (session_line base64) kept)"
    "map Some seen = map (identity_of base64) kept"
    "set seen = {i. \<exists>u \<in> set ?uses. identity_of base64 u = Some i}" "distinct seen" by auto
  have "distinct (map Some seen)" using kept(5) by (simp add: distinct_map)
  moreover have "set (map Some seen) = {i. i \<noteq> None \<and> (\<exists>u \<in> set ?uses. identity_of base64 u = i)}"
    using kept(4) by auto
  ultimately show ?thesis using kept(1,2) st unfolding kept(3) by (auto simp: hls_session_keys_for_sequence_def)
qed

section \<open>Keyframes\<close>

lemma keyframe_at_ok:
  assumes wf: "index_wf s" and sync: "sync = sync_positions (index_samples s)" and k: "k < length sync"
    and "keyframe_at s sync ending (k, sync ! k) = ok f"
  shows "kf_bytes f = sm_size (index_samples s ! (sync ! k))"
    and "sm_decode_time (index_samples s ! (sync ! k)) + kf_interval f
      = (map (\<lambda>i. sm_decode_time (index_samples s ! i)) sync @ [ending]) ! Suc k"
proof -
  have pos: "sync ! j < index_len s" if "j < length sync" for j
    using nth_mem [OF that] by (simp add: sync sync_positions_def)
  note times = index_decode_time_ok [OF wf pos] index_size_ok [OF wf pos]
  have later: "(case get_at sync (k + 1) of None \<Rightarrow> ok ending | Some later \<Rightarrow> index_decode_time s later)
      = ok ((map (\<lambda>i. sm_decode_time (index_samples s ! i)) sync @ [ending]) ! Suc k)"
  proof (cases "Suc k < length sync")
    case True
    then show ?thesis using times(1) by (simp add: get_at_def nth_append)
  next
    case False
    then have "length sync = Suc k" using k by simp
    then show ?thesis by (simp add: get_at_def nth_append)
  qed
  have "keyframe_at s sync ending (k, sync ! k) =
      and_then (ok_or (checked_sub ((map (\<lambda>i. sm_decode_time (index_samples s ! i)) sync @ [ending]) ! Suc k)
        (sm_decode_time (index_samples s ! (sync ! k)))) (InvalidMedia ''keyframe interval overflow'')) (\<lambda>interval.
        ok \<lparr>kf_interval = interval, kf_bytes = sm_size (index_samples s ! (sync ! k))\<rparr>)"
    unfolding keyframe_at_def split_conv later times(1) [OF k] times(2) [OF k] by simp
  then have "\<exists>interval. checked_sub ((map (\<lambda>i. sm_decode_time (index_samples s ! i)) sync @ [ending]) ! Suc k)
        (sm_decode_time (index_samples s ! (sync ! k))) = Some interval
      \<and> f = \<lparr>kf_interval = interval, kf_bytes = sm_size (index_samples s ! (sync ! k))\<rparr>"
    using assms(4) by (auto simp: and_then_eq_Inr ok_or_def split: option.splits)
  then show "kf_bytes f = sm_size (index_samples s ! (sync ! k))"
    and "sm_decode_time (index_samples s ! (sync ! k)) + kf_interval f
      = (map (\<lambda>i. sm_decode_time (index_samples s ! i)) sync @ [ending]) ! Suc k"
    by (auto simp: checked_sub_def split: if_splits)
qed

lemma keyframes_are:
  assumes wf: "index_wf (tr_samples t)" and "keyframes t = ok frames"
  defines "xs \<equiv> index_samples (tr_samples t)"
  defines "sync \<equiv> sync_positions xs"
  defines "marks \<equiv> map (\<lambda>i. sm_decode_time (xs ! i)) sync @ [sm_decode_time (last xs) + sm_duration (last xs)]"
  shows "length frames = length sync"
    and "k < length sync \<Longrightarrow> kf_bytes (frames ! k) = sm_size (xs ! (sync ! k))"
    and "k < length sync \<Longrightarrow> marks ! k + kf_interval (frames ! k) = marks ! Suc k"
proof -
  obtain final ending where final: "last_opt xs = Some final" "checked_add (sm_decode_time final) (sm_duration final) = Some ending"
    and frames: "collect_res (map (keyframe_at (tr_samples t) sync ending) (enumerate 0 sync)) = ok frames"
    using assms(2) sync_indices_ok [OF wf] index_last_ok [OF wf]
    by (auto simp: keyframes_def and_then_eq_Inr ok_or_def sync_def xs_def simp del: checked_add_def split: option.splits)
  have ending: "ending = sm_decode_time (last xs) + sm_duration (last xs)"
    using final by (auto simp: last_opt_def checked_add_def split: if_splits)
  have eq: "map (keyframe_at (tr_samples t) sync ending) (enumerate 0 sync) = map ok frames"
    using frames by (simp add: collect_res_eq_Inr)
  then show len: "length frames = length sync" by (metis length_enumerate length_map)
  have at: "keyframe_at (tr_samples t) sync ending (k, sync ! k) = ok (frames ! k)" if "k < length sync" for k
    using arg_cong [OF eq, of "\<lambda>l. l ! k"] that len by (simp add: nth_enumerate_eq)
  have sync: "sync = sync_positions (index_samples (tr_samples t))" by (simp add: sync_def xs_def)
  note fields = keyframe_at_ok [OF wf sync _ at, folded xs_def, unfolded ending, folded marks_def]
  show "kf_bytes (frames ! k) = sm_size (xs ! (sync ! k))" if "k < length sync" using fields(1) [OF that that] .
  show "marks ! k + kf_interval (frames ! k) = marks ! Suc k" if "k < length sync"
    using fields(2) [OF that that] that by (simp add: marks_def nth_append)
qed

text \<open>What is written for the keyframes, and how it is read.\<close>

definition iframe_uri :: "string \<Rightarrow> nat \<Rightarrow> string" where
  "iframe_uri version k = ''iframes/'' @ decimal k @ ''/media.m4s?v='' @ version"

lemma iframes_read:
  assumes "collect_res (map (iframe_entry t version) (enumerate n frames)) = ok entries" and "one_line version"
  shows "\<exists>ls. concat entries = in_lines ls \<and> list_all one_line ls
    \<and> (\<forall>r. py_target (foldl read_line r ls) = py_target r
        \<and> py_entries (foldl read_line r ls) = py_entries r @ map (\<lambda>(k, f).
            \<lparr>et_millis = kf_interval f * 1000 div tr_timescale t, et_keys = py_keys r, et_uri = iframe_uri version k\<rparr>)
          (enumerate n frames))"
  using assms(1)
proof (induction frames arbitrary: n entries)
  case Nil
  then show ?case by (intro exI [of _ "[]"]) simp
next
  case (Cons f frames)
  let ?ms = "kf_interval f * 1000 div tr_timescale t"
  let ?ls = "[''#EXTINF:'' @ decimal (?ms div 1000) @ ''.'' @ three_digits (?ms mod 1000) @ '','', iframe_uri version n]"
  obtain ms rest where parts: "milliseconds_of (kf_interval f) (tr_timescale t) ''keyframe interval overflow'' = ok ms"
      "collect_res (map (iframe_entry t version) (enumerate (Suc n) frames)) = ok rest"
      "entries = (duration_line ms @ line_of (''iframes/'' @ decimal n @ ''/media.m4s?v='' @ version)) # rest"
    using Cons.prems by (auto simp: iframe_entry_def and_then_eq_Inr)
  obtain ls where ls: "concat rest = in_lines ls" "list_all one_line ls"
    and IH: "\<And>r. py_target (foldl read_line r ls) = py_target r
        \<and> py_entries (foldl read_line r ls) = py_entries r @ map (\<lambda>(k, f).
            \<lparr>et_millis = kf_interval f * 1000 div tr_timescale t, et_keys = py_keys r, et_uri = iframe_uri version k\<rparr>)
          (enumerate (Suc n) frames)"
    using Cons.IH [OF parts(2)] by blast
  have ms: "ms = ?ms" by (rule milliseconds_of_ok [OF parts(1)])
  have whole: "concat entries = in_lines (?ls @ ls)"
    using ls(1) ms by (simp add: parts(3) duration_line_def iframe_uri_def)
  have plain: "list_all one_line (?ls @ ls)" using ls(2) assms(2) by (simp add: iframe_uri_def three_digits_def)
  have uri: "read_line r (iframe_uri version n) = r\<lparr>py_in_block := False, py_entries := py_entries r
      @ [\<lparr>et_millis = py_pending r, et_keys = py_keys r, et_uri = iframe_uri version n\<rparr>]\<rparr>" for r
    by (rule read_uri [of _ "CHR ''i''" "''frames/'' @ decimal n @ ''/media.m4s?v='' @ version"]) (simp_all add: iframe_uri_def)
  have now: "foldl read_line r ?ls = r\<lparr>py_pending := ?ms, py_in_block := False, py_entries := py_entries r
      @ [\<lparr>et_millis = ?ms, et_keys = py_keys r, et_uri = iframe_uri version n\<rparr>]\<rparr>" for r
    by (simp only: foldl_Cons foldl_Nil read_extinf uri) simp
  show ?case
  proof (intro exI [of _ "?ls @ ls"] conjI allI)
    fix r :: player
    show "py_target (foldl read_line r (?ls @ ls)) = py_target r" unfolding foldl_append now using IH by simp
    show "py_entries (foldl read_line r (?ls @ ls)) = py_entries r @ map (\<lambda>(k, f).
            \<lparr>et_millis = kf_interval f * 1000 div tr_timescale t, et_keys = py_keys r, et_uri = iframe_uri version k\<rparr>)
          (enumerate n (f # frames))"
      unfolding foldl_append now using IH by simp
  qed (use whole plain in simp_all)
qed

lemma iframe_target_upper:
  assumes "collect_res (map (\<lambda>f. whole_seconds (kf_interval f) ts) frames) = ok secs" and "f \<in> set frames"
  shows "kf_interval f * 1000 div ts \<le> longest secs 1 * 1000"
proof -
  obtain s where s: "s \<in> set secs" "whole_seconds (kf_interval f) ts = ok s"
    using collect_res_mem [OF assms] by blast
  have "s \<le> longest secs 1" by (rule longest_upper [OF s(1)])
  then show ?thesis using whole_seconds_upper [OF s(2)] by (meson le_trans mult_le_mono1)
qed

lemma iframe_header_read:
  "media_header n @ line_of ''#EXT-X-I-FRAMES-ONLY'' = in_lines [''#EXTM3U'', ''#EXT-X-VERSION:7'',
     ''#EXT-X-TARGETDURATION:'' @ decimal n, ''#EXT-X-MEDIA-SEQUENCE:0'', ''#EXT-X-PLAYLIST-TYPE:VOD'', ''#EXT-X-I-FRAMES-ONLY'']"
  "foldl read_line r [''#EXTM3U'', ''#EXT-X-VERSION:7'',
     ''#EXT-X-TARGETDURATION:'' @ decimal n, ''#EXT-X-MEDIA-SEQUENCE:0'', ''#EXT-X-PLAYLIST-TYPE:VOD'', ''#EXT-X-I-FRAMES-ONLY''] = r\<lparr>py_target := n\<rparr>"
proof -
  have "other_line ''#EXTM3U''" "other_line ''#EXT-X-VERSION:7''" "other_line ''#EXT-X-MEDIA-SEQUENCE:0''"
    "other_line ''#EXT-X-PLAYLIST-TYPE:VOD''" "other_line ''#EXT-X-I-FRAMES-ONLY''"
    by (simp_all add: other_line_def strip_prefix_def)
  then show "foldl read_line r [''#EXTM3U'', ''#EXT-X-VERSION:7'',
     ''#EXT-X-TARGETDURATION:'' @ decimal n, ''#EXT-X-MEDIA-SEQUENCE:0'', ''#EXT-X-PLAYLIST-TYPE:VOD'', ''#EXT-X-I-FRAMES-ONLY''] = r\<lparr>py_target := n\<rparr>"
    by (simp only: foldl_Cons foldl_Nil read_other read_target)
qed (simp add: media_header_def)

lemma iframe_playlist_read:
  assumes "iframe_playlist base64 p = ok (Some sent)" and t: "video_of p = Some t" and plain: "plain_text base64 p"
  obtains frames secs where "keyframes t = ok frames"
    and "collect_res (map (\<lambda>f. whole_seconds (kf_interval f) (tr_timescale t)) frames) = ok secs"
    and "''#EXT-X-I-FRAMES-ONLY'' \<in> set (split_lines sent)"
    and "py_target (read_playlist sent) = longest secs 1"
    and "py_entries (read_playlist sent) = map (\<lambda>(k, f). \<lparr>et_millis = kf_interval f * 1000 div tr_timescale t,
          et_keys = key_text base64 (tr_kind t) (pn_encryption p), et_uri = iframe_uri (pn_version p) k\<rparr>) (enumerate 0 frames)"
proof -
  let ?ks = "key_text base64 (tr_kind t) (pn_encryption p)" and ?map = "''#EXT-X-MAP:URI='' @ quoted (''init.mp4?v='' @ pn_version p)"
  obtain frames secs keys entries where parts: "\<not> without_iframes p" "keyframes t = ok frames"
      "collect_res (map (\<lambda>f. whole_seconds (kf_interval f) (tr_timescale t)) frames) = ok secs" "key_lines base64 p t = ok keys"
      "collect_res (map (iframe_entry t (pn_version p)) (enumerate 0 frames)) = ok entries"
    and sent: "sent = media_header (longest secs 1) @ line_of ''#EXT-X-I-FRAMES-ONLY'' @ keys @ line_of ?map
      @ concat entries @ line_of ''#EXT-X-ENDLIST''"
    using assms(1,2) by (auto simp: iframe_playlist_def and_then_eq_Inr split: if_splits)
  have periods: "key_schedule p = ok []"
    using parts(1) by (auto simp: without_iframes_def rotating_def key_schedule_def split: option.splits)
  note ks = initial_keys_text [OF parts(4) periods plain, unfolded list.case]
  have version: "one_line (pn_version p)" using plain by (simp add: plain_text_def)
  from iframes_read [OF parts(5) version] obtain ls where ls: "concat entries = in_lines ls" "list_all one_line ls"
    and read: "\<And>r. py_target (foldl read_line r ls) = py_target r
        \<and> py_entries (foldl read_line r ls) = py_entries r @ map (\<lambda>(k, f).
            \<lparr>et_millis = kf_interval f * 1000 div tr_timescale t, et_keys = py_keys r, et_uri = iframe_uri (pn_version p) k\<rparr>)
          (enumerate 0 frames)"
    by blast
  have other: "other_line ?map" "other_line ''#EXT-X-ENDLIST''" by (simp_all add: other_line_def strip_prefix_def)
  let ?header = "[''#EXTM3U'', ''#EXT-X-VERSION:7'', ''#EXT-X-TARGETDURATION:'' @ decimal (longest secs 1),
    ''#EXT-X-MEDIA-SEQUENCE:0'', ''#EXT-X-PLAYLIST-TYPE:VOD'', ''#EXT-X-I-FRAMES-ONLY'']"
  have lines: "split_lines sent = ?header @ map ((@) ''#EXT-X-KEY:'') ?ks @ [?map] @ ls @ [''#EXT-X-ENDLIST'']" (is "_ = ?all")
  proof -
    have eq: "sent = in_lines ?all"
      unfolding sent ks(1) ls(1) using iframe_header_read(1) [of "longest secs 1"] by simp
    have "list_all one_line ?all" using ks(2) ls(2) version by simp
    then show ?thesis unfolding eq by (rule split_in_lines)
  qed
  define r where "r = key_block (new_player\<lparr>py_target := longest secs 1\<rparr>) ?ks"
  have all: "read_playlist sent = foldl read_line r ls"
    unfolding read_playlist_def lines r_def foldl_append iframe_header_read(2) read_keys
    unfolding foldl_Cons foldl_Nil read_other [OF other(1)] read_other [OF other(2)] ..
  have r: "py_target r = longest secs 1" "py_entries r = []" "py_keys r = ?ks"
    by (simp_all add: r_def key_block_def new_player_def)
  show thesis
    by (rule that [OF parts(2,3)]) (use read [of r] r all lines in simp_all)
qed

text \<open>C21 (roundtrip). The I-frame playlist, read line by line, has one entry for each sync sample of
  the video track, in order: entry k has the address of keyframe k and lasts from that sample's decode
  time to the next sync sample's, the last to the end of the track, in milliseconds; so they follow one
  another without a gap.  None lasts longer than the target duration declared, all stand under the keys
  of the asset, and the playlist says that it holds I-frames only.\<close>

theorem iframe_playlist_lists_keyframes:
  assumes "iframe_playlist base64 p = ok (Some sent)" and "video_of p = Some t"
    and "index_wf (tr_samples t)" and "plain_text base64 p"
  shows "let r = read_playlist sent; xs = index_samples (tr_samples t); sync = sync_positions xs;
      marks = map (\<lambda>i. sm_decode_time (xs ! i)) sync @ [sm_decode_time (last xs) + sm_duration (last xs)] in
    map et_uri (py_entries r) = map (\<lambda>k. ''iframes/'' @ decimal k @ ''/media.m4s?v='' @ pn_version p) [0..<length sync]
    \<and> map et_millis (py_entries r) = map (\<lambda>k. (marks ! Suc k - marks ! k) * 1000 div tr_timescale t) [0..<length sync]
    \<and> (\<forall>k < length sync. marks ! k \<le> marks ! Suc k)
    \<and> (\<forall>x \<in> set (py_entries r). et_millis x \<le> py_target r * 1000
         \<and> et_keys x = key_text base64 (tr_kind t) (pn_encryption p))
    \<and> ''#EXT-X-I-FRAMES-ONLY'' \<in> set (split_lines sent)"
proof -
  let ?xs = "index_samples (tr_samples t)"
  let ?sync = "sync_positions ?xs"
  let ?marks = "map (\<lambda>i. sm_decode_time (?xs ! i)) ?sync @ [sm_decode_time (last ?xs) + sm_duration (last ?xs)]"
  obtain frames secs where read: "keyframes t = ok frames"
      "collect_res (map (\<lambda>f. whole_seconds (kf_interval f) (tr_timescale t)) frames) = ok secs"
      "''#EXT-X-I-FRAMES-ONLY'' \<in> set (split_lines sent)" "py_target (read_playlist sent) = longest secs 1"
      "py_entries (read_playlist sent) = map (\<lambda>(k, f). \<lparr>et_millis = kf_interval f * 1000 div tr_timescale t,
          et_keys = key_text base64 (tr_kind t) (pn_encryption p), et_uri = iframe_uri (pn_version p) k\<rparr>) (enumerate 0 frames)"
    by (rule iframe_playlist_read [OF assms(1,2,4)])
  note are = keyframes_are [OF assms(3) read(1)]
  have step: "?marks ! k + kf_interval (frames ! k) = ?marks ! Suc k" if "k < length ?sync" for k using are(3) [OF that] .
  have uris: "map et_uri (py_entries (read_playlist sent)) = map (iframe_uri (pn_version p)) [0..<length ?sync]"
    unfolding read(5) using are(1) by (intro nth_equalityI) (simp_all add: nth_enumerate_eq)
  have gap: "?marks ! Suc k - ?marks ! k = kf_interval (frames ! k)" "?marks ! k \<le> ?marks ! Suc k" if "k < length ?sync" for k
    using step [OF that] by linarith+
  have millis: "map et_millis (py_entries (read_playlist sent)) =
      map (\<lambda>k. (?marks ! Suc k - ?marks ! k) * 1000 div tr_timescale t) [0..<length ?sync]"
    unfolding read(5) using are(1) gap(1) by (intro nth_equalityI) (simp_all add: nth_enumerate_eq del: nth_append)
  have bounds: "\<forall>x \<in> set (py_entries (read_playlist sent)). et_millis x \<le> py_target (read_playlist sent) * 1000
      \<and> et_keys x = key_text base64 (tr_kind t) (pn_encryption p)"
    using iframe_target_upper [OF read(2)] unfolding read(4,5) by (auto simp: enumerate_eq_zip dest: set_zip_rightD)
  show ?thesis
    unfolding Let_def using uris millis gap(2) bounds read(3) by (simp add: iframe_uri_def [abs_def])
qed

section \<open>An asset whose key changes\<close>

definition listed_track :: track where
  "listed_track = \<lparr>tr_id = 1, tr_key = VIDEO_KEY, tr_kind = Video, tr_language = ''und'', tr_timeline_shift = 0,
     tr_timescale = 1000, tr_duration = 8000, tr_codec = Vp9 640 360 ''vp09'', tr_samples = example_index,
     tr_source_protection = None, tr_label = None\<rparr>"

definition listed_plan :: segment_plan where
  "listed_plan = map (\<lambda>n. \<lparr>se_index = n, se_tracks = [\<lparr>sg_track_id = 1, sg_first_sample = 2 * n,
     sg_end_sample = 2 * n + 2, sg_decode_time = 500 + 4000 * n, sg_duration = 4000\<rparr>]\<rparr>) [0, 1]"

definition listed_period :: "byte \<Rightarrow> encryption" where
  "listed_period n = Encryption (All_Keys \<lparr>ck_key_id = replicate 16 n, ck_key = replicate 16 n, ck_iv = replicate 16 n\<rparr>)
     [\<lparr>ds_system_id = FAIRPLAY, ds_pssh = None, ds_license_url = None, ds_hls_uri = Some (''skd://'' @ hex2 (unat n))\<rparr>] []"

definition listed_encryption :: encryption where
  "listed_encryption = Encryption (en_keys (listed_period 1)) (en_systems (listed_period 1))
     [Key_Period 0 None, Key_Period 3000 (Some (listed_period 1))]"

definition listed_presentation :: presentation where
  "listed_presentation = (presentation_new [listed_track] listed_plan ''7'')\<lparr>pn_encryption := Some listed_encryption\<rparr>"

definition no_base64 :: "bytes \<Rightarrow> string" where
  "no_base64 x = ''AA''"

lemma listed_playlist: "\<exists>text'. media_playlist no_base64 listed_presentation VIDEO_KEY = ok text'
    \<and> length (py_entries (read_playlist text')) = 2"
proof -
  have "(case media_playlist no_base64 listed_presentation VIDEO_KEY of
      Inr text' \<Rightarrow> length (py_entries (read_playlist text')) = 2 | Inl _ \<Rightarrow> False)" by code_simp
  then show ?thesis by (auto split: sum.splits)
qed

lemma listed_facts:
  "presented_track listed_presentation VIDEO_KEY = ok listed_track" "plain_text no_base64 listed_presentation"
proof -
  show "presented_track listed_presentation VIDEO_KEY = ok listed_track"
    by (simp add: presented_track_def listed_presentation_def presentation_new_def listed_track_def ok_or_def)
  have "one_line (hex2 (unat (1 :: byte)))" by code_simp
  then have "plain_systems listed_encryption" "plain_systems (listed_period 1)"
    by (simp_all add: plain_systems_def listed_encryption_def listed_period_def)
  then show "plain_text no_base64 listed_presentation"
    by (simp add: plain_text_def no_base64_def listed_presentation_def presentation_new_def listed_encryption_def)
qed

theorem playlist_lists_segments_witness:
  "\<exists>sent. media_playlist no_base64 listed_presentation VIDEO_KEY = ok sent
     \<and> map et_uri (py_entries (read_playlist sent)) = map (segment_uri ''7'') [0, 1]
     \<and> map et_millis (py_entries (read_playlist sent)) = [4000, 4000]"
proof -
  obtain sent where sent: "media_playlist no_base64 listed_presentation VIDEO_KEY = ok sent" using listed_playlist by blast
  have "map sg_duration (track_segments (pn_plan listed_presentation) (tr_id listed_track)) = [4000, 4000]" by code_simp
  moreover from this have "length (track_segments (pn_plan listed_presentation) (tr_id listed_track)) = 2" by (auto dest: arg_cong [of _ _ length])
  moreover have "pn_version listed_presentation = ''7''" "tr_timescale listed_track = 1000"
    by (simp_all add: listed_presentation_def presentation_new_def listed_track_def)
  moreover have "[0..<2] = [0, Suc 0]" by (simp add: upt_rec)
  ultimately show ?thesis using playlist_lists_segments [OF sent listed_facts] sent
    by (auto simp: Let_def map_eq_Cons_conv)
qed

theorem playlist_announces_keys_witness:
  "\<exists>sent. media_playlist no_base64 listed_presentation VIDEO_KEY = ok sent
     \<and> et_keys (py_entries (read_playlist sent) ! 1) = key_attributes no_base64 Video (listed_period 1)"
proof -
  let ?p = listed_presentation
  obtain sent where sent: "media_playlist no_base64 ?p VIDEO_KEY = ok sent" "length (py_entries (read_playlist sent)) = 2"
    using listed_playlist by blast
  have simple: "pn_aes128 ?p = None" "pn_encryption ?p = Some listed_encryption" "is_rotating listed_encryption"
    "key_timeline (en_periods listed_encryption)" "length (pn_plan ?p) = 2" "tr_kind listed_track = Video"
    by (simp_all add: listed_presentation_def presentation_new_def listed_encryption_def is_rotating_def
      key_timeline_def listed_plan_def listed_track_def)
  have "(case schedule listed_encryption (pn_tracks ?p) (pn_plan ?p) of Inr _ \<Rightarrow> True | Inl _ \<Rightarrow> False)" by code_simp
  then obtain ps where ps: "schedule listed_encryption (pn_tracks ?p) (pn_plan ?p) = ok ps" by (auto split: sum.splits)
  have timed: "timed_plan (pn_tracks ?p) (pn_plan ?p) 1000 [500, 4500]"
    by (simp add: timed_plan_def listed_presentation_def presentation_new_def listed_plan_def start_of_def get_at_def
      listed_track_def less_Suc_eq numeral_2_eq_2)
  have force: "kp_encryption (in_force 1000 ([500, 4500] ! 0) ([500, 4500] ! 1) (en_periods listed_encryption)) = Some (listed_period 1)"
    by (simp add: in_force_def has_begun_def listed_encryption_def)
  have "1 < length (pn_plan ?p)" "1 < length (py_entries (read_playlist sent))" using simple(5) sent(2) by simp_all
  note keys = playlist_announces_keys [OF sent(1) listed_facts simple(1-4) ps timed this, unfolded Let_def force]
  have "key_attributes no_base64 Video (listed_period 1) \<noteq> []" by code_simp
  then show ?thesis using keys simple(6) sent(1) by simp
qed

text \<open>
  An asset whose second key is for a system that HLS has no form for: its segment is listed under the
  first key, because no line takes the first one back.
\<close>

definition dash_only_period :: encryption where
  "dash_only_period = Encryption (All_Keys \<lparr>ck_key_id = replicate 16 2, ck_key = replicate 16 2, ck_iv = replicate 16 2\<rparr>)
     [\<lparr>ds_system_id = replicate 16 5, ds_pssh = None, ds_license_url = None, ds_hls_uri = None\<rparr>] []"

definition stale_presentation :: presentation where
  "stale_presentation = (presentation_new [listed_track] listed_plan ''7'')\<lparr>pn_encryption :=
     Some (Encryption (en_keys (listed_period 1)) (en_systems (listed_period 1))
       [Key_Period 0 (Some (listed_period 1)), Key_Period 3000 (Some dash_only_period)])\<rparr>"

theorem unnamed_period_under_old_keys:
  "\<exists>sent. media_playlist no_base64 stale_presentation VIDEO_KEY = ok sent
     \<and> map et_keys (py_entries (read_playlist sent)) =
         [key_attributes no_base64 Video (listed_period 1), key_attributes no_base64 Video (listed_period 1)]
     \<and> key_attributes no_base64 Video (listed_period 1) \<noteq> []"
proof -
  have "(case media_playlist no_base64 stale_presentation VIDEO_KEY of
      Inr sent \<Rightarrow> map et_keys (py_entries (read_playlist sent)) =
         [key_attributes no_base64 Video (listed_period 1), key_attributes no_base64 Video (listed_period 1)]
     | Inl _ \<Rightarrow> False)" by code_simp
  moreover have "key_attributes no_base64 Video (listed_period 1) \<noteq> []" by code_simp
  ultimately show ?thesis by (auto split: sum.splits)
qed

definition keyframe_presentation :: presentation where
  "keyframe_presentation = (presentation_new [listed_track] listed_plan ''7'')\<lparr>pn_iframes := True\<rparr>"

theorem iframe_playlist_lists_keyframes_witness:
  "\<exists>sent. iframe_playlist no_base64 keyframe_presentation = ok (Some sent)
     \<and> map et_uri (py_entries (read_playlist sent)) = [''iframes/0/media.m4s?v=7'']
     \<and> map et_millis (py_entries (read_playlist sent)) = [14]"
proof -
  have "(case iframe_playlist no_base64 keyframe_presentation of Inr (Some sent) \<Rightarrow> True | _ \<Rightarrow> False)" by code_simp
  then obtain sent where sent: "iframe_playlist no_base64 keyframe_presentation = ok (Some sent)"
    by (auto split: sum.splits option.splits)
  have video: "video_of keyframe_presentation = Some listed_track"
    by (simp add: video_of_def keyframe_presentation_def presentation_new_def listed_track_def)
  have samples: "tr_samples listed_track = example_index" "tr_timescale listed_track = 1000" by (simp_all add: listed_track_def)
  have wf: "index_wf (tr_samples listed_track)" unfolding samples by (rule example_index_wf)
  have plain: "plain_text no_base64 keyframe_presentation"
    by (simp add: plain_text_def no_base64_def keyframe_presentation_def presentation_new_def)
  have sync: "sync_positions (index_samples example_index) = [2]" by code_simp
  have times: "sm_decode_time (index_samples example_index ! 2) = 25" "sm_decode_time (last (index_samples example_index)) = 32"
    "sm_duration (last (index_samples example_index)) = 7" by code_simp+
  have version: "pn_version keyframe_presentation = ''7''" by (simp add: keyframe_presentation_def presentation_new_def)
  have zero: "decimal 0 = ''0''" by code_simp
  from iframe_playlist_lists_keyframes [OF sent video wf plain] show ?thesis
    using sent unfolding Let_def samples sync version by (simp add: times zero)
qed

end
