(* ===== verification/Subtitle_Text.thy ===== *)
theory Subtitle_Text
  imports Text_Lines
begin

text \<open>
  Subtitle files as text (\<^verbatim>\<open>src/src/subtitle/mod.rs\<close>): time stamps of WebVTT and SubRip, the cues of a
  SubRip file with their text escaped, and the moving of a timing line.
\<close>

section \<open>Times\<close>

definition clock_ms :: "nat \<Rightarrow> nat \<Rightarrow> nat \<Rightarrow> nat \<Rightarrow> nat option" where
  "clock_ms h m s ms =
     Option.bind (checked_mul h 3600000) (\<lambda>a.
     Option.bind (checked_add a (m * 60000)) (\<lambda>b.
     Option.bind (checked_add b (s * 1000)) (\<lambda>c. checked_add c ms)))"

definition below_sixty :: "nat option \<Rightarrow> nat option" where
  "below_sixty x = Option.bind x (\<lambda>v. if v < 60 then Some v else None)"

definition parse_timestamp :: "string \<Rightarrow> nat option" where
  "parse_timestamp s =
     Option.bind (split_at (\<lambda>c. c = CHR ''.'') s) (\<lambda>(clock, millis).
     if length millis \<noteq> 3 \<or> \<not> list_all is_digit millis then None
     else
       Option.bind
         (case split_parts (CHR '':'') clock of
            [minutes, seconds] \<Rightarrow> Some (Some 0, minutes, seconds)
          | [hours, minutes, seconds] \<Rightarrow> Some (digits_field 2 10 hours, minutes, seconds)
          | _ \<Rightarrow> None) (\<lambda>(hours, minutes, seconds).
       Option.bind hours (\<lambda>h.
       Option.bind (below_sixty (digits_field 2 2 minutes)) (\<lambda>m.
       Option.bind (below_sixty (digits_field 2 2 seconds)) (\<lambda>s.
       Option.bind (parse_unsigned u64_limit millis) (clock_ms h m s))))))"

text \<open>A number in at least two digits.\<close>

definition two_digits :: "nat \<Rightarrow> string" where
  "two_digits n = (if n < 10 then CHR ''0'' # decimal n else decimal n)"

definition millis_text :: "nat \<Rightarrow> string" where
  "millis_text n = [digit_char (n div 100), digit_char (n div 10 mod 10), digit_char (n mod 10)]"

definition format_timestamp :: "nat \<Rightarrow> string" where
  "format_timestamp ms =
     two_digits (ms div 3600000) @ '':'' @ two_digits (ms div 60000 mod 60) @ '':''
     @ two_digits (ms div 1000 mod 60) @ ''.'' @ millis_text (ms mod 1000)"

definition ARROW :: string where "ARROW = ''-->''"

definition timing_text :: "nat \<Rightarrow> nat \<Rightarrow> string" where
  "timing_text from_ms to_ms = format_timestamp from_ms @ '' --> '' @ format_timestamp to_ms"

definition shift_timing_line :: "string \<Rightarrow> nat \<Rightarrow> string option" where
  "shift_timing_line line offset_ms =
     Option.bind (split_text ARROW line) (\<lambda>(start, rest).
     let rest = trim_start rest;
         (ending, settings) =
           (case split_at (\<lambda>c. c = CHR '' '' \<or> c = CHR 0x09) rest of None \<Rightarrow> (rest, []) | Some parts \<Rightarrow> parts)
     in
     Option.bind (Option.bind (parse_timestamp (trim_text start)) (\<lambda>t. checked_add t offset_ms)) (\<lambda>start_ms.
     Option.bind (Option.bind (parse_timestamp ending) (\<lambda>t. checked_add t offset_ms)) (\<lambda>end_ms.
       Some (timing_text start_ms end_ms @ (if settings = [] then [] else '' '' @ trim_start settings)))))"

section \<open>Cues\<close>

record cue =
  cu_start :: nat
  cu_end :: nat
  cu_text :: string

definition cue_text :: "cue \<Rightarrow> string" where
  "cue_text c = line_of [] @ line_of (timing_text (cu_start c) (cu_end c)) @ line_of (cu_text c)"

definition webvtt_from :: "cue list \<Rightarrow> string" where
  "webvtt_from cues = line_of ''WEBVTT'' @ concat (map cue_text (sort_key cu_start cues))"

section \<open>SubRip\<close>

definition srt_timestamp :: "string \<Rightarrow> nat option" where
  "srt_timestamp s =
     Option.bind (split_at (\<lambda>c. c = CHR '','' \<or> c = CHR ''.'') s) (\<lambda>(clock, fraction).
     if fraction = [] \<or> 3 < length fraction \<or> \<not> list_all is_digit fraction then None
     else
       (case split_parts (CHR '':'') clock of
          [hours, minutes, seconds] \<Rightarrow>
            Option.bind (digits_field 1 10 hours) (\<lambda>h.
            Option.bind (below_sixty (digits_field 1 2 minutes)) (\<lambda>m.
            Option.bind (below_sixty (digits_field 1 2 seconds)) (\<lambda>s.
            Option.bind (parse_unsigned u64_limit (fraction @ replicate (3 - length fraction) (CHR ''0'')))
              (clock_ms h m s))))
        | _ \<Rightarrow> None))"

definition srt_timing :: "string \<Rightarrow> (nat \<times> nat) option" where
  "srt_timing line =
     Option.bind (split_text ARROW line) (\<lambda>(start, rest).
     Option.bind (case words_of rest of [] \<Rightarrow> None | ending # _ \<Rightarrow> Some ending) (\<lambda>ending.
     Option.bind (srt_timestamp (trim_text start)) (\<lambda>from_ms.
     Option.bind (srt_timestamp ending) (\<lambda>to_ms. Some (from_ms, to_ms)))))"

text \<open>\<open>u32::from_str_radix\<close> in base 16.\<close>

definition parse_hex :: "string \<Rightarrow> nat option" where
  "parse_hex s =
     (let ds = (case s of c # rest \<Rightarrow> if c = CHR ''+'' then rest else s | [] \<Rightarrow> s);
          vs = map (\<lambda>c. let n = of_char c :: nat in
                 if 48 \<le> n \<and> n \<le> 57 then Some (n - 48) else if 97 \<le> n \<and> n \<le> 102 then Some (n - 87)
                 else if 65 \<le> n \<and> n \<le> 70 then Some (n - 55) else None) ds
      in if ds = [] \<or> None \<in> set vs then None
         else let v = foldl (\<lambda>a d. a * 16 + the d) 0 vs in if v < u32_limit then Some v else None)"

text \<open>An entity WebVTT knows, by its name.\<close>

definition known_entity :: "string \<Rightarrow> bool" where
  "known_entity name \<longleftrightarrow>
     name \<in> {''amp'', ''lt'', ''gt'', ''nbsp'', ''lrm'', ''rlm''}
     \<or> (case name of
          c # digits \<Rightarrow>
            c = CHR ''#''
            \<and> (case digits of
                 x # hex \<Rightarrow>
                   if x = CHR ''x'' \<or> x = CHR ''X'' then hex \<noteq> [] \<and> parse_hex hex \<noteq> None
                   else parse_unsigned u32_limit digits \<noteq> None
               | [] \<Rightarrow> False)
        | [] \<Rightarrow> False)"

definition KEPT_TAGS :: "string list" where
  "KEPT_TAGS = [''b'', ''i'', ''u'', ''/b'', ''/i'', ''/u'']"

definition font_tag :: "string \<Rightarrow> bool" where
  "font_tag tag \<longleftrightarrow> tag = ''font'' \<or> tag = ''/font'' \<or> take 5 tag = ''font ''"

text \<open>The end of a tag that begins here, at most 64 bytes away.\<close>

definition tag_end :: "string \<Rightarrow> nat option" where
  "tag_end s = Option.bind (find_char (CHR ''>'') s) (\<lambda>n. if n \<le> 64 then Some n else None)"

definition tag_name :: "string \<Rightarrow> nat \<Rightarrow> string" where
  "tag_name s n = map lower_char (trim_text (take n s))"

fun srt_text :: "string \<Rightarrow> string" where
  "srt_text [] = []"
| "srt_text (c # s) =
     (if c = CHR ''{'' \<and> take 1 s = [CHR 0x5C] then
        (case find_char (CHR ''}'') s of None \<Rightarrow> c # srt_text s | Some n \<Rightarrow> srt_text (drop (n + 1) s))
      else if c = CHR ''<'' then
        (case tag_end s of
           None \<Rightarrow> ''&lt;'' @ srt_text s
         | Some n \<Rightarrow>
             if tag_name s n \<in> set KEPT_TAGS then ''<'' @ tag_name s n @ ''>'' @ srt_text (drop (n + 1) s)
             else if font_tag (tag_name s n) then srt_text (drop (n + 1) s)
             else ''&lt;'' @ srt_text s)
      else if c = CHR ''>'' then ''&gt;'' @ srt_text s
      else if c = CHR ''&'' then
        (case Option.bind (find_char (CHR '';'') s) (\<lambda>n. if n \<le> 8 then Some n else None) of
           Some n \<Rightarrow> (if known_entity (take n s) then ''&'' else ''&amp;'') @ srt_text s
         | None \<Rightarrow> ''&amp;'' @ srt_text s)
      else c # srt_text s)"

definition looks_like_srt :: "string \<Rightarrow> bool" where
  "looks_like_srt body \<longleftrightarrow>
     list_ex (contains ARROW) (take 3 (filter (\<lambda>l. l \<noteq> []) (map trim_text (split_lines body))))"

text \<open>Carriage returns, alone or before a line feed, are line feeds.\<close>

fun normal_lines :: "string \<Rightarrow> string" where
  "normal_lines [] = []"
| "normal_lines [c] = [if c = CHR 0x0D then CHR 0x0A else c]"
| "normal_lines (c # d # s) =
     (if c = CHR 0x0D \<and> d = CHR 0x0A then CHR 0x0A # normal_lines s
      else (if c = CHR 0x0D then CHR 0x0A else c) # normal_lines (d # s))"

definition blank :: "string \<Rightarrow> bool" where
  "blank l \<longleftrightarrow> trim_text l = []"

definition UNREADABLE :: string where
  "UNREADABLE = ''has a cue timing line that cannot be read''"

definition cue_of :: "nat \<Rightarrow> nat \<Rightarrow> string \<Rightarrow> cue list" where
  "cue_of start ending body =
     (if start < ending \<and> \<not> blank body then [\<lparr>cu_start = start, cu_end = ending, cu_text = body\<rparr>] else [])"

text \<open>The cues of the lines left, and whether a timing line was found.\<close>

function srt_cues :: "bool \<Rightarrow> string list \<Rightarrow> string + cue list \<times> bool" where
  "srt_cues found [] = Inr ([], found)"
| "srt_cues found (l # ls) =
     (if blank l then srt_cues found ls
      else if \<not> contains ARROW (trim_text l) \<and> list_all is_digit (trim_text l) then
        (case ls of
           [] \<Rightarrow> Inr ([], found)
         | timing # ls' \<Rightarrow>
             if \<not> contains ARROW (trim_text timing) then Inl UNREADABLE
             else
               (case srt_timing (trim_text timing) of
                  None \<Rightarrow> Inl UNREADABLE
                | Some (start, ending) \<Rightarrow>
                    and_then (srt_cues True (dropWhile (\<lambda>x. \<not> blank x) ls')) (\<lambda>(cues, found').
                      Inr (cue_of start ending (joined_by [CHR 0x0A]
                        (map (\<lambda>x. srt_text (trim_end x)) (takeWhile (\<lambda>x. \<not> blank x) ls'))) @ cues, found'))))
      else if \<not> contains ARROW (trim_text l) then Inl UNREADABLE
      else
        (case srt_timing (trim_text l) of
           None \<Rightarrow> Inl UNREADABLE
         | Some (start, ending) \<Rightarrow>
             and_then (srt_cues True (dropWhile (\<lambda>x. \<not> blank x) ls)) (\<lambda>(cues, found').
               Inr (cue_of start ending (joined_by [CHR 0x0A]
                 (map (\<lambda>x. srt_text (trim_end x)) (takeWhile (\<lambda>x. \<not> blank x) ls))) @ cues, found'))))"
  by pat_completeness auto
termination
  by (relation "measure (\<lambda>(found, ls). length ls)") (auto simp: le_imp_less_Suc length_dropWhile_le le_SucI)

declare srt_cues.simps [simp del]

definition srt_to_webvtt :: "string \<Rightarrow> string + string" where
  "srt_to_webvtt body =
     and_then (srt_cues False (split_lines (normal_lines body))) (\<lambda>(cues, found).
       if \<not> found then Inl UNREADABLE else Inr (webvtt_from cues))"

end
