(* ===== verification/Ttml_Cues.thy ===== *)
theory Ttml_Cues
  imports Subtitle_Text
begin

text \<open>
  TTML read as cues (\<^verbatim>\<open>src/src/subtitle/ttml.rs\<close>), and a subtitle file made ready to serve
  (\<open>prepare\<close> of \<^verbatim>\<open>src/src/subtitle/mod.rs\<close>).  The XML library is a parameter: a document is the events it
  reports up to the end or to the first error, each with the namespace of its element.
\<close>

section \<open>Events of a document\<close>

record element =
  el_local :: string
  el_attributes :: "(string \<times> string option) list"

text \<open>A reference: what \<open>resolve_char_ref\<close> answers, and the predefined entity of that name.\<close>

datatype xml_event =
    Doc_Type
  | Start_Tag element
  | Empty_Tag element
  | End_Tag
  | Text_Event string
  | CData_Event string
  | Reference "(unit + string option)" "string option"
  | Other_Event

datatype namespace = Bound string | Unbound | Unknown

type_synonym xml_document = "(namespace \<times> xml_event) list \<times> bool"

definition el_attribute :: "element \<Rightarrow> string \<Rightarrow> string option" where
  "el_attribute e name =
     (case List.map_filter (\<lambda>(n, v). if n = name then v else None) (el_attributes e) of
        [] \<Rightarrow> None | v # _ \<Rightarrow> Some v)"

definition is_ttml_namespace :: "string \<Rightarrow> bool" where
  "is_ttml_namespace n \<longleftrightarrow>
     list_ex (\<lambda>p. take (length p) n = p)
       [''http://www.w3.org/ns/ttml'', ''http://www.w3.org/2006/04/ttaf1'', ''http://www.w3.org/2006/10/ttaf1'']"

definition in_ttml :: "namespace \<Rightarrow> bool option" where
  "in_ttml n = (case n of Bound s \<Rightarrow> Some (is_ttml_namespace s) | Unbound \<Rightarrow> None | Unknown \<Rightarrow> Some False)"

section \<open>Recognising a document\<close>

definition strip_start :: "string \<Rightarrow> string \<Rightarrow> string option" where
  "strip_start p s = (if take (length p) s = p then Some (drop (length p) s) else None)"

definition BYTE_ORDER_MARK :: string where
  "BYTE_ORDER_MARK = map char_of [0xEF, 0xBB, 0xBF :: nat]"

definition without_mark :: "string \<Rightarrow> string" where
  "without_mark s = (case strip_start BYTE_ORDER_MARK s of None \<Rightarrow> s | Some rest \<Rightarrow> rest)"

lemma split_text_shorter: "split_text sep s = Some (a, b) \<Longrightarrow> length b \<le> length s"
  by (induction sep s arbitrary: a b rule: split_text.induct) (auto split: if_splits)

text \<open>Past declarations and comments; nothing when one is not closed.\<close>

function past_prologue :: "string \<Rightarrow> string option" where
  "past_prologue s =
     (case strip_start ''<?'' s of
        Some after \<Rightarrow>
          (case split_text ''?>'' after of None \<Rightarrow> None | Some (_, rest) \<Rightarrow> past_prologue (trim_start rest))
      | None \<Rightarrow>
          (case strip_start ''<!--'' s of
             Some after \<Rightarrow>
               (case split_text ARROW after of None \<Rightarrow> None | Some (_, rest) \<Rightarrow> past_prologue (trim_start rest))
           | None \<Rightarrow> Some s))"
  by pat_completeness auto
termination
proof (relation "measure length")
  have shorter: "length (trim_start rest) < length s" if "strip_start p s = Some after" "p \<noteq> []"
    "split_text q after = Some (x, rest)" for p q s after x rest
  proof -
    have "length after < length s" using that(1,2)
      by (cases s) (auto simp: strip_start_def split: if_splits)
    then show ?thesis using split_text_shorter [OF that(3)] trim_start_shorter [of rest] by linarith
  qed
  show "(trim_start rest, s) \<in> measure length"
    if "strip_start ''<?'' s = Some after" "split_text ''?>'' after = Some z" "(x, rest) = z" for s after z x rest
    using shorter [of "''<?''" s after "''?>''" x rest] that by simp
  show "(trim_start rest, s) \<in> measure length"
    if "strip_start ''<!--'' s = Some after" "split_text ARROW after = Some z" "(x, rest) = z" for s after z x rest
    using shorter [of "''<!--''" s after ARROW x rest] that by simp
qed simp

declare past_prologue.simps [simp del]

text \<open>The name of an element: up to white space, \<open>>\<close> or a slash, and behind its last colon.\<close>

fun name_part :: "string \<Rightarrow> string" where
  "name_part [] = []"
| "name_part (c # s) =
     (if leading space_texts (c # s) \<noteq> None \<or> c = CHR ''>'' \<or> c = CHR ''/'' then [] else c # name_part s)"

definition looks_like_ttml :: "string \<Rightarrow> bool" where
  "looks_like_ttml body \<longleftrightarrow>
     (case past_prologue (trim_start (without_mark body)) of
        None \<Rightarrow> False
      | Some rest \<Rightarrow>
          (case strip_start ''<'' rest of
             None \<Rightarrow> False
           | Some named \<Rightarrow> last (split_parts (CHR '':'') (name_part named)) = ''tt''))"

section \<open>Time expressions\<close>

record timing =
  ti_frames_num :: nat
  ti_frames_den :: nat
  ti_ticks_per_second :: nat

definition timing_default :: timing where
  "timing_default = \<lparr>ti_frames_num = 30, ti_frames_den = 1, ti_ticks_per_second = 1\<rparr>"

abbreviation wide_limit :: nat where "wide_limit \<equiv> 340282366920938463463374607431768211456"

definition wide :: "nat \<Rightarrow> nat option" where
  "wide n = (if n < wide_limit then Some n else None)"

text \<open>A decimal number times a fraction, to the nearest whole number.\<close>

definition scaled :: "string \<Rightarrow> nat \<Rightarrow> nat \<Rightarrow> nat option" where
  "scaled number numerator denominator =
     (let (whole, fraction) = (case split_at (\<lambda>c. c = CHR ''.'') number of None \<Rightarrow> (number, []) | Some parts \<Rightarrow> parts)
      in if whole = [] \<and> fraction = [] \<or> \<not> list_all is_digit whole \<or> \<not> list_all is_digit fraction then None
         else
           (let fraction = take 9 fraction; unit = 10 ^ length fraction in
            Option.bind (if whole = [] then Some 0 else parse_unsigned wide_limit whole) (\<lambda>w.
            Option.bind (wide (w * unit)) (\<lambda>wu.
            Option.bind (if fraction = [] then Some 0 else parse_unsigned wide_limit fraction) (\<lambda>f.
            Option.bind (wide ((wu + f) mod wide_limit * numerator)) (\<lambda>n.
            Option.bind (wide (unit * denominator)) (\<lambda>d.
            Option.bind (wide (n + d div 2)) (\<lambda>r. u64_of_nat (r div d))))))))) "

definition frame_time :: "nat \<Rightarrow> timing \<Rightarrow> nat option" where
  "frame_time frames t =
     (let numerator = frames * 1000 mod wide_limit * ti_frames_den t mod wide_limit
      in u64_of_nat ((numerator + ti_frames_num t div 2) mod wide_limit div ti_frames_num t))"

definition clock_time :: "string \<Rightarrow> timing \<Rightarrow> nat option" where
  "clock_time s t =
     Option.bind
       (case split_parts (CHR '':'') s of
          [hours, minutes, seconds] \<Rightarrow> Some (hours, minutes, seconds, None)
        | [hours, minutes, seconds, frames] \<Rightarrow> Some (hours, minutes, seconds, Some frames)
        | _ \<Rightarrow> None) (\<lambda>(hours, minutes, seconds, frames).
     Option.bind (digits_field 2 10 hours) (\<lambda>h.
     Option.bind (below_sixty (digits_field 2 2 minutes)) (\<lambda>m.
     let (whole, fraction) =
           (case split_at (\<lambda>c. c = CHR ''.'') seconds of None \<Rightarrow> (seconds, None) | Some (w, f) \<Rightarrow> (w, Some f))
     in
     Option.bind (below_sixty (digits_field 2 2 whole)) (\<lambda>s.
     Option.bind (clock_ms h m s 0) (\<lambda>ms.
     Option.bind (case fraction of
                    None \<Rightarrow> Some ms
                  | Some f \<Rightarrow> Option.bind (scaled (''0.'' @ f) 1000 1) (checked_add ms)) (\<lambda>ms.
       case frames of
         None \<Rightarrow> Some ms
       | Some fs \<Rightarrow>
           Option.bind (digits_field 2 10 (hd (split_parts (CHR ''.'') fs))) (\<lambda>n.
           Option.bind (frame_time n t) (checked_add ms))))))))"

definition strip_end :: "string \<Rightarrow> string \<Rightarrow> string option" where
  "strip_end p s = map_option rev (strip_start (rev p) (rev s))"

text \<open>The first of the metrics the text ends with, and what is before it.\<close>

fun metric_of :: "string list \<Rightarrow> string \<Rightarrow> (string \<times> string) option" where
  "metric_of [] s = None"
| "metric_of (m # ms) s = (case strip_end m s of Some number \<Rightarrow> Some (number, m) | None \<Rightarrow> metric_of ms s)"

definition offset_time :: "string \<Rightarrow> timing \<Rightarrow> nat option" where
  "offset_time s t =
     Option.bind (metric_of [''ms'', ''h'', ''m'', ''s'', ''f'', ''t''] s) (\<lambda>(number, metric).
       if metric = ''h'' then scaled number 3600000 1
       else if metric = ''m'' then scaled number 60000 1
       else if metric = ''s'' then scaled number 1000 1
       else if metric = ''ms'' then scaled number 1 1
       else if metric = ''f'' then scaled number (wmul64 1000 (ti_frames_den t)) (ti_frames_num t)
       else scaled number 1000 (ti_ticks_per_second t))"

definition parse_time :: "string \<Rightarrow> timing \<Rightarrow> nat option" where
  "parse_time s t =
     (let s = trim_text s in if CHR '':'' \<in> set s then clock_time s t else offset_time s t)"

section \<open>The converter\<close>

record style =
  sy_italic :: bool
  sy_bold :: bool
  sy_underline :: bool

definition no_style :: style where
  "no_style = \<lparr>sy_italic = False, sy_bold = False, sy_underline = False\<rparr>"

definition style_or :: "style \<Rightarrow> style \<Rightarrow> style" where
  "style_or a b = \<lparr>sy_italic = (sy_italic a \<or> sy_italic b), sy_bold = (sy_bold a \<or> sy_bold b),
     sy_underline = (sy_underline a \<or> sy_underline b)\<rparr>"

definition style_without :: "style \<Rightarrow> style \<Rightarrow> style" where
  "style_without a b = \<lparr>sy_italic = (sy_italic a \<and> \<not> sy_italic b), sy_bold = (sy_bold a \<and> \<not> sy_bold b),
     sy_underline = (sy_underline a \<and> \<not> sy_underline b)\<rparr>"

record style_definition =
  sd_own :: style
  sd_references :: "string list"

datatype element_kind = Body | Div | Paragraph_Kind | Span | Other_Kind

record open_element =
  oe_kind :: element_kind
  oe_begin :: nat
  oe_end :: "nat option"
  oe_restore :: style
  oe_opened :: style

record open_paragraph =
  pa_start :: nat
  pa_end :: "nat option"
  pa_text :: string
  pa_preserve :: bool

record converter =
  co_timing :: timing
  co_styles :: "string \<Rightarrow> style_definition option"
  co_stack :: "open_element list"
  co_effective :: style
  co_written :: style
  co_paragraph :: "open_paragraph option"
  co_cues :: "cue list"
  co_namespaced :: bool
  co_seen_root :: bool

definition MAX_DEPTH :: nat where "MAX_DEPTH = 64"
definition MAX_STYLE_DEPTH :: nat where "MAX_STYLE_DEPTH = 8"
definition MAX_TEXT_BYTES :: nat where "MAX_TEXT_BYTES = 64 * 1024"

definition MALFORMED :: string where "MALFORMED = ''is not well-formed XML''"

definition own_style :: "element \<Rightarrow> style" where
  "own_style e =
     \<lparr>sy_italic = (case el_attribute e ''fontStyle'' of None \<Rightarrow> False | Some v \<Rightarrow> trim_text v \<in> {''italic'', ''oblique''}),
      sy_bold = (case el_attribute e ''fontWeight'' of None \<Rightarrow> False | Some v \<Rightarrow> trim_text v = ''bold''),
      sy_underline = (case el_attribute e ''textDecoration'' of None \<Rightarrow> False
        | Some v \<Rightarrow> list_ex (\<lambda>w. w = ''underline'') (words_of v))\<rparr>"

text \<open>A style through its references; \<open>depth\<close> bounds how far they are followed.\<close>

fun referenced :: "(string \<Rightarrow> style_definition option) \<Rightarrow> nat \<Rightarrow> string \<Rightarrow> style" where
  "referenced styles 0 name = no_style"
| "referenced styles (Suc depth) name =
     (case styles name of
        None \<Rightarrow> no_style
      | Some d \<Rightarrow> foldl (\<lambda>st i. style_or st (referenced styles depth i)) (sd_own d) (sd_references d))"

definition style_of :: "(string \<Rightarrow> style_definition option) \<Rightarrow> element \<Rightarrow> style" where
  "style_of styles e =
     foldl (\<lambda>st i. style_or st (referenced styles MAX_STYLE_DEPTH i)) (own_style e)
       (words_of (case el_attribute e ''style'' of None \<Rightarrow> [] | Some v \<Rightarrow> v))"

definition define_style :: "element \<Rightarrow> (string \<Rightarrow> style_definition option) \<Rightarrow> string \<Rightarrow> style_definition option" where
  "define_style e styles =
     (case el_attribute e ''id'' of
        None \<Rightarrow> styles
      | Some i \<Rightarrow> styles(i \<mapsto> \<lparr>sd_own = own_style e,
          sd_references = (case el_attribute e ''style'' of None \<Rightarrow> [] | Some v \<Rightarrow> words_of v)\<rparr>))"

definition number_attribute :: "element \<Rightarrow> string \<Rightarrow> nat option" where
  "number_attribute e name = Option.bind (el_attribute e name) (\<lambda>v. parse_unsigned u64_limit (trim_text v))"

text \<open>The multiplier of the frame rate, as two numbers.\<close>

definition multiplier_of :: "string \<Rightarrow> (nat \<times> nat) option" where
  "multiplier_of v =
     (case words_of v of
        a # b # _ \<Rightarrow>
          (case (parse_unsigned u64_limit a, parse_unsigned u64_limit b) of
             (Some p, Some q) \<Rightarrow> if p = 0 \<or> q = 0 then None else Some (p, q)
           | _ \<Rightarrow> None)
      | _ \<Rightarrow> None)"

definition read_parameters :: "element \<Rightarrow> string + timing" where
  "read_parameters e =
     (if (case el_attribute e ''timeBase'' of None \<Rightarrow> False | Some b \<Rightarrow> b \<noteq> ''media'')
      then Inl ''uses a time base other than media, which is not supported''
      else
        (let rate = number_attribute e ''frameRate''; base = (case rate of None \<Rightarrow> 30 | Some r \<Rightarrow> r) in
         and_then
           (case el_attribute e ''frameRateMultiplier'' of
              None \<Rightarrow> Inr (base, 1)
            | Some v \<Rightarrow>
                (case multiplier_of v of
                   None \<Rightarrow> Inl ''has a frame rate multiplier that cannot be read''
                 | Some (p, q) \<Rightarrow> Inr (saturating_mul base p, q))) (\<lambda>(numerator, denominator).
         if numerator = 0 then Inl ''has a frame rate of zero''
         else
           (let sub_frames = (case number_attribute e ''subFrameRate'' of None \<Rightarrow> 1 | Some n \<Rightarrow> n);
                ticks = (case number_attribute e ''tickRate'' of
                           Some n \<Rightarrow> n
                         | None \<Rightarrow> (case rate of None \<Rightarrow> 1 | Some r \<Rightarrow> saturating_mul r sub_frames))
            in if ticks = 0 then Inl ''has a tick rate of zero''
               else Inr \<lparr>ti_frames_num = numerator, ti_frames_den = denominator, ti_ticks_per_second = ticks\<rparr>))))"

definition UNREADABLE_TIME :: string where
  "UNREADABLE_TIME = ''has a time expression that cannot be read''"

definition time_attribute :: "timing \<Rightarrow> element \<Rightarrow> string \<Rightarrow> string + nat option" where
  "time_attribute t e name =
     (case el_attribute e name of
        None \<Rightarrow> Inr None
      | Some v \<Rightarrow> (case parse_time v t of None \<Rightarrow> Inl UNREADABLE_TIME | Some ms \<Rightarrow> Inr (Some ms)))"

definition readable :: "nat option \<Rightarrow> string + nat" where
  "readable x = (case x of None \<Rightarrow> Inl UNREADABLE_TIME | Some v \<Rightarrow> Inr v)"

definition element_times :: "timing \<Rightarrow> element \<Rightarrow> nat \<Rightarrow> nat option \<Rightarrow> string + nat \<times> nat option" where
  "element_times t e parent_begin parent_end =
     and_then (time_attribute t e ''begin'') (\<lambda>b.
     and_then (readable (checked_add parent_begin (case b of None \<Rightarrow> 0 | Some v \<Rightarrow> v))) (\<lambda>start.
     and_then (time_attribute t e ''end'') (\<lambda>ending.
     and_then (time_attribute t e ''dur'') (\<lambda>duration.
       case (ending, duration) of
         (Some v, _) \<Rightarrow> and_then (readable (checked_add parent_begin v)) (\<lambda>x. Inr (start, Some x))
       | (None, Some d) \<Rightarrow> and_then (readable (checked_add start d)) (\<lambda>x. Inr (start, Some x))
       | (None, None) \<Rightarrow> Inr (start, parent_end)))))"

text \<open>The tags of a style: opened in order, or closed in the reverse order.\<close>

definition style_tags :: "style \<Rightarrow> string list" where
  "style_tags st = (if sy_italic st then [''i''] else []) @ (if sy_bold st then [''b''] else [])
     @ (if sy_underline st then [''u''] else [])"

definition tags_text :: "style \<Rightarrow> bool \<Rightarrow> string" where
  "tags_text st opening =
     (if opening then concat (map (\<lambda>n. ''<'' @ n @ ''>'') (style_tags st))
      else concat (map (\<lambda>n. ''</'' @ n @ ''>'') (rev (style_tags st))))"

definition append_text :: "string \<Rightarrow> open_paragraph option \<Rightarrow> open_paragraph option" where
  "append_text s = map_option (\<lambda>p. p\<lparr>pa_text := pa_text p @ s\<rparr>)"

definition kind_of :: "bool \<Rightarrow> string \<Rightarrow> bool \<Rightarrow> element_kind" where
  "kind_of recognized name in_paragraph =
     (if \<not> recognized then Other_Kind
      else if name = ''body'' then Body
      else if name = ''div'' then Div
      else if name = ''p'' then Paragraph_Kind
      else if name = ''span'' \<and> in_paragraph then Span
      else Other_Kind)"

text \<open>The root: what it has to be, and what it says of times.\<close>

definition enter_root :: "element \<Rightarrow> bool option \<Rightarrow> converter \<Rightarrow> string + converter" where
  "enter_root e ttml c =
     (if co_seen_root c then Inr c
      else if el_local e \<noteq> ''tt'' then Inl ''does not have a tt root element''
      else and_then (read_parameters e) (\<lambda>t.
        Inr (c\<lparr>co_seen_root := True, co_namespaced := (ttml = Some True), co_timing := t\<rparr>)))"

definition recognized :: "converter \<Rightarrow> bool option \<Rightarrow> bool" where
  "recognized c ttml \<longleftrightarrow> ttml = Some True \<or> \<not> co_namespaced c \<and> ttml = None"

text \<open>What a style or a line break leaves behind.\<close>

definition note_element :: "converter \<Rightarrow> element \<Rightarrow> bool option \<Rightarrow> converter" where
  "note_element c e ttml =
     (if \<not> recognized c ttml then c
      else if el_local e = ''style'' then c\<lparr>co_styles := define_style e (co_styles c)\<rparr>
      else if el_local e = ''br'' then c\<lparr>co_paragraph := append_text [CHR 0x0A] (co_paragraph c)\<rparr>
      else c)"

definition new_paragraph :: "element \<Rightarrow> nat \<Rightarrow> nat option \<Rightarrow> open_paragraph" where
  "new_paragraph e start ending =
     \<lparr>pa_start = start, pa_end = ending, pa_text = [], pa_preserve = (el_attribute e ''space'' = Some ''preserve'')\<rparr>"

definition push_element :: "converter \<Rightarrow> element \<Rightarrow> element_kind \<Rightarrow> nat \<Rightarrow> nat option \<Rightarrow> string + converter" where
  "push_element c e kind start ending =
     (let effective = (if kind \<noteq> Other_Kind then style_or (co_effective c) (style_of (co_styles c) e) else co_effective c);
          tagged = (kind = Paragraph_Kind \<or> kind = Span);
          opened = (if tagged then style_without effective (co_written c) else no_style);
          current = (if kind = Paragraph_Kind then Some (new_paragraph e start ending) else co_paragraph c)
      in if kind = Paragraph_Kind \<and> co_paragraph c \<noteq> None then Inl ''nests a paragraph in a paragraph''
         else Inr (c\<lparr>co_effective := effective,
           co_paragraph := (if tagged then append_text (tags_text opened True) current else current),
           co_written := (if tagged then style_or (co_written c) opened else co_written c),
           co_stack := \<lparr>oe_kind = kind, oe_begin = start, oe_end = ending, oe_restore = co_effective c, oe_opened = opened\<rparr>
             # co_stack c\<rparr>))"

definition start_element :: "converter \<Rightarrow> element \<Rightarrow> bool option \<Rightarrow> string + converter" where
  "start_element c e ttml =
     (if MAX_DEPTH \<le> length (co_stack c) then Inl ''is nested too deeply''
      else
        and_then (enter_root e ttml c) (\<lambda>c.
        let kind = kind_of (recognized c ttml) (el_local e) (co_paragraph c \<noteq> None);
            (parent_begin, parent_end) =
              (case co_stack c of [] \<Rightarrow> (0, None) | f # _ \<Rightarrow> (oe_begin f, oe_end f))
        in
        and_then (element_times (co_timing c) e parent_begin parent_end) (\<lambda>(start, ending).
          push_element (note_element c e ttml) e kind start ending)))"

definition tidy_line :: "string \<Rightarrow> string" where
  "tidy_line l = joined_by '' '' (filter (\<lambda>w. w \<noteq> []) (split_parts (CHR '' '') l))"

definition tidy :: "string \<Rightarrow> bool \<Rightarrow> string" where
  "tidy s preserve =
     (if preserve
      then rev (dropWhile (\<lambda>c. c = CHR 0x0A) (rev (dropWhile (\<lambda>c. c = CHR 0x0A) s)))
      else joined_by [CHR 0x0A] (filter (\<lambda>l. l \<noteq> []) (map tidy_line (split_parts (CHR 0x0A) s))))"

text \<open>The paragraph that ends becomes a cue when it has a text and lasts.\<close>

definition finish_paragraph :: "converter \<Rightarrow> string + converter" where
  "finish_paragraph c =
     (case co_paragraph c of
        None \<Rightarrow> Inl MALFORMED
      | Some p \<Rightarrow>
          (case pa_end p of
             None \<Rightarrow> Inl ''has a cue with no end time''
           | Some ending \<Rightarrow>
               Inr (c\<lparr>co_paragraph := None,
                 co_cues := co_cues c @ cue_of (pa_start p) ending (tidy (pa_text p) (pa_preserve p))\<rparr>)))"

definition end_element :: "converter \<Rightarrow> string + converter" where
  "end_element c =
     (case co_stack c of
        [] \<Rightarrow> Inl MALFORMED
      | f # stack \<Rightarrow>
          (let c = c\<lparr>co_stack := stack\<rparr>;
               c = (if oe_kind f = Paragraph_Kind \<or> oe_kind f = Span
                    then c\<lparr>co_paragraph := append_text (tags_text (oe_opened f) False) (co_paragraph c),
                      co_written := style_without (co_written c) (oe_opened f)\<rparr>
                    else c);
               c = c\<lparr>co_effective := oe_restore f\<rparr>
           in if oe_kind f = Paragraph_Kind then finish_paragraph c else Inr c))"

text \<open>A character of the text, escaped.\<close>

definition escaped_char :: "bool \<Rightarrow> char \<Rightarrow> string" where
  "escaped_char preserve c =
     (if c = CHR ''&'' then ''&amp;''
      else if c = CHR ''<'' then ''&lt;''
      else if c = CHR ''>'' then ''&gt;''
      else if \<not> preserve \<and> (c = CHR 0x0A \<or> c = CHR 0x0D \<or> c = CHR 0x09) then '' ''
      else [c])"

definition add_text :: "converter \<Rightarrow> string \<Rightarrow> string + converter" where
  "add_text c s =
     (case co_paragraph c of
        None \<Rightarrow> Inr c
      | Some p \<Rightarrow>
          (let t = pa_text p @ concat (map (escaped_char (pa_preserve p)) s)
           in if MAX_TEXT_BYTES < length t then Inl ''has a cue with too much text''
              else Inr (c\<lparr>co_paragraph := Some (p\<lparr>pa_text := t\<rparr>)\<rparr>)))"

definition convert_event :: "converter \<Rightarrow> namespace \<times> xml_event \<Rightarrow> string + converter" where
  "convert_event c = (\<lambda>(n, event).
     case event of
       Doc_Type \<Rightarrow> Inl ''has a DOCTYPE, which is not accepted''
     | Start_Tag e \<Rightarrow> start_element c e (in_ttml n)
     | Empty_Tag e \<Rightarrow> and_then (start_element c e (in_ttml n)) end_element
     | End_Tag \<Rightarrow> end_element c
     | Text_Event s \<Rightarrow> add_text c s
     | CData_Event s \<Rightarrow> add_text c s
     | Reference char predefined \<Rightarrow>
         (case char of
            Inl _ \<Rightarrow> Inl MALFORMED
          | Inr (Some s) \<Rightarrow> add_text c s
          | Inr None \<Rightarrow>
              (case predefined of None \<Rightarrow> Inl ''uses an entity it does not define'' | Some s \<Rightarrow> add_text c s))
     | Other_Event \<Rightarrow> Inr c)"

definition converter_new :: converter where
  "converter_new = \<lparr>co_timing = timing_default, co_styles = (\<lambda>_. None), co_stack = [], co_effective = no_style,
     co_written = no_style, co_paragraph = None, co_cues = [], co_namespaced = False, co_seen_root = False\<rparr>"

definition ttml_cues :: "xml_document \<Rightarrow> string + cue list" where
  "ttml_cues = (\<lambda>(events, complete).
     and_then (try_fold convert_event converter_new events) (\<lambda>c.
       if \<not> complete \<or> \<not> co_seen_root c \<or> co_stack c \<noteq> [] then Inl MALFORMED else Inr (co_cues c)))"

section \<open>Preparing a file\<close>

definition line_break :: "char \<Rightarrow> bool" where
  "line_break c \<longleftrightarrow> c = CHR 0x0A \<or> c = CHR 0x0D"

text \<open>\<open>str::split_inclusive\<close> at line feeds and carriage returns.\<close>

fun split_inclusive :: "string \<Rightarrow> string list" where
  "split_inclusive [] = []"
| "split_inclusive (c # s) =
     (if line_break c then [c] # split_inclusive s
      else (case split_inclusive s of [] \<Rightarrow> [[c]] | p # ps \<Rightarrow> (c # p) # ps))"

definition content_of_line :: "string \<Rightarrow> string" where
  "content_of_line l = rev (dropWhile line_break (rev l))"

definition shift_piece :: "nat \<Rightarrow> string \<Rightarrow> string option" where
  "shift_piece offset_ms l =
     (let content = content_of_line l; terminator = drop (length content) l in
      if contains ARROW content then map_option (\<lambda>t. t @ terminator) (shift_timing_line content offset_ms)
      else Some (content @ terminator))"

fun shift_pieces :: "nat \<Rightarrow> string list \<Rightarrow> string option" where
  "shift_pieces offset_ms [] = Some []"
| "shift_pieces offset_ms (l # ls) =
     Option.bind (shift_piece offset_ms l) (\<lambda>a. map_option ((@) a) (shift_pieces offset_ms ls))"

definition has_webvtt_header :: "string \<Rightarrow> bool" where
  "has_webvtt_header body \<longleftrightarrow>
     (case strip_start ''WEBVTT'' body of
        None \<Rightarrow> False
      | Some [] \<Rightarrow> True
      | Some (c # _) \<Rightarrow> c = CHR '' '' \<or> c = CHR 0x09 \<or> line_break c)"

text \<open>The conversion of a file that is not WebVTT; \<open>xml\<close> is the XML library.\<close>

definition converted_text :: "(string \<Rightarrow> xml_document) \<Rightarrow> string \<Rightarrow> string + string option" where
  "converted_text xml body =
     (if has_webvtt_header body then Inr None
      else if looks_like_ttml body then and_then (ttml_cues (xml body)) (\<lambda>cues. Inr (Some (webvtt_from cues)))
      else if looks_like_srt body then and_then (srt_to_webvtt body) (\<lambda>t. Inr (Some t))
      else Inl ''does not begin with WEBVTT and is neither SubRip (SRT) nor TTML'')"

definition refuse :: "string \<Rightarrow> string \<Rightarrow> 'a res" where
  "refuse language reason = fail (InvalidMedia (''subtitle `'' @ language @ ''`: '' @ reason))"

definition prepare :: "(string \<Rightarrow> xml_document) \<Rightarrow> string \<Rightarrow> string \<Rightarrow> nat \<Rightarrow> string res" where
  "prepare xml language text_bytes offset_ms =
     (if \<not> utf8_valid (map of_char text_bytes) then refuse language ''is not UTF-8 (convert the file to UTF-8)''
      else
        (let body = without_mark text_bytes in
         case converted_text xml body of
           Inl reason \<Rightarrow> refuse language reason
         | Inr converted \<Rightarrow>
             (case shift_pieces offset_ms (split_inclusive (case converted of None \<Rightarrow> body | Some t \<Rightarrow> t)) of
                None \<Rightarrow> refuse language ''has a cue timing line that cannot be read''
              | Some shifted \<Rightarrow>
                  ok (if offset_ms = 0 \<and> converted = None then text_bytes else shifted))))"

end
