(* ===== verification/Subtitle_Laws.thy ===== *)
theory Subtitle_Laws
  imports Ttml_Cues
begin

text \<open>
  Times written are read back; a line of a WebVTT file as a player sees it, and what moving the pieces of a
  file does to them; the texts of the cues read from SubRip and TTML never look like a timing line.
\<close>

section \<open>Time stamps\<close>

definition TIMESTAMP_LIMIT :: nat where
  "TIMESTAMP_LIMIT = 3600000 * 10 ^ 10"

lemma length_decimal: "n < 10 ^ k \<Longrightarrow> 0 < k \<Longrightarrow> length (decimal n) \<le> k"
proof (induction n arbitrary: k rule: decimal.induct)
  case (1 n)
  show ?case
  proof (cases "n < 10")
    case True
    then show ?thesis using 1(3) by (subst decimal.simps) simp
  next
    case False
    then obtain k' where k: "k = Suc k'" "0 < k'" using 1(2,3) by (cases k; cases "k - 1") auto
    then have "n div 10 < 10 ^ k'" using 1(2) by (simp add: less_mult_imp_div_less mult.commute)
    then show ?thesis using 1(1) [OF False _ k(2)] False k by (subst decimal.simps) simp
  qed
qed

lemma two_digits_field:
  assumes "n < 10 ^ k" and "2 \<le> k" and "k \<le> 19" and "low \<le> 2"
  shows "digits_field low k (two_digits n) = Some n"
proof -
  have digits: "list_all is_digit (two_digits n)" using decimal_digits [of n] by (simp add: two_digits_def is_digit_def)
  have val: "digits_value (two_digits n) = n"
  proof -
    have "digits_value (CHR ''0'' # ds) = digits_value ds" for ds by (simp add: digits_value_def digit_value_def)
    then show ?thesis by (simp add: two_digits_def)
  qed
  have "length (decimal n) = 1" if "n < 10" using that by (subst decimal.simps) simp
  moreover have "2 \<le> length (decimal n)" if "\<not> n < 10"
  proof -
    have "decimal n = decimal (n div 10) @ [digit_char (n mod 10)]" using that by (subst decimal.simps) simp
    then show ?thesis by (cases "decimal (n div 10)") auto
  qed
  ultimately have len: "2 \<le> length (two_digits n)" "length (two_digits n) \<le> k"
    using length_decimal [OF assms(1)] assms(2) by (auto simp: two_digits_def)
  have "(10 :: nat) ^ k \<le> 10 ^ 19" using assms(3) by (intro power_increasing) auto
  then have "n < u64_limit" using assms(1) by simp
  moreover have "hd (two_digits n) \<noteq> CHR ''+''" "two_digits n \<noteq> []"
    using digits plus_not_digit len(1) by (cases "two_digits n"; auto)+
  ultimately show ?thesis using digits val len assms(4)
    by (auto simp: digits_field_def parse_unsigned_def Let_def split: list.splits)
qed

lemma split_at_first: "\<forall>c \<in> set a. \<not> P c \<Longrightarrow> P d \<Longrightarrow> split_at P (a @ d # b) = Some (a, b)"
  by (induction a) auto

lemma split_parts_one: "c \<notin> set a \<Longrightarrow> split_parts c a = [a]"
  by (induction a) auto

lemma split_parts_first: "c \<notin> set a \<Longrightarrow> split_parts c (a @ c # s) = a # split_parts c s"
  by (induction a) auto

lemma digits_only: "list_all is_digit s \<Longrightarrow> \<not> is_digit c \<Longrightarrow> c \<notin> set s"
  by (auto simp: list_all_iff)

lemma not_digits [simp]: "\<not> is_digit (CHR '':'')" "\<not> is_digit (CHR ''.'')" "\<not> is_digit (CHR ''-'')"
  "\<not> is_digit (CHR '' '')" "\<not> is_digit (CHR 0x0A)" "\<not> is_digit (CHR 0x0D)" "\<not> is_digit (CHR 0x09)"
  by (simp_all add: is_digit_def)

lemma two_digits_digits [simp]: "list_all is_digit (two_digits n)"
  using decimal_digits [of n] by (simp add: two_digits_def is_digit_def)

lemma two_digits_nonempty [simp]: "two_digits n \<noteq> []"
  by (simp add: two_digits_def)

lemma millis_text_facts:
  assumes "n < 1000"
  shows "list_all is_digit (millis_text n)" "length (millis_text n) = 3" "parse_unsigned u64_limit (millis_text n) = Some n"
proof -
  have parts: "n div 100 < 10" "n div 10 mod 10 < 10" "n mod 10 < 10" using assms by auto
  show digits: "list_all is_digit (millis_text n)" using parts by (simp add: millis_text_def)
  show "length (millis_text n) = 3" by (simp add: millis_text_def)
  have "n div 100 = n div 10 div 10" by (simp add: div_mult2_eq [symmetric])
  moreover have "n = 10 * (n div 10) + n mod 10" "n div 10 = 10 * (n div 10 div 10) + n div 10 mod 10" by simp_all
  ultimately have "100 * (n div 100) + 10 * (n div 10 mod 10) + n mod 10 = n" by linarith
  then have val: "digits_value (millis_text n) = n" using parts by (simp add: millis_text_def digits_value_def algebra_simps)
  have "hd (millis_text n) \<noteq> CHR ''+''" using digits plus_not_digit by (auto simp: millis_text_def)
  then show "parse_unsigned u64_limit (millis_text n) = Some n"
    using digits val assms unfolding parse_unsigned_def by (auto simp: millis_text_def Let_def)
qed

lemma clock_of_parts:
  assumes "t < u64_limit"
  shows "clock_ms (t div 3600000) (t div 60000 mod 60) (t div 1000 mod 60) (t mod 1000) = Some t"
proof -
  have a: "t = 1000 * (t div 1000) + t mod 1000" by simp
  have b: "t div 1000 = 60 * (t div 1000 div 60) + t div 1000 mod 60" by simp
  have c: "t div 1000 div 60 = 60 * (t div 1000 div 60 div 60) + t div 1000 div 60 mod 60" by simp
  have e: "t div 60000 = t div 1000 div 60" "t div 3600000 = t div 1000 div 60 div 60" by (simp_all add: div_mult2_eq [symmetric])
  have all: "t div 3600000 * 3600000 + t div 60000 mod 60 * 60000 + t div 1000 mod 60 * 1000 + t mod 1000 = t"
    using a b c unfolding e by linarith
  then show ?thesis using assms by (simp add: clock_ms_def checked_mul_def checked_add_def)
qed

lemma parse_format:
  assumes "t < TIMESTAMP_LIMIT"
  shows "parse_timestamp (format_timestamp t) = Some t"
proof -
  let ?h = "two_digits (t div 3600000)" and ?m = "two_digits (t div 60000 mod 60)" and ?s = "two_digits (t div 1000 mod 60)"
  have colon: "CHR '':'' \<notin> set (two_digits n)" and dot: "CHR ''.'' \<notin> set (two_digits n)" for n
    using digits_only [OF two_digits_digits] by simp_all
  have shape: "format_timestamp t = (?h @ '':'' @ ?m @ '':'' @ ?s) @ CHR ''.'' # millis_text (t mod 1000)"
    by (simp add: format_timestamp_def)
  have "split_at (\<lambda>c. c = CHR ''.'') (format_timestamp t) = Some (?h @ '':'' @ ?m @ '':'' @ ?s, millis_text (t mod 1000))"
    unfolding shape by (rule split_at_first) (use dot in auto)
  moreover have "split_parts (CHR '':'') (?h @ '':'' @ ?m @ '':'' @ ?s) = [?h, ?m, ?s]"
    using colon by (simp add: split_parts_first split_parts_one)
  moreover have "digits_field 2 10 ?h = Some (t div 3600000)"
    using assms by (intro two_digits_field) (auto simp: TIMESTAMP_LIMIT_def less_mult_imp_div_less)
  moreover have "digits_field 2 2 (two_digits n) = Some n" if "n < 60" for n
    using that by (intro two_digits_field) auto
  moreover have "clock_ms (t div 3600000) (t div 60000 mod 60) (t div 1000 mod 60) (t mod 1000) = Some t"
    using assms by (intro clock_of_parts) (simp add: TIMESTAMP_LIMIT_def)
  ultimately show ?thesis
    using millis_text_facts [of "t mod 1000"] by (simp add: parse_timestamp_def below_sixty_def)
qed

section \<open>White space around a time\<close>

lemma space_texts_eval: "space_texts = [[CHR 0x09], [CHR 0x0A], [CHR 0x0B], [CHR 0x0C], [CHR 0x0D], [CHR 0x20],
   [CHR 0xC2, CHR 0x85], [CHR 0xC2, CHR 0xA0], [CHR 0xE1, CHR 0x9A, CHR 0x80],
   [CHR 0xE2, CHR 0x80, CHR 0x80], [CHR 0xE2, CHR 0x80, CHR 0x81], [CHR 0xE2, CHR 0x80, CHR 0x82], [CHR 0xE2, CHR 0x80, CHR 0x83],
   [CHR 0xE2, CHR 0x80, CHR 0x84], [CHR 0xE2, CHR 0x80, CHR 0x85], [CHR 0xE2, CHR 0x80, CHR 0x86], [CHR 0xE2, CHR 0x80, CHR 0x87],
   [CHR 0xE2, CHR 0x80, CHR 0x88], [CHR 0xE2, CHR 0x80, CHR 0x89], [CHR 0xE2, CHR 0x80, CHR 0x8A],
   [CHR 0xE2, CHR 0x80, CHR 0xA8], [CHR 0xE2, CHR 0x80, CHR 0xA9], [CHR 0xE2, CHR 0x80, CHR 0xAF],
   [CHR 0xE2, CHR 0x81, CHR 0x9F], [CHR 0xE3, CHR 0x80, CHR 0x80]]"
  by code_simp

lemma digit_not_space: "is_digit c \<Longrightarrow> leading space_texts (c # s) = None \<and> leading (map rev space_texts) (c # s) = None"
  unfolding leading_def find_None_iff space_texts_eval by (auto simp: is_digit_def)

lemma blank_leads: "leading space_texts (CHR '' '' # s) = Some '' ''" "leading (map rev space_texts) (CHR '' '' # s) = Some '' ''"
  unfolding leading_def space_texts_eval by simp_all

lemma trim_start_digit: "is_digit c \<Longrightarrow> trim_start (c # s) = c # s"
  by (simp add: trim_start_def digit_not_space)

lemma trim_start_blank: "trim_start (CHR '' '' # s) = trim_start s"
  by (simp add: trim_start_def blank_leads)

lemma trim_end_digit: "is_digit c \<Longrightarrow> trim_end (s @ [c]) = s @ [c]"
  by (simp add: trim_end_def digit_not_space)

lemma trim_end_blank: "trim_end (s @ '' '') = trim_end s"
  by (simp add: trim_end_def blank_leads)

lemma format_ends:
  obtains c s d where "format_timestamp t = c # s @ [d]" "is_digit c" "is_digit d"
proof -
  obtain c s where cs: "two_digits (t div 3600000) = c # s" "is_digit c"
    using two_digits_digits [of "t div 3600000"] by (cases "two_digits (t div 3600000)") auto
  have "is_digit (digit_char (t mod 1000 mod 10))" by simp
  with that show thesis using cs unfolding format_timestamp_def millis_text_def by simp
qed

lemma trim_format: "trim_text (format_timestamp t @ '' '') = format_timestamp t"
  "trim_start ('' '' @ format_timestamp t @ s) = format_timestamp t @ s"
proof -
  obtain c x d where f: "format_timestamp t = c # x @ [d]" "is_digit c" "is_digit d" by (rule format_ends)
  have "trim_end (c # x @ [d]) = c # x @ [d]" using trim_end_digit [OF f(3), of "c # x"] by simp
  then show "trim_text (format_timestamp t @ '' '') = format_timestamp t"
    using f trim_end_blank [of "c # x @ [d]"] by (simp add: trim_text_def trim_start_digit)
  show "trim_start ('' '' @ format_timestamp t @ s) = format_timestamp t @ s"
    using f by (simp add: trim_start_blank trim_start_digit)
qed

lemma split_text_first: "CHR ''-'' \<notin> set p \<Longrightarrow> split_text ARROW (p @ ARROW @ r) = Some (p, r)"
  by (induction p) (auto simp: ARROW_def)

lemma format_chars: "c \<in> set (format_timestamp t) \<Longrightarrow> is_digit c \<or> c = CHR '':'' \<or> c = CHR ''.''"
  using two_digits_digits by (auto simp: format_timestamp_def millis_text_def list_all_iff)

lemma format_free:
  assumes "\<not> is_digit c" and "c \<noteq> CHR '':''" and "c \<noteq> CHR ''.''"
  shows "c \<notin> set (format_timestamp t)"
  using assms format_chars by blast

section \<open>Timing lines\<close>

text \<open>The times of a timing line, and what follows them.\<close>

definition timing_of :: "string \<Rightarrow> ((nat \<times> nat) \<times> string) option" where
  "timing_of line =
     Option.bind (split_text ARROW line) (\<lambda>(start, rest).
     let (ending, settings) =
       (case split_at (\<lambda>c. c = CHR '' '' \<or> c = CHR 0x09) (trim_start rest) of None \<Rightarrow> (trim_start rest, []) | Some parts \<Rightarrow> parts)
     in
     Option.bind (parse_timestamp (trim_text start)) (\<lambda>a.
     Option.bind (parse_timestamp ending) (\<lambda>b. Some ((a, b), settings))))"

definition settings_text :: "string \<Rightarrow> string" where
  "settings_text settings = (if settings = [] then [] else '' '' @ trim_start settings)"

lemma shift_of_timing:
  "shift_timing_line line offset_ms =
     Option.bind (timing_of line) (\<lambda>((a, b), settings).
       if a + offset_ms < u64_limit \<and> b + offset_ms < u64_limit
       then Some (timing_text (a + offset_ms) (b + offset_ms) @ settings_text settings) else None)"
proof (cases "split_text ARROW line")
  case (Some parts)
  obtain start rest where parts: "parts = (start, rest)" by fastforce
  obtain ending settings where tail: "(case split_at (\<lambda>c. c = CHR '' '' \<or> c = CHR 0x09) (trim_start rest) of
      None \<Rightarrow> (trim_start rest, []) | Some parts \<Rightarrow> parts) = (ending, settings)" by (rule prod.exhaust)
  show ?thesis
    by (cases "parse_timestamp (trim_text start)"; cases "parse_timestamp ending")
      (simp_all add: shift_timing_line_def timing_of_def settings_text_def Let_def Some parts tail checked_add_def)
qed (simp add: shift_timing_line_def timing_of_def)

lemma split_at_none: "\<forall>c \<in> set s. \<not> P c \<Longrightarrow> split_at P s = None"
  by (induction s) auto

lemma timing_of_written:
  assumes "a < TIMESTAMP_LIMIT" and "b < TIMESTAMP_LIMIT"
  shows "timing_of (timing_text a b @ settings_text settings) = Some ((a, b), trim_start settings)"
proof -
  have shape: "timing_text a b @ s = (format_timestamp a @ '' '') @ ARROW @ '' '' @ format_timestamp b @ s" for s
    by (simp add: timing_text_def ARROW_def)
  have split: "split_text ARROW (timing_text a b @ s) = Some (format_timestamp a @ '' '', '' '' @ format_timestamp b @ s)" for s
    unfolding shape by (rule split_text_first) (use format_free [of "CHR ''-''" a] in simp)
  have blanks: "\<forall>c \<in> set (format_timestamp b). \<not> (c = CHR '' '' \<or> c = CHR 0x09)"
    using format_free [of "CHR '' ''" b] format_free [of "CHR 0x09" b] by auto
  have "(case split_at (\<lambda>c. c = CHR '' '' \<or> c = CHR 0x09) (format_timestamp b @ settings_text settings) of
      None \<Rightarrow> (format_timestamp b @ settings_text settings, []) | Some parts \<Rightarrow> parts)
    = (format_timestamp b, trim_start settings)"
    using split_at_none [OF blanks] split_at_first [OF blanks, of "CHR '' ''" "trim_start settings"]
    by (simp add: settings_text_def trim_start_def)
  then show ?thesis
    unfolding timing_of_def split by (simp only: Option.bind.simps split_conv trim_format parse_format assms Let_def)
qed

section \<open>Lines of a file\<close>

lemma split_text_Some: "split_text sep s = Some (a, b) \<Longrightarrow> s = a @ sep @ b"
proof (induction sep s arbitrary: a b rule: split_text.induct)
  case (2 sep c s)
  show ?case
  proof (cases "take (length sep) (c # s) = sep")
    case True
    then have "a = []" "b = drop (length sep) (c # s)" using 2(2) by simp_all
    then show ?thesis using append_take_drop_id [of "length sep" "c # s"] True by simp
  next
    case False
    then show ?thesis using 2 by (auto split: if_splits)
  qed
qed (auto split: if_splits)

lemma contains_iff: "contains sub s \<longleftrightarrow> (\<exists>a b. s = a @ sub @ b)"
proof
  assume "contains sub s"
  then show "\<exists>a b. s = a @ sub @ b" using split_text_Some by (fastforce simp: contains_def)
next
  have "split_text sub (a @ sub @ b) \<noteq> None" for a b
  proof (induction a)
    case Nil
    have "take (length sub) (sub @ b) = sub" by simp
    then show ?case by (cases "sub @ b") (auto simp del: take_append)
  qed auto
  then show "\<exists>a b. s = a @ sub @ b \<Longrightarrow> contains sub s" by (auto simp: contains_def)
qed

lemma contains_part: "contains sub s \<Longrightarrow> contains sub (x @ s @ y)"
  unfolding contains_iff by (metis append.assoc)

definition breakless :: "string \<Rightarrow> bool" where
  "breakless s \<longleftrightarrow> (\<forall>c \<in> set s. \<not> line_break c)"

text \<open>Pieces that end in one line break, the last of them perhaps in none.\<close>

fun pieces_ok :: "string list \<Rightarrow> bool" where
  "pieces_ok [] \<longleftrightarrow> True"
| "pieces_ok (l # ls) \<longleftrightarrow> l \<noteq> [] \<and> breakless (butlast l) \<and> (ls = [] \<or> line_break (last l)) \<and> pieces_ok ls"

lemma split_inclusive_ok: "pieces_ok (split_inclusive s)" "concat (split_inclusive s) = s"
proof (induction s rule: split_inclusive.induct)
  case (2 c s)
  {
    case 1
    show ?case using 2(1,3) by (auto simp: breakless_def split: list.split)
  next
    case 2
    show ?case using "2.IH"(2,4) by (auto split: list.split)
  }
qed simp_all

lemma split_inclusive_piece: "breakless x \<Longrightarrow> line_break b \<Longrightarrow> split_inclusive (x @ b # s) = (x @ [b]) # split_inclusive s"
  by (induction x) (auto simp: breakless_def)

lemma split_inclusive_open: "breakless x \<Longrightarrow> x \<noteq> [] \<Longrightarrow> split_inclusive x = [x]"
proof (induction x)
  case (Cons c x)
  then show ?case by (cases "x = []") (auto simp: breakless_def)
qed simp

lemma split_inclusive_concat: "pieces_ok ls \<Longrightarrow> split_inclusive (concat ls) = ls"
proof (induction ls)
  case (Cons l ls)
  then have l: "l = butlast l @ [last l]" "breakless (butlast l)" by simp_all
  show ?case
  proof (cases "line_break (last l)")
    case True
    have "split_inclusive (butlast l @ last l # concat ls) = (butlast l @ [last l]) # split_inclusive (concat ls)"
      by (rule split_inclusive_piece [OF l(2) True])
    moreover have "butlast l @ last l # concat ls = concat (l # ls)" using l(1) by (metis append.assoc append_Cons append_Nil concat.simps(2))
    ultimately show ?thesis using Cons l(1) by simp
  next
    case False
    then have "ls = []" using Cons.prems by simp
    moreover have "breakless l"
    proof -
      have "set l = insert (last l) (set (butlast l))" using arg_cong [OF l(1), of set] by simp
      then show ?thesis using l(2) False by (auto simp: breakless_def)
    qed
    ultimately show ?thesis using Cons.prems split_inclusive_open by simp
  qed
qed simp

lemma split_inclusive_append:
  assumes "a = [] \<or> line_break (last a)"
  shows "split_inclusive (a @ b) = split_inclusive a @ split_inclusive b"
  using assms
proof (induction a)
  case (Cons c a)
  show ?case
  proof (cases "a = []")
    case True
    then show ?thesis using Cons.prems by simp
  next
    case False
    then have ih: "split_inclusive (a @ b) = split_inclusive a @ split_inclusive b" using Cons by simp
    have "split_inclusive a \<noteq> []" using False split_inclusive_ok(2) [of a] by auto
    then show ?thesis using ih by (auto split: list.split)
  qed
qed simp

lemma content_of_parts: "breakless x \<Longrightarrow> \<forall>c \<in> set t. line_break c \<Longrightarrow> content_of_line (x @ t) = x"
proof -
  assume x: "breakless x" and "\<forall>c \<in> set t. line_break c"
  then have "dropWhile line_break (rev t @ rev x) = dropWhile line_break (rev x)" by (simp add: dropWhile_append)
  also have "\<dots> = rev x" using x by (cases x rule: rev_cases) (auto simp: breakless_def)
  finally show ?thesis by (simp add: content_of_line_def)
qed

text \<open>A piece is its content and at most one line break.\<close>

definition piece_parts :: "string \<Rightarrow> string \<Rightarrow> string \<Rightarrow> bool" where
  "piece_parts l x t \<longleftrightarrow> l = x @ t \<and> l \<noteq> [] \<and> breakless x \<and> (t = [] \<or> (\<exists>b. t = [b] \<and> line_break b))"

lemma piece_parts_ok: "piece_parts l x t \<Longrightarrow> content_of_line l = x \<and> drop (length x) l = t
    \<and> l \<noteq> [] \<and> breakless (butlast l) \<and> (line_break (last l) \<longleftrightarrow> t \<noteq> [])"
  using content_of_parts [of x t] by (auto simp: piece_parts_def breakless_def dest: in_set_butlastD)

lemma pieces_have_parts:
  assumes "pieces_ok (l # ls)"
  shows "\<exists>x t. piece_parts l x t \<and> (ls = [] \<or> t \<noteq> [])"
proof (cases "line_break (last l)")
  case True
  then show ?thesis using assms
    by (intro exI [of _ "butlast l"] exI [of _ "[last l]"]) (simp add: piece_parts_def)
next
  case False
  have "l = butlast l @ [last l]" using assms by simp
  then have "set l = set (butlast l @ [last l])" by (rule arg_cong)
  then have "set l = insert (last l) (set (butlast l))" by simp
  then have "breakless l" using False assms by (auto simp: breakless_def)
  then show ?thesis using assms False by (intro exI [of _ l] exI [of _ "[]"]) (simp add: piece_parts_def)
qed

lemma set_strip_leading: "set (strip_leading ps s) \<subseteq> set s"
proof (induction ps s rule: strip_leading.induct)
  case (2 ps c s)
  then show ?case using set_drop_subset [of _ s] by (auto split: option.split dest: subsetD in_set_dropD)
qed simp

lemma split_at_subset: "split_at P s = Some (a, b) \<Longrightarrow> set a \<union> set b \<subseteq> set s"
proof (induction P s arbitrary: a b rule: split_at.induct)
  case (2 P c s)
  show ?case
  proof (cases "P c")
    case False
    then obtain a' where "split_at P s = Some (a', b)" "a = c # a'" using 2(2) by auto
    then show ?thesis using 2(1) [OF False] by auto
  qed (use 2(2) in auto)
qed simp

lemma timing_settings: 
  assumes "timing_of line = Some (t, settings)"
  shows "set settings \<subseteq> set line"
proof -
  obtain start rest where split: "split_text ARROW line = Some (start, rest)"
    using assms by (cases "split_text ARROW line") (auto simp: timing_of_def)
  have rest: "set (trim_start rest) \<subseteq> set line"
    using split_text_Some [OF split] set_strip_leading [of space_texts rest] by (auto simp: trim_start_def)
  show ?thesis
  proof (cases "split_at (\<lambda>c. c = CHR '' '' \<or> c = CHR 0x09) (trim_start rest)")
    case None
    then have "settings = []" using assms split by (auto simp: timing_of_def Option.bind_eq_Some_conv)
    then show ?thesis by simp
  next
    case (Some parts)
    obtain ending settings' where parts: "parts = (ending, settings')" by fastforce
    then have "settings = settings'" using assms split Some by (auto simp: timing_of_def Option.bind_eq_Some_conv)
    then have "set settings \<subseteq> set (trim_start rest)" using split_at_subset [OF Some [unfolded parts]] by simp
    then show ?thesis using rest by simp
  qed
qed

lemma strip_leading_again: "strip_leading ps (strip_leading ps s) = strip_leading ps s"
  by (induction ps s rule: strip_leading.induct) (simp_all split: option.split)

lemma format_breakless: "breakless (timing_text a b)"
  using format_free [of "CHR 0x0A"] format_free [of "CHR 0x0D"]
  by (auto simp: breakless_def line_break_def timing_text_def)

text \<open>A line as a player sees it: left alone, or its times, its settings and its line break.\<close>

definition line_view :: "string \<Rightarrow> string + (((nat \<times> nat) \<times> string) option \<times> string)" where
  "line_view l =
     (let x = content_of_line l in
      if contains ARROW x
      then Inr (map_option (\<lambda>(t, settings). (t, trim_start settings)) (timing_of x), drop (length x) l)
      else Inl l)"

definition moved_view ::
    "nat \<Rightarrow> string + (((nat \<times> nat) \<times> string) option \<times> string) \<Rightarrow> string + (((nat \<times> nat) \<times> string) option \<times> string)" where
  "moved_view offset_ms v =
     (case v of Inl l \<Rightarrow> Inl l
      | Inr (t, b) \<Rightarrow> Inr (map_option (\<lambda>((from_ms, to_ms), settings). ((from_ms + offset_ms, to_ms + offset_ms), settings)) t, b))"

text \<open>No time of a line leaves what a time stamp can be.\<close>

definition view_below :: "nat \<Rightarrow> string + (((nat \<times> nat) \<times> string) option \<times> string) \<Rightarrow> bool" where
  "view_below limit v \<longleftrightarrow>
     (case v of Inr (Some ((from_ms, to_ms), settings), b) \<Rightarrow> from_ms < limit \<and> to_ms < limit | _ \<Rightarrow> True)"

lemma shift_piece_view:
  assumes parts: "piece_parts l x t" and shifted: "shift_piece offset_ms l = Some l'"
    and below: "view_below TIMESTAMP_LIMIT (moved_view offset_ms (line_view l))"
  shows "\<exists>x'. piece_parts l' x' t" and "line_view l' = moved_view offset_ms (line_view l)"
proof -
  note l = piece_parts_ok [OF parts]
  have "(\<exists>x'. piece_parts l' x' t) \<and> line_view l' = moved_view offset_ms (line_view l)"
  proof (cases "contains ARROW x")
    case False
    then have "l' = l" using shifted l parts by (auto simp: shift_piece_def piece_parts_def)
    then show ?thesis using parts False l by (auto simp: line_view_def moved_view_def)
  next
    case True
    then obtain y where y: "shift_timing_line x offset_ms = Some y" "l' = y @ t"
      using shifted l by (auto simp: shift_piece_def)
    then obtain a b settings where times: "timing_of x = Some ((a, b), settings)"
      "y = timing_text (a + offset_ms) (b + offset_ms) @ settings_text settings"
      by (auto simp: shift_of_timing Option.bind_eq_Some_conv split: if_splits)
    have small: "a + offset_ms < TIMESTAMP_LIMIT" "b + offset_ms < TIMESTAMP_LIMIT"
      using below l True times by (simp_all add: line_view_def moved_view_def view_below_def)
    have "set (settings_text settings) \<subseteq> insert (CHR '' '') (set settings)"
      using set_strip_leading [of space_texts settings] by (auto simp: settings_text_def trim_start_def)
    then have "breakless (settings_text settings)"
      using timing_settings [OF times(1)] parts by (auto simp: breakless_def piece_parts_def line_break_def)
    then have "breakless y" using format_breakless by (auto simp: times(2) breakless_def)
    then have parts': "piece_parts l' y t" using parts y(2) by (auto simp: piece_parts_def times(2) timing_text_def)
    have "contains ARROW y"
      unfolding contains_iff times(2) timing_text_def ARROW_def 
      by (intro exI [of _ "format_timestamp (a + offset_ms) @ '' ''"]
        exI [of _ "'' '' @ format_timestamp (b + offset_ms) @ settings_text settings"]) simp
    moreover have "timing_of y = Some ((a + offset_ms, b + offset_ms), trim_start settings)"
      unfolding times(2) by (rule timing_of_written [OF small])
    ultimately show ?thesis
      using parts' piece_parts_ok [OF parts'] l True times(1)
      by (auto simp: line_view_def moved_view_def trim_start_def strip_leading_again)
  qed
  then show "\<exists>x'. piece_parts l' x' t" and "line_view l' = moved_view offset_ms (line_view l)" by blast+
qed

lemma shift_pieces_view:
  assumes "shift_pieces offset_ms ls = Some s" and "pieces_ok ls"
    and "\<forall>l \<in> set ls. view_below TIMESTAMP_LIMIT (moved_view offset_ms (line_view l))"
  shows "\<exists>ls'. s = concat ls' \<and> pieces_ok ls' \<and> map line_view ls' = map (moved_view offset_ms \<circ> line_view) ls"
  using assms
proof (induction ls arbitrary: s)
  case (Cons l ls)
  obtain l' s' where step: "shift_piece offset_ms l = Some l'" "shift_pieces offset_ms ls = Some s'" "s = l' @ s'"
    using Cons.prems(1) by (auto simp: Option.bind_eq_Some_conv)
  obtain x t where parts: "piece_parts l x t" "ls = [] \<or> t \<noteq> []" using pieces_have_parts [OF Cons.prems(2)] by blast
  have below: "view_below TIMESTAMP_LIMIT (moved_view offset_ms (line_view l))" using Cons.prems(3) by simp
  obtain x' where x': "piece_parts l' x' t" using shift_piece_view(1) [OF parts(1) step(1) below] by blast
  obtain ls' where ls': "s' = concat ls'" "pieces_ok ls'" "map line_view ls' = map (moved_view offset_ms \<circ> line_view) ls"
    using Cons.IH [OF step(2)] Cons.prems(2,3) by auto
  have "ls' = [] \<longleftrightarrow> ls = []" using ls'(3) by (metis list.map_disc_iff)
  then have "pieces_ok (l' # ls')" using piece_parts_ok [OF x'] parts(2) ls'(2) by auto
  moreover have "map line_view (l' # ls') = map (moved_view offset_ms \<circ> line_view) (l # ls)"
    using shift_piece_view(2) [OF parts(1) step(1) below] ls'(3) by simp
  ultimately show ?case using step(3) ls'(1) by (intro exI [of _ "l' # ls'"]) simp
qed simp

section \<open>Cue text\<close>

text \<open>Every greater-than sign ends a tag: the character before it is a letter of one.\<close>

definition TAG_LETTERS :: "char set" where
  "TAG_LETTERS = {CHR ''b'', CHR ''i'', CHR ''u''}"

fun closes_from :: "bool \<Rightarrow> string \<Rightarrow> bool" where
  "closes_from a [] \<longleftrightarrow> True"
| "closes_from a (c # s) \<longleftrightarrow> (c = CHR ''>'' \<longrightarrow> a) \<and> closes_from (c \<in> TAG_LETTERS) s"

definition closes :: "string \<Rightarrow> bool" where
  "closes s \<longleftrightarrow> closes_from False s"

lemma closes_append_from:
  "closes_from a (x @ y) \<longleftrightarrow> closes_from a x \<and> closes_from (if x = [] then a else last x \<in> TAG_LETTERS) y"
  by (induction x arbitrary: a) auto

lemma closes_mono: "closes_from False s \<Longrightarrow> closes_from a s"
  by (cases s) auto

lemma closes_append [intro]: "closes x \<Longrightarrow> closes y \<Longrightarrow> closes (x @ y)"
  using closes_mono by (auto simp: closes_def closes_append_from)

lemma closes_prefix: "closes (x @ y) \<Longrightarrow> closes x"
  by (simp add: closes_def closes_append_from)

lemma closes_after: "closes (x @ c # y) \<Longrightarrow> c \<notin> TAG_LETTERS \<Longrightarrow> closes y"
  by (auto simp: closes_def closes_append_from)

lemma closes_plain: "CHR ''>'' \<notin> set s \<Longrightarrow> closes s"
proof -
  have "CHR ''>'' \<notin> set s \<Longrightarrow> closes_from a s" for a by (induction s arbitrary: a) auto
  then show "CHR ''>'' \<notin> set s \<Longrightarrow> closes s" by (simp add: closes_def)
qed

lemma closes_concat: "\<forall>x \<in> set xs. closes x \<Longrightarrow> closes (concat xs)"
  by (induction xs) (auto simp: closes_plain)

lemma closes_joined: "\<forall>x \<in> set xs. closes x \<Longrightarrow> closes sep \<Longrightarrow> closes (joined_by sep xs)"
  by (induction sep xs rule: joined_by.induct) (auto simp: closes_plain)

lemma closes_no_arrow: "closes s \<Longrightarrow> \<not> contains ARROW s"
  unfolding contains_iff closes_def ARROW_def
  by (auto simp: closes_append_from TAG_LETTERS_def)

lemma closes_parts:
  assumes "closes s" and "c \<notin> TAG_LETTERS" and "part \<in> set (split_parts c s)"
  shows "closes part"
proof -
  have "closes_from a s \<Longrightarrow> split_parts c s = q # qs \<Longrightarrow> closes_from a q \<and> (\<forall>x \<in> set qs. closes x)" for a q qs
  proof (induction s arbitrary: a q qs)
    case (Cons x s)
    obtain q' qs' where parts: "split_parts c s = q' # qs'" by (cases s; cases "split_parts c s") (auto split: if_splits list.splits)
    have "closes_from (x \<in> TAG_LETTERS) q' \<and> (\<forall>x \<in> set qs'. closes x)"
      using Cons.IH [OF _ parts, of "x \<in> TAG_LETTERS"] Cons.prems(1) by simp
    then show ?case using Cons.prems(1) Cons.prems(2) [symmetric] assms(2)
      by (cases "x = c") (auto simp: closes_def parts)
  qed simp
  then show ?thesis using assms(1,3) by (cases "split_parts c s") (auto simp: closes_def)
qed

lemma kept_tag: "name \<in> set KEPT_TAGS \<Longrightarrow> closes (''<'' @ name @ ''>'')"
  by (auto simp: KEPT_TAGS_def closes_def TAG_LETTERS_def)

lemma srt_text_closes: "closes (srt_text s)"
proof (induction s rule: srt_text.induct)
  case (2 c s)
  have one: "closes (x @ srt_text y)" if "closes x" "closes (srt_text y)" for x y using that by blast
  show ?case
  proof (cases "c = CHR ''<''")
    case True
    show ?thesis
    proof (cases "tag_end s")
      case None
      then show ?thesis using True 2 one [of "''&lt;''" s] by (simp add: closes_plain)
    next
      case (Some n)
      have "closes (''<'' @ tag_name s n @ ''>'' @ srt_text (drop (n + 1) s))" if "tag_name s n \<in> set KEPT_TAGS"
        using one [OF kept_tag [OF that], of "drop (n + 1) s"] that True Some 2 by simp
      then show ?thesis using True Some 2 one [of "''&lt;''" s] by (simp add: closes_plain)
    qed
  next
    case False
    have "closes (c # srt_text s)" if "c \<noteq> CHR ''>''" "closes (srt_text s)"
      using one [of "[c]" s] that by (simp add: closes_plain)
    then show ?thesis
      using False 2 one [of "''&gt;''" s] one [of "''&amp;''" s] one [of "''&''" s]
      by (auto simp: closes_plain split: option.split)
  qed
qed (simp add: closes_plain)

section \<open>SubRip cues\<close>

definition sound_cue :: "cue \<Rightarrow> bool" where
  "sound_cue c \<longleftrightarrow> cu_start c < cu_end c \<and> closes (cu_text c)"

lemma digits_value_bound: "list_all is_digit s \<Longrightarrow> digits_value s < 10 ^ length s"
proof (induction s rule: rev_induct)
  case (snoc c s)
  then have "digits_value s < 10 ^ length s" "digit_value c < 10" by simp_all
  then have "digits_value s * 10 + digit_value c < 10 ^ length s * 10" by linarith
  then show ?case by (simp add: digits_value_snoc mult.commute)
qed (simp add: digits_value_def)

lemma digits_field_bound:
  assumes "digits_field low high s = Some n" shows "n < 10 ^ high"
proof -
  have s: "list_all is_digit s" "length s \<le> high" "parse_unsigned u64_limit s = Some n"
    using assms by (auto simp: digits_field_def split: if_splits)
  have "CHR ''+'' \<notin> set s" using s(1) plus_not_digit by (auto simp: list_all_iff)
  then have "n = digits_value s" using s(3) by (auto simp: parse_unsigned_def Let_def split: list.splits if_splits)
  moreover have "(10 :: nat) ^ length s \<le> 10 ^ high" using s(2) by (intro power_increasing) auto
  ultimately show ?thesis using less_le_trans [OF digits_value_bound [OF s(1)]] by simp
qed

lemma clock_ms_bound:
  assumes "clock_ms h m s ms = Some t" and "h < 10 ^ 10" and "m < 60" and "s < 60" and "ms < 1000"
  shows "t < TIMESTAMP_LIMIT"
proof -
  have "t = h * 3600000 + m * 60000 + s * 1000 + ms"
    using assms(1) by (auto simp: clock_ms_def checked_mul_def checked_add_def Option.bind_eq_Some_conv split: if_splits)
  then show ?thesis using assms(2-5) by (simp add: TIMESTAMP_LIMIT_def)
qed

lemma srt_timestamp_bound:
  assumes "srt_timestamp s = Some t" shows "t < TIMESTAMP_LIMIT"
proof -
  obtain clock fraction hours minutes seconds h m sec ms where parts:
    "fraction \<noteq> []" "length fraction \<le> 3" "list_all is_digit fraction"
    "digits_field 1 10 hours = Some h" "below_sixty (digits_field 1 2 minutes) = Some m"
    "below_sixty (digits_field 1 2 seconds) = Some sec"
    "parse_unsigned u64_limit (fraction @ replicate (3 - length fraction) (CHR ''0'')) = Some ms"
    "clock_ms h m sec ms = Some t"
  proof -
    obtain clock fraction where split: "split_at (\<lambda>c. c = CHR '','' \<or> c = CHR ''.'') s = Some (clock, fraction)"
      using assms by (cases "split_at (\<lambda>c. c = CHR '','' \<or> c = CHR ''.'') s") (auto simp: srt_timestamp_def)
    then have fraction: "fraction \<noteq> []" "length fraction \<le> 3" "list_all is_digit fraction"
      using assms by (auto simp: srt_timestamp_def split: if_splits)
    have "\<exists>hours minutes seconds. split_parts (CHR '':'') clock = [hours, minutes, seconds]"
      using assms split fraction
      by (cases "split_parts (CHR '':'') clock" rule: remdups_adj.cases; cases "tl (tl (split_parts (CHR '':'') clock))" rule: remdups_adj.cases)
        (auto simp: srt_timestamp_def)
    then obtain hours minutes seconds where "split_parts (CHR '':'') clock = [hours, minutes, seconds]" by blast
    then show thesis using assms split fraction that by (auto simp: srt_timestamp_def Option.bind_eq_Some_conv)
  qed
  let ?f = "fraction @ replicate (3 - length fraction) (CHR ''0'')"
  have digits: "list_all is_digit ?f" using parts(3) by (auto simp: list_all_iff is_digit_def)
  have "digits_field 3 3 ?f = Some ms" using digits parts(2,7) by (simp add: digits_field_def)
  then have "ms < 10 ^ 3" by (rule digits_field_bound)
  moreover have "m < 60" "sec < 60" using parts(5,6) by (auto simp: below_sixty_def Option.bind_eq_Some_conv split: if_splits)
  ultimately show ?thesis using clock_ms_bound [OF parts(8) digits_field_bound [OF parts(4)]] by simp
qed

lemma srt_timing_bound:
  assumes "srt_timing l = Some (a, b)" shows "a < TIMESTAMP_LIMIT" "b < TIMESTAMP_LIMIT"
proof -
  obtain start rest ending where "srt_timestamp (trim_text start) = Some a" "srt_timestamp ending = Some b"
    using assms by (cases "split_text ARROW l"; cases "words_of (snd (the (split_text ARROW l)))")
      (auto simp: srt_timing_def Option.bind_eq_Some_conv)
  then show "a < TIMESTAMP_LIMIT" "b < TIMESTAMP_LIMIT" by (auto intro: srt_timestamp_bound)
qed

lemma cue_of_sound: "closes body \<Longrightarrow> c \<in> set (cue_of a b body) \<Longrightarrow> sound_cue c \<and> cu_start c = a \<and> cu_end c = b"
  by (auto simp: cue_of_def sound_cue_def split: if_splits)

lemma srt_block:
  assumes "srt_timing l = Some (a, b)"
    and "c \<in> set (cue_of a b (joined_by [CHR 0x0A] (map (\<lambda>x. srt_text (trim_end x)) ls)))"
  shows "sound_cue c \<and> cu_end c < TIMESTAMP_LIMIT"
proof -
  have "closes (joined_by [CHR 0x0A] (map (\<lambda>x. srt_text (trim_end x)) ls))"
    by (rule closes_joined) (auto simp: srt_text_closes closes_plain)
  from cue_of_sound [OF this assms(2)] show ?thesis using srt_timing_bound [OF assms(1)] by simp
qed

lemma srt_cues_sound:
  "srt_cues found ls = Inr (cues, found') \<Longrightarrow> c \<in> set cues \<Longrightarrow> sound_cue c \<and> cu_end c < TIMESTAMP_LIMIT"
proof (induction found ls arbitrary: cues found' rule: srt_cues.induct)
  case (2 found l ls)
  note step = "2.prems"(1) [unfolded srt_cues.simps(2) [of found l ls]]
  consider (skip) "blank l"
    | (numbered) timing ls' where "\<not> blank l" "\<not> contains ARROW (trim_text l) \<and> list_all is_digit (trim_text l)" "ls = timing # ls'"
    | (last) "\<not> blank l" "\<not> contains ARROW (trim_text l) \<and> list_all is_digit (trim_text l)" "ls = []"
    | (bare) "\<not> blank l" "\<not> (\<not> contains ARROW (trim_text l) \<and> list_all is_digit (trim_text l))"
    by (cases ls) blast+
  then show ?case
  proof cases
    case skip
    then show ?thesis using step "2.IH"(1) "2.prems"(2) by simp
  next
    case last
    then show ?thesis using step "2.prems"(2) by simp
  next
    case (numbered timing ls')
    then have "contains ARROW (trim_text timing)" using step by (auto split: if_splits)
    moreover from this numbered obtain a b where times: "srt_timing (trim_text timing) = Some (a, b)"
      using step by (cases "srt_timing (trim_text timing)") auto
    ultimately obtain rest where rest: "srt_cues True (dropWhile (\<lambda>x. \<not> blank x) ls') = Inr (rest, found')"
      and cues: "cues = cue_of a b (joined_by [CHR 0x0A] (map (\<lambda>x. srt_text (trim_end x)) (takeWhile (\<lambda>x. \<not> blank x) ls'))) @ rest"
      using step numbered by (auto simp: and_then_eq_Inr)
    show ?thesis
      using "2.IH"(2) [OF numbered(1,2,3)] \<open>contains ARROW (trim_text timing)\<close> times rest cues srt_block [OF times] "2.prems"(2)
      by auto
  next
    case bare
    then have "contains ARROW (trim_text l)" using step by (auto split: if_splits)
    moreover from this bare obtain a b where times: "srt_timing (trim_text l) = Some (a, b)"
      using step by (cases "srt_timing (trim_text l)") auto
    ultimately obtain rest where rest: "srt_cues True (dropWhile (\<lambda>x. \<not> blank x) ls) = Inr (rest, found')"
      and cues: "cues = cue_of a b (joined_by [CHR 0x0A] (map (\<lambda>x. srt_text (trim_end x)) (takeWhile (\<lambda>x. \<not> blank x) ls))) @ rest"
      using step bare by (auto simp: and_then_eq_Inr)
    show ?thesis
      using "2.IH"(3) [OF bare] \<open>contains ARROW (trim_text l)\<close> times rest cues srt_block [OF times] "2.prems"(2)
      by auto
  qed
qed (simp add: srt_cues.simps)

section \<open>TTML cues\<close>

text \<open>What the text of the paragraph being read and of every cue satisfies.\<close>

definition converter_ok :: "converter \<Rightarrow> bool" where
  "converter_ok c \<longleftrightarrow> pred_option (\<lambda>p. closes (pa_text p)) (co_paragraph c) \<and> (\<forall>q \<in> set (co_cues c). sound_cue q)"

lemma tags_close: "closes (tags_text st opening)"
  by (auto simp: tags_text_def style_tags_def closes_def TAG_LETTERS_def)

lemma append_text_ok:
  "pred_option (\<lambda>p. closes (pa_text p)) q \<Longrightarrow> closes s \<Longrightarrow> pred_option (\<lambda>p. closes (pa_text p)) (append_text s q)"
  by (cases q) (auto simp: append_text_def)

lemma tidy_closes:
  assumes "closes s" shows "closes (tidy s preserve)"
proof (cases preserve)
  case True
  let ?drop = "dropWhile (\<lambda>c. c = CHR 0x0A)"
  have "closes (?drop s)"
    using assms
  proof (induction s)
    case (Cons c s)
    then have "closes s" if "c = CHR 0x0A" using closes_after [of "[]" c s] that by (simp add: TAG_LETTERS_def)
    then show ?case using Cons by auto
  qed simp
  moreover have "\<exists>y. s' = rev (?drop (rev s')) @ y" for s' :: string
    using takeWhile_dropWhile_id [of "\<lambda>c. c = CHR 0x0A" "rev s'"] by (metis rev_append rev_rev_ident)
  ultimately show ?thesis using True closes_prefix by (metis tidy_def)
next
  case False
  have "closes (tidy_line l)" if "closes l" for l
    unfolding tidy_line_def using closes_parts [OF that, of "CHR '' ''"]
    by (intro closes_joined) (auto simp: TAG_LETTERS_def closes_plain)
  moreover have "closes l" if "l \<in> set (split_parts (CHR 0x0A) s)" for l
    using closes_parts [OF assms _ that] by (simp add: TAG_LETTERS_def)
  ultimately have "closes (joined_by [CHR 0x0A] (filter (\<lambda>l. l \<noteq> []) (map tidy_line (split_parts (CHR 0x0A) s))))"
    by (intro closes_joined) (auto simp: closes_plain)
  then show ?thesis using False by (simp add: tidy_def)
qed

lemma escaped_closes: "closes (concat (map (escaped_char preserve) s))"
  by (rule closes_concat) (auto simp: escaped_char_def closes_plain)

lemma add_text_ok: "converter_ok c \<Longrightarrow> add_text c s = Inr c' \<Longrightarrow> converter_ok c'"
  using escaped_closes closes_append by (auto simp: add_text_def converter_ok_def Let_def split: option.splits if_splits)

lemma enter_root_same:
  "enter_root e n c = Inr c' \<Longrightarrow> co_paragraph c' = co_paragraph c \<and> co_cues c' = co_cues c \<and> co_stack c' = co_stack c"
  by (auto simp: enter_root_def and_then_eq_Inr split: if_splits)

lemma note_element_ok: "converter_ok c \<Longrightarrow> converter_ok (note_element c e n)"
  by (auto simp: note_element_def converter_ok_def append_text_ok closes_plain)

lemma push_element_ok:
  assumes "converter_ok c" and "push_element c e kind start ending = Inr c'"
  shows "converter_ok c'"
proof -
  let ?ok = "pred_option (\<lambda>p. closes (pa_text p))"
  define current where "current = (if kind = Paragraph_Kind then Some (new_paragraph e start ending) else co_paragraph c)"
  have current: "?ok current" using assms(1) by (simp add: current_def converter_ok_def new_paragraph_def closes_plain)
  define tagged where "tagged = (kind = Paragraph_Kind \<or> kind = Span)"
  define opened where "opened = (if tagged then style_without
    (if kind \<noteq> Other_Kind then style_or (co_effective c) (style_of (co_styles c) e) else co_effective c) (co_written c)
    else no_style)"
  have "co_cues c' = co_cues c" "co_paragraph c' = (if tagged then append_text (tags_text opened True) current else current)"
    using assms(2) unfolding push_element_def Let_def current_def [symmetric] tagged_def [symmetric]
    by (auto simp: opened_def split: if_split_asm)
  moreover have "?ok (append_text (tags_text opened True) current)" by (rule append_text_ok [OF current tags_close])
  ultimately show ?thesis using assms(1) current by (simp add: converter_ok_def)
qed

lemma start_element_ok:
  assumes "converter_ok c" and "start_element c e n = Inr c'"
  shows "converter_ok c'"
proof -
  obtain c1 kind start ending where "enter_root e n c = Inr c1" "push_element (note_element c1 e n) e kind start ending = Inr c'"
    using assms(2) by (auto simp: start_element_def and_then_eq_Inr Let_def split: if_splits prod.splits list.splits)
  moreover from this have "converter_ok c1" using assms(1) enter_root_same by (fastforce simp: converter_ok_def)
  ultimately show ?thesis using note_element_ok push_element_ok by blast
qed

lemma finish_paragraph_ok:
  assumes "converter_ok c" and "finish_paragraph c = Inr c'"
  shows "converter_ok c'"
proof -
  obtain p ending where p: "co_paragraph c = Some p"
      "c' = c\<lparr>co_paragraph := None, co_cues := co_cues c @ cue_of (pa_start p) ending (tidy (pa_text p) (pa_preserve p))\<rparr>"
    using assms(2) by (auto simp: finish_paragraph_def split: option.splits)
  then have "closes (tidy (pa_text p) (pa_preserve p))" using assms(1) tidy_closes by (simp add: converter_ok_def)
  then show ?thesis using p assms(1) cue_of_sound by (auto simp: converter_ok_def)
qed

lemma end_element_ok:
  assumes "converter_ok c" and "end_element c = Inr c'"
  shows "converter_ok c'"
proof -
  obtain f stack where stack: "co_stack c = f # stack" using assms(2) by (cases "co_stack c") (auto simp: end_element_def)
  define tagged where "tagged = (oe_kind f = Paragraph_Kind \<or> oe_kind f = Span)"
  define c1 where "c1 = (if tagged
      then c\<lparr>co_stack := stack, co_paragraph := append_text (tags_text (oe_opened f) False) (co_paragraph c),
        co_written := style_without (co_written c) (oe_opened f)\<rparr>
      else c\<lparr>co_stack := stack\<rparr>)"
  have "converter_ok (c1\<lparr>co_effective := oe_restore f\<rparr>)"
    using assms(1) append_text_ok [OF _ tags_close, of "co_paragraph c"] by (simp add: c1_def converter_ok_def)
  moreover have "end_element c = (if oe_kind f = Paragraph_Kind then finish_paragraph (c1\<lparr>co_effective := oe_restore f\<rparr>)
      else Inr (c1\<lparr>co_effective := oe_restore f\<rparr>))"
    by (simp add: end_element_def stack Let_def c1_def tagged_def)
  ultimately show ?thesis using finish_paragraph_ok assms(2) by (metis sum.inject(2))
qed

lemma convert_event_ok:
  assumes "converter_ok c" and "convert_event c (n, event) = Inr c'"
  shows "converter_ok c'"
proof (cases event)
  case (Start_Tag e)
  then show ?thesis using assms start_element_ok by (auto simp: convert_event_def)
next
  case (Empty_Tag e)
  then obtain c1 where "start_element c e (in_ttml n) = Inr c1" "end_element c1 = Inr c'"
    using assms(2) by (auto simp: convert_event_def and_then_eq_Inr)
  then show ?thesis using assms(1) start_element_ok end_element_ok by blast
next
  case End_Tag
  then show ?thesis using assms end_element_ok by (simp add: convert_event_def)
next
  case (Text_Event s)
  then show ?thesis using assms add_text_ok by (simp add: convert_event_def)
next
  case (CData_Event s)
  then show ?thesis using assms add_text_ok by (simp add: convert_event_def)
next
  case (Reference character predefined)
  then have "\<exists>s. add_text c s = Inr c'"
    using assms(2) by (auto simp: convert_event_def split: sum.splits option.splits)
  then show ?thesis using assms(1) add_text_ok by blast
qed (use assms in \<open>simp_all add: convert_event_def\<close>)

lemma ttml_cues_sound:
  assumes "ttml_cues doc = Inr cues" and "q \<in> set cues"
  shows "sound_cue q"
proof -
  obtain events complete where doc: "doc = (events, complete)" by fastforce
  obtain c where c: "try_fold convert_event converter_new events = Inr c" "cues = co_cues c"
    using assms(1) doc by (auto simp: ttml_cues_def and_then_eq_Inr split: if_splits)
  have "converter_ok converter_new" by (simp add: converter_new_def converter_ok_def)
  moreover have "converter_ok c'" if "converter_ok c0" "convert_event c0 ev = Inr c'" for c0 ev c'
    using convert_event_ok [of c0 "fst ev" "snd ev" c'] that by simp
  ultimately have "converter_ok c" using try_fold_inv [OF _ _ c(1), of converter_ok] by blast
  then show ?thesis using assms(2) c(2) by (simp add: converter_ok_def)
qed

end
