(* ===== verification/Subrip_Laws.thy ===== *)
theory Subrip_Laws
  imports Subtitle_Laws Whole_Lines
begin

text \<open>
  SubRip files from outside: a writer of such files, a reader of the WebVTT files served, neither of which
  uses the code, and what the conversion makes of the one for the other.
\<close>

section \<open>A writer of SubRip\<close>

record caption =
  ca_from :: nat
  ca_to :: nat
  ca_lines :: "string list"

text \<open>A number in at least so many digits, and a time of day with its milliseconds behind a mark.\<close>

definition padded :: "nat \<Rightarrow> nat \<Rightarrow> string" where
  "padded k n = replicate (k - length (decimal n)) (CHR ''0'') @ decimal n"

definition clock_text :: "char \<Rightarrow> nat \<Rightarrow> string" where
  "clock_text mark t = padded 2 (t div 3600000) @ '':'' @ padded 2 (t div 60000 mod 60) @ '':''
     @ padded 2 (t div 1000 mod 60) @ [mark] @ padded 3 (t mod 1000)"

definition subrip_block :: "nat \<Rightarrow> caption \<Rightarrow> string list" where
  "subrip_block n c =
     [decimal n, clock_text (CHR '','') (ca_from c) @ '' --> '' @ clock_text (CHR '','') (ca_to c)] @ ca_lines c @ [[]]"

definition subrip_lines :: "(nat \<times> caption) list \<Rightarrow> string list" where
  "subrip_lines cs = concat (map (\<lambda>(n, c). subrip_block n c) cs)"

definition subrip_file :: "string \<Rightarrow> caption list \<Rightarrow> string" where
  "subrip_file line_end captions = concat (map (\<lambda>l. l @ line_end) (subrip_lines (enumerate 1 captions)))"

section \<open>A reader of WebVTT\<close>

text \<open>Hours of two digits or more, then minutes, seconds and milliseconds.\<close>

definition vtt_time :: "string \<Rightarrow> nat option" where
  "vtt_time s =
     (let hours = take (length s - 10) s; rest = drop (length s - 10) s;
          minutes = take 2 (drop 1 rest); seconds = take 2 (drop 4 rest); millis = drop 7 rest
      in if 2 \<le> length hours \<and> list_all is_digit (hours @ minutes @ seconds @ millis)
           \<and> rest ! 0 = CHR '':'' \<and> rest ! 3 = CHR '':'' \<and> rest ! 6 = CHR ''.''
         then Some (((digits_value hours * 60 + digits_value minutes) * 60 + digits_value seconds) * 1000 + digits_value millis)
         else None)"

definition vtt_timing :: "string \<Rightarrow> (nat \<times> nat) option" where
  "vtt_timing l =
     (let start = takeWhile (\<lambda>c. c \<noteq> CHR '' '') l; rest = drop (length start) l
      in if take 5 rest = '' --> ''
         then Option.bind (vtt_time start) (\<lambda>a. map_option (Pair a) (vtt_time (drop 5 rest)))
         else None)"

text \<open>Cue text as it is shown.\<close>

fun shown_text :: "string \<Rightarrow> string" where
  "shown_text [] = []"
| "shown_text (c # s) =
     (if take 4 (c # s) = ''&lt;'' then CHR ''<'' # shown_text (drop 3 s)
      else if take 4 (c # s) = ''&gt;'' then CHR ''>'' # shown_text (drop 3 s)
      else if take 5 (c # s) = ''&amp;'' then CHR ''&'' # shown_text (drop 4 s)
      else c # shown_text s)"

text \<open>Blocks of lines between empty ones: a timing line, then text.\<close>

function vtt_blocks :: "string list \<Rightarrow> caption list option" where
  "vtt_blocks [] = Some []"
| "vtt_blocks (l # ls) =
     (if l = [] then vtt_blocks ls
      else
        (case vtt_timing l of
           None \<Rightarrow> None
         | Some (a, b) \<Rightarrow>
             map_option ((#) \<lparr>ca_from = a, ca_to = b, ca_lines = map shown_text (takeWhile (\<lambda>x. x \<noteq> []) ls)\<rparr>)
               (vtt_blocks (dropWhile (\<lambda>x. x \<noteq> []) ls))))"
  by pat_completeness auto
termination
  by (relation "measure length") (auto simp: le_imp_less_Suc length_dropWhile_le)

declare vtt_blocks.simps [simp del]

definition read_webvtt :: "string \<Rightarrow> caption list option" where
  "read_webvtt s =
     (case split_lines s of
        header # ls \<Rightarrow> if header = ''WEBVTT'' \<and> (ls = [] \<or> hd ls = []) then vtt_blocks ls else None
      | [] \<Rightarrow> None)"

section \<open>Times\<close>

lemma decimal_small: "n < 10 \<Longrightarrow> decimal n = [digit_char n]"
  by (subst decimal.simps) simp

lemma decimal_large: "10 \<le> n \<Longrightarrow> decimal n = decimal (n div 10) @ [digit_char (n mod 10)]"
  by (subst decimal.simps) simp

lemma decimal_long: "10 \<le> n \<Longrightarrow> 2 \<le> length (decimal n)"
  using decimal_nonempty [of "n div 10"] by (subst decimal_large) (auto simp: Suc_le_eq)

lemma padded_two: "padded 2 n = two_digits n"
  using decimal_long [of n] by (cases "n < 10") (simp_all add: padded_def two_digits_def decimal_small)

lemma digit_char_zero: "digit_char 0 = CHR ''0''"
  by code_simp

lemma padded_three:
  assumes "n < 1000"
  shows "padded 3 n = millis_text n"
proof -
  consider "n < 10" | "10 \<le> n" "n < 100" | "100 \<le> n" by linarith
  then show ?thesis
  proof cases
    case 1
    then show ?thesis
      by (simp add: padded_def millis_text_def decimal_small digit_char_zero numeral_2_eq_2)
  next
    case 2
    then have "decimal n = [digit_char (n div 10), digit_char (n mod 10)]"
      by (simp add: decimal_large decimal_small)
    then show ?thesis using 2 by (simp add: padded_def millis_text_def digit_char_zero)
  next
    case 3
    have "decimal n = [digit_char (n div 10 div 10), digit_char (n div 10 mod 10), digit_char (n mod 10)]"
      using 3 assms decimal_large [of n] decimal_large [of "n div 10"] decimal_small [of "n div 10 div 10"] by simp
    then show ?thesis by (simp add: padded_def millis_text_def div_mult2_eq [symmetric])
  qed
qed

lemma clock_shape:
  "clock_text mark t = two_digits (t div 3600000) @ '':'' @ two_digits (t div 60000 mod 60) @ '':''
     @ two_digits (t div 1000 mod 60) @ [mark] @ millis_text (t mod 1000)"
  by (simp add: clock_text_def padded_two padded_three)

lemma clock_read:
  assumes "t < TIMESTAMP_LIMIT"
  shows "srt_timestamp (clock_text (CHR '','') t) = Some t"
proof -
  let ?h = "two_digits (t div 3600000)" and ?m = "two_digits (t div 60000 mod 60)" and ?s = "two_digits (t div 1000 mod 60)"
  have free: "CHR '':'' \<notin> set (two_digits n)" "CHR '','' \<notin> set (two_digits n)" "CHR ''.'' \<notin> set (two_digits n)" for n
    using digits_only [OF two_digits_digits] by (simp_all add: is_digit_def)
  have shape: "clock_text (CHR '','') t = (?h @ '':'' @ ?m @ '':'' @ ?s) @ CHR '','' # millis_text (t mod 1000)"
    by (simp add: clock_shape)
  have "split_at (\<lambda>c. c = CHR '','' \<or> c = CHR ''.'') (clock_text (CHR '','') t)
      = Some (?h @ '':'' @ ?m @ '':'' @ ?s, millis_text (t mod 1000))"
    unfolding shape by (rule split_at_first) (use free in auto)
  moreover have "split_parts (CHR '':'') (?h @ '':'' @ ?m @ '':'' @ ?s) = [?h, ?m, ?s]"
    using free by (simp add: split_parts_first split_parts_one)
  moreover have "digits_field 1 10 ?h = Some (t div 3600000)"
    using assms by (intro two_digits_field) (auto simp: TIMESTAMP_LIMIT_def less_mult_imp_div_less)
  moreover have "digits_field 1 2 (two_digits n) = Some n" if "n < 60" for n
    using that by (intro two_digits_field) auto
  moreover have "clock_ms (t div 3600000) (t div 60000 mod 60) (t div 1000 mod 60) (t mod 1000) = Some t"
    using assms by (intro clock_of_parts) (simp add: TIMESTAMP_LIMIT_def)
  moreover have "millis_text (t mod 1000) \<noteq> []" by (simp add: millis_text_def)
  ultimately show ?thesis
    using millis_text_facts [of "t mod 1000"] by (simp add: srt_timestamp_def below_sixty_def)
qed

lemma padded_value: "digits_value (padded k n) = n"
proof -
  have "digits_value (replicate j (CHR ''0'') @ ds) = digits_value ds" for j ds
    by (induction j) (simp_all add: digits_value_def digit_value_def)
  then show ?thesis by (simp add: padded_def)
qed

lemma two_digits_value: "digits_value (two_digits n) = n"
  using padded_value [of 2 n] by (simp add: padded_two)

lemma two_digits_length: "n < 100 \<Longrightarrow> length (two_digits n) = 2" "2 \<le> length (two_digits n)"
proof -
  show "2 \<le> length (two_digits n)" using decimal_long [of n] by (simp add: two_digits_def decimal_small)
  show "length (two_digits n) = 2" if "n < 100"
    using that decimal_large [of n] by (cases "n < 10") (simp_all add: two_digits_def decimal_small)
qed

lemma millis_value: "n < 1000 \<Longrightarrow> digits_value (millis_text n) = n"
  using padded_value [of 3 n] by (simp add: padded_three)

lemma vtt_time_read: "vtt_time (format_timestamp t) = Some t"
proof -
  let ?h = "two_digits (t div 3600000)" and ?m = "two_digits (t div 60000 mod 60)" and ?s = "two_digits (t div 1000 mod 60)"
    and ?l = "millis_text (t mod 1000)"
  have lens: "length ?m = 2" "length ?s = 2" "length ?l = 3" "2 \<le> length ?h"
    by (simp_all add: two_digits_length millis_text_def)
  have e: "t div 60000 = t div 1000 div 60" "t div 3600000 = t div 1000 div 60 div 60" by (simp_all add: div_mult2_eq [symmetric])
  have "((t div 3600000 * 60 + t div 60000 mod 60) * 60 + t div 1000 mod 60) * 1000 + t mod 1000 = t"
    unfolding e by (metis mod_div_mult_eq mult.commute add.commute div_mod_decomp)
  moreover have "format_timestamp t = ?h @ '':'' @ ?m @ '':'' @ ?s @ ''.'' @ ?l" by (simp add: format_timestamp_def)
  ultimately show ?thesis
    using lens millis_text_facts(1) [of "t mod 1000"]
    by (simp add: vtt_time_def Let_def nth_append two_digits_value millis_value)
qed

section \<open>Lines of a SubRip file\<close>

text \<open>A text between two digits has no white space to trim.\<close>

definition between_digits :: "string \<Rightarrow> bool" where
  "between_digits s \<longleftrightarrow> s \<noteq> [] \<and> is_digit (hd s) \<and> is_digit (last s)"

lemma trim_between:
  assumes "between_digits s"
  shows "trim_text s = s" "trim_text (s @ '' '') = s" "trim_text (s @ [CHR 0x0D]) = s" "trim_start s = s"
    "trim_start ('' '' @ s) = s"
proof -
  obtain c x where s: "s = c # x" "is_digit c" using assms by (cases s) (auto simp: between_digits_def)
  have front: "trim_start (s @ y) = s @ y" for y using s by (simp add: trim_start_digit)
  have tail: "trim_end s = s"
    using trim_end_digit [of "last s" "butlast s"] assms by (simp add: between_digits_def)
  have "leading (map rev space_texts) (CHR 0x0D # y) = Some [CHR 0x0D]" for y
    unfolding leading_def space_texts_eval by simp
  then have carriage: "trim_end (s @ [CHR 0x0D]) = s" using tail by (simp add: trim_end_def)
  show "trim_text s = s" "trim_text (s @ '' '') = s" "trim_text (s @ [CHR 0x0D]) = s" "trim_start s = s"
    "trim_start ('' '' @ s) = s"
    using front [of "[]"] front [of "'' ''"] front [of "[CHR 0x0D]"] tail carriage trim_end_blank [of s]
    by (simp_all add: trim_text_def trim_start_blank)
qed

lemma decimal_between: "between_digits (decimal n)"
  using decimal_digits [of n] by (simp add: between_digits_def list_all_iff)

lemma clock_between: "between_digits (clock_text mark t)"
  using two_digits_digits [of "t div 3600000"]
  by (cases "two_digits (t div 3600000)") (auto simp: between_digits_def clock_shape millis_text_def)

lemma clock_chars: "c \<in> set (clock_text mark t) \<Longrightarrow> is_digit c \<or> c = CHR '':'' \<or> c = mark"
  using two_digits_digits by (auto simp: clock_shape millis_text_def list_all_iff)

definition subrip_timing :: "caption \<Rightarrow> string" where
  "subrip_timing c = clock_text (CHR '','') (ca_from c) @ '' --> '' @ clock_text (CHR '','') (ca_to c)"

lemma timing_between: "between_digits (subrip_timing c)"
  using clock_between [of "CHR '',''" "ca_from c"] clock_between [of "CHR '',''" "ca_to c"]
  by (simp add: between_digits_def subrip_timing_def)

lemma timing_arrow: "contains ARROW (subrip_timing c)" "\<not> contains ARROW (decimal n)"
proof -
  show "contains ARROW (subrip_timing c)"
    unfolding contains_iff subrip_timing_def ARROW_def
    by (intro exI [of _ "clock_text (CHR '','') (ca_from c) @ '' ''"] exI [of _ "'' '' @ clock_text (CHR '','') (ca_to c)"]) simp
  have "CHR ''-'' \<notin> set (decimal n)" using digits_only [OF decimal_digits] by simp
  then show "\<not> contains ARROW (decimal n)" by (auto simp: contains_iff ARROW_def)
qed

lemma no_leading_space: "is_digit c \<or> c = CHR '':'' \<or> c = CHR '','' \<Longrightarrow> leading space_texts (c # s) = None"
  unfolding leading_def find_None_iff space_texts_eval by (auto simp: is_digit_def)

lemma clock_word: "first_word (clock_text (CHR '','') t) = clock_text (CHR '','') t"
proof -
  have "first_word s = s" if "\<forall>c \<in> set s. is_digit c \<or> c = CHR '':'' \<or> c = CHR '',''" for s
    using that by (induction s) (simp_all add: no_leading_space)
  then show ?thesis using clock_chars by blast
qed

lemma timing_read:
  assumes "ca_from c < TIMESTAMP_LIMIT" and "ca_to c < TIMESTAMP_LIMIT"
  shows "srt_timing (subrip_timing c) = Some (ca_from c, ca_to c)"
proof -
  let ?a = "clock_text (CHR '','') (ca_from c)" and ?b = "clock_text (CHR '','') (ca_to c)"
  have "CHR ''-'' \<notin> set (?a @ '' '')" using clock_chars [of "CHR ''-''"] by (auto simp: is_digit_def)
  then have "split_text ARROW ((?a @ '' '') @ ARROW @ '' '' @ ?b) = Some (?a @ '' '', '' '' @ ?b)"
    by (rule split_text_first)
  moreover have "subrip_timing c = (?a @ '' '') @ ARROW @ '' '' @ ?b" by (simp add: subrip_timing_def ARROW_def)
  moreover have "words_of ('' '' @ ?b) = ?b # words_of []"
    using trim_between(5) [OF clock_between [of "CHR '',''" "ca_to c"]] clock_word [of "ca_to c"]
      clock_between [of "CHR '',''" "ca_to c"]
    by (subst words_of.simps) (simp add: Let_def between_digits_def)
  ultimately show ?thesis
    using clock_read [OF assms(1)] clock_read [OF assms(2)] trim_between(2) [OF clock_between] by (simp add: srt_timing_def)
qed

section \<open>Plain text\<close>

text \<open>Text with nothing in it that SubRip takes for a tag, an override block or an entity.\<close>

fun literal :: "string \<Rightarrow> bool" where
  "literal [] \<longleftrightarrow> True"
| "literal (c # s) \<longleftrightarrow> (c = CHR ''<'' \<longrightarrow> CHR ''>'' \<notin> set s) \<and> (c = CHR ''&'' \<longrightarrow> CHR '';'' \<notin> set s)
     \<and> (c = CHR ''{'' \<longrightarrow> take 1 s \<noteq> [CHR 0x5C]) \<and> literal s"

lemma literal_shown:
  "literal s \<Longrightarrow> shown_text (srt_text s) = s \<and> (srt_text s = [] \<longleftrightarrow> s = []) \<and> (one_line s \<longrightarrow> one_line (srt_text s))"
proof (induction s)
  case (Cons c s)
  then show ?case by (auto simp: tag_end_def find_char_def)
qed simp

text \<open>A line of text that is kept as it is: not blank, and without white space at its end.\<close>

definition text_line :: "string \<Rightarrow> bool" where
  "text_line l \<longleftrightarrow> literal l \<and> \<not> blank l \<and> trim_end l = l \<and> one_line l \<and> CHR 0x0D \<notin> set l"

lemma blank_nil: "blank []"
  by (simp add: blank_def trim_text_def trim_start_def trim_end_def)

lemma text_line_facts: "text_line l \<Longrightarrow> srt_text (trim_end l) = srt_text l \<and> srt_text l \<noteq> [] \<and> one_line (srt_text l)
    \<and> shown_text (srt_text l) = l"
  using literal_shown [of l] blank_nil by (auto simp: text_line_def)

section \<open>The cues of a SubRip file\<close>

definition caption_ok :: "nat \<Rightarrow> caption \<Rightarrow> bool" where
  "caption_ok offset_ms c \<longleftrightarrow> ca_from c < TIMESTAMP_LIMIT \<and> ca_to c < TIMESTAMP_LIMIT \<and> ca_to c + offset_ms < u64_limit
     \<and> (\<forall>l \<in> set (ca_lines c). text_line l)"

text \<open>The captions that a player can show.\<close>

definition showable :: "caption \<Rightarrow> bool" where
  "showable c \<longleftrightarrow> ca_from c < ca_to c \<and> ca_lines c \<noteq> []"

definition cue_for :: "caption \<Rightarrow> cue" where
  "cue_for c = \<lparr>cu_start = ca_from c, cu_end = ca_to c, cu_text = joined_by [CHR 0x0A] (map srt_text (ca_lines c))\<rparr>"

lemma takeWhile_block:
  "\<forall>x \<in> set ls. P x \<Longrightarrow> r = [] \<or> \<not> P (hd r) \<Longrightarrow> takeWhile P (ls @ r) = ls \<and> dropWhile P (ls @ r) = r"
  by (induction ls) (cases r; simp)+

text \<open>White space is trimmed line by line.\<close>

definition line_spaces :: "string list \<Rightarrow> bool" where
  "line_spaces ps \<longleftrightarrow> [CHR 0x0A] \<in> set ps \<and> (\<forall>p \<in> set ps. p \<noteq> [] \<and> (p \<noteq> [CHR 0x0A] \<longrightarrow> one_line p))"

lemma space_texts_lines: "line_spaces space_texts" "line_spaces (map rev space_texts)"
  by code_simp+

lemma leading_eq_Some: "leading ps s = Some p \<Longrightarrow> p \<in> set ps \<and> take (length p) s = p"
  by (auto simp: leading_def find_Some_iff)

lemma leading_line:
  assumes "line_spaces ps"
  shows "leading ps (c # s @ CHR 0x0A # b) = leading ps (c # s)" and "leading ps (CHR 0x0A # b) = Some [CHR 0x0A]"
proof -
  have "take (length p) (c # s @ CHR 0x0A # b) = p \<longleftrightarrow> take (length p) (c # s) = p" if p: "p \<in> set ps" for p
  proof (cases "p = [CHR 0x0A]")
    case False
    then have free: "CHR 0x0A \<notin> set p" using assms p by (simp add: line_spaces_def one_line_def)
    show ?thesis
    proof (cases "length p \<le> length (c # s)")
      case False
      then have "CHR 0x0A \<in> set (take (length p) (c # s @ CHR 0x0A # b))"
        by (auto simp: take_Cons' Suc_diff_le)
      then show ?thesis using free False by (metis length_take min.absorb_iff1 nat_le_linear)
    next
      case True
      then have "take (length p) (c # s @ CHR 0x0A # b) = take (length p) (c # s)"
        by (cases "length p") simp_all
      then show ?thesis by simp
    qed
  qed simp
  then show "leading ps (c # s @ CHR 0x0A # b) = leading ps (c # s)"
    unfolding leading_def by (intro find_cong) simp_all
  have "leading ps (CHR 0x0A # b) \<noteq> None" using assms by (auto simp: line_spaces_def leading_def find_None_iff)
  then obtain p where p: "leading ps (CHR 0x0A # b) = Some p" by blast
  then have member: "p \<in> set ps" and start: "take (length p) (CHR 0x0A # b) = p" using leading_eq_Some by blast+
  have "p \<noteq> []" using assms member by (simp add: line_spaces_def)
  then obtain p' where "p = CHR 0x0A # p'" using start by (cases p) simp_all
  then have "\<not> one_line p" by simp
  then have "p = [CHR 0x0A]" using assms member by (auto simp only: line_spaces_def)
  then show "leading ps (CHR 0x0A # b) = Some [CHR 0x0A]" using p by simp
qed

lemma leading_parts:
  assumes "line_spaces ps" and "leading ps (c # s) = Some p"
  shows "c # s = p @ drop (length p - 1) s" and "length p - 1 \<le> length s" and "p \<in> set ps"
proof -
  note p = leading_eq_Some [OF assms(2)]
  then obtain p' where p': "p = c # p'" using assms(1) by (cases p) (auto simp: line_spaces_def)
  then have whole: "take (length p') s = p'" using p by simp
  then have "s = p' @ drop (length p') s" by (metis append_take_drop_id)
  then show "c # s = p @ drop (length p - 1) s" using p' by simp
  show "length p - 1 \<le> length s" using arg_cong [OF whole, of length] p' by simp
  show "p \<in> set ps" using p by blast
qed

lemma strip_line:
  assumes "line_spaces ps"
  shows "strip_leading ps (a @ CHR 0x0A # b)
    = (if strip_leading ps a = [] then strip_leading ps b else strip_leading ps a @ CHR 0x0A # b)"
  using assms
proof (induction ps a rule: strip_leading.induct)
  case (1 ps)
  then show ?case by (simp add: leading_line(2))
next
  case (2 ps c s)
  show ?case
  proof (cases "leading ps (c # s)")
    case (Some p)
    then show ?thesis
      using 2 leading_parts(2) [OF 2(2) Some] by (simp add: leading_line(1))
  qed (use 2 in \<open>simp add: leading_line(1)\<close>)
qed

lemma blank_first_line: "blank (a @ CHR 0x0A # b) \<Longrightarrow> blank a"
  by (auto simp: blank_def trim_text_def trim_start_def trim_end_def strip_line [OF space_texts_lines(1)]
      strip_line [OF space_texts_lines(2)] split: if_splits)

lemma space_bytes: "line_spaces ps \<Longrightarrow> set s \<subseteq> set (strip_leading ps s) \<union> \<Union> (set ` set ps)"
proof (induction ps s rule: strip_leading.induct)
  case (2 ps c s)
  show ?case
  proof (cases "leading ps (c # s)")
    case (Some p)
    have "set (c # s) = set p \<union> set (drop (length p - 1) s)"
      using leading_parts(1) [OF 2(2) Some] by (metis set_append)
    then show ?thesis using 2 Some leading_parts(3) [OF 2(2) Some] by auto
  qed auto
qed simp

lemma blank_bytes:
  assumes "blank s" and "c \<in> set s"
  shows "c \<in> \<Union> (set ` set space_texts)"
proof -
  have "set (trim_start s) \<subseteq> set (strip_leading (map rev space_texts) (rev (trim_start s))) \<union> \<Union> (set ` set (map rev space_texts))"
    using space_bytes [OF space_texts_lines(2), of "rev (trim_start s)"] by simp
  then have "set (trim_start s) \<subseteq> \<Union> (set ` set space_texts)"
    using assms(1) by (simp add: blank_def trim_text_def trim_end_def)
  moreover have "set s \<subseteq> set (trim_start s) \<union> \<Union> (set ` set space_texts)"
    unfolding trim_start_def by (rule space_bytes [OF space_texts_lines(1)])
  ultimately show ?thesis using assms(2) by blast
qed

lemma literal_not_blank:
  assumes "literal s" and "\<not> blank s"
  shows "\<not> blank (srt_text s)"
proof
  assume blank: "blank (srt_text s)"
  have "CHR ''&'' \<notin> \<Union> (set ` set space_texts)" by code_simp
  then have "CHR ''&'' \<notin> set (srt_text s)" using blank_bytes [OF blank] by blast
  then have "srt_text s = s"
    using assms(1) by (induction s) (auto simp: tag_end_def find_char_def split: if_splits)
  then show False using blank assms(2) by simp
qed

lemma text_blank:
  assumes "\<forall>l \<in> set ls. text_line l"
  shows "blank (joined_by [CHR 0x0A] (map srt_text ls)) \<longleftrightarrow> ls = []"
proof (cases ls)
  case (Cons l rest)
  have first: "\<not> blank (srt_text l)" using assms Cons literal_not_blank by (simp add: text_line_def)
  show ?thesis
  proof (cases rest)
    case (Cons m more)
    then show ?thesis
      using first blank_first_line [of "srt_text l"] \<open>ls = l # rest\<close> by auto
  qed (use first \<open>ls = l # rest\<close> in simp)
qed (simp add: blank_nil)

lemma between_not_blank: "between_digits s \<Longrightarrow> \<not> blank s"
  using trim_between(1) by (auto simp: blank_def between_digits_def)

lemma block_cues:
  assumes "caption_ok offset_ms c"
  shows "srt_cues found (subrip_block n c @ ls) =
    and_then (srt_cues True ls) (\<lambda>(cues, found'). Inr ((if showable c then [cue_for c] else []) @ cues, found'))"
proof -
  have plain: "\<forall>l \<in> set (ca_lines c). text_line l" and times: "ca_from c < TIMESTAMP_LIMIT" "ca_to c < TIMESTAMP_LIMIT"
    using assms by (simp_all add: caption_ok_def)
  have block: "subrip_block n c @ ls = decimal n # subrip_timing c # ca_lines c @ [] # ls"
    by (simp add: subrip_block_def subrip_timing_def)
  have "\<forall>l \<in> set (ca_lines c). \<not> blank l" using plain by (simp add: text_line_def)
  then have cut: "takeWhile (\<lambda>x. \<not> blank x) (ca_lines c @ [] # ls) = ca_lines c"
      "dropWhile (\<lambda>x. \<not> blank x) (ca_lines c @ [] # ls) = [] # ls"
    using takeWhile_block [of "ca_lines c" "\<lambda>x. \<not> blank x" "[] # ls"] blank_nil by simp_all
  have skip: "srt_cues True ([] # ls) = srt_cues True ls" using blank_nil by (simp add: srt_cues.simps(2))
  have body: "map (\<lambda>x. srt_text (trim_end x)) (ca_lines c) = map srt_text (ca_lines c)"
    using plain text_line_facts by simp
  have cue: "cue_of (ca_from c) (ca_to c) (joined_by [CHR 0x0A] (map (\<lambda>x. srt_text (trim_end x)) (ca_lines c))) = (if showable c then [cue_for c] else [])"
    unfolding body using text_blank [OF plain] by (simp add: cue_of_def showable_def cue_for_def)
  show ?thesis
    unfolding block srt_cues.simps(2) [of found "decimal n"]
    using between_not_blank [OF decimal_between [of n]] trim_between(1) [OF decimal_between [of n]] timing_arrow
      decimal_digits [of n] trim_between(1) [OF timing_between [of c]] timing_read [OF times] cut skip cue
    by simp
qed

lemma subrip_cues:
  assumes "\<forall>c \<in> set captions. caption_ok offset_ms c"
  shows "srt_cues found (subrip_lines (enumerate n captions))
    = Inr (map cue_for (filter showable captions), found \<or> captions \<noteq> [])"
  using assms
proof (induction captions arbitrary: n found)
  case Nil
  then show ?case by (simp add: subrip_lines_def srt_cues.simps(1))
next
  case (Cons c captions)
  have "srt_cues found (subrip_lines (enumerate n (c # captions)))
      = srt_cues found (subrip_block n c @ subrip_lines (enumerate (Suc n) captions))"
    by (simp add: subrip_lines_def)
  then show ?case using Cons block_cues [of offset_ms c found n] by simp
qed

section \<open>The bytes of a SubRip file\<close>

definition LINE_ENDS :: "string list" where
  "LINE_ENDS = [[CHR 0x0A], [CHR 0x0D, CHR 0x0A]]"

lemma normal_one:
  assumes "CHR 0x0D \<notin> set l" and "e \<in> set LINE_ENDS"
  shows "normal_lines (l @ e @ rest) = line_of l @ normal_lines rest"
  using assms(1)
proof (induction l)
  case Nil
  then show ?case using assms(2) by (cases rest) (auto simp: LINE_ENDS_def line_of_def)
next
  case (Cons c l)
  obtain d s where "l @ e @ rest = d # s" using assms(2) by (cases "l @ e @ rest") (auto simp: LINE_ENDS_def)
  moreover have "c \<noteq> CHR 0x0D" using Cons.prems by auto
  ultimately show ?case using Cons by (simp add: line_of_def)
qed

lemma normal_file:
  assumes "\<forall>l \<in> set ls. CHR 0x0D \<notin> set l" and "e \<in> set LINE_ENDS"
  shows "normal_lines (concat (map (\<lambda>l. l @ e) ls)) = in_lines ls"
  using assms(1) by (induction ls) (simp_all add: normal_one [OF _ assms(2)])

lemma clock_plain: "one_line (clock_text (CHR '','') t)" "CHR 0x0D \<notin> set (clock_text (CHR '','') t)"
    "CHR 0x0D \<notin> set (decimal n)"
  using clock_chars [of "CHR 0x0A" "CHR '',''" t] clock_chars [of "CHR 0x0D" "CHR '',''" t]
    digits_only [OF decimal_digits, of "CHR 0x0D" n]
  by (auto simp: one_line_def)

lemma subrip_lines_plain:
  assumes "\<forall>c \<in> set captions. caption_ok offset_ms c" and "l \<in> set (subrip_lines (enumerate n captions))"
  shows "one_line l" and "CHR 0x0D \<notin> set l"
proof -
  obtain k c where "(k, c) \<in> set (enumerate n captions)" and line: "l \<in> set (subrip_block k c)"
    using assms(2) by (auto simp: subrip_lines_def)
  then have "c \<in> set captions" by (auto simp: in_set_enumerate_eq)
  with line show "one_line l" "CHR 0x0D \<notin> set l"
    using assms(1) clock_plain by (auto simp: subrip_block_def caption_ok_def text_line_def)
qed

lemma trim_ended: "between_digits l \<Longrightarrow> e \<in> set LINE_ENDS \<Longrightarrow> trim_text (l @ butlast e) = l"
  using trim_between(1,3) [of l] by (auto simp: LINE_ENDS_def)

lemma subrip_looks:
  assumes captions: "\<forall>c \<in> set captions. caption_ok offset_ms c" "captions \<noteq> []" and e: "e \<in> set LINE_ENDS"
  shows "looks_like_srt (subrip_file e captions)"
proof -
  obtain c cs where cs: "captions = c # cs" using captions(2) by (cases captions) auto
  let ?ls = "map (\<lambda>l. l @ butlast e) (subrip_lines (enumerate 1 captions))"
  have "subrip_file e captions = in_lines ?ls"
    using e by (induction "subrip_lines (enumerate 1 captions)") (auto simp: subrip_file_def in_lines_def line_of_def LINE_ENDS_def comp_def)
  moreover have "list_all one_line ?ls"
    using subrip_lines_plain(1) [OF captions(1)] e by (auto simp: list_all_iff LINE_ENDS_def)
  ultimately have "split_lines (subrip_file e captions) = ?ls" by simp
  moreover have "subrip_lines (enumerate 1 captions) = decimal 1 # subrip_timing c # ca_lines c @ [] # subrip_lines (enumerate 2 cs)"
    by (simp add: cs subrip_lines_def subrip_block_def subrip_timing_def numeral_2_eq_2)
  ultimately have "map trim_text (split_lines (subrip_file e captions))
      = decimal 1 # subrip_timing c # map (trim_text \<circ> (\<lambda>l. l @ butlast e)) (ca_lines c @ [] # subrip_lines (enumerate 2 cs))"
    using trim_ended [OF decimal_between e] trim_ended [OF timing_between e] by simp
  then show ?thesis
    using timing_arrow(1) timing_between [of c]
    by (simp add: looks_like_srt_def between_digits_def numeral_3_eq_3)
qed

section \<open>Reading what is served\<close>

definition later :: "nat \<Rightarrow> caption \<Rightarrow> caption" where
  "later offset_ms c = c\<lparr>ca_from := ca_from c + offset_ms, ca_to := ca_to c + offset_ms\<rparr>"

definition served_lines :: "nat \<Rightarrow> caption \<Rightarrow> string list" where
  "served_lines offset_ms c = [] # timing_text (ca_from c + offset_ms) (ca_to c + offset_ms) # map srt_text (ca_lines c)"

lemma vtt_timing_read: "vtt_timing (timing_text a b) = Some (a, b)"
proof -
  have free: "CHR '' '' \<notin> set (format_timestamp a)" by (rule format_free) simp_all
  have "takeWhile (\<lambda>c. c \<noteq> CHR '' '') (timing_text a b) = format_timestamp a"
    using free takeWhile_block [of "format_timestamp a" "\<lambda>c. c \<noteq> CHR '' ''" "'' --> '' @ format_timestamp b"]
    unfolding timing_text_def by fastforce
  then show ?thesis by (simp add: vtt_timing_def Let_def timing_text_def vtt_time_read)
qed

lemma vtt_blocks_served:
  assumes "\<forall>c \<in> set cs. (\<forall>l \<in> set (ca_lines c). text_line l)"
  shows "vtt_blocks (concat (map (served_lines offset_ms) cs)) = Some (map (later offset_ms) cs)"
  using assms
proof (induction cs)
  case Nil
  then show ?case by (simp add: vtt_blocks.simps(1))
next
  case (Cons c cs)
  let ?rest = "concat (map (served_lines offset_ms) cs)"
  have "\<forall>x \<in> set (map srt_text (ca_lines c)). x \<noteq> []" using Cons.prems text_line_facts by auto
  moreover have "?rest = [] \<or> hd ?rest = []" by (cases cs) (auto simp: served_lines_def)
  ultimately have cut: "takeWhile (\<lambda>x. x \<noteq> []) (map srt_text (ca_lines c) @ ?rest) = map srt_text (ca_lines c)"
      "dropWhile (\<lambda>x. x \<noteq> []) (map srt_text (ca_lines c) @ ?rest) = ?rest"
    using takeWhile_block [of "map srt_text (ca_lines c)" "\<lambda>x. x \<noteq> []" ?rest] by blast+
  have "map (shown_text \<circ> srt_text) (ca_lines c) = ca_lines c"
    using Cons.prems text_line_facts by (auto intro: map_idI)
  then have shown: "map shown_text (map srt_text (ca_lines c)) = ca_lines c" by simp
  have "timing_text a b \<noteq> []" for a b by (simp add: timing_text_def)
  then have "vtt_blocks (concat (map (served_lines offset_ms) (c # cs)))
      = map_option ((#) \<lparr>ca_from = ca_from c + offset_ms, ca_to = ca_to c + offset_ms, ca_lines = ca_lines c\<rparr>) (vtt_blocks ?rest)"
    using cut shown
    by (simp add: served_lines_def [of offset_ms c] vtt_blocks.simps(2) [of "[]"] vtt_blocks.simps(2) [of "timing_text a b" for a b]
        vtt_timing_read del: map_map)
  then show ?case using Cons by (simp add: later_def)
qed

end
