(* ===== verification/Subtitle_Properties.thy ===== *)
theory Subtitle_Properties
  imports Subtitle_Laws Subrip_Laws
begin

text \<open>
  What a subtitle file becomes: a WebVTT file keeps its lines and moves its times, and a SubRip or TTML
  file is served as the WebVTT file of its cues, each moved.
\<close>

section \<open>Moving the file of the cues\<close>

lemma content_of_line_rest: "content_of_line l @ drop (length (content_of_line l)) l = l"
proof -
  have "l = content_of_line l @ rev (takeWhile line_break (rev l))"
    unfolding content_of_line_def
    by (metis rev_append rev_rev_ident takeWhile_dropWhile_id)
  then show ?thesis by (metis append_eq_conv_conj)
qed

lemma shift_pieces_append:
  "shift_pieces offset_ms (xs @ ys) =
     Option.bind (shift_pieces offset_ms xs) (\<lambda>a. map_option ((@) a) (shift_pieces offset_ms ys))"
proof (induction xs)
  case Nil
  then show ?case by (cases "shift_pieces offset_ms ys") auto
next
  case (Cons x xs)
  then show ?case
    by (cases "shift_piece offset_ms x"; cases "shift_pieces offset_ms xs"; cases "shift_pieces offset_ms ys") auto
qed

text \<open>A text ends its last line, or holds none.\<close>

definition ended :: "string \<Rightarrow> bool" where
  "ended s \<longleftrightarrow> s = [] \<or> line_break (last s)"

lemma ended_line [simp]: "ended (line_of s)" "ended []"
  by (simp_all add: ended_def line_of_def line_break_def)

lemma shift_after:
  assumes "ended a" and "shift_pieces offset_ms (split_inclusive a) = Some a'"
    and "shift_pieces offset_ms (split_inclusive b) = Some b'"
  shows "shift_pieces offset_ms (split_inclusive (a @ b)) = Some (a' @ b')"
  using assms split_inclusive_append [of a b] by (simp add: ended_def shift_pieces_append)

lemma shift_plain:
  assumes "\<not> contains ARROW s"
  shows "shift_pieces offset_ms (split_inclusive s) = Some s"
proof -
  have "shift_pieces offset_ms ls = Some (concat ls)" if "\<forall>l \<in> set ls. \<not> contains ARROW l" for ls
    using that
  proof (induction ls)
    case (Cons l ls)
    have "\<not> contains ARROW (content_of_line l)"
      using Cons.prems contains_part [of ARROW "content_of_line l" "[]" "drop (length (content_of_line l)) l"]
      by (auto simp: content_of_line_rest)
    then show ?case using Cons content_of_line_rest [of l] by (simp add: shift_piece_def)
  qed simp
  moreover have "\<not> contains ARROW l" if l: "l \<in> set (split_inclusive s)" for l
  proof -
    obtain a b where "split_inclusive s = a @ l # b" using split_list [OF l] by blast
    then have "s = concat a @ l @ concat b" using split_inclusive_ok(2) [of s] by simp
    then show ?thesis using assms contains_part by blast
  qed
  ultimately show ?thesis using split_inclusive_ok(2) [of s] by simp
qed

definition move_cue :: "nat \<Rightarrow> cue \<Rightarrow> cue" where
  "move_cue offset_ms c = c\<lparr>cu_start := cu_start c + offset_ms, cu_end := cu_end c + offset_ms\<rparr>"

text \<open>A cue whose times can be written, before and after they move.\<close>

definition can_move :: "nat \<Rightarrow> cue \<Rightarrow> bool" where
  "can_move offset_ms c \<longleftrightarrow> sound_cue c \<and> cu_end c < TIMESTAMP_LIMIT \<and> cu_end c + offset_ms < u64_limit"

lemma shift_timing_text:
  assumes "a < TIMESTAMP_LIMIT" "b < TIMESTAMP_LIMIT" "a + offset_ms < u64_limit" "b + offset_ms < u64_limit"
  shows "shift_pieces offset_ms (split_inclusive (line_of (timing_text a b)))
       = Some (line_of (timing_text (a + offset_ms) (b + offset_ms)))"
proof -
  have break: "line_break (CHR 0x0A)" by (simp add: line_break_def)
  have pieces: "split_inclusive (line_of (timing_text a b)) = [timing_text a b @ [CHR 0x0A]]"
    using split_inclusive_piece [OF format_breakless break, of a b "[]"] by (simp add: line_of_def)
  have content: "content_of_line (timing_text a b @ [CHR 0x0A]) = timing_text a b"
    by (rule content_of_parts [OF format_breakless]) (simp add: break)
  have arrow: "contains ARROW (timing_text a b)"
    unfolding contains_iff timing_text_def ARROW_def
    by (intro exI [of _ "format_timestamp a @ '' ''"] exI [of _ "'' '' @ format_timestamp b"]) simp
  have "timing_of (timing_text a b) = Some ((a, b), [])"
    using timing_of_written [OF assms(1,2), of "[]"] by (simp add: settings_text_def trim_start_def)
  then have "shift_timing_line (timing_text a b) offset_ms = Some (timing_text (a + offset_ms) (b + offset_ms))"
    using assms(3,4) by (simp add: shift_of_timing settings_text_def)
  then show ?thesis unfolding pieces by (simp add: shift_piece_def content arrow line_of_def)
qed

lemma shift_cue_text:
  assumes "can_move offset_ms c"
  shows "shift_pieces offset_ms (split_inclusive (cue_text c)) = Some (cue_text (move_cue offset_ms c))"
proof -
  have c: "cu_start c < TIMESTAMP_LIMIT" "cu_end c < TIMESTAMP_LIMIT" "cu_start c + offset_ms < u64_limit"
    "cu_end c + offset_ms < u64_limit" "closes (cu_text c)"
    using assms by (auto simp: can_move_def sound_cue_def)
  have no_arrow: "\<not> contains ARROW (line_of s)" if "closes s" for s
    using closes_no_arrow [OF closes_append [OF that closes_plain]] by (simp add: line_of_def)
  have parts: "shift_pieces offset_ms (split_inclusive (line_of [])) = Some (line_of [])"
    "shift_pieces offset_ms (split_inclusive (line_of (cu_text c))) = Some (line_of (cu_text c))"
    using no_arrow c(5) closes_plain [of "[]"] by (auto intro: shift_plain)
  have "shift_pieces offset_ms (split_inclusive (line_of [] @ line_of (timing_text (cu_start c) (cu_end c)) @ line_of (cu_text c)))
    = Some (line_of [] @ line_of (timing_text (cu_start c + offset_ms) (cu_end c + offset_ms)) @ line_of (cu_text c))"
    by (intro shift_after ended_line parts shift_timing_text c)
  then show ?thesis by (simp add: cue_text_def move_cue_def)
qed

lemma shift_cues:
  assumes "\<forall>c \<in> set cues. can_move offset_ms c"
  shows "shift_pieces offset_ms (split_inclusive (concat (map cue_text cues)))
       = Some (concat (map (cue_text \<circ> move_cue offset_ms) cues))"
  using assms
proof (induction cues)
  case (Cons c cues)
  have "ended (cue_text c)" by (simp add: cue_text_def ended_def line_of_def line_break_def)
  from shift_after [OF this shift_cue_text] Cons show ?case by simp
qed simp

lemma sort_mapped:
  fixes key :: "'a \<Rightarrow> nat" and key' :: "'b \<Rightarrow> nat"
  assumes "\<And>x y. key' (f x) \<le> key' (f y) \<longleftrightarrow> key x \<le> key y"
  shows "sort_key key' (map f xs) = map f (sort_key key xs)"
proof -
  have "insort_key key' (f x) (map f ys) = map f (insort_key key x ys)" for x ys
    using assms by (induction ys) simp_all
  then show ?thesis by (induction xs) simp_all
qed

lemma sort_moved: "sort_key cu_start (map (move_cue offset_ms) cues) = map (move_cue offset_ms) (sort_key cu_start cues)"
  by (rule sort_mapped) (simp add: move_cue_def)

lemma shift_webvtt:
  assumes "\<forall>c \<in> set cues. can_move offset_ms c"
  shows "shift_pieces offset_ms (split_inclusive (webvtt_from cues)) = Some (webvtt_from (map (move_cue offset_ms) cues))"
proof -
  have "\<not> contains ARROW (line_of ''WEBVTT'')" by (rule closes_no_arrow) (simp add: closes_plain line_of_def)
  then have "shift_pieces offset_ms (split_inclusive (line_of ''WEBVTT'')) = Some (line_of ''WEBVTT'')" by (rule shift_plain)
  moreover have "shift_pieces offset_ms (split_inclusive (concat (map cue_text (sort_key cu_start cues))))
      = Some (concat (map (cue_text \<circ> move_cue offset_ms) (sort_key cu_start cues)))"
    using assms by (intro shift_cues) simp
  ultimately show ?thesis unfolding webvtt_from_def
    using shift_after [OF ended_line(1)] by (simp add: sort_moved)
qed

section \<open>The cues of a file that is not WebVTT\<close>

definition file_cues :: "(string \<Rightarrow> xml_document) \<Rightarrow> string \<Rightarrow> cue list option" where
  "file_cues xml body =
     (if has_webvtt_header body then None
      else if looks_like_ttml body then (case ttml_cues (xml body) of Inl _ \<Rightarrow> None | Inr cues \<Rightarrow> Some cues)
      else if looks_like_srt body then
        (case srt_cues False (split_lines (normal_lines body)) of Inr (cues, True) \<Rightarrow> Some cues | _ \<Rightarrow> None)
      else None)"

lemma file_cues_converted:
  assumes "file_cues xml body = Some cues"
  shows "converted_text xml body = Inr (Some (webvtt_from cues))"
  using assms
  by (auto simp: file_cues_def converted_text_def srt_to_webvtt_def split: if_splits sum.splits prod.splits bool.splits)

lemma file_cues_sound:
  assumes "file_cues xml body = Some cues" and "c \<in> set cues"
  shows "sound_cue c" and "\<not> looks_like_ttml body \<Longrightarrow> cu_end c < TIMESTAMP_LIMIT"
proof -
  have "sound_cue c \<and> (\<not> looks_like_ttml body \<longrightarrow> cu_end c < TIMESTAMP_LIMIT)"
  proof (cases "looks_like_ttml body")
    case True
    then show ?thesis using assms ttml_cues_sound by (auto simp: file_cues_def split: if_splits sum.splits)
  next
    case False
    then obtain found where "srt_cues False (split_lines (normal_lines body)) = Inr (cues, found)"
      using assms by (auto simp: file_cues_def split: if_splits sum.splits prod.splits bool.splits)
    from srt_cues_sound [OF this assms(2)] show ?thesis by simp
  qed
  then show "sound_cue c" and "\<not> looks_like_ttml body \<Longrightarrow> cu_end c < TIMESTAMP_LIMIT" by blast+
qed

text \<open>
  A file is served as the WebVTT file of its cues, each moved: every time of the file written can be read
  back, and no text of a cue looks like a timing line.
\<close>

lemma converted_file_moved:
  assumes "utf8_valid (map of_char file)" and "file_cues xml (without_mark file) = Some cues"
    and "\<forall>c \<in> set cues. can_move offset_ms c"
  shows "prepare xml language file offset_ms = ok (webvtt_from (map (move_cue offset_ms) cues))"
  using shift_webvtt [OF assms(3)] file_cues_converted [OF assms(2)] assms(1) by (simp add: prepare_def Let_def)

section \<open>A SubRip file from outside\<close>

lemma subrip_starts:
  assumes "captions \<noteq> []"
  obtains c s where "subrip_file e captions = c # s" "is_digit c"
proof -
  obtain d ds where "decimal 1 = d # ds" "is_digit d" using decimal_between [of 1] by (cases "decimal 1") (auto simp: between_digits_def)
  then show thesis using that assms by (cases captions) (auto simp: subrip_file_def subrip_lines_def subrip_block_def)
qed

lemma mark_bytes: "BYTE_ORDER_MARK = [CHR 0xEF, CHR 0xBB, CHR 0xBF]"
  by code_simp

lemma digit_starts_no_other:
  assumes "is_digit c"
  shows "without_mark (c # s) = c # s" "\<not> has_webvtt_header (c # s)" "\<not> looks_like_ttml (c # s)"
proof -
  have other: "CHR 0xEF \<noteq> c" "c \<noteq> CHR ''W''" "c \<noteq> CHR ''<''" using assms by (auto simp: is_digit_def)
  show mark: "without_mark (c # s) = c # s" using other by (simp add: without_mark_def strip_start_def mark_bytes)
  show "\<not> has_webvtt_header (c # s)" using other by (simp add: has_webvtt_header_def strip_start_def)
  show "\<not> looks_like_ttml (c # s)"
    using other mark trim_start_digit [OF assms] by (simp add: looks_like_ttml_def strip_start_def past_prologue.simps)
qed

lemma subrip_file_cues:
  assumes "\<forall>c \<in> set captions. caption_ok offset_ms c" and "captions \<noteq> []" and "e \<in> set LINE_ENDS"
  shows "file_cues xml (subrip_file e captions) = Some (map cue_for (filter showable captions))"
proof -
  have "\<forall>l \<in> set (subrip_lines (enumerate 1 captions)). CHR 0x0D \<notin> set l \<and> one_line l"
    using subrip_lines_plain [OF assms(1)] by blast
  then have "split_lines (normal_lines (subrip_file e captions)) = subrip_lines (enumerate 1 captions)"
    using normal_file [OF _ assms(3)] by (simp add: subrip_file_def list_all_iff)
  moreover obtain c s where "subrip_file e captions = c # s" "is_digit c" by (rule subrip_starts [OF assms(2)])
  ultimately show ?thesis
    using subrip_cues [OF assms(1), of False 1] subrip_looks [OF assms] digit_starts_no_other [of c s] assms(2)
    by (simp add: file_cues_def)
qed

lemma served_read:
  assumes "\<forall>c \<in> set captions. caption_ok offset_ms c \<and> showable c"
  shows "read_webvtt (webvtt_from (map (move_cue offset_ms) (map cue_for captions)))
    = Some (map (later offset_ms) (sort_key ca_from captions))"
proof -
  let ?sorted = "sort_key ca_from captions"
  let ?ls = "''WEBVTT'' # concat (map (served_lines offset_ms) ?sorted)"
  have sorted: "sort_key cu_start (map (move_cue offset_ms \<circ> cue_for) captions) = map (move_cue offset_ms \<circ> cue_for) ?sorted"
    by (rule sort_mapped) (simp add: move_cue_def cue_for_def)
  have lines_of: "line_of (joined_by [CHR 0x0A] ls) = in_lines ls" if "ls \<noteq> []" for ls
    using that by (induction "[CHR 0x0A]" ls rule: joined_by.induct) (simp_all add: line_of_def)
  have "cue_text (move_cue offset_ms (cue_for c)) = in_lines (served_lines offset_ms c)" if "c \<in> set ?sorted" for c
    using assms that lines_of [of "map srt_text (ca_lines c)"]
    by (simp add: cue_text_def move_cue_def cue_for_def served_lines_def showable_def)
  then have "map (cue_text \<circ> (move_cue offset_ms \<circ> cue_for)) ?sorted = map (in_lines \<circ> served_lines offset_ms) ?sorted"
    by (intro map_cong) simp_all
  moreover have "concat (map (in_lines \<circ> f) xs) = in_lines (concat (map f xs))" for f and xs :: "caption list"
    by (induction xs) simp_all
  ultimately have "concat (map (cue_text \<circ> (move_cue offset_ms \<circ> cue_for)) ?sorted) = in_lines (concat (map (served_lines offset_ms) ?sorted))"
    by metis
  then have written: "webvtt_from (map (move_cue offset_ms) (map cue_for captions)) = in_lines ?ls"
    using sorted by (simp add: webvtt_from_def)
  have "one_line (timing_text a b)" for a b
    using format_breakless by (auto simp: one_line_def breakless_def line_break_def)
  then have "list_all one_line ?ls"
    using assms text_line_facts by (auto simp: list_all_iff served_lines_def caption_ok_def)
  then have "split_lines (webvtt_from (map (move_cue offset_ms) (map cue_for captions))) = ?ls"
    unfolding written by (rule split_in_lines)
  moreover have starts: "concat (map (served_lines offset_ms) xs) = [] \<or> hd (concat (map (served_lines offset_ms) xs)) = []" for xs
    by (cases xs) (simp_all add: served_lines_def)
  ultimately show ?thesis
    using vtt_blocks_served [of ?sorted offset_ms] assms starts [of ?sorted] by (simp add: read_webvtt_def caption_ok_def)
qed

text \<open>
  C22: A SubRip file written by another program, with LF or CRLF line ends and perhaps a byte order mark,
  whose times have at most ten digits of hours and whose text has no markup, is served as a WebVTT file in
  which an independent reader finds exactly the captions that can be shown, those that end after they start
  and have text, in the order of their starts, with their text unchanged and both of their times later by
  the offset.
\<close>

theorem subrip_served_moved:
  assumes "\<forall>c \<in> set captions. caption_ok offset_ms c" and "captions \<noteq> []" and "line_end \<in> set LINE_ENDS"
    and "mark \<in> {[], BYTE_ORDER_MARK}" and "utf8_valid (map of_char (mark @ subrip_file line_end captions))"
  shows "\<exists>served. prepare xml language (mark @ subrip_file line_end captions) offset_ms = ok served
    \<and> read_webvtt served = Some (map (later offset_ms) (sort_key ca_from (filter showable captions)))"
proof -
  obtain c s where "subrip_file line_end captions = c # s" "is_digit c" by (rule subrip_starts [OF assms(2)])
  then have body: "without_mark (mark @ subrip_file line_end captions) = subrip_file line_end captions"
    using assms(4) digit_starts_no_other(1) [of c s] by (auto simp: without_mark_def strip_start_def)
  let ?cues = "map cue_for (filter showable captions)"
  note found = subrip_file_cues [OF assms(1-3), of xml]
  have "\<forall>c \<in> set ?cues. can_move offset_ms c"
    using file_cues_sound(1) [OF found] assms(1) by (auto simp: can_move_def cue_for_def caption_ok_def)
  then have "prepare xml language (mark @ subrip_file line_end captions) offset_ms
      = ok (webvtt_from (map (move_cue offset_ms) ?cues))"
    using converted_file_moved [OF assms(5)] found body by simp
  then show ?thesis using served_read [of "filter showable captions" offset_ms] assms(1) by simp
qed

section \<open>Examples\<close>

definition no_document :: "string \<Rightarrow> xml_document" where
  "no_document s = ([], False)"

definition example_captions :: "caption list" where
  "example_captions =
     [\<lparr>ca_from = 3000, ca_to = 4500, ca_lines = [''a < b & c'', ''  > d'']\<rparr>, \<lparr>ca_from = 1500, ca_to = 2250, ca_lines = [''Hi'']\<rparr>,
      \<lparr>ca_from = 5000, ca_to = 4000, ca_lines = [''never'']\<rparr>, \<lparr>ca_from = 6000, ca_to = 7000, ca_lines = []\<rparr>]"

lemma example_captions_ok:
  "list_all (caption_ok 2500) example_captions" "[CHR 0x0D, CHR 0x0A] \<in> set LINE_ENDS"
  "utf8_valid (map of_char (BYTE_ORDER_MARK @ subrip_file [CHR 0x0D, CHR 0x0A] example_captions))"
  by code_simp+

theorem subrip_served_moved_witness:
  "\<exists>served. prepare no_document ''en'' (BYTE_ORDER_MARK @ subrip_file [CHR 0x0D, CHR 0x0A] example_captions) 2500 = ok served
    \<and> read_webvtt served = Some [\<lparr>ca_from = 4000, ca_to = 4750, ca_lines = [''Hi'']\<rparr>,
        \<lparr>ca_from = 5500, ca_to = 7000, ca_lines = [''a < b & c'', ''  > d'']\<rparr>]"
proof -
  have "map (later 2500) (sort_key ca_from (filter showable example_captions)) =
      [\<lparr>ca_from = 4000, ca_to = 4750, ca_lines = [''Hi'']\<rparr>, \<lparr>ca_from = 5500, ca_to = 7000, ca_lines = [''a < b & c'', ''  > d'']\<rparr>]"
    by (simp add: example_captions_def later_def showable_def)
  moreover have "example_captions \<noteq> []" by (simp add: example_captions_def)
  ultimately show ?thesis
    using subrip_served_moved [of example_captions 2500 "[CHR 0x0D, CHR 0x0A]" BYTE_ORDER_MARK no_document "''en''"]
      example_captions_ok by (simp add: list_all_iff)
qed

text \<open>Tags and short times are read too.\<close>

definition example_srt :: string where
  "example_srt = concat (map line_of
     [''2'', ''00:00:03,000 --> 00:00:04,5'', ''a < b'', [], ''1'', ''0:0:1.5 --> 0:0:2,25 X1:10'', ''<I>Hi</I>''])"

lemma example_srt_file:
  "file_cues no_document example_srt = Some
     [\<lparr>cu_start = 3000, cu_end = 4500, cu_text = ''a &lt; b''\<rparr>, \<lparr>cu_start = 1500, cu_end = 2250, cu_text = ''<i>Hi</i>''\<rparr>]"
  by code_simp

text \<open>
  A text line of a SubRip cue that is only an override block is left as an empty line, and an empty line ends
  a cue of a WebVTT file: the rest of its text is not part of it any more.
\<close>

lemma override_line_ends_cue:
  "srt_to_webvtt (concat (map line_of [''1'', ''00:00:01,000 --> 00:00:02,000'', ''{'' @ [CHR 0x5C] @ ''an8}'', ''Hi'']))
     = Inr (concat (map line_of [''WEBVTT'', [], ''00:00:01.000 --> 00:00:02.000'', [], ''Hi'']))"
  by code_simp

section \<open>WebVTT files\<close>






end
