(* ===== verification/Ttml_Laws.thy ===== *)
theory Ttml_Laws
  imports Subtitle_Properties
begin

text \<open>
  The text of a cue read from TTML (\<^verbatim>\<open>src/src/subtitle/ttml.rs\<close>): its tags are opened and closed as
  brackets are, whatever the elements of the document.
\<close>

section \<open>Texts with tags\<close>

text \<open>Reading the text takes the open tags, innermost first, to the open tags after it.\<close>

inductive marked :: "string list \<Rightarrow> string \<Rightarrow> string list \<Rightarrow> bool" where
  marked_end: "marked open_tags [] open_tags"
| marked_char: "c \<noteq> CHR ''<'' \<Longrightarrow> c \<noteq> CHR ''>'' \<Longrightarrow> marked open_tags s after \<Longrightarrow> marked open_tags (c # s) after"
| marked_open: "n \<in> {''i'', ''b'', ''u''} \<Longrightarrow> marked (n # open_tags) s after \<Longrightarrow> marked open_tags (''<'' @ n @ ''>'' @ s) after"
| marked_close: "n \<in> {''i'', ''b'', ''u''} \<Longrightarrow> marked open_tags s after \<Longrightarrow> marked (n # open_tags) (''</'' @ n @ ''>'' @ s) after"

lemma marked_append: "marked a s b \<Longrightarrow> marked b t c \<Longrightarrow> marked a (s @ t) c"
proof (induction rule: marked.induct)
  case (marked_open n open_tags s after)
  then show ?case using marked.marked_open [of n open_tags "s @ t" c] by simp
next
  case (marked_close n open_tags s after)
  then show ?case using marked.marked_close [of n open_tags "s @ t" c] by simp
qed (auto intro: marked.intros)

lemma marked_plain: "CHR ''<'' \<notin> set s \<Longrightarrow> CHR ''>'' \<notin> set s \<Longrightarrow> marked a s a"
  by (induction s) (auto intro: marked.intros)

lemma marked_opened:
  assumes "set ns \<subseteq> {''i'', ''b'', ''u''}"
  shows "marked a (concat (map (\<lambda>n. ''<'' @ n @ ''>'') ns)) (rev ns @ a)"
  using assms
proof (induction ns arbitrary: a)
  case (Cons n ns)
  then have "marked a (''<'' @ n @ ''>'' @ concat (map (\<lambda>n. ''<'' @ n @ ''>'') ns)) (rev ns @ n # a)"
    by (intro marked_open) auto
  then show ?case by simp
qed (simp add: marked_end)

lemma marked_closed:
  assumes "set ns \<subseteq> {''i'', ''b'', ''u''}"
  shows "marked (ns @ a) (concat (map (\<lambda>n. ''</'' @ n @ ''>'') ns)) a"
  using assms
proof (induction ns)
  case (Cons n ns)
  then have "marked (n # ns @ a) (''</'' @ n @ ''>'' @ concat (map (\<lambda>n. ''</'' @ n @ ''>'') ns)) a"
    by (intro marked_close) auto
  then show ?case by simp
qed (simp add: marked_end)

section \<open>Taking white space away\<close>

text \<open>The second text is the first without some of its blanks and line breaks.\<close>

inductive thins :: "string \<Rightarrow> string \<Rightarrow> bool" where
  thins_end: "thins [] []"
| thins_keep: "thins s t \<Longrightarrow> thins (c # s) (c # t)"
| thins_drop: "c = CHR '' '' \<or> c = CHR 0x0A \<Longrightarrow> thins s t \<Longrightarrow> thins (c # s) t"

inductive_cases thins_consE: "thins (c # s) t"

lemma thins_refl: "thins s s"
  by (induction s) (auto intro: thins.intros)

lemma thins_append: "thins a x \<Longrightarrow> thins b y \<Longrightarrow> thins (a @ b) (x @ y)"
  by (induction rule: thins.induct) (auto intro: thins.intros)

lemma thins_nothing: "\<forall>c \<in> set s. c = CHR '' '' \<or> c = CHR 0x0A \<Longrightarrow> thins s []"
  by (induction s) (auto intro: thins.intros)

lemma thins_prefix:
  assumes "\<forall>c \<in> set p. c \<noteq> CHR '' '' \<and> c \<noteq> CHR 0x0A" and "thins (p @ s) t"
  shows "\<exists>t'. t = p @ t' \<and> thins s t'"
  using assms
proof (induction p arbitrary: t)
  case (Cons c p)
  from Cons.prems(2) obtain t' where "t = c # t'" "thins (p @ s) t'"
    using Cons.prems(1) by (auto elim: thins_consE)
  then show ?case using Cons.IH [of t'] Cons.prems(1) by auto
qed simp

lemma marked_thin: "marked a s b \<Longrightarrow> thins s t \<Longrightarrow> marked a t b"
proof (induction arbitrary: t rule: marked.induct)
  case (marked_end open_tags)
  then have "t = []" by (auto elim: thins.cases)
  then show ?case by (simp add: marked.marked_end)
next
  case (marked_char c open_tags s after)
  from marked_char.prems show ?case
    by (rule thins_consE) (use marked_char.hyps marked_char.IH in \<open>auto intro: marked.marked_char\<close>)
next
  case (marked_open n open_tags s after)
  have "thins ((''<'' @ n @ ''>'') @ s) t" using marked_open.prems by simp
  from thins_prefix [OF _ this] marked_open.hyps(1) obtain t' where "t = (''<'' @ n @ ''>'') @ t'" "thins s t'" by auto
  then show ?case using marked.marked_open [OF marked_open.hyps(1) marked_open.IH] by simp
next
  case (marked_close n open_tags s after)
  have "thins ((''</'' @ n @ ''>'') @ s) t" using marked_close.prems by simp
  from thins_prefix [OF _ this] marked_close.hyps(1) obtain t' where "t = (''</'' @ n @ ''>'') @ t'" "thins s t'" by auto
  then show ?case using marked.marked_close [OF marked_close.hyps(1) marked_close.IH] by simp
qed

lemma split_parts_nonempty: "split_parts c s \<noteq> []"
  by (cases s) (auto split: list.split)

lemma joined_Cons: "xs \<noteq> [] \<Longrightarrow> joined_by sep (x # xs) = x @ sep @ joined_by sep xs"
  by (cases xs) auto

lemma joined_split: "joined_by [c] (split_parts c s) = s"
proof (induction s)
  case (Cons x s)
  obtain p ps where parts: "split_parts c s = p # ps" using split_parts_nonempty by (meson list.exhaust)
  then show ?case using Cons by (cases ps) auto
qed simp

text \<open>Parts that are thinned, those of them that are empty left out.\<close>

lemma thins_joined:
  assumes "\<forall>x \<in> set xs. thins x (f x)" and "c = CHR '' '' \<or> c = CHR 0x0A"
  shows "thins (joined_by [c] xs) (joined_by [c] (filter (\<lambda>x. x \<noteq> []) (map f xs)))"
  using assms(1)
proof (induction xs)
  case (Cons x xs)
  let ?rest = "filter (\<lambda>x. x \<noteq> []) (map f xs)"
  have x: "thins x (f x)" and rest: "thins (joined_by [c] xs) (joined_by [c] ?rest)" using Cons by simp_all
  show ?case
  proof (cases "xs = []")
    case True
    then show ?thesis using x by (cases "f x = []") simp_all
  next
    case False
    have dropped: "thins (x @ c # joined_by [c] xs) (f x @ joined_by [c] ?rest)"
      using assms(2) rest x by (intro thins_append thins_drop) auto
    have kept: "thins (x @ c # joined_by [c] xs) (f x @ c # joined_by [c] ?rest)"
      by (intro thins_append thins_keep x rest)
    show ?thesis using dropped kept False
      by (cases "f x = []"; cases "?rest = []") (simp_all add: joined_Cons)
  qed
qed (simp add: thins_end)

lemma thins_tidy: "thins s (tidy s preserve)"
proof (cases preserve)
  case True
  let ?drop = "dropWhile (\<lambda>c. c = CHR 0x0A)"
  have drop: "thins s (?drop s)" for s by (induction s) (auto intro: thins_drop thins_refl)
  have "thins t (rev (?drop (rev t)))" for t
  proof -
    have "t = rev (?drop (rev t)) @ rev (takeWhile (\<lambda>c. c = CHR 0x0A) (rev t))"
      by (metis rev_append rev_rev_ident takeWhile_dropWhile_id)
    moreover have "thins (rev (takeWhile (\<lambda>c. c = CHR 0x0A) (rev t))) []"
      by (rule thins_nothing) (auto dest: set_takeWhileD)
    ultimately show ?thesis by (metis append_Nil2 thins_append thins_refl)
  qed
  moreover have "thins s u" if "thins s t" "thins t u" for s t u :: string
    using that
  proof (induction arbitrary: u rule: thins.induct)
    case (thins_keep s t c)
    from thins_keep.prems show ?case by (rule thins_consE) (auto intro: thins.intros thins_keep.IH)
  qed (auto intro: thins.intros)
  ultimately show ?thesis using drop True by (metis tidy_def)
next
  case False
  have "thins l (tidy_line l)" for l
    using thins_joined [of "split_parts (CHR '' '') l" "\<lambda>w. w" "CHR '' ''"]
    by (simp add: thins_refl joined_split tidy_line_def)
  then have "thins (joined_by [CHR 0x0A] (split_parts (CHR 0x0A) s))
      (joined_by [CHR 0x0A] (filter (\<lambda>x. x \<noteq> []) (map tidy_line (split_parts (CHR 0x0A) s))))"
    by (intro thins_joined) auto
  then show ?thesis using False by (simp add: tidy_def joined_split)
qed

section \<open>The converter\<close>

definition tagged :: "open_element \<Rightarrow> bool" where
  "tagged f \<longleftrightarrow> oe_kind f = Paragraph_Kind \<or> oe_kind f = Span"

text \<open>The tags the open elements have opened, innermost first.\<close>

definition stack_tags :: "open_element list \<Rightarrow> string list" where
  "stack_tags fs = concat (map (\<lambda>f. rev (style_tags (oe_opened f))) fs)"

text \<open>
  Only a paragraph and the spans in it open tags, and the text of the paragraph has opened those of the elements
  that are open.
\<close>

definition in_paragraph :: "open_element list \<Rightarrow> bool" where
  "in_paragraph fs \<longleftrightarrow> (\<exists>above p below. fs = above @ p # below \<and> oe_kind p = Paragraph_Kind
     \<and> (\<forall>f \<in> set above. oe_kind f \<noteq> Paragraph_Kind) \<and> (\<forall>f \<in> set below. \<not> tagged f))"

definition tags_ok :: "converter \<Rightarrow> bool" where
  "tags_ok c \<longleftrightarrow> (\<forall>f \<in> set (co_stack c). tagged f \<or> oe_opened f = no_style)
     \<and> (case co_paragraph c of
          None \<Rightarrow> \<forall>f \<in> set (co_stack c). \<not> tagged f
        | Some p \<Rightarrow> in_paragraph (co_stack c) \<and> marked [] (pa_text p) (stack_tags (co_stack c)))
     \<and> (\<forall>q \<in> set (co_cues c). marked [] (cu_text q) [])"

lemma stack_tags_simps [simp]:
  "stack_tags [] = []" "stack_tags (f # fs) = rev (style_tags (oe_opened f)) @ stack_tags fs"
  by (simp_all add: stack_tags_def)

lemma style_tags_names: "set (style_tags st) \<subseteq> {''i'', ''b'', ''u''}"
  by (auto simp: style_tags_def)

lemma style_tags_none [simp]: "style_tags no_style = []"
  by (simp add: style_tags_def no_style_def)

lemma untagged_stack: "\<forall>f \<in> set fs. \<not> tagged f \<Longrightarrow> \<forall>f \<in> set fs. tagged f \<or> oe_opened f = no_style \<Longrightarrow> stack_tags fs = []"
  by (induction fs) auto

lemma opening_tags: "marked a (tags_text st True) (rev (style_tags st) @ a)"
  using marked_opened [OF style_tags_names] by (simp add: tags_text_def)

lemma closing_tags: "marked (rev (style_tags st) @ a) (tags_text st False) a"
  using marked_closed [of "rev (style_tags st)" a] style_tags_names [of st] by (simp add: tags_text_def)

lemma in_paragraph_Cons:
  "oe_kind f \<noteq> Paragraph_Kind \<Longrightarrow> in_paragraph (f # fs) \<longleftrightarrow> in_paragraph fs"
  "oe_kind f = Paragraph_Kind \<Longrightarrow> in_paragraph (f # fs) \<longleftrightarrow> (\<forall>g \<in> set fs. \<not> tagged g)"
proof -
  assume f: "oe_kind f \<noteq> Paragraph_Kind"
  show "in_paragraph (f # fs) \<longleftrightarrow> in_paragraph fs"
  proof
    assume "in_paragraph (f # fs)"
    then obtain above p below where p: "f # fs = above @ p # below" "oe_kind p = Paragraph_Kind"
      "\<forall>g \<in> set above. oe_kind g \<noteq> Paragraph_Kind" "\<forall>g \<in> set below. \<not> tagged g"
      unfolding in_paragraph_def by blast
    then obtain above' where "above = f # above'" "fs = above' @ p # below" using f by (cases above) auto
    then show "in_paragraph fs" using p unfolding in_paragraph_def by auto
  next
    assume "in_paragraph fs"
    then obtain above p below where p: "fs = above @ p # below" "oe_kind p = Paragraph_Kind"
      "\<forall>g \<in> set above. oe_kind g \<noteq> Paragraph_Kind" "\<forall>g \<in> set below. \<not> tagged g"
      unfolding in_paragraph_def by blast
    then show "in_paragraph (f # fs)" using f unfolding in_paragraph_def
      by (intro exI [of _ "f # above"] exI [of _ p] exI [of _ below]) simp
  qed
next
  assume f: "oe_kind f = Paragraph_Kind"
  show "in_paragraph (f # fs) \<longleftrightarrow> (\<forall>g \<in> set fs. \<not> tagged g)"
  proof
    assume "in_paragraph (f # fs)"
    then obtain above p below where "f # fs = above @ p # below" "\<forall>g \<in> set above. oe_kind g \<noteq> Paragraph_Kind"
      "\<forall>g \<in> set below. \<not> tagged g" unfolding in_paragraph_def by blast
    then show "\<forall>g \<in> set fs. \<not> tagged g" using f by (cases above) auto
  qed (use f in \<open>auto simp: in_paragraph_def intro!: exI [of _ "[]"]\<close>)
qed

lemma note_element_tags:
  assumes "tags_ok c"
  shows "tags_ok (note_element c e n)"
proof -
  have same: "co_stack (note_element c e n) = co_stack c" "co_cues (note_element c e n) = co_cues c"
    "co_paragraph (note_element c e n) \<in> {co_paragraph c, append_text [CHR 0x0A] (co_paragraph c)}"
    by (simp_all add: note_element_def)
  have "marked a (s @ [CHR 0x0A]) b" if "marked a s b" for a s b
    by (rule marked_append [OF that marked_plain]) simp_all
  then show ?thesis using assms same
    by (cases "co_paragraph c") (auto simp: tags_ok_def append_text_def)
qed

lemma add_text_tags:
  assumes "tags_ok c" and "add_text c s = Inr c'"
  shows "tags_ok c'"
proof (cases "co_paragraph c")
  case None
  then show ?thesis using assms by (simp add: add_text_def)
next
  case (Some p)
  have "marked a (concat (map (escaped_char preserve) s)) a" for a preserve
    by (rule marked_plain) (auto simp: escaped_char_def split: if_splits)
  then show ?thesis using assms Some marked_append
    by (auto simp: add_text_def tags_ok_def Let_def split: if_splits)
qed

lemma enter_root_tags:
  assumes "tags_ok c" and "enter_root e n c = Inr c'"
  shows "tags_ok c'"
  using enter_root_same [OF assms(2)] assms(1) by (cases "co_paragraph c") (auto simp: tags_ok_def)

lemma push_element_tags:
  assumes "tags_ok c" and "push_element c e kind start ending = Inr c'"
    and "kind = Span \<Longrightarrow> co_paragraph c \<noteq> None"
  shows "tags_ok c'"
proof -
  define effective where "effective = (if kind \<noteq> Other_Kind then style_or (co_effective c) (style_of (co_styles c) e) else co_effective c)"
  define opened where "opened = (if kind = Paragraph_Kind \<or> kind = Span then style_without effective (co_written c) else no_style)"
  define f where "f = \<lparr>oe_kind = kind, oe_begin = start, oe_end = ending, oe_restore = co_effective c, oe_opened = opened\<rparr>"
  have f: "oe_kind f = kind" "oe_opened f = opened" "tagged f \<longleftrightarrow> kind = Paragraph_Kind \<or> kind = Span"
    by (simp_all add: f_def tagged_def)
  define current where "current = (if kind = Paragraph_Kind then Some (new_paragraph e start ending) else co_paragraph c)"
  have fresh: "kind = Paragraph_Kind \<Longrightarrow> co_paragraph c = None"
    using assms(2) by (auto simp: push_element_def Let_def split: if_splits)
  have c': "co_stack c' = f # co_stack c" "co_cues c' = co_cues c"
    "co_paragraph c' = (if tagged f then append_text (tags_text opened True) current else current)"
    using assms(2) unfolding push_element_def Let_def
    by (auto simp: f_def effective_def opened_def current_def tagged_def split: if_split_asm)
  have opened: "tagged f \<or> oe_opened f = no_style" using f by (simp add: opened_def)
  note old = assms(1) [unfolded tags_ok_def]
  show ?thesis
  proof (cases "co_paragraph c")
    case None
    then have untagged: "\<forall>g \<in> set (co_stack c). \<not> tagged g" and none: "stack_tags (co_stack c) = []"
      using old untagged_stack by auto
    show ?thesis
    proof (cases "kind = Paragraph_Kind")
      case True
      then have "co_paragraph c' = Some ((new_paragraph e start ending)\<lparr>pa_text := tags_text opened True\<rparr>)"
        using c'(3) f by (simp add: current_def append_text_def new_paragraph_def)
      then show ?thesis using old opened c'(1,2) True f untagged none opening_tags [of "[]" opened]
        by (simp add: tags_ok_def in_paragraph_Cons)
    next
      case False
      then show ?thesis using None old opened c' f untagged assms(3) by (auto simp: tags_ok_def current_def)
    qed
  next
    case (Some p)
    then have kind: "kind \<noteq> Paragraph_Kind" using fresh by auto
    have "marked [] (if tagged f then pa_text p @ tags_text opened True else pa_text p) (stack_tags (f # co_stack c))"
      using old Some opened f marked_append [OF _ opening_tags] by auto
    then show ?thesis using Some old opened c' f kind
      by (auto simp: tags_ok_def current_def append_text_def in_paragraph_Cons)
  qed
qed

lemma start_element_tags:
  assumes "tags_ok c" and "start_element c e n = Inr c'"
  shows "tags_ok c'"
proof -
  obtain c1 where root: "enter_root e n c = Inr c1"
    using assms(2) by (auto simp: start_element_def and_then_eq_Inr split: if_splits)
  obtain b f where parent: "(case co_stack c1 of [] \<Rightarrow> (0, None) | f # _ \<Rightarrow> (oe_begin f, oe_end f)) = (b, f)" by fastforce
  obtain start ending where
      "push_element (note_element c1 e n) e (kind_of (recognized c1 n) (el_local e) (co_paragraph c1 \<noteq> None)) start ending = Inr c'"
    using assms(2) root parent by (auto simp: start_element_def and_then_eq_Inr Let_def split: if_splits)
  note c1 = root this
  have "co_paragraph (note_element c1 e n) = None \<longleftrightarrow> co_paragraph c1 = None"
    by (simp add: note_element_def append_text_def)
  then have "kind_of (recognized c1 n) (el_local e) (co_paragraph c1 \<noteq> None) = Span \<Longrightarrow> co_paragraph (note_element c1 e n) \<noteq> None"
    by (auto simp: kind_of_def split: if_splits)
  from push_element_tags [OF note_element_tags [OF enter_root_tags [OF assms(1) c1(1)]] c1(2) this] show ?thesis .
qed

lemma end_element_tags:
  assumes "tags_ok c" and "end_element c = Inr c'"
  shows "tags_ok c'"
proof -
  obtain f stack where stack: "co_stack c = f # stack" using assms(2) by (cases "co_stack c") (auto simp: end_element_def)
  note old = assms(1) [unfolded tags_ok_def stack]
  show ?thesis
  proof (cases "co_paragraph c")
    case None
    then have "\<not> tagged f" using old by simp
    then show ?thesis using None old assms(2)
      by (auto simp: end_element_def stack tagged_def tags_ok_def Let_def split: if_splits)
  next
    case (Some p)
    define p' where "p' = (if tagged f then p\<lparr>pa_text := pa_text p @ tags_text (oe_opened f) False\<rparr> else p)"
    have p': "marked [] (pa_text p') (stack_tags stack)"
      using old Some marked_append [OF _ closing_tags] by (auto simp: p'_def)
    show ?thesis
    proof (cases "oe_kind f = Paragraph_Kind")
      case False
      then have "co_stack c' = stack \<and> co_paragraph c' = Some p' \<and> co_cues c' = co_cues c"
        using assms(2) Some by (auto simp: end_element_def stack Let_def append_text_def p'_def tagged_def split: if_splits)
      then show ?thesis using p' old Some False by (simp add: tags_ok_def in_paragraph_Cons)
    next
      case True
      then have below: "\<forall>g \<in> set stack. \<not> tagged g" "stack_tags stack = []"
        using old Some untagged_stack by (auto simp: in_paragraph_Cons)
      have "\<exists>ending. co_stack c' = stack \<and> co_paragraph c' = None
          \<and> co_cues c' = co_cues c @ cue_of (pa_start p') ending (tidy (pa_text p') (pa_preserve p'))"
        using assms(2) Some True
        by (auto simp: end_element_def stack Let_def append_text_def p'_def tagged_def finish_paragraph_def split: option.splits)
      moreover have "marked [] (tidy (pa_text p') (pa_preserve p')) []"
        using marked_thin [OF p' thins_tidy] below(2) by simp
      ultimately show ?thesis using old below by (auto simp: tags_ok_def cue_of_def split: if_splits)
    qed
  qed
qed

lemma convert_event_tags:
  assumes "tags_ok c" and "convert_event c (n, event) = Inr c'"
  shows "tags_ok c'"
proof (cases event)
  case (Start_Tag e)
  then show ?thesis using assms start_element_tags by (auto simp: convert_event_def)
next
  case (Empty_Tag e)
  then obtain c1 where "start_element c e (in_ttml n) = Inr c1" "end_element c1 = Inr c'"
    using assms(2) by (auto simp: convert_event_def and_then_eq_Inr)
  then show ?thesis using assms(1) start_element_tags end_element_tags by blast
next
  case End_Tag
  then show ?thesis using assms end_element_tags by (simp add: convert_event_def)
next
  case (Text_Event s)
  then show ?thesis using assms add_text_tags by (simp add: convert_event_def)
next
  case (CData_Event s)
  then show ?thesis using assms add_text_tags by (simp add: convert_event_def)
next
  case (Reference character predefined)
  then have "\<exists>s. add_text c s = Inr c'"
    using assms(2) by (auto simp: convert_event_def split: sum.splits option.splits)
  then show ?thesis using assms(1) add_text_tags by blast
qed (use assms in \<open>simp_all add: convert_event_def\<close>)

text \<open>
  C24: The text of every cue read from a TTML document has its tags nested as brackets are: each is one of italic, bold
  and underline, is closed before the tags that were open when it was opened, and no other angle bracket is left in it.
\<close>

theorem ttml_tags_nest:
  assumes "ttml_cues doc = Inr cues" and "q \<in> set cues"
  shows "marked [] (cu_text q) []"
proof -
  obtain events complete where doc: "doc = (events, complete)" by fastforce
  obtain c where c: "try_fold convert_event converter_new events = Inr c" "cues = co_cues c"
    using assms(1) doc by (auto simp: ttml_cues_def and_then_eq_Inr split: if_splits)
  have "tags_ok converter_new" by (simp add: converter_new_def tags_ok_def)
  moreover have "tags_ok c'" if "tags_ok c0" "convert_event c0 ev = Inr c'" for c0 ev c'
    using convert_event_tags [of c0 "fst ev" "snd ev" c'] that by simp
  ultimately have "tags_ok c" using try_fold_inv [OF _ _ c(1), of tags_ok] by blast
  then show ?thesis using assms(2) c(2) by (simp add: tags_ok_def)
qed

definition element_named :: "string \<Rightarrow> (string \<times> string) list \<Rightarrow> element" where
  "element_named name attributes = \<lparr>el_local = name, el_attributes = map (\<lambda>(n, v). (n, Some v)) attributes\<rparr>"

text \<open>An italic paragraph with a bold span of two lines in it.\<close>

definition example_ttml :: xml_document where
  "example_ttml = (map (Pair Unbound)
     [Start_Tag (element_named ''tt'' []), Start_Tag (element_named ''body'' []),
      Start_Tag (element_named ''p'' [(''begin'', ''1.5s''), (''end'', ''00:00:03''), (''fontStyle'', ''italic'')]),
      Text_Event ''a  < '', Start_Tag (element_named ''span'' [(''fontWeight'', ''bold''), (''fontStyle'', ''italic'')]),
      Text_Event ''b '', Empty_Tag (element_named ''br'' []), Text_Event ''c'', End_Tag, End_Tag, End_Tag, End_Tag], True)"

definition example_ttml_cue :: cue where
  "example_ttml_cue = \<lparr>cu_start = 1500, cu_end = 3000, cu_text = ''<i>a &lt; <b>b'' @ [CHR 0x0A] @ ''c</b></i>''\<rparr>"

lemma example_ttml_cues: "ttml_cues example_ttml = Inr [example_ttml_cue]"
  by code_simp

theorem ttml_tags_nest_witness: "marked [] (cu_text example_ttml_cue) []"
  using ttml_tags_nest [OF example_ttml_cues] by simp

end
