(* ===== verification/Spec2Isabelle.thy ===== *)
theory Spec2Isabelle
  imports Sample_Tables_Properties Box_Writer Track_Selection Segment_Planner_Laws Edit_Lists_Laws
    Muxed_Fragments Codec_Laws Nal_Laws Bit_Codes Sample_Cipher_Laws Key_Properties
    Source_Metadata_Properties Senc_Roundtrip Segment_Protection_Laws Clip_Properties
    Asset_Cache_Laws Stream_Properties Playlist_Properties Ttml_Laws
begin

text \<open>
  A model of the media core of a packager that serves MP4 files as segments on demand
  (\<^verbatim>\<open>src/src\<close>, a Rust crate).

  \<^bold>\<open>The program.\<close>  A request names an asset and a piece of it.  Opening an asset reads the metadata of its
  source (\<^verbatim>\<open>source/metadata.rs\<close>: the \<^verbatim>\<open>moov\<close> box, every \<^verbatim>\<open>moof\<close> box, with or without a segment index), and
  parses it into an index (\<^verbatim>\<open>mp4/parser.rs\<close> over \<^verbatim>\<open>mp4/tables.rs\<close>, \<^verbatim>\<open>mp4/fragments.rs\<close>, \<^verbatim>\<open>mp4/codec.rs\<close>,
  \<^verbatim>\<open>mp4/protection.rs\<close>, \<^verbatim>\<open>mp4/edit.rs\<close>).  The index holds, for each track, its samples in a compact form
  (\<^verbatim>\<open>media/samples.rs\<close>).  A clip of a file is the index trimmed and moved (\<^verbatim>\<open>clip.rs\<close>).  From the index the
  planner cuts segments (\<^verbatim>\<open>segment/planner.rs\<close>), the init segments are rewritten from the \<^verbatim>\<open>moov\<close> box
  (\<^verbatim>\<open>fmp4/init.rs\<close>), and the playlists list the segments and name the keys (\<^verbatim>\<open>protocol/hls.rs\<close>,
  \<^verbatim>\<open>cenc/signal.rs\<close>).  A request for a segment is answered by a fragment (\<^verbatim>\<open>fmp4/fragment.rs\<close>), decrypted and
  encrypted as the asset asks (\<^verbatim>\<open>cenc/segment.rs\<close>, \<^verbatim>\<open>cenc/schedule.rs\<close>), and streamed in chunks
  (\<^verbatim>\<open>http/range.rs\<close>, \<^verbatim>\<open>http/stream.rs\<close>).  Subtitle files are converted to WebVTT and moved with the
  asset (\<^verbatim>\<open>subtitle/mod.rs\<close>, \<^verbatim>\<open>subtitle/ttml.rs\<close>).  Loaded assets are kept in a cache (\<^verbatim>\<open>registry/cache.rs\<close>).

  \<^bold>\<open>Conventions.\<close>  A function that may fail returns \<open>'a res\<close>: a value, \<open>fail\<close> with the error of the source,
  or \<open>panic\<close>; \<open>and_then\<close> is the question mark operator.  An unsigned machine integer is a \<open>nat\<close> below its
  bound, a signed one an \<open>int\<close>, a byte an \<open>8 word\<close>, a \<open>str\<close> the list of its bytes as characters; checked,
  saturating and wrapping operations are written as the source calls them, and plain operators wrap where
  they could leave the width, as a release build does.  Loops are folds over the list they run through or
  recursive functions with a termination proof; no model uses fuel except \<open>iter_collect\<close> of the sample
  iterator, whose fuel is the length of the range and is proved to be enough (\<open>iterator_agrees_with_get\<close>),
  and the readers of length-prefixed descriptors, whose bound is the one the source has.

  \<^bold>\<open>Theories and the code they model.\<close>
  \<^item> \<open>Vod_Prelude\<close>: results, integers and slices of the standard library, \<^verbatim>\<open>error.rs\<close>.  \<open>Byte_Strings\<close>,
    \<open>Text_Numbers\<close>: big-endian fields, decimal and hexadecimal text.  \<open>Config_Limits\<close>: \<^verbatim>\<open>config/limits.rs\<close>.
  \<^item> \<open>Mp4_Boxes\<close>: the walker and the reader of \<^verbatim>\<open>mp4/boxes.rs\<close>; \<open>Box_Writer\<close>: the writer of
    \<^verbatim>\<open>fmp4/fragment.rs\<close> and both directions of the round trip; \<open>Reader_Safety\<close>, \<open>Reader_Back\<close>: the lemmas
    that carry parser proofs (no panic; a written field is read back).
  \<^item> \<open>Sample_Index\<close>: every operation of \<^verbatim>\<open>media/samples.rs\<close>, and the interface a track offers to the planner
    and the edits, a locale that \<open>Sample_Index_Laws\<close> interprets on the compact index;
    \<open>Sample_Index_Spec\<close>: the list of samples an index stands for and each operation as an operation on it;
    \<open>Sample_Index_Build\<close>: building from samples.
  \<^item> \<open>Sample_Tables\<close>, \<open>Sample_Tables_Parse\<close>, \<open>Sample_Tables_Laws\<close>, \<open>Sample_Tables_Properties\<close>:
    \<^verbatim>\<open>mp4/tables.rs\<close>, and that the compact index is the expansion into one record per sample.
  \<^item> \<open>Media_Index\<close>: \<^verbatim>\<open>media/index.rs\<close> and \<^verbatim>\<open>media/protection.rs\<close>; \<open>Track_Selection\<close>:
    \<^verbatim>\<open>media/selection.rs\<close>.
  \<^item> \<open>Edit_Lists\<close>, \<open>Edit_Lists_Laws\<close>: \<^verbatim>\<open>mp4/edit.rs\<close>, with the 128-bit arithmetic that wraps, exact within
    stated bounds, and an edit of a track as a refinement of an edit of its list of samples.
  \<^item> \<open>Fragment_Reader\<close>, \<open>Fragment_Reader_Laws\<close>: \<^verbatim>\<open>mp4/fragments.rs\<close>.  \<open>Fragment_Writer\<close>,
    \<open>Fragment_Writer_Laws\<close>, \<open>Muxed_Fragments\<close>: \<^verbatim>\<open>fmp4/fragment.rs\<close>; what is written, of one track or of
    several, is read back as the same samples, and where it is not.
  \<^item> \<open>Segment_Planner\<close>, \<open>Segment_Planner_Laws\<close>: \<^verbatim>\<open>segment/planner.rs\<close>; the segments tile the reference track, and
    every other track is cut at the instants of its cuts, brought to its own clock.
  \<^item> \<open>Codec_Entries\<close>, \<open>Codec_Laws\<close>: \<^verbatim>\<open>mp4/codec.rs\<close>.
  \<^item> \<open>Bit_Reader\<close>, \<open>Bit_Codes\<close>: \<^verbatim>\<open>cenc/bits.rs\<close>.  \<open>Avc_Slices\<close>, \<open>Avc_Laws\<close>, \<open>Hevc_Slices\<close>, \<open>Hevc_Laws\<close>:
    \<^verbatim>\<open>cenc/avc.rs\<close> and \<^verbatim>\<open>cenc/hevc.rs\<close>, parameter sets and slice headers.  \<open>Nal_Subsamples\<close>, \<open>Nal_Laws\<close>: the
    walk over the NAL units of a sample in \<^verbatim>\<open>cenc/segment.rs\<close>, proved once for both codecs in the locale
    \<open>slice_codec\<close>; what may be protected is a relation of its own (\<open>protectable\<close>): the rest of each slice
    behind its header, and nothing else.
  \<^item> \<open>Sample_Cipher\<close>, \<open>Sample_Cipher_Laws\<close>: \<^verbatim>\<open>cenc/cipher.rs\<close>, the four schemes undone in
    \<^verbatim>\<open>cenc/source.rs\<close>; what they undo is a reference encryption (\<open>encrypted_sample\<close>) written from the schemes
    and not from the code.  \<open>Key_Material\<close>, \<open>Key_Laws\<close>, \<open>Key_Properties\<close>: \<^verbatim>\<open>cenc/keys.rs\<close>,
    \<^verbatim>\<open>cenc/source_keys.rs\<close>, \<^verbatim>\<open>cenc/aes128.rs\<close>.
  \<^item> \<open>Source_Metadata\<close>, \<open>Source_Metadata_Laws\<close>, \<open>Source_Metadata_Properties\<close>: \<^verbatim>\<open>source/metadata.rs\<close>.
  \<^item> \<open>Source_Protection\<close>, \<open>Source_Protection_Laws\<close>: \<^verbatim>\<open>mp4/protection.rs\<close>; \<open>Senc_Roundtrip\<close>: it reads what the
    fragment writer writes.
  \<^item> \<open>Movie_Parser\<close>, \<open>Movie_Parser_Laws\<close>: \<^verbatim>\<open>mp4/parser.rs\<close>; \<open>Media_Opening\<close>: discovery and parser composed,
    with \<open>Media_Opening_Examples\<close> on a small file.
  \<^item> \<open>Init_Segments\<close>, \<open>Init_Laws\<close>, \<open>Init_Properties\<close>: \<^verbatim>\<open>fmp4/init.rs\<close>; the parser of source files reads an
    init segment as a movie of exactly its tracks, clear ones or those of a protected source, and a declared
    protection as declared.
  \<^item> \<open>Segment_Protection\<close>: \<^verbatim>\<open>cenc/segment.rs\<close>, \<^verbatim>\<open>cenc/schedule.rs\<close>, \<^verbatim>\<open>cenc/source.rs\<close>.
    \<open>Segment_Protection_Laws\<close>: an encrypted segment is decrypted back, and the readers of protected sources
    find how in the fragment, unless it carries a key of its own (a \<^verbatim>\<open>seig\<close> group), which they refuse;
    \<open>Key_Schedule_Laws\<close>: every segment is under the keys of the period in force.
  \<^item> \<open>Presentation\<close>: \<^verbatim>\<open>protocol/presentation.rs\<close> and \<^verbatim>\<open>cenc/signal.rs\<close>.  \<open>Hls_Playlists\<close>:
    \<^verbatim>\<open>protocol/hls.rs\<close>, every playlist as the text that is sent.  \<open>Playlist_Laws\<close>, \<open>Playlist_Properties\<close>: a
    reader of playlists, and that it reads back the segments of a track, the sync samples of the I-frame
    playlist and, for each segment, the keys in force; a period that HLS cannot name writes no key line, and
    its segments stand under the keys before it (\<open>unnamed_period_under_old_keys\<close>).
  \<^item> \<open>Clips\<close>, \<open>Clip_Laws\<close>, \<open>Clip_Properties\<close>: \<^verbatim>\<open>clip.rs\<close>.
  \<^item> \<open>Asset_Cache\<close>, \<open>Asset_Cache_Laws\<close>: \<^verbatim>\<open>registry/cache.rs\<close>, with an asset as a type parameter.
  \<^item> \<open>Segment_Stream\<close>, \<open>Segment_Stream_Laws\<close>, \<open>Stream_Properties\<close>: \<^verbatim>\<open>http/range.rs\<close> and
    \<^verbatim>\<open>http/stream.rs\<close>, the reads of a response planned and its bytes sent in order.
  \<^item> \<open>Text_Lines\<close>, \<open>Whole_Lines\<close>: lines, white space and searching of text.  \<open>Subtitle_Text\<close>,
    \<open>Subtitle_Laws\<close>, \<open>Subtitle_Properties\<close>: \<^verbatim>\<open>subtitle/mod.rs\<close>; \<open>Ttml_Cues\<close>, \<open>Ttml_Laws\<close>:
    \<^verbatim>\<open>subtitle/ttml.rs\<close>.  \<open>Subrip_Laws\<close>: a writer of SubRip files and a reader of WebVTT files that do not use
    the code.  Every timing line of a WebVTT file is moved; a SubRip file is served as a WebVTT file that the
    reader reads as its captions, sorted and moved; and the tags of a TTML cue nest.

  \<^bold>\<open>Parameters.\<close>  Code outside the repository is a parameter of the definitions that use it, and what a
  property needs of it is a hypothesis of that property: a read of a range of the source (it returns as many
  bytes as were asked for, or an error), the order in which parallel reads finish (any, each once), AES (a
  block permutation with its inverse), SHA-256, BLAKE3 (any functions; the fingerprint property asks that
  the values hashed do not collide), base64 (its text has no line break, where a playlist is read back), the
  URL parser, the XML library (any sequence of events), and the number of processors.

  \<^bold>\<open>Bounds.\<close>  Properties of the compact index ask for at most \<open>2\<^sup>3\<^sup>2\<close> samples in a track, which the sample
  tables enforce by their own width; those of a whole file ask for less than \<open>2\<^sup>3\<^sup>2\<close> bytes of metadata.  The
  default limits are below both.

  \<^bold>\<open>Not modelled.\<close>  Asynchronous I/O over external libraries: the sources themselves, the HTTP server around
  the streaming task, the calls to the resolver and the authorization service, the registry that coalesces
  loads over tokio primitives and the clock.  The assembly of an asset, of a sequence and of an adaptive or
  composite asset (\<^verbatim>\<open>asset.rs\<close>, \<^verbatim>\<open>sequence.rs\<close>, \<^verbatim>\<open>adaptive.rs\<close>, \<^verbatim>\<open>composite.rs\<close>), which call the modelled parts in
  turn and hold the results.  The XML text of DASH manifests, configuration files
  read by a deserialiser, the command line, logging and metrics.
\<close>

end
